(* ===== verification/Prelude.thy ===== *)
theory Prelude
  imports Main "HOL-Library.AList"
begin

text \<open>
  Shared vocabulary of the development: byte strings, Python dictionaries as association
  lists in insertion order, Python exceptions, and the outcome of a computation that
  mutates a state and may raise (the state survives the exception, as it does in Python).

  The collections: \<open>dict_simps\<close> rewrites lookups after dictionary updates,
  \<open>outcome_simps\<close> runs sequenced computations, \<open>sat_intros\<close> holds the rules
  that push a state property through them.
\<close>

named_theorems dict_simps "lookup laws of dictionaries"
named_theorems outcome_simps "computation laws of outcomes"
named_theorems sat_intros "rules for properties of the states an outcome can leave"

section \<open>Byte strings and dictionaries\<close>

text \<open>A Python \<open>bytes\<close> value is a list of 8-bit characters.\<close>

type_synonym bytes = string

text \<open>
  A Python \<open>dict\<close> keeps insertion order; assigning to a present key keeps its position.
  \<open>AList.update\<close> and \<open>AList.delete\<close> of the library do exactly that.
\<close>

type_synonym ('k, 'v) dict = "('k \<times> 'v) list"

definition dict_get :: "('k, 'v) dict \<Rightarrow> 'k \<Rightarrow> 'v option" where
  "dict_get d k = map_of d k"

definition dict_set :: "'k \<Rightarrow> 'v \<Rightarrow> ('k, 'v) dict \<Rightarrow> ('k, 'v) dict" where
  "dict_set k v d = AList.update k v d"

definition dict_pop :: "'k \<Rightarrow> ('k, 'v) dict \<Rightarrow> ('k, 'v) dict" where
  "dict_pop k d = AList.delete k d"

definition dict_has :: "('k, 'v) dict \<Rightarrow> 'k \<Rightarrow> bool" where
  "dict_has d k = (k \<in> set (map fst d))"

definition dict_keys :: "('k, 'v) dict \<Rightarrow> 'k list" where
  "dict_keys d = map fst d"

definition dict_ok :: "('k, 'v) dict \<Rightarrow> bool" where
  "dict_ok d = distinct (map fst d)"

lemma dict_get_empty [simp]: "dict_get [] k = None"
  by (simp add: dict_get_def)

lemma dict_get_Cons: "dict_get ((a, b) # d) k = (if k = a then Some b else dict_get d k)"
  by (auto simp: dict_get_def)

lemma dict_get_set [simp, dict_simps]:
  "dict_get (dict_set k v d) k' = (if k' = k then Some v else dict_get d k')"
  by (simp add: dict_get_def dict_set_def update_conv)

lemma dict_get_pop [simp, dict_simps]:
  "dict_get (dict_pop k d) k' = (if k' = k then None else dict_get d k')"
  by (simp add: dict_get_def dict_pop_def delete_conv)

lemma dict_has_iff [dict_simps]: "dict_has d k \<longleftrightarrow> dict_get d k \<noteq> None"
  by (simp add: dict_has_def dict_get_def map_of_eq_None_iff)

lemma dict_hasI: "dict_get d k = Some v \<Longrightarrow> dict_has d k"
  by (simp add: dict_has_iff)

lemma dict_has_empty [simp]: "\<not> dict_has [] k"
  by (simp add: dict_has_iff)

lemma dict_has_set [simp]: "dict_has (dict_set k v d) k' \<longleftrightarrow> k' = k \<or> dict_has d k'"
  by (auto simp: dict_has_iff)

lemma dict_has_pop [simp]: "dict_has (dict_pop k d) k' \<longleftrightarrow> k' \<noteq> k \<and> dict_has d k'"
  by (auto simp: dict_has_iff)

lemma set_dict_keys: "set (dict_keys d) = {k. dict_has d k}"
  by (auto simp: dict_keys_def dict_has_def)

lemma dict_ok_empty [simp]: "dict_ok []"
  by (simp add: dict_ok_def)

lemma dict_ok_set [simp]: "dict_ok d \<Longrightarrow> dict_ok (dict_set k v d)"
  by (simp add: dict_ok_def dict_set_def distinct_update)

lemma dict_ok_pop [simp]: "dict_ok d \<Longrightarrow> dict_ok (dict_pop k d)"
  by (simp add: dict_ok_def dict_pop_def distinct_delete)

lemma distinct_dict_keys [simp]: "distinct (dict_keys d) \<longleftrightarrow> dict_ok d"
  by (simp add: dict_keys_def dict_ok_def)

lemma dict_get_SomeD: "dict_get d k = Some v \<Longrightarrow> (k, v) \<in> set d"
  by (simp add: dict_get_def map_of_SomeD)

lemma dict_get_in_set: "dict_ok d \<Longrightarrow> (k, v) \<in> set d \<Longrightarrow> dict_get d k = Some v"
  by (simp add: dict_get_def dict_ok_def)

lemma dict_mem_iff: "dict_ok d \<Longrightarrow> (k, v) \<in> set d \<longleftrightarrow> dict_get d k = Some v"
  by (blast intro: dict_get_in_set dict_get_SomeD)

lemma dict_pop_absent [simp]: "\<not> dict_has d k \<Longrightarrow> dict_pop k d = d"
  by (force simp: dict_pop_def dict_has_def AList.delete_eq intro!: filter_True)

lemma dict_set_absent: "\<not> dict_has d k \<Longrightarrow> dict_set k v d = d @ [(k, v)]"
  by (induction d) (auto simp: dict_set_def dict_has_def)

text \<open>Counting the entries of a dictionary that satisfy a predicate.\<close>

definition dict_count :: "('v \<Rightarrow> bool) \<Rightarrow> ('k, 'v) dict \<Rightarrow> nat" where
  "dict_count P d = length (filter (\<lambda>kv. P (snd kv)) d)"

lemma dict_count_empty [simp]: "dict_count P [] = 0"
  by (simp add: dict_count_def)

lemma dict_count_new:
  "\<not> dict_has d k \<Longrightarrow> dict_count P (dict_set k v d) = dict_count P d + (if P v then 1 else 0)"
  by (simp add: dict_count_def dict_set_absent)

lemma dict_count_set:
  "dict_ok d \<Longrightarrow> dict_get d k = Some u \<Longrightarrow>
    dict_count P (dict_set k v d) + (if P u then 1 else 0) = dict_count P d + (if P v then 1 else 0)"
proof (induction d)
  case Nil
  then show ?case by simp
next
  case (Cons kv d)
  obtain a b where kv: "kv = (a, b)" by (cases kv)
  show ?case
    using Cons by (auto simp: kv dict_count_def dict_set_def dict_ok_def dict_get_def)
qed

lemma dict_count_pop:
  "dict_ok d \<Longrightarrow> dict_get d k = Some u \<Longrightarrow>
    dict_count P (dict_pop k d) + (if P u then 1 else 0) = dict_count P d"
proof (induction d)
  case Nil
  then show ?case by simp
next
  case (Cons kv d)
  obtain a b where kv: "kv = (a, b)" by (cases kv)
  show ?case
  proof (cases "a = k")
    case True
    with Cons.prems have "\<not> dict_has d k" by (simp add: kv dict_ok_def dict_has_def)
    moreover have "u = b" using Cons.prems(2) by (simp add: kv True dict_get_def)
    moreover have "AList.delete k d = d"
      using dict_pop_absent [OF \<open>\<not> dict_has d k\<close>] by (simp add: dict_pop_def)
    ultimately show ?thesis by (simp add: kv True dict_count_def dict_pop_def)
  next
    case False
    have "dict_ok d" "dict_get d k = Some u"
      using Cons.prems False by (auto simp: kv dict_ok_def dict_get_def)
    from Cons.IH [OF this] show ?thesis
      using False by (simp add: kv dict_count_def dict_pop_def)
  qed
qed

section \<open>Lists\<close>

text \<open>\<open>deque.remove\<close> and the removal of one element from a set kept as a list.\<close>

lemma those_map_Some: "(\<And>x. x \<in> set xs \<Longrightarrow> f x = Some (g x)) \<Longrightarrow> those (map f xs) = Some (map g xs)"
  by (induction xs) auto

lemma set_remove1_iff: "distinct xs \<Longrightarrow> y \<in> set (remove1 x xs) \<longleftrightarrow> y \<in> set xs \<and> y \<noteq> x"
  by simp

lemma length_filter_member:
  "distinct xs \<Longrightarrow> x \<in> set xs \<Longrightarrow> length xs = Suc (length (remove1 x xs))"
  by (metis length_Suc_conv length_remove1 list.set_cases length_pos_if_in_set Suc_pred')

text \<open>A Python \<open>set\<close> kept as a duplicate-free list: \<open>add\<close> appends a new element.\<close>

definition set_add :: "'a \<Rightarrow> 'a list \<Rightarrow> 'a list" where
  "set_add x xs = (if x \<in> set xs then xs else xs @ [x])"

lemma set_set_add [simp]: "set (set_add x xs) = insert x (set xs)"
  by (auto simp: set_add_def)

lemma distinct_set_add [simp]: "distinct (set_add x xs) \<longleftrightarrow> distinct xs"
  by (auto simp: set_add_def)

section \<open>Exceptions and outcomes\<close>

datatype py_exn =
    KeyError | ValueError | AssertionError | SystemError | QueueEmpty | CycleError | StorageError
  | ClientShutdown | StructError | RuntimeError | TypeError | TimeoutError | InvalidStateError
  | MissingObjects | ClientQuit | YMQError | CancelledError | ClientCancelled | DisconnectedError | DeserializeObjectError | ProcessLookupError

text \<open>
  What a call leaves behind: a value or an exception, in both cases with the state as the
  call left it. \<open>NoFuel\<close> is the bounded model giving up; it is not an exception and no
  handler catches it.
\<close>

datatype ('a, 's) outcome = Ret 'a 's | Raise py_exn 's | NoFuel

type_synonym ('a, 's) comp = "'s \<Rightarrow> ('a, 's) outcome"

definition ret :: "'a \<Rightarrow> ('a, 's) comp" where
  "ret a = (\<lambda>s. Ret a s)"

definition andthen :: "('a, 's) comp \<Rightarrow> ('a \<Rightarrow> ('b, 's) comp) \<Rightarrow> ('b, 's) comp" where
  "andthen m f = (\<lambda>s. case m s of Ret a s' \<Rightarrow> f a s' | Raise e s' \<Rightarrow> Raise e s' | NoFuel \<Rightarrow> NoFuel)"

definition seq :: "('a, 's) comp \<Rightarrow> ('b, 's) comp \<Rightarrow> ('b, 's) comp" where
  "seq m n = andthen m (\<lambda>_. n)"

text \<open>\<open>try: m; except Exception: h\<close>.\<close>

definition try_except :: "('a, 's) comp \<Rightarrow> ('a, 's) comp \<Rightarrow> ('a, 's) comp" where
  "try_except m h = (\<lambda>s. case m s of Raise e s' \<Rightarrow> h s' | r \<Rightarrow> r)"

definition modify :: "('s \<Rightarrow> 's) \<Rightarrow> (unit, 's) comp" where
  "modify f = (\<lambda>s. Ret () (f s))"

definition gets :: "('s \<Rightarrow> 'a) \<Rightarrow> ('a, 's) comp" where
  "gets f = (\<lambda>s. Ret (f s) s)"

definition raise :: "py_exn \<Rightarrow> ('a, 's) comp" where
  "raise e = (\<lambda>s. Raise e s)"

text \<open>\<open>d[k]\<close>: the value of a present key, \<open>KeyError\<close> otherwise.\<close>

definition lookup :: "('s \<Rightarrow> ('k, 'v) dict) \<Rightarrow> 'k \<Rightarrow> ('v, 's) comp" where
  "lookup f k = (\<lambda>s. case dict_get (f s) k of None \<Rightarrow> Raise KeyError s | Some v \<Rightarrow> Ret v s)"

text \<open>The result of a function that may raise but changes no state.\<close>

definition of_sum :: "py_exn + 'a \<Rightarrow> ('a, 's) comp" where
  "of_sum r = (case r of Inl e \<Rightarrow> raise e | Inr a \<Rightarrow> ret a)"

text \<open>\<open>assert b\<close>, then the rest.\<close>

definition check :: "bool \<Rightarrow> ('a, 's) comp \<Rightarrow> ('a, 's) comp" where
  "check b m = (if b then m else raise AssertionError)"

text \<open>\<open>for x in xs: body\<close>.\<close>

fun for_each :: "'x list \<Rightarrow> ('x \<Rightarrow> (unit, 's) comp) \<Rightarrow> (unit, 's) comp" where
  "for_each [] f = ret ()"
| "for_each (x # xs) f = seq (f x) (for_each xs f)"

text \<open>
  \<open>asyncio.gather(*coroutines)\<close>: every coroutine runs, in order; the first exception is
  the one the caller sees.
\<close>

fun gather :: "(unit, 's) comp list \<Rightarrow> (unit, 's) comp" where
  "gather [] = ret ()"
| "gather (m # ms) = (\<lambda>s. case m s of
     Ret _ s' \<Rightarrow> gather ms s'
   | Raise e s' \<Rightarrow> (case gather ms s' of Ret _ s'' \<Rightarrow> Raise e s'' | Raise _ s'' \<Rightarrow> Raise e s'' | NoFuel \<Rightarrow> NoFuel)
   | NoFuel \<Rightarrow> NoFuel)"

text \<open>A computation that cannot raise and always returns.\<close>

definition pure_step :: "('s \<Rightarrow> 'a \<times> 's) \<Rightarrow> ('a, 's) comp" where
  "pure_step f = (\<lambda>s. Ret (fst (f s)) (snd (f s)))"

lemma ret_run [simp, outcome_simps]: "ret a s = Ret a s"
  by (simp add: ret_def)

lemma modify_run [simp, outcome_simps]: "modify f s = Ret () (f s)"
  by (simp add: modify_def)

lemma gets_run [simp, outcome_simps]: "gets f s = Ret (f s) s"
  by (simp add: gets_def)

lemma raise_run [simp, outcome_simps]: "raise e s = Raise e s"
  by (simp add: raise_def)

lemma pure_step_run [simp, outcome_simps]: "pure_step f s = Ret (fst (f s)) (snd (f s))"
  by (simp add: pure_step_def)

lemma lookup_run [outcome_simps]:
  "lookup f k s = (case dict_get (f s) k of None \<Rightarrow> Raise KeyError s | Some v \<Rightarrow> Ret v s)"
  by (simp add: lookup_def)

lemma lookup_Some [simp]: "dict_get (f s) k = Some v \<Longrightarrow> lookup f k s = Ret v s"
  by (simp add: lookup_def)

lemma lookup_None [simp]: "dict_get (f s) k = None \<Longrightarrow> lookup f k s = Raise KeyError s"
  by (simp add: lookup_def)

lemma andthen_run [outcome_simps]:
  "andthen m f s = (case m s of Ret a s' \<Rightarrow> f a s' | Raise e s' \<Rightarrow> Raise e s' | NoFuel \<Rightarrow> NoFuel)"
  by (simp add: andthen_def)

lemma seq_run [outcome_simps]:
  "seq m n s = (case m s of Ret a s' \<Rightarrow> n s' | Raise e s' \<Rightarrow> Raise e s' | NoFuel \<Rightarrow> NoFuel)"
  by (simp add: seq_def andthen_def)

lemma try_except_run [outcome_simps]:
  "try_except m h s = (case m s of Raise e s' \<Rightarrow> h s' | r \<Rightarrow> r)"
  by (simp add: try_except_def)

lemma andthen_Ret [simp]: "m s = Ret a s' \<Longrightarrow> andthen m f s = f a s'"
  by (simp add: andthen_def)

lemma seq_Ret [simp]: "m s = Ret a s' \<Longrightarrow> seq m n s = n s'"
  by (simp add: seq_run)

lemma try_except_Ret [simp]: "m s = Ret a s' \<Longrightarrow> try_except m h s = Ret a s'"
  by (simp add: try_except_run)

section \<open>Properties of the states an outcome leaves\<close>

text \<open>
  \<open>sat P Q r\<close>: the call ends; a returned value and state satisfy \<open>P\<close>, a state left by
  an exception satisfies \<open>Q\<close>. A bounded model that gives up satisfies nothing, so every
  \<open>sat\<close> statement includes that the fuel was enough.
\<close>

fun sat :: "('a \<Rightarrow> 's \<Rightarrow> bool) \<Rightarrow> ('s \<Rightarrow> bool) \<Rightarrow> ('a, 's) outcome \<Rightarrow> bool" where
  "sat P Q (Ret a s) = P a s"
| "sat P Q (Raise e s) = Q s"
| "sat P Q NoFuel = False"

lemma sat_ret [sat_intros]: "P a s \<Longrightarrow> sat P Q (ret a s)"
  by simp

lemma sat_raise [sat_intros]: "Q s \<Longrightarrow> sat P Q (raise e s)"
  by simp

lemma sat_modify [sat_intros]: "P () (f s) \<Longrightarrow> sat P Q (modify f s)"
  by simp

lemma sat_gets [sat_intros]: "P (f s) s \<Longrightarrow> sat P Q (gets f s)"
  by simp

lemma sat_lookup [sat_intros]:
  "(\<And>v. dict_get (f s) k = Some v \<Longrightarrow> P v s) \<Longrightarrow> (dict_get (f s) k = None \<Longrightarrow> Q s) \<Longrightarrow>
    sat P Q (lookup f k s)"
  by (simp add: lookup_def split: option.splits)

lemma sat_andthen:
  "sat R Q (m s) \<Longrightarrow> (\<And>a s'. R a s' \<Longrightarrow> sat P Q (f a s')) \<Longrightarrow> sat P Q (andthen m f s)"
  by (cases "m s") (auto simp: andthen_def)

lemma sat_seq:
  "sat R Q (m s) \<Longrightarrow> (\<And>a s'. R a s' \<Longrightarrow> sat P Q (n s')) \<Longrightarrow> sat P Q (seq m n s)"
  by (cases "m s") (auto simp: seq_run)

lemma sat_try_except:
  "sat P Q' (m s) \<Longrightarrow> (\<And>s'. Q' s' \<Longrightarrow> sat P Q (h s')) \<Longrightarrow> sat P Q (try_except m h s)"
  by (cases "m s") (auto simp: try_except_run)

lemma sat_mono:
  "sat P Q r \<Longrightarrow> (\<And>a s. P a s \<Longrightarrow> P' a s) \<Longrightarrow> (\<And>s. Q s \<Longrightarrow> Q' s) \<Longrightarrow> sat P' Q' r"
  by (cases r) auto

lemma sat_conj: "sat P Q r \<Longrightarrow> sat P' Q' r \<Longrightarrow> sat (\<lambda>a s. P a s \<and> P' a s) (\<lambda>s. Q s \<and> Q' s) r"
  by (cases r) auto

text \<open>An invariant of the loop body is an invariant of the loop.\<close>

lemma sat_for_each:
  assumes "\<And>x s. x \<in> set xs \<Longrightarrow> I s \<Longrightarrow> sat (\<lambda>_. I) Q (f x s)" and "I s"
  shows "sat (\<lambda>_. I) Q (for_each xs f s)"
  using assms
proof (induction xs arbitrary: s)
  case Nil
  then show ?case by simp
next
  case (Cons x xs)
  have "sat (\<lambda>_. I) Q (f x s)" using Cons.prems by simp
  then have "sat (\<lambda>_. I) Q (seq (f x) (for_each xs f) s)"
    by (rule sat_seq) (rule Cons.IH, auto intro: Cons.prems)
  then show ?case by simp
qed

text \<open>The same with an invariant that follows the part of the list still to run.\<close>

lemma sat_for_each_rest:
  assumes "\<And>x ys s. I (x # ys) s \<Longrightarrow> sat (\<lambda>_. I ys) Q (f x s)" and "I xs s"
  shows "sat (\<lambda>_. I []) Q (for_each xs f s)"
  using assms(2)
proof (induction xs arbitrary: s)
  case Nil
  then show ?case by simp
next
  case (Cons x xs)
  have "sat (\<lambda>_. I xs) Q (f x s)" using Cons.prems by (rule assms(1))
  then have "sat (\<lambda>_. I []) Q (seq (f x) (for_each xs f) s)"
    by (rule sat_seq) (rule Cons.IH)
  then show ?case by simp
qed

lemma sat_gather:
  assumes "\<And>m s. m \<in> set ms \<Longrightarrow> I s \<Longrightarrow> sat (\<lambda>_. I) I (m s)" and "I s"
  shows "sat (\<lambda>_. I) I (gather ms s)"
  using assms
proof (induction ms arbitrary: s)
  case Nil
  then show ?case by simp
next
  case (Cons m ms)
  have "sat (\<lambda>_. I) I (m s)" using Cons.prems by simp
  moreover have "sat (\<lambda>_. I) I (gather ms s')" if "I s'" for s'
    by (rule Cons.IH) (use Cons.prems that in auto)
  ultimately show ?case by (auto split: outcome.splits dest!: Cons.IH) (metis sat.simps)+
qed

text \<open>Outcomes that do return, with or without an exception.\<close>

definition fueled :: "('a, 's) outcome \<Rightarrow> bool" where
  "fueled r = (r \<noteq> NoFuel)"

lemma fueled_simps [simp]: "fueled (Ret a s)" "fueled (Raise e s)" "\<not> fueled NoFuel"
  by (auto simp: fueled_def)

end
