(* ===== verification/Protocol.thy ===== *)
theory Protocol
  imports Prelude
begin

text \<open>
  Identifiers (\<open>src/src/scaler/utility/identifiers.py\<close>) and the messages of the protocol
  (\<open>src/src/protocol\<close>) as the Python code sees them: structs as records, enums as
  datatypes. Only the fields the modelled code reads or writes are kept. The MD5 digest
  and the random tags of \<open>uuid4\<close> are arguments.
\<close>

section \<open>Identifiers\<close>

type_synonym WorkerID = bytes
type_synonym ClientID = bytes
type_synonym TaskID = bytes
type_synonym ObjectID = bytes
type_synonym ProcessorID = bytes

definition invalid_worker_id :: WorkerID where
  "invalid_worker_id = ''''"

definition worker_is_valid :: "WorkerID \<Rightarrow> bool" where
  "worker_is_valid w = (w \<noteq> invalid_worker_id)"

lemma invalid_worker_not_valid [simp]: "\<not> worker_is_valid invalid_worker_id"
  by (simp add: worker_is_valid_def)

text \<open>\<open>ClientID.generate_client_id\<close> and \<open>WorkerID.generate_worker_id\<close>, the tag in hexadecimal.\<close>

definition generate_client_id :: "bytes option \<Rightarrow> bytes \<Rightarrow> ClientID" where
  "generate_client_id name tag =
     (case name of None \<Rightarrow> ''Client|'' @ tag | Some n \<Rightarrow> ''Client|'' @ n @ ''|'' @ tag)"

definition generate_worker_id :: "bytes \<Rightarrow> bytes \<Rightarrow> WorkerID" where
  "generate_worker_id name tag = ''Worker|'' @ name @ ''|'' @ tag"

text \<open>The scheduler tells clients apart by this prefix (\<open>source.startswith(b"Client|")\<close>).\<close>

definition is_client_source :: "bytes \<Rightarrow> bool" where
  "is_client_source b = (take 7 b = ''Client|'')"

lemma generate_client_id_source: "is_client_source (generate_client_id name tag)"
  by (cases name) (simp_all add: generate_client_id_def is_client_source_def)

lemma generate_worker_id_valid: "worker_is_valid (generate_worker_id name tag)"
  by (simp add: worker_is_valid_def invalid_worker_id_def generate_worker_id_def)

lemma generate_worker_id_not_client: "\<not> is_client_source (generate_worker_id name tag)"
  by (simp add: generate_worker_id_def is_client_source_def)

text \<open>Object identifiers: 16 bytes of the owner's digest, then a 16-byte tag.\<close>

definition object_id_new :: "bytes \<Rightarrow> py_exn + ObjectID" where
  "object_id_new b = (if length b \<noteq> 32 then Inl ValueError else Inr b)"

definition generate_object_id :: "(bytes \<Rightarrow> bytes) \<Rightarrow> bytes \<Rightarrow> ClientID \<Rightarrow> py_exn + ObjectID" where
  "generate_object_id md5 tag owner = object_id_new (md5 owner @ tag)"

definition generate_serializer_object_id :: "(bytes \<Rightarrow> bytes) \<Rightarrow> ClientID \<Rightarrow> py_exn + ObjectID" where
  "generate_serializer_object_id md5 owner = object_id_new (md5 owner @ md5 ''serializer'')"

definition object_owner_hash :: "ObjectID \<Rightarrow> bytes" where
  "object_owner_hash oid = take 16 oid"

definition object_tag :: "ObjectID \<Rightarrow> bytes" where
  "object_tag oid = drop 16 oid"

definition object_is_serializer :: "(bytes \<Rightarrow> bytes) \<Rightarrow> ObjectID \<Rightarrow> bool" where
  "object_is_serializer md5 oid = (object_tag oid = md5 ''serializer'')"

definition object_is_owner :: "(bytes \<Rightarrow> bytes) \<Rightarrow> ClientID \<Rightarrow> ObjectID \<Rightarrow> bool" where
  "object_is_owner md5 owner oid = (md5 owner = object_owner_hash oid)"

lemma generate_object_id_spec:
  assumes "\<And>b. length (md5 b) = 16" and "length tag = 16"
  shows "\<exists>oid. generate_object_id md5 tag owner = Inr oid \<and> object_is_owner md5 owner oid \<and> object_tag oid = tag"
  using assms by (simp add: generate_object_id_def object_id_new_def object_is_owner_def
      object_owner_hash_def object_tag_def)

lemma generate_serializer_object_id_spec:
  assumes "\<And>b. length (md5 b) = 16"
  shows "\<exists>oid. generate_serializer_object_id md5 owner = Inr oid \<and> object_is_owner md5 owner oid \<and>
    object_is_serializer md5 oid"
  using assms by (simp add: generate_serializer_object_id_def object_id_new_def object_is_owner_def
      object_owner_hash_def object_tag_def object_is_serializer_def)

section \<open>Enums\<close>

datatype TaskResultType = TR_success | TR_failed | TR_failedWorkerDied

datatype TaskCancelConfirmType = CC_canceled | CC_cancelFailed | CC_cancelNotFound

datatype TaskState =
    TS_inactive | TS_running | TS_canceling | TS_balanceCanceling
  | TS_success | TS_failed | TS_failedWorkerDied | TS_canceled | TS_canceledNotFound

datatype WorkerState = WS_connected | WS_disconnected

datatype ObjectContentType = OC_serializer | OC_object

datatype NodeTaskType = NT_normal | NT_target

section \<open>Messages\<close>

type_synonym capabilities = "(string, int) dict"

text \<open>A task argument: the id of a task whose result is the argument, or of an object.\<close>

datatype Argument = TaskArgument TaskID | ObjectArgument ObjectID

record Task =
  taskId :: TaskID
  task_source :: ClientID
  task_metadata :: bytes
  funcObjectId :: ObjectID
  functionArgs :: "Argument list"
  task_capabilities :: capabilities

record TaskCancel =
  cancel_taskId :: TaskID
  cancel_force :: bool

record TaskCancelConfirm =
  confirm_taskId :: TaskID
  cancelConfirmType :: TaskCancelConfirmType

record TaskResult =
  result_taskId :: TaskID
  resultType :: TaskResultType
  result_metadata :: bytes
  result_objects :: "bytes list"

record GraphTask =
  graph_taskId :: TaskID
  graph_source :: ClientID
  graph_targets :: "TaskID list"
  graph_tasks :: "Task list"

record DesiredTaskConcurrencyRequest =
  taskConcurrency :: int
  request_capabilities :: capabilities

record WorkerManagerHeartbeat =
  maxTaskConcurrency :: int
  manager_capabilities :: capabilities
  workerManagerID :: bytes

text \<open>What the scheduler sends through its \<open>AsyncBinder\<close>, to a client, a worker or a manager.\<close>

datatype message =
    MsgTask Task
  | MsgTaskCancel TaskCancel
  | MsgTaskCancelConfirm TaskCancelConfirm
  | MsgTaskResult TaskResult
  | MsgTaskLog TaskID bytes
  | MsgClientHeartbeatEcho
  | MsgWorkerHeartbeatEcho
  | MsgWorkerManagerHeartbeatEcho
  | MsgWorkerManagerCommand "DesiredTaskConcurrencyRequest list"
  | MsgClientShutdownResponse bool
  | MsgShutdown
  | MsgObjectDelete "ObjectID list"

text \<open>What the scheduler publishes to its monitor.\<close>

datatype monitor_message =
    StateTask TaskID bytes TaskState WorkerID capabilities bytes
  | StateWorker WorkerID WorkerState capabilities
  | StateGraphTask TaskID TaskID NodeTaskType "TaskID list"
  | StateBalanceAdvice WorkerID "TaskID list"

text \<open>
  \<open>capabilities_to_dict\<close> over a capnp list: a dict comprehension, where a later entry
  of the same name overwrites the value of an earlier one. \<open>dict_to_capabilities\<close> lists
  the items again.
\<close>

definition capabilities_to_dict :: "(string \<times> int) list \<Rightarrow> capabilities" where
  "capabilities_to_dict cs = foldl (\<lambda>d c. dict_set (fst c) (snd c) d) [] cs"

definition dict_to_capabilities :: "capabilities \<Rightarrow> (string \<times> int) list" where
  "dict_to_capabilities d = map (\<lambda>(name, value). (name, value)) d"

lemma foldl_dict_set_fresh:
  "dict_ok (d @ cs) \<Longrightarrow> foldl (\<lambda>d c. dict_set (fst c) (snd c) d) d cs = d @ cs"
proof (induction cs arbitrary: d)
  case Nil
  then show ?case by simp
next
  case (Cons c cs)
  have "\<not> dict_has d (fst c)" using Cons.prems by (auto simp: dict_ok_def dict_has_def)
  then show ?case using Cons.IH [of "d @ [c]"] Cons.prems by (simp add: dict_set_absent)
qed

lemma foldl_dict_set_ok:
  "dict_ok d \<Longrightarrow> dict_ok (foldl (\<lambda>d c. dict_set (fst c) (snd c) d) d cs)"
  by (induction cs arbitrary: d) auto

lemma capabilities_to_dict_ok: "dict_ok (capabilities_to_dict cs)"
  by (simp add: capabilities_to_dict_def foldl_dict_set_ok)

lemma capabilities_roundtrip:
  "dict_ok d \<Longrightarrow> capabilities_to_dict (dict_to_capabilities d) = d"
  using foldl_dict_set_fresh [of "[]" d]
  by (simp add: capabilities_to_dict_def dict_to_capabilities_def)

text \<open>\<open>d.items() <= e.items()\<close>: every item of one dictionary is an item of the other.\<close>

definition items_subset :: "capabilities \<Rightarrow> capabilities \<Rightarrow> bool" where
  "items_subset d e = list_all (\<lambda>(k, v). dict_get e k = Some v) d"

lemma items_subset_empty [simp]: "items_subset [] e"
  by (simp add: items_subset_def)

text \<open>A subtask depends on the subtasks whose results it takes.\<close>

definition graph_depends :: "Task list \<Rightarrow> (TaskID \<times> TaskID) set" where
  "graph_depends ts = {(taskId task, t) | task t. task \<in> set ts \<and> TaskArgument t \<in> set (functionArgs task)}"

lemma graph_depends_iff: "(n, t) \<in> graph_depends ts \<longleftrightarrow> (\<exists>task \<in> set ts. taskId task = n \<and> TaskArgument t \<in> set (functionArgs task))"
  by (auto simp: graph_depends_def)

end
