(* ===== verification/Encoding.thy ===== *)
theory Encoding
  imports Protocol "HOL-Library.Word"
begin

text \<open>
  The binary encodings the Python code writes with \<open>struct\<close>: object identifiers as four 64-bit
  fields (\<open>src/src/scaler/protocol/helpers.py\<close>, format \<open>!QQQQ\<close>) and task flags
  (\<open>src/src/scaler/utility/metadata/task_flags.py\<close>, format \<open>!?i?\<close>). The prefix \<open>!\<close> is network byte order without
  padding. A value outside the range of its format and data of the wrong length are
  \<open>struct.error\<close>.
\<close>

section \<open>Big-endian numbers\<close>

fun be_bytes :: "nat \<Rightarrow> nat \<Rightarrow> bytes" where
  "be_bytes 0 n = []"
| "be_bytes (Suc k) n = be_bytes k (n div 256) @ [char_of (n mod 256)]"

definition be_nat :: "bytes \<Rightarrow> nat" where
  "be_nat bs = foldl (\<lambda>n b. n * 256 + of_char b) 0 bs"

lemma length_be_bytes [simp]: "length (be_bytes k n) = k"
  by (induction k arbitrary: n) simp_all

lemma be_nat_simps [simp]: "be_nat [] = 0" "be_nat (bs @ [b]) = be_nat bs * 256 + of_char b"
  by (simp_all add: be_nat_def)

lemma be_nat_less: "be_nat bs < 256 ^ length bs"
proof (induction bs rule: rev_induct)
  case (snoc b bs)
  have "(of_char b :: nat) < 256" by simp
  then have "be_nat (bs @ [b]) < (be_nat bs + 1) * 256" by simp
  also have "\<dots> \<le> 256 ^ length bs * 256" using snoc by (intro mult_right_mono) simp_all
  finally show ?case by (simp add: mult.commute)
qed simp

lemma be_nat_bytes: "n < 256 ^ k \<Longrightarrow> be_nat (be_bytes k n) = n"
proof (induction k arbitrary: n)
  case (Suc k)
  then have "be_nat (be_bytes k (n div 256)) = n div 256" by (intro Suc.IH) (simp add: less_mult_imp_div_less mult.commute)
  then show ?case by simp
qed simp

lemma be_bytes_nat: "be_bytes (length bs) (be_nat bs) = bs"
proof (induction bs rule: rev_induct)
  case (snoc b bs)
  have b: "(of_char b :: nat) < 256" by simp
  then have "(be_nat bs * 256 + of_char b) div 256 = be_nat bs" "(be_nat bs * 256 + of_char b) mod 256 = (of_char b :: nat)" by simp_all
  then show ?case using snoc by simp
qed simp

section \<open>Object identifiers\<close>

record capnp_object_id =
  field0 :: "64 word"
  field1 :: "64 word"
  field2 :: "64 word"
  field3 :: "64 word"

definition unpack_Q :: "bytes \<Rightarrow> 64 word" where
  "unpack_Q bs = of_nat (be_nat bs)"

definition pack_Q :: "64 word \<Rightarrow> bytes" where
  "pack_Q w = be_bytes 8 (unat w)"

definition to_capnp_object_id :: "ObjectID \<Rightarrow> py_exn + capnp_object_id" where
  "to_capnp_object_id oid =
     (if length oid \<noteq> 32 then Inl StructError
      else Inr \<lparr>field0 = unpack_Q (take 8 oid), field1 = unpack_Q (take 8 (drop 8 oid)),
                field2 = unpack_Q (take 8 (drop 16 oid)), field3 = unpack_Q (drop 24 oid)\<rparr>)"

definition from_capnp_object_id :: "capnp_object_id \<Rightarrow> py_exn + ObjectID" where
  "from_capnp_object_id c = object_id_new (pack_Q (field0 c) @ pack_Q (field1 c) @ pack_Q (field2 c) @ pack_Q (field3 c))"

lemma pack_unpack_Q: "length bs = 8 \<Longrightarrow> pack_Q (unpack_Q bs) = bs"
  using be_nat_less [of bs] be_bytes_nat [of bs] by (simp add: pack_Q_def unpack_Q_def unat_of_nat)

lemma unpack_pack_Q: "unpack_Q (pack_Q w) = w"
  using be_nat_bytes [of "unat w" 8] unsigned_less [where 'a = nat and w = w] by (simp add: pack_Q_def unpack_Q_def)

lemma length_pack_Q [simp]: "length (pack_Q w) = 8"
  by (simp add: pack_Q_def)

lemma take_drop_four:
  assumes "length (bs :: 'a list) = 32"
  shows "take 8 bs @ take 8 (drop 8 bs) @ take 8 (drop 16 bs) @ drop 24 bs = bs"
proof -
  have "drop 24 bs = drop 8 (drop 16 bs)" "drop 16 bs = drop 8 (drop 8 bs)" by simp_all
  then show ?thesis by (metis append_take_drop_id)
qed

lemma object_id_there_and_back:
  assumes "length oid = 32"
  shows "\<exists>c. to_capnp_object_id oid = Inr c \<and> from_capnp_object_id c = Inr oid"
  using assms take_drop_four [OF assms]
  by (simp add: to_capnp_object_id_def from_capnp_object_id_def pack_unpack_Q object_id_new_def)

lemma object_id_back_and_there:
  "\<exists>oid. from_capnp_object_id c = Inr oid \<and> to_capnp_object_id oid = Inr c"
  by (simp add: to_capnp_object_id_def from_capnp_object_id_def object_id_new_def unpack_pack_Q)

section \<open>Task flags\<close>

record task_flags =
  flag_profiling :: bool
  flag_priority :: int
  flag_stream_output :: bool

definition default_flags :: task_flags where
  "default_flags = \<lparr>flag_profiling = True, flag_priority = 0, flag_stream_output = False\<rparr>"

definition pack_bool :: "bool \<Rightarrow> bytes" where
  "pack_bool b = [char_of (if b then 1 else 0 :: nat)]"

definition unpack_bool :: "char \<Rightarrow> bool" where
  "unpack_bool c = (of_char c \<noteq> (0 :: nat))"

definition pack_i :: "int \<Rightarrow> py_exn + bytes" where
  "pack_i n = (if - (2 ^ 31) \<le> n \<and> n < 2 ^ 31 then Inr (be_bytes 4 (unat (word_of_int n :: 32 word))) else Inl StructError)"

definition unpack_i :: "bytes \<Rightarrow> int" where
  "unpack_i bs = sint (of_nat (be_nat bs) :: 32 word)"

definition serialize_flags :: "task_flags \<Rightarrow> py_exn + bytes" where
  "serialize_flags f =
     (case pack_i (flag_priority f) of
        Inl e \<Rightarrow> Inl e
      | Inr b \<Rightarrow> Inr (pack_bool (flag_profiling f) @ b @ pack_bool (flag_stream_output f)))"

definition deserialize_flags :: "bytes \<Rightarrow> py_exn + task_flags" where
  "deserialize_flags data =
     (if length data \<noteq> 6 then Inl StructError
      else Inr \<lparr>flag_profiling = unpack_bool (data ! 0), flag_priority = unpack_i (take 4 (drop 1 data)),
                flag_stream_output = unpack_bool (data ! 5)\<rparr>)"

definition retrieve_task_flags :: "bytes \<Rightarrow> py_exn + task_flags" where
  "retrieve_task_flags metadata =
     (if metadata = [] then Inr default_flags
      else (case deserialize_flags metadata of Inl _ \<Rightarrow> Inl ValueError | Inr f \<Rightarrow> Inr f))"

lemma unpack_pack_bool [simp]: "pack_bool b = [c] \<Longrightarrow> unpack_bool c = b"
  by (auto simp: pack_bool_def unpack_bool_def split: if_splits)

lemma unpack_pack_i:
  assumes "pack_i n = Inr b"
  shows "unpack_i b = n" "length b = 4"
proof -
  have range: "- (2 ^ 31) \<le> n" "n < 2 ^ 31" and b: "b = be_bytes 4 (unat (word_of_int n :: 32 word))"
    using assms by (simp_all add: pack_i_def split: if_splits)
  have "unat (word_of_int n :: 32 word) < 256 ^ 4"
    using unsigned_less [where 'a = nat and w = "word_of_int n :: 32 word"] by simp
  then have "unpack_i b = sint (word_of_int n :: 32 word)" by (simp add: unpack_i_def b be_nat_bytes)
  then show "unpack_i b = n" using range signed_take_bit_int_eq_self_iff [of 31 n] by (simp add: signed_of_int)
  show "length b = 4" by (simp add: b)
qed

lemma flags_roundtrip:
  "case serialize_flags f of
     Inr data \<Rightarrow> retrieve_task_flags data = Inr f
   | Inl e \<Rightarrow> e = StructError \<and> \<not> (- (2 ^ 31) \<le> flag_priority f \<and> flag_priority f < 2 ^ 31)"
proof (cases "pack_i (flag_priority f)")
  case (Inl e)
  then show ?thesis by (auto simp: serialize_flags_def pack_i_def split: if_splits)
next
  case (Inr b)
  obtain c d where cd: "pack_bool (flag_profiling f) = [c]" "pack_bool (flag_stream_output f) = [d]" by (simp add: pack_bool_def)
  have b: "unpack_i b = flag_priority f" "length b = 4" by (rule unpack_pack_i [OF Inr])+
  then have "(c # b @ [d]) ! 5 = d" by (simp add: nth_Cons nth_append)
  then show ?thesis using cd b Inr by (simp add: serialize_flags_def retrieve_task_flags_def deserialize_flags_def)
qed

end
