(* ===== verification/ClientObjects.thy ===== *)
theory ClientObjects
  imports Encoding
begin

text \<open>
  How a client turns functions and arguments into stored objects (\<open>src/src/scaler/client/object_buffer.py\<close>) and
  submits tasks (\<open>submit_verbose\<close>, \<open>starmap\<close>, \<open>send_object\<close> and \<open>clear\<close> of \<open>src/src/scaler/client/client.py\<close>).

  A Python object is its address (\<open>id\<close>), an identity that no other object ever has, whether it can be
  referred to weakly, and what the serializer makes of it. Addresses are used again once
  an object is collected; collecting it also takes it out of the weak dictionary. Digests, tags, names and the answers of the
  storage are fields of the environment. The uploads of a commit are all started before the first is waited for.
\<close>

section \<open>State\<close>

record py_object =
  po_id :: nat
  po_identity :: nat
  po_weakrefable :: bool
  po_payload :: bytes

record ObjectCache =
  oc_object_id :: ObjectID
  oc_object_type :: ObjectContentType
  oc_object_name :: bytes
  oc_payload :: bytes

record client_env =
  ce_identity :: ClientID
  ce_md5 :: "bytes \<Rightarrow> bytes"
  ce_tag :: "nat \<Rightarrow> bytes"
  ce_repr :: "ObjectID \<Rightarrow> bytes"
  ce_serializer :: bytes
  ce_set_object_ok :: "ObjectID \<Rightarrow> bool"
  ce_task_id :: "nat \<Rightarrow> TaskID"
  ce_parent_priority :: "int option"
  ce_profiling :: bool
  ce_stream_output :: bool

datatype client_message =
    ClientObjectCreate "ObjectID list" "ObjectContentType list" "bytes list"
  | ClientObjectClear
  | ClientTask Task
  | ClientGraphTask GraphTask

record object_buffer =
  ob_valid :: "ObjectID list"
  ob_pending :: "ObjectCache list"
  ob_dedup_alive :: "(nat, nat) dict"
  ob_dedup_cache :: "(nat, ObjectCache) dict"
  ob_cycle :: "(nat, ObjectCache) dict"
  ob_hashes :: "(bytes, ObjectID) dict"
  ob_serializer_id :: ObjectID
  ob_tags_used :: nat
  ob_tasks_used :: nat
  ob_stopped :: bool
  ob_futures :: "TaskID list"
  ob_sent :: "client_message list"
  ob_uploaded :: "(ObjectID \<times> bytes) list"

type_synonym 'a buffer_step = "('a, object_buffer) comp"

section \<open>Buffering\<close>

definition ob_fresh_id :: "client_env \<Rightarrow> ObjectID buffer_step" where
  "ob_fresh_id env =
     andthen (gets ob_tags_used) (\<lambda>n.
     seq (modify (\<lambda>s. s\<lparr>ob_tags_used := n + 1\<rparr>))
         (of_sum (generate_object_id (ce_md5 env) (ce_tag env n) (ce_identity env))))"

definition object_id_for_payload :: "client_env \<Rightarrow> bytes \<Rightarrow> ObjectID buffer_step" where
  "object_id_for_payload env payload =
     (let h = ce_md5 env payload
      in andthen (gets (\<lambda>s. dict_get (ob_hashes s) h)) (\<lambda>known.
         andthen (gets ob_valid) (\<lambda>valid.
           if known = None \<or> the known \<notin> set valid
           then andthen (ob_fresh_id env) (\<lambda>oid.
                  seq (modify (\<lambda>s. s\<lparr>ob_hashes := dict_set h oid (ob_hashes s)\<rparr>)) (ret oid))
           else ret (the known))))"

definition construct_function :: "client_env \<Rightarrow> py_object \<Rightarrow> bytes option \<Rightarrow> ObjectCache buffer_step" where
  "construct_function env fn name =
     andthen (object_id_for_payload env (po_payload fn)) (\<lambda>oid.
       ret \<lparr>oc_object_id = oid, oc_object_type = OC_object,
            oc_object_name = (case name of Some n \<Rightarrow> n | None \<Rightarrow> ''<func '' @ ce_repr env oid @ ''>''), oc_payload = po_payload fn\<rparr>)"

definition construct_object :: "client_env \<Rightarrow> py_object \<Rightarrow> bytes option \<Rightarrow> ObjectCache buffer_step" where
  "construct_object env obj name =
     andthen (object_id_for_payload env (po_payload obj)) (\<lambda>oid.
       ret \<lparr>oc_object_id = oid, oc_object_type = OC_object,
            oc_object_name = (if name = None \<or> name = Some '''' then ''<obj '' @ ce_repr env oid @ ''>'' else the name),
            oc_payload = po_payload obj\<rparr>)"

definition buffer_send_serialized_object :: "ObjectCache \<Rightarrow> ObjectCache buffer_step" where
  "buffer_send_serialized_object c =
     seq (modify (\<lambda>s. if oc_object_id c \<in> set (ob_valid s) then s
            else s\<lparr>ob_pending := ob_pending s @ [c], ob_valid := set_add (oc_object_id c) (ob_valid s)\<rparr>))
         (ret c)"

text \<open>The persistent cache first, guarded by the weak dictionary, then the one of the running cycle.\<close>

definition lookup_persistent :: "py_object \<Rightarrow> ObjectCache option buffer_step" where
  "lookup_persistent obj s =
     (case dict_get (ob_dedup_cache s) (po_id obj) of
        None \<Rightarrow> Ret None s
      | Some c \<Rightarrow>
          if oc_object_id c \<in> set (ob_valid s) \<and> dict_get (ob_dedup_alive s) (po_id obj) = Some (po_identity obj)
          then Ret (Some c) s
          else Ret None (s\<lparr>ob_dedup_cache := dict_pop (po_id obj) (ob_dedup_cache s)\<rparr>))"

definition lookup_dedup :: "py_object \<Rightarrow> bool \<Rightarrow> ObjectCache option buffer_step" where
  "lookup_dedup obj ignore_persistent =
     andthen (if ignore_persistent then ret None else lookup_persistent obj) (\<lambda>found.
       if found \<noteq> None then ret found
       else gets (\<lambda>s. case dict_get (ob_cycle s) (po_id obj) of
              None \<Rightarrow> None
            | Some c \<Rightarrow> if oc_object_id c \<in> set (ob_valid s) then Some c else None))"

definition remember_dedup :: "py_object \<Rightarrow> ObjectCache \<Rightarrow> unit buffer_step" where
  "remember_dedup obj c = modify (\<lambda>s.
     let s1 = s\<lparr>ob_cycle := dict_set (po_id obj) c (ob_cycle s)\<rparr>
     in if po_weakrefable obj
        then s1\<lparr>ob_dedup_alive := dict_set (po_id obj) (po_identity obj) (ob_dedup_alive s),
                ob_dedup_cache := dict_set (po_id obj) c (ob_dedup_cache s)\<rparr>
        else s1)"

definition buffer_send_function :: "client_env \<Rightarrow> py_object \<Rightarrow> bytes option \<Rightarrow> ObjectCache buffer_step" where
  "buffer_send_function env fn name =
     andthen (lookup_dedup fn False) (\<lambda>found.
       case found of
         Some c \<Rightarrow> ret c
       | None \<Rightarrow>
           andthen (construct_function env fn name) (\<lambda>c0.
           andthen (buffer_send_serialized_object c0) (\<lambda>c.
           seq (remember_dedup fn c) (ret c))))"

definition buffer_send_object :: "client_env \<Rightarrow> py_object \<Rightarrow> bytes option \<Rightarrow> bool \<Rightarrow> bool \<Rightarrow> ObjectCache buffer_step" where
  "buffer_send_object env obj name reserialize dedup =
     andthen (if dedup then lookup_dedup obj reserialize else ret None) (\<lambda>found.
       case found of
         Some c \<Rightarrow> ret c
       | None \<Rightarrow>
           andthen (construct_object env obj name) (\<lambda>c0.
           andthen (buffer_send_serialized_object c0) (\<lambda>c.
           seq (if dedup then remember_dedup obj c else ret ()) (ret c))))"

definition commit_send_objects :: "client_env \<Rightarrow> unit buffer_step" where
  "commit_send_objects env s =
     (let pend = ob_pending s
      in if pend = [] then Ret () (s\<lparr>ob_cycle := []\<rparr>)
         else let s1 = s\<lparr>ob_sent := ob_sent s @ [ClientObjectCreate (map oc_object_id pend) (map oc_object_type pend) (map oc_object_name pend)],
                         ob_uploaded := ob_uploaded s @ map (\<lambda>c. (oc_object_id c, oc_payload c))
                           (filter (\<lambda>c. ce_set_object_ok env (oc_object_id c)) pend)\<rparr>
              in if list_all (\<lambda>c. ce_set_object_ok env (oc_object_id c)) pend
                 then Ret () (s1\<lparr>ob_pending := [], ob_cycle := []\<rparr>)
                 else Raise StorageError s1)"

definition ob_clear :: "unit buffer_step" where
  "ob_clear = modify (\<lambda>s. s\<lparr>ob_pending := [], ob_valid := [ob_serializer_id s], ob_dedup_alive := [], ob_dedup_cache := [],
     ob_cycle := [], ob_hashes := [], ob_sent := ob_sent s @ [ClientObjectClear]\<rparr>)"

definition is_valid_object_id :: "object_buffer \<Rightarrow> ObjectID \<Rightarrow> bool" where
  "is_valid_object_id s oid = (oid \<in> set (ob_valid s))"

definition ob_empty :: object_buffer where
  "ob_empty = \<lparr>ob_valid = [], ob_pending = [], ob_dedup_alive = [], ob_dedup_cache = [], ob_cycle = [], ob_hashes = [],
     ob_serializer_id = '''', ob_tags_used = 0, ob_tasks_used = 0, ob_stopped = False, ob_futures = [], ob_sent = [], ob_uploaded = []\<rparr>"

definition send_serializer :: "client_env \<Rightarrow> unit buffer_step" where
  "send_serializer env =
     andthen (of_sum (generate_serializer_object_id (ce_md5 env) (ce_identity env))) (\<lambda>oid.
     seq (buffer_send_serialized_object \<lparr>oc_object_id = oid, oc_object_type = OC_serializer, oc_object_name = ''serializer'', oc_payload = ce_serializer env\<rparr>)
     (seq (commit_send_objects env)
          (modify (\<lambda>s. s\<lparr>ob_serializer_id := oid\<rparr>))))"

text \<open>The object is collected: its weak reference goes, its address may come back.\<close>

definition collect :: "nat \<Rightarrow> unit buffer_step" where
  "collect k = modify (\<lambda>s. s\<lparr>ob_dedup_alive := filter (\<lambda>e. snd e \<noteq> k) (ob_dedup_alive s)\<rparr>)"

section \<open>Submitting\<close>

text \<open>\<open>ob_stopped\<close> is the client's stop event, which the agent sets when it ends.\<close>

definition assert_client_not_stopped :: "unit buffer_step" where
  "assert_client_not_stopped s = (if ob_stopped s then Raise ClientQuit s else Ret () s)"

datatype submitted_arg = ArgReference ObjectID | ArgObject py_object

fun submit_args :: "client_env \<Rightarrow> bool \<Rightarrow> submitted_arg list \<Rightarrow> ObjectID list buffer_step" where
  "submit_args env reserialize [] = ret []"
| "submit_args env reserialize (a # as) =
     andthen (case a of
                ArgReference oid \<Rightarrow> (\<lambda>s. if is_valid_object_id s oid then Ret oid s else Raise MissingObjects s)
              | ArgObject obj \<Rightarrow> andthen (buffer_send_object env obj None reserialize True) (\<lambda>c. ret (oc_object_id c))) (\<lambda>oid.
     andthen (submit_args env reserialize as) (\<lambda>oids. ret (oid # oids)))"

definition client_task_flags :: "client_env \<Rightarrow> task_flags" where
  "client_task_flags env = \<lparr>flag_profiling = ce_profiling env,
     flag_priority = (case ce_parent_priority env of Some p \<Rightarrow> p + 1 | None \<Rightarrow> 0), flag_stream_output = ce_stream_output env\<rparr>"

definition client_submit_one :: "client_env \<Rightarrow> ObjectID \<Rightarrow> submitted_arg list \<Rightarrow> capabilities \<Rightarrow> bool \<Rightarrow> Task buffer_step" where
  "client_submit_one env function_id args caps reserialize =
     andthen (gets ob_tasks_used) (\<lambda>n.
     seq (modify (\<lambda>s. s\<lparr>ob_tasks_used := n + 1\<rparr>))
     (andthen (submit_args env reserialize args) (\<lambda>oids.
      andthen (of_sum (serialize_flags (client_task_flags env))) (\<lambda>flags.
      let task = \<lparr>taskId = ce_task_id env n, task_source = ce_identity env, task_metadata = flags, funcObjectId = function_id,
                  functionArgs = map ObjectArgument oids, task_capabilities = caps\<rparr>
      in seq (modify (\<lambda>s. s\<lparr>ob_futures := ob_futures s @ [taskId task]\<rparr>)) (ret task)))))"

definition send_task :: "Task \<Rightarrow> unit buffer_step" where
  "send_task task = modify (\<lambda>s. s\<lparr>ob_sent := ob_sent s @ [ClientTask task]\<rparr>)"

text \<open>
  The parameters of a function as \<open>inspect.signature\<close> gives them: \<open>pm_required\<close> is \<open>p.default is p.empty\<close>. There is
  no signature to be had for some built-in functions.
\<close>

datatype param_kind = POSITIONAL_ONLY | POSITIONAL_OR_KEYWORD | VAR_POSITIONAL | KEYWORD_ONLY | VAR_KEYWORD

record parameter =
  pm_name :: bytes
  pm_kind :: param_kind
  pm_required :: bool
  pm_default :: submitted_arg

definition positional :: "parameter \<Rightarrow> bool" where
  "positional p = (pm_kind p = POSITIONAL_ONLY \<or> pm_kind p = POSITIONAL_OR_KEYWORD)"

fun take_required :: "parameter list \<Rightarrow> (bytes, submitted_arg) dict \<Rightarrow> py_exn + (submitted_arg list \<times> (bytes, submitted_arg) dict)" where
  "take_required [] kwargs = Inr ([], kwargs)"
| "take_required (p # ps) kwargs =
     (case dict_get kwargs (pm_name p) of
        None \<Rightarrow> Inl TypeError
      | Some a \<Rightarrow> (case take_required ps (dict_pop (pm_name p) kwargs) of
                     Inl e \<Rightarrow> Inl e | Inr (as, rest) \<Rightarrow> Inr (a # as, rest)))"

fun take_defaults :: "parameter list \<Rightarrow> (bytes, submitted_arg) dict \<Rightarrow> submitted_arg list" where
  "take_defaults [] kwargs = []"
| "take_defaults (p # ps) kwargs =
     (case dict_get kwargs (pm_name p) of None \<Rightarrow> pm_default p | Some a \<Rightarrow> a) # take_defaults ps (dict_pop (pm_name p) kwargs)"

definition convert_kwargs_to_args ::
  "parameter list \<Rightarrow> submitted_arg list \<Rightarrow> (bytes, submitted_arg) dict \<Rightarrow> py_exn + submitted_arg list" where
  "convert_kwargs_to_args all_params args kwargs =
     (let params = filter positional all_params;
          number_of_required = length (filter pm_required params);
          kwargs' = fold (\<lambda>p. dict_set (pm_name p) (pm_default p)) (filter (\<lambda>p. pm_kind p = KEYWORD_ONLY \<and> \<not> pm_required p) all_params) kwargs
      in if length params \<le> length args then Inr args
         else case take_required (drop (length args) (take number_of_required params)) kwargs' of
                Inl e \<Rightarrow> Inl e
              | Inr (required, rest) \<Rightarrow>
                  let args_list = args @ required in Inr (args_list @ take_defaults (drop (length args_list) params) rest))"

definition submit_verbose ::
  "client_env \<Rightarrow> py_object \<Rightarrow> bytes option \<Rightarrow> parameter list option \<Rightarrow> submitted_arg list \<Rightarrow> (bytes, submitted_arg) dict \<Rightarrow>
     capabilities \<Rightarrow> bool \<Rightarrow> Task buffer_step" where
  "submit_verbose env fn name signature args kwargs caps reserialize =
     seq assert_client_not_stopped
     (andthen (buffer_send_function env fn name) (\<lambda>f.
     andthen (case signature of None \<Rightarrow> raise ValueError | Some ps \<Rightarrow> of_sum (convert_kwargs_to_args ps args kwargs)) (\<lambda>all_args.
     andthen (client_submit_one env (oc_object_id f) all_args caps reserialize) (\<lambda>task.
     seq (commit_send_objects env) (seq (send_task task) (ret task))))))"

fun submit_all :: "client_env \<Rightarrow> ObjectID \<Rightarrow> submitted_arg list list \<Rightarrow> capabilities \<Rightarrow> bool \<Rightarrow> Task list buffer_step" where
  "submit_all env f [] caps reserialize = ret []"
| "submit_all env f (as # ass) caps reserialize =
     andthen (client_submit_one env f as caps reserialize) (\<lambda>task.
     andthen (submit_all env f ass caps reserialize) (\<lambda>tasks. ret (task # tasks)))"

text \<open>Up to the wait for the results. Unpacking the pair of tasks and futures fails when there is none.\<close>

definition starmap :: "client_env \<Rightarrow> py_object \<Rightarrow> bytes option \<Rightarrow> submitted_arg list list \<Rightarrow> capabilities \<Rightarrow> bool \<Rightarrow> Task list buffer_step" where
  "starmap env fn name argss caps reserialize =
     seq assert_client_not_stopped
     (andthen (buffer_send_function env fn name) (\<lambda>f.
     andthen (submit_all env (oc_object_id f) argss caps reserialize) (\<lambda>tasks.
       if tasks = [] then raise ValueError
       else seq (commit_send_objects env) (seq (for_each tasks send_task) (ret tasks)))))"

definition send_object :: "client_env \<Rightarrow> py_object \<Rightarrow> bytes option \<Rightarrow> (bytes \<times> nat \<times> ObjectID) buffer_step" where
  "send_object env obj name =
     seq assert_client_not_stopped
     (andthen (buffer_send_object env obj name False False) (\<lambda>c. ret (oc_object_name c, length (oc_payload c), oc_object_id c)))"

end
