(* ===== verification/ClientDedup.thy ===== *)
theory ClientDedup
  imports ClientObjects
begin

text \<open>
  Why the caches of the client's object buffer may be trusted: as long as the objects that one
  submission passes are alive together and keep their value, every object id it uses names exactly the
  bytes of the object that was passed, and no id is uploaded twice. Object ids are told
  apart by their tags, payloads by their digests.
\<close>

section \<open>What is stored\<close>

definition entries :: "object_buffer \<Rightarrow> (ObjectID \<times> bytes) list" where
  "entries s = ob_uploaded s @ map (\<lambda>c. (oc_object_id c, oc_payload c)) (ob_pending s)"

definition object_id_of :: "client_env \<Rightarrow> nat \<Rightarrow> ObjectID" where
  "object_id_of env n = ce_md5 env (ce_identity env) @ ce_tag env n"

definition serializer_id_of :: "client_env \<Rightarrow> ObjectID" where
  "serializer_id_of env = ce_md5 env (ce_identity env) @ ce_md5 env ''serializer''"

definition known_ids :: "client_env \<Rightarrow> nat \<Rightarrow> ObjectID set" where
  "known_ids env n = insert (serializer_id_of env) (object_id_of env ` {..<n})"

text \<open>
  Digests of sixteen bytes, and tags that differ from each other and from the serializer's. There are only so many tags of sixteen bytes: one of
  another length stands for the end of the supply, and makes an id that is refused.
\<close>

definition fresh_tags :: "client_env \<Rightarrow> bool" where
  "fresh_tags env \<longleftrightarrow> (\<forall>b. length (ce_md5 env b) = 16) \<and> inj (ce_tag env) \<and> (\<forall>n. ce_tag env n \<noteq> ce_md5 env ''serializer'')"

definition bad_tag :: "client_env \<Rightarrow> object_buffer \<Rightarrow> bool" where
  "bad_tag env s \<longleftrightarrow> (\<exists>n < ob_tags_used s. length (ce_tag env n) \<noteq> 16)"

lemma fresh_id_new: "fresh_tags env \<Longrightarrow> object_id_of env n \<notin> known_ids env n"
  by (auto simp: fresh_tags_def known_ids_def object_id_of_def serializer_id_of_def dest: injD)

lemma known_ids_mono: "known_ids env n \<subseteq> known_ids env (Suc n)"
  by (auto simp: known_ids_def)

lemma fresh_id_known: "object_id_of env n \<in> known_ids env (Suc n)"
  by (simp add: known_ids_def)

section \<open>The invariant\<close>

text \<open>
  \<open>H\<close> holds the addresses and identities of the objects passed in the running cycle, \<open>val\<close> gives the bytes
  of an object by its identity.
\<close>

definition stored_ok :: "client_env \<Rightarrow> object_buffer \<Rightarrow> bool" where
  "stored_ok env s \<longleftrightarrow> distinct (map fst (entries s)) \<and> set (ob_valid s) \<subseteq> fst ` set (entries s) \<and>
     fst ` set (entries s) \<subseteq> known_ids env (ob_tags_used s) \<and> ob_serializer_id s = serializer_id_of env \<and>
     (serializer_id_of env, ce_serializer env) \<in> set (ob_uploaded s)"

definition hashes_ok :: "client_env \<Rightarrow> (nat \<Rightarrow> bytes) \<Rightarrow> object_buffer \<Rightarrow> bool" where
  "hashes_ok env val s \<longleftrightarrow> (\<forall>h oid. dict_get (ob_hashes s) h = Some oid \<longrightarrow> oid \<in> known_ids env (ob_tags_used s) \<and>
     (\<forall>p. (oid, p) \<in> set (entries s) \<longrightarrow> p \<in> range val \<and> ce_md5 env p = h))"

text \<open>What a cache that is handed out means.\<close>

definition names :: "object_buffer \<Rightarrow> ObjectID \<Rightarrow> bytes \<Rightarrow> bool" where
  "names s oid p \<longleftrightarrow> oid \<in> set (ob_valid s) \<and> (oid, p) \<in> set (entries s)"

definition caches_ok :: "(nat \<Rightarrow> bytes) \<Rightarrow> (nat \<times> nat) set \<Rightarrow> object_buffer \<Rightarrow> bool" where
  "caches_ok val H s \<longleftrightarrow> dict_ok (ob_dedup_alive s) \<and>
     (\<forall>i c. dict_get (ob_dedup_cache s) i = Some c \<longrightarrow> names s (oc_object_id c) (oc_payload c)) \<and>
     (\<forall>i c. dict_get (ob_cycle s) i = Some c \<longrightarrow> names s (oc_object_id c) (oc_payload c)) \<and>
     (\<forall>i c k. dict_get (ob_dedup_cache s) i = Some c \<longrightarrow> dict_get (ob_dedup_alive s) i = Some k \<longrightarrow> oc_payload c = val k) \<and>
     (\<forall>i c. dict_get (ob_cycle s) i = Some c \<longrightarrow> (\<exists>k. (i, k) \<in> H \<and> oc_payload c = val k))"

definition buffer_inv :: "client_env \<Rightarrow> (nat \<Rightarrow> bytes) \<Rightarrow> (nat \<times> nat) set \<Rightarrow> object_buffer \<Rightarrow> bool" where
  "buffer_inv env val H s \<longleftrightarrow> stored_ok env s \<and> hashes_ok env val s \<and> caches_ok val H s"

definition passable :: "(nat \<Rightarrow> bytes) \<Rightarrow> (nat \<times> nat) set \<Rightarrow> py_object \<Rightarrow> bool" where
  "passable val H obj \<longleftrightarrow> po_payload obj = val (po_identity obj) \<and> (\<forall>k. (po_id obj, k) \<in> H \<longrightarrow> k = po_identity obj)"

definition passed :: "py_object \<Rightarrow> (nat \<times> nat) set \<Rightarrow> (nat \<times> nat) set" where
  "passed obj H = insert (po_id obj, po_identity obj) H"

lemma entries_upd [simp]:
  "entries (s\<lparr>ob_hashes := h\<rparr>) = entries s" "entries (s\<lparr>ob_tags_used := n\<rparr>) = entries s" "entries (s\<lparr>ob_dedup_cache := d\<rparr>) = entries s"
  "entries (s\<lparr>ob_cycle := c\<rparr>) = entries s" "entries (s\<lparr>ob_dedup_alive := a\<rparr>) = entries s" "entries (s\<lparr>ob_sent := ms\<rparr>) = entries s"
  "entries (s\<lparr>ob_futures := fs\<rparr>) = entries s" "entries (s\<lparr>ob_tasks_used := t\<rparr>) = entries s" "entries (s\<lparr>ob_serializer_id := i\<rparr>) = entries s"
  "entries (s\<lparr>ob_valid := v\<rparr>) = entries s"
  by (simp_all add: entries_def)

lemma stored_ok_cong:
  "entries s' = entries s \<Longrightarrow> ob_valid s' = ob_valid s \<Longrightarrow> ob_tags_used s' = ob_tags_used s \<Longrightarrow> ob_serializer_id s' = ob_serializer_id s \<Longrightarrow>
    ob_uploaded s' = ob_uploaded s \<Longrightarrow> stored_ok env s' = stored_ok env s"
  by (simp add: stored_ok_def)

lemma hashes_ok_cong:
  "entries s' = entries s \<Longrightarrow> ob_hashes s' = ob_hashes s \<Longrightarrow> ob_tags_used s' = ob_tags_used s \<Longrightarrow> hashes_ok env val s' = hashes_ok env val s"
  by (simp add: hashes_ok_def)

section \<open>Steps\<close>

lemma lookup_ok:
  assumes inv: "buffer_inv env val H s" and obj: "passable val H obj"
  shows "sat (\<lambda>r s'. buffer_inv env val H s' \<and> (\<forall>c. r = Some c \<longrightarrow> names s' (oc_object_id c) (po_payload obj)) \<and> entries s' = entries s \<and> ob_valid s' = ob_valid s)
    (bad_tag env) (lookup_dedup obj ig s)"
proof -
  have caches: "caches_ok val H s" using inv by (simp add: buffer_inv_def)
  have cyc: "names s (oc_object_id c) (po_payload obj)" if "dict_get (ob_cycle s) (po_id obj) = Some c" "oc_object_id c \<in> set (ob_valid s)" for c
    using that caches obj unfolding caches_ok_def passable_def by metis
  have ded: "names s (oc_object_id c) (po_payload obj)"
    if "dict_get (ob_dedup_cache s) (po_id obj) = Some c" "oc_object_id c \<in> set (ob_valid s)" "dict_get (ob_dedup_alive s) (po_id obj) = Some (po_identity obj)" for c
    using that caches obj unfolding caches_ok_def passable_def by metis
  let ?s = "s\<lparr>ob_dedup_cache := dict_pop (po_id obj) (ob_dedup_cache s)\<rparr>"
  have inv': "buffer_inv env val H ?s"
    using inv unfolding buffer_inv_def stored_ok_def hashes_ok_def caches_ok_def names_def by auto
  have names': "names ?s oid p = names s oid p" for oid p by (simp add: names_def)
  show ?thesis
    using inv inv' cyc ded names'
    by (auto simp: lookup_dedup_def lookup_persistent_def andthen_run split: option.split)
qed

lemma payload_id_ok:
  assumes inv: "buffer_inv env val H s" and tags: "fresh_tags env" and inj: "inj_on (ce_md5 env) (range val)" and p: "p \<in> range val"
  shows "sat (\<lambda>oid s'. buffer_inv env val H s' \<and> entries s' = entries s \<and> dict_get (ob_hashes s') (ce_md5 env p) = Some oid \<and>
      oid \<in> known_ids env (ob_tags_used s') \<and> (\<forall>h. dict_get (ob_hashes s') h = Some oid \<longrightarrow> h = ce_md5 env p \<or> names s' oid p) \<and>
      (names s' oid p \<or> oid \<notin> set (ob_valid s') \<and> oid \<notin> fst ` set (entries s')))
    (bad_tag env) (object_id_for_payload env p s)"
proof (cases "dict_get (ob_hashes s) (ce_md5 env p) = None \<or> the (dict_get (ob_hashes s) (ce_md5 env p)) \<notin> set (ob_valid s)")
  case True
  let ?n = "ob_tags_used s" and ?oid = "object_id_of env (ob_tags_used s)"
  let ?s = "s\<lparr>ob_tags_used := ?n + 1, ob_hashes := dict_set (ce_md5 env p) ?oid (ob_hashes s)\<rparr>"
  have new: "?oid \<notin> known_ids env ?n" by (rule fresh_id_new [OF tags])
  have st: "stored_ok env s" and ha: "hashes_ok env val s" and ca: "caches_ok val H s" using inv by (simp_all add: buffer_inv_def)
  have un: "?oid \<notin> fst ` set (entries s)" using st new by (auto simp: stored_ok_def)
  have gen: "generate_object_id (ce_md5 env) (ce_tag env ?n) (ce_identity env) = (if length (ce_tag env ?n) = 16 then Inr ?oid else Inl ValueError)"
    using tags by (simp add: generate_object_id_def object_id_new_def object_id_of_def fresh_tags_def)
  have "stored_ok env ?s" using st known_ids_mono [of env ?n] by (auto simp: stored_ok_def)
  moreover have "hashes_ok env val ?s"
    unfolding hashes_ok_def
  proof (intro allI impI)
    fix h oid assume oid: "dict_get (ob_hashes ?s) h = Some oid"
    show "oid \<in> known_ids env (ob_tags_used ?s) \<and> (\<forall>q. (oid, q) \<in> set (entries ?s) \<longrightarrow> q \<in> range val \<and> ce_md5 env q = h)"
    proof (cases "h = ce_md5 env p")
      case True
      then have "oid = ?oid" using oid by simp
      then show ?thesis using un fresh_id_known [of env ?n] by (auto simp: image_iff)
    next
      case False
      then have "dict_get (ob_hashes s) h = Some oid" using oid by simp
      then have "oid \<in> known_ids env ?n \<and> (\<forall>q. (oid, q) \<in> set (entries s) \<longrightarrow> q \<in> range val \<and> ce_md5 env q = h)"
        using ha unfolding hashes_ok_def by blast
      then show ?thesis using known_ids_mono [of env ?n] by auto
    qed
  qed
  moreover have "caches_ok val H ?s" using ca by (simp add: caches_ok_def names_def)
  ultimately have inv': "buffer_inv env val H ?s" by (simp add: buffer_inv_def)
  moreover have "?oid \<notin> set (ob_valid s)" using st un by (auto simp: stored_ok_def)
  moreover have "dict_get (ob_hashes s) h \<noteq> Some ?oid" for h using ha new by (auto simp: hashes_ok_def)
  ultimately show ?thesis
    using True gen un fresh_id_known [of env ?n]
    by (cases "length (ce_tag env ?n) = 16") (auto simp: object_id_for_payload_def Let_def ob_fresh_id_def of_sum_def bad_tag_def andthen_run seq_run)
next
  case False
  then obtain oid where oid: "dict_get (ob_hashes s) (ce_md5 env p) = Some oid" "oid \<in> set (ob_valid s)" by auto
  have st: "stored_ok env s" and ha: "hashes_ok env val s" using inv by (simp_all add: buffer_inv_def)
  obtain q where q: "(oid, q) \<in> set (entries s)" using st oid(2) by (auto simp: stored_ok_def)
  then have "q = p" using ha oid(1) p inj_onD [OF inj] unfolding hashes_ok_def by blast
  then have nm: "names s oid p" using q oid(2) by (simp add: names_def)
  have "oid \<in> known_ids env (ob_tags_used s)" using ha oid(1) by (auto simp: hashes_ok_def)
  then show ?thesis using False oid inv nm by (simp add: object_id_for_payload_def Let_def)
qed

definition grows :: "object_buffer \<Rightarrow> object_buffer \<Rightarrow> bool" where
  "grows s s' \<longleftrightarrow> set (entries s) \<subseteq> set (entries s') \<and> set (ob_valid s) \<subseteq> set (ob_valid s')"

lemma grows_refl [simp]: "grows s s"
  by (simp add: grows_def)

lemma grows_trans: "grows s t \<Longrightarrow> grows t u \<Longrightarrow> grows s u"
  by (auto simp: grows_def)

lemma grows_names: "grows s s' \<Longrightarrow> names s oid p \<Longrightarrow> names s' oid p"
  by (auto simp: grows_def names_def)

lemma inv_mono: "buffer_inv env val H s \<Longrightarrow> H \<subseteq> H' \<Longrightarrow> buffer_inv env val H' s"
  unfolding buffer_inv_def caches_ok_def by blast

text \<open>A new cache is put into the list of objects to upload, unless its id is already there.\<close>

definition ready :: "client_env \<Rightarrow> object_buffer \<Rightarrow> ObjectID \<Rightarrow> bytes \<Rightarrow> bool" where
  "ready env s oid p \<longleftrightarrow> oid \<in> known_ids env (ob_tags_used s) \<and>
     (names s oid p \<or> oid \<notin> set (ob_valid s) \<and> oid \<notin> fst ` set (entries s) \<and> (\<forall>h. dict_get (ob_hashes s) h = Some oid \<longrightarrow> h = ce_md5 env p))"

lemma payload_id_ready:
  assumes "buffer_inv env val H s" "fresh_tags env" "inj_on (ce_md5 env) (range val)" "p \<in> range val"
  shows "sat (\<lambda>oid s'. buffer_inv env val H s' \<and> grows s s' \<and> ready env s' oid p) (bad_tag env) (object_id_for_payload env p s)"
proof -
  have "sat (\<lambda>oid s'. ob_valid s' = ob_valid s) (\<lambda>_. True) (object_id_for_payload env p s)"
    by (auto simp: object_id_for_payload_def Let_def ob_fresh_id_def of_sum_def andthen_run seq_run split: sum.split)
  then show ?thesis
    using payload_id_ok [OF assms] by (cases "object_id_for_payload env p s") (auto simp: grows_def ready_def names_def)
qed

lemma enter_ok:
  assumes inv: "buffer_inv env val H s" and r: "ready env s (oc_object_id c) (oc_payload c)" and p: "oc_payload c \<in> range val"
  shows "sat (\<lambda>c' s'. c' = c \<and> buffer_inv env val H s' \<and> grows s s' \<and> names s' (oc_object_id c) (oc_payload c)) (bad_tag env) (buffer_send_serialized_object c s)"
proof (cases "oc_object_id c \<in> set (ob_valid s)")
  case True
  then show ?thesis using inv r by (auto simp: buffer_send_serialized_object_def ready_def)
next
  case False
  let ?oid = "oc_object_id c" and ?p = "oc_payload c"
  let ?s = "s\<lparr>ob_pending := ob_pending s @ [c], ob_valid := set_add ?oid (ob_valid s)\<rparr>"
  have un: "?oid \<notin> fst ` set (entries s)" "?oid \<in> known_ids env (ob_tags_used s)" "\<And>h. dict_get (ob_hashes s) h = Some ?oid \<Longrightarrow> h = ce_md5 env ?p"
    using r False by (auto simp: ready_def names_def)
  have e: "entries ?s = entries s @ [(?oid, ?p)]" by (simp add: entries_def)
  have st: "stored_ok env s" and ha: "hashes_ok env val s" and ca: "caches_ok val H s" using inv by (simp_all add: buffer_inv_def)
  have "stored_ok env ?s" using st un(1,2) unfolding stored_ok_def e by auto
  moreover have "hashes_ok env val ?s" unfolding hashes_ok_def e
  proof (intro allI impI)
    fix h oid assume "dict_get (ob_hashes ?s) h = Some oid"
    then have h: "dict_get (ob_hashes s) h = Some oid" by simp
    then have old: "oid \<in> known_ids env (ob_tags_used s)" "\<And>q. (oid, q) \<in> set (entries s) \<Longrightarrow> q \<in> range val \<and> ce_md5 env q = h"
      using ha unfolding hashes_ok_def by blast+
    show "oid \<in> known_ids env (ob_tags_used ?s) \<and> (\<forall>q. (oid, q) \<in> set (entries s @ [(?oid, ?p)]) \<longrightarrow> q \<in> range val \<and> ce_md5 env q = h)"
      using old un(3) [of h] h p by auto
  qed
  moreover have "caches_ok val H ?s" using ca e by (auto simp: caches_ok_def names_def)
  ultimately have "buffer_inv env val H ?s" by (simp add: buffer_inv_def)
  then show ?thesis using False e by (auto simp: buffer_send_serialized_object_def grows_def names_def)
qed

lemma remember_ok:
  assumes inv: "buffer_inv env val H s" and obj: "passable val H obj" and c: "names s (oc_object_id c) (oc_payload c)" "oc_payload c = po_payload obj"
  shows "sat (\<lambda>_ s'. buffer_inv env val (passed obj H) s' \<and> grows s s') (bad_tag env) (remember_dedup obj c s)"
proof -
  have val: "oc_payload c = val (po_identity obj)" using obj c(2) by (simp add: passable_def)
  have "caches_ok val H s" using inv by (simp add: buffer_inv_def)
  then have "caches_ok val (passed obj H) s'" if "remember_dedup obj c s = Ret () s'" for s'
    using that c(1) val unfolding caches_ok_def
    by (auto simp: remember_dedup_def passed_def names_def Let_def split: if_splits)
  moreover have "stored_ok env s'" "hashes_ok env val s'" "grows s s'" if "remember_dedup obj c s = Ret () s'" for s'
    using that inv stored_ok_cong [of s' s env] hashes_ok_cong [of s' s env val]
    by (auto simp: remember_dedup_def buffer_inv_def grows_def Let_def split: if_splits)
  ultimately show ?thesis by (simp add: remember_dedup_def buffer_inv_def)
qed

section \<open>Sending one object\<close>

text \<open>The common end of \<open>buffer_send_function\<close> and \<open>buffer_send_object\<close>; only the name differs.\<close>

definition send_new :: "client_env \<Rightarrow> py_object \<Rightarrow> (ObjectID \<Rightarrow> bytes) \<Rightarrow> bool \<Rightarrow> ObjectCache buffer_step" where
  "send_new env obj nm dedup =
     andthen (object_id_for_payload env (po_payload obj)) (\<lambda>oid.
     andthen (buffer_send_serialized_object \<lparr>oc_object_id = oid, oc_object_type = OC_object, oc_object_name = nm oid, oc_payload = po_payload obj\<rparr>) (\<lambda>c.
     seq (if dedup then remember_dedup obj c else ret ()) (ret c)))"

lemma andthen_assoc: "andthen (andthen m f) g = andthen m (\<lambda>a. andthen (f a) g)"
  by (auto simp: andthen_def fun_eq_iff split: outcome.split)

lemma andthen_ret: "andthen (ret a) f = f a"
  by (simp add: andthen_def ret_def)

lemma send_function_new:
  "buffer_send_function env fn name = andthen (lookup_dedup fn False) (\<lambda>found. case found of Some c \<Rightarrow> ret c | None \<Rightarrow>
     send_new env fn (\<lambda>oid. case name of Some n \<Rightarrow> n | None \<Rightarrow> ''<func '' @ ce_repr env oid @ ''>'') True)"
proof -
  have "andthen (construct_function env fn name) (\<lambda>c0. andthen (buffer_send_serialized_object c0) (\<lambda>c. seq (remember_dedup fn c) (ret c))) =
      send_new env fn (\<lambda>oid. case name of Some n \<Rightarrow> n | None \<Rightarrow> ''<func '' @ ce_repr env oid @ ''>'') True"
    by (simp add: construct_function_def send_new_def andthen_assoc andthen_ret)
  then show ?thesis unfolding buffer_send_function_def by presburger
qed

lemma send_object_new:
  "buffer_send_object env obj name reserialize dedup = andthen (if dedup then lookup_dedup obj reserialize else ret None) (\<lambda>found.
     case found of Some c \<Rightarrow> ret c | None \<Rightarrow>
     send_new env obj (\<lambda>oid. if name = None \<or> name = Some '''' then ''<obj '' @ ce_repr env oid @ ''>'' else the name) dedup)"
proof -
  have "andthen (construct_object env obj name) (\<lambda>c0. andthen (buffer_send_serialized_object c0) (\<lambda>c. seq (if dedup then remember_dedup obj c else ret ()) (ret c))) =
      send_new env obj (\<lambda>oid. if name = None \<or> name = Some [] then ''<obj '' @ ce_repr env oid @ ''>'' else the name) dedup"
    by (simp add: construct_object_def send_new_def andthen_assoc andthen_ret)
  then show ?thesis unfolding buffer_send_object_def by presburger
qed

lemma send_new_ok:
  assumes inv: "buffer_inv env val H s" and env: "fresh_tags env" "inj_on (ce_md5 env) (range val)" and obj: "passable val H obj"
  shows "sat (\<lambda>c s'. buffer_inv env val (if dedup then passed obj H else H) s' \<and> grows s s' \<and> names s' (oc_object_id c) (po_payload obj)) (bad_tag env)
    (send_new env obj nm dedup s)"
  unfolding send_new_def
proof (rule sat_andthen)
  have p: "po_payload obj \<in> range val" using obj by (simp add: passable_def)
  show "sat (\<lambda>oid s'. buffer_inv env val H s' \<and> grows s s' \<and> ready env s' oid (po_payload obj)) (bad_tag env) (object_id_for_payload env (po_payload obj) s)"
    by (rule payload_id_ready [OF inv env p])
  fix oid s1 assume s1: "buffer_inv env val H s1 \<and> grows s s1 \<and> ready env s1 oid (po_payload obj)"
  let ?c = "\<lparr>oc_object_id = oid, oc_object_type = OC_object, oc_object_name = nm oid, oc_payload = po_payload obj\<rparr>"
  show "sat (\<lambda>c s'. buffer_inv env val (if dedup then passed obj H else H) s' \<and> grows s s' \<and> names s' (oc_object_id c) (po_payload obj)) (bad_tag env)
    (andthen (buffer_send_serialized_object ?c) (\<lambda>c. seq (if dedup then remember_dedup obj c else ret ()) (ret c)) s1)"
  proof (rule sat_andthen)
    show "sat (\<lambda>c' s'. c' = ?c \<and> buffer_inv env val H s' \<and> grows s1 s' \<and> names s' oid (po_payload obj)) (bad_tag env) (buffer_send_serialized_object ?c s1)"
      using enter_ok [of env val H s1 ?c] s1 p by simp
    fix c s2 assume s2: "c = ?c \<and> buffer_inv env val H s2 \<and> grows s1 s2 \<and> names s2 oid (po_payload obj)"
    have grow: "grows s s2" using s1 s2 grows_trans by blast
    show "sat (\<lambda>c s'. buffer_inv env val (if dedup then passed obj H else H) s' \<and> grows s s' \<and> names s' (oc_object_id c) (po_payload obj)) (bad_tag env)
      (seq (if dedup then remember_dedup obj c else ret ()) (ret c) s2)"
    proof (cases dedup)
      case True
      have "sat (\<lambda>_ s'. buffer_inv env val (passed obj H) s' \<and> grows s2 s') (bad_tag env) (remember_dedup obj c s2)"
        using remember_ok [of env val H s2 obj c] s2 obj by simp
      then show ?thesis using True s2 grow by (cases "remember_dedup obj c s2") (auto simp: seq_run intro: grows_trans grows_names)
    next
      case False
      then show ?thesis using s2 grow by simp
    qed
  qed
qed

lemma found_or_new:
  assumes look: "sat (\<lambda>r s'. buffer_inv env val H s' \<and> (\<forall>c. r = Some c \<longrightarrow> names s' (oc_object_id c) (po_payload obj)) \<and> grows s s') (bad_tag env) (m s)"
    and env: "fresh_tags env" "inj_on (ce_md5 env) (range val)" and obj: "passable val H obj"
  shows "sat (\<lambda>c s'. buffer_inv env val (passed obj H) s' \<and> grows s s' \<and> names s' (oc_object_id c) (po_payload obj)) (bad_tag env)
    (andthen m (\<lambda>found. case found of Some c \<Rightarrow> ret c | None \<Rightarrow> send_new env obj nm dedup) s)"
proof (rule sat_andthen)
  show "sat (\<lambda>r s'. buffer_inv env val H s' \<and> (\<forall>c. r = Some c \<longrightarrow> names s' (oc_object_id c) (po_payload obj)) \<and> grows s s') (bad_tag env) (m s)"
    by (rule look)
  fix r :: "ObjectCache option" and s1 assume s1: "buffer_inv env val H s1 \<and> (\<forall>c. r = Some c \<longrightarrow> names s1 (oc_object_id c) (po_payload obj)) \<and> grows s s1"
  have sub: "H \<subseteq> passed obj H" by (auto simp: passed_def)
  show "sat (\<lambda>c s'. buffer_inv env val (passed obj H) s' \<and> grows s s' \<and> names s' (oc_object_id c) (po_payload obj)) (bad_tag env)
    ((case r of Some c \<Rightarrow> ret c | None \<Rightarrow> send_new env obj nm dedup) s1)"
  proof (cases r)
    case None
    have "sat (\<lambda>c s'. buffer_inv env val (if dedup then passed obj H else H) s' \<and> grows s1 s' \<and> names s' (oc_object_id c) (po_payload obj)) (bad_tag env)
      (send_new env obj nm dedup s1)"
      by (rule send_new_ok [OF _ env obj]) (use s1 in blast)
    then have "sat (\<lambda>c s'. buffer_inv env val (passed obj H) s' \<and> grows s s' \<and> names s' (oc_object_id c) (po_payload obj)) (bad_tag env)
      (send_new env obj nm dedup s1)"
      by (rule sat_mono) (use s1 grows_trans inv_mono [OF _ sub] in \<open>auto split: if_splits\<close>)
    then show ?thesis using None by simp
  next
    case (Some c)
    then show ?thesis using s1 inv_mono [OF _ sub] by auto
  qed
qed

lemma send_ok:
  assumes "buffer_inv env val H s" "fresh_tags env" "inj_on (ce_md5 env) (range val)" "passable val H obj"
  shows "sat (\<lambda>c s'. buffer_inv env val (passed obj H) s' \<and> grows s s' \<and> names s' (oc_object_id c) (po_payload obj)) (bad_tag env)
      (buffer_send_function env obj name s)"
    "sat (\<lambda>c s'. buffer_inv env val (passed obj H) s' \<and> grows s s' \<and> names s' (oc_object_id c) (po_payload obj)) (bad_tag env)
      (buffer_send_object env obj name reserialize dedup s)"
proof -
  have look: "sat (\<lambda>r s'. buffer_inv env val H s' \<and> (\<forall>c. r = Some c \<longrightarrow> names s' (oc_object_id c) (po_payload obj)) \<and> grows s s') (bad_tag env) (lookup_dedup obj ig s)" for ig
    by (rule sat_mono [OF lookup_ok [OF assms(1,4)]]) (auto simp: grows_def)
  show "sat (\<lambda>c s'. buffer_inv env val (passed obj H) s' \<and> grows s s' \<and> names s' (oc_object_id c) (po_payload obj)) (bad_tag env)
      (buffer_send_function env obj name s)"
    unfolding send_function_new by (rule found_or_new) (rule look assms(2-4))+
  have "sat (\<lambda>r s'. buffer_inv env val H s' \<and> (\<forall>c. r = Some c \<longrightarrow> names s' (oc_object_id c) (po_payload obj)) \<and> grows s s') (bad_tag env)
      ((if dedup then lookup_dedup obj reserialize else ret None) s)"
    using look assms(1) by simp
  then show "sat (\<lambda>c s'. buffer_inv env val (passed obj H) s' \<and> grows s s' \<and> names s' (oc_object_id c) (po_payload obj)) (bad_tag env)
      (buffer_send_object env obj name reserialize dedup s)"
    unfolding send_object_new by (rule found_or_new) (use assms(2-4) in simp_all)
qed

section \<open>Commits and the rest\<close>

text \<open>After a commit everything an id names has been uploaded.\<close>

definition committed :: "object_buffer \<Rightarrow> bool" where
  "committed s \<longleftrightarrow> ob_pending s = [] \<and> ob_cycle s = []"

lemma committed_entries: "committed s \<Longrightarrow> entries s = ob_uploaded s"
  by (simp add: committed_def entries_def)

lemma commit_ok:
  assumes inv: "buffer_inv env val H s"
  shows "sat (\<lambda>_ s'. buffer_inv env val {} s' \<and> grows s s' \<and> committed s') (\<lambda>_. \<exists>oid. \<not> ce_set_object_ok env oid) (commit_send_objects env s)"
proof -
  have st: "stored_ok env s" and ha: "hashes_ok env val s" and ca: "caches_ok val H s" using inv by (simp_all add: buffer_inv_def)
  let ?s = "\<lambda>ms. s\<lparr>ob_sent := ms, ob_uploaded := ob_uploaded s @ map (\<lambda>c. (oc_object_id c, oc_payload c)) (ob_pending s), ob_pending := [], ob_cycle := []\<rparr>"
  have e: "entries (?s ms) = entries s" for ms by (simp add: entries_def)
  have "stored_ok env (?s ms)" for ms using st unfolding stored_ok_def e by (auto simp: image_iff)
  moreover have "hashes_ok env val (?s ms)" for ms using ha unfolding hashes_ok_def e by simp
  moreover have "caches_ok val {} (?s ms)" for ms using ca unfolding caches_ok_def names_def e by simp
  ultimately have "buffer_inv env val {} (?s ms)" for ms by (simp add: buffer_inv_def)
  moreover have "grows s (?s ms)" for ms unfolding grows_def e by simp
  moreover have "filter (\<lambda>c. ce_set_object_ok env (oc_object_id c)) (ob_pending s) = ob_pending s"
    if "list_all (\<lambda>c. ce_set_object_ok env (oc_object_id c)) (ob_pending s)"
    using that by (simp add: list_all_iff filter_id_conv)
  moreover have "buffer_inv env val {} (s\<lparr>ob_cycle := []\<rparr>)"
    using inv stored_ok_cong [of "s\<lparr>ob_cycle := []\<rparr>" s env] hashes_ok_cong [of "s\<lparr>ob_cycle := []\<rparr>" s env val]
    by (simp add: buffer_inv_def caches_ok_def names_def)
  ultimately show ?thesis
    by (auto simp: commit_send_objects_def Let_def committed_def grows_def list_all_iff)
qed

lemma clear_ok:
  assumes inv: "buffer_inv env val H s"
  shows "sat (\<lambda>_ s'. buffer_inv env val {} s' \<and> committed s') (\<lambda>_. False) (ob_clear s)"
proof -
  let ?s = "s\<lparr>ob_pending := [], ob_valid := [ob_serializer_id s], ob_dedup_alive := [], ob_dedup_cache := [],
     ob_cycle := [], ob_hashes := [], ob_sent := ob_sent s @ [ClientObjectClear]\<rparr>"
  have st: "stored_ok env s" using inv by (simp add: buffer_inv_def)
  have e: "entries ?s = ob_uploaded s" "set (ob_uploaded s) \<subseteq> set (entries s)" by (auto simp: entries_def)
  have "distinct (map fst (ob_uploaded s))" using st by (simp add: stored_ok_def entries_def)
  then have "stored_ok env ?s" using st e(2) unfolding stored_ok_def e(1) by (auto intro: rev_image_eqI)
  then have "buffer_inv env val {} ?s" by (simp add: buffer_inv_def hashes_ok_def caches_ok_def)
  then show ?thesis by (simp add: ob_clear_def committed_def)
qed

lemma collect_ok:
  assumes inv: "buffer_inv env val H s"
  shows "sat (\<lambda>_ s'. buffer_inv env val H s' \<and> grows s s' \<and> (committed s \<longrightarrow> committed s')) (\<lambda>_. False) (collect k s)"
proof -
  let ?s = "s\<lparr>ob_dedup_alive := filter (\<lambda>e. snd e \<noteq> k) (ob_dedup_alive s)\<rparr>"
  have ca: "caches_ok val H s" using inv by (simp add: buffer_inv_def)
  then have ok: "dict_ok (ob_dedup_alive s)" by (simp add: caches_ok_def)
  then have ok': "dict_ok (ob_dedup_alive ?s)" by (simp add: dict_ok_def distinct_map_filter)
  have "dict_get (ob_dedup_alive s) i = Some v" if "dict_get (ob_dedup_alive ?s) i = Some v" for i v
  proof -
    have "(i, v) \<in> set (ob_dedup_alive ?s)" using that by (simp only: dict_mem_iff [OF ok'])
    then show ?thesis by (simp add: dict_mem_iff [OF ok])
  qed
  then have "caches_ok val H ?s" using ca ok' unfolding caches_ok_def names_def by simp
  then have "buffer_inv env val H ?s"
    using inv stored_ok_cong [of ?s s env] hashes_ok_cong [of ?s s env val] by (simp add: buffer_inv_def)
  then show ?thesis by (simp add: collect_def grows_def committed_def)
qed

lemma start_ok:
  assumes "fresh_tags env"
  shows "sat (\<lambda>_ s'. buffer_inv env val {} s' \<and> committed s') (\<lambda>_. True) (send_serializer env ob_empty)"
proof -
  have gen: "generate_serializer_object_id (ce_md5 env) (ce_identity env) = Inr (serializer_id_of env)"
    using assms by (simp add: generate_serializer_object_id_def object_id_new_def serializer_id_of_def fresh_tags_def)
  show ?thesis
    by (simp add: send_serializer_def gen of_sum_def buffer_send_serialized_object_def ob_empty_def commit_send_objects_def Let_def
        seq_run buffer_inv_def stored_ok_def hashes_ok_def caches_ok_def committed_def entries_def known_ids_def set_add_def)
qed


section \<open>Submissions\<close>

text \<open>The objects of one submission are alive together and have the value \<open>val\<close> gives them.\<close>

definition live_together :: "(nat \<Rightarrow> bytes) \<Rightarrow> py_object list \<Rightarrow> bool" where
  "live_together val objs \<longleftrightarrow> list_all (\<lambda>x. po_payload x = val (po_identity x)) objs \<and>
     list_all (\<lambda>x. list_all (\<lambda>y. po_id x = po_id y \<longrightarrow> po_identity x = po_identity y) objs) objs"

definition pairs :: "py_object list \<Rightarrow> (nat \<times> nat) set" where
  "pairs objs = (\<lambda>x. (po_id x, po_identity x)) ` set objs"

definition arg_objects :: "submitted_arg list \<Rightarrow> py_object list" where
  "arg_objects as = concat (map (\<lambda>a. case a of ArgReference _ \<Rightarrow> [] | ArgObject x \<Rightarrow> [x]) as)"

lemma arg_objects_simps [simp]: "arg_objects [] = []" "arg_objects (ArgReference oid # as) = arg_objects as" "arg_objects (ArgObject x # as) = x # arg_objects as"
  by (simp_all add: arg_objects_def)

lemma live_passable:
  assumes "live_together val objs" "H \<subseteq> pairs objs" "x \<in> set objs"
  shows "passable val H x" "passed x H \<subseteq> pairs objs"
proof -
  have val: "po_payload x = val (po_identity x)" and one: "po_identity y = po_identity x" if "y \<in> set objs" "po_id x = po_id y" for y
    using assms(1,3) that unfolding live_together_def list_all_iff by metis+
  have "k = po_identity x" if "(po_id x, k) \<in> H" for k
  proof -
    have "(po_id x, k) \<in> pairs objs" using that assms(2) by blast
    then obtain y where "y \<in> set objs" "po_id x = po_id y" "k = po_identity y" unfolding pairs_def by blast
    then show ?thesis using one by simp
  qed
  then show "passable val H x" using val [OF assms(3)] by (simp add: passable_def)
  show "passed x H \<subseteq> pairs objs" using assms(2,3) unfolding passed_def pairs_def by blast
qed

definition arg_named :: "object_buffer \<Rightarrow> submitted_arg \<Rightarrow> ObjectID \<Rightarrow> bool" where
  "arg_named s a oid = (case a of ArgReference r \<Rightarrow> oid = r \<and> r \<in> set (ob_valid s) | ArgObject x \<Rightarrow> names s oid (po_payload x))"

lemma arg_named_grows: "grows s s' \<Longrightarrow> arg_named s a oid \<Longrightarrow> arg_named s' a oid"
  by (auto simp: arg_named_def grows_def names_def split: submitted_arg.splits)

definition buffering :: "client_env \<Rightarrow> (nat \<Rightarrow> bytes) \<Rightarrow> py_object list \<Rightarrow> object_buffer \<Rightarrow> bool" where
  "buffering env val objs s \<longleftrightarrow> (\<exists>H \<subseteq> pairs objs. buffer_inv env val H s)"

lemma buffering_send:
  assumes "buffering env val objs s" "fresh_tags env" "inj_on (ce_md5 env) (range val)" "live_together val objs" "x \<in> set objs"
  shows "sat (\<lambda>c s'. buffering env val objs s' \<and> grows s s' \<and> names s' (oc_object_id c) (po_payload x)) (bad_tag env) (buffer_send_function env x name s)"
    "sat (\<lambda>c s'. buffering env val objs s' \<and> grows s s' \<and> names s' (oc_object_id c) (po_payload x)) (bad_tag env) (buffer_send_object env x name reserialize dedup s)"
proof -
  obtain H where H: "H \<subseteq> pairs objs" "buffer_inv env val H s" using assms(1) by (auto simp: buffering_def)
  note live = live_passable [OF assms(4) H(1) assms(5)]
  have step: "buffer_inv env val (passed x H) s' \<Longrightarrow> buffering env val objs s'" for s' using live(2) unfolding buffering_def by blast
  show "sat (\<lambda>c s'. buffering env val objs s' \<and> grows s s' \<and> names s' (oc_object_id c) (po_payload x)) (bad_tag env) (buffer_send_function env x name s)"
    by (rule sat_mono [OF send_ok(1) [OF H(2) assms(2,3) live(1)]]) (use step in auto)
  show "sat (\<lambda>c s'. buffering env val objs s' \<and> grows s s' \<and> names s' (oc_object_id c) (po_payload x)) (bad_tag env) (buffer_send_object env x name reserialize dedup s)"
    by (rule sat_mono [OF send_ok(2) [OF H(2) assms(2,3) live(1)]]) (use step in auto)
qed

definition refs_valid :: "object_buffer \<Rightarrow> submitted_arg list \<Rightarrow> bool" where
  "refs_valid s as = list_all (\<lambda>a. case a of ArgReference oid \<Rightarrow> oid \<in> set (ob_valid s) | ArgObject _ \<Rightarrow> True) as"

lemma refs_valid_grows: "grows s s' \<Longrightarrow> refs_valid s as \<Longrightarrow> refs_valid s' as"
  unfolding refs_valid_def by (erule list.pred_mono_strong) (auto simp: grows_def split: submitted_arg.splits)

lemma refs_valid_Cons: "refs_valid s (a # as) \<Longrightarrow> refs_valid s as"
  by (simp add: refs_valid_def)

lemma submit_args_ok:
  assumes "buffering env val objs s" "fresh_tags env" "inj_on (ce_md5 env) (range val)" "live_together val objs" "set (arg_objects as) \<subseteq> set objs"
  shows "sat (\<lambda>oids s'. buffering env val objs s' \<and> grows s s' \<and> list_all2 (arg_named s') as oids) (\<lambda>s'. \<not> refs_valid s as \<or> bad_tag env s') (submit_args env reserialize as s)"
  using assms(1,5)
proof (induction as arbitrary: s)
  case (Cons a as)
  have first: "sat (\<lambda>oid s'. buffering env val objs s' \<and> grows s s' \<and> arg_named s' a oid) (\<lambda>s'. \<not> refs_valid s (a # as) \<or> bad_tag env s')
      ((case a of ArgReference oid \<Rightarrow> (\<lambda>s. if is_valid_object_id s oid then Ret oid s else Raise MissingObjects s)
        | ArgObject obj \<Rightarrow> andthen (buffer_send_object env obj None reserialize True) (\<lambda>c. ret (oc_object_id c))) s)"
  proof (cases a)
    case (ArgReference oid)
    then show ?thesis using Cons.prems(1) by (simp add: is_valid_object_id_def arg_named_def refs_valid_def)
  next
    case (ArgObject x)
    then have "x \<in> set objs" using Cons.prems(2) by simp
    from buffering_send(2) [OF Cons.prems(1) assms(2-4) this, of None reserialize True]
    show ?thesis using ArgObject by (cases "buffer_send_object env x None reserialize True s") (auto simp: arg_named_def andthen_run)
  qed
  show ?case
    unfolding submit_args.simps
  proof (rule sat_andthen)
    show "sat (\<lambda>oid s'. buffering env val objs s' \<and> grows s s' \<and> arg_named s' a oid) (\<lambda>s'. \<not> refs_valid s (a # as) \<or> bad_tag env s')
      ((case a of ArgReference oid \<Rightarrow> (\<lambda>s. if is_valid_object_id s oid then Ret oid s else Raise MissingObjects s)
        | ArgObject obj \<Rightarrow> andthen (buffer_send_object env obj None reserialize True) (\<lambda>c. ret (oc_object_id c))) s)"
      by (rule first)
    fix oid s1 assume s1: "buffering env val objs s1 \<and> grows s s1 \<and> arg_named s1 a oid"
    have "set (arg_objects as) \<subseteq> set objs" using Cons.prems(2) by (cases a) auto
    then have "sat (\<lambda>oids s'. buffering env val objs s' \<and> grows s1 s' \<and> list_all2 (arg_named s') as oids) (\<lambda>s'. \<not> refs_valid s1 as \<or> bad_tag env s') (submit_args env reserialize as s1)"
      using Cons.IH [of s1] s1 by blast
    then show "sat (\<lambda>oids s'. buffering env val objs s' \<and> grows s s' \<and> list_all2 (arg_named s') (a # as) oids) (\<lambda>s'. \<not> refs_valid s (a # as) \<or> bad_tag env s')
      (andthen (submit_args env reserialize as) (\<lambda>oids. ret (oid # oids)) s1)"
      using s1 refs_valid_grows [of s s1 as] refs_valid_Cons [of s a as]
      by (cases "submit_args env reserialize as s1") (auto simp: andthen_run intro: grows_trans arg_named_grows)
  qed
qed simp

section \<open>Whole submissions\<close>

definition task_faithful :: "object_buffer \<Rightarrow> py_object \<Rightarrow> submitted_arg list \<Rightarrow> Task \<Rightarrow> bool" where
  "task_faithful s fn as task \<longleftrightarrow> names s (funcObjectId task) (po_payload fn) \<and>
     list_all2 (\<lambda>a x. case x of ObjectArgument oid \<Rightarrow> arg_named s a oid | TaskArgument _ \<Rightarrow> False) as (functionArgs task)"

lemma task_faithful_grows: "grows s s' \<Longrightarrow> task_faithful s fn as task \<Longrightarrow> task_faithful s' fn as task"
  unfolding task_faithful_def by (auto intro: grows_names arg_named_grows elim!: list_all2_mono split: Argument.splits)

lemma buffering_cong:
  assumes "entries s' = entries s" "ob_valid s' = ob_valid s" "ob_tags_used s' = ob_tags_used s" "ob_serializer_id s' = ob_serializer_id s"
    "ob_uploaded s' = ob_uploaded s" "ob_hashes s' = ob_hashes s" "ob_dedup_alive s' = ob_dedup_alive s" "ob_dedup_cache s' = ob_dedup_cache s" "ob_cycle s' = ob_cycle s"
  shows "buffer_inv env val H s' = buffer_inv env val H s" "buffering env val objs s' = buffering env val objs s" "grows s s'"
proof -
  show inv: "buffer_inv env val H s' = buffer_inv env val H s" for H
    using assms by (simp add: buffer_inv_def stored_ok_def hashes_ok_def caches_ok_def names_def)
  then show "buffering env val objs s' = buffering env val objs s" by (simp add: buffering_def)
  show "grows s s'" using assms by (simp add: grows_def)
qed

lemma submit_one_ok:
  assumes "buffering env val objs s" "fresh_tags env" "inj_on (ce_md5 env) (range val)" "live_together val objs" "set (arg_objects as) \<subseteq> set objs"
    and f: "names s f (po_payload fn)"
  shows "sat (\<lambda>task s'. buffering env val objs s' \<and> grows s s' \<and> task_faithful s' fn as task) (\<lambda>s'. refs_valid s as \<longrightarrow> bad_tag env s' \<or> serialize_flags (client_task_flags env) = Inl StructError) (client_submit_one env f as caps reserialize s)"
proof -
  let ?s = "s\<lparr>ob_tasks_used := Suc (ob_tasks_used s)\<rparr>"
  note start = buffering_cong [where s = s and s' = ?s, simplified]
  have "buffering env val objs ?s" using start(2) assms(1) by simp
  with submit_args_ok [OF _ assms(2-5), of ?s reserialize]
  have args: "sat (\<lambda>oids s'. buffering env val objs s' \<and> grows ?s s' \<and> list_all2 (arg_named s') as oids) (\<lambda>s'. \<not> refs_valid s as \<or> bad_tag env s') (submit_args env reserialize as ?s)"
    by (simp add: refs_valid_def)
  have "task_faithful s' fn as t" if "funcObjectId t = f" "functionArgs t = map ObjectArgument oids" "list_all2 (arg_named s') as oids" "grows s s'" for t oids s'
    using that grows_names [OF that(4) f] by (simp add: task_faithful_def list_all2_map2)
  moreover have "buffering env val objs (s'\<lparr>ob_futures := fs\<rparr>) = buffering env val objs s'" "grows s s' \<Longrightarrow> grows s (s'\<lparr>ob_futures := fs\<rparr>)"
      "list_all2 (arg_named s') as oids \<Longrightarrow> list_all2 (arg_named (s'\<lparr>ob_futures := fs\<rparr>)) as oids" for s' fs oids
    using buffering_cong [where s = s' and s' = "s'\<lparr>ob_futures := fs\<rparr>", simplified] grows_trans arg_named_grows
    by (auto elim!: list_all2_mono)
  moreover have "grows s s'" if "grows ?s s'" for s' using start(3) that by (rule grows_trans)
  moreover have "serialize_flags f = Inl e \<Longrightarrow> e = StructError" for f e by (auto simp: serialize_flags_def pack_i_def split: sum.splits if_splits)
  ultimately show ?thesis
    using args by (cases "submit_args env reserialize as ?s")
      (auto simp: client_submit_one_def andthen_run seq_run of_sum_def Let_def split: sum.split)
qed

lemma buffering_start: "buffer_inv env val {} s \<Longrightarrow> buffering env val objs s"
  by (auto simp: buffering_def)

lemma commit_buffering:
  "buffering env val objs s \<Longrightarrow> sat (\<lambda>_ s'. buffer_inv env val {} s' \<and> grows s s' \<and> committed s') (\<lambda>_. \<exists>oid. \<not> ce_set_object_ok env oid) (commit_send_objects env s)"
  using commit_ok by (auto simp: buffering_def)

lemma arg_named_sent: "arg_named (s\<lparr>ob_sent := ms\<rparr>) = arg_named s"
  by (simp add: arg_named_def names_def fun_eq_iff split: submitted_arg.split)

lemma task_faithful_sent [simp]: "task_faithful (s\<lparr>ob_sent := ms\<rparr>) = task_faithful s"
  unfolding task_faithful_def arg_named_sent names_def fun_eq_iff by simp

lemma sent_cong [simp]:
  "buffer_inv env val H (s\<lparr>ob_sent := ms\<rparr>) = buffer_inv env val H s" "committed (s\<lparr>ob_sent := ms\<rparr>) = committed s"
  using buffering_cong [where s = s and s' = "s\<lparr>ob_sent := ms\<rparr>", simplified]
  by (simp_all add: committed_def)

lemma submit_all_ok:
  assumes "buffering env val objs s" "fresh_tags env" "inj_on (ce_md5 env) (range val)" "live_together val objs" "set (concat (map arg_objects ass)) \<subseteq> set objs"
    and "names s f (po_payload fn)"
  shows "sat (\<lambda>tasks s'. buffering env val objs s' \<and> grows s s' \<and> list_all2 (task_faithful s' fn) ass tasks) (\<lambda>_. True) (submit_all env f ass caps reserialize s)"
  using assms(1,5,6)
proof (induction ass arbitrary: s)
  case (Cons as ass)
  show ?case
    unfolding submit_all.simps
  proof (rule sat_andthen)
    show "sat (\<lambda>task s'. buffering env val objs s' \<and> grows s s' \<and> task_faithful s' fn as task) (\<lambda>_. True) (client_submit_one env f as caps reserialize s)"
      by (rule sat_mono [OF submit_one_ok [OF Cons.prems(1) assms(2-4) _ Cons.prems(3)]]) (use Cons.prems(2) in simp_all)
    fix task s1 assume s1: "buffering env val objs s1 \<and> grows s s1 \<and> task_faithful s1 fn as task"
    have "sat (\<lambda>tasks s'. buffering env val objs s' \<and> grows s1 s' \<and> list_all2 (task_faithful s' fn) ass tasks) (\<lambda>_. True) (submit_all env f ass caps reserialize s1)"
      using Cons.IH [of s1] s1 Cons.prems(2) grows_names [OF _ Cons.prems(3)] by simp
    then show "sat (\<lambda>tasks s'. buffering env val objs s' \<and> grows s s' \<and> list_all2 (task_faithful s' fn) (as # ass) tasks) (\<lambda>_. True)
      (andthen (submit_all env f ass caps reserialize) (\<lambda>tasks. ret (task # tasks)) s1)"
      using s1 by (cases "submit_all env f ass caps reserialize s1") (auto simp: andthen_run intro: grows_trans task_faithful_grows)
  qed
qed simp

lemma unless_stopped:
  "(\<not> ob_stopped s \<Longrightarrow> sat P Q (m s)) \<Longrightarrow> (ob_stopped s \<Longrightarrow> Q s) \<Longrightarrow> sat P Q (seq assert_client_not_stopped m s)"
  by (simp add: assert_client_not_stopped_def seq_run)

lemma submit_verbose_ok:
  assumes inv: "buffer_inv env val {} s" and env: "fresh_tags env" "inj_on (ce_md5 env) (range val)"
    and conv: "convert_kwargs_to_args ps args kwargs = Inr as" and live: "live_together val (fn # arg_objects as)"
  shows "sat (\<lambda>task s'. buffer_inv env val {} s' \<and> committed s' \<and> task_faithful s' fn as task) (\<lambda>s'. refs_valid s as \<longrightarrow> ob_stopped s \<or> bad_tag env s' \<or> serialize_flags (client_task_flags env) = Inl StructError \<or> (\<exists>oid. \<not> ce_set_object_ok env oid))
    (submit_verbose env fn name (Some ps) args kwargs caps reserialize s)"
  unfolding submit_verbose_def
proof (rule unless_stopped, rule sat_andthen)
  let ?objs = "fn # arg_objects as"
  show "sat (\<lambda>c s'. buffering env val ?objs s' \<and> grows s s' \<and> names s' (oc_object_id c) (po_payload fn)) (\<lambda>s'. refs_valid s as \<longrightarrow> ob_stopped s \<or> bad_tag env s' \<or> serialize_flags (client_task_flags env) = Inl StructError \<or> (\<exists>oid. \<not> ce_set_object_ok env oid)) (buffer_send_function env fn name s)"
    by (rule sat_mono [OF buffering_send(1) [OF buffering_start [OF inv] env live]]) auto
  fix c s1 assume s1: "buffering env val ?objs s1 \<and> grows s s1 \<and> names s1 (oc_object_id c) (po_payload fn)"
  have one: "sat (\<lambda>task s'. buffering env val ?objs s' \<and> grows s1 s' \<and> task_faithful s' fn as task) (\<lambda>s'. refs_valid s as \<longrightarrow> ob_stopped s \<or> bad_tag env s' \<or> serialize_flags (client_task_flags env) = Inl StructError \<or> (\<exists>oid. \<not> ce_set_object_ok env oid)) (client_submit_one env (oc_object_id c) as caps reserialize s1)"
    by (rule sat_mono [OF submit_one_ok [OF _ env live, where fn = fn]]) (use s1 refs_valid_grows [of s s1 as] in auto)
  have fin: "sat (\<lambda>r s'. r = task \<and> buffer_inv env val {} s' \<and> committed s' \<and> task_faithful s' fn as r) (\<lambda>s'. refs_valid s as \<longrightarrow> ob_stopped s \<or> bad_tag env s' \<or> serialize_flags (client_task_flags env) = Inl StructError \<or> (\<exists>oid. \<not> ce_set_object_ok env oid))
      (seq (commit_send_objects env) (seq (send_task task) (ret task)) s2)"
    if "buffering env val ?objs s2" "task_faithful s2 fn as task" for task s2
    using commit_buffering [OF that(1)] that(2) task_faithful_grows
    by (cases "commit_send_objects env s2") (auto simp: seq_run send_task_def)
  show "sat (\<lambda>task s'. buffer_inv env val {} s' \<and> committed s' \<and> task_faithful s' fn as task) (\<lambda>s'. refs_valid s as \<longrightarrow> ob_stopped s \<or> bad_tag env s' \<or> serialize_flags (client_task_flags env) = Inl StructError \<or> (\<exists>oid. \<not> ce_set_object_ok env oid))
    (andthen (case Some ps of None \<Rightarrow> raise ValueError | Some ps \<Rightarrow> of_sum (convert_kwargs_to_args ps args kwargs)) (\<lambda>all_args.
     andthen (client_submit_one env (oc_object_id c) all_args caps reserialize) (\<lambda>task.
     seq (commit_send_objects env) (seq (send_task task) (ret task)))) s1)"
  proof (cases "client_submit_one env (oc_object_id c) as caps reserialize s1")
    case (Ret task s2)
    then show ?thesis using one conv sat_mono [OF fin [of s2 task]] by (auto simp: andthen_run of_sum_def)
  qed (use one conv in \<open>simp_all add: andthen_run of_sum_def\<close>)
qed simp

lemma send_tasks: "for_each tasks send_task s = Ret () (s\<lparr>ob_sent := ob_sent s @ map ClientTask tasks\<rparr>)"
  by (induction tasks arbitrary: s) (simp_all add: send_task_def seq_run)

lemma starmap_ok:
  assumes inv: "buffer_inv env val {} s" and env: "fresh_tags env" "inj_on (ce_md5 env) (range val)"
    and live: "live_together val (fn # concat (map arg_objects ass))"
  shows "sat (\<lambda>tasks s'. buffer_inv env val {} s' \<and> committed s' \<and> list_all2 (task_faithful s' fn) ass tasks) (\<lambda>_. True)
    (starmap env fn name ass caps reserialize s)"
  unfolding starmap_def
proof (rule unless_stopped, rule sat_andthen)
  let ?objs = "fn # concat (map arg_objects ass)"
  show "sat (\<lambda>c s'. buffering env val ?objs s' \<and> grows s s' \<and> names s' (oc_object_id c) (po_payload fn)) (\<lambda>_. True) (buffer_send_function env fn name s)"
    by (rule sat_mono [OF buffering_send(1) [OF buffering_start [OF inv] env live]]) auto
  fix c s1 assume s1: "buffering env val ?objs s1 \<and> grows s s1 \<and> names s1 (oc_object_id c) (po_payload fn)"
  have all: "sat (\<lambda>tasks s'. buffering env val ?objs s' \<and> grows s1 s' \<and> list_all2 (task_faithful s' fn) ass tasks) (\<lambda>_. True)
      (submit_all env (oc_object_id c) ass caps reserialize s1)"
    by (rule submit_all_ok [OF _ env live]) (use s1 in auto)
  have fin: "sat (\<lambda>r s'. r = tasks \<and> buffer_inv env val {} s' \<and> committed s' \<and> list_all2 (task_faithful s' fn) ass r) (\<lambda>_. True)
      (seq (commit_send_objects env) (seq (for_each tasks send_task) (ret tasks)) s2)"
    if "buffering env val ?objs s2" "list_all2 (task_faithful s2 fn) ass tasks" for tasks s2
    using commit_buffering [OF that(1)] list_all2_mono [OF that(2)] task_faithful_grows
    by (cases "commit_send_objects env s2") (auto simp: seq_run send_tasks)
  show "sat (\<lambda>tasks s'. buffer_inv env val {} s' \<and> committed s' \<and> list_all2 (task_faithful s' fn) ass tasks) (\<lambda>_. True)
    (andthen (submit_all env (oc_object_id c) ass caps reserialize) (\<lambda>tasks.
       if tasks = [] then raise ValueError
       else seq (commit_send_objects env) (seq (for_each tasks send_task) (ret tasks))) s1)"
  proof (cases "submit_all env (oc_object_id c) ass caps reserialize s1")
    case (Ret tasks s2)
    then show ?thesis using all sat_mono [OF fin [of s2 tasks]] by (auto simp: andthen_run)
  qed (use all in \<open>simp_all add: andthen_run\<close>)
qed simp

lemma send_object_ok:
  assumes inv: "buffer_inv env val {} s" and env: "fresh_tags env" "inj_on (ce_md5 env) (range val)" and x: "po_payload x = val (po_identity x)"
  shows "sat (\<lambda>r s'. buffer_inv env val {} s' \<and> names s' (snd (snd r)) (po_payload x)) (\<lambda>_. True) (send_object env x name s)"
proof -
  have "passable val {} x" using x by (simp add: passable_def)
  from send_new_ok [OF inv env this, where dedup = False]
  have new: "sat (\<lambda>c s'. buffer_inv env val {} s' \<and> names s' (oc_object_id c) (po_payload x)) (bad_tag env) (send_new env x nm False s)" for nm
    by (rule sat_mono) auto
  show ?thesis
    using new [of "\<lambda>oid. if name = None \<or> name = Some [] then ''<obj '' @ ce_repr env oid @ ''>'' else the name"]
    by (auto simp: send_object_def send_object_new andthen_run intro!: unless_stopped split: outcome.split)
qed

end
