(* ===== verification/GraphOptimization.thy ===== *)
theory GraphOptimization
  imports Prelude
begin

text \<open>
  \<open>cull_graph\<close> of \<open>src/src/scaler/utility/graph/optimization.py\<close>: the part of a graph that the
  target keys need. A graph value is a call, a tuple whose first element is callable and
  whose others are the keys it depends on, or anything else. The search keeps a queue and
  the set of keys it has seen; \<open>h\<close> is the order in which Python iterates over a set.
\<close>

datatype 'k graph_value = Call "'k list" | Data

fun dependencies :: "'k graph_value \<Rightarrow> 'k list" where
  "dependencies (Call ks) = remdups ks"
| "dependencies Data = []"

text \<open>The keys the graph mentions as a dependency, which bound the search.\<close>

definition mentioned :: "('k \<times> 'k graph_value) list \<Rightarrow> 'k set" where
  "mentioned graph = (\<Union>(k, v) \<in> set graph. set (dependencies v))"

lemma finite_mentioned [simp]: "finite (mentioned graph)"
  by (auto simp: mentioned_def)

lemma dependencies_mentioned: "dict_get graph k = Some v \<Longrightarrow> set (dependencies v) \<subseteq> mentioned graph"
  using dict_get_SomeD [of graph k v] by (force simp: mentioned_def)

text \<open>The inner loop adds the dependencies not seen before, to the queue and to the set.\<close>

definition unseen :: "('k \<Rightarrow> nat) \<Rightarrow> 'k list \<Rightarrow> 'k graph_value \<Rightarrow> 'k list" where
  "unseen h visited v = filter (\<lambda>d. d \<notin> set visited) (sort_key h (dependencies v))"

lemma set_unseen: "set (unseen h visited v) = set (dependencies v) - set visited"
  by (auto simp: unseen_def)

function cull_loop ::
  "('k \<Rightarrow> nat) \<Rightarrow> ('k \<times> 'k graph_value) list \<Rightarrow> 'k list \<Rightarrow> 'k list \<Rightarrow> py_exn + 'k list" where
  "cull_loop h graph visited [] = Inr visited"
| "cull_loop h graph visited (key # queue) =
     (case dict_get graph key of
        None \<Rightarrow> Inl KeyError
      | Some v \<Rightarrow> cull_loop h graph (visited @ unseen h visited v) (queue @ unseen h visited v))"
  by pat_completeness auto

lemma cull_shrinks:
  assumes "dict_get graph key = Some v" "unseen h visited v \<noteq> []"
  shows "card (mentioned graph - set (visited @ unseen h visited v)) < card (mentioned graph - set visited)"
proof (rule psubset_card_mono)
  obtain d where "d \<in> set (unseen h visited v)" using assms(2) by (cases "unseen h visited v") auto
  then have "d \<in> mentioned graph - set visited"
    using dependencies_mentioned [OF assms(1)] by (auto simp: set_unseen)
  then show "mentioned graph - set (visited @ unseen h visited v) \<subset> mentioned graph - set visited"
    using \<open>d \<in> set (unseen h visited v)\<close> by auto
qed simp

termination cull_loop
proof (relation "(\<lambda>(h, graph, visited, queue). card (mentioned graph - set visited)) <*mlex*> measure (\<lambda>(h, graph, visited, queue). length queue)",
    goal_cases)
  case 1
  then show ?case by (simp add: wf_mlex)
next
  case (2 h graph visited key queue v)
  show ?case
  proof (cases "unseen h visited v = []")
    case True
    then show ?thesis by (intro mlex_leq) simp_all
  next
    case False
    then show ?thesis using cull_shrinks [OF 2 False] by (intro mlex_less) simp
  qed
qed

text \<open>Adding the targets to the set one by one keeps a repeated key once; the queue keeps it twice.\<close>

definition cull_graph ::
  "('k \<Rightarrow> nat) \<Rightarrow> ('k \<times> 'k graph_value) list \<Rightarrow> 'k list \<Rightarrow> py_exn + ('k \<times> 'k graph_value) list" where
  "cull_graph h graph keys =
     (case cull_loop h graph (remdups keys) keys of
        Inl e \<Rightarrow> Inl e
      | Inr visited \<Rightarrow>
          (case those (map (\<lambda>k. map_option (Pair k) (dict_get graph k)) (sort_key h visited)) of
             None \<Rightarrow> Inl KeyError | Some d \<Rightarrow> Inr d))"

section \<open>The search is exact\<close>

definition depends :: "('k \<times> 'k graph_value) list \<Rightarrow> ('k \<times> 'k) set" where
  "depends graph = {(k, d). \<exists>v. dict_get graph k = Some v \<and> d \<in> set (dependencies v)}"

definition needed :: "('k \<times> 'k graph_value) list \<Rightarrow> 'k list \<Rightarrow> 'k set" where
  "needed graph keys = (depends graph)\<^sup>* `` set keys"

text \<open>
  The invariant of the search: what has been seen is needed, and the dependencies of
  every seen key that is no longer queued have been seen.
\<close>

definition searching :: "('k \<times> 'k graph_value) list \<Rightarrow> 'k list \<Rightarrow> 'k list \<Rightarrow> 'k list \<Rightarrow> bool" where
  "searching graph keys visited queue \<longleftrightarrow> distinct visited \<and> set keys \<subseteq> set visited \<and> set visited \<subseteq> needed graph keys \<and>
     set queue \<subseteq> set visited \<and>
     (\<forall>k \<in> set visited - set queue. dict_has graph k \<and> depends graph `` {k} \<subseteq> set visited)"

lemma searching_step:
  assumes "searching graph keys visited (key # queue)" "dict_get graph key = Some v"
  shows "searching graph keys (visited @ unseen h visited v) (queue @ unseen h visited v)"
proof -
  have deps: "depends graph `` {key} = set (dependencies v)" using assms(2) by (auto simp: depends_def)
  have key: "key \<in> needed graph keys" using assms(1) by (auto simp: searching_def)
  have "set (dependencies v) \<subseteq> needed graph keys"
    using key deps by (auto simp: needed_def intro: rtrancl_into_rtrancl)
  moreover have "distinct (unseen h visited v)"
    by (cases v) (simp_all add: unseen_def)
  ultimately show ?thesis
    using assms deps unfolding searching_def set_append set_unseen by (auto simp: set_unseen dict_has_iff)
qed

lemma cull_loop_spec:
  assumes "searching graph keys visited queue"
  shows "case cull_loop h graph visited queue of
      Inl e \<Rightarrow> e = KeyError \<and> (\<exists>k \<in> needed graph keys. \<not> dict_has graph k)
    | Inr visited' \<Rightarrow> distinct visited' \<and> set visited' = needed graph keys \<and> (\<forall>k \<in> needed graph keys. dict_has graph k)"
  using assms
proof (induction h graph visited queue rule: cull_loop.induct)
  case (1 h graph visited)
  have "needed graph keys \<subseteq> set visited"
  proof
    fix k assume "k \<in> needed graph keys"
    then obtain r where r: "r \<in> set keys" "(r, k) \<in> (depends graph)\<^sup>*" by (auto simp: needed_def)
    from r(2) show "k \<in> set visited"
      by (induction rule: rtrancl_induct) (use 1 r(1) in \<open>auto simp: searching_def\<close>)
  qed
  with 1 have "set visited = needed graph keys" by (auto simp: searching_def)
  then show ?case using 1 by (auto simp: searching_def)
next
  case (2 h graph visited key queue)
  show ?case
  proof (cases "dict_get graph key")
    case None
    then show ?thesis using "2.prems" by (auto simp: searching_def dict_has_iff)
  next
    case (Some v)
    then show ?thesis using "2.IH" [OF Some searching_step [OF "2.prems" Some]] by simp
  qed
qed

lemma cull_graph_spec:
  "case cull_graph h graph keys of
      Inl e \<Rightarrow> e = KeyError \<and> (\<exists>k \<in> needed graph keys. \<not> dict_has graph k)
    | Inr culled \<Rightarrow> dict_ok culled \<and>
        (\<forall>k. dict_get culled k = (if k \<in> needed graph keys then dict_get graph k else None)) \<and>
        (\<forall>k \<in> needed graph keys. dict_has graph k)"
proof -
  have start: "searching graph keys (remdups keys) keys" by (auto simp: searching_def needed_def)
  note spec = cull_loop_spec [OF start, of h]
  show ?thesis
  proof (cases "cull_loop h graph (remdups keys) keys")
    case (Inl e)
    then show ?thesis using spec by (simp add: cull_graph_def)
  next
    case (Inr visited)
    then have v: "distinct visited" "set visited = needed graph keys" "\<And>k. k \<in> needed graph keys \<Longrightarrow> dict_has graph k"
      using spec by auto
    let ?d = "map (\<lambda>k. (k, the (dict_get graph k))) (sort_key h visited)"
    have "those (map (\<lambda>k. map_option (Pair k) (dict_get graph k)) (sort_key h visited)) = Some ?d"
      by (rule those_map_Some) (use v(2,3) in \<open>auto simp: dict_has_iff\<close>)
    then have "cull_graph h graph keys = Inr ?d" using Inr by (simp add: cull_graph_def)
    moreover have ok: "dict_ok ?d" using v(1) by (simp add: dict_ok_def comp_def)
    moreover have "dict_get ?d k = (if k \<in> needed graph keys then dict_get graph k else None)" for k
    proof (cases "k \<in> needed graph keys")
      case True
      then have "(k, the (dict_get graph k)) \<in> set ?d" using v(2) by auto
      then show ?thesis using True v(3) [OF True] dict_get_in_set [OF ok] by (auto simp: dict_has_iff)
    next
      case False
      then show ?thesis using v(2) dict_get_SomeD [of ?d k] by (cases "dict_get ?d k") auto
    qed
    ultimately show ?thesis using v(3) by simp
  qed
qed

end
