(* ===== verification/Sorter.thy ===== *)
theory Sorter
  imports Prelude
begin

text \<open>
  The incremental topological sorter of
  \<open>src/src/scaler/utility/graph/topological_sorter_graphblas.py\<close>, stated over the dependency
  relation itself. Nodes are numbered in the order they were first mentioned, the masks of
  the class are the lists of visited and of done nodes. The theory of the GraphBLAS-backed
  class relates its matrix code to these definitions.
\<close>

record 'k sorter =
  so_nodes :: "'k list"
  so_edges :: "('k \<times> 'k) list"
  so_finished :: "'k list"
  so_visited :: "'k list"
  so_ready :: "'k list option"
  so_n_done :: nat
  so_n_visited :: nat

definition so_empty :: "'k sorter" where
  "so_empty = \<lparr>so_nodes = [], so_edges = [], so_finished = [], so_visited = [], so_ready = None,
     so_n_done = 0, so_n_visited = 0\<rparr>"

text \<open>\<open>merge_graph\<close>: first the numbering, then the matrix entries.\<close>

definition so_number :: "('k \<times> 'k list) list \<Rightarrow> 'k list \<Rightarrow> 'k list" where
  "so_number graph nodes = fold (\<lambda>(n, preds) xs. fold set_add preds (set_add n xs)) graph nodes"

definition so_merge_graph :: "('k \<times> 'k list) list \<Rightarrow> 'k sorter \<Rightarrow> py_exn + 'k sorter" where
  "so_merge_graph graph s =
     (if so_ready s \<noteq> None then Inl ValueError
      else Inr (s\<lparr>so_nodes := so_number graph (so_nodes s),
                  so_edges := so_edges s @ [(n, p). (n, preds) \<leftarrow> graph, p \<leftarrow> preds]\<rparr>))"

text \<open>A node has degree zero when all its predecessors are done.\<close>

definition so_zero_degree :: "'k sorter \<Rightarrow> 'k \<Rightarrow> bool" where
  "so_zero_degree s n = list_all (\<lambda>(m, p). m = n \<longrightarrow> p \<in> set (so_finished s)) (so_edges s)"

text \<open>\<open>_get_zero_degree_keys\<close>: where the two masks differ, in numbering order.\<close>

definition so_zero_degree_keys :: "'k sorter \<Rightarrow> 'k list" where
  "so_zero_degree_keys s = filter (\<lambda>n. (n \<in> set (so_visited s)) \<noteq> so_zero_degree s n) (so_nodes s)"

text \<open>The nodes \<open>i\<close> predecessor steps away, and the cycle test by powers of the matrix.\<close>

fun so_walk :: "('k \<times> 'k) list \<Rightarrow> nat \<Rightarrow> 'k list \<Rightarrow> 'k list" where
  "so_walk edges 0 xs = xs"
| "so_walk edges (Suc i) xs = map snd (filter (\<lambda>(m, p). m \<in> set (so_walk edges i xs)) edges)"

definition so_has_cycle :: "'k sorter \<Rightarrow> bool" where
  "so_has_cycle s = list_ex (\<lambda>i. list_ex (\<lambda>n. n \<in> set (so_walk (so_edges s) (Suc i) [n])) (so_nodes s))
     [0..<length (so_nodes s)]"

text \<open>Visiting what became ready, shared by \<open>prepare\<close> and \<open>done\<close>.\<close>

definition so_visit :: "'k list \<Rightarrow> 'k list \<Rightarrow> 'k sorter \<Rightarrow> 'k sorter" where
  "so_visit old new s = s\<lparr>so_visited := so_visited s @ filter (\<lambda>n. n \<notin> set (so_visited s)) new,
     so_ready := Some (old @ new), so_n_visited := so_n_visited s + length new\<rparr>"

definition so_prepare :: "(unit, 'k sorter) comp" where
  "so_prepare s =
     (if so_ready s \<noteq> None then Raise ValueError s
      else let s1 = so_visit [] (so_zero_degree_keys (s\<lparr>so_finished := [], so_visited := []\<rparr>))
                      (s\<lparr>so_finished := [], so_visited := []\<rparr>)
           in if so_has_cycle s1 then Raise CycleError s1 else Ret () s1)"

definition so_get_ready :: "('k list, 'k sorter) comp" where
  "so_get_ready s = (case so_ready s of None \<Rightarrow> Raise ValueError s | Some r \<Rightarrow> Ret r (s\<lparr>so_ready := Some []\<rparr>))"

definition so_is_active :: "(bool, 'k sorter) comp" where
  "so_is_active s = (case so_ready s of
     None \<Rightarrow> Raise ValueError s | Some r \<Rightarrow> Ret (so_n_done s < so_n_visited s \<or> r \<noteq> []) s)"

definition so_mark :: "'k \<Rightarrow> (unit, 'k sorter) comp" where
  "so_mark n s =
     (if n \<notin> set (so_nodes s) then Raise ValueError s
      else if n \<notin> set (so_visited s) then Raise ValueError s
      else if n \<in> set (so_finished s) then Raise ValueError s
      else Ret () (s\<lparr>so_finished := so_finished s @ [n]\<rparr>))"

definition so_done :: "'k list \<Rightarrow> (unit, 'k sorter) comp" where
  "so_done ns s =
     (case so_ready s of
        None \<Rightarrow> Raise ValueError s
      | Some r \<Rightarrow> seq (for_each ns so_mark)
          (modify (\<lambda>s1. let s2 = s1\<lparr>so_n_done := so_n_done s1 + length ns\<rparr>
                         in so_visit r (so_zero_degree_keys s2) s2)) s)"

section \<open>Cycle detection is exact\<close>

lemma set_so_walk: "set (so_walk edges i xs) = (set edges ^^ i) `` set xs"
proof (induction i)
  case (Suc i)
  show ?case using Suc by (auto simp: relcomp_unfold Image_iff) force+
qed simp

text \<open>A closed walk can be shortened to at most as many steps as there are nodes.\<close>

lemma short_cycle:
  assumes fin: "finite V" and dom: "Domain R \<subseteq> V" and cyc: "(x, x) \<in> R\<^sup>+"
  shows "\<exists>y \<in> V. \<exists>n. 0 < n \<and> n \<le> card V \<and> (y, y) \<in> R ^^ n"
proof -
  let ?P = "\<lambda>n. 0 < n \<and> (\<exists>y. (y, y) \<in> R ^^ n)"
  have "\<exists>n. ?P n" using cyc by (auto simp: trancl_power)
  then have least: "?P (LEAST n. ?P n)" by (rule LeastI_ex)
  let ?n = "LEAST n. ?P n"
  obtain y where y: "(y, y) \<in> R ^^ ?n" and n: "0 < ?n" using least by blast
  then obtain f where f: "f 0 = y" "f ?n = y" "\<And>i. i < ?n \<Longrightarrow> (f i, f (Suc i)) \<in> R"
    unfolding relpow_fun_conv by blast
  have V: "f ` {..<?n} \<subseteq> V" using f(3) dom by auto
  have "inj_on f {..<?n}"
  proof (rule inj_onI, rule ccontr)
    fix i j assume ij: "i \<in> {..<?n}" "j \<in> {..<?n}" "f i = f j" "i \<noteq> j"
    have False if "a < b" "b < ?n" "f a = f b" for a b
    proof -
      have "(f a, f (a + k)) \<in> R ^^ k" if "a + k \<le> ?n" for k
        using that f(3) by (induction k) (auto simp: Suc_le_eq)
      from this [of "b - a"] have "(f a, f a) \<in> R ^^ (b - a)" using that by simp
      then have "?P (b - a)" using that(1) by auto
      then have "?n \<le> b - a" by (rule Least_le)
      then show False using that by simp
    qed
    from this [of i j] this [of j i] ij show False by (cases "i < j") auto
  qed
  then have "?n \<le> card V" using card_inj_on_le [OF _ V fin] by simp
  moreover have "f 0 \<in> f ` {..<?n}" using n by blast
  then have "y \<in> V" using V f(1) by blast
  ultimately show ?thesis using y n by blast
qed

definition so_wf :: "'k sorter \<Rightarrow> bool" where
  "so_wf s \<longleftrightarrow> distinct (so_nodes s) \<and> (\<forall>(n, p) \<in> set (so_edges s). n \<in> set (so_nodes s) \<and> p \<in> set (so_nodes s))"

lemma so_has_cycle_iff:
  assumes wf: "so_wf s"
  shows "so_has_cycle s \<longleftrightarrow> \<not> acyclic (set (so_edges s))"
proof
  assume "so_has_cycle s"
  then obtain i n where "n \<in> set (so_walk (so_edges s) (Suc i) [n])"
    by (auto simp: so_has_cycle_def list_ex_iff)
  then have "(n, n) \<in> set (so_edges s) ^^ Suc i" by (simp only: set_so_walk) auto
  then have "(n, n) \<in> (set (so_edges s))\<^sup>+" by (meson trancl_power zero_less_Suc)
  then show "\<not> acyclic (set (so_edges s))" by (auto simp: acyclic_def)
next
  assume "\<not> acyclic (set (so_edges s))"
  then obtain x where "(x, x) \<in> (set (so_edges s))\<^sup>+" by (auto simp: acyclic_def)
  moreover have "Domain (set (so_edges s)) \<subseteq> set (so_nodes s)" using wf by (auto simp: so_wf_def)
  ultimately obtain y n where y: "y \<in> set (so_nodes s)" "0 < n" "n \<le> card (set (so_nodes s))"
      "(y, y) \<in> set (so_edges s) ^^ n"
    using short_cycle [of "set (so_nodes s)" "set (so_edges s)" x] by blast
  obtain i where n: "n = Suc i" using y(2) by (cases n) auto
  have "i < length (so_nodes s)" using y(3) card_length [of "so_nodes s"] by (simp add: n)
  moreover have "y \<in> set (so_walk (so_edges s) (Suc i) [y])" using y(4) n by (simp only: set_so_walk) auto
  ultimately show "so_has_cycle s"
    unfolding so_has_cycle_def list_ex_iff set_upt using y(1) by (intro bexI [of _ i] bexI [of _ y]) auto
qed

section \<open>The invariant of a prepared sorter\<close>

definition so_inv :: "'k sorter \<Rightarrow> bool" where
  "so_inv s \<longleftrightarrow> so_wf s \<and> distinct (so_visited s) \<and> distinct (so_finished s) \<and>
     set (so_finished s) \<subseteq> set (so_visited s) \<and> set (so_visited s) \<subseteq> set (so_nodes s) \<and>
     (\<forall>n \<in> set (so_nodes s). n \<in> set (so_visited s) \<longleftrightarrow> so_zero_degree s n) \<and>
     so_n_done s = length (so_finished s) \<and> so_n_visited s = length (so_visited s) \<and>
     (\<exists>r. so_ready s = Some r \<and> distinct r \<and> set r \<subseteq> set (so_visited s))"

lemma so_zero_degree_iff: "so_zero_degree s n \<longleftrightarrow> (\<forall>p. (n, p) \<in> set (so_edges s) \<longrightarrow> p \<in> set (so_finished s))"
  by (auto simp: so_zero_degree_def list_all_iff)

lemma so_zero_degree_cong:
  "so_edges s' = so_edges s \<Longrightarrow> so_finished s' = so_finished s \<Longrightarrow> so_zero_degree s' n = so_zero_degree s n"
  by (simp add: so_zero_degree_def)

text \<open>The sorter after the nodes in \<open>new\<close> have become ready behind the ones in \<open>old\<close>.\<close>

lemma so_visit_inv:
  fixes s :: "'k sorter"
  defines "new \<equiv> so_zero_degree_keys s"
  assumes wf: "so_wf s" and vis: "distinct (so_visited s)" "set (so_visited s) \<subseteq> set (so_nodes s)"
    and fin: "distinct (so_finished s)" "set (so_finished s) \<subseteq> set (so_visited s)"
    and zero: "\<And>n. n \<in> set (so_visited s) \<Longrightarrow> so_zero_degree s n"
    and cnt: "so_n_done s = length (so_finished s)" "so_n_visited s = length (so_visited s)"
    and old: "distinct old" "set old \<subseteq> set (so_visited s)"
  shows "so_inv (so_visit old new s)" and "set (so_visited (so_visit old new s)) = set (so_visited s) \<union> set new"
    and "distinct new" and "set new \<inter> set (so_visited s) = {}"
    and "set new = {n \<in> set (so_nodes s). n \<notin> set (so_visited s) \<and> so_zero_degree s n}"
proof -
  show new: "set new = {n \<in> set (so_nodes s). n \<notin> set (so_visited s) \<and> so_zero_degree s n}"
    using zero by (auto simp: new_def so_zero_degree_keys_def)
  show d: "distinct new" using wf by (simp add: new_def so_zero_degree_keys_def so_wf_def)
  show disj: "set new \<inter> set (so_visited s) = {}" using new by auto
  have "filter (\<lambda>n. n \<notin> set (so_visited s)) new = new"
    using disj by (intro filter_True) auto
  then have s': "so_visit old new s = s\<lparr>so_visited := so_visited s @ new, so_ready := Some (old @ new),
      so_n_visited := so_n_visited s + length new\<rparr>"
    by (simp add: so_visit_def)
  show "set (so_visited (so_visit old new s)) = set (so_visited s) \<union> set new" by (simp add: s')
  have z: "so_zero_degree (so_visit old new s) n = so_zero_degree s n" for n
    by (rule so_zero_degree_cong) (simp_all add: s')
  have "n \<in> set (so_visited (so_visit old new s)) \<longleftrightarrow> so_zero_degree (so_visit old new s) n" if "n \<in> set (so_nodes s)" for n
    unfolding z using that new zero by (auto simp: s')
  moreover have "so_wf (so_visit old new s)" using wf by (simp add: so_wf_def s')
  ultimately show "so_inv (so_visit old new s)"
    unfolding so_inv_def using vis fin cnt old d disj new by (auto simp: s')
qed

lemma so_prepare_spec:
  assumes wf: "so_wf s" and fresh: "so_ready s = None" "so_n_done s = 0" "so_n_visited s = 0"
  shows "\<exists>s'. so_prepare s = (if acyclic (set (so_edges s)) then Ret () s' else Raise CycleError s') \<and>
    so_inv s' \<and> so_nodes s' = so_nodes s \<and> so_edges s' = so_edges s \<and> so_finished s' = [] \<and>
    (acyclic (set (so_edges s)) \<longrightarrow> so_ready s' = Some (filter (\<lambda>n. \<forall>p. (n, p) \<notin> set (so_edges s)) (so_nodes s)))"
proof -
  let ?s0 = "s\<lparr>so_finished := [], so_visited := []\<rparr>"
  let ?s1 = "so_visit [] (so_zero_degree_keys ?s0) ?s0"
  have "so_inv ?s1" using wf fresh by (intro so_visit_inv(1)) (auto simp: so_wf_def)
  moreover have "so_nodes ?s1 = so_nodes s" "so_edges ?s1 = so_edges s" "so_finished ?s1 = []"
    by (simp_all add: so_visit_def)
  moreover have "so_wf ?s1" using wf by (simp add: so_wf_def so_visit_def)
  then have "so_has_cycle ?s1 \<longleftrightarrow> \<not> acyclic (set (so_edges s))"
    using so_has_cycle_iff [of ?s1] by (simp add: so_visit_def)
  moreover have "so_ready ?s1 = Some (filter (\<lambda>n. \<forall>p. (n, p) \<notin> set (so_edges s)) (so_nodes s))"
    by (auto simp: so_visit_def so_zero_degree_keys_def so_zero_degree_iff intro!: filter_cong)
  ultimately show ?thesis using fresh(1) by (intro exI [of _ ?s1]) (simp add: so_prepare_def Let_def)
qed

lemma so_get_ready_spec:
  assumes inv: "so_inv s"
  obtains r where "so_ready s = Some r" "so_get_ready s = Ret r (s\<lparr>so_ready := Some []\<rparr>)"
    "so_inv (s\<lparr>so_ready := Some []\<rparr>)" "distinct r" "set r \<subseteq> set (so_visited s)"
proof -
  obtain r where r: "so_ready s = Some r" "distinct r" "set r \<subseteq> set (so_visited s)"
    using inv by (auto simp: so_inv_def)
  moreover have "so_get_ready s = Ret r (s\<lparr>so_ready := Some []\<rparr>)" using r by (simp add: so_get_ready_def)
  moreover have "so_inv (s\<lparr>so_ready := Some []\<rparr>)"
    using inv by (auto simp: so_inv_def so_wf_def so_zero_degree_def)
  ultimately show thesis using that by blast
qed

lemma so_is_active_spec: "so_inv s \<Longrightarrow> \<exists>a. so_is_active s = Ret a s"
  by (auto simp: so_inv_def so_is_active_def)

text \<open>Marking one node done: refused unless it was handed out and not yet done.\<close>

lemma so_done_one:
  assumes inv: "so_inv s"
  shows "if n \<in> set (so_visited s) \<and> n \<notin> set (so_finished s)
    then \<exists>s' new. so_done [n] s = Ret () s' \<and> so_inv s' \<and> so_finished s' = so_finished s @ [n] \<and>
      so_nodes s' = so_nodes s \<and> so_edges s' = so_edges s \<and> distinct new \<and>
      so_ready s' = map_option (\<lambda>r. r @ new) (so_ready s) \<and>
      set (so_visited s') = set (so_visited s) \<union> set new \<and> set new \<inter> set (so_visited s) = {} \<and>
      set new = {m \<in> set (so_nodes s). m \<notin> set (so_visited s) \<and>
        (\<forall>p. (m, p) \<in> set (so_edges s) \<longrightarrow> p \<in> insert n (set (so_finished s)))}
    else so_done [n] s = Raise ValueError s"
proof (cases "n \<in> set (so_visited s) \<and> n \<notin> set (so_finished s)")
  case False
  then show ?thesis using inv by (auto simp: so_inv_def so_done_def so_mark_def seq_run)
next
  case True
  let ?s2 = "s\<lparr>so_finished := so_finished s @ [n], so_n_done := so_n_done s + 1\<rparr>"
  obtain r where r: "so_ready s = Some r" "distinct r" "set r \<subseteq> set (so_visited s)"
    using inv by (auto simp: so_inv_def)
  let ?new = "so_zero_degree_keys ?s2"
  have nodes: "n \<in> set (so_nodes s)" using True inv by (auto simp: so_inv_def)
  have run: "so_done [n] s = Ret () (so_visit r ?new ?s2)"
    using True nodes r(1) by (simp add: so_done_def so_mark_def seq_run Let_def)
  have zero: "so_zero_degree ?s2 m" if "m \<in> set (so_visited s)" for m
    using that inv by (auto simp: so_inv_def so_zero_degree_iff)
  note v = so_visit_inv [of ?s2 r]
  have pre: "so_wf ?s2" "distinct (so_visited ?s2)" "set (so_visited ?s2) \<subseteq> set (so_nodes ?s2)"
    "distinct (so_finished ?s2)" "set (so_finished ?s2) \<subseteq> set (so_visited ?s2)"
    "so_n_done ?s2 = length (so_finished ?s2)" "so_n_visited ?s2 = length (so_visited ?s2)"
    using inv True by (auto simp: so_inv_def so_wf_def)
  have inv': "so_inv (so_visit r ?new ?s2)" "distinct ?new" "set ?new \<inter> set (so_visited s) = {}"
    "set (so_visited (so_visit r ?new ?s2)) = set (so_visited s) \<union> set ?new"
    "set ?new = {m \<in> set (so_nodes s). m \<notin> set (so_visited s) \<and> so_zero_degree ?s2 m}"
    using v [OF pre(1-5) _ pre(6,7) r(2)] zero r(3) by auto
  have eqs: "so_finished (so_visit r ?new ?s2) = so_finished s @ [n]" "so_nodes (so_visit r ?new ?s2) = so_nodes s"
    "so_edges (so_visit r ?new ?s2) = so_edges s" "so_ready (so_visit r ?new ?s2) = map_option (\<lambda>r. r @ ?new) (so_ready s)"
    by (simp_all add: so_visit_def r(1))
  have new: "set ?new = {m \<in> set (so_nodes s). m \<notin> set (so_visited s) \<and>
      (\<forall>p. (m, p) \<in> set (so_edges s) \<longrightarrow> p \<in> insert n (set (so_finished s)))}"
    unfolding inv'(5) so_zero_degree_iff by auto
  show ?thesis
    unfolding if_P [OF True]
    by (intro exI [of _ "so_visit r ?new ?s2"] exI [of _ ?new] conjI) (fact run inv' eqs new)+
qed

text \<open>
  Completeness: when an acyclic graph has no node out for work, every node is done. Order:
  a node is handed out only after all its predecessors are done.
\<close>

lemma so_complete:
  assumes inv: "so_inv s" and ac: "acyclic (set (so_edges s))" and idle: "so_n_done s = so_n_visited s"
  shows "set (so_finished s) = set (so_nodes s)"
proof -
  have "card (set (so_finished s)) = card (set (so_visited s))"
    using inv idle by (simp add: so_inv_def distinct_card)
  then have all: "set (so_finished s) = set (so_visited s)"
    using inv by (simp add: so_inv_def card_subset_eq)
  have "n \<in> set (so_nodes s) \<longrightarrow> n \<in> set (so_visited s)" for n
  proof -
    have "wf ((set (so_edges s))\<inverse>)" using ac by (simp add: finite_acyclic_wf_converse)
    then show ?thesis
    proof (induction n rule: wf_induct_rule)
      case (less n)
      have "p \<in> set (so_finished s)" if "(n, p) \<in> set (so_edges s)" for p
        using less [of p] that inv all by (auto simp: so_inv_def so_wf_def)
      then show ?case using inv by (auto simp: so_inv_def so_zero_degree_iff)
    qed
  qed
  then show ?thesis using all inv by (auto simp: so_inv_def)
qed

lemma so_visited_preds: "so_inv s \<Longrightarrow> n \<in> set (so_visited s) \<Longrightarrow> (n, p) \<in> set (so_edges s) \<Longrightarrow> p \<in> set (so_finished s)"
  by (auto simp: so_inv_def so_zero_degree_iff)

text \<open>Merging a graph into a sorter that has not been prepared keeps the edges between its nodes.\<close>

lemma so_number_spec:
  "distinct (so_number graph nodes) = distinct nodes \<and>
    set (so_number graph nodes) = set nodes \<union> fst ` set graph \<union> (\<Union>(n, ps) \<in> set graph. set ps)"
proof (induction graph arbitrary: nodes)
  case Nil
  then show ?case by (simp add: so_number_def)
next
  case (Cons g graph)
  obtain n ps where g: "g = (n, ps)" by (cases g)
  have f: "distinct (fold set_add ps xs) = distinct xs \<and> set (fold set_add ps xs) = set xs \<union> set ps" for xs
    by (induction ps arbitrary: xs) auto
  have "so_number (g # graph) nodes = so_number graph (fold set_add ps (set_add n nodes))"
    by (simp add: so_number_def g)
  with Cons [of "fold set_add ps (set_add n nodes)"] f [of "set_add n nodes"] show ?case by (auto simp: g)
qed

lemma so_merge_wf:
  assumes wf: "so_wf s" and m: "so_merge_graph graph s = Inr s'"
  shows "so_wf s'"
proof -
  let ?N = "set (so_number graph (so_nodes s))"
  have N: "distinct (so_number graph (so_nodes s))" "set (so_nodes s) \<subseteq> ?N"
    "\<And>n ps. (n, ps) \<in> set graph \<Longrightarrow> n \<in> ?N \<and> set ps \<subseteq> ?N"
    using so_number_spec [of graph "so_nodes s"] wf by (force simp: so_wf_def)+
  have s': "s' = s\<lparr>so_nodes := so_number graph (so_nodes s),
      so_edges := so_edges s @ [(n, p). (n, preds) \<leftarrow> graph, p \<leftarrow> preds]\<rparr>"
    using m by (simp add: so_merge_graph_def split: if_splits)
  have "n \<in> ?N \<and> p \<in> ?N" if "(n, p) \<in> set (so_edges s')" for n p
  proof -
    from that have "(n, p) \<in> set (so_edges s) \<or> (\<exists>ps. (n, ps) \<in> set graph \<and> p \<in> set ps)" by (auto simp: s')
    then show ?thesis using wf N(2,3) unfolding so_wf_def by blast
  qed
  moreover have "so_nodes s' = so_number graph (so_nodes s)" by (simp add: s')
  ultimately show ?thesis using N(1) unfolding so_wf_def by auto
qed

lemma so_wf_empty [simp]: "so_wf so_empty"
  by (simp add: so_wf_def so_empty_def)

end
