(* ===== verification/ClientGraph.thy ===== *)
theory ClientGraph
  imports ClientDedup GraphOptimization Sorter
begin

text \<open>
  Graph submissions of a client: \<open>get\<close> of \<open>src/src/scaler/client/client.py\<close> up to the wait for the results.
  The graph is culled, its data nodes are put into the object buffer, what is left is checked, then the graph task is
  built and sent. A node is a call, a tuple that starts with a callable, or a
  reference to a stored object, or any other value. \<open>h\<close> orders the sets of keys.
\<close>

section \<open>Operations\<close>

datatype graph_node = NodeCall py_object "bytes option" "bytes list" | NodeReference ObjectID | NodeObject py_object

type_synonym call_node = "py_object \<times> bytes option \<times> bytes list"
type_synonym data_nodes = "(bytes, ObjectID \<times> graph_node) dict"
type_synonym call_nodes = "(bytes, call_node) dict"

fun node_value :: "graph_node \<Rightarrow> bytes graph_value" where
  "node_value (NodeCall fn name ks) = Call ks"
| "node_value (NodeReference oid) = Data"
| "node_value (NodeObject obj) = Data"

definition client_cull :: "(bytes \<Rightarrow> nat) \<Rightarrow> (bytes, graph_node) dict \<Rightarrow> bytes list \<Rightarrow> py_exn + (bytes, graph_node) dict" where
  "client_cull h graph keys =
     (case cull_graph h (map (\<lambda>(k, node). (k, node_value node)) graph) keys of
        Inl e \<Rightarrow> Inl e
      | Inr culled \<Rightarrow> Inr (map (\<lambda>(k, _). (k, the (dict_get graph k))) culled))"

text \<open>The keys of a dictionary differ, so every node appends one entry.\<close>

fun split_data_and_graph :: "client_env \<Rightarrow> bool \<Rightarrow> (bytes, graph_node) dict \<Rightarrow> (data_nodes \<times> call_nodes) buffer_step" where
  "split_data_and_graph env reserialize [] = ret ([], [])"
| "split_data_and_graph env reserialize ((k, node) # rest) =
     (case node of
        NodeCall fn name args \<Rightarrow>
          andthen (split_data_and_graph env reserialize rest) (\<lambda>(data, calls). ret (data, (k, fn, name, args) # calls))
      | NodeReference oid \<Rightarrow>
          andthen (split_data_and_graph env reserialize rest) (\<lambda>(data, calls). ret ((k, oid, node) # data, calls))
      | NodeObject obj \<Rightarrow>
          andthen (buffer_send_object env obj (Some k) reserialize True) (\<lambda>c.
          andthen (split_data_and_graph env reserialize rest) (\<lambda>(data, calls). ret ((k, oc_object_id c, node) # data, calls))))"

fun sort_calls :: "data_nodes \<Rightarrow> call_nodes \<Rightarrow> call_nodes \<Rightarrow> bytes sorter \<Rightarrow> py_exn + bytes sorter" where
  "sort_calls data calls [] so = Inr so"
| "sort_calls data calls ((k, fn, name, args) # rest) so =
     (if list_ex (\<lambda>a. \<not> dict_has data a \<and> \<not> dict_has calls a) args then Inl KeyError
      else case so_merge_graph [(k, args)] so of Inl e \<Rightarrow> Inl e | Inr so' \<Rightarrow> sort_calls data calls rest so')"

definition check_graph :: "data_nodes \<Rightarrow> call_nodes \<Rightarrow> bytes list \<Rightarrow> py_exn + unit" where
  "check_graph data calls keys =
     (if \<not> distinct keys then Inl KeyError
      else if list_ex (\<lambda>k. \<not> dict_has calls k \<and> \<not> dict_has data k) keys then Inl KeyError
      else case sort_calls data calls calls so_empty of
             Inl e \<Rightarrow> Inl e
           | Inr so \<Rightarrow> (case so_prepare so of Ret _ _ \<Rightarrow> Inr () | Raise e _ \<Rightarrow> Inl e | NoFuel \<Rightarrow> Inl RuntimeError))"

definition fresh_task_id :: "client_env \<Rightarrow> TaskID buffer_step" where
  "fresh_task_id env = andthen (gets ob_tasks_used) (\<lambda>n. seq (modify (\<lambda>s. s\<lparr>ob_tasks_used := n + 1\<rparr>)) (ret (ce_task_id env n)))"

fun fresh_task_ids :: "client_env \<Rightarrow> bytes list \<Rightarrow> (bytes, TaskID) dict buffer_step" where
  "fresh_task_ids env [] = ret []"
| "fresh_task_ids env (k # ks) = andthen (fresh_task_id env) (\<lambda>t. andthen (fresh_task_ids env ks) (\<lambda>ids. ret ((k, t) # ids)))"

text \<open>\<open>ids\<close> has the keys of the call graph.\<close>

fun graph_arguments :: "(bytes, TaskID) dict \<Rightarrow> data_nodes \<Rightarrow> bytes list \<Rightarrow> py_exn + Argument list" where
  "graph_arguments ids data [] = Inr []"
| "graph_arguments ids data (a # as) =
     (case (case dict_get ids a of Some t \<Rightarrow> Some (TaskArgument t) | None \<Rightarrow> map_option (\<lambda>(oid, _). ObjectArgument oid) (dict_get data a)) of
        None \<Rightarrow> Inl AssertionError
      | Some x \<Rightarrow> (case graph_arguments ids data as of Inl e \<Rightarrow> Inl e | Inr xs \<Rightarrow> Inr (x # xs)))"

fun construct_tasks :: "client_env \<Rightarrow> (bytes, TaskID) dict \<Rightarrow> data_nodes \<Rightarrow> bytes \<Rightarrow> capabilities \<Rightarrow> call_nodes \<Rightarrow> Task list buffer_step" where
  "construct_tasks env ids data flags caps [] = ret []"
| "construct_tasks env ids data flags caps ((k, fn, name, args) # rest) =
     andthen (lookup (\<lambda>_. ids) k) (\<lambda>t.
     andthen (buffer_send_function env fn name) (\<lambda>c.
     andthen (of_sum (graph_arguments ids data args)) (\<lambda>xs.
     andthen (construct_tasks env ids data flags caps rest) (\<lambda>tasks.
       ret (\<lparr>taskId = t, task_source = ce_identity env, task_metadata = flags, funcObjectId = oc_object_id c, functionArgs = xs,
             task_capabilities = caps\<rparr> # tasks)))))"

text \<open>The future of a key: of a task of the graph, or one that is done and holds the data.\<close>

datatype key_future = ComputeFuture TaskID | ReadyFuture TaskID graph_node

fun key_futures :: "client_env \<Rightarrow> (bytes, TaskID) dict \<Rightarrow> data_nodes \<Rightarrow> bytes list \<Rightarrow> (bytes, key_future) dict buffer_step" where
  "key_futures env ids data [] = ret []"
| "key_futures env ids data (k # ks) =
     andthen (case dict_get ids k of
                Some t \<Rightarrow> ret (ComputeFuture t)
              | None \<Rightarrow> (case dict_get data k of
                           Some (oid, node) \<Rightarrow> andthen (fresh_task_id env) (\<lambda>t. ret (ReadyFuture t node))
                         | None \<Rightarrow> raise ValueError)) (\<lambda>f.
     andthen (key_futures env ids data ks) (\<lambda>fs. ret ((k, f) # fs)))"

definition construct_graph ::
  "client_env \<Rightarrow> data_nodes \<Rightarrow> call_nodes \<Rightarrow> bytes list \<Rightarrow> capabilities \<Rightarrow> (GraphTask \<times> (bytes, key_future) dict) buffer_step" where
  "construct_graph env data calls keys caps =
     andthen (fresh_task_id env) (\<lambda>g.
     andthen (fresh_task_ids env (map fst calls)) (\<lambda>ids.
     andthen (of_sum (serialize_flags (client_task_flags env))) (\<lambda>flags.
     andthen (construct_tasks env ids data flags caps calls) (\<lambda>tasks.
     andthen (key_futures env ids data keys) (\<lambda>futures.
       ret (\<lparr>graph_taskId = g, graph_source = ce_identity env,
             graph_targets = List.map_filter (dict_get ids) keys, graph_tasks = tasks\<rparr>, futures))))))"

definition computed :: "(bytes, key_future) dict \<Rightarrow> TaskID list" where
  "computed futures = List.map_filter (\<lambda>(_, f). case f of ComputeFuture t \<Rightarrow> Some t | ReadyFuture _ _ \<Rightarrow> None) futures"

definition client_get ::
  "client_env \<Rightarrow> (bytes \<Rightarrow> nat) \<Rightarrow> (bytes, graph_node) dict \<Rightarrow> bytes list \<Rightarrow> capabilities \<Rightarrow> bool \<Rightarrow>
     (GraphTask \<times> (bytes, key_future) dict) buffer_step" where
  "client_get env h graph keys caps reserialize =
     seq assert_client_not_stopped
     (andthen (of_sum (client_cull h graph keys)) (\<lambda>graph'.
     andthen (split_data_and_graph env reserialize graph') (\<lambda>(data, calls).
     seq (of_sum (check_graph data calls keys))
     (andthen (construct_graph env data calls keys caps) (\<lambda>(task, futures).
      seq (modify (\<lambda>s. s\<lparr>ob_futures := ob_futures s @ graph_taskId task # computed futures\<rparr>))
      (seq (commit_send_objects env)
      (seq (modify (\<lambda>s. s\<lparr>ob_sent := ob_sent s @ [ClientGraphTask task]\<rparr>))
           (ret (task, futures)))))))))"

section \<open>The check\<close>

definition call_edges :: "call_nodes \<Rightarrow> (bytes \<times> bytes) set" where
  "call_edges calls = {(k, a). \<exists>fn name args. (k, fn, name, args) \<in> set calls \<and> a \<in> set args}"

lemma call_edges_simps [simp]:
  "call_edges [] = {}" "call_edges ((k, fn, name, args) # calls) = Pair k ` set args \<union> call_edges calls"
  by (auto simp: call_edges_def)

definition args_defined :: "data_nodes \<Rightarrow> call_nodes \<Rightarrow> call_nodes \<Rightarrow> bool" where
  "args_defined data calls rest \<longleftrightarrow> (\<forall>(k, a) \<in> call_edges rest. dict_has data a \<or> dict_has calls a)"

lemma sort_calls_spec:
  assumes "so_wf so" "so_ready so = None"
  shows "if args_defined data calls rest
    then \<exists>so'. sort_calls data calls rest so = Inr so' \<and> so_wf so' \<and> set (so_edges so') = set (so_edges so) \<union> call_edges rest \<and>
      so_ready so' = None \<and> so_n_done so' = so_n_done so \<and> so_n_visited so' = so_n_visited so
    else sort_calls data calls rest so = Inl KeyError"
  using assms
proof (induction rest arbitrary: so)
  case Nil
  then show ?case by (simp add: args_defined_def)
next
  case (Cons c rest)
  obtain k fn name args where c: "c = (k, fn, name, args)" by (cases c)
  show ?case
  proof (cases "list_ex (\<lambda>a. \<not> dict_has data a \<and> \<not> dict_has calls a) args")
    case True
    then show ?thesis by (auto simp: c args_defined_def list_ex_iff)
  next
    case False
    then have "args_defined data calls (c # rest) = args_defined data calls rest" by (auto simp: c args_defined_def list_ex_iff)
    moreover obtain so1 where so1: "so_merge_graph [(k, args)] so = Inr so1"
      using Cons.prems(2) by (simp add: so_merge_graph_def)
    moreover have "so_wf so1" by (rule so_merge_wf [OF Cons.prems(1) so1])
    moreover have "set (so_edges so1) = set (so_edges so) \<union> Pair k ` set args" "so_ready so1 = None"
        "so_n_done so1 = so_n_done so" "so_n_visited so1 = so_n_visited so"
      using so1 Cons.prems(2) by (auto simp: so_merge_graph_def)
    ultimately show ?thesis using Cons.IH [of so1] False so1 by (auto simp: c)
  qed
qed

lemma check_graph_spec:
  "check_graph data calls keys =
     (if \<not> distinct keys \<or> (\<exists>k \<in> set keys. \<not> dict_has calls k \<and> \<not> dict_has data k) \<or> \<not> args_defined data calls calls then Inl KeyError
      else if \<not> acyclic (call_edges calls) then Inl CycleError else Inr ())"
proof -
  have "so_wf (so_empty :: bytes sorter)" "so_ready (so_empty :: bytes sorter) = None" by (simp_all add: so_empty_def so_wf_def)
  note spec = sort_calls_spec [OF this, of data calls calls]
  show ?thesis
  proof (cases "args_defined data calls calls")
    case True
    then obtain so where so: "sort_calls data calls calls so_empty = Inr so" "so_wf so" "set (so_edges so) = call_edges calls"
        "so_ready so = None" "so_n_done so = 0" "so_n_visited so = 0"
      using spec by (auto simp: so_empty_def)
    obtain so' where "so_prepare so = (if acyclic (call_edges calls) then Ret () so' else Raise CycleError so')"
      using so_prepare_spec [OF so(2,4-6)] so(3) by auto
    then show ?thesis using True so(1) by (auto simp: check_graph_def list_ex_iff)
  next
    case False
    then show ?thesis using spec by (auto simp: check_graph_def list_ex_iff)
  qed
qed

section \<open>What is built\<close>

definition node_objects :: "(bytes, graph_node) dict \<Rightarrow> py_object list" where
  "node_objects graph = concat (map (\<lambda>(_, node). case node of NodeCall fn _ _ \<Rightarrow> [fn] | NodeReference _ \<Rightarrow> [] | NodeObject x \<Rightarrow> [x]) graph)"

definition calls_of :: "(bytes, graph_node) dict \<Rightarrow> call_nodes" where
  "calls_of graph = List.map_filter (\<lambda>(k, node). case node of NodeCall fn name args \<Rightarrow> Some (k, fn, name, args) | _ \<Rightarrow> None) graph"

definition data_of :: "(bytes, graph_node) dict \<Rightarrow> (bytes \<times> graph_node) list" where
  "data_of graph = filter (\<lambda>(_, node). node_value node = Data) graph"

lemma node_simps [simp]:
  "node_objects [] = []" "calls_of [] = []" "data_of [] = []"
  "node_objects ((k, NodeCall fn name args) # graph) = fn # node_objects graph"
  "node_objects ((k, NodeReference oid) # graph) = node_objects graph"
  "node_objects ((k, NodeObject x) # graph) = x # node_objects graph"
  "calls_of ((k, NodeCall fn name args) # graph) = (k, fn, name, args) # calls_of graph"
  "calls_of ((k, NodeReference oid) # graph) = calls_of graph"
  "calls_of ((k, NodeObject x) # graph) = calls_of graph"
  "data_of ((k, NodeCall fn name args) # graph) = data_of graph"
  "data_of ((k, NodeReference oid) # graph) = (k, NodeReference oid) # data_of graph"
  "data_of ((k, NodeObject x) # graph) = (k, NodeObject x) # data_of graph"
  by (simp_all add: node_objects_def calls_of_def data_of_def map_filter_simps)

definition node_named :: "object_buffer \<Rightarrow> graph_node \<Rightarrow> ObjectID \<Rightarrow> bool" where
  "node_named s node oid = (case node of NodeCall _ _ _ \<Rightarrow> False | NodeReference r \<Rightarrow> oid = r | NodeObject x \<Rightarrow> names s oid (po_payload x))"

lemma node_named_grows: "grows s s' \<Longrightarrow> node_named s node oid \<Longrightarrow> node_named s' node oid"
  by (auto simp: node_named_def grows_names split: graph_node.splits)

definition data_named :: "object_buffer \<Rightarrow> data_nodes \<Rightarrow> bool" where
  "data_named s data = list_all (\<lambda>(_, oid, node). node_named s node oid) data"

lemma data_named_grows: "grows s s' \<Longrightarrow> data_named s data \<Longrightarrow> data_named s' data"
  by (auto simp: data_named_def list_all_iff node_named_grows)

lemma split_ok:
  assumes "buffering env val objs s" "fresh_tags env" "inj_on (ce_md5 env) (range val)" "live_together val objs" "set (node_objects graph) \<subseteq> set objs"
  shows "sat (\<lambda>(data, calls) s'. buffering env val objs s' \<and> grows s s' \<and> calls = calls_of graph \<and>
      map (\<lambda>(k, _, node). (k, node)) data = data_of graph \<and> data_named s' data) (\<lambda>_. True) (split_data_and_graph env reserialize graph s)"
  using assms(1,5)
proof (induction graph arbitrary: s)
  case (Cons g graph)
  obtain k node where g: "g = (k, node)" by (cases g)
  have sub: "set (node_objects graph) \<subseteq> set objs" using Cons.prems(2) g by (cases node) auto
  note rest = Cons.IH [OF _ sub]
  show ?case
  proof (cases node)
    case (NodeObject x)
    then have x: "x \<in> set objs" using Cons.prems(2) g by simp
    note one = buffering_send(2) [OF Cons.prems(1) assms(2-4) x, of "Some k" reserialize True]
    show ?thesis
    proof (cases "buffer_send_object env x (Some k) reserialize True s")
      case (Ret c s1)
      then have s1: "buffering env val objs s1" "grows s s1" "names s1 (oc_object_id c) (po_payload x)" using one by auto
      have n: "grows s1 s2 \<Longrightarrow> names s2 (oc_object_id c) (po_payload x)" "grows s1 s2 \<Longrightarrow> grows s s2" for s2
        using grows_names [OF _ s1(3)] grows_trans [OF s1(2)] by auto
      show ?thesis using rest [OF s1(1)] Ret n
        by (cases "split_data_and_graph env reserialize graph s1") (auto simp: g NodeObject andthen_run data_named_def node_named_def)
    qed (use one in \<open>auto simp: g NodeObject andthen_run\<close>)
  qed (use rest [OF Cons.prems(1)] in \<open>cases "split_data_and_graph env reserialize graph s", auto simp: g andthen_run data_named_def node_named_def\<close>)+
qed (simp add: data_named_def)

lemma fresh_ids_run:
  "fresh_task_ids env ks s = Ret (zip ks (map (ce_task_id env) [ob_tasks_used s ..< ob_tasks_used s + length ks]))
     (s\<lparr>ob_tasks_used := ob_tasks_used s + length ks\<rparr>)"
proof (induction ks arbitrary: s)
  case (Cons k ks)
  then show ?case by (simp add: fresh_task_id_def andthen_run seq_run upt_rec)
qed simp

definition graph_task_ok :: "object_buffer \<Rightarrow> (bytes, TaskID) dict \<Rightarrow> data_nodes \<Rightarrow> bytes \<times> call_node \<Rightarrow> Task \<Rightarrow> bool" where
  "graph_task_ok s ids data c task \<longleftrightarrow> (case c of (k, fn, name, args) \<Rightarrow>
     dict_get ids k = Some (taskId task) \<and> names s (funcObjectId task) (po_payload fn) \<and> graph_arguments ids data args = Inr (functionArgs task))"

lemma graph_task_ok_iff: "graph_task_ok s ids data (k, fn, name, args) task \<longleftrightarrow> dict_get ids k = Some (taskId task) \<and>
    names s (funcObjectId task) (po_payload fn) \<and> graph_arguments ids data args = Inr (functionArgs task)"
  by (simp add: graph_task_ok_def)

lemma graph_task_ok_grows: "grows s s' \<Longrightarrow> graph_task_ok s ids data c task \<Longrightarrow> graph_task_ok s' ids data c task"
  by (auto simp: graph_task_ok_def grows_names split: prod.splits)

lemma construct_tasks_ok:
  assumes "buffering env val objs s" "fresh_tags env" "inj_on (ce_md5 env) (range val)" "live_together val objs" "fst ` snd ` set calls \<subseteq> set objs"
  shows "sat (\<lambda>tasks s'. buffering env val objs s' \<and> grows s s' \<and> list_all2 (graph_task_ok s' ids data) calls tasks) (\<lambda>_. True)
    (construct_tasks env ids data flags caps calls s)"
  using assms(1,5)
proof (induction calls arbitrary: s)
  case (Cons c calls)
  obtain k fn name args where c: "c = (k, fn, name, args)" by (cases c)
  then have fn: "fn \<in> set objs" using Cons.prems(2) by simp
  note one = buffering_send(1) [OF Cons.prems(1) assms(2-4) fn, of name]
  show ?case
  proof (cases "buffer_send_function env fn name s")
    case (Ret o1 s1)
    then have s1: "buffering env val objs s1" "grows s s1" "names s1 (oc_object_id o1) (po_payload fn)" using one by auto
    have n: "grows s1 s2 \<Longrightarrow> names s2 (oc_object_id o1) (po_payload fn)" "grows s1 s2 \<Longrightarrow> grows s s2" for s2
      using grows_names [OF _ s1(3)] grows_trans [OF s1(2)] by auto
    have "sat (\<lambda>tasks s'. buffering env val objs s' \<and> grows s1 s' \<and> list_all2 (graph_task_ok s' ids data) calls tasks) (\<lambda>_. True)
      (construct_tasks env ids data flags caps calls s1)"
      by (rule Cons.IH [OF s1(1)]) (use Cons.prems(2) in auto)
    then show ?thesis using Ret n
      by (cases "construct_tasks env ids data flags caps calls s1")
        (auto simp: c andthen_run of_sum_def lookup_run graph_task_ok_iff split: option.split sum.split)
  qed (use one in \<open>auto simp: c andthen_run lookup_run split: option.split\<close>)
qed simp

lemma graph_arguments_spec:
  "graph_arguments ids data as = Inr xs \<Longrightarrow> list_all2 (\<lambda>a x. case x of TaskArgument t \<Rightarrow> dict_get ids a = Some t
     | ObjectArgument oid \<Rightarrow> dict_get ids a = None \<and> (\<exists>node. dict_get data a = Some (oid, node))) as xs"
  by (induction as arbitrary: xs) (auto split: option.splits sum.splits)

section \<open>What the scheduler gets\<close>

definition graph_wf :: "GraphTask \<Rightarrow> bool" where
  "graph_wf gt \<longleftrightarrow> distinct (map taskId (graph_tasks gt)) \<and> graph_taskId gt \<notin> taskId ` set (graph_tasks gt) \<and>
     set (graph_targets gt) \<subseteq> taskId ` set (graph_tasks gt) \<and> snd ` graph_depends (graph_tasks gt) \<subseteq> taskId ` set (graph_tasks gt) \<and>
     acyclic (graph_depends (graph_tasks gt))"

lemma acyclic_hom:
  assumes "acyclic E" and "\<And>x y. (x, y) \<in> R \<Longrightarrow> (g x, g y) \<in> E"
  shows "acyclic R"
proof -
  have "(g x, g y) \<in> E\<^sup>+" if "(x, y) \<in> R\<^sup>+" for x y
    using that by (induction rule: trancl_induct) (use assms(2) in \<open>auto intro: trancl_into_trancl\<close>)
  then show ?thesis using assms(1) by (auto simp: acyclic_def)
qed

lemma task_key:
  assumes "list_all2 (graph_task_ok s ids data) calls tasks" "task \<in> set tasks"
  shows "\<exists>c \<in> set calls. graph_task_ok s ids data c task"
  using assms by (metis in_set_conv_nth list_all2_conv_all_nth)

lemma ids_tasks:
  assumes "list_all2 (graph_task_ok s ids data) calls tasks" "dict_ok ids" "map fst ids = map fst calls"
  shows "map snd ids = map taskId tasks"
proof (rule nth_equalityI)
  have len: "length ids = length calls" "length tasks = length calls" using assms(1,3) list_all2_lengthD map_eq_imp_length_eq by metis+
  then show "length (map snd ids) = length (map taskId tasks)" by simp
  fix i assume "i < length (map snd ids)"
  then have i: "i < length ids" "i < length calls" "i < length tasks" using len by simp_all
  have "fst (ids ! i) = fst (calls ! i)" using assms(3) i nth_map by metis
  moreover have "dict_get ids (fst (calls ! i)) = Some (taskId (tasks ! i))"
    using list_all2_nthD [OF assms(1) i(2)] by (auto simp: graph_task_ok_def split: prod.splits)
  moreover have "dict_get ids (fst (ids ! i)) = Some (snd (ids ! i))" using i assms(2) by (simp add: dict_get_in_set)
  ultimately show "map snd ids ! i = map taskId tasks ! i" using i by simp
qed

lemma built_wf:
  assumes ok: "list_all2 (graph_task_ok s ids data) calls tasks" and ids: "dict_ok ids" "distinct (map snd ids)" "map fst ids = map fst calls"
    and acyc: "acyclic (call_edges calls)" and g: "graph_taskId gt \<notin> snd ` set ids" and targets: "graph_targets gt = List.map_filter (dict_get ids) keys"
    and ts: "graph_tasks gt = tasks"
  shows "graph_wf gt"
proof -
  have map: "map snd ids = map taskId tasks" by (rule ids_tasks [OF ok ids(1,3)])
  then have ran: "snd ` set ids = taskId ` set tasks" by (metis set_map)
  have get: "dict_get ids k = Some t \<Longrightarrow> t \<in> taskId ` set tasks" for k t
    using dict_get_SomeD [of ids k t] ran by force
  have inj: "k = k'" if "dict_get ids k = Some t" "dict_get ids k' = Some t" for k k' t
  proof -
    have "(k, t) \<in> set ids" "(k', t) \<in> set ids" using that dict_get_SomeD by metis+
    then show ?thesis using ids(2) inj_onD [of snd "set ids" "(k, t)" "(k', t)"] by (simp add: distinct_map)
  qed
  define key where "key t = (THE k. dict_get ids k = Some t)" for t
  have key: "key t = k" if "dict_get ids k = Some t" for k t
    unfolding key_def using that inj by (intro the_equality) auto
  have edge: "(key n, key t) \<in> call_edges calls \<and> t \<in> taskId ` set tasks" if dep: "(n, t) \<in> graph_depends tasks" for n t
  proof -
    obtain task where task: "task \<in> set tasks" "taskId task = n" "TaskArgument t \<in> set (functionArgs task)"
      using dep by (auto simp: graph_depends_def)
    obtain k fn name args where c: "(k, fn, name, args) \<in> set calls" "graph_task_ok s ids data (k, fn, name, args) task"
      using task_key [OF ok task(1)] by force
    obtain i where i: "i < length (functionArgs task)" "functionArgs task ! i = TaskArgument t" using task(3) by (auto simp: in_set_conv_nth)
    note args = graph_arguments_spec [of ids data args "functionArgs task"]
    have all: "list_all2 (\<lambda>a x. case x of TaskArgument t \<Rightarrow> dict_get ids a = Some t
        | ObjectArgument oid \<Rightarrow> dict_get ids a = None \<and> (\<exists>node. dict_get data a = Some (oid, node))) args (functionArgs task)"
      using args c(2) by (simp add: graph_task_ok_iff)
    have "args ! i \<in> set args" using i(1) list_all2_lengthD [OF all] by simp
    then have "(k, args ! i) \<in> call_edges calls" using c(1) unfolding call_edges_def by blast
    moreover have "dict_get ids (args ! i) = Some t" using list_all2_nthD2 [OF all i(1)] i(2) by simp
    moreover have "dict_get ids k = Some n" using c(2) task(2) by (simp add: graph_task_ok_iff)
    ultimately show ?thesis using key get by simp
  qed
  have "acyclic (graph_depends tasks)" by (rule acyclic_hom [OF acyc, where g = key]) (use edge in simp)
  moreover have "distinct (map taskId tasks)" using ids(2) map by simp
  moreover have "set (graph_targets gt) \<subseteq> taskId ` set tasks" using get by (auto simp: targets List.map_filter_def)
  ultimately show ?thesis using edge g ran by (auto simp: graph_wf_def ts)
qed

text \<open>The tasks of a graph task against the nodes of the graph; \<open>ids\<close> gives the task of a key.\<close>

definition refers :: "object_buffer \<Rightarrow> (bytes, graph_node) dict \<Rightarrow> (bytes, TaskID) dict \<Rightarrow> bytes \<Rightarrow> Argument \<Rightarrow> bool" where
  "refers s graph ids a x = (case x of TaskArgument t \<Rightarrow> dict_get ids a = Some t
     | ObjectArgument oid \<Rightarrow> (\<exists>node. dict_get graph a = Some node \<and> node_named s node oid))"

definition graph_faithful :: "object_buffer \<Rightarrow> (bytes, graph_node) dict \<Rightarrow> (bytes, TaskID) dict \<Rightarrow> Task list \<Rightarrow> bool" where
  "graph_faithful s graph ids tasks \<longleftrightarrow> list_all2 (\<lambda>(k, t) task. taskId task = t \<and>
     (\<exists>fn name args. dict_get graph k = Some (NodeCall fn name args) \<and> names s (funcObjectId task) (po_payload fn) \<and>
        list_all2 (refers s graph ids) args (functionArgs task))) ids tasks"

lemma in_calls_of: "(k, fn, name, args) \<in> set (calls_of graph) \<longleftrightarrow> (k, NodeCall fn name args) \<in> set graph"
  by (force simp: calls_of_def List.map_filter_def split: graph_node.splits)

lemma calls_keys: "map fst (calls_of graph) = map fst (filter (\<lambda>(_, node). node_value node \<noteq> Data) graph)"
  by (induction graph) (auto simp: calls_of_def map_filter_simps split: graph_node.splits)

lemma dict_ok_filter_keys: "dict_ok d \<Longrightarrow> distinct (map fst (filter P d))"
  by (simp add: dict_ok_def distinct_map_filter)

lemma data_entry:
  assumes "dict_ok graph" "map (\<lambda>(k, _, node). (k, node)) data = data_of graph" "data_named s data" "dict_get data a = Some (oid, node)"
  shows "dict_get graph a = Some node \<and> node_named s node oid"
proof -
  have "(a, oid, node) \<in> set data" using dict_get_SomeD [OF assms(4)] .
  then have "(a, node) \<in> set (data_of graph)" and named: "node_named s node oid"
    using assms(2,3) by (auto simp: data_named_def list_all_iff simp flip: assms(2) intro!: image_eqI [of _ _ "(a, oid, node)"])
  then show ?thesis using assms(1) by (simp add: data_of_def dict_get_in_set)
qed

lemma built_faithful:
  assumes ok: "list_all2 (graph_task_ok s ids data) (calls_of graph) tasks" and ids: "dict_ok ids" "map fst ids = map fst (calls_of graph)"
    and graph: "dict_ok graph" and data: "map (\<lambda>(k, _, node). (k, node)) data = data_of graph" "data_named s data"
  shows "graph_faithful s graph ids tasks"
  unfolding graph_faithful_def
proof (rule list_all2_all_nthI)
  have map: "map snd ids = map taskId tasks" by (rule ids_tasks [OF ok ids])
  then show "length ids = length tasks" using map_eq_imp_length_eq by metis
  fix i assume i: "i < length ids"
  have "length ids = length (calls_of graph)" using ids(2) map_eq_imp_length_eq by metis
  then have i': "i < length (calls_of graph)" "i < length tasks" using i list_all2_lengthD [OF ok] by simp_all
  obtain k fn name args where c: "calls_of graph ! i = (k, fn, name, args)" by (cases "calls_of graph ! i")
  have node: "dict_get graph k = Some (NodeCall fn name args)"
    using nth_mem [OF i'(1)] graph by (simp add: c in_calls_of dict_get_in_set)
  have t: "graph_task_ok s ids data (k, fn, name, args) (tasks ! i)" using list_all2_nthD [OF ok i'(1)] c by simp
  have "fst (ids ! i) = k" using ids(2) i i' c by (metis fst_conv nth_map)
  moreover have "snd (ids ! i) = taskId (tasks ! i)" using map i i' by (metis nth_map)
  moreover have "list_all2 (refers s graph ids) args (functionArgs (tasks ! i))"
    by (rule list_all2_mono [OF graph_arguments_spec [of ids data args "functionArgs (tasks ! i)"]])
      (use t data_entry [OF graph data] in \<open>auto simp: graph_task_ok_iff refers_def split: Argument.splits\<close>)
  ultimately show "(case ids ! i of (k, t) \<Rightarrow> \<lambda>task. taskId task = t \<and> (\<exists>fn name args. dict_get graph k = Some (NodeCall fn name args) \<and>
      names s (funcObjectId task) (po_payload fn) \<and> list_all2 (refers s graph ids) args (functionArgs task))) (tasks ! i)"
    using t node by (cases "ids ! i") (auto simp: graph_task_ok_iff)
qed

lemma key_futures_run:
  "sat (\<lambda>fs s'. map fst fs = ks \<and> computed fs = List.map_filter (dict_get ids) ks \<and> (\<exists>n. s' = s\<lparr>ob_tasks_used := n\<rparr>)) (\<lambda>_. True) (key_futures env ids data ks s)"
proof (induction ks arbitrary: s)
  case Nil
  have "\<exists>n. s = s\<lparr>ob_tasks_used := n\<rparr>" by (rule exI [of _ "ob_tasks_used s"]) simp
  then show ?case by (simp add: computed_def map_filter_simps)
next
  case (Cons k ks)
  show ?case
  proof (cases "dict_get ids k")
    case None
    then show ?thesis using Cons [of "s\<lparr>ob_tasks_used := Suc (ob_tasks_used s)\<rparr>"]
      by (cases "key_futures env ids data ks (s\<lparr>ob_tasks_used := Suc (ob_tasks_used s)\<rparr>)")
        (auto simp: andthen_run seq_run fresh_task_id_def computed_def map_filter_simps split: option.split)
  next
    case (Some t)
    then show ?thesis using Cons [of s]
      by (cases "key_futures env ids data ks s") (auto simp: andthen_run computed_def map_filter_simps)
  qed
qed

lemma tasks_used_cong [simp]:
  "buffer_inv env val H (s\<lparr>ob_tasks_used := n\<rparr>) = buffer_inv env val H s" "grows s (s\<lparr>ob_tasks_used := n\<rparr>)"
  "buffering env val objs (s\<lparr>ob_tasks_used := n\<rparr>) = buffering env val objs s"
  using buffering_cong [where s = s and s' = "s\<lparr>ob_tasks_used := n\<rparr>", simplified] by simp_all

lemma futures_cong [simp]:
  "buffering env val objs (s\<lparr>ob_futures := fs\<rparr>) = buffering env val objs s" "grows s (s\<lparr>ob_futures := fs\<rparr>)"
  using buffering_cong [where s = s and s' = "s\<lparr>ob_futures := fs\<rparr>", simplified] by simp_all

text \<open>\<open>ids\<close> of the built graph: one fresh id for every call.\<close>

definition ids_for :: "client_env \<Rightarrow> nat \<Rightarrow> call_nodes \<Rightarrow> (bytes, TaskID) dict" where
  "ids_for env n calls = zip (map fst calls) (map (ce_task_id env) [Suc n ..< Suc n + length calls])"

lemma ids_for_ok:
  assumes "inj (ce_task_id env)" "distinct (map fst calls)"
  shows "dict_ok (ids_for env n calls)" "distinct (map snd (ids_for env n calls))" "map fst (ids_for env n calls) = map fst calls"
    "ce_task_id env n \<notin> snd ` set (ids_for env n calls)"
proof -
  show "map fst (ids_for env n calls) = map fst calls" by (simp add: ids_for_def del: upt_Suc)
  then show "dict_ok (ids_for env n calls)" using assms(2) by (simp add: dict_ok_def)
  have snd: "map snd (ids_for env n calls) = map (ce_task_id env) [Suc n ..< Suc n + length calls]" by (simp add: ids_for_def del: upt_Suc)
  then show "distinct (map snd (ids_for env n calls))" using inj_on_subset [OF assms(1) subset_UNIV] by (simp add: distinct_map del: upt_Suc)
  have "snd ` set (ids_for env n calls) = ce_task_id env ` {Suc n ..< Suc n + length calls}"
    using arg_cong [OF snd, of set] by (simp del: upt_Suc)
  then show "ce_task_id env n \<notin> snd ` set (ids_for env n calls)" using assms(1) by (auto dest: injD)
qed

lemma construct_graph_ok:
  assumes "buffering env val objs s" "fresh_tags env" "inj_on (ce_md5 env) (range val)" "live_together val objs" "fst ` snd ` set calls \<subseteq> set objs"
  defines "ids \<equiv> ids_for env (ob_tasks_used s) calls"
  shows "sat (\<lambda>(gt, futures) s'. buffering env val objs s' \<and> grows s s' \<and> list_all2 (graph_task_ok s' ids data) calls (graph_tasks gt) \<and>
      graph_taskId gt = ce_task_id env (ob_tasks_used s) \<and> graph_targets gt = List.map_filter (dict_get ids) keys \<and>
      map fst futures = keys \<and> computed futures = graph_targets gt) (\<lambda>_. True) (construct_graph env data calls keys caps s)"
proof (cases "serialize_flags (client_task_flags env)")
  case (Inl e)
  then show ?thesis by (simp add: construct_graph_def fresh_task_id_def fresh_ids_run of_sum_def andthen_run seq_run)
next
  case (Inr flags)
  let ?s = "s\<lparr>ob_tasks_used := Suc (ob_tasks_used s + length calls)\<rparr>"
  have "buffering env val objs ?s" using assms(1) by simp
  from construct_tasks_ok [OF this assms(2-5), of ids data flags caps]
  have tasks: "sat (\<lambda>tasks s'. buffering env val objs s' \<and> grows s s' \<and> list_all2 (graph_task_ok s' ids data) calls tasks) (\<lambda>_. True)
      (construct_tasks env ids data flags caps calls ?s)"
    by (rule sat_mono) (auto intro: grows_trans [OF tasks_used_cong(2)])
  have run: "construct_graph env data calls keys caps s = andthen (construct_tasks env ids data flags caps calls) (\<lambda>tasks.
     andthen (key_futures env ids data keys) (\<lambda>futures.
       ret (\<lparr>graph_taskId = ce_task_id env (ob_tasks_used s), graph_source = ce_identity env,
             graph_targets = List.map_filter (dict_get ids) keys, graph_tasks = tasks\<rparr>, futures))) ?s"
    using Inr by (simp add: construct_graph_def fresh_task_id_def fresh_ids_run of_sum_def andthen_run seq_run ids_def ids_for_def del: upt_Suc)
  show ?thesis
  proof (cases "construct_tasks env ids data flags caps calls ?s")
    case (Ret tasks s1)
    have n: "list_all2 (graph_task_ok (s1\<lparr>ob_tasks_used := n\<rparr>) ids data) calls tasks" "grows s (s1\<lparr>ob_tasks_used := n\<rparr>)" for n
      using tasks Ret list_all2_mono [of "graph_task_ok s1 ids data" calls tasks] graph_task_ok_grows [OF tasks_used_cong(2)]
        grows_trans [OF _ tasks_used_cong(2)] by auto
    show ?thesis using key_futures_run [where ids = ids and ks = keys and s = s1 and env = env and data = data] tasks Ret n
      by (cases "key_futures env ids data keys s1") (auto simp: run andthen_run)
  qed (use tasks in \<open>simp_all add: run andthen_run\<close>)
qed

lemma client_cull_spec:
  assumes "dict_ok graph" "client_cull h graph keys = Inr graph'"
  shows "dict_ok graph'" "set graph' \<subseteq> set graph"
proof -
  let ?shape = "map (\<lambda>(k, node). (k, node_value node)) graph"
  obtain culled where c: "cull_graph h ?shape keys = Inr culled" "graph' = map (\<lambda>(k, _). (k, the (dict_get graph k))) culled"
    using assms(2) by (auto simp: client_cull_def split: sum.splits)
  have spec: "dict_ok culled" "\<And>k. dict_get culled k = (if k \<in> needed ?shape keys then dict_get ?shape k else None)"
    using cull_graph_spec [where h = h and graph = ?shape and keys = keys] c(1) by auto
  have "map fst graph' = map fst culled" using c(2) by (simp add: case_prod_unfold comp_def)
  then show "dict_ok graph'" using spec(1) by (simp add: dict_ok_def)
  have shape: "map_of ?shape k = map_option node_value (map_of graph k)" for k by (induction graph) auto
  show "set graph' \<subseteq> set graph"
  proof
    fix e assume "e \<in> set graph'"
    then obtain k v where e: "(k, v) \<in> set culled" "e = (k, the (dict_get graph k))" using c(2) by auto
    then have "dict_get culled k = Some v" using dict_get_in_set [OF spec(1)] by simp
    then have "dict_get ?shape k = Some v" using spec(2) [of k] by (simp split: if_splits)
    then obtain node where "dict_get graph k = Some node" using shape [of k] by (auto simp: dict_get_def)
    then show "e \<in> set graph" using dict_get_SomeD [of graph k node] e(2) by simp
  qed
qed

lemma node_objects_mono: "set graph' \<subseteq> set graph \<Longrightarrow> set (node_objects graph') \<subseteq> set (node_objects graph)"
  by (auto simp: node_objects_def)

lemma call_objects: "fst ` snd ` set (calls_of graph) \<subseteq> set (node_objects graph)"
proof (induction graph)
  case (Cons g graph)
  obtain k node where "g = (k, node)" by (cases g)
  then show ?case using Cons by (cases node) auto
qed simp

lemma faithful_cong:
  "grows s s' \<Longrightarrow> graph_faithful s graph ids tasks \<Longrightarrow> graph_faithful s' graph ids tasks"
  unfolding graph_faithful_def
proof (erule list_all2_mono, clarsimp)
  fix k task fn name args assume g: "grows s s'" and n: "names s (funcObjectId task) (po_payload fn)" and a: "list_all2 (refers s graph ids) args (functionArgs task)"
  have "list_all2 (refers s' graph ids) args (functionArgs task)"
    using a by (rule list_all2_mono) (auto simp: refers_def split: Argument.splits intro: node_named_grows [OF g])
  then show "names s' (funcObjectId task) (po_payload fn) \<and> list_all2 (refers s' graph ids) args (functionArgs task)"
    using grows_names [OF g n] by simp
qed

lemma client_get_ok:
  assumes inv: "buffer_inv env val {} s" and env: "fresh_tags env" "inj_on (ce_md5 env) (range val)" "inj (ce_task_id env)"
    and graph: "dict_ok graph" "live_together val (node_objects graph)"
    and run: "client_get env h graph keys caps reserialize s = Ret (gt, futures) s'"
  shows "buffer_inv env val {} s' \<and> committed s' \<and> graph_wf gt \<and> map fst futures = keys \<and> computed futures = graph_targets gt \<and>
    (\<exists>graph' ids. client_cull h graph keys = Inr graph' \<and> map fst ids = map fst (calls_of graph') \<and> graph_faithful s' graph' ids (graph_tasks gt) \<and>
       graph_targets gt = List.map_filter (dict_get ids) keys)"
proof -
  have live: "\<not> ob_stopped s" using run by (auto simp: client_get_def assert_client_not_stopped_def seq_run split: if_splits)
  obtain graph' where cull: "client_cull h graph keys = Inr graph'"
    using run by (cases "client_cull h graph keys") (auto simp: client_get_def assert_client_not_stopped_def live of_sum_def andthen_run seq_run)
  note c = client_cull_spec [OF graph(1) cull]
  let ?objs = "node_objects graph"
  note objs = node_objects_mono [OF c(2)]
  note split = split_ok [OF buffering_start [OF inv] env(1,2) graph(2) objs, of reserialize]
  obtain data s1 where s1: "split_data_and_graph env reserialize graph' s = Ret (data, calls_of graph') s1"
      "buffering env val ?objs s1" "map (\<lambda>(k, _, node). (k, node)) data = data_of graph'" "data_named s1 data"
    using run split cull by (cases "split_data_and_graph env reserialize graph' s") (auto simp: client_get_def assert_client_not_stopped_def live of_sum_def andthen_run seq_run)
  have chk: "check_graph data (calls_of graph') keys = Inr ()"
    using run cull s1(1) by (cases "check_graph data (calls_of graph') keys") (auto simp: client_get_def assert_client_not_stopped_def live of_sum_def andthen_run seq_run)
  then have acyc: "acyclic (call_edges (calls_of graph'))" by (auto simp: check_graph_spec split: if_splits)
  have "fst ` snd ` set (calls_of graph') \<subseteq> set ?objs" using call_objects objs by blast
  note build = construct_graph_ok [OF s1(2) env(1,2) graph(2) this, of data keys caps]
  define ids where "ids = ids_for env (ob_tasks_used s1) (calls_of graph')"
  have "distinct (map fst (calls_of graph'))" unfolding calls_keys by (rule dict_ok_filter_keys [OF c(1)])
  note ids = ids_for_ok [OF env(3) this, of "ob_tasks_used s1", folded ids_def]
  obtain gt' fs s2 where s2: "construct_graph env data (calls_of graph') keys caps s1 = Ret (gt', fs) s2"
    using run cull s1(1) chk by (cases "construct_graph env data (calls_of graph') keys caps s1") (auto simp: client_get_def assert_client_not_stopped_def live of_sum_def andthen_run seq_run)
  then have b: "buffering env val ?objs s2" "grows s1 s2" "list_all2 (graph_task_ok s2 ids data) (calls_of graph') (graph_tasks gt')"
      "graph_taskId gt' = ce_task_id env (ob_tasks_used s1)" "graph_targets gt' = List.map_filter (dict_get ids) keys"
      "map fst fs = keys" "computed fs = graph_targets gt'"
    using build by (auto simp: ids_def)
  have wf: "graph_wf gt'" by (rule built_wf [OF b(3) ids(1-3) acyc _ b(5)]) (use ids(4) b(4) in simp_all)
  have faith: "graph_faithful s2 graph' ids (graph_tasks gt')"
    by (rule built_faithful [OF b(3) ids(1,3) c(1) s1(3) data_named_grows [OF b(2) s1(4)]])
  let ?s3 = "s2\<lparr>ob_futures := ob_futures s2 @ graph_taskId gt' # computed fs\<rparr>"
  have "buffering env val ?objs ?s3" using b(1) by simp
  note commit = commit_buffering [OF this]
  obtain s4 where s4: "commit_send_objects env ?s3 = Ret () s4"
    using run cull s1(1) chk s2 by (cases "commit_send_objects env ?s3") (auto simp: client_get_def assert_client_not_stopped_def live of_sum_def andthen_run seq_run)
  then have inv4: "buffer_inv env val {} s4" "grows ?s3 s4" "committed s4" using commit by auto
  have fin: "gt = gt'" "futures = fs" "s' = s4\<lparr>ob_sent := ob_sent s4 @ [ClientGraphTask gt']\<rparr>"
    using run cull s1(1) chk s2 s4 by (auto simp: client_get_def assert_client_not_stopped_def live of_sum_def andthen_run seq_run)
  have "grows s2 s'" using grows_trans [OF futures_cong(2) inv4(2)] by (simp add: fin(3) grows_def)
  then have "graph_faithful s' graph' ids (graph_tasks gt)" using faithful_cong faith fin(1) by blast
  then show ?thesis using inv4 wf b(5-7) cull ids(3) by (auto simp: fin(1-2)) (simp_all add: fin(3))
qed

end
