(* ===== verification/ClientRuns.thy ===== *)
theory ClientRuns
  imports ClientGraph
begin

text \<open>
  A client in use: the states its object buffer goes through while submissions return, and how the
  arguments of a call are bound to the parameters of the function.
\<close>

section \<open>Arguments\<close>

text \<open>The parameters of a Python function: names differ, and among the positional ones those without default come first.\<close>

definition signature_ok :: "parameter list \<Rightarrow> bool" where
  "signature_ok ps \<longleftrightarrow> distinct (map pm_name ps) \<and> filter pm_required (filter positional ps) = takeWhile pm_required (filter positional ps)"

definition bound :: "(bytes, submitted_arg) dict \<Rightarrow> parameter \<Rightarrow> submitted_arg" where
  "bound kwargs p = (case dict_get kwargs (pm_name p) of Some a \<Rightarrow> a | None \<Rightarrow> pm_default p)"

lemma take_required_spec:
  "distinct (map pm_name ps) \<Longrightarrow>
    if list_all (\<lambda>p. dict_has kwargs (pm_name p)) ps
    then \<exists>rest. take_required ps kwargs = Inr (map (bound kwargs) ps, rest) \<and> (\<forall>k. k \<notin> pm_name ` set ps \<longrightarrow> dict_get rest k = dict_get kwargs k)
    else take_required ps kwargs = Inl TypeError"
proof (induction ps arbitrary: kwargs)
  case (Cons p ps)
  show ?case
  proof (cases "dict_get kwargs (pm_name p)")
    case (Some a)
    let ?kw = "dict_pop (pm_name p) kwargs"
    have other: "dict_get ?kw (pm_name q) = dict_get kwargs (pm_name q)" if "q \<in> set ps" for q
      using Cons.prems that by (auto simp: image_iff)
    have "list_all (\<lambda>q. dict_has ?kw (pm_name q)) ps = list_all (\<lambda>q. dict_has kwargs (pm_name q)) ps" "map (bound ?kw) ps = map (bound kwargs) ps"
      using other by (auto simp: dict_has_iff bound_def list_all_iff)
    moreover have "bound kwargs p = a" using Some by (simp add: bound_def)
    ultimately show ?thesis using Cons.IH [of ?kw] Cons.prems Some by (auto simp: dict_has_iff split: if_splits)
  qed (simp add: dict_has_iff)
qed simp

lemma take_defaults_spec: "distinct (map pm_name ps) \<Longrightarrow> take_defaults ps kwargs = map (bound kwargs) ps"
proof (induction ps arbitrary: kwargs)
  case (Cons p ps)
  have "map (bound (dict_pop (pm_name p) kwargs)) ps = map (bound kwargs) ps"
    using Cons.prems by (auto simp: bound_def image_iff)
  then show ?case using Cons by (simp add: bound_def)
qed simp

lemma defaults_elsewhere:
  "k \<notin> pm_name ` set qs \<Longrightarrow> dict_get (fold (\<lambda>p. dict_set (pm_name p) (pm_default p)) qs kwargs) k = dict_get kwargs k"
  by (induction qs arbitrary: kwargs) auto

lemma required_first: "filter P xs = takeWhile P xs \<Longrightarrow> list_all (\<lambda>x. \<not> P x) (dropWhile P xs)"
proof (induction xs)
  case (Cons x xs)
  show ?case
  proof (cases "P x")
    case False
    then have "filter P xs = []" using Cons.prems by simp
    then show ?thesis using False by (simp add: filter_empty_conv list_all_iff)
  qed (use Cons in simp)
qed simp

lemma bind_rest:
  fixes args :: "submitted_arg list"
  assumes d: "distinct (map pm_name (R @ O'))" and R: "list_all pm_required R" and O': "list_all (\<lambda>p. \<not> pm_required p) O'"
  defines "rest \<equiv> drop (length args) (R @ O')"
  shows "(case take_required (drop (length args) R) kw of Inl e \<Rightarrow> Inl e
      | Inr (required, kw') \<Rightarrow> Inr ((args @ required) @ take_defaults (drop (length (args @ required)) (R @ O')) kw')) =
    (if list_all (\<lambda>p. pm_required p \<longrightarrow> dict_has kw (pm_name p)) rest then Inr (args @ map (bound kw) rest) else Inl TypeError)"
proof -
  let ?r = "drop (length args) R" and ?o = "drop (length args - length R) O'"
  have rest: "rest = ?r @ ?o" by (simp add: rest_def)
  have "distinct (map pm_name rest)" unfolding rest_def drop_map [symmetric] using d by (rule distinct_drop)
  then have dis: "distinct (map pm_name ?r)" "distinct (map pm_name ?o)" "pm_name ` set ?r \<inter> pm_name ` set ?o = {}"
    by (simp_all add: rest)
  have all: "list_all (\<lambda>p. pm_required p \<longrightarrow> dict_has kw (pm_name p)) rest = list_all (\<lambda>p. dict_has kw (pm_name p)) ?r"
    using R O' unfolding rest list_all_iff by (auto dest: in_set_dropD)
  have len: "drop (length args + length ?r) (R @ O') = ?o" by (cases "length args \<le> length R") simp_all
  show ?thesis
  proof (cases "list_all (\<lambda>p. dict_has kw (pm_name p)) ?r")
    case True
    then obtain kw' where kw': "take_required ?r kw = Inr (map (bound kw) ?r, kw')" "\<And>k. k \<notin> pm_name ` set ?r \<Longrightarrow> dict_get kw' k = dict_get kw k"
      using take_required_spec [OF dis(1), of kw] by auto
    have "bound kw' p = bound kw p" if "p \<in> set ?o" for p
    proof -
      have "pm_name p \<notin> pm_name ` set ?r" using dis(3) that by blast
      then show ?thesis using kw'(2) by (simp add: bound_def)
    qed
    then have "take_defaults ?o kw' = map (bound kw) ?o" unfolding take_defaults_spec [OF dis(2)] by (rule map_cong [OF refl])
    then show ?thesis using True kw'(1) len unfolding all by (simp add: rest)
  next
    case False
    then show ?thesis using take_required_spec [OF dis(1), of kw] unfolding all by simp
  qed
qed

lemma convert_spec:
  fixes args :: "submitted_arg list"
  assumes sig: "signature_ok ps"
  defines "rest \<equiv> drop (length args) (filter positional ps)"
  shows "convert_kwargs_to_args ps args kwargs =
    (if list_all (\<lambda>p. pm_required p \<longrightarrow> dict_has kwargs (pm_name p)) rest then Inr (args @ map (bound kwargs) rest) else Inl TypeError)"
proof (cases "length (filter positional ps) \<le> length args")
  case True
  then show ?thesis by (simp add: convert_kwargs_to_args_def Let_def rest_def)
next
  case False
  let ?ps = "filter positional ps" and ?qs = "filter (\<lambda>p. pm_kind p = KEYWORD_ONLY \<and> \<not> pm_required p) ps"
  let ?kw = "fold (\<lambda>p. dict_set (pm_name p) (pm_default p)) ?qs kwargs"
  let ?R = "takeWhile pm_required ?ps" and ?O = "dropWhile pm_required ?ps"
  have req: "filter pm_required ?ps = ?R" using sig by (simp add: signature_ok_def)
  have opt: "list_all (\<lambda>p. \<not> pm_required p) ?O" by (rule required_first [OF req])
  have all: "list_all pm_required ?R" by (auto simp: list_all_iff dest: set_takeWhileD)
  have "distinct (map pm_name (?R @ ?O))" using sig by (simp add: signature_ok_def distinct_map_filter)
  note core = bind_rest [OF this all opt, of args ?kw, simplified takeWhile_dropWhile_id, folded rest_def]
  have kw: "dict_get ?kw (pm_name p) = dict_get kwargs (pm_name p)" if "p \<in> set ?ps" for p
  proof (rule defaults_elsewhere)
    have inj: "inj_on pm_name (set ps)" using sig by (simp add: signature_ok_def distinct_map)
    have p: "p \<in> set ps" "positional p" using that by simp_all
    show "pm_name p \<notin> pm_name ` set ?qs"
    proof
      assume "pm_name p \<in> pm_name ` set ?qs"
      then obtain q where q: "q \<in> set ps" "pm_kind q = KEYWORD_ONLY" "pm_name p = pm_name q" by auto
      have "p = q" by (rule inj_onD [OF inj q(3) p(1) q(1)])
      then show False using p(2) q(2) by (simp add: positional_def)
    qed
  qed
  have sub: "set rest \<subseteq> set ?ps" unfolding rest_def by (rule set_drop_subset)
  then have kw': "dict_get ?kw (pm_name p) = dict_get kwargs (pm_name p)" if "p \<in> set rest" for p using kw that by blast
  then have "map (bound ?kw) rest = map (bound kwargs) rest" by (simp add: bound_def)
  moreover have "list_all (\<lambda>p. pm_required p \<longrightarrow> dict_has ?kw (pm_name p)) rest = list_all (\<lambda>p. pm_required p \<longrightarrow> dict_has kwargs (pm_name p)) rest"
    using kw' by (simp add: list_all_iff dict_has_iff)
  moreover have "take (length (filter pm_required ?ps)) ?ps = ?R" unfolding req by (rule takeWhile_eq_take [symmetric])
  ultimately show ?thesis using core False unfolding convert_kwargs_to_args_def Let_def by (simp del: filter_filter)
qed

section \<open>Runs\<close>

text \<open>
  The buffer of a client whose submissions return. The objects of one submission are alive together, and an object
  keeps the value \<open>val\<close> gives it as long as it exists; between the calls, objects
  may be collected and their addresses used again.
\<close>

inductive client_reach :: "client_env \<Rightarrow> (nat \<Rightarrow> bytes) \<Rightarrow> object_buffer \<Rightarrow> bool" for env val where
  start: "send_serializer env ob_empty = Ret () s \<Longrightarrow> client_reach env val s"
| submit: "client_reach env val s \<Longrightarrow> convert_kwargs_to_args ps args kwargs = Inr as \<Longrightarrow> live_together val (fn # arg_objects as) \<Longrightarrow>
    submit_verbose env fn name (Some ps) args kwargs caps reserialize s = Ret task s' \<Longrightarrow> client_reach env val s'"
| starmap: "client_reach env val s \<Longrightarrow> live_together val (fn # concat (map arg_objects ass)) \<Longrightarrow>
    starmap env fn name ass caps reserialize s = Ret tasks s' \<Longrightarrow> client_reach env val s'"
| graph: "client_reach env val s \<Longrightarrow> dict_ok graph \<Longrightarrow> live_together val (node_objects graph) \<Longrightarrow>
    client_get env h graph keys caps reserialize s = Ret r s' \<Longrightarrow> client_reach env val s'"
| send: "client_reach env val s \<Longrightarrow> po_payload x = val (po_identity x) \<Longrightarrow> send_object env x name s = Ret r s' \<Longrightarrow> client_reach env val s'"
| clear: "client_reach env val s \<Longrightarrow> ob_clear s = Ret () s' \<Longrightarrow> client_reach env val s'"
| collect: "client_reach env val s \<Longrightarrow> collect k s = Ret () s' \<Longrightarrow> client_reach env val s'"

definition client_ok :: "client_env \<Rightarrow> (nat \<Rightarrow> bytes) \<Rightarrow> bool" where
  "client_ok env val \<longleftrightarrow> fresh_tags env \<and> inj_on (ce_md5 env) (range val) \<and> inj (ce_task_id env)"

lemma sat_Ret: "sat P Q r \<Longrightarrow> r = Ret a s \<Longrightarrow> P a s"
  by simp

lemma client_reach_inv:
  assumes "client_reach env val s" "client_ok env val"
  shows "buffer_inv env val {} s"
  using assms(1)
proof induction
  case (start s)
  then show ?case using start_ok [of env val] assms(2) by (simp add: client_ok_def)
next
  case (submit s ps args kwargs as fn name caps reserialize task s')
  then show ?case using sat_Ret [OF submit_verbose_ok submit.hyps(4)] assms(2) by (auto simp: client_ok_def)
next
  case (starmap s fn ass name caps reserialize tasks s')
  then show ?case using sat_Ret [OF starmap_ok starmap.hyps(3)] assms(2) by (auto simp: client_ok_def)
next
  case (graph s g h keys caps reserialize r s')
  then show ?case using client_get_ok [of env val s g h keys caps reserialize "fst r" "snd r" s'] assms(2) by (simp add: client_ok_def)
next
  case (send s x name r s')
  then show ?case using sat_Ret [OF send_object_ok send.hyps(3)] assms(2) by (auto simp: client_ok_def)
next
  case (clear s s')
  then show ?case using sat_Ret [OF clear_ok clear.hyps(2)] by blast
next
  case (collect s k s')
  then show ?case using sat_Ret [OF collect_ok collect.hyps(2)] by blast
qed

text \<open>What is uploaded once a submission has returned.\<close>

definition uploaded_as :: "object_buffer \<Rightarrow> submitted_arg \<Rightarrow> Argument \<Rightarrow> bool" where
  "uploaded_as s a x = (case x of TaskArgument _ \<Rightarrow> False
     | ObjectArgument oid \<Rightarrow> (case a of ArgReference r \<Rightarrow> oid = r \<and> r \<in> fst ` set (ob_uploaded s) | ArgObject obj \<Rightarrow> (oid, po_payload obj) \<in> set (ob_uploaded s)))"

lemma uploaded_arg:
  assumes "buffer_inv env val {} s" "committed s" "case x of ObjectArgument oid \<Rightarrow> arg_named s a oid | TaskArgument _ \<Rightarrow> False"
  shows "uploaded_as s a x"
proof -
  have "set (ob_valid s) \<subseteq> fst ` set (ob_uploaded s)"
    using assms(1) committed_entries [OF assms(2)] by (auto simp: buffer_inv_def stored_ok_def)
  then show ?thesis
    using assms(3) committed_entries [OF assms(2)] by (auto simp: uploaded_as_def arg_named_def names_def split: Argument.splits submitted_arg.splits)
qed

lemma submit_uploaded:
  assumes "client_reach env val s" "client_ok env val" "convert_kwargs_to_args ps args kwargs = Inr as" "live_together val (fn # arg_objects as)"
    "submit_verbose env fn name (Some ps) args kwargs caps reserialize s = Ret task s'"
  shows "(funcObjectId task, po_payload fn) \<in> set (ob_uploaded s')" "list_all2 (uploaded_as s') as (functionArgs task)" "distinct (map fst (ob_uploaded s'))"
proof -
  have ok: "buffer_inv env val {} s'" "committed s'" "task_faithful s' fn as task"
    using sat_Ret [OF submit_verbose_ok assms(5)] client_reach_inv [OF assms(1,2)] assms(2-4) by (auto simp: client_ok_def)
  note e = committed_entries [OF ok(2)]
  show "(funcObjectId task, po_payload fn) \<in> set (ob_uploaded s')" using ok(3) by (simp add: task_faithful_def names_def e)
  show "list_all2 (uploaded_as s') as (functionArgs task)"
    using ok(3) uploaded_arg [OF ok(1,2)] by (auto simp: task_faithful_def elim!: list_all2_mono)
  show "distinct (map fst (ob_uploaded s'))" using ok(1) e by (simp add: buffer_inv_def stored_ok_def)
qed

lemma submit_returns:
  assumes "client_reach env val s" "client_ok env val" "convert_kwargs_to_args ps args kwargs = Inr as" "live_together val (fn # arg_objects as)"
  shows "case submit_verbose env fn name (Some ps) args kwargs caps reserialize s of
      Ret task s' \<Rightarrow> True
    | Raise e s' \<Rightarrow> ob_stopped s \<or> \<not> refs_valid s as \<or> serialize_flags (client_task_flags env) = Inl StructError \<or> (\<exists>oid. \<not> ce_set_object_ok env oid) \<or> bad_tag env s'
    | NoFuel \<Rightarrow> False"
proof -
  have "buffer_inv env val {} s" by (rule client_reach_inv [OF assms(1,2)])
  from submit_verbose_ok [OF this _ _ assms(3,4), of name caps reserialize] show ?thesis
    using assms(2) by (cases "submit_verbose env fn name (Some ps) args kwargs caps reserialize s") (auto simp: client_ok_def)
qed

end
