(* ===== verification/Processor.thy ===== *)
theory Processor
  imports Encoding
begin

text \<open>
  The process that runs user functions (\<open>src/src/scaler/worker/agent/processor/processor.py\<close>, with its object cache and streaming
  buffer). A task's objects are fetched from the storage unless they are cached, the function is called, the result is stored under a
  fresh id, announced and sent; a step of that hand-off is repeated when the transport fails.

  Pickling, the user's functions and what they print, and which requests to the storage and to the agent succeed, are fields of the
  environment; \<open>'v\<close> is the type of Python values, \<open>'z\<close> of serializers. The storage is a dictionary; asking it for an object that
  is never stored does not return, which is \<open>NoFuel\<close>. The times at which objects were used are written but never read.
\<close>

section \<open>State\<close>

record ('v, 'z) proc_env =
  pe_md5 :: "bytes \<Rightarrow> bytes"
  pe_tag :: "nat \<Rightarrow> bytes"
  pe_repr :: "ObjectID \<Rightarrow> bytes"
  pe_loads :: "bytes \<Rightarrow> py_exn + 'z"
  pe_deserialize :: "'z \<Rightarrow> bytes \<Rightarrow> py_exn + 'v"
  pe_serialize :: "'z \<Rightarrow> 'v \<Rightarrow> py_exn + bytes"
  pe_call :: "'v \<Rightarrow> 'v list \<Rightarrow> py_exn + 'v"
  pe_output :: "'v \<Rightarrow> 'v list \<Rightarrow> (bool \<times> bytes) list"
  pe_failure :: "py_exn \<Rightarrow> bytes"
  pe_storage_ok :: "nat \<Rightarrow> bool"
  pe_agent_ok :: "nat \<Rightarrow> bool"

datatype processor_out =
    ProcInitialized
  | ProcCreate ClientID ObjectID bytes
  | ProcResult TaskResult
  | ProcLog TaskID bool bytes

record ('v, 'z) processor =
  pr_serializers :: "(ClientID, 'z) dict"
  pr_cached_objects :: "(ObjectID, py_exn + 'v) dict"
  pr_current_task :: "Task option"
  pr_interrupted :: bool
  pr_storage :: "(ObjectID, bytes) dict"
  pr_tags_used :: nat
  pr_requests :: nat
  pr_sends :: nat
  pr_downloads :: "ObjectID list"
  pr_to_agent :: "processor_out list"

type_synonym ('a, 'v, 'z) proc_step = "('a, ('v, 'z) processor) comp"

section \<open>Storage and agent\<close>

definition storage_get :: "('v, 'z) proc_env \<Rightarrow> ObjectID \<Rightarrow> (bytes, 'v, 'z) proc_step" where
  "storage_get env oid s =
     (let s1 = s\<lparr>pr_requests := pr_requests s + 1, pr_downloads := pr_downloads s @ [oid]\<rparr>
      in if \<not> pe_storage_ok env (pr_requests s) then Raise StorageError s1
         else case dict_get (pr_storage s) oid of None \<Rightarrow> NoFuel | Some p \<Rightarrow> Ret p s1)"

definition storage_set :: "('v, 'z) proc_env \<Rightarrow> ObjectID \<Rightarrow> bytes \<Rightarrow> (unit, 'v, 'z) proc_step" where
  "storage_set env oid p s =
     (let s1 = s\<lparr>pr_requests := pr_requests s + 1\<rparr>
      in if \<not> pe_storage_ok env (pr_requests s) then Raise StorageError s1 else Ret () (s1\<lparr>pr_storage := dict_set oid p (pr_storage s)\<rparr>))"

definition agent_send :: "('v, 'z) proc_env \<Rightarrow> processor_out \<Rightarrow> (unit, 'v, 'z) proc_step" where
  "agent_send env m s =
     (let s1 = s\<lparr>pr_sends := pr_sends s + 1\<rparr>
      in if \<not> pe_agent_ok env (pr_sends s) then Raise YMQError s1 else Ret () (s1\<lparr>pr_to_agent := pr_to_agent s @ [m]\<rparr>))"

section \<open>Object cache\<close>

definition add_serializer :: "ClientID \<Rightarrow> 'z \<Rightarrow> (unit, 'v, 'z) proc_step" where
  "add_serializer c z = modify (\<lambda>s. s\<lparr>pr_serializers := dict_set c z (pr_serializers s)\<rparr>)"

definition get_serializer :: "ClientID \<Rightarrow> ('z, 'v, 'z) proc_step" where
  "get_serializer c s = (case dict_get (pr_serializers s) c of None \<Rightarrow> Raise DeserializeObjectError s | Some z \<Rightarrow> Ret z s)"

definition cache_add_object :: "('v, 'z) proc_env \<Rightarrow> ClientID \<Rightarrow> ObjectID \<Rightarrow> bytes \<Rightarrow> (unit, 'v, 'z) proc_step" where
  "cache_add_object env c oid p =
     (if object_is_serializer (pe_md5 env) oid
      then andthen (of_sum (pe_loads env p)) (add_serializer c)
      else andthen (try_except (andthen (get_serializer c) (\<lambda>z. andthen (of_sum (pe_deserialize env z p)) (\<lambda>v. ret (Inr v))))
                               (ret (Inl DeserializeObjectError))) (\<lambda>r.
           modify (\<lambda>s. s\<lparr>pr_cached_objects := dict_set oid r (pr_cached_objects s)\<rparr>)))"

definition cache_del_object :: "ObjectID \<Rightarrow> (unit, 'v, 'z) proc_step" where
  "cache_del_object oid = modify (\<lambda>s. s\<lparr>pr_cached_objects := dict_pop oid (pr_cached_objects s)\<rparr>)"

text \<open>An object id is also looked up among the clients, which are the keys of the serializers.\<close>

definition cache_has_object :: "('v, 'z) processor \<Rightarrow> ObjectID \<Rightarrow> bool" where
  "cache_has_object s oid = (dict_has (pr_cached_objects s) oid \<or> dict_has (pr_serializers s) oid)"

definition cache_get_object :: "ObjectID \<Rightarrow> ('v, 'v, 'z) proc_step" where
  "cache_get_object oid s =
     (case dict_get (pr_cached_objects s) oid of
        None \<Rightarrow> Raise ValueError s
      | Some (Inl e) \<Rightarrow> Raise e s
      | Some (Inr v) \<Rightarrow> Ret v s)"

definition cache_serialize :: "('v, 'z) proc_env \<Rightarrow> ClientID \<Rightarrow> 'v \<Rightarrow> (bytes, 'v, 'z) proc_step" where
  "cache_serialize env c v = andthen (get_serializer c) (\<lambda>z. of_sum (pe_serialize env z v))"

section \<open>Tasks\<close>

fun argument_data :: "Argument \<Rightarrow> bytes" where
  "argument_data (TaskArgument t) = t"
| "argument_data (ObjectArgument oid) = oid"

fun argument_ids :: "bytes list \<Rightarrow> py_exn + ObjectID list" where
  "argument_ids [] = Inr []"
| "argument_ids (b # bs) = (case object_id_new b of Inl e \<Rightarrow> Inl e | Inr oid \<Rightarrow> map_sum id (\<lambda>oids. oid # oids) (argument_ids bs))"

definition required_object_ids :: "('v, 'z) proc_env \<Rightarrow> Task \<Rightarrow> py_exn + ObjectID list" where
  "required_object_ids env task =
     (case generate_serializer_object_id (pe_md5 env) (task_source task) of
        Inl e \<Rightarrow> Inl e
      | Inr z \<Rightarrow> map_sum id (\<lambda>oids. z # oids) (argument_ids (funcObjectId task # map argument_data (functionArgs task))))"

definition cache_required_object_ids :: "('v, 'z) proc_env \<Rightarrow> Task \<Rightarrow> (unit, 'v, 'z) proc_step" where
  "cache_required_object_ids env task =
     andthen (of_sum (required_object_ids env task)) (\<lambda>oids.
       for_each oids (\<lambda>oid.
         andthen (gets (\<lambda>s. cache_has_object s oid)) (\<lambda>has.
           if has then ret ()
           else andthen (storage_get env oid) (cache_add_object env (task_source task) oid))))"

fun get_arguments :: "bytes list \<Rightarrow> ('v list, 'v, 'z) proc_step" where
  "get_arguments [] = ret []"
| "get_arguments (b # bs) =
     andthen (of_sum (object_id_new b)) (\<lambda>oid. andthen (cache_get_object oid) (\<lambda>v. andthen (get_arguments bs) (\<lambda>vs. ret (v # vs))))"

text \<open>\<open>StreamingBuffer.write\<close>: what cannot be sent is dropped.\<close>

definition stream_write :: "('v, 'z) proc_env \<Rightarrow> TaskID \<Rightarrow> bool \<times> bytes \<Rightarrow> (unit, 'v, 'z) proc_step" where
  "stream_write env t out =
     (if snd out = [] then ret () else try_except (agent_send env (ProcLog t (fst out) (snd out))) (ret ()))"

definition call_function :: "('v, 'z) proc_env \<Rightarrow> Task \<Rightarrow> task_flags \<Rightarrow> (bytes, 'v, 'z) proc_step" where
  "call_function env task flags =
     andthen (of_sum (object_id_new (funcObjectId task))) (\<lambda>fid.
     andthen (cache_get_object fid) (\<lambda>f.
     andthen (get_arguments (map argument_data (functionArgs task))) (\<lambda>args.
     seq (if flag_stream_output flags then for_each (pe_output env f args) (stream_write env (taskId task)) else ret ())
     (andthen (of_sum (pe_call env f args)) (\<lambda>v. cache_serialize env (task_source task) v)))))"

text \<open>\<open>__hand_off\<close>: \<open>n\<close> more attempts after the first; the loop ends because the attempts are counted.\<close>

fun hand_off :: "nat \<Rightarrow> ('a, 'v, 'z) proc_step \<Rightarrow> ('a, 'v, 'z) proc_step" where
  "hand_off n step s =
     (case step s of
        Raise e s' \<Rightarrow>
          if e = YMQError \<or> e = StorageError
          then (if pr_interrupted s' then Raise e s' else case n of 0 \<Rightarrow> Raise e s' | Suc m \<Rightarrow> hand_off m step s')
          else Raise e s'
      | r \<Rightarrow> r)"

definition retries :: nat where
  "retries = 3"

definition store_once :: "('v, 'z) proc_env \<Rightarrow> ClientID \<Rightarrow> bytes \<Rightarrow> (ObjectID, 'v, 'z) proc_step" where
  "store_once env source p = andthen (gets pr_tags_used) (\<lambda>n.
      seq (modify (\<lambda>s. s\<lparr>pr_tags_used := n + 1\<rparr>))
      (andthen (of_sum (generate_object_id (pe_md5 env) (pe_tag env n) source)) (\<lambda>oid.
       seq (storage_set env oid p) (ret oid))))"

definition store_result :: "('v, 'z) proc_env \<Rightarrow> ClientID \<Rightarrow> bytes \<Rightarrow> (ObjectID, 'v, 'z) proc_step" where
  "store_result env source p = hand_off retries (store_once env source p)"

definition send_to_agent :: "('v, 'z) proc_env \<Rightarrow> processor_out \<Rightarrow> (unit, 'v, 'z) proc_step" where
  "send_to_agent env m = hand_off retries (agent_send env m)"

definition send_result :: "('v, 'z) proc_env \<Rightarrow> ClientID \<Rightarrow> TaskID \<Rightarrow> TaskResultType \<Rightarrow> bytes \<Rightarrow> (unit, 'v, 'z) proc_step" where
  "send_result env source t rt p =
     andthen (store_result env source p) (\<lambda>oid.
     seq (send_to_agent env (ProcCreate source oid (''<res '' @ pe_repr env oid @ ''>'')))
     (seq (send_to_agent env (ProcResult \<lparr>result_taskId = t, resultType = rt, result_metadata = [], result_objects = [oid]\<rparr>))
          (modify (\<lambda>s. s\<lparr>pr_current_task := None\<rparr>))))"

definition process_task :: "('v, 'z) proc_env \<Rightarrow> Task \<Rightarrow> (unit, 'v, 'z) proc_step" where
  "process_task env task =
     andthen (of_sum (retrieve_task_flags (task_metadata task))) (\<lambda>flags.
     andthen (\<lambda>s. case call_function env task flags s of
                    Ret p s' \<Rightarrow> Ret (TR_success, p) s'
                  | Raise e s' \<Rightarrow> Ret (TR_failed, pe_failure env e) s'
                  | NoFuel \<Rightarrow> NoFuel) (\<lambda>(rt, p).
       send_result env (task_source task) (taskId task) rt p))"

definition on_received_task :: "('v, 'z) proc_env \<Rightarrow> Task \<Rightarrow> (unit, 'v, 'z) proc_step" where
  "on_received_task env task =
     seq (modify (\<lambda>s. s\<lparr>pr_current_task := Some task\<rparr>)) (seq (cache_required_object_ids env task) (process_task env task))"

datatype to_processor = ToProcDelete "ObjectID list" | ToProcTask Task | ToProcOther

fun on_connector_receive :: "('v, 'z) proc_env \<Rightarrow> to_processor \<Rightarrow> (unit, 'v, 'z) proc_step" where
  "on_connector_receive env (ToProcDelete oids) = for_each oids cache_del_object"
| "on_connector_receive env (ToProcTask task) = on_received_task env task"
| "on_connector_receive env ToProcOther = ret ()"

text \<open>\<open>__run_forever\<close> on the messages that arrive: an exception ends the process.\<close>

definition run_forever :: "('v, 'z) proc_env \<Rightarrow> to_processor list \<Rightarrow> (unit, 'v, 'z) proc_step" where
  "run_forever env ms = seq (agent_send env ProcInitialized) (for_each ms (on_connector_receive env))"

end
