(* ===== verification/ProcessorRuns.thy ===== *)
theory ProcessorRuns
  imports Processor
begin

text \<open>
  What a processor computes: whatever is in its cache, a task gives the result of calling the stored function on the stored
  arguments, as one evaluation over the stored bytes defines it.
\<close>

section \<open>The reference\<close>

definition decoded :: "('v, 'z) proc_env \<Rightarrow> 'z \<Rightarrow> bytes \<Rightarrow> py_exn + 'v" where
  "decoded env z p = (case pe_deserialize env z p of Inl e \<Rightarrow> Inl DeserializeObjectError | Inr v \<Rightarrow> Inr v)"

fun decoded_all :: "('v, 'z) proc_env \<Rightarrow> 'z \<Rightarrow> bytes list \<Rightarrow> py_exn + 'v list" where
  "decoded_all env z [] = Inr []"
| "decoded_all env z (p # ps) = (case decoded env z p of Inl e \<Rightarrow> Inl e | Inr v \<Rightarrow> map_sum id (\<lambda>vs. v # vs) (decoded_all env z ps))"

definition evaluated :: "('v, 'z) proc_env \<Rightarrow> 'z \<Rightarrow> bytes \<Rightarrow> bytes list \<Rightarrow> py_exn + bytes" where
  "evaluated env z pf ps =
     (case decoded env z pf of
        Inl e \<Rightarrow> Inl e
      | Inr f \<Rightarrow> (case decoded_all env z ps of
           Inl e \<Rightarrow> Inl e
         | Inr vs \<Rightarrow> (case pe_call env f vs of Inl e \<Rightarrow> Inl e | Inr v \<Rightarrow> pe_serialize env z v)))"

definition result_of :: "('v, 'z) proc_env \<Rightarrow> py_exn + bytes \<Rightarrow> TaskResultType \<times> bytes" where
  "result_of env r = (case r of Inl e \<Rightarrow> (TR_failed, pe_failure env e) | Inr p \<Rightarrow> (TR_success, p))"

section \<open>The cache\<close>

text \<open>
  \<open>content\<close> is what is ever stored under an id, \<open>ser\<close> the serializer of a client. An object is
  decoded with the serializer of the client whose digest its id carries.
\<close>

definition serializer_id :: "('v, 'z) proc_env \<Rightarrow> ClientID \<Rightarrow> ObjectID" where
  "serializer_id env c = pe_md5 env c @ pe_md5 env ''serializer''"

definition world_ok :: "('v, 'z) proc_env \<Rightarrow> ClientID set \<Rightarrow> (ClientID \<Rightarrow> 'z) \<Rightarrow> (ObjectID \<Rightarrow> bytes option) \<Rightarrow> bool" where
  "world_ok env C ser content \<longleftrightarrow> (\<forall>b. length (pe_md5 env b) = 16) \<and> inj_on (pe_md5 env) C \<and> (\<forall>c \<in> C. length c \<noteq> 32) \<and>
     (\<forall>c \<in> C. \<forall>p. content (serializer_id env c) = Some p \<longrightarrow> pe_loads env p = Inr (ser c))"

definition cache_ok :: "('v, 'z) proc_env \<Rightarrow> ClientID set \<Rightarrow> (ClientID \<Rightarrow> 'z) \<Rightarrow> (ObjectID \<Rightarrow> bytes option) \<Rightarrow> ('v, 'z) processor \<Rightarrow> bool" where
  "cache_ok env C ser content s \<longleftrightarrow> (\<forall>oid p. dict_get (pr_storage s) oid = Some p \<longrightarrow> content oid = Some p) \<and>
     (\<forall>c z. dict_get (pr_serializers s) c = Some z \<longrightarrow> c \<in> C \<and> z = ser c) \<and>
     (\<forall>oid r. dict_get (pr_cached_objects s) oid = Some r \<longrightarrow> \<not> object_is_serializer (pe_md5 env) oid \<and>
        (\<exists>c \<in> C. \<exists>p. object_is_owner (pe_md5 env) c oid \<and> content oid = Some p \<and> r = decoded env (ser c) p))"

text \<open>What a step of the cache left_in alone.\<close>

definition cache_step :: "('v, 'z) processor \<Rightarrow> ('v, 'z) processor \<Rightarrow> bool" where
  "cache_step s s' \<longleftrightarrow> pr_storage s' = pr_storage s \<and> pr_current_task s' = pr_current_task s \<and> pr_interrupted s' = pr_interrupted s \<and>
     pr_tags_used s' = pr_tags_used s \<and> pr_sends s' = pr_sends s \<and> pr_to_agent s' = pr_to_agent s \<and>
     (\<forall>c. dict_has (pr_serializers s) c \<longrightarrow> dict_has (pr_serializers s') c) \<and>
     (\<forall>oid. dict_has (pr_cached_objects s) oid \<longrightarrow> dict_has (pr_cached_objects s') oid)"

lemma cache_step_trans: "cache_step s t \<Longrightarrow> cache_step t u \<Longrightarrow> cache_step s u"
  by (simp add: cache_step_def)

lemma serializer_id_props:
  assumes "world_ok env C ser content" "c \<in> C"
  shows "generate_serializer_object_id (pe_md5 env) c = Inr (serializer_id env c)" "length (serializer_id env c) = 32"
    "object_is_serializer (pe_md5 env) (serializer_id env c)"
  using assms by (simp_all add: world_ok_def generate_serializer_object_id_def object_id_new_def serializer_id_def object_is_serializer_def object_tag_def)

definition fetch :: "('v, 'z) proc_env \<Rightarrow> ClientID \<Rightarrow> ObjectID \<Rightarrow> (unit, 'v, 'z) proc_step" where
  "fetch env c oid = andthen (gets (\<lambda>s. cache_has_object s oid)) (\<lambda>has. if has then ret () else andthen (storage_get env oid) (cache_add_object env c oid))"

lemma not_client:
  assumes "cache_ok env C ser content s" "world_ok env C ser content" "length oid = 32"
  shows "\<not> dict_has (pr_serializers s) oid"
proof
  assume "dict_has (pr_serializers s) oid"
  then obtain z where "dict_get (pr_serializers s) oid = Some z" by (auto simp: dict_has_iff)
  then have "oid \<in> C" using assms(1) by (simp add: cache_ok_def)
  then show False using assms(2,3) by (simp add: world_ok_def)
qed

lemma not_cached:
  assumes "cache_ok env C ser content s" "object_is_serializer (pe_md5 env) oid"
  shows "\<not> dict_has (pr_cached_objects s) oid"
proof
  assume "dict_has (pr_cached_objects s) oid"
  then obtain r where "dict_get (pr_cached_objects s) oid = Some r" by (auto simp: dict_has_iff)
  then show False using assms by (simp add: cache_ok_def)
qed

text \<open>A fetch that returns.\<close>

lemma fetch_cases:
  assumes "fetch env c oid s = Ret () s'" "\<not> dict_has (pr_serializers s) oid"
  shows "(dict_has (pr_cached_objects s) oid \<and> s' = s) \<or>
    (\<not> dict_has (pr_cached_objects s) oid \<and> (\<exists>p. dict_get (pr_storage s) oid = Some p \<and>
      cache_add_object env c oid p (s\<lparr>pr_requests := pr_requests s + 1, pr_downloads := pr_downloads s @ [oid]\<rparr>) = Ret () s'))"
  using assms by (auto simp: fetch_def cache_has_object_def storage_get_def andthen_run Let_def split: if_splits option.splits)

lemma fetch_serializer:
  assumes inv: "cache_ok env C ser content s" and w: "world_ok env C ser content" "c \<in> C" and run: "fetch env c (serializer_id env c) s = Ret () s'"
  shows "cache_ok env C ser content s' \<and> cache_step s s' \<and> dict_has (pr_serializers s') c"
proof -
  let ?sid = "serializer_id env c"
  note sid = serializer_id_props [OF w]
  obtain p where p: "dict_get (pr_storage s) ?sid = Some p"
    and add: "cache_add_object env c ?sid p (s\<lparr>pr_requests := pr_requests s + 1, pr_downloads := pr_downloads s @ [?sid]\<rparr>) = Ret () s'"
    using fetch_cases [OF run not_client [OF inv w(1) sid(2)]] not_cached [OF inv sid(3)] by auto
  have "content ?sid = Some p" using inv p by (simp add: cache_ok_def)
  then have "pe_loads env p = Inr (ser c)" using w by (simp add: world_ok_def)
  then have "s' = s\<lparr>pr_requests := pr_requests s + 1, pr_downloads := pr_downloads s @ [?sid], pr_serializers := dict_set c (ser c) (pr_serializers s)\<rparr>"
    using add sid(3) by (simp add: cache_add_object_def add_serializer_def of_sum_def)
  then show ?thesis using inv w(2) by (auto simp: cache_ok_def cache_step_def)
qed

text \<open>The serializer of the client is downloaded for every task, although the cache holds it.\<close>

lemma serializer_fetched_again:
  assumes inv: "cache_ok env C ser content s" and w: "world_ok env C ser content" "c \<in> C" and run: "fetch env c (serializer_id env c) s = Ret () s'"
  shows "pr_downloads s' = pr_downloads s @ [serializer_id env c]"
proof -
  let ?sid = "serializer_id env c"
  note sid = serializer_id_props [OF w]
  obtain p where "cache_add_object env c ?sid p (s\<lparr>pr_requests := pr_requests s + 1, pr_downloads := pr_downloads s @ [?sid]\<rparr>) = Ret () s'"
    using fetch_cases [OF run not_client [OF inv w(1) sid(2)]] not_cached [OF inv sid(3)] by auto
  then show ?thesis using sid(3) by (auto simp: cache_add_object_def add_serializer_def of_sum_def andthen_run split: sum.splits)
qed

lemma fetch_object:
  assumes inv: "cache_ok env C ser content s" and w: "world_ok env C ser content" "c \<in> C"
    and oid: "length oid = 32" "object_is_owner (pe_md5 env) c oid" "\<not> object_is_serializer (pe_md5 env) oid"
    and ser: "dict_has (pr_serializers s) c" and run: "fetch env c oid s = Ret () s'"
  shows "cache_ok env C ser content s' \<and> cache_step s s' \<and> dict_has (pr_cached_objects s') oid"
  using fetch_cases [OF run not_client [OF inv w(1) oid(1)]]
proof (elim disjE conjE exE)
  fix p
  assume p: "dict_get (pr_storage s) oid = Some p"
    and add: "cache_add_object env c oid p (s\<lparr>pr_requests := pr_requests s + 1, pr_downloads := pr_downloads s @ [oid]\<rparr>) = Ret () s'"
  have cont: "content oid = Some p" using inv p by (simp add: cache_ok_def)
  obtain z where "dict_get (pr_serializers s) c = Some z" using ser by (auto simp: dict_has_iff)
  then have z: "dict_get (pr_serializers s) c = Some (ser c)" using inv by (auto simp: cache_ok_def)
  have s': "s' = s\<lparr>pr_requests := pr_requests s + 1, pr_downloads := pr_downloads s @ [oid],
      pr_cached_objects := dict_set oid (decoded env (ser c) p) (pr_cached_objects s)\<rparr>"
    using add z oid(3) by (cases "pe_deserialize env (ser c) p")
      (simp_all add: cache_add_object_def get_serializer_def of_sum_def andthen_run try_except_run decoded_def)
  have "cache_ok env C ser content s'" using inv w(2) oid(2,3) cont unfolding s' by (auto simp: cache_ok_def)
  then show ?thesis unfolding s' by (simp add: cache_step_def)
qed (use inv in \<open>simp add: cache_step_def\<close>)

text \<open>A fetch of a stored object returns when the storage answers.\<close>

lemma fetch_returns:
  assumes w: "world_ok env C ser content" "c \<in> C" and inv: "cache_ok env C ser content s" and st: "dict_has (pr_storage s) oid"
    and ok: "pe_storage_ok env (pr_requests s)" and "object_is_serializer (pe_md5 env) oid \<Longrightarrow> oid = serializer_id env c"
  shows "\<exists>s'. fetch env c oid s = Ret () s' \<and> pr_requests s \<le> pr_requests s' \<and> pr_requests s' \<le> pr_requests s + 1"
proof (cases "cache_has_object s oid")
  case False
  obtain p where p: "dict_get (pr_storage s) oid = Some p" using st by (auto simp: dict_has_iff)
  then have "content oid = Some p" using inv by (simp add: cache_ok_def)
  then have "object_is_serializer (pe_md5 env) oid \<Longrightarrow> pe_loads env p = Inr (ser c)" using assms(6) w by (simp add: world_ok_def)
  then show ?thesis using False p ok
    by (auto simp: fetch_def storage_get_def cache_add_object_def add_serializer_def get_serializer_def of_sum_def andthen_run try_except_run
        split: sum.split option.split)
qed (simp add: fetch_def)

section \<open>Required objects\<close>

definition task_ids :: "Task \<Rightarrow> ObjectID list" where
  "task_ids task = funcObjectId task # map argument_data (functionArgs task)"

definition task_ok :: "('v, 'z) proc_env \<Rightarrow> ClientID set \<Rightarrow> Task \<Rightarrow> bool" where
  "task_ok env C task \<longleftrightarrow> task_source task \<in> C \<and> (\<forall>oid \<in> set (task_ids task).
     length oid = 32 \<and> object_is_owner (pe_md5 env) (task_source task) oid \<and> \<not> object_is_serializer (pe_md5 env) oid)"

lemma argument_ids_ok: "(\<forall>b \<in> set bs. length b = 32) \<Longrightarrow> argument_ids bs = Inr bs"
  by (induction bs) (simp_all add: object_id_new_def)

lemma cache_required_fetches:
  assumes "world_ok env C ser content" "task_ok env C task"
  shows "cache_required_object_ids env task = for_each (serializer_id env (task_source task) # task_ids task) (fetch env (task_source task))"
proof -
  have ids: "argument_ids (funcObjectId task # map argument_data (functionArgs task)) = Inr (task_ids task)"
    using argument_ids_ok [of "task_ids task"] assms(2) by (simp add: task_ok_def task_ids_def)
  have "required_object_ids env task = Inr (serializer_id env (task_source task) # task_ids task)"
    using serializer_id_props(1) [OF assms(1)] assms(2) by (simp only: required_object_ids_def ids task_ok_def) simp
  then show ?thesis by (simp add: cache_required_object_ids_def fetch_def [abs_def] of_sum_def andthen_def ret_def fun_eq_iff)
qed

lemma fetch_all:
  assumes w: "world_ok env C ser content" "c \<in> C" and inv: "cache_ok env C ser content s" "dict_has (pr_serializers s) c"
    and oids: "\<forall>oid \<in> set oids. length oid = 32 \<and> object_is_owner (pe_md5 env) c oid \<and> \<not> object_is_serializer (pe_md5 env) oid"
    and run: "for_each oids (fetch env c) s = Ret () s'"
  shows "cache_ok env C ser content s' \<and> cache_step s s' \<and> (\<forall>oid \<in> set oids. dict_has (pr_cached_objects s') oid)"
  using inv oids run
proof (induction oids arbitrary: s)
  case Nil
  then show ?case by (simp add: cache_step_def)
next
  case (Cons oid oids)
  obtain s1 where s1: "fetch env c oid s = Ret () s1" and rest: "for_each oids (fetch env c) s1 = Ret () s'"
    using Cons.prems(4) by (auto simp: seq_run split: outcome.splits)
  have a: "cache_ok env C ser content s1" "cache_step s s1" "dict_has (pr_cached_objects s1) oid"
    using fetch_object [OF Cons.prems(1) w _ _ _ Cons.prems(2) s1] Cons.prems(3) by simp_all
  then have "dict_has (pr_serializers s1) c" using Cons.prems(2) by (simp add: cache_step_def)
  then have "cache_ok env C ser content s' \<and> cache_step s1 s' \<and> (\<forall>oid \<in> set oids. dict_has (pr_cached_objects s') oid)"
    using Cons.IH [OF a(1) _ _ rest] Cons.prems(3) by simp
  then show ?case using a(2,3) cache_step_trans by (auto simp: cache_step_def)
qed

lemma fetch_required:
  assumes w: "world_ok env C ser content" and t: "task_ok env C task" and inv: "cache_ok env C ser content s"
    and run: "cache_required_object_ids env task s = Ret () s'"
  shows "cache_ok env C ser content s' \<and> cache_step s s' \<and> dict_has (pr_serializers s') (task_source task) \<and>
    (\<forall>oid \<in> set (task_ids task). dict_has (pr_cached_objects s') oid)"
proof -
  let ?c = "task_source task"
  have c: "?c \<in> C" using t by (simp add: task_ok_def)
  obtain s1 where s1: "fetch env ?c (serializer_id env ?c) s = Ret () s1" and rest: "for_each (task_ids task) (fetch env ?c) s1 = Ret () s'"
    using run by (auto simp: cache_required_fetches [OF w t] seq_run split: outcome.splits)
  note a = fetch_serializer [OF inv w c s1]
  have "cache_ok env C ser content s' \<and> cache_step s1 s' \<and> (\<forall>oid \<in> set (task_ids task). dict_has (pr_cached_objects s') oid)"
    by (rule fetch_all [OF w c _ _ _ rest]) (use a t in \<open>simp_all add: task_ok_def\<close>)
  then show ?thesis using a cache_step_trans by (auto simp: cache_step_def)
qed

lemma fetch_all_returns:
  assumes w: "world_ok env C ser content" "c \<in> C" and inv: "cache_ok env C ser content s" "dict_has (pr_serializers s) c"
    and oids: "\<forall>oid \<in> set oids. length oid = 32 \<and> object_is_owner (pe_md5 env) c oid \<and> \<not> object_is_serializer (pe_md5 env) oid"
    and st: "\<forall>oid \<in> set oids. dict_has (pr_storage s) oid"
    and ok: "\<forall>n < pr_requests s + length oids. pr_requests s \<le> n \<longrightarrow> pe_storage_ok env n"
  shows "\<exists>s'. for_each oids (fetch env c) s = Ret () s'"
  using inv oids st ok
proof (induction oids arbitrary: s)
  case (Cons oid oids)
  obtain s1 where s1: "fetch env c oid s = Ret () s1" "pr_requests s \<le> pr_requests s1" "pr_requests s1 \<le> pr_requests s + 1"
    using fetch_returns [OF w Cons.prems(1), of oid] Cons.prems(3-5) by auto
  have a: "cache_ok env C ser content s1" "cache_step s s1"
    using fetch_object [OF Cons.prems(1) w _ _ _ Cons.prems(2) s1(1)] Cons.prems(3) by simp_all
  have "\<exists>s'. for_each oids (fetch env c) s1 = Ret () s'"
  proof (rule Cons.IH [OF a(1)])
    show "dict_has (pr_serializers s1) c" "\<forall>oid \<in> set oids. dict_has (pr_storage s1) oid"
      using a(2) Cons.prems(2,4) by (simp_all add: cache_step_def)
  qed (use Cons.prems(3,5) s1(2,3) in auto)
  then show ?case using s1(1) by auto
qed simp

lemma required_returns:
  assumes w: "world_ok env C ser content" and t: "task_ok env C task" and inv: "cache_ok env C ser content s"
    and st: "\<forall>oid \<in> set (serializer_id env (task_source task) # task_ids task). dict_has (pr_storage s) oid"
    and ok: "\<forall>n < pr_requests s + length (task_ids task) + 1. pr_requests s \<le> n \<longrightarrow> pe_storage_ok env n"
  shows "\<exists>s'. cache_required_object_ids env task s = Ret () s'"
proof -
  let ?c = "task_source task"
  have c: "?c \<in> C" using t by (simp add: task_ok_def)
  obtain s1 where s1: "fetch env ?c (serializer_id env ?c) s = Ret () s1" "pr_requests s \<le> pr_requests s1" "pr_requests s1 \<le> pr_requests s + 1"
    using fetch_returns [OF w c inv, of "serializer_id env ?c"] st ok by auto
  note a = fetch_serializer [OF inv w c s1(1)]
  have "\<exists>s'. for_each (task_ids task) (fetch env ?c) s1 = Ret () s'"
    by (rule fetch_all_returns [OF w c]) (use a t st ok s1(2,3) in \<open>auto simp: task_ok_def cache_step_def\<close>)
  then show ?thesis using s1(1) by (auto simp: cache_required_fetches [OF w t])
qed

section \<open>The call\<close>

lemma cached_value:
  assumes w: "world_ok env C ser content" and inv: "cache_ok env C ser content s" and c: "c \<in> C"
    and oid: "object_is_owner (pe_md5 env) c oid" "dict_has (pr_cached_objects s) oid" "content oid = Some p"
  shows "cache_get_object oid s = of_sum (decoded env (ser c) p) s"
proof -
  obtain r where r: "dict_get (pr_cached_objects s) oid = Some r" using oid(2) by (auto simp: dict_has_iff)
  then obtain d where d: "d \<in> C" "object_is_owner (pe_md5 env) d oid" "r = decoded env (ser d) p"
    using inv oid(3) unfolding cache_ok_def by fastforce
  have "pe_md5 env c = pe_md5 env d" using oid(1) d(2) by (simp add: object_is_owner_def)
  then have "c = d" using w c d(1) by (auto simp: world_ok_def dest: inj_onD)
  then show ?thesis using r d(3) by (simp add: cache_get_object_def of_sum_def split: sum.split)
qed

lemma cached_arguments:
  assumes w: "world_ok env C ser content" and inv: "cache_ok env C ser content s" and c: "c \<in> C"
    and bs: "\<forall>b \<in> set bs. length b = 32 \<and> object_is_owner (pe_md5 env) c b \<and> dict_has (pr_cached_objects s) b"
    and ps: "list_all2 (\<lambda>b p. content b = Some p) bs ps"
  shows "get_arguments bs s = of_sum (decoded_all env (ser c) ps) s"
  using ps bs
proof (induction bs ps rule: list_all2_induct)
  case Nil
  then show ?case by (simp add: of_sum_def)
next
  case (Cons b bs p ps)
  have "cache_get_object b s = of_sum (decoded env (ser c) p) s"
    by (rule cached_value [OF w inv c]) (use Cons in simp_all)
  moreover have "get_arguments bs s = of_sum (decoded_all env (ser c) ps) s" using Cons by simp
  ultimately show ?case using Cons.prems by (simp add: of_sum_def object_id_new_def andthen_run split: sum.split)
qed

text \<open>Only the output of the task is sent while it runs.\<close>

definition logged :: "TaskID \<Rightarrow> ('v, 'z) processor \<Rightarrow> processor_out list \<Rightarrow> ('v, 'z) processor \<Rightarrow> bool" where
  "logged t s logs s' \<longleftrightarrow> (\<exists>n. s' = s\<lparr>pr_sends := n, pr_to_agent := pr_to_agent s @ logs\<rparr>) \<and> (\<forall>m \<in> set logs. \<exists>b d. m = ProcLog t b d)"

lemma stream_logged: "\<exists>logs s'. for_each outs (stream_write env t) s = Ret () s' \<and> logged t s logs s'"
proof (induction outs arbitrary: s)
  case Nil
  have "logged t s [] s" by (auto simp: logged_def intro: exI [of _ "pr_sends s"])
  then show ?case by auto
next
  case (Cons out outs)
  obtain n ms where ms: "stream_write env t out s = Ret () (s\<lparr>pr_sends := n, pr_to_agent := pr_to_agent s @ ms\<rparr>)" "\<forall>m \<in> set ms. \<exists>b d. m = ProcLog t b d"
  proof (cases "snd out = [] \<or> \<not> pe_agent_ok env (pr_sends s)")
    case True
    then have "stream_write env t out s = Ret () (s\<lparr>pr_sends := if snd out = [] then pr_sends s else pr_sends s + 1, pr_to_agent := pr_to_agent s @ []\<rparr>)"
      by (auto simp: stream_write_def try_except_run agent_send_def)
    then show ?thesis using that by fastforce
  next
    case False
    then show ?thesis using that [of "[ProcLog t (fst out) (snd out)]" "pr_sends s + 1"] by (simp add: stream_write_def try_except_run agent_send_def)
  qed
  obtain logs s' where "for_each outs (stream_write env t) (s\<lparr>pr_sends := n, pr_to_agent := pr_to_agent s @ ms\<rparr>) = Ret () s'"
    "logged t (s\<lparr>pr_sends := n, pr_to_agent := pr_to_agent s @ ms\<rparr>) logs s'" using Cons.IH by blast
  then have "for_each (out # outs) (stream_write env t) s = Ret () s' \<and> logged t s (ms @ logs) s'"
    using ms by (auto simp: logged_def)
  then show ?case by blast
qed

text \<open>The call computes the reference.\<close>

lemma call_evaluates:
  assumes w: "world_ok env C ser content" and t: "task_ok env C task" and inv: "cache_ok env C ser content s" "dict_has (pr_serializers s) (task_source task)"
    and cached: "\<forall>oid \<in> set (task_ids task). dict_has (pr_cached_objects s) oid"
    and pf: "content (funcObjectId task) = Some pf" and ps: "list_all2 (\<lambda>a p. content (argument_data a) = Some p) (functionArgs task) ps"
  shows "\<exists>logs s'. call_function env task flags s = of_sum (evaluated env (ser (task_source task)) pf ps) s' \<and> logged (taskId task) s logs s' \<and>
    (\<not> flag_stream_output flags \<longrightarrow> logs = [])"
proof -
  let ?c = "task_source task"
  have c: "?c \<in> C" using t by (simp add: task_ok_def)
  have f: "cache_get_object (funcObjectId task) s = of_sum (decoded env (ser ?c) pf) s"
    by (rule cached_value [OF w inv(1) c]) (use t cached pf in \<open>simp_all add: task_ok_def task_ids_def\<close>)
  have "list_all2 (\<lambda>b p. content b = Some p) (map argument_data (functionArgs task)) ps" using ps by (simp add: list_all2_map1)
  then have a: "get_arguments (map argument_data (functionArgs task)) s = of_sum (decoded_all env (ser ?c) ps) s"
    by (intro cached_arguments [OF w inv(1) c]) (use t cached in \<open>auto simp: task_ok_def task_ids_def\<close>)
  have fid: "object_id_new (funcObjectId task) = Inr (funcObjectId task)" using t by (simp add: task_ok_def task_ids_def object_id_new_def)
  obtain z where "dict_get (pr_serializers s) ?c = Some z" using inv(2) by (auto simp: dict_has_iff)
  then have z: "dict_get (pr_serializers s) ?c = Some (ser ?c)" using inv(1) by (auto simp: cache_ok_def)
  have none: "logged (taskId task) s [] s" by (auto simp: logged_def intro: exI [of _ "pr_sends s"])
  show ?thesis
  proof (cases "decoded env (ser ?c) pf")
    case (Inl e)
    then show ?thesis using f fid none by (auto simp: call_function_def of_sum_def evaluated_def andthen_run)
  next
    case f': (Inr fn)
    show ?thesis
    proof (cases "decoded_all env (ser ?c) ps")
      case (Inl e)
      then show ?thesis using f f' fid a none by (auto simp: call_function_def of_sum_def evaluated_def andthen_run)
    next
      case (Inr vs)
      obtain logs s' where s': "(if flag_stream_output flags then for_each (pe_output env fn vs) (stream_write env (taskId task)) else ret ()) s = Ret () s'"
        "logged (taskId task) s logs s'" "\<not> flag_stream_output flags \<longrightarrow> logs = []"
        using stream_logged [of "pe_output env fn vs" env "taskId task" s] none by (cases "flag_stream_output flags") auto
      have "pr_serializers s' = pr_serializers s" using s'(2) by (auto simp: logged_def)
      then have "call_function env task flags s = of_sum (evaluated env (ser ?c) pf ps) s'"
        using f f' fid a Inr s'(1) z
        by (simp add: call_function_def of_sum_def evaluated_def andthen_run cache_serialize_def get_serializer_def seq_run split: sum.split)
      then show ?thesis using s'(2,3) by blast
    qed
  qed
qed

section \<open>The hand-off\<close>

lemma send_survives:
  assumes "\<not> pr_interrupted s" "k \<le> n" "pe_agent_ok env (pr_sends s + k)"
  shows "\<exists>m. hand_off n (agent_send env x) s = Ret () (s\<lparr>pr_sends := m, pr_to_agent := pr_to_agent s @ [x]\<rparr>)"
  using assms
proof (induction n arbitrary: s k)
  case 0
  then show ?case by (auto simp: agent_send_def)
next
  case (Suc n)
  show ?case
  proof (cases "pe_agent_ok env (pr_sends s)")
    case False
    then obtain j where j: "k = Suc j" using Suc.prems(3) by (cases k) auto
    then have "\<exists>m. hand_off n (agent_send env x) (s\<lparr>pr_sends := pr_sends s + 1\<rparr>) = Ret () (s\<lparr>pr_sends := m, pr_to_agent := pr_to_agent s @ [x]\<rparr>)"
      using Suc.IH [of "s\<lparr>pr_sends := pr_sends s + 1\<rparr>" j] Suc.prems by simp
    moreover have "agent_send env x s = Raise YMQError (s\<lparr>pr_sends := pr_sends s + 1\<rparr>)" using False by (simp add: agent_send_def)
    ultimately show ?thesis using Suc.prems(1) by simp
  qed (auto simp: agent_send_def)
qed

lemma store_once_run:
  assumes "length (pe_md5 env c) = 16" "length (pe_tag env (pr_tags_used s)) = 16"
  shows "store_once env c p s =
    (let oid = pe_md5 env c @ pe_tag env (pr_tags_used s); s1 = s\<lparr>pr_tags_used := pr_tags_used s + 1, pr_requests := pr_requests s + 1\<rparr>
     in if pe_storage_ok env (pr_requests s) then Ret oid (s1\<lparr>pr_storage := dict_set oid p (pr_storage s)\<rparr>) else Raise StorageError s1)"
  using assms by (simp add: store_once_def generate_object_id_def object_id_new_def of_sum_def storage_set_def andthen_run seq_run Let_def)

lemma store_survives:
  assumes "\<not> pr_interrupted s" "k \<le> n" "pe_storage_ok env (pr_requests s + k)" and len: "length (pe_md5 env c) = 16" "\<And>j. length (pe_tag env j) = 16"
  shows "\<exists>m r i. hand_off n (store_once env c p) s =
    Ret (pe_md5 env c @ pe_tag env i) (s\<lparr>pr_tags_used := m, pr_requests := r, pr_storage := dict_set (pe_md5 env c @ pe_tag env i) p (pr_storage s)\<rparr>)"
  using assms(1-3)
proof (induction n arbitrary: s k)
  case 0
  then show ?case by (auto simp: store_once_run len Let_def)
next
  case (Suc n)
  show ?case
  proof (cases "pe_storage_ok env (pr_requests s)")
    case True
    then show ?thesis by (auto simp: store_once_run len Let_def)
  next
    case False
    let ?s = "s\<lparr>pr_tags_used := pr_tags_used s + 1, pr_requests := pr_requests s + 1\<rparr>"
    obtain j where j: "k = Suc j" using False Suc.prems(3) by (cases k) auto
    have "\<exists>m r i. hand_off n (store_once env c p) ?s =
        Ret (pe_md5 env c @ pe_tag env i) (s\<lparr>pr_tags_used := m, pr_requests := r, pr_storage := dict_set (pe_md5 env c @ pe_tag env i) p (pr_storage s)\<rparr>)"
      using Suc.IH [of ?s j] Suc.prems j by simp
    moreover have "store_once env c p s = Raise StorageError ?s" using False by (simp add: store_once_run len Let_def)
    ultimately show ?thesis using Suc.prems(1) by simp
  qed
qed

section \<open>Histories\<close>

text \<open>
  \<open>I\<close> holds through a computation when it holds in the state that is left, however it ends; \<open>B\<close> has to hold if it waits for ever.
\<close>

fun left_in :: "bool \<Rightarrow> (('v, 'z) processor \<Rightarrow> bool) \<Rightarrow> ('a, ('v, 'z) processor) outcome \<Rightarrow> bool" where
  "left_in B I (Ret _ s) = I s"
| "left_in B I (Raise _ s) = I s"
| "left_in B I NoFuel = B"

definition through :: "bool \<Rightarrow> (('v, 'z) processor \<Rightarrow> bool) \<Rightarrow> ('a, 'v, 'z) proc_step \<Rightarrow> bool" where
  "through B I m \<longleftrightarrow> (\<forall>s. I s \<longrightarrow> left_in B I (m s))"

lemma throughD: "through B I m \<Longrightarrow> I s \<Longrightarrow> left_in B I (m s)"
  by (simp add: through_def)

named_theorems through_intros

lemma through_ret [through_intros]: "through B I (ret a)"
  by (simp add: through_def)

lemma through_of_sum [through_intros]: "through B I (of_sum r)"
  by (simp add: through_def of_sum_def split: sum.split)

lemma through_gets [through_intros]: "through B I (gets f)"
  by (simp add: through_def)

lemma through_andthen [through_intros]: "through B I m \<Longrightarrow> (\<And>a. through B I (f a)) \<Longrightarrow> through B I (andthen m f)"
proof (unfold through_def, intro allI impI)
  fix s
  assume k: "\<forall>s. I s \<longrightarrow> left_in B I (m s)" "\<And>a. \<forall>s. I s \<longrightarrow> left_in B I (f a s)" and "I s"
  then have "left_in B I (m s)" by blast
  then show "left_in B I (andthen m f s)" using k(2) by (cases "m s") (simp_all add: andthen_run)
qed

lemma through_seq [through_intros]: "through B I m \<Longrightarrow> through B I n \<Longrightarrow> through B I (seq m n)"
  by (simp add: seq_def through_andthen)

lemma through_try [through_intros]: "through B I m \<Longrightarrow> through B I h \<Longrightarrow> through B I (try_except m h)"
proof (unfold through_def, intro allI impI)
  fix s
  assume k: "\<forall>s. I s \<longrightarrow> left_in B I (m s)" "\<forall>s. I s \<longrightarrow> left_in B I (h s)" and "I s"
  then have "left_in B I (m s)" by blast
  then show "left_in B I (try_except m h s)" using k(2) by (cases "m s") (simp_all add: try_except_run)
qed

lemma through_if [through_intros]: "(b \<Longrightarrow> through B I m) \<Longrightarrow> (\<not> b \<Longrightarrow> through B I n) \<Longrightarrow> through B I (if b then m else n)"
  by simp

lemma through_for_each [through_intros]: "(\<And>x. x \<in> set xs \<Longrightarrow> through B I (f x)) \<Longrightarrow> through B I (for_each xs f)"
  by (induction xs) (simp_all add: through_ret through_seq)

lemma through_hand_off [through_intros]: "through B I m \<Longrightarrow> through B I (hand_off n m)"
proof (induction n)
  case 0
  have "left_in B I (hand_off 0 m s)" if "I s" for s using throughD [OF 0 that] by (cases "m s") simp_all
  then show ?case by (simp add: through_def)
next
  case (Suc n)
  have IH: "through B I (hand_off n m)" by (rule Suc.IH [OF Suc.prems])
  have "left_in B I (hand_off (Suc n) m s)" if "I s" for s
    using throughD [OF Suc.prems that] throughD [OF IH] by (cases "m s") simp_all
  then show ?case by (simp add: through_def)
qed

lemma through_get_serializer [through_intros]: "through B I (get_serializer c)"
  by (simp add: through_def get_serializer_def split: option.split)

lemma through_cache_get [through_intros]: "through B I (cache_get_object oid)"
  by (simp add: through_def cache_get_object_def split: option.split sum.split)

lemma through_get_arguments [through_intros]: "through B I (get_arguments bs)"
proof (induction bs)
  case (Cons b bs)
  then show ?case unfolding get_arguments.simps by (intro through_intros)
qed (simp add: through_def)

lemma through_cache_serialize [through_intros]: "through B I (cache_serialize env c v)"
  by (auto simp: cache_serialize_def intro!: through_intros)

lemma through_agent_send:
  "(\<And>s. I s \<Longrightarrow> I (s\<lparr>pr_sends := pr_sends s + 1\<rparr>)) \<Longrightarrow>
   (\<And>s. I s \<Longrightarrow> I (s\<lparr>pr_sends := pr_sends s + 1, pr_to_agent := pr_to_agent s @ [m]\<rparr>)) \<Longrightarrow> through B I (agent_send env m)"
  by (simp add: through_def agent_send_def Let_def)

lemma through_store_once:
  assumes "\<And>s n. I s \<Longrightarrow> I (s\<lparr>pr_tags_used := n\<rparr>)" "\<And>s r. I s \<Longrightarrow> I (s\<lparr>pr_requests := r\<rparr>)" "\<And>s st. I s \<Longrightarrow> I (s\<lparr>pr_storage := st\<rparr>)"
  shows "through B I (store_once env c p)"
  unfolding store_once_def using assms
  by (intro through_intros) (simp_all add: through_def storage_set_def Let_def)

definition caches_are :: "(ClientID, 'z) dict \<Rightarrow> (ObjectID, py_exn + 'v) dict \<Rightarrow> ('v, 'z) processor \<Rightarrow> bool" where
  "caches_are a b s \<longleftrightarrow> pr_serializers s = a \<and> pr_cached_objects s = b"

lemma caches_agent_send [through_intros]: "through B (caches_are a b) (agent_send env m)"
  by (rule through_agent_send) (simp_all add: caches_are_def)

lemma caches_store_once [through_intros]: "through B (caches_are a b) (store_once env c p)"
  by (rule through_store_once) (simp_all add: caches_are_def)

lemma caches_call: "through B (caches_are a b) (call_function env task flags)"
  by (auto simp: call_function_def stream_write_def intro!: through_intros)

lemma caches_send_result: "through B (caches_are a b) (send_result env c t rt p)"
  by (auto simp: send_result_def store_result_def send_to_agent_def intro!: through_intros) (simp add: through_def caches_are_def)

lemma caches_process_task: "through B (caches_are a b) (process_task env task)"
  unfolding process_task_def
proof (intro through_andthen through_of_sum)
  fix flags
  show "through B (caches_are a b) (\<lambda>s. case call_function env task flags s of Ret p s' \<Rightarrow> Ret (TR_success, p) s'
      | Raise e s' \<Rightarrow> Ret (TR_failed, pe_failure env e) s' | NoFuel \<Rightarrow> NoFuel)"
    using caches_call [of B a b env task flags] by (auto simp: through_def split: outcome.splits)
qed (simp add: caches_send_result split: prod.split)

text \<open>
  The runs of a processor: between messages the storage changes as it likes, as long as an id only ever holds one content, and
  the agent may ask for the end; the tasks a processor gets name objects of their client.
\<close>

definition consistent :: "(ObjectID \<Rightarrow> bytes option) \<Rightarrow> (ObjectID, bytes) dict \<Rightarrow> bool" where
  "consistent content d \<longleftrightarrow> (\<forall>oid p. dict_get d oid = Some p \<longrightarrow> content oid = Some p)"

fun message_ok :: "('v, 'z) proc_env \<Rightarrow> ClientID set \<Rightarrow> to_processor \<Rightarrow> bool" where
  "message_ok env C (ToProcTask task) = task_ok env C task"
| "message_ok env C m = True"

definition processor_init :: "('v, 'z) processor" where
  "processor_init = \<lparr>pr_serializers = [], pr_cached_objects = [], pr_current_task = None, pr_interrupted = False, pr_storage = [],
     pr_tags_used = 0, pr_requests = 0, pr_sends = 0, pr_downloads = [], pr_to_agent = []\<rparr>"

inductive proc_reach :: "('v, 'z) proc_env \<Rightarrow> ClientID set \<Rightarrow> (ObjectID \<Rightarrow> bytes option) \<Rightarrow> ('v, 'z) processor \<Rightarrow> bool"
  for env C content where
  proc_start: "agent_send env ProcInitialized processor_init = Ret () s \<Longrightarrow> proc_reach env C content s"
| proc_storage: "proc_reach env C content s \<Longrightarrow> consistent content d \<Longrightarrow> proc_reach env C content (s\<lparr>pr_storage := d\<rparr>)"
| proc_interrupt: "proc_reach env C content s \<Longrightarrow> proc_reach env C content (s\<lparr>pr_interrupted := True\<rparr>)"
| proc_message: "proc_reach env C content s \<Longrightarrow> message_ok env C m \<Longrightarrow> on_connector_receive env m s = Ret () s' \<Longrightarrow>
    consistent content (pr_storage s') \<Longrightarrow> proc_reach env C content s'"

lemma deletes_keep:
  assumes "cache_ok env C ser content s" "for_each oids cache_del_object s = Ret () s'"
  shows "cache_ok env C ser content s'"
  using assms
proof (induction oids arbitrary: s)
  case (Cons oid oids)
  have "cache_ok env C ser content (s\<lparr>pr_cached_objects := dict_pop oid (pr_cached_objects s)\<rparr>)"
    using Cons.prems(1) by (simp add: cache_ok_def dict_simps)
  then show ?case using Cons by (simp add: cache_del_object_def)
qed simp

lemma task_keeps:
  assumes w: "world_ok env C ser content" and t: "task_ok env C task" and inv: "cache_ok env C ser content s"
    and run: "on_received_task env task s = Ret () s'" and st: "consistent content (pr_storage s')"
  shows "cache_ok env C ser content s'"
proof -
  obtain s1 where s1: "cache_required_object_ids env task (s\<lparr>pr_current_task := Some task\<rparr>) = Ret () s1" and rest: "process_task env task s1 = Ret () s'"
    using run by (auto simp: on_received_task_def seq_run split: outcome.splits)
  have "cache_ok env C ser content (s\<lparr>pr_current_task := Some task\<rparr>)" using inv by (simp add: cache_ok_def)
  then have "cache_ok env C ser content s1" using fetch_required [OF w t _ s1] by blast
  moreover have "caches_are (pr_serializers s1) (pr_cached_objects s1) s'"
    using caches_process_task [of True "pr_serializers s1" "pr_cached_objects s1" env task] rest
    unfolding through_def by (force simp: caches_are_def)
  ultimately show ?thesis using st by (simp add: cache_ok_def caches_are_def consistent_def)
qed

lemma proc_reach_ok:
  assumes "proc_reach env C content s" and w: "world_ok env C ser content"
  shows "cache_ok env C ser content s"
  using assms(1)
proof induction
  case (proc_start s)
  then show ?case by (auto simp: agent_send_def processor_init_def cache_ok_def Let_def split: if_splits)
next
  case (proc_storage s d)
  then show ?case by (simp add: cache_ok_def consistent_def)
next
  case (proc_interrupt s)
  then show ?case by (simp add: cache_ok_def)
next
  case (proc_message s m s')
  show ?case
  proof (cases m)
    case (ToProcDelete oids)
    then show ?thesis using proc_message by (auto intro: deletes_keep)
  next
    case (ToProcTask task)
    have "task_ok env C task" "on_received_task env task s = Ret () s'" using proc_message.hyps unfolding ToProcTask by simp_all
    then show ?thesis using task_keeps [OF w] proc_message.IH proc_message.hyps(4) by blast
  next
    case ToProcOther
    then show ?thesis using proc_message by simp
  qed
qed

section \<open>A task\<close>

lemma send_result_survives:
  assumes st: "\<exists>k \<le> 3. pe_storage_ok env (pr_requests s + k)" and ag: "\<And>n. \<exists>k \<le> 3. pe_agent_ok env (n + k)" and int: "\<not> pr_interrupted s"
    and len: "length (pe_md5 env c) = 16" "\<And>j. length (pe_tag env j) = 16"
  shows "\<exists>i s'. send_result env c t rt p s = Ret () s' \<and> pr_current_task s' = None \<and>
    dict_get (pr_storage s') (pe_md5 env c @ pe_tag env i) = Some p \<and>
    pr_to_agent s' = pr_to_agent s @
      [ProcCreate c (pe_md5 env c @ pe_tag env i) (''<res '' @ pe_repr env (pe_md5 env c @ pe_tag env i) @ ''>''),
       ProcResult \<lparr>result_taskId = t, resultType = rt, result_metadata = [], result_objects = [pe_md5 env c @ pe_tag env i]\<rparr>]"
proof -
  obtain k where k: "k \<le> 3" "pe_storage_ok env (pr_requests s + k)" using st by blast
  obtain m r i where s1: "store_result env c p s = Ret (pe_md5 env c @ pe_tag env i)
      (s\<lparr>pr_tags_used := m, pr_requests := r, pr_storage := dict_set (pe_md5 env c @ pe_tag env i) p (pr_storage s)\<rparr>)"
    using store_survives [OF int k len] unfolding store_result_def retries_def by blast
  let ?oid = "pe_md5 env c @ pe_tag env i"
  let ?s1 = "s\<lparr>pr_tags_used := m, pr_requests := r, pr_storage := dict_set ?oid p (pr_storage s)\<rparr>"
  have send: "\<exists>m. send_to_agent env x u = Ret () (u\<lparr>pr_sends := m, pr_to_agent := pr_to_agent u @ [x]\<rparr>)" if "\<not> pr_interrupted u" for u x
    using ag [of "pr_sends u"] send_survives [OF that] unfolding send_to_agent_def retries_def by blast
  let ?create = "ProcCreate c ?oid (''<res '' @ pe_repr env ?oid @ ''>'')"
  obtain a where s2: "send_to_agent env ?create ?s1 = Ret () (?s1\<lparr>pr_sends := a, pr_to_agent := pr_to_agent ?s1 @ [?create]\<rparr>)"
    using send [of ?s1] int by force
  let ?s2 = "?s1\<lparr>pr_sends := a, pr_to_agent := pr_to_agent ?s1 @ [?create]\<rparr>"
  let ?res = "ProcResult \<lparr>result_taskId = t, resultType = rt, result_metadata = [], result_objects = [?oid]\<rparr>"
  obtain b where s3: "send_to_agent env ?res ?s2 = Ret () (?s2\<lparr>pr_sends := b, pr_to_agent := pr_to_agent ?s2 @ [?res]\<rparr>)"
    using send [of ?s2] int by force
  have "send_result env c t rt p s = Ret () (?s2\<lparr>pr_sends := b, pr_to_agent := pr_to_agent ?s2 @ [?res], pr_current_task := None\<rparr>)"
    by (simp only: send_result_def andthen_run seq_run s1 s2 s3 outcome.case modify_run)
  then show ?thesis by (intro exI conjI) (assumption, simp_all)
qed

text \<open>
  The storage answers the next \<open>n\<close> requests, and of four attempts to store or to send one succeeds.
\<close>

definition transport_ok :: "('v, 'z) proc_env \<Rightarrow> nat \<Rightarrow> ('v, 'z) processor \<Rightarrow> bool" where
  "transport_ok env n s \<longleftrightarrow> (\<forall>i < pr_requests s + n. pr_requests s \<le> i \<longrightarrow> pe_storage_ok env i) \<and> \<not> pr_interrupted s \<and>
     (\<forall>i. \<exists>k \<le> 3. pe_storage_ok env (i + k)) \<and> (\<forall>i. \<exists>k \<le> 3. pe_agent_ok env (i + k)) \<and> (\<forall>i. length (pe_tag env i) = 16)"

text \<open>The result is stored and announced before it is sent, after what the task printed if that is wanted.\<close>

definition answered_with :: "('v, 'z) proc_env \<Rightarrow> Task \<Rightarrow> bool \<Rightarrow> TaskResultType \<times> bytes \<Rightarrow> ('v, 'z) processor \<Rightarrow> ('v, 'z) processor \<Rightarrow> bool" where
  "answered_with env task stream res s s' \<longleftrightarrow> pr_current_task s' = None \<and>
     (\<exists>i logs. let oid = pe_md5 env (task_source task) @ pe_tag env i in
        dict_get (pr_storage s') oid = Some (snd res) \<and>
        pr_to_agent s' = pr_to_agent s @ logs @ [ProcCreate (task_source task) oid (''<res '' @ pe_repr env oid @ ''>''),
          ProcResult \<lparr>result_taskId = taskId task, resultType = fst res, result_metadata = [], result_objects = [oid]\<rparr>] \<and>
        (\<forall>m \<in> set logs. \<exists>b d. m = ProcLog (taskId task) b d) \<and> (\<not> stream \<longrightarrow> logs = []))"

lemma task_result_sent:
  assumes reach: "proc_reach env C content s" and w: "world_ok env C ser content" and t: "task_ok env C task"
    and flags: "retrieve_task_flags (task_metadata task) = Inr flags"
    and sid: "dict_has (pr_storage s) (serializer_id env (task_source task))"
    and pf: "dict_get (pr_storage s) (funcObjectId task) = Some pf"
    and ps: "list_all2 (\<lambda>a p. dict_get (pr_storage s) (argument_data a) = Some p) (functionArgs task) ps"
    and tr: "transport_ok env (length (functionArgs task) + 2) s"
  shows "\<exists>s'. on_received_task env task s = Ret () s' \<and>
    answered_with env task (flag_stream_output flags) (result_of env (evaluated env (ser (task_source task)) pf ps)) s s'"
proof -
  let ?c = "task_source task" and ?s = "s\<lparr>pr_current_task := Some task\<rparr>"
  have ok: "\<forall>n < pr_requests s + length (functionArgs task) + 2. pr_requests s \<le> n \<longrightarrow> pe_storage_ok env n" and int: "\<not> pr_interrupted s"
    and st: "\<And>n. \<exists>k \<le> 3. pe_storage_ok env (n + k)" and ag: "\<And>n. \<exists>k \<le> 3. pe_agent_ok env (n + k)" and len: "\<And>j. length (pe_tag env j) = 16"
    using tr by (auto simp: transport_ok_def)
  obtain rt p where rp: "result_of env (evaluated env (ser ?c) pf ps) = (rt, p)" by (cases "result_of env (evaluated env (ser ?c) pf ps)")
  have inv: "cache_ok env C ser content ?s" using proc_reach_ok [OF reach w] by (simp add: cache_ok_def)
  have args: "\<forall>a \<in> set (functionArgs task). dict_has (pr_storage s) (argument_data a)"
    using ps by (auto simp: list_all2_conv_all_nth in_set_conv_nth dict_has_iff)
  have "\<exists>s1. cache_required_object_ids env task ?s = Ret () s1"
    by (rule required_returns [OF w t inv]) (use sid pf args ok in \<open>auto simp: task_ids_def dict_has_iff\<close>)
  then obtain s1 where s1: "cache_required_object_ids env task ?s = Ret () s1" by blast
  have b: "cache_ok env C ser content s1" "cache_step ?s s1" "dict_has (pr_serializers s1) ?c" "\<forall>oid \<in> set (task_ids task). dict_has (pr_cached_objects s1) oid"
    using fetch_required [OF w t inv s1] by simp_all
  have pf': "content (funcObjectId task) = Some pf" using inv pf by (simp add: cache_ok_def)
  have ps': "list_all2 (\<lambda>a p. content (argument_data a) = Some p) (functionArgs task) ps"
    using ps by (rule list_all2_mono) (use inv in \<open>simp add: cache_ok_def\<close>)
  obtain logs s2 where s2: "call_function env task flags s1 = of_sum (evaluated env (ser ?c) pf ps) s2" "logged (taskId task) s1 logs s2"
    "\<not> flag_stream_output flags \<longrightarrow> logs = []"
    using call_evaluates [OF w t b(1,3,4) pf' ps', of flags] by blast
  have "process_task env task s1 = send_result env ?c (taskId task) rt p s2"
    using rp flags s2(1) by (auto simp: process_task_def of_sum_def andthen_run result_of_def split: sum.splits)
  then have run: "on_received_task env task s = send_result env ?c (taskId task) rt p s2"
    using s1 by (simp add: on_received_task_def)
  have "\<not> pr_interrupted s2" "pr_to_agent s2 = pr_to_agent s @ logs" using s2(2) b(2) int by (auto simp: logged_def cache_step_def)
  moreover have "length (pe_md5 env ?c) = 16" using w by (simp add: world_ok_def)
  moreover have "\<forall>m \<in> set logs. \<exists>b d. m = ProcLog (taskId task) b d" using s2(2) by (simp add: logged_def)
  ultimately show ?thesis using send_result_survives [OF st ag _ _ len, of s2 ?c "taskId task" rt p] s2(3)
    unfolding rp run answered_with_def Let_def fst_conv snd_conv by (metis append.assoc)
qed

section \<open>One result\<close>

definition proc_results :: "processor_out list \<Rightarrow> TaskResult list" where
  "proc_results ms = concat (map (\<lambda>m. case m of ProcResult r \<Rightarrow> [r] | _ \<Rightarrow> []) ms)"

lemma proc_results_append [simp]: "proc_results (a @ b) = proc_results a @ proc_results b"
  by (simp add: proc_results_def)

definition in_flight :: "Task \<Rightarrow> TaskResult list \<Rightarrow> ('v, 'z) processor \<Rightarrow> bool" where
  "in_flight task rs s \<longleftrightarrow> pr_current_task s = Some task \<and> proc_results (pr_to_agent s) = rs"

lemma flight_log [through_intros]: "through B (in_flight task rs) (agent_send env (ProcLog t b d))"
  by (rule through_agent_send) (simp_all add: in_flight_def proc_results_def)

lemma flight_create [through_intros]: "through B (in_flight task rs) (agent_send env (ProcCreate c oid d))"
  by (rule through_agent_send) (simp_all add: in_flight_def proc_results_def)

lemma flight_store_once [through_intros]: "through B (in_flight task rs) (store_once env c p)"
  by (rule through_store_once) (simp_all add: in_flight_def)

lemma flight_call: "through B (in_flight task rs) (call_function env task' flags)"
  by (auto simp: call_function_def stream_write_def intro!: through_intros)

text \<open>While objects are fetched the storage is only read.\<close>

definition fetching :: "(ObjectID, bytes) dict \<Rightarrow> Task \<Rightarrow> TaskResult list \<Rightarrow> ('v, 'z) processor \<Rightarrow> bool" where
  "fetching d task rs s \<longleftrightarrow> in_flight task rs s \<and> pr_storage s = d"

lemma fetching_add [through_intros]: "through B (fetching d task rs) (cache_add_object env c oid p)"
proof -
  have m: "through B (fetching d task rs) (modify (\<lambda>s. s\<lparr>pr_cached_objects := f s\<rparr>))" for f
    by (simp add: through_def fetching_def in_flight_def)
  have "through B (fetching d task rs) (add_serializer c z)" for z
    by (simp add: add_serializer_def through_def fetching_def in_flight_def)
  then show ?thesis unfolding cache_add_object_def by (intro through_intros m)
qed

lemma fetching_required:
  "through (\<exists>oids. required_object_ids env task = Inr oids \<and> (\<exists>oid \<in> set oids. \<not> dict_has d oid)) (fetching d task rs) (cache_required_object_ids env task)"
proof (cases "required_object_ids env task")
  case (Inl e)
  then show ?thesis by (simp add: cache_required_object_ids_def of_sum_def through_def andthen_run)
next
  case (Inr oids)
  have get: "through (\<exists>oid \<in> set oids. \<not> dict_has d oid) (fetching d task rs) (storage_get env oid)" if "oid \<in> set oids" for oid
    using that by (auto simp: through_def storage_get_def fetching_def in_flight_def Let_def dict_has_iff split: option.split)
  have "through (\<exists>oid \<in> set oids. \<not> dict_has d oid) (fetching d task rs) (for_each oids (\<lambda>oid. andthen (gets (\<lambda>s. cache_has_object s oid))
      (\<lambda>has. if has then ret () else andthen (storage_get env oid) (cache_add_object env (task_source task) oid))))"
    by (intro through_intros get)
  then show ?thesis using Inr by (simp add: cache_required_object_ids_def of_sum_def through_def)
qed

lemma through_sat: "through False I m \<Longrightarrow> I s \<Longrightarrow> sat (\<lambda>_. I) I (m s)"
  by (cases "m s") (auto dest: throughD)

lemma sat_hand_off:
  assumes step: "\<And>s. I s \<Longrightarrow> sat P I (m s)" and "I s"
  shows "sat P I (hand_off n m s)"
  using assms(2)
proof (induction n arbitrary: s)
  case 0
  then show ?case using step [of s] by (cases "m s") simp_all
next
  case (Suc n)
  then show ?case using step [of s] by (cases "m s") simp_all
qed

definition result_kept :: "('v, 'z) proc_env \<Rightarrow> Task \<Rightarrow> TaskResult list \<Rightarrow> ObjectID \<Rightarrow> bytes \<Rightarrow> ('v, 'z) processor \<Rightarrow> bool" where
  "result_kept env task rs oid p s \<longleftrightarrow> in_flight task rs s \<and> object_is_owner (pe_md5 env) (task_source task) oid \<and> dict_get (pr_storage s) oid = Some p"

lemma store_result_sat:
  assumes md5: "\<And>b. length (pe_md5 env b) = 16" and "in_flight task rs s"
  shows "sat (\<lambda>oid. result_kept env task rs oid p) (in_flight task rs) (store_result env (task_source task) p s)"
  unfolding store_result_def
proof (rule sat_hand_off)
  fix u :: "('a, 'b) processor"
  assume "in_flight task rs u"
  then show "sat (\<lambda>oid. result_kept env task rs oid p) (in_flight task rs) (store_once env (task_source task) p u)"
    using md5 by (auto simp: store_once_def storage_set_def andthen_run seq_run of_sum_def Let_def result_kept_def in_flight_def
        generate_object_id_def object_id_new_def object_is_owner_def object_owner_hash_def)
qed (rule assms(2))

lemma send_create_sat:
  assumes "result_kept env task rs oid p s"
  shows "sat (\<lambda>_ s. result_kept env task rs oid p s \<and> ProcCreate c oid d \<in> set (pr_to_agent s)) (result_kept env task rs oid p)
    (send_to_agent env (ProcCreate c oid d) s)"
  unfolding send_to_agent_def using assms
  by (rule sat_hand_off [rotated]) (simp add: agent_send_def result_kept_def in_flight_def proc_results_def Let_def)

lemma send_result_message_sat:
  assumes "result_kept env task rs oid p s" "x \<in> set (pr_to_agent s)"
  shows "sat (\<lambda>_ s. proc_results (pr_to_agent s) = rs @ [r] \<and> dict_get (pr_storage s) oid = Some p \<and> x \<in> set (pr_to_agent s))
    (\<lambda>s. result_kept env task rs oid p s \<and> x \<in> set (pr_to_agent s)) (send_to_agent env (ProcResult r) s)"
  unfolding send_to_agent_def
  by (rule sat_hand_off) (use assms in \<open>simp_all add: agent_send_def result_kept_def in_flight_def proc_results_def Let_def\<close>)

text \<open>What a returned task has sent.\<close>

definition task_answered :: "('v, 'z) proc_env \<Rightarrow> Task \<Rightarrow> TaskResult list \<Rightarrow> ('v, 'z) processor \<Rightarrow> bool" where
  "task_answered env task rs s \<longleftrightarrow> pr_current_task s = None \<and> (\<exists>oid rt. proc_results (pr_to_agent s) =
       rs @ [\<lparr>result_taskId = taskId task, resultType = rt, result_metadata = [], result_objects = [oid]\<rparr>] \<and>
     object_is_owner (pe_md5 env) (task_source task) oid \<and> dict_has (pr_storage s) oid \<and>
     ProcCreate (task_source task) oid (''<res '' @ pe_repr env oid @ ''>'') \<in> set (pr_to_agent s))"

lemma send_result_sat:
  assumes md5: "\<And>b. length (pe_md5 env b) = 16" and "in_flight task rs s"
  shows "sat (\<lambda>_. task_answered env task rs) (in_flight task rs) (send_result env (task_source task) (taskId task) rt p s)"
  unfolding send_result_def
proof (rule sat_andthen, rule store_result_sat [OF assms])
  fix oid and u :: "('a, 'b) processor"
  let ?x = "ProcCreate (task_source task) oid (''<res '' @ pe_repr env oid @ ''>'')"
    and ?r = "\<lparr>result_taskId = taskId task, resultType = rt, result_metadata = [], result_objects = [oid]\<rparr>"
  assume u: "result_kept env task rs oid p u"
  then have own: "object_is_owner (pe_md5 env) (task_source task) oid" by (simp add: result_kept_def)
  have a: "sat (\<lambda>_ s. result_kept env task rs oid p s \<and> ?x \<in> set (pr_to_agent s)) (in_flight task rs) (send_to_agent env ?x u)"
    by (rule sat_mono [OF send_create_sat [OF u]]) (simp_all add: result_kept_def)
  have b: "sat (\<lambda>_ s. proc_results (pr_to_agent s) = rs @ [?r] \<and> dict_get (pr_storage s) oid = Some p \<and> ?x \<in> set (pr_to_agent s))
      (in_flight task rs) (send_to_agent env (ProcResult ?r) v)" if "result_kept env task rs oid p v \<and> ?x \<in> set (pr_to_agent v)" for v
    by (rule sat_mono [OF send_result_message_sat]) (use that in \<open>auto simp: result_kept_def\<close>)
  have c: "task_answered env task rs (w\<lparr>pr_current_task := None\<rparr>)"
    if "proc_results (pr_to_agent w) = rs @ [?r] \<and> dict_get (pr_storage w) oid = Some p \<and> ?x \<in> set (pr_to_agent w)" for w :: "('a, 'b) processor"
    using that own by (auto simp: task_answered_def dict_has_iff)
  show "sat (\<lambda>_. task_answered env task rs) (in_flight task rs)
      (seq (send_to_agent env ?x) (seq (send_to_agent env (ProcResult ?r)) (modify (\<lambda>s. s\<lparr>pr_current_task := None\<rparr>))) u)"
    by (rule sat_seq, rule a, rule sat_seq, rule b, assumption) (simp add: c)
qed

lemma process_task_sat:
  assumes md5: "\<And>b. length (pe_md5 env b) = 16" and s: "in_flight task rs s"
  shows "sat (\<lambda>_. task_answered env task rs) (in_flight task rs) (process_task env task s)"
proof (cases "retrieve_task_flags (task_metadata task)")
  case (Inl e)
  then show ?thesis using s by (simp add: process_task_def of_sum_def andthen_run)
next
  case (Inr flags)
  have "sat (\<lambda>_. in_flight task rs) (in_flight task rs) (call_function env task flags s)"
    by (rule through_sat [OF flight_call s])
  then show ?thesis using Inr send_result_sat [OF md5]
    by (cases "call_function env task flags s") (simp_all add: process_task_def of_sum_def andthen_run)
qed

lemma task_answered_once:
  assumes "\<And>b. length (pe_md5 env b) = 16"
  shows "case on_received_task env task s of
     Ret _ s' \<Rightarrow> task_answered env task (proc_results (pr_to_agent s)) s'
   | Raise _ s' \<Rightarrow> in_flight task (proc_results (pr_to_agent s)) s'
   | NoFuel \<Rightarrow> \<exists>oids. required_object_ids env task = Inr oids \<and> (\<exists>oid \<in> set oids. \<not> dict_has (pr_storage s) oid)"
proof -
  let ?rs = "proc_results (pr_to_agent s)" and ?s = "s\<lparr>pr_current_task := Some task\<rparr>"
  have "fetching (pr_storage s) task ?rs ?s" by (simp add: fetching_def in_flight_def)
  note f = throughD [OF fetching_required [of env task] this]
  show ?thesis
  proof (cases "cache_required_object_ids env task ?s")
    case (Ret a u)
    then have "in_flight task ?rs u" using f by (simp add: fetching_def)
    then show ?thesis using process_task_sat [OF assms, where task = task and rs = ?rs and s = u] Ret
      by (cases "process_task env task u") (simp_all add: on_received_task_def)
  qed (use f in \<open>simp_all add: on_received_task_def seq_run fetching_def\<close>)
qed

end
