(* ===== verification/ClientCalls.thy ===== *)
theory ClientCalls
  imports ClientRuns ProcessorRuns
begin

text \<open>
  A call from end to end: a client submits it, the bytes it uploads are in the storage, and the processor that gets the task computes
  the function of the call on its arguments.
\<close>

text \<open>The bytes a submitted argument stands for.\<close>

fun argument_bytes :: "client_env \<Rightarrow> object_buffer \<Rightarrow> submitted_arg \<Rightarrow> bytes \<Rightarrow> bool" where
  "argument_bytes env s (ArgObject obj) p = (p = po_payload obj)"
| "argument_bytes env s (ArgReference r) p = (r \<noteq> serializer_id_of env \<and> (r, p) \<in> set (ob_uploaded s))"

lemma uploaded_unique: "distinct (map fst xs) \<Longrightarrow> (k, a) \<in> set xs \<Longrightarrow> (k, b) \<in> set xs \<Longrightarrow> a = b"
  by (metis map_of_is_SomeI option.inject)

text \<open>The function and the arguments of a task are objects of the client, and none is its serializer.\<close>

lemma plain_id:
  assumes inv: "buffer_inv env val {} s" and tags: "fresh_tags env" "\<not> bad_tag env s" and oid: "oid \<in> fst ` set (ob_uploaded s)" "oid \<noteq> serializer_id_of env"
  shows "length oid = 32 \<and> object_is_owner (ce_md5 env) (ce_identity env) oid \<and> \<not> object_is_serializer (ce_md5 env) oid"
proof -
  have "oid \<in> known_ids env (ob_tags_used s)" using inv oid(1) by (auto simp: buffer_inv_def stored_ok_def entries_def)
  then obtain n where n: "n < ob_tags_used s" "oid = object_id_of env n" using oid(2) by (auto simp: known_ids_def)
  have "length (ce_tag env n) = 16" using tags(2) n(1) by (auto simp: bad_tag_def)
  then show ?thesis using tags(1)
    by (simp add: n(2) object_id_of_def fresh_tags_def object_is_owner_def object_owner_hash_def object_is_serializer_def object_tag_def)
qed

lemma argument_uploaded:
  assumes inv: "buffer_inv env val {} s" "distinct (map fst (ob_uploaded s))" and ser: "ce_serializer env \<notin> range val"
    and a: "uploaded_as s a x" "argument_bytes env s a p" "\<forall>obj. a = ArgObject obj \<longrightarrow> po_payload obj \<in> range val"
  shows "(argument_data x, p) \<in> set (ob_uploaded s) \<and> argument_data x \<noteq> serializer_id_of env"
proof -
  obtain oid where x: "x = ObjectArgument oid" using a(1) by (cases x) (simp_all add: uploaded_as_def)
  show ?thesis
  proof (cases a)
    case (ArgReference r)
    then show ?thesis using a(1,2) by (simp add: uploaded_as_def x)
  next
    case (ArgObject obj)
    then have up: "(oid, p) \<in> set (ob_uploaded s)" "p \<in> range val" using a by (simp_all add: uploaded_as_def x)
    have "(serializer_id_of env, ce_serializer env) \<in> set (ob_uploaded s)" using inv(1) by (simp add: buffer_inv_def stored_ok_def)
    then have "oid \<noteq> serializer_id_of env" using uploaded_unique [OF inv(2) up(1)] ser up(2) by metis
    then show ?thesis using up(1) by (simp add: x)
  qed
qed

lemma submit_task_fields:
  assumes "submit_verbose env fn name sig args kwargs caps reserialize s = Ret task s'"
  shows "task_source task = ce_identity env" "serialize_flags (client_task_flags env) = Inr (task_metadata task)"
  using assms by (auto simp: submit_verbose_def client_submit_one_def andthen_run seq_run of_sum_def Let_def split: outcome.splits option.splits sum.splits)

lemma submitted_task_ok:
  assumes reach: "client_reach env val s" and env: "client_ok env val" "ce_serializer env \<notin> range val" and conv: "convert_kwargs_to_args ps args kwargs = Inr as"
    and live: "live_together val (fn # arg_objects as)" and run: "submit_verbose env fn name (Some ps) args kwargs caps reserialize s = Ret task s'"
    and tags: "\<not> bad_tag env s'" and bs: "list_all2 (argument_bytes env s') as bs" and C: "ce_identity env \<in> C" "pe_md5 penv = ce_md5 env"
  shows "task_ok penv C task" "(funcObjectId task, po_payload fn) \<in> set (ob_uploaded s')"
    "list_all2 (\<lambda>x p. (argument_data x, p) \<in> set (ob_uploaded s')) (functionArgs task) bs"
    "(serializer_id penv (ce_identity env), ce_serializer env) \<in> set (ob_uploaded s')"
proof -
  note up = submit_uploaded [OF reach env(1) conv live run]
  have inv: "buffer_inv env val {} s'" by (rule client_reach_inv [OF client_reach.submit [OF reach conv live run] env(1)])
  have fresh: "fresh_tags env" using env(1) by (simp add: client_ok_def)
  show f: "(funcObjectId task, po_payload fn) \<in> set (ob_uploaded s')" by (rule up(1))
  have vals: "po_payload obj \<in> range val" if "obj \<in> set (fn # arg_objects as)" for obj
    using live that by (auto simp: live_together_def list_all_iff)
  have ser: "(serializer_id_of env, ce_serializer env) \<in> set (ob_uploaded s')" using inv by (simp add: buffer_inv_def stored_ok_def)
  then show "(serializer_id penv (ce_identity env), ce_serializer env) \<in> set (ob_uploaded s')" using C(2) by (simp add: serializer_id_def serializer_id_of_def)
  have fid: "funcObjectId task \<noteq> serializer_id_of env" using uploaded_unique [OF up(3) f] ser vals [of fn] env(2) by force
  have arg: "(argument_data (functionArgs task ! i), bs ! i) \<in> set (ob_uploaded s') \<and> argument_data (functionArgs task ! i) \<noteq> serializer_id_of env"
    if i: "i < length (functionArgs task)" for i
  proof (rule argument_uploaded [OF inv up(3) env(2)])
    have len: "i < length as" using up(2) i by (simp add: list_all2_lengthD)
    show "uploaded_as s' (as ! i) (functionArgs task ! i)" "argument_bytes env s' (as ! i) (bs ! i)"
      using list_all2_nthD [OF up(2) len] list_all2_nthD [OF bs len] by simp_all
    show "\<forall>obj. as ! i = ArgObject obj \<longrightarrow> po_payload obj \<in> range val"
    proof (intro allI impI)
      fix obj assume "as ! i = ArgObject obj"
      then have "obj \<in> set (arg_objects as)" using nth_mem [OF len] unfolding arg_objects_def by force
      then show "po_payload obj \<in> range val" using vals by simp
    qed
  qed
  show "list_all2 (\<lambda>x p. (argument_data x, p) \<in> set (ob_uploaded s')) (functionArgs task) bs"
    using arg list_all2_lengthD [OF up(2)] list_all2_lengthD [OF bs] by (simp add: list_all2_conv_all_nth)
  have "\<forall>oid \<in> set (task_ids task). oid \<in> fst ` set (ob_uploaded s') \<and> oid \<noteq> serializer_id_of env"
    using f fid arg by (force simp: task_ids_def in_set_conv_nth)
  then show "task_ok penv C task"
    using plain_id [OF inv fresh tags] C submit_task_fields [OF run] by (simp add: task_ok_def)
qed

text \<open>The storage holds what the client has uploaded.\<close>

definition holds_uploads :: "object_buffer \<Rightarrow> ('v, 'z) processor \<Rightarrow> bool" where
  "holds_uploads cs s \<longleftrightarrow> (\<forall>(oid, p) \<in> set (ob_uploaded cs). dict_get (pr_storage s) oid = Some p)"

lemma call_computed:
  assumes client: "client_reach env val cs" "client_ok env val" "ce_serializer env \<notin> range val" "convert_kwargs_to_args ps args kwargs = Inr as"
      "live_together val (fn # arg_objects as)" "submit_verbose env fn name (Some ps) args kwargs caps reserialize cs = Ret task cs'"
      "\<not> bad_tag env cs'" "list_all2 (argument_bytes env cs') as bs"
    and world: "world_ok penv C ser content" "ce_identity env \<in> C" "pe_md5 penv = ce_md5 env"
    and proc: "proc_reach penv C content s" "holds_uploads cs' s" "transport_ok penv (length as + 2) s"
  shows "\<exists>s'. on_received_task penv task s = Ret () s' \<and>
    answered_with penv task (ce_stream_output env) (result_of penv (evaluated penv (ser (ce_identity env)) (po_payload fn) bs)) s s'"
proof -
  note ok = submitted_task_ok [OF client world(2,3)]
  note fields = submit_task_fields [OF client(6)]
  have up: "dict_get (pr_storage s) oid = Some p" if "(oid, p) \<in> set (ob_uploaded cs')" for oid p
    using proc(2) that by (auto simp: holds_uploads_def)
  have args: "list_all2 (\<lambda>a p. dict_get (pr_storage s) (argument_data a) = Some p) (functionArgs task) bs"
    using ok(3) by (rule list_all2_mono) (rule up)
  have flags: "retrieve_task_flags (task_metadata task) = Inr (client_task_flags env)"
    using flags_roundtrip [of "client_task_flags env"] fields(2) by simp
  have len: "length (functionArgs task) = length as" using list_all2_lengthD [OF ok(3)] list_all2_lengthD [OF client(8)] by simp
  have sid: "dict_has (pr_storage s) (serializer_id penv (task_source task))" using up [OF ok(4)] fields(1) by (simp add: dict_has_iff)
  have tr: "transport_ok penv (length (functionArgs task) + 2) s" using proc(3) len by simp
  show ?thesis using task_result_sent [OF proc(1) world(1) ok(1) flags sid up [OF ok(2)] args tr] fields(1)
    by (simp add: client_task_flags_def)
qed

end
