(* ===== verification/ClientAgent.thy ===== *)
theory ClientAgent
  imports Encoding
begin

text \<open>
  The client's side of a running task: the future (\<open>src/src/scaler/client/future.py\<close>) and the agent that settles it
  (\<open>src/src/scaler/client/agent\<close>: task, future, object, heartbeat and disconnect managers and
  the agent's dispatch). Futures outlive their entry in the future manager, so all of them are kept in one table and
  the manager's dictionary is the list of its keys.

  A wait is where a step ends: \<open>cancel\<close> up to its wait, the download of a result from its start
  to its callback. Profiles are the bytes of the result's metadata, 16 of them. The exceptions that stop
  the agent's loops are told apart as the code tells them apart.
\<close>

section \<open>Futures\<close>

datatype scaler_future_state = FS_PENDING | FS_RUNNING | FS_CANCELLED_AND_NOTIFIED | FS_FINISHED

datatype future_exception = WorkerDiedError TaskID | RemoteException bytes | FetchFailed py_exn | AgentException py_exn

datatype future_value = ResultValue bytes | ExceptionValue future_exception

record fetch_request =
  fetch_object_id :: ObjectID
  fetch_is_exception :: bool
  fetch_delete_after :: bool

record scaler_future =
  sf_task_id :: TaskID
  sf_is_delayed :: bool
  sf_group_task_id :: "TaskID option"
  sf_state :: scaler_future_state
  sf_result_object_id :: "ObjectID option"
  sf_result_received :: bool
  sf_result_object_future :: "fetch_request option"
  sf_task_result_type :: "TaskResultType option"
  sf_cancel_requested :: bool
  sf_profiling_info :: "bytes option"
  sf_listeners :: nat
  sf_value :: "future_value option"

definition new_future :: "TaskID \<Rightarrow> bool \<Rightarrow> TaskID option \<Rightarrow> scaler_future" where
  "new_future t delayed grp = \<lparr>sf_task_id = t, sf_is_delayed = delayed, sf_group_task_id = grp, sf_state = FS_PENDING,
     sf_result_object_id = None, sf_result_received = False, sf_result_object_future = None, sf_task_result_type = None,
     sf_cancel_requested = False, sf_profiling_info = None, sf_listeners = 0, sf_value = None\<rparr>"

definition sf_cancelled :: "scaler_future \<Rightarrow> bool" where
  "sf_cancelled f = (sf_state f = FS_CANCELLED_AND_NOTIFIED)"

definition sf_done :: "scaler_future \<Rightarrow> bool" where
  "sf_done f = (sf_state f = FS_CANCELLED_AND_NOTIFIED \<or> sf_state f = FS_FINISHED)"

definition set_running_or_notify_cancel :: "scaler_future \<Rightarrow> py_exn + scaler_future" where
  "set_running_or_notify_cancel f =
     (case sf_state f of
        FS_PENDING \<Rightarrow> Inr (f\<lparr>sf_state := FS_RUNNING\<rparr>)
      | _ \<Rightarrow> Inl RuntimeError)"

definition start_result_object_fetch :: "scaler_future \<Rightarrow> py_exn + scaler_future" where
  "start_result_object_fetch f =
     (case sf_result_object_id f of
        None \<Rightarrow> Inr f
      | Some oid \<Rightarrow>
          if sf_cancelled f \<or> sf_result_received f \<or> sf_result_object_future f \<noteq> None then Inr f
          else case sf_task_result_type f of
                 None \<Rightarrow> Inl AssertionError
               | Some r \<Rightarrow> Inr (f\<lparr>sf_result_object_future :=
                   Some \<lparr>fetch_object_id = oid, fetch_is_exception = (r \<noteq> TR_success), fetch_delete_after = (sf_group_task_id f = None)\<rparr>\<rparr>))"

definition set_result_ready :: "ObjectID option \<Rightarrow> TaskResultType \<Rightarrow> bytes option \<Rightarrow> scaler_future \<Rightarrow> py_exn + scaler_future" where
  "set_result_ready oid r prof f =
     (if sf_done f then Inl InvalidStateError
      else let f1 = f\<lparr>sf_state := FS_FINISHED, sf_result_object_id := oid, sf_task_result_type := Some r,
                      sf_profiling_info := (if prof = None then sf_profiling_info f else prof)\<rparr>
           in if \<not> sf_is_delayed f1 \<or> 0 < sf_listeners f1 then start_result_object_fetch f1 else Inr f1)"

definition mark_canceled :: "scaler_future \<Rightarrow> scaler_future" where
  "mark_canceled f = f\<lparr>sf_state := FS_CANCELLED_AND_NOTIFIED, sf_result_received := True, sf_cancel_requested := True\<rparr>"

definition set_canceled :: "scaler_future \<Rightarrow> scaler_future" where
  "set_canceled f = (if sf_done f then f else mark_canceled f)"

definition force_set_canceled :: "scaler_future \<Rightarrow> scaler_future" where
  "force_set_canceled f = (if sf_cancelled f then f else mark_canceled f)"

definition set_result_or_exception :: "future_value \<Rightarrow> bytes option \<Rightarrow> scaler_future \<Rightarrow> py_exn + scaler_future" where
  "set_result_or_exception v prof f =
     (if sf_cancelled f then Inl InvalidStateError
      else if sf_result_received f then Inl InvalidStateError
      else if prof \<noteq> None \<and> sf_profiling_info f \<noteq> None then Inl InvalidStateError
      else Inr (f\<lparr>sf_profiling_info := (if prof = None then sf_profiling_info f else prof), sf_state := FS_FINISHED,
                  sf_result_received := True, sf_value := Some v\<rparr>))"

text \<open>The download has ended, with the object's value or with an exception.\<close>

definition on_result_object_fetched :: "py_exn + bytes \<Rightarrow> scaler_future \<Rightarrow> scaler_future" where
  "on_result_object_fetched r f =
     (case sf_result_object_future f of
        None \<Rightarrow> f
      | Some q \<Rightarrow>
          (case set_result_or_exception
                  (case r of Inl e \<Rightarrow> ExceptionValue (FetchFailed e)
                   | Inr v \<Rightarrow> if fetch_is_exception q then ExceptionValue (RemoteException v) else ResultValue v) None f of
             Inl _ \<Rightarrow> f | Inr f' \<Rightarrow> f'))"

text \<open>\<open>add_done_callback\<close> and a new waiter.\<close>

definition add_done_callback :: "scaler_future \<Rightarrow> py_exn + scaler_future" where
  "add_done_callback f = (if sf_done f then start_result_object_fetch f else Inr (f\<lparr>sf_listeners := sf_listeners f + 1\<rparr>))"

definition on_waiter_added :: "scaler_future \<Rightarrow> py_exn + scaler_future" where
  "on_waiter_added f =
     (let f1 = f\<lparr>sf_listeners := sf_listeners f + 1\<rparr> in if sf_is_delayed f1 then start_result_object_fetch f1 else Inr f1)"

text \<open>\<open>result\<close> or \<open>exception\<close> is called once the future is ready.\<close>

definition request_result :: "scaler_future \<Rightarrow> py_exn + scaler_future" where
  "request_result f = (if sf_is_delayed f then start_result_object_fetch f else Inr f)"

text \<open>\<open>cancel\<close> up to its wait: its answer when it need not wait, and the request it sends.\<close>

definition sf_cancel :: "scaler_future \<Rightarrow> bool option \<times> TaskCancel list \<times> scaler_future" where
  "sf_cancel f =
     (if sf_cancelled f then (Some True, [], f)
      else if sf_done f then (Some False, [], f)
      else if sf_cancel_requested f then (None, [], f)
      else (None, [\<lparr>cancel_taskId = (case sf_group_task_id f of Some g \<Rightarrow> g | None \<Rightarrow> sf_task_id f), cancel_force = True\<rparr>],
            f\<lparr>sf_cancel_requested := True\<rparr>))"

section \<open>The agent\<close>

datatype client_out =
    OutTask Task
  | OutGraphTask GraphTask
  | OutTaskCancel TaskCancel
  | OutCreate ClientID "ObjectID list" "ObjectContentType list" "bytes list"
  | OutDelete ClientID "ObjectID list"
  | OutHeartbeat int
  | OutDisconnect bool

record client_agent =
  ca_identity :: ClientID
  ca_task_ids :: "TaskID list"
  ca_futures :: "(TaskID, scaler_future) dict"
  ca_managed :: "TaskID list"
  ca_sent_object_ids :: "ObjectID list"
  ca_sent_serializer_id :: "ObjectID option"
  ca_to_scheduler :: "client_out list"
  ca_to_client :: "bool list"
  ca_last_contact :: int
  ca_start_timestamp_ns :: int
  ca_latency_us :: int
  ca_connected :: bool
  ca_storage_address :: "(py_exn + bytes) option"
  ca_stopped :: bool

type_synonym 'a client_step = "('a, client_agent) comp"

definition to_scheduler :: "client_out \<Rightarrow> unit client_step" where
  "to_scheduler m = modify (\<lambda>s. s\<lparr>ca_to_scheduler := ca_to_scheduler s @ [m]\<rparr>)"

text \<open>An operation on the future of a task.\<close>

definition on_future :: "TaskID \<Rightarrow> (scaler_future \<Rightarrow> py_exn + scaler_future) \<Rightarrow> unit client_step" where
  "on_future t op = andthen (lookup ca_futures t) (\<lambda>f. andthen (of_sum (op f)) (\<lambda>f'. modify (\<lambda>s. s\<lparr>ca_futures := dict_set t f' (ca_futures s)\<rparr>)))"

subsection \<open>Future manager\<close>

definition add_future :: "scaler_future \<Rightarrow> unit client_step" where
  "add_future f = andthen (of_sum (set_running_or_notify_cancel f)) (\<lambda>f'.
     modify (\<lambda>s. s\<lparr>ca_futures := dict_set (sf_task_id f') f' (ca_futures s), ca_managed := set_add (sf_task_id f') (ca_managed s)\<rparr>))"

definition fail_future :: "py_exn \<Rightarrow> TaskID \<Rightarrow> unit client_step" where
  "fail_future e t = on_future t (\<lambda>f. case set_result_or_exception (ExceptionValue (AgentException e)) None f of
     Inl InvalidStateError \<Rightarrow> Inr f | r \<Rightarrow> r)"

definition set_all_futures_with_exception :: "py_exn \<Rightarrow> unit client_step" where
  "set_all_futures_with_exception e =
     andthen (gets ca_managed) (\<lambda>ts. seq (for_each ts (fail_future e)) (modify (\<lambda>s. s\<lparr>ca_managed := []\<rparr>)))"

definition get_result_object_id :: "TaskResult \<Rightarrow> py_exn + ObjectID option" where
  "get_result_object_id r =
     (case result_objects r of
        [] \<Rightarrow> Inr None
      | [b] \<Rightarrow> (case object_id_new b of Inl e \<Rightarrow> Inl e | Inr oid \<Rightarrow> Inr (Some oid))
      | _ \<Rightarrow> Inl ValueError)"

definition retrieve_profiling_result :: "TaskResult \<Rightarrow> py_exn + bytes option" where
  "retrieve_profiling_result r =
     (if result_metadata r = [] then Inr None else if length (result_metadata r) = 16 then Inr (Some (result_metadata r)) else Inl ValueError)"

definition future_on_task_result :: "TaskResult \<Rightarrow> unit client_step" where
  "future_on_task_result r =
     andthen (gets ca_managed) (\<lambda>managed.
       if result_taskId r \<notin> set managed then ret ()
       else seq (modify (\<lambda>s. s\<lparr>ca_managed := filter (\<lambda>t. t \<noteq> result_taskId r) managed\<rparr>))
         (andthen (of_sum (retrieve_profiling_result r)) (\<lambda>prof.
            case resultType r of
              TR_failedWorkerDied \<Rightarrow>
                on_future (result_taskId r) (set_result_or_exception (ExceptionValue (WorkerDiedError (result_taskId r))) prof)
            | _ \<Rightarrow> andthen (of_sum (get_result_object_id r)) (\<lambda>oid.
                     on_future (result_taskId r) (set_result_ready oid (resultType r) prof)))))"

definition future_on_task_cancel_confirm :: "TaskCancelConfirm \<Rightarrow> unit client_step" where
  "future_on_task_cancel_confirm c =
     andthen (gets ca_managed) (\<lambda>managed.
       if confirm_taskId c \<notin> set managed then ret ()
       else seq (modify (\<lambda>s. s\<lparr>ca_managed := filter (\<lambda>t. t \<noteq> confirm_taskId c) managed\<rparr>))
         (case cancelConfirmType c of
            CC_cancelFailed \<Rightarrow> modify (\<lambda>s. s\<lparr>ca_managed := ca_managed s @ [confirm_taskId c]\<rparr>)
          | _ \<Rightarrow> on_future (confirm_taskId c) (\<lambda>f. Inr (set_canceled f))))"


subsection \<open>Object manager\<close>

definition object_on_task_result :: "TaskResult \<Rightarrow> unit client_step" where
  "object_on_task_result r = for_each (result_objects r) (\<lambda>b.
     andthen (of_sum (object_id_new b)) (\<lambda>oid. modify (\<lambda>s. s\<lparr>ca_sent_object_ids := set_add oid (ca_sent_object_ids s)\<rparr>)))"

definition clear_all_objects :: "bool \<Rightarrow> unit client_step" where
  "clear_all_objects clear_serializer =
     andthen (gets ca_sent_object_ids) (\<lambda>sent.
     andthen (gets ca_sent_serializer_id) (\<lambda>ser.
     andthen (if clear_serializer then seq (modify (\<lambda>s. s\<lparr>ca_sent_serializer_id := None\<rparr>)) (ret sent)
              else case ser of
                     None \<Rightarrow> ret sent
                   | Some i \<Rightarrow> if i \<in> set sent then ret (filter (\<lambda>oid. oid \<noteq> i) sent) else raise KeyError) (\<lambda>cleared.
     seq (modify (\<lambda>s. s\<lparr>ca_sent_object_ids := filter (\<lambda>oid. oid \<notin> set cleared) (ca_sent_object_ids s)\<rparr>))
     (andthen (gets ca_identity) (\<lambda>me. to_scheduler (OutDelete me cleared))))))"

definition send_object_creation :: "ClientID \<Rightarrow> ObjectID list \<Rightarrow> ObjectContentType list \<Rightarrow> bytes list \<Rightarrow> unit client_step" where
  "send_object_creation user ids types names =
     andthen (gets ca_sent_object_ids) (\<lambda>sent.
       let new = (\<lambda>oid. oid \<notin> set sent)
       in if \<not> list_ex new ids then ret ()
          else seq
            (if OC_serializer \<in> set types
             then andthen (gets ca_sent_serializer_id) (\<lambda>ser.
                    if ser \<noteq> None then raise ValueError
                    else modify (\<lambda>s. s\<lparr>ca_sent_serializer_id := Some (ids ! length (takeWhile (\<lambda>t. t \<noteq> OC_serializer) types))\<rparr>))
             else ret ())
            (seq (modify (\<lambda>s. s\<lparr>ca_sent_object_ids := fold set_add (filter new ids) (ca_sent_object_ids s)\<rparr>))
                 (to_scheduler (OutCreate user (filter new ids) (map snd (filter (\<lambda>(oid, _). new oid) (zip ids types)))
                    (map snd (filter (\<lambda>(oid, _). new oid) (zip ids names)))))))"

definition delete_objects :: "ClientID \<Rightarrow> ObjectID list \<Rightarrow> unit client_step" where
  "delete_objects user ids =
     andthen (gets ca_sent_serializer_id) (\<lambda>ser.
       if ser \<noteq> None \<and> the ser \<in> set ids then raise ValueError
       else seq (modify (\<lambda>s. s\<lparr>ca_sent_object_ids := filter (\<lambda>oid. oid \<notin> set ids) (ca_sent_object_ids s)\<rparr>))
                (to_scheduler (OutDelete user ids)))"

subsection \<open>Task manager\<close>

definition client_on_new_task :: "Task \<Rightarrow> unit client_step" where
  "client_on_new_task task = seq (modify (\<lambda>s. s\<lparr>ca_task_ids := set_add (taskId task) (ca_task_ids s)\<rparr>)) (to_scheduler (OutTask task))"

definition client_on_cancel_task :: "TaskCancel \<Rightarrow> unit client_step" where
  "client_on_cancel_task c = andthen (gets ca_task_ids) (\<lambda>ids. if cancel_taskId c \<notin> set ids then ret () else to_scheduler (OutTaskCancel c))"

definition client_on_new_graph_task :: "GraphTask \<Rightarrow> unit client_step" where
  "client_on_new_graph_task g =
     seq (modify (\<lambda>s. s\<lparr>ca_task_ids := fold set_add (graph_taskId g # graph_targets g) (ca_task_ids s)\<rparr>)) (to_scheduler (OutGraphTask g))"

definition client_on_task_result :: "TaskResult \<Rightarrow> unit client_step" where
  "client_on_task_result r =
     seq (object_on_task_result r)
     (andthen (gets ca_task_ids) (\<lambda>ids.
        if result_taskId r \<notin> set ids then ret ()
        else seq (modify (\<lambda>s. s\<lparr>ca_task_ids := filter (\<lambda>t. t \<noteq> result_taskId r) ids\<rparr>)) (future_on_task_result r)))"

definition client_on_task_cancel_confirm :: "TaskCancelConfirm \<Rightarrow> unit client_step" where
  "client_on_task_cancel_confirm c =
     andthen (gets ca_task_ids) (\<lambda>ids.
       if confirm_taskId c \<notin> set ids then ret ()
       else seq (modify (\<lambda>s. s\<lparr>ca_task_ids := filter (\<lambda>t. t \<noteq> confirm_taskId c) ids\<rparr>)) (future_on_task_cancel_confirm c))"

subsection \<open>Heartbeats and disconnection\<close>

text \<open>Times are nanoseconds; the halved difference is exact before the floor.\<close>

definition client_send_heartbeat :: "unit client_step" where
  "client_send_heartbeat = andthen (gets ca_latency_us) (\<lambda>l. to_scheduler (OutHeartbeat l))"

definition client_on_heartbeat_echo :: "int \<Rightarrow> bytes \<Rightarrow> unit client_step" where
  "client_on_heartbeat_echo now address =
     seq (modify (\<lambda>s. s\<lparr>ca_connected := True, ca_last_contact := now\<rparr>))
     (andthen (gets ca_start_timestamp_ns) (\<lambda>t0.
        if t0 = 0 then ret ()
        else modify (\<lambda>s. s\<lparr>ca_latency_us := (now - t0) div 2000, ca_start_timestamp_ns := 0,
               ca_storage_address := (case ca_storage_address s of None \<Rightarrow> Some (Inr address) | Some a \<Rightarrow> Some a)\<rparr>)))"

definition client_heartbeat_routine :: "int \<Rightarrow> int \<Rightarrow> unit client_step" where
  "client_heartbeat_routine timeout now =
     andthen (gets ca_last_contact) (\<lambda>last.
       if now - last > timeout then raise TimeoutError
       else andthen (gets ca_start_timestamp_ns) (\<lambda>t0.
              if t0 \<noteq> 0 then ret ()
              else seq client_send_heartbeat (modify (\<lambda>s. s\<lparr>ca_start_timestamp_ns := now\<rparr>))))"

definition agent_on_client_disconnect :: "bool \<Rightarrow> unit client_step" where
  "agent_on_client_disconnect shutdown = seq (to_scheduler (OutDisconnect shutdown)) (if shutdown then ret () else raise ClientQuit)"

definition agent_on_client_shutdown_response :: "bool \<Rightarrow> unit client_step" where
  "agent_on_client_shutdown_response accepted =
     seq (modify (\<lambda>s. s\<lparr>ca_to_client := ca_to_client s @ [accepted]\<rparr>)) (raise ClientShutdown)"

subsection \<open>Dispatch\<close>

datatype from_client =
    FC_Disconnect bool
  | FC_Create ClientID "ObjectID list" "ObjectContentType list" "bytes list"
  | FC_Delete ClientID "ObjectID list"
  | FC_Clear
  | FC_Task Task
  | FC_TaskCancel TaskCancel
  | FC_GraphTask GraphTask
  | FC_Unknown

datatype from_scheduler =
    FS_ShutdownResponse bool
  | FS_HeartbeatEcho bytes
  | FS_TaskLog bytes
  | FS_TaskResult TaskResult
  | FS_TaskCancelConfirm TaskCancelConfirm
  | FS_Unknown

fun on_receive_from_client :: "from_client \<Rightarrow> unit client_step" where
  "on_receive_from_client (FC_Disconnect shutdown) = agent_on_client_disconnect shutdown"
| "on_receive_from_client (FC_Create user ids types names) = send_object_creation user ids types names"
| "on_receive_from_client (FC_Delete user ids) = delete_objects user ids"
| "on_receive_from_client FC_Clear = clear_all_objects False"
| "on_receive_from_client (FC_Task task) = client_on_new_task task"
| "on_receive_from_client (FC_TaskCancel c) = client_on_cancel_task c"
| "on_receive_from_client (FC_GraphTask g) = client_on_new_graph_task g"
| "on_receive_from_client FC_Unknown = raise TypeError"

fun on_receive_from_scheduler :: "int \<Rightarrow> from_scheduler \<Rightarrow> unit client_step" where
  "on_receive_from_scheduler now (FS_ShutdownResponse accepted) = agent_on_client_shutdown_response accepted"
| "on_receive_from_scheduler now (FS_HeartbeatEcho address) = client_on_heartbeat_echo now address"
| "on_receive_from_scheduler now (FS_TaskLog _) = ret ()"
| "on_receive_from_scheduler now (FS_TaskResult r) = client_on_task_result r"
| "on_receive_from_scheduler now (FS_TaskCancelConfirm c) = client_on_task_cancel_confirm c"
| "on_receive_from_scheduler now FS_Unknown = raise TypeError"

text \<open>The end of \<open>__get_loops\<close> after an exception of one of the loops. Only some exceptions are passed on to the futures.\<close>

fun public_exception :: "py_exn \<Rightarrow> py_exn option" where
  "public_exception CancelledError = Some ClientCancelled"
| "public_exception ClientQuit = Some ClientQuit"
| "public_exception ClientShutdown = Some ClientShutdown"
| "public_exception TimeoutError = Some TimeoutError"
| "public_exception YMQError = Some DisconnectedError"
| "public_exception _ = None"

definition agent_stop :: "py_exn \<Rightarrow> unit client_step" where
  "agent_stop e =
     seq (modify (\<lambda>s. s\<lparr>ca_stopped := True\<rparr>))
     (seq (if e = YMQError then ret () else clear_all_objects True)
     (seq (case public_exception e of Some p \<Rightarrow> set_all_futures_with_exception p | None \<Rightarrow> ret ())
     (seq (modify (\<lambda>s. s\<lparr>ca_storage_address := (case ca_storage_address s of
             None \<Rightarrow> Some (Inl (case public_exception e of Some p \<Rightarrow> p | None \<Rightarrow> e)) | Some a \<Rightarrow> Some a)\<rparr>))
          (if public_exception e = None then raise e else ret ()))))"

section \<open>Moves\<close>

text \<open>What happens to the agent and to the futures, by the client's threads, by messages and by downloads that end.\<close>

datatype client_move =
    AddFuture TaskID bool "TaskID option"
  | FromClient from_client
  | FromScheduler int from_scheduler
  | HeartbeatTick int int
  | Fetched TaskID "py_exn + bytes"
  | AddCallback TaskID
  | AddWaiter TaskID
  | RequestResult TaskID
  | CancelFuture TaskID
  | ForceCancel TaskID
  | Stop py_exn

fun client_perform :: "client_move \<Rightarrow> unit client_step" where
  "client_perform (AddFuture t delayed grp) = add_future (new_future t delayed grp)"
| "client_perform (FromClient m) = on_receive_from_client m"
| "client_perform (FromScheduler now m) = on_receive_from_scheduler now m"
| "client_perform (HeartbeatTick timeout now) = client_heartbeat_routine timeout now"
| "client_perform (Fetched t r) = on_future t (\<lambda>f. Inr (on_result_object_fetched r f))"
| "client_perform (AddCallback t) = on_future t add_done_callback"
| "client_perform (AddWaiter t) = on_future t on_waiter_added"
| "client_perform (RequestResult t) = on_future t request_result"
| "client_perform (CancelFuture t) = on_future t (\<lambda>f. Inr (snd (snd (sf_cancel f))))"
| "client_perform (ForceCancel t) = on_future t (\<lambda>f. Inr (force_set_canceled f))"
| "client_perform (Stop e) = agent_stop e"

definition client_start :: "ClientID \<Rightarrow> bytes option \<Rightarrow> int \<Rightarrow> client_agent" where
  "client_start me address now = \<lparr>ca_identity = me, ca_task_ids = [], ca_futures = [], ca_managed = [], ca_sent_object_ids = [], ca_sent_serializer_id = None,
     ca_to_scheduler = [], ca_to_client = [], ca_last_contact = now, ca_start_timestamp_ns = 0, ca_latency_us = 0, ca_connected = False,
     ca_storage_address = map_option Inr address, ca_stopped = False\<rparr>"

text \<open>
  Task ids are never used twice, and a result has at most one object, whose id is well formed, and metadata that is empty or a profile.
  A move may raise; what it did before that stays.
\<close>

fun move_ok :: "client_agent \<Rightarrow> client_move \<Rightarrow> bool" where
  "move_ok s (AddFuture t d g) = (\<not> dict_has (ca_futures s) t)"
| "move_ok s (FromScheduler now (FS_TaskResult r)) =
     (list_all (\<lambda>b. length b = 32) (result_objects r) \<and> length (result_objects r) \<le> 1 \<and> (result_metadata r = [] \<or> length (result_metadata r) = 16))"
| "move_ok s _ = True"

inductive agent_reach :: "client_agent \<Rightarrow> bool" where
  start: "agent_reach (client_start me address now)"
| move: "agent_reach s \<Longrightarrow> move_ok s m \<Longrightarrow> client_perform m s = Ret () s' \<or> client_perform m s = Raise e s' \<Longrightarrow> agent_reach s'"

end
