(* ===== verification/ClientFutures.thy ===== *)
theory ClientFutures
  imports ClientAgent
begin

text \<open>
  The life of a future: what its fields say of each other in every state the client reaches, that a settled future stays
  settled, and that results and ends of the agent reach the futures.
\<close>

section \<open>One future\<close>

definition future_ok :: "scaler_future \<Rightarrow> bool" where
  "future_ok f \<longleftrightarrow>
     (\<not> sf_done f \<longrightarrow> \<not> sf_result_received f \<and> sf_value f = None \<and> sf_result_object_id f = None \<and> sf_task_result_type f = None \<and> sf_profiling_info f = None) \<and>
     (sf_cancelled f \<longrightarrow> sf_result_received f \<and> sf_cancel_requested f) \<and>
     (sf_state f = FS_FINISHED \<longrightarrow> (sf_result_received f \<longleftrightarrow> sf_value f \<noteq> None) \<and>
        (\<not> sf_result_received f \<longrightarrow> sf_task_result_type f \<noteq> None \<and> (\<not> sf_is_delayed f \<longrightarrow> sf_result_object_id f = None \<or> sf_result_object_future f \<noteq> None))) \<and>
     (sf_result_object_id f \<noteq> None \<longrightarrow> sf_task_result_type f \<noteq> None) \<and>
     (case sf_result_object_future f of None \<Rightarrow> True
      | Some q \<Rightarrow> sf_result_object_id f = Some (fetch_object_id q) \<and> fetch_is_exception q = (sf_task_result_type f \<noteq> Some TR_success) \<and>
          fetch_delete_after q = (sf_group_task_id f = None))"

text \<open>How a future may change: identity and settled outcome stay, except that a forced cancel overrides.\<close>

definition future_step :: "scaler_future \<Rightarrow> scaler_future \<Rightarrow> bool" where
  "future_step f f' \<longleftrightarrow> sf_task_id f' = sf_task_id f \<and> sf_is_delayed f' = sf_is_delayed f \<and> sf_group_task_id f' = sf_group_task_id f \<and>
     (sf_done f \<longrightarrow> sf_state f' = sf_state f \<and> sf_result_object_id f' = sf_result_object_id f \<and> sf_task_result_type f' = sf_task_result_type f) \<and>
     (sf_value f \<noteq> None \<longrightarrow> sf_value f' = sf_value f) \<and> (sf_result_object_future f \<noteq> None \<longrightarrow> sf_result_object_future f' = sf_result_object_future f) \<and>
     (sf_state f = FS_RUNNING \<longrightarrow> sf_state f' \<noteq> FS_PENDING)"

lemma future_step_refl [simp]: "future_step f f"
  by (simp add: future_step_def)

lemma future_step_trans:
  assumes "future_step f g" "future_step g h"
  shows "future_step f h"
proof -
  have "sf_done f \<Longrightarrow> sf_done g" using assms(1) by (simp add: future_step_def sf_done_def)
  moreover have "sf_state f = FS_RUNNING \<Longrightarrow> sf_state h \<noteq> FS_PENDING"
    using assms unfolding future_step_def sf_done_def by (metis scaler_future_state.exhaust scaler_future_state.distinct(1,9))
  ultimately show ?thesis using assms unfolding future_step_def by metis
qed

text \<open>An operation on a future is sound when it keeps the future well formed and raises only \<open>InvalidStateError\<close>.\<close>

definition sound :: "(scaler_future \<Rightarrow> py_exn + scaler_future) \<Rightarrow> bool" where
  "sound op \<longleftrightarrow> (\<forall>f. future_ok f \<longrightarrow> (case op f of Inl e \<Rightarrow> e = InvalidStateError | Inr f' \<Rightarrow> future_ok f' \<and> future_step f f'))"

lemma fetch_sound: "future_ok f \<Longrightarrow> \<exists>f'. start_result_object_fetch f = Inr f' \<and> future_ok f' \<and> future_step f f'"
  by (auto simp: start_result_object_fetch_def future_ok_def future_step_def sf_done_def sf_cancelled_def split: option.splits)

lemma fetch_started:
  "start_result_object_fetch f = Inr f' \<Longrightarrow> sf_result_object_id f \<noteq> None \<Longrightarrow> \<not> sf_cancelled f \<Longrightarrow> \<not> sf_result_received f \<Longrightarrow>
    sf_result_object_future f' \<noteq> None"
  by (auto simp: start_result_object_fetch_def split: option.splits if_splits)

lemma set_result_ready_sound: "sound (set_result_ready oid r prof)"
  unfolding sound_def
proof (intro allI impI)
  fix f assume f: "future_ok f"
  show "case set_result_ready oid r prof f of Inl e \<Rightarrow> e = InvalidStateError | Inr f' \<Rightarrow> future_ok f' \<and> future_step f f'"
    using f by (auto simp: set_result_ready_def Let_def start_result_object_fetch_def future_ok_def future_step_def sf_done_def sf_cancelled_def split: option.splits)
qed

lemma set_value_sound: "sound (set_result_or_exception v prof)"
  by (auto simp: sound_def set_result_or_exception_def future_ok_def future_step_def sf_done_def sf_cancelled_def split: option.splits)

lemma quiet_sound:
  "sound (\<lambda>f. Inr (set_canceled f))" "sound (\<lambda>f. Inr (on_result_object_fetched r f))" "sound (\<lambda>f. Inr (snd (snd (sf_cancel f))))"
proof -
  show "sound (\<lambda>f. Inr (set_canceled f))"
    by (auto simp: sound_def set_canceled_def mark_canceled_def future_ok_def future_step_def sf_done_def sf_cancelled_def split: option.splits)
  show "sound (\<lambda>f. Inr (snd (snd (sf_cancel f))))"
    by (auto simp: sound_def sf_cancel_def future_ok_def future_step_def sf_done_def sf_cancelled_def split: option.splits)
  have v: "future_ok f' \<and> future_step f f'" if "future_ok f" "set_result_or_exception v None f = Inr f'" for v f f'
    using set_value_sound [of v None] that by (auto simp: sound_def split: sum.splits)
  show "sound (\<lambda>f. Inr (on_result_object_fetched r f))"
    unfolding sound_def on_result_object_fetched_def by (simp split: option.split sum.split) (auto dest: v)
qed

lemma listener_sound: "sound add_done_callback" "sound on_waiter_added" "sound request_result"
proof -
  have grow: "future_ok (f\<lparr>sf_listeners := n\<rparr>) = future_ok f" "future_step f (f\<lparr>sf_listeners := n\<rparr>)" for f n
    by (simp_all add: future_ok_def future_step_def sf_done_def sf_cancelled_def split: option.split)
  show "sound add_done_callback" "sound request_result"
    using fetch_sound grow by (auto simp: sound_def add_done_callback_def request_result_def split: sum.splits) fastforce+
  show "sound on_waiter_added"
    unfolding sound_def
  proof (intro allI impI)
    fix f assume f: "future_ok f"
    let ?f = "f\<lparr>sf_listeners := sf_listeners f + 1\<rparr>"
    obtain f' where "start_result_object_fetch ?f = Inr f'" "future_ok f'" "future_step ?f f'" using fetch_sound [of ?f] f grow by auto
    then show "case on_waiter_added f of Inl e \<Rightarrow> e = InvalidStateError | Inr f' \<Rightarrow> future_ok f' \<and> future_step f f'"
      using f grow future_step_trans [OF grow(2)] by (simp add: on_waiter_added_def Let_def)
  qed
qed

section \<open>All futures\<close>

definition futures_ok :: "client_agent \<Rightarrow> bool" where
  "futures_ok s \<longleftrightarrow> (\<forall>t f. dict_get (ca_futures s) t = Some f \<longrightarrow> future_ok f \<and> sf_task_id f = t \<and> sf_state f \<noteq> FS_PENDING)"

definition futures_step :: "client_agent \<Rightarrow> client_agent \<Rightarrow> bool" where
  "futures_step s s' \<longleftrightarrow> (\<forall>t f. dict_get (ca_futures s) t = Some f \<longrightarrow> (\<exists>f'. dict_get (ca_futures s') t = Some f' \<and> future_step f f'))"

text \<open>A step that keeps all futures well formed and what is settled settled, whether it returns or raises.\<close>

definition futures_kept :: "('a, client_agent) comp \<Rightarrow> bool" where
  "futures_kept m \<longleftrightarrow> (\<forall>s. futures_ok s \<longrightarrow> sat (\<lambda>_ s'. futures_ok s' \<and> futures_step s s') (\<lambda>s'. futures_ok s' \<and> futures_step s s') (m s))"

lemma futures_step_refl: "ca_futures s' = ca_futures s \<Longrightarrow> futures_step s s'"
  by (simp add: futures_step_def)

lemma futures_step_trans: "futures_step s t \<Longrightarrow> futures_step t u \<Longrightarrow> futures_step s u"
  unfolding futures_step_def using future_step_trans by meson

lemma futures_kept_andthen:
  assumes "futures_kept m" "\<And>a. futures_kept (f a)"
  shows "futures_kept (andthen m f)"
  unfolding futures_kept_def
proof (intro allI impI)
  fix s assume s: "futures_ok s"
  show "sat (\<lambda>_ s'. futures_ok s' \<and> futures_step s s') (\<lambda>s'. futures_ok s' \<and> futures_step s s') (andthen m f s)"
  proof (rule sat_andthen)
    show "sat (\<lambda>_ s'. futures_ok s' \<and> futures_step s s') (\<lambda>s'. futures_ok s' \<and> futures_step s s') (m s)"
      using assms(1) s by (simp add: futures_kept_def)
    fix a s1 assume s1: "futures_ok s1 \<and> futures_step s s1"
    then have "sat (\<lambda>_ s'. futures_ok s' \<and> futures_step s1 s') (\<lambda>s'. futures_ok s' \<and> futures_step s1 s') (f a s1)"
      using assms(2) [of a] by (simp add: futures_kept_def)
    then show "sat (\<lambda>_ s'. futures_ok s' \<and> futures_step s s') (\<lambda>s'. futures_ok s' \<and> futures_step s s') (f a s1)"
      by (rule sat_mono) (use s1 futures_step_trans in blast)+
  qed
qed

lemma futures_kept_seq: "futures_kept m \<Longrightarrow> futures_kept n \<Longrightarrow> futures_kept (seq m n)"
  unfolding seq_def by (rule futures_kept_andthen)

lemma futures_kept_basic [simp]: "futures_kept (ret a)" "futures_kept (raise e)" "futures_kept (gets f)" "futures_kept (of_sum r)"
  by (auto simp: futures_kept_def futures_step_refl of_sum_def split: sum.split)

lemma futures_kept_modify: "(\<And>s. ca_futures (g s) = ca_futures s) \<Longrightarrow> futures_kept (modify g)"
  by (simp add: futures_kept_def futures_step_def futures_ok_def)

lemma futures_kept_for_each: "(\<And>x. futures_kept (f x)) \<Longrightarrow> futures_kept (for_each xs f)"
  by (induction xs) (simp_all add: futures_kept_seq)

lemma futures_kept_on_future:
  assumes "sound op"
  shows "futures_kept (on_future t op)"
  unfolding futures_kept_def
proof (intro allI impI)
  fix s assume s: "futures_ok s"
  show "sat (\<lambda>_ s'. futures_ok s' \<and> futures_step s s') (\<lambda>s'. futures_ok s' \<and> futures_step s s') (on_future t op s)"
  proof (cases "dict_get (ca_futures s) t")
    case None
    then show ?thesis using s by (simp add: on_future_def andthen_run futures_step_refl)
  next
    case (Some f)
    then have f: "future_ok f" "sf_task_id f = t" "sf_state f \<noteq> FS_PENDING" using s by (auto simp: futures_ok_def)
    show ?thesis
    proof (cases "op f")
      case (Inl e)
      then show ?thesis using Some s by (simp add: on_future_def andthen_run of_sum_def futures_step_refl)
    next
      case (Inr f')
      then have f': "future_ok f'" "future_step f f'" using assms f(1) by (auto simp: sound_def)
      have "sf_task_id f' = t" "sf_state f' \<noteq> FS_PENDING"
        using f' f(2,3) by (cases "sf_state f"; simp add: future_step_def sf_done_def)+
      then have "futures_ok (s\<lparr>ca_futures := dict_set t f' (ca_futures s)\<rparr>)" "futures_step s (s\<lparr>ca_futures := dict_set t f' (ca_futures s)\<rparr>)"
        using s f' Some by (auto simp: futures_ok_def futures_step_def)
      then show ?thesis using Some Inr by (simp add: on_future_def andthen_run of_sum_def)
    qed
  qed
qed

lemma futures_kept_modify_simps [simp]:
  "futures_kept (modify (\<lambda>s. s\<lparr>ca_managed := x s\<rparr>))" "futures_kept (modify (\<lambda>s. s\<lparr>ca_task_ids := x2 s\<rparr>))" "futures_kept (modify (\<lambda>s. s\<lparr>ca_sent_object_ids := x3 s\<rparr>))"
  "futures_kept (modify (\<lambda>s. s\<lparr>ca_sent_serializer_id := x4 s\<rparr>))" "futures_kept (modify (\<lambda>s. s\<lparr>ca_storage_address := x5 s\<rparr>))" "futures_kept (modify (\<lambda>s. s\<lparr>ca_stopped := x6 s\<rparr>))"
  "futures_kept (modify (\<lambda>s. s\<lparr>ca_start_timestamp_ns := x7 s\<rparr>))" "futures_kept (modify (\<lambda>s. s\<lparr>ca_connected := x8 s, ca_last_contact := x9 s\<rparr>))"
  "futures_kept (modify (\<lambda>s. s\<lparr>ca_to_client := x10 s\<rparr>))"
  "futures_kept (modify (\<lambda>s. s\<lparr>ca_latency_us := x11 s, ca_start_timestamp_ns := x12 s, ca_storage_address := x13 s\<rparr>))" "futures_kept (to_scheduler msg)"
  by (simp_all add: futures_kept_modify to_scheduler_def)

lemma fail_sound: "sound (\<lambda>f. case set_result_or_exception (ExceptionValue (AgentException e)) None f of Inl InvalidStateError \<Rightarrow> Inr f | r \<Rightarrow> r)"
  using set_value_sound [of "ExceptionValue (AgentException e)" None] unfolding sound_def by (fastforce split: sum.splits py_exn.splits)

lemmas futures_kept_rules = futures_kept_andthen futures_kept_seq futures_kept_for_each futures_kept_on_future

lemma futures_kept_managers:
  "futures_kept (set_all_futures_with_exception e)" "futures_kept (future_on_task_result r)" "futures_kept (future_on_task_cancel_confirm c)" "futures_kept (object_on_task_result r)"
  "futures_kept (clear_all_objects b)"
proof -
  show "futures_kept (set_all_futures_with_exception e)"
    by (auto simp: set_all_futures_with_exception_def fail_future_def intro!: futures_kept_rules fail_sound)
  show "futures_kept (future_on_task_result r)"
    by (auto simp: future_on_task_result_def intro!: futures_kept_rules set_value_sound set_result_ready_sound split: TaskResultType.split)
  show "futures_kept (future_on_task_cancel_confirm c)"
    by (auto simp: future_on_task_cancel_confirm_def intro!: futures_kept_rules quiet_sound split: TaskCancelConfirmType.split)
  show "futures_kept (object_on_task_result r)" "futures_kept (clear_all_objects b)"
    by (auto simp: object_on_task_result_def clear_all_objects_def intro!: futures_kept_rules split: option.split)
qed

lemma futures_kept_receive: "futures_kept (on_receive_from_client m)" "futures_kept (on_receive_from_scheduler now m')" "futures_kept (client_heartbeat_routine timeout now)"
proof -
  show "futures_kept (on_receive_from_client m)"
    by (cases m) (auto simp: agent_on_client_disconnect_def send_object_creation_def delete_objects_def client_on_new_task_def client_on_cancel_task_def
        client_on_new_graph_task_def Let_def futures_kept_managers intro!: futures_kept_rules)
  show "futures_kept (on_receive_from_scheduler now m')"
    by (cases m') (auto simp: agent_on_client_shutdown_response_def client_on_heartbeat_echo_def client_on_task_result_def client_on_task_cancel_confirm_def
        intro!: futures_kept_rules futures_kept_managers)
  show "futures_kept (client_heartbeat_routine timeout now)"
    by (auto simp: client_heartbeat_routine_def client_send_heartbeat_def intro!: futures_kept_rules)
qed

lemma futures_kept_stop: "futures_kept (agent_stop e)"
  by (auto simp: agent_stop_def intro!: futures_kept_rules futures_kept_managers split: option.split)

lemma perform_futures_kept:
  assumes "futures_ok s" "\<And>t. m \<noteq> ForceCancel t" "move_ok s m"
  shows "sat (\<lambda>_ s'. futures_ok s' \<and> futures_step s s') (\<lambda>s'. futures_ok s' \<and> futures_step s s') (client_perform m s)"
proof -
  have k: "futures_kept (client_perform m)" if "\<And>t d g. m \<noteq> AddFuture t d g"
    using that assms(2) by (cases m) (auto intro!: futures_kept_receive futures_kept_stop futures_kept_on_future quiet_sound listener_sound)
  show ?thesis
  proof (cases "\<exists>t d g. m = AddFuture t d g")
    case True
    then obtain t d g where m: "m = AddFuture t d g" by blast
    have new: "\<not> dict_has (ca_futures s) t" using assms(3) m by simp
    have ok: "future_ok ((new_future t d g)\<lparr>sf_state := FS_RUNNING\<rparr>)" by (simp add: new_future_def future_ok_def sf_done_def sf_cancelled_def)
    show ?thesis using assms(1) new ok
      by (auto simp: m add_future_def set_running_or_notify_cancel_def new_future_def of_sum_def andthen_run futures_ok_def futures_step_def dict_has_iff)
  next
    case False
    then show ?thesis using k assms(1) by (simp add: futures_kept_def)
  qed
qed

section \<open>Which futures are managed\<close>

text \<open>The manager holds every future that is not settled; what it holds besides was cancelled by force.\<close>

definition managed_ok :: "client_agent \<Rightarrow> bool" where
  "managed_ok s \<longleftrightarrow> (\<forall>t f. dict_get (ca_futures s) t = Some f \<longrightarrow> sf_state f = FS_RUNNING \<longrightarrow> t \<in> set (ca_managed s)) \<and>
     (\<forall>t \<in> set (ca_managed s). \<exists>f. dict_get (ca_futures s) t = Some f \<and> (sf_state f = FS_RUNNING \<or> sf_cancelled f))"

definition same_futures :: "client_agent \<Rightarrow> client_agent \<Rightarrow> bool" where
  "same_futures s s' \<longleftrightarrow> ca_futures s' = ca_futures s \<and> ca_managed s' = ca_managed s"

lemma same_managed: "same_futures s s' \<Longrightarrow> managed_ok s' = managed_ok s"
  by (simp add: same_futures_def managed_ok_def)

definition leaves :: "('a, client_agent) comp \<Rightarrow> bool" where
  "leaves m \<longleftrightarrow> (\<forall>s. sat (\<lambda>_. same_futures s) (same_futures s) (m s))"

lemma same_trans: "same_futures s t \<Longrightarrow> same_futures t u \<Longrightarrow> same_futures s u"
  by (simp add: same_futures_def)

lemma leaves_andthen: "leaves m \<Longrightarrow> (\<And>a. leaves (f a)) \<Longrightarrow> leaves (andthen m f)"
  unfolding leaves_def
proof
  fix s assume m: "\<forall>s. sat (\<lambda>_. same_futures s) (same_futures s) (m s)" and f: "\<And>a. \<forall>s. sat (\<lambda>_. same_futures s) (same_futures s) (f a s)"
  show "sat (\<lambda>_. same_futures s) (same_futures s) (andthen m f s)"
  proof (rule sat_andthen)
    show "sat (\<lambda>_. same_futures s) (same_futures s) (m s)" using m by blast
    fix a s1 assume s1: "same_futures s s1"
    have "sat (\<lambda>_. same_futures s1) (same_futures s1) (f a s1)" using f by blast
    then show "sat (\<lambda>_. same_futures s) (same_futures s) (f a s1)" by (rule sat_mono) (use s1 same_trans in blast)+
  qed
qed

lemma leaves_seq: "leaves m \<Longrightarrow> leaves n \<Longrightarrow> leaves (seq m n)"
  unfolding seq_def by (rule leaves_andthen)

lemma leaves_basic [simp]: "leaves (ret a)" "leaves (raise e)" "leaves (gets f)" "leaves (of_sum r)" "leaves (to_scheduler m)"
  by (auto simp: leaves_def same_futures_def of_sum_def to_scheduler_def split: sum.split)

lemma leaves_modify: "(\<And>s. same_futures s (g s)) \<Longrightarrow> leaves (modify g)"
  by (simp add: leaves_def)

lemma leaves_for_each: "(\<And>x. leaves (f x)) \<Longrightarrow> leaves (for_each xs f)"
  by (induction xs) (simp_all add: leaves_seq)

lemmas leaves_rules = leaves_andthen leaves_seq leaves_for_each leaves_modify

lemma leaves_objects: "leaves (object_on_task_result r)" "leaves (clear_all_objects b)"
  by (auto simp: object_on_task_result_def clear_all_objects_def same_futures_def intro!: leaves_rules split: option.split)

lemma leaves_receive:
  "leaves (on_receive_from_client m)" "leaves (client_heartbeat_routine timeout now)" "leaves (client_on_heartbeat_echo now a)" "leaves (agent_on_client_shutdown_response b)"
proof -
  show "leaves (on_receive_from_client m)"
    by (cases m) (auto simp: agent_on_client_disconnect_def send_object_creation_def delete_objects_def client_on_new_task_def client_on_cancel_task_def
        client_on_new_graph_task_def Let_def leaves_objects same_futures_def intro!: leaves_rules)
  show "leaves (client_heartbeat_routine timeout now)" "leaves (client_on_heartbeat_echo now a)" "leaves (agent_on_client_shutdown_response b)"
    by (auto simp: client_heartbeat_routine_def client_send_heartbeat_def client_on_heartbeat_echo_def agent_on_client_shutdown_response_def same_futures_def intro!: leaves_rules)
qed

lemma leaves_sat: "leaves m \<Longrightarrow> managed_ok s \<Longrightarrow> sat (\<lambda>_. managed_ok) managed_ok (m s)"
  unfolding leaves_def by (rule sat_mono [of "\<lambda>_. same_futures s" "same_futures s"]) (auto simp: same_managed)

text \<open>An operation on a future that is not managed, or that leaves its state alone.\<close>

lemma on_future_run:
  "on_future t op s = (case dict_get (ca_futures s) t of None \<Rightarrow> Raise KeyError s
     | Some f \<Rightarrow> (case op f of Inl e \<Rightarrow> Raise e s | Inr f' \<Rightarrow> Ret () (s\<lparr>ca_futures := dict_set t f' (ca_futures s)\<rparr>)))"
  by (simp add: on_future_def andthen_run of_sum_def lookup_run split: option.split sum.split)

lemma on_future_state:
  assumes "managed_ok s" "\<And>f f'. dict_get (ca_futures s) t = Some f \<Longrightarrow> op f = Inr f' \<Longrightarrow> sf_state f' = sf_state f \<or> sf_cancelled f'"
  shows "sat (\<lambda>_. managed_ok) managed_ok (on_future t op s)"
proof (cases "dict_get (ca_futures s) t")
  case (Some f)
  show ?thesis
  proof (cases "op f")
    case (Inr f')
    have "sf_state f' = sf_state f \<or> sf_cancelled f'" by (rule assms(2) [OF Some Inr])
    then have "managed_ok (s\<lparr>ca_futures := dict_set t f' (ca_futures s)\<rparr>)"
      using assms(1) Some by (auto simp: managed_ok_def sf_cancelled_def)
    then show ?thesis using Some Inr by (simp add: on_future_run)
  qed (use Some assms(1) in \<open>simp add: on_future_run\<close>)
qed (use assms(1) in \<open>simp add: on_future_run\<close>)

lemma settle_out:
  assumes inv: "managed_ok s" and f: "dict_get (ca_futures s) t = Some f"
    and op: "\<And>f'. op f = Inr f' \<Longrightarrow> sf_done f'" "\<And>e. op f = Inl e \<Longrightarrow> sf_state f \<noteq> FS_RUNNING"
  shows "sat (\<lambda>_. managed_ok) managed_ok (on_future t op (s\<lparr>ca_managed := filter (\<lambda>x. x \<noteq> t) (ca_managed s)\<rparr>))"
proof (cases "op f")
  case (Inl e)
  then have "managed_ok (s\<lparr>ca_managed := filter (\<lambda>x. x \<noteq> t) (ca_managed s)\<rparr>)" using inv f op(2) [OF Inl] by (auto simp: managed_ok_def)
  then show ?thesis using Inl f by (simp add: on_future_run)
next
  case (Inr f')
  then have "managed_ok (s\<lparr>ca_managed := filter (\<lambda>x. x \<noteq> t) (ca_managed s), ca_futures := dict_set t f' (ca_futures s)\<rparr>)"
    using inv op(1) [OF Inr] by (auto simp: managed_ok_def sf_done_def)
  then show ?thesis using Inr f by (simp add: on_future_run)
qed

lemma result_managed:
  assumes inv: "managed_ok s" "futures_ok s" and ok: "move_ok s (FromScheduler now (FS_TaskResult r))"
  shows "sat (\<lambda>_. managed_ok) managed_ok (future_on_task_result r s)"
proof (cases "result_taskId r \<in> set (ca_managed s)")
  case True
  let ?t = "result_taskId r"
  obtain f where f: "dict_get (ca_futures s) ?t = Some f" "sf_state f = FS_RUNNING \<or> sf_cancelled f" using True inv(1) by (auto simp: managed_ok_def)
  have fok: "future_ok f" using inv(2) f(1) by (auto simp: futures_ok_def)
  obtain prof where prof: "retrieve_profiling_result r = Inr prof"
    using ok by (cases "retrieve_profiling_result r") (auto simp: retrieve_profiling_result_def split: if_splits)
  have "length (result_objects r) = 0 \<or> length (result_objects r) = Suc 0" using ok by (simp add: le_Suc_eq)
  then obtain oid where oid: "get_result_object_id r = Inr oid"
    using ok by (auto simp: get_result_object_id_def object_id_new_def length_Suc_conv)
  have done': "sf_done f'" if "set_result_or_exception v prof f = Inr f' \<or> set_result_ready oid rt prof f = Inr f'" for v rt f'
    using that by (auto simp: set_result_or_exception_def set_result_ready_def sf_done_def sf_cancelled_def start_result_object_fetch_def Let_def split: if_splits option.splits)
  have bad: "sf_state f \<noteq> FS_RUNNING" if "set_result_or_exception v prof f = Inl e \<or> set_result_ready oid rt prof f = Inl e" for v rt e
    using that fok by (auto simp: set_result_or_exception_def set_result_ready_def future_ok_def sf_done_def sf_cancelled_def start_result_object_fetch_def Let_def split: if_splits option.splits)
  have "sat (\<lambda>_. managed_ok) managed_ok (on_future ?t (set_result_or_exception v prof) (s\<lparr>ca_managed := filter (\<lambda>x. x \<noteq> ?t) (ca_managed s)\<rparr>))"
      "sat (\<lambda>_. managed_ok) managed_ok (on_future ?t (set_result_ready oid rt prof) (s\<lparr>ca_managed := filter (\<lambda>x. x \<noteq> ?t) (ca_managed s)\<rparr>))" for v rt
    by (rule settle_out [OF inv(1) f(1)]; use done' bad in blast)+
  then show ?thesis using True prof oid by (simp add: future_on_task_result_def andthen_run seq_run of_sum_def split: TaskResultType.split)
qed (use inv(1) in \<open>simp add: future_on_task_result_def andthen_run\<close>)

lemma confirm_managed:
  assumes inv: "managed_ok s"
  shows "sat (\<lambda>_. managed_ok) managed_ok (future_on_task_cancel_confirm c s)"
proof (cases "confirm_taskId c \<in> set (ca_managed s)")
  case True
  let ?t = "confirm_taskId c"
  obtain f where f: "dict_get (ca_futures s) ?t = Some f" "sf_state f = FS_RUNNING \<or> sf_cancelled f" using True inv(1) by (auto simp: managed_ok_def)
  have "sat (\<lambda>_. managed_ok) managed_ok (on_future ?t (\<lambda>f. Inr (set_canceled f)) (s\<lparr>ca_managed := filter (\<lambda>x. x \<noteq> ?t) (ca_managed s)\<rparr>))"
    by (rule settle_out [OF inv f(1)]) (auto simp: set_canceled_def mark_canceled_def sf_done_def)
  moreover have "managed_ok (s\<lparr>ca_managed := filter (\<lambda>x. x \<noteq> ?t) (ca_managed s) @ [?t]\<rparr>)" using inv f by (auto simp: managed_ok_def)
  ultimately show ?thesis using True by (simp add: future_on_task_cancel_confirm_def andthen_run seq_run split: TaskCancelConfirmType.split)
qed (use inv(1) in \<open>simp add: future_on_task_cancel_confirm_def andthen_run\<close>)

section \<open>The end of the agent\<close>

lemma fail_future_run:
  assumes "futures_ok s" "dict_get (ca_futures s) t = Some f"
  shows "\<exists>f'. fail_future e t s = Ret () (s\<lparr>ca_futures := dict_set t f' (ca_futures s)\<rparr>) \<and> sf_done f' \<and> (sf_done f \<longrightarrow> sf_state f' = sf_state f)"
proof -
  have "future_ok f" using assms by (auto simp: futures_ok_def)
  then show ?thesis using assms(2)
    by (auto simp: fail_future_def on_future_run set_result_or_exception_def future_ok_def sf_done_def sf_cancelled_def)
qed

definition future_settled :: "client_agent \<Rightarrow> TaskID \<Rightarrow> bool" where
  "future_settled s t = (case dict_get (ca_futures s) t of None \<Rightarrow> True | Some f \<Rightarrow> sf_done f)"

lemma future_settled_step: "futures_step s s' \<Longrightarrow> dict_has (ca_futures s) t \<Longrightarrow> future_settled s t \<Longrightarrow> future_settled s' t"
  by (force simp: futures_step_def future_settled_def dict_has_iff future_step_def sf_done_def)

lemma fail_futures_run:
  assumes "futures_ok s" "\<forall>t \<in> set ts. dict_has (ca_futures s) t"
  shows "\<exists>s'. for_each ts (fail_future e) s = Ret () s' \<and> futures_step s s' \<and> (\<forall>t. dict_has (ca_futures s') t = dict_has (ca_futures s) t) \<and>
    (\<forall>t. t \<in> set ts \<or> future_settled s t \<longrightarrow> future_settled s' t)"
  using assms
proof (induction ts arbitrary: s)
  case Nil
  then show ?case by (simp add: futures_step_refl)
next
  case (Cons t ts)
  obtain f where f: "dict_get (ca_futures s) t = Some f" using Cons.prems(2) by (auto simp: dict_has_iff)
  obtain f' where f': "fail_future e t s = Ret () (s\<lparr>ca_futures := dict_set t f' (ca_futures s)\<rparr>)" "sf_done f'"
    using fail_future_run [OF Cons.prems(1) f, of e] by blast
  let ?s = "s\<lparr>ca_futures := dict_set t f' (ca_futures s)\<rparr>"
  have "futures_kept (fail_future e t)" unfolding fail_future_def by (intro futures_kept_on_future fail_sound)
  then have one: "futures_ok ?s" "futures_step s ?s" using Cons.prems(1) f' by (auto simp: futures_kept_def dest: spec [of _ s])
  have has: "dict_has (ca_futures ?s) x = dict_has (ca_futures s) x" for x using f by (auto simp: dict_has_iff)
  have set: "future_settled ?s x" if "x = t \<or> future_settled s x" for x using that f'(2) by (auto simp: future_settled_def)
  obtain s' where s': "for_each ts (fail_future e) ?s = Ret () s'" "futures_step ?s s'" "\<And>x. dict_has (ca_futures s') x = dict_has (ca_futures ?s) x"
      "\<And>x. x \<in> set ts \<or> future_settled ?s x \<Longrightarrow> future_settled s' x"
    using Cons.IH [OF one(1)] Cons.prems(2) has by (metis list.set_intros(2))
  show ?case using s' f'(1) has set futures_step_trans [OF one(2)] by (intro exI [of _ s']) (auto simp: seq_run)
qed

lemma stop_known:
  assumes inv: "managed_ok s" "futures_ok s" and p: "public_exception e = Some p"
  shows "\<exists>s'. agent_stop e s = Ret () s' \<and> (\<forall>t. future_settled s' t) \<and> ca_managed s' = [] \<and> futures_step s s'"
proof -
  let ?c = "if e = YMQError then ret () else clear_all_objects True"
  let ?s0 = "s\<lparr>ca_stopped := True\<rparr>"
  have "\<exists>s1. ?c ?s0 = Ret () s1" by (simp add: clear_all_objects_def andthen_run seq_run to_scheduler_def)
  then obtain s1 where s1: "?c ?s0 = Ret () s1" by blast
  have "leaves ?c" using leaves_objects(2) by simp
  then have "sat (\<lambda>_. same_futures ?s0) (same_futures ?s0) (?c ?s0)" unfolding leaves_def by blast
  then have same: "ca_futures s1 = ca_futures s" "ca_managed s1 = ca_managed s" using s1 by (simp_all add: same_futures_def)
  have ok1: "futures_ok s1" using inv(2) same by (simp add: futures_ok_def)
  have "\<forall>t \<in> set (ca_managed s). dict_has (ca_futures s1) t" using inv(1) same by (force simp: managed_ok_def dict_has_iff)
  then obtain s2 where s2: "for_each (ca_managed s) (fail_future p) s1 = Ret () s2" "futures_step s1 s2"
      "\<And>t. dict_has (ca_futures s2) t = dict_has (ca_futures s1) t" "\<And>t. t \<in> set (ca_managed s) \<or> future_settled s1 t \<Longrightarrow> future_settled s2 t"
    using fail_futures_run [OF ok1, of "ca_managed s" p] by blast
  have "future_settled s2 t" for t
  proof (cases "t \<in> set (ca_managed s)")
    case False
    have "sf_done f" if "dict_get (ca_futures s) t = Some f" for f
      using that False inv by (cases "sf_state f") (auto simp: managed_ok_def futures_ok_def sf_done_def)
    then have "future_settled s1 t" using same by (simp add: future_settled_def split: option.split)
    then show ?thesis using s2(4) by blast
  qed (use s2(4) in blast)
  then show ?thesis using s1 s2(1,2) p same
    by (simp add: agent_stop_def seq_run set_all_futures_with_exception_def andthen_run future_settled_def futures_step_def)
qed

lemma stop_unknown:
  assumes "public_exception e = None"
  shows "\<exists>s'. agent_stop e s = Raise e s' \<and> ca_futures s' = ca_futures s \<and> ca_managed s' = ca_managed s"
proof -
  have "e \<noteq> YMQError" using assms by auto
  then show ?thesis using assms by (auto simp: agent_stop_def seq_run clear_all_objects_def andthen_run to_scheduler_def)
qed

section \<open>Reachable states\<close>

lemma force_run:
  assumes "futures_ok s" "managed_ok s"
  shows "sat (\<lambda>_ s'. futures_ok s' \<and> managed_ok s') (\<lambda>s'. futures_ok s' \<and> managed_ok s') (client_perform (ForceCancel t) s)"
proof -
  have "sat (\<lambda>_. managed_ok) managed_ok (on_future t (\<lambda>f. Inr (force_set_canceled f)) s)"
    by (rule on_future_state [OF assms(2)]) (auto simp add: force_set_canceled_def mark_canceled_def sf_cancelled_def split: if_splits)
  moreover have "future_ok (force_set_canceled f) \<and> sf_task_id (force_set_canceled f) = sf_task_id f \<and> sf_state (force_set_canceled f) \<noteq> FS_PENDING"
    if "future_ok f" "sf_state f \<noteq> FS_PENDING" for f
    using that by (auto simp: force_set_canceled_def mark_canceled_def future_ok_def sf_done_def sf_cancelled_def split: option.splits)
  ultimately show ?thesis using assms(1)
    by (cases "dict_get (ca_futures s) t") (auto simp: on_future_run futures_ok_def)
qed

lemma fetch_state: "start_result_object_fetch f = Inr f' \<Longrightarrow> sf_state f' = sf_state f"
  by (auto simp: start_result_object_fetch_def split: option.splits if_splits)

lemma perform_managed:
  assumes inv: "managed_ok s" "futures_ok s" and ok: "move_ok s m"
  shows "sat (\<lambda>_. managed_ok) managed_ok (client_perform m s)"
proof (cases m)
  case (AddFuture t d g)
  then have "\<not> dict_has (ca_futures s) t" using ok by simp
  then show ?thesis using inv(1)
    by (auto simp: AddFuture add_future_def set_running_or_notify_cancel_def new_future_def of_sum_def andthen_run managed_ok_def dict_has_iff)
next
  case (FromClient c)
  then show ?thesis using leaves_sat [OF leaves_receive(1) inv(1)] by simp
next
  case (FromScheduler now c)
  show ?thesis
  proof (cases c)
    case (FS_TaskResult r)
    note obj = leaves_objects(1) [of r, unfolded leaves_def, rule_format, of s]
    have rest: "sat (\<lambda>_. managed_ok) managed_ok (future_on_task_result r (s1\<lparr>ca_task_ids := x\<rparr>))" if "same_futures s s1" for s1 x
      by (rule result_managed [where now = now]) (use inv ok that in \<open>simp_all add: FromScheduler FS_TaskResult same_futures_def managed_ok_def futures_ok_def\<close>)
    show ?thesis
    proof (cases "object_on_task_result r s")
      case (Ret u s1)
      then have "same_futures s s1" using obj by simp
      then show ?thesis using Ret rest [of s1] same_managed [of s s1] inv(1) by (simp add: FromScheduler FS_TaskResult client_on_task_result_def seq_run andthen_run)
    qed (use obj same_managed [of s] inv(1) in \<open>auto simp: FromScheduler FS_TaskResult client_on_task_result_def seq_run\<close>)
  next
    case (FS_TaskCancelConfirm c')
    have "managed_ok (s\<lparr>ca_task_ids := x\<rparr>)" for x using inv(1) by (simp add: managed_ok_def)
    then show ?thesis using confirm_managed inv(1) by (simp add: FromScheduler FS_TaskCancelConfirm client_on_task_cancel_confirm_def andthen_run seq_run)
  qed (use leaves_sat [OF leaves_receive(3) inv(1)] leaves_sat [OF leaves_receive(4) inv(1)] inv(1) in \<open>simp_all add: FromScheduler\<close>)
next
  case (HeartbeatTick x y)
  then show ?thesis using leaves_sat [OF leaves_receive(2) inv(1)] by simp
next
  case (Fetched t r)
  have "sf_state (on_result_object_fetched r f) = sf_state f" if "dict_get (ca_futures s) t = Some f" for f
  proof (cases "sf_result_object_future f")
    case (Some q)
    have "future_ok f" using inv(2) that by (auto simp: futures_ok_def)
    then have "sf_done f" using Some by (auto simp: future_ok_def)
    then show ?thesis using Some by (auto simp: on_result_object_fetched_def set_result_or_exception_def sf_done_def sf_cancelled_def split: sum.split)
  qed (simp add: on_result_object_fetched_def)
  then show ?thesis unfolding Fetched client_perform.simps by (intro on_future_state [OF inv(1)]) auto
next
  case (CancelFuture t)
  show ?thesis unfolding CancelFuture client_perform.simps by (rule on_future_state [OF inv(1)]) (auto simp: sf_cancel_def split: if_splits)
next
  case (ForceCancel t)
  then show ?thesis using sat_mono [OF force_run [OF inv(2,1)]] by auto
next
  case (Stop e)
  show ?thesis
  proof (cases "public_exception e")
    case None
    then show ?thesis using stop_unknown [OF None, of s] inv(1) by (auto simp: Stop managed_ok_def)
  next
    case (Some p)
    then obtain s' where "agent_stop e s = Ret () s'" "\<forall>t. future_settled s' t" "ca_managed s' = []" using stop_known [OF inv Some] by blast
    moreover have "managed_ok s'" unfolding managed_ok_def
    proof (intro conjI allI impI)
      fix t f assume f: "dict_get (ca_futures s') t = Some f" "sf_state f = FS_RUNNING"
      have "future_settled s' t" using calculation(2) by blast
      then show "t \<in> set (ca_managed s')" using f by (simp add: future_settled_def sf_done_def)
    qed (use calculation(3) in simp)
    ultimately show ?thesis by (simp add: Stop)
  qed
next
  case (AddCallback t)
  show ?thesis unfolding AddCallback client_perform.simps
    by (rule on_future_state [OF inv(1)]) (use fetch_state in \<open>auto simp: add_done_callback_def split: if_splits\<close>)
next
  case (AddWaiter t)
  show ?thesis unfolding AddWaiter client_perform.simps
    by (rule on_future_state [OF inv(1)]) (use fetch_state in \<open>fastforce simp: on_waiter_added_def Let_def split: if_splits\<close>)
next
  case (RequestResult t)
  show ?thesis unfolding RequestResult client_perform.simps
    by (rule on_future_state [OF inv(1)]) (use fetch_state in \<open>auto simp: request_result_def split: if_splits\<close>)
qed

lemma agent_reach_ok: "agent_reach s \<Longrightarrow> futures_ok s \<and> managed_ok s"
proof (induction rule: agent_reach.induct)
  case (start me address now)
  then show ?case by (simp add: client_start_def futures_ok_def managed_ok_def)
next
  case (move s m s' e)
  have "sat (\<lambda>_. futures_ok) futures_ok (client_perform m s)"
  proof (cases "\<exists>t. m = ForceCancel t")
    case True
    then obtain t where t: "m = ForceCancel t" by blast
    show ?thesis unfolding t by (rule sat_mono [OF force_run]) (use move.IH in auto)
  next
    case False
    show ?thesis by (rule sat_mono [OF perform_futures_kept]) (use False move in auto)
  qed
  then show ?case using perform_managed [of s m] move by auto
qed

section \<open>Results\<close>

lemma settled_outcome_stays:
  assumes "agent_reach s" "move_ok s m" "\<And>x. m \<noteq> ForceCancel x" "client_perform m s = Ret () s' \<or> client_perform m s = Raise e s'"
    and "dict_get (ca_futures s) t = Some f"
  shows "\<exists>f'. dict_get (ca_futures s') t = Some f' \<and> future_step f f'"
proof -
  have "sat (\<lambda>_ s'. futures_ok s' \<and> futures_step s s') (\<lambda>s'. futures_ok s' \<and> futures_step s s') (client_perform m s)"
    by (rule perform_futures_kept) (use assms(1-3) agent_reach_ok in auto)
  then have "futures_step s s'" using assms(4) by auto
  then show ?thesis using assms(5) by (simp add: futures_step_def)
qed

lemma client_result_ready:
  assumes reach: "agent_reach s" and t: "result_taskId r \<in> set (ca_task_ids s)" and f: "dict_get (ca_futures s) (result_taskId r) = Some f" "sf_state f = FS_RUNNING"
    and now: "\<not> sf_is_delayed f \<or> 0 < sf_listeners f"
    and r: "resultType r \<noteq> TR_failedWorkerDied" "result_objects r = [oid]" "length oid = 32" "result_metadata r = [] \<or> length (result_metadata r) = 16"
  shows "\<exists>s' f'. client_perform (FromScheduler clock (FS_TaskResult r)) s = Ret () s' \<and> result_taskId r \<notin> set (ca_task_ids s') \<and>
    result_taskId r \<notin> set (ca_managed s') \<and> dict_get (ca_futures s') (result_taskId r) = Some f' \<and> sf_state f' = FS_FINISHED \<and> sf_value f' = None \<and>
    sf_result_received f' = False \<and> sf_profiling_info f' = (if result_metadata r = [] then None else Some (result_metadata r)) \<and>
    sf_result_object_future f' = Some \<lparr>fetch_object_id = oid, fetch_is_exception = (resultType r \<noteq> TR_success), fetch_delete_after = (sf_group_task_id f = None)\<rparr>"
proof -
  let ?t = "result_taskId r"
  have ok: "futures_ok s" "managed_ok s" using agent_reach_ok [OF reach] by auto
  have man: "?t \<in> set (ca_managed s)" using ok(2) f by (auto simp: managed_ok_def)
  have fok: "future_ok f" using ok(1) f(1) by (auto simp: futures_ok_def)
  then have fields: "\<not> sf_result_received f" "sf_value f = None" "sf_profiling_info f = None" "sf_result_object_future f = None"
    using f(2) by (auto simp: future_ok_def sf_done_def split: option.splits)
  have prof: "retrieve_profiling_result r = Inr (if result_metadata r = [] then None else Some (result_metadata r))"
    using r(4) by (auto simp: retrieve_profiling_result_def)
  have id: "get_result_object_id r = Inr (Some oid)" using r(2,3) by (simp add: get_result_object_id_def object_id_new_def)
  have obj: "object_on_task_result r s = Ret () (s\<lparr>ca_sent_object_ids := set_add oid (ca_sent_object_ids s)\<rparr>)"
    using r(2,3) by (simp add: object_on_task_result_def object_id_new_def of_sum_def seq_run andthen_run)
  show ?thesis
    using t man f fields now r(1)
    by (cases "resultType r") (auto simp: client_on_task_result_def future_on_task_result_def obj prof id seq_run andthen_run of_sum_def on_future_run
        set_result_ready_def sf_done_def sf_cancelled_def start_result_object_fetch_def Let_def)
qed

lemma fetched_value:
  assumes "dict_get (ca_futures s) t = Some f" "sf_state f = FS_FINISHED" "\<not> sf_result_received f" "sf_result_object_future f = Some q"
  shows "\<exists>s' f'. client_perform (Fetched t (Inr v)) s = Ret () s' \<and> dict_get (ca_futures s') t = Some f' \<and>
    sf_value f' = Some (if fetch_is_exception q then ExceptionValue (RemoteException v) else ResultValue v) \<and> sf_result_received f'"
  using assms by (auto simp: on_future_run on_result_object_fetched_def set_result_or_exception_def sf_cancelled_def)

end
