(* ===== verification/Queues.thy ===== *)
theory Queues
  imports Prelude "HOL-Library.Product_Lexorder" "HOL-Library.Word"
begin

text \<open>
  The queues the schedulers rest on: \<open>IndexedQueue\<close> (a list with an index for membership
  and removal) and \<open>StablePriorityQueue\<close> with its asyncio wrapper \<open>AsyncPriorityQueue\<close>.
  The containers themselves are C++ (\<open>src/src/cpp/scaler/utility\<close>); the errors are those
  of their Python bindings. The priority queue is generic in the type of its insertion
  counter: the code has a \<open>uint64_t\<close>, the clients of this theory use \<open>nat\<close>, and
  \<open>spq_put_refines\<close> and its companions show that the two agree until the counter wraps.
\<close>

section \<open>IndexedQueue\<close>

text \<open>
  \<open>_list\<close> grows at its front, \<open>get\<close> takes from its back. \<open>_map\<close> holds an
  iterator for every item; the model keeps its key set, and erasing through the iterator
  removes the one occurrence of the item.
\<close>

record 'a indexed_queue =
  iq_list :: "'a list"
  iq_map :: "'a set"

definition iq_empty :: "'a indexed_queue" where
  "iq_empty = \<lparr>iq_list = [], iq_map = {}\<rparr>"

definition iq_contains :: "'a indexed_queue \<Rightarrow> 'a \<Rightarrow> bool" where
  "iq_contains q x = (x \<in> iq_map q)"

definition iq_size :: "'a indexed_queue \<Rightarrow> nat" where
  "iq_size q = length (iq_list q)"

definition iq_put :: "'a \<Rightarrow> 'a indexed_queue \<Rightarrow> py_exn + 'a indexed_queue" where
  "iq_put x q =
     (if x \<in> iq_map q then Inl KeyError
      else Inr \<lparr>iq_list = x # iq_list q, iq_map = insert x (iq_map q)\<rparr>)"

definition iq_get :: "'a indexed_queue \<Rightarrow> py_exn + 'a \<times> 'a indexed_queue" where
  "iq_get q =
     (if iq_list q = [] then Inl ValueError
      else let x = last (iq_list q)
           in Inr (x, \<lparr>iq_list = butlast (iq_list q), iq_map = iq_map q - {x}\<rparr>))"

text \<open>
  The binding sets a \<open>ValueError\<close> for a missing item and then still returns \<open>None\<close>,
  which the interpreter reports as a \<open>SystemError\<close>.
\<close>

definition iq_remove :: "'a \<Rightarrow> 'a indexed_queue \<Rightarrow> py_exn + 'a indexed_queue" where
  "iq_remove x q =
     (if x \<notin> iq_map q then Inl SystemError
      else Inr \<lparr>iq_list = remove1 x (iq_list q), iq_map = iq_map q - {x}\<rparr>)"

definition iq_to_list :: "'a indexed_queue \<Rightarrow> 'a list" where
  "iq_to_list q = rev (iq_list q)"

definition iq_inv :: "'a indexed_queue \<Rightarrow> bool" where
  "iq_inv q = (distinct (iq_list q) \<and> iq_map q = set (iq_list q))"

lemma iq_inv_empty [simp]: "iq_inv iq_empty"
  by (simp add: iq_inv_def iq_empty_def)

lemma iq_to_list_empty [simp]: "iq_to_list iq_empty = []"
  by (simp add: iq_to_list_def iq_empty_def)

lemma iq_contains_iff: "iq_inv q \<Longrightarrow> iq_contains q x \<longleftrightarrow> x \<in> set (iq_to_list q)"
  by (simp add: iq_contains_def iq_inv_def iq_to_list_def)

lemma iq_size_eq: "iq_size q = length (iq_to_list q)"
  by (simp add: iq_size_def iq_to_list_def)

lemma iq_distinct: "iq_inv q \<Longrightarrow> distinct (iq_to_list q)"
  by (simp add: iq_inv_def iq_to_list_def)

lemma iq_put_spec:
  assumes "iq_inv q"
  shows "iq_put x q = Inl KeyError \<and> x \<in> set (iq_to_list q) \<or>
    (\<exists>q'. iq_put x q = Inr q' \<and> iq_inv q' \<and> iq_to_list q' = iq_to_list q @ [x] \<and> x \<notin> set (iq_to_list q))"
  using assms by (auto simp: iq_put_def iq_inv_def iq_to_list_def)

lemma iq_put_new:
  assumes "iq_inv q" and "x \<notin> set (iq_to_list q)"
  obtains q' where "iq_put x q = Inr q'" "iq_inv q'" "iq_to_list q' = iq_to_list q @ [x]"
  using iq_put_spec [OF assms(1), of x] assms(2) by auto

lemma remove1_rev: "distinct xs \<Longrightarrow> rev (remove1 x xs) = remove1 x (rev xs)"
  by (simp add: distinct_remove1_removeAll removeAll_filter_not_eq rev_filter)

lemma iq_remove_present:
  assumes "iq_inv q" and "x \<in> set (iq_to_list q)"
  obtains q' where "iq_remove x q = Inr q'" "iq_inv q'" "iq_to_list q' = remove1 x (iq_to_list q)"
proof
  let ?q' = "\<lparr>iq_list = remove1 x (iq_list q), iq_map = iq_map q - {x}\<rparr>"
  show "iq_remove x q = Inr ?q'"
    using assms by (simp add: iq_remove_def iq_inv_def iq_to_list_def)
  show "iq_inv ?q'" "iq_to_list ?q' = remove1 x (iq_to_list q)"
    using assms by (auto simp: iq_inv_def iq_to_list_def remove1_rev)
qed

lemma iq_get_spec:
  assumes "iq_inv q" and "iq_to_list q = x # xs"
  obtains q' where "iq_get q = Inr (x, q')" "iq_inv q'" "iq_to_list q' = xs"
proof
  let ?q' = "\<lparr>iq_list = butlast (iq_list q), iq_map = iq_map q - {x}\<rparr>"
  have l: "iq_list q = rev xs @ [x]"
    using arg_cong [OF assms(2), of rev] by (simp add: iq_to_list_def)
  then show "iq_get q = Inr (x, ?q')" by (simp add: iq_get_def Let_def)
  show "iq_inv ?q'" using assms(1) by (auto simp: iq_inv_def l)
  show "iq_to_list ?q' = xs" by (simp add: iq_to_list_def l)
qed

section \<open>Ordered maps\<close>

text \<open>\<open>std::map\<close> as a list of entries with strictly increasing keys.\<close>

fun omap_put :: "'k::linorder \<Rightarrow> 'v \<Rightarrow> ('k \<times> 'v) list \<Rightarrow> ('k \<times> 'v) list" where
  "omap_put k v [] = [(k, v)]"
| "omap_put k v (e # m) =
     (if fst e < k then e # omap_put k v m
      else if fst e = k then (k, v) # m else (k, v) # e # m)"

definition omap_erase :: "'k \<Rightarrow> ('k \<times> 'v) list \<Rightarrow> ('k \<times> 'v) list" where
  "omap_erase k m = filter (\<lambda>e. fst e \<noteq> k) m"

definition omap_ok :: "('k::linorder \<times> 'v) list \<Rightarrow> bool" where
  "omap_ok m = sorted_wrt (<) (map fst m)"

lemma set_omap_put:
  "omap_ok m \<Longrightarrow> set (omap_put k v m) = insert (k, v) {e \<in> set m. fst e \<noteq> k}"
  by (induction m) (auto simp: omap_ok_def)

lemma omap_ok_put: "omap_ok m \<Longrightarrow> omap_ok (omap_put k v m)"
proof (induction m)
  case Nil
  then show ?case by (simp add: omap_ok_def)
next
  case (Cons e m)
  have m: "omap_ok m" and e: "\<forall>x\<in>set m. fst e < fst x" using Cons.prems by (auto simp: omap_ok_def)
  show ?case
  proof (cases "fst e < k")
    case True
    have "\<forall>x\<in>set (omap_put k v m). fst e < fst x"
      using e True by (auto simp: set_omap_put [OF m])
    then show ?thesis using True Cons.IH [OF m] by (auto simp: omap_ok_def)
  next
    case False
    then show ?thesis using Cons.prems e by (force simp: omap_ok_def)
  qed
qed

lemma set_omap_erase: "set (omap_erase k m) = {e \<in> set m. fst e \<noteq> k}"
  by (auto simp: omap_erase_def)

lemma omap_ok_erase: "omap_ok m \<Longrightarrow> omap_ok (omap_erase k m)"
  by (induction m) (auto simp: omap_ok_def omap_erase_def)

lemma omap_ok_tl: "omap_ok (e # m) \<Longrightarrow> omap_ok m"
  by (simp add: omap_ok_def)

lemma omap_head_least: "omap_ok (e # m) \<Longrightarrow> x \<in> set m \<Longrightarrow> fst e < fst x"
  by (auto simp: omap_ok_def)

lemma omap_functional:
  "omap_ok m \<Longrightarrow> (k, v) \<in> set m \<Longrightarrow> (k, w) \<in> set m \<Longrightarrow> v = w"
  by (induction m) (auto simp: omap_ok_def)

lemma omap_head_unique: "omap_ok (e # m) \<Longrightarrow> x \<in> set m \<Longrightarrow> fst x \<noteq> fst e"
  using omap_head_least by fastforce

section \<open>StablePriorityQueue\<close>

record ('a, 'c) spq =
  spq_locator :: "('a, int \<times> 'c) dict"
  spq_queue :: "((int \<times> 'c) \<times> 'a) list"
  spq_counter :: 'c

definition spq_empty :: "('a, 'c::{linorder, one, plus, zero}) spq" where
  "spq_empty = \<lparr>spq_locator = [], spq_queue = [], spq_counter = 0\<rparr>"

definition spq_size :: "('a, 'c) spq \<Rightarrow> nat" where
  "spq_size q = length (spq_queue q)"

definition spq_put :: "int \<Rightarrow> 'a \<Rightarrow> ('a, 'c::{linorder, one, plus, zero}) spq \<Rightarrow> ('a, 'c) spq" where
  "spq_put p x q =
     (let key = (p, spq_counter q)
      in \<lparr>spq_locator = dict_set x key (spq_locator q),
          spq_queue = omap_put key x (spq_queue q),
          spq_counter = spq_counter q + 1\<rparr>)"

definition spq_get :: "('a, 'c) spq \<Rightarrow> ((int \<times> 'a) \<times> ('a, 'c) spq) option" where
  "spq_get q =
     (case spq_queue q of
        [] \<Rightarrow> None
      | (key, x) # rest \<Rightarrow>
          Some ((fst key, x), q\<lparr>spq_queue := rest, spq_locator := dict_pop x (spq_locator q)\<rparr>))"

definition spq_remove :: "'a \<Rightarrow> ('a, 'c) spq \<Rightarrow> ('a, 'c) spq" where
  "spq_remove x q =
     (case dict_get (spq_locator q) x of
        None \<Rightarrow> q
      | Some key \<Rightarrow> q\<lparr>spq_queue := omap_erase key (spq_queue q),
                      spq_locator := dict_pop x (spq_locator q)\<rparr>)"

text \<open>The entry moves to priority minus one and behind every present entry of that priority.\<close>

definition spq_decrease_priority ::
  "'a \<Rightarrow> ('a, 'c::{linorder, one, plus, zero}) spq \<Rightarrow> ('a, 'c) spq" where
  "spq_decrease_priority x q =
     (case dict_get (spq_locator q) x of
        None \<Rightarrow> q
      | Some key \<Rightarrow>
          let key' = (fst key - 1, spq_counter q)
          in \<lparr>spq_locator = dict_set x key' (spq_locator q),
              spq_queue = omap_put key' x (omap_erase key (spq_queue q)),
              spq_counter = spq_counter q + 1\<rparr>)"

definition spq_max_priority_item :: "('a, 'c) spq \<Rightarrow> (int \<times> 'a) option" where
  "spq_max_priority_item q =
     (case spq_queue q of [] \<Rightarrow> None | (key, x) # _ \<Rightarrow> Some (fst key, x))"

text \<open>The priority the queue holds for an item.\<close>

definition spq_prio :: "('a, 'c) spq \<Rightarrow> 'a \<Rightarrow> int option" where
  "spq_prio q x = map_option fst (dict_get (spq_locator q) x)"

definition spq_inv :: "('a, nat) spq \<Rightarrow> bool" where
  "spq_inv q \<longleftrightarrow>
     omap_ok (spq_queue q) \<and>
     (\<forall>x key. dict_get (spq_locator q) x = Some key \<longleftrightarrow> (key, x) \<in> set (spq_queue q)) \<and>
     (\<forall>e \<in> set (spq_queue q). snd (fst e) < spq_counter q)"

lemma spq_inv_empty [simp]: "spq_inv spq_empty"
  by (simp add: spq_inv_def spq_empty_def omap_ok_def)

lemma spq_prio_empty [simp]: "spq_prio spq_empty x = None"
  by (simp add: spq_prio_def spq_empty_def)

lemma spq_inv_mem: "spq_inv q \<Longrightarrow> (key, x) \<in> set (spq_queue q) \<longleftrightarrow> dict_get (spq_locator q) x = Some key"
  unfolding spq_inv_def by blast

lemma spq_inv_ok: "spq_inv q \<Longrightarrow> omap_ok (spq_queue q)"
  by (simp add: spq_inv_def)

lemma spq_inv_counter: "spq_inv q \<Longrightarrow> e \<in> set (spq_queue q) \<Longrightarrow> snd (fst e) < spq_counter q"
  by (simp add: spq_inv_def)

lemma spq_invI:
  assumes "omap_ok (spq_queue q)"
    and "\<And>x key. (key, x) \<in> set (spq_queue q) \<longleftrightarrow> dict_get (spq_locator q) x = Some key"
    and "\<And>e. e \<in> set (spq_queue q) \<Longrightarrow> snd (fst e) < spq_counter q"
  shows "spq_inv q"
  unfolding spq_inv_def using assms by blast

lemma spq_fresh: "spq_inv q \<Longrightarrow> e \<in> set (spq_queue q) \<Longrightarrow> fst e \<noteq> (p, spq_counter q)"
  using spq_inv_counter by fastforce

lemma spq_prio_None_iff: "spq_prio q x = None \<longleftrightarrow> dict_get (spq_locator q) x = None"
  by (simp add: spq_prio_def)

lemma spq_put_inv:
  assumes inv: "spq_inv q" and new: "spq_prio q x = None"
  shows "spq_inv (spq_put p x q)" and "spq_prio (spq_put p x q) = (spq_prio q)(x \<mapsto> p)"
proof -
  let ?k = "(p, spq_counter q)"
  have absent: "(key, x) \<notin> set (spq_queue q)" for key
    using new by (simp add: spq_inv_mem [OF inv] spq_prio_None_iff)
  have set: "set (spq_queue (spq_put p x q)) = insert (?k, x) (set (spq_queue q))"
    using spq_fresh [OF inv] by (auto simp: spq_put_def Let_def set_omap_put [OF spq_inv_ok [OF inv]])
  have loc: "dict_get (spq_locator (spq_put p x q)) y =
      (if y = x then Some ?k else dict_get (spq_locator q) y)" for y
    by (simp add: spq_put_def Let_def)
  show "spq_inv (spq_put p x q)"
  proof (rule spq_invI)
    show "omap_ok (spq_queue (spq_put p x q))"
      using omap_ok_put [OF spq_inv_ok [OF inv]] by (simp add: spq_put_def Let_def)
    show "(key, y) \<in> set (spq_queue (spq_put p x q)) \<longleftrightarrow>
        dict_get (spq_locator (spq_put p x q)) y = Some key" for y key
      using absent [of key] spq_inv_mem [OF inv, of key y] unfolding set loc by auto
    show "snd (fst e) < spq_counter (spq_put p x q)" if "e \<in> set (spq_queue (spq_put p x q))" for e
      using that spq_inv_counter [OF inv, of e] unfolding set by (auto simp: spq_put_def Let_def)
  qed
  show "spq_prio (spq_put p x q) = (spq_prio q)(x \<mapsto> p)"
    by (simp add: spq_prio_def loc fun_eq_iff)
qed

lemma spq_remove_inv:
  assumes inv: "spq_inv q"
  shows "spq_inv (spq_remove x q)" and "spq_prio (spq_remove x q) = (spq_prio q)(x := None)"
proof -
  show "spq_inv (spq_remove x q)"
  proof (cases "dict_get (spq_locator q) x")
    case None
    with inv show ?thesis by (simp add: spq_remove_def)
  next
    case (Some key)
    then have "(key, x) \<in> set (spq_queue q)" by (simp add: spq_inv_mem [OF inv])
    then have only: "(key, y) \<in> set (spq_queue q) \<longleftrightarrow> y = x" for y
      using omap_functional [OF spq_inv_ok [OF inv], of key y x] by blast
    have q': "spq_remove x q = q\<lparr>spq_queue := omap_erase key (spq_queue q),
        spq_locator := dict_pop x (spq_locator q)\<rparr>"
      by (simp add: spq_remove_def Some)
    have "(k, y) \<in> set (omap_erase key (spq_queue q)) \<longleftrightarrow>
        dict_get (dict_pop x (spq_locator q)) y = Some k" for k y
      using only [of y] spq_inv_mem [OF inv, of k y] Some by (auto simp: set_omap_erase)
    moreover have "omap_ok (omap_erase key (spq_queue q))"
      by (rule omap_ok_erase [OF spq_inv_ok [OF inv]])
    ultimately show ?thesis
      using spq_inv_counter [OF inv] unfolding q' by (intro spq_invI) (auto simp: set_omap_erase)
  qed
  show "spq_prio (spq_remove x q) = (spq_prio q)(x := None)"
    by (auto simp: spq_prio_def spq_remove_def fun_eq_iff split: option.splits)
qed

text \<open>Decreasing a priority is removing the item and putting it back one lower.\<close>

lemma spq_decrease_inv:
  assumes inv: "spq_inv q" and p: "spq_prio q x = Some p"
  shows "spq_inv (spq_decrease_priority x q)"
    and "spq_prio (spq_decrease_priority x q) = (spq_prio q)(x \<mapsto> p - 1)"
proof -
  obtain c where loc: "dict_get (spq_locator q) x = Some (p, c)"
    using p by (cases "dict_get (spq_locator q) x") (auto simp: spq_prio_def)
  let ?r = "spq_put (p - 1) x (spq_remove x q)"
  have r: "spq_inv ?r" "spq_prio ?r = (spq_prio q)(x \<mapsto> p - 1)"
    using spq_remove_inv [OF inv, of x] spq_put_inv [of "spq_remove x q" x "p - 1"] by auto
  have q: "spq_queue (spq_decrease_priority x q) = spq_queue ?r"
    and c: "spq_counter (spq_decrease_priority x q) = spq_counter ?r"
    and l: "dict_get (spq_locator (spq_decrease_priority x q)) y = dict_get (spq_locator ?r) y" for y
    by (simp_all add: spq_decrease_priority_def spq_put_def spq_remove_def Let_def loc)
  show "spq_inv (spq_decrease_priority x q)"
    by (rule spq_invI) (unfold q c l, simp_all add: spq_inv_mem [OF r(1)] spq_inv_ok [OF r(1)] spq_inv_counter [OF r(1)])
  from r(2) show "spq_prio (spq_decrease_priority x q) = (spq_prio q)(x \<mapsto> p - 1)"
    by (simp add: spq_prio_def l fun_eq_iff)
qed

lemma spq_get_None_iff: "spq_inv q \<Longrightarrow> spq_get q = None \<longleftrightarrow> (\<forall>x. spq_prio q x = None)"
proof -
  assume inv: "spq_inv q"
  have "spq_queue q = [] \<longleftrightarrow> (\<forall>x key. (key, x) \<notin> set (spq_queue q))"
    by (metis list.set_intros(1) neq_Nil_conv empty_iff empty_set surj_pair)
  also have "\<dots> \<longleftrightarrow> (\<forall>x. spq_prio q x = None)"
    unfolding spq_inv_mem [OF inv] spq_prio_None_iff by (metis not_Some_eq)
  finally show ?thesis by (cases "spq_queue q") (simp_all add: spq_get_def split_beta)
qed

lemma spq_get_inv:
  assumes inv: "spq_inv q" and g: "spq_get q = Some ((p, x), q')"
  shows "spq_inv q'" and "spq_prio q' = (spq_prio q)(x := None)" and "spq_prio q x = Some p"
    and "spq_prio q y = Some p' \<Longrightarrow> p \<le> p'"
proof -
  obtain c rest where qq: "spq_queue q = ((p, c), x) # rest"
    and q': "q' = q\<lparr>spq_queue := rest, spq_locator := dict_pop x (spq_locator q)\<rparr>"
    using g by (auto simp: spq_get_def split: list.splits)
  have ok: "omap_ok (((p, c), x) # rest)" using spq_inv_ok [OF inv] by (simp add: qq)
  have loc: "dict_get (spq_locator q) x = Some (p, c)"
    unfolding spq_inv_mem [OF inv, symmetric] by (simp add: qq)
  then show "spq_prio q x = Some p" by (simp add: spq_prio_def)
  show "spq_prio q' = (spq_prio q)(x := None)" by (auto simp: q' spq_prio_def)
  have other: "y \<noteq> x" if "(key, y) \<in> set rest" for key y
  proof
    assume "y = x"
    with that have "dict_get (spq_locator q) x = Some key"
      by (simp add: spq_inv_mem [OF inv, symmetric] qq)
    with loc omap_head_unique [OF ok that] show False by simp
  qed
  have "(key, y) \<in> set rest \<longleftrightarrow> dict_get (dict_pop x (spq_locator q)) y = Some key" for key y
    using spq_inv_mem [OF inv, of key y] other [of key y] loc by (auto simp: qq)
  then show "spq_inv q'"
    using spq_inv_counter [OF inv] omap_ok_tl [OF ok] unfolding q'
    by (intro spq_invI) (auto simp: qq)
  show "p \<le> p'" if y: "spq_prio q y = Some p'"
  proof -
    obtain c' where "dict_get (spq_locator q) y = Some (p', c')"
      using y by (auto simp: spq_prio_def)
    then have "((p', c'), y) \<in> set (spq_queue q)" by (simp add: spq_inv_mem [OF inv])
    then show ?thesis using omap_head_least [OF ok, of "((p', c'), y)"] by (auto simp: qq)
  qed
qed

lemma spq_max_priority_item_get:
  "spq_max_priority_item q = map_option fst (spq_get q)"
  by (simp add: spq_max_priority_item_def spq_get_def split: list.splits)

lemma spq_size_pos_iff: "spq_size q = 0 \<longleftrightarrow> spq_get q = None"
  by (simp add: spq_size_def spq_get_def split: list.splits)

section \<open>AsyncPriorityQueue\<close>

text \<open>
  The asyncio wrapper: the non-blocking operations of \<open>asyncio.Queue\<close> over the queue
  above, unbounded, so that \<open>put_nowait\<close> never refuses and \<open>get_nowait\<close> raises
  \<open>QueueEmpty\<close> on an empty queue.
\<close>

type_synonym 'a async_priority_queue = "('a, nat) spq"

definition apq_put_nowait :: "int \<times> 'a \<Rightarrow> 'a async_priority_queue \<Rightarrow> 'a async_priority_queue" where
  "apq_put_nowait item q = spq_put (fst item) (snd item) q"

definition apq_get_nowait ::
  "'a async_priority_queue \<Rightarrow> py_exn + (int \<times> 'a) \<times> 'a async_priority_queue" where
  "apq_get_nowait q = (case spq_get q of None \<Rightarrow> Inl QueueEmpty | Some r \<Rightarrow> Inr r)"

definition apq_is_empty :: "'a async_priority_queue \<Rightarrow> bool" where
  "apq_is_empty q = (spq_size q = 0)"

definition apq_remove :: "'a \<Rightarrow> 'a async_priority_queue \<Rightarrow> 'a async_priority_queue" where
  "apq_remove x q = spq_remove x q"

definition apq_decrease_priority :: "'a \<Rightarrow> 'a async_priority_queue \<Rightarrow> 'a async_priority_queue" where
  "apq_decrease_priority x q = spq_decrease_priority x q"

definition apq_max_priority_item :: "'a async_priority_queue \<Rightarrow> py_exn + int \<times> 'a" where
  "apq_max_priority_item q =
     (case spq_max_priority_item q of None \<Rightarrow> Inl ValueError | Some r \<Rightarrow> Inr r)"

section \<open>The contract of a priority queue\<close>

text \<open>
  What the allocators rely on: the queue is a finite map from items to priorities, and
  \<open>get\<close> takes an item of least priority.
\<close>

locale priority_queue =
  fixes prio :: "'q \<Rightarrow> 'a \<Rightarrow> int option"
    and invar :: "'q \<Rightarrow> bool"
    and emp :: 'q
    and put :: "int \<times> 'a \<Rightarrow> 'q \<Rightarrow> 'q"
    and get :: "'q \<Rightarrow> py_exn + (int \<times> 'a) \<times> 'q"
    and peek :: "'q \<Rightarrow> py_exn + int \<times> 'a"
    and del :: "'a \<Rightarrow> 'q \<Rightarrow> 'q"
    and decr :: "'a \<Rightarrow> 'q \<Rightarrow> 'q"
  assumes emp: "invar emp" "prio emp x = None"
    and put: "invar q \<Longrightarrow> prio q x = None \<Longrightarrow> invar (put (p, x) q) \<and> prio (put (p, x) q) = (prio q)(x \<mapsto> p)"
    and get_empty: "invar q \<Longrightarrow> get q = Inl e \<Longrightarrow> prio q x = None"
    and get: "invar q \<Longrightarrow> get q = Inr ((p, x), q') \<Longrightarrow>
      invar q' \<and> prio q x = Some p \<and> prio q' = (prio q)(x := None) \<and> (\<forall>y p'. prio q y = Some p' \<longrightarrow> p \<le> p')"
    and peek: "invar q \<Longrightarrow> get q = Inr ((p, x), q') \<Longrightarrow> peek q = Inr (p, x)"
    and del: "invar q \<Longrightarrow> invar (del x q) \<and> prio (del x q) = (prio q)(x := None)"
    and decr: "invar q \<Longrightarrow> prio q x = Some p \<Longrightarrow> invar (decr x q) \<and> prio (decr x q) = (prio q)(x \<mapsto> p - 1)"
begin

lemma put_after_get:
  assumes "invar q" and "get q = Inr ((p, x), q')"
  shows "invar (put (p', x) q')" and "prio (put (p', x) q') = (prio q)(x \<mapsto> p')"
  using get [OF assms] put [of q' x p'] by auto

lemma get_nonempty:
  assumes "invar q" and "prio q x = Some p"
  obtains p' y q' where "get q = Inr ((p', y), q')"
  using assms get_empty [of q _ x] by (cases "get q") auto

end

interpretation apq: priority_queue
  spq_prio spq_inv spq_empty apq_put_nowait apq_get_nowait apq_max_priority_item apq_remove
  apq_decrease_priority
proof unfold_locales
  fix q :: "'a async_priority_queue" and x p e and q' :: "'a async_priority_queue"
  show "spq_inv (spq_empty :: 'a async_priority_queue)" by simp
  show "spq_prio (spq_empty :: 'a async_priority_queue) x = None" by simp
  show "spq_inv q \<Longrightarrow> spq_prio q x = None \<Longrightarrow>
      spq_inv (apq_put_nowait (p, x) q) \<and> spq_prio (apq_put_nowait (p, x) q) = (spq_prio q)(x \<mapsto> p)"
    by (simp add: apq_put_nowait_def spq_put_inv)
  show "spq_inv q \<Longrightarrow> apq_get_nowait q = Inl e \<Longrightarrow> spq_prio q x = None"
    using spq_get_None_iff [of q] by (auto simp: apq_get_nowait_def split: option.splits)
  show "spq_inv q \<Longrightarrow> apq_get_nowait q = Inr ((p, x), q') \<Longrightarrow>
      spq_inv q' \<and> spq_prio q x = Some p \<and> spq_prio q' = (spq_prio q)(x := None) \<and>
      (\<forall>y p'. spq_prio q y = Some p' \<longrightarrow> p \<le> p')"
    using spq_get_inv [of q p x q'] by (auto simp: apq_get_nowait_def split: option.splits)
  show "spq_inv q \<Longrightarrow> apq_get_nowait q = Inr ((p, x), q') \<Longrightarrow> apq_max_priority_item q = Inr (p, x)"
    by (auto simp: apq_get_nowait_def apq_max_priority_item_def spq_max_priority_item_get
        split: option.splits)
  show "spq_inv q \<Longrightarrow> spq_inv (apq_remove x q) \<and> spq_prio (apq_remove x q) = (spq_prio q)(x := None)"
    by (simp add: apq_remove_def spq_remove_inv)
  show "spq_inv q \<Longrightarrow> spq_prio q x = Some p \<Longrightarrow>
      spq_inv (apq_decrease_priority x q) \<and> spq_prio (apq_decrease_priority x q) = (spq_prio q)(x \<mapsto> p - 1)"
    by (simp add: apq_decrease_priority_def spq_decrease_inv)
qed

lemma spq_size_card:
  assumes inv: "spq_inv q"
  shows "spq_size q = card {x. spq_prio q x \<noteq> None}"
proof -
  let ?Q = "spq_queue q"
  have "sorted_wrt (<) (map fst ?Q)" using spq_inv_ok [OF inv] by (simp add: omap_ok_def)
  then have "distinct ?Q" using strict_sorted_iff distinct_map by blast
  moreover have "inj_on snd (set ?Q)"
    using spq_inv_mem [OF inv] by (intro inj_onI) (metis option.inject prod.collapse)
  moreover have "snd ` set ?Q = {x. spq_prio q x \<noteq> None}"
    using spq_inv_mem [OF inv] by (force simp: spq_prio_def)
  ultimately show ?thesis using card_image distinct_card by (metis spq_size_def)
qed

lemma apq_is_empty_iff: "apq_is_empty q \<longleftrightarrow> (\<exists>e. apq_get_nowait q = Inl e)"
  by (auto simp: apq_is_empty_def spq_size_pos_iff apq_get_nowait_def split: option.splits)

section \<open>The 64-bit insertion counter\<close>

text \<open>
  The code's counter is a \<open>uint64_t\<close>. A queue over \<open>nat\<close> is carried over to one over
  \<open>64 word\<close> by casting every counter; the operations commute with the cast as long as
  the counter has not reached its last value.
\<close>

type_synonym 'a spq64 = "('a, 64 word) spq"

definition cast_key :: "int \<times> nat \<Rightarrow> int \<times> 64 word" where
  "cast_key k = (fst k, of_nat (snd k))"

definition spq_cast :: "('a, nat) spq \<Rightarrow> 'a spq64" where
  "spq_cast q = \<lparr>spq_locator = map (\<lambda>(x, k). (x, cast_key k)) (spq_locator q),
                spq_queue = map (\<lambda>(k, x). (cast_key k, x)) (spq_queue q),
                spq_counter = of_nat (spq_counter q)\<rparr>"

definition spq_bounded :: "('a, nat) spq \<Rightarrow> bool" where
  "spq_bounded q \<longleftrightarrow> spq_counter q < 2 ^ 64 \<and>
     (\<forall>e \<in> set (spq_queue q). snd (fst e) < 2 ^ 64) \<and>
     (\<forall>e \<in> set (spq_locator q). snd (snd e) < 2 ^ 64)"

lemma cast_key_less:
  "snd k < 2 ^ 64 \<Longrightarrow> snd k' < 2 ^ 64 \<Longrightarrow> cast_key k < cast_key k' \<longleftrightarrow> k < k'"
  by (cases k, cases k') (auto simp: cast_key_def word_less_nat_alt unat_of_nat)

lemma cast_key_eq:
  "snd k < 2 ^ 64 \<Longrightarrow> snd k' < 2 ^ 64 \<Longrightarrow> cast_key k = cast_key k' \<longleftrightarrow> k = k'"
  using cast_key_less [of k k'] cast_key_less [of k' k] by (metis linorder_neq_iff)

lemma omap_put_cast:
  "snd k < 2 ^ 64 \<Longrightarrow> \<forall>e \<in> set m. snd (fst e) < 2 ^ 64 \<Longrightarrow>
    omap_put (cast_key k) x (map (\<lambda>(k, x). (cast_key k, x)) m) =
    map (\<lambda>(k, x). (cast_key k, x)) (omap_put k x m)"
  by (induction m) (auto simp: cast_key_less cast_key_eq)

lemma omap_erase_cast:
  "snd k < 2 ^ 64 \<Longrightarrow> \<forall>e \<in> set m. snd (fst e) < 2 ^ 64 \<Longrightarrow>
    omap_erase (cast_key k) (map (\<lambda>(k, x). (cast_key k, x)) m) =
    map (\<lambda>(k, x). (cast_key k, x)) (omap_erase k m)"
  by (induction m) (auto simp: cast_key_eq omap_erase_def)

lemma dict_set_cast:
  "dict_set x (cast_key k) (map (\<lambda>(x, k). (x, cast_key k)) d) =
    map (\<lambda>(x, k). (x, cast_key k)) (dict_set x k d)"
  by (induction d) (auto simp: dict_set_def)

lemma dict_get_cast:
  "dict_get (map (\<lambda>(x, k). (x, cast_key k)) d) x = map_option cast_key (dict_get d x)"
  by (induction d) (auto simp: dict_get_def)

lemma dict_pop_cast:
  "dict_pop x (map (\<lambda>(x, k). (x, cast_key k)) d) = map (\<lambda>(x, k). (x, cast_key k)) (dict_pop x d)"
  by (induction d) (auto simp: dict_pop_def)

lemma spq_put_refines:
  "spq_bounded q \<Longrightarrow> spq_put p x (spq_cast q) = spq_cast (spq_put p x q)"
  using omap_put_cast [of "(p, spq_counter q)" "spq_queue q" x]
    dict_set_cast [of x "(p, spq_counter q)" "spq_locator q"]
  by (simp add: spq_put_def spq_cast_def Let_def spq_bounded_def cast_key_def add.commute)

lemma spq_get_refines:
  "spq_get (spq_cast q) = map_option (\<lambda>(item, q'). (item, spq_cast q')) (spq_get q)"
  by (cases "spq_queue q") (auto simp: spq_get_def spq_cast_def cast_key_def dict_pop_cast [unfolded cast_key_def])

lemma spq_remove_refines:
  assumes "spq_bounded q"
  shows "spq_remove x (spq_cast q) = spq_cast (spq_remove x q)"
proof (cases "dict_get (spq_locator q) x")
  case None
  then show ?thesis by (simp add: spq_remove_def spq_cast_def dict_get_cast)
next
  case (Some k)
  then have "snd k < 2 ^ 64" using assms dict_get_SomeD by (fastforce simp: spq_bounded_def)
  with Some assms show ?thesis
    using omap_erase_cast [of k "spq_queue q"]
    by (simp add: spq_remove_def spq_cast_def dict_get_cast dict_pop_cast spq_bounded_def)
qed

lemma spq_decrease_refines:
  assumes "spq_bounded q"
  shows "spq_decrease_priority x (spq_cast q) = spq_cast (spq_decrease_priority x q)"
proof (cases "dict_get (spq_locator q) x")
  case None
  then show ?thesis by (simp add: spq_decrease_priority_def spq_cast_def dict_get_cast)
next
  case (Some k)
  let ?k' = "(fst k - 1, spq_counter q)"
  have k: "snd k < 2 ^ 64" using Some assms dict_get_SomeD by (fastforce simp: spq_bounded_def)
  have "omap_put (cast_key ?k') x (omap_erase (cast_key k) (map (\<lambda>(k, x). (cast_key k, x)) (spq_queue q)))
      = map (\<lambda>(k, x). (cast_key k, x)) (omap_put ?k' x (omap_erase k (spq_queue q)))"
    using assms k by (simp add: omap_erase_cast omap_put_cast spq_bounded_def set_omap_erase)
  moreover have "cast_key ?k' = (fst (cast_key k) - 1, of_nat (spq_counter q))"
    by (simp add: cast_key_def)
  ultimately show ?thesis
    using Some dict_set_cast [of x ?k' "spq_locator q"]
    by (simp add: spq_decrease_priority_def spq_cast_def dict_get_cast Let_def add.commute)
qed

end
