(* ===== verification/AdapterTasks.thy ===== *)
theory AdapterTasks
  imports Encoding Queues
begin

text \<open>
  The task manager of the workers that a worker manager runs on an external execution
  service (\<open>src/src/scaler/worker_manager_adapter/task_manager.py\<close>). At most \<open>base_concurrency\<close> tasks of the queue run
  at a time, counted by a semaphore; a task of higher priority than every running one goes
  past the semaphore.

  The execution service (\<open>ExecutionBackend\<close>), the digests and tags of identifiers, the serializers and the
  answers of the object storage are fields of the environment. A handler runs to its end before
  the next input; the backend's \<open>execute\<close> loads the inputs of the task, and with them the serializer of
  its client, through \<open>load_task_inputs\<close>, and returns a pending future. The two places where \<open>process_task\<close>
  waits, for the semaphore and for the queue, are its phases.
\<close>

section \<open>State\<close>

datatype future_state = FuturePending | FutureCancelled | FutureResult bytes | FutureException bytes

datatype process_phase = BetweenRounds | WaitingForSlot | HoldingSlot

datatype adapter_message =
    AdapterConfirm TaskCancelConfirm
  | AdapterResult TaskResult
  | AdapterObjectCreate ClientID ObjectID bytes

record adapter_env =
  ae_iter :: "TaskID \<Rightarrow> nat"
  ae_md5 :: "bytes \<Rightarrow> bytes"
  ae_tag :: "nat \<Rightarrow> bytes"
  ae_execute_ok :: "Task \<Rightarrow> bool"
  ae_serialize :: "bytes \<Rightarrow> bytes"
  ae_serialize_failure :: "bytes \<Rightarrow> bytes"
  ae_set_object_ok :: "ObjectID \<Rightarrow> bool"

record adapter =
  at_semaphore :: nat
  at_phase :: process_phase
  at_task_id_to_task :: "(TaskID, Task) dict"
  at_task_id_to_future :: "(TaskID, future_state) dict"
  at_serializers :: "ObjectID list"
  at_queue :: "TaskID async_priority_queue"
  at_queued :: "TaskID list"
  at_acquiring :: "TaskID list"
  at_processing :: "TaskID list"
  at_canceled :: "TaskID list"
  at_sent :: "adapter_message list"
  at_tags_used :: nat

type_synonym 'a adapter_step = "('a, adapter) comp"

definition adapter_init :: "int \<Rightarrow> py_exn + adapter" where
  "adapter_init base_concurrency =
     (if base_concurrency \<le> 0 then Inl ValueError
      else Inr \<lparr>at_semaphore = nat base_concurrency, at_phase = BetweenRounds, at_task_id_to_task = [],
                at_task_id_to_future = [], at_serializers = [], at_queue = spq_empty, at_queued = [], at_acquiring = [],
                at_processing = [], at_canceled = [], at_sent = [], at_tags_used = 0\<rparr>)"

section \<open>Operations\<close>

definition at_send :: "adapter_message \<Rightarrow> unit adapter_step" where
  "at_send m = modify (\<lambda>s. s\<lparr>at_sent := at_sent s @ [m]\<rparr>)"

definition at_confirm :: "TaskID \<Rightarrow> TaskCancelConfirmType \<Rightarrow> unit adapter_step" where
  "at_confirm t ty = at_send (AdapterConfirm \<lparr>confirm_taskId = t, cancelConfirmType = ty\<rparr>)"

text \<open>\<open>Semaphore.locked\<close>: no slot left, or somebody is already waiting for one.\<close>

definition at_locked :: "adapter \<Rightarrow> bool" where
  "at_locked s = (at_semaphore s = 0 \<or> at_phase s = WaitingForSlot)"

definition get_task_priority :: "Task \<Rightarrow> py_exn + int" where
  "get_task_priority task =
     (case retrieve_task_flags (task_metadata task) of
        Inl e \<Rightarrow> Inl e
      | Inr f \<Rightarrow> if flag_priority f < 0 then Inl ValueError else Inr (flag_priority f))"

definition on_object_delete :: "ObjectID list \<Rightarrow> unit adapter_step" where
  "on_object_delete oids = modify (\<lambda>s. s\<lparr>at_serializers := filter (\<lambda>x. x \<notin> set oids) (at_serializers s)\<rparr>)"

definition load_serializer :: "adapter_env \<Rightarrow> ClientID \<Rightarrow> unit adapter_step" where
  "load_serializer env c =
     andthen (of_sum (generate_serializer_object_id (ae_md5 env) c)) (\<lambda>sid.
       modify (\<lambda>s. s\<lparr>at_serializers := set_add sid (at_serializers s)\<rparr>))"

definition at_execute :: "adapter_env \<Rightarrow> Task \<Rightarrow> unit adapter_step" where
  "at_execute env task =
     seq (load_serializer env (task_source task))
     (if ae_execute_ok env task
      then modify (\<lambda>s. s\<lparr>at_task_id_to_future := dict_set (taskId task) FuturePending (at_task_id_to_future s)\<rparr>)
      else raise RuntimeError)"

text \<open>The loop of \<open>on_task_new\<close> over the tasks that hold a slot: whether the new one outranks them all.\<close>

fun outranks_all :: "int \<Rightarrow> TaskID list \<Rightarrow> bool adapter_step" where
  "outranks_all p [] = ret True"
| "outranks_all p (t # ts) =
     andthen (lookup at_task_id_to_task t) (\<lambda>task.
     andthen (of_sum (get_task_priority task)) (\<lambda>q.
       if p \<le> q then ret False else outranks_all p ts))"

definition at_enqueue :: "int \<Rightarrow> Task \<Rightarrow> unit adapter_step" where
  "at_enqueue p task =
     modify (\<lambda>s. s\<lparr>at_task_id_to_task := dict_set (taskId task) task (at_task_id_to_task s),
                   at_queue := apq_put_nowait (- p, taskId task) (at_queue s),
                   at_queued := set_add (taskId task) (at_queued s)\<rparr>)"

definition at_bypass :: "adapter_env \<Rightarrow> Task \<Rightarrow> unit adapter_step" where
  "at_bypass env task =
     seq (modify (\<lambda>s. s\<lparr>at_task_id_to_task := dict_set (taskId task) task (at_task_id_to_task s),
                        at_processing := set_add (taskId task) (at_processing s)\<rparr>))
         (at_execute env task)"

definition at_on_task_new :: "adapter_env \<Rightarrow> Task \<Rightarrow> unit adapter_step" where
  "at_on_task_new env task =
     andthen (of_sum (get_task_priority task)) (\<lambda>p.
     andthen (\<lambda>s. if at_locked s then outranks_all p (sort_key (ae_iter env) (at_acquiring s)) s else Ret False s) (\<lambda>higher.
       if higher then at_bypass env task else at_enqueue p task))"

definition at_on_cancel_task :: "TaskCancel \<Rightarrow> unit adapter_step" where
  "at_on_cancel_task tc =
     (let t = cancel_taskId tc
      in andthen (gets (\<lambda>s. t \<in> set (at_queued s))) (\<lambda>queued.
         andthen (gets (\<lambda>s. t \<in> set (at_processing s))) (\<lambda>processing.
           if \<not> queued \<and> \<not> processing then at_confirm t CC_cancelNotFound
           else if processing \<and> \<not> cancel_force tc then at_confirm t CC_cancelFailed
           else
             seq (if queued
                  then seq (modify (\<lambda>s. s\<lparr>at_queued := removeAll t (at_queued s), at_queue := apq_remove t (at_queue s)\<rparr>))
                       (seq (lookup at_task_id_to_task t)
                            (modify (\<lambda>s. s\<lparr>at_task_id_to_task := dict_pop t (at_task_id_to_task s)\<rparr>)))
                  else ret ())
             (seq (if processing
                   then andthen (lookup at_task_id_to_future t) (\<lambda>f.
                          modify (\<lambda>s. s\<lparr>at_task_id_to_future :=
                              (if f = FuturePending then dict_set t FutureCancelled (at_task_id_to_future s) else at_task_id_to_future s),
                            at_processing := removeAll t (at_processing s),
                            at_canceled := set_add t (at_canceled s)\<rparr>))
                   else ret ())
              (at_confirm t CC_canceled)))))"

definition at_on_task_result :: "TaskResult \<Rightarrow> unit adapter_step" where
  "at_on_task_result result =
     (let t = result_taskId result
      in seq (modify (\<lambda>s. if t \<in> set (at_queued s)
                then s\<lparr>at_queued := removeAll t (at_queued s), at_queue := apq_remove t (at_queue s)\<rparr> else s))
         (andthen (gets (\<lambda>s. t \<in> set (at_processing s))) (\<lambda>processing.
            if \<not> processing then raise KeyError
            else seq (modify (\<lambda>s. s\<lparr>at_processing := removeAll t (at_processing s)\<rparr>))
                 (seq (lookup at_task_id_to_task t)
                 (seq (modify (\<lambda>s. s\<lparr>at_task_id_to_task := dict_pop t (at_task_id_to_task s)\<rparr>))
                      (at_send (AdapterResult result)))))))"

text \<open>\<open>bytes.hex\<close>, for the name of a result object.\<close>

definition hex :: "bytes \<Rightarrow> string" where
  "hex bs = concat (map (\<lambda>b. [''0123456789abcdef'' ! (of_char b div 16), ''0123456789abcdef'' ! (of_char b mod 16)]) bs)"

definition result_object_name :: "ObjectID \<Rightarrow> bytes" where
  "result_object_name oid = ''<res '' @ take 6 (hex oid) @ ''>''"

definition at_fresh_object_id :: "adapter_env \<Rightarrow> ClientID \<Rightarrow> ObjectID adapter_step" where
  "at_fresh_object_id env c =
     andthen (gets at_tags_used) (\<lambda>n.
     seq (modify (\<lambda>s. s\<lparr>at_tags_used := n + 1\<rparr>))
         (of_sum (generate_object_id (ae_md5 env) (ae_tag env n) c)))"

text \<open>What is stored for a finished task; \<open>future.exception()\<close> of a cancelled future raises \<open>CancelledError\<close>.\<close>

definition future_outcome :: "adapter_env \<Rightarrow> ClientID \<Rightarrow> future_state \<Rightarrow> (TaskResultType \<times> bytes) adapter_step" where
  "future_outcome env c f =
     (case f of
        FutureResult v \<Rightarrow>
          andthen (of_sum (generate_serializer_object_id (ae_md5 env) c)) (\<lambda>sid.
          andthen (gets at_serializers) (\<lambda>known.
            if sid \<notin> set known then raise KeyError else ret (TR_success, ae_serialize env v)))
      | FutureException v \<Rightarrow> ret (TR_failed, ae_serialize_failure env v)
      | _ \<Rightarrow> raise RuntimeError)"

definition report_result :: "adapter_env \<Rightarrow> Task \<Rightarrow> future_state \<Rightarrow> unit adapter_step" where
  "report_result env task f =
     seq (modify (\<lambda>s. s\<lparr>at_processing := removeAll (taskId task) (at_processing s)\<rparr>))
     (andthen (future_outcome env (task_source task) f) (\<lambda>(ty, content).
      andthen (at_fresh_object_id env (task_source task)) (\<lambda>oid.
        if \<not> ae_set_object_ok env oid then raise StorageError
        else seq (at_send (AdapterObjectCreate (task_source task) oid (result_object_name oid)))
                 (at_send (AdapterResult \<lparr>result_taskId = taskId task, resultType = ty, result_metadata = '''', result_objects = [oid]\<rparr>)))))"

definition release_slot :: "TaskID \<Rightarrow> unit adapter_step" where
  "release_slot t =
     modify (\<lambda>s. if t \<in> set (at_acquiring s)
        then s\<lparr>at_acquiring := removeAll t (at_acquiring s), at_semaphore := at_semaphore s + 1\<rparr> else s)"

text \<open>The body of the loop of \<open>resolve_tasks\<close> for one finished future.\<close>

definition resolve_one :: "adapter_env \<Rightarrow> TaskID \<times> future_state \<Rightarrow> unit adapter_step" where
  "resolve_one env tf =
     (case tf of (t, f) \<Rightarrow>
       seq (modify (\<lambda>s. s\<lparr>at_task_id_to_future := dict_pop t (at_task_id_to_future s)\<rparr>))
       (andthen (gets (\<lambda>s. dict_get (at_task_id_to_task s) t)) (\<lambda>known.
          case known of
            None \<Rightarrow> ret ()
          | Some task \<Rightarrow>
              andthen (gets (\<lambda>s. t \<in> set (at_processing s))) (\<lambda>processing.
              andthen (gets (\<lambda>s. t \<in> set (at_canceled s))) (\<lambda>canceled.
                seq (if processing then report_result env task f
                     else if canceled then modify (\<lambda>s. s\<lparr>at_canceled := removeAll t (at_canceled s)\<rparr>)
                     else raise ValueError)
                (seq (release_slot t)
                     (modify (\<lambda>s. s\<lparr>at_task_id_to_task := dict_pop t (at_task_id_to_task s)\<rparr>))))))))"

definition finished_futures :: "adapter_env \<Rightarrow> adapter \<Rightarrow> (TaskID \<times> future_state) list" where
  "finished_futures env s = sort_key (\<lambda>tf. ae_iter env (fst tf)) (filter (\<lambda>tf. snd tf \<noteq> FuturePending) (at_task_id_to_future s))"

definition resolve_tasks :: "adapter_env \<Rightarrow> unit adapter_step" where
  "resolve_tasks env s = for_each (finished_futures env s) (resolve_one env) s"

text \<open>The rounds of \<open>process_task\<close>, cut where it waits.\<close>

definition process_acquire :: "unit adapter_step" where
  "process_acquire = modify (\<lambda>s.
     case at_phase s of
       HoldingSlot \<Rightarrow> s
     | _ \<Rightarrow> if at_semaphore s = 0 then s\<lparr>at_phase := WaitingForSlot\<rparr>
            else s\<lparr>at_semaphore := at_semaphore s - 1, at_phase := HoldingSlot\<rparr>)"

definition process_get :: "adapter_env \<Rightarrow> unit adapter_step" where
  "process_get env s =
     (if at_phase s \<noteq> HoldingSlot then Ret () s
      else (case apq_get_nowait (at_queue s) of
              Inl _ \<Rightarrow> Ret () s
            | Inr ((_, t), q) \<Rightarrow>
                seq (modify (\<lambda>s. s\<lparr>at_queue := q\<rparr>))
                (andthen (lookup at_task_id_to_task t) (\<lambda>task.
                 seq (modify (\<lambda>s. s\<lparr>at_acquiring := set_add t (at_acquiring s), at_processing := set_add t (at_processing s),
                                    at_phase := BetweenRounds\<rparr>))
                     (at_execute env task))) s))"

section \<open>Runs\<close>

datatype adapter_input =
    AdapterTask Task
  | AdapterCancel TaskCancel
  | AdapterObjectDelete "ObjectID list"
  | AdapterFinish TaskID future_state
  | AdapterAcquire
  | AdapterGet
  | AdapterResolve

fun adapter_perform :: "adapter_env \<Rightarrow> adapter_input \<Rightarrow> unit adapter_step" where
  "adapter_perform env (AdapterTask task) = at_on_task_new env task"
| "adapter_perform env (AdapterCancel tc) = at_on_cancel_task tc"
| "adapter_perform env (AdapterObjectDelete oids) = on_object_delete oids"
| "adapter_perform env (AdapterFinish t f) = modify (\<lambda>s.
     if dict_get (at_task_id_to_future s) t = Some FuturePending
     then s\<lparr>at_task_id_to_future := dict_set t f (at_task_id_to_future s)\<rparr> else s)"
| "adapter_perform env AdapterAcquire = process_acquire"
| "adapter_perform env AdapterGet = process_get env"
| "adapter_perform env AdapterResolve = resolve_tasks env"

text \<open>An exception of a handler or a routine ends the worker.\<close>

fun adapter_run :: "adapter_env \<Rightarrow> adapter_input list \<Rightarrow> unit adapter_step" where
  "adapter_run env [] = ret ()"
| "adapter_run env (i # is) = seq (adapter_perform env i) (adapter_run env is)"

section \<open>Slots\<close>

text \<open>
  Slots are conserved: what is free, what tasks hold and what the waiting round holds never
  exceeds the number of slots there were.
\<close>

definition slots :: "adapter \<Rightarrow> nat" where
  "slots s = at_semaphore s + length (at_acquiring s) + (if at_phase s = HoldingSlot then 1 else 0)"

definition slots_kept :: "'a adapter_step \<Rightarrow> bool" where
  "slots_kept m \<longleftrightarrow> (\<forall>s b. slots s \<le> b \<longrightarrow> sat (\<lambda>_ s'. slots s' \<le> b) (\<lambda>s'. slots s' \<le> b) (m s))"

lemma slots_kept_seq: "slots_kept m \<Longrightarrow> slots_kept n \<Longrightarrow> slots_kept (seq m n)"
  unfolding slots_kept_def by (blast intro: sat_seq)

lemma slots_kept_andthen: "slots_kept m \<Longrightarrow> (\<And>a. slots_kept (f a)) \<Longrightarrow> slots_kept (andthen m f)"
  unfolding slots_kept_def by (blast intro: sat_andthen)

lemma slots_kept_at: "(\<And>x. slots_kept (f x)) \<Longrightarrow> slots_kept (\<lambda>s. f (g s) s)"
  by (simp add: slots_kept_def)

lemma slots_kept_basic:
  "slots_kept (ret a)" "slots_kept (Ret a)" "slots_kept (raise e)" "slots_kept (gets f)" "slots_kept (lookup d k)" "slots_kept (of_sum r)"
  by (auto simp: slots_kept_def lookup_run of_sum_def split: option.split sum.split)

lemma slots_kept_modify: "(\<And>s. slots (f s) \<le> slots s) \<Longrightarrow> slots_kept (modify f)"
  by (auto simp: slots_kept_def intro: order_trans)

lemma length_removeAll_less: "x \<in> set xs \<Longrightarrow> length (removeAll x xs) < length xs"
  by (induction xs) (auto simp: less_Suc_eq_le length_removeAll_less_eq)

lemma slots_kept_release: "slots_kept (release_slot t)"
  unfolding release_slot_def
  by (rule slots_kept_modify) (use length_removeAll_less in \<open>fastforce simp: slots_def\<close>)

lemma slots_kept_acquire: "slots_kept process_acquire"
  unfolding process_acquire_def by (rule slots_kept_modify) (auto simp: slots_def split: process_phase.split)

lemma slots_kept_outranks: "slots_kept (outranks_all p ts)"
  by (induction ts) (auto intro!: slots_kept_andthen slots_kept_basic)

lemma slots_kept_execute: "slots_kept (at_execute env task)"
  unfolding at_execute_def load_serializer_def
  by (auto intro!: slots_kept_seq slots_kept_andthen slots_kept_basic slots_kept_modify simp: slots_def)

lemmas slots_intros = slots_kept_seq slots_kept_andthen slots_kept_basic slots_kept_modify slots_kept_release slots_kept_acquire
  slots_kept_outranks slots_kept_execute

lemma slots_kept_new: "slots_kept (at_on_task_new env task)"
proof -
  have "slots_kept (\<lambda>s. if at_locked s then outranks_all p (sort_key (ae_iter env) (at_acquiring s)) s else Ret False s)" for p
    using slots_kept_outranks by (simp add: slots_kept_def)
  then show ?thesis unfolding at_on_task_new_def at_enqueue_def at_bypass_def
    by (auto intro!: slots_intros simp: slots_def)
qed

lemma slots_kept_cancel: "slots_kept (at_on_cancel_task tc)"
  unfolding at_on_cancel_task_def at_confirm_def at_send_def Let_def by (auto intro!: slots_intros simp: slots_def)

lemma slots_kept_resolve_one: "slots_kept (resolve_one env tf)"
proof -
  have outcome: "slots_kept (future_outcome env c f)" for c f
    unfolding future_outcome_def by (cases f) (auto intro!: slots_intros)
  show ?thesis
    unfolding resolve_one_def report_result_def at_fresh_object_id_def at_send_def
    by (cases tf) (auto intro!: slots_intros outcome simp: slots_def split: option.split prod.split)
qed

lemma slots_kept_resolve: "slots_kept (resolve_tasks env)"
proof -
  have "slots_kept (for_each xs (resolve_one env))" for xs
    by (induction xs) (auto intro!: slots_intros slots_kept_resolve_one)
  then show ?thesis unfolding resolve_tasks_def by (rule slots_kept_at)
qed

text \<open>Taking a task from the queue turns the slot of the round into the slot of the task.\<close>

lemma slots_kept_get: "slots_kept (process_get env)"
proof -
  have "sat (\<lambda>_ s'. slots s' \<le> b) (\<lambda>s'. slots s' \<le> b) (process_get env s)" if b: "slots s \<le> b" for s b
  proof (cases "at_phase s = HoldingSlot")
    case True
    show ?thesis
    proof (cases "apq_get_nowait (at_queue s)")
      case (Inl e)
      then show ?thesis using b True by (simp add: process_get_def)
    next
      case (Inr r)
      obtain p t q where r: "r = ((p, t), q)" by (cases r) auto
      have exec: "sat (\<lambda>_ s'. slots s' \<le> b) (\<lambda>s'. slots s' \<le> b) (at_execute env task s')" if "slots s' \<le> b" for s' task
        using slots_kept_execute that by (simp add: slots_kept_def)
      have "slots (s\<lparr>at_queue := q\<rparr>) \<le> b"
        "slots (s\<lparr>at_queue := q, at_acquiring := set_add t (at_acquiring s), at_processing := set_add t (at_processing s), at_phase := BetweenRounds\<rparr>) \<le> b"
        using b True by (auto simp: slots_def set_add_def)
      then show ?thesis using True Inr r exec by (auto simp: process_get_def seq_run andthen_run lookup_run split: option.split)
    qed
  qed (use b in \<open>simp add: process_get_def\<close>)
  then show ?thesis by (simp add: slots_kept_def)
qed

lemma slots_kept_perform: "slots_kept (adapter_perform env i)"
  by (cases i) (auto intro!: slots_kept_new slots_kept_cancel slots_kept_acquire slots_kept_get slots_kept_resolve slots_kept_modify
      simp: on_object_delete_def slots_def)

lemma slots_kept_run: "slots_kept (adapter_run env is)"
  by (induction "is") (auto intro!: slots_kept_basic slots_kept_seq slots_kept_perform)

section \<open>New tasks\<close>

text \<open>The priority of a known task, when its flags can be read.\<close>

definition prio_of :: "adapter \<Rightarrow> TaskID \<Rightarrow> int option" where
  "prio_of s t =
     (case dict_get (at_task_id_to_task s) t of
        None \<Rightarrow> None
      | Some task \<Rightarrow> (case get_task_priority task of Inl _ \<Rightarrow> None | Inr q \<Rightarrow> Some q))"

lemma outranks_run:
  assumes "\<And>t. t \<in> set ts \<Longrightarrow> prio_of s t \<noteq> None"
  shows "outranks_all p ts s = Ret (\<forall>t \<in> set ts. \<exists>q. prio_of s t = Some q \<and> q < p) s"
  using assms
proof (induction ts)
  case (Cons t ts)
  obtain task q where t: "dict_get (at_task_id_to_task s) t = Some task" "get_task_priority task = Inr q"
    using Cons.prems [of t] by (auto simp: prio_of_def split: option.splits sum.splits)
  then have "prio_of s t = Some q" by (simp add: prio_of_def)
  moreover have "outranks_all p ts s = Ret (\<forall>t \<in> set ts. \<exists>q. prio_of s t = Some q \<and> q < p) s"
    by (rule Cons.IH) (use Cons.prems in auto)
  ultimately show ?case using t by (auto simp: of_sum_def)
qed simp

lemma on_task_new_run:
  assumes p: "get_task_priority task = Inr p" and known: "\<And>t. t \<in> set (at_acquiring s) \<Longrightarrow> prio_of s t \<noteq> None"
    and ok: "ae_execute_ok env task" and md5: "\<And>b. length (ae_md5 env b) = 16"
  shows "\<exists>s'. at_on_task_new env task s = Ret () s' \<and>
    at_task_id_to_task s' = dict_set (taskId task) task (at_task_id_to_task s) \<and> at_semaphore s' = at_semaphore s \<and>
    (if at_locked s \<and> (\<forall>t \<in> set (at_acquiring s). \<exists>q. prio_of s t = Some q \<and> q < p)
     then at_task_id_to_future s' = dict_set (taskId task) FuturePending (at_task_id_to_future s) \<and>
       taskId task \<in> set (at_processing s') \<and> at_queue s' = at_queue s
     else at_queue s' = apq_put_nowait (- p, taskId task) (at_queue s) \<and> taskId task \<in> set (at_queued s') \<and>
       at_task_id_to_future s' = at_task_id_to_future s \<and> at_processing s' = at_processing s)"
proof -
  have "outranks_all p (sort_key (ae_iter env) (at_acquiring s)) s =
      Ret (\<forall>t \<in> set (at_acquiring s). \<exists>q. prio_of s t = Some q \<and> q < p) s"
    using outranks_run [of "sort_key (ae_iter env) (at_acquiring s)" s p] known by simp
  then show ?thesis
    using p ok md5
    by (auto simp: at_on_task_new_def at_bypass_def at_enqueue_def at_execute_def load_serializer_def of_sum_def
        generate_serializer_object_id_def object_id_new_def andthen_run seq_run)
qed

end
