(* ===== verification/WorkerAgent.thy ===== *)
theory WorkerAgent
  imports AdapterTasks
begin

text \<open>
  The agent of a worker (\<open>src/src/scaler/worker\<close>): the task manager with its priority queue
  (\<open>agent/task_manager.py\<close>), the processor manager with the processes that run tasks
  (\<open>agent/processor_manager.py\<close>, \<open>agent/processor_holder.py\<close>), the part of the profiling manager that can raise
  (\<open>agent/profiling_manager.py\<close>), the heartbeat (\<open>agent/heartbeat_manager.py\<close>) and the dispatch of
  messages (\<open>worker.py\<close>), with the timeout of a lost scheduler (\<open>agent/timeout_manager.py\<close>).

  A \<open>ProcessorHolder\<close> is an object shared by several tables; the model keeps the objects in one table under the
  id of their process, and the tables hold process ids. A processor can die at any time. A handler runs
  to its end before the next input; the two places where the task routine waits, for the lock and for
  the queue, are its phases. Identifiers, profiles and the answers of the object storage are fields of
  the environment, and times are whole numbers. A signal to a processor that died goes to its zombie.
  An exception that escapes a handler or a routine ends the worker.
\<close>

section \<open>State\<close>

record holder =
  h_processor_id :: "ProcessorID option"
  h_task :: "Task option"
  h_suspended :: bool

datatype routine_phase = WaitForLock | WaitForTask

datatype agent_message =
    AgentConfirm TaskCancelConfirm
  | AgentResult TaskResult
  | AgentObjectCreate ClientID ObjectID
  | AgentForward bytes
  | AgentHeartbeat int bool "(nat \<times> bool \<times> bool \<times> bool) list"

datatype processor_message = ProcessorTask Task | ProcessorObject bytes

record agent_env =
  we_md5 :: "bytes \<Rightarrow> bytes"
  we_tag :: "nat \<Rightarrow> bytes"
  we_profile :: "nat \<Rightarrow> bytes"
  we_set_object_ok :: "ObjectID \<Rightarrow> bool"
  we_death_timeout :: int

record agent =
  wa_queued :: "(TaskID, Task) dict"
  wa_queue :: "TaskID async_priority_queue"
  wa_processing :: "TaskID list"
  wa_phase :: routine_phase
  wa_holders :: "(nat, holder) dict"
  wa_current :: "nat option"
  wa_suspended :: "(TaskID, nat) dict"
  wa_by_id :: "(ProcessorID, nat) dict"
  wa_lock :: bool
  wa_profilers :: "(nat, TaskID option) dict"
  wa_dead :: "nat list"
  wa_next_pid :: nat
  wa_tags_used :: nat
  wa_awaiting_echo :: bool
  wa_last_seen :: int
  wa_sent :: "agent_message list"
  wa_internal :: "(ProcessorID \<times> processor_message) list"

type_synonym 'a agent_step = "('a, agent) comp"

definition wa_send :: "agent_message \<Rightarrow> unit agent_step" where
  "wa_send m = modify (\<lambda>s. s\<lparr>wa_sent := wa_sent s @ [m]\<rparr>)"

text \<open>\<open>Lock.release\<close> of a lock that is not held is an error.\<close>

definition release_lock_step :: "unit agent_step" where
  "release_lock_step s = (if wa_lock s then Ret () (s\<lparr>wa_lock := False\<rparr>) else Raise RuntimeError s)"

section \<open>Processors\<close>

definition holder_of :: "agent \<Rightarrow> nat \<Rightarrow> holder" where
  "holder_of s pid = (case dict_get (wa_holders s) pid of
     Some h \<Rightarrow> h | None \<Rightarrow> \<lparr>h_processor_id = None, h_task = None, h_suspended = False\<rparr>)"

definition upd_holder :: "nat \<Rightarrow> (holder \<Rightarrow> holder) \<Rightarrow> agent \<Rightarrow> agent" where
  "upd_holder pid f s = s\<lparr>wa_holders := dict_set pid (f (holder_of s pid)) (wa_holders s)\<rparr>"

definition current_task :: "agent \<Rightarrow> Task option" where
  "current_task s = (case wa_current s of None \<Rightarrow> None | Some pid \<Rightarrow> h_task (holder_of s pid))"

definition current_task_id :: "agent \<Rightarrow> TaskID option" where
  "current_task_id s = map_option taskId (current_task s)"

definition current_processor_is_initialized :: "agent \<Rightarrow> bool" where
  "current_processor_is_initialized s =
     (case wa_current s of None \<Rightarrow> False | Some pid \<Rightarrow> h_processor_id (holder_of s pid) \<noteq> None)"

definition with_current :: "(nat \<Rightarrow> 'a agent_step) \<Rightarrow> 'a agent_step" where
  "with_current f s = (case wa_current s of None \<Rightarrow> Raise AssertionError s | Some pid \<Rightarrow> f pid s)"

definition start_new_processor :: "unit agent_step" where
  "start_new_processor = modify (\<lambda>s. let pid = wa_next_pid s in s
     \<lparr>wa_holders := dict_set pid \<lparr>h_processor_id = None, h_task = None, h_suspended = False\<rparr> (wa_holders s),
      wa_current := Some pid, wa_profilers := dict_set pid None (wa_profilers s), wa_next_pid := pid + 1\<rparr>)"

definition kill_processor :: "nat \<Rightarrow> unit agent_step" where
  "kill_processor pid = modify (\<lambda>s. upd_holder pid (\<lambda>h. h\<lparr>h_task := None\<rparr>)
     (s\<lparr>wa_profilers := dict_pop pid (wa_profilers s),
        wa_by_id := (case h_processor_id (holder_of s pid) of None \<Rightarrow> wa_by_id s | Some p \<Rightarrow> dict_pop p (wa_by_id s))\<rparr>))"

definition restart_current_processor :: "unit agent_step" where
  "restart_current_processor = with_current (\<lambda>pid. seq (kill_processor pid) start_new_processor)"

definition kill_all_processors :: "unit agent_step" where
  "kill_all_processors =
     seq (\<lambda>s. case wa_current s of
            None \<Rightarrow> Ret () s
          | Some pid \<Rightarrow> seq (kill_processor pid) (modify (\<lambda>s. s\<lparr>wa_current := None\<rparr>)) s)
     (seq (\<lambda>s. for_each (map snd (wa_suspended s)) kill_processor s)
          (modify (\<lambda>s. s\<lparr>wa_suspended := [], wa_by_id := []\<rparr>)))"

definition profile_task_start :: "nat \<Rightarrow> TaskID \<Rightarrow> unit agent_step" where
  "profile_task_start pid t s =
     (if dict_has (wa_profilers s) pid then Ret () (s\<lparr>wa_profilers := dict_set pid (Some t) (wa_profilers s)\<rparr>)
      else Raise ValueError s)"

definition profile_task_end :: "agent_env \<Rightarrow> nat \<Rightarrow> TaskID \<Rightarrow> bytes agent_step" where
  "profile_task_end env pid t s =
     (case dict_get (wa_profilers s) pid of
        None \<Rightarrow> Raise ValueError s
      | Some cur \<Rightarrow>
          if cur \<noteq> Some t then Raise ValueError s
          else Ret (we_profile env pid) (s\<lparr>wa_profilers := dict_set pid None (wa_profilers s)\<rparr>))"

definition end_task :: "agent_env \<Rightarrow> nat \<Rightarrow> Task \<Rightarrow> bytes agent_step" where
  "end_task env pid task =
     andthen (profile_task_end env pid (taskId task)) (\<lambda>profile.
     seq (modify (upd_holder pid (\<lambda>h. h\<lparr>h_task := None\<rparr>))) (ret profile))"

section \<open>Task manager: results\<close>

definition wa_on_task_result :: "TaskResult \<Rightarrow> unit agent_step" where
  "wa_on_task_result result =
     (let t = result_taskId result
      in seq (modify (\<lambda>s. if dict_has (wa_queued s) t
                then s\<lparr>wa_queued := dict_pop t (wa_queued s), wa_queue := apq_remove t (wa_queue s)\<rparr> else s))
         (andthen (gets (\<lambda>s. t \<in> set (wa_processing s))) (\<lambda>processing.
            if \<not> processing then raise KeyError
            else seq (modify (\<lambda>s. s\<lparr>wa_processing := removeAll t (wa_processing s)\<rparr>))
                     (wa_send (AgentResult result)))))"

section \<open>Processor manager\<close>

definition on_processor_initialized :: "ProcessorID \<Rightarrow> unit agent_step" where
  "on_processor_initialized p = with_current (\<lambda>pid.
     andthen (gets (\<lambda>s. h_processor_id (holder_of s pid) \<noteq> None)) (\<lambda>known.
       if known then ret ()
       else seq (modify (\<lambda>s. upd_holder pid (\<lambda>h. h\<lparr>h_processor_id := Some p\<rparr>)
                               (s\<lparr>wa_by_id := dict_set p pid (wa_by_id s)\<rparr>)))
                release_lock_step))"

definition pm_on_task :: "Task \<Rightarrow> unit agent_step" where
  "pm_on_task task s =
     check (wa_lock s) (check (current_processor_is_initialized s) (with_current (\<lambda>pid s.
       check (h_task (holder_of s pid) = None)
         (seq (modify (upd_holder pid (\<lambda>h. h\<lparr>h_task := Some task\<rparr>)))
         (seq (profile_task_start pid (taskId task))
              (modify (\<lambda>s. case h_processor_id (holder_of s pid) of
                 None \<Rightarrow> s | Some p \<Rightarrow> s\<lparr>wa_internal := wa_internal s @ [(p, ProcessorTask task)]\<rparr>)))) s))) s"

definition pm_on_cancel_task :: "TaskID \<Rightarrow> unit agent_step" where
  "pm_on_cancel_task t = with_current (\<lambda>_.
     andthen (gets current_task_id) (\<lambda>cur.
       if cur = Some t then restart_current_processor
       else andthen (gets (\<lambda>s. dict_get (wa_suspended s) t)) (\<lambda>susp.
              case susp of
                None \<Rightarrow> ret ()
              | Some pid \<Rightarrow> seq (modify (\<lambda>s. s\<lparr>wa_suspended := dict_pop t (wa_suspended s)\<rparr>)) (kill_processor pid))))"

definition wa_fresh_object_id :: "agent_env \<Rightarrow> ClientID \<Rightarrow> ObjectID agent_step" where
  "wa_fresh_object_id env c =
     andthen (gets wa_tags_used) (\<lambda>n.
     seq (modify (\<lambda>s. s\<lparr>wa_tags_used := n + 1\<rparr>))
         (of_sum (generate_object_id (we_md5 env) (we_tag env n) c)))"

definition report_died :: "agent_env \<Rightarrow> Task \<Rightarrow> bytes \<Rightarrow> unit agent_step" where
  "report_died env task profile =
     andthen (wa_fresh_object_id env (task_source task)) (\<lambda>oid.
       if \<not> we_set_object_ok env oid then raise StorageError
       else seq (wa_send (AgentObjectCreate (task_source task) oid))
                (wa_on_task_result \<lparr>result_taskId = taskId task, resultType = TR_failed, result_metadata = profile, result_objects = [oid]\<rparr>))"

definition on_failing_processor :: "agent_env \<Rightarrow> ProcessorID \<Rightarrow> unit agent_step" where
  "on_failing_processor env p = with_current (\<lambda>current.
     andthen (gets (\<lambda>s. dict_get (wa_by_id s) p)) (\<lambda>found.
       case found of
         None \<Rightarrow> ret ()
       | Some pid \<Rightarrow>
           andthen (gets (\<lambda>s. h_task (holder_of s pid))) (\<lambda>task.
           andthen (case task of
                      None \<Rightarrow> ret ''''
                    | Some task \<Rightarrow> seq (modify (\<lambda>s. s\<lparr>wa_suspended := dict_pop (taskId task) (wa_suspended s)\<rparr>)) (end_task env pid task)) (\<lambda>profile.
           seq (if pid = current then restart_current_processor else kill_processor pid)
               (case task of None \<Rightarrow> ret () | Some task \<Rightarrow> report_died env task profile)))))"

definition pm_on_suspend_task :: "TaskID \<Rightarrow> unit agent_step" where
  "pm_on_suspend_task t = with_current (\<lambda>pid s.
     (if current_task_id s \<noteq> Some t then Ret () s
      else check (\<not> h_suspended (holder_of s pid) \<and> h_processor_id (holder_of s pid) \<noteq> None)
             (seq (modify (\<lambda>s. upd_holder pid (\<lambda>h. h\<lparr>h_suspended := True\<rparr>)
                                  (s\<lparr>wa_suspended := dict_set t pid (wa_suspended s)\<rparr>)))
                  start_new_processor) s))"

text \<open>\<open>resume\<close> fails on a processor that died while it was suspended.\<close>

definition resume_holder :: "agent_env \<Rightarrow> nat \<Rightarrow> nat \<Rightarrow> unit agent_step" where
  "resume_holder env current pid s =
     check (h_task (holder_of s pid) \<noteq> None \<and> h_suspended (holder_of s pid))
       (if pid \<in> set (wa_dead s)
        then (case h_processor_id (holder_of s pid) of
                None \<Rightarrow> raise AssertionError
              | Some p \<Rightarrow> seq (on_failing_processor env p) release_lock_step)
        else seq (modify (upd_holder pid (\<lambda>h. h\<lparr>h_suspended := False\<rparr>)))
             (seq (kill_processor current) (modify (\<lambda>s. s\<lparr>wa_current := Some pid\<rparr>)))) s"

definition pm_on_resume_task :: "agent_env \<Rightarrow> TaskID \<Rightarrow> unit agent_step" where
  "pm_on_resume_task env t s =
     check (wa_lock s) (check (current_processor_is_initialized s) (with_current (\<lambda>current.
       andthen (gets current_task) (\<lambda>task.
         if task \<noteq> None then ret ()
         else andthen (gets (\<lambda>s. dict_get (wa_suspended s) t)) (\<lambda>susp.
           case susp of
             None \<Rightarrow> ret ()
           | Some pid \<Rightarrow>
               seq (modify (\<lambda>s. s\<lparr>wa_suspended := dict_pop t (wa_suspended s)\<rparr>)) (resume_holder env current pid)))))) s"

definition forward_result :: "TaskResult \<Rightarrow> bytes \<Rightarrow> unit agent_step" where
  "forward_result result profile = wa_on_task_result (result\<lparr>result_metadata := profile\<rparr>)"

definition suspended_result :: "agent_env \<Rightarrow> ProcessorID \<Rightarrow> TaskResult \<Rightarrow> nat \<Rightarrow> unit agent_step" where
  "suspended_result env p result pid s =
     check (h_processor_id (holder_of s pid) = Some p)
       (case h_task (holder_of s pid) of
          None \<Rightarrow> raise AssertionError
        | Some task \<Rightarrow> andthen (end_task env pid task) (\<lambda>profile. seq (kill_processor pid) (forward_result result profile))) s"

definition pm_on_task_result :: "agent_env \<Rightarrow> ProcessorID \<Rightarrow> TaskResult \<Rightarrow> unit agent_step" where
  "pm_on_task_result env p result = with_current (\<lambda>current s.
     (let t = result_taskId result
      in if current_task_id s = Some t
         then (case h_task (holder_of s current) of
                 None \<Rightarrow> Raise AssertionError s
               | Some task \<Rightarrow>
                   check (h_processor_id (holder_of s current) = Some p)
                     (andthen (end_task env current task) (\<lambda>profile. seq (forward_result result profile) release_lock_step)) s)
         else (case dict_get (wa_suspended s) t of
                 None \<Rightarrow> Ret () s
               | Some pid \<Rightarrow>
                   seq (modify (\<lambda>s. s\<lparr>wa_suspended := dict_pop t (wa_suspended s)\<rparr>)) (suspended_result env p result pid) s)))"

definition on_external_object_instruction :: "bytes \<Rightarrow> unit agent_step" where
  "on_external_object_instruction content = modify (\<lambda>s. s\<lparr>wa_internal := wa_internal s @ map (\<lambda>p. (p, ProcessorObject content)) (dict_keys (wa_by_id s))\<rparr>)"

definition on_internal_object_instruction :: "ProcessorID \<Rightarrow> bytes \<Rightarrow> unit agent_step" where
  "on_internal_object_instruction p content s =
     (case dict_get (wa_by_id s) p of
        None \<Rightarrow> Ret () s
      | Some pid \<Rightarrow> check (h_processor_id (holder_of s pid) \<noteq> None)
                     (if h_task (holder_of s pid) = None then ret () else wa_send (AgentForward content)) s)"

section \<open>Task manager: tasks and cancels\<close>

text \<open>Tasks of higher priority first, suspended ones before new ones of the same priority.\<close>

definition queue_priority :: "int \<Rightarrow> bool \<Rightarrow> int" where
  "queue_priority p suspended = - (p * 10 + (if suspended then 1 else 0))"

definition wa_enqueue :: "Task \<Rightarrow> bool \<Rightarrow> unit agent_step" where
  "wa_enqueue task suspended =
     andthen (of_sum (get_task_priority task)) (\<lambda>p.
       modify (\<lambda>s. s\<lparr>wa_queue := apq_put_nowait (queue_priority p suspended, taskId task) (wa_queue s),
                     wa_queued := dict_set (taskId task) task (wa_queued s)\<rparr>))"

definition suspend_if_priority_is_higher :: "Task \<Rightarrow> unit agent_step" where
  "suspend_if_priority_is_higher new_task =
     andthen (gets current_task) (\<lambda>cur.
       case cur of
         None \<Rightarrow> ret ()
       | Some task \<Rightarrow>
           andthen (of_sum (get_task_priority new_task)) (\<lambda>p.
           andthen (of_sum (get_task_priority task)) (\<lambda>q.
             if p \<le> q then ret ()
             else seq (wa_enqueue task True) (pm_on_suspend_task (taskId task)))))"

definition wa_on_task_new :: "Task \<Rightarrow> unit agent_step" where
  "wa_on_task_new task = seq (wa_enqueue task False) (suspend_if_priority_is_higher task)"

definition wa_confirm :: "TaskID \<Rightarrow> TaskCancelConfirmType \<Rightarrow> unit agent_step" where
  "wa_confirm t ty = wa_send (AgentConfirm \<lparr>confirm_taskId = t, cancelConfirmType = ty\<rparr>)"

definition wa_on_cancel_task :: "TaskCancel \<Rightarrow> unit agent_step" where
  "wa_on_cancel_task tc =
     (let t = cancel_taskId tc
      in andthen (gets (\<lambda>s. t \<in> set (wa_processing s))) (\<lambda>processing.
         andthen (gets (\<lambda>s. dict_has (wa_queued s) t)) (\<lambda>queued.
           if \<not> processing \<and> \<not> queued then wa_confirm t CC_cancelNotFound
           else if processing \<and> \<not> cancel_force tc then wa_confirm t CC_cancelFailed
           else seq (if processing
                     then seq (modify (\<lambda>s. s\<lparr>wa_processing := removeAll t (wa_processing s)\<rparr>)) (pm_on_cancel_task t)
                     else modify (\<lambda>s. s\<lparr>wa_queue := apq_remove t (wa_queue s), wa_queued := dict_pop t (wa_queued s)\<rparr>))
                (wa_confirm t CC_canceled))))"

section \<open>The task routine\<close>

definition routine_lock :: "unit agent_step" where
  "routine_lock = modify (\<lambda>s. if wa_phase s = WaitForLock \<and> \<not> wa_lock s then s\<lparr>wa_lock := True, wa_phase := WaitForTask\<rparr> else s)"

definition routine_task :: "agent_env \<Rightarrow> unit agent_step" where
  "routine_task env s =
     (if wa_phase s \<noteq> WaitForTask then Ret () s
      else (case apq_get_nowait (wa_queue s) of
              Inl _ \<Rightarrow> Ret () s
            | Inr ((_, t), q) \<Rightarrow>
                seq (modify (\<lambda>s. s\<lparr>wa_queue := q, wa_phase := WaitForLock\<rparr>))
                (andthen (lookup wa_queued t) (\<lambda>task.
                 seq (modify (\<lambda>s. s\<lparr>wa_queued := dict_pop t (wa_queued s)\<rparr>))
                 (andthen (gets (\<lambda>s. t \<in> set (wa_processing s))) (\<lambda>processing.
                    if \<not> processing
                    then seq (modify (\<lambda>s. s\<lparr>wa_processing := set_add t (wa_processing s)\<rparr>)) (pm_on_task task)
                    else pm_on_resume_task env t)))) s))"

section \<open>Heartbeats\<close>

definition processor_status :: "agent \<Rightarrow> nat \<Rightarrow> nat \<times> bool \<times> bool \<times> bool" where
  "processor_status s pid =
     (pid, h_processor_id (holder_of s pid) \<noteq> None, h_task (holder_of s pid) \<noteq> None, h_suspended (holder_of s pid))"

definition check_processor :: "agent_env \<Rightarrow> nat \<Rightarrow> unit agent_step" where
  "check_processor env pid s =
     (if pid \<in> set (wa_dead s)
      then (case h_processor_id (holder_of s pid) of None \<Rightarrow> Raise AssertionError s | Some p \<Rightarrow> on_failing_processor env p s)
      else Ret () s)"

definition queued_tasks :: "agent \<Rightarrow> int" where
  "queued_tasks s = int (spq_size (wa_queue s)) - int (length (wa_suspended s))"

definition heartbeat_routine :: "agent_env \<Rightarrow> unit agent_step" where
  "heartbeat_routine env s =
     (if wa_awaiting_echo s then Ret () s
      else seq (for_each (map snd (wa_by_id s)) (check_processor env))
           (\<lambda>s. check (queued_tasks s \<ge> 0)
             (seq (wa_send (AgentHeartbeat (queued_tasks s) (\<not> wa_lock s) (map (processor_status s) (map snd (wa_by_id s)))))
                  (modify (\<lambda>s. s\<lparr>wa_awaiting_echo := True\<rparr>))) s) s)"

definition on_heartbeat_echo :: "int \<Rightarrow> unit agent_step" where
  "on_heartbeat_echo now = modify (\<lambda>s. if wa_awaiting_echo s then s\<lparr>wa_awaiting_echo := False, wa_last_seen := now\<rparr> else s)"

definition timeout_routine :: "agent_env \<Rightarrow> int \<Rightarrow> unit agent_step" where
  "timeout_routine env now =
     andthen (gets wa_last_seen) (\<lambda>seen. if now - seen < we_death_timeout env then ret () else raise TimeoutError)"

section \<open>Runs\<close>

text \<open>After \<open>initialize\<close>: the lock is taken and the first processor is starting.\<close>

definition agent_empty :: agent where
  "agent_empty = \<lparr>wa_queued = [], wa_queue = spq_empty, wa_processing = [], wa_phase = WaitForLock, wa_holders = [], wa_current = None,
     wa_suspended = [], wa_by_id = [], wa_lock = True, wa_profilers = [], wa_dead = [], wa_next_pid = 0, wa_tags_used = 0,
     wa_awaiting_echo = False, wa_last_seen = 0, wa_sent = [], wa_internal = []\<rparr>"

definition agent_init :: agent where
  "agent_init = (case start_new_processor agent_empty of Ret _ s \<Rightarrow> s | Raise _ s \<Rightarrow> s | NoFuel \<Rightarrow> agent_empty)"

datatype agent_input =
    ExtTask Task
  | ExtCancel TaskCancel
  | ExtObject bytes
  | ExtEcho int
  | ExtShutdown
  | IntInitialized ProcessorID
  | IntObject ProcessorID bytes
  | IntLog bytes
  | IntResult ProcessorID TaskResult
  | ProcessDies nat
  | RoutineLock
  | RoutineTask
  | RoutineHeartbeat
  | RoutineTimeout int

fun agent_perform :: "agent_env \<Rightarrow> agent_input \<Rightarrow> unit agent_step" where
  "agent_perform env (ExtTask task) = wa_on_task_new task"
| "agent_perform env (ExtCancel tc) = wa_on_cancel_task tc"
| "agent_perform env (ExtObject content) = on_external_object_instruction content"
| "agent_perform env (ExtEcho now) = on_heartbeat_echo now"
| "agent_perform env ExtShutdown = raise ClientShutdown"
| "agent_perform env (IntInitialized p) = on_processor_initialized p"
| "agent_perform env (IntObject p content) = on_internal_object_instruction p content"
| "agent_perform env (IntLog content) = wa_send (AgentForward content)"
| "agent_perform env (IntResult p r) = pm_on_task_result env p r"
| "agent_perform env (ProcessDies pid) = modify (\<lambda>s. s\<lparr>wa_dead := set_add pid (wa_dead s)\<rparr>)"
| "agent_perform env RoutineLock = routine_lock"
| "agent_perform env RoutineTask = routine_task env"
| "agent_perform env RoutineHeartbeat = heartbeat_routine env"
| "agent_perform env (RoutineTimeout now) = timeout_routine env now"

fun agent_run :: "agent_env \<Rightarrow> agent_input list \<Rightarrow> unit agent_step" where
  "agent_run env [] = ret ()"
| "agent_run env (i # is) = seq (agent_perform env i) (agent_run env is)"

end
