(* ===== verification/WorkerInvariant.thy ===== *)
theory WorkerInvariant
  imports WorkerAgent
begin

text \<open>
  The invariant of a worker's agent: the queue, the tables of processors, the profilers and the lock
  agree on which task runs, which are suspended and which wait. Every input keeps it, as
  long as the scheduler does not send a task the worker already has and processors have distinct names.
\<close>

section \<open>Parts of the state\<close>

lemma holder_of_upd [simp]: "holder_of (upd_holder pid f s) q = (if q = pid then f (holder_of s pid) else holder_of s q)"
  by (simp add: holder_of_def upd_holder_def)

lemma upd_holder_simps [simp]:
  "wa_queued (upd_holder pid f s) = wa_queued s" "wa_queue (upd_holder pid f s) = wa_queue s"
  "wa_processing (upd_holder pid f s) = wa_processing s" "wa_phase (upd_holder pid f s) = wa_phase s"
  "wa_current (upd_holder pid f s) = wa_current s" "wa_suspended (upd_holder pid f s) = wa_suspended s"
  "wa_by_id (upd_holder pid f s) = wa_by_id s" "wa_lock (upd_holder pid f s) = wa_lock s"
  "wa_profilers (upd_holder pid f s) = wa_profilers s" "wa_next_pid (upd_holder pid f s) = wa_next_pid s"
  "dict_has (wa_holders (upd_holder pid f s)) q = (q = pid \<or> dict_has (wa_holders s) q)"
  by (simp_all add: upd_holder_def)

lemma holder_of_cong: "wa_holders s' = wa_holders s \<Longrightarrow> holder_of s' = holder_of s"
  by (simp add: holder_of_def fun_eq_iff)

lemma holder_of_fields [simp]:
  "holder_of (s\<lparr>wa_sent := x1\<rparr>) = holder_of s" "holder_of (s\<lparr>wa_lock := x2\<rparr>) = holder_of s" "holder_of (s\<lparr>wa_phase := x3\<rparr>) = holder_of s"
  "holder_of (s\<lparr>wa_queue := x4\<rparr>) = holder_of s" "holder_of (s\<lparr>wa_queued := x5\<rparr>) = holder_of s" "holder_of (s\<lparr>wa_internal := x6\<rparr>) = holder_of s"
  "holder_of (s\<lparr>wa_processing := x7\<rparr>) = holder_of s" "holder_of (s\<lparr>wa_suspended := x8\<rparr>) = holder_of s" "holder_of (s\<lparr>wa_current := x9\<rparr>) = holder_of s"
  "holder_of (s\<lparr>wa_profilers := x10\<rparr>) = holder_of s" "holder_of (s\<lparr>wa_by_id := x11\<rparr>) = holder_of s" "holder_of (s\<lparr>wa_tags_used := x12\<rparr>) = holder_of s"
  by (rule holder_of_cong, simp)+

lemma holder_of_empty: "wa_holders s = [] \<Longrightarrow> holder_of s pid = \<lparr>h_processor_id = None, h_task = None, h_suspended = False\<rparr>"
  by (simp add: holder_of_def)

text \<open>The two updates of the table of processes.\<close>

definition killed :: "nat \<Rightarrow> agent \<Rightarrow> agent" where
  "killed pid s = upd_holder pid (\<lambda>h. h\<lparr>h_task := None\<rparr>)
     (s\<lparr>wa_profilers := dict_pop pid (wa_profilers s),
        wa_by_id := (case h_processor_id (holder_of s pid) of None \<Rightarrow> wa_by_id s | Some p \<Rightarrow> dict_pop p (wa_by_id s))\<rparr>)"

definition started :: "agent \<Rightarrow> agent" where
  "started s = (let pid = wa_next_pid s in s
     \<lparr>wa_holders := dict_set pid \<lparr>h_processor_id = None, h_task = None, h_suspended = False\<rparr> (wa_holders s),
      wa_current := Some pid, wa_profilers := dict_set pid None (wa_profilers s), wa_next_pid := pid + 1\<rparr>)"

lemma kill_run [simp]: "kill_processor pid s = Ret () (killed pid s)"
  by (simp add: kill_processor_def killed_def)

lemma start_run [simp]: "start_new_processor s = Ret () (started s)"
  by (simp add: start_new_processor_def started_def)

lemma holder_of_killed [simp]:
  "holder_of (killed pid s) q = (if q = pid then (holder_of s pid)\<lparr>h_task := None\<rparr> else holder_of s q)"
  by (simp add: killed_def)

lemma killed_simps [simp]:
  "wa_queued (killed pid s) = wa_queued s" "wa_queue (killed pid s) = wa_queue s"
  "wa_processing (killed pid s) = wa_processing s" "wa_phase (killed pid s) = wa_phase s"
  "wa_current (killed pid s) = wa_current s" "wa_suspended (killed pid s) = wa_suspended s" "wa_lock (killed pid s) = wa_lock s"
  "dict_get (wa_profilers (killed pid s)) q = (if q = pid then None else dict_get (wa_profilers s) q)"
  "wa_next_pid (killed pid s) = wa_next_pid s"
  "dict_has (wa_holders (killed pid s)) q = (q = pid \<or> dict_has (wa_holders s) q)"
  "dict_get (wa_by_id (killed pid s)) p = (if h_processor_id (holder_of s pid) = Some p then None else dict_get (wa_by_id s) p)"
  by (simp_all add: killed_def split: option.split)

lemma holder_of_started [simp]:
  "holder_of (started s) q = (if q = wa_next_pid s then \<lparr>h_processor_id = None, h_task = None, h_suspended = False\<rparr> else holder_of s q)"
  by (simp add: started_def Let_def holder_of_def)

lemma started_simps [simp]:
  "wa_queued (started s) = wa_queued s" "wa_queue (started s) = wa_queue s"
  "wa_processing (started s) = wa_processing s" "wa_phase (started s) = wa_phase s"
  "wa_current (started s) = Some (wa_next_pid s)" "wa_suspended (started s) = wa_suspended s" "wa_lock (started s) = wa_lock s"
  "dict_get (wa_profilers (started s)) q = (if q = wa_next_pid s then Some None else dict_get (wa_profilers s) q)"
  "wa_next_pid (started s) = Suc (wa_next_pid s)"
  "dict_has (wa_holders (started s)) q = (q = wa_next_pid s \<or> dict_has (wa_holders s) q)"
  "wa_by_id (started s) = wa_by_id s"
  by (simp_all add: started_def Let_def)

section \<open>The invariant\<close>

text \<open>
  \<open>pool P T s\<close>: the tables agree, where the processes \<open>P\<close> and the tasks \<open>T\<close> are looked after by the caller.
\<close>

definition task_prio :: "Task \<Rightarrow> int" where
  "task_prio task = (case get_task_priority task of Inr p \<Rightarrow> p | Inl _ \<Rightarrow> 0)"

definition rank_of :: "Task \<Rightarrow> int \<Rightarrow> bool" where
  "rank_of task k \<longleftrightarrow> k = queue_priority (task_prio task) False \<or> k = queue_priority (task_prio task) True"

lemma rank_of_le: "rank_of task k \<Longrightarrow> rank_of task' k' \<Longrightarrow> k \<le> k' \<Longrightarrow> task_prio task' \<le> task_prio task"
  by (auto simp: rank_of_def queue_priority_def)

definition queue_ok :: "agent \<Rightarrow> bool" where
  "queue_ok s \<longleftrightarrow> spq_inv (wa_queue s) \<and> (\<forall>t. spq_prio (wa_queue s) t \<noteq> None \<longleftrightarrow> dict_has (wa_queued s) t) \<and>
     (\<forall>t task. dict_get (wa_queued s) t = Some task \<longrightarrow> taskId task = t) \<and>
     (\<forall>t task k. dict_get (wa_queued s) t = Some task \<longrightarrow> spq_prio (wa_queue s) t = Some k \<longrightarrow> rank_of task k)"

definition suspended_ok :: "nat set \<Rightarrow> agent \<Rightarrow> bool" where
  "suspended_ok P s \<longleftrightarrow> dict_ok (wa_suspended s) \<and> (\<forall>t pid. dict_get (wa_suspended s) t = Some pid \<longrightarrow>
     pid \<notin> P \<and> t \<in> set (wa_processing s) \<and> dict_get (wa_queued s) t = h_task (holder_of s pid) \<and> map_option taskId (h_task (holder_of s pid)) = Some t \<and>
     dict_get (wa_profilers s) pid = Some (Some t) \<and> (\<exists>p. h_processor_id (holder_of s pid) = Some p \<and> dict_get (wa_by_id s) p = Some pid))"

definition holders_ok :: "nat set \<Rightarrow> agent \<Rightarrow> bool" where
  "holders_ok P s \<longleftrightarrow>
     (\<forall>pid task. h_task (holder_of s pid) = Some task \<longrightarrow> pid \<in> P \<or> dict_get (wa_suspended s) (taskId task) = Some pid) \<and>
     (\<forall>p pid. dict_get (wa_by_id s) p = Some pid \<longrightarrow> h_processor_id (holder_of s pid) = Some p) \<and>
     (\<forall>pid p. pid \<in> P \<longrightarrow> h_processor_id (holder_of s pid) = Some p \<longrightarrow> dict_get (wa_by_id s) p = Some pid) \<and>
     (\<forall>pid. dict_has (wa_holders s) pid \<longrightarrow> pid < wa_next_pid s) \<and> (\<forall>pid \<in> P. pid < wa_next_pid s)"

definition pool :: "nat set \<Rightarrow> TaskID set \<Rightarrow> agent \<Rightarrow> bool" where
  "pool P T s \<longleftrightarrow> queue_ok s \<and> suspended_ok P s \<and> holders_ok P s \<and>
     (\<forall>t \<in> set (wa_processing s). t \<in> T \<or> dict_has (wa_suspended s) t)"

definition running_ok :: "nat \<Rightarrow> agent \<Rightarrow> bool" where
  "running_ok c s \<longleftrightarrow> (\<forall>task. h_task (holder_of s c) = Some task \<longrightarrow> wa_lock s \<and> wa_phase s = WaitForLock \<and>
     taskId task \<in> set (wa_processing s) \<and> \<not> dict_has (wa_queued s) (taskId task) \<and>
     dict_get (wa_profilers s) c = Some (Some (taskId task)) \<and> h_processor_id (holder_of s c) \<noteq> None \<and>
     (\<forall>u task'. dict_get (wa_queued s) u = Some task' \<longrightarrow> task_prio task' \<le> task_prio task))"

definition agent_inv :: "agent \<Rightarrow> bool" where
  "agent_inv s \<longleftrightarrow> (\<exists>c. wa_current s = Some c \<and> pool {c} (set_option (current_task_id s)) s \<and> running_ok c s)"

lemmas pool_defs = pool_def queue_ok_def suspended_ok_def holders_ok_def

lemma agent_init_inv: "agent_inv agent_init"
  by (simp add: agent_inv_def agent_init_def agent_empty_def pool_defs running_ok_def current_task_id_def current_task_def holder_of_empty)

text \<open>Only these parts of the state matter.\<close>

lemma pool_cong:
  assumes "wa_queued s' = wa_queued s" "wa_queue s' = wa_queue s" "wa_processing s' = wa_processing s" "wa_holders s' = wa_holders s"
    "wa_suspended s' = wa_suspended s" "wa_by_id s' = wa_by_id s" "wa_profilers s' = wa_profilers s" "wa_next_pid s' = wa_next_pid s"
  shows "pool P T s' = pool P T s"
  using holder_of_cong [OF assms(4)] by (simp add: pool_defs assms)

lemma holder_present: "h_task (holder_of s pid) = Some task \<Longrightarrow> dict_has (wa_holders s) pid"
  "h_processor_id (holder_of s pid) = Some p \<Longrightarrow> dict_has (wa_holders s) pid"
  by (auto simp: holder_of_def dict_has_iff split: option.splits)

lemma poolD:
  assumes "pool P T s"
  shows "dict_get (wa_suspended s) t = Some pid \<Longrightarrow> pid \<notin> P \<and> t \<in> set (wa_processing s) \<and> dict_get (wa_queued s) t = h_task (holder_of s pid) \<and>
      map_option taskId (h_task (holder_of s pid)) = Some t \<and> dict_get (wa_profilers s) pid = Some (Some t)"
    "h_task (holder_of s pid) = Some task \<Longrightarrow> pid \<notin> P \<Longrightarrow> dict_get (wa_suspended s) (taskId task) = Some pid"
    "dict_get (wa_by_id s) p = Some pid \<Longrightarrow> h_processor_id (holder_of s pid) = Some p"
    "dict_has (wa_holders s) pid \<Longrightarrow> pid < wa_next_pid s"
    "t \<in> set (wa_processing s) \<Longrightarrow> t \<in> T \<or> dict_has (wa_suspended s) t"
    "dict_get (wa_suspended s) t = Some pid \<Longrightarrow> \<exists>p. h_processor_id (holder_of s pid) = Some p \<and> dict_get (wa_by_id s) p = Some pid"
    "pid \<in> P \<Longrightarrow> h_processor_id (holder_of s pid) = Some p \<Longrightarrow> dict_get (wa_by_id s) p = Some pid"
    "pid \<in> P \<Longrightarrow> pid < wa_next_pid s" "dict_ok (wa_suspended s)" "queue_ok s"
  using assms unfolding pool_def suspended_ok_def holders_ok_def by blast+

lemma poolI:
  assumes "queue_ok s" "dict_ok (wa_suspended s)"
    "\<And>t pid. dict_get (wa_suspended s) t = Some pid \<Longrightarrow> pid \<notin> P \<and> t \<in> set (wa_processing s) \<and> dict_get (wa_queued s) t = h_task (holder_of s pid) \<and>
      map_option taskId (h_task (holder_of s pid)) = Some t \<and> dict_get (wa_profilers s) pid = Some (Some t)"
    "\<And>t pid. dict_get (wa_suspended s) t = Some pid \<Longrightarrow> \<exists>p. h_processor_id (holder_of s pid) = Some p \<and> dict_get (wa_by_id s) p = Some pid"
    "\<And>pid task. h_task (holder_of s pid) = Some task \<Longrightarrow> pid \<notin> P \<Longrightarrow> dict_get (wa_suspended s) (taskId task) = Some pid"
    "\<And>p pid. dict_get (wa_by_id s) p = Some pid \<Longrightarrow> h_processor_id (holder_of s pid) = Some p"
    "\<And>pid p. pid \<in> P \<Longrightarrow> h_processor_id (holder_of s pid) = Some p \<Longrightarrow> dict_get (wa_by_id s) p = Some pid"
    "\<And>pid. dict_has (wa_holders s) pid \<Longrightarrow> pid < wa_next_pid s" "\<And>pid. pid \<in> P \<Longrightarrow> pid < wa_next_pid s"
    "\<And>t. t \<in> set (wa_processing s) \<Longrightarrow> t \<in> T \<or> dict_has (wa_suspended s) t"
  shows "pool P T s"
  using assms unfolding pool_def suspended_ok_def holders_ok_def by blast

section \<open>Steps of the pool\<close>

lemma queue_ok_cong: "wa_queued s' = wa_queued s \<Longrightarrow> wa_queue s' = wa_queue s \<Longrightarrow> queue_ok s' = queue_ok s"
  by (simp add: queue_ok_def)

lemma pool_kill:
  assumes pool: "pool P T s" and pid: "pid \<in> P"
  shows "pool (P - {pid}) T (killed pid s)"
proof (rule poolI)
  fix t pid' assume t: "dict_get (wa_suspended (killed pid s)) t = Some pid'"
  then have t': "dict_get (wa_suspended s) t = Some pid'" by simp
  then have ne: "pid' \<noteq> pid" using poolD(1) [OF pool t'] pid by auto
  then show "pid' \<notin> P - {pid} \<and> t \<in> set (wa_processing (killed pid s)) \<and> dict_get (wa_queued (killed pid s)) t = h_task (holder_of (killed pid s) pid') \<and>
      map_option taskId (h_task (holder_of (killed pid s) pid')) = Some t \<and> dict_get (wa_profilers (killed pid s)) pid' = Some (Some t)"
    using poolD(1) [OF pool t'] by simp
  obtain p where p: "h_processor_id (holder_of s pid') = Some p" "dict_get (wa_by_id s) p = Some pid'" using poolD(6) [OF pool t'] by blast
  have "h_processor_id (holder_of s pid) \<noteq> Some p" using poolD(7) [OF pool pid, of p] p(2) ne by auto
  then show "\<exists>p. h_processor_id (holder_of (killed pid s) pid') = Some p \<and> dict_get (wa_by_id (killed pid s)) p = Some pid'"
    using p ne by simp
next
  fix q p assume q: "q \<in> P - {pid}" and p: "h_processor_id (holder_of (killed pid s) q) = Some p"
  then have p': "h_processor_id (holder_of s q) = Some p" by simp
  have "dict_get (wa_by_id s) p = Some q" using poolD(7) [OF pool _ p'] q by blast
  moreover have "h_processor_id (holder_of s pid) \<noteq> Some p" using poolD(7) [OF pool pid, of p] calculation q by auto
  ultimately show "dict_get (wa_by_id (killed pid s)) p = Some q" by simp
next
  fix p q assume "dict_get (wa_by_id (killed pid s)) p = Some q"
  then have "dict_get (wa_by_id s) p = Some q" "h_processor_id (holder_of s pid) \<noteq> Some p" by (simp_all split: if_splits)
  then show "h_processor_id (holder_of (killed pid s) q) = Some p" using poolD(3) [OF pool, of p q] by (cases "q = pid") auto
next
  fix q task assume q: "h_task (holder_of (killed pid s) q) = Some task" "q \<notin> P - {pid}"
  then have "h_task (holder_of s q) = Some task" "q \<notin> P" by (auto split: if_splits)
  then show "dict_get (wa_suspended (killed pid s)) (taskId task) = Some q" using poolD(2) [OF pool] by simp
next
  show "queue_ok (killed pid s)" using poolD(10) [OF pool] queue_ok_cong [of "killed pid s" s] by simp
  show "dict_has (wa_holders (killed pid s)) q \<Longrightarrow> q < wa_next_pid (killed pid s)" for q
    using poolD(4,8) [OF pool] pid by auto
qed (use poolD(5,8,9) [OF pool] in auto)

lemma pool_start:
  assumes pool: "pool {} T s"
  shows "pool {wa_next_pid s} T (started s)"
proof -
  have "\<not> dict_has (wa_holders s) (wa_next_pid s)" using poolD(4) [OF pool, of "wa_next_pid s"] by auto
  then have none: "h_task (holder_of s (wa_next_pid s)) = None" "h_processor_id (holder_of s (wa_next_pid s)) = None"
    by (simp_all add: holder_of_def dict_has_iff)
  show ?thesis
  proof (rule poolI)
    fix t pid assume "dict_get (wa_suspended (started s)) t = Some pid"
    then have t: "dict_get (wa_suspended s) t = Some pid" by simp
    then have ne: "pid \<noteq> wa_next_pid s" using poolD(1) [OF pool t] none by auto
    show "pid \<notin> {wa_next_pid s} \<and> t \<in> set (wa_processing (started s)) \<and> dict_get (wa_queued (started s)) t = h_task (holder_of (started s) pid) \<and>
        map_option taskId (h_task (holder_of (started s) pid)) = Some t \<and> dict_get (wa_profilers (started s)) pid = Some (Some t)"
      using poolD(1) [OF pool t] ne by simp
    show "\<exists>p. h_processor_id (holder_of (started s) pid) = Some p \<and> dict_get (wa_by_id (started s)) p = Some pid"
      using poolD(6) [OF pool t] ne by simp
  next
    fix p pid assume "dict_get (wa_by_id (started s)) p = Some pid"
    then have "h_processor_id (holder_of s pid) = Some p" using poolD(3) [OF pool] by simp
    then show "h_processor_id (holder_of (started s) pid) = Some p" using none by auto
  next
    show "queue_ok (started s)" using poolD(10) [OF pool] queue_ok_cong [of "started s" s] by simp
    show "dict_has (wa_holders (started s)) q \<Longrightarrow> q < wa_next_pid (started s)" for q
      using poolD(4) [OF pool, of q] by auto
    show "h_task (holder_of (started s) pid) = Some task \<Longrightarrow> pid \<notin> {wa_next_pid s} \<Longrightarrow>
        dict_get (wa_suspended (started s)) (taskId task) = Some pid" for pid task
      using poolD(2) [OF pool, of pid task] by simp
  qed (use poolD(5,9) [OF pool] in \<open>auto split: if_splits\<close>)
qed

text \<open>A suspended process is taken out of its table.\<close>

lemma pool_pop:
  assumes pool: "pool P T s" and t: "dict_get (wa_suspended s) t = Some pid"
  shows "pool (insert pid P) (insert t T) (s\<lparr>wa_suspended := dict_pop t (wa_suspended s)\<rparr>)"
proof -
  let ?s = "s\<lparr>wa_suspended := dict_pop t (wa_suspended s)\<rparr>"
  have h: "holder_of ?s = holder_of s" by (rule holder_of_cong) simp
  obtain task where task: "h_task (holder_of s pid) = Some task" "taskId task = t" using poolD(1) [OF pool t] by auto
  show ?thesis
  proof (rule poolI, unfold h)
    fix t' pid' assume "dict_get (wa_suspended ?s) t' = Some pid'"
    then have t': "dict_get (wa_suspended s) t' = Some pid'" "t' \<noteq> t" by (simp_all split: if_splits)
    have "pid' \<noteq> pid" using poolD(1) [OF pool t'(1)] task t'(2) by auto
    then show "pid' \<notin> insert pid P \<and> t' \<in> set (wa_processing ?s) \<and> dict_get (wa_queued ?s) t' = h_task (holder_of s pid') \<and>
        map_option taskId (h_task (holder_of s pid')) = Some t' \<and> dict_get (wa_profilers ?s) pid' = Some (Some t')"
      using poolD(1) [OF pool t'(1)] by simp
    show "\<exists>p. h_processor_id (holder_of s pid') = Some p \<and> dict_get (wa_by_id ?s) p = Some pid'"
      using poolD(6) [OF pool t'(1)] by simp
  next
    fix q task' assume "h_task (holder_of s q) = Some task'" "q \<notin> insert pid P"
    then have "dict_get (wa_suspended s) (taskId task') = Some q" "q \<noteq> pid" using poolD(2) [OF pool] by auto
    then show "dict_get (wa_suspended ?s) (taskId task') = Some q" using t by auto
  next
    fix q p assume q: "q \<in> insert pid P" "h_processor_id (holder_of s q) = Some p"
    show "dict_get (wa_by_id ?s) p = Some q"
      using q poolD(7) [OF pool, of q p] poolD(6) [OF pool t] by auto
  next
    show "queue_ok ?s" using poolD(10) [OF pool] queue_ok_cong [of ?s s] by simp
    show "q < wa_next_pid ?s" if "q \<in> insert pid P" for q
      using that poolD(4) [OF pool holder_present(1) [OF task(1)]] poolD(8) [OF pool] by auto
  qed (use poolD(3-5,9) [OF pool] in auto)
qed

text \<open>A running process is put into it.\<close>

lemma pool_park:
  assumes pool: "pool {c} T s" and task: "h_task (holder_of s c) = Some task"
    and ok: "taskId task \<in> set (wa_processing s)" "dict_get (wa_queued s) (taskId task) = Some task" "dict_get (wa_profilers s) c = Some (Some (taskId task))"
      "h_processor_id (holder_of s c) \<noteq> None" and new: "\<not> dict_has (wa_suspended s) (taskId task)"
  shows "pool {} (T - {taskId task}) (upd_holder c (\<lambda>h. h\<lparr>h_suspended := True\<rparr>) (s\<lparr>wa_suspended := dict_set (taskId task) c (wa_suspended s)\<rparr>))"
proof -
  let ?u = "s\<lparr>wa_suspended := dict_set (taskId task) c (wa_suspended s)\<rparr>"
  let ?s = "upd_holder c (\<lambda>h. h\<lparr>h_suspended := True\<rparr>) ?u"
  have h: "holder_of ?u = holder_of s" by (rule holder_of_cong) simp
  obtain p where p: "h_processor_id (holder_of s c) = Some p" "dict_get (wa_by_id s) p = Some c"
    using ok(4) poolD(7) [OF pool, of c] by auto
  show ?thesis
  proof (rule poolI)
    fix t pid assume "dict_get (wa_suspended ?s) t = Some pid"
    then have cases: "t = taskId task \<and> pid = c \<or> dict_get (wa_suspended s) t = Some pid" by (auto split: if_splits)
    then show "pid \<notin> {} \<and> t \<in> set (wa_processing ?s) \<and> dict_get (wa_queued ?s) t = h_task (holder_of ?s pid) \<and>
        map_option taskId (h_task (holder_of ?s pid)) = Some t \<and> dict_get (wa_profilers ?s) pid = Some (Some t)"
      and "\<exists>p. h_processor_id (holder_of ?s pid) = Some p \<and> dict_get (wa_by_id ?s) p = Some pid"
      using ok(1-3) task p poolD(1,6) [OF pool, of t pid] by (auto simp: h)
  next
    fix q task' assume "h_task (holder_of ?s q) = Some task'" "q \<notin> {}"
    then have q: "h_task (holder_of s q) = Some task'" by (simp add: h split: if_splits)
    show "dict_get (wa_suspended ?s) (taskId task') = Some q"
      using poolD(2) [OF pool q] q task new by (cases "q = c") (auto simp: dict_has_iff)
  next
    show "queue_ok ?s" using poolD(10) [OF pool] queue_ok_cong [of ?s s] by simp
    show "q < wa_next_pid ?s" if "dict_has (wa_holders ?s) q" for q using that poolD(4) [OF pool, of q] poolD(8) [OF pool, of c] by auto
    show "h_processor_id (holder_of ?s q) = Some p'" if "dict_get (wa_by_id ?s) p' = Some q" for q p'
      using that poolD(3) [OF pool, of p' q] by (auto simp: h)
  qed (use poolD(5,9) [OF pool] in auto)
qed

text \<open>What becomes of the queue and of the set of running tasks, when the processes stay.\<close>

lemma pool_frame:
  assumes pool: "pool P T s" and "queue_ok s'"
    and same: "wa_holders s' = wa_holders s" "wa_suspended s' = wa_suspended s" "wa_by_id s' = wa_by_id s" "wa_profilers s' = wa_profilers s"
      "wa_next_pid s' = wa_next_pid s"
    and susp: "\<And>t. dict_has (wa_suspended s) t \<Longrightarrow> t \<in> set (wa_processing s') \<and> dict_get (wa_queued s') t = dict_get (wa_queued s) t"
    and proc: "\<And>t. t \<in> set (wa_processing s') \<Longrightarrow> t \<in> T' \<or> dict_has (wa_suspended s) t"
  shows "pool P T' s'"
proof -
  have h: "holder_of s' = holder_of s" by (rule holder_of_cong) (rule same(1))
  have "suspended_ok P s'" unfolding suspended_ok_def h same
    using poolD(9) [OF pool] poolD(1,6) [OF pool] susp by (auto simp: dict_has_iff)
  moreover have "holders_ok P s'" using pool unfolding pool_def holders_ok_def h same by blast
  ultimately show ?thesis using assms(2) proc unfolding pool_def by (simp add: same)
qed

text \<open>A task that is done leaves the queue and the set of running tasks.\<close>

definition finished :: "TaskID \<Rightarrow> agent \<Rightarrow> agent" where
  "finished t s = s\<lparr>wa_queued := dict_pop t (wa_queued s), wa_queue := apq_remove t (wa_queue s), wa_processing := removeAll t (wa_processing s)\<rparr>"

lemma finished_simps [simp]:
  "wa_queued (finished t s) = dict_pop t (wa_queued s)" "wa_queue (finished t s) = apq_remove t (wa_queue s)"
  "wa_processing (finished t s) = removeAll t (wa_processing s)" "wa_phase (finished t s) = wa_phase s"
  "wa_holders (finished t s) = wa_holders s" "wa_current (finished t s) = wa_current s" "wa_suspended (finished t s) = wa_suspended s"
  "wa_by_id (finished t s) = wa_by_id s" "wa_lock (finished t s) = wa_lock s" "wa_profilers (finished t s) = wa_profilers s"
  "wa_next_pid (finished t s) = wa_next_pid s" "holder_of (finished t s) = holder_of s"
  by (simp_all add: finished_def holder_of_def fun_eq_iff)

lemma queue_okD:
  assumes "queue_ok s"
  shows "spq_inv (wa_queue s)" "spq_prio (wa_queue s) u \<noteq> None \<longleftrightarrow> dict_has (wa_queued s) u"
    "dict_get (wa_queued s) u = Some task \<Longrightarrow> taskId task = u"
    "dict_get (wa_queued s) u = Some task \<Longrightarrow> spq_prio (wa_queue s) u = Some k \<Longrightarrow> rank_of task k"
  using assms unfolding queue_ok_def by blast+

lemma pool_finished:
  assumes pool: "pool P T s" and t: "\<not> dict_has (wa_suspended s) t"
  shows "pool P (T - {t}) (finished t s)"
proof (rule pool_frame [OF pool])
  note q = queue_okD [OF poolD(10) [OF pool]]
  show "queue_ok (finished t s)"
    unfolding queue_ok_def using apq.del [OF q(1), of t] q(2-4) by (simp split: if_splits)
  show "u \<in> set (wa_processing (finished t s)) \<and> dict_get (wa_queued (finished t s)) u = dict_get (wa_queued s) u" if "dict_has (wa_suspended s) u" for u
    using that t poolD(1) [OF pool, of u] by (auto simp: dict_has_iff)
  show "u \<in> T - {t} \<or> dict_has (wa_suspended s) u" if "u \<in> set (wa_processing (finished t s))" for u
    using that poolD(5) [OF pool, of u] by auto
qed simp_all

lemma pool_enqueue:
  assumes pool: "pool P T s" and new: "\<not> dict_has (wa_queued s) (taskId task)" and rank: "rank_of task p"
  shows "pool P T (s\<lparr>wa_queue := apq_put_nowait (p, taskId task) (wa_queue s), wa_queued := dict_set (taskId task) task (wa_queued s)\<rparr>)"
    (is "pool P T ?s")
proof (rule pool_frame [OF pool])
  note q = queue_okD [OF poolD(10) [OF pool]]
  have "spq_prio (wa_queue s) (taskId task) = None" using q(2) new by blast
  then show "queue_ok ?s"
    unfolding queue_ok_def using apq.put [OF q(1), of "taskId task" p] q(2-4) rank by (simp split: if_splits)
  show "u \<in> set (wa_processing ?s) \<and> dict_get (wa_queued ?s) u = dict_get (wa_queued s) u" if "dict_has (wa_suspended s) u" for u
    using that poolD(1) [OF pool, of u] new by (auto simp: dict_has_iff)
qed (use poolD(5) [OF pool] in simp_all)

text \<open>A process the caller looks after may change its task and its profiler.\<close>

lemma pool_owned:
  assumes pool: "pool P T s" and pid: "pid \<in> P" and f: "\<And>h. h_processor_id (f h) = h_processor_id h"
    and d: "\<And>q. q \<noteq> pid \<Longrightarrow> dict_get d q = dict_get (wa_profilers s) q"
  shows "pool P T (upd_holder pid f (s\<lparr>wa_profilers := d\<rparr>))" (is "pool P T (upd_holder pid f ?u)")
proof -
  have h: "holder_of ?u = holder_of s" by (rule holder_of_cong) simp
  have ids: "h_processor_id (holder_of (upd_holder pid f ?u) q) = h_processor_id (holder_of s q)" for q by (simp add: h f)
  show ?thesis
  proof (rule poolI, unfold ids)
    fix t q assume "dict_get (wa_suspended (upd_holder pid f ?u)) t = Some q"
    then have t: "dict_get (wa_suspended s) t = Some q" by simp
    have "q \<noteq> pid" using poolD(1) [OF pool t] pid by auto
    then show "q \<notin> P \<and> t \<in> set (wa_processing (upd_holder pid f ?u)) \<and> dict_get (wa_queued (upd_holder pid f ?u)) t = h_task (holder_of (upd_holder pid f ?u) q) \<and>
        map_option taskId (h_task (holder_of (upd_holder pid f ?u) q)) = Some t \<and> dict_get (wa_profilers (upd_holder pid f ?u)) q = Some (Some t)"
      and "\<exists>p. h_processor_id (holder_of s q) = Some p \<and> dict_get (wa_by_id (upd_holder pid f ?u)) p = Some q"
      using poolD(1,6) [OF pool t] d by (simp_all add: h)
  next
    show "queue_ok (upd_holder pid f ?u)" using poolD(10) [OF pool] queue_ok_cong [of "upd_holder pid f ?u" s] by simp
    show "h_task (holder_of (upd_holder pid f ?u) q) = Some task \<Longrightarrow> q \<notin> P \<Longrightarrow> dict_get (wa_suspended (upd_holder pid f ?u)) (taskId task) = Some q" for q task
      using poolD(2) [OF pool, of q task] pid by (auto simp: h split: if_splits)
    show "dict_has (wa_holders (upd_holder pid f ?u)) q \<Longrightarrow> q < wa_next_pid (upd_holder pid f ?u)" for q
      using poolD(4) [OF pool, of q] poolD(8) [OF pool, of pid] pid by auto
    show "q \<in> P \<Longrightarrow> h_processor_id (holder_of s q) = Some p \<Longrightarrow> dict_get (wa_by_id (upd_holder pid f ?u)) p = Some q" for q p
      using poolD(7) [OF pool, of q p] by simp
    show "dict_get (wa_by_id (upd_holder pid f ?u)) p = Some q \<Longrightarrow> h_processor_id (holder_of s q) = Some p" for q p
      using poolD(3) [OF pool, of p q] by simp
  qed (use poolD(5,8,9) [OF pool] in simp_all)
qed

lemma pool_adopt:
  assumes pool: "pool P T s" and none: "h_task (holder_of s pid) = None" and p: "dict_get (wa_by_id s) p = Some pid"
  shows "pool (insert pid P) T s"
proof (rule poolI)
  fix t q assume t: "dict_get (wa_suspended s) t = Some q"
  have "q \<noteq> pid" using poolD(1) [OF pool t] none by auto
  then show "q \<notin> insert pid P \<and> t \<in> set (wa_processing s) \<and> dict_get (wa_queued s) t = h_task (holder_of s q) \<and>
      map_option taskId (h_task (holder_of s q)) = Some t \<and> dict_get (wa_profilers s) q = Some (Some t)"
    and "\<exists>p. h_processor_id (holder_of s q) = Some p \<and> dict_get (wa_by_id s) p = Some q"
    using poolD(1,6) [OF pool t] by simp_all
next
  have id: "h_processor_id (holder_of s pid) = Some p" by (rule poolD(3) [OF pool p])
  show "q < wa_next_pid s" if "q \<in> insert pid P" for q
    using that poolD(8) [OF pool] poolD(4) [OF pool holder_present(2) [OF id]] by auto
  show "dict_get (wa_by_id s) p' = Some q" if "q \<in> insert pid P" "h_processor_id (holder_of s q) = Some p'" for q p'
    using that poolD(7) [OF pool, of q p'] id p by auto
qed (use poolD(2-5,9,10) [OF pool] in auto)

lemma pool_mono: "pool P T s \<Longrightarrow> T \<subseteq> T' \<Longrightarrow> pool P T' s"
  unfolding pool_def by blast

section \<open>States between inputs\<close>

lemma agent_invI:
  assumes "wa_current s = Some c" "pool {c} (set_option (map_option taskId (h_task (holder_of s c)))) s" "running_ok c s"
  shows "agent_inv s"
  using assms by (auto simp: agent_inv_def current_task_id_def current_task_def)

lemma agent_invE:
  assumes "agent_inv s"
  obtains c where "wa_current s = Some c" "pool {c} (set_option (map_option taskId (h_task (holder_of s c)))) s" "running_ok c s"
    "current_task s = h_task (holder_of s c)"
  using assms by (auto simp: agent_inv_def current_task_id_def current_task_def)

lemma agent_invD:
  assumes "agent_inv s" "wa_current s = Some c"
  shows "pool {c} (set_option (map_option taskId (h_task (holder_of s c)))) s" "running_ok c s" "current_task s = h_task (holder_of s c)"
  using assms by (auto simp: agent_inv_def current_task_id_def current_task_def)

lemma agent_inv_idle:
  assumes "wa_current s = Some c" "pool {c} {} s" "h_task (holder_of s c) = None"
  shows "agent_inv s"
  by (rule agent_invI [OF assms(1)]) (use assms(2,3) in \<open>simp_all add: running_ok_def\<close>)

lemma restart_inv: "pool {c} {} s \<Longrightarrow> agent_inv (started (killed c s))"
  using pool_start [OF pool_kill [of "{c}" "{}" s c, simplified]] by (intro agent_inv_idle [where c = "wa_next_pid s"]) simp_all

lemma running_not_suspended:
  assumes "pool P T s" "running_ok c s" "h_task (holder_of s c) = Some task"
  shows "\<not> dict_has (wa_suspended s) (taskId task)"
  using assms(2,3) poolD(1) [OF assms(1), of "taskId task"]
  by (cases "dict_get (wa_suspended s) (taskId task)") (auto simp: running_ok_def dict_has_iff)

text \<open>What is sent, the tags used and the dead processes do not matter.\<close>

lemma agent_inv_cong:
  assumes "wa_queued s' = wa_queued s" "wa_queue s' = wa_queue s" "wa_processing s' = wa_processing s" "wa_holders s' = wa_holders s"
    "wa_suspended s' = wa_suspended s" "wa_by_id s' = wa_by_id s" "wa_profilers s' = wa_profilers s" "wa_next_pid s' = wa_next_pid s"
    "wa_current s' = wa_current s" "wa_lock s' = wa_lock s" "wa_phase s' = wa_phase s"
  shows "agent_inv s' = agent_inv s"
  using holder_of_cong [OF assms(4)] pool_cong [OF assms(1-8)] assms
  by (simp add: agent_inv_def running_ok_def current_task_id_def current_task_def cong: option.case_cong)

section \<open>Runs of the small operations\<close>

abbreviation reaches :: "(agent \<Rightarrow> bool) \<Rightarrow> ('a, agent) outcome \<Rightarrow> bool" where
  "reaches I r \<equiv> sat (\<lambda>_. I) (\<lambda>_. True) r"

lemma agent_result_run:
  assumes "queue_ok s" "result_taskId r \<in> set (wa_processing s)"
  shows "wa_on_task_result r s = Ret () ((finished (result_taskId r) s)\<lparr>wa_sent := wa_sent s @ [AgentResult r]\<rparr>)"
proof (cases "dict_has (wa_queued s) (result_taskId r)")
  case False
  then have "spq_prio (wa_queue s) (result_taskId r) = None" using assms(1) unfolding queue_ok_def by blast
  then have "apq_remove (result_taskId r) (wa_queue s) = wa_queue s"
    by (simp add: apq_remove_def spq_remove_def spq_prio_None_iff)
  with False assms(2) show ?thesis
    by (simp add: wa_on_task_result_def Let_def wa_send_def finished_def dict_pop_absent seq_run)
next
  case True
  with assms(2) show ?thesis by (simp add: wa_on_task_result_def Let_def wa_send_def finished_def seq_run)
qed

definition cleared :: "nat \<Rightarrow> agent \<Rightarrow> agent" where
  "cleared pid s = upd_holder pid (\<lambda>h. h\<lparr>h_task := None\<rparr>) (s\<lparr>wa_profilers := dict_set pid None (wa_profilers s)\<rparr>)"

lemma cleared_simps [simp]:
  "wa_queued (cleared pid s) = wa_queued s" "wa_queue (cleared pid s) = wa_queue s" "wa_processing (cleared pid s) = wa_processing s"
  "wa_phase (cleared pid s) = wa_phase s" "wa_current (cleared pid s) = wa_current s" "wa_suspended (cleared pid s) = wa_suspended s"
  "wa_by_id (cleared pid s) = wa_by_id s" "wa_lock (cleared pid s) = wa_lock s" "wa_next_pid (cleared pid s) = wa_next_pid s"
  "dict_get (wa_profilers (cleared pid s)) q = (if q = pid then Some None else dict_get (wa_profilers s) q)"
  "wa_dead (cleared pid s) = wa_dead s"
  by (simp_all add: cleared_def upd_holder_def)

lemma holder_of_cleared [simp]: "holder_of (cleared pid s) q = (if q = pid then (holder_of s pid)\<lparr>h_task := None\<rparr> else holder_of s q)"
  by (simp add: cleared_def)

lemma end_task_run:
  "dict_get (wa_profilers s) pid = Some (Some (taskId task)) \<Longrightarrow> end_task env pid task s = Ret (we_profile env pid) (cleared pid s)"
  by (simp add: end_task_def profile_task_end_def cleared_def)

lemma pool_cleared: "pool P T s \<Longrightarrow> pid \<in> P \<Longrightarrow> pool P T (cleared pid s)"
  unfolding cleared_def by (rule pool_owned) simp_all

lemma report_died_run:
  assumes "queue_ok s" "taskId task \<in> set (wa_processing s)"
  shows "reaches (\<lambda>s'. \<exists>n ms. s' = (finished (taskId task) s)\<lparr>wa_tags_used := n, wa_sent := ms\<rparr>) (report_died env task profile s)"
proof -
  let ?n = "wa_tags_used s"
  let ?s1 = "s\<lparr>wa_tags_used := ?n + 1\<rparr>"
  show ?thesis
  proof (cases "generate_object_id (we_md5 env) (we_tag env ?n) (task_source task)")
    case (Inl e)
    then show ?thesis by (simp add: report_died_def wa_fresh_object_id_def of_sum_def andthen_run seq_run)
  next
    case (Inr oid)
    let ?s2 = "?s1\<lparr>wa_sent := wa_sent s @ [AgentObjectCreate (task_source task) oid]\<rparr>"
    let ?r = "\<lparr>result_taskId = taskId task, resultType = TR_failed, result_metadata = profile, result_objects = [oid]\<rparr>"
    have "queue_ok ?s2" using assms(1) queue_ok_cong [of ?s2 s] by simp
    then have "wa_on_task_result ?r ?s2 = Ret () ((finished (taskId task) ?s2)\<lparr>wa_sent := wa_sent ?s2 @ [AgentResult ?r]\<rparr>)"
      using agent_result_run [of ?s2 ?r] assms(2) by simp
    then have "wa_on_task_result ?r ?s2 = Ret () ((finished (taskId task) s)\<lparr>wa_tags_used := ?n + 1, wa_sent := wa_sent ?s2 @ [AgentResult ?r]\<rparr>)"
      by (simp add: finished_def)
    then show ?thesis using Inr by (auto simp: report_died_def wa_fresh_object_id_def of_sum_def wa_send_def)
  qed
qed

lemma finished_inv:
  assumes "agent_inv (finished t s)"
  shows "agent_inv ((finished t s)\<lparr>wa_tags_used := n, wa_sent := ms\<rparr>)" "agent_inv ((finished t s)\<lparr>wa_sent := ms\<rparr>)"
  using agent_inv_cong [of "(finished t s)\<lparr>wa_tags_used := n, wa_sent := ms\<rparr>" "finished t s"]
    agent_inv_cong [of "(finished t s)\<lparr>wa_sent := ms\<rparr>" "finished t s"] assms by simp_all

section \<open>A processor that died\<close>

text \<open>The two cases: the current processor is replaced, a suspended one is dropped.\<close>

lemma finished_idle:
  assumes "pool {c} {t} s" "wa_current s = Some c" "h_task (holder_of s c) = None" "\<not> dict_has (wa_suspended s) t"
  shows "agent_inv (finished t s)"
  using pool_finished [OF assms(1,4)] assms(2,3) by (intro agent_inv_idle [where c = c]) simp_all

lemma dropped_inv:
  assumes pool: "pool {c} (set_option (map_option taskId (h_task (holder_of s c)))) s" and run: "running_ok c s" and cur: "wa_current s = Some c"
    and t: "dict_get (wa_suspended s) t = Some pid"
  shows "agent_inv (finished t (killed pid (s\<lparr>wa_suspended := dict_pop t (wa_suspended s)\<rparr>)))"
    "pool {c} (insert t (set_option (map_option taskId (h_task (holder_of s c))))) (killed pid (s\<lparr>wa_suspended := dict_pop t (wa_suspended s)\<rparr>))"
proof -
  let ?s1 = "s\<lparr>wa_suspended := dict_pop t (wa_suspended s)\<rparr>" and ?T = "set_option (map_option taskId (h_task (holder_of s c)))"
  have h: "holder_of ?s1 = holder_of s" by (rule holder_of_cong) simp
  have pc: "pid \<noteq> c" and q: "dict_has (wa_queued s) t" using poolD(1) [OF pool t] by (auto simp: dict_has_iff)
  have "insert pid {c} - {pid} = {c}" using pc by auto
  then show p2: "pool {c} (insert t ?T) (killed pid ?s1)" using pool_kill [OF pool_pop [OF pool t], of pid] by simp
  have nt: "t \<notin> ?T" using run q unfolding running_ok_def by auto
  then have "pool {c} ?T (finished t (killed pid ?s1))" using pool_finished [OF p2, of t] by simp
  then show "agent_inv (finished t (killed pid ?s1))"
    using pc cur run nt by (intro agent_invI [where c = c]) (auto simp: h running_ok_def)
qed

text \<open>Marking a process before it is killed, or clearing a task it no longer has, changes nothing that matters.\<close>

lemma killed_cleared: "killed pid (cleared pid s) = killed pid s"
proof -
  have "dict_pop pid (dict_set pid None d) = dict_pop pid d" for d :: "(nat, TaskID option) dict"
    by (induction d) (auto simp: dict_pop_def dict_set_def)
  moreover have "dict_set pid x (dict_set pid y d) = dict_set pid x d" for x y and d :: "(nat, holder) dict"
    by (induction d) (auto simp: dict_set_def)
  ultimately show ?thesis by (simp add: killed_def cleared_def upd_holder_def holder_of_def split: option.split)
qed

lemma on_failing_processor_ok:
  assumes inv: "agent_inv s"
  shows "reaches agent_inv (on_failing_processor env p s)"
proof -
  obtain c where c: "wa_current s = Some c" "pool {c} (set_option (map_option taskId (h_task (holder_of s c)))) s" "running_ok c s"
    by (rule agent_invE [OF inv])
  show ?thesis
  proof (cases "dict_get (wa_by_id s) p")
    case None
    then show ?thesis using inv c(1) by (simp add: on_failing_processor_def with_current_def)
  next
    case (Some pid)
    note found = Some
    show ?thesis
    proof (cases "h_task (holder_of s pid)")
      case None
      have "agent_inv (if pid = c then started (killed c s) else killed pid s)"
      proof (cases "pid = c")
        case True
        then show ?thesis using restart_inv [of c s] c(2) None by simp
      next
        case False
        have "insert pid {c} - {pid} = {c}" using False by auto
        then have "pool {c} (set_option (map_option taskId (h_task (holder_of s c)))) (killed pid s)"
          using pool_kill [OF pool_adopt [OF c(2) None found], of pid] by simp
        then show ?thesis using False c(1,3) by (simp, intro agent_invI [where c = c]) (simp_all add: running_ok_def)
      qed
      then show ?thesis
        using found None c(1)
        by (auto simp: on_failing_processor_def with_current_def restart_current_processor_def seq_run andthen_run)
    next
      case (Some task)
      let ?t = "taskId task" and ?s1 = "s\<lparr>wa_suspended := dict_pop (taskId task) (wa_suspended s)\<rparr>"
      have h1: "holder_of ?s1 = holder_of s" by (rule holder_of_cong) simp
      have prof: "dict_get (wa_profilers ?s1) pid = Some (Some ?t)" and proc: "?t \<in> set (wa_processing s)"
        using c(3) Some poolD(1) [OF c(2), of ?t pid] poolD(2) [OF c(2) Some] by (cases "pid = c"; simp add: running_ok_def)+
      let ?s2 = "if pid = c then started (killed c ?s1) else killed pid ?s1"
      have s2: "reaches (\<lambda>s'. s' = ?s2) (seq (if pid = c then restart_current_processor else kill_processor pid) (ret ()) (cleared pid ?s1))"
        using c(1) by (simp add: restart_current_processor_def with_current_def seq_run killed_cleared)
      have fin: "agent_inv (finished ?t ?s2)" "queue_ok ?s2" "?t \<in> set (wa_processing ?s2)"
      proof -
        show "?t \<in> set (wa_processing ?s2)" using proc by simp
        have pool: "pool {c'} T ?s2 \<Longrightarrow> queue_ok ?s2" for c' T by (rule poolD(10))
        have "agent_inv (finished ?t ?s2) \<and> queue_ok ?s2"
        proof (cases "pid = c")
          case True
          have ns: "\<not> dict_has (wa_suspended s) ?t" using running_not_suspended [OF c(2,3)] Some True by simp
          then have same: "?s1 = s" by (simp add: dict_pop_absent)
          have "pool {c} {?t} s" using c(2) Some True by simp
          then have "pool {wa_next_pid s} {?t} ?s2" using True same pool_start [OF pool_kill [of "{c}" "{?t}" s c, simplified]] by simp
          then show ?thesis using finished_idle [of "wa_next_pid s" ?t ?s2] pool True same ns by simp
        next
          case False
          have t: "dict_get (wa_suspended s) ?t = Some pid" using poolD(2) [OF c(2) Some] False by simp
          show ?thesis using dropped_inv [OF c(2,3,1) t] pool False by simp
        qed
        then show "agent_inv (finished ?t ?s2)" "queue_ok ?s2" by blast+
      qed
      have "reaches agent_inv (report_died env task profile ?s2)" for profile
        by (rule sat_mono [OF report_died_run [OF fin(2,3)]]) (use finished_inv(1) [OF fin(1)] in auto)
      then show ?thesis
        using found Some c(1) end_task_run [OF prof] s2
        by (auto simp: on_failing_processor_def with_current_def restart_current_processor_def seq_run andthen_run killed_cleared)
    qed
  qed
qed

end
