(* ===== verification/WorkerRuns.thy ===== *)
theory WorkerRuns
  imports WorkerInvariant
begin

text \<open>
  Every input of a worker's agent keeps its invariant: tasks and cancels from the scheduler, processors
  that start, finish or die, the rounds of the task routine and of the heartbeat. The states an agent can
  reach, and what follows in each of them.
\<close>

section \<open>Cancels\<close>

lemma pool_unprocess:
  assumes pool: "pool P T s" and t: "\<not> dict_has (wa_suspended s) t"
  shows "pool P (T - {t}) (s\<lparr>wa_processing := removeAll t (wa_processing s)\<rparr>)" (is "pool _ _ ?s")
proof (rule pool_frame [OF pool])
  show "queue_ok ?s" using poolD(10) [OF pool] queue_ok_cong [of ?s s] by simp
  show "u \<in> set (wa_processing ?s) \<and> dict_get (wa_queued ?s) u = dict_get (wa_queued s) u" if "dict_has (wa_suspended s) u" for u
    using that t poolD(1) [OF pool, of u] by (auto simp: dict_has_iff)
  show "u \<in> T - {t} \<or> dict_has (wa_suspended s) u" if "u \<in> set (wa_processing ?s)" for u
    using that poolD(5) [OF pool, of u] by auto
qed simp_all

lemma cancel_queued_inv:
  assumes inv: "agent_inv s" and t: "t \<notin> set (wa_processing s)"
  shows "agent_inv (s\<lparr>wa_queue := apq_remove t (wa_queue s), wa_queued := dict_pop t (wa_queued s)\<rparr>)"
proof -
  obtain c where c: "wa_current s = Some c" "pool {c} (set_option (map_option taskId (h_task (holder_of s c)))) s" "running_ok c s"
    by (rule agent_invE [OF inv])
  have "removeAll t (wa_processing s) = wa_processing s" using t by simp
  then have eq: "s\<lparr>wa_queue := apq_remove t (wa_queue s), wa_queued := dict_pop t (wa_queued s)\<rparr> = finished t s"
    by (simp add: finished_def)
  have ns: "\<not> dict_has (wa_suspended s) t" using poolD(1) [OF c(2), of t] t by (cases "dict_get (wa_suspended s) t") (auto simp: dict_has_iff)
  have nt: "t \<notin> set_option (map_option taskId (h_task (holder_of s c)))" using c(3) t unfolding running_ok_def by auto
  show ?thesis unfolding eq
    by (rule agent_invI [where c = c]) (use c pool_finished [OF c(2) ns] nt in \<open>auto simp: running_ok_def\<close>)
qed

lemma cancel_processing_ok:
  assumes inv: "agent_inv s" and t: "t \<in> set (wa_processing s)"
  shows "sat (\<lambda>_. agent_inv) (\<lambda>_. False) (pm_on_cancel_task t (s\<lparr>wa_processing := removeAll t (wa_processing s)\<rparr>))"
proof -
  let ?u = "s\<lparr>wa_processing := removeAll t (wa_processing s)\<rparr>"
  obtain c where c: "wa_current s = Some c" "pool {c} (set_option (map_option taskId (h_task (holder_of s c)))) s" "running_ok c s"
    by (rule agent_invE [OF inv])
  have h: "holder_of ?u = holder_of s" by (rule holder_of_cong) simp
  have cur: "current_task_id ?u = map_option taskId (h_task (holder_of s c))" by (simp add: current_task_id_def current_task_def c(1) h)
  show ?thesis
  proof (cases "map_option taskId (h_task (holder_of s c)) = Some t")
    case True
    then have ns: "\<not> dict_has (wa_suspended s) t" using running_not_suspended [OF c(2,3)] by auto
    have "pool {c} {} ?u" using pool_unprocess [OF c(2) ns] True by simp
    then have "agent_inv (started (killed c ?u))" by (rule restart_inv)
    then show ?thesis using True c(1) cur by (simp add: pm_on_cancel_task_def with_current_def restart_current_processor_def)
  next
    case False
    then obtain pid where pid: "dict_get (wa_suspended s) t = Some pid"
      using poolD(5) [OF c(2) t] by (auto simp: dict_has_iff)
    let ?s1 = "s\<lparr>wa_suspended := dict_pop t (wa_suspended s)\<rparr>"
    have pc: "pid \<noteq> c" using poolD(1) [OF c(2) pid] by auto
    have eq: "killed pid (?u\<lparr>wa_suspended := dict_pop t (wa_suspended s)\<rparr>) = (killed pid ?s1)\<lparr>wa_processing := removeAll t (wa_processing (killed pid ?s1))\<rparr>"
      by (simp add: killed_def upd_holder_def holder_of_def split: option.split)
    have h': "holder_of (killed pid (?u\<lparr>wa_suspended := dict_pop t (wa_suspended s)\<rparr>)) c = holder_of s c"
      using pc by simp
    let ?T = "set_option (map_option taskId (h_task (holder_of s c)))"
    have nt: "t \<notin> ?T" using False by auto
    have "pool {c} (insert t ?T) (killed pid ?s1)" by (rule dropped_inv(2) [OF c(2,3,1) pid])
    then have "pool {c} (insert t ?T - {t}) ((killed pid ?s1)\<lparr>wa_processing := removeAll t (wa_processing (killed pid ?s1))\<rparr>)"
      by (rule pool_unprocess) simp
    then have "pool {c} ?T (killed pid (?u\<lparr>wa_suspended := dict_pop t (wa_suspended s)\<rparr>))" using eq nt by simp
    then have "agent_inv (killed pid (?u\<lparr>wa_suspended := dict_pop t (wa_suspended s)\<rparr>))"
      using c(1,3) pc nt h' by (intro agent_invI [where c = c]) (auto simp: running_ok_def)
    then show ?thesis using False pid cur c(1) by (auto simp: pm_on_cancel_task_def with_current_def)
  qed
qed

lemma wa_on_cancel_task_ok:
  assumes inv: "agent_inv s"
  shows "sat (\<lambda>_. agent_inv) (\<lambda>_. False) (wa_on_cancel_task tc s)"
proof -
  have send: "sat (\<lambda>_. agent_inv) (\<lambda>_. False) (wa_confirm t ty s')" if "agent_inv s'" for t ty s'
    using agent_inv_cong [of "s'\<lparr>wa_sent := ms\<rparr>" s' for ms] that by (simp add: wa_confirm_def wa_send_def)
  have "sat (\<lambda>_. agent_inv) (\<lambda>_. False)
      (seq (seq (modify (\<lambda>s. s\<lparr>wa_processing := removeAll (cancel_taskId tc) (wa_processing s)\<rparr>)) (pm_on_cancel_task (cancel_taskId tc)))
        (wa_confirm (cancel_taskId tc) CC_canceled) s)" if "cancel_taskId tc \<in> set (wa_processing s)"
    by (rule sat_seq [where R = "\<lambda>_. agent_inv"]) (use cancel_processing_ok [OF inv that] send in simp_all)
  then show ?thesis
    using send [OF inv] send [OF cancel_queued_inv [OF inv], of "cancel_taskId tc"] by (simp add: wa_on_cancel_task_def Let_def)
qed

section \<open>New tasks\<close>

abbreviation enqueued :: "int \<Rightarrow> Task \<Rightarrow> agent \<Rightarrow> agent" where
  "enqueued p task s \<equiv> s\<lparr>wa_queue := apq_put_nowait (p, taskId task) (wa_queue s), wa_queued := dict_set (taskId task) task (wa_queued s)\<rparr>"

lemma rank_of_priority: "get_task_priority task = Inr p \<Longrightarrow> rank_of task (queue_priority p b)"
  by (cases b) (simp_all add: rank_of_def task_prio_def)

lemma pool_new:
  assumes inv: "agent_inv s" and cur: "wa_current s = Some c" and new: "\<not> dict_has (wa_queued s) (taskId task)" "rank_of task k"
  shows "pool {c} (set_option (map_option taskId (h_task (holder_of s c)))) (enqueued k task s)"
  by (rule pool_enqueue [OF agent_invD(1) [OF inv cur] new])

text \<open>A task that does not outrank the running one just waits.\<close>

lemma enqueue_inv:
  assumes inv: "agent_inv s" and new: "\<not> dict_has (wa_queued s) (taskId task)" "taskId task \<notin> set (wa_processing s)" "rank_of task k"
    and low: "\<And>cur. current_task s = Some cur \<Longrightarrow> task_prio task \<le> task_prio cur"
  shows "agent_inv (enqueued k task s)"
proof -
  obtain c where c: "wa_current s = Some c" "running_ok c s" "current_task s = h_task (holder_of s c)" by (rule agent_invE [OF inv])
  show ?thesis
    by (rule agent_invI [where c = c])
       (use c pool_new [OF inv c(1) new(1,3)] new(2) low in \<open>auto simp: running_ok_def split: if_splits\<close>)
qed

text \<open>A task that does makes room for itself.\<close>

lemma suspend_inv:
  assumes inv: "agent_inv s" and new: "\<not> dict_has (wa_queued s) (taskId task)" "taskId task \<notin> set (wa_processing s)" "rank_of task k"
    and cur: "current_task s = Some old" and rank: "rank_of old k'"
  shows "sat (\<lambda>_. agent_inv) (\<lambda>_. True) (pm_on_suspend_task (taskId old) (enqueued k' old (enqueued k task s)))"
proof -
  let ?u = "enqueued k task s" and ?t = "taskId old"
  let ?s1 = "enqueued k' old ?u"
  obtain c where c0: "wa_current s = Some c" "running_ok c s" "current_task s = h_task (holder_of s c)" by (rule agent_invE [OF inv])
  have task: "h_task (holder_of s c) = Some old" using c0(3) cur by simp
  have run: "?t \<in> set (wa_processing s)" "\<not> dict_has (wa_queued ?u) ?t" "dict_get (wa_profilers s) c = Some (Some ?t)" "h_processor_id (holder_of s c) \<noteq> None"
    using c0(2) task new(2) by (auto simp: running_ok_def)
  let ?s2 = "upd_holder c (\<lambda>h. h\<lparr>h_suspended := True\<rparr>) (?s1\<lparr>wa_suspended := dict_set ?t c (wa_suspended s)\<rparr>)"
  have ns: "\<not> dict_has (wa_suspended s) ?t" by (rule running_not_suspended [OF agent_invD(1) [OF inv c0(1)] c0(2) task])
  have "pool {c} {?t} ?s1" using pool_enqueue [OF pool_new [OF inv c0(1) new(1,3)] run(2) rank] task by simp
  then have "pool {} ({?t} - {?t}) ?s2"
    using pool_park [of c "{?t}" ?s1 old] task run ns by simp
  then have "pool {wa_next_pid ?s2} {} (started ?s2)" using pool_start [of "{}" ?s2] by simp
  then have "agent_inv (started ?s2)" by (intro agent_inv_idle [where c = "wa_next_pid ?s2"]) simp_all
  moreover have "current_task_id ?s1 = Some ?t" by (simp add: current_task_id_def current_task_def c0(1) task)
  ultimately show ?thesis by (simp add: pm_on_suspend_task_def with_current_def c0(1) check_def Let_def)
qed

lemma current_enqueued [simp]: "current_task (enqueued k task s) = current_task s"
  by (simp add: current_task_def cong: option.case_cong)

lemma wa_on_task_new_ok:
  assumes inv: "agent_inv s" and new: "\<not> dict_has (wa_queued s) (taskId task)" "taskId task \<notin> set (wa_processing s)"
  shows "reaches agent_inv (wa_on_task_new task s)"
proof (cases "get_task_priority task")
  case (Inr p)
  let ?k = "queue_priority p False"
  have prio: "task_prio task = p" using Inr by (simp add: task_prio_def)
  note rank = rank_of_priority [OF Inr, of False]
  have "reaches agent_inv (suspend_if_priority_is_higher task (enqueued ?k task s))"
  proof (cases "current_task s")
    case None
    then show ?thesis using enqueue_inv [OF inv new rank] by (simp add: suspend_if_priority_is_higher_def)
  next
    case (Some old)
    show ?thesis
    proof (cases "get_task_priority old")
      case old: (Inr q)
      have "task_prio old = q" using old by (simp add: task_prio_def)
      then show ?thesis
        using Some Inr old prio enqueue_inv [OF inv new rank] suspend_inv [OF inv new rank Some rank_of_priority [OF old, of True]]
        by (simp add: suspend_if_priority_is_higher_def wa_enqueue_def of_sum_def)
    qed (use Some Inr in \<open>simp add: suspend_if_priority_is_higher_def of_sum_def andthen_run\<close>)
  qed
  then show ?thesis using Inr by (simp add: wa_on_task_new_def wa_enqueue_def of_sum_def)
qed (simp add: wa_on_task_new_def wa_enqueue_def of_sum_def andthen_run seq_run)

section \<open>Processors that have started\<close>

lemma pool_named:
  assumes pool: "pool P T s" and c: "c \<in> P" "h_processor_id (holder_of s c) = None" and p: "\<not> dict_has (wa_by_id s) p"
  shows "pool P T (upd_holder c (\<lambda>h. h\<lparr>h_processor_id := Some p\<rparr>) (s\<lparr>wa_by_id := dict_set p c (wa_by_id s)\<rparr>))" (is "pool P T ?s")
proof -
  have h: "holder_of ?s q = (if q = c then (holder_of s c)\<lparr>h_processor_id := Some p\<rparr> else holder_of s q)" for q
    by simp
  have p': "dict_get (wa_by_id s) p = None" using p by (simp add: dict_has_iff)
  show ?thesis
  proof (rule poolI)
    fix t q assume "dict_get (wa_suspended ?s) t = Some q"
    then have t: "dict_get (wa_suspended s) t = Some q" by simp
    have ne: "q \<noteq> c" using poolD(1) [OF pool t] c(1) by auto
    then show "q \<notin> P \<and> t \<in> set (wa_processing ?s) \<and> dict_get (wa_queued ?s) t = h_task (holder_of ?s q) \<and>
        map_option taskId (h_task (holder_of ?s q)) = Some t \<and> dict_get (wa_profilers ?s) q = Some (Some t)"
      unfolding h using poolD(1) [OF pool t] by simp
    show "\<exists>p. h_processor_id (holder_of ?s q) = Some p \<and> dict_get (wa_by_id ?s) p = Some q"
      unfolding h using poolD(6) [OF pool t] ne p' by fastforce
  next
    show "queue_ok ?s" using poolD(10) [OF pool] queue_ok_cong [of ?s s] by simp
    show "h_task (holder_of ?s q) = Some task \<Longrightarrow> q \<notin> P \<Longrightarrow> dict_get (wa_suspended ?s) (taskId task) = Some q" for q task
      unfolding h using poolD(2) [OF pool, of q task] c(1) by (auto split: if_splits)
    show "dict_has (wa_holders ?s) q \<Longrightarrow> q < wa_next_pid ?s" for q
      using poolD(4) [OF pool, of q] poolD(8) [OF pool c(1)] by auto
    show "q \<in> P \<Longrightarrow> h_processor_id (holder_of ?s q) = Some p' \<Longrightarrow> dict_get (wa_by_id ?s) p' = Some q" for q p'
      unfolding h using poolD(7) [OF pool, of q p'] p' by (auto split: if_splits)
    show "dict_get (wa_by_id ?s) p' = Some q \<Longrightarrow> h_processor_id (holder_of ?s q) = Some p'" for q p'
      unfolding h using poolD(3) [OF pool, of p' q] c(2) by (auto split: if_splits)
  qed (use poolD(5,8,9) [OF pool] in simp_all)
qed

lemma idle_cong:
  assumes "agent_inv s" "current_task s = None" "s' = s\<lparr>wa_lock := b, wa_phase := ph\<rparr>"
  shows "agent_inv s'"
proof -
  obtain c where c: "wa_current s = Some c" "pool {c} {} s" "h_task (holder_of s c) = None"
    by (rule agent_invE [OF assms(1)]) (use assms(2) in simp)
  have "holder_of s' = holder_of s" by (rule holder_of_cong) (simp add: assms(3))
  then show ?thesis
    using c pool_cong [of s' s "{c}" "{}"] by (intro agent_inv_idle [where c = c]) (simp_all add: assms(3))
qed

lemma on_processor_initialized_ok:
  assumes inv: "agent_inv s" and p: "\<not> dict_has (wa_by_id s) p"
  shows "reaches agent_inv (on_processor_initialized p s)"
proof -
  obtain c where c: "wa_current s = Some c" "pool {c} (set_option (map_option taskId (h_task (holder_of s c)))) s" "running_ok c s"
    by (rule agent_invE [OF inv])
  let ?u = "s\<lparr>wa_by_id := dict_set p c (wa_by_id s)\<rparr>"
  let ?s = "upd_holder c (\<lambda>h. h\<lparr>h_processor_id := Some p\<rparr>) ?u"
  have h: "holder_of ?u = holder_of s" by (rule holder_of_cong) simp
  have "agent_inv (?s\<lparr>wa_lock := False\<rparr>)" if new: "h_processor_id (holder_of s c) = None"
  proof -
    have none: "h_task (holder_of s c) = None" using c(3) new unfolding running_ok_def by (cases "h_task (holder_of s c)") auto
    have "pool {c} {} ?s" using pool_named [OF c(2) _ new p] none by simp
    then have "agent_inv ?s" using c(1) none by (intro agent_inv_idle [where c = c]) (simp_all add: h)
    then show ?thesis by (rule idle_cong [where b = False and ph = "wa_phase s"]) (simp_all add: current_task_def c(1) none h)
  qed
  then show ?thesis
    using inv c(1) by (auto simp: on_processor_initialized_def with_current_def release_lock_step_def seq_run)
qed

section \<open>Results\<close>

lemma current_result_run:
  assumes inv: "agent_inv s" and cur: "current_task s = Some task" "wa_current s = Some c" and p: "h_processor_id (holder_of s c) = Some p"
    and r: "result_taskId r = taskId task"
  shows "pm_on_task_result env p r s =
    Ret () ((finished (taskId task) (cleared c s))\<lparr>wa_sent := wa_sent s @ [AgentResult (r\<lparr>result_metadata := we_profile env c\<rparr>)], wa_lock := False\<rparr>)"
    "agent_inv ((finished (taskId task) (cleared c s))\<lparr>wa_sent := ms, wa_lock := False\<rparr>)"
proof -
  let ?t = "taskId task" and ?s1 = "cleared c s"
  have c: "pool {c} (set_option (map_option taskId (h_task (holder_of s c)))) s" "running_ok c s" "h_task (holder_of s c) = Some task"
    using cur agent_invD [OF inv cur(2)] by simp_all
  have run: "?t \<in> set (wa_processing s)" "dict_get (wa_profilers s) c = Some (Some ?t)" "wa_lock s" using c(2,3) by (auto simp: running_ok_def)
  have pool: "pool {c} {?t} ?s1" using pool_cleared [OF c(1)] c(3) by simp
  have ns: "\<not> dict_has (wa_suspended ?s1) ?t" using running_not_suspended [OF c] by simp
  have sent: "wa_sent ?s1 = wa_sent s" by (simp add: cleared_def upd_holder_def)
  have cid: "current_task_id s = Some ?t" using cur(1) by (simp add: current_task_id_def)
  have "wa_on_task_result (r\<lparr>result_metadata := we_profile env c\<rparr>) ?s1 =
      Ret () ((finished ?t ?s1)\<lparr>wa_sent := wa_sent s @ [AgentResult (r\<lparr>result_metadata := we_profile env c\<rparr>)]\<rparr>)"
    using agent_result_run [OF poolD(10) [OF pool], of "r\<lparr>result_metadata := we_profile env c\<rparr>"] run(1) r sent by simp
  then show "pm_on_task_result env p r s =
    Ret () ((finished ?t ?s1)\<lparr>wa_sent := wa_sent s @ [AgentResult (r\<lparr>result_metadata := we_profile env c\<rparr>)], wa_lock := False\<rparr>)"
    using end_task_run [OF run(2)] r run(3) c(3) p cid
    by (simp add: pm_on_task_result_def with_current_def cur(2) Let_def check_def forward_result_def release_lock_step_def)
  have "agent_inv (finished ?t ?s1)" by (rule finished_idle [OF pool _ _ ns]) (simp_all add: cur(2))
  then have "agent_inv ((finished ?t ?s1)\<lparr>wa_sent := ms\<rparr>)" by (rule finished_inv(2))
  then show "agent_inv ((finished ?t ?s1)\<lparr>wa_sent := ms, wa_lock := False\<rparr>)"
    by (rule idle_cong [where b = False and ph = "wa_phase s"]) (simp_all add: current_task_def cur(2))
qed

lemma pm_on_task_result_ok:
  assumes inv: "agent_inv s"
  shows "reaches agent_inv (pm_on_task_result env p r s)"
proof -
  let ?t = "result_taskId r"
  obtain c where c: "wa_current s = Some c" "pool {c} (set_option (map_option taskId (h_task (holder_of s c)))) s" "running_ok c s"
      "current_task s = h_task (holder_of s c)"
    by (rule agent_invE [OF inv])
  show ?thesis
  proof (cases "current_task_id s = Some ?t")
    case True
    then obtain task where task: "current_task s = Some task" "?t = taskId task" by (auto simp: current_task_id_def)
    show ?thesis
    proof (cases "h_processor_id (holder_of s c) = Some p")
      case True
      then show ?thesis using current_result_run [OF inv task(1) c(1) True task(2)] by simp
    next
      case False
      then show ?thesis using True task c(1,4) by (simp add: pm_on_task_result_def with_current_def check_def Let_def)
    qed
  next
    case False
    show ?thesis
    proof (cases "dict_get (wa_suspended s) ?t")
      case None
      then show ?thesis using False inv c(1) by (simp add: pm_on_task_result_def with_current_def Let_def)
    next
      case (Some pid)
      let ?s1 = "s\<lparr>wa_suspended := dict_pop ?t (wa_suspended s)\<rparr>"
      have h1: "holder_of ?s1 = holder_of s" by (rule holder_of_cong) simp
      obtain task where task: "h_task (holder_of s pid) = Some task" "taskId task = ?t" and ok: "?t \<in> set (wa_processing s)"
          "dict_get (wa_profilers ?s1) pid = Some (Some (taskId task))"
        using poolD(1) [OF c(2) Some] by auto
      note fin = dropped_inv [OF c(2,3,1) Some]
      have "reaches agent_inv (wa_on_task_result (r\<lparr>result_metadata := m\<rparr>) (killed pid ?s1))" for m
        using agent_result_run [OF poolD(10) [OF fin(2)], of "r\<lparr>result_metadata := m\<rparr>"] ok(1) finished_inv(2) [OF fin(1)] by simp
      then show ?thesis
        using False Some c(1) task(1) end_task_run [OF ok(2)]
        by (simp add: pm_on_task_result_def with_current_def Let_def suspended_result_def check_def h1 forward_result_def killed_cleared)
    qed
  qed
qed

section \<open>Rounds of the task routine\<close>

lemma routine_lock_ok:
  assumes inv: "agent_inv s"
  shows "reaches agent_inv (routine_lock s)"
proof (cases "wa_phase s = WaitForLock \<and> \<not> wa_lock s")
  case True
  obtain c where c: "wa_current s = Some c" "running_ok c s" "current_task s = h_task (holder_of s c)" by (rule agent_invE [OF inv])
  then have "current_task s = None" using True unfolding running_ok_def by (cases "h_task (holder_of s c)") auto
  then have "agent_inv (s\<lparr>wa_lock := True, wa_phase := WaitForTask\<rparr>)" by (rule idle_cong [OF inv]) simp
  then show ?thesis using True by (simp add: routine_lock_def)
qed (use inv in \<open>auto simp: routine_lock_def\<close>)

abbreviation taken :: "TaskID \<Rightarrow> TaskID async_priority_queue \<Rightarrow> agent \<Rightarrow> agent" where
  "taken t q s \<equiv> s\<lparr>wa_queue := q, wa_phase := WaitForLock, wa_queued := dict_pop t (wa_queued s)\<rparr>"

lemma pool_taken:
  assumes pool: "pool P T s" and get: "apq_get_nowait (wa_queue s) = Inr ((p, t), q)" and t: "\<not> dict_has (wa_suspended s) t"
  shows "pool P T (taken t q s)"
proof (rule pool_frame [OF pool])
  note ok = queue_okD [OF poolD(10) [OF pool]]
  show "queue_ok (taken t q s)"
    unfolding queue_ok_def using apq.get [OF ok(1) get] ok(2-4) by (simp split: if_splits)
  show "u \<in> set (wa_processing (taken t q s)) \<and> dict_get (wa_queued (taken t q s)) u = dict_get (wa_queued s) u" if "dict_has (wa_suspended s) u" for u
    using that t poolD(1) [OF pool, of u] by (auto simp: dict_has_iff)
qed (use poolD(5) [OF pool] in simp_all)

text \<open>A task that has not run yet goes to the idle processor.\<close>

lemma begin_task_ok:
  assumes pool: "pool {c} {} s" and cur: "wa_current s = Some c" and t: "\<not> dict_has (wa_queued s) (taskId task)" and ph: "wa_phase s = WaitForLock"
    and top: "\<And>u task'. dict_get (wa_queued s) u = Some task' \<Longrightarrow> task_prio task' \<le> task_prio task"
  shows "reaches agent_inv (pm_on_task task (s\<lparr>wa_processing := set_add (taskId task) (wa_processing s)\<rparr>))"
proof -
  let ?t = "taskId task" and ?f = "\<lambda>h. h\<lparr>h_task := Some task\<rparr>"
  let ?s1 = "s\<lparr>wa_processing := set_add ?t (wa_processing s)\<rparr>"
  let ?s2 = "upd_holder c ?f (?s1\<lparr>wa_profilers := dict_set c (Some ?t) (wa_profilers s)\<rparr>)"
  have "pool {c} {?t} ?s1"
  proof (rule pool_frame [OF pool])
    show "queue_ok ?s1" using poolD(10) [OF pool] queue_ok_cong [of ?s1 s] by simp
    show "u \<in> set (wa_processing ?s1) \<and> dict_get (wa_queued ?s1) u = dict_get (wa_queued s) u" if "dict_has (wa_suspended s) u" for u
      using that poolD(1) [OF pool, of u] by (auto simp: dict_has_iff set_add_def)
    show "u \<in> {?t} \<or> dict_has (wa_suspended s) u" if "u \<in> set (wa_processing ?s1)" for u
      using that poolD(5) [OF pool, of u] by (auto simp: set_add_def split: if_splits)
  qed simp_all
  then have "pool {c} {?t} ?s2" by (rule pool_owned) simp_all
  moreover have h: "h_task (holder_of ?s2 c) = Some task" "h_processor_id (holder_of ?s2 c) = h_processor_id (holder_of s c)"
    by simp_all
  ultimately have "agent_inv ?s2" if "wa_lock s" "h_processor_id (holder_of s c) \<noteq> None"
    using that t ph cur top by (intro agent_invI [where c = c]) (simp_all only: running_ok_def h, simp_all add: set_add_def)
  then have "agent_inv (?s2\<lparr>wa_internal := ms\<rparr>)" if "wa_lock s" "h_processor_id (holder_of s c) \<noteq> None" for ms
    using that agent_inv_cong [of "?s2\<lparr>wa_internal := ms\<rparr>" ?s2] by simp
  moreover have "?s2 = (upd_holder c ?f ?s1)\<lparr>wa_profilers := dict_set c (Some ?t) (wa_profilers s)\<rparr>" by (simp add: upd_holder_def)
  ultimately show ?thesis
    by (auto simp: pm_on_task_def check_def with_current_def cur current_processor_is_initialized_def seq_run profile_task_start_def)
qed

text \<open>A suspended one gets its processor back, or is reported as failed when that has died.\<close>

lemma resume_ok:
  assumes pool: "pool {pid, c} {taskId task} s" and pc: "pid \<noteq> c" and cur: "wa_current s = Some c" and lock: "wa_lock s" "wa_phase s = WaitForLock"
    and idle: "h_task (holder_of s c) = None" and task: "h_task (holder_of s pid) = Some task"
    and t: "taskId task \<in> set (wa_processing s)" "\<not> dict_has (wa_queued s) (taskId task)" "\<not> dict_has (wa_suspended s) (taskId task)"
    and prof: "dict_get (wa_profilers s) pid = Some (Some (taskId task))" and Some: "h_processor_id (holder_of s pid) = Some p"
    and top: "\<And>u task'. dict_get (wa_queued s) u = Some task' \<Longrightarrow> task_prio task' \<le> task_prio task"
  shows "reaches agent_inv (resume_holder env c pid s)"
proof -
  let ?t = "taskId task" and ?u = "upd_holder pid (\<lambda>h. h\<lparr>h_suspended := False\<rparr>) s"
  have minus: "{pid, c} - {c} = {pid}" "{pid, c} - {pid} = {c}" using pc by auto
  have "pool {pid, c} {?t} ?u" using pool_owned [OF pool, of pid "\<lambda>h. h\<lparr>h_suspended := False\<rparr>" "wa_profilers s"] by simp
  from pool_kill [OF this, of c] have "pool {pid} {?t} (killed c ?u)" unfolding minus by simp
  then have "pool {pid} {?t} ((killed c ?u)\<lparr>wa_current := Some pid\<rparr>)"
    using pool_cong [of "(killed c ?u)\<lparr>wa_current := Some pid\<rparr>" "killed c ?u"] by simp
  then have alive: "agent_inv ((killed c ?u)\<lparr>wa_current := Some pid\<rparr>)"
    using pc task lock t(1,2) prof Some top by (intro agent_invI [where c = pid]) (simp_all add: running_ok_def)
  have "pool {c} {?t} (killed pid s)" using pool_kill [OF pool, of pid] unfolding minus by simp
  then have fin: "agent_inv (finished ?t (killed pid s))" "queue_ok (killed pid s)"
    using finished_idle [of c ?t "killed pid s"] poolD(10) cur idle pc t(3) by auto
  have "reaches agent_inv (seq (report_died env task m) release_lock_step (killed pid s))" for m
  proof (rule sat_seq)
    show "reaches (\<lambda>s'. \<exists>n ms. s' = (finished ?t (killed pid s))\<lparr>wa_tags_used := n, wa_sent := ms\<rparr>) (report_died env task m (killed pid s))"
      by (rule report_died_run [OF fin(2)]) (simp add: t(1))
    fix a s' assume "\<exists>n ms. s' = (finished ?t (killed pid s))\<lparr>wa_tags_used := n, wa_sent := ms\<rparr>"
    then obtain n ms where s': "s' = (finished ?t (killed pid s))\<lparr>wa_tags_used := n, wa_sent := ms\<rparr>" by blast
    have "current_task s' = None" using pc cur idle unfolding s' by (simp add: current_task_def)
    moreover have "agent_inv s'" unfolding s' by (rule finished_inv(1) [OF fin(1)])
    ultimately have "agent_inv (s'\<lparr>wa_lock := False\<rparr>)" using idle_cong [of s' _ "wa_phase s'" False] by simp
    then show "reaches agent_inv (release_lock_step s')" by (simp add: release_lock_step_def)
  qed
  moreover have "dict_get (wa_by_id s) p = Some pid" using poolD(7) [OF pool _ Some] by simp
  ultimately show ?thesis
    using alive Some task end_task_run [OF prof] pc
    by (auto simp: resume_holder_def check_def on_failing_processor_def with_current_def cur dict_pop_absent [OF t(3)] killed_cleared seq_run)
qed

lemma routine_task_ok:
  assumes inv: "agent_inv s"
  shows "reaches agent_inv (routine_task env s)"
proof (cases "wa_phase s = WaitForTask")
  case True
  obtain c where c0: "wa_current s = Some c" "pool {c} (set_option (map_option taskId (h_task (holder_of s c)))) s" "running_ok c s"
    by (rule agent_invE [OF inv])
  have idle: "h_task (holder_of s c) = None" using c0(3) True unfolding running_ok_def by (cases "h_task (holder_of s c)") auto
  have pool: "pool {c} {} s" using c0(2) idle by simp
  show ?thesis
  proof (cases "apq_get_nowait (wa_queue s)")
    case (Inl e)
    then show ?thesis using inv by (simp add: routine_task_def)
  next
    case (Inr r)
    then obtain p t q where get: "apq_get_nowait (wa_queue s) = Inr ((p, t), q)" by (metis surj_pair)
    note ok = queue_okD [OF poolD(10) [OF pool]]
    obtain task where task: "dict_get (wa_queued s) t = Some task" "taskId task = t"
      using apq.get [OF ok(1) get] ok(2) [of t] ok(3) [of t] by (auto simp: dict_has_iff)
    have top: "task_prio task' \<le> task_prio task" if "dict_get (wa_queued s) u = Some task'" for u task'
      using that apq.get [OF ok(1) get] ok(2) [of u] ok(4) [of u task'] ok(4) [OF task(1)] rank_of_le by (auto simp: dict_has_iff)
    show ?thesis
    proof (cases "t \<in> set (wa_processing s)")
      case False
      have "\<not> dict_has (wa_suspended s) t" using poolD(1) [OF pool, of t] False by (cases "dict_get (wa_suspended s) t") (auto simp: dict_has_iff)
      then have "pool {c} {} (taken t q s)" by (rule pool_taken [OF pool get])
      then have "reaches agent_inv (pm_on_task task ((taken t q s)\<lparr>wa_processing := set_add (taskId task) (wa_processing (taken t q s))\<rparr>))"
        by (rule begin_task_ok) (use top in \<open>auto simp: c0(1) task(2) split: if_splits\<close>)
      then show ?thesis using True get task False by (simp add: routine_task_def)
    next
      case running: True
      then obtain pid where pid: "dict_get (wa_suspended s) t = Some pid" using poolD(5) [OF pool, of t] by (auto simp: dict_has_iff)
      let ?u = "s\<lparr>wa_suspended := dict_pop t (wa_suspended s)\<rparr>"
      obtain task' where task': "h_task (holder_of s pid) = Some task'" "taskId task' = t" and pc: "pid \<noteq> c"
          and prof: "dict_get (wa_profilers s) pid = Some (Some t)"
        using poolD(1) [OF pool pid] by auto
      have "task' = task" using poolD(1) [OF pool pid] task(1) task'(1) by simp
      then have top_u: "task_prio v \<le> task_prio task'" if "dict_get (wa_queued (taken t q ?u)) u = Some v" for u v
        using that top by (simp split: if_splits)
      obtain pname where pname: "h_processor_id (holder_of s pid) = Some pname" using poolD(6) [OF pool pid] by blast
      have "pool {pid, c} {t} (taken t q ?u)" using pool_taken [OF pool_pop [OF pool pid], of p t q] get by simp
      then have res: "reaches agent_inv (resume_holder env c pid (taken t q ?u))" if "wa_lock s"
        using resume_ok [of pid c task' "taken t q ?u" pname env] that pc c0(1) idle task' running prof pname top_u by simp
      have eq: "taken t q ?u = (taken t q s)\<lparr>wa_suspended := dict_pop t (wa_suspended s)\<rparr>" by simp
      have "current_task (taken t q s) = None" using idle c0(1) by (simp add: current_task_def)
      then show ?thesis using True get task running pid c0(1) res [unfolded eq]
        by (simp add: routine_task_def pm_on_resume_task_def check_def with_current_def)
    qed
  qed
qed (use inv in \<open>simp add: routine_task_def\<close>)

section \<open>Heartbeats\<close>

lemma check_processor_ok: "agent_inv s \<Longrightarrow> reaches agent_inv (check_processor env pid s)"
  using on_failing_processor_ok by (simp add: check_processor_def split: option.split)

lemma heartbeat_routine_ok:
  assumes inv: "agent_inv s"
  shows "reaches agent_inv (heartbeat_routine env s)"
proof -
  have "reaches agent_inv (for_each (map snd (wa_by_id s)) (check_processor env) s)"
    by (rule sat_for_each [OF check_processor_ok inv])
  moreover have "agent_inv (s'\<lparr>wa_sent := ms, wa_awaiting_echo := True\<rparr>)" if "agent_inv s'" for s' ms
    using that agent_inv_cong [of "s'\<lparr>wa_sent := ms, wa_awaiting_echo := True\<rparr>" s'] by simp
  ultimately show ?thesis
    using inv by (cases "for_each (map snd (wa_by_id s)) (check_processor env) s") (simp_all add: heartbeat_routine_def check_def wa_send_def seq_run)
qed

section \<open>Every input\<close>

text \<open>What the scheduler and the processors promise: a task is sent once, a processor has a name of its own.\<close>

fun agent_input_ok :: "agent_input \<Rightarrow> agent \<Rightarrow> bool" where
  "agent_input_ok (ExtTask task) s = (\<not> dict_has (wa_queued s) (taskId task) \<and> taskId task \<notin> set (wa_processing s))"
| "agent_input_ok (IntInitialized p) s = (\<not> dict_has (wa_by_id s) p)"
| "agent_input_ok _ s = True"

lemma agent_perform_ok:
  assumes inv: "agent_inv s" and i: "agent_input_ok i s"
  shows "reaches agent_inv (agent_perform env i s)"
proof -
  have send: "agent_inv (s\<lparr>wa_sent := ms\<rparr>)" "agent_inv (s\<lparr>wa_internal := is\<rparr>)" "agent_inv (s\<lparr>wa_awaiting_echo := b, wa_last_seen := l\<rparr>)" "agent_inv (s\<lparr>wa_dead := ds\<rparr>)"
    for ms "is" b l ds
    using inv agent_inv_cong [of "s\<lparr>wa_sent := ms\<rparr>" s] agent_inv_cong [of "s\<lparr>wa_internal := is\<rparr>" s]
      agent_inv_cong [of "s\<lparr>wa_awaiting_echo := b, wa_last_seen := l\<rparr>" s] agent_inv_cong [of "s\<lparr>wa_dead := ds\<rparr>" s] by simp_all
  have cancel: "reaches agent_inv (wa_on_cancel_task tc s)" for tc
    by (rule sat_mono [OF wa_on_cancel_task_ok [OF inv]]) simp_all
  show ?thesis
    using i inv send cancel wa_on_task_new_ok [OF inv] on_processor_initialized_ok [OF inv] pm_on_task_result_ok [OF inv]
      routine_lock_ok [OF inv] routine_task_ok [OF inv] heartbeat_routine_ok [OF inv]
    by (cases i) (simp_all add: on_external_object_instruction_def on_internal_object_instruction_def on_heartbeat_echo_def timeout_routine_def
        check_def wa_send_def split: option.split)
qed

inductive agent_reachable :: "agent_env \<Rightarrow> agent \<Rightarrow> bool" for env where
  start: "agent_reachable env agent_init"
| step: "agent_reachable env s \<Longrightarrow> agent_input_ok i s \<Longrightarrow> agent_perform env i s = Ret () s' \<Longrightarrow> agent_reachable env s'"

theorem agent_reachable_inv: "agent_reachable env s \<Longrightarrow> agent_inv s"
proof (induction rule: agent_reachable.induct)
  case start
  show ?case by (rule agent_init_inv)
next
  case (step s i s')
  then show ?case using agent_perform_ok [of s i env] by simp
qed

text \<open>A checked run from the start.\<close>

fun admitted :: "agent_env \<Rightarrow> agent_input list \<Rightarrow> agent \<Rightarrow> bool" where
  "admitted env [] s = True"
| "admitted env (i # is) s = (agent_input_ok i s \<and> (case agent_perform env i s of Ret _ s' \<Rightarrow> admitted env is s' | _ \<Rightarrow> True))"

lemma admitted_run: "agent_reachable env s \<Longrightarrow> admitted env is s \<Longrightarrow> agent_run env is s = Ret () s' \<Longrightarrow> agent_reachable env s'"
  by (induction "is" arbitrary: s) (auto simp: seq_run split: outcome.splits intro: agent_reachable.step)

section \<open>In every reachable state\<close>

text \<open>A task that has been started is held by exactly one processor.\<close>

lemma one_holder:
  assumes inv: "agent_inv s"
  shows "t \<in> set (wa_processing s) \<longleftrightarrow> (\<exists>!pid. map_option taskId (h_task (holder_of s pid)) = Some t)"
proof -
  obtain c where c: "wa_current s = Some c" "pool {c} (set_option (map_option taskId (h_task (holder_of s c)))) s" "running_ok c s"
    by (rule agent_invE [OF inv])
  have holder: "pid = c \<and> \<not> dict_has (wa_suspended s) t \<or> pid \<noteq> c \<and> dict_get (wa_suspended s) t = Some pid"
    and proc: "t \<in> set (wa_processing s)" if h: "map_option taskId (h_task (holder_of s pid)) = Some t" for pid
  proof -
    obtain task where task: "h_task (holder_of s pid) = Some task" "taskId task = t" using h by auto
    show "pid = c \<and> \<not> dict_has (wa_suspended s) t \<or> pid \<noteq> c \<and> dict_get (wa_suspended s) t = Some pid"
      using task running_not_suspended [OF c(2,3)] poolD(2) [OF c(2) task(1)] by auto
    then show "t \<in> set (wa_processing s)" using task c(3) poolD(1) [OF c(2), of t pid] by (auto simp: running_ok_def)
  qed
  have "\<exists>pid. map_option taskId (h_task (holder_of s pid)) = Some t" if "t \<in> set (wa_processing s)"
    using poolD(5) [OF c(2) that] poolD(1) [OF c(2), of t] unfolding dict_has_iff by (metis elem_set not_Some_eq)
  then show ?thesis using holder proc by (metis dict_has_iff option.distinct(1) option.inject)
qed

text \<open>A task that waits after it was started is suspended.\<close>

lemma queued_and_processing:
  assumes inv: "agent_inv s" and "dict_has (wa_queued s) t"
  shows "t \<in> set (wa_processing s) \<longleftrightarrow> dict_has (wa_suspended s) t"
proof -
  obtain c where c: "wa_current s = Some c" "pool {c} (set_option (map_option taskId (h_task (holder_of s c)))) s" "running_ok c s"
    by (rule agent_invE [OF inv])
  have "t \<notin> set_option (map_option taskId (h_task (holder_of s c)))" using c(3) assms(2) by (auto simp: running_ok_def)
  then show ?thesis using poolD(5) [OF c(2), of t] poolD(1) [OF c(2), of t] by (auto simp: dict_has_iff)
qed

lemma queued_tasks_count:
  assumes inv: "agent_inv s"
  shows "queued_tasks s = int (card {t. dict_has (wa_queued s) t \<and> t \<notin> set (wa_processing s)})"
proof -
  obtain c where c: "pool {c} (set_option (map_option taskId (h_task (holder_of s c)))) s" by (rule agent_invE [OF inv])
  note ok = queue_okD [OF poolD(10) [OF c]]
  let ?Q = "{t. dict_has (wa_queued s) t}" and ?S = "set (dict_keys (wa_suspended s))"
  have size: "spq_size (wa_queue s) = card ?Q" using spq_size_card [OF ok(1)] ok(2) by simp
  have fin: "finite ?Q" using finite_set [of "dict_keys (wa_queued s)"] by (simp add: set_dict_keys)
  have sub: "?S \<subseteq> ?Q" using poolD(1) [OF c] by (force simp: dict_has_iff set_dict_keys)
  have len: "length (wa_suspended s) = card ?S" using poolD(9) [OF c] distinct_card [of "dict_keys (wa_suspended s)"] by (simp add: dict_keys_def dict_ok_def)
  have "{t. dict_has (wa_queued s) t \<and> t \<notin> set (wa_processing s)} = ?Q - ?S"
    using queued_and_processing [OF inv] by (auto simp: set_dict_keys)
  then have "card {t. dict_has (wa_queued s) t \<and> t \<notin> set (wa_processing s)} = card ?Q - card ?S" using card_Diff_subset [OF _ sub] by simp
  then show ?thesis using card_mono [OF fin sub] by (simp add: queued_tasks_def size len)
qed

text \<open>A cancel is answered once, and a task that was cancelled is held by nobody.\<close>

definition cancel_answer :: "TaskCancel \<Rightarrow> agent \<Rightarrow> TaskCancelConfirmType" where
  "cancel_answer tc s =
     (if cancel_taskId tc \<in> set (wa_processing s) then (if cancel_force tc then CC_canceled else CC_cancelFailed)
      else if dict_has (wa_queued s) (cancel_taskId tc) then CC_canceled else CC_cancelNotFound)"

lemma pm_cancel_keeps:
  "sat (\<lambda>_ u. wa_sent u = wa_sent s \<and> wa_processing u = wa_processing s) (\<lambda>_. True) (pm_on_cancel_task t s)"
  by (auto simp: pm_on_cancel_task_def with_current_def restart_current_processor_def killed_def started_def upd_holder_def Let_def
      split: option.split)

lemma cancel_answered:
  assumes inv: "agent_inv s"
  shows "\<exists>s'. wa_on_cancel_task tc s = Ret () s' \<and> agent_inv s' \<and>
    wa_sent s' = wa_sent s @ [AgentConfirm \<lparr>confirm_taskId = cancel_taskId tc, cancelConfirmType = cancel_answer tc s\<rparr>] \<and>
    (cancel_answer tc s = CC_canceled \<longrightarrow> cancel_taskId tc \<notin> set (wa_processing s'))"
proof -
  let ?t = "cancel_taskId tc" and ?u = "s\<lparr>wa_processing := removeAll (cancel_taskId tc) (wa_processing s)\<rparr>"
  have "sat (\<lambda>_ u. wa_sent u = wa_sent s @ [AgentConfirm \<lparr>confirm_taskId = ?t, cancelConfirmType = cancel_answer tc s\<rparr>] \<and>
      (cancel_answer tc s = CC_canceled \<longrightarrow> ?t \<notin> set (wa_processing u))) (\<lambda>_. True) (wa_on_cancel_task tc s)"
    using pm_cancel_keeps [of ?u ?t]
    by (cases "pm_on_cancel_task ?t ?u")
       (auto simp: wa_on_cancel_task_def Let_def cancel_answer_def wa_confirm_def wa_send_def seq_run)
  with wa_on_cancel_task_ok [OF inv, of tc] show ?thesis by (cases "wa_on_cancel_task tc s") auto
qed

text \<open>The result of the running task goes out once and frees the processor.\<close>

lemma agent_result_delivered:
  assumes inv: "agent_inv s" and cur: "current_task s = Some task" "wa_current s = Some c" and p: "h_processor_id (holder_of s c) = Some p"
    and r: "result_taskId r = taskId task"
  shows "\<exists>s'. pm_on_task_result env p r s = Ret () s' \<and> agent_inv s' \<and>
    wa_sent s' = wa_sent s @ [AgentResult (r\<lparr>result_metadata := we_profile env c\<rparr>)] \<and>
    taskId task \<notin> set (wa_processing s') \<and> \<not> dict_has (wa_queued s') (taskId task) \<and> current_task s' = None \<and> \<not> wa_lock s'"
  using current_result_run [OF inv cur p r] by (simp add: current_task_def cur(2))

text \<open>No waiting task outranks the running one.\<close>

lemma no_inversion:
  assumes inv: "agent_inv s" and "current_task s = Some task" "dict_get (wa_queued s) u = Some task'"
  shows "task_prio task' \<le> task_prio task"
  by (rule agent_invE [OF inv]) (use assms(2,3) in \<open>auto simp: running_ok_def\<close>)

end
