(* ===== verification/AllocatePolicy.thy ===== *)
theory AllocatePolicy
  imports Protocol
begin

text \<open>
  The contract of a task allocation policy
  (\<open>src/src/scaler/scheduler/controllers/policies/simple_policy/allocation/mixins.py\<close>), the
  interface between the controllers and the two allocators. A policy is seen as a set of
  workers and a map from tasks to the worker that holds them; the laws say what each
  operation does to that view, and that no operation raises while the policy's own
  invariant holds.

  Python iterates over a set in hash order. Where the code's result depends on that
  order, the operation takes the key function of the order as an argument: every order of
  the elements of a set is \<open>sort_key h\<close> of them for some \<open>h\<close>.
\<close>

type_synonym set_order = "bytes \<Rightarrow> nat"

type_synonym balance_advice = "(WorkerID, TaskID list) dict"

text \<open>The insertion position a sorted list picks, from its keys and the new key.\<close>

type_synonym bisect = "nat list \<Rightarrow> nat \<Rightarrow> nat"

locale allocate_policy =
  fixes holder :: "'p \<Rightarrow> TaskID \<Rightarrow> WorkerID option"
    and members :: "'p \<Rightarrow> WorkerID set"
    and pinv :: "'p \<Rightarrow> bool"
    and add_worker :: "WorkerID \<Rightarrow> capabilities \<Rightarrow> int \<Rightarrow> (bool, 'p) comp"
    and remove_worker :: "WorkerID \<Rightarrow> (TaskID list, 'p) comp"
    and get_worker_by_task_id :: "'p \<Rightarrow> TaskID \<Rightarrow> WorkerID"
    and assign_task :: "set_order \<Rightarrow> Task \<Rightarrow> (WorkerID, 'p) comp"
    and remove_task :: "TaskID \<Rightarrow> (WorkerID, 'p) comp"
    and balance :: "bisect \<Rightarrow> 'p \<Rightarrow> py_exn + balance_advice"
  assumes add_worker: "pinv p \<Longrightarrow> worker_is_valid w \<Longrightarrow>
      \<exists>p'. add_worker w cs n p = Ret (w \<notin> members p) p' \<and> pinv p' \<and> holder p' = holder p \<and>
        members p' = insert w (members p)"
    and remove_worker: "pinv p \<Longrightarrow>
      \<exists>ts p'. remove_worker w p = Ret ts p' \<and> pinv p' \<and> distinct ts \<and> set ts = {t. holder p t = Some w} \<and>
        holder p' = (\<lambda>t. if holder p t = Some w then None else holder p t) \<and>
        members p' = members p - {w}"
    and get_worker: "pinv p \<Longrightarrow> get_worker_by_task_id p t =
      (case holder p t of None \<Rightarrow> invalid_worker_id | Some w \<Rightarrow> w)"
    and assign_task: "pinv p \<Longrightarrow> holder p (taskId task) = None \<Longrightarrow>
      \<exists>w p'. assign_task h task p = Ret w p' \<and> pinv p' \<and> members p' = members p \<and>
        (if worker_is_valid w then w \<in> members p \<and> holder p' = (holder p)(taskId task \<mapsto> w)
         else holder p' = holder p)"
    and remove_task: "pinv p \<Longrightarrow>
      \<exists>p'. remove_task t p = Ret (case holder p t of None \<Rightarrow> invalid_worker_id | Some w \<Rightarrow> w) p' \<and>
        pinv p' \<and> holder p' = (holder p)(t := None) \<and> members p' = members p"
    and holder_member: "pinv p \<Longrightarrow> holder p t = Some w \<Longrightarrow> w \<in> members p \<and> worker_is_valid w"
    and balance: "pinv p \<Longrightarrow> \<exists>advice. balance b p = Inr advice \<and>
      (\<forall>w ts. (w, ts) \<in> set advice \<longrightarrow> distinct ts \<and> (\<forall>t \<in> set ts. holder p t = Some w))"
begin

lemma get_worker_valid_iff:
  "pinv p \<Longrightarrow> worker_is_valid (get_worker_by_task_id p t) \<longleftrightarrow> holder p t \<noteq> None"
  using holder_member [of p t] by (auto simp: get_worker split: option.splits)

lemma get_worker_eq_iff:
  "pinv p \<Longrightarrow> worker_is_valid w \<Longrightarrow> get_worker_by_task_id p t = w \<longleftrightarrow> holder p t = Some w"
  using holder_member [of p t] by (auto simp: get_worker split: option.splits)

text \<open>A released task can be assigned again, and then holds exactly its new worker.\<close>

lemma reassign:
  assumes "pinv p"
  shows "\<exists>w p1 p2 v. remove_task (taskId task) p = Ret v p1 \<and> assign_task h task p1 = Ret w p2 \<and>
    pinv p2 \<and> (\<forall>t. t \<noteq> taskId task \<longrightarrow> holder p2 t = holder p t) \<and>
    holder p2 (taskId task) = (if worker_is_valid w then Some w else None)"
proof -
  obtain v p1 where p1: "remove_task (taskId task) p = Ret v p1" "pinv p1"
      "holder p1 = (holder p)(taskId task := None)"
    using remove_task [OF assms, of "taskId task"] by blast
  have "holder p1 (taskId task) = None" using p1(3) by simp
  from assign_task [OF p1(2) this, of h] obtain w p2 where "assign_task h task p1 = Ret w p2" "pinv p2"
      "if worker_is_valid w then w \<in> members p1 \<and> holder p2 = (holder p1)(taskId task \<mapsto> w)
       else holder p2 = holder p1"
    by blast
  with p1 show ?thesis by (auto split: if_splits)
qed

text \<open>A removed worker holds nothing.\<close>

lemma removed_worker_holds_nothing:
  assumes "pinv p" and "remove_worker w p = Ret ts p'"
  shows "pinv p'" and "w \<notin> members p'" and "holder p' t \<noteq> Some w"
    and "t \<in> set ts \<Longrightarrow> holder p' t = None"
  using remove_worker [OF assms(1), of w] assms(2) by auto

end

end
