(* ===== verification/EvenLoad.thy ===== *)
theory EvenLoad
  imports AllocatePolicy Queues
begin

text \<open>
  \<open>EvenLoadAllocatePolicy\<close>
  (\<open>src/src/scaler/scheduler/controllers/policies/simple_policy/allocation/even_load_allocate_policy.py\<close>):
  a priority queue of workers by number of assigned tasks, with the queue of every worker
  and the worker of every task beside it. The invariant ties the three together; the
  interpretation at the end discharges the contract of an allocation policy.

  \<open>math.ceil(a / b)\<close> is exact integer division rounded up; Python computes the quotient
  as a float, which is exact for the task counts of a scheduler (below \<open>2 ^ 53\<close>).
\<close>

record even_policy =
  ev_queue_size :: "(WorkerID, int) dict"
  ev_tasks :: "(WorkerID, TaskID indexed_queue) dict"
  ev_task_worker :: "(TaskID, WorkerID) dict"
  ev_worker_queue :: "WorkerID async_priority_queue"

definition ev_init :: even_policy where
  "ev_init = \<lparr>ev_queue_size = [], ev_tasks = [], ev_task_worker = [], ev_worker_queue = spq_empty\<rparr>"

section \<open>Operations\<close>

definition ev_add_worker :: "WorkerID \<Rightarrow> capabilities \<Rightarrow> int \<Rightarrow> (bool, even_policy) comp" where
  "ev_add_worker w cs queue_size p =
     (if dict_has (ev_tasks p) w then Ret False p
      else Ret True (p\<lparr>ev_tasks := dict_set w iq_empty (ev_tasks p),
                       ev_queue_size := dict_set w queue_size (ev_queue_size p),
                       ev_worker_queue := apq_put_nowait (0, w) (ev_worker_queue p)\<rparr>))"

definition ev_pop_task :: "TaskID \<Rightarrow> (unit, even_policy) comp" where
  "ev_pop_task t = andthen (lookup ev_task_worker t)
     (\<lambda>_. modify (\<lambda>p. p\<lparr>ev_task_worker := dict_pop t (ev_task_worker p)\<rparr>))"

definition ev_remove_worker :: "WorkerID \<Rightarrow> (TaskID list, even_policy) comp" where
  "ev_remove_worker w p =
     (case dict_get (ev_tasks p) w of
        None \<Rightarrow> Ret [] p
      | Some q \<Rightarrow>
          let ts = iq_to_list q
          in seq (for_each ts ev_pop_task) (ret ts)
               (p\<lparr>ev_worker_queue := apq_remove w (ev_worker_queue p),
                  ev_queue_size := dict_pop w (ev_queue_size p),
                  ev_tasks := dict_pop w (ev_tasks p)\<rparr>))"

definition ev_get_worker_ids :: "even_policy \<Rightarrow> WorkerID list" where
  "ev_get_worker_ids p = dict_keys (ev_tasks p)"

definition ev_get_worker_by_task_id :: "even_policy \<Rightarrow> TaskID \<Rightarrow> WorkerID" where
  "ev_get_worker_by_task_id p t =
     (case dict_get (ev_task_worker p) t of None \<Rightarrow> invalid_worker_id | Some w \<Rightarrow> w)"

definition ev_assign_task :: "Task \<Rightarrow> (WorkerID, even_policy) comp" where
  "ev_assign_task task p =
     (case dict_get (ev_task_worker p) (taskId task) of
        Some w \<Rightarrow> Ret w p
      | None \<Rightarrow>
          if apq_is_empty (ev_worker_queue p) then Ret invalid_worker_id p
          else (case apq_get_nowait (ev_worker_queue p) of
                  Inl e \<Rightarrow> Raise e p
                | Inr ((count, w), q) \<Rightarrow>
                    let p1 = p\<lparr>ev_worker_queue := q\<rparr>
                    in (case dict_get (ev_queue_size p) w of
                          None \<Rightarrow> Raise KeyError p1
                        | Some n \<Rightarrow>
                            if count = n
                            then Ret invalid_worker_id (p1\<lparr>ev_worker_queue := apq_put_nowait (count, w) q\<rparr>)
                            else (case dict_get (ev_tasks p) w of
                                    None \<Rightarrow> Raise KeyError p1
                                  | Some iq \<Rightarrow>
                                      (case iq_put (taskId task) iq of
                                         Inl e \<Rightarrow> Raise e p1
                                       | Inr iq' \<Rightarrow>
                                           Ret w (p1\<lparr>ev_tasks := dict_set w iq' (ev_tasks p),
                                                     ev_task_worker := dict_set (taskId task) w (ev_task_worker p),
                                                     ev_worker_queue := apq_put_nowait (count + 1, w) q\<rparr>))))))"

definition ev_remove_task :: "TaskID \<Rightarrow> (WorkerID, even_policy) comp" where
  "ev_remove_task t p =
     (case dict_get (ev_task_worker p) t of
        None \<Rightarrow> Ret invalid_worker_id p
      | Some w \<Rightarrow>
          let p1 = p\<lparr>ev_task_worker := dict_pop t (ev_task_worker p)\<rparr>
          in (case dict_get (ev_tasks p) w of
                None \<Rightarrow> Raise KeyError p1
              | Some iq \<Rightarrow>
                  (case iq_remove t iq of
                     Inl e \<Rightarrow> Raise e p1
                   | Inr iq' \<Rightarrow>
                       Ret w (p1\<lparr>ev_tasks := dict_set w iq' (ev_tasks p),
                                 ev_worker_queue := apq_decrease_priority w (ev_worker_queue p)\<rparr>))))"

definition ev_has_available_worker :: "even_policy \<Rightarrow> py_exn + bool" where
  "ev_has_available_worker p =
     (if apq_is_empty (ev_worker_queue p) then Inr False
      else (case apq_max_priority_item (ev_worker_queue p) of
              Inl e \<Rightarrow> Inl e
            | Inr (count, w) \<Rightarrow>
                (case dict_get (ev_queue_size p) w of None \<Rightarrow> Inl KeyError | Some n \<Rightarrow> Inr (count \<noteq> n))))"

text \<open>\<open>statistics\<close>: for every worker its free slots and its assigned tasks.\<close>

definition ev_statistics :: "even_policy \<Rightarrow> (WorkerID, int \<times> int) dict" where
  "ev_statistics p = map (\<lambda>(w, q).
     (w, ((case dict_get (ev_queue_size p) w of None \<Rightarrow> 0 | Some n \<Rightarrow> n) - int (iq_size q), int (iq_size q))))
     (ev_tasks p)"

section \<open>Balancing\<close>

definition ceil_div :: "int \<Rightarrow> int \<Rightarrow> int" where
  "ceil_div a b = - ((- a) div b)"

text \<open>The loop that tops the advice up: it walks the workers until nothing is left to hand out.\<close>

fun ev_top_up ::
  "(WorkerID, int) dict \<Rightarrow> int \<Rightarrow> (WorkerID, int) dict \<Rightarrow> py_exn + (WorkerID, int) dict" where
  "ev_top_up [] remaining balance_count = Inr balance_count"
| "ev_top_up ((w, count) # rest) remaining balance_count =
     (if remaining < 0 then Inl AssertionError
      else if remaining = 0 then Inr balance_count
      else (case dict_get balance_count w of
              None \<Rightarrow> Inl KeyError
            | Some planned \<Rightarrow>
                let leftover = count - planned
                in if leftover < 1 then ev_top_up rest remaining balance_count
                   else let n = min leftover remaining
                        in ev_top_up rest (remaining - n) (dict_set w (planned + n) balance_count)))"

definition ev_queued_per_worker :: "even_policy \<Rightarrow> (WorkerID, int) dict" where
  "ev_queued_per_worker p = map (\<lambda>(w, q). (w, max 0 (int (iq_size q) - 1))) (ev_tasks p)"

definition ev_idle :: "even_policy \<Rightarrow> int" where
  "ev_idle p = int (length (filter (\<lambda>(w, q). iq_size q = 0) (ev_tasks p)))"

definition ev_balance_count_by_worker :: "even_policy \<Rightarrow> py_exn + (WorkerID, int) dict" where
  "ev_balance_count_by_worker p =
     (let queued = ev_queued_per_worker p;
          total_queued = sum_list (map snd queued)
      in if \<not> list_ex (\<lambda>(w, n). n \<noteq> 0) queued then Inr []
         else if ev_idle p = 0 then Inr []
         else let mean_queued = ceil_div total_queued (int (length queued));
                  balance_count = map (\<lambda>(w, n). (w, max 0 (n - mean_queued))) queued;
                  over_mean = sum_list (map snd balance_count);
                  minimal = min (ev_idle p) total_queued
              in if over_mean \<ge> minimal then Inr balance_count
                 else ev_top_up queued (minimal - over_mean) balance_count)"

text \<open>The slice \<open>tasks[-count:]\<close>.\<close>

definition last_n :: "int \<Rightarrow> 'a list \<Rightarrow> 'a list" where
  "last_n n xs = (if n > 0 then drop (length xs - nat n) xs else drop (nat (- n)) xs)"

fun ev_advice :: "even_policy \<Rightarrow> (WorkerID, int) dict \<Rightarrow> py_exn + balance_advice" where
  "ev_advice p [] = Inr []"
| "ev_advice p ((w, n) # rest) =
     (if n = 0 then ev_advice p rest
      else (case dict_get (ev_tasks p) w of
              None \<Rightarrow> Inl KeyError
            | Some q \<Rightarrow> map_sum id (\<lambda>advice. (w, last_n n (iq_to_list q)) # advice) (ev_advice p rest)))"

definition ev_balance :: "even_policy \<Rightarrow> py_exn + balance_advice" where
  "ev_balance p = (case ev_balance_count_by_worker p of Inl e \<Rightarrow> Inl e | Inr counts \<Rightarrow> ev_advice p counts)"

section \<open>The invariant\<close>

definition ev_holder :: "even_policy \<Rightarrow> TaskID \<Rightarrow> WorkerID option" where
  "ev_holder p t = dict_get (ev_task_worker p) t"

definition ev_members :: "even_policy \<Rightarrow> WorkerID set" where
  "ev_members p = {w. dict_has (ev_tasks p) w}"

definition ev_held :: "even_policy \<Rightarrow> WorkerID \<Rightarrow> TaskID list" where
  "ev_held p w = (case dict_get (ev_tasks p) w of None \<Rightarrow> [] | Some q \<Rightarrow> iq_to_list q)"

definition ev_inv :: "even_policy \<Rightarrow> bool" where
  "ev_inv p \<longleftrightarrow>
     dict_ok (ev_tasks p) \<and>
     (\<forall>w. dict_has (ev_queue_size p) w \<longleftrightarrow> dict_has (ev_tasks p) w) \<and>
     (\<forall>w q. dict_get (ev_tasks p) w = Some q \<longrightarrow> iq_inv q \<and> worker_is_valid w) \<and>
     spq_inv (ev_worker_queue p) \<and>
     (\<forall>w. spq_prio (ev_worker_queue p) w = map_option (\<lambda>q. int (iq_size q)) (dict_get (ev_tasks p) w)) \<and>
     (\<forall>t w. dict_get (ev_task_worker p) t = Some w \<longleftrightarrow> t \<in> set (ev_held p w))"

text \<open>No worker with a non-negative queue size holds more tasks than it has slots.\<close>

definition ev_within_capacity :: "even_policy \<Rightarrow> bool" where
  "ev_within_capacity p \<longleftrightarrow>
     (\<forall>w n. dict_get (ev_queue_size p) w = Some n \<longrightarrow> 0 \<le> n \<longrightarrow> int (length (ev_held p w)) \<le> n)"

lemma ev_init_inv: "ev_inv ev_init" "ev_within_capacity ev_init" "ev_holder ev_init t = None" "ev_members ev_init = {}"
  by (simp_all add: ev_inv_def ev_init_def ev_held_def ev_within_capacity_def ev_holder_def ev_members_def)

lemma ev_inv_holder: "ev_inv p \<Longrightarrow> ev_holder p t = Some w \<longleftrightarrow> t \<in> set (ev_held p w)"
  by (simp add: ev_inv_def ev_holder_def)

lemma ev_held_member: "t \<in> set (ev_held p w) \<Longrightarrow> w \<in> ev_members p"
  by (cases "dict_get (ev_tasks p) w") (auto simp: ev_held_def ev_members_def dict_has_iff)

lemma ev_inv_valid: "ev_inv p \<Longrightarrow> w \<in> ev_members p \<Longrightarrow> worker_is_valid w"
  by (auto simp: ev_inv_def ev_members_def dict_has_iff)

lemma ev_inv_queue: "ev_inv p \<Longrightarrow> dict_get (ev_tasks p) w = Some q \<Longrightarrow> iq_inv q"
  by (simp add: ev_inv_def)

lemma ev_inv_prio:
  "ev_inv p \<Longrightarrow> spq_prio (ev_worker_queue p) w = (if w \<in> ev_members p then Some (int (length (ev_held p w))) else None)"
  by (auto simp: ev_inv_def ev_members_def ev_held_def dict_has_iff iq_size_eq split: option.splits)

lemma ev_queue_size_member: "ev_inv p \<Longrightarrow> w \<in> ev_members p \<longleftrightarrow> (\<exists>n. dict_get (ev_queue_size p) w = Some n)"
  by (auto simp: ev_inv_def ev_members_def dict_has_iff)

lemma ev_add_worker_spec:
  assumes inv: "ev_inv p" and w: "worker_is_valid w"
  shows "\<exists>p'. ev_add_worker w cs n p = Ret (w \<notin> ev_members p) p' \<and> ev_inv p' \<and> ev_holder p' = ev_holder p \<and>
    ev_members p' = insert w (ev_members p) \<and> (ev_within_capacity p \<longrightarrow> ev_within_capacity p')"
proof (cases "w \<in> ev_members p")
  case True
  then have "ev_add_worker w cs n p = Ret False p" by (simp add: ev_add_worker_def ev_members_def)
  with True inv show ?thesis by (auto simp: insert_absorb)
next
  case False
  let ?p' = "p\<lparr>ev_tasks := dict_set w iq_empty (ev_tasks p),
      ev_queue_size := dict_set w n (ev_queue_size p),
      ev_worker_queue := apq_put_nowait (0, w) (ev_worker_queue p)\<rparr>"
  have none: "dict_get (ev_tasks p) w = None" using False by (simp add: ev_members_def dict_has_iff)
  have held: "ev_held ?p' v = ev_held p v" for v by (simp add: ev_held_def none)
  have pq: "spq_inv (apq_put_nowait (0, w) (ev_worker_queue p))"
    "spq_prio (apq_put_nowait (0, w) (ev_worker_queue p)) = (spq_prio (ev_worker_queue p))(w \<mapsto> 0)"
    using apq.put [of "ev_worker_queue p" w 0] ev_inv_prio [OF inv, of w] False inv by (auto simp: ev_inv_def)
  have "ev_inv ?p'"
    using inv pq w unfolding ev_inv_def held by (auto simp: iq_size_eq)
  moreover have "ev_within_capacity p \<longrightarrow> ev_within_capacity ?p'"
    unfolding ev_within_capacity_def held by (auto simp: ev_held_def none)
  moreover have "ev_add_worker w cs n p = Ret (w \<notin> ev_members p) ?p'"
    using False by (simp add: ev_add_worker_def ev_members_def)
  ultimately show ?thesis by (auto simp: ev_holder_def ev_members_def fun_eq_iff)
qed

text \<open>Popping the tasks of a removed worker one by one.\<close>

lemma ev_pop_tasks:
  "distinct ts \<Longrightarrow> (\<And>t. t \<in> set ts \<Longrightarrow> ev_holder p t \<noteq> None) \<Longrightarrow>
    \<exists>p'. for_each ts ev_pop_task p = Ret () p' \<and> ev_tasks p' = ev_tasks p \<and> ev_queue_size p' = ev_queue_size p \<and>
      ev_worker_queue p' = ev_worker_queue p \<and> ev_holder p' = (\<lambda>t. if t \<in> set ts then None else ev_holder p t)"
proof (induction ts arbitrary: p)
  case Nil
  then show ?case by (auto intro: exI [of _ p])
next
  case (Cons t ts)
  let ?p1 = "p\<lparr>ev_task_worker := dict_pop t (ev_task_worker p)\<rparr>"
  obtain w where "dict_get (ev_task_worker p) t = Some w"
    using Cons.prems(2) [of t] by (auto simp: ev_holder_def)
  then have step: "ev_pop_task t p = Ret () ?p1" by (simp add: ev_pop_task_def)
  have h1: "ev_holder ?p1 u = (if u = t then None else ev_holder p u)" for u by (simp add: ev_holder_def)
  have "\<And>u. u \<in> set ts \<Longrightarrow> ev_holder ?p1 u \<noteq> None"
    using Cons.prems by (auto simp: h1)
  from Cons.IH [OF _ this] Cons.prems(1) obtain p' where "for_each ts ev_pop_task ?p1 = Ret () p'"
    "ev_tasks p' = ev_tasks p" "ev_queue_size p' = ev_queue_size p" "ev_worker_queue p' = ev_worker_queue p"
    "ev_holder p' = (\<lambda>u. if u \<in> set ts then None else ev_holder ?p1 u)"
    by auto
  with step show ?case by (auto simp: h1 fun_eq_iff)
qed

lemma ev_remove_worker_spec:
  assumes inv: "ev_inv p"
  shows "\<exists>ts p'. ev_remove_worker w p = Ret ts p' \<and> ev_inv p' \<and> distinct ts \<and> set ts = {t. ev_holder p t = Some w} \<and>
    ev_holder p' = (\<lambda>t. if ev_holder p t = Some w then None else ev_holder p t) \<and>
    ev_members p' = ev_members p - {w} \<and> (ev_within_capacity p \<longrightarrow> ev_within_capacity p')"
proof (cases "dict_get (ev_tasks p) w")
  case None
  then have "ev_holder p t \<noteq> Some w" for t by (simp add: ev_inv_holder [OF inv] ev_held_def)
  moreover have "w \<notin> ev_members p" using None by (simp add: ev_members_def dict_has_iff)
  ultimately show ?thesis using None inv by (simp add: ev_remove_worker_def)
next
  case (Some q)
  let ?ts = "iq_to_list q"
  let ?p1 = "p\<lparr>ev_worker_queue := apq_remove w (ev_worker_queue p),
      ev_queue_size := dict_pop w (ev_queue_size p), ev_tasks := dict_pop w (ev_tasks p)\<rparr>"
  have ts: "set ?ts = {t. ev_holder p t = Some w}" "distinct ?ts"
    using ev_inv_holder [OF inv, of _ w] iq_distinct [OF ev_inv_queue [OF inv Some]] Some
    by (auto simp: ev_held_def)
  have "ev_holder ?p1 = ev_holder p" by (simp add: ev_holder_def fun_eq_iff)
  with ts obtain p' where p': "for_each ?ts ev_pop_task ?p1 = Ret () p'" "ev_tasks p' = ev_tasks ?p1"
    "ev_queue_size p' = ev_queue_size ?p1" "ev_worker_queue p' = ev_worker_queue ?p1"
    "ev_holder p' = (\<lambda>t. if t \<in> set ?ts then None else ev_holder p t)"
    using ev_pop_tasks [OF ts(2), of ?p1] by fastforce
  have held: "ev_held p' v = (if v = w then [] else ev_held p v)" for v
    by (simp add: ev_held_def p'(2))
  have pq: "spq_inv (apq_remove w (ev_worker_queue p))"
    "spq_prio (apq_remove w (ev_worker_queue p)) = (spq_prio (ev_worker_queue p))(w := None)"
    using apq.del [of "ev_worker_queue p" w] inv by (auto simp: ev_inv_def)
  have hold: "ev_holder p' t = Some v \<longleftrightarrow> t \<in> set (ev_held p' v)" for t v
    using ev_inv_holder [OF inv, of t v] unfolding p'(5) held ts(1) by auto
  have "ev_inv p'"
    using inv pq hold unfolding ev_inv_def p'(2-4) ev_holder_def by auto
  moreover have "ev_within_capacity p \<longrightarrow> ev_within_capacity p'"
    by (auto simp: ev_within_capacity_def held p'(3))
  moreover have "ev_remove_worker w p = Ret ?ts p'"
    using Some p'(1) by (simp add: ev_remove_worker_def Let_def)
  moreover have "ev_members p' = ev_members p - {w}" by (auto simp: ev_members_def p'(2))
  moreover have "ev_holder p' = (\<lambda>t. if ev_holder p t = Some w then None else ev_holder p t)"
    unfolding p'(5) ts(1) by auto
  ultimately show ?thesis using ts by blast
qed

text \<open>
  The state an assignment leaves: the task is appended to the queue of a worker of least
  load, unless that worker is full.
\<close>

definition ev_assigned :: "TaskID \<Rightarrow> WorkerID \<Rightarrow> TaskID indexed_queue \<Rightarrow> int \<Rightarrow> WorkerID async_priority_queue \<Rightarrow>
  even_policy \<Rightarrow> even_policy" where
  "ev_assigned t w iq' n q p = p\<lparr>ev_worker_queue := apq_put_nowait (n, w) q,
     ev_tasks := dict_set w iq' (ev_tasks p), ev_task_worker := dict_set t w (ev_task_worker p)\<rparr>"

lemma ev_least_loaded:
  assumes inv: "ev_inv p" and g: "apq_get_nowait (ev_worker_queue p) = Inr ((count, w), q)"
  shows "w \<in> ev_members p" and "count = int (length (ev_held p w))"
    and "v \<in> ev_members p \<Longrightarrow> length (ev_held p w) \<le> length (ev_held p v)"
    and "spq_inv (apq_put_nowait (n, w) q)"
    and "spq_prio (apq_put_nowait (n, w) q) = (spq_prio (ev_worker_queue p))(w \<mapsto> n)"
proof -
  have pq: "spq_inv (ev_worker_queue p)" using inv by (simp add: ev_inv_def)
  note get = apq.get [OF pq g]
  show w: "w \<in> ev_members p" and c: "count = int (length (ev_held p w))"
    using get ev_inv_prio [OF inv, of w] by (auto split: if_splits)
  show "length (ev_held p w) \<le> length (ev_held p v)" if "v \<in> ev_members p"
    using get ev_inv_prio [OF inv, of v] that c by (metis of_nat_le_iff)
  show "spq_inv (apq_put_nowait (n, w) q)"
    "spq_prio (apq_put_nowait (n, w) q) = (spq_prio (ev_worker_queue p))(w \<mapsto> n)"
    using apq.put_after_get [OF pq g] by auto
qed

lemma ev_assigned_inv:
  assumes inv: "ev_inv p" and g: "apq_get_nowait (ev_worker_queue p) = Inr ((count, w), q)"
    and iq: "dict_get (ev_tasks p) w = Some iq" "iq_inv iq'" "iq_to_list iq' = iq_to_list iq @ [t]"
    and new: "ev_holder p t = None"
  defines "p' \<equiv> ev_assigned t w iq' (count + 1) q p"
  shows "ev_inv p'" and "ev_holder p' = (ev_holder p)(t \<mapsto> w)" and "ev_members p' = ev_members p"
    and "ev_held p' v = (if v = w then ev_held p w @ [t] else ev_held p v)"
proof -
  note ll = ev_least_loaded [OF inv g]
  show hd: "ev_holder p' = (ev_holder p)(t \<mapsto> w)" by (auto simp: p'_def ev_assigned_def ev_holder_def)
  show held: "ev_held p' v = (if v = w then ev_held p w @ [t] else ev_held p v)" for v
    using iq by (simp add: p'_def ev_assigned_def ev_held_def)
  show "ev_members p' = ev_members p"
    using ll(1) by (auto simp: p'_def ev_assigned_def ev_members_def)
  have "t \<notin> set (ev_held p v)" for v using new ev_inv_holder [OF inv, of t v] by simp
  then have hh: "dict_get (ev_task_worker p') u = Some v \<longleftrightarrow> u \<in> set (ev_held p' v)" for u v
    using ev_inv_holder [OF inv, of u v] hd held [of v]
    by (auto simp: ev_holder_def fun_eq_iff)
  have pr: "spq_prio (ev_worker_queue p') v = map_option (\<lambda>q. int (iq_size q)) (dict_get (ev_tasks p') v)" for v
    using inv iq ll(2) ll(5) [of "count + 1"]
    by (auto simp: p'_def ev_assigned_def ev_inv_def iq_size_eq ev_held_def)
  have wv: "worker_is_valid w" using ev_inv_valid [OF inv ll(1)] .
  have qs: "dict_has (ev_queue_size p') v \<longleftrightarrow> dict_has (ev_tasks p') v" for v
    using inv ll(1) by (auto simp: p'_def ev_assigned_def ev_inv_def ev_members_def)
  have iqs: "iq_inv r \<and> worker_is_valid v" if "dict_get (ev_tasks p') v = Some r" for v r
    using that inv iq(2) wv by (auto simp: p'_def ev_assigned_def ev_inv_def split: if_splits)
  have "dict_ok (ev_tasks p')" "spq_inv (ev_worker_queue p')"
    using inv ll(4) by (auto simp: p'_def ev_assigned_def ev_inv_def)
  then show "ev_inv p'"
    unfolding ev_inv_def using hh pr qs iqs by blast
qed

text \<open>The contract of an assignment: which worker, and what happens to the state.\<close>

lemma ev_assign_cases:
  assumes inv: "ev_inv p" and new: "ev_holder p (taskId task) = None"
  obtains (refused) p' where "ev_assign_task task p = Ret invalid_worker_id p'" "ev_inv p'"
      "ev_tasks p' = ev_tasks p" "ev_task_worker p' = ev_task_worker p" "ev_queue_size p' = ev_queue_size p"
      "ev_members p = {} \<or> (\<exists>w n. w \<in> ev_members p \<and> dict_get (ev_queue_size p) w = Some n \<and>
         n = int (length (ev_held p w)) \<and> (\<forall>v\<in>ev_members p. length (ev_held p w) \<le> length (ev_held p v)))"
  | (assigned) w p' n where "ev_assign_task task p = Ret w p'" "ev_inv p'" "w \<in> ev_members p" "worker_is_valid w"
      "ev_holder p' = (ev_holder p)(taskId task \<mapsto> w)" "ev_members p' = ev_members p"
      "\<And>v. ev_held p' v = (if v = w then ev_held p w @ [taskId task] else ev_held p v)"
      "ev_queue_size p' = ev_queue_size p"
      "dict_get (ev_queue_size p) w = Some n" "n \<noteq> int (length (ev_held p w))"
      "\<And>v. v \<in> ev_members p \<Longrightarrow> length (ev_held p w) \<le> length (ev_held p v)"
proof (cases "apq_get_nowait (ev_worker_queue p)")
  case (Inl e)
  then have "ev_assign_task task p = Ret invalid_worker_id p"
    using new by (auto simp: ev_assign_task_def ev_holder_def apq_is_empty_iff)
  moreover have "ev_members p = {}"
    using apq.get_empty [OF _ Inl] inv ev_inv_prio [OF inv] by (auto simp: ev_inv_def split: if_splits)
  ultimately show thesis using inv by (intro refused) auto
next
  case (Inr r)
  then obtain count w q where g: "apq_get_nowait (ev_worker_queue p) = Inr ((count, w), q)"
    by (cases r) auto
  note ll = ev_least_loaded [OF inv g]
  have ne: "\<not> apq_is_empty (ev_worker_queue p)" using g by (simp add: apq_is_empty_iff)
  obtain n where n: "dict_get (ev_queue_size p) w = Some n"
    using ll(1) ev_queue_size_member [OF inv] by blast
  obtain iq where iq: "dict_get (ev_tasks p) w = Some iq"
    using ll(1) by (auto simp: ev_members_def dict_has_iff)
  show thesis
  proof (cases "count = n")
    case True
    let ?p' = "p\<lparr>ev_worker_queue := apq_put_nowait (count, w) q\<rparr>"
    have "ev_assign_task task p = Ret invalid_worker_id ?p'"
      using new ne g n True by (simp add: ev_assign_task_def ev_holder_def)
    moreover have "ev_inv ?p'"
      using inv ll(4,5) [of count] apq.get [of "ev_worker_queue p" count w q] g
      by (auto simp: ev_inv_def ev_held_def)
    ultimately show thesis
    proof (rule refused)
      show "ev_members p = {} \<or> (\<exists>w n. w \<in> ev_members p \<and> dict_get (ev_queue_size p) w = Some n \<and>
          n = int (length (ev_held p w)) \<and> (\<forall>v\<in>ev_members p. length (ev_held p w) \<le> length (ev_held p v)))"
        using n True ll(1-3) by blast
    qed simp_all
  next
    case False
    have "taskId task \<notin> set (iq_to_list iq)"
      using new ev_inv_holder [OF inv, of "taskId task" w] iq by (simp add: ev_held_def)
    from iq_put_new [OF ev_inv_queue [OF inv iq] this] obtain iq' where
      iq': "iq_put (taskId task) iq = Inr iq'" "iq_inv iq'" "iq_to_list iq' = iq_to_list iq @ [taskId task]" .
    have run: "ev_assign_task task p = Ret w (ev_assigned (taskId task) w iq' (count + 1) q p)"
      using new ne g n False iq iq'(1) by (simp add: ev_assign_task_def ev_holder_def ev_assigned_def)
    note as = ev_assigned_inv [OF inv g iq iq'(2,3) new]
    show thesis
      using assigned [OF run as(1) ll(1) ev_inv_valid [OF inv ll(1)] as(2,3)] as(4) n False ll
      by (simp add: ev_assigned_def)
  qed
qed

lemma ev_remove_task_spec:
  assumes inv: "ev_inv p"
  shows "\<exists>p'. ev_remove_task t p = Ret (case ev_holder p t of None \<Rightarrow> invalid_worker_id | Some w \<Rightarrow> w) p' \<and>
    ev_inv p' \<and> ev_holder p' = (ev_holder p)(t := None) \<and> ev_members p' = ev_members p \<and>
    ev_queue_size p' = ev_queue_size p \<and> (\<forall>v. ev_held p' v = remove1 t (ev_held p v))"
proof (cases "ev_holder p t")
  case None
  then have "t \<notin> set (ev_held p v)" for v using ev_inv_holder [OF inv, of t v] by simp
  then show ?thesis
    using None inv by (auto simp: ev_remove_task_def ev_holder_def remove1_idem)
next
  case (Some w)
  then have t: "t \<in> set (ev_held p v) \<longleftrightarrow> v = w" for v using ev_inv_holder [OF inv, of t v] by auto
  then have wm: "w \<in> ev_members p" using ev_held_member [of t p w] by blast
  then obtain iq where iq: "dict_get (ev_tasks p) w = Some iq" by (auto simp: ev_members_def dict_has_iff)
  have "t \<in> set (iq_to_list iq)" using t [of w] iq by (simp add: ev_held_def)
  from iq_remove_present [OF ev_inv_queue [OF inv iq] this] obtain iq' where
    iq': "iq_remove t iq = Inr iq'" "iq_inv iq'" "iq_to_list iq' = remove1 t (iq_to_list iq)" .
  let ?p' = "p\<lparr>ev_task_worker := dict_pop t (ev_task_worker p), ev_tasks := dict_set w iq' (ev_tasks p),
      ev_worker_queue := apq_decrease_priority w (ev_worker_queue p)\<rparr>"
  have run: "ev_remove_task t p = Ret w ?p'"
    using Some iq iq'(1) by (simp add: ev_remove_task_def ev_holder_def Let_def)
  have held: "ev_held ?p' v = remove1 t (ev_held p v)" for v
    using iq iq'(3) t [of v] by (auto simp: ev_held_def remove1_idem)
  have pq: "spq_inv (apq_decrease_priority w (ev_worker_queue p))"
    "spq_prio (apq_decrease_priority w (ev_worker_queue p)) =
       (spq_prio (ev_worker_queue p))(w \<mapsto> int (length (ev_held p w)) - 1)"
    using apq.decr [of "ev_worker_queue p" w] ev_inv_prio [OF inv, of w] wm inv by (auto simp: ev_inv_def)
  have "t \<in> set (ev_held p w)" using t by blast
  then have "length (ev_held p w) = Suc (iq_size iq')"
    using iq iq'(3) length_filter_member [of "iq_to_list iq" t] iq_distinct [OF ev_inv_queue [OF inv iq]]
    by (simp add: iq_size_eq ev_held_def)
  then have len: "int (length (ev_held p w)) - 1 = int (iq_size iq')" by simp
  have hh: "dict_get (ev_task_worker ?p') u = Some v \<longleftrightarrow> u \<in> set (ev_held ?p' v)" for u v
    using ev_inv_holder [OF inv, of u v] t [of v] iq_distinct [OF ev_inv_queue [OF inv]] unfolding held
    by (cases "dict_get (ev_tasks p) v") (auto simp: ev_holder_def ev_held_def)
  have "spq_prio (ev_worker_queue ?p') v = map_option (\<lambda>q. int (iq_size q)) (dict_get (ev_tasks ?p') v)" for v
    using inv pq(2) len by (auto simp: ev_inv_def)
  moreover have "dict_ok (ev_tasks ?p')" "spq_inv (ev_worker_queue ?p')"
    "\<forall>v. dict_has (ev_queue_size ?p') v \<longleftrightarrow> dict_has (ev_tasks ?p') v"
    "\<forall>v r. dict_get (ev_tasks ?p') v = Some r \<longrightarrow> iq_inv r \<and> worker_is_valid v"
    using inv pq(1) iq'(2) wm ev_inv_valid [OF inv wm] by (auto simp: ev_inv_def ev_members_def split: if_splits)
  ultimately have "ev_inv ?p'" unfolding ev_inv_def using hh by blast
  moreover have "ev_holder ?p' = (ev_holder p)(t := None)" by (auto simp: ev_holder_def)
  moreover have "ev_members ?p' = ev_members p" using wm by (auto simp: ev_members_def)
  ultimately show ?thesis using run held Some by (auto intro!: exI [of _ ?p'])
qed

section \<open>Balancing never strips a worker\<close>

lemma sum_dict_set:
  "dict_ok d \<Longrightarrow> dict_get d k = Some (u::int) \<Longrightarrow>
    sum_list (map snd (dict_set k v d)) = sum_list (map snd d) - u + v"
  by (induction d) (auto simp: dict_get_def dict_set_def dict_ok_def)

lemma dict_set_keys: "dict_get d k = Some u \<Longrightarrow> map fst (dict_set k v d) = map fst d"
  by (induction d) (auto simp: dict_get_def dict_set_def)

definition planned_for :: "(WorkerID, int) dict \<Rightarrow> WorkerID \<Rightarrow> int" where
  "planned_for d w = (case dict_get d w of None \<Rightarrow> 0 | Some n \<Rightarrow> n)"

text \<open>
  The top-up loop hands out exactly what it is asked to while there is something left over,
  and never plans more for a worker than that worker has queued.
\<close>

lemma ev_top_up_spec:
  assumes "distinct (map fst queued)" and "dict_ok counts"
    and "\<And>w c. (w, c) \<in> set queued \<Longrightarrow> dict_get counts w \<noteq> None \<and> planned_for counts w \<le> c"
    and "0 \<le> remaining"
    and "remaining \<le> sum_list (map (\<lambda>(w, c). c - planned_for counts w) queued)"
  shows "\<exists>counts'. ev_top_up queued remaining counts = Inr counts' \<and> map fst counts' = map fst counts \<and>
    sum_list (map snd counts') = sum_list (map snd counts) + remaining \<and>
    (\<forall>w. planned_for counts w \<le> planned_for counts' w) \<and>
    (\<forall>w. planned_for counts' w = planned_for counts w \<or> (\<exists>c. (w, c) \<in> set queued \<and> planned_for counts' w \<le> c))"
  using assms
proof (induction queued arbitrary: remaining counts)
  case Nil
  then show ?case by auto
next
  case (Cons wc rest)
  obtain w c where wc: "wc = (w, c)" by (cases wc)
  obtain b where b: "dict_get counts w = Some b" "b \<le> c"
    using Cons.prems(3) [of w c] by (auto simp: wc planned_for_def)
  have pb: "planned_for counts w = b" by (simp add: planned_for_def b)
  have wr: "w \<notin> fst ` set rest" and dr: "distinct (map fst rest)" using Cons.prems(1) by (auto simp: wc)
  show ?case
  proof (cases "remaining = 0")
    case True
    then show ?thesis by (auto simp: wc)
  next
    case nz: False
    show ?thesis
    proof (cases "c - b < 1")
      case True
      have "remaining \<le> sum_list (map (\<lambda>(w, c). c - planned_for counts w) rest)"
        using Cons.prems(5) True pb by (simp add: wc)
      from Cons.IH [OF dr Cons.prems(2) _ Cons.prems(4) this] Cons.prems(3) obtain counts' where
        "ev_top_up rest remaining counts = Inr counts'" and rest: "map fst counts' = map fst counts"
        "sum_list (map snd counts') = sum_list (map snd counts) + remaining"
        "\<forall>w. planned_for counts w \<le> planned_for counts' w"
        "\<forall>w. planned_for counts' w = planned_for counts w \<or> (\<exists>c. (w, c) \<in> set rest \<and> planned_for counts' w \<le> c)"
        by (force simp: wc)
      moreover from this(1) have "ev_top_up (wc # rest) remaining counts = Inr counts'"
        using True nz b Cons.prems(4) by (simp add: wc Let_def)
      ultimately show ?thesis by (auto simp: wc)
    next
      case False
      let ?n = "min (c - b) remaining"
      let ?cs = "dict_set w (b + ?n) counts"
      have pf: "planned_for ?cs v = (if v = w then b + ?n else planned_for counts v)" for v
        by (simp add: planned_for_def)
      have same: "map (\<lambda>(w, c). c - planned_for ?cs w) rest = map (\<lambda>(w, c). c - planned_for counts w) rest"
        using wr by (auto simp: pf image_iff)
      have ne: "dict_get ?cs v \<noteq> None \<and> planned_for ?cs v \<le> d" if "(v, d) \<in> set rest" for v d
        using that Cons.prems(3) [of v d] wr by (auto simp: wc pf image_iff)
      have "0 \<le> remaining - ?n" by simp
      moreover have nn: "0 \<le> sum_list (map (\<lambda>(w, c). c - planned_for counts w) rest)"
        using Cons.prems(3) by (intro sum_list_nonneg) (auto simp: wc)
      have "remaining - ?n \<le> sum_list (map (\<lambda>(w, c). c - planned_for ?cs w) rest)"
        unfolding same using Cons.prems(5) nn pb by (simp add: wc)
      ultimately obtain counts' where
        run: "ev_top_up rest (remaining - ?n) ?cs = Inr counts'" and keys: "map fst counts' = map fst ?cs"
        and sum: "sum_list (map snd counts') = sum_list (map snd ?cs) + (remaining - ?n)"
        and up: "\<forall>w. planned_for ?cs w \<le> planned_for counts' w"
        and bnd: "\<forall>v. planned_for counts' v = planned_for ?cs v \<or> (\<exists>c. (v, c) \<in> set rest \<and> planned_for counts' v \<le> c)"
        using Cons.IH [OF dr dict_ok_set [OF Cons.prems(2)] ne] by blast
      have "planned_for counts v \<le> planned_for counts' v" for v
        using up [rule_format, of v] False Cons.prems(4) pb by (auto simp: pf split: if_splits)
      moreover have "planned_for counts' v = planned_for counts v \<or>
          (\<exists>c. (v, c) \<in> set (wc # rest) \<and> planned_for counts' v \<le> c)" for v
        using bnd [rule_format, of v] wr by (cases "v = w") (auto simp: wc pf)
      moreover have "ev_top_up (wc # rest) remaining counts = Inr counts'"
        using run False nz b Cons.prems(4) by (simp add: wc Let_def)
      ultimately show ?thesis
        using keys sum sum_dict_set [OF Cons.prems(2) b(1)] dict_set_keys [OF b(1)] by auto
    qed
  qed
qed

definition ev_total_queued :: "even_policy \<Rightarrow> int" where
  "ev_total_queued p = sum_list (map snd (ev_queued_per_worker p))"

lemma ev_queued_keys: "map fst (ev_queued_per_worker p) = map fst (ev_tasks p)"
  by (induction "ev_tasks p") (auto simp: ev_queued_per_worker_def)

lemma ev_queued_mem:
  "ev_inv p \<Longrightarrow> (w, c) \<in> set (ev_queued_per_worker p) \<Longrightarrow>
    w \<in> ev_members p \<and> c = max 0 (int (length (ev_held p w)) - 1)"
  using dict_get_in_set [of "ev_tasks p" w]
  by (auto simp: ev_queued_per_worker_def ev_inv_def ev_members_def ev_held_def iq_size_eq dict_has_iff)

lemma ev_total_queued_nonneg: "0 \<le> ev_total_queued p"
  unfolding ev_total_queued_def
  by (intro sum_list_nonneg) (auto simp: ev_queued_per_worker_def)

lemma list_ex_sum_pos:
  "(\<And>x. x \<in> set xs \<Longrightarrow> 0 \<le> (f x :: int)) \<Longrightarrow> list_ex (\<lambda>x. f x \<noteq> 0) xs \<longleftrightarrow> 0 < sum_list (map f xs)"
proof (induction xs)
  case (Cons x xs)
  have "0 \<le> sum_list (map f xs)" using Cons.prems by (intro sum_list_nonneg) auto
  with Cons show ?case by force
qed simp

lemma ev_any_queued: "list_ex (\<lambda>(w, n). n \<noteq> 0) (ev_queued_per_worker p) \<longleftrightarrow> 0 < ev_total_queued p"
proof -
  have "0 \<le> snd x" if "x \<in> set (ev_queued_per_worker p)" for x
    using that by (auto simp: ev_queued_per_worker_def)
  then have "list_ex (\<lambda>x. snd x \<noteq> 0) (ev_queued_per_worker p) \<longleftrightarrow>
      0 < sum_list (map snd (ev_queued_per_worker p))"
    by (rule list_ex_sum_pos)
  then show ?thesis by (simp add: ev_total_queued_def case_prod_unfold)
qed

lemma sum_list_diff_max:
  "sum_list (map (\<lambda>(w, c). c - max 0 (c - m)) q) =
    sum_list (map snd q) - sum_list (map snd (map (\<lambda>(w, c::int). (w, max 0 (c - m))) q))"
  by (induction q) auto

lemma planned_for_map:
  "dict_ok q \<Longrightarrow> (w, c) \<in> set q \<Longrightarrow> planned_for (map (\<lambda>(w, n). (w, f n)) q) w = f c"
proof -
  have "dict_get (map (\<lambda>(w, n). (w, f n)) q) w = map_option f (dict_get q w)"
    by (induction q) (auto simp: dict_get_def)
  then show "dict_ok q \<Longrightarrow> (w, c) \<in> set q \<Longrightarrow> planned_for (map (\<lambda>(w, n). (w, f n)) q) w = f c"
    using dict_get_in_set [of q w c] by (simp add: planned_for_def)
qed

lemma planned_for_mem: "dict_ok d \<Longrightarrow> (w, n) \<in> set d \<Longrightarrow> planned_for d w = n"
  by (simp add: planned_for_def dict_get_in_set)

text \<open>
  The plan: nothing without both a waiting task and an idle worker; otherwise at least one
  task for every idle worker (or all waiting ones), and for no worker more than it has
  queued behind its first task.
\<close>

definition plan_ok :: "even_policy \<Rightarrow> (WorkerID, int) dict \<Rightarrow> bool" where
  "plan_ok p counts \<longleftrightarrow> dict_ok counts \<and>
     (\<forall>w n. (w, n) \<in> set counts \<longrightarrow> w \<in> ev_members p \<and> 0 \<le> n \<and> n \<le> max 0 (int (length (ev_held p w)) - 1)) \<and>
     (if ev_total_queued p = 0 \<or> ev_idle p = 0 then counts = []
      else min (ev_idle p) (ev_total_queued p) \<le> sum_list (map snd counts))"

lemma ev_balance_count_spec:
  assumes inv: "ev_inv p"
  shows "\<exists>counts. ev_balance_count_by_worker p = Inr counts \<and> plan_ok p counts"
proof (cases "ev_total_queued p = 0 \<or> ev_idle p = 0")
  case True
  then show ?thesis
    using ev_any_queued [of p] by (auto simp: ev_balance_count_by_worker_def plan_ok_def Let_def)
next
  case False
  let ?q = "ev_queued_per_worker p"
  define m where "m = ceil_div (ev_total_queued p) (int (length ?q))"
  define bc where "bc = map (\<lambda>(w, n). (w, max 0 (n - m))) ?q"
  have ok: "dict_ok ?q" using inv by (simp add: dict_ok_def ev_queued_keys ev_inv_def)
  have m: "0 \<le> m"
    using ev_total_queued_nonneg [of p] div_nonpos_pos_le0 [of "- ev_total_queued p" "int (length ?q)"]
    by (cases "?q = []") (auto simp: m_def ceil_div_def)
  have bk: "map fst bc = map fst ?q" by (simp add: bc_def comp_def case_prod_beta)
  have bok: "dict_ok bc" using ok by (simp add: dict_ok_def bk)
  have pl: "planned_for bc w = max 0 (c - m)" if "(w, c) \<in> set ?q" for w c
    using planned_for_map [OF ok that, of "\<lambda>n. max 0 (n - m)"] by (simp add: bc_def)
  have c0: "0 \<le> c" if "(w, c) \<in> set ?q" for w c using ev_queued_mem [OF inv that] by simp
  have run: "ev_balance_count_by_worker p =
      (if sum_list (map snd bc) \<ge> min (ev_idle p) (ev_total_queued p) then Inr bc
       else ev_top_up ?q (min (ev_idle p) (ev_total_queued p) - sum_list (map snd bc)) bc)"
    using False ev_any_queued [of p] ev_total_queued_nonneg [of p]
    by (simp add: ev_balance_count_by_worker_def Let_def ev_total_queued_def m_def bc_def)
  have bound: "w \<in> ev_members p \<and> 0 \<le> n \<and> n \<le> max 0 (int (length (ev_held p w)) - 1)" if "(w, n) \<in> set bc" for w n
  proof -
    obtain c where "(w, c) \<in> set ?q" "n = max 0 (c - m)" using \<open>(w, n) \<in> set bc\<close> by (auto simp: bc_def)
    then show ?thesis using ev_queued_mem [OF inv, of w c] m by auto
  qed
  show ?thesis
  proof (cases "sum_list (map snd bc) \<ge> min (ev_idle p) (ev_total_queued p)")
    case True
    then have "plan_ok p bc" using bok bound False by (simp add: plan_ok_def)
    with True run show ?thesis by simp
  next
    case short: False
    let ?r = "min (ev_idle p) (ev_total_queued p) - sum_list (map snd bc)"
    have "map (\<lambda>(w, c). c - planned_for bc w) ?q = map (\<lambda>(w, c). c - max 0 (c - m)) ?q"
      by (rule map_cong) (auto simp: pl)
    then have "sum_list (map (\<lambda>(w, c). c - planned_for bc w) ?q) = ev_total_queued p - sum_list (map snd bc)"
      using sum_list_diff_max [of m ?q] by (simp only: bc_def ev_total_queued_def)
    then have enough: "?r \<le> sum_list (map (\<lambda>(w, c). c - planned_for bc w) ?q)" by simp
    have "dict_get bc w \<noteq> None \<and> planned_for bc w \<le> c" if "(w, c) \<in> set ?q" for w c
    proof -
      have "dict_has bc w" unfolding dict_has_def bk using that by force
      then show ?thesis using pl [OF that] c0 [OF that] m by (simp add: dict_has_iff)
    qed
    moreover have "0 \<le> ?r" using short by linarith
    ultimately obtain counts where "ev_top_up ?q ?r bc = Inr counts" and keys: "map fst counts = map fst bc"
      and sum: "sum_list (map snd counts) = sum_list (map snd bc) + ?r"
      and up: "\<forall>w. planned_for bc w \<le> planned_for counts w"
      and bnd: "\<forall>w. planned_for counts w = planned_for bc w \<or> (\<exists>c. (w, c) \<in> set ?q \<and> planned_for counts w \<le> c)"
      using ev_top_up_spec [of ?q bc ?r] ok bok enough unfolding dict_ok_def by blast
    moreover have cok: "dict_ok counts" using bok keys by (simp add: dict_ok_def)
    moreover have "w \<in> ev_members p \<and> 0 \<le> n \<and> n \<le> max 0 (int (length (ev_held p w)) - 1)"
      if "(w, n) \<in> set counts" for w n
    proof -
      have "w \<in> set (map fst counts)" using that by force
      then obtain b where "(w, b) \<in> set bc" unfolding keys by auto
      note b = bound [OF this] planned_for_mem [OF bok this]
      have "b \<le> n" "n = b \<or> (\<exists>c. (w, c) \<in> set ?q \<and> n \<le> c)"
        using up [rule_format, of w] bnd [rule_format, of w] by (simp_all add: b(2) planned_for_mem [OF cok that])
      then show ?thesis using b(1) ev_queued_mem [OF inv, of w] by force
    qed
    ultimately show ?thesis using run short False by (simp add: plan_ok_def)
  qed
qed

text \<open>The advice that carries a plan out: the most recently queued tasks of every worker.\<close>

lemma last_n_held:
  assumes "0 < n" "n \<le> int (length xs)"
  shows "int (length (last_n n xs)) = n" and "set (last_n n xs) \<subseteq> set xs"
    and "distinct xs \<Longrightarrow> distinct (last_n n xs)" and "\<exists>ys. xs = ys @ last_n n xs"
proof -
  show "int (length (last_n n xs)) = n" using assms by (simp add: last_n_def)
  show "set (last_n n xs) \<subseteq> set xs" by (simp add: last_n_def set_drop_subset)
  show "distinct xs \<Longrightarrow> distinct (last_n n xs)" by (simp add: last_n_def)
  show "\<exists>ys. xs = ys @ last_n n xs" using assms by (simp add: last_n_def) (metis append_take_drop_id)
qed

lemma ev_advice_spec:
  assumes "\<And>w n. (w, n) \<in> set counts \<Longrightarrow> w \<in> ev_members p \<and> 0 \<le> n \<and> n \<le> max 0 (int (length (ev_held p w)) - 1)"
  shows "\<exists>advice. ev_advice p counts = Inr advice \<and>
    int (sum_list (map (\<lambda>(w, ts). length ts) advice)) = sum_list (map snd counts) \<and>
    set (map fst advice) \<subseteq> set (map fst counts) \<and>
    (\<forall>w ts. (w, ts) \<in> set advice \<longrightarrow> (\<exists>ys. ys \<noteq> [] \<and> ts \<noteq> [] \<and> ev_held p w = ys @ ts))"
  using assms
proof (induction counts)
  case Nil
  then show ?case by simp
next
  case (Cons wn rest)
  obtain w n where wn: "wn = (w, n)" by (cases wn)
  obtain advice where IH: "ev_advice p rest = Inr advice"
      "int (sum_list (map (\<lambda>(w, ts). length ts) advice)) = sum_list (map snd rest)"
      "set (map fst advice) \<subseteq> set (map fst rest)"
      "\<forall>w ts. (w, ts) \<in> set advice \<longrightarrow> (\<exists>ys. ys \<noteq> [] \<and> ts \<noteq> [] \<and> ev_held p w = ys @ ts)"
    using Cons.IH Cons.prems by (metis list.set_intros(2))
  show ?case
  proof (cases "n = 0")
    case True
    with IH show ?thesis by (auto simp: wn)
  next
    case False
    obtain q where q: "dict_get (ev_tasks p) w = Some q" and held: "iq_to_list q = ev_held p w"
      using Cons.prems [of w n] by (auto simp: wn ev_members_def dict_has_iff ev_held_def)
    have n: "0 < n" "n < int (length (ev_held p w))" using Cons.prems [of w n] False by (auto simp: wn)
    note ln = last_n_held [of n "ev_held p w"]
    obtain ys where ys: "ev_held p w = ys @ last_n n (ev_held p w)" using ln(4) n by auto
    moreover have len: "int (length (last_n n (ev_held p w))) = n" using ln(1) n by simp
    moreover have "ys \<noteq> []" using ys n(2) len by (metis append_Nil less_irrefl)
    moreover have "last_n n (ev_held p w) \<noteq> []" using len n(1) by auto
    ultimately show ?thesis using IH False q by (auto simp: wn held)
  qed
qed

lemma ev_balance_spec:
  assumes inv: "ev_inv p"
  shows "\<exists>advice. ev_balance p = Inr advice \<and>
    (\<forall>w ts. (w, ts) \<in> set advice \<longrightarrow> (\<exists>ys. ys \<noteq> [] \<and> ts \<noteq> [] \<and> ev_held p w = ys @ ts)) \<and>
    (if ev_total_queued p = 0 \<or> ev_idle p = 0 then advice = []
     else min (ev_idle p) (ev_total_queued p) \<le> int (sum_list (map (\<lambda>(w, ts). length ts) advice)))"
proof -
  obtain counts where counts: "ev_balance_count_by_worker p = Inr counts" "plan_ok p counts"
    using ev_balance_count_spec [OF inv] by blast
  moreover obtain advice where "ev_advice p counts = Inr advice"
      "int (sum_list (map (\<lambda>(w, ts). length ts) advice)) = sum_list (map snd counts)"
      "\<forall>w ts. (w, ts) \<in> set advice \<longrightarrow> (\<exists>ys. ys \<noteq> [] \<and> ts \<noteq> [] \<and> ev_held p w = ys @ ts)"
    using ev_advice_spec [of counts p] counts(2) by (auto simp: plan_ok_def)
  ultimately show ?thesis by (auto simp: ev_balance_def plan_ok_def split: if_splits)
qed

lemma ev_held_distinct: "ev_inv p \<Longrightarrow> distinct (ev_held p w)"
  by (auto simp: ev_held_def iq_distinct ev_inv_queue split: option.split)

section \<open>The contract holds\<close>

definition ev_ok :: "even_policy \<Rightarrow> bool" where
  "ev_ok p \<longleftrightarrow> ev_inv p \<and> ev_within_capacity p"

lemma ev_assign_capacity:
  assumes "ev_ok p" "ev_holder p (taskId task) = None" "ev_assign_task task p = Ret w p'"
  shows "ev_within_capacity p'"
proof -
  have inv: "ev_inv p" and cap: "ev_within_capacity p" using assms(1) by (simp_all add: ev_ok_def)
  from inv assms(2) show ?thesis
  proof (cases rule: ev_assign_cases)
    case (refused q)
    then show ?thesis using cap assms(3) by (simp add: ev_within_capacity_def ev_held_def)
  next
    case (assigned v q n)
    then have "q = p'" using assms(3) by simp
    then show ?thesis
      using cap assigned(7-10) unfolding ev_within_capacity_def by (fastforce split: if_splits)
  qed
qed

lemma ev_remove_capacity:
  assumes "ev_ok p" "ev_queue_size p' = ev_queue_size p" "\<forall>v. ev_held p' v = remove1 t (ev_held p v)"
  shows "ev_within_capacity p'"
proof -
  have "length (remove1 t xs) \<le> length xs" for xs :: "TaskID list" by (simp add: length_remove1)
  then have "int (length (ev_held p' v)) \<le> int (length (ev_held p v))" for v using assms(3) by simp
  then show ?thesis using assms(1,2) unfolding ev_ok_def ev_within_capacity_def by (metis order_trans)
qed

interpretation ev: allocate_policy ev_holder ev_members ev_ok ev_add_worker ev_remove_worker
  ev_get_worker_by_task_id "\<lambda>h. ev_assign_task" ev_remove_task "\<lambda>b. ev_balance"
proof unfold_locales
  fix p w cs n t h task
  show "ev_ok p \<Longrightarrow> worker_is_valid w \<Longrightarrow> \<exists>p'. ev_add_worker w cs n p = Ret (w \<notin> ev_members p) p' \<and>
      ev_ok p' \<and> ev_holder p' = ev_holder p \<and> ev_members p' = insert w (ev_members p)"
    using ev_add_worker_spec unfolding ev_ok_def by blast
  show "ev_ok p \<Longrightarrow> \<exists>ts p'. ev_remove_worker w p = Ret ts p' \<and> ev_ok p' \<and> distinct ts \<and>
      set ts = {t. ev_holder p t = Some w} \<and>
      ev_holder p' = (\<lambda>t. if ev_holder p t = Some w then None else ev_holder p t) \<and>
      ev_members p' = ev_members p - {w}"
    using ev_remove_worker_spec unfolding ev_ok_def by blast
  show "ev_ok p \<Longrightarrow> ev_get_worker_by_task_id p t = (case ev_holder p t of None \<Rightarrow> invalid_worker_id | Some w \<Rightarrow> w)"
    by (simp add: ev_get_worker_by_task_id_def ev_holder_def)
  show "\<exists>w p'. ev_assign_task task p = Ret w p' \<and> ev_ok p' \<and> ev_members p' = ev_members p \<and>
        (if worker_is_valid w then w \<in> ev_members p \<and> ev_holder p' = (ev_holder p)(taskId task \<mapsto> w)
         else ev_holder p' = ev_holder p)"
    if ok: "ev_ok p" and new: "ev_holder p (taskId task) = None"
  proof -
    have inv: "ev_inv p" using ok by (simp add: ev_ok_def)
    have "\<exists>w p'. ev_assign_task task p = Ret w p' \<and> ev_inv p' \<and> ev_members p' = ev_members p \<and>
        (if worker_is_valid w then w \<in> ev_members p \<and> ev_holder p' = (ev_holder p)(taskId task \<mapsto> w)
         else ev_holder p' = ev_holder p)"
      by (rule ev_assign_cases [OF inv new]) (auto simp: ev_holder_def ev_members_def)
    with ev_assign_capacity [OF ok new] show ?thesis unfolding ev_ok_def by blast
  qed
  show "ev_ok p \<Longrightarrow> \<exists>p'. ev_remove_task t p = Ret (case ev_holder p t of None \<Rightarrow> invalid_worker_id | Some w \<Rightarrow> w) p' \<and>
      ev_ok p' \<and> ev_holder p' = (ev_holder p)(t := None) \<and> ev_members p' = ev_members p"
    using ev_remove_task_spec [of p t] ev_remove_capacity [of p _ t] unfolding ev_ok_def by blast
  show "ev_ok p \<Longrightarrow> ev_holder p t = Some w \<Longrightarrow> w \<in> ev_members p \<and> worker_is_valid w"
    using ev_inv_holder ev_held_member ev_inv_valid unfolding ev_ok_def by blast
  show "ev_ok p \<Longrightarrow> \<exists>advice. ev_balance p = Inr advice \<and>
      (\<forall>w ts. (w, ts) \<in> set advice \<longrightarrow> distinct ts \<and> (\<forall>t\<in>set ts. ev_holder p t = Some w))"
    using ev_balance_spec [of p] ev_held_distinct [of p] ev_inv_holder [of p] unfolding ev_ok_def
    by (metis Un_iff distinct_append set_append)
qed

end
