(* ===== verification/CapabilityAllocate.thy ===== *)
theory CapabilityAllocate
  imports AllocatePolicy
begin

text \<open>
  \<open>CapabilityAllocatePolicy\<close>
  (\<open>src/src/scaler/scheduler/controllers/policies/simple_policy/allocation/capability_allocate_policy.py\<close>):
  a task goes to the least loaded worker that has all the capabilities it asks for, and
  balancing moves the youngest tasks of overloaded workers to underloaded ones that can run
  them.

  Sets whose iteration order does not matter (capability names, the workers of one
  capability) are duplicate-free lists. The list of matching workers does depend on the
  order, since \<open>min\<close> takes the first of several least loaded ones: it is ordered by the
  key function \<open>h\<close>. The balancing target \<open>max(n_tasks / n_workers, 1.0)\<close> is kept as the
  fraction \<open>a / k\<close>; comparing an integer load with it is exact, also in floating point, for
  less than \<open>2 ^ 52\<close> workers.
\<close>

record task_holder =
  th_id :: TaskID
  th_capabilities :: "string list"

record worker_holder =
  wh_id :: WorkerID
  wh_capabilities :: "string list"
  wh_queue_size :: int
  wh_tasks :: "(TaskID, task_holder) dict"

definition wh_n_tasks :: "worker_holder \<Rightarrow> nat" where
  "wh_n_tasks h = length (wh_tasks h)"

definition wh_n_free :: "worker_holder \<Rightarrow> int" where
  "wh_n_free h = wh_queue_size h - int (wh_n_tasks h)"

record cap_policy =
  cp_workers :: "(WorkerID, worker_holder) dict"
  cp_task_worker :: "(TaskID, WorkerID) dict"
  cp_capability_workers :: "(string, WorkerID list) dict"

definition cp_init :: cap_policy where
  "cp_init = \<lparr>cp_workers = [], cp_task_worker = [], cp_capability_workers = []\<rparr>"

section \<open>Workers\<close>

definition cp_index_add :: "WorkerID \<Rightarrow> string \<Rightarrow> (string, WorkerID list) dict \<Rightarrow> (string, WorkerID list) dict" where
  "cp_index_add w c index =
     (let index1 = (if dict_has index c then index else dict_set c [] index)
      in (case dict_get index1 c of None \<Rightarrow> index1 | Some ws \<Rightarrow> dict_set c (set_add w ws) index1))"

definition cp_add_worker :: "WorkerID \<Rightarrow> capabilities \<Rightarrow> int \<Rightarrow> (bool, cap_policy) comp" where
  "cp_add_worker w cs queue_size p =
     (if dict_has (cp_workers p) w then Ret False p
      else let h = \<lparr>wh_id = w, wh_capabilities = remdups (dict_keys cs), wh_queue_size = queue_size, wh_tasks = []\<rparr>
           in Ret True (p\<lparr>cp_workers := dict_set w h (cp_workers p),
                          cp_capability_workers := fold (cp_index_add w) (wh_capabilities h) (cp_capability_workers p)\<rparr>))"

definition cp_index_discard :: "WorkerID \<Rightarrow> string \<Rightarrow> (unit, cap_policy) comp" where
  "cp_index_discard w c = andthen (lookup cp_capability_workers c) (\<lambda>ws.
     let ws' = removeAll w ws
     in modify (\<lambda>p. p\<lparr>cp_capability_workers :=
          (if ws' = [] then dict_pop c (cp_capability_workers p)
           else dict_set c ws' (cp_capability_workers p))\<rparr>))"

definition cp_pop_task :: "TaskID \<Rightarrow> (unit, cap_policy) comp" where
  "cp_pop_task t = andthen (lookup cp_task_worker t)
     (\<lambda>_. modify (\<lambda>p. p\<lparr>cp_task_worker := dict_pop t (cp_task_worker p)\<rparr>))"

definition cp_remove_worker :: "WorkerID \<Rightarrow> (TaskID list, cap_policy) comp" where
  "cp_remove_worker w p =
     (case dict_get (cp_workers p) w of
        None \<Rightarrow> Ret [] p
      | Some h \<Rightarrow>
          let ts = dict_keys (wh_tasks h)
          in seq (for_each (wh_capabilities h) (cp_index_discard w))
               (seq (for_each ts cp_pop_task) (ret ts))
               (p\<lparr>cp_workers := dict_pop w (cp_workers p)\<rparr>))"

definition cp_get_worker_ids :: "cap_policy \<Rightarrow> WorkerID list" where
  "cp_get_worker_ids p = dict_keys (cp_workers p)"

definition cp_get_worker_by_task_id :: "cap_policy \<Rightarrow> TaskID \<Rightarrow> WorkerID" where
  "cp_get_worker_by_task_id p t =
     (case dict_get (cp_task_worker p) t of None \<Rightarrow> invalid_worker_id | Some w \<Rightarrow> w)"

section \<open>Assignment\<close>

definition cp_matching :: "cap_policy \<Rightarrow> string list \<Rightarrow> WorkerID list" where
  "cp_matching p names =
     foldl (\<lambda>ws c. filter (\<lambda>w. w \<in> set (case dict_get (cp_capability_workers p) c of None \<Rightarrow> [] | Some vs \<Rightarrow> vs)) ws)
       (dict_keys (cp_workers p)) names"

definition cp_available_workers :: "set_order \<Rightarrow> cap_policy \<Rightarrow> capabilities \<Rightarrow> worker_holder list" where
  "cp_available_workers h p cs =
     (if list_ex (\<lambda>c. \<not> dict_has (cp_capability_workers p) c) (dict_keys cs) then []
      else filter (\<lambda>x. wh_n_free x > 0)
             (List.map_filter (dict_get (cp_workers p)) (sort_key h (cp_matching p (dict_keys cs)))))"

text \<open>\<open>min(workers, key=n_tasks)\<close>: the first one of least load.\<close>

fun min_loaded :: "worker_holder \<Rightarrow> worker_holder list \<Rightarrow> worker_holder" where
  "min_loaded best [] = best"
| "min_loaded best (x # xs) = min_loaded (if wh_n_tasks x < wh_n_tasks best then x else best) xs"

definition cp_assign_task :: "set_order \<Rightarrow> Task \<Rightarrow> (WorkerID, cap_policy) comp" where
  "cp_assign_task h task p =
     (case cp_available_workers h p (task_capabilities task) of
        [] \<Rightarrow> Ret invalid_worker_id p
      | x # xs \<Rightarrow>
          let best = min_loaded x xs;
              th = \<lparr>th_id = taskId task, th_capabilities = dict_keys (task_capabilities task)\<rparr>;
              best' = best\<lparr>wh_tasks := dict_set (taskId task) th (wh_tasks best)\<rparr>
          in Ret (wh_id best)
               (p\<lparr>cp_workers := dict_set (wh_id best) best' (cp_workers p),
                  cp_task_worker := dict_set (taskId task) (wh_id best) (cp_task_worker p)\<rparr>))"

definition cp_remove_task :: "TaskID \<Rightarrow> (WorkerID, cap_policy) comp" where
  "cp_remove_task t p =
     (case dict_get (cp_task_worker p) t of
        None \<Rightarrow> Ret invalid_worker_id p
      | Some w \<Rightarrow>
          let p1 = p\<lparr>cp_task_worker := dict_pop t (cp_task_worker p)\<rparr>
          in (case dict_get (cp_workers p) w of
                None \<Rightarrow> Raise KeyError p1
              | Some x \<Rightarrow>
                  if \<not> dict_has (wh_tasks x) t then Raise KeyError p1
                  else Ret w (p1\<lparr>cp_workers := dict_set w (x\<lparr>wh_tasks := dict_pop t (wh_tasks x)\<rparr>) (cp_workers p)\<rparr>)))"

definition cp_has_available_worker :: "set_order \<Rightarrow> cap_policy \<Rightarrow> capabilities option \<Rightarrow> bool" where
  "cp_has_available_worker h p cs =
     (cp_available_workers h p (case cs of None \<Rightarrow> [] | Some c \<Rightarrow> c) \<noteq> [])"

definition cp_statistics :: "cap_policy \<Rightarrow> (WorkerID, int \<times> nat \<times> string list) dict" where
  "cp_statistics p = map (\<lambda>(_, x). (wh_id x, wh_n_free x, wh_n_tasks x, wh_capabilities x)) (cp_workers p)"

section \<open>Balancing\<close>

definition is_balanced :: "nat \<Rightarrow> nat \<Rightarrow> worker_holder \<Rightarrow> bool" where
  "is_balanced a k x = (\<bar>int (wh_n_tasks x * k) - int a\<bar> < int k)"

definition is_high_load :: "nat \<Rightarrow> nat \<Rightarrow> worker_holder \<Rightarrow> bool" where
  "is_high_load a k x = (int (wh_n_tasks x * k) - int a \<ge> int k)"

definition is_low_load :: "nat \<Rightarrow> nat \<Rightarrow> worker_holder \<Rightarrow> bool" where
  "is_low_load a k x = (wh_n_tasks x * k < a)"

text \<open>
  \<open>sortedcontainers.SortedList\<close> with a key is a list with an insertion position, chosen
  by the library from the keys present and the new key: the argument \<open>bisect\<close>.
\<close>

definition sorted_add :: "bisect \<Rightarrow> worker_holder \<Rightarrow> worker_holder list \<Rightarrow> worker_holder list" where
  "sorted_add bisect x xs =
     (let i = bisect (map wh_n_tasks xs) (wh_n_tasks x) in take i xs @ x # drop i xs)"

fun first_index :: "('a \<Rightarrow> bool) \<Rightarrow> 'a list \<Rightarrow> nat option" where
  "first_index P [] = None"
| "first_index P (x # xs) = (if P x then Some 0 else map_option Suc (first_index P xs))"

definition balance_try_reassign_task :: "task_holder \<Rightarrow> worker_holder list \<Rightarrow> nat option" where
  "balance_try_reassign_task task candidates =
     first_index (\<lambda>x. list_all (\<lambda>c. c \<in> set (wh_capabilities x)) (th_capabilities task)) candidates"

text \<open>The inner loop over the tasks of the most loaded worker, youngest first.\<close>

fun find_move :: "worker_holder list \<Rightarrow> task_holder list \<Rightarrow> TaskID list \<Rightarrow> (task_holder \<times> nat) option \<times> TaskID list" where
  "find_move candidates [] unbalanceable = (None, unbalanceable)"
| "find_move candidates (task # tasks) unbalanceable =
     (if th_id task \<in> set unbalanceable then find_move candidates tasks unbalanceable
      else (case balance_try_reassign_task task candidates of
              Some i \<Rightarrow> (Some (task, i), unbalanceable)
            | None \<Rightarrow> find_move candidates tasks (set_add (th_id task) unbalanceable)))"

definition move_out :: "task_holder \<Rightarrow> worker_holder \<Rightarrow> worker_holder" where
  "move_out task x = x\<lparr>wh_tasks := dict_pop (th_id task) (wh_tasks x)\<rparr>"

definition move_in :: "task_holder \<Rightarrow> worker_holder \<Rightarrow> worker_holder" where
  "move_in task x = x\<lparr>wh_tasks := dict_set (th_id task) task (wh_tasks x)\<rparr>"

definition readd :: "bisect \<Rightarrow> nat \<Rightarrow> nat \<Rightarrow> worker_holder \<Rightarrow> worker_holder list \<Rightarrow> worker_holder list" where
  "readd bisect a k x xs = (if is_balanced a k x then xs else sorted_add bisect x xs)"

definition advice_append :: "WorkerID \<Rightarrow> TaskID \<Rightarrow> balance_advice \<Rightarrow> balance_advice" where
  "advice_append w t advice =
     dict_set w ((case dict_get advice w of None \<Rightarrow> [] | Some ts \<Rightarrow> ts) @ [t]) advice"

text \<open>How far the loop is from its end: the load above the target, then the workers left.\<close>

definition excess :: "nat \<Rightarrow> nat \<Rightarrow> worker_holder \<Rightarrow> nat" where
  "excess a k x = wh_n_tasks x * k - a"

definition total_excess :: "nat \<Rightarrow> nat \<Rightarrow> worker_holder list \<Rightarrow> nat" where
  "total_excess a k ws = sum_list (map (excess a k) ws)"

lemma n_tasks_move_out: "dict_has (wh_tasks x) (th_id task) \<Longrightarrow> wh_n_tasks (move_out task x) < wh_n_tasks x"
  unfolding wh_n_tasks_def move_out_def dict_pop_def dict_has_def AList.delete_eq
  by (auto intro!: length_filter_less)

lemma n_tasks_move_in: "wh_n_tasks (move_in task x) \<le> Suc (wh_n_tasks x)"
proof -
  have "length (AList.update k v d) \<le> Suc (length d)" for k v and d :: "('k \<times> 'v) list"
    by (induction d) auto
  then show ?thesis by (simp add: wh_n_tasks_def move_in_def dict_set_def)
qed

lemma excess_move:
  assumes "is_high_load a k x" "is_low_load a k y" "dict_has (wh_tasks x) (th_id task)"
  shows "excess a k (move_out task x) + excess a k (move_in task y) < excess a k x + excess a k y"
proof -
  have h: "wh_n_tasks x * k \<ge> a + k" using assms(1) unfolding is_high_load_def by linarith
  have l: "wh_n_tasks y * k < a" using assms(2) by (simp add: is_low_load_def)
  have "Suc (wh_n_tasks (move_out task x)) * k \<le> wh_n_tasks x * k"
    using n_tasks_move_out [OF assms(3)] by (intro mult_le_mono1) simp
  moreover have "wh_n_tasks (move_in task y) * k \<le> Suc (wh_n_tasks y) * k"
    using n_tasks_move_in by (rule mult_le_mono1)
  moreover have "k > 0" using h l by (cases k) auto
  ultimately show ?thesis using h l unfolding excess_def by simp
qed

lemma total_excess_simps [simp]:
  "total_excess a k [] = 0" "total_excess a k (x # xs) = excess a k x + total_excess a k xs"
  "total_excess a k (xs @ ys) = total_excess a k xs + total_excess a k ys"
  by (simp_all add: total_excess_def)

lemma total_excess_readd: "total_excess a k (readd bisect a k x xs) \<le> excess a k x + total_excess a k xs"
proof -
  have "total_excess a k (take i xs) + total_excess a k (drop i xs) = total_excess a k xs" for i
    using total_excess_simps(3) [of a k "take i xs" "drop i xs"] by simp
  then show ?thesis by (simp add: readd_def sorted_add_def Let_def)
qed

text \<open>\<open>sorted_workers.pop(i)\<close>.\<close>

definition remove_at :: "nat \<Rightarrow> 'a list \<Rightarrow> 'a list" where
  "remove_at i xs = take i xs @ drop (Suc i) xs"

lemma total_excess_remove_at:
  "i < length xs \<Longrightarrow> total_excess a k (remove_at i xs) + excess a k (xs ! i) = total_excess a k xs"
  using arg_cong [OF id_take_nth_drop [of i xs], of "total_excess a k"] by (simp add: remove_at_def)

lemma first_index_Some: "first_index P xs = Some i \<Longrightarrow> i < length xs \<and> P (xs ! i)"
  by (induction xs arbitrary: i) (auto split: if_splits)

lemma find_move_Some:
  "find_move candidates tasks unb = (Some (task, i), unb') \<Longrightarrow>
    task \<in> set tasks \<and> i < length candidates \<and> set (th_capabilities task) \<subseteq> set (wh_capabilities (candidates ! i))"
proof (induction candidates tasks unb rule: find_move.induct)
  case (2 candidates tk tasks unb)
  then show ?case
    by (auto simp: balance_try_reassign_task_def list_all_iff subset_iff dest!: first_index_Some split: if_splits option.splits)
qed simp

lemma candidate_nth:
  assumes "i < length (takeWhile P xs)"
  shows "i < length xs" and "P (xs ! i)" and "takeWhile P xs ! i = xs ! i"
proof -
  show nth: "takeWhile P xs ! i = xs ! i" using assms by (rule takeWhile_nth)
  show "i < length xs" using assms length_takeWhile_le [of P xs] by linarith
  show "P (xs ! i)" using nth_mem [OF assms] nth set_takeWhileD by fastforce
qed

text \<open>
  The loop. A task that its worker does not list under its own id would make \<open>pop\<close> raise
  a \<open>KeyError\<close>.
\<close>

function cp_balance_loop ::
  "bisect \<Rightarrow> nat \<Rightarrow> nat \<Rightarrow> worker_holder list \<Rightarrow> balance_advice \<Rightarrow> TaskID list \<Rightarrow> py_exn + balance_advice" where
  "cp_balance_loop bisect a k ws advice unbalanceable =
     (if length ws < 2 then Inr advice
      else let donor = last ws; rest = butlast ws
           in if \<not> is_high_load a k donor then Inr advice
              else (case find_move (takeWhile (is_low_load a k) rest) (rev (map snd (wh_tasks donor))) unbalanceable of
                      (None, unb) \<Rightarrow> cp_balance_loop bisect a k rest advice unb
                    | (Some (task, i), unb) \<Rightarrow>
                        if \<not> dict_has (wh_tasks donor) (th_id task) then Inl KeyError
                        else cp_balance_loop bisect a k
                               (readd bisect a k (move_in task (rest ! i))
                                  (readd bisect a k (move_out task donor) (remove_at i rest)))
                               (advice_append (wh_id donor) (th_id task) advice) unb))"
  by pat_completeness auto

termination
proof (relation "measures [\<lambda>(b, a, k, ws, advice, unb). total_excess a k ws, \<lambda>(b, a, k, ws, advice, unb). length ws]",
    goal_cases)
  case 1
  then show ?case by simp
next
  case (2 b a k ws advice unb donor rest r unb')
  have "ws = rest @ [donor]" using 2(1,2,3) by (metis append_butlast_last_id list.size(3) not_less_iff_gr_or_eq zero_less_numeral)
  then show ?case by auto
next
  case (3 b a k ws advice unb donor rest r unb' m task i)
  have ws: "ws = rest @ [donor]"
    using 3(1,2,3) by (metis append_butlast_last_id list.size(3) not_less_iff_gr_or_eq zero_less_numeral)
  have "i < length (takeWhile (is_low_load a k) rest)"
    using 3 find_move_Some [of "takeWhile (is_low_load a k) rest" _ unb task i unb'] by simp
  note i = candidate_nth [OF this]
  let ?r1 = "readd b a k (move_out task donor) (remove_at i rest)"
  have "total_excess a k (readd b a k (move_in task (rest ! i)) ?r1)
      \<le> excess a k (move_in task (rest ! i)) + (excess a k (move_out task donor) + total_excess a k (remove_at i rest))"
    using total_excess_readd [of a k b "move_in task (rest ! i)" ?r1]
      total_excess_readd [of a k b "move_out task donor" "remove_at i rest"] by linarith
  also have "\<dots> < excess a k donor + excess a k (rest ! i) + total_excess a k (remove_at i rest)"
    using excess_move [of a k donor "rest ! i" task] i(2) 3 by simp
  also have "\<dots> = total_excess a k ws"
    using total_excess_remove_at [OF i(1), of a k] by (simp add: ws)
  finally show ?case by simp
qed

declare cp_balance_loop.simps [simp del]

definition cp_balance :: "bisect \<Rightarrow> cap_policy \<Rightarrow> py_exn + balance_advice" where
  "cp_balance bisect p =
     (let holders = map snd (cp_workers p)
      in if \<not> list_ex (\<lambda>x. wh_n_tasks x = 0) holders then Inr []
         else let n = sum_list (map wh_n_tasks holders);
                  k = length (cp_workers p);
                  a = max n k;
                  workers = filter (\<lambda>x. \<not> is_balanced a k x) holders
              in cp_balance_loop bisect a k (foldl (\<lambda>xs x. sorted_add bisect x xs) [] workers) [] [])"

section \<open>The invariant\<close>

definition cp_holder :: "cap_policy \<Rightarrow> TaskID \<Rightarrow> WorkerID option" where
  "cp_holder p t = dict_get (cp_task_worker p) t"

definition cp_members :: "cap_policy \<Rightarrow> WorkerID set" where
  "cp_members p = {w. dict_has (cp_workers p) w}"

definition cp_index :: "(string, WorkerID list) dict \<Rightarrow> string \<Rightarrow> WorkerID set" where
  "cp_index index c = set (case dict_get index c of None \<Rightarrow> [] | Some ws \<Rightarrow> ws)"

text \<open>
  A worker's own record: keyed by its id, its tasks keyed by theirs, only tasks it is
  capable of, and no more of them than it has slots.
\<close>

definition holder_ok :: "WorkerID \<Rightarrow> worker_holder \<Rightarrow> bool" where
  "holder_ok w x \<longleftrightarrow> wh_id x = w \<and> worker_is_valid w \<and> distinct (wh_capabilities x) \<and> dict_ok (wh_tasks x) \<and>
     (\<forall>t th. dict_get (wh_tasks x) t = Some th \<longrightarrow>
        th_id th = t \<and> set (th_capabilities th) \<subseteq> set (wh_capabilities x)) \<and>
     int (wh_n_tasks x) \<le> max 0 (wh_queue_size x)"

definition cp_inv :: "cap_policy \<Rightarrow> bool" where
  "cp_inv p \<longleftrightarrow>
     dict_ok (cp_workers p) \<and>
     (\<forall>w x. dict_get (cp_workers p) w = Some x \<longrightarrow> holder_ok w x) \<and>
     (\<forall>t w. dict_get (cp_task_worker p) t = Some w \<longleftrightarrow>
        (\<exists>x. dict_get (cp_workers p) w = Some x \<and> dict_has (wh_tasks x) t)) \<and>
     (\<forall>c w. w \<in> cp_index (cp_capability_workers p) c \<longleftrightarrow>
        (\<exists>x. dict_get (cp_workers p) w = Some x \<and> c \<in> set (wh_capabilities x))) \<and>
     (\<forall>c. dict_get (cp_capability_workers p) c \<noteq> Some [])"

lemma cp_init_inv: "cp_inv cp_init" "cp_holder cp_init t = None" "cp_members cp_init = {}"
  by (simp_all add: cp_inv_def cp_init_def cp_holder_def cp_members_def cp_index_def)

lemma cp_invD:
  assumes "cp_inv p"
  shows "dict_ok (cp_workers p)"
    and "dict_get (cp_workers p) w = Some x \<Longrightarrow> holder_ok w x"
    and "cp_holder p t = Some w \<longleftrightarrow> (\<exists>x. dict_get (cp_workers p) w = Some x \<and> dict_has (wh_tasks x) t)"
    and "w \<in> cp_index (cp_capability_workers p) c \<longleftrightarrow>
      (\<exists>x. dict_get (cp_workers p) w = Some x \<and> c \<in> set (wh_capabilities x))"
    and "dict_get (cp_capability_workers p) c \<noteq> Some []"
  using assms unfolding cp_inv_def cp_holder_def by blast+

lemma holder_okD:
  assumes "holder_ok w x"
  shows "wh_id x = w" "worker_is_valid w" "distinct (wh_capabilities x)" "dict_ok (wh_tasks x)"
    "dict_get (wh_tasks x) t = Some th \<Longrightarrow> th_id th = t \<and> set (th_capabilities th) \<subseteq> set (wh_capabilities x)"
    "int (wh_n_tasks x) \<le> max 0 (wh_queue_size x)"
  using assms unfolding holder_ok_def by blast+

lemma cp_index_add:
  "cp_index (cp_index_add w c index) c' = (if c' = c then insert w (cp_index index c) else cp_index index c')"
  by (auto simp: cp_index_def cp_index_add_def Let_def dict_has_iff split: option.splits if_splits)

lemma cp_index_add_nonempty:
  "dict_get index c' \<noteq> Some [] \<Longrightarrow> dict_get (cp_index_add w c index) c' \<noteq> Some []"
  by (auto simp: cp_index_add_def Let_def dict_has_iff set_add_def split: option.splits if_splits)

lemma cp_index_fold:
  "cp_index (fold (cp_index_add w) cs index) c = (if c \<in> set cs then insert w (cp_index index c) else cp_index index c)"
  by (induction cs arbitrary: index) (auto simp: cp_index_add)

lemma cp_index_fold_nonempty:
  "dict_get index c \<noteq> Some [] \<Longrightarrow> dict_get (fold (cp_index_add w) cs index) c \<noteq> Some []"
  by (induction cs arbitrary: index) (auto simp: cp_index_add_nonempty)

lemma cp_add_worker_spec:
  assumes inv: "cp_inv p" and w: "worker_is_valid w"
  shows "\<exists>p'. cp_add_worker w cs n p = Ret (w \<notin> cp_members p) p' \<and> cp_inv p' \<and> cp_holder p' = cp_holder p \<and>
    cp_members p' = insert w (cp_members p)"
proof (cases "w \<in> cp_members p")
  case True
  then have "cp_add_worker w cs n p = Ret False p" by (simp add: cp_add_worker_def cp_members_def)
  with True inv show ?thesis by (auto simp: insert_absorb)
next
  case False
  let ?x = "\<lparr>wh_id = w, wh_capabilities = remdups (dict_keys cs), wh_queue_size = n, wh_tasks = []\<rparr>"
  let ?i = "fold (cp_index_add w) (wh_capabilities ?x) (cp_capability_workers p)"
  let ?p' = "p\<lparr>cp_workers := dict_set w ?x (cp_workers p), cp_capability_workers := ?i\<rparr>"
  have none: "dict_get (cp_workers p) w = None" using False by (simp add: cp_members_def dict_has_iff)
  have x: "holder_ok w ?x" using w by (simp add: holder_ok_def wh_n_tasks_def)
  have "v \<in> cp_index ?i c \<longleftrightarrow> (\<exists>x. dict_get (cp_workers ?p') v = Some x \<and> c \<in> set (wh_capabilities x))" for v c
    using cp_invD(4) [OF inv, of v c] none by (auto simp: cp_index_fold)
  moreover have "cp_holder p t = Some v \<longleftrightarrow>
      (\<exists>x. dict_get (cp_workers ?p') v = Some x \<and> dict_has (wh_tasks x) t)" for t v
    using cp_invD(3) [OF inv, of t v] none by auto
  moreover have "holder_ok v y" if "dict_get (cp_workers ?p') v = Some y" for v y
    using that x cp_invD(2) [OF inv, of v y] by (auto split: if_splits)
  moreover have "dict_get ?i c \<noteq> Some []" for c
    by (rule cp_index_fold_nonempty) (rule cp_invD(5) [OF inv])
  ultimately have "cp_inv ?p'"
    unfolding cp_inv_def cp_holder_def using cp_invD(1) [OF inv] by simp
  moreover have "cp_add_worker w cs n p = Ret (w \<notin> cp_members p) ?p'"
    using False by (simp add: cp_add_worker_def cp_members_def Let_def)
  ultimately show ?thesis by (auto simp: cp_holder_def cp_members_def fun_eq_iff)
qed

lemma cp_discard_all:
  "distinct cs \<Longrightarrow> (\<And>c. c \<in> set cs \<Longrightarrow> w \<in> cp_index (cp_capability_workers p) c) \<Longrightarrow>
    (\<And>c. dict_get (cp_capability_workers p) c \<noteq> Some []) \<Longrightarrow>
    \<exists>p'. for_each cs (cp_index_discard w) p = Ret () p' \<and> cp_workers p' = cp_workers p \<and>
      cp_task_worker p' = cp_task_worker p \<and> (\<forall>c. dict_get (cp_capability_workers p') c \<noteq> Some []) \<and>
      (\<forall>c. cp_index (cp_capability_workers p') c =
        (if c \<in> set cs then cp_index (cp_capability_workers p) c - {w} else cp_index (cp_capability_workers p) c))"
proof (induction cs arbitrary: p)
  case Nil
  then show ?case by auto
next
  case (Cons c cs)
  obtain ws where ws: "dict_get (cp_capability_workers p) c = Some ws"
    using Cons.prems(2) [of c] by (cases "dict_get (cp_capability_workers p) c") (auto simp: cp_index_def)
  define i where "i = (if removeAll w ws = [] then dict_pop c (cp_capability_workers p)
      else dict_set c (removeAll w ws) (cp_capability_workers p))"
  let ?p1 = "p\<lparr>cp_capability_workers := i\<rparr>"
  have step: "cp_index_discard w c p = Ret () ?p1" using ws by (simp add: cp_index_discard_def Let_def i_def)
  have i1: "cp_index i c' = (if c' = c then cp_index (cp_capability_workers p) c - {w}
      else cp_index (cp_capability_workers p) c')" for c'
  proof -
    have "removeAll w ws = [] \<longleftrightarrow> set ws \<subseteq> {w}" by (metis set_removeAll set_empty Diff_eq_empty_iff)
    then show ?thesis using ws by (auto simp: cp_index_def i_def)
  qed
  have "w \<in> cp_index (cp_capability_workers ?p1) c'" if "c' \<in> set cs" for c'
    using that Cons.prems(1) Cons.prems(2) [of c'] i1 [of c'] by auto
  moreover have "dict_get (cp_capability_workers ?p1) c' \<noteq> Some []" for c'
    using Cons.prems(3) [of c'] by (auto simp: i_def)
  ultimately obtain p' where "for_each cs (cp_index_discard w) ?p1 = Ret () p'" "cp_workers p' = cp_workers ?p1"
      "cp_task_worker p' = cp_task_worker ?p1" "\<forall>c. dict_get (cp_capability_workers p') c \<noteq> Some []"
      "\<forall>c. cp_index (cp_capability_workers p') c =
        (if c \<in> set cs then cp_index (cp_capability_workers ?p1) c - {w} else cp_index (cp_capability_workers ?p1) c)"
    using Cons.IH [of ?p1] Cons.prems(1) by auto
  with step i1 show ?case using Cons.prems(1) by auto
qed

lemma cp_pop_tasks:
  "distinct ts \<Longrightarrow> (\<And>t. t \<in> set ts \<Longrightarrow> cp_holder p t \<noteq> None) \<Longrightarrow>
    \<exists>p'. for_each ts cp_pop_task p = Ret () p' \<and> cp_workers p' = cp_workers p \<and>
      cp_capability_workers p' = cp_capability_workers p \<and>
      cp_holder p' = (\<lambda>t. if t \<in> set ts then None else cp_holder p t)"
proof (induction ts arbitrary: p)
  case Nil
  then show ?case by (auto intro: exI [of _ p])
next
  case (Cons t ts)
  let ?p1 = "p\<lparr>cp_task_worker := dict_pop t (cp_task_worker p)\<rparr>"
  obtain w where "dict_get (cp_task_worker p) t = Some w"
    using Cons.prems(2) [of t] by (auto simp: cp_holder_def)
  then have step: "cp_pop_task t p = Ret () ?p1" by (simp add: cp_pop_task_def)
  have h1: "cp_holder ?p1 u = (if u = t then None else cp_holder p u)" for u by (simp add: cp_holder_def)
  have "\<And>u. u \<in> set ts \<Longrightarrow> cp_holder ?p1 u \<noteq> None"
    using Cons.prems by (auto simp: h1)
  from Cons.IH [OF _ this] Cons.prems(1) obtain p' where "for_each ts cp_pop_task ?p1 = Ret () p'"
    "cp_workers p' = cp_workers p" "cp_capability_workers p' = cp_capability_workers p"
    "cp_holder p' = (\<lambda>u. if u \<in> set ts then None else cp_holder ?p1 u)"
    by auto
  with step show ?case by (auto simp: h1 fun_eq_iff)
qed

lemma cp_remove_worker_spec:
  assumes inv: "cp_inv p"
  shows "\<exists>ts p'. cp_remove_worker w p = Ret ts p' \<and> cp_inv p' \<and> distinct ts \<and> set ts = {t. cp_holder p t = Some w} \<and>
    cp_holder p' = (\<lambda>t. if cp_holder p t = Some w then None else cp_holder p t) \<and>
    cp_members p' = cp_members p - {w}"
proof (cases "dict_get (cp_workers p) w")
  case None
  then have "cp_holder p t \<noteq> Some w" for t using cp_invD(3) [OF inv, of t w] by simp
  moreover have "w \<notin> cp_members p" using None by (simp add: cp_members_def dict_has_iff)
  ultimately show ?thesis using None inv by (simp add: cp_remove_worker_def)
next
  case (Some x)
  note ok = holder_okD [OF cp_invD(2) [OF inv Some]]
  let ?ts = "dict_keys (wh_tasks x)"
  let ?p0 = "p\<lparr>cp_workers := dict_pop w (cp_workers p)\<rparr>"
  have ts: "set ?ts = {t. cp_holder p t = Some w}" "distinct ?ts"
    using cp_invD(3) [OF inv, of _ w] Some ok(4) by (auto simp: set_dict_keys)
  obtain p1 where p1: "for_each (wh_capabilities x) (cp_index_discard w) ?p0 = Ret () p1" "cp_workers p1 = cp_workers ?p0"
      "cp_task_worker p1 = cp_task_worker ?p0" "\<forall>c. dict_get (cp_capability_workers p1) c \<noteq> Some []"
      "\<forall>c. cp_index (cp_capability_workers p1) c = (if c \<in> set (wh_capabilities x)
        then cp_index (cp_capability_workers p) c - {w} else cp_index (cp_capability_workers p) c)"
    using cp_discard_all [OF ok(3), of w ?p0] cp_invD(4) [OF inv, of w] cp_invD(5) [OF inv] Some by auto
  have h1: "cp_holder p1 = cp_holder p" by (simp add: cp_holder_def p1(3) fun_eq_iff)
  then obtain p' where p': "for_each ?ts cp_pop_task p1 = Ret () p'" "cp_workers p' = cp_workers p1"
      "cp_capability_workers p' = cp_capability_workers p1"
      "cp_holder p' = (\<lambda>t. if t \<in> set ?ts then None else cp_holder p t)"
    using cp_pop_tasks [OF ts(2), of p1] ts(1) by fastforce
  have hold: "cp_holder p' t = Some v \<longleftrightarrow> (\<exists>y. dict_get (cp_workers p') v = Some y \<and> dict_has (wh_tasks y) t)" for t v
    using cp_invD(3) [OF inv, of t v] unfolding p'(2,4) p1(2) ts(1) by auto
  have index: "v \<in> cp_index (cp_capability_workers p') c \<longleftrightarrow>
      (\<exists>y. dict_get (cp_workers p') v = Some y \<and> c \<in> set (wh_capabilities y))" for v c
    using cp_invD(4) [OF inv, of v c] Some p1(5) unfolding p'(2,3) p1(2) by auto
  have "cp_inv p'"
    unfolding cp_inv_def cp_holder_def [symmetric]
    using hold index p1(4) cp_invD(1,2) [OF inv] by (auto simp: p'(2,3) p1(2) split: if_splits)
  moreover have "cp_remove_worker w p = Ret ?ts p'"
    using Some p1(1) p'(1) by (simp add: cp_remove_worker_def Let_def)
  moreover have "cp_members p' = cp_members p - {w}" by (auto simp: cp_members_def p'(2) p1(2))
  moreover have "cp_holder p' = (\<lambda>t. if cp_holder p t = Some w then None else cp_holder p t)"
    unfolding p'(4) ts(1) by auto
  ultimately show ?thesis using ts by blast
qed

section \<open>Assignment goes to a least loaded capable worker\<close>

lemma set_cp_matching:
  "set (cp_matching p names) = {w. dict_has (cp_workers p) w \<and> (\<forall>c \<in> set names. w \<in> cp_index (cp_capability_workers p) c)}"
proof -
  have "set (foldl (\<lambda>ws c. filter (\<lambda>w. w \<in> set (case dict_get (cp_capability_workers p) c of None \<Rightarrow> [] | Some vs \<Rightarrow> vs)) ws) ws0 names)
      = {w \<in> set ws0. \<forall>c \<in> set names. w \<in> cp_index (cp_capability_workers p) c}" for ws0
    by (induction names arbitrary: ws0) (auto simp: cp_index_def)
  then show ?thesis by (simp add: cp_matching_def set_dict_keys)
qed

definition capable :: "worker_holder \<Rightarrow> capabilities \<Rightarrow> bool" where
  "capable x cs = (set (dict_keys cs) \<subseteq> set (wh_capabilities x))"

lemma set_cp_available:
  assumes inv: "cp_inv p"
  shows "set (cp_available_workers h p cs) = {x. (\<exists>w. dict_get (cp_workers p) w = Some x) \<and> capable x cs \<and> wh_n_free x > 0}"
proof (cases "list_ex (\<lambda>c. \<not> dict_has (cp_capability_workers p) c) (dict_keys cs)")
  case True
  then obtain c where "c \<in> set (dict_keys cs)" "\<not> dict_has (cp_capability_workers p) c" by (auto simp: list_ex_iff)
  then have "cp_index (cp_capability_workers p) c = {}" by (simp add: cp_index_def dict_has_iff)
  then have "\<not> capable x cs" if "dict_get (cp_workers p) w = Some x" for w x
    using cp_invD(4) [OF inv, of w c] that \<open>c \<in> set (dict_keys cs)\<close> by (auto simp: capable_def)
  with True show ?thesis by (auto simp: cp_available_workers_def)
next
  case False
  have cap: "(\<forall>c \<in> set (dict_keys cs). w \<in> cp_index (cp_capability_workers p) c) \<longleftrightarrow> capable x cs"
    if "dict_get (cp_workers p) w = Some x" for w x
    using cp_invD(4) [OF inv, of w] that by (auto simp: capable_def)
  have "set (List.map_filter (dict_get (cp_workers p)) (sort_key h (cp_matching p (dict_keys cs)))) =
      {x. (\<exists>w. dict_get (cp_workers p) w = Some x) \<and> capable x cs}"
  proof (rule set_eqI)
    fix x
    have "x \<in> set (List.map_filter (dict_get (cp_workers p)) (sort_key h (cp_matching p (dict_keys cs)))) \<longleftrightarrow>
        (\<exists>w. w \<in> set (cp_matching p (dict_keys cs)) \<and> dict_get (cp_workers p) w = Some x)"
      by (force simp: List.map_filter_def)
    also have "\<dots> \<longleftrightarrow> (\<exists>w. dict_get (cp_workers p) w = Some x) \<and> capable x cs"
      unfolding set_cp_matching mem_Collect_eq using cap dict_hasI by fastforce
    finally show "x \<in> set (List.map_filter (dict_get (cp_workers p)) (sort_key h (cp_matching p (dict_keys cs)))) \<longleftrightarrow>
        x \<in> {x. (\<exists>w. dict_get (cp_workers p) w = Some x) \<and> capable x cs}" by simp
  qed
  with False show ?thesis by (auto simp: cp_available_workers_def)
qed

lemma min_loaded_least:
  "min_loaded x xs \<in> set (x # xs) \<and> (\<forall>y \<in> set (x # xs). wh_n_tasks (min_loaded x xs) \<le> wh_n_tasks y)"
proof (induction xs arbitrary: x)
  case (Cons y ys)
  show ?case using Cons [of "if wh_n_tasks y < wh_n_tasks x then y else x"] by fastforce
qed simp

text \<open>The state after task \<open>th\<close> has been put on worker \<open>x\<close>.\<close>

definition cp_assigned :: "task_holder \<Rightarrow> worker_holder \<Rightarrow> cap_policy \<Rightarrow> cap_policy" where
  "cp_assigned th x p = p\<lparr>cp_workers := dict_set (wh_id x) (x\<lparr>wh_tasks := dict_set (th_id th) th (wh_tasks x)\<rparr>) (cp_workers p),
     cp_task_worker := dict_set (th_id th) (wh_id x) (cp_task_worker p)\<rparr>"

lemma cp_assigned_inv:
  assumes inv: "cp_inv p" and x: "dict_get (cp_workers p) (wh_id x) = Some x" and free: "wh_n_free x > 0"
    and cap: "set (th_capabilities th) \<subseteq> set (wh_capabilities x)" and new: "cp_holder p (th_id th) = None"
  shows "cp_inv (cp_assigned th x p)" and "cp_holder (cp_assigned th x p) = (cp_holder p)(th_id th \<mapsto> wh_id x)"
    and "cp_members (cp_assigned th x p) = cp_members p"
proof -
  let ?p' = "cp_assigned th x p" and ?t = "th_id th" and ?w = "wh_id x"
  let ?x' = "x\<lparr>wh_tasks := dict_set ?t th (wh_tasks x)\<rparr>"
  have ws: "dict_get (cp_workers ?p') v = (if v = ?w then Some ?x' else dict_get (cp_workers p) v)" for v
    by (simp add: cp_assigned_def)
  show h: "cp_holder ?p' = (cp_holder p)(?t \<mapsto> ?w)" by (auto simp: cp_holder_def cp_assigned_def)
  show "cp_members ?p' = cp_members p" using x by (auto simp: cp_members_def cp_assigned_def dict_has_iff)
  note ok = cp_invD(2) [OF inv x]
  have "\<not> dict_has (wh_tasks x) ?t" using new cp_invD(3) [OF inv, of ?t ?w] x by auto
  then have "wh_n_tasks ?x' = Suc (wh_n_tasks x)" by (simp add: wh_n_tasks_def dict_set_absent)
  then have ok': "holder_ok ?w ?x'"
    using ok cap free unfolding holder_ok_def by (auto simp: wh_n_free_def split: if_splits)
  have hold: "cp_holder ?p' u = Some v \<longleftrightarrow> (\<exists>y. dict_get (cp_workers ?p') v = Some y \<and> dict_has (wh_tasks y) u)" for u v
    using cp_invD(3) [OF inv, of u v] cp_invD(3) [OF inv, of u ?w] x new unfolding h ws by (auto split: if_splits)
  have index: "v \<in> cp_index (cp_capability_workers ?p') c \<longleftrightarrow>
      (\<exists>y. dict_get (cp_workers ?p') v = Some y \<and> c \<in> set (wh_capabilities y))" for v c
    using cp_invD(4) [OF inv, of v c] x unfolding ws by (auto simp: cp_assigned_def)
  have "holder_ok v y" if "dict_get (cp_workers ?p') v = Some y" for v y
    using that ok' cp_invD(2) [OF inv, of v y] unfolding ws by (auto split: if_splits)
  moreover have "dict_ok (cp_workers ?p')" "\<forall>c. dict_get (cp_capability_workers ?p') c \<noteq> Some []"
    using cp_invD(1,5) [OF inv] by (simp_all add: cp_assigned_def)
  ultimately show "cp_inv ?p'"
    unfolding cp_inv_def cp_holder_def [symmetric] using hold index by blast
qed

lemma cp_assign_cases:
  assumes inv: "cp_inv p" and new: "cp_holder p (taskId task) = None"
  obtains (refused) "cp_assign_task h task p = Ret invalid_worker_id p"
      "\<And>w x. dict_get (cp_workers p) w = Some x \<Longrightarrow> capable x (task_capabilities task) \<Longrightarrow> wh_n_free x \<le> 0"
  | (assigned) w x p' where "cp_assign_task h task p = Ret w p'" "worker_is_valid w"
      "dict_get (cp_workers p) w = Some x" "capable x (task_capabilities task)" "wh_n_free x > 0"
      "\<And>v y. dict_get (cp_workers p) v = Some y \<Longrightarrow> capable y (task_capabilities task) \<Longrightarrow> wh_n_free y > 0 \<Longrightarrow>
        wh_n_tasks x \<le> wh_n_tasks y"
      "cp_inv p'" "cp_holder p' = (cp_holder p)(taskId task \<mapsto> w)" "cp_members p' = cp_members p"
proof (cases "cp_available_workers h p (task_capabilities task)")
  case Nil
  then have "set (cp_available_workers h p (task_capabilities task)) = {}" by simp
  then show thesis
    using Nil unfolding set_cp_available [OF inv] by (intro refused) (auto simp: cp_assign_task_def not_less)
next
  case (Cons x0 xs)
  let ?x = "min_loaded x0 xs"
  let ?th = "\<lparr>th_id = taskId task, th_capabilities = dict_keys (task_capabilities task)\<rparr>"
  have mem: "y \<in> set (x0 # xs) \<longleftrightarrow> (\<exists>w. dict_get (cp_workers p) w = Some y) \<and>
      capable y (task_capabilities task) \<and> wh_n_free y > 0" for y
    using set_cp_available [OF inv, of h "task_capabilities task"] unfolding Cons by blast
  obtain w where w: "dict_get (cp_workers p) w = Some ?x" "capable ?x (task_capabilities task)" "wh_n_free ?x > 0"
    using min_loaded_least [of x0 xs] mem [of ?x] by blast
  note ok = holder_okD [OF cp_invD(2) [OF inv w(1)]]
  have run: "cp_assign_task h task p = Ret w (cp_assigned ?th ?x p)"
    by (simp add: cp_assign_task_def Cons Let_def cp_assigned_def ok(1))
  have least: "wh_n_tasks ?x \<le> wh_n_tasks y"
    if "dict_get (cp_workers p) v = Some y" "capable y (task_capabilities task)" "wh_n_free y > 0" for v y
    using min_loaded_least [of x0 xs] mem [of y] that by blast
  have "cp_inv (cp_assigned ?th ?x p)" "cp_holder (cp_assigned ?th ?x p) = (cp_holder p)(taskId task \<mapsto> w)"
    "cp_members (cp_assigned ?th ?x p) = cp_members p"
    using cp_assigned_inv [OF inv, of ?x ?th] w ok(1) new by (auto simp: capable_def)
  from assigned [OF run ok(2) w least this] show thesis .
qed

lemma cp_remove_task_spec:
  assumes inv: "cp_inv p"
  shows "\<exists>p'. cp_remove_task t p = Ret (case cp_holder p t of None \<Rightarrow> invalid_worker_id | Some w \<Rightarrow> w) p' \<and>
    cp_inv p' \<and> cp_holder p' = (cp_holder p)(t := None) \<and> cp_members p' = cp_members p"
proof (cases "cp_holder p t")
  case None
  then show ?thesis using inv by (auto simp: cp_remove_task_def cp_holder_def)
next
  case (Some w)
  then obtain x where x: "dict_get (cp_workers p) w = Some x" "dict_has (wh_tasks x) t"
    using cp_invD(3) [OF inv] by blast
  let ?x' = "x\<lparr>wh_tasks := dict_pop t (wh_tasks x)\<rparr>"
  let ?p' = "p\<lparr>cp_task_worker := dict_pop t (cp_task_worker p), cp_workers := dict_set w ?x' (cp_workers p)\<rparr>"
  have run: "cp_remove_task t p = Ret w ?p'" using Some x by (simp add: cp_remove_task_def cp_holder_def Let_def)
  have ws: "dict_get (cp_workers ?p') v = (if v = w then Some ?x' else dict_get (cp_workers p) v)" for v by simp
  have h: "cp_holder ?p' = (cp_holder p)(t := None)" by (auto simp: cp_holder_def)
  have "wh_n_tasks ?x' \<le> wh_n_tasks x"
    by (simp add: wh_n_tasks_def dict_pop_def AList.delete_eq)
  then have ok': "holder_ok w ?x'"
    using cp_invD(2) [OF inv x(1)] unfolding holder_ok_def by (auto split: if_splits)
  have hold: "cp_holder ?p' u = Some v \<longleftrightarrow> (\<exists>y. dict_get (cp_workers ?p') v = Some y \<and> dict_has (wh_tasks y) u)" for u v
    using cp_invD(3) [OF inv, of u v] Some x unfolding h ws by auto
  have index: "v \<in> cp_index (cp_capability_workers ?p') c \<longleftrightarrow>
      (\<exists>y. dict_get (cp_workers ?p') v = Some y \<and> c \<in> set (wh_capabilities y))" for v c
    using cp_invD(4) [OF inv, of v c] x(1) unfolding ws by auto
  have "holder_ok v y" if "dict_get (cp_workers ?p') v = Some y" for v y
    using that ok' cp_invD(2) [OF inv, of v y] unfolding ws by (auto split: if_splits)
  moreover have "dict_ok (cp_workers ?p')" "\<forall>c. dict_get (cp_capability_workers ?p') c \<noteq> Some []"
    using cp_invD(1,5) [OF inv] by simp_all
  ultimately have "cp_inv ?p'"
    unfolding cp_inv_def cp_holder_def [symmetric] using hold index by blast
  moreover have "cp_members ?p' = cp_members p" using x(1) by (auto simp: cp_members_def dict_has_iff)
  ultimately show ?thesis using run h Some by auto
qed

section \<open>Balancing only sheds what is above the target\<close>

definition advised :: "balance_advice \<Rightarrow> WorkerID \<Rightarrow> TaskID list" where
  "advised advice w = (case dict_get advice w of None \<Rightarrow> [] | Some ts \<Rightarrow> ts)"

lemma advised_append:
  "advised (advice_append w t advice) v = (if v = w then advised advice w @ [t] else advised advice v)"
  by (simp add: advised_def advice_append_def)

text \<open>
  The advice against the loads before balancing: the tasks are distinct tasks of the worker,
  and the worker keeps at least the target \<open>a / k\<close>.
\<close>

definition advice_ok :: "(WorkerID, worker_holder) dict \<Rightarrow> nat \<Rightarrow> nat \<Rightarrow> balance_advice \<Rightarrow> bool" where
  "advice_ok ws0 a k advice \<longleftrightarrow> dict_ok advice \<and>
     (\<forall>w ts. dict_get advice w = Some ts \<longrightarrow> distinct ts \<and>
        (\<exists>x0. dict_get ws0 w = Some x0 \<and> set ts \<subseteq> set (dict_keys (wh_tasks x0)) \<and>
           a + length ts * k \<le> wh_n_tasks x0 * k))"

text \<open>A worker of the work list that may still give tasks away.\<close>

definition donor_ok :: "(WorkerID, worker_holder) dict \<Rightarrow> balance_advice \<Rightarrow> worker_holder \<Rightarrow> bool" where
  "donor_ok ws0 advice x \<longleftrightarrow>
     (\<exists>x0. dict_get ws0 (wh_id x) = Some x0 \<and> wh_n_tasks x + length (advised advice (wh_id x)) \<le> wh_n_tasks x0 \<and>
        set (dict_keys (wh_tasks x)) \<subseteq> set (dict_keys (wh_tasks x0))) \<and>
     (\<forall>(t, th) \<in> set (wh_tasks x). th_id th = t \<and> t \<notin> set (advised advice (wh_id x)))"

definition loop_ok :: "(WorkerID, worker_holder) dict \<Rightarrow> nat \<Rightarrow> nat \<Rightarrow> worker_holder list \<Rightarrow> balance_advice \<Rightarrow> bool" where
  "loop_ok ws0 a k ws advice \<longleftrightarrow> distinct (map wh_id ws) \<and> advice_ok ws0 a k advice \<and>
     (\<forall>x \<in> set ws. is_high_load a k x \<longrightarrow> donor_ok ws0 advice x)"

lemma donor_ok_has:
  assumes "donor_ok ws0 advice x" and "task \<in> set (map snd (wh_tasks x))"
  shows "dict_has (wh_tasks x) (th_id task)"
proof -
  obtain t where t: "(t, task) \<in> set (wh_tasks x)" using assms(2) by fastforce
  then have "th_id task = t" using assms(1) unfolding donor_ok_def by blast
  then show ?thesis using t by (force simp: dict_has_def)
qed

lemma donor_ok_move_out:
  assumes d: "donor_ok ws0 advice x" and has: "dict_has (wh_tasks x) (th_id task)"
  shows "donor_ok ws0 (advice_append (wh_id x) (th_id task) advice) (move_out task x)"
proof -
  have set: "set (wh_tasks (move_out task x)) = {(t, th) \<in> set (wh_tasks x). t \<noteq> th_id task}"
    by (auto simp: move_out_def dict_pop_def AList.delete_eq)
  have keys: "set (dict_keys (wh_tasks (move_out task x))) \<subseteq> set (dict_keys (wh_tasks x))"
    unfolding dict_keys_def set_map set by auto
  have "wh_id (move_out task x) = wh_id x" by (simp add: move_out_def)
  with d n_tasks_move_out [OF has] keys show ?thesis
    unfolding donor_ok_def set by (fastforce simp: advised_append)
qed

lemma move_in_not_high: "is_low_load a k x \<Longrightarrow> \<not> is_high_load a k (move_in task x)"
proof -
  assume "is_low_load a k x"
  then have "wh_n_tasks x * k < a" by (simp add: is_low_load_def)
  moreover have "wh_n_tasks (move_in task x) * k \<le> wh_n_tasks x * k + k"
    using mult_le_mono1 [OF n_tasks_move_in [of task x], of k] by simp
  ultimately show ?thesis by (simp add: is_high_load_def del: of_nat_mult)
qed

lemma advice_ok_append:
  assumes ok: "advice_ok ws0 a k advice" and d: "donor_ok ws0 advice x" and h: "is_high_load a k x"
    and has: "dict_has (wh_tasks x) (th_id task)"
  shows "advice_ok ws0 a k (advice_append (wh_id x) (th_id task) advice)"
proof -
  let ?w = "wh_id x" and ?t = "th_id task"
  obtain x0 where x0: "dict_get ws0 ?w = Some x0" "wh_n_tasks x + length (advised advice ?w) \<le> wh_n_tasks x0"
      "set (dict_keys (wh_tasks x)) \<subseteq> set (dict_keys (wh_tasks x0))"
    using d by (auto simp: donor_ok_def)
  have new: "?t \<notin> set (advised advice ?w)" and orig: "?t \<in> set (dict_keys (wh_tasks x0))"
    using d has x0(3) by (auto simp: donor_ok_def dict_has_def set_dict_keys)
  have old: "distinct (advised advice ?w)" "set (advised advice ?w) \<subseteq> set (dict_keys (wh_tasks x0))"
    using ok x0(1) by (cases "dict_get advice (wh_id x)"; force simp: advice_ok_def advised_def)+
  have "(wh_n_tasks x + length (advised advice ?w)) * k \<le> wh_n_tasks x0 * k"
    using x0(2) by (rule mult_le_mono1)
  moreover have "a + k \<le> wh_n_tasks x * k" using h unfolding is_high_load_def by linarith
  ultimately have "a + length (advised advice ?w @ [?t]) * k \<le> wh_n_tasks x0 * k"
    by (simp add: algebra_simps)
  then show ?thesis
    using ok x0(1) new orig old unfolding advice_ok_def advice_append_def advised_def
    by (auto simp del: length_append)
qed

lemma set_readd: "set (readd bisect a k x xs) \<subseteq> insert x (set xs)"
  by (auto simp: readd_def sorted_add_def Let_def dest: in_set_takeD in_set_dropD)

lemma distinct_mid: "distinct (ys @ z # zs) \<longleftrightarrow> z \<notin> set (ys @ zs) \<and> distinct (ys @ zs)"
  by auto

lemma distinct_insert_at:
  "distinct (map f (take i xs @ x # drop i xs)) \<longleftrightarrow> f x \<notin> f ` set xs \<and> distinct (map f xs)"
proof -
  have "map f (take i xs) @ map f (drop i xs) = map f xs" by (metis map_append append_take_drop_id)
  with distinct_mid [of "map f (take i xs)" "f x" "map f (drop i xs)"] show ?thesis by simp
qed

lemma distinct_readd:
  "wh_id x \<notin> wh_id ` set xs \<Longrightarrow> distinct (map wh_id xs) \<Longrightarrow> distinct (map wh_id (readd bisect a k x xs))"
  unfolding readd_def sorted_add_def Let_def by (simp add: distinct_insert_at del: map_append)

lemma remove_at_ids:
  assumes "i < length xs" and "distinct (map wh_id xs)"
  shows "distinct (map wh_id (remove_at i xs))" and "wh_id (xs ! i) \<notin> wh_id ` set (remove_at i xs)"
    and "set (remove_at i xs) \<subseteq> set xs"
proof -
  have "xs = take i xs @ xs ! i # drop (Suc i) xs" using assms(1) by (rule id_take_nth_drop)
  then have "distinct (map wh_id (take i xs @ xs ! i # drop (Suc i) xs))" using assms(2) by simp
  then show "distinct (map wh_id (remove_at i xs))" "wh_id (xs ! i) \<notin> wh_id ` set (remove_at i xs)"
    unfolding remove_at_def by auto
  show "set (remove_at i xs) \<subseteq> set xs"
    unfolding remove_at_def by (auto dest: in_set_takeD in_set_dropD)
qed

lemma loop_ok_move:
  assumes ok: "loop_ok ws0 a k (rest @ [donor]) advice" and h: "is_high_load a k donor"
    and i: "i < length rest" "is_low_load a k (rest ! i)" and has: "dict_has (wh_tasks donor) (th_id task)"
  shows "loop_ok ws0 a k (readd bisect a k (move_in task (rest ! i))
      (readd bisect a k (move_out task donor) (remove_at i rest)))
    (advice_append (wh_id donor) (th_id task) advice)"
proof -
  let ?advice' = "advice_append (wh_id donor) (th_id task) advice"
  let ?r1 = "readd bisect a k (move_out task donor) (remove_at i rest)"
  have ids: "distinct (map wh_id rest)" "wh_id donor \<notin> wh_id ` set rest"
    and adv: "advice_ok ws0 a k advice" and d: "donor_ok ws0 advice donor"
    using ok h by (auto simp: loop_ok_def)
  note r = remove_at_ids [OF i(1) ids(1)]
  have out_id: "wh_id (move_out task donor) = wh_id donor" and in_id: "wh_id (move_in task y) = wh_id y" for y
    by (simp_all add: move_out_def move_in_def)
  have "rest ! i \<in> set rest" using i(1) by simp
  then have ne: "wh_id (rest ! i) \<noteq> wh_id donor" using ids(2) by (metis imageI)
  have "distinct (map wh_id ?r1)"
    using ids(2) r by (intro distinct_readd) (auto simp: out_id)
  moreover have "wh_id (rest ! i) \<notin> wh_id ` set ?r1"
    using set_readd [of bisect a k "move_out task donor" "remove_at i rest"] r(2) ne
    by (auto simp: out_id dest!: subsetD)
  ultimately have "distinct (map wh_id (readd bisect a k (move_in task (rest ! i)) ?r1))"
    using distinct_readd [of "move_in task (rest ! i)" ?r1] by (simp add: in_id)
  moreover have "advice_ok ws0 a k ?advice'" by (rule advice_ok_append [OF adv d h has])
  moreover have "donor_ok ws0 ?advice' x"
    if x: "x \<in> set (readd bisect a k (move_in task (rest ! i)) ?r1)" and hx: "is_high_load a k x" for x
  proof -
    consider "x = move_in task (rest ! i)" | "x = move_out task donor" | "x \<in> set (remove_at i rest)"
      using x set_readd [of bisect a k "move_in task (rest ! i)" ?r1]
        set_readd [of bisect a k "move_out task donor" "remove_at i rest"] by blast
    then show ?thesis
    proof cases
      case 1
      with hx move_in_not_high [OF i(2)] show ?thesis by simp
    next
      case 2
      with donor_ok_move_out [OF d has] show ?thesis by simp
    next
      case 3
      with r(3) ids(2) have "x \<in> set rest" "wh_id x \<noteq> wh_id donor" by (auto, metis imageI subsetD)
      moreover from this(1) hx ok have "donor_ok ws0 advice x" by (auto simp: loop_ok_def)
      ultimately show ?thesis by (simp add: donor_ok_def advised_append)
    qed
  qed
  ultimately show ?thesis by (simp add: loop_ok_def)
qed

lemma cp_balance_loop_ok:
  "loop_ok ws0 a k ws advice \<Longrightarrow>
    \<exists>advice'. cp_balance_loop bisect a k ws advice unb = Inr advice' \<and> advice_ok ws0 a k advice'"
proof (induction bisect a k ws advice unb rule: cp_balance_loop.induct)
  case (1 bisect a k ws advice unb)
  let ?donor = "last ws" and ?rest = "butlast ws"
  let ?m = "find_move (takeWhile (is_low_load a k) ?rest) (rev (map snd (wh_tasks ?donor))) unb"
  show ?case
  proof (cases "length ws < 2 \<or> \<not> is_high_load a k ?donor")
    case True
    with 1(3) show ?thesis by (subst cp_balance_loop.simps) (auto simp: loop_ok_def Let_def)
  next
    case False
    then have ws: "ws = ?rest @ [?donor]" by (cases ws rule: rev_cases) auto
    then have ok: "loop_ok ws0 a k (?rest @ [?donor]) advice" using 1(3) by simp
    obtain m unb' where m: "?m = (m, unb')" by fastforce
    show ?thesis
    proof (cases m)
      case None
      have "loop_ok ws0 a k ?rest advice" using ok by (auto simp: loop_ok_def)
      then show ?thesis
        using 1(1) [OF _ refl refl _ m [symmetric] None] False m None
        by (subst cp_balance_loop.simps) (simp add: Let_def)
    next
      case (Some ti)
      obtain task i where ti: "ti = (task, i)" by (cases ti)
      have mv: "task \<in> set (rev (map snd (wh_tasks ?donor)))" "i < length (takeWhile (is_low_load a k) ?rest)"
        using find_move_Some [OF m [unfolded Some ti]] by auto
      note i = candidate_nth [OF mv(2)]
      have d: "donor_ok ws0 advice ?donor" using ok False by (auto simp: loop_ok_def)
      have has: "dict_has (wh_tasks ?donor) (th_id task)" using donor_ok_has [OF d] mv(1) by simp
      have "loop_ok ws0 a k (readd bisect a k (move_in task (?rest ! i))
          (readd bisect a k (move_out task ?donor) (remove_at i ?rest)))
          (advice_append (wh_id ?donor) (th_id task) advice)"
        using loop_ok_move [OF ok _ i(1,2) has] False by blast
      then show ?thesis
        using 1(2) [OF _ refl refl _ m [symmetric] Some ti [symmetric]] False m Some ti has
        by (subst cp_balance_loop.simps) (simp add: Let_def)
    qed
  qed
qed

lemma set_sorted_adds: "set (foldl (\<lambda>xs x. sorted_add bisect x xs) ys workers) \<subseteq> set ys \<union> set workers"
proof (induction workers arbitrary: ys)
  case (Cons x workers)
  have "set (sorted_add bisect x ys) \<subseteq> insert x (set ys)"
    by (auto simp: sorted_add_def Let_def dest: in_set_takeD in_set_dropD)
  with Cons.IH [of "sorted_add bisect x ys"] show ?case by auto
qed simp

lemma distinct_sorted_adds:
  "distinct (map wh_id (ys @ workers)) \<Longrightarrow> distinct (map wh_id (foldl (\<lambda>xs x. sorted_add bisect x xs) ys workers))"
proof (induction workers arbitrary: ys)
  case (Cons x workers)
  have "set (take i ys) \<union> set (drop i ys) = set ys" for i by (metis append_take_drop_id set_append)
  then have "set (sorted_add bisect x ys) = insert x (set ys)" by (auto simp: sorted_add_def Let_def)
  moreover have "distinct (map wh_id (sorted_add bisect x ys))"
    using Cons.prems unfolding sorted_add_def Let_def distinct_insert_at by auto
  ultimately have "distinct (map wh_id (sorted_add bisect x ys @ workers))"
    using Cons.prems by auto
  from Cons.IH [OF this] show ?case by simp
qed simp

definition cp_target :: "cap_policy \<Rightarrow> nat" where
  "cp_target p = max (sum_list (map wh_n_tasks (map snd (cp_workers p)))) (length (cp_workers p))"

lemma cp_balance_spec:
  assumes inv: "cp_inv p"
  shows "\<exists>advice. cp_balance bisect p = Inr advice \<and>
    advice_ok (cp_workers p) (cp_target p) (length (cp_workers p)) advice"
proof -
  let ?a = "cp_target p" and ?k = "length (cp_workers p)" and ?hs = "map snd (cp_workers p)"
  let ?ws = "filter (\<lambda>x. \<not> is_balanced ?a ?k x) ?hs"
  have mem: "dict_get (cp_workers p) (wh_id x) = Some x \<and> holder_ok (wh_id x) x" if x: "x \<in> set ?hs" for x
  proof -
    obtain w where "(w, x) \<in> set (cp_workers p)" using x by auto
    then have "dict_get (cp_workers p) w = Some x" by (rule dict_get_in_set [OF cp_invD(1) [OF inv]])
    then show ?thesis using cp_invD(2) [OF inv] holder_okD(1) by metis
  qed
  have "map wh_id ?hs = map fst (cp_workers p)"
    using cp_invD(2) [OF inv] dict_get_in_set [OF cp_invD(1) [OF inv]] holder_okD(1) by fastforce
  then have "distinct (map wh_id ?hs)" using cp_invD(1) [OF inv] by (simp only: dict_ok_def)
  then have "distinct (map wh_id ?ws)" by (rule distinct_map_filter)
  then have ids: "distinct (map wh_id (foldl (\<lambda>xs x. sorted_add bisect x xs) [] ?ws))"
    by (intro distinct_sorted_adds) simp
  have donors: "donor_ok (cp_workers p) [] x" if "x \<in> set ?hs" for x
    using mem [OF that] dict_get_in_set [of "wh_tasks x"] holder_okD(4,5) [of "wh_id x" x]
    by (fastforce simp: donor_ok_def advised_def)
  have "loop_ok (cp_workers p) ?a ?k (foldl (\<lambda>xs x. sorted_add bisect x xs) [] ?ws) []"
    unfolding loop_ok_def using ids donors set_sorted_adds [of bisect "[]" ?ws]
    by (force simp: advice_ok_def)
  from cp_balance_loop_ok [OF this] show ?thesis
    by (simp add: cp_balance_def Let_def cp_target_def) (auto simp: advice_ok_def)
qed

section \<open>The contract holds\<close>

interpretation cp: allocate_policy cp_holder cp_members cp_inv cp_add_worker cp_remove_worker
  cp_get_worker_by_task_id cp_assign_task cp_remove_task cp_balance
proof unfold_locales
  fix p w cs n t h task b
  show "cp_inv p \<Longrightarrow> worker_is_valid w \<Longrightarrow> \<exists>p'. cp_add_worker w cs n p = Ret (w \<notin> cp_members p) p' \<and>
      cp_inv p' \<and> cp_holder p' = cp_holder p \<and> cp_members p' = insert w (cp_members p)"
    by (rule cp_add_worker_spec)
  show "cp_inv p \<Longrightarrow> \<exists>ts p'. cp_remove_worker w p = Ret ts p' \<and> cp_inv p' \<and> distinct ts \<and>
      set ts = {t. cp_holder p t = Some w} \<and>
      cp_holder p' = (\<lambda>t. if cp_holder p t = Some w then None else cp_holder p t) \<and>
      cp_members p' = cp_members p - {w}"
    by (rule cp_remove_worker_spec)
  show "cp_inv p \<Longrightarrow> cp_get_worker_by_task_id p t = (case cp_holder p t of None \<Rightarrow> invalid_worker_id | Some w \<Rightarrow> w)"
    by (simp add: cp_get_worker_by_task_id_def cp_holder_def)
  show "\<exists>w p'. cp_assign_task h task p = Ret w p' \<and> cp_inv p' \<and> cp_members p' = cp_members p \<and>
        (if worker_is_valid w then w \<in> cp_members p \<and> cp_holder p' = (cp_holder p)(taskId task \<mapsto> w)
         else cp_holder p' = cp_holder p)" if "cp_inv p" "cp_holder p (taskId task) = None"
    using that
  proof (cases rule: cp_assign_cases [where h = h, consumes 2])
    case refused
    then show ?thesis using that by simp
  next
    case (assigned w x p')
    then show ?thesis by (simp add: cp_members_def dict_has_iff)
  qed
  show "cp_inv p \<Longrightarrow> \<exists>p'. cp_remove_task t p = Ret (case cp_holder p t of None \<Rightarrow> invalid_worker_id | Some w \<Rightarrow> w) p' \<and>
      cp_inv p' \<and> cp_holder p' = (cp_holder p)(t := None) \<and> cp_members p' = cp_members p"
    by (rule cp_remove_task_spec)
  show "cp_inv p \<Longrightarrow> cp_holder p t = Some w \<Longrightarrow> w \<in> cp_members p \<and> worker_is_valid w"
    using cp_invD(2,3) [of p] holder_okD(2) by (fastforce simp: cp_members_def dict_has_iff)
  show "\<exists>advice. cp_balance b p = Inr advice \<and>
      (\<forall>w ts. (w, ts) \<in> set advice \<longrightarrow> distinct ts \<and> (\<forall>t\<in>set ts. cp_holder p t = Some w))" if inv: "cp_inv p"
  proof -
    obtain advice where a: "cp_balance b p = Inr advice"
        "advice_ok (cp_workers p) (cp_target p) (length (cp_workers p)) advice"
      using cp_balance_spec [OF inv] by blast
    have "distinct ts \<and> (\<forall>t\<in>set ts. cp_holder p t = Some w)" if "(w, ts) \<in> set advice" for w ts
    proof -
      have "dict_get advice w = Some ts" using a(2) that dict_get_in_set by (auto simp: advice_ok_def)
      with a(2) cp_invD(3) [OF inv, of _ w] show ?thesis
        by (fastforce simp: advice_ok_def set_dict_keys)
    qed
    with a(1) show ?thesis by blast
  qed
qed

end
