(* ===== verification/Allocation.thy ===== *)
theory Allocation
  imports EvenLoad CapabilityAllocate
begin

text \<open>
  The allocation policy the controllers hold: one of the two allocators, chosen by
  \<open>create_allocate_policy\<close>
  (\<open>src/src/scaler/scheduler/controllers/policies/simple_policy/allocation/utility.py\<close>).
  \<open>PolicyController\<close> and \<open>SimplePolicy\<close> forward every call to it; the dispatch of
  Python's method call is a case distinction here. The contract of an allocation policy
  holds for the sum because it holds for both summands.
\<close>

datatype AllocatePolicyStrategy = CAPABILITY | EVEN_LOAD

datatype allocation = EvenLoadPolicy even_policy | CapabilityPolicy cap_policy

definition create_allocate_policy :: "AllocatePolicyStrategy \<Rightarrow> allocation" where
  "create_allocate_policy strategy =
     (case strategy of CAPABILITY \<Rightarrow> CapabilityPolicy cp_init | EVEN_LOAD \<Rightarrow> EvenLoadPolicy ev_init)"

fun map_state :: "('s \<Rightarrow> 't) \<Rightarrow> ('a, 's) outcome \<Rightarrow> ('a, 't) outcome" where
  "map_state f (Ret a s) = Ret a (f s)"
| "map_state f (Raise e s) = Raise e (f s)"
| "map_state f NoFuel = NoFuel"

fun policy_add_worker :: "WorkerID \<Rightarrow> capabilities \<Rightarrow> int \<Rightarrow> (bool, allocation) comp" where
  "policy_add_worker w cs n (EvenLoadPolicy p) = map_state EvenLoadPolicy (ev_add_worker w cs n p)"
| "policy_add_worker w cs n (CapabilityPolicy p) = map_state CapabilityPolicy (cp_add_worker w cs n p)"

fun policy_remove_worker :: "WorkerID \<Rightarrow> (TaskID list, allocation) comp" where
  "policy_remove_worker w (EvenLoadPolicy p) = map_state EvenLoadPolicy (ev_remove_worker w p)"
| "policy_remove_worker w (CapabilityPolicy p) = map_state CapabilityPolicy (cp_remove_worker w p)"

fun policy_get_worker_ids :: "allocation \<Rightarrow> WorkerID list" where
  "policy_get_worker_ids (EvenLoadPolicy p) = ev_get_worker_ids p"
| "policy_get_worker_ids (CapabilityPolicy p) = cp_get_worker_ids p"

fun policy_get_worker_by_task_id :: "allocation \<Rightarrow> TaskID \<Rightarrow> WorkerID" where
  "policy_get_worker_by_task_id (EvenLoadPolicy p) t = ev_get_worker_by_task_id p t"
| "policy_get_worker_by_task_id (CapabilityPolicy p) t = cp_get_worker_by_task_id p t"

fun policy_assign_task :: "set_order \<Rightarrow> Task \<Rightarrow> (WorkerID, allocation) comp" where
  "policy_assign_task h task (EvenLoadPolicy p) = map_state EvenLoadPolicy (ev_assign_task task p)"
| "policy_assign_task h task (CapabilityPolicy p) = map_state CapabilityPolicy (cp_assign_task h task p)"

fun policy_remove_task :: "TaskID \<Rightarrow> (WorkerID, allocation) comp" where
  "policy_remove_task t (EvenLoadPolicy p) = map_state EvenLoadPolicy (ev_remove_task t p)"
| "policy_remove_task t (CapabilityPolicy p) = map_state CapabilityPolicy (cp_remove_task t p)"

fun policy_balance :: "bisect \<Rightarrow> allocation \<Rightarrow> py_exn + balance_advice" where
  "policy_balance b (EvenLoadPolicy p) = ev_balance p"
| "policy_balance b (CapabilityPolicy p) = cp_balance b p"

fun policy_has_available_worker :: "set_order \<Rightarrow> allocation \<Rightarrow> capabilities option \<Rightarrow> py_exn + bool" where
  "policy_has_available_worker h (EvenLoadPolicy p) cs = ev_has_available_worker p"
| "policy_has_available_worker h (CapabilityPolicy p) cs = Inr (cp_has_available_worker h p cs)"

section \<open>The contract holds\<close>

fun policy_holder :: "allocation \<Rightarrow> TaskID \<Rightarrow> WorkerID option" where
  "policy_holder (EvenLoadPolicy p) = ev_holder p"
| "policy_holder (CapabilityPolicy p) = cp_holder p"

fun policy_members :: "allocation \<Rightarrow> WorkerID set" where
  "policy_members (EvenLoadPolicy p) = ev_members p"
| "policy_members (CapabilityPolicy p) = cp_members p"

fun policy_inv :: "allocation \<Rightarrow> bool" where
  "policy_inv (EvenLoadPolicy p) = ev_ok p"
| "policy_inv (CapabilityPolicy p) = cp_inv p"

lemma create_allocate_policy_inv:
  "policy_inv (create_allocate_policy s)" "policy_holder (create_allocate_policy s) t = None"
  "policy_members (create_allocate_policy s) = {}"
  by (simp_all add: create_allocate_policy_def ev_ok_def ev_init_inv cp_init_inv split: AllocatePolicyStrategy.split)

text \<open>Carrying a law of a summand over to the sum.\<close>

lemma lift_law:
  assumes "\<exists>a p'. r = Ret a p' \<and> P a p'" and "\<And>a p'. P a p' \<Longrightarrow> Q a (C p')"
  shows "\<exists>a p'. map_state C r = Ret a p' \<and> Q a p'"
  using assms by (metis map_state.simps(1))

lemma lift_law_value:
  assumes "\<exists>p'. r = Ret a p' \<and> P p'" and "\<And>p'. P p' \<Longrightarrow> Q (C p')"
  shows "\<exists>p'. map_state C r = Ret a p' \<and> Q p'"
  using assms by (metis map_state.simps(1))

interpretation al: allocate_policy policy_holder policy_members policy_inv policy_add_worker
  policy_remove_worker policy_get_worker_by_task_id policy_assign_task policy_remove_task policy_balance
proof unfold_locales
  fix p w cs n t h task b
  show "\<exists>p'. policy_add_worker w cs n p = Ret (w \<notin> policy_members p) p' \<and> policy_inv p' \<and>
      policy_holder p' = policy_holder p \<and> policy_members p' = insert w (policy_members p)"
    if "policy_inv p" "worker_is_valid w"
  proof (cases p)
    case (EvenLoadPolicy q)
    show ?thesis unfolding EvenLoadPolicy policy_add_worker.simps policy_members.simps
      by (rule lift_law_value [OF ev.add_worker]) (use that EvenLoadPolicy in simp_all)
  next
    case (CapabilityPolicy q)
    show ?thesis unfolding CapabilityPolicy policy_add_worker.simps policy_members.simps
      by (rule lift_law_value [OF cp.add_worker]) (use that CapabilityPolicy in simp_all)
  qed
  show "\<exists>ts p'. policy_remove_worker w p = Ret ts p' \<and> policy_inv p' \<and> distinct ts \<and>
      set ts = {t. policy_holder p t = Some w} \<and>
      policy_holder p' = (\<lambda>t. if policy_holder p t = Some w then None else policy_holder p t) \<and>
      policy_members p' = policy_members p - {w}" if "policy_inv p"
  proof (cases p)
    case (EvenLoadPolicy q)
    show ?thesis unfolding EvenLoadPolicy policy_remove_worker.simps policy_holder.simps policy_members.simps
      by (rule lift_law [OF ev.remove_worker]) (use that EvenLoadPolicy in simp_all)
  next
    case (CapabilityPolicy q)
    show ?thesis unfolding CapabilityPolicy policy_remove_worker.simps policy_holder.simps policy_members.simps
      by (rule lift_law [OF cp.remove_worker]) (use that CapabilityPolicy in simp_all)
  qed
  show "policy_inv p \<Longrightarrow> policy_get_worker_by_task_id p t =
      (case policy_holder p t of None \<Rightarrow> invalid_worker_id | Some w \<Rightarrow> w)"
    by (cases p) (simp_all add: ev.get_worker cp.get_worker)
  show "\<exists>w p'. policy_assign_task h task p = Ret w p' \<and> policy_inv p' \<and> policy_members p' = policy_members p \<and>
      (if worker_is_valid w then w \<in> policy_members p \<and> policy_holder p' = (policy_holder p)(taskId task \<mapsto> w)
       else policy_holder p' = policy_holder p)"
    if "policy_inv p" "policy_holder p (taskId task) = None"
  proof (cases p)
    case (EvenLoadPolicy q)
    show ?thesis unfolding EvenLoadPolicy policy_assign_task.simps policy_holder.simps policy_members.simps
      by (rule lift_law [OF ev.assign_task]) (use that EvenLoadPolicy in simp_all)
  next
    case (CapabilityPolicy q)
    show ?thesis unfolding CapabilityPolicy policy_assign_task.simps policy_holder.simps policy_members.simps
      by (rule lift_law [OF cp.assign_task]) (use that CapabilityPolicy in simp_all)
  qed
  show "\<exists>p'. policy_remove_task t p = Ret (case policy_holder p t of None \<Rightarrow> invalid_worker_id | Some w \<Rightarrow> w) p' \<and>
      policy_inv p' \<and> policy_holder p' = (policy_holder p)(t := None) \<and> policy_members p' = policy_members p"
    if "policy_inv p"
  proof (cases p)
    case (EvenLoadPolicy q)
    show ?thesis unfolding EvenLoadPolicy policy_remove_task.simps policy_holder.simps
      by (rule lift_law_value [OF ev.remove_task]) (use that EvenLoadPolicy in simp_all)
  next
    case (CapabilityPolicy q)
    show ?thesis unfolding CapabilityPolicy policy_remove_task.simps policy_holder.simps
      by (rule lift_law_value [OF cp.remove_task]) (use that CapabilityPolicy in simp_all)
  qed
  show "policy_inv p \<Longrightarrow> policy_holder p t = Some w \<Longrightarrow> w \<in> policy_members p \<and> worker_is_valid w"
    by (cases p) (simp_all add: ev.holder_member cp.holder_member)
  show "policy_inv p \<Longrightarrow> \<exists>advice. policy_balance b p = Inr advice \<and>
      (\<forall>w ts. (w, ts) \<in> set advice \<longrightarrow> distinct ts \<and> (\<forall>t\<in>set ts. policy_holder p t = Some w))"
    by (cases p) (simp_all add: ev.balance cp.balance)
qed

end
