(* ===== verification/Scaling.thy ===== *)
theory Scaling
  imports Allocation
begin

text \<open>
  The scaling policies of \<open>scheduler/controllers/policies\<close>: for every heartbeat of a worker
  manager they answer how many workers the manager should run. A command is the list of
  its requests. Counts are divided with \<open>math.ceil(a / b)\<close>; for counts below \<open>2 ^ 52\<close> the
  quotient of the floats rounds to the same side of every integer as the exact quotient, so
  the model divides exactly.
\<close>

section \<open>Snapshots and commands\<close>

record WorkerManagerSnapshot =
  sn_worker_manager_id :: bytes
  sn_max_task_concurrency :: int
  sn_worker_count :: int
  sn_capabilities :: capabilities

record 'w information_snapshot =
  snap_tasks :: "(TaskID, Task) dict"
  snap_workers :: "(WorkerID, 'w) dict"

type_synonym desired = "(capabilities \<times> int) list"
type_synonym snapshots = "(bytes, WorkerManagerSnapshot) dict"

definition forget_departed_managers :: "bytes list \<Rightarrow> (bytes, 's) dict \<Rightarrow> (bytes, 's) dict" where
  "forget_departed_managers live d = filter (\<lambda>kv. fst kv \<in> set live) d"

definition build_set_desired_command :: "desired \<Rightarrow> DesiredTaskConcurrencyRequest list" where
  "build_set_desired_command ds =
     map (\<lambda>(caps, count). \<lparr>taskConcurrency = max 0 count, request_capabilities = dict_to_capabilities caps\<rparr>) ds"

text \<open>The bound a manager reports; \<open>-1\<close> stands for no bound.\<close>

definition clamp_concurrency :: "int \<Rightarrow> int \<Rightarrow> int" where
  "clamp_concurrency max_concurrency desired =
     (if max_concurrency \<noteq> -1 then min desired max_concurrency else desired)"

section \<open>VanillaScalingPolicy\<close>

definition vanilla_lower_task_ratio :: int where
  "vanilla_lower_task_ratio = 1"

definition vanilla_upper_task_ratio :: int where
  "vanilla_upper_task_ratio = 10"

definition vanilla_desired :: "int \<Rightarrow> int \<Rightarrow> int \<Rightarrow> int \<Rightarrow> int" where
  "vanilla_desired current task_count worker_count max_concurrency =
     (let desired =
        (if worker_count = 0 then (if task_count > 0 then current + 1 else current)
         else if task_count > vanilla_upper_task_ratio * worker_count then current + 1
         else if task_count < vanilla_lower_task_ratio * worker_count
         then (if task_count = 0 then 0 else max 1 (ceil_div task_count vanilla_upper_task_ratio))
         else current)
      in max 0 (clamp_concurrency max_concurrency desired))"

definition vanilla_log_decision :: "bytes \<Rightarrow> int \<Rightarrow> int \<Rightarrow> (bytes, int) dict \<Rightarrow> (bytes, int) dict" where
  "vanilla_log_decision manager current desired logged =
     (if desired = current then dict_pop manager logged
      else if dict_get logged manager = Some desired then logged
      else dict_set manager desired logged)"

definition vanilla_scaling_commands ::
  "'w information_snapshot \<Rightarrow> WorkerManagerHeartbeat \<Rightarrow> WorkerID list \<Rightarrow> snapshots \<Rightarrow> (bytes, int) dict \<Rightarrow>
    DesiredTaskConcurrencyRequest list list \<times> (bytes, int) dict" where
  "vanilla_scaling_commands snap hb managed snaps logged =
     (let manager = workerManagerID hb;
          logged1 = forget_departed_managers (manager # dict_keys snaps) logged;
          current = int (length managed);
          desired = vanilla_desired current (int (length (snap_tasks snap))) (int (length (snap_workers snap)))
            (maxTaskConcurrency hb)
      in ([build_set_desired_command [([], desired)]], vanilla_log_decision manager current desired logged1))"

section \<open>CapabilityScalingPolicy\<close>

definition capability_upper_task_ratio :: int where
  "capability_upper_task_ratio = 5"

definition capability_keys :: "capabilities \<Rightarrow> string set" where
  "capability_keys caps = set (dict_keys caps)"

definition group_tasks_by_capability :: "'w information_snapshot \<Rightarrow> (string set, capabilities list) dict" where
  "group_tasks_by_capability snap =
     foldl (\<lambda>d (_, task).
        let keys = capability_keys (task_capabilities task);
            old = (case dict_get d keys of None \<Rightarrow> [] | Some ts \<Rightarrow> ts)
        in dict_set keys (old @ [task_capabilities task]) d) [] (snap_tasks snap)"

definition capability_desired_per_capset :: "(string set, capabilities list) dict \<Rightarrow> WorkerManagerHeartbeat \<Rightarrow> desired" where
  "capability_desired_per_capset groups hb =
     concat (map (\<lambda>(_, ts). case ts of
         [] \<Rightarrow> []
       | first # _ \<Rightarrow> [(first, clamp_concurrency (maxTaskConcurrency hb)
                          (max 1 (ceil_div (int (length ts)) capability_upper_task_ratio)))]) groups)"

type_synonym capability_log = "(bytes, ((string \<times> int) set, int) dict) dict"

definition capability_log_decisions :: "bytes \<Rightarrow> desired \<Rightarrow> capability_log \<Rightarrow> capability_log" where
  "capability_log_decisions manager ds logged =
     dict_set manager (foldl (\<lambda>d (caps, n). dict_set (set caps) n d) [] ds) logged"

definition capability_scaling_commands ::
  "'w information_snapshot \<Rightarrow> WorkerManagerHeartbeat \<Rightarrow> snapshots \<Rightarrow> capability_log \<Rightarrow>
    DesiredTaskConcurrencyRequest list list \<times> capability_log" where
  "capability_scaling_commands snap hb snaps logged =
     (let manager = workerManagerID hb;
          logged1 = forget_departed_managers (manager # dict_keys snaps) logged;
          ds = capability_desired_per_capset (group_tasks_by_capability snap) hb
      in ([build_set_desired_command ds], capability_log_decisions manager ds logged1))"

section \<open>WaterfallScalingPolicy\<close>

record WaterfallRule =
  rule_priority :: int
  rule_manager_id :: bytes
  rule_max_task_concurrency :: "int option"

definition waterfall_upper_task_ratio :: int where
  "waterfall_upper_task_ratio = 10"

text \<open>The rules as the constructor keeps them: sorted by priority, stably.\<close>

definition waterfall_init :: "WaterfallRule list \<Rightarrow> WaterfallRule list" where
  "waterfall_init rules = sort_key rule_priority rules"

definition waterfall_find_rule :: "WaterfallRule list \<Rightarrow> bytes \<Rightarrow> WaterfallRule option" where
  "waterfall_find_rule rules manager =
     dict_get (foldl (\<lambda>d r. dict_set (rule_manager_id r) r d) [] rules) manager"

definition cap_of_rule :: "WaterfallRule \<Rightarrow> int \<Rightarrow> int" where
  "cap_of_rule rule reported =
     (case rule_max_task_concurrency rule of None \<Rightarrow> reported | Some n \<Rightarrow> min n reported)"

definition effective_capacity ::
  "WaterfallRule \<Rightarrow> WaterfallRule \<Rightarrow> WorkerManagerHeartbeat \<Rightarrow> snapshots \<Rightarrow> int option" where
  "effective_capacity rule current hb snaps =
     (if rule_manager_id rule = rule_manager_id current then Some (cap_of_rule rule (maxTaskConcurrency hb))
      else (case dict_get snaps (rule_manager_id rule) of
              None \<Rightarrow> None
            | Some sn \<Rightarrow> Some (cap_of_rule rule (sn_max_task_concurrency sn))))"

text \<open>
  The walk over the rules in priority order that both allocations share: rules with no
  capacity to offer are skipped, the rules before the current one are filled first.
\<close>

fun waterfall_walk :: "WaterfallRule list \<Rightarrow> bytes \<Rightarrow> (WaterfallRule \<Rightarrow> int option) \<Rightarrow> int \<Rightarrow> int" where
  "waterfall_walk [] current cap remaining = 0"
| "waterfall_walk (rule # rules) current cap remaining =
     (case cap rule of
        None \<Rightarrow> waterfall_walk rules current cap remaining
      | Some c \<Rightarrow>
          if rule_manager_id rule = current then min remaining c
          else waterfall_walk rules current cap (max 0 (remaining - c)))"

fun waterfall_drain :: "WaterfallRule list \<Rightarrow> WaterfallRule \<Rightarrow> snapshots \<Rightarrow> int" where
  "waterfall_drain [] current snaps = 0"
| "waterfall_drain (rule # rules) current snaps =
     (if rule_priority rule \<le> rule_priority current then waterfall_drain rules current snaps
      else (case dict_get snaps (rule_manager_id rule) of
              None \<Rightarrow> waterfall_drain rules current snaps
            | Some sn \<Rightarrow>
                if sn_worker_count sn > 0
                then (case dict_get snaps (rule_manager_id current) of
                        None \<Rightarrow> 0 | Some own \<Rightarrow> sn_worker_count own)
                else waterfall_drain rules current snaps))"

definition waterfall_total :: "int \<Rightarrow> int" where
  "waterfall_total task_count = max 1 (ceil_div task_count waterfall_upper_task_ratio)"

definition allocate_generic_desired ::
  "WaterfallRule list \<Rightarrow> WaterfallRule \<Rightarrow> 'w information_snapshot \<Rightarrow> WorkerManagerHeartbeat \<Rightarrow> snapshots \<Rightarrow> int" where
  "allocate_generic_desired rules current snap hb snaps =
     (if snap_tasks snap = [] then waterfall_drain rules current snaps
      else waterfall_walk rules (rule_manager_id current) (\<lambda>r. effective_capacity r current hb snaps)
             (waterfall_total (int (length (snap_tasks snap)))))"

definition capset_capacity ::
  "WaterfallRule \<Rightarrow> WaterfallRule \<Rightarrow> string set \<Rightarrow> WorkerManagerHeartbeat \<Rightarrow> snapshots \<Rightarrow> int option" where
  "capset_capacity rule current required hb snaps =
     (let offered =
        (if rule_manager_id rule = rule_manager_id current then Some (capability_keys (manager_capabilities hb))
         else map_option (\<lambda>sn. capability_keys (sn_capabilities sn)) (dict_get snaps (rule_manager_id rule)))
      in (case offered of
            None \<Rightarrow> None
          | Some keys \<Rightarrow> if required \<subseteq> keys then effective_capacity rule current hb snaps else None))"

definition allocate_capset_desired ::
  "WaterfallRule list \<Rightarrow> WaterfallRule \<Rightarrow> string set \<Rightarrow> 'w information_snapshot \<Rightarrow> WorkerManagerHeartbeat \<Rightarrow>
    snapshots \<Rightarrow> int" where
  "allocate_capset_desired rules current required snap hb snaps =
     (let task_count = int (length (filter (\<lambda>(_, task). capability_keys (task_capabilities task) = required) (snap_tasks snap)))
      in if task_count = 0 then 0
         else waterfall_walk rules (rule_manager_id current) (\<lambda>r. capset_capacity r current required hb snaps)
                (waterfall_total task_count))"

definition waterfall_tasks_by_capability :: "'w information_snapshot \<Rightarrow> (string set, capabilities) dict" where
  "waterfall_tasks_by_capability snap =
     foldl (\<lambda>d (_, task).
        let keys = capability_keys (task_capabilities task)
        in if task_capabilities task = [] then d
           else if dict_has d keys then d
           else dict_set keys (task_capabilities task) d) [] (snap_tasks snap)"

definition waterfall_desired_per_capset ::
  "WaterfallRule list \<Rightarrow> WaterfallRule \<Rightarrow> 'w information_snapshot \<Rightarrow> WorkerManagerHeartbeat \<Rightarrow> snapshots \<Rightarrow> desired" where
  "waterfall_desired_per_capset rules current snap hb snaps =
     ([], allocate_generic_desired rules current snap hb snaps) #
     concat (map (\<lambda>(required, caps).
        let n = allocate_capset_desired rules current required snap hb snaps
        in if n > 0 then [(caps, n)] else []) (waterfall_tasks_by_capability snap))"

definition waterfall_scaling_commands ::
  "WaterfallRule list \<Rightarrow> 'w information_snapshot \<Rightarrow> WorkerManagerHeartbeat \<Rightarrow> snapshots \<Rightarrow>
    DesiredTaskConcurrencyRequest list list" where
  "waterfall_scaling_commands rules snap hb snaps =
     (case waterfall_find_rule rules (workerManagerID hb) of
        None \<Rightarrow> []
      | Some rule \<Rightarrow> [build_set_desired_command (waterfall_desired_per_capset rules rule snap hb snaps)])"

section \<open>Dispatch\<close>

datatype ScalingPolicyStrategy = SCALING_NO | SCALING_VANILLA | SCALING_CAPABILITY

datatype scaling_policy =
    NoScaling
  | VanillaScaling "(bytes, int) dict"
  | CapabilityScaling capability_log
  | WaterfallScaling "WaterfallRule list"

definition create_scaling_policy :: "ScalingPolicyStrategy \<Rightarrow> scaling_policy" where
  "create_scaling_policy strategy =
     (case strategy of
        SCALING_NO \<Rightarrow> NoScaling | SCALING_VANILLA \<Rightarrow> VanillaScaling [] | SCALING_CAPABILITY \<Rightarrow> CapabilityScaling [])"

definition get_scaling_commands ::
  "'w information_snapshot \<Rightarrow> WorkerManagerHeartbeat \<Rightarrow> WorkerID list \<Rightarrow> snapshots \<Rightarrow> scaling_policy \<Rightarrow>
    DesiredTaskConcurrencyRequest list list \<times> scaling_policy" where
  "get_scaling_commands snap hb managed snaps sc =
     (case sc of
        NoScaling \<Rightarrow> ([], NoScaling)
      | VanillaScaling logged \<Rightarrow>
          (let (cs, logged') = vanilla_scaling_commands snap hb managed snaps logged in (cs, VanillaScaling logged'))
      | CapabilityScaling logged \<Rightarrow>
          (let (cs, logged') = capability_scaling_commands snap hb snaps logged in (cs, CapabilityScaling logged'))
      | WaterfallScaling rules \<Rightarrow> (waterfall_scaling_commands rules snap hb snaps, WaterfallScaling rules))"

section \<open>What the policies ask for\<close>

lemma vanilla_desired_bounds:
  "0 \<le> vanilla_desired current tasks workers mc"
  "mc \<noteq> -1 \<Longrightarrow> 0 \<le> mc \<Longrightarrow> vanilla_desired current tasks workers mc \<le> mc"
  by (simp_all add: vanilla_desired_def clamp_concurrency_def Let_def)

lemma ceil_div_pos: "0 < a \<Longrightarrow> 0 < b \<Longrightarrow> 0 < ceil_div a b"
  by (simp add: ceil_div_def div_neg_pos_less0)

text \<open>The capacity of a list of rules, offline ones counting nothing.\<close>

definition capacity_sum :: "(WaterfallRule \<Rightarrow> int option) \<Rightarrow> WaterfallRule list \<Rightarrow> int" where
  "capacity_sum cap rules = sum_list (map (\<lambda>r. case cap r of None \<Rightarrow> 0 | Some c \<Rightarrow> c) rules)"

lemma capacity_sum_simps [simp]:
  "capacity_sum cap [] = 0"
  "capacity_sum cap (r # rules) = (case cap r of None \<Rightarrow> 0 | Some c \<Rightarrow> c) + capacity_sum cap rules"
  "capacity_sum cap (xs @ ys) = capacity_sum cap xs + capacity_sum cap ys"
  by (simp_all add: capacity_sum_def)

lemma capacity_sum_nonneg:
  "(\<And>r c. r \<in> set rules \<Longrightarrow> cap r = Some c \<Longrightarrow> 0 \<le> c) \<Longrightarrow> 0 \<le> capacity_sum cap rules"
  by (induction rules) (force split: option.split)+

text \<open>A manager gets what the ones before it leave, up to its capacity.\<close>

lemma waterfall_walk_share:
  assumes "\<And>r' c'. r' \<in> set pre \<Longrightarrow> cap r' = Some c' \<Longrightarrow> 0 \<le> c'"
    and "rule_manager_id r \<notin> rule_manager_id ` set pre" and "cap r = Some c" and "0 \<le> n"
  shows "waterfall_walk (pre @ r # post) (rule_manager_id r) cap n = min (max 0 (n - capacity_sum cap pre)) c"
  using assms
proof (induction pre arbitrary: n)
  case Nil
  then show ?case by simp
next
  case (Cons r' pre)
  have later: "0 \<le> capacity_sum cap pre"
    using Cons.prems(1) by (intro capacity_sum_nonneg) auto
  show ?case
  proof (cases "cap r'")
    case None
    then have "waterfall_walk ((r' # pre) @ r # post) (rule_manager_id r) cap n =
        waterfall_walk (pre @ r # post) (rule_manager_id r) cap n"
      by simp
    also have "\<dots> = min (max 0 (n - capacity_sum cap pre)) c"
      using Cons.prems by (intro Cons.IH) auto
    finally show ?thesis using None by simp
  next
    case (Some c')
    then have "waterfall_walk ((r' # pre) @ r # post) (rule_manager_id r) cap n =
        waterfall_walk (pre @ r # post) (rule_manager_id r) cap (max 0 (n - c'))"
      using Cons.prems(2) by auto
    also have "\<dots> = min (max 0 (max 0 (n - c') - capacity_sum cap pre)) c"
      using Cons.prems by (intro Cons.IH) auto
    also have "\<dots> = min (max 0 (n - capacity_sum cap (r' # pre))) c"
      using later Some by simp
    finally show ?thesis .
  qed
qed

text \<open>The shares of all managers that are online.\<close>

definition shares :: "WaterfallRule list \<Rightarrow> (WaterfallRule \<Rightarrow> int option) \<Rightarrow> int \<Rightarrow> int list" where
  "shares rules cap n = map (\<lambda>r. if cap r = None then 0 else waterfall_walk rules (rule_manager_id r) cap n) rules"

lemma waterfall_walk_absent:
  "\<forall>r \<in> set rules. rule_manager_id r = current \<longrightarrow> cap r = None \<Longrightarrow> waterfall_walk rules current cap n = 0"
  by (induction rules arbitrary: n) (auto split: option.split)

lemma shares_sum:
  assumes nonneg: "\<And>r c. r \<in> set rules \<Longrightarrow> cap r = Some c \<Longrightarrow> 0 \<le> c"
    and dist: "distinct (map rule_manager_id rules)" and n: "0 \<le> n"
  shows "sum_list (shares rules cap n) = min n (capacity_sum cap rules)"
proof -
  have share: "(if cap r = None then 0 else waterfall_walk rules (rule_manager_id r) cap n) =
      min n (capacity_sum cap (take (Suc i) rules)) - min n (capacity_sum cap (take i rules))"
    if i: "i < length rules" and r: "r = rules ! i" for i r
  proof (cases "cap r")
    case None
    then show ?thesis using i r by (simp add: take_Suc_conv_app_nth)
  next
    case (Some c)
    have split: "rules = take i rules @ r # drop (Suc i) rules" using i r by (simp add: id_take_nth_drop)
    have "distinct (map rule_manager_id (take i rules @ r # drop (Suc i) rules))" using dist split by simp
    then have fresh: "rule_manager_id r \<notin> rule_manager_id ` set (take i rules)" by auto
    have nn: "0 \<le> c'" if "r' \<in> set (take i rules)" "cap r' = Some c'" for r' c'
      using nonneg [of r' c'] that in_set_takeD by fastforce
    have "waterfall_walk rules (rule_manager_id r) cap n = min (max 0 (n - capacity_sum cap (take i rules))) c"
      by (subst split, rule waterfall_walk_share) (use nn fresh Some n in auto)
    moreover have "0 \<le> capacity_sum cap (take i rules)" by (rule capacity_sum_nonneg) (rule nn)
    moreover have "0 \<le> c" using nonneg [of r c] i r Some by simp
    ultimately show ?thesis using Some i r n by (simp add: take_Suc_conv_app_nth)
  qed
  have "shares rules cap n = map (\<lambda>i. min n (capacity_sum cap (take (Suc i) rules)) - min n (capacity_sum cap (take i rules)))
      [0..<length rules]"
    unfolding shares_def by (rule nth_equalityI) (simp_all add: share)
  moreover have tele: "sum_list (map (\<lambda>i. f (Suc i) - f i) [0..<k]) = f k - f 0" for f :: "nat \<Rightarrow> int" and k
    by (induction k) simp_all
  ultimately show ?thesis
    using n tele [of "\<lambda>i. min n (capacity_sum cap (take i rules))" "length rules"] by simp
qed

lemma waterfall_walk_cong:
  "(\<And>r. r \<in> set rules \<Longrightarrow> cap r = cap' r) \<Longrightarrow> waterfall_walk rules current cap n = waterfall_walk rules current cap' n"
  by (induction rules arbitrary: n) (auto split: option.split)

text \<open>The capacity of a rule's manager by its last heartbeat, \<open>None\<close> when it is offline.\<close>

definition reported_capacity :: "snapshots \<Rightarrow> WaterfallRule \<Rightarrow> int option" where
  "reported_capacity snaps r =
     map_option (\<lambda>sn. cap_of_rule r (sn_max_task_concurrency sn)) (dict_get snaps (rule_manager_id r))"

lemma effective_is_reported:
  assumes dist: "distinct (map rule_manager_id rules)" and r: "r \<in> set rules" and r': "r' \<in> set rules"
    and sn: "dict_get snaps (rule_manager_id r) = Some sn" "maxTaskConcurrency hb = sn_max_task_concurrency sn"
  shows "effective_capacity r' r hb snaps = reported_capacity snaps r'"
proof (cases "rule_manager_id r' = rule_manager_id r")
  case True
  then have "r' = r" using dist r r' by (auto simp: distinct_map dest: inj_onD)
  then show ?thesis using sn by (simp add: effective_capacity_def reported_capacity_def)
next
  case False
  then show ?thesis by (simp add: effective_capacity_def reported_capacity_def split: option.split)
qed

lemma waterfall_conserved:
  assumes dist: "distinct (map rule_manager_id rules)" and tasks: "snap_tasks snap \<noteq> []"
    and cap: "\<And>r c. r \<in> set rules \<Longrightarrow> reported_capacity snaps r = Some c \<Longrightarrow> 0 \<le> c"
    and hb: "\<And>r sn. r \<in> set rules \<Longrightarrow> dict_get snaps (rule_manager_id r) = Some sn \<Longrightarrow>
      maxTaskConcurrency (hb r) = sn_max_task_concurrency sn"
  shows "sum_list (map (\<lambda>r. if dict_has snaps (rule_manager_id r) then allocate_generic_desired rules r snap (hb r) snaps else 0) rules) =
    min (waterfall_total (int (length (snap_tasks snap)))) (capacity_sum (reported_capacity snaps) rules)"
proof -
  let ?n = "waterfall_total (int (length (snap_tasks snap)))"
  have "(if dict_has snaps (rule_manager_id r) then allocate_generic_desired rules r snap (hb r) snaps else 0) =
      (if reported_capacity snaps r = None then 0 else waterfall_walk rules (rule_manager_id r) (reported_capacity snaps) ?n)"
    if r: "r \<in> set rules" for r
  proof (cases "dict_get snaps (rule_manager_id r)")
    case None
    then show ?thesis by (simp add: dict_has_iff reported_capacity_def)
  next
    case (Some sn)
    have "waterfall_walk rules (rule_manager_id r) (\<lambda>r'. effective_capacity r' r (hb r) snaps) ?n =
        waterfall_walk rules (rule_manager_id r) (reported_capacity snaps) ?n"
      by (rule waterfall_walk_cong) (rule effective_is_reported [OF dist r _ Some hb [OF r Some]])
    then show ?thesis using Some tasks by (simp add: dict_has_iff allocate_generic_desired_def reported_capacity_def)
  qed
  then have "map (\<lambda>r. if dict_has snaps (rule_manager_id r) then allocate_generic_desired rules r snap (hb r) snaps else 0) rules =
      shares rules (reported_capacity snaps) ?n"
    unfolding shares_def by (intro map_cong) auto
  moreover have "0 \<le> ?n" by (simp add: waterfall_total_def)
  ultimately show ?thesis using shares_sum [of rules "reported_capacity snaps", OF cap dist] by simp
qed

text \<open>A share never exceeds the capacity the manager itself reports.\<close>

lemma waterfall_walk_le:
  assumes "\<And>r c. r \<in> set rules \<Longrightarrow> rule_manager_id r = current \<Longrightarrow> cap r = Some c \<Longrightarrow> c \<le> b" "0 \<le> b"
  shows "waterfall_walk rules current cap n \<le> b"
  using assms by (induction rules arbitrary: n) (force split: option.split)+

lemma waterfall_find_id:
  assumes "waterfall_find_rule rules manager = Some r"
  shows "rule_manager_id r = manager"
proof -
  have "dict_get (foldl (\<lambda>d r. dict_set (rule_manager_id r) r d) d rules) k = Some r \<Longrightarrow>
      (\<And>j q. dict_get d j = Some q \<Longrightarrow> rule_manager_id q = j) \<Longrightarrow> rule_manager_id r = k" for d k
  proof (induction rules arbitrary: d)
    case (Cons q rules)
    from Cons.prems(1) have "dict_get (foldl (\<lambda>d r. dict_set (rule_manager_id r) r d) (dict_set (rule_manager_id q) q d) rules) k = Some r"
      by simp
    then show ?case by (rule Cons.IH) (use Cons.prems(2) in \<open>auto split: if_splits\<close>)
  qed simp
  then show ?thesis using assms unfolding waterfall_find_rule_def by fastforce
qed

lemma capacity_le_reported:
  assumes "rule_manager_id r' = rule_manager_id r"
  shows "effective_capacity r' r hb snaps = Some c \<Longrightarrow> c \<le> maxTaskConcurrency hb"
    and "capset_capacity r' r required hb snaps = Some c \<Longrightarrow> c \<le> maxTaskConcurrency hb"
  using assms by (auto simp: effective_capacity_def cap_of_rule_def capset_capacity_def split: option.splits if_splits)

text \<open>What every request of every command carries.\<close>

definition request_bounded :: "int \<Rightarrow> DesiredTaskConcurrencyRequest \<Rightarrow> bool" where
  "request_bounded b r \<longleftrightarrow> 0 \<le> taskConcurrency r \<and> taskConcurrency r \<le> b"

lemma build_bounded:
  "0 \<le> b \<Longrightarrow> (\<And>caps n. (caps, n) \<in> set ds \<Longrightarrow> n \<le> b) \<Longrightarrow> r \<in> set (build_set_desired_command ds) \<Longrightarrow> request_bounded b r"
  by (auto simp: build_set_desired_command_def request_bounded_def)

lemma clamp_le: "mc \<noteq> -1 \<Longrightarrow> clamp_concurrency mc n \<le> mc"
  by (simp add: clamp_concurrency_def)

lemma scaling_commands_bounded:
  assumes mc: "0 \<le> maxTaskConcurrency hb" and tasks: "snap_tasks snap \<noteq> []"
    and c: "c \<in> set (fst (get_scaling_commands snap hb managed snaps sc))" and r: "r \<in> set c"
  shows "request_bounded (maxTaskConcurrency hb) r"
proof (cases sc)
  case NoScaling
  then show ?thesis using c by (simp add: get_scaling_commands_def)
next
  case (VanillaScaling logged)
  then show ?thesis using c r mc vanilla_desired_bounds(1,2)
    by (auto simp: get_scaling_commands_def vanilla_scaling_commands_def Let_def build_set_desired_command_def request_bounded_def)
next
  case (CapabilityScaling logged)
  have "n \<le> maxTaskConcurrency hb" if "(caps, n) \<in> set (capability_desired_per_capset groups hb)" for caps n groups
    using that mc by (auto simp: capability_desired_per_capset_def intro: clamp_le split: list.splits)
  then show ?thesis using c r mc CapabilityScaling
    by (auto simp: get_scaling_commands_def capability_scaling_commands_def Let_def intro: build_bounded)
next
  case (WaterfallScaling rules)
  have cs: "c \<in> set (waterfall_scaling_commands rules snap hb snaps)"
    using c WaterfallScaling by (simp add: get_scaling_commands_def)
  then obtain rule where "waterfall_find_rule rules (workerManagerID hb) = Some rule"
    by (cases "waterfall_find_rule rules (workerManagerID hb)") (simp_all add: waterfall_scaling_commands_def)
  with cs have rule: "c = build_set_desired_command (waterfall_desired_per_capset rules rule snap hb snaps)"
    by (simp add: waterfall_scaling_commands_def)
  have generic: "allocate_generic_desired rules rule snap hb snaps \<le> maxTaskConcurrency hb"
    unfolding allocate_generic_desired_def using tasks mc
    by (simp, intro waterfall_walk_le) (auto intro: capacity_le_reported(1))
  have capset: "allocate_capset_desired rules rule required snap hb snaps \<le> maxTaskConcurrency hb" for required
    unfolding allocate_capset_desired_def Let_def using mc
    by (auto intro!: waterfall_walk_le intro: capacity_le_reported(2))
  show ?thesis
    by (rule build_bounded [OF mc _ r [unfolded rule]])
      (use generic capset in \<open>auto simp: waterfall_desired_per_capset_def Let_def split: if_splits\<close>)
qed

end
