(* ===== verification/Relations.thy ===== *)
theory Relations
  imports Prelude
begin

text \<open>
  The two relation containers the controllers use: \<open>OneToManyDict\<close> (a client and its
  tasks) and \<open>ManyToManyDict\<close> (objects and the clients that keep them alive, tasks and
  the tasks that depend on them). Both are C++ (\<open>src/src/cpp/scaler/utility\<close>) behind
  Python bindings, whose exceptions are the errors here. Each keeps two indexes; the
  invariants say that the indexes describe one relation.
\<close>

section \<open>OneToManyDict\<close>

record ('k, 'v) one_to_many =
  otm_key_to_values :: "('k, 'v list) dict"
  otm_value_to_key :: "('v, 'k) dict"

definition otm_empty :: "('k, 'v) one_to_many" where
  "otm_empty = \<lparr>otm_key_to_values = [], otm_value_to_key = []\<rparr>"

definition otm_has_key :: "('k, 'v) one_to_many \<Rightarrow> 'k \<Rightarrow> bool" where
  "otm_has_key d k = dict_has (otm_key_to_values d) k"

definition otm_has_value :: "('k, 'v) one_to_many \<Rightarrow> 'v \<Rightarrow> bool" where
  "otm_has_value d v = dict_has (otm_value_to_key d) v"

definition otm_get_key :: "('k, 'v) one_to_many \<Rightarrow> 'v \<Rightarrow> py_exn + 'k" where
  "otm_get_key d v = (case dict_get (otm_value_to_key d) v of None \<Rightarrow> Inl ValueError | Some k \<Rightarrow> Inr k)"

definition otm_get_values :: "('k, 'v) one_to_many \<Rightarrow> 'k \<Rightarrow> py_exn + 'v list" where
  "otm_get_values d k = (case dict_get (otm_key_to_values d) k of None \<Rightarrow> Inl ValueError | Some vs \<Rightarrow> Inr vs)"

text \<open>\<open>operator[]\<close> of the key index: the present values, or a new empty set.\<close>

definition otm_values :: "('k, 'v) one_to_many \<Rightarrow> 'k \<Rightarrow> 'v list" where
  "otm_values d k = (case dict_get (otm_key_to_values d) k of None \<Rightarrow> [] | Some vs \<Rightarrow> vs)"

definition otm_add :: "'k \<Rightarrow> 'v \<Rightarrow> ('k, 'v) one_to_many \<Rightarrow> py_exn + ('k, 'v) one_to_many" where
  "otm_add k v d =
     (case dict_get (otm_value_to_key d) v of
        Some k' \<Rightarrow> if k' \<noteq> k then Inl ValueError
                   else Inr \<lparr>otm_key_to_values = dict_set k (set_add v (otm_values d k)) (otm_key_to_values d),
                             otm_value_to_key = dict_set v k (otm_value_to_key d)\<rparr>
      | None \<Rightarrow> Inr \<lparr>otm_key_to_values = dict_set k (set_add v (otm_values d k)) (otm_key_to_values d),
                    otm_value_to_key = dict_set v k (otm_value_to_key d)\<rparr>)"

text \<open>Removing a value: a key left without values disappears.\<close>

definition otm_remove_value ::
  "'v \<Rightarrow> ('k, 'v) one_to_many \<Rightarrow> (py_exn + 'k) \<times> ('k, 'v) one_to_many" where
  "otm_remove_value v d =
     (case dict_get (otm_value_to_key d) v of
        None \<Rightarrow> (Inl ValueError, d)
      | Some k \<Rightarrow>
          let d1 = d\<lparr>otm_value_to_key := dict_pop v (otm_value_to_key d)\<rparr>
          in (case dict_get (otm_key_to_values d) k of
                None \<Rightarrow> (Inl ValueError, d1)
              | Some vs \<Rightarrow>
                  let vs' = remove1 v vs
                  in (Inr k, d1\<lparr>otm_key_to_values :=
                        (if vs' = [] then dict_pop k (otm_key_to_values d)
                         else dict_set k vs' (otm_key_to_values d))\<rparr>)))"

definition otm_inv :: "('k, 'v) one_to_many \<Rightarrow> bool" where
  "otm_inv d \<longleftrightarrow>
     dict_ok (otm_key_to_values d) \<and> dict_ok (otm_value_to_key d) \<and>
     (\<forall>k vs. dict_get (otm_key_to_values d) k = Some vs \<longrightarrow> vs \<noteq> [] \<and> distinct vs) \<and>
     (\<forall>k v. dict_get (otm_value_to_key d) v = Some k \<longleftrightarrow> v \<in> set (otm_values d k))"

text \<open>The owner of a value: the relation the dictionary stands for.\<close>

definition otm_owner :: "('k, 'v) one_to_many \<Rightarrow> 'v \<Rightarrow> 'k option" where
  "otm_owner d v = dict_get (otm_value_to_key d) v"

lemma otm_inv_empty [simp]: "otm_inv otm_empty"
  by (simp add: otm_inv_def otm_empty_def otm_values_def)

lemma otm_owner_empty [simp]: "otm_owner otm_empty v = None"
  by (simp add: otm_owner_def otm_empty_def)

lemma otm_has_value_iff: "otm_has_value d v \<longleftrightarrow> otm_owner d v \<noteq> None"
  by (simp add: otm_has_value_def otm_owner_def dict_has_iff)

lemma otm_values_iff: "otm_inv d \<Longrightarrow> v \<in> set (otm_values d k) \<longleftrightarrow> otm_owner d v = Some k"
  unfolding otm_inv_def otm_owner_def by blast

lemma otm_has_key_iff: "otm_inv d \<Longrightarrow> otm_has_key d k \<longleftrightarrow> (\<exists>v. otm_owner d v = Some k)"
proof -
  assume inv: "otm_inv d"
  have "otm_has_key d k \<longleftrightarrow> otm_values d k \<noteq> []"
    using inv by (auto simp: otm_has_key_def dict_has_iff otm_values_def otm_inv_def split: option.splits)
  also have "\<dots> \<longleftrightarrow> (\<exists>v. v \<in> set (otm_values d k))"
    by (simp add: ex_in_conv)
  finally show ?thesis by (simp add: otm_values_iff [OF inv])
qed

lemma otm_get_values_iff:
  "otm_inv d \<Longrightarrow> otm_get_values d k = Inr vs \<Longrightarrow> distinct vs \<and> (\<forall>v. v \<in> set vs \<longleftrightarrow> otm_owner d v = Some k)"
proof -
  assume inv: "otm_inv d" and g: "otm_get_values d k = Inr vs"
  then have "dict_get (otm_key_to_values d) k = Some vs"
    by (simp add: otm_get_values_def split: option.splits)
  then have "otm_values d k = vs" "distinct vs" using inv by (auto simp: otm_values_def otm_inv_def)
  then show ?thesis using otm_values_iff [OF inv, of _ k] by simp
qed

lemma otm_add_fail_iff: "otm_add k v d = Inl e \<Longrightarrow> \<exists>k'. otm_owner d v = Some k' \<and> k' \<noteq> k"
  by (auto simp: otm_add_def otm_owner_def split: option.splits if_splits)

lemma otm_add_foreign: "otm_owner d v = Some k' \<Longrightarrow> k' \<noteq> k \<Longrightarrow> otm_add k v d = Inl ValueError"
  by (simp add: otm_add_def otm_owner_def)

lemma otm_add_spec:
  assumes inv: "otm_inv d" and a: "otm_add k v d = Inr d'"
  shows "otm_inv d'" and "otm_owner d' = (otm_owner d)(v \<mapsto> k)"
proof -
  have free: "otm_owner d v = None \<or> otm_owner d v = Some k"
    using a by (auto simp: otm_add_def otm_owner_def split: option.splits if_splits)
  have d': "d' = \<lparr>otm_key_to_values = dict_set k (set_add v (otm_values d k)) (otm_key_to_values d),
      otm_value_to_key = dict_set v k (otm_value_to_key d)\<rparr>"
    using a by (auto simp: otm_add_def split: option.splits if_splits)
  have vals: "otm_values d' j = (if j = k then set_add v (otm_values d k) else otm_values d j)" for j
    by (simp add: otm_values_def d')
  have other: "v \<notin> set (otm_values d j)" if "j \<noteq> k" for j
    using free that by (auto simp: otm_values_iff [OF inv])
  have dk: "distinct (otm_values d k)" using inv by (auto simp: otm_inv_def otm_values_def split: option.splits)
  have ow: "otm_owner d' u = (if u = v then Some k else otm_owner d u)" for u
    by (simp add: otm_owner_def d')
  then show "otm_owner d' = (otm_owner d)(v \<mapsto> k)" by auto
  have "otm_owner d' u = Some j \<longleftrightarrow> u \<in> set (otm_values d' j)" for u j
    using other [of j] otm_values_iff [OF inv, of u j] otm_values_iff [OF inv, of u k]
    unfolding ow vals by auto
  then show "otm_inv d'"
    using inv dk unfolding otm_inv_def otm_owner_def
    by (auto simp: d' set_add_def)
qed

lemma otm_remove_value_spec:
  assumes inv: "otm_inv d" and o: "otm_owner d v = Some k"
  shows "fst (otm_remove_value v d) = Inr k" and "otm_inv (snd (otm_remove_value v d))"
    and "otm_owner (snd (otm_remove_value v d)) = (otm_owner d)(v := None)"
proof -
  obtain vs where vs: "dict_get (otm_key_to_values d) k = Some vs" "v \<in> set vs" "distinct vs"
  proof -
    have "v \<in> set (otm_values d k)" using o by (simp add: otm_values_iff [OF inv])
    then obtain vs where "dict_get (otm_key_to_values d) k = Some vs" "v \<in> set vs"
      by (cases "dict_get (otm_key_to_values d) k") (auto simp: otm_values_def)
    with inv that show ?thesis by (auto simp: otm_inv_def)
  qed
  let ?d' = "snd (otm_remove_value v d)"
  have d': "?d' = \<lparr>otm_key_to_values = (if remove1 v vs = [] then dict_pop k (otm_key_to_values d)
        else dict_set k (remove1 v vs) (otm_key_to_values d)),
      otm_value_to_key = dict_pop v (otm_value_to_key d)\<rparr>"
    using o vs by (simp add: otm_remove_value_def otm_owner_def Let_def)
  show "fst (otm_remove_value v d) = Inr k"
    using o vs by (simp add: otm_remove_value_def otm_owner_def Let_def)
  show "otm_owner ?d' = (otm_owner d)(v := None)"
    by (simp add: d' otm_owner_def fun_eq_iff)
  have vals: "otm_values ?d' j = (if j = k then remove1 v vs else otm_values d j)" for j
    by (simp add: d' otm_values_def)
  have ow: "otm_owner ?d' u = (if u = v then None else otm_owner d u)" for u
    by (simp add: d' otm_owner_def)
  have vk: "otm_values d k = vs" using vs by (simp add: otm_values_def)
  have "otm_owner ?d' u = Some j \<longleftrightarrow> u \<in> set (otm_values ?d' j)" for u j
    using otm_values_iff [OF inv, of u j] vs o unfolding ow vals by (auto simp: vk)
  then show "otm_inv ?d'"
    using inv vs(3) unfolding otm_inv_def otm_owner_def by (auto simp: d')
qed

lemma otm_remove_value_absent: "otm_owner d v = None \<Longrightarrow> otm_remove_value v d = (Inl ValueError, d)"
  by (simp add: otm_remove_value_def otm_owner_def)

section \<open>ManyToManyDict\<close>

text \<open>\<open>KeyValueDictSet\<close>: keys with non-empty sets of values.\<close>

type_synonym ('k, 'v) key_value_set = "('k, 'v list) dict"

definition kvs_values :: "('k, 'v) key_value_set \<Rightarrow> 'k \<Rightarrow> 'v list" where
  "kvs_values d k = (case dict_get d k of None \<Rightarrow> [] | Some vs \<Rightarrow> vs)"

definition kvs_add :: "'k \<Rightarrow> 'v \<Rightarrow> ('k, 'v) key_value_set \<Rightarrow> ('k, 'v) key_value_set" where
  "kvs_add k v d = dict_set k (set_add v (kvs_values d k)) d"

definition kvs_remove_value :: "'k \<Rightarrow> 'v \<Rightarrow> ('k, 'v) key_value_set \<Rightarrow> bool \<times> ('k, 'v) key_value_set" where
  "kvs_remove_value k v d =
     (case dict_get d k of
        None \<Rightarrow> (False, d)
      | Some vs \<Rightarrow>
          if v \<notin> set vs then (False, d)
          else let vs' = remove1 v vs
               in (True, if vs' = [] then dict_pop k d else dict_set k vs' d))"

definition kvs_ok :: "('k, 'v) key_value_set \<Rightarrow> bool" where
  "kvs_ok d \<longleftrightarrow> dict_ok d \<and> (\<forall>k vs. dict_get d k = Some vs \<longrightarrow> vs \<noteq> [] \<and> distinct vs)"

lemma kvs_values_empty [simp]: "kvs_values [] k = []"
  by (simp add: kvs_values_def)

lemma kvs_values_add [simp]: "kvs_values (kvs_add k v d) j = (if j = k then set_add v (kvs_values d k) else kvs_values d j)"
  by (simp add: kvs_values_def kvs_add_def)

lemma kvs_ok_values: "kvs_ok d \<Longrightarrow> distinct (kvs_values d k)"
  by (simp add: kvs_ok_def kvs_values_def split: option.splits)

lemma kvs_has_iff: "kvs_ok d \<Longrightarrow> dict_has d k \<longleftrightarrow> kvs_values d k \<noteq> []"
  by (auto simp: kvs_ok_def kvs_values_def dict_has_iff split: option.splits)

lemma kvs_ok_add: "kvs_ok d \<Longrightarrow> kvs_ok (kvs_add k v d)"
  using kvs_ok_values [of d k] by (auto simp: kvs_ok_def kvs_add_def set_add_def)

lemma kvs_remove_value_spec:
  assumes "kvs_ok d"
  shows "fst (kvs_remove_value k v d) \<longleftrightarrow> v \<in> set (kvs_values d k)"
    and "kvs_ok (snd (kvs_remove_value k v d))"
    and "set (kvs_values (snd (kvs_remove_value k v d)) j) =
      (if j = k then set (kvs_values d k) - {v} else set (kvs_values d j))"
proof -
  have ok: "dict_ok d" and ne: "dict_get d k = Some vs \<Longrightarrow> vs \<noteq> [] \<and> distinct vs" for k vs
    using assms by (auto simp: kvs_ok_def)
  have sing: "remove1 v vs = [] \<Longrightarrow> v \<in> set vs \<Longrightarrow> set vs = {v}" for vs
    by (cases vs) (auto split: if_splits)
  show "fst (kvs_remove_value k v d) \<longleftrightarrow> v \<in> set (kvs_values d k)"
    by (simp add: kvs_remove_value_def kvs_values_def Let_def split: option.splits)
  show "kvs_ok (snd (kvs_remove_value k v d))"
    using ok ne by (auto simp: kvs_remove_value_def kvs_ok_def Let_def split: option.splits)
  show "set (kvs_values (snd (kvs_remove_value k v d)) j) =
      (if j = k then set (kvs_values d k) - {v} else set (kvs_values d j))"
  proof (cases "dict_get d k")
    case None
    then show ?thesis by (simp add: kvs_remove_value_def kvs_values_def)
  next
    case (Some vs)
    then show ?thesis
      using ne [of k vs] sing [of vs] by (auto simp: kvs_remove_value_def kvs_values_def Let_def)
  qed
qed

record ('l, 'r) many_to_many =
  mtm_left :: "('l, 'r) key_value_set"
  mtm_right :: "('r, 'l) key_value_set"

definition mtm_empty :: "('l, 'r) many_to_many" where
  "mtm_empty = \<lparr>mtm_left = [], mtm_right = []\<rparr>"

definition mtm_add :: "'l \<Rightarrow> 'r \<Rightarrow> ('l, 'r) many_to_many \<Rightarrow> ('l, 'r) many_to_many" where
  "mtm_add l r d = \<lparr>mtm_left = kvs_add l r (mtm_left d), mtm_right = kvs_add r l (mtm_right d)\<rparr>"

text \<open>\<open>remove\<close> short-circuits: a pair missing on the left leaves the right index alone.\<close>

definition mtm_remove ::
  "'l \<Rightarrow> 'r \<Rightarrow> ('l, 'r) many_to_many \<Rightarrow> (py_exn + unit) \<times> ('l, 'r) many_to_many" where
  "mtm_remove l r d =
     (let (found, left) = kvs_remove_value l r (mtm_left d)
      in if \<not> found then (Inl KeyError, d\<lparr>mtm_left := left\<rparr>)
         else let (found', right) = kvs_remove_value r l (mtm_right d)
              in (if found' then Inr () else Inl KeyError, \<lparr>mtm_left = left, mtm_right = right\<rparr>))"

definition mtm_has_left_key :: "('l, 'r) many_to_many \<Rightarrow> 'l \<Rightarrow> bool" where
  "mtm_has_left_key d l = dict_has (mtm_left d) l"

definition mtm_has_right_key :: "('l, 'r) many_to_many \<Rightarrow> 'r \<Rightarrow> bool" where
  "mtm_has_right_key d r = dict_has (mtm_right d) r"

definition mtm_has_key_pair :: "('l, 'r) many_to_many \<Rightarrow> 'l \<Rightarrow> 'r \<Rightarrow> bool" where
  "mtm_has_key_pair d l r =
     (r \<in> set (kvs_values (mtm_left d) l) \<and> l \<in> set (kvs_values (mtm_right d) r) \<and>
      mtm_has_left_key d l \<and> mtm_has_right_key d r)"

definition mtm_get_left_items :: "('l, 'r) many_to_many \<Rightarrow> 'r \<Rightarrow> py_exn + 'l list" where
  "mtm_get_left_items d r = (case dict_get (mtm_right d) r of None \<Rightarrow> Inl ValueError | Some ls \<Rightarrow> Inr ls)"

definition mtm_pairs :: "('l, 'r) many_to_many \<Rightarrow> ('l \<times> 'r) set" where
  "mtm_pairs d = {(l, r). r \<in> set (kvs_values (mtm_left d) l)}"

definition mtm_inv :: "('l, 'r) many_to_many \<Rightarrow> bool" where
  "mtm_inv d \<longleftrightarrow> kvs_ok (mtm_left d) \<and> kvs_ok (mtm_right d) \<and>
     (\<forall>l r. r \<in> set (kvs_values (mtm_left d) l) \<longleftrightarrow> l \<in> set (kvs_values (mtm_right d) r))"

lemma mtm_inv_empty [simp]: "mtm_inv mtm_empty"
  by (simp add: mtm_inv_def mtm_empty_def kvs_ok_def)

lemma mtm_pairs_empty [simp]: "mtm_pairs mtm_empty = {}"
  by (simp add: mtm_pairs_def mtm_empty_def)

lemma mtm_right_iff: "mtm_inv d \<Longrightarrow> l \<in> set (kvs_values (mtm_right d) r) \<longleftrightarrow> (l, r) \<in> mtm_pairs d"
  by (auto simp: mtm_inv_def mtm_pairs_def)

lemma mtm_has_left_key_iff: "mtm_inv d \<Longrightarrow> mtm_has_left_key d l \<longleftrightarrow> (\<exists>r. (l, r) \<in> mtm_pairs d)"
  using kvs_has_iff [of "mtm_left d" l]
  unfolding mtm_has_left_key_def mtm_pairs_def mtm_inv_def
  by (metis (no_types, lifting) case_prod_conv list.set_intros(1) mem_Collect_eq neq_Nil_conv empty_iff empty_set)

lemma mtm_has_right_key_iff: "mtm_inv d \<Longrightarrow> mtm_has_right_key d r \<longleftrightarrow> (\<exists>l. (l, r) \<in> mtm_pairs d)"
proof -
  assume inv: "mtm_inv d"
  then have "mtm_has_right_key d r \<longleftrightarrow> (\<exists>l. l \<in> set (kvs_values (mtm_right d) r))"
    by (simp add: mtm_has_right_key_def kvs_has_iff mtm_inv_def ex_in_conv)
  with inv show ?thesis by (simp add: mtm_right_iff)
qed

lemma mtm_has_key_pair_iff: "mtm_inv d \<Longrightarrow> mtm_has_key_pair d l r \<longleftrightarrow> (l, r) \<in> mtm_pairs d"
  by (auto simp: mtm_has_key_pair_def mtm_has_left_key_iff mtm_has_right_key_iff mtm_right_iff)
    (auto simp: mtm_pairs_def)

lemma mtm_add_spec:
  assumes "mtm_inv d"
  shows "mtm_inv (mtm_add l r d)" and "mtm_pairs (mtm_add l r d) = insert (l, r) (mtm_pairs d)"
  using assms by (auto simp: mtm_inv_def mtm_add_def kvs_ok_add mtm_pairs_def split: if_splits)

lemma mtm_remove_spec:
  assumes inv: "mtm_inv d" and p: "(l, r) \<in> mtm_pairs d"
  shows "fst (mtm_remove l r d) = Inr ()" and "mtm_inv (snd (mtm_remove l r d))"
    and "mtm_pairs (snd (mtm_remove l r d)) = mtm_pairs d - {(l, r)}"
proof -
  have L: "kvs_ok (mtm_left d)" and R: "kvs_ok (mtm_right d)" using inv by (auto simp: mtm_inv_def)
  note left = kvs_remove_value_spec [OF L, where k = l and v = r]
  note right = kvs_remove_value_spec [OF R, where k = r and v = l]
  have f: "fst (kvs_remove_value l r (mtm_left d))" "fst (kvs_remove_value r l (mtm_right d))"
    using p left(1) right(1) by (auto simp: mtm_right_iff [OF inv]) (simp add: mtm_pairs_def)
  then show "fst (mtm_remove l r d) = Inr ()" by (simp add: mtm_remove_def split_beta)
  have d': "snd (mtm_remove l r d) = \<lparr>mtm_left = snd (kvs_remove_value l r (mtm_left d)),
      mtm_right = snd (kvs_remove_value r l (mtm_right d))\<rparr>"
    using f by (simp add: mtm_remove_def split_beta)
  show "mtm_pairs (snd (mtm_remove l r d)) = mtm_pairs d - {(l, r)}"
    by (auto simp: d' mtm_pairs_def left(3) split: if_splits)
  show "mtm_inv (snd (mtm_remove l r d))"
    using inv left(2) right(2) unfolding mtm_inv_def by (auto simp: d' left(3) right(3))
qed

lemma mtm_get_left_items_iff:
  assumes inv: "mtm_inv d" and g: "mtm_get_left_items d r = Inr ls"
  shows "distinct ls" and "set ls = {l. (l, r) \<in> mtm_pairs d}"
proof -
  have "kvs_values (mtm_right d) r = ls"
    using g by (auto simp: mtm_get_left_items_def kvs_values_def split: option.splits)
  with kvs_ok_values [of "mtm_right d" r] mtm_right_iff [OF inv, of _ r] inv
  show "distinct ls" "set ls = {l. (l, r) \<in> mtm_pairs d}" by (auto simp: mtm_inv_def)
qed

end
