(* ===== verification/Objects.thy ===== *)
theory Objects
  imports Relations Protocol
begin

text \<open>
  Object lifetime in the scheduler: \<open>ObjectTracker\<close>
  (\<open>src/src/scaler/scheduler/object_usage/object_tracker.py\<close>) and the operations of
  \<open>VanillaObjectController\<close> (\<open>controllers/object_controller.py\<close>) on it. An object is kept
  while some client blocks it; when the last block goes, it leaves the tracker and its id
  is queued for deletion, exactly once. Sets given as arguments are lists in the order
  they are iterated.
\<close>

section \<open>ObjectTracker\<close>

record ('b, 'k, 'v) object_tracker =
  ot_blocks :: "'b list"
  ot_pairs :: "('k, 'b) many_to_many"
  ot_objects :: "('k, 'v) dict"

definition ot_init :: "('b, 'k, 'v) object_tracker" where
  "ot_init = \<lparr>ot_blocks = [], ot_pairs = mtm_empty, ot_objects = []\<rparr>"

definition ot_object_count :: "('b, 'k, 'v) object_tracker \<Rightarrow> nat" where
  "ot_object_count tr = length (ot_objects tr)"

definition ot_has_object :: "('b, 'k, 'v) object_tracker \<Rightarrow> 'k \<Rightarrow> bool" where
  "ot_has_object tr k = dict_has (ot_objects tr) k"

definition ot_add_object :: "'k \<Rightarrow> 'v \<Rightarrow> ('b, 'k, 'v) object_tracker \<Rightarrow> ('b, 'k, 'v) object_tracker" where
  "ot_add_object k v tr = tr\<lparr>ot_objects := dict_set k v (ot_objects tr)\<rparr>"

definition ot_add_blocks_for_one_object :: "'k \<Rightarrow> 'b list \<Rightarrow> (unit, ('b, 'k, 'v) object_tracker) comp" where
  "ot_add_blocks_for_one_object k blocks tr =
     (if \<not> dict_has (ot_objects tr) k then Raise KeyError tr
      else Ret () (tr\<lparr>ot_pairs := fold (mtm_add k) blocks (ot_pairs tr),
                      ot_blocks := fold set_add blocks (ot_blocks tr)\<rparr>))"

definition ot_add_one_block_for_objects :: "'k list \<Rightarrow> 'b \<Rightarrow> (unit, ('b, 'k, 'v) object_tracker) comp" where
  "ot_add_one_block_for_objects keys b =
     seq (for_each keys (\<lambda>k tr. if \<not> dict_has (ot_objects tr) k then Raise KeyError tr
                                else Ret () (tr\<lparr>ot_pairs := mtm_add k b (ot_pairs tr)\<rparr>)))
         (modify (\<lambda>tr. tr\<lparr>ot_blocks := set_add b (ot_blocks tr)\<rparr>))"

text \<open>\<open>__remove_block_for_object\<close>: the object, if this was its last block.\<close>

definition ot_remove_block_for_object :: "'k \<Rightarrow> 'b \<Rightarrow> ('v option, ('b, 'k, 'v) object_tracker) comp" where
  "ot_remove_block_for_object k b tr =
     (if b \<notin> set (ot_blocks tr) then Ret None tr
      else if \<not> dict_has (ot_objects tr) k then Ret None tr
      else if \<not> mtm_has_key_pair (ot_pairs tr) k b then Ret None tr
      else let (r, pairs) = mtm_remove k b (ot_pairs tr); tr1 = tr\<lparr>ot_pairs := pairs\<rparr>
           in (case r of
                 Inl e \<Rightarrow> Raise e tr1
               | Inr _ \<Rightarrow>
                   let tr2 = (if \<not> mtm_has_right_key pairs b
                              then tr1\<lparr>ot_blocks := removeAll b (ot_blocks tr1)\<rparr> else tr1)
                   in if mtm_has_left_key pairs k then Ret None tr2
                      else Ret (dict_get (ot_objects tr2) k) (tr2\<lparr>ot_objects := dict_pop k (ot_objects tr2)\<rparr>)))"

text \<open>The loops collect the objects that became ready, in order.\<close>

fun ot_remove_pairs :: "('k \<times> 'b) list \<Rightarrow> ('v list, ('b, 'k, 'v) object_tracker) comp" where
  "ot_remove_pairs [] = ret []"
| "ot_remove_pairs ((k, b) # ps) =
     andthen (ot_remove_block_for_object k b) (\<lambda>r.
     andthen (ot_remove_pairs ps) (\<lambda>vs. ret (case r of None \<Rightarrow> vs | Some v \<Rightarrow> v # vs)))"

definition ot_remove_blocks_for_one_object :: "'k \<Rightarrow> 'b list \<Rightarrow> ('v list, ('b, 'k, 'v) object_tracker) comp" where
  "ot_remove_blocks_for_one_object k blocks = ot_remove_pairs (map (Pair k) blocks)"

definition ot_remove_one_block_for_objects :: "'k list \<Rightarrow> 'b \<Rightarrow> ('v list, ('b, 'k, 'v) object_tracker) comp" where
  "ot_remove_one_block_for_objects keys b = ot_remove_pairs (map (\<lambda>k. (k, b)) keys)"

fun ot_remove_blocks :: "'b list \<Rightarrow> ('v list, ('b, 'k, 'v) object_tracker) comp" where
  "ot_remove_blocks [] = ret []"
| "ot_remove_blocks (b # bs) = (\<lambda>tr.
     if \<not> mtm_has_right_key (ot_pairs tr) b then ot_remove_blocks bs tr
     else (case mtm_get_left_items (ot_pairs tr) b of
             Inl e \<Rightarrow> Raise e tr
           | Inr keys \<Rightarrow> andthen (ot_remove_pairs (map (\<lambda>k. (k, b)) keys)) (\<lambda>vs.
                          andthen (ot_remove_blocks bs) (\<lambda>ws. ret (vs @ ws))) tr))"

section \<open>The invariant of the tracker\<close>

text \<open>
  The blocks are those of some pair, and the objects are exactly those some block holds.
\<close>

definition ot_inv :: "('b, 'k, 'v) object_tracker \<Rightarrow> bool" where
  "ot_inv tr \<longleftrightarrow> mtm_inv (ot_pairs tr) \<and> dict_ok (ot_objects tr) \<and>
     (\<forall>b. b \<in> set (ot_blocks tr) \<longleftrightarrow> (\<exists>k. (k, b) \<in> mtm_pairs (ot_pairs tr))) \<and>
     (\<forall>k. dict_has (ot_objects tr) k \<longleftrightarrow> (\<exists>b. (k, b) \<in> mtm_pairs (ot_pairs tr)))"

definition ot_blocked_by :: "('b, 'k, 'v) object_tracker \<Rightarrow> 'k \<Rightarrow> 'b set" where
  "ot_blocked_by tr k = {b. (k, b) \<in> mtm_pairs (ot_pairs tr)}"

lemma ot_inv_init [simp]: "ot_inv ot_init"
  by (simp add: ot_inv_def ot_init_def)

lemma ot_blocked_init [simp]: "ot_blocked_by ot_init k = {}"
  by (simp add: ot_blocked_by_def ot_init_def)

lemma ot_invD:
  assumes "ot_inv tr"
  shows "mtm_inv (ot_pairs tr)" "dict_ok (ot_objects tr)"
    "b \<in> set (ot_blocks tr) \<longleftrightarrow> (\<exists>k. b \<in> ot_blocked_by tr k)"
    "dict_has (ot_objects tr) k \<longleftrightarrow> ot_blocked_by tr k \<noteq> {}"
  using assms by (auto simp: ot_inv_def ot_blocked_by_def)

lemma fold_mtm_add:
  "mtm_inv d \<Longrightarrow> mtm_inv (fold (mtm_add k) bs d) \<and> mtm_pairs (fold (mtm_add k) bs d) = mtm_pairs d \<union> {k} \<times> set bs"
  by (induction bs arbitrary: d) (auto simp: mtm_add_spec)

lemma set_fold_set_add: "set (fold set_add bs xs) = set xs \<union> set bs"
  by (induction bs arbitrary: xs) auto

text \<open>Adding an object together with a first block keeps the invariant.\<close>

lemma ot_add_blocked:
  assumes inv: "ot_inv tr"
  shows "\<exists>tr'. ot_add_blocks_for_one_object k (b # bs) (ot_add_object k v tr) = Ret () tr' \<and> ot_inv tr' \<and>
    dict_get (ot_objects tr') = (dict_get (ot_objects tr))(k \<mapsto> v) \<and>
    ot_blocked_by tr' = (ot_blocked_by tr)(k := ot_blocked_by tr k \<union> insert b (set bs))"
proof -
  let ?tr' = "tr\<lparr>ot_objects := dict_set k v (ot_objects tr), ot_pairs := fold (mtm_add k) (b # bs) (ot_pairs tr),
      ot_blocks := fold set_add (b # bs) (ot_blocks tr)\<rparr>"
  have run: "ot_add_blocks_for_one_object k (b # bs) (ot_add_object k v tr) = Ret () ?tr'"
    by (simp add: ot_add_blocks_for_one_object_def ot_add_object_def)
  have p: "mtm_inv (ot_pairs ?tr')" "mtm_pairs (ot_pairs ?tr') = mtm_pairs (ot_pairs tr) \<union> {k} \<times> set (b # bs)"
    using fold_mtm_add [OF ot_invD(1) [OF inv], of k "b # bs"] by auto
  have bl: "set (ot_blocks ?tr') = set (ot_blocks tr) \<union> set (b # bs)" by (auto simp: set_fold_set_add)
  have "ot_inv ?tr'"
    unfolding ot_inv_def p(2) bl using inv p(1) unfolding ot_inv_def by auto
  moreover have "ot_blocked_by ?tr' = (ot_blocked_by tr)(k := ot_blocked_by tr k \<union> insert b (set bs))"
    unfolding ot_blocked_by_def p(2) by (auto simp: fun_eq_iff)
  ultimately show ?thesis using run by (auto simp: fun_eq_iff)
qed

lemma ot_remove_block_spec:
  assumes inv: "ot_inv tr"
  shows "\<exists>tr'. ot_remove_block_for_object k b tr =
      Ret (if ot_blocked_by tr k = {b} then dict_get (ot_objects tr) k else None) tr' \<and> ot_inv tr' \<and>
    ot_blocked_by tr' = (ot_blocked_by tr)(k := ot_blocked_by tr k - {b}) \<and>
    (\<forall>j. dict_get (ot_objects tr') j = (if j = k \<and> ot_blocked_by tr k = {b} then None else dict_get (ot_objects tr) j))"
proof (cases "b \<in> ot_blocked_by tr k")
  case False
  have "ot_remove_block_for_object k b tr = Ret None tr"
    using False mtm_has_key_pair_iff [OF ot_invD(1) [OF inv], of k b]
    by (simp add: ot_remove_block_for_object_def ot_blocked_by_def)
  with False inv show ?thesis by (auto simp: fun_eq_iff)
next
  case True
  then have pair: "(k, b) \<in> mtm_pairs (ot_pairs tr)" by (simp add: ot_blocked_by_def)
  note rm = mtm_remove_spec [OF ot_invD(1) [OF inv] pair]
  let ?ps = "snd (mtm_remove k b (ot_pairs tr))"
  let ?last = "ot_blocked_by tr k = {b}"
  let ?bl = "if mtm_has_right_key ?ps b then ot_blocks tr else removeAll b (ot_blocks tr)"
  let ?ob = "if ?last then dict_pop k (ot_objects tr) else ot_objects tr"
  let ?tr' = "tr\<lparr>ot_pairs := ?ps, ot_blocks := ?bl, ot_objects := ?ob\<rparr>"
  have left: "mtm_has_left_key ?ps k \<longleftrightarrow> \<not> ?last"
    using True unfolding mtm_has_left_key_iff [OF rm(2)] rm(3) by (auto simp: ot_blocked_by_def)
  have guards: "b \<in> set (ot_blocks tr)" "dict_has (ot_objects tr) k" "mtm_has_key_pair (ot_pairs tr) k b"
    using True pair ot_invD(3,4) [OF inv] mtm_has_key_pair_iff [OF ot_invD(1) [OF inv], of k b] by auto
  have run: "ot_remove_block_for_object k b tr = Ret (if ?last then dict_get (ot_objects tr) k else None) ?tr'"
    using guards rm(1) left by (cases "mtm_remove k b (ot_pairs tr)") (auto simp: ot_remove_block_for_object_def Let_def)
  have bl: "c \<in> set ?bl \<longleftrightarrow> (\<exists>j. (j, c) \<in> mtm_pairs ?ps)" for c
    using ot_invD(3) [OF inv, of c] unfolding mtm_has_right_key_iff [OF rm(2)] rm(3)
    by (cases "c = b") (auto simp: ot_blocked_by_def)
  have ob: "dict_has ?ob j \<longleftrightarrow> (\<exists>c. (j, c) \<in> mtm_pairs ?ps)" for j
    using ot_invD(4) [OF inv, of j] unfolding rm(3) by (cases "j = k") (auto simp: ot_blocked_by_def)
  have "ot_inv ?tr'"
    unfolding ot_inv_def using rm(2) ot_invD(2) [OF inv] bl ob by simp
  moreover have "ot_blocked_by ?tr' = (ot_blocked_by tr)(k := ot_blocked_by tr k - {b})"
    by (auto simp: ot_blocked_by_def rm(3) fun_eq_iff)
  ultimately show ?thesis using run by auto
qed

text \<open>
  What removing blocks does to the objects: the ones that lose their last block leave the
  tracker and are returned, once each; the others keep their value.
\<close>

definition removal :: "('b, 'k, 'v) object_tracker \<Rightarrow> 'v list \<Rightarrow> ('b, 'k, 'v) object_tracker \<Rightarrow> bool" where
  "removal tr vs tr' \<longleftrightarrow> ot_inv tr' \<and>
     (\<forall>k. dict_get (ot_objects tr') k = (if ot_blocked_by tr' k = {} then None else dict_get (ot_objects tr) k)) \<and>
     (\<exists>ks. distinct ks \<and> map Some vs = map (dict_get (ot_objects tr)) ks \<and>
        set ks = {k. ot_blocked_by tr k \<noteq> {} \<and> ot_blocked_by tr' k = {}})"

lemma ot_get_None: "ot_inv tr \<Longrightarrow> dict_get (ot_objects tr) k = None \<longleftrightarrow> ot_blocked_by tr k = {}"
  using ot_invD(4) [of tr k] by (auto simp: dict_has_iff)

lemma removal_refl: "ot_inv tr \<Longrightarrow> removal tr [] tr"
  using ot_get_None [of tr] by (auto simp: removal_def)

lemma removal_trans:
  assumes r1: "removal tr vs tr1" and r2: "removal tr1 ws tr2"
    and sub: "\<And>k. ot_blocked_by tr2 k \<subseteq> ot_blocked_by tr1 k" "\<And>k. ot_blocked_by tr1 k \<subseteq> ot_blocked_by tr k"
  shows "removal tr (vs @ ws) tr2"
proof -
  obtain ks where ks: "distinct ks" "map Some vs = map (dict_get (ot_objects tr)) ks"
      "set ks = {k. ot_blocked_by tr k \<noteq> {} \<and> ot_blocked_by tr1 k = {}}"
    using r1 by (auto simp: removal_def)
  obtain js where js: "distinct js" "map Some ws = map (dict_get (ot_objects tr1)) js"
      "set js = {k. ot_blocked_by tr1 k \<noteq> {} \<and> ot_blocked_by tr2 k = {}}"
    using r2 by (auto simp: removal_def)
  have "map (dict_get (ot_objects tr1)) js = map (dict_get (ot_objects tr)) js"
    using r1 js(3) by (intro map_cong) (auto simp: removal_def)
  then have "map Some (vs @ ws) = map (dict_get (ot_objects tr)) (ks @ js)" using ks(2) js(2) by simp
  moreover have "distinct (ks @ js)" using ks(1,3) js(1,3) by auto
  moreover have "ot_blocked_by tr1 k = {} \<Longrightarrow> ot_blocked_by tr2 k = {}" "ot_blocked_by tr k = {} \<Longrightarrow> ot_blocked_by tr1 k = {}" for k
    using sub [of k] by auto
  then have "set (ks @ js) = {k. ot_blocked_by tr k \<noteq> {} \<and> ot_blocked_by tr2 k = {}}"
    unfolding set_append ks(3) js(3) by blast
  moreover have "dict_get (ot_objects tr2) k = (if ot_blocked_by tr2 k = {} then None else dict_get (ot_objects tr) k)" for k
    using r1 r2 sub(1) [of k] by (auto simp: removal_def)
  moreover have "ot_inv tr2" using r2 by (simp add: removal_def)
  ultimately show ?thesis unfolding removal_def by blast
qed

lemma removal_one:
  assumes inv: "ot_inv tr"
  shows "\<exists>r tr'. ot_remove_block_for_object k b tr = Ret r tr' \<and> removal tr (case r of None \<Rightarrow> [] | Some v \<Rightarrow> [v]) tr' \<and>
    ot_blocked_by tr' = (ot_blocked_by tr)(k := ot_blocked_by tr k - {b})"
proof -
  let ?last = "ot_blocked_by tr k = {b}"
  obtain tr' where run: "ot_remove_block_for_object k b tr = Ret (if ?last then dict_get (ot_objects tr) k else None) tr'"
    and inv': "ot_inv tr'" and bl: "ot_blocked_by tr' = (ot_blocked_by tr)(k := ot_blocked_by tr k - {b})"
    and ob: "\<forall>j. dict_get (ot_objects tr') j = (if j = k \<and> ?last then None else dict_get (ot_objects tr) j)"
    using ot_remove_block_spec [OF inv, of k b] by blast
  have "removal tr (case if ?last then dict_get (ot_objects tr) k else None of None \<Rightarrow> [] | Some v \<Rightarrow> [v]) tr'"
  proof (cases ?last)
    case True
    then obtain v where v: "dict_get (ot_objects tr) k = Some v"
      using ot_get_None [OF inv, of k] by (cases "dict_get (ot_objects tr) k") auto
    have "{j. ot_blocked_by tr j \<noteq> {} \<and> ot_blocked_by tr' j = {}} = {k}" using True by (auto simp: bl)
    then have "\<exists>ks. distinct ks \<and> map Some [v] = map (dict_get (ot_objects tr)) ks \<and>
        set ks = {j. ot_blocked_by tr j \<noteq> {} \<and> ot_blocked_by tr' j = {}}"
      using v by (intro exI [of _ "[k]"]) simp
    then show ?thesis using True v inv' ob ot_get_None [OF inv] ot_get_None [OF inv'] by (auto simp: removal_def bl)
  next
    case False
    have "{j. ot_blocked_by tr j \<noteq> {} \<and> ot_blocked_by tr' j = {}} = {}" using False by (auto simp: bl)
    then show ?thesis using False inv' ob ot_get_None [OF inv] ot_get_None [OF inv'] by (auto simp: removal_def bl)
  qed
  with run bl show ?thesis by blast
qed

lemma ot_remove_pairs_spec:
  assumes "ot_inv tr"
  shows "\<exists>vs tr'. ot_remove_pairs ps tr = Ret vs tr' \<and> removal tr vs tr' \<and>
    ot_blocked_by tr' = (\<lambda>k. ot_blocked_by tr k - {b. (k, b) \<in> set ps})"
  using assms
proof (induction ps arbitrary: tr)
  case Nil
  then show ?case by (simp add: removal_refl)
next
  case (Cons p ps)
  obtain k b where p: "p = (k, b)" by (cases p)
  obtain r tr1 where one: "ot_remove_block_for_object k b tr = Ret r tr1"
      "removal tr (case r of None \<Rightarrow> [] | Some v \<Rightarrow> [v]) tr1"
      "ot_blocked_by tr1 = (ot_blocked_by tr)(k := ot_blocked_by tr k - {b})"
    using removal_one [OF Cons.prems] by blast
  then have "ot_inv tr1" by (simp add: removal_def)
  from Cons.IH [OF this] obtain vs tr2 where rest: "ot_remove_pairs ps tr1 = Ret vs tr2" "removal tr1 vs tr2"
      "ot_blocked_by tr2 = (\<lambda>k. ot_blocked_by tr1 k - {b. (k, b) \<in> set ps})"
    by blast
  have "removal tr ((case r of None \<Rightarrow> [] | Some v \<Rightarrow> [v]) @ vs) tr2"
    by (rule removal_trans [OF one(2) rest(2)]) (auto simp: rest(3) one(3) split: if_splits)
  moreover have "ot_remove_pairs (p # ps) tr = Ret ((case r of None \<Rightarrow> [] | Some v \<Rightarrow> [v]) @ vs) tr2"
    using one(1) rest(1) by (simp add: p andthen_def split: option.split)
  moreover have "ot_blocked_by tr2 = (\<lambda>k. ot_blocked_by tr k - {b. (k, b) \<in> set (p # ps)})"
    by (auto simp: rest(3) one(3) p fun_eq_iff)
  ultimately show ?case by blast
qed

lemma ot_remove_blocks_spec:
  assumes "ot_inv tr"
  shows "\<exists>vs tr'. ot_remove_blocks bs tr = Ret vs tr' \<and> removal tr vs tr' \<and>
    ot_blocked_by tr' = (\<lambda>k. ot_blocked_by tr k - set bs)"
  using assms
proof (induction bs arbitrary: tr)
  case Nil
  then show ?case by (simp add: removal_refl)
next
  case (Cons b bs)
  show ?case
  proof (cases "mtm_has_right_key (ot_pairs tr) b")
    case False
    then have "b \<notin> ot_blocked_by tr k" for k
      using mtm_has_right_key_iff [OF ot_invD(1) [OF Cons.prems]] by (auto simp: ot_blocked_by_def)
    then have "(\<lambda>k. ot_blocked_by tr k - set bs) = (\<lambda>k. ot_blocked_by tr k - set (b # bs))" by auto
    with Cons.IH [OF Cons.prems] False show ?thesis by auto
  next
    case True
    then obtain keys where keys: "mtm_get_left_items (ot_pairs tr) b = Inr keys"
      by (auto simp: mtm_has_right_key_def mtm_get_left_items_def dict_has_iff)
    have ks: "set keys = {k. b \<in> ot_blocked_by tr k}"
      using mtm_get_left_items_iff [OF ot_invD(1) [OF Cons.prems] keys] by (simp add: ot_blocked_by_def)
    obtain vs tr1 where one: "ot_remove_pairs (map (\<lambda>k. (k, b)) keys) tr = Ret vs tr1" "removal tr vs tr1"
        "ot_blocked_by tr1 = (\<lambda>k. ot_blocked_by tr k - {c. (k, c) \<in> set (map (\<lambda>k. (k, b)) keys)})"
      using ot_remove_pairs_spec [OF Cons.prems] by blast
    have b1: "ot_blocked_by tr1 = (\<lambda>k. ot_blocked_by tr k - {b})"
      unfolding one(3) using ks by (auto simp: fun_eq_iff)
    have "ot_inv tr1" using one(2) by (simp add: removal_def)
    from Cons.IH [OF this] obtain ws tr2 where rest: "ot_remove_blocks bs tr1 = Ret ws tr2" "removal tr1 ws tr2"
        "ot_blocked_by tr2 = (\<lambda>k. ot_blocked_by tr1 k - set bs)"
      by blast
    have "removal tr (vs @ ws) tr2"
      by (rule removal_trans [OF one(2) rest(2)]) (auto simp: rest(3) b1)
    moreover have "ot_remove_blocks (b # bs) tr = Ret (vs @ ws) tr2"
      using True keys one(1) rest(1) by (simp add: andthen_def)
    moreover have "ot_blocked_by tr2 = (\<lambda>k. ot_blocked_by tr k - set (b # bs))"
      by (auto simp: rest(3) b1 fun_eq_iff)
    ultimately show ?thesis by blast
  qed
qed

section \<open>The object controller\<close>

record object_creation =
  oc_id :: ObjectID
  oc_creator :: ClientID
  oc_type :: ObjectContentType
  oc_name :: bytes

record object_state =
  os_tracker :: "(ClientID, ObjectID, object_creation) object_tracker"
  os_deleted :: "ObjectID list"

definition os_init :: object_state where
  "os_init = \<lparr>os_tracker = ot_init, os_deleted = []\<rparr>"

text \<open>Running a tracker operation; \<open>__finished_object_storage\<close> queues every object it returns.\<close>

definition with_tracker ::
  "(object_creation list, (ClientID, ObjectID, object_creation) object_tracker) comp \<Rightarrow> (unit, object_state) comp" where
  "with_tracker m st =
     (case m (os_tracker st) of
        Ret vs tr \<Rightarrow> Ret () (st\<lparr>os_tracker := tr, os_deleted := os_deleted st @ map oc_id vs\<rparr>)
      | Raise e tr \<Rightarrow> Raise e (st\<lparr>os_tracker := tr\<rparr>)
      | NoFuel \<Rightarrow> NoFuel)"

definition on_add_object :: "ClientID \<Rightarrow> ObjectID \<Rightarrow> ObjectContentType \<Rightarrow> bytes \<Rightarrow> (unit, object_state) comp" where
  "on_add_object client oid ty name =
     (let creation = \<lparr>oc_id = oid, oc_creator = client, oc_type = ty, oc_name = name\<rparr>
      in with_tracker (\<lambda>tr. seq (ot_add_blocks_for_one_object oid [client]) (ret []) (ot_add_object oid creation tr)))"

definition on_del_objects :: "ClientID \<Rightarrow> ObjectID list \<Rightarrow> (unit, object_state) comp" where
  "on_del_objects client oids = for_each oids (\<lambda>oid. with_tracker (ot_remove_one_block_for_objects [oid] client))"

definition clean_client :: "ClientID \<Rightarrow> (unit, object_state) comp" where
  "clean_client client = with_tracker (ot_remove_blocks [client])"

definition has_object :: "object_state \<Rightarrow> ObjectID \<Rightarrow> bool" where
  "has_object st oid = ot_has_object (os_tracker st) oid"

definition get_object_name :: "object_state \<Rightarrow> ObjectID \<Rightarrow> bytes" where
  "get_object_name st oid =
     (case dict_get (ot_objects (os_tracker st)) oid of None \<Rightarrow> ''<Unknown>'' | Some c \<Rightarrow> oc_name c)"

end
