(* ===== verification/TaskStates.thy ===== *)
theory TaskStates
  imports Protocol
begin

text \<open>
  The task state machine: the events (\<open>src/src/scaler/scheduler/task/task_event.py\<close>), one
  machine per task (\<open>task_state_machine.py\<close>) and the manager that owns the machines and
  the state counts (\<open>task_state_manager.py\<close>). A machine is an object with an identity,
  which the router compares after it waited for the lock; the model gives each machine a
  number of its own. The lock is a flag.
\<close>

section \<open>Events\<close>

datatype TaskEvent =
    HasCapacity TaskID WorkerID
  | TaskCancelRequested TaskID ClientID TaskCancel
  | BalanceCancelRequested TaskID
  | TaskResultReceived TaskID WorkerID TaskResult
  | CancelConfirmCanceled TaskID WorkerID TaskCancelConfirm
  | CancelConfirmFailed TaskID WorkerID TaskCancelConfirm
  | CancelConfirmNotFound TaskID WorkerID TaskCancelConfirm
  | WorkerDisconnected TaskID WorkerID

fun event_task_id :: "TaskEvent \<Rightarrow> TaskID" where
  "event_task_id (HasCapacity t w) = t"
| "event_task_id (TaskCancelRequested t c tc) = t"
| "event_task_id (BalanceCancelRequested t) = t"
| "event_task_id (TaskResultReceived t w r) = t"
| "event_task_id (CancelConfirmCanceled t w c) = t"
| "event_task_id (CancelConfirmFailed t w c) = t"
| "event_task_id (CancelConfirmNotFound t w c) = t"
| "event_task_id (WorkerDisconnected t w) = t"

text \<open>\<open>type(event).__name__\<close>.\<close>

fun event_name :: "TaskEvent \<Rightarrow> string" where
  "event_name (HasCapacity t w) = ''HasCapacity''"
| "event_name (TaskCancelRequested t c tc) = ''TaskCancelRequested''"
| "event_name (BalanceCancelRequested t) = ''BalanceCancelRequested''"
| "event_name (TaskResultReceived t w r) = ''TaskResultReceived''"
| "event_name (CancelConfirmCanceled t w c) = ''CancelConfirmCanceled''"
| "event_name (CancelConfirmFailed t w c) = ''CancelConfirmFailed''"
| "event_name (CancelConfirmNotFound t w c) = ''CancelConfirmNotFound''"
| "event_name (WorkerDisconnected t w) = ''WorkerDisconnected''"

text \<open>\<open>WORKER_REPORTED_TASK_EVENTS\<close>, with the worker the connection identified.\<close>

fun reported_by :: "TaskEvent \<Rightarrow> WorkerID option" where
  "reported_by (TaskResultReceived t w r) = Some w"
| "reported_by (CancelConfirmCanceled t w c) = Some w"
| "reported_by (CancelConfirmFailed t w c) = Some w"
| "reported_by (CancelConfirmNotFound t w c) = Some w"
| "reported_by _ = None"

section \<open>One machine\<close>

definition TERMINAL_TASK_STATES :: "TaskState list" where
  "TERMINAL_TASK_STATES =
     [TS_success, TS_failed, TS_failedWorkerDied, TS_canceled, TS_canceledNotFound]"

definition is_terminal :: "TaskState \<Rightarrow> bool" where
  "is_terminal st = (st \<in> set TERMINAL_TASK_STATES)"

lemma is_terminal_simps [simp]:
  "\<not> is_terminal TS_inactive" "\<not> is_terminal TS_running" "\<not> is_terminal TS_canceling"
  "\<not> is_terminal TS_balanceCanceling" "is_terminal TS_success" "is_terminal TS_failed"
  "is_terminal TS_failedWorkerDied" "is_terminal TS_canceled" "is_terminal TS_canceledNotFound"
  by (simp_all add: is_terminal_def TERMINAL_TASK_STATES_def)

record TaskStateMachine =
  machine_id :: nat
  machine_debug :: bool
  machine_paths :: "(TaskState \<times> string) list"
  machine_state :: TaskState
  machine_locked :: bool

definition new_machine :: "nat \<Rightarrow> bool \<Rightarrow> TaskStateMachine" where
  "new_machine i debug =
     \<lparr>machine_id = i, machine_debug = debug, machine_paths = [], machine_state = TS_inactive,
      machine_locked = False\<rparr>"

definition machine_commit :: "string \<Rightarrow> TaskState \<Rightarrow> TaskStateMachine \<Rightarrow> TaskStateMachine" where
  "machine_commit ev target m =
     (let m' = (if machine_debug m
                then m\<lparr>machine_paths := machine_paths m @ [(machine_state m, ev)]\<rparr> else m)
      in m'\<lparr>machine_state := target\<rparr>)"

lemma machine_commit_simps [simp]:
  "machine_state (machine_commit ev target m) = target"
  "machine_locked (machine_commit ev target m) = machine_locked m"
  "machine_id (machine_commit ev target m) = machine_id m"
  by (simp_all add: machine_commit_def Let_def)

section \<open>The manager\<close>

definition TASK_STATES :: "TaskState list" where
  "TASK_STATES = [TS_inactive, TS_running, TS_canceling, TS_balanceCanceling, TS_success,
     TS_failed, TS_failedWorkerDied, TS_canceled, TS_canceledNotFound]"

lemma set_TASK_STATES [simp]: "set TASK_STATES = UNIV"
  by (auto simp: TASK_STATES_def) (metis TaskState.exhaust)

record TaskStateManager =
  mgr_debug :: bool
  mgr_machines :: "(TaskID, TaskStateMachine) dict"
  mgr_statistics :: "TaskState \<Rightarrow> int"
  mgr_next :: nat

definition new_manager :: "bool \<Rightarrow> TaskStateManager" where
  "new_manager debug =
     \<lparr>mgr_debug = debug, mgr_machines = [], mgr_statistics = (\<lambda>_. 0), mgr_next = 0\<rparr>"

definition get_state_machine :: "TaskStateManager \<Rightarrow> TaskID \<Rightarrow> TaskStateMachine option" where
  "get_state_machine m t = dict_get (mgr_machines m) t"

text \<open>\<open>assert task_id not in self._task_id_to_state_machine\<close> is the error branch.\<close>

definition add_state_machine :: "TaskID \<Rightarrow> TaskStateManager \<Rightarrow> py_exn + TaskStateManager" where
  "add_state_machine t m =
     (if dict_has (mgr_machines m) t then Inl AssertionError
      else Inr (m\<lparr>mgr_machines := dict_set t (new_machine (mgr_next m) (mgr_debug m)) (mgr_machines m),
                  mgr_statistics := (mgr_statistics m)(TS_inactive := mgr_statistics m TS_inactive + 1),
                  mgr_next := mgr_next m + 1\<rparr>))"

definition remove_state_machine :: "TaskID \<Rightarrow> TaskStateManager \<Rightarrow> TaskStateManager" where
  "remove_state_machine t m = m\<lparr>mgr_machines := dict_pop t (mgr_machines m)\<rparr>"

text \<open>
  \<open>commit\<close> refuses a machine that does not exist or whose lock is not held; it logs and
  returns.
\<close>

definition commit :: "TaskID \<Rightarrow> string \<Rightarrow> TaskState \<Rightarrow> TaskStateManager \<Rightarrow> TaskStateManager" where
  "commit t ev target m =
     (case dict_get (mgr_machines m) t of
        None \<Rightarrow> m
      | Some sm \<Rightarrow>
          if \<not> machine_locked sm then m
          else let src = machine_state sm;
                   stats = (mgr_statistics m)(src := mgr_statistics m src - 1)
               in m\<lparr>mgr_machines := dict_set t (machine_commit ev target sm) (mgr_machines m),
                    mgr_statistics := stats(target := stats target + 1)\<rparr>)"

definition get_statistics :: "TaskStateManager \<Rightarrow> (TaskState \<times> int) list" where
  "get_statistics m = map (\<lambda>st. (st, mgr_statistics m st)) TASK_STATES"

text \<open>The lock of a machine: acquired when free, released by the holder of that machine.\<close>

definition lock_machine :: "TaskID \<Rightarrow> TaskStateManager \<Rightarrow> TaskStateManager" where
  "lock_machine t m =
     (case dict_get (mgr_machines m) t of
        None \<Rightarrow> m
      | Some sm \<Rightarrow> m\<lparr>mgr_machines := dict_set t (sm\<lparr>machine_locked := True\<rparr>) (mgr_machines m)\<rparr>)"

text \<open>Releasing acts on the machine object: a machine that left the table is not visible any more.\<close>

definition release_machine :: "TaskID \<Rightarrow> nat \<Rightarrow> TaskStateManager \<Rightarrow> TaskStateManager" where
  "release_machine t i m =
     (case dict_get (mgr_machines m) t of
        None \<Rightarrow> m
      | Some sm \<Rightarrow>
          if machine_id sm = i
          then m\<lparr>mgr_machines := dict_set t (sm\<lparr>machine_locked := False\<rparr>) (mgr_machines m)\<rparr>
          else m)"

section \<open>The counts\<close>

text \<open>
  Every live state carries the number of machines in it; the counts of terminal states
  are cumulative, since a machine leaves the table right after it is committed there.
\<close>

definition live_count :: "TaskStateManager \<Rightarrow> TaskState \<Rightarrow> nat" where
  "live_count m st = dict_count (\<lambda>sm. machine_state sm = st) (mgr_machines m)"

definition stats_ok :: "TaskStateManager \<Rightarrow> bool" where
  "stats_ok m \<longleftrightarrow> dict_ok (mgr_machines m) \<and>
     (\<forall>st. \<not> is_terminal st \<longrightarrow> mgr_statistics m st = int (live_count m st))"

text \<open>The state of a task as the manager knows it.\<close>

definition state_of :: "TaskStateManager \<Rightarrow> TaskID \<Rightarrow> TaskState option" where
  "state_of m t = map_option machine_state (dict_get (mgr_machines m) t)"

definition is_locked :: "TaskStateManager \<Rightarrow> TaskID \<Rightarrow> bool" where
  "is_locked m t = (case dict_get (mgr_machines m) t of None \<Rightarrow> False | Some sm \<Rightarrow> machine_locked sm)"

lemma stats_ok_new [simp]: "stats_ok (new_manager debug)"
  by (simp add: stats_ok_def new_manager_def live_count_def)

lemma state_of_new [simp]: "state_of (new_manager debug) t = None"
  by (simp add: state_of_def new_manager_def)

lemma state_of_add:
  assumes "add_state_machine t m = Inr m'"
  shows "state_of m' u = (if u = t then Some TS_inactive else state_of m u)"
    and "is_locked m' u = (u \<noteq> t \<and> is_locked m u)" and "state_of m t = None"
  using assms
  by (auto simp: add_state_machine_def state_of_def is_locked_def new_machine_def dict_has_iff split: if_splits)

lemma add_state_machine_fresh: "state_of m t = None \<Longrightarrow> \<exists>m'. add_state_machine t m = Inr m'"
  by (simp add: add_state_machine_def state_of_def dict_has_iff)

lemma state_of_remove [simp]:
  "state_of (remove_state_machine t m) u = (if u = t then None else state_of m u)"
  by (simp add: state_of_def remove_state_machine_def)

lemma is_locked_remove [simp]:
  "is_locked (remove_state_machine t m) u = (u \<noteq> t \<and> is_locked m u)"
  by (simp add: is_locked_def remove_state_machine_def)

lemma state_of_lock [simp]: "state_of (lock_machine t m) u = state_of m u"
  by (auto simp: state_of_def lock_machine_def split: option.splits)

lemma is_locked_lock [simp]:
  "is_locked (lock_machine t m) u = (is_locked m u \<or> u = t \<and> state_of m t \<noteq> None)"
  by (auto simp: is_locked_def lock_machine_def state_of_def split: option.splits)

lemma state_of_release [simp]: "state_of (release_machine t i m) u = state_of m u"
  by (auto simp: state_of_def release_machine_def split: option.splits)

lemma is_locked_release:
  "is_locked (release_machine t i m) u =
    (is_locked m u \<and> \<not> (u = t \<and> (\<exists>sm. dict_get (mgr_machines m) t = Some sm \<and> machine_id sm = i)))"
  by (auto simp: is_locked_def release_machine_def split: option.splits)

lemma state_of_commit:
  "is_locked m t \<Longrightarrow> state_of (commit t ev target m) u = (if u = t then Some target else state_of m u)"
  by (auto simp: state_of_def commit_def is_locked_def Let_def split: option.splits)

lemma commit_unlocked [simp]: "\<not> is_locked m t \<Longrightarrow> commit t ev target m = m"
  by (auto simp: commit_def is_locked_def split: option.splits)

lemma is_locked_commit [simp]: "is_locked (commit t ev target m) u = is_locked m u"
  by (auto simp: is_locked_def commit_def Let_def split: option.splits)

lemma stats_ok_add: "stats_ok m \<Longrightarrow> add_state_machine t m = Inr m' \<Longrightarrow> stats_ok m'"
  by (auto simp: add_state_machine_def stats_ok_def live_count_def dict_count_new new_machine_def
      split: if_splits)

lemma live_count_commit:
  assumes "dict_ok (mgr_machines m)" "dict_get (mgr_machines m) t = Some sm" "machine_locked sm"
  shows "int (live_count (commit t ev target m) st) =
    int (live_count m st) - (if machine_state sm = st then 1 else 0) + (if target = st then 1 else 0)"
  using dict_count_set [OF assms(1,2), where v = "machine_commit ev target sm" and P = "\<lambda>x. machine_state x = st"]
    assms by (auto simp: commit_def Let_def live_count_def)

lemma stats_ok_commit: "stats_ok m \<Longrightarrow> stats_ok (commit t ev target m)"
proof (cases "is_locked m t")
  case False
  then show "stats_ok m \<Longrightarrow> ?thesis" by simp
next
  case True
  then obtain sm where sm: "dict_get (mgr_machines m) t = Some sm" "machine_locked sm"
    by (auto simp: is_locked_def split: option.splits)
  assume ok: "stats_ok m"
  then have d: "dict_ok (mgr_machines m)" by (simp add: stats_ok_def)
  have "dict_ok (mgr_machines (commit t ev target m))" using sm d by (simp add: commit_def Let_def)
  moreover have "mgr_statistics (commit t ev target m) st = int (live_count (commit t ev target m) st)"
    if "\<not> is_terminal st" for st
    using ok sm that live_count_commit [OF d sm, where st = st and target = target and ev = ev]
    by (auto simp: commit_def Let_def stats_ok_def)
  ultimately show ?thesis by (simp add: stats_ok_def)
qed

lemma stats_ok_remove:
  assumes "stats_ok m" and "state_of m t = Some st" and "is_terminal st"
  shows "stats_ok (remove_state_machine t m)"
proof -
  obtain sm where sm: "dict_get (mgr_machines m) t = Some sm" "machine_state sm = st"
    using assms(2) by (auto simp: state_of_def)
  have "live_count (remove_state_machine t m) st' = live_count m st'" if "\<not> is_terminal st'" for st'
    using dict_count_pop [OF _ sm(1), where P = "\<lambda>x. machine_state x = st'"] sm(2) assms that
    by (auto simp: live_count_def remove_state_machine_def stats_ok_def split: if_splits)
  with assms(1) show ?thesis by (auto simp: stats_ok_def remove_state_machine_def)
qed

lemma stats_ok_remove_absent: "stats_ok m \<Longrightarrow> state_of m t = None \<Longrightarrow> remove_state_machine t m = m"
  by (simp add: remove_state_machine_def state_of_def dict_has_iff)

lemma dict_count_same:
  "dict_ok d \<Longrightarrow> dict_get d k = Some u \<Longrightarrow> P u = P v \<Longrightarrow> dict_count P (dict_set k v d) = dict_count P d"
  using dict_count_set [of d k u P v] by auto

lemma stats_ok_lock: "stats_ok m \<Longrightarrow> stats_ok (lock_machine t m)"
  by (auto simp: lock_machine_def stats_ok_def live_count_def dict_count_same split: option.splits)

lemma stats_ok_release: "stats_ok m \<Longrightarrow> stats_ok (release_machine t i m)"
  by (auto simp: release_machine_def stats_ok_def live_count_def dict_count_same split: option.splits)

lemmas stats_ok_intros = stats_ok_add stats_ok_commit stats_ok_remove stats_ok_lock stats_ok_release

text \<open>The live counts add up to the number of machines.\<close>

lemma count_by_live_state:
  "\<forall>e \<in> set d. \<not> is_terminal (machine_state (snd e)) \<Longrightarrow>
    length d = dict_count (\<lambda>x. machine_state x = TS_inactive) d + dict_count (\<lambda>x. machine_state x = TS_running) d
      + dict_count (\<lambda>x. machine_state x = TS_canceling) d + dict_count (\<lambda>x. machine_state x = TS_balanceCanceling) d"
proof (induction d)
  case Nil
  then show ?case by simp
next
  case (Cons e d)
  then show ?case by (cases "machine_state (snd e)") (auto simp: dict_count_def)
qed

lemma live_counts_total:
  assumes "dict_ok (mgr_machines m)"
    and "\<And>t st. state_of m t = Some st \<Longrightarrow> \<not> is_terminal st"
  shows "length (mgr_machines m) =
    live_count m TS_inactive + live_count m TS_running + live_count m TS_canceling + live_count m TS_balanceCanceling"
proof -
  have "\<forall>e \<in> set (mgr_machines m). \<not> is_terminal (machine_state (snd e))"
  proof
    fix e assume "e \<in> set (mgr_machines m)"
    then have "dict_get (mgr_machines m) (fst e) = Some (snd e)"
      by (intro dict_get_in_set [OF assms(1)]) simp
    then show "\<not> is_terminal (machine_state (snd e))"
      using assms(2) [of "fst e"] by (simp add: state_of_def)
  qed
  then show ?thesis unfolding live_count_def by (rule count_by_live_state)
qed

end
