(* ===== verification/SchedulerState.thy ===== *)
theory SchedulerState
  imports Allocation Scaling Objects TaskStates Sorter
begin

text \<open>
  The state the scheduler's controllers share, and what they take from outside. The
  controllers of \<open>src/src/scaler/scheduler/controllers\<close> hold references to each other; here
  their fields are one record, whose part \<open>core\<close> belongs to the task controller and the
  allocation policy. Every handler runs to its end before the next one starts: the sends
  of the default backend do not yield to the event loop, so the awaits inside a handler are
  calls.

  \<open>env\<close> collects what is not the scheduler's own: the iteration order of sets, the MD5
  digest and the random tags of object ids, the pickled form of a scheduler error, which
  requests to the object storage fail, the insertion position of the sorted list, and the
  configuration.
\<close>

section \<open>State\<close>

record task_core =
  policy :: allocation
  tasks :: "(TaskID, Task) dict"
  mgr :: TaskStateManager
  unassigned :: "TaskID list"

datatype node_state = NodeInactive | NodeRunning | NodeCanceled | NodeFailed | NodeSuccess

datatype graph_status = GraphRunning | GraphCanceling | GraphAborting

record task_info =
  ti_state :: node_state
  ti_task :: Task
  ti_result_object_ids :: "ObjectID list"

record graph_info =
  g_targets :: "TaskID list"
  g_sorter :: "TaskID sorter"
  g_tasks :: "(TaskID, task_info) dict"
  g_depended :: "(TaskID, TaskID) many_to_many"
  g_client :: ClientID
  g_status :: graph_status
  g_running :: "TaskID list"

record processor_heartbeat =
  pr_pid :: int
  pr_initialized :: bool
  pr_hasTask :: bool
  pr_suspended :: bool

record worker_heartbeat =
  hb_capabilities :: capabilities
  hb_queueSize :: int
  hb_managerID :: bytes
  hb_queuedTasks :: int
  hb_taskLock :: bool
  hb_processors :: "processor_heartbeat list"

record sched =
  core :: task_core
  clients :: "(ClientID, TaskID) one_to_many"
  client_last_seen :: "(ClientID, int) dict"
  objects :: object_state
  graphs :: "(TaskID, graph_info) dict"
  graph_of :: "(TaskID, TaskID) dict"
  graph_queue :: "(ClientID \<times> GraphTask) list"
  worker_alive :: "(WorkerID, int \<times> worker_heartbeat) dict"
  worker_to_manager :: "(WorkerID, bytes) dict"
  manager_to_workers :: "(bytes, WorkerID list) dict"
  last_advice :: balance_advice
  same_advice_count :: nat
  scaling :: scaling_policy
  manager_alive :: "(bytes, int \<times> WorkerManagerHeartbeat) dict"
  manager_id_to_source :: "(bytes, bytes) dict"
  last_desired_total :: "(bytes, int) dict"
  sent :: "(bytes \<times> message) list"
  monitor :: "monitor_message list"
  store :: "(ObjectID, bytes) dict"
  next_tag :: nat

record env =
  env_order :: "allocation \<Rightarrow> TaskID \<Rightarrow> set_order"
  env_iter :: set_order
  env_bisect :: bisect
  env_md5 :: "bytes \<Rightarrow> bytes"
  env_tag :: "nat \<Rightarrow> bytes"
  env_failure :: "string \<Rightarrow> TaskState \<Rightarrow> TaskID \<Rightarrow> bytes"
  env_set_object_ok :: "ObjectID \<Rightarrow> bool"
  env_duplicate_ok :: "ObjectID \<Rightarrow> ObjectID \<Rightarrow> bool"
  env_trigger_times :: nat
  env_worker_timeout :: int
  env_client_timeout :: int
  env_protected :: bool

type_synonym 'a step = "('a, sched) comp"

definition sched_init :: "AllocatePolicyStrategy \<Rightarrow> scaling_policy \<Rightarrow> sched" where
  "sched_init strategy sc =
     \<lparr>core = \<lparr>policy = create_allocate_policy strategy, tasks = [], mgr = new_manager True, unassigned = []\<rparr>,
      clients = otm_empty, client_last_seen = [], objects = os_init, graphs = [], graph_of = [],
      graph_queue = [], worker_alive = [], worker_to_manager = [], manager_to_workers = [],
      last_advice = [], same_advice_count = 0, scaling = sc, manager_alive = [], manager_id_to_source = [],
      last_desired_total = [], sent = [], monitor = [], store = [], next_tag = 0\<rparr>"

section \<open>Primitive steps\<close>

definition send :: "bytes \<Rightarrow> message \<Rightarrow> unit step" where
  "send to msg = modify (\<lambda>s. s\<lparr>sent := sent s @ [(to, msg)]\<rparr>)"

definition publish :: "monitor_message \<Rightarrow> unit step" where
  "publish msg = modify (\<lambda>s. s\<lparr>monitor := monitor s @ [msg]\<rparr>)"

definition with_policy :: "('a, allocation) comp \<Rightarrow> 'a step" where
  "with_policy m s =
     (case m (policy (core s)) of
        Ret a p \<Rightarrow> Ret a (s\<lparr>core := (core s)\<lparr>policy := p\<rparr>\<rparr>)
      | Raise e p \<Rightarrow> Raise e (s\<lparr>core := (core s)\<lparr>policy := p\<rparr>\<rparr>)
      | NoFuel \<Rightarrow> NoFuel)"

definition with_objects :: "('a, object_state) comp \<Rightarrow> 'a step" where
  "with_objects m s =
     (case m (objects s) of
        Ret a x \<Rightarrow> Ret a (s\<lparr>objects := x\<rparr>)
      | Raise e x \<Rightarrow> Raise e (s\<lparr>objects := x\<rparr>)
      | NoFuel \<Rightarrow> NoFuel)"

definition upd_core :: "(task_core \<Rightarrow> task_core) \<Rightarrow> unit step" where
  "upd_core f = modify (\<lambda>s. s\<lparr>core := f (core s)\<rparr>)"

text \<open>\<open>ClientController.on_task_begin\<close> and \<open>on_task_finish\<close>.\<close>

definition on_task_begin :: "ClientID \<Rightarrow> TaskID \<Rightarrow> unit step" where
  "on_task_begin c t s =
     (case otm_add c t (clients s) of Inl e \<Rightarrow> Raise e s | Inr d \<Rightarrow> Ret () (s\<lparr>clients := d\<rparr>))"

definition on_task_finish :: "TaskID \<Rightarrow> ClientID option step" where
  "on_task_finish t s =
     (if \<not> otm_has_value (clients s) t then Ret None s
      else (case otm_remove_value t (clients s) of
              (Inl e, d) \<Rightarrow> Raise e (s\<lparr>clients := d\<rparr>)
            | (Inr c, d) \<Rightarrow> Ret (Some c) (s\<lparr>clients := d\<rparr>)))"

text \<open>\<open>ObjectID.generate_object_id\<close> draws a new tag.\<close>

definition fresh_object_id :: "env \<Rightarrow> ClientID \<Rightarrow> ObjectID step" where
  "fresh_object_id env owner s =
     (let s' = s\<lparr>next_tag := next_tag s + 1\<rparr>
      in (case generate_object_id (env_md5 env) (env_tag env (next_tag s)) owner of
            Inl e \<Rightarrow> Raise e s' | Inr oid \<Rightarrow> Ret oid s'))"

text \<open>Requests to the object storage, which can fail.\<close>

definition set_object :: "env \<Rightarrow> ObjectID \<Rightarrow> bytes \<Rightarrow> unit step" where
  "set_object env oid payload s =
     (if env_set_object_ok env oid then Ret () (s\<lparr>store := dict_set oid payload (store s)\<rparr>)
      else Raise StorageError s)"

definition duplicate_object_id :: "env \<Rightarrow> ObjectID \<Rightarrow> ObjectID \<Rightarrow> unit step" where
  "duplicate_object_id env oid new s =
     (if env_duplicate_ok env oid new
      then Ret () (case dict_get (store s) oid of None \<Rightarrow> s | Some p \<Rightarrow> s\<lparr>store := dict_set new p (store s)\<rparr>)
      else Raise StorageError s)"

section \<open>Worker controller calls\<close>

definition acquire_worker :: "env \<Rightarrow> Task \<Rightarrow> WorkerID step" where
  "acquire_worker env task s =
     with_policy (policy_assign_task (env_order env (policy (core s)) (taskId task)) task) s"

definition get_worker_by_task_id :: "TaskID \<Rightarrow> WorkerID step" where
  "get_worker_by_task_id t = gets (\<lambda>s. policy_get_worker_by_task_id (policy (core s)) t)"

definition worker_on_task_cancel :: "TaskCancel \<Rightarrow> WorkerID step" where
  "worker_on_task_cancel tc = get_worker_by_task_id (cancel_taskId tc)"

definition on_task_done :: "TaskID \<Rightarrow> WorkerID step" where
  "on_task_done t = with_policy (policy_remove_task t)"

definition object_name :: "ObjectID \<Rightarrow> bytes step" where
  "object_name oid = gets (\<lambda>s. get_object_name (objects s) oid)"

end
