(* ===== verification/TaskDispatch.thy ===== *)
theory TaskDispatch
  imports SchedulerState
begin

text \<open>
  The part of \<open>VanillaTaskController\<close> (\<open>controllers/task_controller.py\<close>) that does not call
  the graph controller: placing tasks on workers and admitting new tasks. The router, which
  these operations call and which calls them, is the argument \<open>R\<close>.
\<close>

definition send_monitor :: "TaskID \<Rightarrow> TaskState \<Rightarrow> bytes \<Rightarrow> bytes \<Rightarrow> unit step" where
  "send_monitor t st fname metadata =
     andthen (get_worker_by_task_id t) (\<lambda>w.
     andthen (gets (\<lambda>s. case dict_get (tasks (core s)) t of None \<Rightarrow> [] | Some task \<Rightarrow> task_capabilities task)) (\<lambda>caps.
     publish (StateTask t fname st w (dict_to_capabilities caps) metadata)))"

definition send_task_to_worker :: "WorkerID \<Rightarrow> TaskID \<Rightarrow> unit step" where
  "send_task_to_worker w t =
     andthen (lookup (\<lambda>s. tasks (core s)) t) (\<lambda>task.
     seq (send w (MsgTask task))
         (andthen (object_name (funcObjectId task)) (\<lambda>name. send_monitor t TS_running name '''')))"

definition acquire_and_dispatch :: "env \<Rightarrow> TaskID \<Rightarrow> TaskState step" where
  "acquire_and_dispatch env t =
     andthen (lookup (\<lambda>s. tasks (core s)) t) (\<lambda>task.
     andthen (object_name (funcObjectId task)) (\<lambda>name.
     andthen (acquire_worker env task) (\<lambda>w.
       if \<not> worker_is_valid w
       then seq (upd_core (\<lambda>c. c\<lparr>unassigned := unassigned c @ [t]\<rparr>))
              (seq (send_monitor t TS_inactive name '''') (ret TS_inactive))
       else seq (send_task_to_worker w t) (ret TS_running))))"

text \<open>
  \<open>__acquire_workers\<close>: take workers for the front of the queue until one is refused. The
  list argument is the queue as the loop sees it; each round pops its head.
\<close>

fun acquire_loop :: "env \<Rightarrow> TaskID list \<Rightarrow> (TaskID \<times> WorkerID) list step" where
  "acquire_loop env [] = ret []"
| "acquire_loop env (t # ts) =
     andthen (lookup (\<lambda>s. tasks (core s)) t) (\<lambda>task.
     andthen (acquire_worker env task) (\<lambda>w.
       if \<not> worker_is_valid w then ret []
       else seq (upd_core (\<lambda>c. c\<lparr>unassigned := ts\<rparr>))
              (andthen (acquire_loop env ts) (\<lambda>rest. ret ((t, w) # rest)))))"

definition acquire_workers :: "env \<Rightarrow> (TaskID \<times> WorkerID) list step" where
  "acquire_workers env s = acquire_loop env (unassigned (core s)) s"

definition retry_unassignable :: "env \<Rightarrow> (TaskEvent \<Rightarrow> unit step) \<Rightarrow> unit step" where
  "retry_unassignable env R =
     andthen (acquire_workers env) (\<lambda>ready. gather (map (\<lambda>(t, w). R (HasCapacity t w)) ready))"

definition with_mgr :: "(TaskStateManager \<Rightarrow> TaskStateManager) \<Rightarrow> unit step" where
  "with_mgr f = upd_core (\<lambda>c. c\<lparr>mgr := f (mgr c)\<rparr>)"

definition add_machine :: "TaskID \<Rightarrow> unit step" where
  "add_machine t s =
     (case add_state_machine t (mgr (core s)) of
        Inl e \<Rightarrow> Raise e s | Inr m \<Rightarrow> Ret () (s\<lparr>core := (core s)\<lparr>mgr := m\<rparr>\<rparr>))"

definition on_task_new :: "env \<Rightarrow> (TaskEvent \<Rightarrow> unit step) \<Rightarrow> Task \<Rightarrow> unit step" where
  "on_task_new env R task0 =
     (let task = task0\<lparr>task_capabilities := capabilities_to_dict (task_capabilities task0)\<rparr>; t = taskId task
      in andthen (gets (\<lambda>s. get_state_machine (mgr (core s)) t)) (\<lambda>m.
           if m \<noteq> None then ret ()
           else seq (add_machine t)
                (seq (on_task_begin (task_source task) t)
                (seq (upd_core (\<lambda>c. c\<lparr>tasks := dict_set t task (tasks c)\<rparr>))
                (andthen (acquire_worker env task) (\<lambda>w.
                   if \<not> worker_is_valid w
                   then seq (upd_core (\<lambda>c. c\<lparr>unassigned := unassigned c @ [t]\<rparr>))
                          (andthen (object_name (funcObjectId task)) (\<lambda>name. send_monitor t TS_inactive name ''''))
                   else R (HasCapacity t w)))))))"

end
