(* ===== verification/GraphController.thy ===== *)
theory GraphController
  imports TaskDispatch
begin

text \<open>
  \<open>VanillaGraphTaskController\<close> (\<open>controllers/graph_controller.py\<close>). A graph of tasks runs
  under an umbrella task: ready subtasks are admitted as ordinary tasks, results and cancel
  confirms of subtasks come back through the task controller. The task controller's
  operations that the graph controller calls are arguments: the router \<open>R\<close> and
  \<open>on_task_cancel\<close> as \<open>C\<close>.

  The two draining loops run while the sorter hands out nodes; they carry a bound, the number of
  nodes of the sorter plus one, which the loops never use up on a sorter that satisfies
  its invariant.
\<close>

type_synonym router = "TaskEvent \<Rightarrow> unit step"
type_synonym canceler = "ClientID \<Rightarrow> TaskCancel \<Rightarrow> unit step"

definition canceled_confirm :: "TaskID \<Rightarrow> TaskCancelConfirm" where
  "canceled_confirm t = \<lparr>confirm_taskId = t, cancelConfirmType = CC_canceled\<rparr>"

definition is_graph_subtask :: "sched \<Rightarrow> TaskID \<Rightarrow> bool" where
  "is_graph_subtask s t = dict_has (graph_of s) t"

definition graph_for_subtask :: "sched \<Rightarrow> TaskID \<Rightarrow> (TaskID \<times> graph_info) option" where
  "graph_for_subtask s t =
     (case dict_get (graph_of s) t of
        None \<Rightarrow> None
      | Some g \<Rightarrow> map_option (Pair g) (dict_get (graphs s) g))"

text \<open>Graphs are objects the code mutates in place; the model writes them back under their id.\<close>

definition get_graph :: "TaskID \<Rightarrow> graph_info step" where
  "get_graph g = lookup graphs g"

definition upd_graph :: "TaskID \<Rightarrow> (graph_info \<Rightarrow> graph_info) \<Rightarrow> unit step" where
  "upd_graph g f = modify (\<lambda>s. s\<lparr>graphs :=
     (case dict_get (graphs s) g of None \<Rightarrow> graphs s | Some info \<Rightarrow> dict_set g (f info) (graphs s))\<rparr>)"

definition with_sorter :: "TaskID \<Rightarrow> ('a, TaskID sorter) comp \<Rightarrow> 'a step" where
  "with_sorter g m s =
     (case dict_get (graphs s) g of
        None \<Rightarrow> Raise KeyError s
      | Some info \<Rightarrow>
          (case m (g_sorter info) of
             Ret a so \<Rightarrow> Ret a (s\<lparr>graphs := dict_set g (info\<lparr>g_sorter := so\<rparr>) (graphs s)\<rparr>)
           | Raise e so \<Rightarrow> Raise e (s\<lparr>graphs := dict_set g (info\<lparr>g_sorter := so\<rparr>) (graphs s)\<rparr>)
           | NoFuel \<Rightarrow> NoFuel))"

definition set_node :: "TaskID \<Rightarrow> (task_info \<Rightarrow> task_info) \<Rightarrow> graph_info \<Rightarrow> graph_info" where
  "set_node t f info =
     (case dict_get (g_tasks info) t of
        None \<Rightarrow> info | Some ti \<Rightarrow> info\<lparr>g_tasks := dict_set t (f ti) (g_tasks info)\<rparr>)"

definition required_task_ids :: "Task \<Rightarrow> TaskID list" where
  "required_task_ids task =
     remdups (concat (map (\<lambda>a. case a of TaskArgument t \<Rightarrow> [t] | ObjectArgument _ \<Rightarrow> []) (functionArgs task)))"

definition is_graph_finished :: "TaskID \<Rightarrow> bool step" where
  "is_graph_finished g s =
     (case dict_get (graphs s) g of
        None \<Rightarrow> Ret True s
      | Some info \<Rightarrow> andthen (with_sorter g so_is_active) (\<lambda>active. ret (\<not> active \<and> g_running info = [])) s)"

definition pop_graph :: "TaskID \<Rightarrow> graph_info step" where
  "pop_graph g =
     seq (on_task_finish g)
     (andthen (lookup graph_of g) (\<lambda>_.
      seq (modify (\<lambda>s. s\<lparr>graph_of := dict_pop g (graph_of s)\<rparr>))
      (andthen (lookup graphs g) (\<lambda>info.
       seq (modify (\<lambda>s. s\<lparr>graphs := dict_pop g (graphs s),
                         graph_of := fold dict_pop (dict_keys (g_tasks info)) (graph_of s)\<rparr>))
           (ret info)))))"

definition cancel_graph_umbrella_task :: "TaskID \<Rightarrow> unit step" where
  "cancel_graph_umbrella_task g =
     andthen (is_graph_finished g) (\<lambda>finished.
       if \<not> finished then ret ()
       else andthen (pop_graph g) (\<lambda>info. send (g_client info) (MsgTaskCancelConfirm (canceled_confirm g))))"

definition done_graph_umbrella_task :: "TaskID \<Rightarrow> TaskResultType \<Rightarrow> unit step" where
  "done_graph_umbrella_task g ty =
     andthen (pop_graph g) (\<lambda>info. send (g_client info)
       (MsgTaskResult \<lparr>result_taskId = g, resultType = ty, result_metadata = '''', result_objects = []\<rparr>))"

definition mark_node_canceled :: "TaskID \<Rightarrow> TaskCancelConfirm \<Rightarrow> unit step" where
  "mark_node_canceled g confirm =
     (let t = confirm_taskId confirm
      in andthen (get_graph g) (\<lambda>info.
           if \<not> dict_has (g_tasks info) t then ret ()
           else seq (upd_graph g (\<lambda>i. case cancelConfirmType confirm of
                       CC_canceled \<Rightarrow> set_node t (\<lambda>ti. ti\<lparr>ti_state := NodeCanceled\<rparr>) i
                     | CC_cancelFailed \<Rightarrow> i
                     | CC_cancelNotFound \<Rightarrow> set_node t (\<lambda>ti. ti\<lparr>ti_state := NodeCanceled\<rparr>) i))
                (seq (with_sorter g (so_done [t]))
                     (upd_graph g (\<lambda>i. i\<lparr>g_running := removeAll t (g_running i)\<rparr>)))))"

text \<open>\<open>__clean_intermediate_result\<close>: drop the inputs no other subtask needs.\<close>

definition clean_dependency :: "TaskID \<Rightarrow> TaskID \<Rightarrow> TaskID \<Rightarrow> unit step" where
  "clean_dependency g t d s =
     (case dict_get (graphs s) g of
        None \<Rightarrow> Raise KeyError s
      | Some info \<Rightarrow>
          let (r, rel) = mtm_remove d t (g_depended info); info' = info\<lparr>g_depended := rel\<rparr>;
              s' = s\<lparr>graphs := dict_set g info' (graphs s)\<rparr>
          in (case r of
                Inl e \<Rightarrow> Raise e s'
              | Inr _ \<Rightarrow>
                  if mtm_has_left_key rel d then Ret () s'
                  else if d \<in> set (g_targets info) then Ret () s'
                  else (case dict_get (g_tasks info) d of
                          None \<Rightarrow> Raise KeyError s'
                        | Some ti \<Rightarrow> with_objects (on_del_objects (g_client info) (remdups (ti_result_object_ids ti))) s')))"

definition clean_intermediate_result :: "TaskID \<Rightarrow> TaskID \<Rightarrow> unit step" where
  "clean_intermediate_result g t =
     andthen (get_graph g) (\<lambda>info.
       case dict_get (g_tasks info) t of
         None \<Rightarrow> raise KeyError
       | Some ti \<Rightarrow> for_each (required_task_ids (ti_task ti)) (clean_dependency g t))"

text \<open>\<open>[ObjectID(b) for b in results]\<close> checks the length of every id.\<close>

fun object_ids :: "bytes list \<Rightarrow> py_exn + ObjectID list" where
  "object_ids [] = Inr []"
| "object_ids (b # bs) =
     (case object_id_new b of
        Inl e \<Rightarrow> Inl e
      | Inr oid \<Rightarrow> map_sum id (\<lambda>oids. oid # oids) (object_ids bs))"

definition lift_sum :: "py_exn + 'a \<Rightarrow> 'a step" where
  "lift_sum r = (case r of Inl e \<Rightarrow> raise e | Inr a \<Rightarrow> ret a)"

definition mark_node_done :: "TaskResult \<Rightarrow> unit step" where
  "mark_node_done result =
     (let t = result_taskId result
      in andthen (lookup graph_of t) (\<lambda>g.
         seq (modify (\<lambda>s. s\<lparr>graph_of := dict_pop t (graph_of s)\<rparr>))
         (andthen (get_graph g) (\<lambda>info.
           case dict_get (g_tasks info) t of
             None \<Rightarrow> raise KeyError
           | Some ti \<Rightarrow>
               andthen (lift_sum (object_ids (result_objects result))) (\<lambda>oids.
               seq (upd_graph g (set_node t (\<lambda>ti. ti\<lparr>ti_result_object_ids := oids,
                      ti_state := (case resultType result of
                         TR_success \<Rightarrow> NodeSuccess | TR_failed \<Rightarrow> NodeFailed | TR_failedWorkerDied \<Rightarrow> NodeFailed)\<rparr>)))
               (seq (clean_intermediate_result g t)
               (seq (with_sorter g (so_done [t]))
                    (upd_graph g (\<lambda>i. i\<lparr>g_running := removeAll t (g_running i)\<rparr>)))))))))"

section \<open>Admitting ready subtasks\<close>

definition get_argument_object :: "TaskID \<Rightarrow> Argument \<Rightarrow> ObjectID step" where
  "get_argument_object g a =
     (case a of
        ObjectArgument b \<Rightarrow> lift_sum (object_id_new b)
      | TaskArgument t \<Rightarrow>
          andthen (get_graph g) (\<lambda>info.
            case dict_get (g_tasks info) t of
              None \<Rightarrow> raise KeyError
            | Some ti \<Rightarrow> (case ti_result_object_ids ti of [oid] \<Rightarrow> ret oid | _ \<Rightarrow> raise AssertionError)))"

fun argument_objects :: "TaskID \<Rightarrow> Argument list \<Rightarrow> Argument list step" where
  "argument_objects g [] = ret []"
| "argument_objects g (a # as) =
     andthen (get_argument_object g a) (\<lambda>oid.
     andthen (argument_objects g as) (\<lambda>rest. ret (ObjectArgument oid # rest)))"

definition start_subtask :: "env \<Rightarrow> router \<Rightarrow> TaskID \<Rightarrow> graph_info \<Rightarrow> TaskID \<Rightarrow> unit step" where
  "start_subtask env R g info t =
     (case dict_get (g_tasks info) t of
        None \<Rightarrow> raise KeyError
      | Some ti \<Rightarrow>
          seq (upd_graph g (\<lambda>i. (set_node t (\<lambda>ti. ti\<lparr>ti_state := NodeRunning\<rparr>) i)\<lparr>g_running := set_add t (g_running i)\<rparr>))
          (andthen (argument_objects g (functionArgs (ti_task ti))) (\<lambda>args.
             on_task_new env R ((ti_task ti)\<lparr>functionArgs := args,
               task_capabilities := dict_to_capabilities (capabilities_to_dict (task_capabilities (ti_task ti)))\<rparr>))))"

definition check_one_graph :: "env \<Rightarrow> router \<Rightarrow> TaskID \<Rightarrow> unit step" where
  "check_one_graph env R g =
     andthen (get_graph g) (\<lambda>info.
     andthen (with_sorter g so_is_active) (\<lambda>active.
       if \<not> active then done_graph_umbrella_task g TR_success
       else andthen (with_sorter g so_get_ready) (\<lambda>ready.
              for_each ready (start_subtask env R g info))))"

section \<open>Cancelling a graph\<close>

fun cancel_drain :: "nat \<Rightarrow> TaskID \<Rightarrow> TaskCancelConfirm list step" where
  "cancel_drain 0 g = (\<lambda>s. NoFuel)"
| "cancel_drain (Suc n) g =
     andthen (with_sorter g so_is_active) (\<lambda>active.
       if \<not> active then ret []
       else andthen (with_sorter g so_get_ready) (\<lambda>ready.
         if ready = [] then ret []
         else seq (for_each ready (\<lambda>t. mark_node_canceled g (canceled_confirm t)))
                (andthen (cancel_drain n g) (\<lambda>rest. ret (map canceled_confirm ready @ rest)))))"

definition sorter_bound :: "TaskID \<Rightarrow> sched \<Rightarrow> nat" where
  "sorter_bound g s = Suc (case dict_get (graphs s) g of None \<Rightarrow> 0 | Some info \<Rightarrow> length (so_nodes (g_sorter info)))"

text \<open>
  The nested cancels can finish the graph and drop it from the table while this call still
  holds the object; such an object has an inactive sorter, so there is nothing left to
  drain.
\<close>

definition cancel_rest :: "TaskID \<Rightarrow> TaskCancelConfirm list step" where
  "cancel_rest g s = (if dict_has (graphs s) g then cancel_drain (sorter_bound g s) g s else Ret [] s)"

definition cancel_whole_graph :: "env \<Rightarrow> canceler \<Rightarrow> TaskID \<Rightarrow> unit step" where
  "cancel_whole_graph env C g =
     andthen (is_graph_finished g) (\<lambda>finished.
       if finished then cancel_graph_umbrella_task g
       else andthen (get_graph g) (\<lambda>info.
         if g_status info \<noteq> GraphRunning then ret ()
         else seq (upd_graph g (\<lambda>i. i\<lparr>g_status := GraphCanceling\<rparr>))
              (seq (gather (map (\<lambda>t. C (g_client info) \<lparr>cancel_taskId = t, cancel_force = True\<rparr>)
                              (sort_key (env_iter env) (g_running info))))
              (andthen (cancel_rest g) (\<lambda>confirms.
               seq (for_each confirms (\<lambda>c. send (g_client info) (MsgTaskCancelConfirm c)))
               (andthen (is_graph_finished g) (\<lambda>finished'.
                  if finished' then cancel_graph_umbrella_task g else ret ())))))))"

definition on_graph_task_cancel :: "env \<Rightarrow> canceler \<Rightarrow> TaskCancel \<Rightarrow> unit step" where
  "on_graph_task_cancel env C tc =
     andthen (gets (\<lambda>s. graph_for_subtask s (cancel_taskId tc))) (\<lambda>r.
       case r of None \<Rightarrow> ret () | Some (g, _) \<Rightarrow> cancel_whole_graph env C g)"

definition on_graph_sub_task_cancel_confirm :: "env \<Rightarrow> canceler \<Rightarrow> TaskCancelConfirm \<Rightarrow> unit step" where
  "on_graph_sub_task_cancel_confirm env C confirm =
     andthen (gets (\<lambda>s. graph_for_subtask s (confirm_taskId confirm))) (\<lambda>r.
       case r of
         None \<Rightarrow> ret ()
       | Some (g, _) \<Rightarrow> seq (mark_node_canceled g confirm) (cancel_whole_graph env C g))"

section \<open>Results and aborts\<close>

fun fresh_ids :: "env \<Rightarrow> ClientID \<Rightarrow> nat \<Rightarrow> ObjectID list step" where
  "fresh_ids env owner 0 = ret []"
| "fresh_ids env owner (Suc n) =
     andthen (fresh_object_id env owner) (\<lambda>oid. andthen (fresh_ids env owner n) (\<lambda>rest. ret (oid # rest)))"

definition duplicate_object :: "env \<Rightarrow> ClientID \<Rightarrow> ObjectID \<times> bytes \<Rightarrow> ObjectID \<Rightarrow> unit step" where
  "duplicate_object env owner obj new =
     seq (duplicate_object_id env (fst obj) new) (with_objects (on_add_object owner new OC_object (snd obj)))"

definition duplicate_objects :: "env \<Rightarrow> ClientID \<Rightarrow> (ObjectID \<times> bytes) list \<Rightarrow> ObjectID list step" where
  "duplicate_objects env owner objs =
     andthen (fresh_ids env owner (length objs)) (\<lambda>new.
     seq (gather (map (\<lambda>(obj, n). duplicate_object env owner obj n) (zip objs new))) (ret new))"

definition abort_node :: "env \<Rightarrow> ClientID \<Rightarrow> TaskResult \<Rightarrow> (ObjectID \<times> bytes) list \<Rightarrow> TaskID \<Rightarrow> TaskResult step" where
  "abort_node env owner result objs t =
     andthen (duplicate_objects env owner objs) (\<lambda>new.
       let r = result\<lparr>result_taskId := t, result_objects := new\<rparr> in seq (mark_node_done r) (ret r))"

fun abort_nodes :: "env \<Rightarrow> ClientID \<Rightarrow> TaskResult \<Rightarrow> (ObjectID \<times> bytes) list \<Rightarrow> TaskID list \<Rightarrow> TaskResult list step" where
  "abort_nodes env owner result objs [] = ret []"
| "abort_nodes env owner result objs (t # ts) =
     andthen (abort_node env owner result objs t) (\<lambda>r.
     andthen (abort_nodes env owner result objs ts) (\<lambda>rs. ret (r # rs)))"

fun abort_drain ::
  "env \<Rightarrow> nat \<Rightarrow> TaskID \<Rightarrow> ClientID \<Rightarrow> TaskResult \<Rightarrow> (ObjectID \<times> bytes) list \<Rightarrow> TaskResult list step" where
  "abort_drain env 0 g owner result objs = (\<lambda>s. NoFuel)"
| "abort_drain env (Suc n) g owner result objs =
     andthen (with_sorter g so_is_active) (\<lambda>active.
       if \<not> active then ret []
       else andthen (with_sorter g so_get_ready) (\<lambda>ready.
         if ready = [] then ret []
         else andthen (abort_nodes env owner result objs ready) (\<lambda>rs.
              andthen (abort_drain env n g owner result objs) (\<lambda>rest. ret (rs @ rest)))))"

definition abort_whole_graph :: "env \<Rightarrow> TaskID \<Rightarrow> TaskResult \<Rightarrow> unit step" where
  "abort_whole_graph env g result =
     andthen (is_graph_finished g) (\<lambda>finished.
       if finished then done_graph_umbrella_task g (resultType result)
       else andthen (get_graph g) (\<lambda>info.
         seq (upd_graph g (\<lambda>i. i\<lparr>g_status := GraphAborting\<rparr>))
         (andthen (lift_sum (object_ids (result_objects result))) (\<lambda>oids.
          andthen (gets (\<lambda>s. map (\<lambda>oid. (oid, get_object_name (objects s) oid)) oids)) (\<lambda>objs.
          andthen (abort_nodes env (g_client info) result objs (sort_key (env_iter env) (g_running info))) (\<lambda>rs1.
          andthen (\<lambda>s. abort_drain env (sorter_bound g s) g (g_client info) result objs s) (\<lambda>rs2.
          seq (for_each (rs1 @ rs2) (\<lambda>r. send (g_client info) (MsgTaskResult r)))
          (andthen (is_graph_finished g) (\<lambda>finished'.
             if finished' then done_graph_umbrella_task g (resultType result) else ret ())))))))))"

definition on_graph_sub_task_result :: "env \<Rightarrow> router \<Rightarrow> canceler \<Rightarrow> TaskResult \<Rightarrow> unit step" where
  "on_graph_sub_task_result env R C result =
     andthen (gets (\<lambda>s. graph_for_subtask s (result_taskId result))) (\<lambda>r.
       case r of
         None \<Rightarrow> ret ()
       | Some (g, info) \<Rightarrow>
           if g_status info = GraphCanceling
           then on_graph_sub_task_cancel_confirm env C (canceled_confirm (result_taskId result))
           else seq (mark_node_done result)
                  (if resultType result = TR_success then check_one_graph env R g
                   else abort_whole_graph env g result))"

section \<open>New graphs\<close>

definition on_graph_task :: "ClientID \<Rightarrow> GraphTask \<Rightarrow> unit step" where
  "on_graph_task c gt = modify (\<lambda>s. s\<lparr>graph_queue := graph_queue s @ [(c, gt)]\<rparr>)"

type_synonym graph_build =
  "(TaskID, task_info) dict \<times> (TaskID, TaskID) many_to_many \<times> (TaskID, TaskID list) dict"

fun register_subtasks :: "env \<Rightarrow> GraphTask \<Rightarrow> Task list \<Rightarrow> graph_build \<Rightarrow> graph_build step" where
  "register_subtasks env gt [] acc = ret acc"
| "register_subtasks env gt (task # rest) (infos, dep, graph) =
     (let t = taskId task; required = sort_key (env_iter env) (required_task_ids task)
      in seq (modify (\<lambda>s. s\<lparr>graph_of := dict_set t (graph_taskId gt) (graph_of s)\<rparr>))
         (seq (publish (StateGraphTask (graph_taskId gt) t (if t \<in> set (graph_targets gt) then NT_target else NT_normal) required))
              (register_subtasks env gt rest
                 (dict_set t \<lparr>ti_state = NodeInactive, ti_task = task, ti_result_object_ids = []\<rparr> infos,
                  fold (\<lambda>r d. mtm_add r t d) required dep,
                  dict_set t required graph))))"

definition add_new_graph :: "env \<Rightarrow> router \<Rightarrow> ClientID \<Rightarrow> GraphTask \<Rightarrow> unit step" where
  "add_new_graph env R c gt =
     (let g = graph_taskId gt
      in seq (on_task_begin c g)
         (seq (modify (\<lambda>s. s\<lparr>graph_of := dict_set g g (graph_of s)\<rparr>))
         (andthen (register_subtasks env gt (graph_tasks gt) ([], mtm_empty, [])) (\<lambda>(infos, dep, graph).
            case so_merge_graph graph so_empty of
              Inl e \<Rightarrow> raise e
            | Inr so \<Rightarrow>
                (case so_prepare so of
                   Ret _ so' \<Rightarrow>
                     seq (modify (\<lambda>s. s\<lparr>graphs := dict_set g
                            \<lparr>g_targets = graph_targets gt, g_sorter = so', g_tasks = infos, g_depended = dep,
                             g_client = c, g_status = GraphRunning, g_running = []\<rparr> (graphs s)\<rparr>))
                         (check_one_graph env R g)
                 | Raise e _ \<Rightarrow> raise e
                 | NoFuel \<Rightarrow> (\<lambda>s. NoFuel))))))"

text \<open>One round of the routine: the queue's \<open>get\<close> waits while the queue is empty.\<close>

definition graph_routine :: "env \<Rightarrow> router \<Rightarrow> unit step" where
  "graph_routine env R s =
     (case graph_queue s of
        [] \<Rightarrow> Ret () s
      | (c, gt) # rest \<Rightarrow> add_new_graph env R c gt (s\<lparr>graph_queue := rest\<rparr>))"

end
