(* ===== verification/TaskController.thy ===== *)
theory TaskController
  imports GraphController
begin

text \<open>
  The router of \<open>VanillaTaskController\<close> (\<open>controllers/task_controller.py\<close>), its actions and its
  handlers. The router runs the action of an event under the lock of the task's machine and
  commits the state the action returns. An action can reach the router again, through the
  graph controller or by handing freed capacity to waiting tasks; \<open>route\<close> and
  \<open>on_task_cancel\<close> are therefore defined together by recursion on a bound of the nesting depth, and
  a call that reaches depth zero is \<open>NoFuel\<close>. A nested event for a machine whose lock is
  held waits until the lock timeout of its holder's own nested call and is then dropped: the
  model drops it at once.
\<close>

section \<open>Talking to clients and workers\<close>

definition send_task_cancel_to_worker :: "TaskCancel \<Rightarrow> TaskState \<Rightarrow> bool step" where
  "send_task_cancel_to_worker tc st =
     andthen (worker_on_task_cancel tc) (\<lambda>w.
       if \<not> worker_is_valid w then ret False
       else seq (send w (MsgTaskCancel tc))
              (seq (send_monitor (cancel_taskId tc) st '''' '''') (ret True)))"

definition send_task_result_to_client :: "env \<Rightarrow> router \<Rightarrow> canceler \<Rightarrow> TaskResult \<Rightarrow> TaskState \<Rightarrow> unit step" where
  "send_task_result_to_client env R C result st =
     (let t = result_taskId result
      in seq (on_task_done t)
         (andthen (on_task_finish t) (\<lambda>client.
          seq (case client of None \<Rightarrow> ret () | Some c \<Rightarrow> send c (MsgTaskResult result))
          (andthen (gets (\<lambda>s. case dict_get (tasks (core s)) t of
                       None \<Rightarrow> '''' | Some task \<Rightarrow> get_object_name (objects s) (funcObjectId task))) (\<lambda>name.
           seq (send_monitor t st name (result_metadata result))
           (andthen (gets (\<lambda>s. is_graph_subtask s t)) (\<lambda>sub.
            seq (if sub then on_graph_sub_task_result env R C result else ret ())
                (retry_unassignable env R))))))))"

definition send_task_cancel_confirm_to_client ::
  "env \<Rightarrow> router \<Rightarrow> canceler \<Rightarrow> TaskCancelConfirm \<Rightarrow> TaskState \<Rightarrow> unit step" where
  "send_task_cancel_confirm_to_client env R C confirm st =
     (let t = confirm_taskId confirm
      in andthen (on_task_finish t) (\<lambda>client.
         seq (case client of None \<Rightarrow> ret () | Some c \<Rightarrow> send c (MsgTaskCancelConfirm confirm))
         (seq (send_monitor t st '''' '''')
         (andthen (gets (\<lambda>s. is_graph_subtask s t)) (\<lambda>sub.
          seq (if sub then on_graph_sub_task_cancel_confirm env C confirm else ret ())
              (retry_unassignable env R))))))"

section \<open>Actions\<close>

text \<open>Each action returns the state to commit, or \<open>None\<close> when the event is not permitted from \<open>source\<close>.\<close>

definition act_has_capacity :: "TaskState \<Rightarrow> TaskID \<Rightarrow> WorkerID \<Rightarrow> TaskState option step" where
  "act_has_capacity source t w =
     (case source of
        TS_inactive \<Rightarrow> seq (send_task_to_worker w t) (ret (Some TS_running))
      | _ \<Rightarrow> ret None)"

definition act_task_cancel ::
  "env \<Rightarrow> router \<Rightarrow> canceler \<Rightarrow> TaskState \<Rightarrow> TaskID \<Rightarrow> ClientID \<Rightarrow> TaskCancel \<Rightarrow> TaskState option step" where
  "act_task_cancel env R C source t c tc =
     (case source of
        TS_inactive \<Rightarrow>
          andthen (gets (\<lambda>s. t \<in> set (unassigned (core s)))) (\<lambda>queued.
          seq (if queued then upd_core (\<lambda>k. k\<lparr>unassigned := remove1 t (unassigned k)\<rparr>)
               else seq (on_task_done t) (ret ()))
          (seq (send_task_cancel_confirm_to_client env R C
                  \<lparr>confirm_taskId = t, cancelConfirmType = CC_canceled\<rparr> TS_canceled)
               (ret (Some TS_canceled))))
      | TS_running \<Rightarrow>
          seq (on_task_begin c t)
          (andthen (send_task_cancel_to_worker tc TS_canceling) (\<lambda>ok.
             if ok then ret (Some TS_canceling)
             else seq (send_task_cancel_confirm_to_client env R C
                         \<lparr>confirm_taskId = t, cancelConfirmType = CC_cancelNotFound\<rparr> TS_canceledNotFound)
                      (ret (Some TS_canceledNotFound))))
      | TS_balanceCanceling \<Rightarrow> ret (Some TS_canceling)
      | _ \<Rightarrow> ret None)"

definition act_balance_cancel :: "TaskState \<Rightarrow> TaskID \<Rightarrow> TaskState option step" where
  "act_balance_cancel source t =
     (case source of
        TS_running \<Rightarrow>
          andthen (send_task_cancel_to_worker \<lparr>cancel_taskId = t, cancel_force = False\<rparr> TS_balanceCanceling) (\<lambda>ok.
            ret (if ok then Some TS_balanceCanceling else None))
      | _ \<Rightarrow> ret None)"

definition task_result_target :: "TaskResultType \<Rightarrow> TaskState" where
  "task_result_target ty =
     (case ty of TR_success \<Rightarrow> TS_success | TR_failed \<Rightarrow> TS_failed | TR_failedWorkerDied \<Rightarrow> TS_failedWorkerDied)"

definition act_task_result ::
  "env \<Rightarrow> router \<Rightarrow> canceler \<Rightarrow> TaskState \<Rightarrow> TaskResult \<Rightarrow> TaskState option step" where
  "act_task_result env R C source result =
     (if source = TS_running \<or> source = TS_balanceCanceling
      then let target = task_result_target (resultType result)
           in seq (send_task_result_to_client env R C result target) (ret (Some target))
      else ret None)"

definition act_confirm_canceled ::
  "env \<Rightarrow> router \<Rightarrow> canceler \<Rightarrow> TaskState \<Rightarrow> TaskID \<Rightarrow> TaskCancelConfirm \<Rightarrow> TaskState option step" where
  "act_confirm_canceled env R C source t confirm =
     (case source of
        TS_canceling \<Rightarrow>
          seq (on_task_done t)
          (seq (send_task_cancel_confirm_to_client env R C confirm TS_canceled) (ret (Some TS_canceled)))
      | TS_balanceCanceling \<Rightarrow>
          seq (on_task_done t) (andthen (acquire_and_dispatch env t) (\<lambda>st. ret (Some st)))
      | _ \<Rightarrow> ret None)"

definition act_confirm_failed :: "TaskState \<Rightarrow> TaskState option step" where
  "act_confirm_failed source =
     ret (if source = TS_canceling \<or> source = TS_balanceCanceling then Some TS_running else None)"

definition act_confirm_not_found ::
  "env \<Rightarrow> router \<Rightarrow> canceler \<Rightarrow> TaskState \<Rightarrow> TaskID \<Rightarrow> TaskCancelConfirm \<Rightarrow> TaskState option step" where
  "act_confirm_not_found env R C source t confirm =
     (case source of
        TS_canceling \<Rightarrow>
          seq (on_task_done t)
          (seq (send_task_cancel_confirm_to_client env R C confirm TS_canceledNotFound) (ret (Some TS_canceledNotFound)))
      | TS_balanceCanceling \<Rightarrow>
          seq (on_task_done t) (andthen (acquire_and_dispatch env t) (\<lambda>st. ret (Some st)))
      | _ \<Rightarrow> ret None)"

definition act_worker_disconnect ::
  "env \<Rightarrow> router \<Rightarrow> canceler \<Rightarrow> TaskState \<Rightarrow> TaskID \<Rightarrow> TaskState option step" where
  "act_worker_disconnect env R C source t =
     (if source = TS_running \<or> source = TS_balanceCanceling
      then andthen (acquire_and_dispatch env t) (\<lambda>st. ret (Some st))
      else if source = TS_canceling
      then seq (send_task_cancel_confirm_to_client env R C
                  \<lparr>confirm_taskId = t, cancelConfirmType = CC_canceled\<rparr> TS_canceled)
               (ret (Some TS_canceled))
      else ret None)"

definition action :: "env \<Rightarrow> router \<Rightarrow> canceler \<Rightarrow> TaskState \<Rightarrow> TaskEvent \<Rightarrow> TaskState option step" where
  "action env R C source ev =
     (case ev of
        HasCapacity t w \<Rightarrow> act_has_capacity source t w
      | TaskCancelRequested t c tc \<Rightarrow> act_task_cancel env R C source t c tc
      | BalanceCancelRequested t \<Rightarrow> act_balance_cancel source t
      | TaskResultReceived t w r \<Rightarrow> act_task_result env R C source r
      | CancelConfirmCanceled t w cc \<Rightarrow> act_confirm_canceled env R C source t cc
      | CancelConfirmFailed t w cc \<Rightarrow> act_confirm_failed source
      | CancelConfirmNotFound t w cc \<Rightarrow> act_confirm_not_found env R C source t cc
      | WorkerDisconnected t w \<Rightarrow> act_worker_disconnect env R C source t)"

section \<open>The router\<close>

definition is_task_owned_by_worker :: "sched \<Rightarrow> TaskID \<Rightarrow> WorkerID \<Rightarrow> bool" where
  "is_task_owned_by_worker s t w =
     (let holder = policy_get_worker_by_task_id (policy (core s)) t
      in \<not> worker_is_valid holder \<or> holder = w)"

definition report_fault_to_client ::
  "env \<Rightarrow> router \<Rightarrow> canceler \<Rightarrow> TaskEvent \<Rightarrow> TaskState \<Rightarrow> unit step" where
  "report_fault_to_client env R C ev source =
     (let t = event_task_id ev
      in andthen (on_task_finish t) (\<lambda>client.
           case client of
             None \<Rightarrow> ret ()
           | Some c \<Rightarrow>
               andthen (fresh_object_id env c) (\<lambda>oid.
               seq (set_object env oid (env_failure env (event_name ev) source t))
               (seq (with_objects (on_add_object c oid OC_object ''<scheduler error>''))
               (let result = \<lparr>result_taskId = t, resultType = TR_failed, result_metadata = '''', result_objects = [oid]\<rparr>
                in seq (send c (MsgTaskResult result))
                   (seq (send_monitor t TS_failed '''' '''')
                   (andthen (gets (\<lambda>s. is_graph_subtask s t)) (\<lambda>sub.
                      if sub then on_graph_sub_task_result env R C result else ret ()))))))))"

definition fail_task_to_client ::
  "env \<Rightarrow> router \<Rightarrow> canceler \<Rightarrow> TaskEvent \<Rightarrow> TaskState \<Rightarrow> unit step" where
  "fail_task_to_client env R C ev source =
     (let t = event_task_id ev
      in seq (try_except (report_fault_to_client env R C ev source) (ret ()))
         (seq (try_except (seq (on_task_done t) (ret ())) (ret ()))
         (seq (with_mgr (commit t (event_name ev) TS_failed))
         (seq (with_mgr (remove_state_machine t))
         (seq (upd_core (\<lambda>k. k\<lparr>tasks := dict_pop t (tasks k), unassigned := remove1 t (unassigned k)\<rparr>))
              (try_except (retry_unassignable env R) (ret ())))))))"

text \<open>\<open>commit\<close>, and the removal of a machine that reached a terminal state.\<close>

definition settle :: "TaskEvent \<Rightarrow> TaskState \<Rightarrow> unit step" where
  "settle ev target =
     (let t = event_task_id ev
      in seq (with_mgr (commit t (event_name ev) target))
             (if is_terminal target
              then upd_core (\<lambda>k. k\<lparr>mgr := remove_state_machine t (mgr k), tasks := dict_pop t (tasks k)\<rparr>)
              else ret ()))"

text \<open>The body of the router, under the lock.\<close>

definition route_locked :: "env \<Rightarrow> router \<Rightarrow> canceler \<Rightarrow> TaskEvent \<Rightarrow> TaskState \<Rightarrow> unit step" where
  "route_locked env R C ev source s =
     (if (case reported_by ev of None \<Rightarrow> False | Some w \<Rightarrow> \<not> is_task_owned_by_worker s (event_task_id ev) w)
      then Ret () s
      else (case action env R C source ev s of
              Ret None s' \<Rightarrow> Ret () s'
            | Ret (Some target) s' \<Rightarrow> settle ev target s'
            | Raise e s' \<Rightarrow> fail_task_to_client env R C ev source s'
            | NoFuel \<Rightarrow> NoFuel))"

definition route_body :: "env \<Rightarrow> router \<Rightarrow> canceler \<Rightarrow> TaskEvent \<Rightarrow> unit step" where
  "route_body env R C ev s =
     (let t = event_task_id ev
      in (case get_state_machine (mgr (core s)) t of
            None \<Rightarrow> Ret () s
          | Some sm \<Rightarrow>
              if machine_locked sm then Ret () s
              else seq (with_mgr (lock_machine t))
                     (seq (route_locked env R C ev (machine_state sm))
                          (with_mgr (release_machine t (machine_id sm)))) s))"

definition on_task_cancel_body :: "env \<Rightarrow> router \<Rightarrow> canceler \<Rightarrow> ClientID \<Rightarrow> TaskCancel \<Rightarrow> unit step" where
  "on_task_cancel_body env R C c tc =
     (let t = cancel_taskId tc; confirm = \<lparr>confirm_taskId = t, cancelConfirmType = CC_cancelNotFound\<rparr>
      in andthen (gets (\<lambda>s. get_state_machine (mgr (core s)) t)) (\<lambda>m.
           if m = None
           then andthen (gets (\<lambda>s. is_graph_subtask s t)) (\<lambda>sub.
                seq (if sub then on_graph_sub_task_cancel_confirm env C confirm else ret ())
                    (send c (MsgTaskCancelConfirm confirm)))
           else R (TaskCancelRequested t c tc)))"

fun route :: "env \<Rightarrow> nat \<Rightarrow> router"
and on_task_cancel :: "env \<Rightarrow> nat \<Rightarrow> canceler" where
  "route env 0 ev = (\<lambda>s. NoFuel)"
| "route env (Suc n) ev = route_body env (route env n) (on_task_cancel env n) ev"
| "on_task_cancel env 0 c tc = (\<lambda>s. NoFuel)"
| "on_task_cancel env (Suc n) c tc = on_task_cancel_body env (route env n) (on_task_cancel env n) c tc"

section \<open>Handlers\<close>

definition on_task_balance_cancel :: "env \<Rightarrow> nat \<Rightarrow> TaskID \<Rightarrow> unit step" where
  "on_task_balance_cancel env n t = route env n (BalanceCancelRequested t)"

definition on_task_cancel_confirm :: "env \<Rightarrow> nat \<Rightarrow> WorkerID \<Rightarrow> TaskCancelConfirm \<Rightarrow> unit step" where
  "on_task_cancel_confirm env n w cc =
     route env n (case cancelConfirmType cc of
        CC_canceled \<Rightarrow> CancelConfirmCanceled (confirm_taskId cc) w cc
      | CC_cancelFailed \<Rightarrow> CancelConfirmFailed (confirm_taskId cc) w cc
      | CC_cancelNotFound \<Rightarrow> CancelConfirmNotFound (confirm_taskId cc) w cc)"

definition on_task_result :: "env \<Rightarrow> nat \<Rightarrow> WorkerID \<Rightarrow> TaskResult \<Rightarrow> unit step" where
  "on_task_result env n w r = route env n (TaskResultReceived (result_taskId r) w r)"

definition on_worker_connect :: "env \<Rightarrow> nat \<Rightarrow> unit step" where
  "on_worker_connect env n = retry_unassignable env (route env n)"

definition on_worker_disconnect :: "env \<Rightarrow> nat \<Rightarrow> TaskID \<Rightarrow> WorkerID \<Rightarrow> unit step" where
  "on_worker_disconnect env n t w = route env n (WorkerDisconnected t w)"

definition get_status :: "sched \<Rightarrow> (TaskState \<times> int) list" where
  "get_status s = get_statistics (mgr (core s))"

end
