(* ===== verification/TaskInvariant.thy ===== *)
theory TaskInvariant
  imports TaskController
begin

text \<open>
  The invariant of the task controller and the steps that do not leave it. For every task it
  ties together the four places that know about it: its machine, its payload, the
  waiting queue and the assignment the policy holds. The tasks whose machine is locked are
  in the middle of a transition and are exempt; everything that runs nested inside that
  transition leaves their records alone.
\<close>

section \<open>The invariant\<close>

abbreviation held :: "task_core \<Rightarrow> TaskID \<Rightarrow> WorkerID option" where
  "held c \<equiv> policy_holder (policy c)"

abbreviation task_state :: "task_core \<Rightarrow> TaskID \<Rightarrow> TaskState option" where
  "task_state c \<equiv> state_of (mgr c)"

definition locked :: "task_core \<Rightarrow> TaskID set" where
  "locked c = {t. is_locked (mgr c) t}"

text \<open>
  \<open>P\<close>: the tasks that left the queue with a worker and wait for their \<open>HasCapacity\<close> event.
  \<open>W\<close>: the tasks of a removed worker whose \<open>WorkerDisconnected\<close> event is still to come.
\<close>

definition settled :: "(TaskID \<times> WorkerID) list \<Rightarrow> TaskID set \<Rightarrow> task_core \<Rightarrow> TaskID \<Rightarrow> TaskState \<Rightarrow> bool" where
  "settled P W c t st =
     (if st = TS_inactive
      then (case held c t of
              None \<Rightarrow> dict_has (tasks c) t \<longrightarrow> t \<in> set (unassigned c)
            | Some w \<Rightarrow> (t, w) \<in> set P)
      else dict_has (tasks c) t \<and> (held c t \<noteq> None \<or> t \<in> W))"

definition tci :: "(TaskID \<times> WorkerID) list \<Rightarrow> TaskID set \<Rightarrow> task_core \<Rightarrow> bool" where
  "tci P W c \<longleftrightarrow>
     policy_inv (policy c) \<and> stats_ok (mgr c) \<and> distinct (unassigned c) \<and> distinct (map fst P) \<and>
     (\<forall>t task. dict_get (tasks c) t = Some task \<longrightarrow> taskId task = t \<and> task_state c t \<noteq> None) \<and>
     (\<forall>t. held c t \<noteq> None \<longrightarrow> task_state c t \<noteq> None) \<and>
     (\<forall>t \<in> set (unassigned c). task_state c t = Some TS_inactive \<and> t \<notin> locked c \<and> dict_has (tasks c) t \<and> held c t = None) \<and>
     (\<forall>t w. (t, w) \<in> set P \<longrightarrow> task_state c t = Some TS_inactive \<and> t \<notin> locked c \<and> dict_has (tasks c) t \<and> held c t = Some w) \<and>
     (\<forall>t \<in> W. held c t = None \<and> task_state c t \<noteq> Some TS_inactive) \<and>
     (\<forall>t st. task_state c t = Some st \<longrightarrow> \<not> is_terminal st) \<and>
     (\<forall>t st. task_state c t = Some st \<longrightarrow> t \<notin> locked c \<longrightarrow> settled P W c t st)"

abbreviation tc_inv :: "TaskID set \<Rightarrow> task_core \<Rightarrow> bool" where
  "tc_inv W c \<equiv> tci [] W c"

lemma tciD:
  assumes "tci P W c"
  shows "policy_inv (policy c)" "stats_ok (mgr c)" "distinct (unassigned c)" "distinct (map fst P)"
    "dict_get (tasks c) t = Some task \<Longrightarrow> taskId task = t \<and> task_state c t \<noteq> None"
    "held c t \<noteq> None \<Longrightarrow> task_state c t \<noteq> None"
    "t \<in> set (unassigned c) \<Longrightarrow>
      task_state c t = Some TS_inactive \<and> t \<notin> locked c \<and> dict_has (tasks c) t \<and> held c t = None"
    "(t, w) \<in> set P \<Longrightarrow> task_state c t = Some TS_inactive \<and> t \<notin> locked c \<and> dict_has (tasks c) t \<and> held c t = Some w"
    "t \<in> W \<Longrightarrow> held c t = None \<and> task_state c t \<noteq> Some TS_inactive"
    "task_state c t = Some st \<Longrightarrow> \<not> is_terminal st"
    "task_state c t = Some st \<Longrightarrow> t \<notin> locked c \<Longrightarrow> settled P W c t st"
  using assms unfolding tci_def by blast+

lemma tciI:
  assumes "policy_inv (policy c)" "stats_ok (mgr c)" "distinct (unassigned c)" "distinct (map fst P)"
    "\<And>t task. dict_get (tasks c) t = Some task \<Longrightarrow> taskId task = t \<and> task_state c t \<noteq> None"
    "\<And>t. held c t \<noteq> None \<Longrightarrow> task_state c t \<noteq> None"
    "\<And>t. t \<in> set (unassigned c) \<Longrightarrow>
      task_state c t = Some TS_inactive \<and> t \<notin> locked c \<and> dict_has (tasks c) t \<and> held c t = None"
    "\<And>t w. (t, w) \<in> set P \<Longrightarrow> task_state c t = Some TS_inactive \<and> t \<notin> locked c \<and> dict_has (tasks c) t \<and> held c t = Some w"
    "\<And>t. t \<in> W \<Longrightarrow> held c t = None \<and> task_state c t \<noteq> Some TS_inactive"
    "\<And>t st. task_state c t = Some st \<Longrightarrow> \<not> is_terminal st"
    "\<And>t st. task_state c t = Some st \<Longrightarrow> t \<notin> locked c \<Longrightarrow> settled P W c t st"
  shows "tci P W c"
  using assms unfolding tci_def by blast

text \<open>What a nested step must not touch: the records of the tasks in \<open>locked c\<close>.\<close>

definition task_data :: "task_core \<Rightarrow> TaskID \<Rightarrow> TaskStateMachine option \<times> Task option \<times> WorkerID option" where
  "task_data c t = (dict_get (mgr_machines (mgr c)) t, dict_get (tasks c) t, held c t)"

definition frame :: "task_core \<Rightarrow> task_core \<Rightarrow> bool" where
  "frame c c' \<longleftrightarrow> locked c' = locked c \<and> (\<forall>t \<in> locked c. task_data c' t = task_data c t)"

lemma frame_refl [simp]: "frame c c"
  by (simp add: frame_def)

lemma frame_trans: "frame a b \<Longrightarrow> frame b c \<Longrightarrow> frame a c"
  by (simp add: frame_def)

lemma tci_init: "tc_inv {} (core (sched_init strategy sc))" "locked (core (sched_init strategy sc)) = {}"
  by (rule tciI)
    (auto simp: sched_init_def create_allocate_policy_inv locked_def is_locked_def new_manager_def
      state_of_def stats_ok_def live_count_def)

section \<open>Changing one task\<close>

text \<open>
  A new core that differs from an old one only in what it says about task \<open>t\<close>. The
  invariant of the new core is then a matter of \<open>t\<close> alone.
\<close>

definition only_task :: "TaskID \<Rightarrow> task_core \<Rightarrow> task_core \<Rightarrow> bool" where
  "only_task t c c' \<longleftrightarrow>
     policy_inv (policy c') \<and> stats_ok (mgr c') \<and> distinct (unassigned c') \<and>
     (\<forall>u. u \<noteq> t \<longrightarrow> task_data c' u = task_data c u \<and> (u \<in> set (unassigned c') \<longleftrightarrow> u \<in> set (unassigned c)))"

lemma task_data_eq:
  assumes "task_data c' u = task_data c u"
  shows "task_state c' u = task_state c u" "held c' u = held c u" "dict_get (tasks c') u = dict_get (tasks c) u"
    "dict_has (tasks c') u = dict_has (tasks c) u" "u \<in> locked c' \<longleftrightarrow> u \<in> locked c"
    "dict_get (mgr_machines (mgr c')) u = dict_get (mgr_machines (mgr c)) u"
  using assms by (auto simp: task_data_def state_of_def locked_def is_locked_def dict_has_iff)

lemma settled_eq:
  assumes "task_data c' u = task_data c u" "u \<in> set (unassigned c') \<longleftrightarrow> u \<in> set (unassigned c)"
    "\<And>w. (u, w) \<in> set P' \<longleftrightarrow> (u, w) \<in> set P" "u \<in> W' \<longleftrightarrow> u \<in> W"
  shows "settled P' W' c' u st = settled P W c u st"
  using task_data_eq [OF assms(1)] assms(2-4) by (auto simp: settled_def split: option.splits)

lemma tci_only_task:
  assumes inv: "tci P W c" and ch: "only_task t c c'"
    and P: "distinct (map fst P')" "\<And>u w. u \<noteq> t \<Longrightarrow> (u, w) \<in> set P' \<longleftrightarrow> (u, w) \<in> set P"
    and W: "\<And>u. u \<noteq> t \<Longrightarrow> u \<in> W' \<longleftrightarrow> u \<in> W"
    and new: "\<And>task. dict_get (tasks c') t = Some task \<Longrightarrow> taskId task = t \<and> task_state c' t \<noteq> None"
      "held c' t \<noteq> None \<Longrightarrow> task_state c' t \<noteq> None"
      "t \<in> set (unassigned c') \<Longrightarrow>
        task_state c' t = Some TS_inactive \<and> t \<notin> locked c' \<and> dict_has (tasks c') t \<and> held c' t = None"
      "\<And>w. (t, w) \<in> set P' \<Longrightarrow> task_state c' t = Some TS_inactive \<and> t \<notin> locked c' \<and> dict_has (tasks c') t \<and> held c' t = Some w"
      "t \<in> W' \<Longrightarrow> held c' t = None \<and> task_state c' t \<noteq> Some TS_inactive"
      "\<And>st. task_state c' t = Some st \<Longrightarrow> \<not> is_terminal st"
      "\<And>st. task_state c' t = Some st \<Longrightarrow> t \<notin> locked c' \<Longrightarrow> settled P' W' c' t st"
  shows "tci P' W' c'"
proof -
  have d: "task_data c' u = task_data c u" "u \<in> set (unassigned c') \<longleftrightarrow> u \<in> set (unassigned c)" if "u \<noteq> t" for u
    using ch that by (auto simp: only_task_def)
  note eq = task_data_eq [OF d(1)]
  show ?thesis
  proof (rule tciI)
    show "policy_inv (policy c')" "stats_ok (mgr c')" "distinct (unassigned c')"
      using ch by (auto simp: only_task_def)
    show "distinct (map fst P')" by (rule P(1))
    fix u
    show "taskId task = u \<and> task_state c' u \<noteq> None" if "dict_get (tasks c') u = Some task" for task
      using that new(1) eq(1,3) [of u] tciD(5) [OF inv, of u task] by (cases "u = t") auto
    show "held c' u \<noteq> None \<Longrightarrow> task_state c' u \<noteq> None"
      using new(2) eq(1,2) [of u] tciD(6) [OF inv, of u] by (cases "u = t") auto
    show "u \<in> set (unassigned c') \<Longrightarrow>
        task_state c' u = Some TS_inactive \<and> u \<notin> locked c' \<and> dict_has (tasks c') u \<and> held c' u = None"
      using new(3) eq(1,2,4,5) [of u] d(2) [of u] tciD(7) [OF inv, of u] by (cases "u = t") auto
    show "task_state c' u = Some TS_inactive \<and> u \<notin> locked c' \<and> dict_has (tasks c') u \<and> held c' u = Some w"
      if "(u, w) \<in> set P'" for w
      using that new(4) eq(1,2,4,5) [of u] P(2) [of u w] tciD(8) [OF inv, of u w] by (cases "u = t") auto
    show "u \<in> W' \<Longrightarrow> held c' u = None \<and> task_state c' u \<noteq> Some TS_inactive"
      using new(5) eq(1,2) [of u] W [of u] tciD(9) [OF inv, of u] by (cases "u = t") auto
    show "\<not> is_terminal st" if "task_state c' u = Some st" for st
      using that new(6) eq(1) [of u] tciD(10) [OF inv, of u st] by (cases "u = t") auto
    show "settled P' W' c' u st" if "task_state c' u = Some st" "u \<notin> locked c'" for st
    proof (cases "u = t")
      case True
      then show ?thesis using that new(7) by simp
    next
      case False
      have "settled P' W' c' u st = settled P W c u st"
        by (rule settled_eq [OF d(1) d(2)]) (use False P(2) W in auto)
      then show ?thesis using that eq(1,5) [of u] tciD(11) [OF inv, of u st] False by simp
    qed
  qed
qed

lemma only_task_refl: "tci P W c \<Longrightarrow> only_task t c c"
  using tciD(1-3) [of P W c] by (simp add: only_task_def)

lemma only_task_trans: "only_task t a b \<Longrightarrow> only_task t b c \<Longrightarrow> only_task t a c"
  by (simp add: only_task_def)

text \<open>A task that is not locked before or after can change without touching the locked ones.\<close>

lemma frame_only_task:
  assumes "only_task t c c'" "t \<notin> locked c" "t \<notin> locked c'"
  shows "frame c c'"
proof -
  have d: "task_data c' u = task_data c u" if "u \<noteq> t" for u using assms(1) that by (simp add: only_task_def)
  have "u \<in> locked c' \<longleftrightarrow> u \<in> locked c" for u
    using task_data_eq(5) [OF d, of u] assms(2,3) by (cases "u = t") auto
  then have "locked c' = locked c" by (rule set_eqI)
  moreover have "task_data c' u = task_data c u" if "u \<in> locked c" for u
    using that assms(2) by (intro d) auto
  ultimately show ?thesis by (simp add: frame_def)
qed

section \<open>Machines\<close>

lemma machines_commit:
  "u \<noteq> t \<Longrightarrow> dict_get (mgr_machines (commit t ev st m)) u = dict_get (mgr_machines m) u"
  by (auto simp: commit_def Let_def split: option.splits)

lemma machines_lock: "u \<noteq> t \<Longrightarrow> dict_get (mgr_machines (lock_machine t m)) u = dict_get (mgr_machines m) u"
  by (auto simp: lock_machine_def split: option.splits)

lemma machines_release: "u \<noteq> t \<Longrightarrow> dict_get (mgr_machines (release_machine t i m)) u = dict_get (mgr_machines m) u"
  by (auto simp: release_machine_def split: option.splits)

lemma machines_remove: "u \<noteq> t \<Longrightarrow> dict_get (mgr_machines (remove_state_machine t m)) u = dict_get (mgr_machines m) u"
  by (simp add: remove_state_machine_def)

lemma machines_add: "add_state_machine t m = Inr m' \<Longrightarrow> u \<noteq> t \<Longrightarrow> dict_get (mgr_machines m') u = dict_get (mgr_machines m) u"
  by (auto simp: add_state_machine_def split: if_splits)

lemmas machines_simps = machines_commit machines_lock machines_release machines_remove

lemma AList_update_same: "map_of d k = Some v \<Longrightarrow> distinct (map fst d) \<Longrightarrow> AList.update k v d = d"
  by (induction d) (auto split: if_splits)

text \<open>Locking a free machine and releasing it again changes nothing.\<close>

lemma release_lock:
  assumes ok: "stats_ok m" and sm: "dict_get (mgr_machines m) t = Some sm" "\<not> machine_locked sm"
  shows "release_machine t (machine_id sm) (lock_machine t m) = m"
proof -
  have eq: "sm\<lparr>machine_locked := False\<rparr> = sm" using sm(2) by simp
  have "dict_set t (sm\<lparr>machine_locked := False\<rparr>) (dict_set t (sm\<lparr>machine_locked := True\<rparr>) (mgr_machines m)) = mgr_machines m"
    unfolding eq using ok sm(1) AList_update_same [of "mgr_machines m" t sm]
    by (simp add: dict_set_def dict_get_def stats_ok_def dict_ok_def update_last)
  then show ?thesis using sm by (simp add: lock_machine_def release_machine_def)
qed

lemma release_absent: "dict_get (mgr_machines m) t = None \<Longrightarrow> release_machine t i m = m"
  by (simp add: release_machine_def)

section \<open>Assignments\<close>

lemma acquire_worker_run:
  assumes "policy_inv (policy (core s))" and "held (core s) (taskId task) = None"
  obtains w p' where "acquire_worker env task s = Ret w (s\<lparr>core := (core s)\<lparr>policy := p'\<rparr>\<rparr>)" "policy_inv p'"
    "policy_holder p' = (if worker_is_valid w then (held (core s))(taskId task \<mapsto> w) else held (core s))"
  using al.assign_task [OF assms, of "env_order env (policy (core s)) (taskId task)"]
  by (auto simp: acquire_worker_def with_policy_def split: if_splits)

lemma on_task_done_run:
  assumes "policy_inv (policy (core s))"
  obtains w p' where "on_task_done t s = Ret w (s\<lparr>core := (core s)\<lparr>policy := p'\<rparr>\<rparr>)" "policy_inv p'"
    "policy_holder p' = (held (core s))(t := None)"
  using al.remove_task [OF assms, of t] by (auto simp: on_task_done_def with_policy_def)

lemma on_task_done_absent:
  assumes "policy_inv (policy (core s))"
  shows "\<exists>w s'. on_task_done t s = Ret w s'"
  using on_task_done_run [OF assms] by blast

lemma holder_None_iff:
  "policy_inv p \<Longrightarrow> \<not> worker_is_valid (policy_get_worker_by_task_id p t) \<longleftrightarrow> policy_holder p t = None"
  using al.get_worker_valid_iff [of p t] by auto

section \<open>Steps that send\<close>

text \<open>What a send or a monitor message leaves alone.\<close>

definition quiet :: "sched \<Rightarrow> sched \<Rightarrow> bool" where
  "quiet s s' \<longleftrightarrow> (\<exists>a b. s' = s\<lparr>sent := sent s @ a, monitor := monitor s @ b\<rparr>)"

lemma quiet_simps:
  assumes "quiet s s'"
  shows "core s' = core s" "graphs s' = graphs s" "graph_of s' = graph_of s" "clients s' = clients s" "objects s' = objects s"
  using assms by (auto simp: quiet_def)

lemma quiet_refl [simp]: "quiet s s"
  unfolding quiet_def by (rule exI [of _ "[]"], rule exI [of _ "[]"]) simp

lemma quiet_trans: "quiet a b \<Longrightarrow> quiet b c \<Longrightarrow> quiet a c"
  by (force simp: quiet_def)


lemma quiet_old_core:
  assumes "quiet (s\<lparr>core := c\<rparr>) s'"
  shows "quiet s (s'\<lparr>core := core s\<rparr>)"
proof -
  obtain a b where "s' = s\<lparr>core := c, sent := sent s @ a, monitor := monitor s @ b\<rparr>"
    using assms by (auto simp: quiet_def)
  then show ?thesis unfolding quiet_def by (intro exI [of _ a] exI [of _ b]) simp
qed

lemma send_quiet: "send to m s = Ret () (s\<lparr>sent := sent s @ [(to, m)]\<rparr>)" "quiet s (s\<lparr>sent := sent s @ [(to, m)]\<rparr>)"
proof -
  show "send to m s = Ret () (s\<lparr>sent := sent s @ [(to, m)]\<rparr>)" by (simp add: send_def)
  show "quiet s (s\<lparr>sent := sent s @ [(to, m)]\<rparr>)"
    unfolding quiet_def by (rule exI [of _ "[(to, m)]"], rule exI [of _ "[]"]) simp
qed

lemma publish_quiet: "publish m s = Ret () (s\<lparr>monitor := monitor s @ [m]\<rparr>)" "quiet s (s\<lparr>monitor := monitor s @ [m]\<rparr>)"
proof -
  show "publish m s = Ret () (s\<lparr>monitor := monitor s @ [m]\<rparr>)" by (simp add: publish_def)
  show "quiet s (s\<lparr>monitor := monitor s @ [m]\<rparr>)"
    unfolding quiet_def by (rule exI [of _ "[]"], rule exI [of _ "[m]"]) simp
qed

lemma send_monitor_quiet: "\<exists>s'. send_monitor t st fname md s = Ret () s' \<and> quiet s s'"
  using publish_quiet by (simp add: send_monitor_def get_worker_by_task_id_def andthen_run)

lemma send_task_to_worker_quiet:
  assumes "dict_has (tasks (core s)) t"
  shows "\<exists>s'. send_task_to_worker w t s = Ret () s' \<and> quiet s s'"
proof -
  obtain task where task: "dict_get (tasks (core s)) t = Some task" using assms by (auto simp: dict_has_iff)
  let ?s1 = "s\<lparr>sent := sent s @ [(w, MsgTask task)]\<rparr>"
  obtain s' where "send_monitor t TS_running (get_object_name (objects ?s1) (funcObjectId task)) '''' ?s1 = Ret () s'"
      "quiet ?s1 s'"
    using send_monitor_quiet by blast
  then show ?thesis
    using task send_quiet(1) [of w "MsgTask task" s] quiet_trans [OF send_quiet(2) [of s w "MsgTask task"]]
    by (auto simp: send_task_to_worker_def object_name_def andthen_run seq_run lookup_run)
qed

section \<open>Handing out capacity\<close>

lemma task_data_policy:
  "policy_holder p' u = held c u \<Longrightarrow> task_data (c\<lparr>policy := p'\<rparr>) u = task_data c u"
  by (simp add: task_data_def)

lemma only_task_policy:
  assumes "tci P W c" "policy_inv p'" "\<And>u. u \<noteq> t \<Longrightarrow> policy_holder p' u = held c u"
  shows "only_task t c (c\<lparr>policy := p'\<rparr>)"
  using assms tciD(2,3) [OF assms(1)] by (simp add: only_task_def task_data_policy)

lemma tci_same_policy:
  assumes "tci P W c" "policy_inv p'" "policy_holder p' = held c"
  shows "tci P W (c\<lparr>policy := p'\<rparr>)" "frame c (c\<lparr>policy := p'\<rparr>)"
proof -
  have d: "task_data (c\<lparr>policy := p'\<rparr>) u = task_data c u" for u using assms(3) by (simp add: task_data_policy)
  have "settled P W (c\<lparr>policy := p'\<rparr>) u st = settled P W c u st" for u st
    by (rule settled_eq [OF d]) simp_all
  then show "tci P W (c\<lparr>policy := p'\<rparr>)"
    using assms unfolding tci_def by (simp add: locked_def)
  show "frame c (c\<lparr>policy := p'\<rparr>)" using d by (simp add: frame_def locked_def)
qed

text \<open>One round of \<open>__acquire_workers\<close>: the head of the queue becomes a pending task.\<close>

lemma tci_acquired:
  assumes inv: "tci P W c" and q: "unassigned c = t # ts" and p: "policy_inv p'" "policy_holder p' = (held c)(t \<mapsto> w)"
  shows "tci (P @ [(t, w)]) W (c\<lparr>policy := p', unassigned := ts\<rparr>)" "frame c (c\<lparr>policy := p', unassigned := ts\<rparr>)"
proof -
  let ?c = "c\<lparr>policy := p', unassigned := ts\<rparr>"
  have t: "task_state c t = Some TS_inactive" "t \<notin> locked c" "dict_has (tasks c) t" "held c t = None"
    using tciD(7) [OF inv, of t] q by auto
  have nP: "t \<notin> set (map fst P)" using tciD(8) [OF inv, of t] t(4) by force
  have nW: "t \<notin> W" using tciD(9) [OF inv, of t] t(1) by auto
  have d: "t \<notin> set ts" "distinct ts" using tciD(3) [OF inv] q by auto
  have ch: "only_task t c ?c"
    using p tciD(2,3) [OF inv] q by (auto simp: only_task_def task_data_def)
  have lk: "locked ?c = locked c" by (simp add: locked_def)
  then have lk': "t \<notin> locked ?c" using t(2) by simp
  show "frame c ?c" by (rule frame_only_task [OF ch t(2) lk'])
  show "tci (P @ [(t, w)]) W ?c"
  proof (rule tci_only_task [OF inv ch])
    show "distinct (map fst (P @ [(t, w)]))" using nP tciD(4) [OF inv] by auto
    show "(u, v) \<in> set (P @ [(t, w)]) \<longleftrightarrow> (u, v) \<in> set P" if "u \<noteq> t" for u v using that by auto
    show "\<And>task. dict_get (tasks ?c) t = Some task \<Longrightarrow> taskId task = t \<and> task_state ?c t \<noteq> None"
      using tciD(5) [OF inv, of t] by simp
    show "task_state ?c t = Some TS_inactive \<and> t \<notin> locked ?c \<and> dict_has (tasks ?c) t \<and> held ?c t = Some v"
      if "(t, v) \<in> set (P @ [(t, w)])" for v
      using that t nP lk p(2) by force
    show "t \<in> W \<Longrightarrow> held ?c t = None \<and> task_state ?c t \<noteq> Some TS_inactive" using nW by simp
    show "\<And>st. task_state ?c t = Some st \<Longrightarrow> \<not> is_terminal st" using t(1) by simp
    show "\<And>st. task_state ?c t = Some st \<Longrightarrow> t \<notin> locked ?c \<Longrightarrow> settled (P @ [(t, w)]) W ?c t st"
      using t(1) p(2) by (simp add: settled_def)
  qed (use t d in auto)
qed

lemma acquire_loop_run:
  assumes "tci P W (core s)" and "unassigned (core s) = ts"
  shows "\<exists>ready c'. acquire_loop env ts s = Ret ready (s\<lparr>core := c'\<rparr>) \<and> tci (P @ ready) W c' \<and> frame (core s) c'"
  using assms
proof (induction ts arbitrary: s P)
  case Nil
  then show ?case by (auto intro!: exI [of _ "core s"])
next
  case (Cons t ts)
  note t = tciD(7) [OF Cons.prems(1), of t]
  obtain task where task: "dict_get (tasks (core s)) t = Some task" using t Cons.prems(2) by (auto simp: dict_has_iff)
  then have id: "taskId task = t" using tciD(5) [OF Cons.prems(1)] by blast
  obtain w p' where a: "acquire_worker env task s = Ret w (s\<lparr>core := (core s)\<lparr>policy := p'\<rparr>\<rparr>)" "policy_inv p'"
      "policy_holder p' = (if worker_is_valid w then (held (core s))(taskId task \<mapsto> w) else held (core s))"
    using acquire_worker_run [OF tciD(1) [OF Cons.prems(1)], of task env] t Cons.prems(2) id by auto
  show ?case
  proof (cases "worker_is_valid w")
    case False
    then have "acquire_loop env (t # ts) s = Ret [] (s\<lparr>core := (core s)\<lparr>policy := p'\<rparr>\<rparr>)"
      using task a(1) by simp
    then show ?thesis using tci_same_policy [OF Cons.prems(1) a(2)] a(3) False by auto
  next
    case True
    let ?c1 = "(core s)\<lparr>policy := p', unassigned := ts\<rparr>"
    have c1: "tci (P @ [(t, w)]) W ?c1" "frame (core s) ?c1"
      using tci_acquired [OF Cons.prems(1,2) a(2)] a(3) True id by auto
    obtain ready c' where "acquire_loop env ts (s\<lparr>core := ?c1\<rparr>) = Ret ready (s\<lparr>core := c'\<rparr>)"
        "tci ((P @ [(t, w)]) @ ready) W c'" "frame ?c1 c'"
      using Cons.IH [of "P @ [(t, w)]" "s\<lparr>core := ?c1\<rparr>"] c1(1) by auto
    moreover have "acquire_loop env (t # ts) s = andthen (acquire_loop env ts) (\<lambda>rest. ret ((t, w) # rest)) (s\<lparr>core := ?c1\<rparr>)"
      using task a(1) True by (simp add: upd_core_def)
    ultimately show ?thesis using c1(2) frame_trans by (auto simp: andthen_run)
  qed
qed

text \<open>The event a pending task waits for makes it run.\<close>

lemma has_capacity_run:
  assumes inv: "tci ((t, w) # P) W (core s)"
  shows "\<exists>s' c'. route_body env R C (HasCapacity t w) s = Ret () (s'\<lparr>core := c'\<rparr>) \<and> quiet s s' \<and>
    tci P W c' \<and> frame (core s) c' \<and> task_state c' t = Some TS_running"
proof -
  let ?c = "core s"
  have t: "task_state ?c t = Some TS_inactive" "t \<notin> locked ?c" "dict_has (tasks ?c) t" "held ?c t = Some w"
    using tciD(8) [OF inv, of t w] by auto
  then obtain sm where sm: "dict_get (mgr_machines (mgr ?c)) t = Some sm" "machine_state sm = TS_inactive"
    by (auto simp: state_of_def)
  have unl: "\<not> machine_locked sm" using t(2) sm(1) by (simp add: locked_def is_locked_def)
  let ?m1 = "lock_machine t (mgr ?c)"
  let ?m2 = "commit t (event_name (HasCapacity t w)) TS_running ?m1"
  let ?m3 = "release_machine t (machine_id sm) ?m2"
  let ?c' = "?c\<lparr>mgr := ?m3\<rparr>"
  have lk1: "is_locked ?m1 t" using t(1) by simp
  have sm2: "dict_get (mgr_machines ?m2) t = Some (machine_commit (event_name (HasCapacity t w)) TS_running (sm\<lparr>machine_locked := True\<rparr>))"
    using sm(1) by (simp add: lock_machine_def commit_def Let_def)
  have st': "task_state ?c' u = (if u = t then Some TS_running else task_state ?c u)" for u
    using state_of_commit [OF lk1] by simp
  have lk': "t \<notin> locked ?c'" using sm2 by (simp add: locked_def is_locked_release)
  have ch: "only_task t ?c ?c'"
    using tciD(1-3) [OF inv] by (auto simp: only_task_def task_data_def machines_simps intro!: stats_ok_intros)
  have nW: "t \<notin> W" using tciD(9) [OF inv, of t] t(4) by auto
  have dP: "t \<notin> fst ` set P" "distinct (map fst P)" using tciD(4) [OF inv] by auto
  have nU: "t \<notin> set (unassigned ?c)" using tciD(7) [OF inv, of t] t(4) by auto
  have "tci P W ?c'"
  proof (rule tci_only_task [OF inv ch dP(2)])
    show "(u, v) \<in> set P \<longleftrightarrow> (u, v) \<in> set ((t, w) # P)" if "u \<noteq> t" for u v using that by auto
    show "\<And>task. dict_get (tasks ?c') t = Some task \<Longrightarrow> taskId task = t \<and> task_state ?c' t \<noteq> None"
      using tciD(5) [OF inv, of t] st' by simp
    show "(t, v) \<in> set P \<Longrightarrow> task_state ?c' t = Some TS_inactive \<and> t \<notin> locked ?c' \<and> dict_has (tasks ?c') t \<and> held ?c' t = Some v" for v
      using dP(1) by force
    show "\<And>st. task_state ?c' t = Some st \<Longrightarrow> t \<notin> locked ?c' \<Longrightarrow> settled P W ?c' t st"
      using t st' by (simp add: settled_def)
  qed (use nW nU st' in auto)
  moreover have "frame ?c ?c'" by (rule frame_only_task [OF ch t(2) lk'])
  moreover obtain s' where s': "send_task_to_worker w t (s\<lparr>core := ?c\<lparr>mgr := ?m1\<rparr>\<rparr>) = Ret () s'"
      "quiet (s\<lparr>core := ?c\<lparr>mgr := ?m1\<rparr>\<rparr>) s'"
    using send_task_to_worker_quiet [of "s\<lparr>core := ?c\<lparr>mgr := ?m1\<rparr>\<rparr>" t w] t(3) by auto
  have core': "core s' = ?c\<lparr>mgr := ?m1\<rparr>" using quiet_simps(1) [OF s'(2)] by simp
  have "route_body env R C (HasCapacity t w) s = Ret () (s'\<lparr>core := ?c'\<rparr>)"
    using sm unl s'(1) core'
    by (simp add: route_body_def get_state_machine_def with_mgr_def upd_core_def route_locked_def action_def
        act_has_capacity_def settle_def Let_def)
  moreover have "quiet s (s'\<lparr>core := ?c\<rparr>)" by (rule quiet_old_core [OF s'(2)])
  ultimately show ?thesis using st' by (intro exI [of _ "s'\<lparr>core := ?c\<rparr>"] exI [of _ ?c']) simp
qed

text \<open>Steps that change the core and send, and nothing else.\<close>

definition calm :: "sched \<Rightarrow> sched \<Rightarrow> bool" where
  "calm s s' \<longleftrightarrow> (\<exists>c a b. s' = s\<lparr>core := c, sent := sent s @ a, monitor := monitor s @ b\<rparr>)"

lemma calmI: "s' = s\<lparr>core := c, sent := sent s @ a, monitor := monitor s @ b\<rparr> \<Longrightarrow> calm s s'"
  unfolding calm_def by blast

lemma calm_simps:
  assumes "calm s s'"
  shows "graphs s' = graphs s" "graph_of s' = graph_of s" "clients s' = clients s" "objects s' = objects s"
  using assms by (auto simp: calm_def)

lemma calm_core: "calm s (s\<lparr>core := c\<rparr>)"
  by (rule calmI [where a = "[]" and b = "[]"]) simp

lemma calm_trans: "calm a b \<Longrightarrow> calm b c \<Longrightarrow> calm a c"
proof -
  assume "calm a b" "calm b c"
  then obtain k l m k' l' m' where "b = a\<lparr>core := k, sent := sent a @ l, monitor := monitor a @ m\<rparr>"
      "c = b\<lparr>core := k', sent := sent b @ l', monitor := monitor b @ m'\<rparr>"
    by (auto simp: calm_def)
  then show ?thesis by (intro calmI [where c = k' and a = "l @ l'" and b = "m @ m'"]) simp
qed

lemma calm_quiet: "quiet s s' \<Longrightarrow> calm s s'"
proof -
  assume "quiet s s'"
  then obtain a b where "s' = s\<lparr>sent := sent s @ a, monitor := monitor s @ b\<rparr>" by (auto simp: quiet_def)
  then show ?thesis by (intro calmI [where c = "core s" and a = a and b = b]) simp
qed

lemma pending_run:
  assumes "tci P W (core s)"
  shows "\<exists>s'. gather (map (\<lambda>(t, w). route env (Suc n) (HasCapacity t w)) P) s = Ret () s' \<and> calm s s' \<and>
    tc_inv W (core s') \<and> frame (core s) (core s')"
  using assms
proof (induction P arbitrary: s)
  case Nil
  then show ?case using calm_quiet [OF quiet_refl] by auto
next
  case (Cons tw P)
  obtain t w where tw: "tw = (t, w)" by (cases tw)
  obtain s1 c1 where one: "route env (Suc n) (HasCapacity t w) s = Ret () (s1\<lparr>core := c1\<rparr>)" "quiet s s1"
      "tci P W c1" "frame (core s) c1"
    using has_capacity_run [of t w P W s env "route env n" "on_task_cancel env n"] Cons.prems tw by auto
  then obtain s2 where "gather (map (\<lambda>(t, w). route env (Suc n) (HasCapacity t w)) P) (s1\<lparr>core := c1\<rparr>) = Ret () s2"
      "calm (s1\<lparr>core := c1\<rparr>) s2" "tc_inv W (core s2)" "frame c1 (core s2)"
    using Cons.IH [of "s1\<lparr>core := c1\<rparr>"] by auto
  moreover have "calm s (s1\<lparr>core := c1\<rparr>)" using calm_trans [OF calm_quiet [OF one(2)] calm_core] .
  ultimately show ?case using one(1,4) by (auto simp: tw simp del: route.simps intro: calm_trans frame_trans)
qed

lemma retry_run:
  assumes inv: "tc_inv W (core s)"
  shows "\<exists>s'. retry_unassignable env (route env (Suc n)) s = Ret () s' \<and> calm s s' \<and>
    tc_inv W (core s') \<and> frame (core s) (core s')"
proof -
  obtain ready c' where a: "acquire_workers env s = Ret ready (s\<lparr>core := c'\<rparr>)" "tci ready W c'" "frame (core s) c'"
    using acquire_loop_run [OF inv refl, of env] by (auto simp: acquire_workers_def)
  obtain s' where "gather (map (\<lambda>(t, w). route env (Suc n) (HasCapacity t w)) ready) (s\<lparr>core := c'\<rparr>) = Ret () s'"
      "calm (s\<lparr>core := c'\<rparr>) s'" "tc_inv W (core s')" "frame c' (core s')"
    using pending_run [of ready W "s\<lparr>core := c'\<rparr>" env n] a(2) by auto
  with a show ?thesis
    using calm_trans [OF calm_core] frame_trans by (auto simp: retry_unassignable_def simp del: route.simps)
qed

text \<open>
  Placing the locked task \<open>t\<close> again: afterwards it is held and to run, or queued and to be
  inactive.
\<close>

lemma acquire_and_dispatch_run:
  assumes pol: "policy_inv (policy (core s))" and pay: "dict_get (tasks (core s)) t = Some task" "taskId task = t"
    and free: "held (core s) t = None"
  shows "\<exists>s' p' w. quiet s s' \<and> policy_inv p' \<and>
    (if worker_is_valid w
     then acquire_and_dispatch env t s = Ret TS_running (s'\<lparr>core := (core s)\<lparr>policy := p'\<rparr>\<rparr>) \<and>
       policy_holder p' = (held (core s))(t \<mapsto> w)
     else acquire_and_dispatch env t s =
         Ret TS_inactive (s'\<lparr>core := (core s)\<lparr>policy := p', unassigned := unassigned (core s) @ [t]\<rparr>\<rparr>) \<and>
       policy_holder p' = held (core s))"
proof -
  obtain w p' where a: "acquire_worker env task s = Ret w (s\<lparr>core := (core s)\<lparr>policy := p'\<rparr>\<rparr>)" "policy_inv p'"
      "policy_holder p' = (if worker_is_valid w then (held (core s))(taskId task \<mapsto> w) else held (core s))"
    using acquire_worker_run [OF pol] free pay(2) by metis
  let ?name = "get_object_name (objects s) (funcObjectId task)"
  show ?thesis
  proof (cases "worker_is_valid w")
    case True
    let ?s1 = "s\<lparr>core := (core s)\<lparr>policy := p'\<rparr>\<rparr>"
    obtain s' where s': "send_task_to_worker w t ?s1 = Ret () s'" "quiet ?s1 s'"
      using send_task_to_worker_quiet [of ?s1 t w] pay(1) by (auto simp: dict_has_iff)
    have "s' = (s'\<lparr>core := core s\<rparr>)\<lparr>core := (core s)\<lparr>policy := p'\<rparr>\<rparr>" using quiet_simps(1) [OF s'(2)] by simp
    then have "acquire_and_dispatch env t s = Ret TS_running ((s'\<lparr>core := core s\<rparr>)\<lparr>core := (core s)\<lparr>policy := p'\<rparr>\<rparr>)"
      using pay a(1) True s'(1) by (simp add: acquire_and_dispatch_def object_name_def)
    with quiet_old_core [OF s'(2)] a True pay(2) show ?thesis by (metis (full_types))
  next
    case False
    let ?c1 = "(core s)\<lparr>policy := p', unassigned := unassigned (core s) @ [t]\<rparr>"
    obtain s' where s': "send_monitor t TS_inactive ?name [] (s\<lparr>core := ?c1\<rparr>) = Ret () s'" "quiet (s\<lparr>core := ?c1\<rparr>) s'"
      using send_monitor_quiet by blast
    have "s' = (s'\<lparr>core := core s\<rparr>)\<lparr>core := ?c1\<rparr>" using quiet_simps(1) [OF s'(2)] by simp
    then have "acquire_and_dispatch env t s = Ret TS_inactive ((s'\<lparr>core := core s\<rparr>)\<lparr>core := ?c1\<rparr>)"
      using pay a(1) False s'(1) by (simp add: acquire_and_dispatch_def object_name_def upd_core_def)
    with quiet_old_core [OF s'(2)] a False show ?thesis by (metis (full_types))
  qed
qed

section \<open>New tasks\<close>

text \<open>The three states a new task can be in: without a payload, waiting, or with a worker pending.\<close>

lemma new_task_core:
  assumes inv: "tc_inv W c" and m: "add_state_machine t (mgr c) = Inr m'" and nW: "t \<notin> W"
  shows "tc_inv W (c\<lparr>mgr := m'\<rparr>)" "frame c (c\<lparr>mgr := m'\<rparr>)"
    and "taskId task = t \<Longrightarrow> policy_inv p' \<Longrightarrow> policy_holder p' = held c \<Longrightarrow>
      tc_inv W (c\<lparr>mgr := m', tasks := dict_set t task (tasks c), policy := p', unassigned := unassigned c @ [t]\<rparr>)"
    and "taskId task = t \<Longrightarrow> policy_inv p' \<Longrightarrow> policy_holder p' = (held c)(t \<mapsto> w) \<Longrightarrow>
      tci [(t, w)] W (c\<lparr>mgr := m', tasks := dict_set t task (tasks c), policy := p'\<rparr>)"
    and "policy_inv p' \<Longrightarrow> (\<And>u. u \<noteq> t \<Longrightarrow> policy_holder p' u = held c u) \<Longrightarrow>
      frame c (c\<lparr>mgr := m', tasks := dict_set t task (tasks c), policy := p', unassigned := unassigned c @ [t]\<rparr>)"
    and "policy_inv p' \<Longrightarrow> (\<And>u. u \<noteq> t \<Longrightarrow> policy_holder p' u = held c u) \<Longrightarrow>
      frame c (c\<lparr>mgr := m', tasks := dict_set t task (tasks c), policy := p'\<rparr>)"
    and "held c t = None" and "t \<notin> set (unassigned c)"
proof -
  note st = state_of_add [OF m]
  show free: "held c t = None" using tciD(6) [OF inv, of t] st(3) by (cases "held c t") auto
  have nopay: "dict_get (tasks c) t = None" using tciD(5) [OF inv, of t] st(3) by (cases "dict_get (tasks c) t") auto
  show nU: "t \<notin> set (unassigned c)" using tciD(7) [OF inv, of t] st(3) by auto
  have nL: "t \<notin> locked c" using st(3) by (auto simp: locked_def is_locked_def state_of_def)
  have ok: "stats_ok m'" using stats_ok_add [OF tciD(2) [OF inv] m] .
  have lk: "t \<notin> locked (c\<lparr>mgr := m', policy := p', tasks := ts, unassigned := us\<rparr>)" for p' ts us
    using st(2) by (simp add: locked_def)
  have ch: "only_task t c (c\<lparr>mgr := m', tasks := ts, policy := p', unassigned := us\<rparr>)"
    if "policy_inv p'" "\<And>u. u \<noteq> t \<Longrightarrow> policy_holder p' u = held c u" "distinct us"
      "\<And>u. u \<noteq> t \<Longrightarrow> dict_get ts u = dict_get (tasks c) u" "\<And>u. u \<noteq> t \<Longrightarrow> u \<in> set us \<longleftrightarrow> u \<in> set (unassigned c)" for p' ts us
    using that ok machines_add [OF m] by (auto simp: only_task_def task_data_def)
  have ch1: "only_task t c (c\<lparr>mgr := m'\<rparr>)"
    using ch [of "policy c" "unassigned c" "tasks c"] tciD(1,3) [OF inv] by simp
  have lk1: "t \<notin> locked (c\<lparr>mgr := m'\<rparr>)" using st(2) by (simp add: locked_def)
  show "frame c (c\<lparr>mgr := m'\<rparr>)" by (rule frame_only_task [OF ch1 nL lk1])
  show "tc_inv W (c\<lparr>mgr := m'\<rparr>)"
    by (rule tci_only_task [OF inv ch1]) (use free nopay nU nW st(1) in \<open>auto simp: settled_def dict_has_iff\<close>)
  have chU: "only_task t c (c\<lparr>mgr := m', tasks := dict_set t task (tasks c), policy := p', unassigned := unassigned c @ [t]\<rparr>)"
    if "policy_inv p'" "\<And>u. u \<noteq> t \<Longrightarrow> policy_holder p' u = held c u" for p'
    using that tciD(3) [OF inv] nU by (intro ch) auto
  show "frame c (c\<lparr>mgr := m', tasks := dict_set t task (tasks c), policy := p', unassigned := unassigned c @ [t]\<rparr>)"
    if "policy_inv p'" "\<And>u. u \<noteq> t \<Longrightarrow> policy_holder p' u = held c u"
    using frame_only_task [OF chU [OF that] nL] st(2) by (simp add: locked_def)
  show "tc_inv W (c\<lparr>mgr := m', tasks := dict_set t task (tasks c), policy := p', unassigned := unassigned c @ [t]\<rparr>)"
    if "taskId task = t" "policy_inv p'" "policy_holder p' = held c"
    by (rule tci_only_task [OF inv chU]) (use that free nW st(1,2) in \<open>auto simp: settled_def locked_def\<close>)
  have chP: "only_task t c (c\<lparr>mgr := m', tasks := dict_set t task (tasks c), policy := p'\<rparr>)"
    if "policy_inv p'" "\<And>u. u \<noteq> t \<Longrightarrow> policy_holder p' u = held c u" for p'
    using ch [of p' "unassigned c" "dict_set t task (tasks c)"] that tciD(3) [OF inv] by simp
  show "frame c (c\<lparr>mgr := m', tasks := dict_set t task (tasks c), policy := p'\<rparr>)"
    if "policy_inv p'" "\<And>u. u \<noteq> t \<Longrightarrow> policy_holder p' u = held c u"
    using frame_only_task [OF chP [OF that] nL] st(2) by (simp add: locked_def)
  show "tci [(t, w)] W (c\<lparr>mgr := m', tasks := dict_set t task (tasks c), policy := p'\<rparr>)"
    if "taskId task = t" "policy_inv p'" "policy_holder p' = (held c)(t \<mapsto> w)"
    by (rule tci_only_task [OF inv chP]) (use that nU nW st(1,2) in \<open>auto simp: settled_def locked_def\<close>)
qed

text \<open>The part of the state that decides about later steps.\<close>

definition steady :: "TaskID set \<Rightarrow> sched \<Rightarrow> sched \<Rightarrow> bool" where
  "steady W s s' \<longleftrightarrow> tc_inv W (core s') \<and> frame (core s) (core s') \<and> graphs s' = graphs s"

lemma on_task_new_steady:
  assumes inv: "tc_inv W (core s)" and nW: "taskId task0 \<notin> W"
  shows "sat (\<lambda>_. steady W s) (steady W s) (on_task_new env (route env (Suc n)) task0 s)"
proof -
  define task where "task = task0\<lparr>task_capabilities := capabilities_to_dict (task_capabilities task0)\<rparr>"
  let ?t = "taskId task0" and ?R = "route env (Suc n)"
  have id: "taskId task = ?t" by (simp add: task_def)
  have refl: "steady W s s" using inv by (simp add: steady_def)
  show ?thesis
  proof (cases "task_state (core s) ?t")
    case (Some st)
    then have "on_task_new env ?R task0 s = Ret () s"
      by (auto simp: on_task_new_def Let_def get_state_machine_def state_of_def)
    then show ?thesis using refl by simp
  next
    case None
    obtain m' where m: "add_state_machine ?t (mgr (core s)) = Inr m'" using add_state_machine_fresh [OF None] by blast
    note new = new_task_core [OF inv m nW]
    let ?s1 = "s\<lparr>core := (core s)\<lparr>mgr := m'\<rparr>\<rparr>"
    have s1: "steady W s ?s1" using new(1,2) by (simp add: steady_def)
    define rest where "rest = seq (upd_core (\<lambda>c. c\<lparr>tasks := dict_set ?t task (tasks c)\<rparr>))
        (andthen (acquire_worker env task) (\<lambda>w.
           if \<not> worker_is_valid w
           then seq (upd_core (\<lambda>c. c\<lparr>unassigned := unassigned c @ [?t]\<rparr>))
                  (andthen (object_name (funcObjectId task)) (\<lambda>name. send_monitor ?t TS_inactive name ''''))
           else ?R (HasCapacity ?t w)))"
    have run: "on_task_new env ?R task0 s = seq (on_task_begin (task_source task) ?t) rest ?s1"
      unfolding on_task_new_def Let_def task_def [symmetric] id rest_def [symmetric]
      using None m by (simp add: get_state_machine_def state_of_def add_machine_def)
    show ?thesis
    proof (cases "otm_add (task_source task) ?t (clients s)")
      case (Inl e)
      then have "on_task_new env ?R task0 s = Raise e ?s1" by (simp add: run seq_run on_task_begin_def)
      then show ?thesis using s1 by simp
    next
      case (Inr d)
      let ?s2 = "s\<lparr>clients := d, core := (core s)\<lparr>mgr := m', tasks := dict_set ?t task (tasks (core s))\<rparr>\<rparr>"
      have h2: "policy_inv (policy (core ?s2))" "held (core ?s2) (taskId task) = None"
        using tciD(1) [OF inv] new(7) id by simp_all
      obtain w p' where a0: "acquire_worker env task ?s2 = Ret w (?s2\<lparr>core := (core ?s2)\<lparr>policy := p'\<rparr>\<rparr>)" "policy_inv p'"
          "policy_holder p' = (if worker_is_valid w then (held (core ?s2))(taskId task \<mapsto> w) else held (core ?s2))"
        by (rule acquire_worker_run [OF h2])
      then have a: "acquire_worker env task ?s2 = Ret w (?s2\<lparr>core := (core ?s2)\<lparr>policy := p'\<rparr>\<rparr>)" "policy_inv p'"
          "policy_holder p' = (if worker_is_valid w then (held (core s))(?t \<mapsto> w) else held (core s))"
        by (simp_all add: id)
      let ?s3 = "?s2\<lparr>core := (core ?s2)\<lparr>policy := p'\<rparr>\<rparr>"
      have run2: "on_task_new env ?R task0 s =
          (if \<not> worker_is_valid w
           then seq (upd_core (\<lambda>c. c\<lparr>unassigned := unassigned c @ [?t]\<rparr>))
                  (andthen (object_name (funcObjectId task)) (\<lambda>name. send_monitor ?t TS_inactive name '''')) ?s3
           else ?R (HasCapacity ?t w) ?s3)"
        using Inr a(1) by (simp add: run rest_def on_task_begin_def upd_core_def del: route.simps)
      show ?thesis
      proof (cases "worker_is_valid w")
        case False
        let ?s4 = "?s3\<lparr>core := (core ?s3)\<lparr>unassigned := unassigned (core ?s3) @ [?t]\<rparr>\<rparr>"
        obtain s' where "send_monitor ?t TS_inactive (get_object_name (objects ?s4) (funcObjectId task)) '''' ?s4 = Ret () s'"
            and q: "quiet ?s4 s'"
          using send_monitor_quiet by blast
        then have "on_task_new env ?R task0 s = Ret () s'"
          using run2 False by (simp add: upd_core_def object_name_def)
        moreover have "steady W s ?s4"
          using new(3) [OF id a(2)] new(5) [OF a(2), of task] a(3) False by (simp add: steady_def)
        ultimately show ?thesis using quiet_simps [OF q] by (simp add: steady_def)
      next
        case True
        have "tci [(?t, w)] W (core ?s3)" using new(4) [OF id a(2), of w] a(3) True by simp
        then obtain s' c' where run3: "?R (HasCapacity ?t w) ?s3 = Ret () (s'\<lparr>core := c'\<rparr>)" "quiet ?s3 s'"
            "tc_inv W c'" "frame (core ?s3) c'"
          using has_capacity_run [of ?t w "[]" W ?s3 env "route env n" "on_task_cancel env n"] by auto
        have "frame (core s) (core ?s3)" using new(6) [OF a(2), of task] a(3) True by simp
        then have "steady W s (s'\<lparr>core := c'\<rparr>)"
          using run3(3) frame_trans [OF _ run3(4)] quiet_simps(2) [OF run3(2)] by (simp add: steady_def)
        then show ?thesis using run2 run3(1) True by (simp del: route.simps)
      qed
    qed
  qed
qed

end
