(* ===== verification/GraphInvariant.thy ===== *)
theory GraphInvariant
  imports TaskInvariant
begin

text \<open>
  What the graph controller preserves. Its own steps change neither the core nor the number
  of running graphs upwards; they reach the task controller only through the two callbacks.
  \<open>keeps I m\<close> says that \<open>m\<close> ends and re-establishes \<open>I\<close>, whether it returns or raises;
  the rules of \<open>keeps_intros\<close> follow the structure of a computation.
\<close>

named_theorems keeps_intros "rules for computations that keep a predicate"

definition keeps :: "('s \<Rightarrow> bool) \<Rightarrow> ('a, 's) comp \<Rightarrow> bool" where
  "keeps I m \<longleftrightarrow> (\<forall>s. I s \<longrightarrow> sat (\<lambda>_. I) I (m s))"

lemma keepsI: "(\<And>s. I s \<Longrightarrow> sat (\<lambda>_. I) I (m s)) \<Longrightarrow> keeps I m"
  by (simp add: keeps_def)

lemma keepsD: "keeps I m \<Longrightarrow> I s \<Longrightarrow> sat (\<lambda>_. I) I (m s)"
  by (simp add: keeps_def)

lemma keeps_ret [keeps_intros]: "keeps I (ret a)"
  by (simp add: keeps_def)

lemma keeps_Ret [keeps_intros]: "keeps I (Ret a)"
  by (simp add: keeps_def)

lemma keeps_raise [keeps_intros]: "keeps I (raise e)"
  by (simp add: keeps_def)

lemma keeps_gets [keeps_intros]: "keeps I (gets f)"
  by (simp add: keeps_def)

lemma keeps_lookup [keeps_intros]: "keeps I (lookup f k)"
  by (simp add: keeps_def lookup_def split: option.splits)

lemma keeps_lift_sum [keeps_intros]: "keeps I (lift_sum r)"
  by (cases r) (simp_all add: lift_sum_def keeps_ret keeps_raise)

lemma keeps_andthen [keeps_intros]: "keeps I m \<Longrightarrow> (\<And>a. keeps I (f a)) \<Longrightarrow> keeps I (andthen m f)"
  by (rule keepsI, rule sat_andthen [where R = "\<lambda>_. I"]) (auto dest: keepsD)

lemma keeps_seq [keeps_intros]: "keeps I m \<Longrightarrow> keeps I n \<Longrightarrow> keeps I (seq m n)"
  by (rule keepsI, rule sat_seq [where R = "\<lambda>_. I"]) (auto dest: keepsD)

lemma keeps_try [keeps_intros]: "keeps I m \<Longrightarrow> keeps I h \<Longrightarrow> keeps I (try_except m h)"
  by (rule keepsI, rule sat_try_except [where Q' = I]) (auto dest: keepsD)

lemma keeps_if [keeps_intros]: "(b \<Longrightarrow> keeps I m) \<Longrightarrow> (\<not> b \<Longrightarrow> keeps I n) \<Longrightarrow> keeps I (if b then m else n)"
  by simp

lemma keeps_option [keeps_intros]:
  "(x = None \<Longrightarrow> keeps I m) \<Longrightarrow> (\<And>a. x = Some a \<Longrightarrow> keeps I (f a)) \<Longrightarrow> keeps I (case x of None \<Rightarrow> m | Some a \<Rightarrow> f a)"
  by (simp split: option.split)

lemma keeps_for_each [keeps_intros]: "(\<And>x. x \<in> set xs \<Longrightarrow> keeps I (f x)) \<Longrightarrow> keeps I (for_each xs f)"
  by (rule keepsI, rule sat_for_each) (auto dest: keepsD)

lemma keeps_gather [keeps_intros]: "(\<And>m. m \<in> set ms \<Longrightarrow> keeps I m) \<Longrightarrow> keeps I (gather ms)"
  by (rule keepsI, rule sat_gather) (auto dest: keepsD)

section \<open>Steps outside the core and the graphs\<close>

definition on_view :: "(task_core \<Rightarrow> bool) \<Rightarrow> ((TaskID, graph_info) dict \<Rightarrow> bool) \<Rightarrow> sched \<Rightarrow> bool" where
  "on_view J K s \<longleftrightarrow> J (core s) \<and> K (graphs s)"

lemma keeps_modify:
  "(\<And>s. core (f s) = core s \<and> graphs (f s) = graphs s) \<Longrightarrow> keeps (on_view J K) (modify f)"
  by (simp add: keeps_def on_view_def)

lemma keeps_send [keeps_intros]: "keeps (on_view J K) (send to m)"
  unfolding send_def by (rule keeps_modify) simp

lemma keeps_publish [keeps_intros]: "keeps (on_view J K) (publish m)"
  unfolding publish_def by (rule keeps_modify) simp

lemma keeps_on_task_begin [keeps_intros]: "keeps (on_view J K) (on_task_begin c t)"
  by (simp add: keeps_def on_view_def on_task_begin_def split: sum.splits)

lemma keeps_on_task_finish [keeps_intros]: "keeps (on_view J K) (on_task_finish t)"
  by (simp add: keeps_def on_view_def on_task_finish_def split: sum.splits prod.splits)

lemma keeps_fresh_object_id [keeps_intros]: "keeps (on_view J K) (fresh_object_id env c)"
  by (simp add: keeps_def on_view_def fresh_object_id_def Let_def split: sum.splits)

lemma keeps_set_object [keeps_intros]: "keeps (on_view J K) (set_object env oid p)"
  by (simp add: keeps_def on_view_def set_object_def)

lemma keeps_duplicate_object_id [keeps_intros]: "keeps (on_view J K) (duplicate_object_id env oid new)"
  by (simp add: keeps_def on_view_def duplicate_object_id_def split: option.splits)

lemma keeps_send_monitor [keeps_intros]: "keeps (on_view J K) (send_monitor t st fname md)"
proof (rule keepsI)
  fix s assume "on_view J K s"
  moreover obtain s' where "send_monitor t st fname md s = Ret () s'" "quiet s s'" using send_monitor_quiet by blast
  ultimately show "sat (\<lambda>_. on_view J K) (on_view J K) (send_monitor t st fname md s)"
    using quiet_simps(1,2) [of s s'] by (simp add: on_view_def)
qed

lemma ot_remove_pairs_ends: "ot_remove_pairs ps tr \<noteq> NoFuel"
proof (induction ps arbitrary: tr)
  case (Cons p ps)
  have "ot_remove_block_for_object k b tr \<noteq> NoFuel" for k b
    by (auto simp: ot_remove_block_for_object_def Let_def split: prod.splits sum.splits)
  with Cons show ?case by (cases p) (auto simp: andthen_run split: outcome.splits)
qed simp

lemma on_del_objects_ends: "on_del_objects c oids st \<noteq> NoFuel"
  unfolding on_del_objects_def
proof (induction oids arbitrary: st)
  case (Cons x oids)
  have "with_tracker (ot_remove_one_block_for_objects [x] c) st \<noteq> NoFuel"
    using ot_remove_pairs_ends [of "[(x, c)]" "os_tracker st"]
    by (auto simp: with_tracker_def ot_remove_one_block_for_objects_def split: outcome.splits)
  then show ?case using Cons by (auto simp: seq_run split: outcome.splits)
qed simp

lemma on_add_object_ends: "on_add_object c oid ty name st \<noteq> NoFuel"
  by (auto simp: on_add_object_def with_tracker_def ot_add_blocks_for_one_object_def seq_run Let_def split: outcome.splits)

lemma keeps_with_objects: "(\<And>x. m x \<noteq> NoFuel) \<Longrightarrow> keeps (on_view J K) (with_objects m)"
  unfolding keeps_def with_objects_def on_view_def
  by (auto split: outcome.split)

lemmas keeps_objects [keeps_intros] =
  keeps_with_objects [OF on_del_objects_ends] keeps_with_objects [OF on_add_object_ends]

lemma keeps_fresh_ids [keeps_intros]: "keeps (on_view J K) (fresh_ids env owner n)"
  by (induction n) (auto intro!: keeps_intros)

lemma keeps_duplicate_objects [keeps_intros]: "keeps (on_view J K) (duplicate_objects env owner objs)"
  unfolding duplicate_objects_def duplicate_object_def
  by (auto intro!: keeps_intros simp: split_beta)

section \<open>Steps on one graph\<close>

definition sorters_ok :: "(TaskID, graph_info) dict \<Rightarrow> bool" where
  "sorters_ok gs \<longleftrightarrow> (\<forall>g info. dict_get gs g = Some info \<longrightarrow> so_inv (g_sorter info))"

definition running_graphs :: "(TaskID, graph_info) dict \<Rightarrow> nat" where
  "running_graphs gs = dict_count (\<lambda>i. g_status i = GraphRunning) gs"

definition gok :: "nat \<Rightarrow> (TaskID, graph_info) dict \<Rightarrow> bool" where
  "gok k gs \<longleftrightarrow> dict_ok gs \<and> sorters_ok gs \<and> running_graphs gs \<le> k"

text \<open>Predicates on the graphs that survive marking nodes done.\<close>

definition gclosed :: "((TaskID, graph_info) dict \<Rightarrow> bool) \<Rightarrow> bool" where
  "gclosed K \<longleftrightarrow>
     (\<forall>gs. K gs \<longrightarrow> sorters_ok gs) \<and>
     (\<forall>gs g info info'. K gs \<longrightarrow> dict_get gs g = Some info \<longrightarrow> g_sorter info' = g_sorter info \<longrightarrow>
        g_status info' = g_status info \<longrightarrow> K (dict_set g info' gs)) \<and>
     (\<forall>gs g info t so. K gs \<longrightarrow> dict_get gs g = Some info \<longrightarrow> so_done [t] (g_sorter info) = Ret () so \<longrightarrow>
        K (dict_set g (info\<lparr>g_sorter := so\<rparr>) gs))"

lemma gclosedD:
  assumes "gclosed K" "K gs" "dict_get gs g = Some info"
  shows "so_inv (g_sorter info)"
    and "g_sorter info' = g_sorter info \<Longrightarrow> g_status info' = g_status info \<Longrightarrow> K (dict_set g info' gs)"
    and "so_done [t] (g_sorter info) = Ret () so \<Longrightarrow> K (dict_set g (info\<lparr>g_sorter := so\<rparr>) gs)"
  using assms unfolding gclosed_def sorters_ok_def by blast+

lemma so_done_cases:
  assumes "so_inv so"
  shows "(\<exists>so'. so_done [t] so = Ret () so' \<and> so_inv so') \<or> so_done [t] so = Raise ValueError so"
  using so_done_one [OF assms, of t] by (auto split: if_splits)

lemma running_graphs_set:
  assumes "dict_ok gs" "dict_get gs g = Some info"
  shows "running_graphs (dict_set g info' gs) + (if g_status info = GraphRunning then 1 else 0) =
    running_graphs gs + (if g_status info' = GraphRunning then 1 else 0)"
  unfolding running_graphs_def by (rule dict_count_set [OF assms])

lemma gok_set:
  assumes "gok k gs" "dict_get gs g = Some info" "so_inv (g_sorter info')" "g_status info' = g_status info"
  shows "gok k (dict_set g info' gs)"
proof -
  have "running_graphs (dict_set g info' gs) = running_graphs gs"
    using running_graphs_set [of gs g info info'] assms by (auto simp: gok_def split: if_splits)
  with assms show ?thesis by (auto simp: gok_def sorters_ok_def)
qed

lemma gclosed_gok: "gclosed (gok k)"
proof -
  have "so_inv so" if "gok k gs" "dict_get gs g = Some info" "so_done [t] (g_sorter info) = Ret () so" for gs g info t so
  proof -
    have "so_inv (g_sorter info)" using that(1,2) by (auto simp: gok_def sorters_ok_def)
    then show ?thesis using so_done_cases [of "g_sorter info" t] that(3) by auto
  qed
  moreover have "so_inv (g_sorter info)" if "gok k gs" "dict_get gs g = Some info" for gs g info
    using that by (auto simp: gok_def sorters_ok_def)
  ultimately show ?thesis
    unfolding gclosed_def by (simp add: gok_set) (simp add: gok_def)
qed

lemma keeps_upd_graph:
  assumes K: "gclosed K" and f: "\<And>i. g_sorter (f i) = g_sorter i \<and> g_status (f i) = g_status i"
  shows "keeps (on_view J K) (upd_graph g f)"
  using gclosedD(2) [OF K] f by (auto simp: keeps_def upd_graph_def on_view_def split: option.splits)

lemma keeps_is_active:
  assumes "gclosed K"
  shows "keeps (on_view J K) (with_sorter g so_is_active)"
proof (rule keepsI)
  fix s assume s: "on_view J K s"
  show "sat (\<lambda>_. on_view J K) (on_view J K) (with_sorter g so_is_active s)"
  proof (cases "dict_get (graphs s) g")
    case None
    then show ?thesis using s by (simp add: with_sorter_def)
  next
    case (Some info)
    note k = gclosedD [OF assms _ Some]
    obtain a where "so_is_active (g_sorter info) = Ret a (g_sorter info)"
      using so_is_active_spec k(1) s by (auto simp: on_view_def)
    then show ?thesis using k(2) [of "info\<lparr>g_sorter := g_sorter info\<rparr>"] s Some
      by (simp add: with_sorter_def on_view_def)
  qed
qed

lemma keeps_so_done:
  assumes "gclosed K"
  shows "keeps (on_view J K) (with_sorter g (so_done [t]))"
proof (rule keepsI)
  fix s assume s: "on_view J K s"
  show "sat (\<lambda>_. on_view J K) (on_view J K) (with_sorter g (so_done [t]) s)"
  proof (cases "dict_get (graphs s) g")
    case None
    then show ?thesis using s by (simp add: with_sorter_def)
  next
    case (Some info)
    have K: "K (graphs s)" using s by (simp add: on_view_def)
    note k = gclosedD [OF assms K Some]
    show ?thesis
      using so_done_cases [OF k(1), of t] k(2) [of "info\<lparr>g_sorter := g_sorter info\<rparr>"] k(3) [of t] s Some
      by (auto simp: with_sorter_def on_view_def)
  qed
qed

lemma set_node_same [simp]: "g_sorter (set_node t f i) = g_sorter i" "g_status (set_node t f i) = g_status i"
  by (simp_all add: set_node_def split: option.split)

lemma keeps_is_graph_finished:
  assumes "gclosed K"
  shows "keeps (on_view J K) (is_graph_finished g)"
proof (rule keepsI)
  fix s assume s: "on_view J K s"
  have "keeps (on_view J K) (andthen (with_sorter g so_is_active) (\<lambda>active. ret (f active)))" for f :: "bool \<Rightarrow> bool"
    by (intro keeps_intros keeps_is_active assms)
  from keepsD [OF this s] show "sat (\<lambda>_. on_view J K) (on_view J K) (is_graph_finished g s)"
    using s by (simp add: is_graph_finished_def split: option.split)
qed

lemma keeps_mark_node_canceled:
  assumes "gclosed K"
  shows "keeps (on_view J K) (mark_node_canceled g confirm)"
  unfolding mark_node_canceled_def Let_def get_graph_def
  by (intro keeps_intros keeps_upd_graph keeps_so_done assms) (simp_all split: TaskCancelConfirmType.split)

lemma keeps_clean_dependency:
  assumes "gclosed K"
  shows "keeps (on_view J K) (clean_dependency g t d)"
proof (rule keepsI)
  fix s assume s: "on_view J K s"
  show "sat (\<lambda>_. on_view J K) (on_view J K) (clean_dependency g t d s)"
  proof (cases "dict_get (graphs s) g")
    case None
    then show ?thesis using s by (simp add: clean_dependency_def)
  next
    case (Some info)
    obtain r rel where rm: "mtm_remove d t (g_depended info) = (r, rel)" by (cases "mtm_remove d t (g_depended info)")
    let ?s' = "s\<lparr>graphs := dict_set g (info\<lparr>g_depended := rel\<rparr>) (graphs s)\<rparr>"
    have s': "on_view J K ?s'"
      using gclosedD(2) [OF assms _ Some, of "info\<lparr>g_depended := rel\<rparr>"] s by (simp add: on_view_def)
    have del: "sat (\<lambda>_. on_view J K) (on_view J K) (with_objects (on_del_objects c oids) ?s')" for c oids
      by (rule keepsD [OF keeps_objects(1) s'])
    show ?thesis using Some rm s' del by (simp add: clean_dependency_def Let_def split: sum.split option.split)
  qed
qed

lemma keeps_mark_node_done:
  assumes "gclosed K"
  shows "keeps (on_view J K) (mark_node_done result)"
  unfolding mark_node_done_def Let_def get_graph_def clean_intermediate_result_def
  by (intro keeps_intros keeps_upd_graph keeps_so_done keeps_clean_dependency keeps_modify assms) simp_all

lemma keeps_abort_nodes:
  assumes "gclosed K"
  shows "keeps (on_view J K) (abort_nodes env owner result objs ts)"
proof (induction ts)
  case (Cons t ts)
  have "keeps (on_view J K) (abort_node env owner result objs t)"
    unfolding abort_node_def Let_def by (intro keeps_intros keeps_mark_node_done assms)
  then show ?case using Cons by (simp only: abort_nodes.simps) (intro keeps_intros)
qed (simp add: keeps_Ret keeps_ret)

section \<open>Draining\<close>

text \<open>
  While nodes are handed out and marked done, what is ready is what was visited since: the
  sorter's nodes run out.
\<close>

definition drains :: "TaskID \<Rightarrow> nat \<Rightarrow> nat \<Rightarrow> (TaskID, graph_info) dict \<Rightarrow> bool" where
  "drains g N V gs \<longleftrightarrow> (\<forall>info. dict_get gs g = Some info \<longrightarrow>
     length (so_nodes (g_sorter info)) = N \<and>
     (\<exists>r. so_ready (g_sorter info) = Some r \<and> length (so_visited (g_sorter info)) = V + length r))"

lemma gclosed_drains: "gclosed (\<lambda>gs. gok k gs \<and> drains g N V gs)"
proof -
  have marked: "drains g N V (dict_set h (info\<lparr>g_sorter := so\<rparr>) gs)"
    if h: "gok k gs" "drains g N V gs" "dict_get gs h = Some info" "so_done [t] (g_sorter info) = Ret () so" for gs h info t so
  proof -
    let ?so = "g_sorter info"
    have inv: "so_inv ?so" using h(1,3) by (auto simp: gok_def sorters_ok_def)
    have "t \<in> set (so_visited ?so) \<and> t \<notin> set (so_finished ?so)"
      using so_done_one [OF inv, of t] h(4) by (auto split: if_splits)
    then obtain new where so: "so_inv so" "so_nodes so = so_nodes ?so" "distinct new"
        "so_ready so = map_option (\<lambda>r. r @ new) (so_ready ?so)"
        "set (so_visited so) = set (so_visited ?so) \<union> set new" "set new \<inter> set (so_visited ?so) = {}"
      using so_done_one [OF inv, of t] h(4) by auto
    have "length (so_visited so) = card (set (so_visited so))" using so(1) by (simp add: so_inv_def distinct_card)
    also have "\<dots> = card (set (so_visited ?so)) + card (set new)" unfolding so(5) using so(6) by (simp add: card_Un_disjoint Int_commute)
    also have "\<dots> = length (so_visited ?so) + length new" using inv so(3) by (simp add: so_inv_def distinct_card)
    finally show ?thesis using h(2,3) so(2,4) by (auto simp: drains_def)
  qed
  have same: "drains g N V (dict_set h info' gs)"
    if "drains g N V gs" "dict_get gs h = Some info" "g_sorter info' = g_sorter info" for gs h info info'
    using that by (auto simp: drains_def)
  have "gclosed (gok k)" by (rule gclosed_gok)
  then show ?thesis
    using marked same unfolding gclosed_def by (intro conjI) blast+
qed

definition drain_fuel :: "nat \<Rightarrow> graph_info option \<Rightarrow> bool" where
  "drain_fuel n i \<longleftrightarrow> 1 \<le> n \<and> (\<forall>info. i = Some info \<longrightarrow> so_ready (g_sorter info) \<noteq> Some [] \<longrightarrow>
     length (so_nodes (g_sorter info)) + 2 \<le> n + length (so_visited (g_sorter info)))"

lemma visited_le: "so_inv so \<Longrightarrow> length (so_visited so) \<le> length (so_nodes so)"
  by (metis card_mono distinct_card finite_set so_inv_def so_wf_def)

lemma drain_keeps:
  assumes D: "\<And>n. D (Suc n) = andthen (with_sorter g so_is_active) (\<lambda>active.
        if \<not> active then ret []
        else andthen (with_sorter g so_get_ready) (\<lambda>ready.
          if ready = [] then ret []
          else andthen (B ready) (\<lambda>xs. andthen (D n) (\<lambda>rest. ret (xs @ rest)))))"
    and B: "\<And>K r. gclosed K \<Longrightarrow> keeps (on_view J K) (B r)"
    and s: "on_view J (gok k) s" and n: "drain_fuel n (dict_get (graphs s) g)"
  shows "sat (\<lambda>_. on_view J (gok k)) (on_view J (gok k)) (D n s)"
  using s n
proof (induction n arbitrary: s)
  case 0
  then show ?case by (simp add: drain_fuel_def)
next
  case (Suc n)
  let ?I = "on_view J (gok k)"
  show ?case
  proof (cases "dict_get (graphs s) g")
    case None
    then show ?thesis using Suc.prems(1) by (simp add: D andthen_run with_sorter_def)
  next
    case (Some info)
    let ?so = "g_sorter info"
    have gk: "gok k (graphs s)" and Jc: "J (core s)" using Suc.prems(1) by (auto simp: on_view_def)
    then have inv: "so_inv ?so" using Some by (auto simp: gok_def sorters_ok_def)
    obtain a where a: "so_is_active ?so = Ret a ?so" using so_is_active_spec [OF inv] by blast
    obtain r where r: "so_ready ?so = Some r" "so_get_ready ?so = Ret r (?so\<lparr>so_ready := Some []\<rparr>)"
        "so_inv (?so\<lparr>so_ready := Some []\<rparr>)"
      using so_get_ready_spec [OF inv] by blast
    let ?s1 = "s\<lparr>graphs := dict_set g info (graphs s)\<rparr>"
    let ?info2 = "info\<lparr>g_sorter := ?so\<lparr>so_ready := Some []\<rparr>\<rparr>"
    let ?s2 = "s\<lparr>graphs := dict_set g ?info2 (dict_set g info (graphs s))\<rparr>"
    have run1: "with_sorter g so_is_active s = Ret a ?s1" using Some a by (simp add: with_sorter_def)
    have run2: "with_sorter g so_get_ready ?s1 = Ret r ?s2" using r(2) by (simp add: with_sorter_def)
    have k1: "gok k (dict_set g info (graphs s))" by (rule gok_set [OF gk Some inv refl])
    have k2: "gok k (graphs ?s2)" using gok_set [OF k1, of g info ?info2] r(3) by simp
    let ?N = "length (so_nodes ?so)" and ?V = "length (so_visited ?so)"
    have s2: "on_view J (\<lambda>gs. gok k gs \<and> drains g ?N ?V gs) ?s2"
      using Jc k2 by (simp add: on_view_def drains_def)
    have i1: "?I ?s1" and i2: "?I ?s2" using Jc k1 k2 by (simp_all add: on_view_def)
    have step: "sat (\<lambda>_. ?I) ?I (andthen (B r) (\<lambda>xs. andthen (D n) (\<lambda>rest. ret (xs @ rest))) ?s2)" if ne: "r \<noteq> []"
    proof (rule sat_andthen)
      show "sat (\<lambda>_. on_view J (\<lambda>gs. gok k gs \<and> drains g ?N ?V gs)) ?I (B r ?s2)"
        using keepsD [OF B [OF gclosed_drains] s2] by (rule sat_mono) (auto simp: on_view_def)
      fix xs s3 assume s3: "on_view J (\<lambda>gs. gok k gs \<and> drains g ?N ?V gs) s3"
      have "drain_fuel n (dict_get (graphs s3) g)"
      proof -
        have le: "?N + 2 \<le> Suc n + ?V" using Suc.prems(2) ne r(1) Some by (simp add: drain_fuel_def)
        have "length (so_nodes (g_sorter i)) + 2 \<le> n + length (so_visited (g_sorter i))"
          if i: "dict_get (graphs s3) g = Some i" "so_ready (g_sorter i) \<noteq> Some []" for i
          using s3 i le by (cases "so_ready (g_sorter i)") (auto simp: on_view_def drains_def neq_Nil_conv)
        then show ?thesis using le visited_le [OF inv] by (auto simp: drain_fuel_def)
      qed
      then have "sat (\<lambda>_. ?I) ?I (D n s3)" using s3 by (intro Suc.IH) (auto simp: on_view_def)
      then show "sat (\<lambda>_. ?I) ?I (andthen (D n) (\<lambda>rest. ret (xs @ rest)) s3)"
        by (rule sat_andthen) simp
    qed
    show ?thesis
      using i1 i2 step by (simp add: D run1 run2)
  qed
qed

lemma sorter_bound_fuel:
  assumes "gok k (graphs s)"
  shows "drain_fuel (sorter_bound g s) (dict_get (graphs s) g)"
proof (cases "dict_get (graphs s) g")
  case None
  then show ?thesis by (simp add: drain_fuel_def sorter_bound_def)
next
  case (Some info)
  then have inv: "so_inv (g_sorter info)" using assms(1) by (auto simp: gok_def sorters_ok_def)
  have "1 \<le> length (so_visited (g_sorter info))" if "so_ready (g_sorter info) \<noteq> Some []"
    using inv that by (cases "so_visited (g_sorter info)") (auto simp: so_inv_def)
  then show ?thesis using Some by (auto simp: drain_fuel_def sorter_bound_def)
qed

section \<open>Whole graphs\<close>

lemma gok_mono: "gok k gs \<Longrightarrow> k \<le> k' \<Longrightarrow> gok k' gs"
  by (simp add: gok_def)

lemma gok_pop:
  assumes "gok k gs"
  shows "gok k (dict_pop g gs)"
proof (cases "dict_get gs g")
  case None
  then show ?thesis using assms by (simp add: dict_has_iff)
next
  case (Some info)
  have "running_graphs (dict_pop g gs) \<le> running_graphs gs"
    using dict_count_pop [of gs g info "\<lambda>i. g_status i = GraphRunning"] assms Some
    by (auto simp: gok_def running_graphs_def)
  with assms show ?thesis by (auto simp: gok_def sorters_ok_def)
qed

text \<open>Taking a graph out of the running state makes room for one nested round of cancels.\<close>

lemma gok_stop:
  assumes "gok k gs" "dict_get gs g = Some info" "g_status info = GraphRunning" "st \<noteq> GraphRunning"
  obtains k' where "k = Suc k'" "gok k' (dict_set g (info\<lparr>g_status := st\<rparr>) gs)"
proof -
  let ?gs = "dict_set g (info\<lparr>g_status := st\<rparr>) gs"
  have "Suc (running_graphs ?gs) = running_graphs gs"
    using running_graphs_set [of gs g info "info\<lparr>g_status := st\<rparr>"] assms by (simp add: gok_def)
  moreover have "running_graphs gs \<le> k" using assms(1) by (simp add: gok_def)
  ultimately have "k = Suc (k - 1)" "running_graphs ?gs \<le> k - 1" by auto
  moreover have "dict_ok ?gs" "sorters_ok ?gs" using assms(1,2) by (auto simp: gok_def sorters_ok_def)
  ultimately show thesis using that by (simp add: gok_def)
qed

lemma gok_status:
  assumes "gok k gs" "dict_get gs g = Some info" "st \<noteq> GraphRunning"
  shows "gok k (dict_set g (info\<lparr>g_status := st\<rparr>) gs)"
proof (cases "g_status info = GraphRunning")
  case True
  then show ?thesis using gok_stop [OF assms(1,2) _ assms(3)] gok_mono by (metis le_SucI order_refl)
next
  case False
  have "running_graphs (dict_set g (info\<lparr>g_status := st\<rparr>) gs) = running_graphs gs"
    using running_graphs_set [of gs g info "info\<lparr>g_status := st\<rparr>"] assms False by (simp add: gok_def)
  then show ?thesis using assms by (auto simp: gok_def sorters_ok_def)
qed

lemma keeps_pop_graph [keeps_intros]: "keeps (on_view J (gok k)) (pop_graph g)"
proof -
  have "keeps (on_view J (gok k)) (modify (\<lambda>s. s\<lparr>graphs := dict_pop g (graphs s), graph_of := f s\<rparr>))" for f
    by (simp add: keeps_def on_view_def gok_pop)
  then show ?thesis
    unfolding pop_graph_def
    by (intro keeps_andthen keeps_seq keeps_lookup keeps_ret keeps_on_task_finish) (auto intro: keeps_modify)
qed

lemmas keeps_gok = keeps_is_graph_finished [OF gclosed_gok] keeps_is_active [OF gclosed_gok]
  keeps_mark_node_canceled [OF gclosed_gok] keeps_mark_node_done [OF gclosed_gok]
  keeps_abort_nodes [OF gclosed_gok]

lemma keeps_umbrella [keeps_intros]:
  "keeps (on_view J (gok k)) (cancel_graph_umbrella_task g)"
  "keeps (on_view J (gok k)) (done_graph_umbrella_task g ty)"
  unfolding cancel_graph_umbrella_task_def done_graph_umbrella_task_def
  by (intro keeps_intros keeps_gok)+

lemma keeps_cancel_rest [keeps_intros]: "keeps (on_view J (gok k)) (cancel_rest g)"
proof (rule keepsI)
  fix s assume s: "on_view J (gok k) s"
  let ?B = "\<lambda>r. seq (for_each r (\<lambda>t. mark_node_canceled g (canceled_confirm t))) (ret (map canceled_confirm r))"
  have D: "cancel_drain (Suc n) g = andthen (with_sorter g so_is_active) (\<lambda>active.
        if \<not> active then ret []
        else andthen (with_sorter g so_get_ready) (\<lambda>ready.
          if ready = [] then ret []
          else andthen (?B ready) (\<lambda>xs. andthen (cancel_drain n g) (\<lambda>rest. ret (xs @ rest)))))" for n
    by (intro ext) (auto simp: andthen_run seq_run split: outcome.split)
  show "sat (\<lambda>_. on_view J (gok k)) (on_view J (gok k)) (cancel_rest g s)"
  proof (cases "dict_has (graphs s) g")
    case True
    have "sat (\<lambda>_. on_view J (gok k)) (on_view J (gok k)) (cancel_drain (sorter_bound g s) g s)"
    proof (rule drain_keeps [where D = "\<lambda>n. cancel_drain n g" and B = ?B, OF D _ s])
      show "keeps (on_view J K) (?B r)" if "gclosed K" for K r
        by (intro keeps_intros keeps_mark_node_canceled that)
      show "drain_fuel (sorter_bound g s) (dict_get (graphs s) g)"
        using sorter_bound_fuel [of k s g] s by (simp add: on_view_def)
    qed
    then show ?thesis using True by (simp add: cancel_rest_def)
  next
    case False
    then show ?thesis using s by (simp add: cancel_rest_def)
  qed
qed

lemma on_view_mono: "on_view J (gok k) s \<Longrightarrow> k \<le> k' \<Longrightarrow> on_view J (gok k') s"
  by (auto simp: on_view_def gok_mono)

lemma keeps_cancel_whole_graph:
  assumes C: "\<And>k' c tc. k = Suc k' \<Longrightarrow> keeps (on_view J (gok k')) (C c tc)"
  shows "keeps (on_view J (gok k)) (cancel_whole_graph env C g)"
proof -
  let ?I = "\<lambda>k. on_view J (gok k)"
  define rest where "rest (info :: graph_info) = seq (gather (map (\<lambda>t. C (g_client info) \<lparr>cancel_taskId = t, cancel_force = True\<rparr>)
                              (sort_key (env_iter env) (g_running info))))
              (andthen (cancel_rest g) (\<lambda>confirms.
               seq (for_each confirms (\<lambda>c. send (g_client info) (MsgTaskCancelConfirm c)))
               (andthen (is_graph_finished g) (\<lambda>finished'.
                  if finished' then cancel_graph_umbrella_task g else ret ()))))" for info
  have rest: "keeps (?I k') (rest info)" if "k = Suc k'" for info k'
    unfolding rest_def by (intro keeps_intros keeps_gok) (auto intro: C that)
  have body: "sat (\<lambda>_. ?I k) (?I k) (seq (upd_graph g (\<lambda>i. i\<lparr>g_status := GraphCanceling\<rparr>)) (rest info) s)"
    if s: "?I k s" "dict_get (graphs s) g = Some info" "g_status info = GraphRunning" for s info
  proof -
    obtain k' where k': "k = Suc k'" "gok k' (dict_set g (info\<lparr>g_status := GraphCanceling\<rparr>) (graphs s))"
      using gok_stop [of k "graphs s" g info GraphCanceling] s by (auto simp: on_view_def)
    let ?s = "s\<lparr>graphs := dict_set g (info\<lparr>g_status := GraphCanceling\<rparr>) (graphs s)\<rparr>"
    have "?I k' ?s" using k'(2) s(1) by (simp add: on_view_def)
    then have "sat (\<lambda>_. ?I k') (?I k') (rest info ?s)" by (rule keepsD [OF rest [OF k'(1)]])
    then have "sat (\<lambda>_. ?I k) (?I k) (rest info ?s)" by (rule sat_mono) (auto intro: on_view_mono simp: k'(1))
    then show ?thesis using s(2) by (simp add: upd_graph_def)
  qed
  have more: "keeps (?I k) (andthen (get_graph g) (\<lambda>info. if g_status info \<noteq> GraphRunning then ret ()
      else seq (upd_graph g (\<lambda>i. i\<lparr>g_status := GraphCanceling\<rparr>)) (rest info)))"
    by (rule keepsI) (auto simp: andthen_run get_graph_def lookup_def body split: option.split)
  show ?thesis
    unfolding cancel_whole_graph_def rest_def [symmetric]
    by (intro keeps_andthen keeps_if keeps_gok keeps_umbrella more)
qed

lemma keeps_sub_task_cancel_confirm:
  assumes C: "\<And>k' c tc. k = Suc k' \<Longrightarrow> keeps (on_view J (gok k')) (C c tc)"
  shows "keeps (on_view J (gok k)) (on_graph_sub_task_cancel_confirm env C confirm)"
  unfolding on_graph_sub_task_cancel_confirm_def
  by (intro keeps_intros) (auto intro!: keeps_intros keeps_gok keeps_cancel_whole_graph C split: prod.split)

lemma keeps_abort_whole_graph:
  "keeps (on_view J (gok k)) (abort_whole_graph env g result)"
proof -
  have status: "keeps (on_view J (gok k)) (upd_graph g (\<lambda>i. i\<lparr>g_status := GraphAborting\<rparr>))"
    by (auto simp: keeps_def upd_graph_def on_view_def gok_status split: option.split)
  have drain: "keeps (on_view J (gok k)) (\<lambda>s. abort_drain env (sorter_bound g s) g owner result objs s)" for owner objs
  proof (rule keepsI)
    fix s assume s: "on_view J (gok k) s"
    show "sat (\<lambda>_. on_view J (gok k)) (on_view J (gok k)) (abort_drain env (sorter_bound g s) g owner result objs s)"
    proof (rule drain_keeps [where D = "\<lambda>n. abort_drain env n g owner result objs", OF _ _ s])
      show "abort_drain env (Suc n) g owner result objs = andthen (with_sorter g so_is_active) (\<lambda>active.
          if \<not> active then ret []
          else andthen (with_sorter g so_get_ready) (\<lambda>ready.
            if ready = [] then ret []
            else andthen (abort_nodes env owner result objs ready) (\<lambda>xs.
              andthen (abort_drain env n g owner result objs) (\<lambda>rest. ret (xs @ rest)))))" for n
        by simp
      show "keeps (on_view J K) (abort_nodes env owner result objs r)" if "gclosed K" for K r
        by (rule keeps_abort_nodes [OF that])
      show "drain_fuel (sorter_bound g s) (dict_get (graphs s) g)"
        using sorter_bound_fuel [of k s g] s by (simp add: on_view_def)
    qed
  qed
  show ?thesis
    unfolding abort_whole_graph_def get_graph_def
    by (intro keeps_intros keeps_gok status drain)
qed

section \<open>Reaching the task controller\<close>

text \<open>
  \<open>nested W c0 k\<close>: what holds between the steps nested inside a transition that
  started its nested part in core \<open>c0\<close>.
\<close>

definition nested :: "TaskID set \<Rightarrow> task_core \<Rightarrow> nat \<Rightarrow> sched \<Rightarrow> bool" where
  "nested W c0 k = on_view (\<lambda>c. tc_inv W c \<and> frame c0 c) (gok k)"

lemma nested_iff: "nested W c0 k s \<longleftrightarrow> tc_inv W (core s) \<and> frame c0 (core s) \<and> gok k (graphs s)"
  by (simp add: nested_def on_view_def)

lemma nested_mono: "nested W c0 k s \<Longrightarrow> k \<le> k' \<Longrightarrow> nested W c0 k' s"
  by (auto simp: nested_iff intro: gok_mono)

lemma keeps_on_task_new:
  assumes "taskId task \<notin> W"
  shows "keeps (on_view (\<lambda>c. tc_inv W c \<and> frame c0 c) K) (on_task_new env (route env (Suc n)) task)"
proof (rule keepsI)
  fix s assume s: "on_view (\<lambda>c. tc_inv W c \<and> frame c0 c) K s"
  then have inv: "tc_inv W (core s)" by (simp add: on_view_def)
  show "sat (\<lambda>_. on_view (\<lambda>c. tc_inv W c \<and> frame c0 c) K) (on_view (\<lambda>c. tc_inv W c \<and> frame c0 c) K)
      (on_task_new env (route env (Suc n)) task s)"
    using on_task_new_steady [OF inv assms, of env n]
    by (rule sat_mono) (use s in \<open>auto simp: on_view_def steady_def intro: frame_trans\<close>)
qed

lemma keeps_retry:
  "keeps (on_view (\<lambda>c. tc_inv W c \<and> frame c0 c) K) (retry_unassignable env (route env (Suc n)))"
proof (rule keepsI)
  fix s assume s: "on_view (\<lambda>c. tc_inv W c \<and> frame c0 c) K s"
  then obtain s' where "retry_unassignable env (route env (Suc n)) s = Ret () s'" "calm s s'"
      "tc_inv W (core s')" "frame (core s) (core s')"
    using retry_run [of W s env n] by (auto simp: on_view_def)
  then show "sat (\<lambda>_. on_view (\<lambda>c. tc_inv W c \<and> frame c0 c) K) (on_view (\<lambda>c. tc_inv W c \<and> frame c0 c) K)
      (retry_unassignable env (route env (Suc n)) s)"
    using s calm_simps(1) [of s s'] frame_trans by (auto simp: on_view_def)
qed

lemma keeps_argument_objects: "keeps (on_view J K) (argument_objects g as)"
proof (induction as)
  case (Cons a as)
  have "keeps (on_view J K) (get_argument_object g a)"
    unfolding get_argument_object_def get_graph_def
    by (cases a) (auto intro!: keeps_intros split: list.split)
  with Cons show ?case by (simp only: argument_objects.simps) (intro keeps_intros)
qed (simp add: keeps_ret keeps_Ret)

lemma keeps_so_get_ready: "keeps (on_view J (gok k)) (with_sorter g so_get_ready)"
proof (rule keepsI)
  fix s assume s: "on_view J (gok k) s"
  show "sat (\<lambda>_. on_view J (gok k)) (on_view J (gok k)) (with_sorter g so_get_ready s)"
  proof (cases "dict_get (graphs s) g")
    case None
    then show ?thesis using s by (simp add: with_sorter_def)
  next
    case (Some info)
    have inv: "so_inv (g_sorter info)" using s Some by (auto simp: on_view_def gok_def sorters_ok_def)
    then obtain r where r: "so_get_ready (g_sorter info) = Ret r (g_sorter info\<lparr>so_ready := Some []\<rparr>)"
        "so_inv (g_sorter info\<lparr>so_ready := Some []\<rparr>)"
      using so_get_ready_spec by blast
    have "gok k (dict_set g (info\<lparr>g_sorter := g_sorter info\<lparr>so_ready := Some []\<rparr>\<rparr>) (graphs s))"
      using s r(2) Some by (intro gok_set [of k "graphs s" g info]) (auto simp: on_view_def)
    then show ?thesis using s Some r(1) by (simp add: with_sorter_def on_view_def)
  qed
qed

lemma keeps_check_one_graph:
  "keeps (nested {} c0 k) (check_one_graph env (route env (Suc n)) g)"
proof -
  have start: "keeps (nested {} c0 k) (start_subtask env (route env (Suc n)) g info t)" for info t
    unfolding start_subtask_def nested_def
    by (intro keeps_intros keeps_upd_graph [OF gclosed_gok] keeps_argument_objects keeps_on_task_new) simp_all
  show ?thesis
    unfolding check_one_graph_def get_graph_def
    using start unfolding nested_def by (intro keeps_intros keeps_gok keeps_so_get_ready)
qed

text \<open>
  A successful result starts new subtasks, which needs that no task of a removed worker is
  still waiting for its event; a failed one aborts the graph.
\<close>

lemma keeps_sub_task_result:
  assumes C: "\<And>k' c tc. k = Suc k' \<Longrightarrow> keeps (nested W c0 k') (C c tc)"
    and W: "resultType result = TR_success \<Longrightarrow> W = {}"
  shows "keeps (nested W c0 k) (on_graph_sub_task_result env (route env (Suc n)) C result)"
proof -
  have confirm: "keeps (nested W c0 k) (on_graph_sub_task_cancel_confirm env C cc)" for cc
    using C unfolding nested_def by (rule keeps_sub_task_cancel_confirm)
  have success: "keeps (nested W c0 k) (check_one_graph env (route env (Suc n)) g)" if "resultType result = TR_success" for g
    using keeps_check_one_graph W [OF that] by simp
  have failed: "keeps (nested W c0 k) (abort_whole_graph env g result)" for g
    unfolding nested_def by (rule keeps_abort_whole_graph)
  have mark: "keeps (nested W c0 k) (mark_node_done result)" unfolding nested_def by (rule keeps_gok)
  show ?thesis
    unfolding on_graph_sub_task_result_def
    by (intro keeps_andthen keeps_gets keeps_option keeps_ret)
      (auto intro!: keeps_seq confirm mark success failed simp del: route.simps split: prod.split)
qed

end
