(* ===== verification/RouteInvariant.thy ===== *)
theory RouteInvariant
  imports GraphInvariant
begin

text \<open>
  The router re-establishes the invariant of the task controller. A transition of a task
  locks its machine, runs the action, and leaves either with a live state, or with a terminal one and
  no trace of the task, or through the fault path; what runs nested inside it
  (other transitions included) leaves the locked task alone. The bound on the nesting depth that is
  enough is twice the number of running graphs plus a constant: only a graph that starts
  cancelling reaches the router again for tasks other than waiting ones.
\<close>

section \<open>One transition\<close>

text \<open>\<open>c\<close> is inside the transition of task \<open>t\<close> that started in \<open>c0\<close> with machine \<open>sm\<close>.\<close>

definition mid :: "task_core \<Rightarrow> TaskID \<Rightarrow> TaskStateMachine \<Rightarrow> task_core \<Rightarrow> bool" where
  "mid c0 t sm c \<longleftrightarrow> locked c = insert t (locked c0) \<and> t \<notin> locked c0 \<and>
     (\<forall>u \<in> locked c0. task_data c u = task_data c0 u) \<and>
     dict_get (mgr_machines (mgr c)) t = Some (sm\<lparr>machine_locked := True\<rparr>)"

lemma mid_frame:
  assumes "mid c0 t sm c" "frame c c'"
  shows "mid c0 t sm c'" "task_data c' t = task_data c t" "held c' t = held c t"
proof -
  show d: "task_data c' t = task_data c t" using assms by (simp add: mid_def frame_def)
  show "held c' t = held c t" using d by (simp add: task_data_def)
  show "mid c0 t sm c'"
    using assms task_data_eq(6) [OF d] unfolding mid_def frame_def by auto
qed

lemma mid_unassigned: "tc_inv W c \<Longrightarrow> mid c0 t sm c \<Longrightarrow> t \<notin> set (unassigned c)"
  using tciD(7) [of "[]" W c t] by (auto simp: mid_def)

text \<open>Entering: the machine is locked, and a queued task leaves the queue.\<close>

lemma enter:
  assumes inv: "tc_inv W c" and sm: "dict_get (mgr_machines (mgr c)) t = Some sm" "\<not> machine_locked sm"
  defines "c1 \<equiv> c\<lparr>mgr := lock_machine t (mgr c), unassigned := remove1 t (unassigned c)\<rparr>"
  shows "tc_inv W c1" "mid c t sm c1" "held c1 = held c" "tasks c1 = tasks c"
proof -
  have lk: "locked c1 = insert t (locked c)" using sm(1) by (auto simp: c1_def locked_def state_of_def)
  have nl: "t \<notin> locked c" using sm by (simp add: locked_def is_locked_def)
  have st: "task_state c1 u = task_state c u" for u by (simp add: c1_def)
  show h: "held c1 = held c" "tasks c1 = tasks c" by (simp_all add: c1_def)
  have ch: "only_task t c c1"
    using tciD(1-3) [OF inv] by (auto simp: only_task_def task_data_def c1_def machines_simps intro: stats_ok_lock)
  show "tc_inv W c1"
  proof (rule tci_only_task [OF inv ch])
    show "\<And>task. dict_get (tasks c1) t = Some task \<Longrightarrow> taskId task = t \<and> task_state c1 t \<noteq> None"
      using tciD(5) [OF inv, of t] st h by simp
    show "held c1 t \<noteq> None \<Longrightarrow> task_state c1 t \<noteq> None" using tciD(6) [OF inv, of t] st h by simp
    show "t \<in> W \<Longrightarrow> held c1 t = None \<and> task_state c1 t \<noteq> Some TS_inactive"
      using tciD(9) [OF inv, of t] st h by simp
    show "\<And>s. task_state c1 t = Some s \<Longrightarrow> \<not> is_terminal s" using tciD(10) [OF inv, of t] st by simp
  qed (use tciD(3) [OF inv] lk in \<open>auto simp: c1_def\<close>)
  have "task_data c1 u = task_data c u" if "u \<in> locked c" for u
  proof -
    have "u \<noteq> t" using that nl by auto
    then show ?thesis by (simp add: task_data_def c1_def machines_simps)
  qed
  then show "mid c t sm c1" using lk nl sm(1) by (simp add: mid_def c1_def lock_machine_def)
qed

lemma mid_release_holder:
  assumes inv: "tc_inv W c" and m: "mid c0 t sm c" and p: "policy_inv p'" "policy_holder p' = (held c)(t := None)"
  shows "tc_inv W (c\<lparr>policy := p'\<rparr>)" "mid c0 t sm (c\<lparr>policy := p'\<rparr>)"
proof -
  let ?c = "c\<lparr>policy := p'\<rparr>"
  have ch: "only_task t c ?c" by (rule only_task_policy [OF inv p(1)]) (simp add: p(2))
  have lk: "t \<in> locked c" "locked ?c = locked c" using m by (auto simp: mid_def locked_def)
  show "tc_inv W ?c"
    by (rule tci_only_task [OF inv ch])
      (use tciD(5,9,10) [OF inv, of t] mid_unassigned [OF inv m] lk p(2) in auto)
  have "task_data ?c u = task_data c u" if "u \<in> locked c0" for u
    using that m p(2) by (intro task_data_policy) (auto simp: mid_def)
  then show "mid c0 t sm ?c" using m lk by (auto simp: mid_def)
qed

text \<open>Leaving with a terminal state.\<close>

lemma leave_terminal:
  fixes name :: string
  assumes inv: "tc_inv W c" and m: "mid c0 t sm c" and free: "held c t = None" and final: "is_terminal target"
  defines "c' \<equiv> c\<lparr>mgr := remove_state_machine t (commit t name target (mgr c)), tasks := dict_pop t (tasks c)\<rparr>"
  shows "tc_inv W c'" "frame c0 c'" "tc_inv (W - {t}) c'" "t \<notin> locked c'" "task_state c' t = None"
proof -
  have lk: "is_locked (mgr c) t" using m by (simp add: mid_def is_locked_def)
  have ok: "stats_ok (mgr c')"
    unfolding c'_def using tciD(2) [OF inv] final state_of_commit [OF lk, of name target t]
    by (auto intro: stats_ok_remove stats_ok_commit)
  have ch: "only_task t c c'"
    using tciD(1,3) [OF inv] ok by (auto simp: only_task_def task_data_def c'_def machines_simps)
  show st: "task_state c' t = None" by (simp add: c'_def)
  show nl: "t \<notin> locked c'" by (simp add: c'_def locked_def)
  have new: "held c' t = None" "dict_get (tasks c') t = None" "t \<notin> set (unassigned c')"
    using free mid_unassigned [OF inv m] by (simp_all add: c'_def)
  show "tc_inv W c'" by (rule tci_only_task [OF inv ch]) (use new st in auto)
  show "tc_inv (W - {t}) c'" by (rule tci_only_task [OF inv ch]) (use new st in auto)
  have "locked c' = locked c0"
    using m by (auto simp: c'_def locked_def mid_def set_eq_iff)
  moreover have "task_data c' u = task_data c0 u" if "u \<in> locked c0" for u
    using that m ch by (auto simp: only_task_def mid_def)
  ultimately show "frame c0 c'" by (simp add: frame_def)
qed

text \<open>Leaving with a live state.\<close>

lemma leave_live:
  assumes inv: "tc_inv W c" and m: "mid c0 t sm c" and live: "\<not> is_terminal target"
    and c': "mgr c' = release_machine t (machine_id sm) (commit t name target (mgr c))" "tasks c' = tasks c"
    and pol: "policy_inv (policy c')" "\<And>u. u \<noteq> t \<Longrightarrow> held c' u = held c u"
    and us: "distinct (unassigned c')" "\<And>u. u \<noteq> t \<Longrightarrow> u \<in> set (unassigned c') \<longleftrightarrow> u \<in> set (unassigned c)"
    and pay: "dict_has (tasks c) t" and W: "\<And>u. u \<noteq> t \<Longrightarrow> u \<in> W' \<longleftrightarrow> u \<in> W"
    and t: "if target = TS_inactive then t \<in> set (unassigned c') \<and> held c' t = None \<and> t \<notin> W'
      else t \<notin> set (unassigned c') \<and> (if t \<in> W' then held c' t = None else held c' t \<noteq> None)"
  shows "tc_inv W' c'" "frame c0 c'" "task_state c' t = Some target" "t \<notin> locked c'"
proof -
  let ?m = "commit t name target (mgr c)"
  have lk: "is_locked (mgr c) t" using m by (simp add: mid_def is_locked_def)
  have smt: "dict_get (mgr_machines ?m) t = Some (machine_commit name target (sm\<lparr>machine_locked := True\<rparr>))"
    using m by (simp add: mid_def commit_def Let_def)
  have ok: "stats_ok (mgr c')" unfolding c'(1) by (intro stats_ok_release stats_ok_commit tciD(2) [OF inv])
  have ch: "only_task t c c'"
    using ok pol us by (auto simp: only_task_def task_data_def c' machines_simps)
  show st: "task_state c' t = Some target" using state_of_commit [OF lk] by (simp add: c')
  show nl: "t \<notin> locked c'" using smt by (simp add: c' locked_def is_locked_release)
  show "tc_inv W' c'"
  proof (rule tci_only_task [OF inv ch])
    show "\<And>task. dict_get (tasks c') t = Some task \<Longrightarrow> taskId task = t \<and> task_state c' t \<noteq> None"
      using tciD(5) [OF inv, of t] st c'(2) by simp
    show "\<And>st. task_state c' t = Some st \<Longrightarrow> t \<notin> locked c' \<Longrightarrow> settled [] W' c' t st"
      using st t pay c'(2) by (auto simp: settled_def split: if_splits)
  qed (use st t nl live pay W c'(2) in \<open>auto split: if_splits\<close>)
  have "locked c' = locked c0"
  proof (rule set_eqI)
    fix u show "u \<in> locked c' \<longleftrightarrow> u \<in> locked c0"
    proof (cases "u = t")
      case True
      then show ?thesis using nl m by (simp add: mid_def)
    next
      case False
      then have "task_data c' u = task_data c u" using ch by (simp add: only_task_def)
      from task_data_eq(5) [OF this] show ?thesis using m False by (simp add: mid_def)
    qed
  qed
  moreover have "task_data c' u = task_data c0 u" if "u \<in> locked c0" for u
    using that m ch by (auto simp: only_task_def mid_def)
  ultimately show "frame c0 c'" by (simp add: frame_def)
qed

lemma release_unlocked:
  assumes "stats_ok m" "\<not> is_locked m t"
  shows "release_machine t i m = m"
proof (cases "dict_get (mgr_machines m) t")
  case None
  then show ?thesis by (simp add: release_machine_def)
next
  case (Some sm)
  then have eq: "sm\<lparr>machine_locked := False\<rparr> = sm" using assms(2) by (simp add: is_locked_def)
  have "dict_set t sm (mgr_machines m) = mgr_machines m"
    using AList_update_same [of "mgr_machines m" t sm] Some assms(1)
    by (simp add: dict_set_def dict_get_def stats_ok_def dict_ok_def)
  then show ?thesis using Some eq by (simp add: release_machine_def)
qed

section \<open>Actions\<close>

text \<open>
  What an action leaves for the router: nothing changed, a terminal target with the task
  released, or a live target that the commit will settle; after an exception, the task
  still in transition.
\<close>

definition leave :: "TaskID \<Rightarrow> TaskStateMachine \<Rightarrow> string \<Rightarrow> TaskState \<Rightarrow> task_core \<Rightarrow> task_core" where
  "leave t sm name target c = c\<lparr>mgr := release_machine t (machine_id sm) (commit t name target (mgr c))\<rparr>"

definition acted :: "TaskID set \<Rightarrow> TaskID set \<Rightarrow> task_core \<Rightarrow> TaskID \<Rightarrow> TaskStateMachine \<Rightarrow> string \<Rightarrow> nat \<Rightarrow>
    TaskState option \<Rightarrow> sched \<Rightarrow> bool" where
  "acted W W' c0 t sm name k r s \<longleftrightarrow> gok k (graphs s) \<and>
     (case r of
        None \<Rightarrow> core s = c0\<lparr>mgr := lock_machine t (mgr c0)\<rparr> \<and> W' = W
      | Some target \<Rightarrow>
          if is_terminal target then tc_inv W (core s) \<and> mid c0 t sm (core s) \<and> held (core s) t = None
          else tc_inv W' (leave t sm name target (core s)) \<and> frame c0 (leave t sm name target (core s)))"

definition faulted :: "TaskID set \<Rightarrow> task_core \<Rightarrow> TaskID \<Rightarrow> TaskStateMachine \<Rightarrow> nat \<Rightarrow> sched \<Rightarrow> bool" where
  "faulted W c0 t sm k s \<longleftrightarrow> tc_inv W (core s) \<and> mid c0 t sm (core s) \<and> gok k (graphs s)"

lemma nested_faulted:
  assumes "faulted W c0 t sm k s" "nested W (core s) k s'"
  shows "faulted W c0 t sm k s'" "held (core s') t = held (core s) t"
  using assms mid_frame [of c0 t sm "core s" "core s'"] by (auto simp: faulted_def nested_iff)

lemma faulted_nested: "faulted W c0 t sm k s \<Longrightarrow> nested W (core s) k s"
  by (simp add: faulted_def nested_iff)

text \<open>A terminal target after the task was released and nested steps ran.\<close>

lemma terminal_by:
  assumes s: "faulted W c0 t sm k s" "held (core s) t = None" and m: "keeps (nested W (core s) k) m"
    and target: "is_terminal target"
  shows "sat (acted W W' c0 t sm name k) (faulted W c0 t sm k) (seq m (ret (Some target)) s)"
proof (rule sat_seq)
  show "sat (\<lambda>_ s'. nested W (core s) k s') (faulted W c0 t sm k) (m s)"
    using keepsD [OF m faulted_nested [OF s(1)]] by (rule sat_mono) (auto intro: nested_faulted(1) [OF s(1)])
  fix s' assume "nested W (core s) k s'"
  then show "sat (acted W W' c0 t sm name k) (faulted W c0 t sm k) (ret (Some target) s')"
    using nested_faulted [OF s(1)] s(2) target by (simp add: acted_def faulted_def)
qed

lemma on_task_done_faulted:
  assumes s: "faulted W c0 t sm k s"
  obtains w s' where "on_task_done t s = Ret w s'" "faulted W c0 t sm k s'" "held (core s') t = None"
    "s' = s\<lparr>core := (core s)\<lparr>policy := policy (core s')\<rparr>\<rparr>" "policy_inv (policy (core s'))"
    "held (core s') = (held (core s))(t := None)"
proof -
  have inv: "tc_inv W (core s)" and m: "mid c0 t sm (core s)" and g: "gok k (graphs s)"
    using s by (simp_all add: faulted_def)
  obtain w p' where r: "on_task_done t s = Ret w (s\<lparr>core := (core s)\<lparr>policy := p'\<rparr>\<rparr>)" "policy_inv p'"
      "policy_holder p' = (held (core s))(t := None)"
    by (rule on_task_done_run [OF tciD(1) [OF inv]])
  show thesis
    using r mid_release_holder [OF inv m r(2,3)] g
    by (intro that [of w "s\<lparr>core := (core s)\<lparr>policy := p'\<rparr>\<rparr>"]) (simp_all add: faulted_def)
qed

text \<open>The callbacks, as the nested steps see them.\<close>

definition nested_cancel :: "nat \<Rightarrow> canceler \<Rightarrow> bool" where
  "nested_cancel k C \<longleftrightarrow> (\<forall>k' W c0 c tc. k = Suc k' \<longrightarrow> keeps (nested W c0 k') (C c tc))"

lemma keeps_confirm_to_client:
  assumes "nested_cancel k C"
  shows "keeps (nested W c0 k) (send_task_cancel_confirm_to_client env (route env (Suc n)) C confirm st)"
proof -
  have "keeps (nested W c0 k) (on_graph_sub_task_cancel_confirm env C confirm)"
    using assms unfolding nested_def nested_cancel_def by (intro keeps_sub_task_cancel_confirm) simp
  then show ?thesis
    unfolding send_task_cancel_confirm_to_client_def Let_def
    unfolding nested_def by (intro keeps_intros keeps_retry)
qed

lemma keeps_sub_result:
  assumes "nested_cancel k C" "resultType result = TR_success \<Longrightarrow> W = {}"
  shows "keeps (nested W c0 k) (on_graph_sub_task_result env (route env (Suc n)) C result)"
  using assms unfolding nested_cancel_def by (intro keeps_sub_task_result) auto

lemma result_to_client:
  assumes s: "faulted W c0 t sm k s" and C: "nested_cancel k C" and r: "result_taskId result = t"
    and W: "resultType result = TR_success \<Longrightarrow> W = {}" and target: "is_terminal target"
  shows "sat (acted W W' c0 t sm name k) (faulted W c0 t sm k)
    (seq (send_task_result_to_client env (route env (Suc n)) C result target) (ret (Some target)) s)"
proof -
  obtain w s1 where s1: "on_task_done t s = Ret w s1" "faulted W c0 t sm k s1" "held (core s1) t = None"
    by (rule on_task_done_faulted [OF s])
  define rest where "rest = andthen (on_task_finish t) (\<lambda>client.
          seq (case client of None \<Rightarrow> ret () | Some c \<Rightarrow> send c (MsgTaskResult result))
          (andthen (gets (\<lambda>s. case dict_get (tasks (core s)) t of
                       None \<Rightarrow> '''' | Some task \<Rightarrow> get_object_name (objects s) (funcObjectId task))) (\<lambda>name.
           seq (send_monitor t target name (result_metadata result))
           (andthen (gets (\<lambda>s. is_graph_subtask s t)) (\<lambda>sub.
            seq (if sub then on_graph_sub_task_result env (route env (Suc n)) C result else ret ())
                (retry_unassignable env (route env (Suc n))))))))"
  have "keeps (nested W (core s1) k) rest"
    using keeps_sub_result [OF C W, where ?c0.0 = "core s1" and env = env and n = n]
    unfolding rest_def nested_def by (intro keeps_intros keeps_retry)
  from terminal_by [OF s1(2,3) this target]
  have "sat (acted W W' c0 t sm name k) (faulted W c0 t sm k) (seq rest (ret (Some target)) s1)" .
  moreover have "seq (send_task_result_to_client env (route env (Suc n)) C result target) (ret (Some target)) s =
      seq rest (ret (Some target)) s1"
    using s1(1) unfolding seq_run [of "send_task_result_to_client env (route env (Suc n)) C result target"] seq_run [of rest]
    by (simp add: send_task_result_to_client_def rest_def r del: route.simps)
  ultimately show ?thesis by simp
qed

text \<open>The state in which the action runs.\<close>

definition entered :: "TaskID set \<Rightarrow> task_core \<Rightarrow> TaskID \<Rightarrow> TaskStateMachine \<Rightarrow> nat \<Rightarrow> sched \<Rightarrow> bool" where
  "entered W c0 t sm k s \<longleftrightarrow> tc_inv W c0 \<and> dict_get (mgr_machines (mgr c0)) t = Some sm \<and> \<not> machine_locked sm \<and>
     core s = c0\<lparr>mgr := lock_machine t (mgr c0)\<rparr> \<and> gok k (graphs s)"

lemma enteredD:
  assumes "entered W c0 t sm k s"
  shows "tc_inv W c0" "dict_get (mgr_machines (mgr c0)) t = Some sm" "\<not> machine_locked sm"
    "core s = c0\<lparr>mgr := lock_machine t (mgr c0)\<rparr>" "gok k (graphs s)" "task_state c0 t = Some (machine_state sm)"
    "t \<notin> locked c0" "settled [] W c0 t (machine_state sm)"
proof -
  show e: "tc_inv W c0" "dict_get (mgr_machines (mgr c0)) t = Some sm" "\<not> machine_locked sm"
    "core s = c0\<lparr>mgr := lock_machine t (mgr c0)\<rparr>" "gok k (graphs s)" using assms by (auto simp: entered_def)
  show st: "task_state c0 t = Some (machine_state sm)" using e(2) by (simp add: state_of_def)
  show nl: "t \<notin> locked c0" using e(2,3) by (simp add: locked_def is_locked_def)
  show "settled [] W c0 t (machine_state sm)" by (rule tciD(11) [OF e(1) st nl])
qed

text \<open>No change.\<close>

lemma acted_None: "entered W c0 t sm k s \<Longrightarrow> quiet s s' \<Longrightarrow> acted W W c0 t sm name k None s'"
  using quiet_simps [of s s'] by (simp add: acted_def entered_def)

text \<open>A task that is placed on a worker, or lost it, is not in the queue.\<close>

lemma entered_live:
  assumes e: "entered W c0 t sm k s" and st: "machine_state sm \<noteq> TS_inactive"
  shows "faulted W c0 t sm k s" "dict_has (tasks (core s)) t" "held (core s) t \<noteq> None \<or> t \<in> W"
    "t \<notin> set (unassigned (core s))"
proof -
  note d = enteredD [OF e]
  have nU: "t \<notin> set (unassigned c0)" using tciD(7) [OF d(1), of t] d(6) st by auto
  have eq: "core s = c0\<lparr>mgr := lock_machine t (mgr c0), unassigned := remove1 t (unassigned c0)\<rparr>"
    using nU by (simp add: d(4) remove1_idem)
  show "faulted W c0 t sm k s" using enter(1,2) [OF d(1-3)] d(5) unfolding eq [symmetric] by (simp add: faulted_def)
  show "t \<notin> set (unassigned (core s))" using nU by (simp add: d(4))
  show "dict_has (tasks (core s)) t" "held (core s) t \<noteq> None \<or> t \<in> W"
    using d(8) st by (auto simp: settled_def d(4))
qed

lemma acted_live:
  assumes e: "entered W c0 t sm k s" and st: "machine_state sm \<noteq> TS_inactive"
    and target: "target \<in> {TS_running, TS_canceling, TS_balanceCanceling}"
    and s': "core s' = core s" "graphs s' = graphs s"
  shows "acted W W c0 t sm name k (Some target) s'"
proof -
  note l = entered_live [OF e st]
  have inv: "tc_inv W (core s)" and m: "mid c0 t sm (core s)" using l(1) by (simp_all add: faulted_def)
  have "tc_inv W (leave t sm name target (core s))" "frame c0 (leave t sm name target (core s))"
    by (rule leave_live [OF inv m, where name = name and target = target and W' = W];
        use target l tciD(1,3) [OF inv] tciD(9) [OF inv, of t] in \<open>auto simp: leave_def\<close>)+
  then show ?thesis using target s' l(1) by (auto simp: acted_def faulted_def)
qed

text \<open>Placing the task again.\<close>

lemma acted_dispatch:
  assumes s: "faulted W c0 t sm k s" and pay: "dict_has (tasks (core s)) t" and free: "held (core s) t = None"
  shows "sat (acted W (W - {t}) c0 t sm name k) (faulted W c0 t sm k)
    (andthen (acquire_and_dispatch env t) (\<lambda>st. ret (Some st)) s)"
proof -
  have inv: "tc_inv W (core s)" and m: "mid c0 t sm (core s)" and g: "gok k (graphs s)"
    using s by (simp_all add: faulted_def)
  obtain task where task: "dict_get (tasks (core s)) t = Some task" "taskId task = t"
    using pay tciD(5) [OF inv, of t] by (auto simp: dict_has_iff)
  have nU: "t \<notin> set (unassigned (core s))" by (rule mid_unassigned [OF inv m])
  obtain s' p' w where a: "quiet s s'" "policy_inv p'"
    "if worker_is_valid w
     then acquire_and_dispatch env t s = Ret TS_running (s'\<lparr>core := (core s)\<lparr>policy := p'\<rparr>\<rparr>) \<and>
       policy_holder p' = (held (core s))(t \<mapsto> w)
     else acquire_and_dispatch env t s =
         Ret TS_inactive (s'\<lparr>core := (core s)\<lparr>policy := p', unassigned := unassigned (core s) @ [t]\<rparr>\<rparr>) \<and>
       policy_holder p' = held (core s)"
    using acquire_and_dispatch_run [OF tciD(1) [OF inv] task free] by blast
  have g': "gok k (graphs s')" using g quiet_simps(2) [OF a(1)] by simp
  show ?thesis
  proof (cases "worker_is_valid w")
    case True
    let ?c = "(core s)\<lparr>policy := p'\<rparr>"
    have "tc_inv (W - {t}) (leave t sm name TS_running ?c)" "frame c0 (leave t sm name TS_running ?c)"
      by (rule leave_live [OF inv m, where name = name and target = TS_running and W' = "W - {t}"];
          use True a nU pay tciD(3) [OF inv] in \<open>auto simp: leave_def\<close>)+
    then show ?thesis using a(3) True g' by (simp add: acted_def)
  next
    case False
    let ?c = "(core s)\<lparr>policy := p', unassigned := unassigned (core s) @ [t]\<rparr>"
    have "tc_inv (W - {t}) (leave t sm name TS_inactive ?c)" "frame c0 (leave t sm name TS_inactive ?c)"
      by (rule leave_live [OF inv m, where name = name and target = TS_inactive and W' = "W - {t}"];
          use False a nU pay free tciD(3) [OF inv] in \<open>auto simp: leave_def\<close>)+
    then show ?thesis using a(3) False g' by (simp add: acted_def)
  qed
qed

lemma entered_waiting:
  assumes e: "entered W c0 t sm k s" and st: "machine_state sm = TS_inactive"
  defines "s' \<equiv> s\<lparr>core := (core s)\<lparr>unassigned := remove1 t (unassigned (core s))\<rparr>\<rparr>"
  shows "faulted W c0 t sm k s'" "held (core s') t = None"
proof -
  note d = enteredD [OF e]
  have "faulted W c0 t sm k s'" using enter(1,2) [OF d(1-3)] d(4,5) by (simp add: faulted_def s'_def)
  then show "faulted W c0 t sm k s'" .
  show "held (core s') t = None" using d(8) st by (auto simp: s'_def d(4) settled_def split: option.splits)
qed

lemma send_task_cancel_to_worker_run:
  assumes "policy_inv (policy (core s))"
  shows "\<exists>s'. send_task_cancel_to_worker tc st s = Ret (held (core s) (cancel_taskId tc) \<noteq> None) s' \<and> quiet s s'"
proof -
  let ?t = "cancel_taskId tc"
  let ?w = "policy_get_worker_by_task_id (policy (core s)) ?t"
  show ?thesis
  proof (cases "worker_is_valid ?w")
    case False
    then show ?thesis using holder_None_iff [OF assms, of ?t]
      by (auto simp: send_task_cancel_to_worker_def worker_on_task_cancel_def get_worker_by_task_id_def)
  next
    case True
    then have "held (core s) ?t \<noteq> None" using holder_None_iff [OF assms, of ?t] by simp
    moreover obtain s' where "send_monitor ?t st '''' '''' (s\<lparr>sent := sent s @ [(?w, MsgTaskCancel tc)]\<rparr>) = Ret () s'"
        "quiet (s\<lparr>sent := sent s @ [(?w, MsgTaskCancel tc)]\<rparr>) s'"
      using send_monitor_quiet by blast
    ultimately show ?thesis
      using True quiet_trans [OF send_quiet(2) [of s ?w "MsgTaskCancel tc"]] send_quiet(1) [of ?w "MsgTaskCancel tc" s]
      by (auto simp: send_task_cancel_to_worker_def worker_on_task_cancel_def get_worker_by_task_id_def)
  qed
qed

lemma act_task_cancel_ok:
  assumes e: "entered W c0 t sm k s" and C: "nested_cancel k C" and tc: "cancel_taskId tc = t"
  shows "sat (acted W W c0 t sm name k) (faulted W c0 t sm k)
    (act_task_cancel env (route env (Suc n)) C (machine_state sm) t c tc s)"
proof -
  note confirm = keeps_confirm_to_client [OF C, where W = W and env = env and n = n]
  consider (inactive) "machine_state sm = TS_inactive" | (running) "machine_state sm = TS_running"
    | (balance) "machine_state sm = TS_balanceCanceling"
    | (other) "machine_state sm \<notin> {TS_inactive, TS_running, TS_balanceCanceling}" by auto
  then show ?thesis
  proof cases
    case inactive
    note w = entered_waiting [OF e inactive]
    let ?s1 = "s\<lparr>core := (core s)\<lparr>unassigned := remove1 t (unassigned (core s))\<rparr>\<rparr>"
    show ?thesis
    proof (cases "t \<in> set (unassigned (core s))")
      case True
      then show ?thesis
        using terminal_by [OF w confirm] by (simp add: act_task_cancel_def inactive upd_core_def del: route.simps)
    next
      case False
      then have s1: "?s1 = s" by (simp add: remove1_idem)
      obtain u s2 where "on_task_done t s = Ret u s2" "faulted W c0 t sm k s2" "held (core s2) t = None"
        using on_task_done_faulted w(1) s1 by metis
      then show ?thesis
        using terminal_by [OF _ _ confirm] False by (simp add: act_task_cancel_def inactive del: route.simps)
    qed
  next
    case running
    have st: "machine_state sm \<noteq> TS_inactive" by (simp add: running)
    note l = entered_live [OF e st]
    show ?thesis
    proof (cases "otm_add c t (clients s)")
      case (Inl err)
      then show ?thesis using l(1) by (simp add: act_task_cancel_def running on_task_begin_def seq_run)
    next
      case (Inr cl)
      let ?s1 = "s\<lparr>clients := cl\<rparr>"
      have e1: "entered W c0 t sm k ?s1" using e by (simp add: entered_def)
      have inv: "tc_inv W (core s)" using l(1) by (simp add: faulted_def)
      obtain s2 where s2: "send_task_cancel_to_worker tc TS_canceling ?s1 = Ret (held (core s) t \<noteq> None) s2" "quiet ?s1 s2"
        using send_task_cancel_to_worker_run [of ?s1 tc TS_canceling] tciD(1) [OF inv] tc by auto
      have q: "core s2 = core s" "graphs s2 = graphs s" using quiet_simps [OF s2(2)] by simp_all
      show ?thesis
      proof (cases "held (core s) t")
        case None
        have "faulted W c0 t sm k s2" "held (core s2) t = None" using l(1) None q by (simp_all add: faulted_def)
        then show ?thesis
          using terminal_by [OF _ _ confirm] Inr s2(1) None
          by (simp add: act_task_cancel_def running on_task_begin_def andthen_run del: route.simps)
      next
        case (Some w)
        then show ?thesis
          using acted_live [OF e st _ q] Inr s2(1) by (simp add: act_task_cancel_def running on_task_begin_def)
      qed
    qed
  next
    case balance
    then show ?thesis
      using acted_live [OF e, of TS_canceling s] by (simp add: act_task_cancel_def)
  next
    case other
    then have "act_task_cancel env (route env (Suc n)) C (machine_state sm) t c tc s = Ret None s"
      by (cases "machine_state sm") (simp_all add: act_task_cancel_def del: route.simps)
    then show ?thesis using acted_None [OF e quiet_refl] by simp
  qed
qed

lemma act_balance_cancel_ok:
  assumes e: "entered W c0 t sm k s"
  shows "sat (acted W W c0 t sm name k) (faulted W c0 t sm k) (act_balance_cancel (machine_state sm) t s)"
proof (cases "machine_state sm = TS_running")
  case True
  then have st: "machine_state sm \<noteq> TS_inactive" by simp
  note l = entered_live [OF e st]
  let ?tc = "\<lparr>cancel_taskId = t, cancel_force = False\<rparr>"
  have "policy_inv (policy (core s))" using l(1) tciD(1) by (auto simp: faulted_def)
  then obtain s' where s': "send_task_cancel_to_worker ?tc TS_balanceCanceling s = Ret (held (core s) t \<noteq> None) s'" "quiet s s'"
    using send_task_cancel_to_worker_run [of s ?tc TS_balanceCanceling] by auto
  then show ?thesis
    using True acted_None [OF e s'(2)] acted_live [OF e st, of TS_balanceCanceling s'] quiet_simps(1,2) [OF s'(2)]
    by (auto simp: act_balance_cancel_def)
next
  case False
  then have "act_balance_cancel (machine_state sm) t s = Ret None s"
    by (cases "machine_state sm") (simp_all add: act_balance_cancel_def)
  then show ?thesis using acted_None [OF e quiet_refl] by simp
qed

lemma act_task_result_ok:
  assumes e: "entered {} c0 t sm k s" and C: "nested_cancel k C" and r: "result_taskId result = t"
  shows "sat (acted {} {} c0 t sm name k) (faulted {} c0 t sm k)
    (act_task_result env (route env (Suc n)) C (machine_state sm) result s)"
proof (cases "machine_state sm = TS_running \<or> machine_state sm = TS_balanceCanceling")
  case True
  then have st: "machine_state sm \<noteq> TS_inactive" by auto
  have "is_terminal (task_result_target (resultType result))"
    by (cases "resultType result") (simp_all add: task_result_target_def)
  then show ?thesis
    using result_to_client [OF entered_live(1) [OF e st] C r] True by (simp add: act_task_result_def Let_def del: route.simps)
next
  case False
  then show ?thesis using acted_None [OF e quiet_refl] by (simp add: act_task_result_def)
qed

lemma confirm_ok:
  assumes e: "entered {} c0 t sm k s" and C: "nested_cancel k C" and target: "is_terminal target"
    and act: "act = (case machine_state sm of
        TS_canceling \<Rightarrow> seq (on_task_done t)
          (seq (send_task_cancel_confirm_to_client env (route env (Suc n)) C confirm target) (ret (Some target)))
      | TS_balanceCanceling \<Rightarrow> seq (on_task_done t) (andthen (acquire_and_dispatch env t) (\<lambda>st. ret (Some st)))
      | _ \<Rightarrow> ret None)"
  shows "sat (acted {} {} c0 t sm name k) (faulted {} c0 t sm k) (act s)"
proof -
  note confirm = keeps_confirm_to_client [OF C, where W = "{}" and env = env and n = n]
  consider (canceling) "machine_state sm = TS_canceling" | (balance) "machine_state sm = TS_balanceCanceling"
    | (other) "machine_state sm \<notin> {TS_canceling, TS_balanceCanceling}" by auto
  then show ?thesis
  proof cases
    case canceling
    then have st: "machine_state sm \<noteq> TS_inactive" by simp
    obtain u s1 where "on_task_done t s = Ret u s1" "faulted {} c0 t sm k s1" "held (core s1) t = None"
      by (rule on_task_done_faulted [OF entered_live(1) [OF e st]])
    then show ?thesis using terminal_by [OF _ _ confirm target] by (simp add: act canceling del: route.simps)
  next
    case balance
    then have st: "machine_state sm \<noteq> TS_inactive" by simp
    note l = entered_live [OF e st]
    obtain u s1 where s1: "on_task_done t s = Ret u s1" "faulted {} c0 t sm k s1" "held (core s1) t = None"
        "s1 = s\<lparr>core := (core s)\<lparr>policy := policy (core s1)\<rparr>\<rparr>"
      by (rule on_task_done_faulted [OF l(1)])
    have "dict_has (tasks (core s1)) t" using l(2) by (subst s1(4)) simp
    then show ?thesis using acted_dispatch [OF s1(2) _ s1(3), of name env] s1(1) by (simp add: act balance del: route.simps)
  next
    case other
    then have "act s = Ret None s" by (cases "machine_state sm") (simp_all add: act del: route.simps)
    then show ?thesis using acted_None [OF e quiet_refl] by simp
  qed
qed

lemma act_worker_disconnect_ok:
  assumes e: "entered W c0 t sm k s" and C: "nested_cancel k C" and t: "t \<in> W"
  shows "sat (acted W (W - {t}) c0 t sm name k) (faulted W c0 t sm k)
    (act_worker_disconnect env (route env (Suc n)) C (machine_state sm) t s)"
proof -
  note d = enteredD [OF e]
  note confirm = keeps_confirm_to_client [OF C, where W = W and env = env and n = n]
  have st: "machine_state sm \<noteq> TS_inactive" "held c0 t = None" using tciD(9) [OF d(1) t] d(6) by auto
  note l = entered_live [OF e st(1)]
  have free: "held (core s) t = None" using st(2) by (simp add: d(4))
  have "\<not> is_terminal (machine_state sm)" using tciD(10) [OF d(1,6)] .
  then consider "machine_state sm = TS_running \<or> machine_state sm = TS_balanceCanceling" | "machine_state sm = TS_canceling"
    using st(1) by (cases "machine_state sm") auto
  then show ?thesis
  proof cases
    case 1
    then show ?thesis
      using acted_dispatch [OF l(1,2) free, of name env] by (simp add: act_worker_disconnect_def del: route.simps)
  next
    case 2
    then show ?thesis
      using terminal_by [OF l(1) free confirm] by (simp add: act_worker_disconnect_def del: route.simps)
  qed
qed

section \<open>The fault path\<close>

lemma keeps_report_fault:
  assumes "nested_cancel k C"
  shows "keeps (nested W c0 k) (report_fault_to_client env (route env (Suc n)) C ev source)"
proof -
  have "keeps (nested W c0 k) (on_graph_sub_task_result env (route env (Suc n)) C
      \<lparr>result_taskId = t, resultType = TR_failed, result_metadata = '''', result_objects = oids\<rparr>)" for t oids
    using assms by (rule keeps_sub_result) simp
  then show ?thesis
    unfolding report_fault_to_client_def Let_def unfolding nested_def
    by (intro keeps_intros) 
qed

lemma fail_task_ok:
  assumes s: "faulted W c0 t sm k s" and C: "nested_cancel k C" and ev: "event_task_id ev = t"
  shows "\<exists>s'. fail_task_to_client env (route env (Suc n)) C ev source s = Ret () s' \<and>
    nested W c0 k s' \<and> nested (W - {t}) c0 k s'"
proof -
  let ?R = "route env (Suc n)"
  have "sat (\<lambda>_. faulted W c0 t sm k) (faulted W c0 t sm k) (report_fault_to_client env ?R C ev source s)"
    using keepsD [OF keeps_report_fault [OF C] faulted_nested [OF s]]
    by (rule sat_mono) (auto intro: nested_faulted(1) [OF s])
  then obtain s1 where s1: "try_except (report_fault_to_client env ?R C ev source) (ret ()) s = Ret () s1"
      "faulted W c0 t sm k s1"
    by (cases "report_fault_to_client env ?R C ev source s") (auto simp: try_except_run)
  obtain w s2 where s2: "on_task_done t s1 = Ret w s2" "faulted W c0 t sm k s2" "held (core s2) t = None"
    by (rule on_task_done_faulted [OF s1(2)])
  have inv: "tc_inv W (core s2)" and m: "mid c0 t sm (core s2)" and g: "gok k (graphs s2)"
    using s2(2) by (simp_all add: faulted_def)
  let ?c3 = "(core s2)\<lparr>mgr := remove_state_machine t (commit t (event_name ev) TS_failed (mgr (core s2))),
    tasks := dict_pop t (tasks (core s2))\<rparr>"
  let ?s3 = "s2\<lparr>core := ?c3\<rparr>"
  note l = leave_terminal [OF inv m s2(3), of TS_failed "event_name ev"]
  have rm: "remove1 t (unassigned (core s2)) = unassigned (core s2)"
    using mid_unassigned [OF inv m] by (simp add: remove1_idem)
  have n3: "nested W c0 k ?s3" "nested (W - {t}) c0 k ?s3" using l(1-3) g by (simp_all add: nested_iff)
  have run: "fail_task_to_client env ?R C ev source s = try_except (retry_unassignable env ?R) (ret ()) ?s3"
    using s1(1) s2(1) rm
    by (simp add: fail_task_to_client_def Let_def ev with_mgr_def upd_core_def del: route.simps)
  obtain s4 where s4: "retry_unassignable env ?R ?s3 = Ret () s4" "calm ?s3 s4" "tc_inv W (core s4)" "frame ?c3 (core s4)"
    using retry_run [of W ?s3 env n] l(1) by auto
  obtain s5 where s5: "retry_unassignable env ?R ?s3 = Ret () s5" "tc_inv (W - {t}) (core s5)"
    using retry_run [of "W - {t}" ?s3 env n] l(3) by auto
  have "s5 = s4" using s4(1) s5(1) by simp
  then have "nested W c0 k s4" "nested (W - {t}) c0 k s4"
    using s4(3) s5(2) frame_trans [OF _ s4(4)] l(2) calm_simps(1) [OF s4(2)] g by (simp_all add: nested_iff)
  then show ?thesis using run s4(1) by simp
qed

section \<open>The router\<close>

text \<open>
  The events the router gets from its callers. A worker's report is handled while no task
  waits for the event of its removed worker; \<open>HasCapacity\<close> is only sent for pending
  tasks and has its own lemma.
\<close>

fun event_ok :: "TaskID set \<Rightarrow> TaskEvent \<Rightarrow> bool" where
  "event_ok W (HasCapacity t w) = False"
| "event_ok W (TaskCancelRequested t c tc) = (cancel_taskId tc = t)"
| "event_ok W (BalanceCancelRequested t) = True"
| "event_ok W (TaskResultReceived t w r) = (result_taskId r = t \<and> W = {})"
| "event_ok W (CancelConfirmCanceled t w cc) = (confirm_taskId cc = t \<and> W = {})"
| "event_ok W (CancelConfirmFailed t w cc) = (confirm_taskId cc = t)"
| "event_ok W (CancelConfirmNotFound t w cc) = (confirm_taskId cc = t \<and> W = {})"
| "event_ok W (WorkerDisconnected t w) = (t \<in> W)"

fun handled :: "TaskEvent \<Rightarrow> TaskID set" where
  "handled (WorkerDisconnected t w) = {t}"
| "handled _ = {}"

lemma action_ok:
  assumes e: "entered W c0 (event_task_id ev) sm k s" and C: "nested_cancel k C" and ev: "event_ok W ev"
  shows "sat (acted W (W - handled ev) c0 (event_task_id ev) sm name k) (faulted W c0 (event_task_id ev) sm k)
    (action env (route env (Suc n)) C (machine_state sm) ev s)"
proof (cases ev)
  case (HasCapacity t w)
  then show ?thesis using ev by simp
next
  case (TaskCancelRequested t c tc)
  then show ?thesis using act_task_cancel_ok [of W c0 t sm k s C tc] e C ev
    by (simp add: action_def del: route.simps)
next
  case (BalanceCancelRequested t)
  then show ?thesis using act_balance_cancel_ok [of W c0 t sm k s] e by (simp add: action_def)
next
  case (TaskResultReceived t w r)
  then show ?thesis using act_task_result_ok [of c0 t sm k s C r] e C ev
    by (simp add: action_def del: route.simps)
next
  case (CancelConfirmCanceled t w cc)
  have "sat (acted {} {} c0 t sm name k) (faulted {} c0 t sm k)
      (act_confirm_canceled env (route env (Suc n)) C (machine_state sm) t cc s)"
    by (rule confirm_ok [OF _ C, where target = TS_canceled and env = env and n = n and confirm = cc])
      (use CancelConfirmCanceled e ev in \<open>auto simp: act_confirm_canceled_def simp del: route.simps\<close>)
  then show ?thesis using ev CancelConfirmCanceled by (simp add: action_def del: route.simps)
next
  case (CancelConfirmFailed t w cc)
  have "acted W W c0 t sm name k (Some TS_running) s" if "machine_state sm \<in> {TS_canceling, TS_balanceCanceling}"
    using acted_live [of W c0 t sm k s TS_running s name] e that CancelConfirmFailed by auto
  then show ?thesis
    using acted_None [of W c0 t sm k s s] e CancelConfirmFailed by (simp add: action_def act_confirm_failed_def)
next
  case (CancelConfirmNotFound t w cc)
  have "sat (acted {} {} c0 t sm name k) (faulted {} c0 t sm k)
      (act_confirm_not_found env (route env (Suc n)) C (machine_state sm) t cc s)"
    by (rule confirm_ok [OF _ C, where target = TS_canceledNotFound and env = env and n = n and confirm = cc])
      (use CancelConfirmNotFound e ev in \<open>auto simp: act_confirm_not_found_def simp del: route.simps\<close>)
  then show ?thesis using ev CancelConfirmNotFound by (simp add: action_def del: route.simps)
next
  case (WorkerDisconnected t w)
  then show ?thesis using act_worker_disconnect_ok [of W c0 t sm k s C] e C ev
    by (simp add: action_def del: route.simps)
qed

lemma tci_less_W:
  assumes inv: "tc_inv W c" and t: "task_state c t = None \<or> t \<in> locked c"
  shows "tc_inv (W - {t}) c"
  by (rule tci_only_task [OF inv only_task_refl [OF inv], where t = t])
    (use t tciD(5) [OF inv, of t] tciD(6,7) [OF inv, of t] tciD(10) [OF inv, of t] in auto)

definition released :: "TaskID \<Rightarrow> TaskStateMachine \<Rightarrow> sched \<Rightarrow> sched" where
  "released t sm s = s\<lparr>core := (core s)\<lparr>mgr := release_machine t (machine_id sm) (mgr (core s))\<rparr>\<rparr>"

lemma released_id:
  assumes "nested W c0 k s" "t \<notin> locked c0"
  shows "released t sm s = s"
proof -
  have "stats_ok (mgr (core s))" "\<not> is_locked (mgr (core s)) t"
    using assms tciD(2) by (auto simp: nested_iff frame_def locked_def)
  from release_unlocked [OF this] show ?thesis by (simp add: released_def)
qed

lemma handled_cases: "handled ev = {} \<or> handled ev = {event_task_id ev}"
  by (cases ev) simp_all

lemma nested_handled:
  assumes "nested W c0 k s" "nested (W - {event_task_id ev}) c0 k s"
  shows "nested (W - handled ev) c0 k s"
proof (cases "handled ev = {}")
  case True
  then show ?thesis using assms(1) by simp
next
  case False
  then have "handled ev = {event_task_id ev}" using handled_cases [of ev] by simp
  then show ?thesis using assms(2) by simp
qed

lemma settle_ok:
  assumes e: "t \<notin> locked c0" and a: "acted W (W - handled ev) c0 t sm (event_name ev) k (Some target) s"
    and ev: "event_task_id ev = t"
  shows "\<exists>s'. settle ev target s = Ret () s' \<and> nested (W - handled ev) c0 k (released t sm s')"
proof (cases "is_terminal target")
  case True
  have inv: "tc_inv W (core s)" and m: "mid c0 t sm (core s)" and free: "held (core s) t = None" and g: "gok k (graphs s)"
    using a True by (simp_all add: acted_def)
  let ?c = "(core s)\<lparr>mgr := remove_state_machine t (commit t (event_name ev) target (mgr (core s))), tasks := dict_pop t (tasks (core s))\<rparr>"
  note l = leave_terminal [OF inv m free True, of "event_name ev"]
  have n: "nested (W - handled ev) c0 k (s\<lparr>core := ?c\<rparr>)"
    by (rule nested_handled) (use l(1-3) g ev in \<open>simp_all add: nested_iff\<close>)
  then show ?thesis
    using released_id [OF n e, of sm] True ev by (simp add: settle_def with_mgr_def upd_core_def)
next
  case False
  then show ?thesis
    using a ev by (simp add: acted_def settle_def with_mgr_def upd_core_def released_def leave_def nested_iff)
qed

lemma route_locked_ok:
  assumes e: "entered W c0 t sm k s" and C: "nested_cancel k C" and ev: "event_ok W ev" "event_task_id ev = t"
  shows "\<exists>s'. route_locked env (route env (Suc n)) C ev (machine_state sm) s = Ret () s' \<and>
    nested (W - handled ev) c0 k (released t sm s')"
proof -
  note d = enteredD [OF e]
  have undo: "nested W c0 k (released t sm s')" if "core s' = c0\<lparr>mgr := lock_machine t (mgr c0)\<rparr>" "gok k (graphs s')" for s'
    using release_lock [OF tciD(2) [OF d(1)] d(2,3)] that d(1) by (simp add: nested_iff released_def)
  show ?thesis
  proof (cases "case reported_by ev of None \<Rightarrow> False | Some w \<Rightarrow> \<not> is_task_owned_by_worker s (event_task_id ev) w")
    case True
    then have "handled ev = {}" by (cases ev) simp_all
    then show ?thesis using True undo [OF d(4,5)] by (simp add: route_locked_def)
  next
    case False
    let ?r = "action env (route env (Suc n)) C (machine_state sm) ev s"
    have run: "route_locked env (route env (Suc n)) C ev (machine_state sm) s = (case ?r of
              Ret None s' \<Rightarrow> Ret () s'
            | Ret (Some target) s' \<Rightarrow> settle ev target s'
            | Raise e s' \<Rightarrow> fail_task_to_client env (route env (Suc n)) C ev (machine_state sm) s'
            | NoFuel \<Rightarrow> NoFuel)"
      unfolding route_locked_def using False by (simp only: if_False)
    have a: "sat (acted W (W - handled ev) c0 t sm (event_name ev) k) (faulted W c0 t sm k) ?r"
      using action_ok [of W c0 ev sm k s C] e C ev by simp
    show ?thesis
    proof (cases ?r)
      case (Ret r s')
      then have r: "acted W (W - handled ev) c0 t sm (event_name ev) k r s'" using a by simp
      show ?thesis
      proof (cases r)
        case None
        then show ?thesis using r Ret undo [of s'] by (simp add: run acted_def)
      next
        case (Some target)
        then show ?thesis using settle_ok [OF d(7) _ ev(2)] r Ret by (simp add: run)
      qed
    next
      case (Raise x s')
      then have f: "faulted W c0 t sm k s'" using a by simp
      obtain s2 where s2: "fail_task_to_client env (route env (Suc n)) C ev (machine_state sm) s' = Ret () s2"
          "nested W c0 k s2" "nested (W - {t}) c0 k s2"
        using fail_task_ok [OF f C ev(2)] by blast
      have "nested (W - handled ev) c0 k s2" using nested_handled [OF s2(2)] s2(3) ev(2) by simp
      then show ?thesis using s2(1) released_id [OF s2(2) d(7), of sm] Raise by (simp add: run)
    next
      case NoFuel
      then show ?thesis using a by simp
    qed
  qed
qed

lemma route_body_ok:
  assumes s: "nested W c0 k s" and C: "nested_cancel k C" and ev: "event_ok W ev"
  shows "\<exists>s'. route_body env (route env (Suc n)) C ev s = Ret () s' \<and> nested (W - handled ev) c0 k s'"
proof -
  let ?t = "event_task_id ev" and ?R = "route env (Suc n)"
  have inv: "tc_inv W (core s)" and fr: "frame c0 (core s)" and g: "gok k (graphs s)"
    using s by (simp_all add: nested_iff)
  have less: "nested (W - handled ev) c0 k s" if "task_state (core s) ?t = None \<or> ?t \<in> locked (core s)"
    by (rule nested_handled [OF s]) (use tci_less_W [OF inv that] fr g in \<open>simp add: nested_iff\<close>)
  show ?thesis
  proof (cases "dict_get (mgr_machines (mgr (core s))) ?t")
    case None
    then show ?thesis using less by (simp add: route_body_def get_state_machine_def state_of_def)
  next
    case (Some sm)
    show ?thesis
    proof (cases "machine_locked sm")
      case True
      then show ?thesis using less Some by (simp add: route_body_def get_state_machine_def locked_def is_locked_def)
    next
      case False
      let ?s1 = "s\<lparr>core := (core s)\<lparr>mgr := lock_machine ?t (mgr (core s))\<rparr>\<rparr>"
      have e: "entered W (core s) ?t sm k ?s1" using inv Some False g by (simp add: entered_def)
      obtain s2 where s2: "route_locked env ?R C ev (machine_state sm) ?s1 = Ret () s2"
          "nested (W - handled ev) (core s) k (released ?t sm s2)"
        using route_locked_ok [OF e C ev refl] by blast
      have "route_body env ?R C ev s = Ret () (released ?t sm s2)"
        using Some False s2(1)
        by (simp add: route_body_def get_state_machine_def with_mgr_def upd_core_def released_def Let_def del: route.simps)
      moreover have "nested (W - handled ev) c0 k (released ?t sm s2)"
        using s2(2) frame_trans [OF fr] by (simp add: nested_iff)
      ultimately show ?thesis by blast
    qed
  qed
qed

lemma keeps_task_cancel_body:
  assumes C: "nested_cancel k C" and R: "\<And>t c tc. cancel_taskId tc = t \<Longrightarrow> keeps (nested W c0 k) (R (TaskCancelRequested t c tc))"
  shows "keeps (nested W c0 k) (on_task_cancel_body env R C c tc)"
proof -
  have "keeps (nested W c0 k) (on_graph_sub_task_cancel_confirm env C confirm)" for confirm
    using C unfolding nested_def nested_cancel_def by (intro keeps_sub_task_cancel_confirm) simp
  moreover have "keeps (nested W c0 k) (R (TaskCancelRequested (cancel_taskId tc) c tc))" by (rule R) simp
  ultimately show ?thesis
    unfolding on_task_cancel_body_def Let_def unfolding nested_def by (intro keeps_intros)
qed

text \<open>
  The bound: a cancel of a graph enters the router one level down and the next graph two
  levels down.
\<close>

lemma route_and_cancel:
  "(2 * k + 2 \<le> n \<longrightarrow> event_ok W ev \<longrightarrow> nested W c0 k s \<longrightarrow>
      (\<exists>s'. route env n ev s = Ret () s' \<and> nested (W - handled ev) c0 k s')) \<and>
   (2 * k + 3 \<le> n \<longrightarrow> keeps (nested W c0 k) (on_task_cancel env n c tc))"
proof (induction n arbitrary: k W ev c0 s c tc rule: less_induct)
  case (less n)
  have C: "nested_cancel k (on_task_cancel env m)" if "2 * k + 2 \<le> Suc m" "m < n" for m k
    unfolding nested_cancel_def using less.IH [of m] that by auto
  show ?case
  proof (intro conjI impI)
    assume n: "2 * k + 2 \<le> n" and ev: "event_ok W ev" and s: "nested W c0 k s"
    obtain m where m: "n = Suc (Suc m)" using n by (cases n; cases "n - 1") auto
    show "\<exists>s'. route env n ev s = Ret () s' \<and> nested (W - handled ev) c0 k s'"
      using route_body_ok [OF s C [of k "Suc m"] ev, of env m] n m by simp
  next
    assume n: "2 * k + 3 \<le> n"
    then obtain m where m: "n = Suc m" by (cases n) auto
    have "keeps (nested W c0 k) (route env m (TaskCancelRequested t c tc))" if tc: "cancel_taskId tc = t" for t c tc
    proof (rule keepsI)
      fix s assume s: "nested W c0 k s"
      obtain s' where "route env m (TaskCancelRequested t c tc) s = Ret () s'" "nested W c0 k s'"
        using less.IH [of m k W "TaskCancelRequested t c tc" c0 s, THEN conjunct1] n m tc s by auto
      then show "sat (\<lambda>_. nested W c0 k) (nested W c0 k) (route env m (TaskCancelRequested t c tc) s)" by simp
    qed
    moreover have "nested_cancel k (on_task_cancel env m)" using C [of k m] n m by simp
    ultimately show "keeps (nested W c0 k) (on_task_cancel env n c tc)"
      using keeps_task_cancel_body unfolding m by simp
  qed
qed

lemmas route_ok = route_and_cancel [THEN conjunct1, rule_format]
lemmas on_task_cancel_ok = route_and_cancel [THEN conjunct2, rule_format]

end
