(* ===== verification/Controllers.thy ===== *)
theory Controllers
  imports TaskController
begin

text \<open>
  The remaining controllers of \<open>scheduler/controllers\<close>: workers, clients, balancing, objects and
  worker managers. \<open>n\<close> bounds the nesting depth of the task controller's router as in
  its own theory; \<open>now\<close> is the clock at the call. An exception leaves the state as it
  was when it was raised.
\<close>

section \<open>VanillaWorkerController\<close>

definition UINT8_MAX :: int where "UINT8_MAX = 2 ^ 8 - 1"
definition UINT16_MAX :: int where "UINT16_MAX = 2 ^ 16 - 1"

definition remember_manager :: "WorkerID \<Rightarrow> bytes \<Rightarrow> unit step" where
  "remember_manager w manager = modify (\<lambda>s.
     if dict_has (worker_to_manager s) w then s
     else s\<lparr>worker_to_manager := dict_set w manager (worker_to_manager s),
            manager_to_workers := dict_set manager
              (set_add w (case dict_get (manager_to_workers s) manager of None \<Rightarrow> [] | Some ws \<Rightarrow> ws))
              (manager_to_workers s)\<rparr>)"

definition worker_on_heartbeat :: "env \<Rightarrow> nat \<Rightarrow> int \<Rightarrow> WorkerID \<Rightarrow> worker_heartbeat \<Rightarrow> unit step" where
  "worker_on_heartbeat env n now w info0 =
     (let info = info0\<lparr>hb_capabilities := capabilities_to_dict (hb_capabilities info0)\<rparr>
      in andthen (with_policy (policy_add_worker w (hb_capabilities info) (hb_queueSize info))) (\<lambda>new.
         seq (if new
              then seq (publish (StateWorker w WS_connected (dict_to_capabilities (hb_capabilities info))))
                       (on_worker_connect env n)
              else ret ())
         (seq (remember_manager w (hb_managerID info))
         (seq (modify (\<lambda>s. s\<lparr>worker_alive := dict_set w (now, info) (worker_alive s)\<rparr>))
              (send w MsgWorkerHeartbeatEcho)))))"

definition remove_worker_from_manager :: "WorkerID \<Rightarrow> unit step" where
  "remove_worker_from_manager w = modify (\<lambda>s.
     case dict_get (worker_to_manager s) w of
       None \<Rightarrow> s
     | Some manager \<Rightarrow>
         let s1 = s\<lparr>worker_to_manager := dict_pop w (worker_to_manager s)\<rparr>
         in (case dict_get (manager_to_workers s) manager of
               None \<Rightarrow> s1
             | Some ws \<Rightarrow>
                 let ws' = removeAll w ws
                 in if ws' = [] then s1\<lparr>manager_to_workers := dict_pop manager (manager_to_workers s)\<rparr>
                    else s1\<lparr>manager_to_workers := dict_set manager ws' (manager_to_workers s)\<rparr>))"

definition disconnect_worker :: "env \<Rightarrow> nat \<Rightarrow> WorkerID \<Rightarrow> unit step" where
  "disconnect_worker env n w s =
     (if \<not> dict_has (worker_alive s) w then Ret () s
      else seq (modify (\<lambda>s. s\<lparr>worker_alive := dict_pop w (worker_alive s)\<rparr>))
           (seq (remove_worker_from_manager w)
           (seq (publish (StateWorker w WS_disconnected []))
           (andthen (with_policy (policy_remove_worker w)) (\<lambda>ts.
              for_each ts (\<lambda>t. on_worker_disconnect env n t w))))) s)"

definition on_disconnect_notification :: "env \<Rightarrow> nat \<Rightarrow> WorkerID \<Rightarrow> unit step" where
  "on_disconnect_notification env n w = disconnect_worker env n w"

definition shutdown_worker :: "env \<Rightarrow> nat \<Rightarrow> WorkerID \<Rightarrow> unit step" where
  "shutdown_worker env n w = seq (send w MsgShutdown) (disconnect_worker env n w)"

definition on_client_shutdown :: "env \<Rightarrow> nat \<Rightarrow> unit step" where
  "on_client_shutdown env n s =
     for_each (sort_key (env_iter env) (policy_get_worker_ids (policy (core s)))) (shutdown_worker env n) s"

definition dead_workers :: "env \<Rightarrow> int \<Rightarrow> sched \<Rightarrow> WorkerID list" where
  "dead_workers env now s =
     map fst (filter (\<lambda>(w, since, info). now - since > env_worker_timeout env) (worker_alive s))"

definition clean_workers :: "env \<Rightarrow> nat \<Rightarrow> int \<Rightarrow> unit step" where
  "clean_workers env n now s = for_each (dead_workers env now s) (disconnect_worker env n) s"

definition get_workers_by_manager_id :: "sched \<Rightarrow> bytes \<Rightarrow> WorkerID list" where
  "get_workers_by_manager_id s manager =
     (case dict_get (manager_to_workers s) manager of None \<Rightarrow> [] | Some ws \<Rightarrow> ws)"

record worker_status =
  st_workerId :: WorkerID
  st_free :: int
  st_sent :: int
  st_queued :: int
  st_suspended :: int
  st_lastS :: int
  st_itl :: string

definition flag :: "bool \<Rightarrow> string" where
  "flag b = (if b then ''1'' else ''0'')"

definition worker_status_from_heartbeat :: "int \<Rightarrow> WorkerID \<Rightarrow> int \<times> int \<Rightarrow> int \<Rightarrow> worker_heartbeat \<Rightarrow> worker_status" where
  "worker_status_from_heartbeat now w numbers last_seen info =
     (let itl = (case find (\<lambda>p. \<not> pr_suspended p) (hb_processors info) of
                   None \<Rightarrow> ''00'' @ flag (hb_taskLock info)
                 | Some p \<Rightarrow> flag (pr_initialized p) @ flag (pr_hasTask p) @ flag (hb_taskLock info))
      in \<lparr>st_workerId = w, st_free = fst numbers, st_sent = snd numbers, st_queued = hb_queuedTasks info,
          st_suspended = min (int (length (filter pr_suspended (hb_processors info)))) UINT8_MAX,
          st_lastS = min (now - last_seen) UINT16_MAX, st_itl = itl\<rparr>)"

fun policy_statistics :: "allocation \<Rightarrow> (WorkerID, int \<times> int) dict" where
  "policy_statistics (EvenLoadPolicy p) = ev_statistics p"
| "policy_statistics (CapabilityPolicy p) = map (\<lambda>(w, free, n, _). (w, free, int n)) (cp_statistics p)"

text \<open>\<open>get_status\<close> raises when a worker that is alive is not known to the policy.\<close>

fun worker_statuses :: "int \<Rightarrow> (WorkerID, int \<times> int) dict \<Rightarrow> (WorkerID, int \<times> worker_heartbeat) dict \<Rightarrow> py_exn + worker_status list" where
  "worker_statuses now numbers [] = Inr []"
| "worker_statuses now numbers ((w, since, info) # rest) =
     (case dict_get numbers w of
        None \<Rightarrow> Inl KeyError
      | Some n \<Rightarrow> map_sum id (\<lambda>ss. worker_status_from_heartbeat now w n since info # ss) (worker_statuses now numbers rest))"

definition worker_get_status :: "int \<Rightarrow> sched \<Rightarrow> py_exn + worker_status list" where
  "worker_get_status now s = worker_statuses now (policy_statistics (policy (core s))) (worker_alive s)"

section \<open>VanillaClientController\<close>

definition has_client_id :: "sched \<Rightarrow> ClientID \<Rightarrow> bool" where
  "has_client_id s c = dict_has (client_last_seen s) c"

definition get_client_id :: "sched \<Rightarrow> TaskID \<Rightarrow> ClientID option" where
  "get_client_id s t =
     (if \<not> otm_has_value (clients s) t then None
      else (case otm_get_key (clients s) t of Inl _ \<Rightarrow> None | Inr c \<Rightarrow> Some c))"

definition client_on_heartbeat :: "int \<Rightarrow> ClientID \<Rightarrow> unit step" where
  "client_on_heartbeat now c =
     seq (send c MsgClientHeartbeatEcho)
         (modify (\<lambda>s. s\<lparr>client_last_seen := dict_set c now (client_last_seen s)\<rparr>))"

definition notice_client_activity :: "int \<Rightarrow> ClientID \<Rightarrow> unit step" where
  "notice_client_activity now c = modify (\<lambda>s.
     if dict_has (client_last_seen s) c then s\<lparr>client_last_seen := dict_set c now (client_last_seen s)\<rparr> else s)"

definition cancel_client_all_tasks :: "env \<Rightarrow> nat \<Rightarrow> ClientID \<Rightarrow> unit step" where
  "cancel_client_all_tasks env n c s =
     (if \<not> otm_has_key (clients s) c then Ret () s
      else for_each (sort_key (env_iter env) (otm_values (clients s) c))
             (\<lambda>t. on_task_cancel env n c \<lparr>cancel_taskId = t, cancel_force = False\<rparr>) s)"

definition client_disconnect :: "env \<Rightarrow> nat \<Rightarrow> ClientID \<Rightarrow> unit step" where
  "client_disconnect env n c =
     seq (modify (\<lambda>s. s\<lparr>client_last_seen := dict_pop c (client_last_seen s)\<rparr>))
     (seq (cancel_client_all_tasks env n c)
          (with_objects (clean_client c)))"

datatype DisconnectType = DT_disconnect | DT_shutdown

definition on_client_disconnect :: "env \<Rightarrow> nat \<Rightarrow> ClientID \<Rightarrow> DisconnectType \<Rightarrow> unit step" where
  "on_client_disconnect env n c ty =
     (if ty = DT_disconnect then client_disconnect env n c
      else seq (send c (MsgClientShutdownResponse (\<not> env_protected env)))
             (if env_protected env then ret ()
              else seq (on_client_shutdown env n) (raise ClientShutdown)))"

definition dead_clients :: "env \<Rightarrow> int \<Rightarrow> sched \<Rightarrow> ClientID list" where
  "dead_clients env now s =
     sort_key (env_iter env) (map fst (filter (\<lambda>(c, seen). now - seen > env_client_timeout env) (client_last_seen s)))"

definition cleanup_clients :: "env \<Rightarrow> nat \<Rightarrow> int \<Rightarrow> unit step" where
  "cleanup_clients env n now s = for_each (dead_clients env now s) (client_disconnect env n) s"

definition client_get_status :: "sched \<Rightarrow> (ClientID \<times> nat) list" where
  "client_get_status s =
     map (\<lambda>(c, _). (c, if otm_has_key (clients s) c then length (otm_values (clients s) c) else 0)) (client_last_seen s)"

section \<open>VanillaBalanceController\<close>

text \<open>\<open>==\<close> of two dictionaries: the same keys with the same values, in any order.\<close>

definition dict_same :: "('k, 'v) dict \<Rightarrow> ('k, 'v) dict \<Rightarrow> bool" where
  "dict_same d e = (length d = length e \<and> list_all (\<lambda>(k, v). dict_get e k = Some v) d)"

definition should_balance :: "env \<Rightarrow> balance_advice \<Rightarrow> bool step" where
  "should_balance env advice s =
     (let s1 = (if dict_same (last_advice s) advice then s\<lparr>same_advice_count := same_advice_count s + 1\<rparr>
                else s\<lparr>last_advice := advice, same_advice_count := 0\<rparr>)
      in Ret (same_advice_count s1 = env_trigger_times env \<and> advice \<noteq> []) s1)"

definition balance_routine :: "env \<Rightarrow> nat \<Rightarrow> unit step" where
  "balance_routine env n =
     andthen (gets (\<lambda>s. policy_balance (env_bisect env) (policy (core s)))) (\<lambda>r.
     andthen (lift_sum r) (\<lambda>advice.
     andthen (should_balance env advice) (\<lambda>go.
       if \<not> go then ret ()
       else seq (for_each advice (\<lambda>(w, ts). publish (StateBalanceAdvice w ts)))
            (seq (modify (\<lambda>s. s\<lparr>last_advice := advice\<rparr>))
                 (for_each advice (\<lambda>(w, ts). for_each ts (on_task_balance_cancel env n)))))))"

section \<open>VanillaObjectController\<close>

datatype object_instruction =
    ObjectCreate ClientID "(ObjectID \<times> ObjectContentType \<times> bytes) list"
  | ObjectDelete ClientID "ObjectID list"

definition on_object_instruction :: "env \<Rightarrow> object_instruction \<Rightarrow> unit step" where
  "on_object_instruction env instr =
     (case instr of
        ObjectCreate user metas \<Rightarrow>
          andthen (gets (\<lambda>s. has_client_id s user)) (\<lambda>known.
            if \<not> known then ret ()
            else for_each metas (\<lambda>(oid, ty, name). with_objects (on_add_object user oid ty name)))
      | ObjectDelete user oids \<Rightarrow>
          with_objects (on_del_objects user (sort_key (env_iter env) (remdups oids))))"

text \<open>One round of the deletion routine; the queue's \<open>get\<close> waits while it is empty.\<close>

definition object_routine :: "env \<Rightarrow> unit step" where
  "object_routine env s =
     (let oids = os_deleted (objects s)
      in if oids = [] then Ret () s
         else seq (modify (\<lambda>s. s\<lparr>objects := (objects s)\<lparr>os_deleted := []\<rparr>\<rparr>))
              (seq (for_each (sort_key (env_iter env) (policy_get_worker_ids (policy (core s))))
                      (\<lambda>w. send w (MsgObjectDelete oids)))
                   (for_each oids (\<lambda>oid. modify (\<lambda>s. s\<lparr>store := dict_pop oid (store s)\<rparr>)))) s)"

definition object_get_status :: "sched \<Rightarrow> nat" where
  "object_get_status s = ot_object_count (os_tracker (objects s))"

section \<open>WorkerManagerController\<close>

definition sum_desired_for_manager :: "DesiredTaskConcurrencyRequest list list \<Rightarrow> capabilities \<Rightarrow> int" where
  "sum_desired_for_manager commands caps =
     sum_list (map (\<lambda>r. if items_subset (capabilities_to_dict (request_capabilities r)) caps then taskConcurrency r else 0)
       (concat commands))"

definition build_snapshot :: "sched \<Rightarrow> worker_heartbeat information_snapshot" where
  "build_snapshot s =
     \<lparr>snap_tasks = tasks (core s), snap_workers = map (\<lambda>(w, _, hb). (w, hb)) (worker_alive s)\<rparr>"

definition build_manager_snapshots :: "sched \<Rightarrow> snapshots" where
  "build_manager_snapshots s =
     foldl (\<lambda>d (_, _, hb). dict_set (workerManagerID hb)
        \<lparr>sn_worker_manager_id = workerManagerID hb, sn_max_task_concurrency = maxTaskConcurrency hb,
         sn_worker_count = int (length (get_workers_by_manager_id s (workerManagerID hb))),
         sn_capabilities = manager_capabilities hb\<rparr> d) [] (manager_alive s)"

definition ask_scaling :: "WorkerManagerHeartbeat \<Rightarrow> DesiredTaskConcurrencyRequest list list step" where
  "ask_scaling hb s =
     (case get_scaling_commands (build_snapshot s) hb (get_workers_by_manager_id s (workerManagerID hb))
        (build_manager_snapshots s) (scaling s) of (commands, sc) \<Rightarrow> Ret commands (s\<lparr>scaling := sc\<rparr>))"

definition manager_on_heartbeat :: "int \<Rightarrow> bytes \<Rightarrow> WorkerManagerHeartbeat \<Rightarrow> unit step" where
  "manager_on_heartbeat now source hb0 s =
     (let hb = hb0\<lparr>manager_capabilities := capabilities_to_dict (manager_capabilities hb0)\<rparr>;
          manager = workerManagerID hb;
          new = \<not> dict_has (manager_alive s) source;
          taken = (case dict_get (manager_id_to_source s) manager of None \<Rightarrow> False | Some other \<Rightarrow> other \<noteq> source)
      in if new \<and> taken then Ret () s
         else seq (if new then modify (\<lambda>s. s\<lparr>manager_id_to_source := dict_set manager source (manager_id_to_source s)\<rparr>) else ret ())
              (seq (modify (\<lambda>s. s\<lparr>manager_alive := dict_set source (now, hb) (manager_alive s)\<rparr>))
              (seq (send source MsgWorkerManagerHeartbeatEcho)
              (andthen (ask_scaling hb) (\<lambda>commands.
               seq (for_each commands (\<lambda>c. send source (MsgWorkerManagerCommand c)))
                   (modify (\<lambda>s. s\<lparr>last_desired_total := dict_set source
                      (sum_desired_for_manager commands (manager_capabilities hb)) (last_desired_total s)\<rparr>)))))) s)"

definition disconnect_manager :: "bytes \<Rightarrow> unit step" where
  "disconnect_manager source = modify (\<lambda>s.
     case dict_get (manager_alive s) source of
       None \<Rightarrow> s
     | Some (_, hb) \<Rightarrow>
         s\<lparr>manager_id_to_source := dict_pop (workerManagerID hb) (manager_id_to_source s),
           manager_alive := dict_pop source (manager_alive s),
           last_desired_total := dict_pop source (last_desired_total s)\<rparr>)"

definition DEFAULT_WORKER_MANAGER_TIMEOUT_SECONDS :: int where
  "DEFAULT_WORKER_MANAGER_TIMEOUT_SECONDS = 10"

definition clean_managers :: "int \<Rightarrow> unit step" where
  "clean_managers now s =
     for_each (map fst (filter (\<lambda>(_, since, _). now - since > DEFAULT_WORKER_MANAGER_TIMEOUT_SECONDS) (manager_alive s)))
       disconnect_manager s"

definition get_managed_workers :: "sched \<Rightarrow> (bytes, WorkerID list) dict" where
  "get_managed_workers s =
     foldl (\<lambda>d (_, _, hb). dict_set (workerManagerID hb) (get_workers_by_manager_id s (workerManagerID hb)) d) []
       (manager_alive s)"

definition pending_workers :: "sched \<Rightarrow> bytes \<Rightarrow> WorkerManagerHeartbeat \<Rightarrow> int" where
  "pending_workers s source hb =
     max 0 ((case dict_get (last_desired_total s) source of None \<Rightarrow> 0 | Some n \<Rightarrow> n) -
       int (length (get_workers_by_manager_id s (workerManagerID hb))))"

end
