(* ===== verification/Scheduler.thy ===== *)
theory Scheduler
  imports Controllers
begin

text \<open>
  The scheduler itself (\<open>src/src/scaler/scheduler/scheduler.py\<close>): the dispatch of inbound messages to
  the controllers and the periodic routines of \<open>get_loops\<close>. One input is one run of a handler or a
  routine; the event loop (\<open>utility/event_loop.py\<close>) logs an exception of a routine and
  goes on, except for the shutdown a client asked for, which ends the scheduler.

  The router's nesting bound for one input is computed from the state: three more than twice the
  number of graphs in the table.
\<close>

datatype incoming =
    InClientHeartbeat
  | InClientDisconnect DisconnectType
  | InGraphTask GraphTask
  | InTask Task
  | InTaskCancel TaskCancel
  | InTaskCancelConfirm TaskCancelConfirm
  | InTaskResult TaskResult
  | InTaskLog TaskID bytes
  | InWorkerHeartbeat worker_heartbeat
  | InWorkerDisconnectNotification
  | InObjectInstruction object_instruction
  | InInformationRequest
  | InWorkerManagerHeartbeat WorkerManagerHeartbeat

definition on_receive_message :: "env \<Rightarrow> nat \<Rightarrow> int \<Rightarrow> bytes \<Rightarrow> incoming \<Rightarrow> unit step" where
  "on_receive_message env n now source msg =
     seq (if is_client_source source then notice_client_activity now source else ret ())
     (case msg of
        InClientHeartbeat \<Rightarrow> client_on_heartbeat now source
      | InClientDisconnect ty \<Rightarrow> on_client_disconnect env n source ty
      | InGraphTask gt \<Rightarrow> on_graph_task source gt
      | InTask task \<Rightarrow> on_task_new env (route env n) task
      | InTaskCancel tc \<Rightarrow>
          andthen (gets (\<lambda>s. is_graph_subtask s (cancel_taskId tc))) (\<lambda>sub.
            if sub then on_graph_task_cancel env (on_task_cancel env n) tc else on_task_cancel env n source tc)
      | InTaskCancelConfirm cc \<Rightarrow> on_task_cancel_confirm env n source cc
      | InTaskResult r \<Rightarrow> on_task_result env n source r
      | InTaskLog t content \<Rightarrow>
          andthen (gets (\<lambda>s. get_client_id s t)) (\<lambda>client.
            case client of None \<Rightarrow> ret () | Some c \<Rightarrow> send c (MsgTaskLog t content))
      | InWorkerHeartbeat info \<Rightarrow> worker_on_heartbeat env n now source info
      | InWorkerDisconnectNotification \<Rightarrow> on_disconnect_notification env n source
      | InObjectInstruction instr \<Rightarrow> on_object_instruction env instr
      | InInformationRequest \<Rightarrow> ret ()
      | InWorkerManagerHeartbeat hb \<Rightarrow> manager_on_heartbeat now source hb)"

datatype sched_input =
    Receive int bytes incoming
  | GraphRoutine
  | BalanceRoutine
  | ClientRoutine int
  | ObjectRoutine
  | WorkerRoutine int
  | ManagerRoutine int

definition fuel_for :: "sched \<Rightarrow> nat" where
  "fuel_for s = 2 * length (graphs s) + 3"

definition perform :: "env \<Rightarrow> sched_input \<Rightarrow> unit step" where
  "perform env i s =
     (let n = fuel_for s
      in (case i of
            Receive now source msg \<Rightarrow> on_receive_message env n now source msg s
          | GraphRoutine \<Rightarrow> graph_routine env (route env n) s
          | BalanceRoutine \<Rightarrow> balance_routine env n s
          | ClientRoutine now \<Rightarrow> cleanup_clients env n now s
          | ObjectRoutine \<Rightarrow> object_routine env s
          | WorkerRoutine now \<Rightarrow> clean_workers env n now s
          | ManagerRoutine now \<Rightarrow> clean_managers now s))"

text \<open>
  What the loop goes on with: \<open>None\<close> after a requested shutdown. Giving up for lack of
  fuel has no successor either; that it cannot happen is a theorem.
\<close>

fun swallow :: "(unit, sched) outcome \<Rightarrow> sched option" where
  "swallow (Ret _ s) = Some s"
| "swallow (Raise e s) = (if e = ClientShutdown then None else Some s)"
| "swallow NoFuel = None"

text \<open>The identity a worker connects with is not the reserved invalid one.\<close>

fun input_ok :: "sched_input \<Rightarrow> bool" where
  "input_ok (Receive now source msg) = (case msg of InWorkerHeartbeat _ \<Rightarrow> worker_is_valid source | _ \<Rightarrow> True)"
| "input_ok _ = True"

inductive sched_step :: "env \<Rightarrow> sched \<Rightarrow> sched \<Rightarrow> bool" where
  step: "input_ok i \<Longrightarrow> swallow (perform env i s) = Some s' \<Longrightarrow> sched_step env s s'"

inductive reachable :: "env \<Rightarrow> AllocatePolicyStrategy \<Rightarrow> scaling_policy \<Rightarrow> sched \<Rightarrow> bool" for env strategy sc where
  initial: "reachable env strategy sc (sched_init strategy sc)"
| next_state: "reachable env strategy sc s \<Longrightarrow> sched_step env s s' \<Longrightarrow> reachable env strategy sc s'"

inductive_cases sched_stepE: "sched_step env s s'"

fun run_inputs :: "env \<Rightarrow> sched_input list \<Rightarrow> sched \<Rightarrow> sched option" where
  "run_inputs env [] s = Some s"
| "run_inputs env (i # is) s = (case swallow (perform env i s) of None \<Rightarrow> None | Some s' \<Rightarrow> run_inputs env is s')"

end
