(* ===== verification/SchedulerInvariant.thy ===== *)
theory SchedulerInvariant
  imports RouteInvariant Scheduler
begin

text \<open>
  The invariant of the whole scheduler: every message and every routine ends within its
  fuel, and the task controller's invariant holds after each of them, whether the handler
  returned or raised. Between two inputs no machine is locked and no task waits for the
  event of a removed worker.
\<close>

section \<open>The invariant between inputs\<close>

definition sched_inv :: "sched \<Rightarrow> bool" where
  "sched_inv s \<longleftrightarrow> tc_inv {} (core s) \<and> locked (core s) = {} \<and> dict_ok (graphs s) \<and> sorters_ok (graphs s)"

lemma running_graphs_le: "running_graphs gs \<le> length gs"
  by (simp add: running_graphs_def dict_count_def)

lemma sched_inv_nested: "sched_inv s \<Longrightarrow> nested {} (core s) (length (graphs s)) s"
  by (simp add: sched_inv_def nested_iff gok_def running_graphs_le)

lemma nested_sched_inv: "nested {} c0 k s \<Longrightarrow> locked c0 = {} \<Longrightarrow> sched_inv s"
  by (simp add: sched_inv_def nested_iff gok_def frame_def)

lemma sched_init_inv: "sched_inv (sched_init strategy sc)"
  using tci_init [of strategy sc] by (simp add: sched_inv_def sorters_ok_def) (simp add: sched_init_def)

lemma fuel_for_enough: "2 * length (graphs s) + 2 \<le> fuel_for s" "2 * length (graphs s) + 3 \<le> fuel_for s"
  by (simp_all add: fuel_for_def)

section \<open>Handlers\<close>

lemma keeps_returns:
  assumes "\<And>s. I s \<Longrightarrow> \<exists>s'. m s = Ret () s' \<and> I s'"
  shows "keeps I m"
proof (rule keepsI)
  fix s assume "I s"
  with assms obtain s' where "m s = Ret () s'" "I s'" by blast
  then show "sat (\<lambda>_. I) I (m s)" by simp
qed

lemma keeps_route:
  assumes "2 * k + 2 \<le> n" "event_ok {} ev"
  shows "keeps (nested {} c0 k) (route env n ev)"
proof (rule keepsI)
  fix s assume "nested {} c0 k s"
  then obtain s' where "route env n ev s = Ret () s'" "nested ({} - handled ev) c0 k s'"
    using route_ok [OF assms] by blast
  then show "sat (\<lambda>_. nested {} c0 k) (nested {} c0 k) (route env n ev s)" by simp
qed

lemma keeps_handlers:
  assumes "2 * k + 2 \<le> n"
  shows "keeps (nested {} c0 k) (on_task_balance_cancel env n t)"
    "keeps (nested {} c0 k) (on_task_cancel_confirm env n w cc)"
    "keeps (nested {} c0 k) (on_task_result env n w r)"
  unfolding on_task_balance_cancel_def on_task_cancel_confirm_def on_task_result_def
  by (rule keeps_route [OF assms], simp split: TaskCancelConfirmType.split)+

lemma keeps_worker_connect:
  assumes "2 * k + 2 \<le> n"
  shows "keeps (nested {} c0 k) (on_worker_connect env n)"
proof -
  obtain m where "n = Suc m" using assms by (cases n) auto
  then show ?thesis unfolding on_worker_connect_def nested_def by (simp only: keeps_retry)
qed

lemma keeps_task_new:
  assumes "2 * k + 2 \<le> n"
  shows "keeps (nested {} c0 k) (on_task_new env (route env n) task)"
proof -
  obtain m where "n = Suc m" using assms by (cases n) auto
  then show ?thesis unfolding nested_def by (simp only:) (rule keeps_on_task_new, simp)
qed

lemma keeps_on_graph_task_cancel:
  assumes "2 * k + 2 \<le> n"
  shows "keeps (nested {} c0 k) (on_graph_task_cancel env (on_task_cancel env n) tc)"
proof -
  have "keeps (nested {} c0 k) (cancel_whole_graph env (on_task_cancel env n) g)" for g
    unfolding nested_def
    by (rule keeps_cancel_whole_graph) (use assms on_task_cancel_ok [where W = "{}" and ?c0.0 = c0] in \<open>simp add: nested_def\<close>)
  then show ?thesis
    unfolding on_graph_task_cancel_def by (intro keeps_andthen keeps_gets keeps_option keeps_ret) (auto split: prod.split)
qed

text \<open>Removing a worker makes its tasks wait for their events; each event then settles one.\<close>

lemma tci_remove_worker:
  assumes inv: "tc_inv {} c" and lk: "locked c = {}" and p: "policy_inv p'"
    and ts: "set ts = {t. held c t = Some w}" and h: "policy_holder p' = (\<lambda>t. if held c t = Some w then None else held c t)"
  shows "tc_inv (set ts) (c\<lparr>policy := p'\<rparr>)" "frame c (c\<lparr>policy := p'\<rparr>)"
proof -
  let ?c = "c\<lparr>policy := p'\<rparr>"
  have lk': "locked ?c = {}" using lk by (simp add: locked_def)
  show "frame c ?c" using lk lk' by (simp add: frame_def)
  have running: "st \<noteq> TS_inactive" if "held c t = Some w" "task_state c t = Some st" for t st
  proof -
    have "t \<notin> locked c" using lk by simp
    then have "settled [] {} c t st" by (rule tciD(11) [OF inv that(2)])
    then show ?thesis using that(1) by (auto simp: settled_def)
  qed
  show "tc_inv (set ts) ?c"
  proof (rule tciI)
    fix t st assume st: "task_state ?c t = Some st" "t \<notin> locked ?c"
    have "settled [] {} c t st" by (rule tciD(11) [OF inv]) (use st lk in auto)
    then show "settled [] (set ts) ?c t st"
      using running [of t st] st(1) ts by (auto simp: settled_def h split: option.splits if_splits)
  next
    fix t assume "t \<in> set ts"
    then show "held ?c t = None \<and> task_state ?c t \<noteq> Some TS_inactive" using ts running [of t] by (auto simp: h)
  qed (use p tciD(2,3,5,6,7,10) [OF inv] lk' in \<open>auto simp: h split: if_splits\<close>)
qed

lemma disconnect_events:
  assumes n: "2 * k + 2 \<le> n" and "distinct ts" and "nested (set ts) c0 k s"
  shows "\<exists>s'. for_each ts (\<lambda>t. on_worker_disconnect env n t w) s = Ret () s' \<and> nested {} c0 k s'"
  using assms(2,3)
proof (induction ts arbitrary: s)
  case Nil
  then show ?case by simp
next
  case (Cons t ts)
  obtain s1 where s1: "route env n (WorkerDisconnected t w) s = Ret () s1" "nested (set (t # ts) - {t}) c0 k s1"
    using route_ok [OF n, of "set (t # ts)" "WorkerDisconnected t w" c0 s env] Cons.prems(2) by auto
  then have "nested (set ts) c0 k s1" using Cons.prems(1) by simp
  then show ?case using Cons.IH [of s1] Cons.prems(1) s1(1) by (simp add: on_worker_disconnect_def)
qed

lemma remove_worker_events:
  assumes n: "2 * k + 2 \<le> n" and lk: "locked c0 = {}" and s: "nested {} c0 k s"
  shows "\<exists>s'. andthen (with_policy (policy_remove_worker w)) (\<lambda>ts. for_each ts (\<lambda>t. on_worker_disconnect env n t w)) s
      = Ret () s' \<and> nested {} c0 k s'"
proof -
  have inv: "tc_inv {} (core s)" and fr: "frame c0 (core s)" and g: "gok k (graphs s)" and lk': "locked (core s) = {}"
    using s lk by (auto simp: nested_iff frame_def)
  obtain ts p' where p: "policy_remove_worker w (policy (core s)) = Ret ts p'" "policy_inv p'" "distinct ts"
      "set ts = {t. held (core s) t = Some w}"
      "policy_holder p' = (\<lambda>t. if held (core s) t = Some w then None else held (core s) t)"
    using al.remove_worker [OF tciD(1) [OF inv], of w] by blast
  note r = tci_remove_worker [OF inv lk' p(2,4,5)]
  let ?s1 = "s\<lparr>core := (core s)\<lparr>policy := p'\<rparr>\<rparr>"
  have "nested (set ts) c0 k ?s1" using r g frame_trans [OF fr r(2)] by (simp add: nested_iff)
  from disconnect_events [OF n p(3) this] show ?thesis
    using p(1) by (simp add: with_policy_def)
qed

text \<open>Steps that touch neither the core nor the graphs.\<close>

lemmas keeps_simple = keeps_modify keeps_send keeps_publish

lemma remove_worker_from_manager_view:
  "keeps (on_view J K) (remove_worker_from_manager w)"
  unfolding remove_worker_from_manager_def
  by (rule keeps_modify) (auto simp: Let_def split: option.split)

lemma remember_manager_view: "keeps (on_view J K) (remember_manager w m)"
  unfolding remember_manager_def by (rule keeps_modify) auto

lemma keeps_disconnect_worker:
  assumes n: "2 * k + 2 \<le> n" and lk: "locked c0 = {}"
  shows "keeps (nested {} c0 k) (disconnect_worker env n w)"
proof -
  have ev: "keeps (nested {} c0 k) (andthen (with_policy (policy_remove_worker w))
      (\<lambda>ts. for_each ts (\<lambda>t. on_worker_disconnect env n t w)))"
    by (rule keeps_returns [OF remove_worker_events [OF n lk]])
  have "keeps (nested {} c0 k) (seq (modify (\<lambda>s. s\<lparr>worker_alive := dict_pop w (worker_alive s)\<rparr>))
           (seq (remove_worker_from_manager w)
           (seq (publish (StateWorker w WS_disconnected []))
           (andthen (with_policy (policy_remove_worker w)) (\<lambda>ts.
              for_each ts (\<lambda>t. on_worker_disconnect env n t w))))))"
    using ev unfolding nested_def
    by (intro keeps_seq keeps_modify remove_worker_from_manager_view keeps_publish) auto
  then show ?thesis unfolding keeps_def disconnect_worker_def by simp
qed

lemma keeps_at: "(\<And>x. keeps I (f x)) \<Longrightarrow> keeps I (\<lambda>s. f (g s) s)"
  by (simp add: keeps_def)

lemma keeps_worker_heartbeat:
  assumes n: "2 * k + 2 \<le> n" and w: "worker_is_valid w"
  shows "keeps (nested {} c0 k) (worker_on_heartbeat env n now w info)"
proof -
  have add: "keeps (nested {} c0 k) (with_policy (policy_add_worker w cs q))" for cs q
  proof (rule keepsI)
    fix s assume s: "nested {} c0 k s"
    then have inv: "tc_inv {} (core s)" by (simp add: nested_iff)
    obtain b p' where p: "policy_add_worker w cs q (policy (core s)) = Ret b p'" "policy_inv p'" "policy_holder p' = held (core s)"
      using al.add_worker [OF tciD(1) [OF inv] w, of cs q] by blast
    note r = tci_same_policy [OF inv p(2,3)]
    have "frame c0 (core s)" using s by (simp add: nested_iff)
    from frame_trans [OF this r(2)]
    show "sat (\<lambda>_. nested {} c0 k) (nested {} c0 k) (with_policy (policy_add_worker w cs q) s)"
      using p(1) r(1) s by (simp add: with_policy_def nested_iff)
  qed
  have rest: "keeps (nested {} c0 k) (seq (if new then seq (publish m) (on_worker_connect env n) else ret ())
         (seq (remember_manager w i)
         (seq (modify (\<lambda>s. s\<lparr>worker_alive := dict_set w x (worker_alive s)\<rparr>)) (send w MsgWorkerHeartbeatEcho))))" for new m i x
    using keeps_worker_connect [OF n, where ?c0.0 = c0 and env = env] unfolding nested_def
    by (intro keeps_seq keeps_if keeps_ret keeps_publish keeps_send remember_manager_view keeps_modify) auto
  show ?thesis
    unfolding worker_on_heartbeat_def Let_def by (intro keeps_andthen add rest)
qed

lemma keeps_client_shutdown:
  assumes n: "2 * k + 2 \<le> n" and lk: "locked c0 = {}"
  shows "keeps (nested {} c0 k) (on_client_shutdown env n)"
proof -
  have "keeps (nested {} c0 k) (shutdown_worker env n w)" for w
    using keeps_disconnect_worker [OF n lk] unfolding shutdown_worker_def nested_def
    by (intro keeps_seq keeps_send) auto
  then have "keeps (nested {} c0 k) (for_each ws (shutdown_worker env n))" for ws by (intro keeps_for_each)
  then show ?thesis unfolding on_client_shutdown_def by (rule keeps_at)
qed

lemma keeps_clean_workers:
  assumes n: "2 * k + 2 \<le> n" and lk: "locked c0 = {}"
  shows "keeps (nested {} c0 k) (clean_workers env n now)"
proof -
  have "keeps (nested {} c0 k) (for_each ws (disconnect_worker env n))" for ws
    by (intro keeps_for_each keeps_disconnect_worker n lk)
  then show ?thesis unfolding clean_workers_def by (rule keeps_at)
qed

lemma clean_client_ends: "clean_client c st \<noteq> NoFuel"
proof -
  have "ot_remove_pairs ps tr \<noteq> NoFuel" for ps and tr :: "(ClientID, ObjectID, object_creation) object_tracker"
    by (rule ot_remove_pairs_ends)
  then have "ot_remove_blocks [c] tr \<noteq> NoFuel" for tr :: "(ClientID, ObjectID, object_creation) object_tracker"
    by (auto simp: ot_remove_one_block_for_objects_def andthen_run split: sum.splits outcome.splits)
  then show ?thesis unfolding clean_client_def with_tracker_def
    by (auto split: outcome.splits simp del: ot_remove_blocks.simps)
qed

lemma keeps_client_disconnect:
  assumes n: "2 * k + 3 \<le> n"
  shows "keeps (nested {} c0 k) (client_disconnect env n c)"
proof -
  have "keeps (nested {} c0 k) (on_task_cancel env n c tc)" for tc by (rule on_task_cancel_ok [OF n])
  then have each: "keeps (nested {} c0 k) (for_each ts (\<lambda>t. on_task_cancel env n c \<lparr>cancel_taskId = t, cancel_force = False\<rparr>))" for ts
    by (intro keeps_for_each)
  have cancel: "keeps (nested {} c0 k) (cancel_client_all_tasks env n c)"
    using each unfolding keeps_def cancel_client_all_tasks_def by simp
  show ?thesis
    using cancel unfolding client_disconnect_def nested_def
    by (intro keeps_seq keeps_modify keeps_with_objects clean_client_ends) auto
qed

lemma keeps_on_client_disconnect:
  assumes n: "2 * k + 3 \<le> n" and lk: "locked c0 = {}"
  shows "keeps (nested {} c0 k) (on_client_disconnect env n c ty)"
proof -
  have n': "2 * k + 2 \<le> n" using n by simp
  show ?thesis
    using keeps_client_disconnect [OF n, where ?c0.0 = c0 and env = env and c = c]
      keeps_client_shutdown [OF n' lk, where env = env]
    unfolding on_client_disconnect_def nested_def
    by (intro keeps_if keeps_seq keeps_send keeps_ret keeps_raise) auto
qed

lemma keeps_cleanup_clients:
  assumes n: "2 * k + 3 \<le> n"
  shows "keeps (nested {} c0 k) (cleanup_clients env n now)"
proof -
  have "keeps (nested {} c0 k) (for_each cs (client_disconnect env n))" for cs
    by (intro keeps_for_each keeps_client_disconnect n)
  then show ?thesis unfolding cleanup_clients_def by (rule keeps_at)
qed

lemma keeps_balance_routine:
  assumes n: "2 * k + 2 \<le> n"
  shows "keeps (nested {} c0 k) (balance_routine env n)"
proof -
  have sb: "keeps (nested {} c0 k) (should_balance env advice)" for advice
    by (auto simp: keeps_def should_balance_def nested_iff Let_def)
  have pub: "keeps (nested {} c0 k) (for_each advice (\<lambda>(w, ts). publish (StateBalanceAdvice w ts)))" for advice
    unfolding nested_def by (intro keeps_for_each) (auto intro: keeps_publish)
  have cancel: "keeps (nested {} c0 k) (for_each advice (\<lambda>(w, ts). for_each ts (on_task_balance_cancel env n)))" for advice
    by (intro keeps_for_each) (auto intro!: keeps_for_each keeps_handlers n)
  have set: "keeps (nested {} c0 k) (modify (\<lambda>s. s\<lparr>last_advice := advice\<rparr>))" for advice
    unfolding nested_def by (rule keeps_modify) simp
  show ?thesis
    unfolding balance_routine_def
    by (intro keeps_andthen keeps_gets keeps_lift_sum sb keeps_if keeps_ret keeps_seq pub set cancel)
qed

lemma keeps_on_object_instruction: "keeps (nested {} c0 k) (on_object_instruction env instr)"
  unfolding on_object_instruction_def nested_def
  by (cases instr) (auto intro!: keeps_andthen keeps_gets keeps_if keeps_Ret keeps_ret keeps_for_each keeps_objects)

lemma keeps_object_routine: "keeps (nested {} c0 k) (object_routine env)"
proof -
  have "keeps (nested {} c0 k) (seq (modify (\<lambda>s. s\<lparr>objects := (objects s)\<lparr>os_deleted := []\<rparr>\<rparr>))
      (seq (for_each ws (\<lambda>w. send w m)) (for_each oids (\<lambda>oid. modify (\<lambda>s. s\<lparr>store := dict_pop oid (store s)\<rparr>)))))" for ws m oids
    unfolding nested_def by (intro keeps_seq keeps_for_each keeps_send keeps_modify) auto
  then show ?thesis unfolding keeps_def object_routine_def Let_def by simp
qed

lemma keeps_manager_heartbeat: "keeps (nested {} c0 k) (manager_on_heartbeat now source hb)"
proof -
  have ask: "keeps (nested {} c0 k) (ask_scaling hb')" for hb'
    by (auto simp: keeps_def ask_scaling_def nested_iff split: prod.split)
  have rest: "keeps (nested {} c0 k) (seq (if new then modify (\<lambda>s. s\<lparr>manager_id_to_source := dict_set m source (manager_id_to_source s)\<rparr>) else ret ())
              (seq (modify (\<lambda>s. s\<lparr>manager_alive := dict_set source x (manager_alive s)\<rparr>))
              (seq (send source MsgWorkerManagerHeartbeatEcho)
              (andthen (ask_scaling hb') (\<lambda>commands.
               seq (for_each commands (\<lambda>c. send source (MsgWorkerManagerCommand c)))
                   (modify (\<lambda>s. s\<lparr>last_desired_total := dict_set source
                      (sum_desired_for_manager commands y) (last_desired_total s)\<rparr>)))))))" for new m x hb' y
    using ask unfolding nested_def
    by (intro keeps_seq keeps_if keeps_ret keeps_andthen keeps_for_each keeps_send) (auto intro: keeps_modify)
  show ?thesis
    using rest unfolding keeps_def manager_on_heartbeat_def Let_def by simp
qed

lemma keeps_clean_managers: "keeps (nested {} c0 k) (clean_managers now)"
proof -
  have "keeps (nested {} c0 k) (disconnect_manager source)" for source
    unfolding disconnect_manager_def nested_def by (rule keeps_modify) (auto split: option.split)
  then have "keeps (nested {} c0 k) (for_each ms disconnect_manager)" for ms by (intro keeps_for_each)
  then show ?thesis unfolding clean_managers_def by (rule keeps_at)
qed

section \<open>New graphs\<close>

lemma keeps_register_subtasks: "keeps (on_view J K) (register_subtasks env gt ts acc)"
proof (induction ts arbitrary: acc)
  case Nil
  then show ?case by (simp add: keeps_ret keeps_Ret)
next
  case (Cons task ts)
  obtain infos dep graph where "acc = (infos, dep, graph)" by (cases acc)
  then show ?case using Cons
    by (simp only: register_subtasks.simps Let_def) (intro keeps_seq keeps_modify keeps_publish, auto)
qed

lemma new_sorter_inv:
  assumes "so_merge_graph graph so_empty = Inr so" "so_prepare so = Ret () so'"
  shows "so_inv so'"
proof -
  have wf: "so_wf so" by (rule so_merge_wf [OF so_wf_empty assms(1)])
  have "so_ready so = None" "so_n_done so = 0" "so_n_visited so = 0"
    using assms(1) by (auto simp: so_merge_graph_def so_empty_def)
  from so_prepare_spec [OF wf this] show ?thesis using assms(2) by (auto split: if_splits)
qed

lemma so_prepare_ends: "so_prepare so \<noteq> NoFuel"
  by (simp add: so_prepare_def Let_def)

lemma gok_add:
  assumes "gok k gs" "so_inv (g_sorter info)"
  shows "gok (Suc k) (dict_set g info gs)"
proof (cases "dict_get gs g")
  case None
  then have "running_graphs (dict_set g info gs) \<le> Suc (running_graphs gs)"
    by (simp add: running_graphs_def dict_count_new dict_has_iff)
  then show ?thesis using assms by (auto simp: gok_def sorters_ok_def)
next
  case (Some old)
  then have "running_graphs (dict_set g info gs) \<le> Suc (running_graphs gs)"
    using running_graphs_set [of gs g old info] assms(1) by (auto simp: gok_def split: if_splits)
  then show ?thesis using assms by (auto simp: gok_def sorters_ok_def)
qed

lemma sat_nested_Suc:
  "sat (\<lambda>_. nested {} c0 k) (nested {} c0 k) r \<Longrightarrow> sat (\<lambda>_. nested {} c0 (Suc k)) (nested {} c0 (Suc k)) r"
  by (erule sat_mono) (auto intro: nested_mono)

lemma add_new_graph_ok:
  assumes s: "nested {} c0 k s"
  shows "sat (\<lambda>_. nested {} c0 (Suc k)) (nested {} c0 (Suc k)) (add_new_graph env (route env (Suc n)) c gt s)"
proof -
  let ?g = "graph_taskId gt" and ?I = "\<lambda>k. nested {} c0 k"
  have last_part: "sat (\<lambda>_. ?I (Suc k)) (?I (Suc k))
      (seq (modify (\<lambda>s. s\<lparr>graphs := dict_set ?g info (graphs s)\<rparr>)) (check_one_graph env (route env (Suc n)) ?g) s1)"
    if "?I k s1" "so_inv (g_sorter info)" for s1 info
    using keepsD [OF keeps_check_one_graph, of c0 "Suc k" "s1\<lparr>graphs := dict_set ?g info (graphs s1)\<rparr>" env n ?g]
      that gok_add [of k "graphs s1" info ?g] by (simp add: nested_iff)
  let ?rest = "\<lambda>(infos, dep, graph).
            case so_merge_graph graph so_empty of
              Inl e \<Rightarrow> raise e
            | Inr so \<Rightarrow>
                (case so_prepare so of
                   Ret _ so' \<Rightarrow>
                     seq (modify (\<lambda>s. s\<lparr>graphs := dict_set ?g
                            \<lparr>g_targets = graph_targets gt, g_sorter = so', g_tasks = infos, g_depended = dep,
                             g_client = c, g_status = GraphRunning, g_running = []\<rparr> (graphs s)\<rparr>))
                         (check_one_graph env (route env (Suc n)) ?g)
                 | Raise e _ \<Rightarrow> raise e
                 | NoFuel \<Rightarrow> (\<lambda>s. NoFuel))"
  have rest: "sat (\<lambda>_. ?I (Suc k)) (?I (Suc k)) (?rest build s1)" if s1: "?I k s1" for build s1
  proof -
    obtain infos dep graph where b: "build = (infos, dep, graph)" by (cases build)
    show ?thesis
    proof (cases "so_merge_graph graph so_empty")
      case (Inl e)
      then show ?thesis using s1 by (simp add: b nested_mono)
    next
      case (Inr so)
      show ?thesis
      proof (cases "so_prepare so")
        case (Ret u so')
        then show ?thesis using last_part [OF s1] new_sorter_inv [OF Inr, of so'] Inr by (simp add: b del: route.simps)
      next
        case (Raise e so')
        then show ?thesis using s1 Inr by (simp add: b nested_mono)
      next
        case NoFuel
        then show ?thesis using so_prepare_ends by blast
      qed
    qed
  qed
  have reg: "sat (\<lambda>_. ?I k) (?I (Suc k)) (register_subtasks env gt ts acc s1)" if "?I k s1" for ts acc s1
    using keepsD [OF keeps_register_subtasks that [unfolded nested_def]] unfolding nested_def
    by (rule sat_mono) (auto intro: on_view_mono)
  have begin_graph: "sat (\<lambda>_. ?I k) (?I (Suc k)) (on_task_begin c ?g s)"
    using keepsD [OF keeps_on_task_begin s [unfolded nested_def]] unfolding nested_def
    by (rule sat_mono) (auto intro: on_view_mono)
  show ?thesis
    unfolding add_new_graph_def Let_def
  proof (rule sat_seq, rule begin_graph)
    fix s1 assume "?I k s1"
    then have s2: "?I k (s1\<lparr>graph_of := dict_set ?g ?g (graph_of s1)\<rparr>)" by (simp add: nested_iff)
    show "sat (\<lambda>_. ?I (Suc k)) (?I (Suc k)) (seq (modify (\<lambda>s. s\<lparr>graph_of := dict_set ?g ?g (graph_of s)\<rparr>))
        (andthen (register_subtasks env gt (graph_tasks gt) ([], mtm_empty, [])) ?rest) s1)"
      by (rule sat_seq [where R = "\<lambda>_. ?I k"], rule sat_modify, rule s2, rule sat_andthen, rule reg, assumption)
        (rule rest)
  qed
qed

section \<open>Every input\<close>

lemma receive_ok:
  assumes n: "2 * k + 3 \<le> n" and lk: "locked c0 = {}" and ok: "input_ok (Receive now source msg)"
  shows "keeps (nested {} c0 k) (on_receive_message env n now source msg)"
proof -
  have n': "2 * k + 2 \<le> n" using n by simp
  have notice: "keeps (nested {} c0 k) (if is_client_source source then notice_client_activity now source else ret ())"
    unfolding notice_client_activity_def nested_def by (intro keeps_if keeps_ret keeps_modify) auto
  note h = keeps_on_client_disconnect [OF n lk] keeps_task_new [OF n'] keeps_on_graph_task_cancel [OF n']
    on_task_cancel_ok [OF n] keeps_handlers [OF n'] keeps_disconnect_worker [OF n' lk] keeps_on_object_instruction
    keeps_manager_heartbeat
  have heartbeat: "keeps (nested {} c0 k) (client_on_heartbeat now source)"
    unfolding client_on_heartbeat_def nested_def by (intro keeps_seq keeps_send keeps_modify) auto
  have graph: "keeps (nested {} c0 k) (on_graph_task source gt)" for gt
    unfolding on_graph_task_def nested_def by (intro keeps_modify) auto
  have log: "keeps (nested {} c0 k) (andthen (gets f) (\<lambda>client. case client of None \<Rightarrow> ret () | Some c \<Rightarrow> send c m))"
    for f :: "sched \<Rightarrow> ClientID option" and m
    unfolding nested_def by (intro keeps_andthen keeps_gets keeps_option keeps_ret keeps_send)
  have cancel: "keeps (nested {} c0 k) (andthen (gets f) (\<lambda>sub.
      if sub then on_graph_task_cancel env (on_task_cancel env n) tc else on_task_cancel env n source tc))" for f tc
    by (intro keeps_andthen keeps_gets keeps_if h)
  have worker: "keeps (nested {} c0 k) (worker_on_heartbeat env n now source info)" if "msg = InWorkerHeartbeat info" for info
    using keeps_worker_heartbeat [OF n'] ok that by simp
  show ?thesis
    unfolding on_receive_message_def
    by (rule keeps_seq [OF notice], cases msg)
      (simp_all add: heartbeat graph log cancel worker h on_disconnect_notification_def keeps_ret keeps_Ret
        del: route.simps on_task_cancel.simps)
qed

lemma perform_ok:
  assumes inv: "sched_inv s" and ok: "input_ok i"
  shows "sat (\<lambda>_. sched_inv) sched_inv (perform env i s)"
proof -
  let ?k = "length (graphs s)" and ?n = "fuel_for s"
  have s: "nested {} (core s) ?k s" by (rule sched_inv_nested [OF inv])
  have lk: "locked (core s) = {}" using inv by (simp add: sched_inv_def)
  have n: "2 * ?k + 2 \<le> ?n" "2 * ?k + 3 \<le> ?n" by (rule fuel_for_enough)+
  obtain m where m: "?n = Suc m" by (simp add: fuel_for_def)
  have out: "sat (\<lambda>_. sched_inv) sched_inv r" if "sat (\<lambda>_. nested {} (core s) k) (nested {} (core s) k) r" for r :: "(unit, sched) outcome" and k
    using that by (rule sat_mono) (rule nested_sched_inv, assumption, rule lk)+
  show ?thesis
  proof (cases i)
    case (Receive now source msg)
    have "keeps (nested {} (core s) ?k) (on_receive_message env ?n now source msg)"
      by (rule receive_ok [OF n(2) lk]) (use ok Receive in simp)
    from out [OF keepsD [OF this s]] show ?thesis by (simp add: perform_def Receive)
  next
    case GraphRoutine
    show ?thesis
    proof (cases "graph_queue s")
      case Nil
      then show ?thesis using inv by (simp add: perform_def GraphRoutine graph_routine_def)
    next
      case (Cons q rest)
      obtain c gt where q: "q = (c, gt)" by (cases q)
      have "nested {} (core s) ?k (s\<lparr>graph_queue := rest\<rparr>)" using s by (simp add: nested_iff)
      from out [OF add_new_graph_ok [OF this, of env m c gt]] show ?thesis
        by (simp add: perform_def GraphRoutine graph_routine_def Cons q m del: route.simps)
    qed
  next
    case BalanceRoutine
    show ?thesis using out [OF keepsD [OF keeps_balance_routine [OF n(1)] s]] by (simp add: perform_def BalanceRoutine)
  next
    case (ClientRoutine now)
    show ?thesis using out [OF keepsD [OF keeps_cleanup_clients [OF n(2)] s]] by (simp add: perform_def ClientRoutine)
  next
    case ObjectRoutine
    show ?thesis using out [OF keepsD [OF keeps_object_routine s]] by (simp add: perform_def ObjectRoutine)
  next
    case (WorkerRoutine now)
    show ?thesis using out [OF keepsD [OF keeps_clean_workers [OF n(1) lk] s]] by (simp add: perform_def WorkerRoutine)
  next
    case (ManagerRoutine now)
    show ?thesis using out [OF keepsD [OF keeps_clean_managers s]] by (simp add: perform_def ManagerRoutine)
  qed
qed

lemma step_inv: "sched_step env s s' \<Longrightarrow> sched_inv s \<Longrightarrow> sched_inv s'"
proof (elim sched_stepE)
  fix i assume "sched_inv s" "input_ok i" "swallow (perform env i s) = Some s'"
  then show "sched_inv s'"
    using perform_ok [of s i env] by (cases "perform env i s") (auto split: if_splits)
qed

lemma reachable_inv: "reachable env strategy sc s \<Longrightarrow> sched_inv s"
  by (induction rule: reachable.induct) (auto intro: sched_init_inv step_inv)

lemma reachable_run:
  "run_inputs env is (sched_init strategy sc) = Some s \<Longrightarrow> list_all input_ok is \<Longrightarrow> reachable env strategy sc s"
proof -
  have "reachable env strategy sc s0 \<Longrightarrow> reachable env strategy sc s"
    if "run_inputs env is s0 = Some s" "list_all input_ok is" for s0
    using that
  proof (induction "is" arbitrary: s0)
    case Nil
    then show ?case by simp
  next
    case (Cons i "is")
    then obtain s1 where s1: "swallow (perform env i s0) = Some s1" "run_inputs env is s1 = Some s"
      by (auto split: option.splits)
    have "reachable env strategy sc s1"
      using Cons.prems s1(1) by (auto intro: reachable.next_state sched_step.step)
    then show ?case using Cons.IH [OF _ s1(2)] Cons.prems(3) by simp
  qed
  then show "run_inputs env is (sched_init strategy sc) = Some s \<Longrightarrow> list_all input_ok is \<Longrightarrow> reachable env strategy sc s"
    using reachable.initial by blast
qed

end
