(* ===== verification/Ledger.thy ===== *)
theory Ledger
  imports SchedulerInvariant "HOL-Library.Sublist"
begin

text \<open>
  What the scheduler owes its clients: the two indexes between clients and tasks and the
  object tracker stay consistent through every handler, and a message, once sent, stays
  sent. \<open>stays I m\<close> says that \<open>m\<close> leaves \<open>I\<close> true however it ends; unlike \<open>keeps\<close> it asks for
  nothing when the nesting bound runs out, so that it holds for every bound.
\<close>

named_theorems stays_intros "rules for computations that leave a predicate true"

fun ends_in :: "('s \<Rightarrow> bool) \<Rightarrow> ('a, 's) outcome \<Rightarrow> bool" where
  "ends_in I (Ret a s) = I s"
| "ends_in I (Raise e s) = I s"
| "ends_in I NoFuel = True"

definition stays :: "('s \<Rightarrow> bool) \<Rightarrow> ('a, 's) comp \<Rightarrow> bool" where
  "stays I m \<longleftrightarrow> (\<forall>s. I s \<longrightarrow> ends_in I (m s))"

lemma staysI: "(\<And>s. I s \<Longrightarrow> ends_in I (m s)) \<Longrightarrow> stays I m"
  by (simp add: stays_def)

lemma staysD: "stays I m \<Longrightarrow> I s \<Longrightarrow> ends_in I (m s)"
  by (simp add: stays_def)

lemma stays_simple [stays_intros]:
  "stays I (ret a)" "stays I (Ret a)" "stays I (raise e)" "stays I (gets f)" "stays I (lookup g k)" "stays I (\<lambda>s. NoFuel)"
  by (auto simp: stays_def lookup_def split: option.splits)

lemma stays_lift_sum [stays_intros]: "stays I (lift_sum r)"
  by (auto simp: stays_def lift_sum_def split: sum.split)

lemma stays_andthen [stays_intros]:
  assumes "stays I m" "\<And>a. stays I (f a)"
  shows "stays I (andthen m f)"
proof (rule staysI)
  fix s assume "I s"
  then have "ends_in I (m s)" by (rule staysD [OF assms(1)])
  then show "ends_in I (andthen m f s)" using staysD [OF assms(2)] by (cases "m s") (simp_all add: andthen_run)
qed

lemma stays_seq [stays_intros]:
  assumes "stays I m" "stays I n"
  shows "stays I (seq m n)"
proof (rule staysI)
  fix s assume "I s"
  then have "ends_in I (m s)" by (rule staysD [OF assms(1)])
  then show "ends_in I (seq m n s)" using staysD [OF assms(2)] by (cases "m s") (simp_all add: seq_run)
qed

lemma stays_try [stays_intros]:
  assumes "stays I m" "stays I h"
  shows "stays I (try_except m h)"
proof (rule staysI)
  fix s assume "I s"
  then have "ends_in I (m s)" by (rule staysD [OF assms(1)])
  then show "ends_in I (try_except m h s)" using staysD [OF assms(2)] by (cases "m s") (simp_all add: try_except_run)
qed

lemma stays_if [stays_intros]: "stays I m \<Longrightarrow> stays I n \<Longrightarrow> stays I (if b then m else n)"
  by simp

lemma stays_option [stays_intros]: "stays I m \<Longrightarrow> (\<And>a. stays I (f a)) \<Longrightarrow> stays I (case x of None \<Rightarrow> m | Some a \<Rightarrow> f a)"
  by (simp split: option.split)

lemma stays_prod [stays_intros]: "(\<And>a b. stays I (f a b)) \<Longrightarrow> stays I (case x of (a, b) \<Rightarrow> f a b)"
  by (simp split: prod.split)

lemma stays_for_each [stays_intros]: "(\<And>x. stays I (f x)) \<Longrightarrow> stays I (for_each xs f)"
  by (induction xs) (simp_all add: stays_simple stays_seq)

lemma stays_gather [stays_intros]:
  assumes "\<And>m. m \<in> set ms \<Longrightarrow> stays I m"
  shows "stays I (gather ms)"
  using assms
proof (induction ms)
  case (Cons m ms)
  have m: "stays I m" and rest: "stays I (gather ms)" using Cons by auto
  show ?case
  proof (rule staysI)
    fix s assume "I s"
    then have a: "ends_in I (m s)" by (rule staysD [OF m])
    show "ends_in I (gather (m # ms) s)"
    proof (cases "m s")
      case (Ret a s1)
      then show ?thesis using a staysD [OF rest, of s1] by simp
    next
      case (Raise e s1)
      then have "ends_in I (gather ms s1)" using a staysD [OF rest, of s1] by simp
      then show ?thesis using Raise by (cases "gather ms s1") simp_all
    qed simp
  qed
qed (simp add: stays_simple)

lemma stays_state: "(\<And>s0. stays I (f s0)) \<Longrightarrow> stays I (\<lambda>s. f s s)"
  by (simp add: stays_def)

section \<open>The ledger\<close>

definition ledger :: "(bytes \<times> message) list \<Rightarrow> sched \<Rightarrow> bool" where
  "ledger ms s \<longleftrightarrow> otm_inv (clients s) \<and> ot_inv (os_tracker (objects s)) \<and> prefix ms (sent s)"

lemma stays_modify:
  "(\<And>s. clients (f s) = clients s \<and> objects (f s) = objects s \<and> sent (f s) = sent s) \<Longrightarrow> stays (ledger ms) (modify f)"
  by (simp add: stays_def ledger_def)

lemma stays_send [stays_intros]: "stays (ledger ms) (send to m)"
  by (simp add: stays_def ledger_def send_def)

lemma stays_publish [stays_intros]: "stays (ledger ms) (publish m)"
  unfolding publish_def by (rule stays_modify) simp

lemma stays_upd_core [stays_intros]: "stays (ledger ms) (upd_core f)" "stays (ledger ms) (with_mgr g)"
  unfolding with_mgr_def upd_core_def by (rule stays_modify; simp)+

lemma stays_with_policy [stays_intros]: "stays (ledger ms) (with_policy m)"
  by (simp add: stays_def with_policy_def ledger_def split: outcome.split)

lemma stays_on_task_begin [stays_intros]: "stays (ledger ms) (on_task_begin c t)"
  using otm_add_spec(1) by (fastforce simp: stays_def on_task_begin_def ledger_def split: sum.split)

lemma stays_on_task_finish [stays_intros]: "stays (ledger ms) (on_task_finish t)"
proof (rule staysI)
  fix s assume l: "ledger ms s"
  then have inv: "otm_inv (clients s)" by (simp add: ledger_def)
  show "ends_in (ledger ms) (on_task_finish t s)"
  proof (cases "otm_owner (clients s) t")
    case None
    then show ?thesis using l by (simp add: on_task_finish_def otm_has_value_iff)
  next
    case (Some c)
    then show ?thesis using l otm_remove_value_spec [OF inv Some]
      by (auto simp: on_task_finish_def otm_has_value_iff ledger_def split: prod.split sum.split)
  qed
qed

lemma with_tracker_ok:
  assumes "ot_inv (os_tracker st)" "\<And>tr. ot_inv tr \<Longrightarrow> \<exists>vs tr'. m tr = Ret vs tr' \<and> ot_inv tr'"
  shows "\<exists>st'. with_tracker m st = Ret () st' \<and> ot_inv (os_tracker st')"
  using assms(2) [OF assms(1)] by (auto simp: with_tracker_def)

lemma on_add_object_ok:
  assumes "ot_inv (os_tracker st)"
  shows "\<exists>st'. on_add_object c oid ty name st = Ret () st' \<and> ot_inv (os_tracker st')"
  unfolding on_add_object_def Let_def
proof (rule with_tracker_ok [OF assms])
  fix tr :: "(ClientID, ObjectID, object_creation) object_tracker"
  let ?v = "\<lparr>oc_id = oid, oc_creator = c, oc_type = ty, oc_name = name\<rparr>"
  assume "ot_inv tr"
  then obtain tr' where "ot_add_blocks_for_one_object oid [c] (ot_add_object oid ?v tr) = Ret () tr'" "ot_inv tr'"
    using ot_add_blocked [of tr oid c "[]" ?v] by blast
  then show "\<exists>vs tr'. seq (ot_add_blocks_for_one_object oid [c]) (ret []) (ot_add_object oid ?v tr) = Ret vs tr' \<and> ot_inv tr'"
    by simp
qed

lemma remove_one_ok: "ot_inv tr \<Longrightarrow> \<exists>vs tr'. ot_remove_one_block_for_objects ks b tr = Ret vs tr' \<and> ot_inv tr'"
  using ot_remove_pairs_spec [of tr "map (\<lambda>k. (k, b)) ks"]
  by (auto simp: ot_remove_one_block_for_objects_def removal_def)

lemma on_del_objects_ok: "ot_inv (os_tracker st) \<Longrightarrow> \<exists>st'. on_del_objects c oids st = Ret () st' \<and> ot_inv (os_tracker st')"
proof (induction oids arbitrary: st)
  case (Cons oid oids)
  obtain st1 where st1: "with_tracker (ot_remove_one_block_for_objects [oid] c) st = Ret () st1" "ot_inv (os_tracker st1)"
    using with_tracker_ok [where m = "ot_remove_one_block_for_objects [oid] c", OF Cons.prems remove_one_ok] by blast
  from Cons.IH [OF st1(2)] obtain st2 where "on_del_objects c oids st1 = Ret () st2" "ot_inv (os_tracker st2)" by blast
  then show ?case using st1(1) by (simp add: on_del_objects_def)
qed (simp add: on_del_objects_def)

lemma clean_client_ok:
  assumes "ot_inv (os_tracker st)"
  shows "\<exists>st'. clean_client c st = Ret () st' \<and> ot_inv (os_tracker st')"
  unfolding clean_client_def
proof (rule with_tracker_ok [OF assms])
  fix tr :: "(ClientID, ObjectID, object_creation) object_tracker"
  assume "ot_inv tr"
  then obtain vs tr' where "ot_remove_blocks [c] tr = Ret vs tr'" "removal tr vs tr'"
    using ot_remove_blocks_spec [of tr "[c]"] by blast
  then show "\<exists>vs tr'. ot_remove_blocks [c] tr = Ret vs tr' \<and> ot_inv tr'" by (auto simp: removal_def)
qed

lemma stays_with_objects:
  assumes "\<And>st. ot_inv (os_tracker st) \<Longrightarrow> \<exists>st'. m st = Ret () st' \<and> ot_inv (os_tracker st')"
  shows "stays (ledger ms) (with_objects m)"
proof (rule staysI)
  fix s assume l: "ledger ms s"
  then obtain st' where "m (objects s) = Ret () st'" "ot_inv (os_tracker st')" using assms by (auto simp: ledger_def)
  then show "ends_in (ledger ms) (with_objects m s)"
    using l by (simp add: with_objects_def ledger_def)
qed

lemmas stays_objects [stays_intros] =
  stays_with_objects [OF on_add_object_ok] stays_with_objects [OF on_del_objects_ok] stays_with_objects [OF clean_client_ok]

lemma stays_storage [stays_intros]:
  "stays (ledger ms) (fresh_object_id env c)" "stays (ledger ms) (set_object env oid p)"
  "stays (ledger ms) (duplicate_object_id env oid new)"
  by (auto simp: stays_def fresh_object_id_def set_object_def duplicate_object_id_def ledger_def Let_def split: sum.split option.split)

section \<open>Every handler\<close>

lemma stays_upd_graph [stays_intros]: "stays (ledger ms) (upd_graph g f)"
  unfolding upd_graph_def by (rule stays_modify) simp

lemma stays_with_sorter [stays_intros]: "stays (ledger ms) (with_sorter g m)"
  by (auto simp: stays_def with_sorter_def ledger_def split: outcome.split option.split)

lemma stays_get_graph [stays_intros]: "stays (ledger ms) (get_graph g)"
  unfolding get_graph_def by (rule stays_intros)

lemma stays_is_graph_finished [stays_intros]: "stays (ledger ms) (is_graph_finished g)"
proof (rule staysI)
  fix s assume l: "ledger ms s"
  have "stays (ledger ms) (andthen (with_sorter g so_is_active) (\<lambda>active. ret (\<not> active \<and> b)))" for b
    by (intro stays_intros)
  from staysD [OF this l] l show "ends_in (ledger ms) (is_graph_finished g s)"
    by (simp add: is_graph_finished_def split: option.split)
qed

lemma stays_monitor [stays_intros]: "stays (ledger ms) (send_monitor t st name md)" "stays (ledger ms) (object_name oid)"
    "stays (ledger ms) (get_worker_by_task_id t)"
  unfolding send_monitor_def object_name_def get_worker_by_task_id_def by (intro stays_intros)+

lemma stays_acquire_worker [stays_intros]: "stays (ledger ms) (acquire_worker env task)"
  unfolding acquire_worker_def by (rule stays_state) (rule stays_intros)

lemma stays_acquire_loop [stays_intros]: "stays (ledger ms) (acquire_loop env ts)"
  by (induction ts) (simp_all, (intro stays_intros | assumption)+)

lemma stays_acquire_workers [stays_intros]: "stays (ledger ms) (acquire_workers env)"
  unfolding acquire_workers_def by (rule stays_state) (rule stays_intros)

lemma stays_dispatch [stays_intros]:
  "stays (ledger ms) (send_task_to_worker w t)" "stays (ledger ms) (acquire_and_dispatch env t)"
  "stays (ledger ms) (on_task_done t)"
  unfolding send_task_to_worker_def acquire_and_dispatch_def on_task_done_def by (intro stays_intros)+

lemma stays_retry [stays_intros]: "(\<And>ev. stays (ledger ms) (R ev)) \<Longrightarrow> stays (ledger ms) (retry_unassignable env R)"
  unfolding retry_unassignable_def by (intro stays_intros) auto

lemma stays_add_machine [stays_intros]: "stays (ledger ms) (add_machine t)"
  by (auto simp: stays_def add_machine_def ledger_def split: sum.split)

lemma stays_on_task_new [stays_intros]: "(\<And>ev. stays (ledger ms) (R ev)) \<Longrightarrow> stays (ledger ms) (on_task_new env R task)"
  unfolding on_task_new_def Let_def by (intro stays_intros)

lemma stays_pop_graph [stays_intros]: "stays (ledger ms) (pop_graph g)"
  unfolding pop_graph_def by (intro stays_intros stays_modify) simp_all

lemma stays_umbrella [stays_intros]:
  "stays (ledger ms) (cancel_graph_umbrella_task g)" "stays (ledger ms) (done_graph_umbrella_task g ty)"
  unfolding cancel_graph_umbrella_task_def done_graph_umbrella_task_def by (intro stays_intros)+

lemma stays_mark_node_canceled [stays_intros]: "stays (ledger ms) (mark_node_canceled g confirm)"
  unfolding mark_node_canceled_def Let_def by (intro stays_intros)

lemma stays_clean_dependency [stays_intros]: "stays (ledger ms) (clean_dependency g t d)"
proof (rule staysI)
  fix s assume l: "ledger ms s"
  have del: "ends_in (ledger ms) (with_objects (on_del_objects c oids) s')" if "ledger ms s'" for c oids s'
    by (rule staysD [OF stays_objects(2) that])
  have upd: "ledger ms (s\<lparr>graphs := gs\<rparr>)" for gs using l by (simp add: ledger_def)
  show "ends_in (ledger ms) (clean_dependency g t d s)"
    using l by (auto simp: clean_dependency_def Let_def upd intro!: del split: option.split prod.split sum.split)
qed

lemma stays_mark_node_done [stays_intros]: "stays (ledger ms) (mark_node_done result)"
  unfolding mark_node_done_def clean_intermediate_result_def Let_def by (intro stays_intros stays_modify) simp_all

lemma stays_arguments [stays_intros]: "stays (ledger ms) (get_argument_object g a)" "stays (ledger ms) (argument_objects g as)"
proof -
  show one: "stays (ledger ms) (get_argument_object g a)" for a
    unfolding get_argument_object_def
    by (cases a) (auto intro!: stays_intros split: list.split)
  show "stays (ledger ms) (argument_objects g as)"
    by (induction as) (simp_all, (intro stays_intros one | assumption)+)
qed

lemma stays_start_subtask [stays_intros]:
  "(\<And>ev. stays (ledger ms) (R ev)) \<Longrightarrow> stays (ledger ms) (start_subtask env R g info t)"
  unfolding start_subtask_def by (intro stays_intros)

lemma stays_check_one_graph [stays_intros]:
  "(\<And>ev. stays (ledger ms) (R ev)) \<Longrightarrow> stays (ledger ms) (check_one_graph env R g)"
  unfolding check_one_graph_def by (intro stays_intros)

lemma stays_cancel_drain [stays_intros]: "stays (ledger ms) (cancel_drain n g)"
  by (induction n) (simp_all, (intro stays_intros | assumption)+)

lemma stays_cancel_rest [stays_intros]: "stays (ledger ms) (cancel_rest g)"
  using staysD [OF stays_cancel_drain] by (auto simp: cancel_rest_def intro: staysI)

lemma stays_cancel_whole_graph [stays_intros]:
  "(\<And>c tc. stays (ledger ms) (C c tc)) \<Longrightarrow> stays (ledger ms) (cancel_whole_graph env C g)"
  unfolding cancel_whole_graph_def by (intro stays_intros) auto

lemma stays_graph_cancel [stays_intros]:
  assumes "\<And>c tc. stays (ledger ms) (C c tc)"
  shows "stays (ledger ms) (on_graph_task_cancel env C tc)" "stays (ledger ms) (on_graph_sub_task_cancel_confirm env C confirm)"
  unfolding on_graph_task_cancel_def on_graph_sub_task_cancel_confirm_def by (intro stays_intros assms)+

lemma stays_fresh_ids [stays_intros]: "stays (ledger ms) (fresh_ids env owner n)"
  by (induction n) (simp_all, (intro stays_intros | assumption)+)

lemma stays_duplicate_objects [stays_intros]: "stays (ledger ms) (duplicate_objects env owner objs)"
  unfolding duplicate_objects_def duplicate_object_def by (intro stays_intros) (auto intro!: stays_intros)

lemma stays_abort_node [stays_intros]: "stays (ledger ms) (abort_node env owner result objs t)"
  unfolding abort_node_def Let_def by (intro stays_intros)

lemma stays_abort_nodes [stays_intros]: "stays (ledger ms) (abort_nodes env owner result objs ts)"
proof (induction ts)
  case (Cons t ts)
  show ?case unfolding abort_nodes.simps by (intro stays_intros Cons.IH)
qed (simp add: stays_simple)

lemma stays_abort_drain [stays_intros]: "stays (ledger ms) (abort_drain env n g owner result objs)"
  by (induction n) (simp_all, (intro stays_intros | assumption)+)

lemma stays_abort_rest [stays_intros]: "stays (ledger ms) (\<lambda>s. abort_drain env (sorter_bound g s) g owner result objs s)"
  by (rule stays_state) (rule stays_abort_drain)

lemma stays_abort_whole_graph [stays_intros]: "stays (ledger ms) (abort_whole_graph env g result)"
  unfolding abort_whole_graph_def by (intro stays_intros)

lemma stays_sub_result [stays_intros]:
  "(\<And>ev. stays (ledger ms) (R ev)) \<Longrightarrow> (\<And>c tc. stays (ledger ms) (C c tc)) \<Longrightarrow>
    stays (ledger ms) (on_graph_sub_task_result env R C result)"
  unfolding on_graph_sub_task_result_def by (intro stays_intros)

section \<open>The router\<close>

lemma stays_to_worker [stays_intros]: "stays (ledger ms) (send_task_cancel_to_worker tc st)"
  unfolding send_task_cancel_to_worker_def worker_on_task_cancel_def by (intro stays_intros)

lemma stays_to_client [stays_intros]:
  assumes "\<And>ev. stays (ledger ms) (R ev)" "\<And>c tc. stays (ledger ms) (C c tc)"
  shows "stays (ledger ms) (send_task_result_to_client env R C result st)"
    "stays (ledger ms) (send_task_cancel_confirm_to_client env R C confirm st)"
  unfolding send_task_result_to_client_def send_task_cancel_confirm_to_client_def Let_def by (intro stays_intros assms)+

lemma stays_action:
  assumes "\<And>ev. stays (ledger ms) (R ev)" "\<And>c tc. stays (ledger ms) (C c tc)"
  shows "stays (ledger ms) (action env R C source ev)"
  unfolding action_def act_has_capacity_def act_task_cancel_def act_balance_cancel_def act_task_result_def
    act_confirm_canceled_def act_confirm_failed_def act_confirm_not_found_def act_worker_disconnect_def Let_def
  by (cases ev; cases source; simp; intro stays_intros assms)

lemma stays_fail_task:
  assumes "\<And>ev. stays (ledger ms) (R ev)" "\<And>c tc. stays (ledger ms) (C c tc)"
  shows "stays (ledger ms) (fail_task_to_client env R C ev source)"
  unfolding fail_task_to_client_def report_fault_to_client_def Let_def by (intro stays_intros assms)

lemma stays_settle: "stays (ledger ms) (settle ev target)"
  unfolding settle_def Let_def by (intro stays_intros)

lemma stays_route_body:
  assumes "\<And>ev. stays (ledger ms) (R ev)" "\<And>c tc. stays (ledger ms) (C c tc)"
  shows "stays (ledger ms) (route_body env R C ev)"
proof (rule staysI)
  fix s assume l: "ledger ms s"
  have locked: "stays (ledger ms) (route_locked env R C ev source)" for source
  proof (rule staysI)
    fix s assume l: "ledger ms s"
    have "ends_in (ledger ms) (action env R C source ev s)" by (rule staysD [OF stays_action [OF assms] l])
    then show "ends_in (ledger ms) (route_locked env R C ev source s)"
      using l staysD [OF stays_settle] staysD [OF stays_fail_task [OF assms]]
      by (auto simp: route_locked_def split: outcome.split option.split)
  qed
  have "stays (ledger ms) (seq (with_mgr (lock_machine t)) (seq (route_locked env R C ev source) (with_mgr (release_machine t i))))"
    for t source i by (intro stays_intros locked)
  from staysD [OF this l] l show "ends_in (ledger ms) (route_body env R C ev s)"
    by (auto simp: route_body_def Let_def split: option.split)
qed

lemma stays_router: "(\<forall>ev. stays (ledger ms) (route env n ev)) \<and> (\<forall>c tc. stays (ledger ms) (on_task_cancel env n c tc))"
proof (induction n)
  case (Suc n)
  have R: "\<And>ev. stays (ledger ms) (route env n ev)" and C: "\<And>c tc. stays (ledger ms) (on_task_cancel env n c tc)"
    using Suc by blast+
  show ?case
    unfolding route.simps on_task_cancel.simps on_task_cancel_body_def Let_def
    by (intro conjI allI stays_route_body R C stays_intros)
qed (simp add: stays_simple)

lemmas stays_route [stays_intros] = stays_router [THEN conjunct1, rule_format] stays_router [THEN conjunct2, rule_format]

section \<open>Inputs\<close>

lemma stays_events [stays_intros]:
  "stays (ledger ms) (on_task_balance_cancel env n t)" "stays (ledger ms) (on_task_cancel_confirm env n w cc)"
  "stays (ledger ms) (on_task_result env n w r)" "stays (ledger ms) (on_worker_connect env n)"
  "stays (ledger ms) (on_worker_disconnect env n t w)"
  unfolding on_task_balance_cancel_def on_task_cancel_confirm_def on_task_result_def on_worker_connect_def
    on_worker_disconnect_def by (intro stays_intros)+

lemma stays_disconnect_worker [stays_intros]: "stays (ledger ms) (disconnect_worker env n w)"
proof (rule staysI)
  fix s assume l: "ledger ms s"
  have "stays (ledger ms) (remove_worker_from_manager w)"
    unfolding remove_worker_from_manager_def
    by (rule stays_modify) (auto simp: Let_def split: option.split)
  then have "stays (ledger ms) (seq (modify (\<lambda>s. s\<lparr>worker_alive := dict_pop w (worker_alive s)\<rparr>))
           (seq (remove_worker_from_manager w)
           (seq (publish (StateWorker w WS_disconnected []))
           (andthen (with_policy (policy_remove_worker w)) (\<lambda>ts.
              for_each ts (\<lambda>t. on_worker_disconnect env n t w))))))"
    by (intro stays_intros stays_modify) simp_all
  from staysD [OF this l] l show "ends_in (ledger ms) (disconnect_worker env n w s)"
    by (simp add: disconnect_worker_def)
qed

lemma stays_client_disconnect [stays_intros]: "stays (ledger ms) (client_disconnect env n c)"
proof -
  have "stays (ledger ms) (cancel_client_all_tasks env n c)"
  proof (rule staysI)
    fix s assume l: "ledger ms s"
    have "stays (ledger ms) (for_each ts (\<lambda>t. on_task_cancel env n c \<lparr>cancel_taskId = t, cancel_force = False\<rparr>))" for ts
      by (intro stays_intros)
    from staysD [OF this l] l show "ends_in (ledger ms) (cancel_client_all_tasks env n c s)"
      by (simp add: cancel_client_all_tasks_def)
  qed
  then show ?thesis unfolding client_disconnect_def by (intro stays_intros stays_modify) simp_all
qed

lemma stays_each_state: "(\<And>x. stays I (f x)) \<Longrightarrow> stays I (\<lambda>s. for_each (xs s) f s)"
  by (rule stays_state [where f = "\<lambda>s. for_each (xs s) f"]) (rule stays_for_each)

lemma stays_client_inputs [stays_intros]:
  "stays (ledger ms) (client_on_heartbeat now c)" "stays (ledger ms) (notice_client_activity now c)"
  "stays (ledger ms) (on_client_disconnect env n c ty)" "stays (ledger ms) (cleanup_clients env n now)"
proof -
  show "stays (ledger ms) (client_on_heartbeat now c)" "stays (ledger ms) (notice_client_activity now c)"
    unfolding client_on_heartbeat_def notice_client_activity_def by (intro stays_intros stays_modify; simp)+
  have "stays (ledger ms) (shutdown_worker env n w)" for w unfolding shutdown_worker_def by (intro stays_intros)
  then have "stays (ledger ms) (on_client_shutdown env n)"
    unfolding on_client_shutdown_def by (rule stays_each_state)
  then show "stays (ledger ms) (on_client_disconnect env n c ty)"
    unfolding on_client_disconnect_def by (intro stays_intros)
  show "stays (ledger ms) (cleanup_clients env n now)"
    unfolding cleanup_clients_def by (rule stays_each_state) (rule stays_intros)
qed

lemma stays_worker_inputs [stays_intros]:
  "stays (ledger ms) (worker_on_heartbeat env n now w info)" "stays (ledger ms) (clean_workers env n now)"
  "stays (ledger ms) (balance_routine env n)"
proof -
  have "stays (ledger ms) (remember_manager w manager)" for manager
    unfolding remember_manager_def by (rule stays_modify) simp
  then show "stays (ledger ms) (worker_on_heartbeat env n now w info)"
    unfolding worker_on_heartbeat_def Let_def by (intro stays_intros stays_modify) simp_all
  show "stays (ledger ms) (clean_workers env n now)"
    unfolding clean_workers_def by (rule stays_each_state) (rule stays_intros)
  have "stays (ledger ms) (should_balance env advice)" for advice
    by (auto simp: stays_def should_balance_def ledger_def Let_def)
  then show "stays (ledger ms) (balance_routine env n)"
    unfolding balance_routine_def by (intro stays_intros stays_modify) simp_all
qed

lemma stays_object_inputs [stays_intros]:
  "stays (ledger ms) (on_object_instruction env instr)" "stays (ledger ms) (object_routine env)"
proof -
  show "stays (ledger ms) (on_object_instruction env instr)"
    unfolding on_object_instruction_def by (cases instr; simp; intro stays_intros)
  have clear: "stays (ledger ms) (modify (\<lambda>s. s\<lparr>objects := (objects s)\<lparr>os_deleted := []\<rparr>\<rparr>))"
    by (simp add: stays_def ledger_def)
  show "stays (ledger ms) (object_routine env)"
  proof (rule staysI)
    fix s assume l: "ledger ms s"
    have "stays (ledger ms) (seq (modify (\<lambda>s. s\<lparr>objects := (objects s)\<lparr>os_deleted := []\<rparr>\<rparr>))
        (seq (for_each ws (\<lambda>w. send w (MsgObjectDelete oids)))
             (for_each oids (\<lambda>oid. modify (\<lambda>s. s\<lparr>store := dict_pop oid (store s)\<rparr>)))))" for ws oids
      by (intro stays_intros clear stays_modify) simp
    from staysD [OF this l] l show "ends_in (ledger ms) (object_routine env s)"
      by (simp add: object_routine_def Let_def)
  qed
qed

lemma stays_manager_inputs [stays_intros]:
  "stays (ledger ms) (manager_on_heartbeat now source hb)" "stays (ledger ms) (clean_managers now)"
proof -
  have ask: "stays (ledger ms) (ask_scaling hb)" for hb
    by (auto simp: stays_def ask_scaling_def ledger_def split: prod.split)
  show "stays (ledger ms) (manager_on_heartbeat now source hb)"
  proof (rule staysI)
    fix s assume l: "ledger ms s"
    have "stays (ledger ms) (seq (if new then modify (\<lambda>s. s\<lparr>manager_id_to_source := dict_set manager source (manager_id_to_source s)\<rparr>) else ret ())
              (seq (modify (\<lambda>s. s\<lparr>manager_alive := dict_set source (now, hb) (manager_alive s)\<rparr>))
              (seq (send source MsgWorkerManagerHeartbeatEcho)
              (andthen (ask_scaling hb) (\<lambda>commands.
               seq (for_each commands (\<lambda>c. send source (MsgWorkerManagerCommand c)))
                   (modify (\<lambda>s. s\<lparr>last_desired_total := dict_set source (f commands) (last_desired_total s)\<rparr>)))))))"
      for new manager hb f
      by (intro stays_intros ask stays_modify) simp_all
    from staysD [OF this l] l show "ends_in (ledger ms) (manager_on_heartbeat now source hb s)"
      unfolding manager_on_heartbeat_def Let_def by simp
  qed
  have "stays (ledger ms) (disconnect_manager source)" for source
    unfolding disconnect_manager_def by (rule stays_modify) (auto split: option.split)
  then show "stays (ledger ms) (clean_managers now)"
    unfolding clean_managers_def by (rule stays_each_state)
qed

lemma stays_on_graph_task [stays_intros]: "stays (ledger ms) (on_graph_task c gt)"
  unfolding on_graph_task_def by (rule stays_modify) simp

lemma stays_graph_routine [stays_intros]:
  assumes "\<And>ev. stays (ledger ms) (R ev)"
  shows "stays (ledger ms) (graph_routine env R)"
proof -
  have reg: "stays (ledger ms) (register_subtasks env gt ts acc)" for gt ts acc
  proof (induction ts arbitrary: acc)
    case (Cons t ts)
    obtain infos dep graph where acc: "acc = (infos, dep, graph)" by (cases acc)
    show ?case unfolding acc register_subtasks.simps Let_def by (intro stays_intros Cons stays_modify) simp
  qed (cases acc; simp add: stays_simple)
  have fin: "stays (ledger ms) (case so_merge_graph graph so_empty of
      Inl e \<Rightarrow> raise e
    | Inr so \<Rightarrow> (case so_prepare so of
        Ret _ so' \<Rightarrow> seq (modify (\<lambda>s. s\<lparr>graphs := dict_set g (f so') (graphs s)\<rparr>)) (check_one_graph env R g)
      | Raise e _ \<Rightarrow> raise e
      | NoFuel \<Rightarrow> (\<lambda>s. NoFuel)))" for graph g f
    by (auto split: sum.split outcome.split intro!: stays_intros stays_modify assms)
  have add: "stays (ledger ms) (add_new_graph env R c gt)" for c gt
    unfolding add_new_graph_def Let_def by (intro stays_intros stays_modify reg fin) simp
  show "stays (ledger ms) (graph_routine env R)"
  proof (rule staysI)
    fix s assume l: "ledger ms s"
    then have "ledger ms (s\<lparr>graph_queue := q\<rparr>)" for q by (simp add: ledger_def)
    then show "ends_in (ledger ms) (graph_routine env R s)"
      using l staysD [OF add] by (auto simp: graph_routine_def split: list.split)
  qed
qed

lemma stays_receive: "stays (ledger ms) (on_receive_message env n now source msg)"
  unfolding on_receive_message_def on_disconnect_notification_def
  by (rule stays_seq, intro stays_intros, cases msg) (simp_all add: stays_intros)

lemma perform_ledger: "ledger ms s \<Longrightarrow> ends_in (ledger ms) (perform env i s)"
  by (cases i) (simp_all add: perform_def Let_def staysD [OF stays_receive] staysD [OF stays_graph_routine]
      staysD [OF stays_worker_inputs(2)] staysD [OF stays_worker_inputs(3)] staysD [OF stays_client_inputs(4)]
      staysD [OF stays_object_inputs(2)] staysD [OF stays_manager_inputs(2)] stays_route)

lemma perform_keeps_sent: "ledger ms s \<Longrightarrow> perform env i s = Ret () s' \<Longrightarrow> ledger ms s'"
  using perform_ledger [of ms s env i] by simp

lemma reachable_ledger: "reachable env strategy sc s \<Longrightarrow> ledger [] s"
proof (induction rule: reachable.induct)
  case initial
  then show ?case by (simp add: ledger_def sched_init_def os_init_def)
next
  case (next_state s s')
  then obtain i where i: "swallow (perform env i s) = Some s'" by (auto elim: sched_stepE)
  have "ends_in (ledger []) (perform env i s)" using next_state(3) by (rule perform_ledger)
  with i show ?case by (cases "perform env i s") (auto split: if_splits)
qed

end
