(* ===== verification/Delivery.thy ===== *)
theory Delivery
  imports Ledger
begin

text \<open>
  What one event does when nothing raises: the answers that reach the client and the
  worker, and the state the task is left in.
\<close>

section \<open>One event\<close>

text \<open>From a state between inputs, the body of the router runs the action under the lock.\<close>

definition under_lock :: "TaskID \<Rightarrow> sched \<Rightarrow> sched" where
  "under_lock t s = s\<lparr>core := (core s)\<lparr>mgr := lock_machine t (mgr (core s))\<rparr>\<rparr>"

lemma under_lock_simps [simp]:
  "clients (under_lock t s) = clients s" "graph_of (under_lock t s) = graph_of s" "sent (under_lock t s) = sent s"
  "policy (core (under_lock t s)) = policy (core s)" "unassigned (core (under_lock t s)) = unassigned (core s)"
  "tasks (core (under_lock t s)) = tasks (core s)"
  by (simp_all add: under_lock_def)

lemma machine_of_state:
  assumes "sched_inv s" "task_state (core s) t = Some st"
  obtains sm where "dict_get (mgr_machines (mgr (core s))) t = Some sm" "\<not> machine_locked sm" "machine_state sm = st"
    "entered {} (core s) t sm (length (graphs s)) (under_lock t s)"
proof -
  obtain sm where sm: "dict_get (mgr_machines (mgr (core s))) t = Some sm" "machine_state sm = st"
    using assms(2) by (auto simp: state_of_def)
  have "t \<notin> locked (core s)" using assms(1) by (simp add: sched_inv_def)
  then have nl: "\<not> machine_locked sm" using sm(1) by (simp add: locked_def is_locked_def)
  have "tc_inv {} (core s)" "gok (length (graphs s)) (graphs s)"
    using assms(1) by (simp_all add: sched_inv_def gok_def running_graphs_le)
  then have "entered {} (core s) t sm (length (graphs s)) (under_lock t s)"
    using sm nl by (simp add: entered_def under_lock_def)
  then show thesis using that sm nl by blast
qed

lemma route_body_acts:
  assumes sm: "dict_get (mgr_machines (mgr (core s))) (event_task_id ev) = Some sm" "\<not> machine_locked sm"
    and own: "case reported_by ev of None \<Rightarrow> True | Some w \<Rightarrow> is_task_owned_by_worker s (event_task_id ev) w"
    and act: "action env R C (machine_state sm) ev (under_lock (event_task_id ev) s) = Ret (Some target) s1"
  shows "route_body env R C ev s = seq (settle ev target) (with_mgr (release_machine (event_task_id ev) (machine_id sm))) s1"
proof -
  let ?t = "event_task_id ev"
  have "is_task_owned_by_worker (under_lock ?t s) ?t w = is_task_owned_by_worker s ?t w" for w
    by (simp add: is_task_owned_by_worker_def under_lock_def)
  then have "route_locked env R C ev (machine_state sm) (under_lock ?t s) = settle ev target s1"
    using own act by (auto simp: route_locked_def split: option.splits)
  moreover have "with_mgr (lock_machine ?t) s = Ret () (under_lock ?t s)"
    by (simp add: with_mgr_def upd_core_def under_lock_def)
  ultimately show ?thesis
    using sm by (simp add: route_body_def get_state_machine_def Let_def seq_run)
qed

text \<open>Settling a terminal state drops the machine and the payload; nothing else of the state moves.\<close>

lemma settle_terminal:
  assumes "is_terminal target"
  shows "\<exists>m. seq (settle ev target) (with_mgr (release_machine (event_task_id ev) i)) s1 =
    Ret () (s1\<lparr>core := (core s1)\<lparr>tasks := dict_pop (event_task_id ev) (tasks (core s1)), mgr := m\<rparr>\<rparr>) \<and>
    state_of m (event_task_id ev) = None"
  using assms
  by (intro exI [of _ "remove_state_machine (event_task_id ev) (commit (event_task_id ev) (event_name ev) target (mgr (core s1)))"])
    (simp add: settle_def Let_def with_mgr_def upd_core_def release_absent remove_state_machine_def state_of_def)

lemma settle_live:
  assumes "\<not> is_terminal target" "is_locked (mgr (core s1)) (event_task_id ev)"
  shows "\<exists>m. seq (settle ev target) (with_mgr (release_machine (event_task_id ev) i)) s1 =
    Ret () (s1\<lparr>core := (core s1)\<lparr>mgr := m\<rparr>\<rparr>) \<and> state_of m (event_task_id ev) = Some target"
  using assms
  by (intro exI [of _ "release_machine (event_task_id ev) i (commit (event_task_id ev) (event_name ev) target (mgr (core s1)))"])
    (simp add: settle_def Let_def with_mgr_def upd_core_def state_of_commit)

section \<open>Results\<close>

lemma calm_sent: "calm s s' \<Longrightarrow> set (sent s) \<subseteq> set (sent s')"
  by (auto simp: calm_def)

lemma on_task_finish_run:
  assumes "otm_inv (clients s)" "otm_owner (clients s) t = Some c"
  shows "\<exists>d. on_task_finish t s = Ret (Some c) (s\<lparr>clients := d\<rparr>) \<and> otm_inv d \<and> otm_owner d = (otm_owner (clients s))(t := None)"
proof -
  have "otm_remove_value t (clients s) = (Inr c, snd (otm_remove_value t (clients s)))"
    using otm_remove_value_spec(1) [OF assms] by (metis prod.collapse)
  then show ?thesis
    using assms otm_remove_value_spec(2,3) [OF assms]
    by (auto simp: on_task_finish_def otm_has_value_iff split: prod.split)
qed

text \<open>The common tail of an answer to the client: it is sent, the monitor told, waiting tasks retried.\<close>

lemma answer_client:
  assumes inv: "tc_inv W (core s)" and own: "otm_inv (clients s)" "otm_owner (clients s) t = Some c"
    and sub: "\<not> is_graph_subtask s t"
  shows "\<exists>s'. andthen (on_task_finish t) (\<lambda>client.
      seq (case client of None \<Rightarrow> ret () | Some c \<Rightarrow> send c msg)
      (seq (\<lambda>s. send_monitor t st (name s) md s)
      (andthen (gets (\<lambda>s. is_graph_subtask s t)) (\<lambda>sub.
       seq (if sub then G else ret ()) (retry_unassignable env (route env (Suc n))))))) s = Ret () s' \<and>
    (c, msg) \<in> set (sent s') \<and> tc_inv W (core s') \<and> frame (core s) (core s')"
proof -
  obtain d where fin: "on_task_finish t s = Ret (Some c) (s\<lparr>clients := d\<rparr>)"
    using on_task_finish_run [OF own] by blast
  let ?s2 = "s\<lparr>clients := d, sent := sent s @ [(c, msg)]\<rparr>"
  obtain s3 where s3: "send_monitor t st (name ?s2) md ?s2 = Ret () s3" "quiet ?s2 s3" using send_monitor_quiet by blast
  have core3: "core s3 = core s" "graph_of s3 = graph_of s" using quiet_simps [OF s3(2)] by simp_all
  have sub3: "\<not> is_graph_subtask s3 t" using sub core3(2) by (simp add: is_graph_subtask_def)
  obtain s' where s': "retry_unassignable env (route env (Suc n)) s3 = Ret () s'" "calm s3 s'" "tc_inv W (core s')"
      "frame (core s3) (core s')"
    using retry_run [of W s3 env n] inv core3 by auto
  have "(c, msg) \<in> set (sent s')"
    using calm_sent [OF s'(2)] calm_sent [OF calm_quiet [OF s3(2)]] by auto
  moreover have "send c msg (s\<lparr>clients := d\<rparr>) = Ret () ?s2" by (simp add: send_def)
  ultimately show ?thesis
    using fin s3(1) sub3 s' core3 by (simp add: andthen_run seq_run del: route.simps)
qed

lemma result_run:
  assumes e: "entered W c0 t sm k s" and st: "machine_state sm \<noteq> TS_inactive" and r: "result_taskId r = t"
    and own: "otm_inv (clients s)" "otm_owner (clients s) t = Some c" and sub: "\<not> is_graph_subtask s t"
  shows "\<exists>s'. send_task_result_to_client env (route env (Suc n)) C r target s = Ret () s' \<and> (c, MsgTaskResult r) \<in> set (sent s')"
proof -
  obtain w s1 where s1: "on_task_done t s = Ret w s1" "faulted W c0 t sm k s1" "s1 = s\<lparr>core := (core s)\<lparr>policy := policy (core s1)\<rparr>\<rparr>"
    by (rule on_task_done_faulted [OF entered_live(1) [OF e st]])
  have inv: "tc_inv W (core s1)" using s1(2) by (simp add: faulted_def)
  have o1: "otm_inv (clients s1)" "otm_owner (clients s1) t = Some c" "\<not> is_graph_subtask s1 t"
    using own sub by (subst s1(3), simp add: is_graph_subtask_def)+
  note a = answer_client [OF inv o1, where msg = "MsgTaskResult r" and st = target and md = "result_metadata r" and env = env and n = n
      and name = "\<lambda>s. case dict_get (tasks (core s)) t of None \<Rightarrow> '''' | Some task \<Rightarrow> get_object_name (objects s) (funcObjectId task)"
      and G = "on_graph_sub_task_result env (route env (Suc n)) C r"]
  have gets_monitor: "andthen (gets f) (\<lambda>name. seq (send_monitor t target name md) m) = seq (\<lambda>s. send_monitor t target (f s) md s) m" for f md m
    by (simp add: fun_eq_iff andthen_run seq_run)
  show ?thesis
    using a s1(1) unfolding send_task_result_to_client_def Let_def r gets_monitor by (auto simp del: route.simps)
qed

text \<open>The state a message is dispatched in: only the time a known client was last seen has moved.\<close>

definition noticed :: "int \<Rightarrow> bytes \<Rightarrow> sched \<Rightarrow> sched" where
  "noticed now source s =
     (if is_client_source source \<and> dict_has (client_last_seen s) source
      then s\<lparr>client_last_seen := dict_set source now (client_last_seen s)\<rparr> else s)"

lemma noticed_simps [simp]:
  "core (noticed now source s) = core s" "graphs (noticed now source s) = graphs s" "clients (noticed now source s) = clients s"
  "graph_of (noticed now source s) = graph_of s" "sent (noticed now source s) = sent s" "objects (noticed now source s) = objects s"
  "sched_inv (noticed now source s) = sched_inv s" "fuel_for (noticed now source s) = fuel_for s"
  by (simp_all add: noticed_def sched_inv_def fuel_for_def)

lemma notice_run [simp]:
  "(if is_client_source source then notice_client_activity now source else ret ()) s = Ret () (noticed now source s)"
  by (simp add: notice_client_activity_def noticed_def)

lemma perform_result:
  "perform env (Receive now w (InTaskResult r)) s = route env (fuel_for s) (TaskResultReceived (result_taskId r) w r) (noticed now w s)"
  by (simp add: perform_def Let_def on_receive_message_def on_task_result_def)

lemma fuel_for_Suc: obtains n where "fuel_for s = Suc (Suc n)"
  by (simp add: fuel_for_def)

lemma owned_by_holder:
  assumes "sched_inv s" "held (core s) t = Some w"
  shows "is_task_owned_by_worker s t w"
proof -
  have "policy_inv (policy (core s))" using assms(1) tciD(1) unfolding sched_inv_def by blast
  then show ?thesis using al.get_worker [of "policy (core s)" t] assms(2) by (simp add: is_task_owned_by_worker_def Let_def)
qed

lemma gone_task:
  assumes "sched_inv s" "task_state (core s) t = None"
  shows "held (core s) t = None" "t \<notin> set (unassigned (core s))"
proof -
  have inv: "tc_inv {} (core s)" using assms(1) by (simp add: sched_inv_def)
  show "held (core s) t = None" using tciD(6) [OF inv, of t] assms(2) by metis
  show "t \<notin> set (unassigned (core s))" using tciD(7) [OF inv, of t] assms(2) by auto
qed

lemma result_delivered:
  assumes inv: "sched_inv s" and own: "otm_inv (clients s)" "otm_owner (clients s) t = Some c"
    and st: "task_state (core s) t = Some st" "st \<in> {TS_running, TS_balanceCanceling}" and w: "held (core s) t = Some w"
    and sub: "\<not> is_graph_subtask s t" and r: "result_taskId r = t"
  shows "\<exists>s'. perform env (Receive now w (InTaskResult r)) s = Ret () s' \<and> (c, MsgTaskResult r) \<in> set (sent s') \<and>
    task_state (core s') t = None \<and> dict_get (tasks (core s')) t = None \<and> held (core s') t = None"
proof -
  let ?s = "noticed now w s" and ?ev = "TaskResultReceived t w r" and ?target = "task_result_target (resultType r)"
  obtain n where n: "fuel_for s = Suc (Suc n)" by (rule fuel_for_Suc)
  obtain sm where sm: "dict_get (mgr_machines (mgr (core ?s))) t = Some sm" "\<not> machine_locked sm" "machine_state sm = st"
      "entered {} (core ?s) t sm (length (graphs ?s)) (under_lock t ?s)"
    using machine_of_state [of ?s t st] inv st(1) by auto
  have live: "machine_state sm \<noteq> TS_inactive" using sm(3) st(2) by auto
  obtain s1 where s1: "send_task_result_to_client env (route env (Suc n)) (on_task_cancel env (Suc n)) r ?target (under_lock t ?s) = Ret () s1"
      "(c, MsgTaskResult r) \<in> set (sent s1)"
    using result_run [OF sm(4) live r, where c = c and env = env and n = n and C = "on_task_cancel env (Suc n)" and target = ?target] own sub
    by (auto simp: is_graph_subtask_def simp del: route.simps on_task_cancel.simps)
  have act: "action env (route env (Suc n)) (on_task_cancel env (Suc n)) (machine_state sm) ?ev (under_lock (event_task_id ?ev) ?s) = Ret (Some ?target) s1"
    using s1(1) st(2) sm(3) by (auto simp: action_def act_task_result_def Let_def simp del: route.simps on_task_cancel.simps)
  have "route_body env (route env (Suc n)) (on_task_cancel env (Suc n)) ?ev ?s =
      seq (settle ?ev ?target) (with_mgr (release_machine (event_task_id ?ev) (machine_id sm))) s1"
    by (rule route_body_acts) (use sm(1,2) act w inv owned_by_holder [of ?s t w] in auto)
  moreover have "is_terminal ?target" by (simp add: task_result_target_def split: TaskResultType.split)
  ultimately obtain m where m: "route_body env (route env (Suc n)) (on_task_cancel env (Suc n)) ?ev ?s =
      Ret () (s1\<lparr>core := (core s1)\<lparr>tasks := dict_pop t (tasks (core s1)), mgr := m\<rparr>\<rparr>)" "state_of m t = None"
    using settle_terminal [of ?target ?ev "machine_id sm" s1] by auto
  let ?s' = "s1\<lparr>core := (core s1)\<lparr>tasks := dict_pop t (tasks (core s1)), mgr := m\<rparr>\<rparr>"
  have run: "perform env (Receive now w (InTaskResult r)) s = Ret () ?s'"
    using m(1) by (simp add: perform_result n r)
  have "sched_inv ?s'" using perform_ok [OF inv, of "Receive now w (InTaskResult r)" env] run by simp
  then show ?thesis using run s1(2) m(2) gone_task [of ?s' t] by auto
qed

section \<open>Cancels\<close>

lemma perform_cancel:
  assumes "\<not> is_graph_subtask s (cancel_taskId tc)" "task_state (core s) (cancel_taskId tc) \<noteq> None"
  obtains n where "perform env (Receive now c (InTaskCancel tc)) s =
    route_body env (route env (Suc n)) (on_task_cancel env (Suc n)) (TaskCancelRequested (cancel_taskId tc) c tc) (noticed now c s)"
proof -
  obtain n where n: "fuel_for s = Suc (Suc (Suc n))" by (simp add: fuel_for_def)
  let ?s = "noticed now c s"
  have "\<not> is_graph_subtask ?s (cancel_taskId tc)" using assms(1) by (simp add: is_graph_subtask_def)
  moreover have "get_state_machine (mgr (core ?s)) (cancel_taskId tc) \<noteq> None"
    using assms(2) by (auto simp: get_state_machine_def state_of_def)
  ultimately have "perform env (Receive now c (InTaskCancel tc)) s =
      route env (Suc (Suc n)) (TaskCancelRequested (cancel_taskId tc) c tc) ?s"
    by (auto simp: perform_def Let_def on_receive_message_def n on_task_cancel_body_def andthen_run simp del: route.simps)
  then show thesis using that by simp
qed

lemma confirm_run:
  assumes inv: "tc_inv W (core s)" and own: "otm_inv (clients s)" "otm_owner (clients s) t = Some c"
    and sub: "\<not> is_graph_subtask s t" and cc: "confirm_taskId cc = t"
  shows "\<exists>s'. send_task_cancel_confirm_to_client env (route env (Suc n)) C cc st s = Ret () s' \<and>
    (c, MsgTaskCancelConfirm cc) \<in> set (sent s')"
  using answer_client [OF inv own sub, where msg = "MsgTaskCancelConfirm cc" and name = "\<lambda>_. ''''" and st = st and md = "''''"
      and env = env and n = n and G = "on_graph_sub_task_cancel_confirm env C cc"]
  unfolding send_task_cancel_confirm_to_client_def Let_def cc by (auto simp del: route.simps)

lemma cancel_queued:
  assumes inv: "sched_inv s" and own: "otm_inv (clients s)" "otm_owner (clients s) t = Some c"
    and st: "task_state (core s) t = Some TS_inactive" "t \<in> set (unassigned (core s))"
    and sub: "\<not> is_graph_subtask s t" and tc: "cancel_taskId tc = t"
  shows "\<exists>s'. perform env (Receive now c (InTaskCancel tc)) s = Ret () s' \<and>
    (c, MsgTaskCancelConfirm \<lparr>confirm_taskId = t, cancelConfirmType = CC_canceled\<rparr>) \<in> set (sent s') \<and>
    task_state (core s') t = None \<and> dict_get (tasks (core s')) t = None \<and> t \<notin> set (unassigned (core s'))"
proof -
  let ?s = "noticed now c s" and ?ev = "TaskCancelRequested t c tc"
  let ?cc = "\<lparr>confirm_taskId = t, cancelConfirmType = CC_canceled\<rparr>"
  obtain n where n: "perform env (Receive now c (InTaskCancel tc)) s =
      route_body env (route env (Suc n)) (on_task_cancel env (Suc n)) ?ev ?s"
    by (rule perform_cancel [where s = s and tc = tc and env = env and now = now and c = c]) (use sub st tc in auto)
  obtain sm where sm: "dict_get (mgr_machines (mgr (core ?s))) t = Some sm" "\<not> machine_locked sm" "machine_state sm = TS_inactive"
      "entered {} (core ?s) t sm (length (graphs ?s)) (under_lock t ?s)"
    using machine_of_state [of ?s t TS_inactive] inv st(1) by auto
  let ?l = "under_lock t ?s"
  let ?s1 = "?l\<lparr>core := (core ?l)\<lparr>unassigned := remove1 t (unassigned (core ?l))\<rparr>\<rparr>"
  have "tc_inv {} (core ?s1)" using entered_waiting(1) [OF sm(4,3)] by (simp add: faulted_def)
  from confirm_run [OF this, where t = t and c = c and cc = ?cc and env = env and n = n and C = "on_task_cancel env (Suc n)" and st = TS_canceled]
  obtain s2 where s2: "send_task_cancel_confirm_to_client env (route env (Suc n)) (on_task_cancel env (Suc n)) ?cc TS_canceled ?s1 = Ret () s2"
      "(c, MsgTaskCancelConfirm ?cc) \<in> set (sent s2)"
    using own sub by (auto simp: is_graph_subtask_def simp del: route.simps on_task_cancel.simps)
  have act: "action env (route env (Suc n)) (on_task_cancel env (Suc n)) (machine_state sm) ?ev (under_lock (event_task_id ?ev) ?s) = Ret (Some TS_canceled) s2"
    using s2(1) st(2) sm(3)
    by (simp add: action_def act_task_cancel_def upd_core_def andthen_run seq_run del: route.simps on_task_cancel.simps)
  have "route_body env (route env (Suc n)) (on_task_cancel env (Suc n)) ?ev ?s =
      seq (settle ?ev TS_canceled) (with_mgr (release_machine (event_task_id ?ev) (machine_id sm))) s2"
    by (rule route_body_acts) (use sm(1,2) act in auto)
  then obtain m where m: "route_body env (route env (Suc n)) (on_task_cancel env (Suc n)) ?ev ?s =
      Ret () (s2\<lparr>core := (core s2)\<lparr>tasks := dict_pop t (tasks (core s2)), mgr := m\<rparr>\<rparr>)" "state_of m t = None"
    using settle_terminal [of TS_canceled ?ev "machine_id sm" s2] by auto
  let ?s' = "s2\<lparr>core := (core s2)\<lparr>tasks := dict_pop t (tasks (core s2)), mgr := m\<rparr>\<rparr>"
  have run: "perform env (Receive now c (InTaskCancel tc)) s = Ret () ?s'" using m(1) n by simp
  have "sched_inv ?s'" using perform_ok [OF inv, of "Receive now c (InTaskCancel tc)" env] run by simp
  then have "t \<notin> set (unassigned (core ?s'))" using gone_task(2) [of ?s' t] m(2) by simp
  then show ?thesis using run s2(2) m(2) by auto
qed

lemma cancel_running:
  assumes inv: "sched_inv s" and own: "otm_owner (clients s) t = Some c"
    and st: "task_state (core s) t = Some TS_running" and w: "held (core s) t = Some w"
    and sub: "\<not> is_graph_subtask s t" and tc: "cancel_taskId tc = t"
  shows "\<exists>s'. perform env (Receive now c (InTaskCancel tc)) s = Ret () s' \<and>
    sent s' = sent s @ [(w, MsgTaskCancel tc)] \<and> task_state (core s') t = Some TS_canceling \<and> held (core s') t = Some w"
proof -
  let ?s = "noticed now c s" and ?ev = "TaskCancelRequested t c tc"
  obtain n where n: "perform env (Receive now c (InTaskCancel tc)) s =
      route_body env (route env (Suc n)) (on_task_cancel env (Suc n)) ?ev ?s"
    by (rule perform_cancel [where s = s and tc = tc and env = env and now = now and c = c]) (use sub st tc in auto)
  obtain sm where sm: "dict_get (mgr_machines (mgr (core ?s))) t = Some sm" "\<not> machine_locked sm" "machine_state sm = TS_running"
      "entered {} (core ?s) t sm (length (graphs ?s)) (under_lock t ?s)"
    using machine_of_state [of ?s t TS_running] inv st by auto
  have pol: "policy_inv (policy (core s))" using inv tciD(1) unfolding sched_inv_def by blast
  have holder: "policy_get_worker_by_task_id (policy (core s)) t = w" using al.get_worker [OF pol] w by simp
  have valid: "worker_is_valid w" using al.holder_member [OF pol w] by simp
  obtain d where d: "otm_add c t (clients s) = Inr d" using own by (auto simp: otm_add_def otm_owner_def)
  let ?s1 = "(under_lock t ?s)\<lparr>clients := d, sent := sent s @ [(w, MsgTaskCancel tc)]\<rparr>"
  obtain ms where mon: "send_monitor t TS_canceling '''' '''' ?s1 = Ret () (?s1\<lparr>monitor := ms\<rparr>)"
    by (simp add: send_monitor_def get_worker_by_task_id_def publish_def andthen_run)
  have act: "action env (route env (Suc n)) (on_task_cancel env (Suc n)) (machine_state sm) ?ev (under_lock (event_task_id ?ev) ?s) =
      Ret (Some TS_canceling) (?s1\<lparr>monitor := ms\<rparr>)"
    using mon d holder valid sm(3) tc
    by (simp add: action_def act_task_cancel_def on_task_begin_def send_task_cancel_to_worker_def worker_on_task_cancel_def
        get_worker_by_task_id_def send_def andthen_run seq_run del: route.simps on_task_cancel.simps)
  have "route_body env (route env (Suc n)) (on_task_cancel env (Suc n)) ?ev ?s =
      seq (settle ?ev TS_canceling) (with_mgr (release_machine (event_task_id ?ev) (machine_id sm))) (?s1\<lparr>monitor := ms\<rparr>)"
    by (rule route_body_acts) (use sm(1,2) act in auto)
  moreover have "is_locked (mgr (core (?s1\<lparr>monitor := ms\<rparr>))) t"
    using st by (simp add: under_lock_def)
  ultimately obtain m where "route_body env (route env (Suc n)) (on_task_cancel env (Suc n)) ?ev ?s =
      Ret () (?s1\<lparr>monitor := ms, core := (core ?s1)\<lparr>mgr := m\<rparr>\<rparr>)" "state_of m t = Some TS_canceling"
    using settle_live [of TS_canceling "?s1\<lparr>monitor := ms\<rparr>" ?ev "machine_id sm"] by auto
  then show ?thesis using n w by simp
qed

section \<open>Reports of a worker that does not hold the task\<close>

lemma stale_report:
  assumes ok: "stats_ok (mgr (core s))" and ev: "reported_by ev = Some v"
    and holder: "policy_inv (policy (core s))" "held (core s) (event_task_id ev) = Some w" "w \<noteq> v"
  shows "route env (Suc n) ev s = Ret () s"
proof -
  let ?t = "event_task_id ev"
  have "policy_get_worker_by_task_id (policy (core s)) ?t = w" "worker_is_valid w"
    using al.get_worker [OF holder(1)] al.holder_member [OF holder(1,2)] holder(2) by simp_all
  then have stale: "\<not> is_task_owned_by_worker (under_lock ?t s) ?t v"
    using holder(3) by (simp add: is_task_owned_by_worker_def Let_def)
  show ?thesis
  proof (cases "dict_get (mgr_machines (mgr (core s))) ?t")
    case None
    then show ?thesis by (simp add: route_body_def get_state_machine_def)
  next
    case (Some sm)
    show ?thesis
    proof (cases "machine_locked sm")
      case True
      then show ?thesis using Some by (simp add: route_body_def get_state_machine_def Let_def)
    next
      case False
      have "with_mgr (lock_machine ?t) s = Ret () (under_lock ?t s)"
        by (simp add: with_mgr_def upd_core_def under_lock_def)
      moreover have "route_locked env (route env n) (on_task_cancel env n) ev (machine_state sm) (under_lock ?t s) = Ret () (under_lock ?t s)"
        using stale ev by (simp add: route_locked_def)
      moreover have "with_mgr (release_machine ?t (machine_id sm)) (under_lock ?t s) = Ret () s"
        using release_lock [OF ok Some False] by (simp add: with_mgr_def upd_core_def under_lock_def)
      ultimately show ?thesis using Some False by (simp add: route_body_def get_state_machine_def Let_def)
    qed
  qed
qed

section \<open>A worker that goes away\<close>

text \<open>
  A task placed again runs on a worker, to which it has been sent, or waits in the queue.
\<close>

definition placed :: "sched \<Rightarrow> TaskID \<Rightarrow> Task \<Rightarrow> bool" where
  "placed s t task \<longleftrightarrow> dict_get (tasks (core s)) t = Some task \<and>
     (task_state (core s) t = Some TS_inactive \<and> t \<in> set (unassigned (core s)) \<and> held (core s) t = None \<or>
      task_state (core s) t = Some TS_running \<and> (\<exists>v. held (core s) t = Some v \<and> (v, MsgTask task) \<in> set (sent s)))"

text \<open>What one event leaves of the tasks it is not about.\<close>

definition spares :: "TaskID \<Rightarrow> sched \<Rightarrow> sched \<Rightarrow> bool" where
  "spares t s s' \<longleftrightarrow> tasks (core s') = tasks (core s) \<and> set (unassigned (core s)) \<subseteq> set (unassigned (core s')) \<and>
     set (sent s) \<subseteq> set (sent s') \<and> policy_members (policy (core s')) = policy_members (policy (core s)) \<and>
     (\<forall>u. u \<noteq> t \<longrightarrow> task_state (core s') u = task_state (core s) u \<and> held (core s') u = held (core s) u)"

lemma placed_spares: "placed s u task \<Longrightarrow> spares t s s' \<Longrightarrow> u \<noteq> t \<Longrightarrow> placed s' u task"
  by (auto simp: placed_def spares_def)

lemma settle_spares:
  assumes "\<not> is_terminal target" "is_locked (mgr (core s1)) (event_task_id ev)"
    "seq (settle ev target) (with_mgr (release_machine (event_task_id ev) i)) s1 = Ret () s'" "u \<noteq> event_task_id ev"
  shows "task_state (core s') u = task_state (core s1) u"
  using assms by (auto simp: settle_def Let_def with_mgr_def upd_core_def state_of_commit)

lemma acquire_worker_members:
  assumes "policy_inv (policy (core s))" "held (core s) (taskId task) = None" "acquire_worker env task s = Ret w s'"
  shows "policy_members (policy (core s')) = policy_members (policy (core s))"
proof -
  obtain v p' where "policy_assign_task (env_order env (policy (core s)) (taskId task)) task (policy (core s)) = Ret v p'"
      "policy_members p' = policy_members (policy (core s))"
    using al.assign_task [OF assms(1,2), of "env_order env (policy (core s)) (taskId task)"] by blast
  moreover from this(1) have "s' = s\<lparr>core := (core s)\<lparr>policy := p'\<rparr>\<rparr>"
    using assms(3) by (simp add: acquire_worker_def with_policy_def)
  ultimately show ?thesis by simp
qed

lemma placed_again:
  assumes inv: "tc_inv W (core s)" and t: "t \<in> W" "t \<notin> locked (core s)" and st: "task_state (core s) t = Some st"
    and live: "st \<in> {TS_running, TS_balanceCanceling}" and pay: "dict_get (tasks (core s)) t = Some task"
  shows "\<exists>s'. route env (Suc n) (WorkerDisconnected t w) s = Ret () s' \<and> placed s' t task \<and> spares t s s'"
proof -
  let ?ev = "WorkerDisconnected t w" and ?l = "under_lock t s"
  obtain sm where sm: "dict_get (mgr_machines (mgr (core s))) t = Some sm" "machine_state sm = st"
    using st by (auto simp: state_of_def)
  have nl: "\<not> machine_locked sm" using t(2) sm(1) by (simp add: locked_def is_locked_def)
  have free: "held (core ?l) t = None" using tciD(9) [OF inv t(1)] by simp
  have id: "taskId task = t" using tciD(5) [OF inv pay] by simp
  have pol: "policy_inv (policy (core ?l))" using tciD(1) [OF inv] by simp
  obtain v p' where a: "acquire_worker env task ?l = Ret v (?l\<lparr>core := (core ?l)\<lparr>policy := p'\<rparr>\<rparr>)" "policy_inv p'"
      "policy_holder p' = (if worker_is_valid v then (held (core ?l))(t \<mapsto> v) else held (core ?l))"
    using acquire_worker_run [OF pol, of task env] free id by auto
  have mem: "policy_members p' = policy_members (policy (core s))"
    using acquire_worker_members [OF pol _ a(1)] free id by simp
  have lk: "is_locked (mgr (core ?l)) t" using st by (simp add: under_lock_def)
  have same: "task_state (core ?l) u = task_state (core s) u" for u by (simp add: under_lock_def)
  have finish: "\<exists>s'. route env (Suc n) ?ev s = Ret () s' \<and> placed s' t task \<and> spares t s s'"
    if dispatch: "acquire_and_dispatch env t ?l = Ret target s1" "\<not> is_terminal target" "mgr (core s1) = mgr (core ?l)"
      and placed: "\<And>m. state_of m t = Some target \<Longrightarrow> placed (s1\<lparr>core := (core s1)\<lparr>mgr := m\<rparr>\<rparr>) t task"
      and spares: "spares t ?l s1" for target s1
  proof -
    have act: "action env (route env n) (on_task_cancel env n) (machine_state sm) ?ev (under_lock (event_task_id ?ev) s) = Ret (Some target) s1"
      using dispatch(1) sm(2) live by (auto simp: action_def act_worker_disconnect_def)
    have body: "route_body env (route env n) (on_task_cancel env n) ?ev s =
        seq (settle ?ev target) (with_mgr (release_machine (event_task_id ?ev) (machine_id sm))) s1"
      by (rule route_body_acts) (use sm(1) nl act in auto)
    have lk1: "is_locked (mgr (core s1)) (event_task_id ?ev)" using lk dispatch(3) by simp
    obtain m where m: "seq (settle ?ev target) (with_mgr (release_machine (event_task_id ?ev) (machine_id sm))) s1 =
        Ret () (s1\<lparr>core := (core s1)\<lparr>mgr := m\<rparr>\<rparr>)" "state_of m t = Some target"
      using settle_live [OF dispatch(2) lk1, of "machine_id sm"] by auto
    have "state_of m u = task_state (core s1) u" if "u \<noteq> t" for u
      using settle_spares [OF dispatch(2) lk1 m(1), of u] that by simp
    then have "spares t s (s1\<lparr>core := (core s1)\<lparr>mgr := m\<rparr>\<rparr>)" using spares same by (simp add: spares_def)
    then show ?thesis using body m placed [OF m(2)] by simp
  qed
  show ?thesis
  proof (cases "worker_is_valid v")
    case True
    let ?s1 = "?l\<lparr>core := (core ?l)\<lparr>policy := p'\<rparr>, sent := sent s @ [(v, MsgTask task)]\<rparr>"
    obtain ms where mon: "send_monitor t TS_running (get_object_name (objects s) (funcObjectId task)) '''' ?s1 = Ret () (?s1\<lparr>monitor := ms\<rparr>)"
      by (simp add: send_monitor_def get_worker_by_task_id_def publish_def andthen_run)
    have "acquire_and_dispatch env t ?l = Ret TS_running (?s1\<lparr>monitor := ms\<rparr>)"
      using pay a(1) True mon
      by (simp add: acquire_and_dispatch_def object_name_def send_task_to_worker_def send_def andthen_run seq_run lookup_run under_lock_def)
    then show ?thesis by (rule finish) (use a(3) True pay mem in \<open>auto simp: placed_def spares_def\<close>)
  next
    case False
    let ?s1 = "?l\<lparr>core := (core ?l)\<lparr>policy := p', unassigned := unassigned (core s) @ [t]\<rparr>\<rparr>"
    obtain ms where mon: "send_monitor t TS_inactive (get_object_name (objects s) (funcObjectId task)) '''' ?s1 = Ret () (?s1\<lparr>monitor := ms\<rparr>)"
      by (simp add: send_monitor_def get_worker_by_task_id_def publish_def andthen_run)
    have "acquire_and_dispatch env t ?l = Ret TS_inactive (?s1\<lparr>monitor := ms\<rparr>)"
      using pay a(1) False mon
      by (simp add: acquire_and_dispatch_def object_name_def upd_core_def andthen_run seq_run lookup_run under_lock_def)
    then show ?thesis by (rule finish) (use a(3) False pay free mem in \<open>auto simp: placed_def spares_def\<close>)
  qed
qed

text \<open>All tasks of the worker, one after the other.\<close>

lemma all_placed_again:
  assumes "2 * k + 2 \<le> Suc n" "distinct ts" "nested (set ts) c0 k s" "locked c0 = {}"
    and "\<And>t. t \<in> set ts \<Longrightarrow> task_state (core s) t \<in> {Some TS_running, Some TS_balanceCanceling} \<and> dict_get (tasks (core s)) t = Some (pay t)"
  shows "\<exists>s'. for_each ts (\<lambda>t. on_worker_disconnect env (Suc n) t w) s = Ret () s' \<and> (\<forall>t \<in> set ts. placed s' t (pay t)) \<and>
    policy_members (policy (core s')) = policy_members (policy (core s)) \<and>
    (\<forall>u task. u \<notin> set ts \<longrightarrow> placed s u task \<longrightarrow> placed s' u task)"
  using assms(2-)
proof (induction ts arbitrary: s)
  case Nil
  then show ?case by simp
next
  case (Cons t ts)
  have lk: "t \<notin> locked (core s)" using Cons.prems(2,3) by (auto simp: nested_iff frame_def)
  have inv: "tc_inv (set (t # ts)) (core s)" using Cons.prems(2) by (simp add: nested_iff)
  obtain st where st: "task_state (core s) t = Some st" "st \<in> {TS_running, TS_balanceCanceling}"
      "dict_get (tasks (core s)) t = Some (pay t)"
    using Cons.prems(4) [of t] by auto
  obtain s1 where s1: "route env (Suc n) (WorkerDisconnected t w) s = Ret () s1" "placed s1 t (pay t)" "spares t s s1"
    using placed_again [OF inv _ lk st, of env n w] by (auto simp del: route.simps)
  have "nested (set (t # ts) - {t}) c0 k s1"
    using route_ok [OF assms(1), of "set (t # ts)" "WorkerDisconnected t w" c0 s env] Cons.prems(2) s1(1) by (auto simp del: route.simps)
  then have n1: "nested (set ts) c0 k s1" using Cons.prems(1) by simp
  have "\<exists>s'. for_each ts (\<lambda>t. on_worker_disconnect env (Suc n) t w) s1 = Ret () s' \<and> (\<forall>t \<in> set ts. placed s' t (pay t)) \<and>
      policy_members (policy (core s')) = policy_members (policy (core s1)) \<and>
      (\<forall>u task. u \<notin> set ts \<longrightarrow> placed s1 u task \<longrightarrow> placed s' u task)"
  proof (rule Cons.IH [OF _ n1 Cons.prems(3)])
    fix u assume u: "u \<in> set ts"
    then have "u \<noteq> t" using Cons.prems(1) by auto
    then show "task_state (core s1) u \<in> {Some TS_running, Some TS_balanceCanceling} \<and> dict_get (tasks (core s1)) u = Some (pay u)"
      using s1(3) Cons.prems(4) [of u] u by (auto simp: spares_def)
  qed (use Cons.prems(1) in simp)
  then show ?case
    using s1(1,2) s1(3) [unfolded spares_def] Cons.prems(1) placed_spares [OF _ s1(3)]
    by (auto simp: on_worker_disconnect_def simp del: route.simps)
qed

lemma worker_lost:
  assumes inv: "sched_inv s" and alive: "dict_has (worker_alive s) w" and src: "\<not> is_client_source w"
    and live: "\<And>t. held (core s) t = Some w \<Longrightarrow> task_state (core s) t \<noteq> Some TS_canceling"
  shows "\<exists>s'. perform env (Receive now w InWorkerDisconnectNotification) s = Ret () s' \<and>
    w \<notin> policy_members (policy (core s')) \<and>
    (\<forall>t. held (core s) t = Some w \<longrightarrow> (\<exists>task. dict_get (tasks (core s)) t = Some task \<and> placed s' t task))"
proof -
  have inv0: "tc_inv {} (core s)" "locked (core s) = {}" "gok (length (graphs s)) (graphs s)"
    using inv by (simp_all add: sched_inv_def gok_def running_graphs_le)
  obtain n where n: "fuel_for s = Suc n" "2 * length (graphs s) + 2 \<le> Suc n" by (simp add: fuel_for_def)
  obtain ts p' where p: "policy_remove_worker w (policy (core s)) = Ret ts p'" "policy_inv p'" "distinct ts"
      "set ts = {t. held (core s) t = Some w}"
      "policy_holder p' = (\<lambda>t. if held (core s) t = Some w then None else held (core s) t)"
      "policy_members p' = policy_members (policy (core s)) - {w}"
    using al.remove_worker [OF tciD(1) [OF inv0(1)], of w] by blast
  obtain s1 where s1: "seq (modify (\<lambda>s. s\<lparr>worker_alive := dict_pop w (worker_alive s)\<rparr>)) (seq (remove_worker_from_manager w)
      (publish (StateWorker w WS_disconnected []))) s = Ret () s1"
      "core s1 = core s" "graphs s1 = graphs s" "worker_alive s1 = dict_pop w (worker_alive s)"
    by (auto simp: remove_worker_from_manager_def publish_def Let_def seq_run split: option.splits)
  let ?s2 = "s1\<lparr>core := (core s)\<lparr>policy := p'\<rparr>\<rparr>"
  have nest: "nested (set ts) (core s) (length (graphs s)) ?s2"
    using tci_remove_worker [OF inv0(1,2) p(2,4,5)] inv0(3) s1(3) by (simp add: nested_iff)
  have kept: "\<exists>task. dict_get (tasks (core s)) t = Some task"
    and state: "task_state (core s) t \<in> {Some TS_running, Some TS_balanceCanceling}" if t: "held (core s) t = Some w" for t
  proof -
    obtain st where st: "task_state (core s) t = Some st" using tciD(6) [OF inv0(1), of t] t by auto
    have set: "settled [] {} (core s) t st" by (rule tciD(11) [OF inv0(1) st]) (simp add: inv0(2))
    then show "\<exists>task. dict_get (tasks (core s)) t = Some task" using t by (auto simp: settled_def dict_has_iff split: if_splits)
    show "task_state (core s) t \<in> {Some TS_running, Some TS_balanceCanceling}"
      using tciD(10) [OF inv0(1) st] live [OF t] set st t by (cases st) (auto simp: settled_def)
  qed
  obtain pay where pay: "\<And>t. held (core s) t = Some w \<Longrightarrow> dict_get (tasks (core s)) t = Some (pay t)"
    using kept by metis
  obtain s' where s': "for_each ts (\<lambda>t. on_worker_disconnect env (Suc n) t w) ?s2 = Ret () s'" "\<forall>t \<in> set ts. placed s' t (pay t)"
      "policy_members (policy (core s')) = policy_members p'"
    using all_placed_again [OF n(2) p(3) nest inv0(2), where pay = pay and env = env and w = w] state pay p(4)
    by (auto simp del: route.simps)
  have assoc: "seq a (seq b (seq c d)) = seq (seq a (seq b c)) d" for a b c :: "unit step" and d :: "unit step"
    by (simp add: fun_eq_iff seq_run split: outcome.split)
  have dis: "disconnect_worker env (Suc n) w s = for_each ts (\<lambda>t. on_worker_disconnect env (Suc n) t w) ?s2"
    using alive s1(1,2) p(1) unfolding disconnect_worker_def assoc by (simp add: with_policy_def seq_run andthen_run)
  have "perform env (Receive now w InWorkerDisconnectNotification) s = Ret () s'"
    using dis s'(1) src n(1) by (simp add: perform_def on_receive_message_def on_disconnect_notification_def noticed_def)
  then show ?thesis using s'(2,3) p(4,6) pay by auto
qed
section \<open>The state graph\<close>

text \<open>
  The graph the repository keeps as \<open>src/tests/scheduler/controllers/task_state_graph.txt\<close>: what an
  event may lead to from each state; \<open>None\<close> is a rejected event.
\<close>

fun state_graph :: "TaskState \<Rightarrow> TaskEvent \<Rightarrow> TaskState option set" where
  "state_graph TS_inactive (HasCapacity t w) = {Some TS_running}"
| "state_graph TS_inactive (TaskCancelRequested t c tc) = {Some TS_canceled}"
| "state_graph TS_running (TaskCancelRequested t c tc) = {Some TS_canceling, Some TS_canceledNotFound}"
| "state_graph TS_running (BalanceCancelRequested t) = {Some TS_balanceCanceling, None}"
| "state_graph TS_running (TaskResultReceived t w r) = {Some (task_result_target (resultType r))}"
| "state_graph TS_running (WorkerDisconnected t w) = {Some TS_running, Some TS_inactive}"
| "state_graph TS_canceling (CancelConfirmCanceled t w cc) = {Some TS_canceled}"
| "state_graph TS_canceling (CancelConfirmFailed t w cc) = {Some TS_running}"
| "state_graph TS_canceling (CancelConfirmNotFound t w cc) = {Some TS_canceledNotFound}"
| "state_graph TS_canceling (WorkerDisconnected t w) = {Some TS_canceled}"
| "state_graph TS_balanceCanceling (TaskCancelRequested t c tc) = {Some TS_canceling}"
| "state_graph TS_balanceCanceling (TaskResultReceived t w r) = {Some (task_result_target (resultType r))}"
| "state_graph TS_balanceCanceling (CancelConfirmCanceled t w cc) = {Some TS_running, Some TS_inactive}"
| "state_graph TS_balanceCanceling (CancelConfirmFailed t w cc) = {Some TS_running}"
| "state_graph TS_balanceCanceling (CancelConfirmNotFound t w cc) = {Some TS_running, Some TS_inactive}"
| "state_graph TS_balanceCanceling (WorkerDisconnected t w) = {Some TS_running, Some TS_inactive}"
| "state_graph _ _ = {None}"

lemma dispatch_states: "acquire_and_dispatch env t s = Ret st s' \<Longrightarrow> st = TS_running \<or> st = TS_inactive"
  by (auto simp: acquire_and_dispatch_def andthen_run seq_run split: outcome.splits if_splits)

lemma action_in_graph:
  assumes "action env R C source ev s = Ret r s'"
  shows "r \<in> state_graph source ev"
  using assms dispatch_states
  by (cases source; cases ev)
    (fastforce simp: action_def act_has_capacity_def act_task_cancel_def act_balance_cancel_def act_task_result_def
      act_confirm_canceled_def act_confirm_failed_def act_confirm_not_found_def act_worker_disconnect_def Let_def
      andthen_run seq_run split: outcome.splits if_splits)+

section \<open>When the balancer acts\<close>

text \<open>The decisions of successive rounds of the balance routine, given the advice of each round.\<close>

fun balance_rounds :: "env \<Rightarrow> balance_advice list \<Rightarrow> sched \<Rightarrow> bool list" where
  "balance_rounds env [] s = []"
| "balance_rounds env (advice # rest) s =
     (case should_balance env advice s of
        Ret go s' \<Rightarrow> go # balance_rounds env rest s'
      | _ \<Rightarrow> [])"

lemma dict_same_refl: "dict_ok d \<Longrightarrow> dict_same d d"
  by (auto simp: dict_same_def list_all_iff dict_get_def dict_ok_def)

lemma steady_rounds:
  assumes "dict_ok advice" "dict_same (last_advice s) advice"
  shows "balance_rounds env (replicate n advice) s =
    map (\<lambda>i. Suc (same_advice_count s + i) = env_trigger_times env \<and> advice \<noteq> []) [0..<n]"
  using assms(2)
proof (induction n arbitrary: s)
  case (Suc n)
  let ?s = "s\<lparr>same_advice_count := same_advice_count s + 1\<rparr>"
  have "balance_rounds env (replicate n advice) ?s =
      map (\<lambda>i. Suc (same_advice_count ?s + i) = env_trigger_times env \<and> advice \<noteq> []) [0..<n]"
    by (rule Suc.IH) (use Suc.prems in simp)
  then show ?case using Suc.prems by (simp add: should_balance_def upt_conv_Cons map_Suc_upt [symmetric] del: upt_Suc)
qed simp

lemma fresh_rounds:
  assumes "dict_ok advice" "\<not> dict_same (last_advice s) advice"
  shows "balance_rounds env (replicate n advice) s = map (\<lambda>i. i = env_trigger_times env \<and> advice \<noteq> []) [0..<n]"
proof (cases n)
  case (Suc m)
  let ?s = "s\<lparr>last_advice := advice, same_advice_count := 0\<rparr>"
  have "balance_rounds env (replicate m advice) ?s = map (\<lambda>i. Suc (same_advice_count ?s + i) = env_trigger_times env \<and> advice \<noteq> []) [0..<m]"
    by (rule steady_rounds [OF assms(1)]) (simp add: dict_same_refl assms(1))
  then show ?thesis using Suc assms(2) by (simp add: should_balance_def upt_conv_Cons map_Suc_upt [symmetric] del: upt_Suc)
qed simp

end
