(* ===== verification/Journey.thy ===== *)
theory Journey
  imports ClientCalls ClientFutures WorkerRuns Delivery
begin

text \<open>
  The parts together: a client, the scheduler, the agent of a worker and one of its processors, each in any state it can reach,
  and the messages that take a call from one to the next.
\<close>

section \<open>The way back\<close>

text \<open>The tables of the three parts agree that the task of a client runs on a processor of a worker, and the client waits for it.\<close>

definition scheduler_runs :: "sched \<Rightarrow> TaskID \<Rightarrow> ClientID \<Rightarrow> WorkerID \<Rightarrow> bool" where
  "scheduler_runs s t c w \<longleftrightarrow> otm_owner (clients s) t = Some c \<and> \<not> is_graph_subtask s t \<and>
     task_state (core s) t \<in> {Some TS_running, Some TS_balanceCanceling} \<and> held (core s) t = Some w"

definition worker_runs :: "agent \<Rightarrow> Task \<Rightarrow> nat \<Rightarrow> ProcessorID \<Rightarrow> bool" where
  "worker_runs s task pid p \<longleftrightarrow> current_task s = Some task \<and> wa_current s = Some pid \<and> h_processor_id (holder_of s pid) = Some p"

definition client_waits :: "client_agent \<Rightarrow> TaskID \<Rightarrow> bool" where
  "client_waits s t \<longleftrightarrow> t \<in> set (ca_task_ids s) \<and>
     (case dict_get (ca_futures s) t of None \<Rightarrow> False | Some f \<Rightarrow> sf_state f = FS_RUNNING \<and> (\<not> sf_is_delayed f \<or> 0 < sf_listeners f))"

text \<open>What the future of a call becomes.\<close>

definition call_value :: "TaskResultType \<times> bytes \<Rightarrow> future_value" where
  "call_value res = (if fst res = TR_success then ResultValue (snd res) else ExceptionValue (RemoteException (snd res)))"

text \<open>
  The result of a processor on its way: the agent passes it to the scheduler, the scheduler to the client, the client asks for the object it
  names, and what the storage holds under that id becomes the value of the future.
\<close>

definition result_returns ::
  "env \<Rightarrow> agent_env \<Rightarrow> int \<Rightarrow> int \<Rightarrow> ClientID \<Rightarrow> WorkerID \<Rightarrow> ProcessorID \<Rightarrow> TaskResult \<Rightarrow> (ObjectID, bytes) dict \<Rightarrow> future_value \<Rightarrow>
    sched \<Rightarrow> agent \<Rightarrow> client_agent \<Rightarrow> bool" where
  "result_returns senv wenv now clock c w p r storage v ss ws cs \<longleftrightarrow>
     (\<exists>ws' r' ss' cs' f' q bytes cs'' f''.
        agent_perform wenv (IntResult p r) ws = Ret () ws' \<and> wa_sent ws' = wa_sent ws @ [AgentResult r'] \<and>
        perform senv (Receive now w (InTaskResult r')) ss = Ret () ss' \<and> (c, MsgTaskResult r') \<in> set (sent ss') \<and>
        client_perform (FromScheduler clock (FS_TaskResult r')) cs = Ret () cs' \<and>
        dict_get (ca_futures cs') (result_taskId r) = Some f' \<and> sf_result_object_future f' = Some q \<and>
        dict_get storage (fetch_object_id q) = Some bytes \<and>
        client_perform (Fetched (result_taskId r) (Inr bytes)) cs' = Ret () cs'' \<and>
        dict_get (ca_futures cs'') (result_taskId r) = Some f'' \<and> sf_value f'' = Some v)"

lemma result_way_back:
  assumes sched: "reachable senv strategy sc ss" "scheduler_runs ss (taskId task) c w"
    and worker: "agent_reachable wenv ws" "worker_runs ws task pid p" "length (we_profile wenv pid) = 16"
    and client: "agent_reach cs" "client_waits cs (taskId task)"
    and r: "result_taskId r = taskId task" "resultType r \<noteq> TR_failedWorkerDied" "result_objects r = [oid]" "length oid = 32"
    and stored: "dict_get storage oid = Some bytes"
  shows "result_returns senv wenv now clock c w p r storage (call_value (resultType r, bytes)) ss ws cs"
proof -
  let ?r = "r\<lparr>result_metadata := we_profile wenv pid\<rparr>"
  obtain ws' where ws': "agent_perform wenv (IntResult p r) ws = Ret () ws'" "wa_sent ws' = wa_sent ws @ [AgentResult ?r]"
    using agent_result_delivered [OF agent_reachable_inv [OF worker(1)]] worker(2) r(1) by (fastforce simp: worker_runs_def)
  obtain st where st: "task_state (core ss) (taskId task) = Some st" "st \<in> {TS_running, TS_balanceCanceling}" using sched(2) by (auto simp: scheduler_runs_def)
  have inv: "sched_inv ss" "otm_inv (clients ss)" using reachable_inv [OF sched(1)] reachable_ledger [OF sched(1)] by (simp_all add: ledger_def)
  obtain ss' where ss': "perform senv (Receive now w (InTaskResult ?r)) ss = Ret () ss'" "(c, MsgTaskResult ?r) \<in> set (sent ss')"
    using result_delivered [OF inv _ st, of c w ?r senv now] sched(2) r(1) by (auto simp: scheduler_runs_def)
  obtain f where f: "dict_get (ca_futures cs) (result_taskId ?r) = Some f" "sf_state f = FS_RUNNING" "\<not> sf_is_delayed f \<or> 0 < sf_listeners f"
    using client(2) r(1) by (auto simp: client_waits_def split: option.splits)
  have t: "result_taskId ?r \<in> set (ca_task_ids cs)" using client(2) r(1) by (simp add: client_waits_def)
  obtain cs' f' where cs': "client_perform (FromScheduler clock (FS_TaskResult ?r)) cs = Ret () cs'"
      "dict_get (ca_futures cs') (result_taskId r) = Some f'" "sf_state f' = FS_FINISHED" "\<not> sf_result_received f'"
      "sf_result_object_future f' = Some \<lparr>fetch_object_id = oid, fetch_is_exception = (resultType r \<noteq> TR_success), fetch_delete_after = (sf_group_task_id f = None)\<rparr>"
    using client_result_ready [OF client(1) t f, of oid clock] r(2-4) worker(3) by fastforce
  obtain cs'' f'' where cs'': "client_perform (Fetched (result_taskId r) (Inr bytes)) cs' = Ret () cs''" "dict_get (ca_futures cs'') (result_taskId r) = Some f''"
      "sf_value f'' = Some (call_value (resultType r, bytes))"
    using fetched_value [OF cs'(2-5), of bytes] by (auto simp: call_value_def)
  show ?thesis unfolding result_returns_def using ws' ss' cs'(1,2,5) stored cs'' by fastforce
qed

lemma answered_result:
  assumes "answered_with penv task stream res s s'" "\<forall>b. length (pe_md5 penv b) = 16" "\<forall>i. length (pe_tag penv i) = 16"
  obtains r oid where "last (pr_to_agent s') = ProcResult r" "result_taskId r = taskId task" "resultType r = fst res" "result_objects r = [oid]"
    "length oid = 32" "dict_get (pr_storage s') oid = Some (snd res)"
proof -
  obtain i logs where a: "dict_get (pr_storage s') (pe_md5 penv (task_source task) @ pe_tag penv i) = Some (snd res)"
      "pr_to_agent s' = pr_to_agent s @ logs @ [ProcCreate (task_source task) (pe_md5 penv (task_source task) @ pe_tag penv i)
          (''<res '' @ pe_repr penv (pe_md5 penv (task_source task) @ pe_tag penv i) @ ''>''),
        ProcResult \<lparr>result_taskId = taskId task, resultType = fst res, result_metadata = [], result_objects = [pe_md5 penv (task_source task) @ pe_tag penv i]\<rparr>]"
    using assms(1) by (auto simp: answered_with_def Let_def)
  show thesis
    by (rule that [of "\<lparr>result_taskId = taskId task, resultType = fst res, result_metadata = [], result_objects = [pe_md5 penv (task_source task) @ pe_tag penv i]\<rparr>"])
      (use a assms(2,3) in simp_all)
qed

lemma result_of_type: "fst (result_of penv e) \<noteq> TR_failedWorkerDied"
  by (simp add: result_of_def split: sum.split)

text \<open>A call of a client, computed by a processor, comes back as the value of the client's future.\<close>

lemma call_comes_back:
  assumes client: "client_reach env val cb" "client_ok env val" "ce_serializer env \<notin> range val" "convert_kwargs_to_args ps args kwargs = Inr as"
      "live_together val (fn # arg_objects as)" "submit_verbose env fn name (Some ps) args kwargs caps reserialize cb = Ret task cb'"
      "\<not> bad_tag env cb'" "list_all2 (argument_bytes env cb') as bs"
    and world: "world_ok penv C ser content" "ce_identity env \<in> C" "pe_md5 penv = ce_md5 env"
    and proc: "proc_reach penv C content s" "holds_uploads cb' s" "transport_ok penv (length as + 2) s"
    and sched: "reachable senv strategy sc ss" "scheduler_runs ss (taskId task) (ce_identity env) w"
    and worker: "agent_reachable wenv ws" "worker_runs ws task pid p" "length (we_profile wenv pid) = 16"
    and waits: "agent_reach cs" "client_waits cs (taskId task)"
  shows "\<exists>s' r. on_received_task penv task s = Ret () s' \<and> last (pr_to_agent s') = ProcResult r \<and>
    result_returns senv wenv now clock (ce_identity env) w p r (pr_storage s')
      (call_value (result_of penv (evaluated penv (ser (ce_identity env)) (po_payload fn) bs))) ss ws cs"
proof -
  let ?res = "result_of penv (evaluated penv (ser (ce_identity env)) (po_payload fn) bs)"
  obtain s' where s': "on_received_task penv task s = Ret () s'" "answered_with penv task (ce_stream_output env) ?res s s'"
    using call_computed [OF client world proc] by blast
  have len: "\<forall>b. length (pe_md5 penv b) = 16" "\<forall>i. length (pe_tag penv i) = 16" using world(1) proc(3) by (simp_all add: world_ok_def transport_ok_def)
  obtain r oid where r: "last (pr_to_agent s') = ProcResult r" "result_taskId r = taskId task" "resultType r = fst ?res" "result_objects r = [oid]"
      "length oid = 32" "dict_get (pr_storage s') oid = Some (snd ?res)"
    by (rule answered_result [OF s'(2) len])
  have "result_returns senv wenv now clock (ce_identity env) w p r (pr_storage s') (call_value (resultType r, snd ?res)) ss ws cs"
    by (rule result_way_back [OF sched worker waits r(2) _ r(4-6)]) (simp add: r(3) result_of_type)
  then show ?thesis using s'(1) r(1,3) by (metis prod.collapse)
qed

section \<open>The way out\<close>

text \<open>A new task is taken in: it goes to a worker with room, or waits in the queue when no worker takes it.\<close>

definition admitted_task :: "Task \<Rightarrow> Task" where
  "admitted_task task = task\<lparr>task_capabilities := capabilities_to_dict (task_capabilities task)\<rparr>"

lemma perform_task: "perform env (Receive now c (InTask task)) s = on_task_new env (route env (fuel_for s)) task (noticed now c s)"
  by (simp add: perform_def Let_def on_receive_message_def)

lemma capacity_dispatches:
  assumes sm: "dict_get (mgr_machines (mgr (core s))) t = Some sm" "\<not> machine_locked sm" "machine_state sm = TS_inactive"
    and task: "dict_get (tasks (core s)) t = Some task" and w: "held (core s) t = Some w"
  shows "\<exists>s'. route env (Suc n) (HasCapacity t w) s = Ret () s' \<and> placed s' t task \<and> clients s' = clients s \<and> graph_of s' = graph_of s"
proof -
  let ?ev = "HasCapacity t w" and ?l = "under_lock t s"
  let ?s1 = "?l\<lparr>sent := sent s @ [(w, MsgTask task)]\<rparr>"
  obtain ms where mon: "send_monitor t TS_running (get_object_name (objects s) (funcObjectId task)) '''' ?s1 = Ret () (?s1\<lparr>monitor := ms\<rparr>)"
    by (simp add: send_monitor_def get_worker_by_task_id_def publish_def andthen_run)
  have act: "action env (route env n) (on_task_cancel env n) (machine_state sm) ?ev (under_lock (event_task_id ?ev) s) = Ret (Some TS_running) (?s1\<lparr>monitor := ms\<rparr>)"
    using task mon sm(3)
    by (simp add: action_def act_has_capacity_def send_task_to_worker_def object_name_def send_def andthen_run seq_run lookup_run under_lock_def)
  have body: "route_body env (route env n) (on_task_cancel env n) ?ev s =
      seq (settle ?ev TS_running) (with_mgr (release_machine (event_task_id ?ev) (machine_id sm))) (?s1\<lparr>monitor := ms\<rparr>)"
    by (rule route_body_acts) (use sm(1,2) act in auto)
  have "is_locked (mgr (core (?s1\<lparr>monitor := ms\<rparr>))) (event_task_id ?ev)" using sm(1) by (simp add: under_lock_def state_of_def)
  then obtain m where m: "route_body env (route env n) (on_task_cancel env n) ?ev s = Ret () (?s1\<lparr>monitor := ms, core := (core ?s1)\<lparr>mgr := m\<rparr>\<rparr>)"
      "state_of m t = Some TS_running"
    using settle_live [of TS_running "?s1\<lparr>monitor := ms\<rparr>" ?ev "machine_id sm"] body by auto
  then show ?thesis using task w by (auto simp: placed_def)
qed

lemma new_task_taken:
  assumes inv: "sched_inv s" and new: "task_state (core s) (taskId task0) = None" and own: "otm_inv (clients s)" "otm_owner (clients s) (taskId task0) = None"
  shows "\<exists>s'. perform env (Receive now c (InTask task0)) s = Ret () s' \<and> placed s' (taskId task0) (admitted_task task0) \<and>
    otm_owner (clients s') (taskId task0) = Some (task_source task0) \<and> graph_of s' = graph_of s"
proof -
  let ?t = "taskId task0" and ?task = "admitted_task task0" and ?s = "noticed now c s"
  have id: "taskId ?task = ?t" "task_source ?task = task_source task0" by (simp_all add: admitted_task_def)
  obtain n where n: "fuel_for s = Suc n" by (metis fuel_for_Suc)
  obtain m' where m: "add_state_machine ?t (mgr (core s)) = Inr m'" using add_state_machine_fresh [OF new] by blast
  have inv0: "tc_inv {} (core s)" using inv by (simp add: sched_inv_def)
  have free: "held (core s) ?t = None" by (rule gone_task(1) [OF inv new])
  obtain d where d: "otm_add (task_source task0) ?t (clients s) = Inr d" using otm_add_fail_iff [of "task_source task0" ?t "clients s"] own(2) by (cases "otm_add (task_source task0) ?t (clients s)") auto
  have owner: "otm_owner d ?t = Some (task_source task0)" using otm_add_spec(2) [OF own(1) d] by simp
  let ?s2 = "?s\<lparr>clients := d, core := (core s)\<lparr>mgr := m', tasks := dict_set ?t ?task (tasks (core s))\<rparr>\<rparr>"
  have h2: "policy_inv (policy (core ?s2))" "held (core ?s2) (taskId ?task) = None" using tciD(1) [OF inv0] free id by simp_all
  obtain w p' where a: "acquire_worker env ?task ?s2 = Ret w (?s2\<lparr>core := (core ?s2)\<lparr>policy := p'\<rparr>\<rparr>)" "policy_inv p'"
      "policy_holder p' = (if worker_is_valid w then (held (core ?s2))(taskId ?task \<mapsto> w) else held (core ?s2))"
    by (rule acquire_worker_run [OF h2])
  let ?s3 = "?s2\<lparr>core := (core ?s2)\<lparr>policy := p'\<rparr>\<rparr>"
  have run: "on_task_new env (route env (fuel_for s)) task0 ?s =
      (if \<not> worker_is_valid w
       then seq (upd_core (\<lambda>c. c\<lparr>unassigned := unassigned c @ [?t]\<rparr>))
              (andthen (object_name (funcObjectId ?task)) (\<lambda>name. send_monitor ?t TS_inactive name '''')) ?s3
       else route env (fuel_for s) (HasCapacity ?t w) ?s3)"
    using new m d a(1) id unfolding on_task_new_def Let_def admitted_task_def [symmetric]
    by (simp add: get_state_machine_def state_of_def add_machine_def on_task_begin_def upd_core_def del: route.simps)
  have sm: "dict_get (mgr_machines m') ?t = Some (new_machine (mgr_next (mgr (core s))) (mgr_debug (mgr (core s))))"
    using m by (auto simp: add_state_machine_def split: if_splits)
  show ?thesis
  proof (cases "worker_is_valid w")
    case True
    obtain s' where "route env (Suc n) (HasCapacity ?t w) ?s3 = Ret () s'" "placed s' ?t ?task" "clients s' = d" "graph_of s' = graph_of s"
      using capacity_dispatches [of ?s3 ?t _ ?task w env n] sm a(3) True id by (auto simp: new_machine_def simp del: route.simps)
    then show ?thesis using run True n owner by (simp add: perform_task del: route.simps)
  next
    case False
    let ?s4 = "?s3\<lparr>core := (core ?s3)\<lparr>unassigned := unassigned (core ?s3) @ [?t]\<rparr>\<rparr>"
    obtain ms where "send_monitor ?t TS_inactive (get_object_name (objects ?s4) (funcObjectId ?task)) '''' ?s4 = Ret () (?s4\<lparr>monitor := ms\<rparr>)"
      by (simp add: send_monitor_def get_worker_by_task_id_def publish_def andthen_run)
    then have "perform env (Receive now c (InTask task0)) s = Ret () (?s4\<lparr>monitor := ms\<rparr>)"
      using run False by (simp add: perform_task upd_core_def object_name_def seq_run andthen_run)
    moreover have "state_of m' ?t = Some TS_inactive" using sm by (simp add: state_of_def new_machine_def)
    ultimately show ?thesis using a(3) False owner free by (auto simp: placed_def id)
  qed
qed

text \<open>An idle worker: its routine holds the lock and waits for a task, the queue is empty and the current processor is ready.\<close>

definition worker_idle :: "agent \<Rightarrow> nat \<Rightarrow> ProcessorID \<Rightarrow> bool" where
  "worker_idle s pid p \<longleftrightarrow> wa_phase s = WaitForTask \<and> wa_lock s \<and> wa_queued s = [] \<and> wa_current s = Some pid \<and>
     h_processor_id (holder_of s pid) = Some p \<and> dict_has (wa_profilers s) pid"

lemma idle_worker_free:
  assumes inv: "agent_inv s" and idle: "worker_idle s pid p"
  shows "h_task (holder_of s pid) = None" "wa_processing s = []" "spq_prio (wa_queue s) = (\<lambda>_. None)" "spq_inv (wa_queue s)"
proof -
  note inv' = agent_invD [OF inv, of pid]
  have cur: "wa_current s = Some pid" using idle by (simp add: worker_idle_def)
  show none: "h_task (holder_of s pid) = None"
    using inv'(2) [OF cur] idle by (cases "h_task (holder_of s pid)") (auto simp: running_ok_def worker_idle_def)
  have pool: "pool {pid} {} s" using inv'(1) [OF cur] none by simp
  have "dict_get (wa_suspended s) t = None" for t
    using poolD(1) [OF pool, of t] idle by (cases "dict_get (wa_suspended s) t") (auto simp: worker_idle_def)
  then show "wa_processing s = []" using poolD(5) [OF pool] by (cases "wa_processing s") (auto simp: dict_has_iff)
  show "spq_inv (wa_queue s)" "spq_prio (wa_queue s) = (\<lambda>_. None)"
    using queue_okD(1,2) [OF poolD(10) [OF pool]] idle by (auto simp: worker_idle_def fun_eq_iff)
qed

text \<open>It hands a new task to its processor in the next round of the routine.\<close>

lemma task_handed_over:
  assumes reach: "agent_reachable env s" and idle: "worker_idle s pid p" and k: "get_task_priority task = Inr k"
  shows "\<exists>s1 s2. agent_perform env (ExtTask task) s = Ret () s1 \<and> agent_perform env RoutineTask s1 = Ret () s2 \<and> agent_reachable env s2 \<and>
    worker_runs s2 task pid p \<and> wa_internal s2 = wa_internal s @ [(p, ProcessorTask task)]"
proof -
  note free = idle_worker_free [OF agent_reachable_inv [OF reach] idle]
  let ?t = "taskId task" and ?s1 = "enqueued (queue_priority k False) task s"
  have cur: "current_task s = None" using free(1) idle by (simp add: current_task_def worker_idle_def)
  have s1: "agent_perform env (ExtTask task) s = Ret () ?s1"
    using k cur by (simp add: wa_on_task_new_def wa_enqueue_def of_sum_def suspend_if_priority_is_higher_def)
  have q1: "spq_inv (wa_queue ?s1)" "spq_prio (wa_queue ?s1) = [?t \<mapsto> queue_priority k False]" using apq.put [of "wa_queue s" ?t] free(3,4) by auto
  have "spq_prio (wa_queue ?s1) ?t = Some (queue_priority k False)" by (simp only: q1(2) fun_upd_same)
  then obtain x y q2 where get: "apq_get_nowait (wa_queue ?s1) = Inr ((x, y), q2)" by (rule apq.get_nonempty [OF q1(1)])
  have y: "y = ?t" using apq.get [OF q1(1) get] q1(2) by (auto split: if_splits)
  let ?s2 = "taken ?t q2 ?s1"
  let ?s3 = "upd_holder pid (\<lambda>h. h\<lparr>h_task := Some task\<rparr>) (?s2\<lparr>wa_processing := set_add ?t []\<rparr>)"
  let ?s4 = "?s3\<lparr>wa_profilers := dict_set pid (Some ?t) (wa_profilers s), wa_internal := wa_internal s @ [(p, ProcessorTask task)]\<rparr>"
  have internal: "wa_internal (upd_holder i f u) = wa_internal u" for i f u by (simp add: upd_holder_def)
  have s4: "agent_perform env RoutineTask ?s1 = Ret () ?s4"
    using get y idle free(1,2) internal
    by (simp add: routine_task_def worker_idle_def seq_run andthen_run lookup_run pm_on_task_def check_def current_processor_is_initialized_def
        with_current_def profile_task_start_def)
  have "agent_reachable env ?s1" by (rule agent_reachable.step [OF reach _ s1]) (use free(2) idle in \<open>simp add: worker_idle_def\<close>)
  then have "agent_reachable env ?s4" by (rule agent_reachable.step [OF _ _ s4]) simp
  moreover have "worker_runs ?s4 task pid p" using idle by (simp add: worker_runs_def current_task_def worker_idle_def)
  ultimately show ?thesis using s1 s4 by (intro exI [of _ ?s1] exI [of _ ?s4]) simp
qed

section \<open>There and back\<close>

text \<open>
  A worker that gets the task of a call when it is idle: its agent hands the task to the processor, the processor computes
  it, and the result returns to the client.
\<close>

definition call_served ::
  "env \<Rightarrow> agent_env \<Rightarrow> ('v, 'z) proc_env \<Rightarrow> int \<Rightarrow> int \<Rightarrow> Task \<Rightarrow> WorkerID \<Rightarrow> ProcessorID \<Rightarrow> future_value \<Rightarrow>
    sched \<Rightarrow> agent \<Rightarrow> ('v, 'z) processor \<Rightarrow> client_agent \<Rightarrow> bool" where
  "call_served senv wenv penv now clock task w p v ss ws s cs \<longleftrightarrow>
     (\<exists>ws1 ws2 s' r. agent_perform wenv (ExtTask task) ws = Ret () ws1 \<and> agent_perform wenv RoutineTask ws1 = Ret () ws2 \<and>
        wa_internal ws2 = wa_internal ws @ [(p, ProcessorTask task)] \<and>
        on_received_task penv task s = Ret () s' \<and> last (pr_to_agent s') = ProcResult r \<and>
        result_returns senv wenv now clock (task_source task) w p r (pr_storage s') v ss ws2 cs)"

lemma submitted_task_capabilities:
  "submit_verbose env fn name sig args kwargs caps reserialize s = Ret task s' \<Longrightarrow> task_capabilities task = caps"
  by (auto simp: submit_verbose_def client_submit_one_def andthen_run seq_run of_sum_def Let_def split: outcome.splits option.splits sum.splits)

lemma admitted_same: "dict_ok (task_capabilities task) \<Longrightarrow> admitted_task task = task"
  using foldl_dict_set_fresh [of "[]" "task_capabilities task"] by (simp add: admitted_task_def capabilities_to_dict_def)

lemma call_there_and_back:
  assumes client: "client_reach env val cb" "client_ok env val" "ce_serializer env \<notin> range val" "convert_kwargs_to_args ps args kwargs = Inr as"
      "live_together val (fn # arg_objects as)" "submit_verbose env fn name (Some ps) args kwargs caps reserialize cb = Ret task cb'"
      "\<not> bad_tag env cb'" "list_all2 (argument_bytes env cb') as bs"
    and caps: "dict_ok caps" and prio: "0 \<le> flag_priority (client_task_flags env)"
    and world: "world_ok penv C ser content" "ce_identity env \<in> C" "pe_md5 penv = ce_md5 env"
    and proc: "proc_reach penv C content s" "holds_uploads cb' s" "transport_ok penv (length as + 2) s"
    and sched: "reachable senv strategy sc ss" "task_state (core ss) (taskId task) = None" "otm_owner (clients ss) (taskId task) = None" "\<not> is_graph_subtask ss (taskId task)"
    and waits: "agent_reach cs" "client_waits cs (taskId task)"
  shows "\<exists>ss'. perform senv (Receive now (ce_identity env) (InTask task)) ss = Ret () ss' \<and>
    (taskId task \<in> set (unassigned (core ss')) \<or>
     (\<exists>w. (w, MsgTask task) \<in> set (sent ss') \<and>
        (\<forall>wenv ws pid p. agent_reachable wenv ws \<and> worker_idle ws pid p \<and> length (we_profile wenv pid) = 16 \<longrightarrow>
           call_served senv wenv penv later clock task w p (call_value (result_of penv (evaluated penv (ser (ce_identity env)) (po_payload fn) bs))) ss' ws s cs)))"
proof -
  let ?t = "taskId task"
  note fields = submit_task_fields [OF client(6)]
  have inv: "sched_inv ss" "otm_inv (clients ss)" using reachable_inv [OF sched(1)] reachable_ledger [OF sched(1)] by (simp_all add: ledger_def)
  have same: "admitted_task task = task" using admitted_same submitted_task_capabilities [OF client(6)] caps by simp
  obtain ss' where ss': "perform senv (Receive now (ce_identity env) (InTask task)) ss = Ret () ss'" "placed ss' ?t task"
      "otm_owner (clients ss') ?t = Some (ce_identity env)" "graph_of ss' = graph_of ss"
    using new_task_taken [OF inv(1) sched(2) inv(2) sched(3), of senv now "ce_identity env"] same fields(1) by auto
  have reach: "reachable senv strategy sc ss'"
    by (rule reachable.next_state [OF sched(1) sched_step.step [of "Receive now (ce_identity env) (InTask task)"]]) (simp_all add: ss'(1))
  have prio': "get_task_priority task = Inr (flag_priority (client_task_flags env))"
    using flags_roundtrip [of "client_task_flags env"] fields(2) prio by (simp add: get_task_priority_def)
  show ?thesis
  proof (cases "?t \<in> set (unassigned (core ss'))")
    case False
    then obtain w where w: "held (core ss') ?t = Some w" "(w, MsgTask task) \<in> set (sent ss')" "task_state (core ss') ?t = Some TS_running"
      using ss'(2) by (auto simp: placed_def)
    then have runs: "scheduler_runs ss' ?t (ce_identity env) w" using ss'(3,4) sched(4) by (simp add: scheduler_runs_def is_graph_subtask_def)
    have "call_served senv wenv penv later clock task w p (call_value (result_of penv (evaluated penv (ser (ce_identity env)) (po_payload fn) bs))) ss' ws s cs"
      if ws: "agent_reachable wenv ws" "worker_idle ws pid p" "length (we_profile wenv pid) = 16" for wenv ws pid p
    proof -
      obtain ws1 ws2 where ws2: "agent_perform wenv (ExtTask task) ws = Ret () ws1" "agent_perform wenv RoutineTask ws1 = Ret () ws2"
          "agent_reachable wenv ws2" "worker_runs ws2 task pid p" "wa_internal ws2 = wa_internal ws @ [(p, ProcessorTask task)]"
        using task_handed_over [OF ws(1,2) prio'] by blast
      show ?thesis
        using call_comes_back [OF client world proc reach runs ws2(3,4) ws(3) waits, of later clock] ws2(1,2,5) fields(1)
        unfolding call_served_def by metis
    qed
    then show ?thesis using ss'(1) w(2) by blast
  qed (use ss'(1) in blast)
qed

end
