(* ===== verification/GraphFaults.thy ===== *)
theory GraphFaults
  imports Delivery
begin

text \<open>
  Where the graph controller raises: a submitted graph with a cycle. The ids of the graph and
  its subtasks are registered before the sorter looks for cycles, so they stay behind.
\<close>

section \<open>Registering the subtasks\<close>

definition register_graph :: "env \<Rightarrow> Task list \<Rightarrow> (TaskID, TaskID list) dict \<Rightarrow> (TaskID, TaskID list) dict" where
  "register_graph env ts graph =
     foldl (\<lambda>d task. dict_set (taskId task) (sort_key (env_iter env) (required_task_ids task)) d) graph ts"

lemma register_run:
  "\<exists>infos' dep' s'. register_subtasks env gt ts (infos, dep, graph) s = Ret (infos', dep', register_graph env ts graph) s' \<and>
    clients s' = clients s \<and> graphs s' = graphs s \<and> sent s' = sent s \<and> core s' = core s \<and>
    (\<forall>t. dict_get (graph_of s') t = (if t \<in> taskId ` set ts then Some (graph_taskId gt) else dict_get (graph_of s) t))"
proof (induction ts arbitrary: infos dep graph s)
  case (Cons task ts)
  let ?t = "taskId task" and ?req = "sort_key (env_iter env) (required_task_ids task)"
  let ?s1 = "s\<lparr>graph_of := dict_set ?t (graph_taskId gt) (graph_of s)\<rparr>"
  obtain ms where mon: "publish (StateGraphTask (graph_taskId gt) ?t (if ?t \<in> set (graph_targets gt) then NT_target else NT_normal) ?req) ?s1 =
      Ret () (?s1\<lparr>monitor := ms\<rparr>)"
    by (simp add: publish_def)
  have "register_graph env (task # ts) graph = register_graph env ts (dict_set ?t ?req graph)" by (simp add: register_graph_def)
  then show ?case
    using Cons.IH [where infos = "dict_set ?t \<lparr>ti_state = NodeInactive, ti_task = task, ti_result_object_ids = []\<rparr> infos"
        and dep = "fold (\<lambda>r d. mtm_add r ?t d) ?req dep" and graph = "dict_set ?t ?req graph" and s = "?s1\<lparr>monitor := ms\<rparr>"] mon
    by (auto simp: Let_def seq_run)
qed (simp add: register_graph_def)

lemma set_dict_set_new: "\<not> dict_has d k \<Longrightarrow> set (dict_set k v d) = insert (k, v) (set d)"
  by (induction d) (auto simp: dict_set_def dict_has_def)

lemma register_graph_set:
  assumes "distinct (map taskId ts)" "\<And>task. task \<in> set ts \<Longrightarrow> \<not> dict_has graph (taskId task)"
  shows "set (register_graph env ts graph) =
    set graph \<union> (\<lambda>task. (taskId task, sort_key (env_iter env) (required_task_ids task))) ` set ts"
  using assms
proof (induction ts arbitrary: graph)
  case (Cons task ts)
  let ?g = "dict_set (taskId task) (sort_key (env_iter env) (required_task_ids task)) graph"
  have "set (register_graph env ts ?g) = set ?g \<union> (\<lambda>task. (taskId task, sort_key (env_iter env) (required_task_ids task))) ` set ts"
    using Cons.prems by (intro Cons.IH) (auto simp: image_iff)
  moreover have "set ?g = insert (taskId task, sort_key (env_iter env) (required_task_ids task)) (set graph)"
    using Cons.prems(2) by (intro set_dict_set_new) simp
  ultimately show ?case by (auto simp: register_graph_def)
qed (simp add: register_graph_def)

section \<open>Cycles\<close>

lemma required_iff: "t \<in> set (required_task_ids task) \<longleftrightarrow> TaskArgument t \<in> set (functionArgs task)"
proof -
  have "t \<in> set (required_task_ids task) \<longleftrightarrow> (\<exists>a \<in> set (functionArgs task). a = TaskArgument t)"
    unfolding required_task_ids_def by (auto split: Argument.splits intro!: bexI)
  then show ?thesis by blast
qed

lemma cycle_found:
  assumes "distinct (map taskId ts)" "so_merge_graph (register_graph env ts []) so_empty = Inr so"
  shows "\<exists>so'. so_prepare so = (if acyclic (graph_depends ts) then Ret () so' else Raise CycleError so')"
proof -
  have "set (so_edges so) = graph_depends ts"
    using assms(2) register_graph_set [OF assms(1), of "[]" env]
    by (auto simp: so_merge_graph_def so_empty_def graph_depends_def required_iff image_iff)
  moreover have "so_ready so = None" "so_n_done so = 0" "so_n_visited so = 0"
    using assms(2) by (auto simp: so_merge_graph_def so_empty_def)
  ultimately show ?thesis using so_prepare_spec [OF so_merge_wf [OF so_wf_empty assms(2)]] by fastforce
qed

lemma cyclic_graph_raises:
  assumes queue: "graph_queue s = (c, gt) # rest" and dist: "distinct (map taskId (graph_tasks gt))"
    and cyc: "\<not> acyclic (graph_depends (graph_tasks gt))" and inv: "otm_inv (clients s)" and free: "otm_owner (clients s) (graph_taskId gt) = None"
  shows "\<exists>s'. perform env GraphRoutine s = Raise CycleError s' \<and> sent s' = sent s \<and> graphs s' = graphs s \<and>
    otm_owner (clients s') (graph_taskId gt) = Some c \<and>
    (\<forall>t \<in> insert (graph_taskId gt) (taskId ` set (graph_tasks gt)). dict_get (graph_of s') t = Some (graph_taskId gt))"
proof -
  let ?g = "graph_taskId gt"
  obtain d where d: "otm_add c ?g (clients s) = Inr d" using otm_add_fail_iff [of c ?g "clients s"] free
    by (cases "otm_add c ?g (clients s)") auto
  let ?s1 = "s\<lparr>graph_queue := rest, clients := d, graph_of := dict_set ?g ?g (graph_of s)\<rparr>"
  obtain infos dep s2 where s2: "register_subtasks env gt (graph_tasks gt) ([], mtm_empty, []) ?s1 =
      Ret (infos, dep, register_graph env (graph_tasks gt) []) s2" "clients s2 = d" "graphs s2 = graphs s" "sent s2 = sent s"
      "\<forall>t. dict_get (graph_of s2) t = (if t \<in> taskId ` set (graph_tasks gt) then Some ?g else dict_get (graph_of ?s1) t)"
    using register_run [of env gt "graph_tasks gt" "[]" mtm_empty "[]" ?s1] by auto
  obtain so where so: "so_merge_graph (register_graph env (graph_tasks gt) []) so_empty = Inr so"
    by (simp add: so_merge_graph_def so_empty_def)
  obtain so' where so': "so_prepare so = Raise CycleError so'" using cycle_found [OF dist so] cyc by auto
  have "perform env GraphRoutine s = Raise CycleError s2"
    using queue d s2(1) so so'
    by (simp add: perform_def Let_def graph_routine_def add_new_graph_def on_task_begin_def seq_run andthen_run del: route.simps)
  moreover have "otm_owner (clients s2) ?g = Some c" using otm_add_spec(2) [OF inv d] s2(2) by simp
  ultimately show ?thesis using s2(3,4,5) by (intro exI [of _ s2]) auto
qed

end
