(* ===== verification/TopologicalSorter.thy ===== *)
theory TopologicalSorter
  imports Sorter
begin

text \<open>
  The class \<open>TopologicalSorter\<close> of \<open>src/src/scaler/utility/graph/topological_sorter_graphblas.py\<close>
  as it is written: an adjacency matrix, a numbering of the nodes and two masks over the
  numbers. The matrices are those of GraphBLAS and the array functions those of NumPy;
  \<open>backend\<close> collects the calls the class makes, and \<open>backend_ok\<close> what their
  documentation promises in terms of the dimension and the entries of a matrix. Under
  \<open>backend_ok\<close> every method behaves like the one of the specification in theory \<open>Sorter\<close>,
  over which the graph controller is modelled.
\<close>

section \<open>The calls to GraphBLAS and NumPy\<close>

record 'm backend =
  gb_Matrix :: 'm
  gb_resize :: "nat \<Rightarrow> 'm \<Rightarrow> 'm"
  gb_setitem :: "nat \<Rightarrow> nat \<Rightarrow> 'm \<Rightarrow> 'm"
  gb_diag :: "bool list \<Rightarrow> 'm"
  gb_lor_pair :: "'m \<Rightarrow> 'm \<Rightarrow> 'm"
  gb_trace_lor :: "'m \<Rightarrow> bool"
  gb_row_indices :: "'m \<Rightarrow> nat list"
  gb_nrows :: "'m \<Rightarrow> nat"
  np_ones :: "nat \<Rightarrow> bool list"
  np_zeros :: "nat \<Rightarrow> bool list"
  np_arange :: "nat \<Rightarrow> nat list"
  np_in1d :: "nat list \<Rightarrow> nat list \<Rightarrow> bool list"
  np_logical_not :: "bool list \<Rightarrow> bool list"
  np_argwhere_ne :: "bool list \<Rightarrow> bool list \<Rightarrow> nat list"

text \<open>
  The documented behaviour, for a reading \<open>dim\<close> and \<open>ent\<close> of the dimension and the entries of
  a square Boolean matrix: resizing keeps the entries, \<open>diag\<close> puts a mask on the diagonal,
  \<open>lor_pair\<close> multiplies over the Booleans, \<open>to_coo\<close> lists the non-empty rows in any
  order.
\<close>

definition backend_ok :: "'m backend \<Rightarrow> ('m \<Rightarrow> nat) \<Rightarrow> ('m \<Rightarrow> nat \<Rightarrow> nat \<Rightarrow> bool) \<Rightarrow> bool" where
  "backend_ok B dim ent \<longleftrightarrow>
     (\<forall>m i j. ent m i j \<longrightarrow> i < dim m \<and> j < dim m) \<and>
     dim (gb_Matrix B) = 0 \<and>
     (\<forall>n m. dim (gb_resize B n m) = n \<and> (\<forall>i j. ent (gb_resize B n m) i j \<longleftrightarrow> ent m i j \<and> i < n \<and> j < n)) \<and>
     (\<forall>m i j. i < dim m \<longrightarrow> j < dim m \<longrightarrow> dim (gb_setitem B i j m) = dim m \<and>
        (\<forall>a b. ent (gb_setitem B i j m) a b \<longleftrightarrow> ent m a b \<or> a = i \<and> b = j)) \<and>
     (\<forall>bs. dim (gb_diag B bs) = length bs \<and>
        (\<forall>i j. ent (gb_diag B bs) i j \<longleftrightarrow> i = j \<and> i < length bs \<and> bs ! i)) \<and>
     (\<forall>a b. dim a = dim b \<longrightarrow> dim (gb_lor_pair B a b) = dim a \<and>
        (\<forall>i j. ent (gb_lor_pair B a b) i j \<longleftrightarrow> (\<exists>k < dim a. ent a i k \<and> ent b k j))) \<and>
     (\<forall>m. gb_trace_lor B m \<longleftrightarrow> (\<exists>i < dim m. ent m i i)) \<and>
     (\<forall>m. set (gb_row_indices B m) = {i. \<exists>j. ent m i j}) \<and>
     (\<forall>m. gb_nrows B m = dim m) \<and>
     (\<forall>n. np_ones B n = replicate n True) \<and> (\<forall>n. np_zeros B n = replicate n False) \<and>
     (\<forall>n. np_arange B n = [0..<n]) \<and>
     (\<forall>xs ys. np_in1d B xs ys = map (\<lambda>x. x \<in> set ys) xs) \<and>
     (\<forall>bs. np_logical_not B bs = map Not bs) \<and>
     (\<forall>as bs. length as = length bs \<longrightarrow> np_argwhere_ne B as bs = filter (\<lambda>i. as ! i \<noteq> bs ! i) [0..<length as])"

section \<open>The class\<close>

text \<open>The masks are \<open>[]\<close> until \<open>prepare\<close>; no method reads them before.\<close>

record ('k, 'm) topo =
  ts_matrix :: 'm
  ts_key_to_id :: "('k, nat) dict"
  ts_graph_matrix_mask :: "bool list"
  ts_visited_vertices_mask :: "bool list"
  ts_ready_nodes :: "'k list option"
  ts_n_done :: nat
  ts_n_visited :: nat

definition ts_init :: "'m backend \<Rightarrow> ('k, 'm) topo" where
  "ts_init B = \<lparr>ts_matrix = gb_Matrix B, ts_key_to_id = [], ts_graph_matrix_mask = [], ts_visited_vertices_mask = [],
     ts_ready_nodes = None, ts_n_done = 0, ts_n_visited = 0\<rparr>"

definition number_key :: "'k \<Rightarrow> ('k, nat) dict \<Rightarrow> ('k, nat) dict" where
  "number_key k d = (if dict_has d k then d else dict_set k (length d) d)"

definition number_keys :: "('k \<times> 'k list) list \<Rightarrow> ('k, nat) dict \<Rightarrow> ('k, nat) dict" where
  "number_keys graph d = fold (\<lambda>(n, preds) d. fold number_key preds (number_key n d)) graph d"

definition set_entry :: "'m backend \<Rightarrow> 'k \<Rightarrow> 'k \<Rightarrow> (unit, ('k, 'm) topo) comp" where
  "set_entry B n p =
     andthen (lookup ts_key_to_id n) (\<lambda>i.
     andthen (lookup ts_key_to_id p) (\<lambda>j.
       modify (\<lambda>ts. ts\<lparr>ts_matrix := gb_setitem B i j (ts_matrix ts)\<rparr>)))"

definition ts_merge_graph :: "'m backend \<Rightarrow> ('k \<times> 'k list) list \<Rightarrow> (unit, ('k, 'm) topo) comp" where
  "ts_merge_graph B graph ts =
     (if ts_ready_nodes ts \<noteq> None then Raise ValueError ts
      else let d = number_keys graph (ts_key_to_id ts);
               m = (if length (ts_key_to_id ts) \<noteq> length d then gb_resize B (length d) (ts_matrix ts) else ts_matrix ts)
           in for_each graph (\<lambda>(n, preds). for_each preds (set_entry B n)) (ts\<lparr>ts_key_to_id := d, ts_matrix := m\<rparr>))"

definition ts_add :: "'m backend \<Rightarrow> 'k \<Rightarrow> 'k list \<Rightarrow> (unit, ('k, 'm) topo) comp" where
  "ts_add B node predecessors = ts_merge_graph B [(node, predecessors)]"

definition get_masked_matrix :: "'m backend \<Rightarrow> ('k, 'm) topo \<Rightarrow> 'm" where
  "get_masked_matrix B ts = gb_lor_pair B (ts_matrix ts) (gb_diag B (ts_graph_matrix_mask ts))"

definition get_zero_degree_mask :: "'m backend \<Rightarrow> 'm \<Rightarrow> bool list" where
  "get_zero_degree_mask B m = np_logical_not B (np_in1d B (np_arange B (gb_nrows B m)) (gb_row_indices B m))"

definition get_mask_diff :: "'m backend \<Rightarrow> bool list \<Rightarrow> bool list \<Rightarrow> nat list" where
  "get_mask_diff B old new = np_argwhere_ne B old new"

definition key_of_id :: "('k, nat) dict \<Rightarrow> nat \<Rightarrow> 'k option" where
  "key_of_id d i = map_option fst (find (\<lambda>(k, j). j = i) d)"

definition get_zero_degree_keys :: "'m backend \<Rightarrow> ('k list, ('k, 'm) topo) comp" where
  "get_zero_degree_keys B ts =
     (case those (map (key_of_id (ts_key_to_id ts))
        (get_mask_diff B (ts_visited_vertices_mask ts) (get_zero_degree_mask B (get_masked_matrix B ts)))) of
        None \<Rightarrow> Raise KeyError ts | Some ks \<Rightarrow> Ret ks ts)"

fun cycle_loop :: "'m backend \<Rightarrow> 'm \<Rightarrow> nat \<Rightarrow> 'm \<Rightarrow> bool" where
  "cycle_loop B m 0 pw = False"
| "cycle_loop B m (Suc n) pw =
     (let pw' = gb_lor_pair B pw m in if gb_trace_lor B pw' then True else cycle_loop B m n pw')"

definition has_cycle :: "'m backend \<Rightarrow> ('k, 'm) topo \<Rightarrow> bool" where
  "has_cycle B ts =
     (let n = length (ts_key_to_id ts) in cycle_loop B (ts_matrix ts) n (gb_diag B (np_ones B n)))"

definition visit_node :: "'k \<Rightarrow> (unit, ('k, 'm) topo) comp" where
  "visit_node k = andthen (lookup ts_key_to_id k) (\<lambda>i.
     modify (\<lambda>ts. ts\<lparr>ts_visited_vertices_mask := (ts_visited_vertices_mask ts)[i := True]\<rparr>))"

definition ts_prepare :: "'m backend \<Rightarrow> (unit, ('k, 'm) topo) comp" where
  "ts_prepare B ts =
     (if ts_ready_nodes ts \<noteq> None then Raise ValueError ts
      else let n = length (ts_key_to_id ts)
           in andthen (get_zero_degree_keys B) (\<lambda>ready.
              seq (modify (\<lambda>ts. ts\<lparr>ts_ready_nodes := Some ready\<rparr>))
              (seq (for_each ready visit_node)
              (seq (modify (\<lambda>ts. ts\<lparr>ts_n_visited := ts_n_visited ts + length ready\<rparr>))
              (andthen (gets (has_cycle B)) (\<lambda>c. if c then raise CycleError else ret ())))))
              (ts\<lparr>ts_graph_matrix_mask := np_ones B n, ts_visited_vertices_mask := np_zeros B n\<rparr>))"

definition ts_get_ready :: "('k list, ('k, 'm) topo) comp" where
  "ts_get_ready ts =
     (case ts_ready_nodes ts of None \<Rightarrow> Raise ValueError ts | Some r \<Rightarrow> Ret r (ts\<lparr>ts_ready_nodes := Some []\<rparr>))"

definition ts_is_active :: "(bool, ('k, 'm) topo) comp" where
  "ts_is_active ts =
     (case ts_ready_nodes ts of
        None \<Rightarrow> Raise ValueError ts
      | Some r \<Rightarrow> Ret (ts_n_done ts < ts_n_visited ts \<or> r \<noteq> []) ts)"

definition mark_done :: "'k \<Rightarrow> (unit, ('k, 'm) topo) comp" where
  "mark_done k ts =
     (case dict_get (ts_key_to_id ts) k of
        None \<Rightarrow> Raise ValueError ts
      | Some i \<Rightarrow>
          if \<not> ts_visited_vertices_mask ts ! i then Raise ValueError ts
          else if \<not> ts_graph_matrix_mask ts ! i then Raise ValueError ts
          else Ret () (ts\<lparr>ts_graph_matrix_mask := (ts_graph_matrix_mask ts)[i := False]\<rparr>))"

definition extend_ready :: "'k list \<Rightarrow> ('k, 'm) topo \<Rightarrow> ('k, 'm) topo" where
  "extend_ready new ts = ts\<lparr>ts_ready_nodes := map_option (\<lambda>r. r @ new) (ts_ready_nodes ts)\<rparr>"

definition ts_done :: "'m backend \<Rightarrow> 'k list \<Rightarrow> (unit, ('k, 'm) topo) comp" where
  "ts_done B nodes ts =
     (if ts_ready_nodes ts = None then Raise ValueError ts
      else seq (for_each nodes mark_done)
           (seq (modify (\<lambda>ts. ts\<lparr>ts_n_done := ts_n_done ts + length nodes\<rparr>))
           (andthen (get_zero_degree_keys B) (\<lambda>new.
            seq (for_each new visit_node)
            (seq (modify (extend_ready new))
                 (modify (\<lambda>ts. ts\<lparr>ts_n_visited := ts_n_visited ts + length new\<rparr>)))))) ts)"

text \<open>
  \<open>static_order\<close> run to its end; the list collects what the generator yields. The bound counts the rounds
  of the loop.
\<close>

fun static_order_loop :: "'m backend \<Rightarrow> nat \<Rightarrow> ('k list, ('k, 'm) topo) comp" where
  "static_order_loop B 0 = (\<lambda>ts. NoFuel)"
| "static_order_loop B (Suc n) =
     andthen ts_is_active (\<lambda>active.
       if \<not> active then ret []
       else andthen ts_get_ready (\<lambda>group.
            seq (ts_done B group) (andthen (static_order_loop B n) (\<lambda>rest. ret (group @ rest)))))"

definition static_order :: "'m backend \<Rightarrow> ('k list, ('k, 'm) topo) comp" where
  "static_order B ts = seq (ts_prepare B) (static_order_loop B (Suc (length (ts_key_to_id ts)))) ts"

section \<open>Refinement\<close>

lemma backendD:
  assumes "backend_ok B dim ent"
  shows "ent m i j \<Longrightarrow> i < dim m \<and> j < dim m" "dim (gb_Matrix B) = 0" "dim (gb_resize B n m) = n"
    "ent (gb_resize B n m) i j \<longleftrightarrow> ent m i j \<and> i < n \<and> j < n"
    "i < dim m \<Longrightarrow> j < dim m \<Longrightarrow> dim (gb_setitem B i j m) = dim m"
    "i < dim m \<Longrightarrow> j < dim m \<Longrightarrow> ent (gb_setitem B i j m) a b \<longleftrightarrow> ent m a b \<or> a = i \<and> b = j"
    "dim (gb_diag B bs) = length bs" "ent (gb_diag B bs) i j \<longleftrightarrow> i = j \<and> i < length bs \<and> bs ! i"
    "dim x = dim y \<Longrightarrow> dim (gb_lor_pair B x y) = dim x"
    "dim x = dim y \<Longrightarrow> ent (gb_lor_pair B x y) i j \<longleftrightarrow> (\<exists>k < dim x. ent x i k \<and> ent y k j)"
    "gb_trace_lor B m \<longleftrightarrow> (\<exists>i < dim m. ent m i i)" "set (gb_row_indices B m) = {i. \<exists>j. ent m i j}"
    "gb_nrows B m = dim m" "np_ones B n = replicate n True" "np_zeros B n = replicate n False"
    "np_arange B n = [0..<n]" "np_in1d B xs ys = map (\<lambda>x. x \<in> set ys) xs" "np_logical_not B bs = map Not bs"
    "length as = length bs \<Longrightarrow> np_argwhere_ne B as bs = filter (\<lambda>i. as ! i \<noteq> bs ! i) [0..<length as]"
  using assms unfolding backend_ok_def by simp_all

text \<open>The numbering: every key has its position as number.\<close>

definition numbered :: "'k list \<Rightarrow> ('k, nat) dict" where
  "numbered ks = zip ks [0..<length ks]"

lemma dict_get_numbered: "distinct ks \<Longrightarrow> dict_get (numbered ks) k = Some i \<longleftrightarrow> i < length ks \<and> ks ! i = k"
  using dict_mem_iff [of "numbered ks" k i] by (auto simp: numbered_def dict_ok_def set_zip)

lemma key_of_numbered: "i < length ks \<Longrightarrow> key_of_id (numbered ks) i = Some (ks ! i)"
proof (induction ks rule: rev_induct)
  case (snoc k ks)
  have f: "find P (xs @ ys) = (case find P xs of None \<Rightarrow> find P ys | Some x \<Rightarrow> Some x)" for P and xs ys :: "('k \<times> nat) list"
    by (induction xs) auto
  show ?case
  proof (cases "i < length ks")
    case True
    with snoc.IH show ?thesis by (auto simp: numbered_def key_of_id_def f nth_append split: option.splits)
  next
    case False
    then have i: "i = length ks" using snoc.prems by simp
    have "find (\<lambda>(k, j). j = length ks) (zip ks [0..<length ks]) = None"
      by (auto simp: find_None_iff set_zip)
    then show ?thesis by (simp add: numbered_def key_of_id_def f i)
  qed
qed simp

lemma number_key_numbered: "distinct ks \<Longrightarrow> number_key k (numbered ks) = numbered (set_add k ks)"
  using dict_get_numbered [of ks k]
  by (auto simp: number_key_def set_add_def dict_has_iff in_set_conv_nth dict_set_absent [unfolded dict_has_iff])
    (auto simp: numbered_def dict_set_absent dict_has_iff)

lemma number_fold_numbered: "distinct ks \<Longrightarrow> fold number_key ps (numbered ks) = numbered (fold set_add ps ks)"
  by (induction ps arbitrary: ks) (simp_all add: number_key_numbered)

lemma distinct_fold_set_add: "distinct (fold set_add ps ks) = distinct ks"
  by (induction ps arbitrary: ks) simp_all

lemma number_keys_numbered: "distinct ks \<Longrightarrow> number_keys graph (numbered ks) = numbered (so_number graph ks)"
proof (induction graph arbitrary: ks)
  case (Cons g graph)
  obtain n ps where g: "g = (n, ps)" by (cases g)
  have "number_keys (g # graph) (numbered ks) = number_keys graph (numbered (fold set_add ps (set_add n ks)))"
    using Cons.prems by (simp add: number_keys_def g number_key_numbered number_fold_numbered)
  with Cons.IH [of "fold set_add ps (set_add n ks)"] Cons.prems show ?case
    by (simp add: distinct_fold_set_add so_number_def g)
qed (simp add: number_keys_def so_number_def)

lemma length_numbered [simp]: "length (numbered ks) = length ks"
  by (simp add: numbered_def)

text \<open>
  A state of the class and one of the specification correspond: the same nodes in the same
  order, the matrix is the edge relation over the numbers, the masks are the sets of
  unfinished and of visited nodes.
\<close>

definition sim :: "('m \<Rightarrow> nat) \<Rightarrow> ('m \<Rightarrow> nat \<Rightarrow> nat \<Rightarrow> bool) \<Rightarrow> ('k, 'm) topo \<Rightarrow> 'k sorter \<Rightarrow> bool" where
  "sim dim ent ts so \<longleftrightarrow> so_wf so \<and> ts_key_to_id ts = numbered (so_nodes so) \<and>
     dim (ts_matrix ts) = length (so_nodes so) \<and>
     (\<forall>i < length (so_nodes so). \<forall>j < length (so_nodes so).
        ent (ts_matrix ts) i j \<longleftrightarrow> (so_nodes so ! i, so_nodes so ! j) \<in> set (so_edges so)) \<and>
     ts_ready_nodes ts = so_ready so \<and> ts_n_done ts = so_n_done so \<and> ts_n_visited ts = so_n_visited so \<and>
     (so_ready so \<noteq> None \<longrightarrow>
        ts_graph_matrix_mask ts = map (\<lambda>n. n \<notin> set (so_finished so)) (so_nodes so) \<and>
        ts_visited_vertices_mask ts = map (\<lambda>n. n \<in> set (so_visited so)) (so_nodes so))"

lemma simD:
  assumes "sim dim ent ts so"
  shows "so_wf so" "distinct (so_nodes so)" "ts_key_to_id ts = numbered (so_nodes so)" "dim (ts_matrix ts) = length (so_nodes so)"
    "i < length (so_nodes so) \<Longrightarrow> j < length (so_nodes so) \<Longrightarrow>
      ent (ts_matrix ts) i j \<longleftrightarrow> (so_nodes so ! i, so_nodes so ! j) \<in> set (so_edges so)"
    "ts_ready_nodes ts = so_ready so" "ts_n_done ts = so_n_done so" "ts_n_visited ts = so_n_visited so"
  using assms by (auto simp: sim_def so_wf_def)

lemma sim_init: "backend_ok B dim ent \<Longrightarrow> sim dim ent (ts_init B) so_empty"
  by (simp add: sim_def ts_init_def so_empty_def so_wf_def numbered_def backendD(2))

lemma filter_nth: "map (nth xs) (filter (\<lambda>i. P (xs ! i)) [0..<length xs]) = filter P xs"
  using filter_map [of P "nth xs" "[0..<length xs]"] by (simp add: map_nth comp_def)

definition masks :: "('k, 'm) topo \<Rightarrow> 'k sorter \<Rightarrow> bool" where
  "masks ts so \<longleftrightarrow> ts_graph_matrix_mask ts = map (\<lambda>n. n \<notin> set (so_finished so)) (so_nodes so) \<and>
     ts_visited_vertices_mask ts = map (\<lambda>n. n \<in> set (so_visited so)) (so_nodes so)"

lemma masked_entry:
  assumes ok: "backend_ok B dim ent" and s: "sim dim ent ts so" and m: "masks ts so"
  shows "dim (get_masked_matrix B ts) = length (so_nodes so)"
    and "i < length (so_nodes so) \<Longrightarrow> (\<exists>j. ent (get_masked_matrix B ts) i j) \<longleftrightarrow> \<not> so_zero_degree so (so_nodes so ! i)"
proof -
  let ?n = "length (so_nodes so)" and ?D = "gb_diag B (ts_graph_matrix_mask ts)"
  have len: "length (ts_graph_matrix_mask ts) = ?n" using m by (simp add: masks_def)
  have d: "dim (ts_matrix ts) = dim ?D" by (simp add: backendD(7) [OF ok] len simD(4) [OF s])
  show "dim (get_masked_matrix B ts) = ?n"
    unfolding get_masked_matrix_def by (simp add: backendD(9) [OF ok d] simD(4) [OF s])
  have e: "ent (get_masked_matrix B ts) i j \<longleftrightarrow> ent (ts_matrix ts) i j \<and> so_nodes so ! j \<notin> set (so_finished so)" for i j
  proof -
    have "ent (get_masked_matrix B ts) i j \<longleftrightarrow> ent (ts_matrix ts) i j \<and> j < ?n \<and> ts_graph_matrix_mask ts ! j"
      unfolding get_masked_matrix_def backendD(10) [OF ok d] backendD(8) [OF ok] len simD(4) [OF s]
      by auto
    moreover have "ent (ts_matrix ts) i j \<Longrightarrow> j < ?n" using backendD(1) [OF ok] simD(4) [OF s] by metis
    ultimately show ?thesis using m by (auto simp: masks_def)
  qed
  show "(\<exists>j. ent (get_masked_matrix B ts) i j) \<longleftrightarrow> \<not> so_zero_degree so (so_nodes so ! i)" if i: "i < ?n"
  proof
    assume "\<exists>j. ent (get_masked_matrix B ts) i j"
    then obtain j where j: "ent (ts_matrix ts) i j" "so_nodes so ! j \<notin> set (so_finished so)" using e by blast
    then have "j < ?n" using backendD(1) [OF ok] simD(4) [OF s] by metis
    then have "(so_nodes so ! i, so_nodes so ! j) \<in> set (so_edges so)" using j(1) simD(5) [OF s i] by blast
    then show "\<not> so_zero_degree so (so_nodes so ! i)" using j(2) by (auto simp: so_zero_degree_iff)
  next
    assume "\<not> so_zero_degree so (so_nodes so ! i)"
    then obtain p where p: "(so_nodes so ! i, p) \<in> set (so_edges so)" "p \<notin> set (so_finished so)"
      by (auto simp: so_zero_degree_iff)
    then have "p \<in> set (so_nodes so)" using simD(1) [OF s] by (auto simp: so_wf_def)
    then obtain j where "j < ?n" "so_nodes so ! j = p" by (auto simp: in_set_conv_nth)
    then show "\<exists>j. ent (get_masked_matrix B ts) i j" using p e simD(5) [OF s i] by blast
  qed
qed

lemma zero_degree_keys:
  assumes ok: "backend_ok B dim ent" and s: "sim dim ent ts so" and m: "masks ts so"
  shows "get_zero_degree_keys B ts = Ret (so_zero_degree_keys so) ts"
proof -
  let ?n = "length (so_nodes so)" and ?old = "ts_visited_vertices_mask ts"
  let ?new = "get_zero_degree_mask B (get_masked_matrix B ts)"
  have new: "?new = map (\<lambda>i. so_zero_degree so (so_nodes so ! i)) [0..<?n]"
    unfolding get_zero_degree_mask_def backendD(12-13,16-18) [OF ok] masked_entry(1) [OF assms]
    using masked_entry(2) [OF assms] by simp
  have old: "length ?old = ?n" "\<And>i. i < ?n \<Longrightarrow> ?old ! i = (so_nodes so ! i \<in> set (so_visited so))"
    using m by (auto simp: masks_def)
  have "get_mask_diff B ?old ?new = filter (\<lambda>i. ?old ! i \<noteq> ?new ! i) [0..<?n]"
    unfolding get_mask_diff_def using old(1) by (simp add: new backendD(19) [OF ok])
  also have "\<dots> = filter (\<lambda>i. (so_nodes so ! i \<in> set (so_visited so)) \<noteq> so_zero_degree so (so_nodes so ! i)) [0..<?n]"
    by (rule filter_cong) (simp_all add: new old(2))
  finally have ids: "get_mask_diff B ?old ?new =
      filter (\<lambda>i. (so_nodes so ! i \<in> set (so_visited so)) \<noteq> so_zero_degree so (so_nodes so ! i)) [0..<?n]" .
  have "those (map (key_of_id (ts_key_to_id ts)) (get_mask_diff B ?old ?new)) =
      Some (map (nth (so_nodes so)) (get_mask_diff B ?old ?new))"
    by (rule those_map_Some) (auto simp: ids simD(3) [OF s] key_of_numbered)
  then show ?thesis
    unfolding get_zero_degree_keys_def ids so_zero_degree_keys_def
    unfolding filter_nth [where P = "\<lambda>n. (n \<in> set (so_visited so)) \<noteq> so_zero_degree so n"] by simp
qed

lemma visit_nodes:
  assumes "distinct nodes" "ts_key_to_id ts = numbered nodes" "set ks \<subseteq> set nodes"
    "ts_visited_vertices_mask ts = map (\<lambda>n. n \<in> V) nodes"
  shows "for_each ks visit_node ts = Ret () (ts\<lparr>ts_visited_vertices_mask := map (\<lambda>n. n \<in> V \<union> set ks) nodes\<rparr>)"
  using assms
proof (induction ks arbitrary: ts V)
  case Nil
  then show ?case by simp
next
  case (Cons k ks)
  then obtain i where i: "i < length nodes" "nodes ! i = k" by (auto simp: in_set_conv_nth)
  then have get: "dict_get (ts_key_to_id ts) k = Some i" using Cons.prems dict_get_numbered [of nodes k i] by simp
  let ?ts = "ts\<lparr>ts_visited_vertices_mask := (ts_visited_vertices_mask ts)[i := True]\<rparr>"
  have "ts_visited_vertices_mask ?ts = map (\<lambda>n. n \<in> insert k V) nodes"
    using Cons.prems(1,4) i by (auto simp: list_eq_iff_nth_eq nth_list_update nth_eq_iff_index_eq)
  from Cons.IH [OF Cons.prems(1) _ _ this] Cons.prems(2,3)
  have "for_each ks visit_node ?ts = Ret () (ts\<lparr>ts_visited_vertices_mask := map (\<lambda>n. n \<in> insert k V \<union> set ks) nodes\<rparr>)"
    by simp
  moreover have "visit_node k ts = Ret () ?ts" using get by (simp add: visit_node_def)
  ultimately show ?case by simp
qed

lemma ex_window_Suc:
  fixes c k :: nat
  shows "(\<exists>d. c < d \<and> d \<le> c + Suc k \<and> Q d) \<longleftrightarrow> Q (Suc c) \<or> (\<exists>d. Suc c < d \<and> d \<le> Suc c + k \<and> Q d)"
proof
  assume "\<exists>d. c < d \<and> d \<le> c + Suc k \<and> Q d"
  then obtain d where "c < d" "d \<le> c + Suc k" "Q d" by blast
  then show "Q (Suc c) \<or> (\<exists>d. Suc c < d \<and> d \<le> Suc c + k \<and> Q d)" by (cases "d = Suc c") auto
next
  assume "Q (Suc c) \<or> (\<exists>d. Suc c < d \<and> d \<le> Suc c + k \<and> Q d)"
  then show "\<exists>d. c < d \<and> d \<le> c + Suc k \<and> Q d"
  proof
    assume "Q (Suc c)"
    then show ?thesis by (intro exI [of _ "Suc c"]) simp
  next
    assume "\<exists>d. Suc c < d \<and> d \<le> Suc c + k \<and> Q d"
    then obtain d where "Suc c < d" "d \<le> Suc c + k" "Q d" by blast
    then show ?thesis by (intro exI [of _ d]) simp
  qed
qed

lemma ex_window_zero: "(\<exists>d. 0 < d \<and> d \<le> n \<and> Q d) \<longleftrightarrow> (\<exists>i < n. Q (Suc i))"
proof
  assume "\<exists>d. 0 < d \<and> d \<le> n \<and> Q d"
  then obtain d where "0 < d" "d \<le> n" "Q d" by blast
  then show "\<exists>i < n. Q (Suc i)" by (intro exI [of _ "d - 1"]) simp
next
  assume "\<exists>i < n. Q (Suc i)"
  then obtain i where "i < n" "Q (Suc i)" by blast
  then show "\<exists>d. 0 < d \<and> d \<le> n \<and> Q d" by (intro exI [of _ "Suc i"]) simp
qed

text \<open>The powers of the matrix are the powers of the relation.\<close>

lemma cycle_loop_iff:
  assumes ok: "backend_ok B dim ent" and s: "sim dim ent ts so"
    and "dim pw = length (so_nodes so)"
    and "\<And>i j. i < length (so_nodes so) \<Longrightarrow> j < length (so_nodes so) \<Longrightarrow>
      ent pw i j \<longleftrightarrow> (so_nodes so ! i, so_nodes so ! j) \<in> set (so_edges so) ^^ c"
  shows "cycle_loop B (ts_matrix ts) k pw \<longleftrightarrow>
    (\<exists>d. c < d \<and> d \<le> c + k \<and> (\<exists>n \<in> set (so_nodes so). (n, n) \<in> set (so_edges so) ^^ d))"
  using assms(3,4)
proof (induction k arbitrary: pw c)
  case 0
  then show ?case by simp
next
  case (Suc k)
  let ?n = "length (so_nodes so)" and ?R = "set (so_edges so)" and ?pw = "gb_lor_pair B pw (ts_matrix ts)"
  have d: "dim pw = dim (ts_matrix ts)" using Suc.prems(1) simD(4) [OF s] by simp
  have dim': "dim ?pw = ?n" using backendD(9) [OF ok d] Suc.prems(1) by simp
  have ent': "ent ?pw i j \<longleftrightarrow> (so_nodes so ! i, so_nodes so ! j) \<in> ?R ^^ Suc c" if ij: "i < ?n" "j < ?n" for i j
  proof -
    have "ent ?pw i j \<longleftrightarrow> (\<exists>l < ?n. (so_nodes so ! i, so_nodes so ! l) \<in> ?R ^^ c \<and> (so_nodes so ! l, so_nodes so ! j) \<in> ?R)"
      unfolding backendD(10) [OF ok d] Suc.prems(1) using Suc.prems(2) [OF ij(1)] simD(5) [OF s _ ij(2)] by blast
    also have "\<dots> \<longleftrightarrow> (\<exists>m. (so_nodes so ! i, m) \<in> ?R ^^ c \<and> (m, so_nodes so ! j) \<in> ?R)"
      using simD(1) [OF s] unfolding so_wf_def by (fastforce simp: in_set_conv_nth)
    finally show ?thesis by auto
  qed
  have trace: "gb_trace_lor B ?pw \<longleftrightarrow> (\<exists>n \<in> set (so_nodes so). (n, n) \<in> ?R ^^ Suc c)"
  proof -
    have "gb_trace_lor B ?pw \<longleftrightarrow> (\<exists>i < ?n. (so_nodes so ! i, so_nodes so ! i) \<in> ?R ^^ Suc c)"
      unfolding backendD(11) [OF ok] dim' using ent' by blast
    then show ?thesis by (metis in_set_conv_nth)
  qed
  show ?case unfolding cycle_loop.simps Let_def ex_window_Suc using trace Suc.IH [OF dim' ent'] by auto
qed

lemma has_cycle_sim:
  assumes ok: "backend_ok B dim ent" and s: "sim dim ent ts so"
  shows "has_cycle B ts \<longleftrightarrow> so_has_cycle so"
proof -
  let ?n = "length (so_nodes so)" and ?P = "gb_diag B (np_ones B (length (so_nodes so)))"
  have d: "dim ?P = ?n" by (simp add: backendD(7,14) [OF ok])
  have e: "ent ?P i j \<longleftrightarrow> (so_nodes so ! i, so_nodes so ! j) \<in> set (so_edges so) ^^ 0" if "i < ?n" "j < ?n" for i j
    using that simD(2) [OF s] by (simp add: backendD(8,14) [OF ok] nth_eq_iff_index_eq)
  have "has_cycle B ts \<longleftrightarrow> (\<exists>d. 0 < d \<and> d \<le> ?n \<and> (\<exists>n \<in> set (so_nodes so). (n, n) \<in> set (so_edges so) ^^ d))"
    unfolding has_cycle_def Let_def simD(3) [OF s] length_numbered
    using cycle_loop_iff [OF ok s d e, of ?n] by simp
  also have "\<dots> \<longleftrightarrow> (\<exists>i < ?n. \<exists>n \<in> set (so_nodes so). (n, n) \<in> set (so_edges so) ^^ Suc i)"
    by (rule ex_window_zero)
  also have "\<dots> \<longleftrightarrow> so_has_cycle so"
    unfolding so_has_cycle_def list_ex_iff set_upt set_so_walk by (simp del: relpow.simps add: Bex_def)
  finally show ?thesis .
qed

fun sim_out :: "('m \<Rightarrow> nat) \<Rightarrow> ('m \<Rightarrow> nat \<Rightarrow> nat \<Rightarrow> bool) \<Rightarrow> ('a, ('k, 'm) topo) outcome \<Rightarrow> ('a, 'k sorter) outcome \<Rightarrow> bool" where
  "sim_out dim ent (Ret a ts) (Ret b so) \<longleftrightarrow> a = b \<and> sim dim ent ts so"
| "sim_out dim ent (Raise e ts) (Raise e' so) \<longleftrightarrow> e = e' \<and> sim dim ent ts so"
| "sim_out dim ent NoFuel NoFuel \<longleftrightarrow> True"
| "sim_out dim ent _ _ \<longleftrightarrow> False"

lemma sim_visit:
  assumes "sim dim ent ts so" and "masks ts so"
    and "ts_matrix ts' = ts_matrix ts" "ts_key_to_id ts' = ts_key_to_id ts"
      "ts_graph_matrix_mask ts' = ts_graph_matrix_mask ts" "ts_n_done ts' = ts_n_done ts"
      "ts_visited_vertices_mask ts' = map (\<lambda>n. n \<in> set (so_visited so) \<union> set new) (so_nodes so)"
      "ts_ready_nodes ts' = Some (old @ new)" "ts_n_visited ts' = ts_n_visited ts + length new"
  shows "sim dim ent ts' (so_visit old new so)"
  using assms unfolding sim_def masks_def so_visit_def so_wf_def by auto

lemma prepare_sim:
  assumes ok: "backend_ok B dim ent" and s: "sim dim ent ts so"
  shows "sim_out dim ent (ts_prepare B ts) (so_prepare so)"
proof (cases "so_ready so")
  case (Some r)
  then show ?thesis using s simD(6) [OF s] by (simp add: ts_prepare_def so_prepare_def)
next
  case None
  let ?so = "so\<lparr>so_finished := [], so_visited := []\<rparr>" and ?n = "length (so_nodes so)"
  let ?ts = "ts\<lparr>ts_graph_matrix_mask := np_ones B ?n, ts_visited_vertices_mask := np_zeros B ?n\<rparr>"
  let ?new = "so_zero_degree_keys ?so"
  have s0: "sim dim ent ?ts ?so" using s None by (simp add: sim_def so_wf_def)
  have m0: "masks ?ts ?so" by (simp add: masks_def backendD(14,15) [OF ok] map_replicate_const)
  have keys: "get_zero_degree_keys B ?ts = Ret ?new ?ts" by (rule zero_degree_keys [OF ok s0 m0])
  let ?ts1 = "?ts\<lparr>ts_ready_nodes := Some ?new\<rparr>"
  have visit: "for_each ?new visit_node ?ts1 =
      Ret () (?ts1\<lparr>ts_visited_vertices_mask := map (\<lambda>n. n \<in> set (so_visited ?so) \<union> set ?new) (so_nodes so)\<rparr>)"
    by (rule visit_nodes) (use simD(2,3) [OF s] m0 in \<open>auto simp: masks_def so_zero_degree_keys_def\<close>)
  let ?ts2 = "?ts1\<lparr>ts_visited_vertices_mask := map (\<lambda>n. n \<in> set (so_visited ?so) \<union> set ?new) (so_nodes ?so),
      ts_n_visited := ts_n_visited ?ts + length ?new\<rparr>"
  have s2: "sim dim ent ?ts2 (so_visit [] ?new ?so)" by (rule sim_visit [OF s0 m0]) simp_all
  have "ts_prepare B ts = (if has_cycle B ?ts2 then Raise CycleError ?ts2 else Ret () ?ts2)"
    using None simD(3,6) [OF s] keys visit by (simp add: ts_prepare_def Let_def)
  moreover have "so_prepare so = (if so_has_cycle (so_visit [] ?new ?so) then Raise CycleError (so_visit [] ?new ?so)
      else Ret () (so_visit [] ?new ?so))"
    using None by (simp add: so_prepare_def Let_def)
  ultimately show ?thesis using s2 has_cycle_sim [OF ok s2] by simp
qed

lemma get_ready_sim: "sim dim ent ts so \<Longrightarrow> sim_out dim ent (ts_get_ready ts) (so_get_ready so)"
  by (auto simp: ts_get_ready_def so_get_ready_def sim_def so_wf_def split: option.split)

lemma is_active_sim: "sim dim ent ts so \<Longrightarrow> sim_out dim ent (ts_is_active ts) (so_is_active so)"
  by (auto simp: ts_is_active_def so_is_active_def simD(6-8) split: option.split)

lemma mark_sim:
  assumes s: "sim dim ent ts so" and r: "so_ready so = Some r"
  shows "sim_out dim ent (mark_done k ts) (so_mark k so)"
proof (cases "k \<in> set (so_nodes so)")
  case False
  then have "dict_get (ts_key_to_id ts) k = None"
    unfolding simD(3) [OF s] using dict_get_numbered [OF simD(2) [OF s], of k]
    by (metis nth_mem option.exhaust)
  then show ?thesis using False s by (simp add: mark_done_def so_mark_def)
next
  case True
  then obtain i where i: "i < length (so_nodes so)" "so_nodes so ! i = k" by (auto simp: in_set_conv_nth)
  have get: "dict_get (ts_key_to_id ts) k = Some i"
    unfolding simD(3) [OF s] using dict_get_numbered [OF simD(2) [OF s]] i by blast
  have m: "masks ts so" using s r by (simp add: sim_def masks_def)
  have "(map (\<lambda>n. n \<notin> set (so_finished so)) (so_nodes so))[i := False] =
      map (\<lambda>n. n \<notin> set (so_finished so @ [k])) (so_nodes so)"
    using i simD(2) [OF s] by (auto simp: list_eq_iff_nth_eq nth_list_update nth_eq_iff_index_eq)
  then have "sim dim ent (ts\<lparr>ts_graph_matrix_mask := (ts_graph_matrix_mask ts)[i := False]\<rparr>)
      (so\<lparr>so_finished := so_finished so @ [k]\<rparr>)"
    using s m by (simp add: sim_def masks_def so_wf_def)
  then show ?thesis using True get m i s by (auto simp: mark_done_def so_mark_def masks_def)
qed

lemma marks_sim:
  assumes "sim dim ent ts so" "so_ready so = Some r"
  shows "sim_out dim ent (for_each ks mark_done ts) (for_each ks so_mark so)"
  using assms
proof (induction ks arbitrary: ts so)
  case (Cons k ks)
  show ?case
  proof (cases "so_mark k so")
    case (Ret u so')
    have "so_ready so' = Some r" using Ret Cons.prems(2) by (auto simp: so_mark_def split: if_splits)
    moreover obtain ts' where "mark_done k ts = Ret () ts'" "sim dim ent ts' so'"
      using mark_sim [OF Cons.prems, of k] Ret by (cases "mark_done k ts") auto
    ultimately show ?thesis using Cons.IH [of ts' so'] Ret by simp
  next
    case (Raise e so')
    then obtain ts' where "mark_done k ts = Raise e ts'" "sim dim ent ts' so'"
      using mark_sim [OF Cons.prems, of k] by (cases "mark_done k ts") auto
    then show ?thesis using Raise by (simp add: seq_run)
  next
    case NoFuel
    then show ?thesis by (simp add: so_mark_def split: if_splits)
  qed
qed simp

lemma marks_ready: "for_each ks so_mark so = Ret u so' \<Longrightarrow> so_ready so' = so_ready so"
  by (induction ks arbitrary: so) (auto simp: seq_run so_mark_def split: outcome.splits if_splits)

lemma done_sim:
  assumes ok: "backend_ok B dim ent" and s: "sim dim ent ts so"
  shows "sim_out dim ent (ts_done B ks ts) (so_done ks so)"
proof (cases "so_ready so")
  case None
  then show ?thesis using s simD(6) [OF s] by (simp add: ts_done_def so_done_def)
next
  case (Some r)
  have ready: "ts_ready_nodes ts = Some r" using simD(6) [OF s] Some by simp
  show ?thesis
  proof (cases "for_each ks so_mark so")
    case (Ret u so1)
    then obtain ts1 where ts1: "for_each ks mark_done ts = Ret () ts1" "sim dim ent ts1 so1"
      using marks_sim [OF s Some, of ks] by (cases "for_each ks mark_done ts") auto
    let ?so2 = "so1\<lparr>so_n_done := so_n_done so1 + length ks\<rparr>" and ?ts2 = "ts1\<lparr>ts_n_done := ts_n_done ts1 + length ks\<rparr>"
    let ?new = "so_zero_degree_keys ?so2"
    have r1: "so_ready so1 = Some r" using marks_ready [OF Ret] Some by simp
    have s2: "sim dim ent ?ts2 ?so2" and m2: "masks ?ts2 ?so2"
      using ts1(2) r1 by (simp_all add: sim_def masks_def so_wf_def)
    have keys: "get_zero_degree_keys B ?ts2 = Ret ?new ?ts2" by (rule zero_degree_keys [OF ok s2 m2])
    have visit: "for_each ?new visit_node ?ts2 =
        Ret () (?ts2\<lparr>ts_visited_vertices_mask := map (\<lambda>n. n \<in> set (so_visited ?so2) \<union> set ?new) (so_nodes ?so2)\<rparr>)"
      by (rule visit_nodes) (use simD(2,3) [OF s2] m2 in \<open>auto simp: masks_def so_zero_degree_keys_def\<close>)
    have "sim dim ent (extend_ready ?new (?ts2\<lparr>ts_visited_vertices_mask :=
        map (\<lambda>n. n \<in> set (so_visited ?so2) \<union> set ?new) (so_nodes ?so2)\<rparr>)\<lparr>ts_n_visited := ts_n_visited ?ts2 + length ?new\<rparr>)
        (so_visit r ?new ?so2)"
      by (rule sim_visit [OF s2 m2]) (use r1 simD(6) [OF ts1(2)] in \<open>simp_all add: extend_ready_def\<close>)
    then show ?thesis
      using ready ts1(1) keys visit Ret Some
      by (simp add: ts_done_def so_done_def extend_ready_def Let_def)
  next
    case (Raise e so1)
    then obtain ts1 where "for_each ks mark_done ts = Raise e ts1" "sim dim ent ts1 so1"
      using marks_sim [OF s Some, of ks] by (cases "for_each ks mark_done ts") auto
    then show ?thesis using ready Raise Some by (simp add: ts_done_def so_done_def seq_run)
  next
    case NoFuel
    then show ?thesis using marks_sim [OF s Some, of ks] ready Some
      by (cases "for_each ks mark_done ts") (auto simp: ts_done_def so_done_def seq_run)
  qed
qed

section \<open>Merging graphs\<close>

lemma fold_set_add_prefix: "\<exists>ys. fold set_add ps xs = xs @ ys"
proof (induction ps arbitrary: xs)
  case (Cons p ps)
  obtain ys where "fold set_add ps (set_add p xs) = set_add p xs @ ys" using Cons by blast
  moreover have "\<exists>zs. set_add p xs = xs @ zs" by (simp add: set_add_def)
  ultimately show ?case by auto
qed simp

lemma so_number_prefix: "\<exists>ys. so_number graph nodes = nodes @ ys"
proof (induction graph arbitrary: nodes)
  case (Cons g graph)
  obtain n ps where g: "g = (n, ps)" by (cases g)
  obtain ys where "so_number graph (fold set_add ps (set_add n nodes)) = fold set_add ps (set_add n nodes) @ ys"
    using Cons by blast
  moreover obtain zs where "fold set_add (n # ps) nodes = nodes @ zs" using fold_set_add_prefix by blast
  ultimately show ?case by (auto simp: so_number_def g)
qed (simp add: so_number_def)

lemma set_entry_sim:
  assumes ok: "backend_ok B dim ent" and s: "sim dim ent ts so" and r: "so_ready so = None"
    and n: "n \<in> set (so_nodes so)" "p \<in> set (so_nodes so)"
  shows "\<exists>ts'. set_entry B n p ts = Ret () ts' \<and> sim dim ent ts' (so\<lparr>so_edges := so_edges so @ [(n, p)]\<rparr>)"
proof -
  obtain i j where ij: "i < length (so_nodes so)" "so_nodes so ! i = n" "j < length (so_nodes so)" "so_nodes so ! j = p"
    using n by (auto simp: in_set_conv_nth)
  have get: "dict_get (ts_key_to_id ts) n = Some i" "dict_get (ts_key_to_id ts) p = Some j"
    unfolding simD(3) [OF s] using dict_get_numbered [OF simD(2) [OF s]] ij by blast+
  let ?m = "gb_setitem B i j (ts_matrix ts)"
  have "dim ?m = length (so_nodes so)" using backendD(5) [OF ok] ij simD(4) [OF s] by simp
  moreover have "ent ?m a b \<longleftrightarrow> (so_nodes so ! a, so_nodes so ! b) \<in> set (so_edges so @ [(n, p)])"
    if ab: "a < length (so_nodes so)" "b < length (so_nodes so)" for a b
  proof -
    have "ent ?m a b \<longleftrightarrow> ent (ts_matrix ts) a b \<or> a = i \<and> b = j"
      by (rule backendD(6) [OF ok]) (simp_all add: ij simD(4) [OF s])
    moreover have "a = i \<longleftrightarrow> so_nodes so ! a = n" "b = j \<longleftrightarrow> so_nodes so ! b = p"
      using ab ij simD(2) [OF s] by (auto simp: nth_eq_iff_index_eq)
    ultimately show ?thesis using simD(5) [OF s ab] by auto
  qed
  ultimately have "sim dim ent (ts\<lparr>ts_matrix := ?m\<rparr>) (so\<lparr>so_edges := so_edges so @ [(n, p)]\<rparr>)"
    using s r n by (auto simp: sim_def so_wf_def)
  then show ?thesis using get by (simp add: set_entry_def)
qed

lemma set_entries_sim:
  assumes ok: "backend_ok B dim ent" and "sim dim ent ts so" "so_ready so = None"
    and "n \<in> set (so_nodes so)" "set ps \<subseteq> set (so_nodes so)"
  shows "\<exists>ts'. for_each ps (set_entry B n) ts = Ret () ts' \<and>
    sim dim ent ts' (so\<lparr>so_edges := so_edges so @ map (Pair n) ps\<rparr>)"
  using assms(2-5)
proof (induction ps arbitrary: ts so)
  case Nil
  then show ?case by simp
next
  case (Cons p ps)
  let ?so = "so\<lparr>so_edges := so_edges so @ [(n, p)]\<rparr>"
  obtain ts1 where ts1: "set_entry B n p ts = Ret () ts1" "sim dim ent ts1 ?so"
    using set_entry_sim [OF ok Cons.prems(1-3), of p] Cons.prems(4) by auto
  from Cons.IH [OF ts1(2)] Cons.prems obtain ts2 where "for_each ps (set_entry B n) ts1 = Ret () ts2"
      "sim dim ent ts2 (?so\<lparr>so_edges := so_edges ?so @ map (Pair n) ps\<rparr>)"
    by auto
  with ts1 show ?case by simp
qed

lemma set_graph_sim:
  assumes ok: "backend_ok B dim ent" and "sim dim ent ts so" "so_ready so = None"
    and "\<And>n ps. (n, ps) \<in> set graph \<Longrightarrow> n \<in> set (so_nodes so) \<and> set ps \<subseteq> set (so_nodes so)"
  shows "\<exists>ts'. for_each graph (\<lambda>(n, preds). for_each preds (set_entry B n)) ts = Ret () ts' \<and>
    sim dim ent ts' (so\<lparr>so_edges := so_edges so @ [(n, p). (n, preds) \<leftarrow> graph, p \<leftarrow> preds]\<rparr>)"
  using assms(2-4)
proof (induction graph arbitrary: ts so)
  case Nil
  then show ?case by simp
next
  case (Cons g graph)
  obtain n ps where g: "g = (n, ps)" by (cases g)
  let ?so = "so\<lparr>so_edges := so_edges so @ map (Pair n) ps\<rparr>"
  obtain ts1 where ts1: "for_each ps (set_entry B n) ts = Ret () ts1" "sim dim ent ts1 ?so"
    using set_entries_sim [OF ok Cons.prems(1,2), of n ps] Cons.prems(3) g by auto
  have mem: "\<And>m qs. (m, qs) \<in> set graph \<Longrightarrow> m \<in> set (so_nodes ?so) \<and> set qs \<subseteq> set (so_nodes ?so)"
    using Cons.prems(3) [OF list.set_intros(2)] by simp
  from Cons.IH [OF ts1(2) _ mem] Cons.prems(2) obtain ts2
    where ts2: "for_each graph (\<lambda>(n, preds). for_each preds (set_entry B n)) ts1 = Ret () ts2"
      "sim dim ent ts2 (?so\<lparr>so_edges := so_edges ?so @ [(n, p). (n, preds) \<leftarrow> graph, p \<leftarrow> preds]\<rparr>)"
    by auto
  have "[(n, p). (n, preds) \<leftarrow> g # graph, p \<leftarrow> preds] = map (Pair n) ps @ [(n, p). (n, preds) \<leftarrow> graph, p \<leftarrow> preds]"
    by (simp add: g)
  with ts1(1) ts2 show ?case by (simp add: g)
qed

lemma merge_graph_sim:
  assumes ok: "backend_ok B dim ent" and s: "sim dim ent ts so"
  shows "case so_merge_graph graph so of
      Inl e \<Rightarrow> ts_merge_graph B graph ts = Raise e ts
    | Inr so' \<Rightarrow> (\<exists>ts'. ts_merge_graph B graph ts = Ret () ts' \<and> sim dim ent ts' so')"
proof (cases "so_ready so")
  case (Some r)
  then show ?thesis using simD(6) [OF s] by (simp add: so_merge_graph_def ts_merge_graph_def)
next
  case None
  let ?N = "so_number graph (so_nodes so)" and ?n = "length (so_nodes so)"
  let ?m = "if ?n \<noteq> length ?N then gb_resize B (length ?N) (ts_matrix ts) else ts_matrix ts"
  let ?ts = "ts\<lparr>ts_key_to_id := numbered ?N, ts_matrix := ?m\<rparr>" and ?so = "so\<lparr>so_nodes := ?N\<rparr>"
  have keys: "number_keys graph (ts_key_to_id ts) = numbered ?N"
    unfolding simD(3) [OF s] by (rule number_keys_numbered [OF simD(2) [OF s]])
  note N = so_number_spec [of graph "so_nodes so"]
  have pre: "?n \<le> length ?N" "\<And>i. i < ?n \<Longrightarrow> ?N ! i = so_nodes so ! i"
    using so_number_prefix [of graph "so_nodes so"] by (auto simp: nth_append)
  have dim: "dim ?m = length ?N" using backendD(3) [OF ok] simD(4) [OF s] by simp
  have ent: "ent ?m i j \<longleftrightarrow> i < ?n \<and> j < ?n \<and> (so_nodes so ! i, so_nodes so ! j) \<in> set (so_edges so)"
    if ij: "i < length ?N" "j < length ?N" for i j
  proof -
    have "ent ?m i j \<longleftrightarrow> ent (ts_matrix ts) i j" using ij by (simp add: backendD(4) [OF ok])
    moreover have "ent (ts_matrix ts) i j \<Longrightarrow> i < ?n \<and> j < ?n"
      using backendD(1) [OF ok, of "ts_matrix ts" i j] by (simp add: simD(4) [OF s])
    ultimately show ?thesis using simD(5) [OF s, of i j] by blast
  qed
  have e: "ent ?m i j \<longleftrightarrow> (?N ! i, ?N ! j) \<in> set (so_edges so)" if ij: "i < length ?N" "j < length ?N" for i j
  proof
    show "ent ?m i j \<Longrightarrow> (?N ! i, ?N ! j) \<in> set (so_edges so)" using ent [OF ij] pre(2) by auto
    assume E: "(?N ! i, ?N ! j) \<in> set (so_edges so)"
    then have "?N ! i \<in> set (so_nodes so)" "?N ! j \<in> set (so_nodes so)" using simD(1) [OF s] by (auto simp: so_wf_def)
    then obtain a b where ab: "a < ?n" "so_nodes so ! a = ?N ! i" "b < ?n" "so_nodes so ! b = ?N ! j"
      by (auto simp: in_set_conv_nth)
    have "distinct ?N" using N simD(2) [OF s] by simp
    then have "a = i" "b = j" using ab pre ij by (metis nth_eq_iff_index_eq order_less_le_trans)+
    then show "ent ?m i j" using ent [OF ij] ab E pre(2) by auto
  qed
  have "so_wf ?so" using N simD(1) [OF s] by (auto simp: so_wf_def)
  then have sim0: "sim dim ent ?ts ?so" using s None dim e by (simp add: sim_def)
  have mem: "\<And>n ps. (n, ps) \<in> set graph \<Longrightarrow> n \<in> set (so_nodes ?so) \<and> set ps \<subseteq> set (so_nodes ?so)"
    using N by force
  from set_graph_sim [OF ok sim0 _ mem] None obtain ts'
    where "for_each graph (\<lambda>(n, preds). for_each preds (set_entry B n)) ?ts = Ret () ts'"
      "sim dim ent ts' (?so\<lparr>so_edges := so_edges ?so @ [(n, p). (n, preds) \<leftarrow> graph, p \<leftarrow> preds]\<rparr>)"
    by auto
  moreover have "ts_merge_graph B graph ts = for_each graph (\<lambda>(n, preds). for_each preds (set_entry B n)) ?ts"
    using None simD(6) [OF s] keys by (simp add: ts_merge_graph_def Let_def simD(3) [OF s])
  ultimately show ?thesis using None by (simp add: so_merge_graph_def)
qed

section \<open>Static order\<close>

fun so_static_loop :: "nat \<Rightarrow> ('k list, 'k sorter) comp" where
  "so_static_loop 0 = (\<lambda>s. NoFuel)"
| "so_static_loop (Suc n) =
     andthen so_is_active (\<lambda>active.
       if \<not> active then ret []
       else andthen so_get_ready (\<lambda>group. seq (so_done group) (andthen (so_static_loop n) (\<lambda>rest. ret (group @ rest)))))"

text \<open>Every element comes after all its predecessors.\<close>

definition topological :: "('k \<times> 'k) set \<Rightarrow> 'k list \<Rightarrow> bool" where
  "topological E xs \<longleftrightarrow> (\<forall>as n bs. xs = as @ n # bs \<longrightarrow> (\<forall>p. (n, p) \<in> E \<longrightarrow> p \<in> set as))"

lemma topological_append:
  assumes "topological E xs" and "\<And>n p. n \<in> set ys \<Longrightarrow> (n, p) \<in> E \<Longrightarrow> p \<in> set xs"
  shows "topological E (xs @ ys)"
  using assms unfolding topological_def by (auto simp: append_eq_append_conv2 append_eq_Cons_conv) blast+

lemma so_marks:
  assumes "distinct ks" "set ks \<subseteq> set (so_visited s)" "set ks \<inter> set (so_finished s) = {}" "set (so_visited s) \<subseteq> set (so_nodes s)"
  shows "for_each ks so_mark s = Ret () (s\<lparr>so_finished := so_finished s @ ks\<rparr>)"
  using assms
proof (induction ks arbitrary: s)
  case (Cons k ks)
  let ?s = "s\<lparr>so_finished := so_finished s @ [k]\<rparr>"
  have "so_mark k s = Ret () ?s" using Cons.prems by (auto simp: so_mark_def)
  moreover have "for_each ks so_mark ?s = Ret () (?s\<lparr>so_finished := so_finished ?s @ ks\<rparr>)"
    using Cons.prems by (intro Cons.IH) auto
  ultimately show ?case by simp
qed simp

lemma so_done_group:
  assumes inv: "so_inv s" and r: "so_ready s = Some []"
    and ks: "distinct ks" "set ks \<subseteq> set (so_visited s)" "set ks \<inter> set (so_finished s) = {}"
  shows "\<exists>s' new. so_done ks s = Ret () s' \<and> so_inv s' \<and> so_finished s' = so_finished s @ ks \<and>
    so_nodes s' = so_nodes s \<and> so_edges s' = so_edges s \<and> so_ready s' = Some new \<and>
    set (so_visited s') = set (so_visited s) \<union> set new \<and> set new \<inter> set (so_visited s) = {}"
proof -
  let ?s2 = "s\<lparr>so_finished := so_finished s @ ks, so_n_done := so_n_done s + length ks\<rparr>"
  let ?new = "so_zero_degree_keys ?s2"
  have run: "so_done ks s = Ret () (so_visit [] ?new ?s2)"
    using so_marks [OF ks(1,2,3)] inv r by (simp add: so_done_def so_inv_def Let_def)
  have pre: "so_wf ?s2" "distinct (so_visited ?s2)" "set (so_visited ?s2) \<subseteq> set (so_nodes ?s2)"
    "distinct (so_finished ?s2)" "set (so_finished ?s2) \<subseteq> set (so_visited ?s2)"
    "so_n_done ?s2 = length (so_finished ?s2)" "so_n_visited ?s2 = length (so_visited ?s2)"
    using inv ks by (auto simp: so_inv_def so_wf_def)
  have zero: "so_zero_degree ?s2 m" if "m \<in> set (so_visited s)" for m
    using that inv by (auto simp: so_inv_def so_zero_degree_iff)
  have "so_inv (so_visit [] ?new ?s2)" "set ?new \<inter> set (so_visited s) = {}"
    "set (so_visited (so_visit [] ?new ?s2)) = set (so_visited s) \<union> set ?new"
    using so_visit_inv [of ?s2 "[]", OF pre(1-5) _ pre(6,7)] zero by auto
  moreover have "so_ready (so_visit [] ?new ?s2) = Some ?new" "so_finished (so_visit [] ?new ?s2) = so_finished s @ ks"
    "so_nodes (so_visit [] ?new ?s2) = so_nodes s" "so_edges (so_visit [] ?new ?s2) = so_edges s"
    by (simp_all add: so_visit_def)
  ultimately show ?thesis using run by blast
qed

lemma so_static_loop_spec:
  assumes "so_inv s" "so_ready s = Some r" "set (so_visited s) = set (so_finished s) \<union> set r"
    "set (so_finished s) \<inter> set r = {}" "topological (set (so_edges s)) (so_finished s)"
    "length (so_nodes s) < length (so_finished s) + n"
  shows "\<exists>ys s'. so_static_loop n s = Ret ys s' \<and> so_inv s' \<and> so_finished s' = so_finished s @ ys \<and>
    so_nodes s' = so_nodes s \<and> so_edges s' = so_edges s \<and> topological (set (so_edges s)) (so_finished s') \<and>
    so_n_done s' = so_n_visited s'"
  using assms
proof (induction n arbitrary: s r)
  case 0
  have "length (so_finished s) = card (set (so_finished s))" using 0(1) by (simp add: so_inv_def distinct_card)
  also have "\<dots> \<le> card (set (so_nodes s))" using 0(1) by (intro card_mono) (auto simp: so_inv_def)
  also have "\<dots> \<le> length (so_nodes s)" by (rule card_length)
  finally show ?case using 0(6) by simp
next
  case (Suc n)
  have dr: "distinct r" using Suc.prems(1,2) by (auto simp: so_inv_def)
  have cnt: "so_n_done s = length (so_finished s)" "so_n_visited s = length (so_finished s) + length r"
  proof -
    have "length (so_visited s) = card (set (so_finished s) \<union> set r)"
      using Suc.prems(1,3) by (metis distinct_card so_inv_def)
    also have "\<dots> = length (so_finished s) + length r"
      using Suc.prems(1,4) dr by (simp add: card_Un_disjoint distinct_card so_inv_def)
    finally show "so_n_visited s = length (so_finished s) + length r" using Suc.prems(1) by (simp add: so_inv_def)
    show "so_n_done s = length (so_finished s)" using Suc.prems(1) by (simp add: so_inv_def)
  qed
  have active: "so_is_active s = Ret (r \<noteq> []) s" using Suc.prems(2) cnt by (auto simp: so_is_active_def)
  show ?case
  proof (cases "r = []")
    case True
    then show ?thesis using active Suc.prems(1,5) cnt by (simp add: andthen_run)
  next
    case False
    let ?s1 = "s\<lparr>so_ready := Some []\<rparr>"
    have inv1: "so_inv ?s1" using so_get_ready_spec [OF Suc.prems(1)] by blast
    have "\<exists>s' new. so_done r ?s1 = Ret () s' \<and> so_inv s' \<and> so_finished s' = so_finished ?s1 @ r \<and>
        so_nodes s' = so_nodes ?s1 \<and> so_edges s' = so_edges ?s1 \<and> so_ready s' = Some new \<and>
        set (so_visited s') = set (so_visited ?s1) \<union> set new \<and> set new \<inter> set (so_visited ?s1) = {}"
      using Suc.prems(3,4) by (intro so_done_group inv1 dr) auto
    then obtain s2 new where s2: "so_done r ?s1 = Ret () s2" "so_inv s2" "so_finished s2 = so_finished s @ r"
        "so_nodes s2 = so_nodes s" "so_edges s2 = so_edges s" "so_ready s2 = Some new"
        "set (so_visited s2) = set (so_visited s) \<union> set new" "set new \<inter> set (so_visited s) = {}"
      by auto
    have topo: "topological (set (so_edges s2)) (so_finished s2)"
      unfolding s2(3,5)
      by (rule topological_append [OF Suc.prems(5)]) (use so_visited_preds [OF Suc.prems(1)] Suc.prems(3) in blast)
    have "length (so_nodes s2) < length (so_finished s2) + n"
      using Suc.prems(6) False s2(3,4) by (cases r) auto
    moreover have "set (so_visited s2) = set (so_finished s2) \<union> set new" "set (so_finished s2) \<inter> set new = {}"
      using s2(3,7,8) Suc.prems(3) by auto
    ultimately obtain ys s' where "so_static_loop n s2 = Ret ys s'" "so_inv s'" "so_finished s' = so_finished s2 @ ys"
        "so_nodes s' = so_nodes s2" "so_edges s' = so_edges s2" "topological (set (so_edges s2)) (so_finished s')"
        "so_n_done s' = so_n_visited s'"
      using Suc.IH [OF s2(2,6) _ _ topo] by blast
    moreover have "so_get_ready s = Ret r ?s1" using Suc.prems(2) by (simp add: so_get_ready_def)
    ultimately show ?thesis
      using active False s2(1,3,4,5) by (simp add: andthen_run seq_run)
  qed
qed

lemma sim_andthen:
  assumes "sim_out dim ent (m ts) (m' so)"
    and "\<And>a ts so. sim dim ent ts so \<Longrightarrow> sim_out dim ent (f a ts) (f' a so)"
  shows "sim_out dim ent (andthen m f ts) (andthen m' f' so)"
  using assms by (cases "m ts"; cases "m' so") (auto simp: andthen_run)

lemma sim_seq:
  assumes "sim_out dim ent (m ts) (m' so)"
    and "\<And>ts so. sim dim ent ts so \<Longrightarrow> sim_out dim ent (k ts) (k' so)"
  shows "sim_out dim ent (seq m k ts) (seq m' k' so)"
  using assms by (cases "m ts"; cases "m' so") (auto simp: seq_run)

lemma static_loop_sim:
  assumes ok: "backend_ok B dim ent" and "sim dim ent ts so"
  shows "sim_out dim ent (static_order_loop B n ts) (so_static_loop n so)"
  using assms(2)
proof (induction n arbitrary: ts so)
  case (Suc n)
  have round: "sim_out dim ent (andthen ts_get_ready (\<lambda>group. seq (ts_done B group)
          (andthen (static_order_loop B n) (\<lambda>rest. ret (group @ rest)))) ts)
        (andthen so_get_ready (\<lambda>group. seq (so_done group) (andthen (so_static_loop n) (\<lambda>rest. ret (group @ rest)))) so)"
    if "sim dim ent ts so" for ts and so :: "'b sorter"
    by (rule sim_andthen, rule get_ready_sim [OF that], rule sim_seq, erule done_sim [OF ok],
        rule sim_andthen, erule Suc.IH) simp
  show ?case
    unfolding static_order_loop.simps so_static_loop.simps
    by (rule sim_andthen, rule is_active_sim [OF Suc.prems]) (simp add: round)
qed simp

text \<open>
  \<open>static_order\<close> on a merged graph: with a cycle it raises; without, it lists every node
  exactly once, after all its predecessors.
\<close>

lemma static_order_spec:
  assumes ok: "backend_ok B dim ent" and s: "sim dim ent ts so"
    and fresh: "so_ready so = None" "so_n_done so = 0" "so_n_visited so = 0"
  shows "if acyclic (set (so_edges so))
    then \<exists>ys ts'. static_order B ts = Ret ys ts' \<and> distinct ys \<and> set ys = set (so_nodes so) \<and>
      topological (set (so_edges so)) ys
    else \<exists>ts'. static_order B ts = Raise CycleError ts'"
proof (cases "acyclic (set (so_edges so))")
  case False
  obtain so' where "so_prepare so = Raise CycleError so'"
    using so_prepare_spec [OF simD(1) [OF s] fresh] False by auto
  then obtain ts' where "ts_prepare B ts = Raise CycleError ts'"
    using prepare_sim [OF ok s] by (cases "ts_prepare B ts") auto
  then show ?thesis using False by (simp add: static_order_def seq_run)
next
  case True
  obtain so' where so': "so_prepare so = Ret () so'" "so_inv so'" "so_nodes so' = so_nodes so" "so_edges so' = so_edges so"
      "so_finished so' = []" "so_ready so' = Some (filter (\<lambda>n. \<forall>p. (n, p) \<notin> set (so_edges so)) (so_nodes so))"
    using so_prepare_spec [OF simD(1) [OF s] fresh] True by auto
  then obtain ts' where ts': "ts_prepare B ts = Ret () ts'" "sim dim ent ts' so'"
    using prepare_sim [OF ok s] by (cases "ts_prepare B ts") auto
  have "set (so_visited so') = set (filter (\<lambda>n. \<forall>p. (n, p) \<notin> set (so_edges so)) (so_nodes so))"
    using so'(2-5) unfolding so_inv_def so_zero_degree_iff by auto
  then have "\<exists>ys s'. so_static_loop (Suc (length (so_nodes so))) so' = Ret ys s' \<and> so_inv s' \<and> so_finished s' = so_finished so' @ ys \<and>
      so_nodes s' = so_nodes so' \<and> so_edges s' = so_edges so' \<and> topological (set (so_edges so')) (so_finished s') \<and>
      so_n_done s' = so_n_visited s'"
    by (intro so_static_loop_spec [OF so'(2,6)]) (simp_all add: so'(3,5) topological_def)
  then obtain ys so2 where so2: "so_static_loop (Suc (length (so_nodes so))) so' = Ret ys so2" "so_inv so2"
      "so_finished so2 = ys" "so_nodes so2 = so_nodes so" "so_edges so2 = so_edges so"
      "topological (set (so_edges so)) ys" "so_n_done so2 = so_n_visited so2"
    using so'(3-5) by auto
  obtain ts2 where "static_order_loop B (Suc (length (so_nodes so))) ts' = Ret ys ts2"
    using static_loop_sim [OF ok ts'(2), of "Suc (length (so_nodes so))"] so2(1)
    by (cases "static_order_loop B (Suc (length (so_nodes so))) ts'") auto
  then have "static_order B ts = Ret ys ts2"
    using ts'(1) by (simp add: static_order_def simD(3) [OF s] del: static_order_loop.simps)
  moreover have "set ys = set (so_nodes so)" using so_complete [OF so2(2)] True so2(3-5,7) by simp
  moreover have "distinct ys" using so2(2,3) by (auto simp: so_inv_def)
  ultimately show ?thesis using True so2(6) by auto
qed

end
