(* ===== verification/QueueRefinement.thy ===== *)
theory QueueRefinement
  imports Queues
begin

text \<open>
  What a stable priority queue promises, as a list kept in order of priority in which a new
  item goes behind the items of its own priority. Every sequence of operations on the
  queue of \<open>src/src/cpp/scaler/utility\<close>, with its 64-bit insertion counter, answers
  like this list.
\<close>

datatype 'a queue_op = Put int 'a | Get | Remove 'a | Decrease 'a | Peek

fun op_result :: "'a queue_op \<Rightarrow> ('a, 'c::{linorder, one, plus, zero}) spq \<Rightarrow> (int \<times> 'a) option \<times> ('a, 'c) spq" where
  "op_result (Put p x) q = (None, spq_put p x q)"
| "op_result Get q = (case spq_get q of None \<Rightarrow> (None, q) | Some (item, q') \<Rightarrow> (Some item, q'))"
| "op_result (Remove x) q = (None, spq_remove x q)"
| "op_result (Decrease x) q = (None, spq_decrease_priority x q)"
| "op_result Peek q = (spq_max_priority_item q, q)"

fun run_ops :: "'a queue_op list \<Rightarrow> ('a, 'c::{linorder, one, plus, zero}) spq \<Rightarrow> (int \<times> 'a) option list" where
  "run_ops [] q = []"
| "run_ops (op # ops) q = (case op_result op q of (r, q') \<Rightarrow> r # run_ops ops q')"

section \<open>The specification\<close>

definition insert_stable :: "int \<times> 'a \<Rightarrow> (int \<times> 'a) list \<Rightarrow> (int \<times> 'a) list" where
  "insert_stable e xs = takeWhile (\<lambda>x. fst x \<le> fst e) xs @ e # dropWhile (\<lambda>x. fst x \<le> fst e) xs"

definition without :: "'a \<Rightarrow> (int \<times> 'a) list \<Rightarrow> (int \<times> 'a) list" where
  "without x xs = filter (\<lambda>e. snd e \<noteq> x) xs"

fun spec_op :: "'a queue_op \<Rightarrow> (int \<times> 'a) list \<Rightarrow> (int \<times> 'a) option \<times> (int \<times> 'a) list" where
  "spec_op (Put p x) xs = (None, insert_stable (p, x) xs)"
| "spec_op Get xs = (case xs of [] \<Rightarrow> (None, []) | e # es \<Rightarrow> (Some e, es))"
| "spec_op (Remove x) xs = (None, without x xs)"
| "spec_op (Decrease x) xs =
     (None, case find (\<lambda>e. snd e = x) xs of None \<Rightarrow> xs | Some (p, _) \<Rightarrow> insert_stable (p - 1, x) (without x xs))"
| "spec_op Peek xs = (case xs of [] \<Rightarrow> None | e # es \<Rightarrow> Some e, xs)"

fun run_spec :: "'a queue_op list \<Rightarrow> (int \<times> 'a) list \<Rightarrow> (int \<times> 'a) option list" where
  "run_spec [] xs = []"
| "run_spec (op # ops) xs = (case spec_op op xs of (r, xs') \<Rightarrow> r # run_spec ops xs')"

text \<open>The callers never put an item that is already queued.\<close>

fun ops_fresh :: "'a queue_op list \<Rightarrow> (int \<times> 'a) list \<Rightarrow> bool" where
  "ops_fresh [] xs = True"
| "ops_fresh (op # ops) xs =
     ((case op of Put p x \<Rightarrow> x \<notin> snd ` set xs | _ \<Rightarrow> True) \<and> ops_fresh ops (snd (spec_op op xs)))"

section \<open>Refinement over the natural numbers\<close>

definition view :: "('a, nat) spq \<Rightarrow> (int \<times> 'a) list" where
  "view q = map (\<lambda>(key, x). (fst key, x)) (spq_queue q)"

lemma view_put:
  assumes "\<And>e. e \<in> set m \<Longrightarrow> snd (fst e) < c"
  shows "map (\<lambda>(key, x). (fst key, x)) (omap_put (p, c) x m) = insert_stable (p, x) (map (\<lambda>(key, x). (fst key, x)) m)"
  using assms
proof (induction m)
  case Nil
  then show ?case by (simp add: insert_stable_def)
next
  case (Cons e m)
  obtain p' c' y where e: "e = ((p', c'), y)" by (cases e) auto
  have c: "c' < c" using Cons.prems [of e] by (simp add: e)
  have IH: "map (\<lambda>(key, x). (fst key, x)) (omap_put (p, c) x m) = insert_stable (p, x) (map (\<lambda>(key, x). (fst key, x)) m)"
    using Cons.prems by (intro Cons.IH) auto
  show ?case
  proof (cases "p' \<le> p")
    case True
    then have "(p', c') < (p, c)" using c by auto
    then have "omap_put (p, c) x (e # m) = e # omap_put (p, c) x m" by (auto simp: e)
    then show ?thesis using IH True by (simp add: e insert_stable_def)
  next
    case False
    then have "(p, c) < (p', c')" by auto
    then show ?thesis using False by (auto simp: e insert_stable_def)
  qed
qed

lemma view_erase:
  assumes "spq_inv q" "dict_get (spq_locator q) x = Some key"
  shows "map (\<lambda>(key, x). (fst key, x)) (omap_erase key (spq_queue q)) = without x (view q)"
proof -
  have "fst e \<noteq> key \<longleftrightarrow> snd e \<noteq> x" if e: "e \<in> set (spq_queue q)" for e
  proof -
    have "dict_get (spq_locator q) (snd e) = Some (fst e)" using spq_inv_mem [OF assms(1), of "fst e" "snd e"] e by simp
    moreover have "(key, x) \<in> set (spq_queue q)" using spq_inv_mem [OF assms(1)] assms(2) by blast
    ultimately show ?thesis
      using omap_functional [OF spq_inv_ok [OF assms(1)]] e assms(2) by (metis option.inject prod.collapse)
  qed
  then have "omap_erase key (spq_queue q) = filter (\<lambda>e. snd e \<noteq> x) (spq_queue q)"
    unfolding omap_erase_def by (intro filter_cong) auto
  then show ?thesis by (simp add: view_def without_def filter_map comp_def case_prod_beta)
qed

lemma view_absent:
  assumes "spq_inv q" "dict_get (spq_locator q) x = None"
  shows "x \<notin> snd ` set (view q)" "without x (view q) = view q" "find (\<lambda>e. snd e = x) (view q) = None"
proof -
  show a: "x \<notin> snd ` set (view q)"
    using assms spq_inv_mem [OF assms(1), of _ x] by (auto simp: view_def)
  then have ne: "\<forall>e \<in> set (view q). snd e \<noteq> x" by blast
  then show "without x (view q) = view q" unfolding without_def by (rule filter_True)
  show "find (\<lambda>e. snd e = x) (view q) = None" using ne by (auto simp: find_None_iff)
qed

lemma view_find:
  assumes "spq_inv q" "dict_get (spq_locator q) x = Some key"
  shows "find (\<lambda>e. snd e = x) (view q) = Some (fst key, x)"
proof -
  have mem: "(key, x) \<in> set (spq_queue q)" using spq_inv_mem [OF assms(1)] assms(2) by blast
  then have "(fst key, x) \<in> set (view q)" by (force simp: view_def)
  then obtain e where e: "find (\<lambda>e. snd e = x) (view q) = Some e" "snd e = x" "e \<in> set (view q)"
    by (cases "find (\<lambda>e. snd e = x) (view q)") (auto simp: find_None_iff find_Some_iff)
  then obtain k where "(k, x) \<in> set (spq_queue q)" "fst e = fst k" by (auto simp: view_def)
  then have "k = key" using spq_inv_mem [OF assms(1), of k x] assms(2) by auto
  then show ?thesis using e \<open>fst e = fst k\<close> by (cases e) simp
qed

lemma spq_absent_iff:
  assumes "spq_inv q"
  shows "x \<notin> snd ` set (view q) \<longleftrightarrow> spq_prio q x = None"
proof (cases "dict_get (spq_locator q) x")
  case None
  then show ?thesis using view_absent(1) [OF assms None] by (simp add: spq_prio_def)
next
  case (Some key)
  have "(key, x) \<in> set (spq_queue q)" using spq_inv_mem [OF assms] Some by blast
  then have "x \<in> snd ` set (view q)" by (force simp: view_def)
  then show ?thesis using Some by (simp add: spq_prio_def)
qed

lemma op_refines:
  assumes inv: "spq_inv q" and fresh: "case op of Put p x \<Rightarrow> x \<notin> snd ` set (view q) | _ \<Rightarrow> True"
  shows "fst (op_result op q) = fst (spec_op op (view q))" and "view (snd (op_result op q)) = snd (spec_op op (view q))"
    and "spq_inv (snd (op_result op q))"
proof -
  have "fst (op_result op q) = fst (spec_op op (view q)) \<and> view (snd (op_result op q)) = snd (spec_op op (view q)) \<and>
      spq_inv (snd (op_result op q))"
  proof (cases op)
    case (Put p x)
    then have "spq_prio q x = None" using fresh spq_absent_iff [OF inv] by simp
    then show ?thesis
      using Put view_put [of "spq_queue q" "spq_counter q" p x] spq_inv_counter [OF inv] spq_put_inv [OF inv]
      by (auto simp: spq_put_def Let_def view_def)
  next
    case Get
    show ?thesis
    proof (cases "spq_queue q")
      case Nil
      then show ?thesis using Get inv by (simp add: spq_get_def view_def)
    next
      case (Cons e es)
      obtain p c x where e: "e = ((p, c), x)" by (cases e) auto
      have g: "spq_get q = Some ((p, x), q\<lparr>spq_queue := es, spq_locator := dict_pop x (spq_locator q)\<rparr>)"
        by (simp add: spq_get_def Cons e)
      show ?thesis using Get g spq_get_inv(1) [OF inv g] Cons e by (simp add: view_def)
    qed
  next
    case (Remove x)
    show ?thesis
    proof (cases "dict_get (spq_locator q) x")
      case None
      then show ?thesis using Remove inv view_absent [OF inv None] by (simp add: spq_remove_def)
    next
      case (Some key)
      then show ?thesis using Remove view_erase [OF inv Some] spq_remove_inv [OF inv, of x]
        by (simp add: spq_remove_def view_def)
    qed
  next
    case (Decrease x)
    show ?thesis
    proof (cases "dict_get (spq_locator q) x")
      case None
      then show ?thesis using Decrease inv view_absent [OF inv None] by (simp add: spq_decrease_priority_def)
    next
      case (Some key)
      have "map (\<lambda>(key, x). (fst key, x)) (omap_put (fst key - 1, spq_counter q) x (omap_erase key (spq_queue q))) =
          insert_stable (fst key - 1, x) (without x (view q))"
        unfolding view_erase [OF inv Some, symmetric]
        by (rule view_put) (use spq_inv_counter [OF inv] in \<open>auto simp: set_omap_erase\<close>)
      then show ?thesis
        using Decrease Some view_find [OF inv Some] spq_decrease_inv [OF inv, of x]
        by (simp add: spq_decrease_priority_def view_def Let_def spq_prio_def)
    qed
  next
    case Peek
    then show ?thesis using inv
      by (auto simp: spq_max_priority_item_def view_def split: list.split)
  qed
  then show "fst (op_result op q) = fst (spec_op op (view q))" "view (snd (op_result op q)) = snd (spec_op op (view q))"
    "spq_inv (snd (op_result op q))" by blast+
qed

lemma run_refines:
  assumes "spq_inv q" "ops_fresh ops (view q)"
  shows "run_ops ops q = run_spec ops (view q)"
  using assms
proof (induction ops arbitrary: q)
  case (Cons op ops)
  have fresh: "case op of Put p x \<Rightarrow> x \<notin> snd ` set (view q) | _ \<Rightarrow> True" using Cons.prems(2) by simp
  note step = op_refines [OF Cons.prems(1) fresh]
  have "run_ops ops (snd (op_result op q)) = run_spec ops (snd (spec_op op (view q)))"
    using Cons.IH [OF step(3)] step(2) Cons.prems(2) by simp
  then show ?case using step(1) by (simp add: case_prod_beta)
qed simp

section \<open>The 64-bit counter\<close>

lemma op_cast:
  assumes "spq_bounded q"
  shows "op_result op (spq_cast q) = map_prod id spq_cast (op_result op q)"
proof (cases op)
  case Get
  then show ?thesis by (simp add: spq_get_refines split: option.split)
next
  case Peek
  have "spq_max_priority_item (spq_cast q) = spq_max_priority_item q"
    by (auto simp: spq_max_priority_item_def spq_cast_def cast_key_def split: list.split)
  then show ?thesis using Peek by simp
qed (use assms in \<open>simp_all add: spq_put_refines spq_remove_refines spq_decrease_refines\<close>)

lemma set_omap_put_le: "set (omap_put k v m) \<subseteq> insert (k, v) (set m)"
  by (induction m) auto

lemma set_dict_set_le: "set (dict_set k v d) \<subseteq> insert (k, v) (set d)"
  by (induction d) (auto simp: dict_set_def)

lemma set_dict_pop_le: "set (dict_pop k d) \<subseteq> set d"
  by (induction d) (auto simp: dict_pop_def)

lemma locator_bounded: "spq_bounded q \<Longrightarrow> dict_get (spq_locator q) x = Some key \<Longrightarrow> snd key < 2 ^ 64"
  using dict_get_SomeD [of "spq_locator q" x key] by (auto simp: spq_bounded_def)

lemma bounded_op:
  assumes "spq_bounded q" "spq_counter q + 1 < 2 ^ 64"
  shows "spq_bounded (snd (op_result op q))" "spq_counter (snd (op_result op q)) \<le> spq_counter q + 1"
proof -
  have put: "\<forall>e \<in> set (omap_put (p, spq_counter q) x m). snd (fst e) < 2 ^ 64"
    if "\<forall>e \<in> set m. snd (fst e) < 2 ^ 64" for p x and m :: "((int \<times> nat) \<times> 'a) list"
    using that assms(2) set_omap_put_le [of "(p, spq_counter q)" x m] by fastforce
  have loc: "\<forall>e \<in> set (dict_set x (p, spq_counter q) (spq_locator q)). snd (snd e) < 2 ^ 64" for x p
    using assms set_dict_set_le [of x "(p, spq_counter q)" "spq_locator q"] by (fastforce simp: spq_bounded_def)
  have pop: "\<forall>e \<in> set (dict_pop x (spq_locator q)). snd (snd e) < 2 ^ 64" for x
    using assms(1) set_dict_pop_le [of x "spq_locator q"] by (auto simp: spq_bounded_def)
  have "spq_bounded (snd (op_result op q)) \<and> spq_counter (snd (op_result op q)) \<le> spq_counter q + 1"
  proof (cases op)
    case (Put p x)
    then show ?thesis using assms put [of "spq_queue q" p x] loc [of x p] by (simp add: spq_put_def Let_def spq_bounded_def)
  next
    case Get
    then show ?thesis using assms pop by (auto simp: spq_get_def spq_bounded_def split: list.splits option.splits)
  next
    case (Remove x)
    then show ?thesis using assms pop by (auto simp: spq_remove_def spq_bounded_def set_omap_erase split: option.splits)
  next
    case (Decrease x)
    have "\<forall>e \<in> set (omap_erase key (spq_queue q)). snd (fst e) < 2 ^ 64" for key
      using assms(1) by (auto simp: spq_bounded_def set_omap_erase)
    from put [OF this] Decrease show ?thesis
      using assms loc by (auto simp: spq_decrease_priority_def spq_bounded_def Let_def split: option.splits)
  next
    case Peek
    then show ?thesis using assms by simp
  qed
  then show "spq_bounded (snd (op_result op q))" "spq_counter (snd (op_result op q)) \<le> spq_counter q + 1" by blast+
qed

lemma run_cast:
  assumes "spq_bounded q" "spq_counter q + length ops < 2 ^ 64"
  shows "run_ops ops (spq_cast q) = run_ops ops q"
  using assms
proof (induction ops arbitrary: q)
  case (Cons op ops)
  let ?q = "snd (op_result op q)"
  have "spq_bounded ?q" "spq_counter ?q + length ops < 2 ^ 64"
    using bounded_op [of q op] Cons.prems by auto
  then have "run_ops ops (spq_cast ?q) = run_ops ops ?q" by (rule Cons.IH)
  then show ?case using op_cast [OF Cons.prems(1), of op] by (simp add: case_prod_beta)
qed simp

lemma run_from_empty:
  assumes "ops_fresh ops []" "length ops < 2 ^ 64"
  shows "run_ops ops (spq_empty :: 'a spq64) = run_spec ops []"
proof -
  have "spq_bounded (spq_empty :: ('a, nat) spq)" "spq_counter (spq_empty :: ('a, nat) spq) = 0"
    "spq_cast (spq_empty :: ('a, nat) spq) = spq_empty" "view (spq_empty :: ('a, nat) spq) = []"
    by (simp_all add: spq_bounded_def spq_empty_def spq_cast_def view_def)
  then show ?thesis
    using run_cast [of "spq_empty :: ('a, nat) spq" ops] run_refines [of "spq_empty :: ('a, nat) spq" ops] assms by simp
qed

end
