(* ===== verification/Scenarios.thy ===== *)
theory Scenarios
  imports GraphFaults TopologicalSorter GraphOptimization QueueRefinement
begin

text \<open>
  Concrete runs of the scheduler that the witnesses of the properties evaluate: an
  environment in which every storage request succeeds, one client, workers with one slot
  each, and a few tasks.
\<close>

definition demo_env :: env where
  "demo_env = \<lparr>env_order = (\<lambda>_ _. length), env_iter = length,
     env_bisect = (\<lambda>xs x. length (filter (\<lambda>y. y \<le> x) xs)), env_md5 = (\<lambda>_. replicate 16 (CHR 0x00)),
     env_tag = (\<lambda>_. replicate 16 (CHR 0x01)), env_failure = (\<lambda>_ _ _. []), env_set_object_ok = (\<lambda>_. True),
     env_duplicate_ok = (\<lambda>_ _. True), env_trigger_times = 2, env_worker_timeout = 60, env_client_timeout = 60,
     env_protected = True\<rparr>"

definition demo_task :: "TaskID \<Rightarrow> Task" where
  "demo_task t = \<lparr>taskId = t, task_source = ''Client|a'', task_metadata = [], funcObjectId = ''f'', functionArgs = [],
     task_capabilities = []\<rparr>"

definition demo_heartbeat :: worker_heartbeat where
  "demo_heartbeat = \<lparr>hb_capabilities = [], hb_queueSize = 1, hb_managerID = ''m'', hb_queuedTasks = 0,
     hb_taskLock = False, hb_processors = []\<rparr>"

text \<open>One worker with one slot and two tasks: the first runs, the second waits.\<close>

definition demo_inputs :: "sched_input list" where
  "demo_inputs = [Receive 0 ''Client|a'' InClientHeartbeat, Receive 0 ''w'' (InWorkerHeartbeat demo_heartbeat),
     Receive 1 ''Client|a'' (InTask (demo_task ''t1'')), Receive 1 ''Client|a'' (InTask (demo_task ''t2''))]"

definition demo_state :: sched where
  "demo_state = the (run_inputs demo_env demo_inputs (sched_init EVEN_LOAD NoScaling))"

lemma demo_run: "run_inputs demo_env demo_inputs (sched_init EVEN_LOAD NoScaling) = Some demo_state"
proof -
  have "run_inputs demo_env demo_inputs (sched_init EVEN_LOAD NoScaling) \<noteq> None" by code_simp
  then show ?thesis by (auto simp: demo_state_def)
qed

lemma demo_reachable: "reachable demo_env EVEN_LOAD NoScaling demo_state"
  by (rule reachable_run [OF demo_run]) (simp add: demo_inputs_def worker_is_valid_def invalid_worker_id_def)

lemma demo_facts:
  "task_state (core demo_state) ''t1'' = Some TS_running" "task_state (core demo_state) ''t2'' = Some TS_inactive"
  "held (core demo_state) ''t1'' = Some ''w''" "unassigned (core demo_state) = [''t2'']"
  "dict_has (tasks (core demo_state)) ''t1''" "dict_has (tasks (core demo_state)) ''t2''"
  "graphs demo_state = []" "graph_of demo_state = []"
  "case policy (core demo_state) of EvenLoadPolicy p \<Rightarrow> dict_get (ev_queue_size p) ''w'' = Some 1 | CapabilityPolicy p \<Rightarrow> False"
  "otm_owner (clients demo_state) ''t1'' = Some ''Client|a''" "otm_owner (clients demo_state) ''t2'' = Some ''Client|a''"
  "dict_has (worker_alive demo_state) ''w''" "\<not> is_client_source ''w''" "\<not> is_client_source ''v''"
  by code_simp+

lemma demo_machines: "map fst (mgr_machines (mgr (core demo_state))) = [''t1'', ''t2'']"
  by code_simp

lemma demo_not_sub: "\<not> is_graph_subtask demo_state t"
  using demo_facts(8) by (simp add: is_graph_subtask_def)

definition demo_result :: TaskResult where
  "demo_result = \<lparr>result_taskId = ''t1'', resultType = TR_success, result_metadata = '''', result_objects = [''r'']\<rparr>"

section \<open>The policies on their own\<close>

definition state_after :: "('a, 's) comp \<Rightarrow> 's \<Rightarrow> 's" where
  "state_after m s = (case m s of Ret _ s' \<Rightarrow> s' | Raise _ s' \<Rightarrow> s' | NoFuel \<Rightarrow> s)"

lemma state_after_Ret [simp]: "m s = Ret a s' \<Longrightarrow> state_after m s = s'"
  by (simp add: state_after_def)

text \<open>Two workers with two slots each; the first has both tasks.\<close>

definition demo_even :: even_policy where
  "demo_even = state_after (ev_add_worker ''v'' [] 2) (state_after (ev_assign_task (demo_task ''t2''))
     (state_after (ev_assign_task (demo_task ''t1'')) (state_after (ev_add_worker ''w'' [] 2) ev_init)))"

definition demo_capability :: cap_policy where
  "demo_capability = state_after (cp_add_worker ''v'' [(''gpu'', 1)] 2) (state_after (cp_assign_task length (demo_task ''t2''))
     (state_after (cp_assign_task length (demo_task ''t1'')) (state_after (cp_add_worker ''w'' [(''cpu'', -1)] 2) cp_init)))"

lemma valid_names: "worker_is_valid ''v''" "worker_is_valid ''w''"
  by (simp_all add: worker_is_valid_def invalid_worker_id_def)

lemma demo_task_id [simp]: "taskId (demo_task t) = t"
  by (simp add: demo_task_def)

lemma ev_add_worker_ok: "ev_ok p \<Longrightarrow> worker_is_valid w \<Longrightarrow> ev_ok (state_after (ev_add_worker w cs n) p)"
  using ev.add_worker [of p w cs n] by auto

lemma ev_assign_ok: "ev_ok p \<Longrightarrow> ev_holder p (taskId task) = None \<Longrightarrow> ev_ok (state_after (ev_assign_task task) p)"
  using ev.assign_task [of p task] by auto

lemma cp_add_worker_ok: "cp_inv p \<Longrightarrow> worker_is_valid w \<Longrightarrow> cp_inv (state_after (cp_add_worker w cs n) p)"
  using cp.add_worker [of p w cs n] by auto

lemma cp_assign_ok: "cp_inv p \<Longrightarrow> cp_holder p (taskId task) = None \<Longrightarrow> cp_inv (state_after (cp_assign_task h task) p)"
  using cp.assign_task [of p task h] by auto

lemma demo_even_ok: "ev_ok demo_even"
  unfolding demo_even_def
  by (intro ev_add_worker_ok ev_assign_ok valid_names) (simp add: ev_ok_def ev_init_inv, code_simp+)

lemma demo_capability_ok: "cp_inv demo_capability"
  unfolding demo_capability_def
  by (intro cp_add_worker_ok cp_assign_ok valid_names) (simp add: cp_init_inv, code_simp+)

section \<open>A backend for the topological sorter\<close>

text \<open>Square matrices as their dimension and a list of entries.\<close>

definition list_backend :: "(nat \<times> (nat \<times> nat) list) backend" where
  "list_backend = \<lparr>gb_Matrix = (0, []), gb_resize = (\<lambda>n (d, es). (n, filter (\<lambda>(i, j). i < d \<and> j < d) es)),
     gb_setitem = (\<lambda>i j (d, es). (d, (i, j) # es)),
     gb_diag = (\<lambda>bs. (length bs, map (\<lambda>i. (i, i)) (filter (\<lambda>i. bs ! i) [0..<length bs]))),
     gb_lor_pair = (\<lambda>(d, xs) (e, ys). (d, concat (map (\<lambda>(i, k). map (\<lambda>(_, j). (i, j)) (filter (\<lambda>(l, _). l = k \<and> k < d) ys)) xs))),
     gb_trace_lor = (\<lambda>(d, es). list_ex (\<lambda>i. (i, i) \<in> set es) [0..<d]),
     gb_row_indices = (\<lambda>(d, es). map fst (filter (\<lambda>(i, j). i < d \<and> j < d) es)), gb_nrows = fst,
     np_ones = (\<lambda>n. replicate n True), np_zeros = (\<lambda>n. replicate n False), np_arange = (\<lambda>n. [0..<n]),
     np_in1d = (\<lambda>xs ys. map (\<lambda>x. x \<in> set ys) xs), np_logical_not = map Not,
     np_argwhere_ne = (\<lambda>as bs. filter (\<lambda>i. as ! i \<noteq> bs ! i) [0..<length as])\<rparr>"

definition entry :: "nat \<times> (nat \<times> nat) list \<Rightarrow> nat \<Rightarrow> nat \<Rightarrow> bool" where
  "entry m i j = ((i, j) \<in> set (snd m) \<and> i < fst m \<and> j < fst m)"

lemma list_backend_ok: "backend_ok list_backend fst entry"
  unfolding backend_ok_def list_backend_def
  by (intro conjI allI impI) (auto simp: entry_def list_ex_iff split: prod.splits, force+)

section \<open>A tracker\<close>

definition track :: "string \<Rightarrow> string \<Rightarrow> string list \<Rightarrow> (string, string, string) object_tracker \<Rightarrow> (string, string, string) object_tracker" where
  "track k v bs tr = state_after (ot_add_blocks_for_one_object k bs) (ot_add_object k v tr)"

lemma track_facts:
  assumes "ot_inv tr"
  shows "ot_inv (track k v (b # bs) tr)" "dict_get (ot_objects (track k v (b # bs) tr)) = (dict_get (ot_objects tr))(k \<mapsto> v)"
    "ot_blocked_by (track k v (b # bs) tr) = (ot_blocked_by tr)(k := ot_blocked_by tr k \<union> insert b (set bs))"
  using ot_add_blocked [OF assms, of k b bs v] by (auto simp: track_def)

definition demo_tracker :: "(string, string, string) object_tracker" where
  "demo_tracker = track ''o2'' ''second'' [''c'', ''d''] (track ''o1'' ''first'' [''c''] ot_init)"

lemma demo_tracker_ok: "ot_inv demo_tracker"
  by (simp add: demo_tracker_def track_facts)

lemma demo_tracker_facts:
  "ot_blocked_by demo_tracker ''o1'' = {''c''}" "ot_blocked_by demo_tracker ''o2'' = {''c'', ''d''}"
  "dict_get (ot_objects demo_tracker) ''o2'' = Some ''second''"
  by (simp_all add: demo_tracker_def track_facts)

section \<open>Worker managers\<close>

text \<open>Three rules, the manager of the second one offline; 25 tasks, which need three workers.\<close>

definition demo_rules :: "WaterfallRule list" where
  "demo_rules = waterfall_init [\<lparr>rule_priority = 3, rule_manager_id = ''late'', rule_max_task_concurrency = Some 5\<rparr>,
     \<lparr>rule_priority = 1, rule_manager_id = ''first'', rule_max_task_concurrency = None\<rparr>,
     \<lparr>rule_priority = 2, rule_manager_id = ''offline'', rule_max_task_concurrency = Some 4\<rparr>]"

definition demo_managers :: snapshots where
  "demo_managers =
     [(''first'', \<lparr>sn_worker_manager_id = ''first'', sn_max_task_concurrency = 2, sn_worker_count = 0, sn_capabilities = []\<rparr>),
      (''late'', \<lparr>sn_worker_manager_id = ''late'', sn_max_task_concurrency = 9, sn_worker_count = 0, sn_capabilities = []\<rparr>)]"

definition demo_snapshot :: "unit information_snapshot" where
  "demo_snapshot = \<lparr>snap_tasks = map (\<lambda>i. (replicate i CHR ''t'', demo_task (replicate i CHR ''t''))) [0..<25], snap_workers = []\<rparr>"

definition demo_manager_heartbeat :: "WaterfallRule \<Rightarrow> WorkerManagerHeartbeat" where
  "demo_manager_heartbeat r = \<lparr>maxTaskConcurrency = (if rule_manager_id r = ''first'' then 2 else 9), manager_capabilities = [],
     workerManagerID = rule_manager_id r\<rparr>"

section \<open>Graphs\<close>

definition demo_graph :: "Task list \<Rightarrow> GraphTask" where
  "demo_graph ts = \<lparr>graph_taskId = ''g'', graph_source = ''Client|a'', graph_targets = [''t''], graph_tasks = ts\<rparr>"

definition graph_inputs :: "Task list \<Rightarrow> sched_input list" where
  "graph_inputs ts = [Receive 0 ''Client|a'' InClientHeartbeat, Receive 0 ''Client|a'' (InGraphTask (demo_graph ts))]"

text \<open>A graph of one subtask, which waits because there is no worker.\<close>

definition waiting_graph :: sched where
  "waiting_graph = the (run_inputs demo_env (graph_inputs [demo_task ''t''] @ [GraphRoutine]) (sched_init EVEN_LOAD NoScaling))"

lemma waiting_graph_reachable: "reachable demo_env EVEN_LOAD NoScaling waiting_graph"
proof (rule reachable_run)
  have "run_inputs demo_env (graph_inputs [demo_task ''t''] @ [GraphRoutine]) (sched_init EVEN_LOAD NoScaling) \<noteq> None" by code_simp
  then show "run_inputs demo_env (graph_inputs [demo_task ''t''] @ [GraphRoutine]) (sched_init EVEN_LOAD NoScaling) = Some waiting_graph"
    by (auto simp: waiting_graph_def)
qed (simp add: graph_inputs_def)

text \<open>A graph of two subtasks that take each other's results, before the routine has seen it.\<close>

definition cyclic_tasks :: "Task list" where
  "cyclic_tasks = [(demo_task ''t'')\<lparr>functionArgs := [TaskArgument ''u'']\<rparr>, (demo_task ''u'')\<lparr>functionArgs := [TaskArgument ''t'']\<rparr>]"

definition cyclic_state :: sched where
  "cyclic_state = the (run_inputs demo_env (graph_inputs cyclic_tasks) (sched_init EVEN_LOAD NoScaling))"

lemma cyclic_state_reachable: "reachable demo_env EVEN_LOAD NoScaling cyclic_state"
proof (rule reachable_run)
  have "run_inputs demo_env (graph_inputs cyclic_tasks) (sched_init EVEN_LOAD NoScaling) \<noteq> None" by code_simp
  then show "run_inputs demo_env (graph_inputs cyclic_tasks) (sched_init EVEN_LOAD NoScaling) = Some cyclic_state"
    by (auto simp: cyclic_state_def)
qed (simp add: graph_inputs_def)

end
