(* ===== verification/ClientScenarios.thy ===== *)
theory ClientScenarios
  imports ClientRuns ClientFutures
begin

text \<open>Small clients on which the properties are tried out.\<close>

section \<open>Submissions\<close>

text \<open>Digests of short byte strings by padding, tags that count until their length is used up, and a storage that always answers.\<close>

definition pad :: "bytes \<Rightarrow> bytes" where
  "pad b = take 16 (b @ replicate 16 (CHR 0x00))"

definition counting_tag :: "nat \<Rightarrow> bytes" where
  "counting_tag n = CHR 0x01 # replicate n (CHR 0x02) @ replicate (15 - n) (CHR 0x03)"

definition client_demo_env :: client_env where
  "client_demo_env = \<lparr>ce_identity = ''Client|a'', ce_md5 = pad, ce_tag = counting_tag, ce_repr = id, ce_serializer = ''s'',
     ce_set_object_ok = (\<lambda>_. True), ce_task_id = (\<lambda>n. replicate n (CHR 0x04)), ce_parent_priority = None,
     ce_profiling = True, ce_stream_output = False\<rparr>"

definition demo_value :: "nat \<Rightarrow> bytes" where
  "demo_value k = (if k = 1 then ''f'' else if k = 2 then ''g'' else ''x'')"

definition fn_f :: py_object where
  "fn_f = \<lparr>po_id = 7, po_identity = 1, po_weakrefable = True, po_payload = ''f''\<rparr>"

text \<open>Another function, made after \<open>fn_f\<close> has gone, at the same address.\<close>

definition fn_g :: py_object where
  "fn_g = \<lparr>po_id = 7, po_identity = 2, po_weakrefable = True, po_payload = ''g''\<rparr>"

definition arg_x :: py_object where
  "arg_x = \<lparr>po_id = 8, po_identity = 3, po_weakrefable = False, po_payload = ''x''\<rparr>"

definition param_a :: parameter where
  "param_a = \<lparr>pm_name = ''a'', pm_kind = POSITIONAL_OR_KEYWORD, pm_required = True, pm_default = ArgReference []\<rparr>"

definition buffer_after :: "('a, object_buffer) outcome \<Rightarrow> object_buffer" where
  "buffer_after r = (case r of Ret _ s \<Rightarrow> s | Raise _ s \<Rightarrow> s | NoFuel \<Rightarrow> ob_empty)"

definition client_started :: object_buffer where
  "client_started = buffer_after (send_serializer client_demo_env ob_empty)"

lemma counting_tag_inj: "inj counting_tag"
proof (rule injI)
  fix m n assume "counting_tag m = counting_tag n"
  then have "length (filter (\<lambda>c. c = CHR 0x02) (counting_tag m)) = length (filter (\<lambda>c. c = CHR 0x02) (counting_tag n))" by simp
  then show "m = n" by (simp add: counting_tag_def)
qed

lemma client_demo_ok: "client_ok client_demo_env demo_value"
proof -
  have "pad ''f'' \<noteq> pad ''g''" "pad ''f'' \<noteq> pad ''x''" "pad ''g'' \<noteq> pad ''x''" by code_simp+
  then have "inj_on pad (range demo_value)" by (auto simp: inj_on_def demo_value_def)
  moreover have "counting_tag n \<noteq> pad ''serializer''" for n by (simp add: counting_tag_def pad_def)
  moreover have "inj (\<lambda>n. replicate n (CHR 0x04))" by (auto intro!: injI dest: arg_cong [of _ _ length])
  moreover have "length (pad b) = 16" for b by (simp add: pad_def)
  ultimately show ?thesis using counting_tag_inj by (simp add: client_ok_def fresh_tags_def client_demo_env_def)
qed

lemma client_started_reach: "client_reach client_demo_env demo_value client_started"
  by (rule client_reach.start) code_simp

lemma demo_live: "live_together demo_value [fn_f, arg_x]"
  by code_simp

section \<open>A graph\<close>

definition demo_nodes :: "(bytes, graph_node) dict" where
  "demo_nodes = [(''x'', NodeObject arg_x), (''a'', NodeCall fn_f None [''x'']), (''b'', NodeCall fn_f None [''a'', ''x'']), (''c'', NodeCall fn_f None [''c''])]"

lemma demo_nodes_ok: "dict_ok demo_nodes" "live_together demo_value (node_objects demo_nodes)"
  by code_simp+

section \<open>Futures\<close>

definition agent_after :: "(unit, client_agent) outcome \<Rightarrow> client_agent \<Rightarrow> client_agent" where
  "agent_after r s = (case r of Ret _ s' \<Rightarrow> s' | Raise _ s' \<Rightarrow> s' | NoFuel \<Rightarrow> s)"

fun client_run :: "client_move list \<Rightarrow> client_agent \<Rightarrow> client_agent" where
  "client_run [] s = s"
| "client_run (m # ms) s = client_run ms (agent_after (client_perform m s) s)"

fun moves_ok :: "client_move list \<Rightarrow> client_agent \<Rightarrow> bool" where
  "moves_ok [] s = True"
| "moves_ok (m # ms) s = (move_ok s m \<and> client_perform m s \<noteq> NoFuel \<and> moves_ok ms (agent_after (client_perform m s) s))"

lemma client_run_reach: "agent_reach s \<Longrightarrow> moves_ok ms s \<Longrightarrow> agent_reach (client_run ms s)"
proof (induction ms arbitrary: s)
  case (Cons m ms)
  have "agent_reach (agent_after (client_perform m s) s)"
    using Cons.prems by (cases "client_perform m s") (auto simp: agent_after_def intro: agent_reach.move)
  then show ?case using Cons by simp
qed simp

definition waiting_client :: client_agent where
  "waiting_client = client_run [AddFuture ''t'' False None,
     FromClient (FC_Task \<lparr>taskId = ''t'', task_source = ''Client|a'', task_metadata = [], funcObjectId = [], functionArgs = [], task_capabilities = []\<rparr>)]
     (client_start ''Client|a'' None 0)"

definition demo_result_id :: bytes where
  "demo_result_id = replicate 32 (CHR 0x07)"

definition demo_task_result :: TaskResult where
  "demo_task_result = \<lparr>result_taskId = ''t'', resultType = TR_success, result_metadata = [], result_objects = [demo_result_id]\<rparr>"

lemma waiting_client_reach: "agent_reach waiting_client"
  unfolding waiting_client_def by (rule client_run_reach [OF agent_reach.start]) code_simp

end
