(* ===== verification/ProcessorScenarios.thy ===== *)
theory ProcessorScenarios
  imports ClientCalls ClientScenarios
begin

text \<open>
  A processor that runs the call of the small client. Values are byte strings, a function is applied by writing its arguments after
  it; the storage drops every fourth request and the agent every second message.
\<close>

definition proc_demo_env :: "(bytes, unit) proc_env" where
  "proc_demo_env = \<lparr>pe_md5 = pad, pe_tag = (\<lambda>n. if n = 0 then replicate 16 (CHR 0x05) else replicate 16 (CHR 0x06)), pe_repr = id,
     pe_loads = (\<lambda>p. if p = ''s'' then Inr () else Inl TypeError), pe_deserialize = (\<lambda>_ p. Inr p), pe_serialize = (\<lambda>_ v. Inr v),
     pe_call = (\<lambda>f vs. if vs = [] then Inl TypeError else Inr (f @ concat vs)), pe_output = (\<lambda>_ _. [(False, ''out'')]), pe_failure = (\<lambda>_. ''failed''),
     pe_storage_ok = (\<lambda>n. n mod 4 \<noteq> 3), pe_agent_ok = (\<lambda>n. n mod 2 = 0)\<rparr>"

definition demo_submission :: "(Task, object_buffer) outcome" where
  "demo_submission = submit_verbose client_demo_env fn_f None (Some [param_a]) [ArgObject arg_x] [] [] False client_started"

definition called_task :: Task where
  "called_task = (case demo_submission of Ret task _ \<Rightarrow> task
     | _ \<Rightarrow> \<lparr>taskId = [], task_source = [], task_metadata = [], funcObjectId = [], functionArgs = [], task_capabilities = []\<rparr>)"

definition demo_uploads :: "(ObjectID, bytes) dict" where
  "demo_uploads = ob_uploaded (buffer_after demo_submission)"

definition processor_demo :: "(bytes, unit) processor" where
  "processor_demo = processor_init\<lparr>pr_sends := 1, pr_to_agent := [ProcInitialized], pr_storage := demo_uploads\<rparr>"

definition processor_after :: "(unit, (bytes, unit) processor) outcome \<Rightarrow> (bytes, unit) processor" where
  "processor_after r = (case r of Ret _ s \<Rightarrow> s | Raise _ s \<Rightarrow> s | NoFuel \<Rightarrow> processor_init)"

lemma demo_submission_ret: "demo_submission = Ret called_task (buffer_after demo_submission)"
  by code_simp

lemma demo_submitted:
  "submit_verbose client_demo_env fn_f None (Some [param_a]) [ArgObject arg_x] [] [] False client_started = Ret called_task (buffer_after demo_submission)"
  using demo_submission_ret by (simp only: demo_submission_def [symmetric])

lemma demo_serializer_apart: "ce_serializer client_demo_env \<notin> range demo_value"
  by (auto simp: client_demo_env_def demo_value_def)

lemma demo_tags_left: "\<not> bad_tag client_demo_env (buffer_after demo_submission)"
proof -
  have n: "ob_tags_used (buffer_after demo_submission) = 2" by code_simp
  have "length (ce_tag client_demo_env i) = 16" if "i < 2" for i using that by (simp add: client_demo_env_def counting_tag_def)
  then show ?thesis by (simp add: bad_tag_def n)
qed

lemma demo_uploads_ok: "dict_ok demo_uploads"
  by code_simp

lemma demo_holds: "holds_uploads (buffer_after demo_submission) processor_demo"
proof -
  have "dict_get demo_uploads oid = Some p" if "(oid, p) \<in> set demo_uploads" for oid p
    using that by (simp add: dict_mem_iff [OF demo_uploads_ok])
  then show ?thesis by (auto simp: holds_uploads_def processor_demo_def demo_uploads_def [symmetric])
qed

lemma proc_demo_world: "world_ok proc_demo_env {''Client|a''} (\<lambda>_. ()) (dict_get demo_uploads)"
proof -
  have s: "dict_get demo_uploads (serializer_id proc_demo_env ''Client|a'') = Some ''s''" by code_simp
  have "length (pe_md5 proc_demo_env b) = 16" for b by (simp add: proc_demo_env_def pad_def)
  moreover have "pe_loads proc_demo_env ''s'' = Inr ()" by (simp add: proc_demo_env_def)
  ultimately show ?thesis by (simp add: world_ok_def s)
qed

lemma proc_demo_reach: "proc_reach proc_demo_env {''Client|a''} (dict_get demo_uploads) processor_demo"
proof -
  have "agent_send proc_demo_env ProcInitialized processor_init = Ret () (processor_init\<lparr>pr_sends := 1, pr_to_agent := [ProcInitialized]\<rparr>)"
    by (simp add: agent_send_def proc_demo_env_def processor_init_def)
  from proc_reach.proc_storage [OF proc_reach.proc_start [OF this], of "dict_get demo_uploads" demo_uploads] show ?thesis
    by (simp add: consistent_def processor_demo_def)
qed

lemma proc_demo_transport: "transport_ok proc_demo_env 3 processor_demo"
proof -
  have "\<exists>k \<le> 3. (i + k) mod 4 \<noteq> 3" "\<exists>k \<le> 3. (i + k) mod 2 = 0" for i :: nat by presburger+
  moreover have "i mod 4 \<noteq> 3" if "i < 3" for i :: nat using that by presburger
  ultimately show ?thesis by (simp add: transport_ok_def proc_demo_env_def processor_demo_def processor_init_def)
qed

lemma proc_demo_value:
  "result_of proc_demo_env (evaluated proc_demo_env () ''f'' [''x'']) = (TR_success, ''fx'')"
  by code_simp

text \<open>A task that calls the function without arguments, which it refuses.\<close>

definition silent_task :: Task where
  "silent_task = \<lparr>taskId = ''t'', task_source = ''Client|a'', task_metadata = [], funcObjectId = funcObjectId called_task, functionArgs = [], task_capabilities = []\<rparr>"

lemma silent_task_ok: "task_ok proc_demo_env {''Client|a''} silent_task"
  by code_simp

lemma silent_value: "result_of proc_demo_env (evaluated proc_demo_env () ''f'' []) = (TR_failed, ''failed'')"
  by code_simp

end
