(* ===== verification/JourneyScenarios.thy ===== *)
theory JourneyScenarios
  imports Journey Scenarios ProcessorScenarios
begin

text \<open>The small client, a scheduler with one idle worker, and the processor that runs the client's call.\<close>

definition ready_sched :: sched where
  "ready_sched = the (run_inputs demo_env (take 2 demo_inputs) (sched_init EVEN_LOAD NoScaling))"

lemma ready_sched_reachable: "reachable demo_env EVEN_LOAD NoScaling ready_sched"
proof (rule reachable_run [of _ "take 2 demo_inputs"])
  have "run_inputs demo_env (take 2 demo_inputs) (sched_init EVEN_LOAD NoScaling) \<noteq> None" by code_simp
  then show "run_inputs demo_env (take 2 demo_inputs) (sched_init EVEN_LOAD NoScaling) = Some ready_sched" by (auto simp: ready_sched_def)
qed (simp add: demo_inputs_def worker_is_valid_def invalid_worker_id_def)

definition call_sched :: sched where
  "call_sched = (case perform demo_env (Receive 1 ''Client|a'' (InTask called_task)) ready_sched of Ret _ s \<Rightarrow> s | Raise _ s \<Rightarrow> s | NoFuel \<Rightarrow> ready_sched)"

lemma ready_sched_facts:
  "task_state (core ready_sched) (taskId called_task) = None" "otm_owner (clients ready_sched) (taskId called_task) = None"
  "\<not> is_graph_subtask ready_sched (taskId called_task)" "taskId called_task \<notin> set (unassigned (core call_sched))"
  by code_simp+

definition idle_env :: agent_env where
  "idle_env = \<lparr>we_md5 = (\<lambda>_. replicate 16 (CHR 0x00)), we_tag = (\<lambda>_. replicate 16 (CHR 0x01)), we_profile = (\<lambda>_. replicate 16 (CHR 0x08)),
     we_set_object_ok = (\<lambda>_. True), we_death_timeout = 300\<rparr>"

definition idle_agent :: agent where
  "idle_agent = (case agent_run idle_env [IntInitialized ''p0'', RoutineLock] agent_init of Ret _ s \<Rightarrow> s | Raise _ s \<Rightarrow> s | NoFuel \<Rightarrow> agent_init)"

lemma idle_agent_reachable: "agent_reachable idle_env idle_agent"
proof (rule admitted_run [OF agent_reachable.start])
  show "admitted idle_env [IntInitialized ''p0'', RoutineLock] agent_init" by code_simp
  have "case agent_run idle_env [IntInitialized ''p0'', RoutineLock] agent_init of Ret _ _ \<Rightarrow> True | _ \<Rightarrow> False" by code_simp
  then show "agent_run idle_env [IntInitialized ''p0'', RoutineLock] agent_init = Ret () idle_agent" by (auto simp: idle_agent_def split: outcome.splits)
qed

lemma idle_agent_idle: "worker_idle idle_agent 0 ''p0''"
  by code_simp

definition calling_client :: client_agent where
  "calling_client = client_run [AddFuture (taskId called_task) False None, FromClient (FC_Task called_task)] (client_start ''Client|a'' None 0)"

lemma calling_client_reach: "agent_reach calling_client"
  unfolding calling_client_def by (rule client_run_reach [OF agent_reach.start]) code_simp

lemma calling_client_waits: "client_waits calling_client (taskId called_task)"
  by code_simp

lemma called_value: "result_of proc_demo_env (evaluated proc_demo_env () (po_payload fn_f) [''x'']) = (TR_success, ''fx'')"
  by code_simp

end
