(* ===== verification/Capacity.thy ===== *)
theory Capacity
  imports Prelude
begin

text \<open>
  How a worker manager follows the number of units the scheduler asks for:
  \<open>CapacityCoordinator\<close> (\<open>src/src/scaler/worker_manager_adapter/capacity_coordinator.py\<close>) and its
  \<open>Cooldown\<close> timer (\<open>src/src/scaler/utility/cooldown.py\<close>). Times are whole numbers of some small unit; \<open>-1\<close> as the
  maximum stands for no bound. The reconcile task waits for a signal and then runs one round;
  whether \<open>start_units\<close> and \<open>stop_units\<close> succeed is an argument of the round.
\<close>

section \<open>Cooldown\<close>

record cooldown =
  cd_duration :: int
  cd_started_at :: "int option"

definition cooldown_new :: "int \<Rightarrow> py_exn + cooldown" where
  "cooldown_new d = (if d < 0 then Inl ValueError else Inr \<lparr>cd_duration = d, cd_started_at = None\<rparr>)"

definition start_if_not_running :: "int \<Rightarrow> cooldown \<Rightarrow> cooldown" where
  "start_if_not_running now c =
     (if cd_duration c = 0 then c
      else if cd_started_at c = None then c\<lparr>cd_started_at := Some now\<rparr> else c)"

definition cooldown_reset :: "cooldown \<Rightarrow> cooldown" where
  "cooldown_reset c = c\<lparr>cd_started_at := None\<rparr>"

definition remaining_seconds :: "int \<Rightarrow> cooldown \<Rightarrow> int option" where
  "remaining_seconds now c =
     (case cd_started_at c of
        None \<Rightarrow> None
      | Some t \<Rightarrow> let r = cd_duration c - (now - t) in if r > 0 then Some r else None)"

definition is_running :: "cooldown \<Rightarrow> bool" where
  "is_running c = (cd_started_at c \<noteq> None)"

section \<open>CapacityCoordinator\<close>

record coordinator =
  co_desired :: int
  co_max :: int
  co_cooldown :: cooldown
  co_reconcile_needed :: bool
  co_stop :: bool

definition coordinator_new :: "int \<Rightarrow> int \<Rightarrow> py_exn + coordinator" where
  "coordinator_new m d =
     (case cooldown_new d of
        Inl e \<Rightarrow> Inl e
      | Inr c \<Rightarrow> Inr \<lparr>co_desired = 0, co_max = m, co_cooldown = c, co_reconcile_needed = False, co_stop = False\<rparr>)"

definition set_desired_unit_count :: "int \<Rightarrow> coordinator \<Rightarrow> coordinator" where
  "set_desired_unit_count count co =
     (if count = co_desired co \<and> \<not> is_running (co_cooldown co) then co
      else co\<lparr>co_desired := count, co_reconcile_needed := True\<rparr>)"

definition coordinator_cancel :: "coordinator \<Rightarrow> coordinator" where
  "coordinator_cancel co = co\<lparr>co_stop := True, co_reconcile_needed := True\<rparr>"

datatype unit_command = NoCommand | StartUnits int | StopUnits int

definition reconcile_delta :: "int \<Rightarrow> coordinator \<Rightarrow> int" where
  "reconcile_delta current co =
     (let delta = co_desired co - current
      in if co_max co \<noteq> -1 then min delta (co_max co - current) else delta)"

text \<open>One round of \<open>_reconcile\<close>, once it has been signalled.\<close>

definition reconcile :: "int \<Rightarrow> int \<Rightarrow> bool \<Rightarrow> coordinator \<Rightarrow> unit_command \<times> coordinator" where
  "reconcile now current ok co0 =
     (let co = co0\<lparr>co_reconcile_needed := False\<rparr>; delta = reconcile_delta current co
      in if co_stop co then (NoCommand, co)
         else if delta \<ge> 0
         then (if delta > 0 then StartUnits delta else NoCommand, co\<lparr>co_cooldown := cooldown_reset (co_cooldown co)\<rparr>)
         else let c = start_if_not_running now (co_cooldown co)
              in if remaining_seconds now c \<noteq> None then (NoCommand, co\<lparr>co_cooldown := c\<rparr>)
                 else (StopUnits \<bar>delta\<bar>, co\<lparr>co_cooldown := (if ok then cooldown_reset c else c)\<rparr>))"

section \<open>Rounds\<close>

text \<open>A round: the count asked for before it, the time, the live count and whether the command succeeds.\<close>

type_synonym round = "int \<times> int \<times> int \<times> bool"

fun run_rounds :: "round list \<Rightarrow> coordinator \<Rightarrow> unit_command list" where
  "run_rounds [] co = []"
| "run_rounds ((count, now, current, ok) # rs) co =
     (let co1 = set_desired_unit_count count co
      in if co_reconcile_needed co1
         then (case reconcile now current ok co1 of (cmd, co2) \<Rightarrow> cmd # run_rounds rs co2)
         else NoCommand # run_rounds rs co1)"

text \<open>What a started unit count can be.\<close>

lemma start_within:
  assumes "reconcile now current ok co = (StartUnits n, co')"
  shows "0 < n" "current + n \<le> co_desired co" "co_max co \<noteq> -1 \<Longrightarrow> current + n \<le> co_max co"
  using assms by (auto simp: reconcile_def Let_def reconcile_delta_def split: if_splits)

lemma stop_within:
  assumes "reconcile now current ok co = (StopUnits n, co')" "0 \<le> co_desired co" "co_max co = -1 \<or> 0 \<le> co_max co"
  shows "0 < n" "0 \<le> current - n"
    "current - n = (if co_max co = -1 then co_desired co else min (co_desired co) (co_max co))"
  using assms by (auto simp: reconcile_def Let_def reconcile_delta_def split: if_splits)

section \<open>The scale-down streak\<close>

text \<open>
  The timer never runs ahead: when it is armed, every round since then wanted fewer units.
  \<open>streak\<close> is the part of the past, latest round first, that wanted fewer.
\<close>

definition wants_fewer :: "int \<Rightarrow> round \<Rightarrow> bool" where
  "wants_fewer m r = (case r of (count, now, current, ok) \<Rightarrow> (if m \<noteq> -1 then min count m else count) < current)"

definition armed_by :: "round list \<Rightarrow> coordinator \<Rightarrow> bool" where
  "armed_by past co \<longleftrightarrow> (case cd_started_at (co_cooldown co) of
      None \<Rightarrow> True
    | Some t \<Rightarrow> \<exists>r \<in> set (takeWhile (wants_fewer (co_max co)) past). fst (snd r) = t)"

lemma set_desired_simps [simp]:
  "co_max (set_desired_unit_count c co) = co_max co" "co_cooldown (set_desired_unit_count c co) = co_cooldown co"
  "co_desired (set_desired_unit_count c co) = c" "co_stop (set_desired_unit_count c co) = co_stop co"
  by (auto simp: set_desired_unit_count_def)

lemma delta_negative: "co_desired co = count \<Longrightarrow> reconcile_delta current co < 0 \<longleftrightarrow> wants_fewer (co_max co) (count, now, current, ok)"
  by (auto simp: reconcile_delta_def wants_fewer_def Let_def)

lemma reconcile_armed:
  assumes a: "armed_by past co" and d: "co_desired co = count" and n: "\<not> co_stop co"
    and r: "reconcile now current ok co = (cmd, co')"
  shows "armed_by ((count, now, current, ok) # past) co'" "co_max co' = co_max co"
    "cd_duration (co_cooldown co') = cd_duration (co_cooldown co)" "\<not> co_stop co'"
proof -
  let ?r = "(count, now, current, ok)" and ?co = "co\<lparr>co_reconcile_needed := False\<rparr>"
  have neg: "reconcile_delta current ?co < 0 \<longleftrightarrow> wants_fewer (co_max co) ?r" using delta_negative [of ?co count current now ok] d by simp
  show m: "co_max co' = co_max co" "cd_duration (co_cooldown co') = cd_duration (co_cooldown co)" "\<not> co_stop co'"
    using r n by (auto simp: reconcile_def Let_def cooldown_reset_def start_if_not_running_def split: if_splits)
  show "armed_by (?r # past) co'"
  proof (cases "wants_fewer (co_max co) ?r")
    case False
    then have "cd_started_at (co_cooldown co') = None"
      using r n neg by (auto simp: reconcile_def Let_def cooldown_reset_def split: if_splits)
    then show ?thesis by (simp add: armed_by_def)
  next
    case True
    then have "co_cooldown co' = cooldown_reset (start_if_not_running now (co_cooldown co)) \<or>
        co_cooldown co' = start_if_not_running now (co_cooldown co)"
      using r n neg by (auto simp: reconcile_def Let_def split: if_splits)
    then show ?thesis
      using a True m(1) by (fastforce simp: armed_by_def cooldown_reset_def start_if_not_running_def split: option.splits if_splits)
  qed
qed

lemma stop_after_streak:
  assumes a: "armed_by past co" and d: "co_desired co = count" and n: "\<not> co_stop co" and dur: "0 < cd_duration (co_cooldown co)"
    and r: "reconcile now current ok co = (StopUnits k, co')"
  shows "\<exists>r \<in> set (takeWhile (wants_fewer (co_max co)) ((count, now, current, ok) # past)). cd_duration (co_cooldown co) \<le> now - fst (snd r)"
proof -
  let ?co = "co\<lparr>co_reconcile_needed := False\<rparr>" and ?c = "start_if_not_running now (co_cooldown co)"
  have neg: "wants_fewer (co_max co) (count, now, current, ok)"
    using r d n delta_negative [of ?co count current now ok] by (auto simp: reconcile_def Let_def split: if_splits)
  have none: "remaining_seconds now ?c = None" using r n by (auto simp: reconcile_def Let_def split: if_splits)
  show ?thesis
  proof (cases "cd_started_at (co_cooldown co)")
    case None
    then show ?thesis using none dur by (simp add: start_if_not_running_def remaining_seconds_def Let_def)
  next
    case (Some t)
    then have "cd_duration (co_cooldown co) \<le> now - t"
      using none dur by (simp add: start_if_not_running_def remaining_seconds_def Let_def split: if_splits)
    then show ?thesis using a Some neg by (auto simp: armed_by_def)
  qed
qed

lemma armed_mono:
  "armed_by past co \<Longrightarrow> cd_started_at (co_cooldown co) = None \<Longrightarrow> armed_by past' co"
  by (simp add: armed_by_def)

lemma stops_after_cooldown:
  assumes "armed_by past co" "\<not> co_stop co" "0 < cd_duration (co_cooldown co)" "co_max co = m" "cd_duration (co_cooldown co) = d"
    and "i < length rs" "run_rounds rs co ! i = StopUnits k"
  shows "\<exists>r \<in> set (takeWhile (wants_fewer m) (rev (take (Suc i) rs) @ past)). d \<le> fst (snd (rs ! i)) - fst (snd r)"
  using assms
proof (induction rs arbitrary: co past i)
  case (Cons r rs)
  obtain count now current ok where r: "r = (count, now, current, ok)" by (cases r) auto
  let ?co1 = "set_desired_unit_count count co"
  have a1: "armed_by past ?co1" "\<not> co_stop ?co1" using Cons.prems(1,2) by (simp_all add: armed_by_def split: option.splits)
  show ?case
  proof (cases "co_reconcile_needed ?co1")
    case False
    then have idle: "cd_started_at (co_cooldown co) = None"
      by (auto simp: set_desired_unit_count_def is_running_def split: if_splits)
    have run: "run_rounds (r # rs) co = NoCommand # run_rounds rs ?co1" using False r by simp
    have "i \<noteq> 0" using Cons.prems(7) unfolding run by (cases i) simp_all
    then obtain j where j: "i = Suc j" by (cases i) simp_all
    have "armed_by (r # past) ?co1" by (rule armed_mono [OF a1(1)]) (simp add: idle)
    moreover have "j < length rs" "run_rounds rs ?co1 ! j = StopUnits k" using Cons.prems(6,7) unfolding run j by simp_all
    ultimately have "\<exists>r \<in> set (takeWhile (wants_fewer m) (rev (take (Suc j) rs) @ r # past)). d \<le> fst (snd (rs ! j)) - fst (snd r)"
      using a1(2) Cons.prems(3-5) by (intro Cons.IH [of "r # past" ?co1]) simp_all
    then show ?thesis by (simp add: j)
  next
    case True
    obtain cmd co2 where co2: "reconcile now current ok ?co1 = (cmd, co2)" by (cases "reconcile now current ok ?co1")
    note keep = reconcile_armed [OF a1(1) _ a1(2) co2, of count, simplified]
    have run: "run_rounds (r # rs) co = cmd # run_rounds rs co2" using True r co2 by simp
    show ?thesis
    proof (cases i)
      case 0
      then have "reconcile now current ok ?co1 = (StopUnits k, co2)" using Cons.prems(7) run co2 by simp
      from stop_after_streak [OF a1(1) _ a1(2) _ this, of count]
      have "\<exists>r' \<in> set (takeWhile (wants_fewer m) (r # past)). d \<le> now - fst (snd r')"
        using Cons.prems(3-5) r by (simp only: set_desired_simps)
      then show ?thesis using 0 r by (simp del: takeWhile.simps)
    next
      case (Suc j)
      then have "run_rounds rs co2 ! j = StopUnits k" "j < length rs" using Cons.prems(6,7) run by simp_all
      with Cons.IH [of "r # past" co2 j] keep Cons.prems show ?thesis by (simp add: Suc r)
    qed
  qed
qed simp

lemma takeWhile_rev_index:
  assumes "r \<in> set (takeWhile P (rev xs))"
  obtains j where "j < length xs" "xs ! j = r" "list_all P (drop j xs)"
proof -
  obtain n where n: "n < length (takeWhile P (rev xs))" "takeWhile P (rev xs) ! n = r" using assms by (auto simp: in_set_conv_nth)
  have len: "length (takeWhile P (rev xs)) \<le> length xs" using length_takeWhile_le [of P "rev xs"] by simp
  let ?j = "length xs - Suc n"
  have "xs ! ?j = r" using n len by (simp add: takeWhile_nth rev_nth)
  moreover have "drop ?j xs = rev (take (Suc n) (rev xs))" by (simp add: take_rev)
  moreover have "set (take (Suc n) (rev xs)) \<subseteq> set (takeWhile P (rev xs))"
  proof -
    have "take (Suc n) (rev xs) = take (Suc n) (takeWhile P (rev xs))"
      using n(1) by (metis Suc_leI append_eq_conv_conj min.absorb1 take_take takeWhile_eq_take)
    then show ?thesis by (metis set_take_subset)
  qed
  ultimately show ?thesis using that [of ?j] n(1) len set_takeWhileD [of _ P "rev xs"] by (fastforce simp: list_all_iff)
qed

end
