(* ===== verification/WorkerScenarios.thy ===== *)
theory WorkerScenarios
  imports WorkerRuns Capacity
begin

text \<open>
  Concrete runs of a worker's agent and of a worker manager's task manager: environments in which the
  storage answers, tasks of given priorities, and the states the witnesses evaluate.
\<close>

section \<open>A worker's agent\<close>

definition agent_demo_env :: agent_env where
  "agent_demo_env = \<lparr>we_md5 = (\<lambda>_. replicate 16 (CHR 0x00)), we_tag = (\<lambda>_. replicate 16 (CHR 0x01)), we_profile = (\<lambda>_. ''p''),
     we_set_object_ok = (\<lambda>_. True), we_death_timeout = 300\<rparr>"

definition prio_task :: "TaskID \<Rightarrow> bytes \<Rightarrow> Task" where
  "prio_task t m = \<lparr>taskId = t, task_source = ''Client|a'', task_metadata = m, funcObjectId = ''f'', functionArgs = [], task_capabilities = []\<rparr>"

text \<open>The flags of a task of priority three.\<close>

definition urgent :: bytes where
  "urgent = (case serialize_flags \<lparr>flag_profiling = True, flag_priority = 3, flag_stream_output = False\<rparr> of Inr b \<Rightarrow> b | Inl _ \<Rightarrow> [])"

definition task_done :: "TaskID \<Rightarrow> TaskResult" where
  "task_done t = \<lparr>result_taskId = t, resultType = TR_success, result_metadata = '''', result_objects = []\<rparr>"

definition ran :: "agent_input list \<Rightarrow> agent" where
  "ran is = (case agent_run agent_demo_env is agent_init of Ret _ s \<Rightarrow> s | Raise _ s \<Rightarrow> s | NoFuel \<Rightarrow> agent_init)"

text \<open>A task runs, an urgent one arrives and takes its place, a third one waits.\<close>

definition preempt_run :: "agent_input list" where
  "preempt_run = [IntInitialized ''p0'', RoutineLock, ExtTask (prio_task ''slow'' []), RoutineTask, ExtTask (prio_task ''quick'' urgent),
     IntInitialized ''p1'', RoutineLock, RoutineTask, ExtTask (prio_task ''next'' [])]"

lemma preempt_reachable: "agent_reachable agent_demo_env (ran preempt_run)"
proof (rule admitted_run [OF agent_reachable.start])
  show "admitted agent_demo_env preempt_run agent_init" by code_simp
  show "agent_run agent_demo_env preempt_run agent_init = Ret () (ran preempt_run)"
  proof -
    have "case agent_run agent_demo_env preempt_run agent_init of Ret _ _ \<Rightarrow> True | _ \<Rightarrow> False" by code_simp
    then show ?thesis by (auto simp: ran_def split: outcome.splits)
  qed
qed

lemma preempt_facts:
  "current_task (ran preempt_run) = Some (prio_task ''quick'' urgent)" "wa_current (ran preempt_run) = Some 1"
  "h_processor_id (holder_of (ran preempt_run) 1) = Some ''p1''"
  "dict_get (wa_queued (ran preempt_run)) ''next'' = Some (prio_task ''next'' [])"
  "wa_processing (ran preempt_run) = [''slow'', ''quick'']"
  "dict_has (wa_queued (ran preempt_run)) ''slow''"
  "wa_sent (ran preempt_run) = []" "queued_tasks (ran preempt_run) = 1"
  by code_simp+

section \<open>A worker manager's task manager\<close>

definition adapter_demo_env :: adapter_env where
  "adapter_demo_env = \<lparr>ae_iter = length, ae_md5 = (\<lambda>_. replicate 16 (CHR 0x00)), ae_tag = (\<lambda>_. replicate 16 (CHR 0x01)),
     ae_execute_ok = (\<lambda>_. True), ae_serialize = id, ae_serialize_failure = id, ae_set_object_ok = (\<lambda>_. True)\<rparr>"

text \<open>One slot.\<close>

definition adapter_start :: adapter where
  "adapter_start = (case adapter_init 1 of Inr s \<Rightarrow> s
     | Inl _ \<Rightarrow> \<lparr>at_semaphore = 0, at_phase = BetweenRounds, at_task_id_to_task = [], at_task_id_to_future = [], at_serializers = [],
         at_queue = spq_empty, at_queued = [], at_acquiring = [], at_processing = [], at_canceled = [], at_sent = [], at_tags_used = 0\<rparr>)"

definition adapter_ran :: "adapter_input list \<Rightarrow> adapter" where
  "adapter_ran is = (case adapter_run adapter_demo_env is adapter_start of Ret _ s \<Rightarrow> s | Raise _ s \<Rightarrow> s | NoFuel \<Rightarrow> adapter_start)"

text \<open>A task holds the only slot.\<close>

definition busy_run :: "adapter_input list" where
  "busy_run = [AdapterTask (prio_task ''slow'' []), AdapterAcquire, AdapterGet, AdapterAcquire]"

lemma busy_facts:
  "adapter_run adapter_demo_env busy_run adapter_start = Ret () (adapter_ran busy_run)"
  "at_acquiring (adapter_ran busy_run) = [''slow'']"
  "get_task_priority (prio_task ''quick'' urgent) = Inr 3"
  "list_all (\<lambda>t. prio_of (adapter_ran busy_run) t \<noteq> None) (at_acquiring (adapter_ran busy_run))"
  "ae_execute_ok adapter_demo_env (prio_task ''quick'' urgent)"
  "at_locked (adapter_ran busy_run)" "prio_of (adapter_ran busy_run) ''slow'' = Some 0"
proof -
  have "case adapter_run adapter_demo_env busy_run adapter_start of Ret _ _ \<Rightarrow> True | _ \<Rightarrow> False" by code_simp
  then show "adapter_run adapter_demo_env busy_run adapter_start = Ret () (adapter_ran busy_run)"
    by (auto simp: adapter_ran_def split: outcome.splits)
  show "at_acquiring (adapter_ran busy_run) = [''slow'']" by code_simp
  show "get_task_priority (prio_task ''quick'' urgent) = Inr 3" by code_simp
  show "list_all (\<lambda>t. prio_of (adapter_ran busy_run) t \<noteq> None) (at_acquiring (adapter_ran busy_run))" by code_simp
  show "ae_execute_ok adapter_demo_env (prio_task ''quick'' urgent)" by code_simp
  show "at_locked (adapter_ran busy_run)" by code_simp
  show "prio_of (adapter_ran busy_run) ''slow'' = Some 0" by code_simp
qed

section \<open>Scaling down\<close>

definition patient :: coordinator where
  "patient = \<lparr>co_desired = 0, co_max = 5, co_cooldown = \<lparr>cd_duration = 10, cd_started_at = None\<rparr>, co_reconcile_needed = False, co_stop = False\<rparr>"

text \<open>Two units are alive and one is wanted, at times one, five and twelve.\<close>

definition shrinking_rounds :: "round list" where
  "shrinking_rounds = [(1, 1, 2, True), (1, 5, 2, True), (1, 12, 2, True)]"

lemma patient_facts:
  "coordinator_new 5 10 = Inr patient" "run_rounds shrinking_rounds patient ! 2 = StopUnits 1"
  "run_rounds shrinking_rounds patient = [NoCommand, NoCommand, StopUnits 1]"
  by code_simp+

end
