(* ===== verification/Provisioners.thy ===== *)
theory Provisioners
  imports Capacity Scaling
begin

text \<open>
  The worker managers that start and stop units of workers (\<open>src/src/scaler/worker_manager_adapter\<close>: \<open>common.py\<close>,
  \<open>worker_manager_runner.py\<close>, \<open>baremetal/native.py\<close>, \<open>aws_raw/ecs.py\<close>, \<open>oci_raw/worker_manager.py\<close>,
  \<open>orb_aws_ec2/worker_manager.py\<close>): what a command of the scheduler means for a manager, and how each kind starts and stops its
  units when its capacity coordinator says so.

  What the operating system and the cloud services answer is given by environments, indexed by the number of
  the call; \<open>existing\<close> units are those a service has created and not deleted. The reconcile task is one round at a time. A
  quotient rounded up is a quotient of floats in Python, exact for counts below \<open>2 ^ 53\<close>.
\<close>

section \<open>Commands\<close>

definition extract_desired_count :: "DesiredTaskConcurrencyRequest list \<Rightarrow> capabilities \<Rightarrow> int" where
  "extract_desired_count requests own =
     foldl (\<lambda>total r. if items_subset (capabilities_to_dict (request_capabilities r)) own then total + taskConcurrency r else total) 0 requests"

definition max_units :: "int \<Rightarrow> int \<Rightarrow> int" where
  "max_units max_task_concurrency per_unit = (if max_task_concurrency \<noteq> -1 then ceil_div max_task_concurrency per_unit else -1)"

text \<open>\<open>WorkerManagerRunner\<close>: the heartbeat it sends.\<close>

definition runner_heartbeat :: "int \<Rightarrow> int \<Rightarrow> capabilities \<Rightarrow> bytes \<Rightarrow> WorkerManagerHeartbeat" where
  "runner_heartbeat max_provisioner_units per_unit caps manager =
     \<lparr>maxTaskConcurrency = max_provisioner_units * per_unit, manager_capabilities = dict_to_capabilities caps, workerManagerID = manager\<rparr>"

text \<open>\<open>_handle_command\<close> with \<open>set_desired_task_concurrency\<close> of a provisioner whose units hold \<open>per_unit\<close> workers.\<close>

definition set_desired_task_concurrency :: "int \<Rightarrow> capabilities \<Rightarrow> DesiredTaskConcurrencyRequest list \<Rightarrow> coordinator \<Rightarrow> coordinator" where
  "set_desired_task_concurrency per_unit caps requests = set_desired_unit_count (ceil_div (extract_desired_count requests caps) per_unit)"

text \<open>
  A round of the reconcile task with the operations of a provisioner: an exception of \<open>start_units\<close> or
  \<open>stop_units\<close> is logged.
\<close>

definition run_round :: "(nat \<Rightarrow> (unit, 's) comp) \<Rightarrow> (nat \<Rightarrow> (unit, 's) comp) \<Rightarrow> ('s \<Rightarrow> nat) \<Rightarrow> int \<Rightarrow> coordinator \<Rightarrow> 's \<Rightarrow> coordinator \<times> 's" where
  "run_round start stop active now co s =
     (let current = int (active s); after = (\<lambda>ok. snd (reconcile now current ok co))
      in case fst (reconcile now current True co) of
           NoCommand \<Rightarrow> (after True, s)
         | StartUnits n \<Rightarrow> (case start (nat n) s of Ret _ s' \<Rightarrow> (after True, s') | Raise _ s' \<Rightarrow> (after False, s') | NoFuel \<Rightarrow> (co, s))
         | StopUnits n \<Rightarrow> (case stop (nat n) s of Ret _ s' \<Rightarrow> (after True, s') | Raise _ s' \<Rightarrow> (after False, s') | NoFuel \<Rightarrow> (co, s)))"

text \<open>The task waits until a count is set; then it runs a round.\<close>

definition command_round ::
  "(nat \<Rightarrow> (unit, 's) comp) \<Rightarrow> (nat \<Rightarrow> (unit, 's) comp) \<Rightarrow> ('s \<Rightarrow> nat) \<Rightarrow> int \<times> int \<Rightarrow> coordinator \<times> 's \<Rightarrow> coordinator \<times> 's" where
  "command_round start stop active cmd p =
     (let co = set_desired_unit_count (fst cmd) (fst p)
      in if co_reconcile_needed co then run_round start stop active (snd cmd) co (snd p) else (co, snd p))"

section \<open>Native workers\<close>

record native_env =
  ne_prefix :: string
  ne_uuid :: "nat \<Rightarrow> string"
  ne_start :: "nat \<Rightarrow> py_exn option"
  ne_kill :: "nat \<Rightarrow> string \<Rightarrow> py_exn option"

record native_pool =
  nw_workers :: "string list"
  nw_created :: nat
  nw_kills :: nat
  nw_signalled :: "string list"

definition native_active :: "native_pool \<Rightarrow> nat" where
  "native_active s = length (nw_workers s)"

definition native_start_one :: "native_env \<Rightarrow> (unit, native_pool) comp" where
  "native_start_one env s =
     (let n = nw_created s; s1 = s\<lparr>nw_created := n + 1\<rparr>
      in case ne_start env n of
           Some e \<Rightarrow> Raise e s1
         | None \<Rightarrow> Ret () (s1\<lparr>nw_workers := nw_workers s @ [ne_prefix env @ ''|'' @ ne_uuid env n]\<rparr>))"

definition native_start_units :: "native_env \<Rightarrow> nat \<Rightarrow> (unit, native_pool) comp" where
  "native_start_units env count = for_each [0..<count] (\<lambda>_. native_start_one env)"

definition native_stop_one :: "native_env \<Rightarrow> string \<Rightarrow> (unit, native_pool) comp" where
  "native_stop_one env w s =
     (let s1 = s\<lparr>nw_kills := nw_kills s + 1\<rparr>
      in case ne_kill env (nw_kills s) w of
           Some e \<Rightarrow> Raise e s1
         | None \<Rightarrow> Ret () (s1\<lparr>nw_signalled := nw_signalled s @ [w], nw_workers := tl (nw_workers s)\<rparr>))"

definition native_stop_units :: "native_env \<Rightarrow> nat \<Rightarrow> (unit, native_pool) comp" where
  "native_stop_units env count s = for_each (take count (nw_workers s)) (native_stop_one env) s"

definition native_terminate :: "native_env \<Rightarrow> coordinator \<times> native_pool \<Rightarrow> coordinator \<times> (unit, native_pool) outcome" where
  "native_terminate env p = (coordinator_cancel (fst p), native_stop_units env (length (nw_workers (snd p))) (snd p))"

section \<open>ECS tasks\<close>

text \<open>What \<open>run_task\<close> answers: the failures, and the task names.\<close>

record ecs_env =
  ee_run_task :: "nat \<Rightarrow> py_exn + string list \<times> string list"
  ee_stop_task :: "nat \<Rightarrow> py_exn + string list"

record ecs_pool =
  ep_units :: "string list"
  ep_runs :: nat
  ep_stops :: nat

definition ecs_active :: "ecs_pool \<Rightarrow> nat" where
  "ecs_active s = length (ep_units s)"

definition ecs_start_unit :: "ecs_env \<Rightarrow> (unit, ecs_pool) comp" where
  "ecs_start_unit env s =
     (let s1 = s\<lparr>ep_runs := ep_runs s + 1\<rparr>
      in case ee_run_task env (ep_runs s) of
           Inl e \<Rightarrow> Raise e s1
         | Inr (failures, tasks) \<Rightarrow>
             if failures \<noteq> [] then Raise RuntimeError s1
             else case tasks of
                    [] \<Rightarrow> Raise RuntimeError s1
                  | [t] \<Rightarrow> Ret () (s1\<lparr>ep_units := ep_units s @ [t]\<rparr>)
                  | _ \<Rightarrow> Raise RuntimeError s1)"

definition ecs_start_units :: "ecs_env \<Rightarrow> nat \<Rightarrow> (unit, ecs_pool) comp" where
  "ecs_start_units env count = for_each [0..<count] (\<lambda>_. ecs_start_unit env)"

definition ecs_stop_one :: "ecs_env \<Rightarrow> string \<Rightarrow> (unit, ecs_pool) comp" where
  "ecs_stop_one env t s =
     (let s1 = s\<lparr>ep_stops := ep_stops s + 1\<rparr>
      in case ee_stop_task env (ep_stops s) of
           Inl e \<Rightarrow> Raise e s1
         | Inr failures \<Rightarrow> if failures \<noteq> [] then Ret () s1 else Ret () (s1\<lparr>ep_units := remove1 t (ep_units s)\<rparr>))"

definition ecs_stop_units :: "ecs_env \<Rightarrow> nat \<Rightarrow> (unit, ecs_pool) comp" where
  "ecs_stop_units env count s = for_each (take count (ep_units s)) (ecs_stop_one env) s"

definition ecs_terminate :: "ecs_env \<Rightarrow> coordinator \<times> ecs_pool \<Rightarrow> coordinator \<times> (unit, ecs_pool) outcome" where
  "ecs_terminate env p = (coordinator_cancel (fst p), ecs_stop_units env (length (ep_units (snd p))) (snd p))"

section \<open>OCI container instances\<close>

datatype oci_answer = ServiceError | OtherError py_exn | Answered

datatype lifecycle = ACTIVE | FAILED | OtherState

record oci_env =
  oe_create :: "nat \<Rightarrow> oci_answer \<times> string"
  oe_get :: "nat \<Rightarrow> oci_answer \<times> lifecycle"
  oe_delete :: "nat \<Rightarrow> oci_answer"

record oci_pool =
  op_instances :: "string list"
  op_existing :: "string list"
  op_creates :: nat
  op_gets :: nat
  op_deletes :: nat

definition oci_active :: "oci_pool \<Rightarrow> nat" where
  "oci_active s = length (op_instances s)"

definition delete_instance :: "oci_env \<Rightarrow> string \<Rightarrow> (bool, oci_pool) comp" where
  "delete_instance env i s =
     (let s1 = s\<lparr>op_deletes := op_deletes s + 1\<rparr>
      in case oe_delete env (op_deletes s) of
           Answered \<Rightarrow> Ret True (s1\<lparr>op_existing := remove1 i (op_existing s)\<rparr>)
         | _ \<Rightarrow> Ret False s1)"

definition stop_instance :: "oci_env \<Rightarrow> string \<Rightarrow> (unit, oci_pool) comp" where
  "stop_instance env i = andthen (delete_instance env i) (\<lambda>_. ret ())"

text \<open>The polls of a new instance; \<open>n\<close> are left.\<close>

fun poll_instance :: "oci_env \<Rightarrow> nat \<Rightarrow> string \<Rightarrow> (string option, oci_pool) comp" where
  "poll_instance env 0 i s = andthen (delete_instance env i) (\<lambda>_. ret None) s"
| "poll_instance env (Suc n) i s =
     (let s1 = s\<lparr>op_gets := op_gets s + 1\<rparr>
      in case oe_get env (op_gets s) of
           (ServiceError, _) \<Rightarrow> andthen (delete_instance env i) (\<lambda>_. ret None) s1
         | (OtherError e, _) \<Rightarrow> Raise e s1
         | (Answered, ACTIVE) \<Rightarrow> Ret (Some i) s1
         | (Answered, FAILED) \<Rightarrow> andthen (delete_instance env i) (\<lambda>_. ret None) s1
         | (Answered, OtherState) \<Rightarrow> poll_instance env n i s1)"

definition OCI_MAX_POLL_ATTEMPTS :: nat where
  "OCI_MAX_POLL_ATTEMPTS = 30"

definition start_instance :: "oci_env \<Rightarrow> (string option, oci_pool) comp" where
  "start_instance env s =
     (let s1 = s\<lparr>op_creates := op_creates s + 1\<rparr>
      in case oe_create env (op_creates s) of
           (ServiceError, _) \<Rightarrow> Ret None s1
         | (OtherError e, _) \<Rightarrow> Raise e s1
         | (Answered, i) \<Rightarrow> poll_instance env OCI_MAX_POLL_ATTEMPTS i (s1\<lparr>op_existing := op_existing s @ [i]\<rparr>))"

definition oci_start_one :: "oci_env \<Rightarrow> (unit, oci_pool) comp" where
  "oci_start_one env =
     andthen (start_instance env) (\<lambda>r. case r of None \<Rightarrow> ret () | Some i \<Rightarrow> modify (\<lambda>s. s\<lparr>op_instances := op_instances s @ [i]\<rparr>))"

definition oci_start_units :: "oci_env \<Rightarrow> nat \<Rightarrow> (unit, oci_pool) comp" where
  "oci_start_units env count = for_each [0..<count] (\<lambda>_. oci_start_one env)"

definition oci_stop_units :: "oci_env \<Rightarrow> nat \<Rightarrow> (unit, oci_pool) comp" where
  "oci_stop_units env count s =
     for_each (take count (op_instances s)) (stop_instance env) (s\<lparr>op_instances := drop count (op_instances s)\<rparr>)"

definition oci_terminate :: "oci_env \<Rightarrow> coordinator \<times> oci_pool \<Rightarrow> coordinator \<times> (unit, oci_pool) outcome" where
  "oci_terminate env p =
     (coordinator_cancel (fst p),
      seq (for_each (op_instances (snd p)) (stop_instance env)) (modify (\<lambda>s. s\<lparr>op_instances := []\<rparr>)) (snd p))"

section \<open>ORB machines\<close>

text \<open>
  \<open>create_request\<close> gives a request or none; \<open>get_request_status\<close> of a request for so many machines no request, or a status and the
  machines there are.
\<close>

record orb_env =
  be_create :: "nat \<Rightarrow> nat \<Rightarrow> py_exn + string option"
  be_status :: "nat \<Rightarrow> nat \<Rightarrow> py_exn + (string \<times> string list) option"
  be_return :: "nat \<Rightarrow> py_exn option"

record orb_pool =
  bp_units :: "string list"
  bp_creates :: nat
  bp_polls :: nat
  bp_returns :: nat

definition orb_active :: "orb_pool \<Rightarrow> nat" where
  "orb_active s = length (bp_units s)"

definition ascii_lower :: "string \<Rightarrow> string" where
  "ascii_lower = map (\<lambda>c. let n = of_char c in if 65 \<le> n \<and> n \<le> (90 :: nat) then char_of (n + 32) else c)"

definition terminal_status :: "string \<Rightarrow> bool" where
  "terminal_status status = (ascii_lower status \<in> {''failed'', ''error'', ''cancelled'', ''canceled''})"

fun orb_poll :: "orb_env \<Rightarrow> nat \<Rightarrow> nat \<Rightarrow> (unit, orb_pool) comp" where
  "orb_poll env 0 count s = Raise TimeoutError s"
| "orb_poll env (Suc n) count s =
     (let s1 = s\<lparr>bp_polls := bp_polls s + 1\<rparr>
      in case be_status env count (bp_polls s) of
           Inl e \<Rightarrow> Raise e s1
         | Inr None \<Rightarrow> orb_poll env n count s1
         | Inr (Some (status, machines)) \<Rightarrow>
             if length machines \<ge> count then Ret () (s1\<lparr>bp_units := bp_units s @ machines\<rparr>)
             else if terminal_status status then Raise RuntimeError s1
             else orb_poll env n count s1)"

definition ORB_MAX_POLLING_ATTEMPTS :: nat where
  "ORB_MAX_POLLING_ATTEMPTS = 60"

definition orb_start_units :: "orb_env \<Rightarrow> nat \<Rightarrow> (unit, orb_pool) comp" where
  "orb_start_units env count s =
     (let s1 = s\<lparr>bp_creates := bp_creates s + 1\<rparr>
      in case be_create env (bp_creates s) count of
           Inl e \<Rightarrow> Raise e s1
         | Inr None \<Rightarrow> Raise RuntimeError s1
         | Inr (Some r) \<Rightarrow> if r = [] then Raise RuntimeError s1 else orb_poll env ORB_MAX_POLLING_ATTEMPTS count s1)"

definition orb_stop_units :: "orb_env \<Rightarrow> nat \<Rightarrow> (unit, orb_pool) comp" where
  "orb_stop_units env count s =
     (if take count (bp_units s) = [] then Ret () s
      else let s1 = s\<lparr>bp_returns := bp_returns s + 1\<rparr>
           in case be_return env (bp_returns s) of
                Some e \<Rightarrow> Raise e s1
              | None \<Rightarrow> Ret () (s1\<lparr>bp_units := drop count (bp_units s)\<rparr>))"

definition orb_terminate :: "orb_env \<Rightarrow> coordinator \<times> orb_pool \<Rightarrow> coordinator \<times> (unit, orb_pool) outcome" where
  "orb_terminate env p =
     (coordinator_cancel (fst p),
      (if bp_units (snd p) = [] then Ret () (snd p)
       else Ret () ((snd p)\<lparr>bp_returns := bp_returns (snd p) + 1, bp_units := []\<rparr>)))"

end
