(* ===== verification/ProvisionerRuns.thy ===== *)
theory ProvisionerRuns
  imports Provisioners
begin

text \<open>
  What the capacity coordinator may rely on: the contract of a provisioner as a locale, the bound and the convergence of
  its rounds proved from it, and the four kinds of provisioners as interpretations.
\<close>

section \<open>The contract\<close>

text \<open>The count a round aims at.\<close>

definition unit_target :: "coordinator \<Rightarrow> int" where
  "unit_target co = (if co_max co = -1 then co_desired co else min (co_desired co) (co_max co))"

lemma delta_target: "reconcile_delta current co = unit_target co - current"
  by (auto simp: reconcile_delta_def unit_target_def Let_def)

lemma command_of_round:
  "fst (reconcile now current ok co) = StartUnits n \<Longrightarrow> n = unit_target co - current \<and> 0 < n"
  "fst (reconcile now current ok co) = StopUnits n \<Longrightarrow> n = current - unit_target co \<and> 0 < n"
  using delta_target [of current "co\<lparr>co_reconcile_needed := False\<rparr>"]
  by (auto simp: reconcile_def Let_def unit_target_def split: if_splits)

lemma round_command:
  assumes "\<not> co_stop co"
  shows "current < unit_target co \<Longrightarrow> fst (reconcile now current ok co) = StartUnits (unit_target co - current)"
    "unit_target co < current \<Longrightarrow> remaining_seconds now (start_if_not_running now (co_cooldown co)) = None \<Longrightarrow>
      fst (reconcile now current ok co) = StopUnits (current - unit_target co)"
proof -
  have "reconcile_delta current (co\<lparr>co_reconcile_needed := False\<rparr>) = unit_target co - current" by (simp add: delta_target unit_target_def)
  then show "current < unit_target co \<Longrightarrow> fst (reconcile now current ok co) = StartUnits (unit_target co - current)"
    "unit_target co < current \<Longrightarrow> remaining_seconds now (start_if_not_running now (co_cooldown co)) = None \<Longrightarrow>
      fst (reconcile now current ok co) = StopUnits (current - unit_target co)"
    using assms by (auto simp: reconcile_def Let_def)
qed

text \<open>
  Starting adds at most as many units as were asked for, stopping removes at most as many; both also when they raise.
\<close>

definition adds :: "('s \<Rightarrow> nat) \<Rightarrow> nat \<Rightarrow> 's \<Rightarrow> ('a, 's) outcome \<Rightarrow> bool" where
  "adds f n s = sat (\<lambda>_ s'. f s \<le> f s' \<and> f s' \<le> f s + n) (\<lambda>s'. f s \<le> f s' \<and> f s' \<le> f s + n)"

definition removes :: "('s \<Rightarrow> nat) \<Rightarrow> nat \<Rightarrow> 's \<Rightarrow> ('a, 's) outcome \<Rightarrow> bool" where
  "removes f n s = sat (\<lambda>_ s'. f s' \<le> f s \<and> f s - n \<le> f s') (\<lambda>s'. f s' \<le> f s \<and> f s - n \<le> f s')"

locale provisioner =
  fixes start :: "nat \<Rightarrow> (unit, 's) comp" and stop :: "nat \<Rightarrow> (unit, 's) comp" and active :: "'s \<Rightarrow> nat"
  assumes start_bounded: "adds active n s (start n s)" and stop_bounded: "removes active n s (stop n s)"
begin

text \<open>A round moves the count towards the target and never past it.\<close>

lemma round_bounded:
  assumes round: "run_round start stop active now co s = (co', s')"
  shows "int (active s) \<le> unit_target co \<Longrightarrow> active s \<le> active s' \<and> int (active s') \<le> unit_target co"
    "unit_target co \<le> int (active s) \<Longrightarrow> active s' \<le> active s \<and> (0 \<le> unit_target co \<longrightarrow> unit_target co \<le> int (active s'))"
proof -
  have "(int (active s) \<le> unit_target co \<longrightarrow> active s \<le> active s' \<and> int (active s') \<le> unit_target co) \<and>
    (unit_target co \<le> int (active s) \<longrightarrow> active s' \<le> active s \<and> (0 \<le> unit_target co \<longrightarrow> unit_target co \<le> int (active s')))"
  proof (cases "fst (reconcile now (int (active s)) True co)")
    case NoCommand
    then show ?thesis using round by (auto simp: run_round_def Let_def)
  next
    case (StartUnits n)
    note n = command_of_round(1) [OF StartUnits]
    have "active s \<le> active s' \<and> active s' \<le> active s + nat n"
      using start_bounded [of "nat n" s] round StartUnits by (cases "start (nat n) s") (auto simp: adds_def run_round_def Let_def)
    then show ?thesis using n by auto
  next
    case (StopUnits n)
    note n = command_of_round(2) [OF StopUnits]
    have "active s' \<le> active s \<and> active s - nat n \<le> active s'"
      using stop_bounded [of "nat n" s] round StopUnits by (cases "stop (nat n) s") (auto simp: removes_def run_round_def Let_def)
    then show ?thesis using n by auto
  qed
  then show "int (active s) \<le> unit_target co \<Longrightarrow> active s \<le> active s' \<and> int (active s') \<le> unit_target co"
    "unit_target co \<le> int (active s) \<Longrightarrow> active s' \<le> active s \<and> (0 \<le> unit_target co \<longrightarrow> unit_target co \<le> int (active s'))" by blast+
qed

lemma round_keeps_max: "snd (reconcile now c ok co) = co' \<Longrightarrow> co_max co' = co_max co"
  by (auto simp: reconcile_def Let_def split: if_splits)

lemma run_round_max: "run_round start stop active now co s = (co', s') \<Longrightarrow> co_max co' = co_max co"
  by (auto simp: run_round_def Let_def split: unit_command.splits outcome.splits dest!: round_keeps_max [OF refl, THEN trans] intro: round_keeps_max)

text \<open>Whatever is asked for and whatever fails, the bound on the units is never exceeded.\<close>

lemma commands_bounded:
  assumes "co_max co \<noteq> -1" "int (active s) \<le> co_max co" "fold (command_round start stop active) cmds (co, s) = (co', s')"
  shows "int (active s') \<le> co_max co \<and> co_max co' = co_max co"
  using assms
proof (induction cmds arbitrary: co s)
  case (Cons cmd cmds)
  obtain co1 s1 where one: "command_round start stop active cmd (co, s) = (co1, s1)" by (metis surj_pair)
  let ?co = "set_desired_unit_count (fst cmd) co"
  have m: "co_max ?co = co_max co" by simp
  have "int (active s1) \<le> co_max co \<and> co_max co1 = co_max co"
  proof (cases "co_reconcile_needed ?co")
    case True
    then have r: "run_round start stop active (snd cmd) ?co s = (co1, s1)" using one by (simp add: command_round_def)
    have t: "unit_target ?co \<le> co_max co" using Cons.prems(1) m by (simp add: unit_target_def)
    then have "int (active s1) \<le> co_max co" using round_bounded [OF r] Cons.prems(2) by linarith
    then show ?thesis using run_round_max [OF r] m by simp
  next
    case False
    then show ?thesis using one Cons.prems m by (auto simp: command_round_def)
  qed
  then show ?case using Cons.IH [of co1 s1] Cons.prems one by auto
qed simp

end

text \<open>A provisioner that does what it is asked while its service is up.\<close>

locale reliable_provisioner = provisioner +
  fixes up :: "'a \<Rightarrow> bool"
  assumes start_exact: "up s \<Longrightarrow> \<exists>s'. start n s = Ret () s' \<and> active s' = active s + n"
    and stop_exact: "up s \<Longrightarrow> n \<le> active s \<Longrightarrow> \<exists>s'. stop n s = Ret () s' \<and> active s' = active s - n"
begin

lemma round_converges:
  assumes s: "up s" and go: "\<not> co_stop co" and t: "0 \<le> unit_target co"
    and cool: "int (active s) \<le> unit_target co \<or> remaining_seconds now (start_if_not_running now (co_cooldown co)) = None"
  shows "int (active (snd (run_round start stop active now co s))) = unit_target co"
proof -
  have d: "reconcile_delta (int (active s)) (co\<lparr>co_reconcile_needed := False\<rparr>) = unit_target co - int (active s)"
    by (simp add: delta_target unit_target_def)
  consider "int (active s) = unit_target co" | "int (active s) < unit_target co" | "unit_target co < int (active s)" by linarith
  then show ?thesis
  proof cases
    case 1
    then show ?thesis using go d by (simp add: run_round_def reconcile_def Let_def)
  next
    case 2
    note n = round_command(1) [OF go 2, of now True]
    show ?thesis using start_exact [OF s, of "nat (unit_target co - int (active s))"] 2 by (auto simp: run_round_def Let_def n)
  next
    case 3
    then have n: "fst (reconcile now (int (active s)) True co) = StopUnits (int (active s) - unit_target co)"
      using round_command(2) [OF go 3, of now True] cool by linarith
    have "nat (int (active s) - unit_target co) \<le> active s" using t by linarith
    then show ?thesis using stop_exact [OF s] 3 t by (fastforce simp: run_round_def Let_def n)
  qed
qed

end

section \<open>The provisioners\<close>

text \<open>Repeating a step that adds or removes at most one unit.\<close>

lemma adds_each:
  assumes "\<And>s. adds f 1 s (m s)"
  shows "adds f (length xs) s (for_each xs (\<lambda>_. m) s)"
proof (induction xs arbitrary: s)
  case (Cons x xs)
  show ?case
  proof (cases "m s")
    case (Ret a s1)
    then show ?thesis using assms [of s] Cons.IH [of s1] by (auto simp: adds_def elim!: sat_mono)
  qed (use assms [of s] in \<open>auto simp: adds_def seq_run\<close>)
qed (simp add: adds_def)

lemma removes_each:
  assumes "\<And>x s. removes f 1 s (m x s)"
  shows "removes f (length xs) s (for_each xs m s)"
proof (induction xs arbitrary: s)
  case (Cons x xs)
  show ?case
  proof (cases "m x s")
    case (Ret a s1)
    then show ?thesis using assms [of s x] Cons.IH [of s1] by (auto simp: removes_def elim!: sat_mono)
  qed (use assms [of s x] in \<open>auto simp: removes_def seq_run\<close>)
qed (simp add: removes_def)

lemma removes_mono: "removes f m s r \<Longrightarrow> m \<le> n \<Longrightarrow> removes f n s r"
  by (auto simp: removes_def elim!: sat_mono)

subsection \<open>Native workers\<close>

interpretation native: provisioner "native_start_units env" "native_stop_units env" native_active
proof
  fix n s
  have "adds native_active 1 s (native_start_one env s)" for s
    by (simp add: adds_def native_start_one_def native_active_def Let_def split: option.split)
  from adds_each [OF this, of "[0..<n]" s] show "adds native_active n s (native_start_units env n s)" by (simp add: native_start_units_def)
  have "removes native_active 1 s (native_stop_one env w s)" for w s
    by (simp add: removes_def native_stop_one_def native_active_def Let_def split: option.split)
  then have "removes native_active (length (take n (nw_workers s))) s (for_each (take n (nw_workers s)) (native_stop_one env) s)" by (rule removes_each)
  then show "removes native_active n s (native_stop_units env n s)" unfolding native_stop_units_def by (rule removes_mono) simp
qed

definition native_up :: "native_env \<Rightarrow> bool" where
  "native_up env \<longleftrightarrow> (\<forall>n. ne_start env n = None) \<and> (\<forall>n w. ne_kill env n w = None)"

lemma each_adds_one:
  assumes "\<And>s. \<exists>s'. m s = Ret () s' \<and> f s' = f s + (1 :: nat)"
  shows "\<exists>s'. for_each xs (\<lambda>_. m) s = Ret () s' \<and> f s' = f s + length xs"
proof (induction xs arbitrary: s)
  case (Cons x xs)
  obtain s1 where "m s = Ret () s1" "f s1 = f s + 1" using assms by blast
  then show ?case using Cons.IH [of s1] by auto
qed simp

lemma each_removes_one:
  assumes "\<And>x xs s. g s = x # xs \<Longrightarrow> \<exists>s'. m x s = Ret () s' \<and> g s' = xs"
  shows "\<exists>s'. for_each (take n (g s)) m s = Ret () s' \<and> g s' = drop n (g s)"
proof (induction n arbitrary: s)
  case (Suc n)
  show ?case
  proof (cases "g s")
    case (Cons x xs)
    obtain s1 where "m x s = Ret () s1" "g s1 = xs" using assms [OF Cons] by blast
    then show ?thesis using Suc.IH [of s1] Cons by auto
  qed simp
qed simp

interpretation native: reliable_provisioner "native_start_units env" "native_stop_units env" native_active "\<lambda>_. native_up env"
proof
  fix n s
  assume up: "native_up env"
  have "\<exists>s'. native_start_one env s = Ret () s' \<and> native_active s' = native_active s + 1" for s
    using up by (simp add: native_up_def native_start_one_def native_active_def Let_def)
  from each_adds_one [OF this, of "[0..<n]" s]
  show "\<exists>s'. native_start_units env n s = Ret () s' \<and> native_active s' = native_active s + n" by (simp add: native_start_units_def)
  have "\<exists>s'. native_stop_one env w s = Ret () s' \<and> nw_workers s' = ws" if "nw_workers s = w # ws" for w ws s
    using up that by (simp add: native_up_def native_stop_one_def Let_def)
  from each_removes_one [of nw_workers "native_stop_one env" n s, OF this]
  show "\<exists>s'. native_stop_units env n s = Ret () s' \<and> native_active s' = native_active s - n" by (auto simp: native_stop_units_def native_active_def)
qed

subsection \<open>ECS tasks\<close>

definition ecs_up :: "ecs_env \<Rightarrow> bool" where
  "ecs_up env \<longleftrightarrow> (\<forall>n. \<exists>t. ee_run_task env n = Inr ([], [t])) \<and> (\<forall>n. ee_stop_task env n = Inr [])"

lemma remove1_length_bounds: "length (remove1 x xs) \<le> length xs" "length xs - Suc 0 \<le> length (remove1 x xs)"
  by (simp_all add: length_remove1)

interpretation ecs: provisioner "ecs_start_units env" "ecs_stop_units env" ecs_active
proof
  fix n s
  have "adds ecs_active 1 s (ecs_start_unit env s)" for s
    by (simp add: adds_def ecs_start_unit_def ecs_active_def Let_def split: sum.split prod.split list.split)
  from adds_each [OF this, of "[0..<n]" s] show "adds ecs_active n s (ecs_start_units env n s)" by (simp add: ecs_start_units_def)
  have "removes ecs_active 1 s (ecs_stop_one env t s)" for t s
    by (simp add: removes_def ecs_stop_one_def ecs_active_def Let_def remove1_length_bounds split: sum.split)
  then have "removes ecs_active (length (take n (ep_units s))) s (for_each (take n (ep_units s)) (ecs_stop_one env) s)" by (rule removes_each)
  then show "removes ecs_active n s (ecs_stop_units env n s)" unfolding ecs_stop_units_def by (rule removes_mono) simp
qed

interpretation ecs: reliable_provisioner "ecs_start_units env" "ecs_stop_units env" ecs_active "\<lambda>_. ecs_up env"
proof
  fix n s
  assume up: "ecs_up env"
  have "\<exists>s'. ecs_start_unit env s = Ret () s' \<and> ecs_active s' = ecs_active s + 1" for s
  proof -
    obtain t where "ee_run_task env (ep_runs s) = Inr ([], [t])" using up by (auto simp: ecs_up_def)
    then show ?thesis by (simp add: ecs_start_unit_def ecs_active_def Let_def)
  qed
  from each_adds_one [OF this, of "[0..<n]" s]
  show "\<exists>s'. ecs_start_units env n s = Ret () s' \<and> ecs_active s' = ecs_active s + n" by (simp add: ecs_start_units_def)
  have "\<exists>s'. ecs_stop_one env t s = Ret () s' \<and> ep_units s' = ts" if "ep_units s = t # ts" for t ts s
    using up that by (simp add: ecs_up_def ecs_stop_one_def Let_def)
  from each_removes_one [of ep_units "ecs_stop_one env" n s, OF this]
  show "\<exists>s'. ecs_stop_units env n s = Ret () s' \<and> ecs_active s' = ecs_active s - n" by (auto simp: ecs_stop_units_def ecs_active_def)
qed

subsection \<open>OCI instances\<close>

definition oci_up :: "oci_env \<Rightarrow> bool" where
  "oci_up env \<longleftrightarrow> (\<forall>n. fst (oe_create env n) = Answered) \<and> (\<forall>n. oe_get env n = (Answered, ACTIVE))"

lemma delete_instance_frame:
  "\<exists>b s'. delete_instance env i s = Ret b s' \<and> op_instances s' = op_instances s"
  by (cases "oe_delete env (op_deletes s)") (auto simp: delete_instance_def Let_def)

lemma stop_instance_frame: "\<exists>s'. stop_instance env i s = Ret () s' \<and> op_instances s' = op_instances s"
  using delete_instance_frame [of env i s] by (auto simp: stop_instance_def)

lemma poll_instance_frame:
  "sat (\<lambda>_ s'. op_instances s' = op_instances s) (\<lambda>s'. op_instances s' = op_instances s) (poll_instance env n i s)"
proof (induction n arbitrary: s)
  case 0
  then show ?case using delete_instance_frame [of env i s] by auto
next
  case (Suc n)
  let ?s = "s\<lparr>op_gets := op_gets s + 1\<rparr>"
  obtain b s' where d: "delete_instance env i ?s = Ret b s'" "op_instances s' = op_instances s" using delete_instance_frame [of env i ?s] by auto
  show ?case using Suc.IH [of ?s] d by (auto simp: Let_def split: prod.split oci_answer.split lifecycle.split)
qed

lemma start_instance_frame:
  "sat (\<lambda>_ s'. op_instances s' = op_instances s) (\<lambda>s'. op_instances s' = op_instances s) (start_instance env s)"
  using poll_instance_frame [of "s\<lparr>op_creates := op_creates s + 1, op_existing := op_existing s @ [i]\<rparr>" env _ i for i]
  by (simp add: start_instance_def Let_def split: prod.split oci_answer.split)

lemma each_stop_frame: "\<exists>s'. for_each xs (stop_instance env) s = Ret () s' \<and> op_instances s' = op_instances s"
proof (induction xs arbitrary: s)
  case (Cons x xs)
  obtain s1 where "stop_instance env x s = Ret () s1" "op_instances s1 = op_instances s" using stop_instance_frame by blast
  then show ?case using Cons.IH [of s1] by auto
qed simp

lemma oci_stops: "\<exists>s'. oci_stop_units env n s = Ret () s' \<and> op_instances s' = drop n (op_instances s)"
  using each_stop_frame [of "take n (op_instances s)" env "s\<lparr>op_instances := drop n (op_instances s)\<rparr>"] by (simp add: oci_stop_units_def)

interpretation oci: provisioner "oci_start_units env" "oci_stop_units env" oci_active
proof
  fix n s
  have "adds oci_active 1 s (oci_start_one env s)" for s
    using start_instance_frame [of s env]
    by (cases "start_instance env s") (auto simp: adds_def oci_start_one_def oci_active_def andthen_run split: option.split)
  from adds_each [OF this, of "[0..<n]" s] show "adds oci_active n s (oci_start_units env n s)" by (simp add: oci_start_units_def)
  show "removes oci_active n s (oci_stop_units env n s)" using oci_stops [of env n s] by (auto simp: removes_def oci_active_def)
qed

interpretation oci: reliable_provisioner "oci_start_units env" "oci_stop_units env" oci_active "\<lambda>_. oci_up env"
proof
  fix n s
  assume up: "oci_up env"
  have "\<exists>s'. oci_start_one env s = Ret () s' \<and> oci_active s' = oci_active s + 1" for s
  proof -
    obtain i where "oe_create env (op_creates s) = (Answered, i)" using up by (metis oci_up_def surjective_pairing)
    moreover have "oe_get env k = (Answered, ACTIVE)" for k using up by (simp add: oci_up_def)
    ultimately show ?thesis
      by (simp add: oci_start_one_def start_instance_def oci_active_def Let_def andthen_run OCI_MAX_POLL_ATTEMPTS_def eval_nat_numeral)
  qed
  from each_adds_one [OF this, of "[0..<n]" s]
  show "\<exists>s'. oci_start_units env n s = Ret () s' \<and> oci_active s' = oci_active s + n" by (simp add: oci_start_units_def)
  show "\<exists>s'. oci_stop_units env n s = Ret () s' \<and> oci_active s' = oci_active s - n" using oci_stops [of env n s] by (auto simp: oci_active_def)
qed

subsection \<open>ORB machines\<close>

text \<open>The service never delivers more machines than a request asks for.\<close>

definition orb_sdk_ok :: "orb_env \<Rightarrow> bool" where
  "orb_sdk_ok env \<longleftrightarrow> (\<forall>count n st ms. be_status env count n = Inr (Some (st, ms)) \<longrightarrow> length ms \<le> count)"

definition orb_up :: "orb_env \<Rightarrow> bool" where
  "orb_up env \<longleftrightarrow> (\<forall>n c. \<exists>r. be_create env n c = Inr (Some r) \<and> r \<noteq> []) \<and>
     (\<forall>c n. \<exists>st ms. be_status env c n = Inr (Some (st, ms)) \<and> length ms = c) \<and> (\<forall>n. be_return env n = None)"

lemma orb_poll_adds:
  assumes "orb_sdk_ok env"
  shows "adds orb_active count s (orb_poll env n count s)"
proof (induction n arbitrary: s)
  case 0
  then show ?case by (simp add: adds_def)
next
  case (Suc n)
  let ?s = "s\<lparr>bp_polls := bp_polls s + 1\<rparr>"
  have "adds orb_active count s (orb_poll env n count ?s)" using Suc.IH [of ?s] by (simp add: adds_def orb_active_def)
  moreover have "length ms \<le> count" if "be_status env count (bp_polls s) = Inr (Some (st, ms))" for st ms using assms that by (simp add: orb_sdk_ok_def)
  ultimately show ?case by (auto simp: adds_def orb_active_def Let_def split: sum.split option.split prod.split)
qed

lemma orb_provisioner:
  assumes "orb_sdk_ok env"
  shows "provisioner (orb_start_units env) (orb_stop_units env) orb_active"
proof
  fix n s
  have "adds orb_active n (s\<lparr>bp_creates := bp_creates s + 1\<rparr>) (orb_poll env ORB_MAX_POLLING_ATTEMPTS n (s\<lparr>bp_creates := bp_creates s + 1\<rparr>))"
    by (rule orb_poll_adds [OF assms])
  then show "adds orb_active n s (orb_start_units env n s)"
    by (simp add: adds_def orb_start_units_def orb_active_def Let_def split: sum.split option.split)
  show "removes orb_active n s (orb_stop_units env n s)"
    by (auto simp: removes_def orb_stop_units_def orb_active_def Let_def split: option.split)
qed

lemma orb_reliable:
  assumes "orb_sdk_ok env"
  shows "reliable_provisioner (orb_start_units env) (orb_stop_units env) orb_active (\<lambda>_. orb_up env)"
proof (intro reliable_provisioner.intro orb_provisioner [OF assms] reliable_provisioner_axioms.intro)
  fix n and s :: orb_pool
  assume up: "orb_up env"
  obtain r where r: "be_create env (bp_creates s) n = Inr (Some r)" "r \<noteq> []" using up unfolding orb_up_def by blast
  obtain st ms where ms: "be_status env n (bp_polls s) = Inr (Some (st, ms))" "length ms = n" using up unfolding orb_up_def by blast
  show "\<exists>s'. orb_start_units env n s = Ret () s' \<and> orb_active s' = orb_active s + n"
    using r ms by (simp add: orb_start_units_def orb_active_def Let_def ORB_MAX_POLLING_ATTEMPTS_def eval_nat_numeral)
  show "\<exists>s'. orb_stop_units env n s = Ret () s' \<and> orb_active s' = orb_active s - n"
    using up by (auto simp: orb_up_def orb_stop_units_def orb_active_def Let_def)
qed

section \<open>Where they go wrong\<close>

text \<open>After a round that starts units, asking for the same count again does nothing, also when the round has failed.\<close>

lemma started_round:
  assumes "fst (reconcile now (int (active s)) True co) = StartUnits n" "run_round start stop active now co s = (co', s')" "start (nat n) s \<noteq> NoFuel"
  shows "co_desired co' = co_desired co \<and> \<not> is_running (co_cooldown co') \<and> \<not> co_reconcile_needed co'"
  using assms by (cases "start (nat n) s")
    (auto simp: run_round_def reconcile_def Let_def is_running_def cooldown_reset_def split: if_splits)

lemma repeated_command:
  assumes "\<not> is_running (co_cooldown co)" "\<not> co_reconcile_needed co"
  shows "fold (command_round start stop active) (map (\<lambda>t. (co_desired co, t)) clock) (co, s) = (co, s)"
  by (induction clock) (use assms in \<open>simp_all add: command_round_def set_desired_unit_count_def\<close>)

lemma failed_start_stays:
  assumes new: "coordinator_new m cd = Inr co" and d: "0 < d" "m = -1 \<or> 0 < m" and fail: "\<And>n. 0 < n \<Longrightarrow> \<exists>e s'. start n s = Raise e s' \<and> active s' = active s"
    and empty: "active s = 0"
  shows "active (snd (fold (command_round start stop active) (map (\<lambda>t. (d, t)) clock) (co, s))) = 0"
proof (cases clock)
  case (Cons t ts)
  let ?co = "set_desired_unit_count d co"
  have co: "co_desired co = 0" "co_max co = m" "\<not> co_stop co" "\<not> is_running (co_cooldown co)"
    using new by (auto simp: coordinator_new_def cooldown_new_def is_running_def split: if_splits sum.splits)
  have need: "co_reconcile_needed ?co" using co d by (simp add: set_desired_unit_count_def)
  have t: "unit_target ?co > 0" using d co by (auto simp: unit_target_def)
  have cmd: "fst (reconcile t (int (active s)) True ?co) = StartUnits (unit_target ?co)"
    using round_command(1) [of ?co "int (active s)" t True] t co empty by simp
  obtain e s' where f: "start (nat (unit_target ?co)) s = Raise e s'" "active s' = active s" using fail [of "nat (unit_target ?co)"] t by auto
  obtain co' where r: "run_round start stop active t ?co s = (co', s')" using cmd f by (simp add: run_round_def Let_def)
  have "co_desired co' = d \<and> \<not> is_running (co_cooldown co') \<and> \<not> co_reconcile_needed co'" using started_round [OF cmd r] f(1) by simp
  then have "fold (command_round start stop active) (map (\<lambda>t. (d, t)) ts) (co', s') = (co', s')" using repeated_command [of co'] by auto
  then show ?thesis using Cons need r f(2) empty by (simp add: command_round_def)
qed (simp add: empty)

text \<open>A manager without a bound whose units hold several workers, or that is under the waterfall policy.\<close>

lemma waterfall_walk_nonpos:
  "(\<And>r c. cap r = Some c \<Longrightarrow> rule_manager_id r = current \<Longrightarrow> c \<le> 0) \<Longrightarrow> waterfall_walk rules current cap remaining \<le> 0"
  by (induction rules arbitrary: remaining) (auto split: option.split intro: min.coboundedI2)

lemma starved:
  assumes neg: "maxTaskConcurrency hb < 0" and kind: "maxTaskConcurrency hb = -1 \<Longrightarrow> \<exists>rules. sc = WaterfallScaling rules" and tasks: "snap_tasks snap \<noteq> []"
    and c: "c \<in> set (fst (get_scaling_commands snap hb managed snaps sc))" and r: "r \<in> set c"
  shows "taskConcurrency r = 0"
proof -
  have "request_bounded 0 r"
  proof (cases sc)
    case NoScaling
    then show ?thesis using c by (simp add: get_scaling_commands_def)
  next
    case (VanillaScaling logged)
    then have "vanilla_desired a b d (maxTaskConcurrency hb) = 0" for a b d
      using neg kind by (auto simp: vanilla_desired_def clamp_concurrency_def Let_def)
    then show ?thesis using c r VanillaScaling
      by (auto simp: get_scaling_commands_def vanilla_scaling_commands_def Let_def build_set_desired_command_def request_bounded_def)
  next
    case (CapabilityScaling logged)
    have "n \<le> 0" if "(caps, n) \<in> set (capability_desired_per_capset groups hb)" for caps n groups
      using that neg kind CapabilityScaling by (auto simp: capability_desired_per_capset_def clamp_concurrency_def split: list.splits)
    then show ?thesis using c r CapabilityScaling
      by (auto simp: get_scaling_commands_def capability_scaling_commands_def Let_def intro: build_bounded)
  next
    case (WaterfallScaling rules)
    have cs: "c \<in> set (waterfall_scaling_commands rules snap hb snaps)" using c WaterfallScaling by (simp add: get_scaling_commands_def)
    then obtain rule where "waterfall_find_rule rules (workerManagerID hb) = Some rule"
      by (cases "waterfall_find_rule rules (workerManagerID hb)") (simp_all add: waterfall_scaling_commands_def)
    with cs have rule: "c = build_set_desired_command (waterfall_desired_per_capset rules rule snap hb snaps)" by (simp add: waterfall_scaling_commands_def)
    have generic: "allocate_generic_desired rules rule snap hb snaps \<le> 0"
      unfolding allocate_generic_desired_def using tasks neg by (auto intro!: waterfall_walk_nonpos dest: capacity_le_reported(1))
    have capset: "allocate_capset_desired rules rule required snap hb snaps \<le> 0" for required
      unfolding allocate_capset_desired_def Let_def using neg by (auto intro!: waterfall_walk_nonpos dest: capacity_le_reported(2))
    show ?thesis
      by (rule build_bounded [OF _ _ r [unfolded rule]])
        (use generic capset in \<open>auto simp: waterfall_desired_per_capset_def Let_def split: if_splits\<close>)
  qed
  then show ?thesis by (simp add: request_bounded_def)
qed

text \<open>A native worker that cannot be signalled stays the first in line for ever.\<close>

lemma run_round_sat:
  assumes "Q s" and start: "\<And>n. sat (\<lambda>_. Q) Q (start n s)" and stop: "\<And>n. sat (\<lambda>_. Q) Q (stop n s)"
  shows "Q (snd (run_round start stop active now co s))"
proof (cases "fst (reconcile now (int (active s)) True co)")
  case (StartUnits n)
  then show ?thesis using start [of "nat n"] by (cases "start (nat n) s") (simp_all add: run_round_def Let_def)
next
  case (StopUnits n)
  then show ?thesis using stop [of "nat n"] by (cases "stop (nat n) s") (simp_all add: run_round_def Let_def)
qed (simp add: run_round_def Let_def assms(1))

lemma native_start_appends:
  "sat (\<lambda>_ s'. \<exists>vs. nw_workers s' = nw_workers s @ vs) (\<lambda>s'. \<exists>vs. nw_workers s' = nw_workers s @ vs) (for_each xs (\<lambda>_. native_start_one env) s)"
proof (induction xs arbitrary: s)
  case (Cons x xs)
  show ?case
  proof (cases "native_start_one env s")
    case (Ret a s1)
    then obtain vs where "nw_workers s1 = nw_workers s @ vs" by (auto simp: native_start_one_def Let_def split: option.splits)
    then show ?thesis using Ret Cons.IH [of s1] by (auto elim!: sat_mono)
  qed (auto simp: seq_run native_start_one_def Let_def split: option.splits)
qed simp

lemma dead_worker_stays:
  assumes kill: "\<And>n. ne_kill env n w \<noteq> None" and s: "nw_workers s = w # ws"
    and run: "fold (command_round (native_start_units env) (native_stop_units env) native_active) cmds (co, s) = (co', s')"
  shows "\<exists>vs. nw_workers s' = w # ws @ vs"
  using s run
proof (induction cmds arbitrary: co s ws)
  case (Cons cmd cmds)
  obtain co1 s1 where one: "command_round (native_start_units env) (native_stop_units env) native_active cmd (co, s) = (co1, s1)" by (metis surj_pair)
  have start: "sat (\<lambda>_ u. \<exists>vs. nw_workers u = w # ws @ vs) (\<lambda>u. \<exists>vs. nw_workers u = w # ws @ vs) (native_start_units env n s)" for n
    using native_start_appends [where s = s and env = env and xs = "[0..<n]"] Cons.prems(1) by (simp add: native_start_units_def)
  have stop: "sat (\<lambda>_ u. \<exists>vs. nw_workers u = w # ws @ vs) (\<lambda>u. \<exists>vs. nw_workers u = w # ws @ vs) (native_stop_units env n s)" for n
    using kill [of "nw_kills s"] Cons.prems(1)
    by (cases n) (auto simp: native_stop_units_def native_stop_one_def seq_run Let_def split: option.splits)
  have "\<exists>vs. nw_workers (snd (run_round (native_start_units env) (native_stop_units env) native_active now co s)) = w # ws @ vs" for now co
    by (rule run_round_sat [of "\<lambda>u. \<exists>vs. nw_workers u = w # ws @ vs"]) (use Cons.prems(1) start stop in auto)
  then have "\<exists>vs. nw_workers s1 = w # ws @ vs"
    using one Cons.prems(1) by (auto simp: command_round_def Let_def split: if_splits) (metis snd_conv)
  then obtain vs where "nw_workers s1 = w # ws @ vs" by blast
  from Cons.IH [OF this] show ?case using Cons.prems(2) one by auto
qed simp

text \<open>An instance whose deletion fails is forgotten although it exists.\<close>

lemma oci_instances_lost:
  assumes "\<And>n. oe_delete env n \<noteq> Answered"
  shows "\<exists>s'. oci_stop_units env n s = Ret () s' \<and> op_instances s' = drop n (op_instances s) \<and> op_existing s' = op_existing s"
proof -
  have one: "\<exists>s'. stop_instance env i s = Ret () s' \<and> op_instances s' = op_instances s \<and> op_existing s' = op_existing s" for i s
    using assms [of "op_deletes s"] by (cases "oe_delete env (op_deletes s)") (auto simp: stop_instance_def delete_instance_def Let_def andthen_run)
  have "\<exists>s'. for_each xs (stop_instance env) s = Ret () s' \<and> op_instances s' = op_instances s \<and> op_existing s' = op_existing s" for xs s
  proof (induction xs arbitrary: s)
    case (Cons x xs)
    obtain s1 where "stop_instance env x s = Ret () s1" "op_instances s1 = op_instances s" "op_existing s1 = op_existing s" using one by blast
    then show ?case using Cons.IH [of s1] by auto
  qed simp
  from this [of "take n (op_instances s)" "s\<lparr>op_instances := drop n (op_instances s)\<rparr>"] show ?thesis by (simp add: oci_stop_units_def)
qed

section \<open>Runs of the four kinds\<close>

text \<open>A sequence of commands of the scheduler, each with the time of its round.\<close>

definition native_run :: "native_env \<Rightarrow> (int \<times> int) list \<Rightarrow> coordinator \<times> native_pool \<Rightarrow> coordinator \<times> native_pool" where
  "native_run env = fold (command_round (native_start_units env) (native_stop_units env) native_active)"

definition ecs_run :: "ecs_env \<Rightarrow> (int \<times> int) list \<Rightarrow> coordinator \<times> ecs_pool \<Rightarrow> coordinator \<times> ecs_pool" where
  "ecs_run env = fold (command_round (ecs_start_units env) (ecs_stop_units env) ecs_active)"

definition oci_run :: "oci_env \<Rightarrow> (int \<times> int) list \<Rightarrow> coordinator \<times> oci_pool \<Rightarrow> coordinator \<times> oci_pool" where
  "oci_run env = fold (command_round (oci_start_units env) (oci_stop_units env) oci_active)"

definition orb_run :: "orb_env \<Rightarrow> (int \<times> int) list \<Rightarrow> coordinator \<times> orb_pool \<Rightarrow> coordinator \<times> orb_pool" where
  "orb_run env = fold (command_round (orb_start_units env) (orb_stop_units env) orb_active)"

lemmas provisioner_runs = native_run_def ecs_run_def oci_run_def orb_run_def

lemma ceil_div_bounds:
  assumes "0 < b"
  shows "a \<le> ceil_div a b * b" "ceil_div a b * b < a + b"
proof -
  have "(- a) div b * b + (- a) mod b = - a" by (rule div_mult_mod_eq)
  moreover have "0 \<le> (- a) mod b" "(- a) mod b < b" using assms by simp_all
  ultimately show "a \<le> ceil_div a b * b" "ceil_div a b * b < a + b" unfolding ceil_div_def minus_mult_left [symmetric] by linarith+
qed

lemma bounded_workers:
  assumes "provisioner start stop active" "coordinator_new (max_units k per_unit) cooldown = Inr co" "0 \<le> k" "0 < per_unit" "active s = 0"
  shows "int (active (snd (fold (command_round start stop active) cmds (co, s)))) * per_unit < k + per_unit"
proof -
  have m: "co_max co = ceil_div k per_unit" using assms(2,3) by (auto simp: coordinator_new_def max_units_def split: sum.splits)
  have pos: "0 \<le> ceil_div k per_unit" using assms(3,4) by (simp add: ceil_div_def div_nonpos_pos_le0)
  obtain co' s' where run: "fold (command_round start stop active) cmds (co, s) = (co', s')" by (metis surj_pair)
  have "int (active s') \<le> ceil_div k per_unit"
    using provisioner.commands_bounded [OF assms(1) _ _ run] m pos assms(5) by simp
  then have "int (active s') * per_unit \<le> ceil_div k per_unit * per_unit" using assms(4) by (intro mult_right_mono) auto
  then show ?thesis using run ceil_div_bounds(2) [OF assms(4), of k] by simp
qed

text \<open>What the requests of a command come to, and when a round may act on it: growing at once, shrinking after the cooldown.\<close>

definition units_wanted :: "int \<Rightarrow> capabilities \<Rightarrow> DesiredTaskConcurrencyRequest list \<Rightarrow> coordinator \<Rightarrow> int" where
  "units_wanted per_unit caps requests co =
     (let n = ceil_div (extract_desired_count requests caps) per_unit in if co_max co = -1 then n else min n (co_max co))"

definition may_act :: "int \<Rightarrow> coordinator \<Rightarrow> int \<Rightarrow> nat \<Rightarrow> bool" where
  "may_act now co wanted current \<longleftrightarrow>
     int current \<le> wanted \<or> remaining_seconds now (start_if_not_running now (co_cooldown co)) = None"

lemma command_target: "unit_target (set_desired_task_concurrency per_unit caps requests co) = units_wanted per_unit caps requests co"
  by (simp add: unit_target_def units_wanted_def set_desired_task_concurrency_def set_desired_unit_count_def)

lemma command_converges:
  assumes "reliable_provisioner start stop active (up :: 's \<Rightarrow> bool)" "up s" "\<not> co_stop co" "0 \<le> units_wanted per_unit caps requests co"
    and "may_act now co (units_wanted per_unit caps requests co) (active s)"
  shows "int (active (snd (run_round start stop active now (set_desired_task_concurrency per_unit caps requests co) s))) =
    units_wanted per_unit caps requests co"
proof -
  let ?co = "set_desired_task_concurrency per_unit caps requests co"
  have "\<not> co_stop ?co" "co_cooldown ?co = co_cooldown co" using assms(3) by (simp_all add: set_desired_task_concurrency_def)
  then show ?thesis
    using reliable_provisioner.round_converges [OF assms(1,2), of ?co now] assms(4,5) by (simp add: command_target may_act_def)
qed

end
