(* ===== verification/ConfigTypes.thy ===== *)
theory ConfigTypes
  imports Allocation Scaling
begin

text \<open>
  The texts a user configures Scaler with: addresses (\<open>src/src/scaler/config/types/address.py\<close>), worker names and
  capabilities (\<open>config/types/worker.py\<close>, \<open>worker_manager_adapter/common.py\<close>) and scheduling policies
  (\<open>scheduler/controllers/policies\<close>). A string is a Python string of characters below 256; the manager ids of waterfall rules are
  ASCII, so that \<open>encode\<close> changes nothing; the limit on the digits that \<open>int\<close> reads is not modelled.
\<close>

section \<open>Strings and numbers of Python\<close>

definition is_space :: "char \<Rightarrow> bool" where
  "is_space c = ((of_char c :: nat) \<in> {9, 10, 11, 12, 13, 28, 29, 30, 31, 32, 133, 160})"

definition strip :: "string \<Rightarrow> string" where
  "strip s = rev (dropWhile is_space (rev (dropWhile is_space s)))"

text \<open>\<open>s.split(c)\<close>, \<open>s.partition(c)\<close>, \<open>s.rsplit(c, 1)\<close> and \<open>s.split(pat, 1)\<close> with a longer separator.\<close>

fun split_on :: "char \<Rightarrow> string \<Rightarrow> string list" where
  "split_on c [] = [[]]"
| "split_on c (x # xs) = (if x = c then [] # split_on c xs else (case split_on c xs of [] \<Rightarrow> [[x]] | p # ps \<Rightarrow> (x # p) # ps))"

definition partition_at :: "char \<Rightarrow> string \<Rightarrow> string \<times> bool \<times> string" where
  "partition_at c s = (takeWhile (\<lambda>x. x \<noteq> c) s, c \<in> set s, tl (dropWhile (\<lambda>x. x \<noteq> c) s))"

definition rsplit_once :: "char \<Rightarrow> string \<Rightarrow> (string \<times> string) option" where
  "rsplit_once c s =
     (if c \<in> set s then Some (rev (tl (dropWhile (\<lambda>x. x \<noteq> c) (rev s))), rev (takeWhile (\<lambda>x. x \<noteq> c) (rev s))) else None)"

fun split_once :: "string \<Rightarrow> string \<Rightarrow> (string \<times> string) option" where
  "split_once pat [] = (if pat = [] then Some ([], []) else None)"
| "split_once pat (x # xs) =
     (if take (length pat) (x # xs) = pat then Some ([], drop (length pat) (x # xs))
      else map_option (\<lambda>(a, b). (x # a, b)) (split_once pat xs))"

fun join_with :: "char \<Rightarrow> string list \<Rightarrow> string" where
  "join_with c [] = []"
| "join_with c [s] = s"
| "join_with c (s # ss) = s @ c # join_with c ss"

text \<open>\<open>s.splitlines()\<close>: the last line counts only when it is not empty.\<close>

definition line_end :: "char \<Rightarrow> bool" where
  "line_end c = ((of_char c :: nat) \<in> {10, 11, 12, 13, 28, 29, 30, 133})"

fun splitlines_from :: "string \<Rightarrow> string \<Rightarrow> string list" where
  "splitlines_from line [] = (if line = [] then [] else [line])"
| "splitlines_from line (c # cs) =
     (if line_end c then line # splitlines_from [] (if c = CHR 0x0D \<and> cs \<noteq> [] \<and> hd cs = CHR 0x0A then tl cs else cs)
      else splitlines_from (line @ [c]) cs)"

definition splitlines :: "string \<Rightarrow> string list" where
  "splitlines s = splitlines_from [] s"

text \<open>\<open>int(s)\<close>: blanks around, a sign, digits that single underscores may separate.\<close>

definition digit_value :: "char \<Rightarrow> nat option" where
  "digit_value c = (let n = of_char c in if 48 \<le> n \<and> n \<le> 57 then Some (n - 48) else None)"

fun read_digits :: "nat \<Rightarrow> string \<Rightarrow> nat option" where
  "read_digits acc [] = Some acc"
| "read_digits acc (c # cs) =
     (case digit_value c of
        Some d \<Rightarrow> read_digits (acc * 10 + d) cs
      | None \<Rightarrow>
          if c = CHR ''_''
          then (case cs of
                  [] \<Rightarrow> None
                | e # es \<Rightarrow> (case digit_value e of None \<Rightarrow> None | Some d \<Rightarrow> read_digits (acc * 10 + d) es))
          else None)"

definition read_nat :: "string \<Rightarrow> nat option" where
  "read_nat s = (case s of [] \<Rightarrow> None | c # cs \<Rightarrow> (case digit_value c of None \<Rightarrow> None | Some d \<Rightarrow> read_digits d cs))"

definition py_int :: "string \<Rightarrow> int option" where
  "py_int s =
     (case strip s of
        [] \<Rightarrow> None
      | c # cs \<Rightarrow>
          if c = CHR ''-'' then map_option (\<lambda>n. - int n) (read_nat cs)
          else if c = CHR ''+'' then map_option int (read_nat cs)
          else map_option int (read_nat (c # cs)))"

fun nat_str :: "nat \<Rightarrow> string" where
  "nat_str n = (if n < 10 then [char_of (48 + n)] else nat_str (n div 10) @ [char_of (48 + n mod 10)])"

declare nat_str.simps [simp del]

definition int_str :: "int \<Rightarrow> string" where
  "int_str i = (if i < 0 then CHR ''-'' # nat_str (nat (- i)) else nat_str (nat i))"

section \<open>Addresses\<close>

datatype SocketType = ST_inproc | ST_ipc | ST_tcp | ST_tls | ST_ws | ST_wss

fun socket_value :: "SocketType \<Rightarrow> string" where
  "socket_value ST_inproc = ''inproc''"
| "socket_value ST_ipc = ''ipc''"
| "socket_value ST_tcp = ''tcp''"
| "socket_value ST_tls = ''tls''"
| "socket_value ST_ws = ''ws''"
| "socket_value ST_wss = ''wss''"

definition socket_type_of :: "string \<Rightarrow> SocketType option" where
  "socket_type_of s = find (\<lambda>t. socket_value t = s) [ST_inproc, ST_ipc, ST_tcp, ST_tls, ST_ws, ST_wss]"

definition with_port :: "SocketType \<Rightarrow> bool" where
  "with_port t = (t \<in> {ST_tcp, ST_tls, ST_ws, ST_wss})"

definition is_ws :: "SocketType \<Rightarrow> bool" where
  "is_ws t = (t = ST_ws \<or> t = ST_wss)"

record AddressConfig =
  ac_type :: SocketType
  ac_host :: string
  ac_port :: "int option"
  ac_path :: "string option"

text \<open>\<open>__post_init__\<close>.\<close>

definition address_new :: "SocketType \<Rightarrow> string \<Rightarrow> int option \<Rightarrow> string option \<Rightarrow> py_exn + AddressConfig" where
  "address_new t host port path =
     (if (port = None) = with_port t then Inl ValueError
      else if path \<noteq> None \<and> \<not> is_ws t then Inl ValueError
      else Inr \<lparr>ac_type = t, ac_host = host, ac_port = port, ac_path = path\<rparr>)"

definition address_from_string :: "string \<Rightarrow> py_exn + AddressConfig" where
  "address_from_string value =
     (case split_once ''://'' value of
        None \<Rightarrow> Inl ValueError
      | Some (socket_type, rest) \<Rightarrow>
          (case socket_type_of socket_type of
             None \<Rightarrow> Inl ValueError
           | Some t \<Rightarrow>
               if \<not> with_port t then address_new t rest None None
               else (case partition_at (CHR ''/'') rest of (authority, _, path_rest) \<Rightarrow>
                      (case rsplit_once (CHR '':'') authority of
                         None \<Rightarrow> Inl ValueError
                       | Some (host, port_str) \<Rightarrow>
                           (case py_int port_str of
                              None \<Rightarrow> Inl ValueError
                            | Some port \<Rightarrow> address_new t host (Some port) (if is_ws t then Some (CHR ''/'' # path_rest) else None))))))"

definition address_repr :: "AddressConfig \<Rightarrow> string" where
  "address_repr a =
     (let prefix = socket_value (ac_type a) @ ''://'' @ ac_host a; port = (case ac_port a of None \<Rightarrow> ''None'' | Some p \<Rightarrow> int_str p)
      in if \<not> with_port (ac_type a) then prefix
         else if is_ws (ac_type a) then prefix @ '':'' @ port @ (case ac_path a of None \<Rightarrow> ''/'' | Some p \<Rightarrow> p)
         else prefix @ '':'' @ port)"

section \<open>Worker names and capabilities\<close>

definition worker_names_from_string :: "string \<Rightarrow> string list" where
  "worker_names_from_string value = (if value = [] then [] else map strip (split_on (CHR '','') value))"

definition worker_names_str :: "string list \<Rightarrow> string" where
  "worker_names_str names = (if names \<noteq> [] then join_with (CHR '','') names else ''<empty>'')"

fun read_capabilities :: "string list \<Rightarrow> capabilities \<Rightarrow> py_exn + capabilities" where
  "read_capabilities [] d = Inr d"
| "read_capabilities (item # items) d =
     (case partition_at (CHR ''='') item of (raw, separator, capability_value) \<Rightarrow>
        let name = strip raw
        in if name = [] then Inl ValueError
           else if \<not> separator then read_capabilities items (dict_set name (-1) d)
           else (case py_int capability_value of
                   None \<Rightarrow> Inl ValueError
                 | Some v \<Rightarrow> read_capabilities items (dict_set name v d)))"

definition capabilities_from_string :: "string \<Rightarrow> py_exn + capabilities" where
  "capabilities_from_string value = (if value = [] then Inr [] else read_capabilities (split_on (CHR '','') value) [])"

definition capability_text :: "string \<times> int \<Rightarrow> string" where
  "capability_text nv = (if snd nv = -1 then fst nv else fst nv @ ''='' @ int_str (snd nv))"

definition capabilities_str :: "capabilities \<Rightarrow> string" where
  "capabilities_str d = (if d = [] then ''<empty>'' else join_with (CHR '','') (map capability_text d))"

definition format_capabilities :: "capabilities \<Rightarrow> string" where
  "format_capabilities d = join_with (CHR '','') (map capability_text d)"

section \<open>Policies\<close>

definition read_rule :: "string list \<Rightarrow> py_exn + WaterfallRule" where
  "read_rule parts =
     (case parts of
        [p, m] \<Rightarrow>
          if m = [] then Inl ValueError
          else (case py_int p of None \<Rightarrow> Inl ValueError
                | Some n \<Rightarrow> Inr \<lparr>rule_priority = n, rule_manager_id = m, rule_max_task_concurrency = None\<rparr>)
      | [p, m, c] \<Rightarrow>
          if m = [] then Inl ValueError
          else (case (py_int p, py_int c) of
                  (Some n, Some k) \<Rightarrow> Inr \<lparr>rule_priority = n, rule_manager_id = m, rule_max_task_concurrency = Some k\<rparr>
                | _ \<Rightarrow> Inl ValueError)
      | _ \<Rightarrow> Inl ValueError)"

fun read_rules :: "string list \<Rightarrow> py_exn + WaterfallRule list" where
  "read_rules [] = Inr []"
| "read_rules (raw # lines) =
     (let line = strip (fst (partition_at (CHR ''#'') raw))
      in if line = [] then read_rules lines
         else (case read_rule (map strip (split_on (CHR '','') line)) of
                 Inl e \<Rightarrow> Inl e
               | Inr r \<Rightarrow> map_sum id (\<lambda>rs. r # rs) (read_rules lines)))"

definition parse_waterfall_rules :: "string \<Rightarrow> py_exn + WaterfallRule list" where
  "parse_waterfall_rules content =
     (case read_rules (splitlines content) of
        Inl e \<Rightarrow> Inl e
      | Inr rules \<Rightarrow> if rules = [] \<or> \<not> distinct (map rule_manager_id rules) then Inl ValueError else Inr rules)"

text \<open>\<open>SimplePolicy.__init__\<close>.\<close>

definition policy_items :: "string \<Rightarrow> (string, string) dict" where
  "policy_items content =
     foldl (\<lambda>d item. case partition_at (CHR ''='') item of (k, sep, v) \<Rightarrow> if sep then dict_set (strip k) (strip v) d else d)
       [] (split_on (CHR '';'') content)"

definition allocate_strategy_of :: "string \<Rightarrow> AllocatePolicyStrategy option" where
  "allocate_strategy_of s = (if s = ''capability'' then Some CAPABILITY else if s = ''even_load'' then Some EVEN_LOAD else None)"

definition scaling_strategy_of :: "string \<Rightarrow> ScalingPolicyStrategy option" where
  "scaling_strategy_of s =
     (if s = ''no'' then Some SCALING_NO else if s = ''vanilla'' then Some SCALING_VANILLA
      else if s = ''capability'' then Some SCALING_CAPABILITY else None)"

definition simple_policy :: "string \<Rightarrow> py_exn + allocation \<times> scaling_policy" where
  "simple_policy content =
     (let kv = policy_items content
      in if set (dict_keys kv) \<noteq> {''allocate'', ''scaling''} then Inl ValueError
         else (case (dict_get kv ''allocate'', dict_get kv ''scaling'') of
                 (Some a, Some sc) \<Rightarrow>
                   (case (allocate_strategy_of a, scaling_strategy_of sc) of
                      (Some x, Some y) \<Rightarrow> Inr (create_allocate_policy x, create_scaling_policy y)
                    | _ \<Rightarrow> Inl ValueError)
               | _ \<Rightarrow> Inl KeyError))"

definition create_policy :: "string \<Rightarrow> string \<Rightarrow> py_exn + allocation \<times> scaling_policy" where
  "create_policy engine content =
     (if engine = ''simple'' then simple_policy content
      else if engine = ''waterfall_v1''
      then map_sum id (\<lambda>rules. (create_allocate_policy CAPABILITY, WaterfallScaling (waterfall_init rules))) (parse_waterfall_rules content)
      else Inl ValueError)"

end
