(* ===== verification/ConfigRoundtrip.thy ===== *)
theory ConfigRoundtrip
  imports ConfigTypes
begin

text \<open>
  What the texts mean: numbers, addresses and capabilities are read back from what is printed, and whatever is accepted is well formed.
\<close>

section \<open>Strings\<close>

lemma split_once_prefix:
  assumes "CHR '':'' \<notin> set a"
  shows "split_once ''://'' (a @ ''://'' @ b) = Some (a, b)"
  using assms by (induction a) auto

lemma partition_at_first:
  assumes "c \<notin> set a"
  shows "partition_at c (a @ c # b) = (a, True, b)" "partition_at c a = (a, False, [])"
proof -
  have a: "\<And>x. x \<in> set a \<Longrightarrow> x \<noteq> c" using assms by auto
  show "partition_at c (a @ c # b) = (a, True, b)" using a by (simp add: partition_at_def takeWhile_append2 dropWhile_append2)
  show "partition_at c a = (a, False, [])" using a assms by (simp add: partition_at_def takeWhile_eq_all_conv [THEN iffD2] dropWhile_eq_Nil_conv [THEN iffD2])
qed

lemma partition_at_parts:
  assumes "partition_at c s = (a, sep, b)"
  shows "c \<notin> set a" "if sep then s = a @ c # b else s = a \<and> b = []"
proof -
  show "c \<notin> set a" using assms by (auto simp: partition_at_def dest: set_takeWhileD)
  show "if sep then s = a @ c # b else s = a \<and> b = []"
  proof (cases "c \<in> set s")
    case True
    then obtain p q where "s = p @ c # q" "c \<notin> set p" by (metis split_list_first)
    then show ?thesis using assms partition_at_first(1) [of c p q] by auto
  next
    case False
    then show ?thesis using assms partition_at_first(2) [OF False] by simp
  qed
qed

lemma rsplit_once_partition:
  "rsplit_once c s = (case partition_at c (rev s) of (b, sep, a) \<Rightarrow> if sep then Some (rev a, rev b) else None)"
  by (simp add: rsplit_once_def partition_at_def)

lemma rsplit_once_last:
  assumes "c \<notin> set b"
  shows "rsplit_once c (a @ c # b) = Some (a, b)"
  using partition_at_first(1) [of c "rev b" "rev a"] assms by (simp add: rsplit_once_partition)

lemma rsplit_once_parts:
  assumes "rsplit_once c s = Some (a, b)"
  shows "c \<notin> set b" "s = a @ c # b"
proof -
  have p: "partition_at c (rev s) = (rev b, True, rev a)" using assms by (auto simp: rsplit_once_partition split: prod.splits if_splits)
  show "c \<notin> set b" using partition_at_parts(1) [OF p] by simp
  have "rev s = rev b @ c # rev a" using partition_at_parts(2) [OF p] by simp
  then have "rev (rev s) = rev (rev b @ c # rev a)" by (rule arg_cong)
  then show "s = a @ c # b" by simp
qed

lemma split_on_nonempty [simp]: "split_on c s \<noteq> []"
  by (induction s) (simp_all split: list.split)

lemma split_on_free: "c \<notin> set s \<Longrightarrow> split_on c s = [s]"
  by (induction s) auto

lemma split_on_append: "c \<notin> set a \<Longrightarrow> split_on c (a @ c # b) = a # split_on c b"
  by (induction a) auto

lemma split_join:
  "ss \<noteq> [] \<Longrightarrow> (\<And>s. s \<in> set ss \<Longrightarrow> c \<notin> set s) \<Longrightarrow> split_on c (join_with c ss) = ss"
  by (induction c ss rule: join_with.induct) (simp_all add: split_on_free split_on_append)

lemma split_on_parts: "p \<in> set (split_on c s) \<Longrightarrow> c \<notin> set p \<and> set p \<subseteq> set s"
proof (induction s arbitrary: p)
  case (Cons x xs)
  obtain q qs where q: "split_on c xs = q # qs" by (metis split_on_nonempty neq_Nil_conv)
  have q': "c \<notin> set q \<and> set q \<subseteq> set xs" "\<And>p. p \<in> set qs \<Longrightarrow> c \<notin> set p \<and> set p \<subseteq> set xs" using Cons.IH q by simp_all
  show ?case using Cons.prems q q' by (auto split: if_splits)
qed simp

definition clean :: "string \<Rightarrow> bool" where
  "clean s \<longleftrightarrow> (s \<noteq> [] \<longrightarrow> \<not> is_space (hd s) \<and> \<not> is_space (last s))"

lemma strip_clean: "clean s \<Longrightarrow> strip s = s"
proof (cases s)
  case (Cons x xs)
  assume "clean s"
  then have "dropWhile is_space s = s" "dropWhile is_space (rev s) = rev s"
    using Cons by (simp_all add: clean_def dropWhile_eq_self_iff hd_append hd_rev split: if_splits)
  then show ?thesis by (simp add: strip_def)
qed (simp add: strip_def)

lemma clean_strip: "clean (strip s)"
proof -
  let ?a = "dropWhile is_space s" and ?b = "dropWhile is_space (rev (dropWhile is_space s))"
  have "\<not> is_space (last (rev ?b))" if "?b \<noteq> []" using hd_dropWhile [OF that] by (simp add: last_rev)
  moreover have "\<not> is_space (hd (rev ?b))" if b: "?b \<noteq> []"
  proof -
    obtain p where p: "rev ?a = p @ ?b" by (metis takeWhile_dropWhile_id)
    then have a: "?a = rev ?b @ rev p" by (metis rev_append rev_rev_ident)
    then have "?a \<noteq> []" using b by (metis append_is_Nil_conv rev_is_Nil_conv)
    then have "\<not> is_space (hd ?a)" by (rule hd_dropWhile)
    then show ?thesis using a b by (metis hd_append2 rev_is_Nil_conv)
  qed
  ultimately show ?thesis by (auto simp: clean_def strip_def)
qed

lemma set_strip: "set (strip s) \<subseteq> set s"
  unfolding strip_def by (auto dest!: set_dropWhileD)

section \<open>Numbers\<close>

lemma digit_value_char: "n < 10 \<Longrightarrow> digit_value (char_of (48 + n)) = Some n"
  by (simp add: digit_value_def of_char_of)

lemma read_digits_append:
  "read_digits acc s = Some k \<Longrightarrow> n < 10 \<Longrightarrow> read_digits acc (s @ [char_of (48 + n)]) = Some (k * 10 + n)"
proof (induction acc s rule: read_digits.induct)
  case (1 acc)
  then show ?case by (simp add: digit_value_char)
next
  case (2 acc c cs)
  show ?case
  proof (cases "digit_value c")
    case (Some d)
    then show ?thesis using 2 by simp
  next
    case None
    then obtain e es where e: "c = CHR ''_''" "cs = e # es" using 2 by (auto split: if_splits list.splits)
    then obtain d where "digit_value e = Some d" using 2 None by (auto split: option.splits)
    then show ?thesis using 2 None e by simp
  qed
qed


lemma nat_str_read: "\<exists>c cs d. nat_str n = c # cs \<and> digit_value c = Some d \<and> read_digits d cs = Some n"
proof (induction n rule: nat_str.induct)
  case (1 n)
  show ?case
  proof (cases "n < 10")
    case True
    then show ?thesis by (simp add: nat_str.simps [of n] digit_value_char)
  next
    case False
    then obtain c cs d where "nat_str (n div 10) = c # cs" "digit_value c = Some d" "read_digits d cs = Some (n div 10)" using 1 by blast
    then show ?thesis using False read_digits_append [of d cs "n div 10" "n mod 10"] by (simp add: nat_str.simps [of n])
  qed
qed

lemma nat_str_digits: "x \<in> set (nat_str n) \<Longrightarrow> \<exists>k < 10. of_char x = (48 + k :: nat)"
proof (induction n rule: nat_str.induct)
  case (1 n)
  have of: "of_char (char_of (48 + m mod 10) :: char) = (48 + m mod 10 :: nat)" for m :: nat
    unfolding of_char_of by (rule mod_less) (simp add: add.commute less_le_trans [of "m mod 10" 10])
  show ?case
  proof (cases "x = char_of (48 + n mod 10)")
    case True
    then show ?thesis using of [of n] by (intro exI [of _ "n mod 10"]) simp
  next
    case False
    then show ?thesis using 1 by (cases "n < 10") (simp_all add: nat_str.simps [of n])
  qed
qed

lemma digit_plain:
  assumes "of_char x = (48 + k :: nat)" "k < 10"
  shows "\<not> is_space x \<and> x \<notin> {CHR ''-'', CHR ''+'', CHR ''/'', CHR '':'', CHR '','', CHR ''=''}"
  using assms by (auto simp: is_space_def)

lemma int_str_plain: "x \<in> set (int_str i) \<Longrightarrow> \<not> is_space x \<and> x \<notin> {CHR ''/'', CHR '':'', CHR '','', CHR ''=''}"
proof -
  assume "x \<in> set (int_str i)"
  then consider "x = CHR ''-''" | n where "x \<in> set (nat_str n)" by (auto simp: int_str_def split: if_splits)
  then show ?thesis
  proof cases
    case 1
    then show ?thesis by (simp add: is_space_def)
  next
    case 2
    then obtain k where "k < 10" "of_char x = (48 + k :: nat)" using nat_str_digits by blast
    then show ?thesis using digit_plain [of x k] by simp
  qed
qed

lemma int_str_nonempty [simp]: "int_str i \<noteq> []"
  using nat_str_read [of "nat i"] by (auto simp: int_str_def)

lemma int_roundtrip: "py_int (int_str i) = Some i"
proof -
  have "clean (int_str i)" using int_str_plain [OF hd_in_set [OF int_str_nonempty]] int_str_plain [OF last_in_set [OF int_str_nonempty]] by (simp add: clean_def)
  then have s: "strip (int_str i) = int_str i" by (rule strip_clean)
  show ?thesis
  proof (cases "i < 0")
    case True
    obtain c cs d where "nat_str (nat (- i)) = c # cs" "digit_value c = Some d" "read_digits d cs = Some (nat (- i))" using nat_str_read by blast
    then show ?thesis using True s by (simp add: py_int_def int_str_def read_nat_def)
  next
    case False
    obtain c cs d where c: "nat_str (nat i) = c # cs" "digit_value c = Some d" "read_digits d cs = Some (nat i)" using nat_str_read by blast
    obtain k where "k < 10" "of_char c = (48 + k :: nat)" using nat_str_digits [of c "nat i"] c(1) by auto
    then have "c \<noteq> CHR ''-''" "c \<noteq> CHR ''+''" using digit_plain [of c k] by simp_all
    then show ?thesis using False s c by (simp add: py_int_def int_str_def read_nat_def)
  qed
qed

section \<open>Addresses\<close>

text \<open>What \<open>__post_init__\<close> lets through, and what reading an address adds to it.\<close>

definition address_valid :: "AddressConfig \<Rightarrow> bool" where
  "address_valid a \<longleftrightarrow> (ac_port a \<noteq> None) = with_port (ac_type a) \<and> (ac_path a \<noteq> None \<longrightarrow> is_ws (ac_type a))"

definition address_readable :: "AddressConfig \<Rightarrow> bool" where
  "address_readable a \<longleftrightarrow> address_valid a \<and> (with_port (ac_type a) \<longrightarrow> CHR ''/'' \<notin> set (ac_host a)) \<and>
     (is_ws (ac_type a) \<longrightarrow> (\<exists>p. ac_path a = Some (CHR ''/'' # p)))"

lemma socket_type_roundtrip: "socket_type_of (socket_value t) = Some t"
  by (cases t) (simp_all add: socket_type_of_def)

lemma socket_value_colon: "CHR '':'' \<notin> set (socket_value t)"
  by (cases t) simp_all

lemma address_roundtrip:
  assumes "address_readable a"
  shows "address_from_string (address_repr a) = Inr a"
proof (cases "with_port (ac_type a)")
  case False
  then have "address_repr a = socket_value (ac_type a) @ ''://'' @ ac_host a" by (simp add: address_repr_def Let_def)
  then have "split_once ''://'' (address_repr a) = Some (socket_value (ac_type a), ac_host a)" using split_once_prefix [OF socket_value_colon] by simp
  moreover have "\<not> is_ws (ac_type a)" using False by (auto simp: with_port_def is_ws_def)
  ultimately show ?thesis using False assms
    by (cases a) (auto simp: address_from_string_def socket_type_roundtrip address_new_def address_readable_def address_valid_def)
next
  case True
  obtain port where port: "ac_port a = Some port" using True assms by (auto simp: address_readable_def address_valid_def)
  let ?auth = "ac_host a @ CHR '':'' # int_str port"
  obtain path where path: "ac_path a = (if is_ws (ac_type a) then Some path else None)" "if is_ws (ac_type a) then \<exists>p. path = CHR ''/'' # p else path = []"
    using assms by (cases "ac_path a") (auto simp: address_readable_def address_valid_def split: if_splits)
  have "address_repr a = socket_value (ac_type a) @ ''://'' @ (?auth @ path)"
    using True port path by (simp add: address_repr_def split: if_splits)
  then have sp: "split_once ''://'' (address_repr a) = Some (socket_value (ac_type a), ?auth @ path)" using split_once_prefix [OF socket_value_colon] by simp
  have "CHR ''/'' \<notin> set (int_str port)" using int_str_plain by blast
  then have slash: "CHR ''/'' \<notin> set ?auth" using True assms by (simp add: address_readable_def)
  have "\<exists>sep rest. partition_at (CHR ''/'') (?auth @ path) = (?auth, sep, rest) \<and> (is_ws (ac_type a) \<longrightarrow> CHR ''/'' # rest = path)"
  proof (cases "is_ws (ac_type a)")
    case ws: True
    then obtain p where "path = CHR ''/'' # p" using path(2) by auto
    then show ?thesis using partition_at_first(1) [OF slash, of p] by auto
  next
    case False
    then show ?thesis using partition_at_first(2) [OF slash] path(2) by auto
  qed
  then obtain sep rest where pt: "partition_at (CHR ''/'') (?auth @ path) = (?auth, sep, rest)" "is_ws (ac_type a) \<longrightarrow> CHR ''/'' # rest = path" by blast
  have "CHR '':'' \<notin> set (int_str port)" using int_str_plain by blast
  then have rs: "rsplit_once (CHR '':'') ?auth = Some (ac_host a, int_str port)" by (rule rsplit_once_last)
  have "address_from_string (address_repr a) = address_new (ac_type a) (ac_host a) (Some port) (if is_ws (ac_type a) then Some (CHR ''/'' # rest) else None)"
    unfolding address_from_string_def sp option.case prod.case socket_type_roundtrip pt(1) rs int_roundtrip using True by simp
  also have "\<dots> = Inr a" using True port path(1) pt(2) by (cases a) (auto simp: address_new_def)
  finally show ?thesis .
qed

lemma address_new_valid: "address_new t host port path = Inr a \<Longrightarrow> address_valid a \<and> ac_type a = t \<and> ac_host a = host \<and> ac_path a = path"
  by (auto simp: address_new_def address_valid_def split: if_splits)

lemma address_read_readable:
  assumes "address_from_string s = Inr a"
  shows "address_readable a"
proof -
  obtain st rest t where st: "split_once ''://'' s = Some (st, rest)" "socket_type_of st = Some t"
    using assms by (auto simp: address_from_string_def split: option.splits)
  show ?thesis
  proof (cases "with_port t")
    case False
    then have "address_new t rest None None = Inr a" using assms st by (simp add: address_from_string_def)
    moreover have "\<not> is_ws t" using False by (auto simp: with_port_def is_ws_def)
    ultimately show ?thesis using False address_new_valid [of t rest None None a] by (auto simp: address_readable_def)
  next
    case True
    obtain auth sep p where p: "partition_at (CHR ''/'') rest = (auth, sep, p)" by (metis prod_cases3)
    obtain host ps port where hp: "rsplit_once (CHR '':'') auth = Some (host, ps)" "py_int ps = Some port"
      "address_new t host (Some port) (if is_ws t then Some (CHR ''/'' # p) else None) = Inr a"
      using assms st True p by (auto simp: address_from_string_def split: option.splits)
    have "CHR ''/'' \<notin> set host" using partition_at_parts(1) [OF p] rsplit_once_parts(2) [OF hp(1)] by auto
    then show ?thesis using address_new_valid [OF hp(3)] by (auto simp: address_readable_def)
  qed
qed

section \<open>Worker names and capabilities\<close>

definition names_ok :: "char set \<Rightarrow> string list \<Rightarrow> bool" where
  "names_ok bad names \<longleftrightarrow> (\<forall>n \<in> set names. clean n \<and> set n \<inter> bad = {})"

lemma worker_names_read: "names_ok {CHR '',''} (worker_names_from_string s)"
  using set_strip split_on_parts by (fastforce simp: names_ok_def worker_names_from_string_def clean_strip)

lemma worker_names_roundtrip:
  assumes "names_ok {CHR '',''} names" "names \<noteq> []" "names \<noteq> [[]]"
  shows "worker_names_from_string (worker_names_str names) = names"
proof -
  have "join_with (CHR '','') names \<noteq> []" using assms(2,3) by (cases "(CHR '','', names)" rule: join_with.cases) auto
  moreover have "split_on (CHR '','') (join_with (CHR '','') names) = names" using assms(1,2) by (intro split_join) (auto simp: names_ok_def)
  moreover have "map strip names = names" using assms(1) by (auto simp: names_ok_def strip_clean intro: map_idI)
  ultimately show ?thesis using assms(2) by (simp add: worker_names_from_string_def worker_names_str_def)
qed

definition capabilities_ok :: "capabilities \<Rightarrow> bool" where
  "capabilities_ok c \<longleftrightarrow> dict_ok c \<and> [] \<notin> set (dict_keys c) \<and> names_ok {CHR '','', CHR ''=''} (dict_keys c)"

lemma capabilities_ok_set:
  "capabilities_ok d \<Longrightarrow> name \<noteq> [] \<Longrightarrow> clean name \<Longrightarrow> CHR '','' \<notin> set name \<Longrightarrow> CHR ''='' \<notin> set name \<Longrightarrow> capabilities_ok (dict_set name v d)"
  by (auto simp: capabilities_ok_def names_ok_def set_dict_keys)

lemma read_capabilities_ok:
  "read_capabilities items d = Inr c \<Longrightarrow> capabilities_ok d \<Longrightarrow> (\<And>i. i \<in> set items \<Longrightarrow> CHR '','' \<notin> set i) \<Longrightarrow> capabilities_ok c"
proof (induction items d rule: read_capabilities.induct)
  case (2 item items d)
  obtain raw sep v where p: "partition_at (CHR ''='') item = (raw, sep, v)" by (metis prod_cases3)
  have raw: "CHR ''='' \<notin> set raw" "set raw \<subseteq> set item" using partition_at_parts [OF p] by (auto split: if_splits)
  then have plain: "CHR ''='' \<notin> set (strip raw)" "CHR '','' \<notin> set (strip raw)" using set_strip [of raw] 2(5) [of item] by auto
  have name: "strip raw \<noteq> []" using 2(3) p by (auto split: if_splits)
  have set: "capabilities_ok (dict_set (strip raw) n d)" for n by (rule capabilities_ok_set [OF 2(4) name clean_strip plain(2,1)])
  show ?case
  proof (cases sep)
    case False
    then show ?thesis using 2(1) [OF p [symmetric] refl refl name] 2(3,5) set name p by (simp add: Let_def)
  next
    case True
    then obtain n where "py_int v = Some n" using 2(3) name p by (auto simp: Let_def split: option.splits)
    then show ?thesis using 2(2) [OF p [symmetric] refl refl name, of n] True 2(3,5) set name p by (simp add: Let_def)
  qed
qed simp

lemma capabilities_read_ok:
  assumes "capabilities_from_string s = Inr c"
  shows "capabilities_ok c"
proof (cases "s = []")
  case True
  then show ?thesis using assms by (auto simp: capabilities_from_string_def capabilities_ok_def names_ok_def dict_ok_def dict_keys_def)
next
  case False
  have "capabilities_ok []" by (simp add: capabilities_ok_def names_ok_def dict_ok_def dict_keys_def)
  then show ?thesis using read_capabilities_ok [of "split_on (CHR '','') s" "[]" c] assms False split_on_parts
    by (simp add: capabilities_from_string_def)
qed

lemma capability_text_plain: "CHR '','' \<notin> set (fst nv) \<Longrightarrow> CHR '','' \<notin> set (capability_text nv)"
  using int_str_plain [of "CHR '',''" "snd nv"] by (auto simp: capability_text_def)

lemma read_formatted:
  assumes "capabilities_ok c" "\<And>n. n \<in> set (dict_keys c) \<Longrightarrow> \<not> dict_has d n"
  shows "read_capabilities (map capability_text c) d = Inr (d @ c)"
  using assms
proof (induction c arbitrary: d)
  case (Cons nv c)
  obtain n v where nv: "nv = (n, v)" by force
  have n: "n \<noteq> []" "CHR ''='' \<notin> set n" "strip n = n" and d: "\<not> dict_has d n"
    using Cons.prems nv by (auto simp: capabilities_ok_def names_ok_def dict_keys_def strip_clean)
  have c: "capabilities_ok c" "n \<notin> set (dict_keys c)"
    using Cons.prems(1) nv by (auto simp: capabilities_ok_def names_ok_def dict_keys_def dict_ok_def)
  have rest: "read_capabilities (map capability_text c) (d @ [(n, v)]) = Inr (d @ (n, v) # c)"
    using Cons.IH [OF c(1), of "d @ [(n, v)]"] Cons.prems(2) c(2) nv by (auto simp: dict_has_def dict_keys_def)
  show ?case
  proof (cases "v = -1")
    case True
    then show ?thesis using n d rest partition_at_first(2) [OF n(2)] by (simp add: nv capability_text_def [of "(n, -1)"] dict_set_absent)
  next
    case False
    then show ?thesis using n d rest partition_at_first(1) [OF n(2), of "int_str v"] by (simp add: nv capability_text_def [of "(n, v)"] dict_set_absent int_roundtrip)
  qed
qed simp

lemma capabilities_text_roundtrip:
  assumes "capabilities_ok c"
  shows "capabilities_from_string (format_capabilities c) = Inr c"
proof (cases c)
  case Nil
  then show ?thesis by (simp add: capabilities_from_string_def format_capabilities_def)
next
  case (Cons nv c')
  have "split_on (CHR '','') (format_capabilities c) = map capability_text c"
    unfolding format_capabilities_def using assms Cons
    by (intro split_join) (auto simp: capabilities_ok_def names_ok_def dict_keys_def dest: capability_text_plain [rotated])
  moreover have "capability_text nv \<noteq> []" using assms Cons by (cases nv) (auto simp: capability_text_def capabilities_ok_def dict_keys_def)
  then have "format_capabilities c \<noteq> []"
    using Cons by (cases c') (simp_all add: format_capabilities_def)
  ultimately show ?thesis using read_formatted [OF assms, of "[]"] by (simp add: capabilities_from_string_def dict_has_def)
qed

text \<open>A worker without capabilities prints a text that reads as a capability.\<close>

lemma empty_capabilities_read: "capabilities_from_string (capabilities_str []) = Inr [(''<empty>'', -1)]"
  by (simp add: capabilities_from_string_def capabilities_str_def partition_at_def strip_def is_space_def dict_set_def)

section \<open>Policies\<close>

definition rule_named :: "WaterfallRule \<Rightarrow> bool" where
  "rule_named r \<longleftrightarrow> rule_manager_id r \<noteq> []"

lemma read_rule_named: "read_rule parts = Inr r \<Longrightarrow> rule_named r"
  by (auto simp: read_rule_def rule_named_def split: list.splits option.splits if_splits)

lemma read_rules_named: "read_rules lines = Inr rs \<Longrightarrow> r \<in> set rs \<Longrightarrow> rule_named r"
proof (induction lines arbitrary: rs)
  case (Cons raw lines)
  show ?case
  proof (cases "strip (fst (partition_at (CHR ''#'') raw)) = []")
    case True
    then show ?thesis using Cons by simp
  next
    case False
    then obtain q qs where "read_rule (map strip (split_on (CHR '','') (strip (fst (partition_at (CHR ''#'') raw))))) = Inr q"
      "read_rules lines = Inr qs" "rs = q # qs"
      using Cons.prems(1) by (auto simp: Let_def map_sum_def split: sum.splits)
    then show ?thesis using Cons.prems(2) Cons.IH [of qs] read_rule_named by auto
  qed
qed simp

lemma rules_read:
  assumes "parse_waterfall_rules s = Inr rules"
  shows "rules \<noteq> [] \<and> distinct (map rule_manager_id rules) \<and> (\<forall>r \<in> set rules. rule_named r)"
  using assms read_rules_named by (auto simp: parse_waterfall_rules_def split: sum.splits if_splits)

lemma read_rule_error: "read_rule parts = Inl e \<Longrightarrow> e = ValueError"
  by (auto simp: read_rule_def split: list.splits option.splits if_splits)

lemma read_rules_error: "read_rules lines = Inl e \<Longrightarrow> e = ValueError"
  by (induction lines) (auto simp: Let_def map_sum_def read_rule_error split: sum.splits if_splits)

lemma simple_policy_error:
  assumes "simple_policy content = Inl e"
  shows "e = ValueError"
proof (cases "set (dict_keys (policy_items content)) = {''allocate'', ''scaling''}")
  case True
  then have "dict_has (policy_items content) ''allocate''" "dict_has (policy_items content) ''scaling''" unfolding set_dict_keys by blast+
  then obtain a b where "dict_get (policy_items content) ''allocate'' = Some a" "dict_get (policy_items content) ''scaling'' = Some b"
    by (auto simp: dict_has_iff)
  then show ?thesis using assms True by (auto simp: simple_policy_def split: option.splits)
qed (use assms in \<open>simp add: simple_policy_def\<close>)

lemma create_policy_error:
  assumes "create_policy engine content = Inl e"
  shows "e = ValueError"
proof -
  have "parse_waterfall_rules content = Inl e \<Longrightarrow> e = ValueError"
    using read_rules_error by (auto simp: parse_waterfall_rules_def split: sum.splits if_splits)
  then show ?thesis using assms simple_policy_error by (auto simp: create_policy_def map_sum_def split: if_splits sum.splits)
qed

section \<open>Texts that are accepted and refused\<close>

text \<open>A text is refused with a \<open>ValueError\<close>, or what it gives is well formed.\<close>

definition checked :: "('a \<Rightarrow> bool) \<Rightarrow> py_exn + 'a \<Rightarrow> bool" where
  "checked ok r \<longleftrightarrow> (case r of Inl e \<Rightarrow> e = ValueError | Inr x \<Rightarrow> ok x)"

lemma address_error: "address_from_string s = Inl e \<Longrightarrow> e = ValueError"
  by (auto simp: address_from_string_def address_new_def split: option.splits prod.splits if_splits)

lemma read_capabilities_error: "read_capabilities items d = Inl e \<Longrightarrow> e = ValueError"
  by (induction items d rule: read_capabilities.induct) (auto simp: Let_def split: option.splits prod.splits if_splits)

lemma capabilities_error: "capabilities_from_string s = Inl e \<Longrightarrow> e = ValueError"
  by (auto simp: capabilities_from_string_def read_capabilities_error split: if_splits)

text \<open>A policy that is ready to use: no worker yet, and the rules of a waterfall in the order of their priorities, one for each manager.\<close>

definition rules_ok :: "WaterfallRule list \<Rightarrow> bool" where
  "rules_ok rules \<longleftrightarrow> rules \<noteq> [] \<and> distinct (map rule_manager_id rules) \<and> sorted (map rule_priority rules) \<and> (\<forall>r \<in> set rules. rule_named r)"

definition policy_ready :: "allocation \<times> scaling_policy \<Rightarrow> bool" where
  "policy_ready p \<longleftrightarrow> policy_inv (fst p) \<and> policy_members (fst p) = {} \<and>
     (case snd p of WaterfallScaling rules \<Rightarrow> rules_ok rules | _ \<Rightarrow> True)"

lemma sorted_rules_ok:
  assumes "parse_waterfall_rules s = Inr rules"
  shows "rules_ok (waterfall_init rules)"
proof -
  have "set (waterfall_init rules) = set rules" "distinct (waterfall_init rules) = distinct rules" by (simp_all add: waterfall_init_def)
  then show ?thesis using rules_read [OF assms] by (auto simp: rules_ok_def waterfall_init_def distinct_map dest: arg_cong [of _ "[]" length])
qed

lemma created_policy_ready:
  assumes "create_policy engine content = Inr p"
  shows "policy_ready p"
proof -
  have scaling: "create_scaling_policy y \<noteq> WaterfallScaling rules" for y rules by (cases y) (simp_all add: create_scaling_policy_def)
  consider x y where "p = (create_allocate_policy x, create_scaling_policy y)"
    | rules where "parse_waterfall_rules content = Inr rules" "p = (create_allocate_policy CAPABILITY, WaterfallScaling (waterfall_init rules))"
    using assms by (auto simp: create_policy_def simple_policy_def Let_def map_sum_def split: if_splits option.splits sum.splits)
  then show ?thesis
  proof cases
    case 1
    then show ?thesis using scaling [of y] create_allocate_policy_inv [of x] by (auto simp: policy_ready_def split: scaling_policy.split)
  next
    case 2
    then show ?thesis using sorted_rules_ok create_allocate_policy_inv by (auto simp: policy_ready_def)
  qed
qed

end
