(* ===== verification/ManagerScenarios.thy ===== *)
theory ManagerScenarios
  imports ProvisionerRuns ConfigRoundtrip
begin

text \<open>
  Services that answer, and one that fails once, for the witnesses on worker managers.
\<close>

definition native_demo :: native_env where
  "native_demo = \<lparr>ne_prefix = ''NAT'', ne_uuid = (\<lambda>_. ''u''), ne_start = (\<lambda>_. None), ne_kill = (\<lambda>_ _. None)\<rparr>"

definition ecs_demo :: ecs_env where
  "ecs_demo = \<lparr>ee_run_task = (\<lambda>_. Inr ([], [''task''])), ee_stop_task = (\<lambda>_. Inr [])\<rparr>"

text \<open>The first call fails, all others succeed.\<close>

definition ecs_hiccup :: ecs_env where
  "ecs_hiccup = \<lparr>ee_run_task = (\<lambda>n. if n = 0 then Inl RuntimeError else Inr ([], [''task''])), ee_stop_task = (\<lambda>_. Inr [])\<rparr>"

definition oci_demo :: oci_env where
  "oci_demo = \<lparr>oe_create = (\<lambda>_. (Answered, ''i'')), oe_get = (\<lambda>_. (Answered, ACTIVE)), oe_delete = (\<lambda>_. Answered)\<rparr>"

definition orb_demo :: orb_env where
  "orb_demo = \<lparr>be_create = (\<lambda>_ _. Inr (Some ''r'')), be_status = (\<lambda>count _. Inr (Some (''complete'', replicate count ''m''))), be_return = (\<lambda>_. None)\<rparr>"

definition native_none :: native_pool where
  "native_none = \<lparr>nw_workers = [], nw_created = 0, nw_kills = 0, nw_signalled = []\<rparr>"

definition ecs_none :: ecs_pool where
  "ecs_none = \<lparr>ep_units = [], ep_runs = 0, ep_stops = 0\<rparr>"

definition oci_none :: oci_pool where
  "oci_none = \<lparr>op_instances = [], op_existing = [], op_creates = 0, op_gets = 0, op_deletes = 0\<rparr>"

definition orb_none :: orb_pool where
  "orb_none = \<lparr>bp_units = [], bp_creates = 0, bp_polls = 0, bp_returns = 0\<rparr>"

lemmas empty_pools = native_active_def ecs_active_def oci_active_def orb_active_def native_none_def ecs_none_def oci_none_def orb_none_def

text \<open>A manager for at most five workers in units of two, with a cooldown of ten seconds.\<close>

definition coordinator_demo :: coordinator where
  "coordinator_demo = (case coordinator_new (max_units 5 2) 10 of Inr co \<Rightarrow> co | Inl _ \<Rightarrow> undefined)"

lemma coordinator_demo_new: "coordinator_new (max_units 5 2) 10 = Inr coordinator_demo"
  by (simp add: coordinator_demo_def coordinator_new_def cooldown_new_def)

lemma coordinator_demo_facts: "\<not> co_stop coordinator_demo" "co_max coordinator_demo = 3"
  by (simp_all add: coordinator_demo_def coordinator_new_def cooldown_new_def max_units_def ceil_div_def)

definition four_workers :: "DesiredTaskConcurrencyRequest list" where
  "four_workers = [\<lparr>taskConcurrency = 4, request_capabilities = []\<rparr>]"

lemma four_workers_wanted: "co_desired (set_desired_task_concurrency 2 [] four_workers coordinator_demo) = 2"
  by code_simp

lemma demo_services: "native_up native_demo" "ecs_up ecs_demo" "oci_up oci_demo" "orb_sdk_ok orb_demo" "orb_up orb_demo"
  by (simp_all add: native_up_def native_demo_def ecs_up_def ecs_demo_def oci_up_def oci_demo_def orb_sdk_ok_def orb_up_def orb_demo_def)

text \<open>A native worker that has ended, and an OCI service that deletes nothing.\<close>

definition dead_demo :: native_env where
  "dead_demo = \<lparr>ne_prefix = ''NAT'', ne_uuid = (\<lambda>_. ''u''), ne_start = (\<lambda>_. None), ne_kill = (\<lambda>_ w. if w = ''dead'' then Some ProcessLookupError else None)\<rparr>"

definition one_dead :: native_pool where
  "one_dead = \<lparr>nw_workers = [''dead'', ''alive''], nw_created = 2, nw_kills = 0, nw_signalled = []\<rparr>"

definition oci_stuck :: oci_env where
  "oci_stuck = \<lparr>oe_create = (\<lambda>_. (Answered, ''i'')), oe_get = (\<lambda>_. (Answered, ACTIVE)), oe_delete = (\<lambda>_. ServiceError)\<rparr>"

definition address_demo :: AddressConfig where
  "address_demo = \<lparr>ac_type = ST_ws, ac_host = ''h'', ac_port = Some 8, ac_path = Some ''/p''\<rparr>"

definition capabilities_demo :: capabilities where
  "capabilities_demo = [(''gpu'', 2), (''linux'', -1)]"

text \<open>One task, no worker yet, and what the vanilla policy asks of a manager without a bound whose units hold two workers.\<close>

definition busy_snapshot :: "unit information_snapshot" where
  "busy_snapshot = \<lparr>snap_tasks = [(''t'', \<lparr>taskId = ''t'', task_source = ''Client|a'', task_metadata = [], funcObjectId = ''f'', functionArgs = [], task_capabilities = []\<rparr>)],
     snap_workers = []\<rparr>"

definition unbounded_commands :: "DesiredTaskConcurrencyRequest list list" where
  "unbounded_commands = fst (get_scaling_commands busy_snapshot (runner_heartbeat (max_units (-1) 2) 2 [] ''m'') [] [] (VanillaScaling []))"

end
