(* ===== verification/ManagerProperties.thy ===== *)
theory ManagerProperties
  imports ManagerScenarios
begin

text \<open>The properties of the worker managers that start and stop workers, and of the configuration texts.\<close>

section \<open>Worker managers and their units\<close>





text \<open>A failed start is not tried again: when the first \<open>run_task\<close> of an ECS manager fails, then however
  often and however long the scheduler asks for the same number of workers, no task is started, although every
  later call would succeed.\<close>

theorem failed_start_not_retried:
  assumes "coordinator_new m cooldown = Inr co" "0 < count" "m = -1 \<or> 0 < m" "ecs_active s = 0" "ee_run_task env (ep_runs s) = Inl e"
  shows "ecs_active (snd (ecs_run env (map (\<lambda>t. (count, t)) clock) (co, s))) = 0"
  unfolding ecs_run_def
proof (rule failed_start_stays [where active = ecs_active, OF assms(1-3) _ assms(4)])
  fix n :: nat
  assume "0 < n"
  then obtain k where n: "[0..<n] = 0 # k" by (cases n) (simp_all add: upt_rec)
  have "ecs_start_unit env s = Raise e (s\<lparr>ep_runs := ep_runs s + 1\<rparr>)" using assms(5) by (simp add: ecs_start_unit_def Let_def)
  then show "\<exists>e s'. ecs_start_units env n s = Raise e s' \<and> ecs_active s' = ecs_active s" by (simp add: ecs_start_units_def n seq_run ecs_active_def)
qed

theorem failed_start_not_retried_witness:
  "ecs_active (snd (ecs_run ecs_hiccup (map (\<lambda>t. (2, t)) [0, 10, 20]) (coordinator_demo, ecs_none))) = 0 \<and>
    ee_run_task ecs_hiccup 1 = Inr ([], [''task''])"
proof -
  have m: "max_units 5 2 = -1 \<or> 0 < max_units 5 2" by code_simp
  show ?thesis
    using failed_start_not_retried [OF coordinator_demo_new _ m, where count = 2 and s = ecs_none and env = ecs_hiccup and clock = "[0, 10, 20]"]
    by (simp add: empty_pools ecs_hiccup_def)
qed

text \<open>A manager without a bound (\<open>-1\<close>) gets no workers when a unit holds several of them, and none at all under the
  waterfall policy: the heartbeat multiplies \<open>-1\<close> by the size of a unit, the policies read the
  product as a negative capacity, and every request while there are tasks asks for zero workers.\<close>

theorem unlimited_manager_starved:
  assumes "1 < per_unit \<or> per_unit = 1 \<and> sc = WaterfallScaling rules" "snap_tasks snap \<noteq> []"
    and "c \<in> set (fst (get_scaling_commands snap (runner_heartbeat (max_units (-1) per_unit) per_unit caps m) managed snaps sc))" "r \<in> set c"
  shows "taskConcurrency r = 0"
  by (rule starved [OF _ _ assms(2-4)]) (use assms(1) in \<open>auto simp: runner_heartbeat_def max_units_def\<close>)

theorem unlimited_manager_starved_witness:
  "hd (hd unbounded_commands) \<in> set (hd unbounded_commands) \<and> taskConcurrency (hd (hd unbounded_commands)) = 0"
proof -
  have c: "hd unbounded_commands \<in> set unbounded_commands" "hd (hd unbounded_commands) \<in> set (hd unbounded_commands)" by code_simp+
  have "snap_tasks busy_snapshot \<noteq> []" by (simp add: busy_snapshot_def)
  then show ?thesis using unlimited_manager_starved [OF _ _ c(1) [unfolded unbounded_commands_def] c(2) [unfolded unbounded_commands_def]] c(2)
    by (simp add: unbounded_commands_def)
qed

text \<open>A unit that cannot be stopped is handled badly: a native worker at the head of the list that can no longer be
  signalled, since its process has ended, blocks all stops, and no worker is ever taken off the list again; an OCI instance whose
  deletion fails is forgotten although it still exists.\<close>

theorem stop_faults:
  assumes "\<And>k. ne_kill ne k w \<noteq> None" "nw_workers n = w # ws" "\<And>k. oe_delete ie k \<noteq> Answered"
  shows "(\<exists>vs. nw_workers (snd (native_run ne cmds (co, n))) = w # ws @ vs) \<and>
    (\<exists>i'. oci_stop_units ie k i = Ret () i' \<and> op_instances i' = drop k (op_instances i) \<and> op_existing i' = op_existing i)"
  using dead_worker_stays [OF assms(1,2), of cmds co "fst (native_run ne cmds (co, n))" "snd (native_run ne cmds (co, n))"]
    oci_instances_lost [OF assms(3), of k i] by (simp add: native_run_def)

theorem stop_faults_witness:
  "\<exists>vs. nw_workers (snd (native_run dead_demo [(2, 0), (0, 1), (0, 50)] (coordinator_demo, one_dead))) = [''dead'', ''alive''] @ vs"
  using stop_faults [of dead_demo "''dead''" one_dead "[''alive'']" oci_stuck "[(2, 0), (0, 1), (0, 50)]" coordinator_demo 0 oci_none]
  by (simp add: dead_demo_def one_dead_def oci_stuck_def)

section \<open>Configuration\<close>



text \<open>C33: Every configuration text is either refused with a \<open>ValueError\<close> or gives a well-formed value: an address with a port exactly when
  its protocol has ports and a path exactly for WebSockets; capabilities with distinct, non-empty, trimmed names; a policy
  whose allocation starts consistent and empty and whose waterfall rules are sorted, at least one, and one for each manager.\<close>

theorem configuration_well_formed:
  "checked address_readable (address_from_string s) \<and> checked capabilities_ok (capabilities_from_string s) \<and>
   checked policy_ready (create_policy engine s)"
  using address_error address_read_readable capabilities_error capabilities_read_ok create_policy_error created_policy_ready
  by (auto simp: checked_def split: sum.split)

end
