(* ===== verification/JobPayloads.thy ===== *)
theory JobPayloads
  imports ConfigTypes Provisioners AdapterTasks
begin

text \<open>
  How the calls of tasks get to jobs of AWS Batch and to OCI container instances, and how the results get back
  (\<open>src/src/scaler/worker_manager_adapter\<close>: \<open>aws_hpc/task_manager.py\<close>, \<open>aws_hpc/utility/batch_job_runner.py\<close>, \<open>oci_hpc/execution_backend.py\<close>,
  \<open>oci_hpc/utility/container_instance_job_runner.py\<close>). The bucket is a dictionary from keys to bytes whose service answers; what fails there is an input of the monitors of
  \<open>Backends\<close>. \<open>cloudpickle\<close> and \<open>gzip\<close> are fields of the environment, and so is what a runner does with a payload: to load it, to
  call the function on the arguments and to pickle the result (\<open>he_run\<close>).
\<close>

section \<open>Base64\<close>

definition b64_digit :: "nat \<Rightarrow> char" where
  "b64_digit k = char_of (if k < 26 then 65 + k else if k < 52 then 71 + k else if k < 62 then k - 4 else if k = 62 then 43 else (47 :: nat))"

definition b64_value :: "char \<Rightarrow> nat option" where
  "b64_value c =
     (let n = of_char c
      in if 65 \<le> n \<and> n \<le> 90 then Some (n - 65) else if 97 \<le> n \<and> n \<le> 122 then Some (n - 71) else if 48 \<le> n \<and> n \<le> 57 then Some (n + 4)
         else if n = 43 then Some 62 else if n = 47 then Some 63 else None)"

abbreviation byte :: "char \<Rightarrow> nat" where
  "byte c \<equiv> of_char c"

fun b64encode :: "bytes \<Rightarrow> string" where
  "b64encode [] = []"
| "b64encode [a] = [b64_digit (byte a div 4), b64_digit (byte a mod 4 * 16), CHR ''='', CHR ''='']"
| "b64encode [a, b] = [b64_digit (byte a div 4), b64_digit (byte a mod 4 * 16 + byte b div 16), b64_digit (byte b mod 16 * 4), CHR ''='']"
| "b64encode (a # b # c # cs) =
     [b64_digit (byte a div 4), b64_digit (byte a mod 4 * 16 + byte b div 16), b64_digit (byte b mod 16 * 4 + byte c div 64), b64_digit (byte c mod 64)] @ b64encode cs"

text \<open>
  \<open>binascii.Error\<close> is a \<open>ValueError\<close>. Characters outside the alphabet, which Python drops, and padding in the middle are not
  modelled: they are errors here.
\<close>

fun b64decode :: "string \<Rightarrow> py_exn + bytes" where
  "b64decode [] = Inr []"
| "b64decode (w # x # y # z # cs) =
     (case (b64_value w, b64_value x) of
        (Some i, Some j) \<Rightarrow>
          if y = CHR ''='' \<and> z = CHR ''='' \<and> cs = [] then Inr [char_of (i * 4 + j div 16)]
          else (case b64_value y of
                  None \<Rightarrow> Inl ValueError
                | Some k \<Rightarrow>
                    if z = CHR ''='' \<and> cs = [] then Inr [char_of (i * 4 + j div 16), char_of (j mod 16 * 16 + k div 4)]
                    else (case b64_value z of
                            None \<Rightarrow> Inl ValueError
                          | Some l \<Rightarrow> map_sum id (\<lambda>bs. char_of (i * 4 + j div 16) # char_of (j mod 16 * 16 + k div 4) # char_of (k mod 4 * 64 + l) # bs) (b64decode cs)))
      | _ \<Rightarrow> Inl ValueError)"
| "b64decode _ = Inl ValueError"

section \<open>Environment\<close>

record hpc_env =
  he_dumps :: "Task \<Rightarrow> bytes"
  he_gzip :: "bytes \<Rightarrow> bytes"
  he_gunzip :: "bytes \<Rightarrow> py_exn + bytes"
  he_run :: "bytes \<Rightarrow> py_exn + bytes"
  he_error :: "py_exn \<Rightarrow> bytes"
  he_bucket :: string
  he_prefix :: string

type_synonym bucket = "(string, bytes) dict"

record job_parameters =
  jp_task_id :: string
  jp_payload :: string
  jp_compressed :: string
  jp_s3_bucket :: string
  jp_s3_prefix :: string
  jp_s3_key :: string

section \<open>AWS Batch\<close>

definition compress_large :: "hpc_env \<Rightarrow> bytes \<Rightarrow> bytes \<times> bool" where
  "compress_large env payload = (if length payload > 4 * 1024 then (he_gzip env payload, True) else (payload, False))"

definition submit_single_batch_job :: "hpc_env \<Rightarrow> Task \<Rightarrow> bucket \<Rightarrow> job_parameters \<times> bucket" where
  "submit_single_batch_job env task s3 =
     (case compress_large env (he_dumps env task) of (payload, compressed) \<Rightarrow>
        let task_id_hex = hex (taskId task); inline = length payload \<le> 28 * 1024;
            s3_key = (if inline then ''none'' else he_prefix env @ ''/inputs/'' @ task_id_hex @ ''.pkl'' @ (if compressed then ''.gz'' else []))
        in (\<lparr>jp_task_id = task_id_hex, jp_payload = (if inline then b64encode payload else []), jp_compressed = (if compressed then ''1'' else ''0''),
              jp_s3_bucket = he_bucket env, jp_s3_prefix = he_prefix env, jp_s3_key = s3_key\<rparr>,
            if inline then s3 else dict_set s3_key payload s3))"

definition array_prefix :: "hpc_env \<Rightarrow> string \<Rightarrow> string" where
  "array_prefix env array_id = he_prefix env @ ''/array/'' @ array_id"

fun put_array_payloads :: "hpc_env \<Rightarrow> string \<Rightarrow> nat \<Rightarrow> Task list \<Rightarrow> bucket \<Rightarrow> bucket" where
  "put_array_payloads env array_id index [] s3 = s3"
| "put_array_payloads env array_id index (task # batch) s3 =
     put_array_payloads env array_id (index + 1) batch
       (dict_set (array_prefix env array_id @ ''/'' @ nat_str index @ ''.pkl'') (fst (compress_large env (he_dumps env task))) s3)"

definition submit_array_job :: "hpc_env \<Rightarrow> string \<Rightarrow> Task list \<Rightarrow> bucket \<Rightarrow> job_parameters \<times> bucket" where
  "submit_array_job env array_id batch s3 =
     (\<lparr>jp_task_id = ''array'', jp_payload = ''none'', jp_compressed = ''0'', jp_s3_bucket = he_bucket env, jp_s3_prefix = he_prefix env,
        jp_s3_key = array_prefix env array_id @ ''/ARRAY_INDEX.pkl''\<rparr>,
      put_array_payloads env array_id 0 batch s3)"

section \<open>The runner of a Batch job\<close>

definition none_to :: "'a \<Rightarrow> (string \<Rightarrow> 'a) \<Rightarrow> string \<Rightarrow> 'a" where
  "none_to fallback f s = (if ascii_lower s = ''none'' then fallback else f s)"

record runner_args =
  ra_s3_bucket :: "string option"
  ra_s3_prefix :: string
  ra_compressed :: string
  ra_payload :: "string option"
  ra_s3_key :: "string option"

definition parse_args :: "job_parameters \<Rightarrow> runner_args" where
  "parse_args p =
     \<lparr>ra_s3_bucket = none_to None Some (jp_s3_bucket p), ra_s3_prefix = none_to ''scaler-tasks'' id (jp_s3_prefix p), ra_compressed = jp_compressed p,
      ra_payload = none_to None Some (jp_payload p), ra_s3_key = none_to None Some (jp_s3_key p)\<rparr>"

text \<open>\<open>str.replace\<close> with a pattern that is not empty.\<close>

function replace_all :: "string \<Rightarrow> string \<Rightarrow> string \<Rightarrow> string" where
  "replace_all pat new s =
     (if s = [] \<or> pat = [] then s
      else if take (length pat) s = pat then new @ replace_all pat new (drop (length pat) s)
      else hd s # replace_all pat new (tl s))"
  by pat_completeness auto
termination by (relation "measure (\<lambda>(pat, new, s). length s)") auto

declare replace_all.simps [simp del]

definition ends_with :: "string \<Rightarrow> string \<Rightarrow> bool" where
  "ends_with suffix s = (take (length suffix) (rev s) = rev suffix)"

definition truthy :: "string option \<Rightarrow> bool" where
  "truthy s = (s \<noteq> None \<and> s \<noteq> Some [])"

definition runner_get_payload :: "hpc_env \<Rightarrow> runner_args \<Rightarrow> string option \<Rightarrow> bucket \<Rightarrow> py_exn + bytes \<times> bucket" where
  "runner_get_payload env args array_index s3 =
     (let compressed = (ra_compressed args = ''1'');
          s3_key = (case (ra_s3_key args, array_index) of
                      (Some k, Some i) \<Rightarrow> if k \<noteq> [] then Some (replace_all ''ARRAY_INDEX'' i k) else Some k
                    | (k, _) \<Rightarrow> k)
      in if truthy (ra_payload args)
         then (case b64decode (the (ra_payload args)) of
                 Inl e \<Rightarrow> Inl e
               | Inr payload \<Rightarrow> map_sum id (\<lambda>p. (p, s3)) (if compressed then he_gunzip env payload else Inr payload))
         else if \<not> truthy (ra_s3_bucket args) \<or> \<not> truthy s3_key then Inl ValueError
         else (case dict_get s3 (the s3_key) of
                 None \<Rightarrow> Inl KeyError
               | Some payload \<Rightarrow>
                   map_sum id (\<lambda>p. (p, dict_pop (the s3_key) s3))
                     (if compressed \<or> ends_with ''.gz'' (the s3_key) then he_gunzip env payload else Inr payload)))"

definition runner_store_result :: "hpc_env \<Rightarrow> string \<Rightarrow> string \<Rightarrow> bytes \<Rightarrow> bucket \<Rightarrow> bucket" where
  "runner_store_result env prefix job_id result s3 =
     (if length result > 4096
      then dict_set (prefix @ ''/results/'' @ job_id @ ''.pkl.gz'') (he_gzip env result) s3
      else dict_set (prefix @ ''/results/'' @ job_id @ ''.pkl'') result s3)"

text \<open>\<open>main\<close> with the identifier of the job and its index in an array: the exit code and the bucket.\<close>

definition batch_main :: "hpc_env \<Rightarrow> job_parameters \<Rightarrow> string \<Rightarrow> string option \<Rightarrow> bucket \<Rightarrow> nat \<times> bucket" where
  "batch_main env params job_id array_index s3 =
     (let args = parse_args params;
          store = (\<lambda>result s3. if truthy (ra_s3_bucket args) then Inr (runner_store_result env (ra_s3_prefix args) job_id result s3) else Inl ValueError);
          failed = (\<lambda>e s3. (1, case store (he_error env e) s3 of Inl _ \<Rightarrow> s3 | Inr s3' \<Rightarrow> s3'))
      in case runner_get_payload env args array_index s3 of
           Inl e \<Rightarrow> failed e s3
         | Inr (payload, s3') \<Rightarrow>
             (case he_run env payload of
                Inl e \<Rightarrow> failed e s3'
              | Inr result \<Rightarrow> (case store result s3' of Inl e \<Rightarrow> failed e s3' | Inr s3'' \<Rightarrow> (0, s3''))))"

section \<open>Results\<close>

definition gunzip_if_magic :: "hpc_env \<Rightarrow> bytes \<Rightarrow> py_exn + bytes" where
  "gunzip_if_magic env b = (if take 2 b = [CHR 0x1F, CHR 0x8B] then he_gunzip env b else Inr b)"

text \<open>The first of the candidate keys there is.\<close>

fun first_key :: "string list \<Rightarrow> bucket \<Rightarrow> (string \<times> bytes) option" where
  "first_key [] s3 = None"
| "first_key (k # ks) s3 = (case dict_get s3 k of Some b \<Rightarrow> Some (k, b) | None \<Rightarrow> first_key ks s3)"

definition batch_result_keys :: "hpc_env \<Rightarrow> string \<Rightarrow> string list" where
  "batch_result_keys env job_id = [he_prefix env @ ''/results/'' @ job_id @ ''.pkl'', he_prefix env @ ''/results/'' @ job_id @ ''.pkl'' @ ''.gz'']"

definition fetch_batch_result :: "hpc_env \<Rightarrow> string \<Rightarrow> bucket \<Rightarrow> py_exn + bytes" where
  "fetch_batch_result env job_id s3 =
     (case first_key (batch_result_keys env job_id) s3 of None \<Rightarrow> Inl KeyError | Some (k, b) \<Rightarrow> gunzip_if_magic env b)"

section \<open>OCI container instances\<close>

record instance_variables =
  iv_task_id :: string
  iv_prefix :: string
  iv_object_key :: string
  iv_payload_b64 :: string
  iv_compressed :: string

definition create_container_instance :: "hpc_env \<Rightarrow> Task \<Rightarrow> bucket \<Rightarrow> instance_variables \<times> bucket" where
  "create_container_instance env task store =
     (case compress_large env (he_dumps env task) of (payload, compressed) \<Rightarrow>
        let task_id_hex = hex (taskId task); inline = length payload \<le> 28 * 1024;
            object_key = (if inline then ''none'' else he_prefix env @ ''/inputs/'' @ task_id_hex @ (if compressed then ''.pkl.gz'' else ''.pkl''))
        in (\<lparr>iv_task_id = task_id_hex, iv_prefix = he_prefix env, iv_object_key = object_key, iv_payload_b64 = (if inline then b64encode payload else []),
              iv_compressed = (if compressed then ''1'' else ''0'')\<rparr>,
            if inline then store else dict_set object_key payload store))"

definition read_env :: "string \<Rightarrow> string option" where
  "read_env = none_to None Some"

definition instance_get_payload :: "hpc_env \<Rightarrow> instance_variables \<Rightarrow> bucket \<Rightarrow> py_exn + bytes \<times> bucket" where
  "instance_get_payload env iv store =
     (let object_key = read_env (iv_object_key iv); payload_b64 = read_env (iv_payload_b64 iv); compressed = (read_env (iv_compressed iv) = Some ''1'')
      in if truthy payload_b64
         then (case b64decode (the payload_b64) of
                 Inl e \<Rightarrow> Inl e
               | Inr payload \<Rightarrow> map_sum id (\<lambda>p. (p, store)) (if compressed then he_gunzip env payload else Inr payload))
         else if he_bucket env = [] \<or> \<not> truthy object_key then Inl ValueError
         else (case dict_get store (the object_key) of
                 None \<Rightarrow> Inl KeyError
               | Some payload \<Rightarrow>
                   map_sum id (\<lambda>p. (p, dict_pop (the object_key) store))
                     (if compressed \<or> ends_with ''.gz'' (the object_key) then he_gunzip env payload else Inr payload)))"

definition require_env :: "string \<Rightarrow> py_exn + string" where
  "require_env v = (case read_env v of None \<Rightarrow> Inl RuntimeError | Some x \<Rightarrow> Inr x)"

text \<open>\<open>read_env(key) or default\<close>.\<close>

definition env_or :: "string \<Rightarrow> string \<Rightarrow> string" where
  "env_or v fallback = (if truthy (read_env v) then v else fallback)"

definition instance_store_result :: "hpc_env \<Rightarrow> string \<Rightarrow> string \<Rightarrow> bytes \<Rightarrow> bucket \<Rightarrow> bucket" where
  "instance_store_result env prefix task_id result store =
     dict_set (prefix @ ''/results/'' @ task_id @ ''.pkl'') (if length result > 4096 then he_gzip env result else result) store"

definition instance_main :: "hpc_env \<Rightarrow> instance_variables \<Rightarrow> bucket \<Rightarrow> nat \<times> bucket" where
  "instance_main env iv store =
     (let put = instance_store_result env (env_or (iv_prefix iv) ''scaler-tasks'') (env_or (iv_task_id iv) ''unknown'')
      in case require_env (he_bucket env) of
           Inl _ \<Rightarrow> (1, store)
         | Inr _ \<Rightarrow>
             (case instance_get_payload env iv store of
                Inl e \<Rightarrow> (1, put (he_error env e) store)
              | Inr (payload, store') \<Rightarrow>
                  (case he_run env payload of Inl e \<Rightarrow> (1, put (he_error env e) store') | Inr result \<Rightarrow> (0, put result store'))))"

definition fetch_instance_result :: "hpc_env \<Rightarrow> TaskID \<Rightarrow> bucket \<Rightarrow> py_exn + bytes" where
  "fetch_instance_result env t store =
     (case dict_get store (he_prefix env @ ''/results/'' @ hex t @ ''.pkl'') of None \<Rightarrow> Inl KeyError | Some b \<Rightarrow> gunzip_if_magic env b)"

end
