(* ===== verification/Backends.thy ===== *)
theory Backends
  imports JobPayloads
begin

text \<open>
  The backends that run tasks as jobs of AWS Batch (\<open>src/src/scaler/worker_manager_adapter/aws_hpc/task_manager.py\<close>) and as OCI container
  instances (\<open>oci_hpc/execution_backend.py\<close>): tasks are collected and submitted, monitors poll the service and settle the futures.

  What a service answers comes with each step, so that the steps of several monitors, of the routine and of new tasks can follow each other in any order.
  A future is running from the start, so it cannot be cancelled. Times are milliseconds.
\<close>

section \<open>Futures\<close>

datatype exec_future = ExecRunning | ExecResult bytes | ExecException py_exn

definition exec_done :: "exec_future \<Rightarrow> bool" where
  "exec_done f = (f \<noteq> ExecRunning)"

text \<open>\<open>Future.set_result\<close> and \<open>Future.set_exception\<close> of a future that is done raise \<open>InvalidStateError\<close>.\<close>

definition exec_set :: "exec_future \<Rightarrow> exec_future \<Rightarrow> py_exn + exec_future" where
  "exec_set v f = (if exec_done f then Inl InvalidStateError else Inr v)"

section \<open>AWS Batch\<close>

datatype job_monitor =
    JobMonitor string nat TaskID
  | ArrayMonitor string "TaskID list" "(TaskID, nat) dict" "nat list"

record aws_backend =
  ab_jobs :: "(TaskID, string) dict"
  ab_pending :: "(Task \<times> nat) list"
  ab_window_start :: int
  ab_futures :: "(nat, exec_future) dict"
  ab_monitors :: "job_monitor list"
  ab_terminated :: "string list"

definition aws_init :: aws_backend where
  "aws_init = \<lparr>ab_jobs = [], ab_pending = [], ab_window_start = 0, ab_futures = [], ab_monitors = [], ab_terminated = []\<rparr>"

definition ARRAY_JOB_BATCH_WINDOW :: int where
  "ARRAY_JOB_BATCH_WINDOW = 500"

definition ARRAY_JOB_MIN_BATCH_SIZE :: nat where
  "ARRAY_JOB_MIN_BATCH_SIZE = 2"

definition ARRAY_JOB_MAX_BATCH_SIZE :: nat where
  "ARRAY_JOB_MAX_BATCH_SIZE = 10000"

text \<open>What the services answer to a submission: to the upload of payloads, to \<open>submit_job\<close>, and to the second try with fresh credentials.\<close>

datatype submit_reply = Expired py_exn | Refused py_exn | Accepted string

record flush_answers =
  fa_put :: "py_exn option"
  fa_submit :: submit_reply
  fa_retry :: submit_reply

definition submit_job :: "flush_answers \<Rightarrow> py_exn + string" where
  "submit_job fa =
     (case fa_put fa of
        Some e \<Rightarrow> Inl e
      | None \<Rightarrow>
          (case fa_submit fa of
             Accepted j \<Rightarrow> Inr j
           | Refused e \<Rightarrow> Inl e
           | Expired _ \<Rightarrow> (case fa_retry fa of Accepted j \<Rightarrow> Inr j | Refused e \<Rightarrow> Inl e | Expired e \<Rightarrow> Inl e)))"

definition exec_state :: "aws_backend \<Rightarrow> nat \<Rightarrow> exec_future" where
  "exec_state s f = (case dict_get (ab_futures s) f of None \<Rightarrow> ExecRunning | Some x \<Rightarrow> x)"

definition fail_pending :: "py_exn \<Rightarrow> nat \<Rightarrow> aws_backend \<Rightarrow> aws_backend" where
  "fail_pending e f s = (if exec_done (exec_state s f) then s else s\<lparr>ab_futures := dict_set f (ExecException e) (ab_futures s)\<rparr>)"

definition child_job :: "string \<Rightarrow> nat \<Rightarrow> string" where
  "child_job parent i = parent @ '':'' @ nat_str i"

fun register_children :: "string \<Rightarrow> nat \<Rightarrow> TaskID list \<Rightarrow> (TaskID, string) dict \<Rightarrow> (TaskID, string) dict" where
  "register_children parent i [] jobs = jobs"
| "register_children parent i (t # ts) jobs = register_children parent (i + 1) ts (dict_set t (child_job parent i) jobs)"

definition futures_of :: "(Task \<times> nat) list \<Rightarrow> (TaskID, nat) dict" where
  "futures_of pending = foldl (\<lambda>d p. dict_set (taskId (fst p)) (snd p) d) [] pending"

definition flush_batch :: "flush_answers \<Rightarrow> (Task \<times> nat) list \<Rightarrow> aws_backend \<Rightarrow> aws_backend" where
  "flush_batch fa pending s =
     (let futures = futures_of pending; ids = map (\<lambda>p. taskId (fst p)) pending
      in case submit_job fa of
           Inl e \<Rightarrow> fold (\<lambda>kv. fail_pending e (snd kv)) futures s
         | Inr j \<Rightarrow>
             if length pending \<ge> ARRAY_JOB_MIN_BATCH_SIZE
             then s\<lparr>ab_jobs := register_children j 0 ids (ab_jobs s), ab_monitors := ab_monitors s @ [ArrayMonitor j ids futures []]\<rparr>
             else (case pending of
                     [] \<Rightarrow> s
                   | (task, f) # _ \<Rightarrow>
                       s\<lparr>ab_jobs := dict_set (taskId task) j (ab_jobs s), ab_monitors := ab_monitors s @ [JobMonitor j f (taskId task)]\<rparr>))"

definition flush_pending_batch :: "flush_answers \<Rightarrow> aws_backend \<Rightarrow> aws_backend" where
  "flush_pending_batch fa s = (if ab_pending s = [] then s else flush_batch fa (ab_pending s) (s\<lparr>ab_pending := []\<rparr>))"

text \<open>\<open>execute\<close> of a task whose inputs are loaded; a new future has the next number.\<close>

definition aws_execute :: "int \<Rightarrow> flush_answers \<Rightarrow> Task \<Rightarrow> (nat, aws_backend) comp" where
  "aws_execute now fa task s =
     (let f = length (ab_futures s);
          s1 = s\<lparr>ab_futures := ab_futures s @ [(f, ExecRunning)], ab_pending := ab_pending s @ [(task, f)]\<rparr>;
          s2 = (if length (ab_pending s1) = 1 then s1\<lparr>ab_window_start := now\<rparr> else s1)
      in Ret f (if length (ab_pending s2) \<ge> ARRAY_JOB_MAX_BATCH_SIZE then flush_pending_batch fa s2 else s2))"

definition aws_routine :: "int \<Rightarrow> flush_answers \<Rightarrow> aws_backend \<Rightarrow> aws_backend" where
  "aws_routine now fa s =
     (if ab_pending s = [] then s
      else if now - ab_window_start s \<ge> ARRAY_JOB_BATCH_WINDOW then flush_pending_batch fa s else s)"

definition aws_on_cleanup :: "TaskID \<Rightarrow> aws_backend \<Rightarrow> aws_backend" where
  "aws_on_cleanup t s = s\<lparr>ab_jobs := dict_pop t (ab_jobs s)\<rparr>"

definition aws_on_cancel :: "bool \<Rightarrow> TaskCancel \<Rightarrow> aws_backend \<Rightarrow> aws_backend" where
  "aws_on_cancel service_ok tc s =
     (case dict_get (ab_jobs s) (cancel_taskId tc) of
        None \<Rightarrow> s
      | Some j \<Rightarrow> if service_ok then s\<lparr>ab_terminated := ab_terminated s @ [j]\<rparr> else s)"

text \<open>What a poll finds: for a job that succeeded, the result or why it cannot be had, and whether the clean-up fails.\<close>

datatype job_status = Succeeded "py_exn + bytes" "py_exn option" | JobFailed | InProgress

datatype poll_answer = PollError py_exn | NoJobs | JobIs job_status

text \<open>How a status settles a future: the new future, or an exception and the future it leaves.\<close>

definition settle_job :: "job_status \<Rightarrow> exec_future \<Rightarrow> (py_exn + unit) \<times> exec_future" where
  "settle_job st f =
     (let fail = (\<lambda>f. case exec_set (ExecException RuntimeError) f of Inl e \<Rightarrow> (Inl e, f) | Inr f' \<Rightarrow> (Inr (), f'))
      in case st of
           InProgress \<Rightarrow> (Inr (), f)
         | JobFailed \<Rightarrow> fail f
         | Succeeded got cleanup \<Rightarrow>
             (case got of
                Inl _ \<Rightarrow> fail f
              | Inr v \<Rightarrow>
                  (case exec_set (ExecResult v) f of
                     Inl _ \<Rightarrow> fail f
                   | Inr f' \<Rightarrow> (case cleanup of Some _ \<Rightarrow> fail f' | None \<Rightarrow> (Inr (), f')))))"

text \<open>One round of \<open>_monitor_batch_job\<close>: the future, and whether the monitor returns.\<close>

definition poll_job :: "poll_answer \<Rightarrow> exec_future \<Rightarrow> exec_future \<times> bool" where
  "poll_job answer f =
     (case answer of
        JobIs st \<Rightarrow> (case settle_job st f of (Inl _, f') \<Rightarrow> (f', False) | (Inr _, f') \<Rightarrow> (f', st \<noteq> InProgress))
      | _ \<Rightarrow> (f, False))"

text \<open>
  One child in a round of \<open>_monitor_array_job\<close>: an exception ends the round, and a child that is settled is resolved.
\<close>

definition poll_child :: "TaskID list \<Rightarrow> (TaskID, nat) dict \<Rightarrow> nat \<times> job_status \<Rightarrow> (unit, nat list \<times> (nat, exec_future) dict) comp" where
  "poll_child ids futures child p =
     (case (child, p) of ((i, st), (resolved, fs)) \<Rightarrow>
        if i \<ge> length ids then Raise KeyError p
        else (case dict_get futures (ids ! i) of
                None \<Rightarrow> Ret () (set_add i resolved, fs)
              | Some f \<Rightarrow>
                  (case dict_get fs f of
                     None \<Rightarrow> Ret () p
                   | Some x \<Rightarrow>
                       if exec_done x then Ret () (set_add i resolved, fs)
                       else (case settle_job st x of
                               (Inl e, x') \<Rightarrow> Raise e (resolved, dict_set f x' fs)
                             | (Inr _, x') \<Rightarrow> Ret () (if st = InProgress then resolved else set_add i resolved, dict_set f x' fs)))))"

fun poll_chunks :: "TaskID list \<Rightarrow> (TaskID, nat) dict \<Rightarrow> (py_exn + (nat \<times> job_status) list) list \<Rightarrow> (unit, nat list \<times> (nat, exec_future) dict) comp" where
  "poll_chunks ids futures [] = ret ()"
| "poll_chunks ids futures (Inl e # answers) = raise e"
| "poll_chunks ids futures (Inr children # answers) = seq (for_each children (poll_child ids futures)) (poll_chunks ids futures answers)"

definition after_round :: "(unit, nat list \<times> (nat, exec_future) dict) outcome \<Rightarrow> nat list \<times> (nat, exec_future) dict \<Rightarrow> nat list \<times> (nat, exec_future) dict" where
  "after_round r p = (case r of Ret _ q \<Rightarrow> q | Raise _ q \<Rightarrow> q | NoFuel \<Rightarrow> p)"

text \<open>A round of the monitor at a position of the list; a monitor that returns is gone.\<close>

datatype monitor_answer = JobAnswer poll_answer | ArrayAnswer "(py_exn + (nat \<times> job_status) list) list"

definition poll_monitor :: "nat \<Rightarrow> monitor_answer \<Rightarrow> aws_backend \<Rightarrow> aws_backend" where
  "poll_monitor n answer s =
     (if n \<ge> length (ab_monitors s) then s
      else (case (ab_monitors s ! n, answer) of
              (JobMonitor j f t, JobAnswer a) \<Rightarrow>
                (case poll_job a (exec_state s f) of (x, ended) \<Rightarrow>
                   s\<lparr>ab_futures := dict_set f x (ab_futures s),
                     ab_monitors := (if ended then take n (ab_monitors s) @ drop (n + 1) (ab_monitors s) else ab_monitors s)\<rparr>)
            | (ArrayMonitor j ids futures resolved, ArrayAnswer answers) \<Rightarrow>
                (case after_round (poll_chunks ids futures answers (resolved, ab_futures s)) (resolved, ab_futures s) of (resolved', fs) \<Rightarrow>
                   s\<lparr>ab_futures := fs,
                     ab_monitors := (if length resolved' \<ge> length ids then take n (ab_monitors s) @ drop (n + 1) (ab_monitors s)
                                     else (ab_monitors s)[n := ArrayMonitor j ids futures resolved'])\<rparr>)
            | _ \<Rightarrow> s))"

datatype aws_input =
    AwsExecute int flush_answers Task
  | AwsRoutine int flush_answers
  | AwsCancel bool TaskCancel
  | AwsCleanup TaskID
  | AwsPoll nat monitor_answer

fun aws_perform :: "aws_input \<Rightarrow> aws_backend \<Rightarrow> aws_backend" where
  "aws_perform (AwsExecute now fa task) s = (case aws_execute now fa task s of Ret _ s' \<Rightarrow> s' | Raise _ s' \<Rightarrow> s' | NoFuel \<Rightarrow> s)"
| "aws_perform (AwsRoutine now fa) s = aws_routine now fa s"
| "aws_perform (AwsCancel ok tc) s = aws_on_cancel ok tc s"
| "aws_perform (AwsCleanup t) s = aws_on_cleanup t s"
| "aws_perform (AwsPoll n a) s = poll_monitor n a s"

section \<open>OCI container instances\<close>

datatype instance_state = INACTIVE "py_exn + bytes \<times> bool" | InstanceFailed | InstanceRunning | Unexpected

text \<open>
  What the service answers to a poll: not found, another error, or a state; of an instance that has ended, why there is no result, or
  the result and whether it is the error that the runner stored.
\<close>

datatype instance_answer = NotFound | InstanceError py_exn | InstanceIs instance_state

definition MAX_UNEXPECTED_STATE_COUNT :: nat where
  "MAX_UNEXPECTED_STATE_COUNT = 5"

record instance_monitor =
  im_future :: exec_future
  im_unexpected :: nat
  im_deletes :: nat

text \<open>
  One round of \<open>_monitor_container_instance\<close>: the monitor, and whether it returns. Deleting the instance swallows exceptions. What is
  raised while the answer is handled is logged, except where the time is up or the instance is not found.
\<close>

definition settle_instance :: "exec_future \<Rightarrow> instance_monitor \<Rightarrow> (py_exn + unit) \<times> instance_monitor" where
  "settle_instance v m = (case exec_set v (im_future m) of Inl e \<Rightarrow> (Inl e, m) | Inr f \<Rightarrow> (Inr (), m\<lparr>im_future := f\<rparr>))"

definition delete_and_return :: "(py_exn + unit) \<times> instance_monitor \<Rightarrow> instance_monitor \<times> bool" where
  "delete_and_return r = (case r of (Inl _, m) \<Rightarrow> (m, False) | (Inr _, m) \<Rightarrow> (m\<lparr>im_deletes := im_deletes m + 1\<rparr>, True))"

definition poll_container_instance :: "int \<Rightarrow> int \<Rightarrow> instance_answer \<Rightarrow> instance_monitor \<Rightarrow> (py_exn + instance_monitor \<times> bool)" where
  "poll_container_instance job_timeout elapsed answer m =
     (if elapsed > job_timeout
      then (case settle_instance (ExecException TimeoutError) m of (Inl e, _) \<Rightarrow> Inl e | r \<Rightarrow> Inr (delete_and_return r))
      else case answer of
             InstanceIs (INACTIVE got) \<Rightarrow>
               (let stored = (case got of
                                Inl e \<Rightarrow> (Inl e, m)
                              | Inr (v, is_error) \<Rightarrow> settle_instance (if is_error then ExecException RuntimeError else ExecResult v) m)
                in Inr (delete_and_return (case stored of (Inl _, m') \<Rightarrow> settle_instance (ExecException RuntimeError) m' | r \<Rightarrow> r)))
           | InstanceIs InstanceFailed \<Rightarrow> Inr (delete_and_return (settle_instance (ExecException RuntimeError) m))
           | InstanceIs InstanceRunning \<Rightarrow> Inr (m, False)
           | InstanceIs Unexpected \<Rightarrow>
               (let m' = m\<lparr>im_unexpected := im_unexpected m + 1\<rparr>
                in Inr (if im_unexpected m' \<ge> MAX_UNEXPECTED_STATE_COUNT then delete_and_return (settle_instance (ExecException RuntimeError) m') else (m', False)))
           | NotFound \<Rightarrow> (case settle_instance (ExecException RuntimeError) m of (Inl e, _) \<Rightarrow> Inl e | (Inr _, m') \<Rightarrow> Inr (m', True))
           | InstanceError e \<Rightarrow> Inr (m, False))"

text \<open>The loop: the time of each poll since the start and its answer; \<open>None\<close> while the monitor goes on.\<close>

fun monitor_container_instance :: "int \<Rightarrow> (int \<times> instance_answer) list \<Rightarrow> instance_monitor \<Rightarrow> (py_exn + instance_monitor) option \<times> instance_monitor" where
  "monitor_container_instance job_timeout [] m = (None, m)"
| "monitor_container_instance job_timeout ((elapsed, a) # polls) m =
     (case poll_container_instance job_timeout elapsed a m of
        Inl e \<Rightarrow> (Some (Inl e), m)
      | Inr (m', True) \<Rightarrow> (Some (Inr m'), m')
      | Inr (m', False) \<Rightarrow> monitor_container_instance job_timeout polls m')"

definition instance_monitor_new :: instance_monitor where
  "instance_monitor_new = \<lparr>im_future = ExecRunning, im_unexpected = 0, im_deletes = 0\<rparr>"

record oci_backend =
  ob_instances :: "(TaskID, string) dict"
  ob_input_keys :: "(TaskID, string) dict"

definition oci_execute :: "py_exn + string \<times> string option \<Rightarrow> TaskID \<Rightarrow> oci_backend \<Rightarrow> exec_future \<times> oci_backend" where
  "oci_execute created t s =
     (case created of
        Inl e \<Rightarrow> (ExecException e, s)
      | Inr (i, key) \<Rightarrow>
          (ExecRunning,
           s\<lparr>ob_instances := dict_set t i (ob_instances s),
             ob_input_keys := (case key of None \<Rightarrow> ob_input_keys s | Some k \<Rightarrow> if k = [] then ob_input_keys s else dict_set t k (ob_input_keys s))\<rparr>))"

definition oci_on_cancel :: "TaskCancel \<Rightarrow> oci_backend \<Rightarrow> (string option \<times> string option) \<times> oci_backend" where
  "oci_on_cancel tc s =
     (let t = cancel_taskId tc
      in ((dict_get (ob_instances s) t, dict_get (ob_input_keys s) t),
          s\<lparr>ob_instances := dict_pop t (ob_instances s), ob_input_keys := dict_pop t (ob_input_keys s)\<rparr>))"

definition oci_on_cleanup :: "TaskID \<Rightarrow> oci_backend \<Rightarrow> oci_backend" where
  "oci_on_cleanup t s = s\<lparr>ob_instances := dict_pop t (ob_instances s), ob_input_keys := dict_pop t (ob_input_keys s)\<rparr>"

end
