(* ===== verification/JobRuns.thy ===== *)
theory JobRuns
  imports JobPayloads ConfigRoundtrip
begin

text \<open>
  Payloads and results survive their way to jobs and container instances and back; large payloads of array jobs do not.
\<close>

section \<open>Base64\<close>

lemma b64_value_digit:
  assumes "k < 64"
  shows "b64_value (b64_digit k) = Some k"
proof -
  have of: "of_char (char_of n :: char) = n" if "n < 256" for n :: nat using that by (simp add: of_char_of)
  consider "k < 26" | "26 \<le> k" "k < 52" | "52 \<le> k" "k < 62" | "k = 62" | "k = 63" using assms by linarith
  then show ?thesis by cases (auto simp: b64_value_def b64_digit_def of Let_def simp del: of_char_of)
qed

lemma b64_digit_pad: "k < 64 \<Longrightarrow> b64_digit k \<noteq> CHR ''=''"
  using b64_value_digit [of k] by (auto simp: b64_value_def)

lemma byte_less: "(of_char c :: nat) < 256"
  by (metis of_char_mod_256 mod_less_divisor zero_less_numeral)

lemma byte_parts:
  fixes a b c :: char
  shows "byte a div 4 < 64" "byte a mod 4 * 16 < 64" "byte a mod 4 * 16 + byte b div 16 < 64" "byte b mod 16 * 4 < 64" "byte b mod 16 * 4 + byte c div 64 < 64" "byte c mod 64 < 64"
proof -
  have div: "byte a div 4 < 64" "byte b div 16 < 16" "byte c div 64 < 4"
    using byte_less [of a] byte_less [of b] byte_less [of c] by (simp_all add: less_mult_imp_div_less)
  have "byte a mod 4 < 4" "byte b mod 16 < 16" "byte c mod 64 < 64" by simp_all
  then show "byte a div 4 < 64" "byte a mod 4 * 16 < 64" "byte a mod 4 * 16 + byte b div 16 < 64" "byte b mod 16 * 4 < 64" "byte b mod 16 * 4 + byte c div 64 < 64" "byte c mod 64 < 64"
    using div by linarith+
qed

lemma byte_div: "byte b div 16 < 16" "byte b div 64 < 4"
  using byte_less [of b] by (simp_all add: less_mult_imp_div_less)

lemma b64_roundtrip: "b64decode (b64encode b) = Inr b"
  by (induction b rule: b64encode.induct) (simp_all add: b64_value_digit b64_digit_pad byte_parts byte_div)

lemma b64_length: "length b \<le> length (b64encode b)" "3 < length b \<Longrightarrow> 4 < length (b64encode b)"
proof -
  show l: "length b \<le> length (b64encode b)" for b by (induction b rule: b64encode.induct) simp_all
  show "3 < length b \<Longrightarrow> 4 < length (b64encode b)" using l [of "drop 3 b"] by (cases b rule: b64encode.cases) auto
qed

section \<open>Hypotheses\<close>

text \<open>
  \<open>gzip\<close> undoes what it did, its output starts with its magic number and is longer than a word; the bucket and the prefix
  are set, and the prefix holds no underscore; a pickle does not start like a compressed file and is longer than the word \<open>none\<close>.
\<close>

definition gzip_ok :: "hpc_env \<Rightarrow> bool" where
  "gzip_ok env \<longleftrightarrow> (\<forall>b. he_gunzip env (he_gzip env b) = Inr b \<and> take 2 (he_gzip env b) = [CHR 0x1F, CHR 0x8B] \<and> 3 < length (he_gzip env b))"

definition config_ok :: "hpc_env \<Rightarrow> bool" where
  "config_ok env \<longleftrightarrow> he_bucket env \<noteq> [] \<and> ascii_lower (he_bucket env) \<noteq> ''none'' \<and> he_prefix env \<noteq> [] \<and> ascii_lower (he_prefix env) \<noteq> ''none'' \<and>
     CHR ''_'' \<notin> set (he_prefix env)"

definition pickled :: "bytes \<Rightarrow> bool" where
  "pickled b \<longleftrightarrow> take 2 b \<noteq> [CHR 0x1F, CHR 0x8B] \<and> 3 < length b"

lemma lower_length: "ascii_lower s = t \<Longrightarrow> length s = length t"
  by (auto simp: ascii_lower_def)

lemma lower_long: "4 < length s \<Longrightarrow> ascii_lower s \<noteq> ''none''"
  using lower_length [of s "''none''"] by auto

lemma sent_payload:
  assumes "gzip_ok env" "compress_large env p = (q, compressed)" "3 < length p"
  shows "3 < length q" "(if compressed then he_gunzip env q else Inr q) = Inr p" "compressed \<longleftrightarrow> 4096 < length p"
  using assms by (auto simp: compress_large_def gzip_ok_def split: if_splits)

lemma fetched_result:
  assumes "gzip_ok env" "pickled r"
  shows "gunzip_if_magic env (if 4096 < length r then he_gzip env r else r) = Inr r"
  using assms by (auto simp: gunzip_if_magic_def gzip_ok_def pickled_def)

section \<open>Single jobs\<close>

lemma single_payload:
  assumes ok: "gzip_ok env" "config_ok env" "3 < length (he_dumps env task)" and sub: "submit_single_batch_job env task s3 = (params, s3')"
  shows "\<exists>s3''. runner_get_payload env (parse_args params) None s3' = Inr (he_dumps env task, s3'') \<and>
    (\<forall>k. dict_get s3 k = None \<longrightarrow> dict_get s3'' k = None)"
proof -
  obtain q compressed where q: "compress_large env (he_dumps env task) = (q, compressed)" by force
  note sent = sent_payload [OF ok(1) q ok(3)]
  have params: "ra_compressed (parse_args params) = (if compressed then ''1'' else ''0'')" "ra_s3_bucket (parse_args params) = Some (he_bucket env)"
    using sub q ok(2) by (auto simp: submit_single_batch_job_def Let_def parse_args_def none_to_def config_ok_def)
  show ?thesis
  proof (cases "length q \<le> 28 * 1024")
    case True
    then have "s3' = s3" "jp_payload params = b64encode q" using sub q by (auto simp: submit_single_batch_job_def Let_def)
    moreover have "4 < length (b64encode q)" by (rule b64_length(2) [OF sent(1)])
    ultimately have "ra_payload (parse_args params) = Some (b64encode q)" "b64encode q \<noteq> []" "s3' = s3"
      using lower_long by (auto simp: parse_args_def none_to_def)
    then show ?thesis using params(1) sent(2) by (auto simp: runner_get_payload_def truthy_def b64_roundtrip Let_def split: if_splits)
  next
    case False
    let ?key = "he_prefix env @ ''/inputs/'' @ hex (taskId task) @ ''.pkl'' @ (if compressed then ''.gz'' else [])"
    have s3': "s3' = dict_set ?key q s3" "jp_payload params = []" "jp_s3_key params = ?key" using False sub q by (auto simp: submit_single_batch_job_def Let_def)
    have "4 < length ?key" by simp
    then have key: "ra_s3_key (parse_args params) = Some ?key" "ra_payload (parse_args params) = Some []"
      using s3'(2,3) lower_long [of ?key] by (simp_all add: parse_args_def none_to_def ascii_lower_def)
    have gz: "ends_with ''.gz'' ?key = compressed" by (simp add: ends_with_def)
    have "runner_get_payload env (parse_args params) None s3' = Inr (he_dumps env task, dict_pop ?key s3')"
      using params key gz sent(2) s3'(1) ok(2) by (auto simp: runner_get_payload_def truthy_def Let_def config_ok_def split: if_splits)
    then show ?thesis using s3'(1) by (intro exI [of _ "dict_pop ?key s3'"]) (simp add: dict_simps)
  qed
qed

lemma main_result:
  assumes ok: "gzip_ok env" "config_ok env" and get: "runner_get_payload env (parse_args params) i s3 = Inr (p, s3')"
    and run: "he_run env p = Inr r" "pickled r" and params: "jp_s3_bucket params = he_bucket env" "jp_s3_prefix params = he_prefix env"
    and fresh: "\<And>k. k \<in> set (batch_result_keys env job_id) \<Longrightarrow> dict_get s3' k = None"
  shows "\<exists>s3''. batch_main env params job_id i s3 = (0, s3'') \<and> fetch_batch_result env job_id s3'' = Inr r"
proof -
  have args: "ra_s3_bucket (parse_args params) = Some (he_bucket env)" "ra_s3_prefix (parse_args params) = he_prefix env"
    using ok(2) params by (simp_all add: parse_args_def none_to_def config_ok_def)
  have "batch_main env params job_id i s3 = (0, runner_store_result env (he_prefix env) job_id r s3')"
    using get run(1) args ok(2) by (simp add: batch_main_def Let_def truthy_def config_ok_def)
  moreover have "fetch_batch_result env job_id (runner_store_result env (he_prefix env) job_id r s3') = Inr r"
    using fresh fetched_result [OF ok(1) run(2)] by (auto simp: fetch_batch_result_def runner_store_result_def batch_result_keys_def split: if_splits)
  ultimately show ?thesis by blast
qed

section \<open>Array jobs\<close>

lemma nat_str_inj: "nat_str m = nat_str n \<Longrightarrow> m = n"
  using int_roundtrip [of "int m"] int_roundtrip [of "int n"] by (simp add: int_str_def)

text \<open>A text without underscores before the pattern is left as it is.\<close>

lemma index_mismatch:
  assumes "CHR ''_'' \<notin> set a" "a \<noteq> []"
  shows "take (length ''ARRAY_INDEX'') (a @ ''ARRAY_INDEX'' @ b) \<noteq> ''ARRAY_INDEX''"
proof
  assume eq: "take (length ''ARRAY_INDEX'') (a @ ''ARRAY_INDEX'' @ b) = ''ARRAY_INDEX''"
  have "take (length ''ARRAY_INDEX'') (a @ ''ARRAY_INDEX'' @ b) ! 5 = (a @ ''ARRAY_INDEX'' @ b) ! 5" by (rule nth_take) simp
  then have at: "(a @ ''ARRAY_INDEX'' @ b) ! 5 = CHR ''_''" unfolding eq by simp
  show False
  proof (cases "5 < length a")
    case True
    then show ?thesis using at assms(1) nth_mem [of 5 a] by (simp add: nth_append)
  next
    case False
    then have "length a \<in> {1, 2, 3, 4, 5}" using assms(2) by (cases "length a") auto
    then show ?thesis using at by (auto simp: nth_append)
  qed
qed

lemma replace_skip: "pat \<noteq> [] \<Longrightarrow> take (length pat) (x # s) \<noteq> pat \<Longrightarrow> replace_all pat new (x # s) = x # replace_all pat new s"
  by (simp add: replace_all.simps [of pat new "x # s"])

lemma replace_index:
  "CHR ''_'' \<notin> set a \<Longrightarrow> replace_all ''ARRAY_INDEX'' i (a @ ''ARRAY_INDEX'' @ ''.pkl'') = a @ i @ ''.pkl''"
proof (induction a)
  case Nil
  show ?case by (simp add: replace_all.simps)
next
  case (Cons x a)
  have "x # a \<noteq> []" by simp
  from index_mismatch [OF Cons.prems this, of "''.pkl''"]
  have "replace_all ''ARRAY_INDEX'' i (x # (a @ ''ARRAY_INDEX'' @ ''.pkl'')) = x # replace_all ''ARRAY_INDEX'' i (a @ ''ARRAY_INDEX'' @ ''.pkl'')"
    unfolding append_Cons by (rule replace_skip [rotated]) simp
  then show ?case using Cons by simp
qed

definition array_key :: "hpc_env \<Rightarrow> string \<Rightarrow> nat \<Rightarrow> string" where
  "array_key env array_id i = array_prefix env array_id @ ''/'' @ nat_str i @ ''.pkl''"

lemma array_key_inj: "array_key env array_id i = array_key env array_id j \<Longrightarrow> i = j"
  by (auto simp: array_key_def dest: nat_str_inj)

lemma put_array_other:
  "(\<And>i. i < length batch \<Longrightarrow> k \<noteq> array_key env array_id (n + i)) \<Longrightarrow> dict_get (put_array_payloads env array_id n batch s3) k = dict_get s3 k"
proof (induction batch arbitrary: n s3)
  case (Cons task batch)
  have "k \<noteq> array_key env array_id n" using Cons.prems [of 0] by simp
  moreover have "\<And>i. i < length batch \<Longrightarrow> k \<noteq> array_key env array_id (n + 1 + i)" using Cons.prems [of "Suc i" for i] by force
  ultimately show ?case using Cons.IH [of "n + 1"] by (simp add: array_key_def)
qed simp

lemma put_array_at:
  "i < length batch \<Longrightarrow> dict_get (put_array_payloads env array_id n batch s3) (array_key env array_id (n + i)) = Some (fst (compress_large env (he_dumps env (batch ! i))))"
proof (induction batch arbitrary: i n s3)
  case (Cons task batch)
  show ?case
  proof (cases i)
    case 0
    have "array_key env array_id n \<noteq> array_key env array_id (n + 1 + j)" for j using array_key_inj [of env array_id n "n + 1 + j"] by auto
    then show ?thesis using put_array_other [of batch "array_key env array_id n" env array_id "n + 1"] 0 by (simp add: array_key_def)
  next
    case (Suc j)
    then show ?thesis using Cons.IH [of j "n + 1"] Cons.prems by simp
  qed
qed simp

text \<open>A child job gets what was stored for it, and takes it for the payload.\<close>

lemma array_payload:
  assumes ok: "config_ok env" "CHR ''_'' \<notin> set array_id" and sub: "submit_array_job env array_id batch s3 = (params, s3')" and i: "i < length batch"
  shows "runner_get_payload env (parse_args params) (Some (nat_str i)) s3' =
    Inr (fst (compress_large env (he_dumps env (batch ! i))), dict_pop (array_key env array_id i) s3')"
proof -
  have p: "jp_payload params = ''none''" "jp_compressed params = ''0''" "jp_s3_bucket params = he_bucket env"
      "jp_s3_key params = (array_prefix env array_id @ ''/'') @ ''ARRAY_INDEX'' @ ''.pkl''" "s3' = put_array_payloads env array_id 0 batch s3"
    using sub by (auto simp: submit_array_job_def)
  have "CHR ''_'' \<notin> set (array_prefix env array_id @ ''/'')" using ok by (simp add: array_prefix_def config_ok_def)
  from replace_index [OF this, of "nat_str i"]
  have key: "replace_all ''ARRAY_INDEX'' (nat_str i) (jp_s3_key params) = array_key env array_id i" unfolding p(4) by (simp add: array_key_def)
  have long: "4 < length (jp_s3_key params)" by (simp add: p(4) array_prefix_def)
  then have args: "ra_s3_key (parse_args params) = Some (jp_s3_key params)" "ra_payload (parse_args params) = None" "ra_s3_bucket (parse_args params) = Some (he_bucket env)"
      "ra_compressed (parse_args params) = ''0''" "jp_s3_key params \<noteq> []"
    using ok(1) p(1-3) lower_long [OF long] by (auto simp: parse_args_def none_to_def config_ok_def ascii_lower_def)
  have get: "dict_get s3' (array_key env array_id i) = Some (fst (compress_large env (he_dumps env (batch ! i))))" using put_array_at [OF i, of env array_id 0 s3] p(5) by simp
  have "\<not> ends_with ''.gz'' (array_key env array_id i)" "array_key env array_id i \<noteq> []" by (simp_all add: ends_with_def array_key_def)
  then show ?thesis using args key get ok(1) by (simp add: runner_get_payload_def Let_def truthy_def config_ok_def)
qed

section \<open>Container instances\<close>

lemma hex_chars:
  assumes "x \<in> set (hex b)"
  shows "x \<in> set ''0123456789abcdef''"
proof -
  obtain n where n: "n < length ''0123456789abcdef''" "x = ''0123456789abcdef'' ! n"
  proof -
    obtain c where "x = ''0123456789abcdef'' ! (byte c div 16) \<or> x = ''0123456789abcdef'' ! (byte c mod 16)" using assms by (auto simp: hex_def)
    moreover have "byte c div 16 < length ''0123456789abcdef''" "byte c mod 16 < length ''0123456789abcdef''" using byte_div(1) [of c] by simp_all
    ultimately show thesis using that by blast
  qed
  show ?thesis unfolding n(2) by (rule nth_mem [OF n(1)])
qed

lemma hex_not_none: "ascii_lower (hex b) \<noteq> ''none''"
proof
  assume eq: "ascii_lower (hex b) = ''none''"
  then obtain x xs where x: "hex b = x # xs" by (cases "hex b") (auto simp: ascii_lower_def)
  then have "x \<in> set ''0123456789abcdef''" using hex_chars [of x b] by simp
  then show False using eq x by (auto simp: ascii_lower_def)
qed

lemma instance_result:
  assumes ok: "gzip_ok env" "config_ok env" "3 < length (he_dumps env task)" "taskId task \<noteq> []" and sub: "create_container_instance env task s3 = (iv, s3')"
    and run: "he_run env (he_dumps env task) = Inr r" "pickled r"
  shows "\<exists>s3''. instance_main env iv s3' = (0, s3'') \<and> fetch_instance_result env (taskId task) s3'' = Inr r"
proof -
  obtain q compressed where q: "compress_large env (he_dumps env task) = (q, compressed)" by force
  note sent = sent_payload [OF ok(1) q ok(3)]
  have iv: "iv_compressed iv = (if compressed then ''1'' else ''0'')" "iv_prefix iv = he_prefix env" "iv_task_id iv = hex (taskId task)"
    using sub q by (auto simp: create_container_instance_def Let_def)
  have id: "hex (taskId task) \<noteq> []" using ok(4) by (cases "taskId task") (simp_all add: hex_def)
  have names: "env_or (iv_prefix iv) ''scaler-tasks'' = he_prefix env" "env_or (iv_task_id iv) ''unknown'' = hex (taskId task)" "require_env (he_bucket env) = Inr (he_bucket env)"
    using ok(2) id hex_not_none iv(2,3) by (auto simp: env_or_def read_env_def none_to_def truthy_def config_ok_def require_env_def)
  have flag: "(read_env (iv_compressed iv) = Some ''1'') = compressed" using iv(1) by (simp add: read_env_def none_to_def ascii_lower_def)
  have "\<exists>s3''. instance_get_payload env iv s3' = Inr (he_dumps env task, s3'')"
  proof (cases "length q \<le> 28 * 1024")
    case True
    then have "iv_payload_b64 iv = b64encode q" using sub q by (auto simp: create_container_instance_def Let_def)
    moreover have "4 < length (b64encode q)" by (rule b64_length(2) [OF sent(1)])
    ultimately have "read_env (iv_payload_b64 iv) = Some (b64encode q)" "b64encode q \<noteq> []" using lower_long by (auto simp: read_env_def none_to_def)
    then show ?thesis using flag sent(2) by (auto simp: instance_get_payload_def truthy_def b64_roundtrip Let_def split: if_splits)
  next
    case False
    let ?key = "he_prefix env @ ''/inputs/'' @ hex (taskId task) @ (if compressed then ''.pkl.gz'' else ''.pkl'')"
    have s3': "s3' = dict_set ?key q s3" "iv_payload_b64 iv = []" "iv_object_key iv = ?key" using False sub q by (auto simp: create_container_instance_def Let_def)
    have "4 < length ?key" by simp
    then have key: "read_env (iv_object_key iv) = Some ?key" "read_env (iv_payload_b64 iv) = Some []"
      using s3'(2,3) lower_long [of ?key] by (simp_all add: read_env_def none_to_def ascii_lower_def)
    have gz: "ends_with ''.gz'' ?key = compressed" by (simp add: ends_with_def)
    show ?thesis using flag key gz sent(2) s3'(1) ok(2) by (auto simp: instance_get_payload_def truthy_def Let_def config_ok_def split: if_splits)
  qed
  then obtain s3'' where get: "instance_get_payload env iv s3' = Inr (he_dumps env task, s3'')" by blast
  have "instance_main env iv s3' = (0, instance_store_result env (he_prefix env) (hex (taskId task)) r s3'')"
    using names get run(1) by (simp add: instance_main_def Let_def)
  moreover have "fetch_instance_result env (taskId task) (instance_store_result env (he_prefix env) (hex (taskId task)) r s3'') = Inr r"
    using fetched_result [OF ok(1) run(2)] by (simp add: fetch_instance_result_def instance_store_result_def)
  ultimately show ?thesis by blast
qed

end
