(* ===== verification/BackendRuns.thy ===== *)
theory BackendRuns
  imports Backends JobRuns
begin

text \<open>
  The backends at work: the future of a task is always in the hands of the batch or of a monitor, monitors settle it, and where
  they do not.
\<close>

section \<open>Monitors of container instances\<close>

lemma settle_running:
  "im_future m = ExecRunning \<Longrightarrow> settle_instance v m = (Inr (), m\<lparr>im_future := v\<rparr>)"
  by (simp add: settle_instance_def exec_set_def exec_done_def)

text \<open>A round on a running future either goes on with it running, or settles it and returns.\<close>

lemma poll_instance_cases:
  assumes "im_future m = ExecRunning"
  shows "(\<exists>m'. poll_container_instance t elapsed a m = Inr (m', False) \<and> im_future m' = ExecRunning \<and> im_deletes m' = im_deletes m \<and> elapsed \<le> t \<and>
      im_unexpected m' = im_unexpected m + (if a = InstanceIs Unexpected then 1 else 0) \<and> (a = InstanceIs Unexpected \<longrightarrow> im_unexpected m' < MAX_UNEXPECTED_STATE_COUNT)) \<or>
    (\<exists>m'. poll_container_instance t elapsed a m = Inr (m', True) \<and> exec_done (im_future m') \<and> im_deletes m' \<le> im_deletes m + 1)"
proof (cases "elapsed > t")
  case True
  then show ?thesis using assms by (simp add: poll_container_instance_def settle_running delete_and_return_def exec_done_def)
next
  case False
  note defs = poll_container_instance_def settle_running delete_and_return_def exec_done_def Let_def
  show ?thesis
  proof (cases a)
    case (InstanceIs st)
    then show ?thesis using False assms by (cases st) (auto simp: defs split: sum.splits)
  qed (use False assms in \<open>auto simp: defs\<close>)
qed

lemma monitor_settles:
  assumes "im_future m = ExecRunning" "im_unexpected m < MAX_UNEXPECTED_STATE_COUNT" "monitor_container_instance t polls m = (r, m')"
  shows "(r = None \<and> im_future m' = ExecRunning \<and> im_deletes m' = im_deletes m \<and> (\<forall>p\<in>set polls. fst p \<le> t) \<and>
      im_unexpected m' = im_unexpected m + length (filter (\<lambda>p. snd p = InstanceIs Unexpected) polls) \<and> im_unexpected m' < MAX_UNEXPECTED_STATE_COUNT) \<or>
    (r = Some (Inr m') \<and> exec_done (im_future m') \<and> im_deletes m' \<le> im_deletes m + 1)"
  using assms
proof (induction polls arbitrary: m)
  case Nil
  then show ?case by simp
next
  case (Cons p polls)
  obtain elapsed a where p: "p = (elapsed, a)" by force
  from poll_instance_cases [OF Cons.prems(1), of t elapsed a] show ?case
  proof (elim disjE exE conjE)
    fix m1 assume m1: "poll_container_instance t elapsed a m = Inr (m1, False)" "im_future m1 = ExecRunning" "im_deletes m1 = im_deletes m" "elapsed \<le> t"
      "im_unexpected m1 = im_unexpected m + (if a = InstanceIs Unexpected then 1 else 0)"
      "a = InstanceIs Unexpected \<longrightarrow> im_unexpected m1 < MAX_UNEXPECTED_STATE_COUNT"
    then have "im_unexpected m1 < MAX_UNEXPECTED_STATE_COUNT" "monitor_container_instance t polls m1 = (r, m')" using Cons.prems(2,3) p by (auto split: if_splits)
    from Cons.IH [OF m1(2) this] show ?case using m1(3-5) p by auto
  qed (use Cons.prems(3) p in auto)
qed

section \<open>The futures of the batch backend\<close>

text \<open>What tells a monitor that the job of a future has a status.\<close>

fun reports :: "job_monitor \<Rightarrow> nat \<Rightarrow> job_status \<Rightarrow> monitor_answer \<Rightarrow> bool" where
  "reports (JobMonitor j g t) f st (JobAnswer (JobIs st')) = (g = f \<and> st' = st)"
| "reports (ArrayMonitor j ids futures resolved) f st (ArrayAnswer [Inr [(i, st')]]) =
     (i < length ids \<and> i \<notin> set resolved \<and> dict_get futures (ids ! i) = Some f \<and> st' = st)"
| "reports _ _ _ _ = False"

fun watches :: "nat \<Rightarrow> job_monitor \<Rightarrow> bool" where
  "watches f (JobMonitor j g t) = (g = f)"
| "watches f (ArrayMonitor j ids futures resolved) = (\<exists>i < length ids. i \<notin> set resolved \<and> dict_get futures (ids ! i) = Some f)"

lemma watches_reports: "watches f m \<Longrightarrow> \<exists>answer. reports m f st answer"
proof (cases m)
  case (JobMonitor j g t)
  assume "watches f m"
  then show ?thesis using JobMonitor by (intro exI [of _ "JobAnswer (JobIs st)"]) simp
next
  case (ArrayMonitor j ids futures resolved)
  assume "watches f m"
  then obtain i where "i < length ids" "i \<notin> set resolved" "dict_get futures (ids ! i) = Some f" using ArrayMonitor by auto
  then show ?thesis using ArrayMonitor by (intro exI [of _ "ArrayAnswer [Inr [(i, st)]]"]) simp
qed

lemma settle_done: "st \<noteq> InProgress \<Longrightarrow> exec_done (snd (settle_job st ExecRunning))"
  by (auto simp: settle_job_def exec_set_def exec_done_def Let_def split: job_status.splits sum.splits option.splits)

lemma settle_stays: "exec_done x \<Longrightarrow> snd (settle_job st x) = x"
  by (auto simp: settle_job_def exec_set_def Let_def split: job_status.splits sum.splits option.splits)

lemma settle_progress: "settle_job InProgress x = (Inr (), x)"
  by (simp add: settle_job_def Let_def)

text \<open>A report that the job of a running future has ended settles the future.\<close>

lemma report_settles:
  assumes n: "n < length (ab_monitors s)" and r: "reports (ab_monitors s ! n) f st answer" and st: "st \<noteq> InProgress"
    and f: "dict_get (ab_futures s) f = Some ExecRunning"
  shows "exec_done (exec_state (poll_monitor n answer s) f)"
proof (cases "ab_monitors s ! n")
  case (JobMonitor j g t)
  then obtain "answer = JobAnswer (JobIs st)" "g = f" using r by (cases "(ab_monitors s ! n, f, st, answer)" rule: reports.cases) auto
  then show ?thesis using JobMonitor n f settle_done [OF st]
    by (auto simp: poll_monitor_def poll_job_def exec_state_def split: prod.splits sum.splits)
next
  case (ArrayMonitor j ids futures resolved)
  then obtain i where i: "answer = ArrayAnswer [Inr [(i, st)]]" "i < length ids" "dict_get futures (ids ! i) = Some f"
    using r by (cases "(ab_monitors s ! n, f, st, answer)" rule: reports.cases) auto
  then show ?thesis using ArrayMonitor n f settle_done [OF st]
    by (auto simp: poll_monitor_def poll_child_def exec_state_def exec_done_def [of ExecRunning] after_round_def seq_run split: prod.splits sum.splits)
qed

text \<open>Futures are numbered, keep their numbers and stay as they are once done.\<close>

definition advances :: "(nat, exec_future) dict \<Rightarrow> (nat, exec_future) dict \<Rightarrow> bool" where
  "advances fs fs' \<longleftrightarrow> map fst fs' = map fst fs \<and> (\<forall>f x. dict_get fs f = Some x \<and> exec_done x \<longrightarrow> dict_get fs' f = Some x)"

lemma advances_refl [simp]: "advances fs fs"
  by (simp add: advances_def)

lemma advances_trans: "advances fs fs' \<Longrightarrow> advances fs' fs'' \<Longrightarrow> advances fs fs''"
  by (auto simp: advances_def)

lemma advances_has: "advances fs fs' \<Longrightarrow> dict_has fs' f = dict_has fs f"
  by (simp add: advances_def dict_has_def)

lemma advances_running: "advances fs fs' \<Longrightarrow> dict_get fs' f = Some ExecRunning \<Longrightarrow> dict_get fs f = Some ExecRunning"
proof -
  assume a: "advances fs fs'" and f: "dict_get fs' f = Some ExecRunning"
  have "dict_has fs f" using advances_has [OF a, of f] dict_hasI [OF f] by simp
  then obtain x where "dict_get fs f = Some x" by (auto simp: dict_has_iff)
  then show ?thesis using a f by (cases "exec_done x") (auto simp: advances_def exec_done_def)
qed

lemma advances_set: "dict_get fs f = Some x \<Longrightarrow> exec_done x \<longrightarrow> y = x \<Longrightarrow> advances fs (dict_set f y fs)"
proof -
  assume f: "dict_get fs f = Some x" and y: "exec_done x \<longrightarrow> y = x"
  from f have "dict_has fs f" by (rule dict_hasI)
  then have "map fst (dict_set f y fs) = map fst fs" by (simp add: dict_has_def dict_set_def update_keys)
  then show ?thesis using f y by (auto simp: advances_def)
qed

text \<open>A monitor knows futures there are, and counts as resolved only jobs whose futures are done.\<close>

fun monitor_ok :: "(nat, exec_future) dict \<Rightarrow> job_monitor \<Rightarrow> bool" where
  "monitor_ok fs (JobMonitor j f t) = dict_has fs f"
| "monitor_ok fs (ArrayMonitor j ids futures resolved) =
     (distinct resolved \<and> (\<forall>i\<in>set resolved. i < length ids) \<and> (\<forall>t f. dict_get futures t = Some f \<longrightarrow> dict_has fs f) \<and>
      (\<forall>i\<in>set resolved. \<forall>f. dict_get futures (ids ! i) = Some f \<longrightarrow> dict_get fs f \<noteq> Some ExecRunning))"

lemma monitor_ok_advances: "monitor_ok fs m \<Longrightarrow> advances fs fs' \<Longrightarrow> monitor_ok fs' m"
  by (cases m) (auto simp: advances_has dest: advances_running)

definition aws_backend_ok :: "aws_backend \<Rightarrow> bool" where
  "aws_backend_ok s \<longleftrightarrow> map fst (ab_futures s) = [0..<length (ab_futures s)] \<and> distinct (map (\<lambda>p. taskId (fst p)) (ab_pending s)) \<and>
     (\<forall>p\<in>set (ab_pending s). dict_has (ab_futures s) (snd p)) \<and> (\<forall>m\<in>set (ab_monitors s). monitor_ok (ab_futures s) m) \<and>
     (\<forall>f. dict_get (ab_futures s) f = Some ExecRunning \<longrightarrow> f \<in> snd ` set (ab_pending s) \<or> (\<exists>m\<in>set (ab_monitors s). watches f m))"

lemma backend_init: "aws_backend_ok aws_init"
  by (simp add: aws_backend_ok_def aws_init_def)

lemma backend_advances: "aws_backend_ok s \<Longrightarrow> advances (ab_futures s) fs \<Longrightarrow> aws_backend_ok (s\<lparr>ab_futures := fs\<rparr>)"
proof -
  assume s: "aws_backend_ok s" and a: "advances (ab_futures s) fs"
  have "map fst fs = map fst (ab_futures s)" using a by (simp add: advances_def)
  moreover from this have "length fs = length (ab_futures s)" by (metis length_map)
  ultimately show ?thesis using s advances_has [OF a] advances_running [OF a] monitor_ok_advances [OF _ a] by (auto simp: aws_backend_ok_def)
qed

text \<open>A monitor may leave when it watches no running future, and change when it still watches those it did.\<close>

lemma backend_dropped:
  assumes "aws_backend_ok s" "n < length (ab_monitors s)" "\<And>f. watches f (ab_monitors s ! n) \<Longrightarrow> dict_get (ab_futures s) f \<noteq> Some ExecRunning"
  shows "aws_backend_ok (s\<lparr>ab_monitors := take n (ab_monitors s) @ drop (n + 1) (ab_monitors s)\<rparr>)"
proof -
  have "set (ab_monitors s) = insert (ab_monitors s ! n) (set (take n (ab_monitors s) @ drop (n + 1) (ab_monitors s)))"
    using assms(2) by (subst id_take_nth_drop [OF assms(2)]) simp
  then show ?thesis using assms(1,3) unfolding aws_backend_ok_def by auto
qed

lemma backend_changed:
  assumes "aws_backend_ok s" "n < length (ab_monitors s)" "monitor_ok (ab_futures s) m"
    and "\<And>f. watches f (ab_monitors s ! n) \<Longrightarrow> dict_get (ab_futures s) f = Some ExecRunning \<Longrightarrow> watches f m"
  shows "aws_backend_ok (s\<lparr>ab_monitors := (ab_monitors s)[n := m]\<rparr>)"
proof -
  have split: "set (ab_monitors s) = insert (ab_monitors s ! n) (set (take n (ab_monitors s)) \<union> set (drop (Suc n) (ab_monitors s)))"
    using assms(2) by (subst id_take_nth_drop [OF assms(2)]) simp
  have "set ((ab_monitors s)[n := m]) = insert m (set (take n (ab_monitors s)) \<union> set (drop (Suc n) (ab_monitors s)))"
    using assms(2) by (simp add: upd_conv_take_nth_drop)
  then show ?thesis using assms(1,3,4) split unfolding aws_backend_ok_def by auto
qed

subsection \<open>Rounds of the monitors\<close>

lemma exec_state_has: "dict_has (ab_futures s) f \<Longrightarrow> dict_get (ab_futures s) f = Some (exec_state s f)"
  by (auto simp: exec_state_def dict_has_iff)

lemma poll_job_facts:
  assumes "poll_job a x = (y, ended)"
  shows "exec_done x \<longrightarrow> y = x \<and> \<not> ended" "ended \<longrightarrow> exec_done y"
proof -
  have settled: "exec_done x \<Longrightarrow> st \<noteq> InProgress \<Longrightarrow> \<exists>e. settle_job st x = (Inl e, x)" for st
    by (auto simp: settle_job_def exec_set_def Let_def split: job_status.splits sum.splits option.splits)
  show "exec_done x \<longrightarrow> y = x \<and> \<not> ended"
  proof (cases a)
    case (JobIs st)
    then show ?thesis using assms settled [of st] by (cases "st = InProgress") (auto simp: poll_job_def settle_progress)
  qed (use assms in \<open>auto simp: poll_job_def\<close>)
  show "ended \<longrightarrow> exec_done y"
  proof (cases a)
    case (JobIs st)
    then show ?thesis using assms settled [of st] settle_done [of st] by (cases x) (auto simp: poll_job_def exec_done_def split: prod.splits sum.splits)
  qed (use assms in \<open>auto simp: poll_job_def\<close>)
qed

lemma poll_child_keeps:
  assumes "advances fs0 (snd p)" "monitor_ok (snd p) (ArrayMonitor j ids futures (fst p))"
  shows "sat (\<lambda>_ p. advances fs0 (snd p) \<and> monitor_ok (snd p) (ArrayMonitor j ids futures (fst p)))
    (\<lambda>p. advances fs0 (snd p) \<and> monitor_ok (snd p) (ArrayMonitor j ids futures (fst p))) (poll_child ids futures child p)"
proof -
  obtain i st resolved fs where c: "child = (i, st)" "p = (resolved, fs)" by (cases child, cases p) auto
  have ok: "advances fs0 fs" "monitor_ok fs (ArrayMonitor j ids futures resolved)" using assms c by simp_all
  show ?thesis
  proof (cases "i < length ids")
    case False
    then show ?thesis using ok c by (simp add: poll_child_def)
  next
    case i: True
    show ?thesis
    proof (cases "dict_get futures (ids ! i)")
      case None
      then show ?thesis using ok c i by (auto simp: poll_child_def)
    next
      case (Some f)
      then have "dict_has fs f" using ok(2) by simp
      then obtain x where x: "dict_get fs f = Some x" by (auto simp: dict_has_iff)
      show ?thesis
      proof (cases "exec_done x")
        case True
        then show ?thesis using ok c i Some x by (auto simp: poll_child_def exec_done_def)
      next
        case False
        then have run: "x = ExecRunning" by (simp add: exec_done_def)
        have adv: "advances fs (dict_set f y fs)" for y using x False by (intro advances_set) auto
        have mon: "monitor_ok (dict_set f y fs) (ArrayMonitor j ids futures resolved)" for y by (rule monitor_ok_advances [OF ok(2) adv])
        obtain r y where y: "settle_job st x = (r, y)" by force
        then have "st = InProgress \<or> exec_done y" using settle_done [of st] run by (cases "st = InProgress") auto
        then have mon': "st \<noteq> InProgress \<Longrightarrow> monitor_ok (dict_set f y fs) (ArrayMonitor j ids futures (set_add i resolved))"
          using mon [of y] i Some by (auto simp: exec_done_def)
        show ?thesis using c i Some x False y mon [of y] mon' advances_trans [OF ok(1) adv]
          by (cases r) (simp_all add: poll_child_def del: monitor_ok.simps)
      qed
    qed
  qed
qed

lemma poll_chunks_keep:
  fixes fs0 j ids futures
  defines "I \<equiv> \<lambda>p. advances fs0 (snd p) \<and> monitor_ok (snd p) (ArrayMonitor j ids futures (fst p))"
  assumes "I p"
  shows "sat (\<lambda>_. I) I (poll_chunks ids futures answers p)"
  using assms(2)
proof (induction answers arbitrary: p)
  case (Cons a answers)
  show ?case
  proof (cases a)
    case (Inl e)
    then show ?thesis using Cons.prems by simp
  next
    case (Inr children)
    have step: "sat (\<lambda>_. I) I (poll_child ids futures c q)" if "I q" for c q using poll_child_keeps [of fs0 q j ids futures c] that by (simp add: I_def)
    have "sat (\<lambda>_. I) I (seq (for_each children (poll_child ids futures)) (poll_chunks ids futures answers) p)"
      by (rule sat_seq, rule sat_for_each [OF step]) (use Cons in auto)
    then show ?thesis using Inr by simp
  qed
qed simp

lemma backend_poll:
  assumes s: "aws_backend_ok s"
  shows "aws_backend_ok (poll_monitor n answer s)"
proof (cases "n < length (ab_monitors s)")
  case n: True
  let ?m = "ab_monitors s ! n"
  have m: "monitor_ok (ab_futures s) ?m" using s n by (auto simp: aws_backend_ok_def)
  show ?thesis
  proof (cases ?m)
    case (JobMonitor j f t)
    show ?thesis
    proof (cases answer)
      case (JobAnswer a)
      obtain y ended where y: "poll_job a (exec_state s f) = (y, ended)" by force
      let ?s = "s\<lparr>ab_futures := dict_set f y (ab_futures s)\<rparr>"
      have "advances (ab_futures s) (dict_set f y (ab_futures s))"
        using m JobMonitor exec_state_has [of s f] poll_job_facts(1) [OF y] by (intro advances_set) auto
      then have ok: "aws_backend_ok ?s" by (rule backend_advances [OF s])
      have "aws_backend_ok (?s\<lparr>ab_monitors := take n (ab_monitors ?s) @ drop (n + 1) (ab_monitors ?s)\<rparr>)" if ended
        using that n JobMonitor poll_job_facts(2) [OF y] by (intro backend_dropped [OF ok]) (auto simp: exec_done_def)
      then show ?thesis using n JobMonitor JobAnswer y ok by (auto simp: poll_monitor_def)
    qed (use n JobMonitor s in \<open>simp add: poll_monitor_def\<close>)
  next
    case (ArrayMonitor j ids futures resolved)
    show ?thesis
    proof (cases answer)
      case (ArrayAnswer answers)
      obtain resolved' fs where r: "after_round (poll_chunks ids futures answers (resolved, ab_futures s)) (resolved, ab_futures s) = (resolved', fs)" by force
      have "advances (ab_futures s) fs \<and> monitor_ok fs (ArrayMonitor j ids futures resolved')"
        using poll_chunks_keep [of "ab_futures s" "(resolved, ab_futures s)" j ids futures answers] m r ArrayMonitor
        by (cases "poll_chunks ids futures answers (resolved, ab_futures s)") (simp_all add: after_round_def del: monitor_ok.simps)
      then have adv: "advances (ab_futures s) fs" and mon: "monitor_ok fs (ArrayMonitor j ids futures resolved')" by simp_all
      let ?s = "s\<lparr>ab_futures := fs\<rparr>"
      have ok: "aws_backend_ok ?s" by (rule backend_advances [OF s adv])
      have watch: "watches f (ArrayMonitor j ids futures resolved')" if "watches f ?m" "dict_get fs f = Some ExecRunning" for f
        using that mon ArrayMonitor by auto
      have all: "i \<in> set resolved'" if "length ids \<le> length resolved'" "i < length ids" for i
      proof -
        have "set resolved' \<subseteq> {..<length ids}" "card (set resolved') = length resolved'" using mon by (auto simp: distinct_card)
        moreover from this have "length resolved' \<le> length ids" using card_mono [of "{..<length ids}" "set resolved'"] by simp
        ultimately have "set resolved' = {..<length ids}" using that(1) by (intro card_subset_eq) auto
        then show ?thesis using that(2) by simp
      qed
      show ?thesis
      proof (cases "length ids \<le> length resolved'")
        case True
        have "\<not> watches f (ArrayMonitor j ids futures resolved')" for f using all [OF True] by auto
        then have "aws_backend_ok (?s\<lparr>ab_monitors := take n (ab_monitors ?s) @ drop (n + 1) (ab_monitors ?s)\<rparr>)"
          using n watch by (intro backend_dropped [OF ok]) (auto simp del: watches.simps)
        then show ?thesis using n ArrayMonitor ArrayAnswer r True by (simp add: poll_monitor_def)
      next
        case False
        have "aws_backend_ok (?s\<lparr>ab_monitors := (ab_monitors ?s)[n := ArrayMonitor j ids futures resolved']\<rparr>)"
          using n watch mon by (intro backend_changed [OF ok]) (auto simp del: watches.simps monitor_ok.simps)
        then show ?thesis using n ArrayMonitor ArrayAnswer r False by (simp add: poll_monitor_def)
      qed
    qed (use n ArrayMonitor s in \<open>simp add: poll_monitor_def\<close>)
  qed
qed (use s in \<open>simp add: poll_monitor_def\<close>)

subsection \<open>Submitting the batch\<close>

lemma futures_of_distinct:
  "distinct (map (\<lambda>p. taskId (fst p)) pending) \<Longrightarrow> futures_of pending = map (\<lambda>p. (taskId (fst p), snd p)) pending"
proof (induction pending rule: rev_induct)
  case Nil
  show ?case by (simp add: futures_of_def)
next
  case (snoc p pending)
  then have "futures_of pending = map (\<lambda>p. (taskId (fst p), snd p)) pending" by simp
  moreover have "\<not> dict_has (map (\<lambda>p. (taskId (fst p), snd p)) pending) (taskId (fst p))" using snoc.prems by (auto simp: dict_has_def)
  ultimately show ?case by (simp add: futures_of_def dict_set_absent)
qed

lemma fail_all:
  assumes "\<And>kv. kv \<in> set kvs \<Longrightarrow> dict_has (ab_futures s) (snd kv)"
  shows "\<exists>fs. fold (\<lambda>kv. fail_pending e (snd kv)) kvs s = s\<lparr>ab_futures := fs\<rparr> \<and> advances (ab_futures s) fs \<and>
    (\<forall>kv\<in>set kvs. dict_get fs (snd kv) \<noteq> Some ExecRunning)"
  using assms
proof (induction kvs arbitrary: s)
  case Nil
  show ?case by (intro exI [of _ "ab_futures s"]) simp
next
  case (Cons kv kvs)
  let ?f = "snd kv"
  let ?fs = "ab_futures (fail_pending e ?f s)"
  have x: "dict_get (ab_futures s) ?f = Some (exec_state s ?f)" using Cons.prems by (intro exec_state_has) simp
  have one: "fail_pending e ?f s = s\<lparr>ab_futures := ?fs\<rparr>" by (simp add: fail_pending_def)
  have adv: "advances (ab_futures s) ?fs" using x advances_set [OF x, of "ExecException e"] by (auto simp: fail_pending_def)
  have settled: "dict_get ?fs ?f \<noteq> Some ExecRunning" using x by (auto simp: fail_pending_def exec_done_def)
  have "\<And>kv. kv \<in> set kvs \<Longrightarrow> dict_has ?fs (snd kv)" using Cons.prems advances_has [OF adv] by simp
  from Cons.IH [OF this] obtain fs where fs: "fold (\<lambda>kv. fail_pending e (snd kv)) kvs (fail_pending e ?f s) = (fail_pending e ?f s)\<lparr>ab_futures := fs\<rparr>"
      "advances ?fs fs" "\<forall>kv\<in>set kvs. dict_get fs (snd kv) \<noteq> Some ExecRunning" by blast
  have "(fail_pending e ?f s)\<lparr>ab_futures := fs\<rparr> = s\<lparr>ab_futures := fs\<rparr>" by (subst one) simp
  then show ?case using fs settled advances_running [OF fs(2), of ?f] advances_trans [OF adv fs(2)] by (intro exI [of _ fs]) auto
qed

lemma backend_handed:
  assumes "aws_backend_ok s" "monitor_ok (ab_futures s) m" "\<And>f. f \<in> snd ` set (ab_pending s) \<Longrightarrow> watches f m"
  shows "aws_backend_ok (s\<lparr>ab_pending := [], ab_jobs := jobs, ab_monitors := ab_monitors s @ [m]\<rparr>)"
proof -
  have "watches f m \<or> (\<exists>m\<in>set (ab_monitors s). watches f m)" if "dict_get (ab_futures s) f = Some ExecRunning" for f
    using that assms(1,3) unfolding aws_backend_ok_def by blast
  then show ?thesis using assms(1,2) by (simp add: aws_backend_ok_def)
qed

lemma backend_flush:
  assumes s: "aws_backend_ok s"
  shows "aws_backend_ok (flush_pending_batch fa s)" "ab_pending (flush_pending_batch fa s) = []"
proof -
  let ?p = "ab_pending s" and ?s = "s\<lparr>ab_pending := []\<rparr>" and ?ids = "map (\<lambda>p. taskId (fst p)) (ab_pending s)"
  have d: "distinct ?ids" and has: "\<forall>p\<in>set ?p. dict_has (ab_futures s) (snd p)" using s by (simp_all add: aws_backend_ok_def)
  note futures = futures_of_distinct [OF d]
  have "aws_backend_ok (flush_pending_batch fa s) \<and> ab_pending (flush_pending_batch fa s) = []"
  proof (cases "?p = []")
    case False
    show ?thesis
    proof (cases "submit_job fa")
      case (Inl e)
      have "\<And>kv. kv \<in> set (futures_of ?p) \<Longrightarrow> dict_has (ab_futures ?s) (snd kv)" using has by (auto simp: futures)
      from fail_all [OF this, of "futures_of ?p" e] obtain fs where fs: "fold (\<lambda>kv. fail_pending e (snd kv)) (futures_of ?p) ?s = ?s\<lparr>ab_futures := fs\<rparr>"
          "advances (ab_futures s) fs" "\<forall>kv\<in>set (futures_of ?p). dict_get fs (snd kv) \<noteq> Some ExecRunning" by auto
      have "\<forall>p\<in>set ?p. dict_get fs (snd p) \<noteq> Some ExecRunning" using fs(3) by (simp add: futures)
      then have "aws_backend_ok (?s\<lparr>ab_futures := fs\<rparr>)" using backend_advances [OF s fs(2)] by (auto simp: aws_backend_ok_def)
      then show ?thesis using fs(1) False Inl by (simp add: flush_pending_batch_def flush_batch_def)
    next
      case (Inr j)
      show ?thesis
      proof (cases "length ?p \<ge> ARRAY_JOB_MIN_BATCH_SIZE")
        case True
        let ?m = "ArrayMonitor j ?ids (futures_of ?p) []"
        have at: "dict_get (futures_of ?p) (?ids ! i) = Some (snd (?p ! i))" if "i < length ?p" for i
          using that d by (intro dict_get_in_set) (auto simp: futures dict_ok_def comp_def)
        have "watches f ?m" if f: "f \<in> snd ` set ?p" for f
        proof -
          obtain i where "i < length ?p" "f = snd (?p ! i)" using f by (auto simp: in_set_conv_nth)
          then show ?thesis using at by auto
        qed
        moreover have "monitor_ok (ab_futures s) ?m" using has dict_get_SomeD [of "futures_of ?p"] by (fastforce simp: futures)
        ultimately show ?thesis using backend_handed [OF s, of ?m] False Inr True by (simp add: flush_pending_batch_def flush_batch_def Let_def)
      next
        case one: False
        then obtain task f where p: "?p = [(task, f)]" using False by (cases ?p) (auto simp: ARRAY_JOB_MIN_BATCH_SIZE_def not_le)
        then show ?thesis using backend_handed [OF s, of "JobMonitor j f (taskId task)"] has one Inr
          by (simp add: flush_pending_batch_def flush_batch_def ARRAY_JOB_MIN_BATCH_SIZE_def)
      qed
    qed
  qed (use s in \<open>simp add: flush_pending_batch_def\<close>)
  then show "aws_backend_ok (flush_pending_batch fa s)" "ab_pending (flush_pending_batch fa s) = []" by simp_all
qed

subsection \<open>Runs\<close>

text \<open>A task is not handed over a second time while its first execution waits to be submitted.\<close>

fun fresh_when_pending :: "aws_input list \<Rightarrow> aws_backend \<Rightarrow> bool" where
  "fresh_when_pending [] s = True"
| "fresh_when_pending (i # inputs) s =
     ((case i of AwsExecute now fa task \<Rightarrow> taskId task \<notin> (\<lambda>p. taskId (fst p)) ` set (ab_pending s) | _ \<Rightarrow> True) \<and> fresh_when_pending inputs (aws_perform i s))"

lemma backend_execute:
  assumes s: "aws_backend_ok s" and new: "taskId task \<notin> (\<lambda>p. taskId (fst p)) ` set (ab_pending s)"
  shows "aws_backend_ok (aws_perform (AwsExecute now fa task) s)"
proof -
  let ?n = "length (ab_futures s)"
  let ?fs = "ab_futures s @ [(?n, ExecRunning)]"
  have keys: "map fst (ab_futures s) = [0..<?n]" using s by (simp add: aws_backend_ok_def)
  then have absent: "\<not> dict_has (ab_futures s) ?n" by (simp add: dict_has_def)
  then have fs: "?fs = dict_set ?n ExecRunning (ab_futures s)" by (simp add: dict_set_absent)
  have "dict_get (ab_futures s) ?n = None" using absent by (simp add: dict_has_iff)
  then have mon: "monitor_ok ?fs m" if "monitor_ok (ab_futures s) m" for m using that absent by (cases m) (auto simp: fs)
  have get: "dict_get ?fs f = (if f = ?n then Some ExecRunning else dict_get (ab_futures s) f)" "dict_has ?fs f \<longleftrightarrow> f = ?n \<or> dict_has (ab_futures s) f" for f
    unfolding fs by simp_all
  have "aws_backend_ok (s\<lparr>ab_futures := ?fs, ab_pending := ab_pending s @ [(task, ?n)], ab_window_start := w\<rparr>)" for w
    using s new mon keys by (auto simp: aws_backend_ok_def get)
  from this [of now] this [of "ab_window_start s"] show ?thesis
    by (auto simp: aws_execute_def Let_def intro: backend_flush(1))
qed

lemma backend_step:
  assumes "aws_backend_ok s" "fresh_when_pending (i # inputs) s"
  shows "aws_backend_ok (aws_perform i s)"
proof (cases i)
  case (AwsExecute now fa task)
  then show ?thesis using assms backend_execute by simp
next
  case (AwsCancel ok tc)
  then show ?thesis using assms(1) by (auto simp: aws_on_cancel_def aws_backend_ok_def split: option.split)
next
  case (AwsCleanup t)
  then show ?thesis using assms(1) by (auto simp: aws_on_cleanup_def aws_backend_ok_def)
next
  case (AwsRoutine now fa)
  then show ?thesis using assms(1) backend_flush by (simp add: aws_routine_def)
next
  case (AwsPoll n a)
  then show ?thesis using backend_poll [OF assms(1)] by simp
qed

lemma backend_run: "aws_backend_ok s \<Longrightarrow> fresh_when_pending inputs s \<Longrightarrow> aws_backend_ok (fold aws_perform inputs s)"
proof (induction inputs arbitrary: s)
  case (Cons i inputs)
  have "aws_backend_ok (aws_perform i s)" by (rule backend_step [OF Cons.prems])
  then show ?case using Cons by simp
qed simp

section \<open>Faults of the batch backend\<close>

text \<open>A monitor of one job does nothing more, and does not return, once the future is done.\<close>

lemma stuck_poll:
  assumes "n < length (ab_monitors s)" "ab_monitors s ! n = JobMonitor j f t" "dict_get (ab_futures s) f = Some x" "exec_done x"
  shows "ab_monitors (poll_monitor n a s) = ab_monitors s \<and> dict_get (ab_futures (poll_monitor n a s)) f = Some x"
proof (cases a)
  case (JobAnswer b)
  have "exec_state s f = x" using assms(3) by (simp add: exec_state_def)
  then obtain y ended where y: "poll_job b x = (y, ended)" "exec_state s f = x" by force
  then show ?thesis using assms JobAnswer poll_job_facts(1) [OF y(1)] by (simp add: poll_monitor_def)
qed (use assms in \<open>simp add: poll_monitor_def\<close>)

lemma stuck_polls:
  assumes "n < length (ab_monitors s)" "ab_monitors s ! n = JobMonitor j f t" "dict_get (ab_futures s) f = Some x" "exec_done x"
  shows "ab_monitors (fold (poll_monitor n) answers s) = ab_monitors s"
  using assms
proof (induction answers arbitrary: s)
  case (Cons a answers)
  have "ab_monitors (poll_monitor n a s) = ab_monitors s" "dict_get (ab_futures (poll_monitor n a s)) f = Some x"
    using stuck_poll [OF Cons.prems] by blast+
  then show ?case using Cons.IH [of "poll_monitor n a s"] Cons.prems by simp
qed simp

text \<open>The result is set, then its object cannot be deleted: the monitor is stuck.\<close>

lemma delete_failure:
  assumes "n < length (ab_monitors s)" "ab_monitors s ! n = JobMonitor j f t" "dict_get (ab_futures s) f = Some ExecRunning"
    and s': "s' = poll_monitor n (JobAnswer (JobIs (Succeeded (Inr v) (Some e)))) s"
  shows "dict_get (ab_futures s') f = Some (ExecResult v)" "ab_monitors (fold (poll_monitor n) answers s') = ab_monitors s"
proof -
  have p: "poll_job (JobIs (Succeeded (Inr v) (Some e))) (exec_state s f) = (ExecResult v, False)"
    using assms(3) by (simp add: poll_job_def settle_job_def exec_set_def exec_done_def exec_state_def)
  show f: "dict_get (ab_futures s') f = Some (ExecResult v)" using assms(1,2) p by (simp add: s' poll_monitor_def)
  have m: "ab_monitors s' = ab_monitors s" using assms(1,2) p by (simp add: s' poll_monitor_def)
  show "ab_monitors (fold (poll_monitor n) answers s') = ab_monitors s"
    using stuck_polls [of n s' j f t "ExecResult v" answers] assms(1,2) f m by (simp add: exec_done_def)
qed

text \<open>A task that is cancelled and forgotten while it waits is submitted all the same, and its job stays registered.\<close>

lemma cancelled_submitted:
  assumes p: "ab_pending s = [(task, f)]" and "dict_get (ab_jobs s) (taskId task) = None" "cancel_taskId tc = taskId task" "submit_job fa = Inr j"
    and "now - ab_window_start s \<ge> ARRAY_JOB_BATCH_WINDOW"
  shows "fold aws_perform [AwsCancel ok tc, AwsCleanup (taskId task), AwsRoutine now fa] s =
    s\<lparr>ab_pending := [], ab_jobs := dict_set (taskId task) j (ab_jobs s), ab_monitors := ab_monitors s @ [JobMonitor j f (taskId task)]\<rparr>"
proof -
  have absent: "dict_pop (taskId task) (ab_jobs s) = ab_jobs s" using assms(2) by (intro dict_pop_absent) (simp add: dict_has_iff)
  then have "s\<lparr>ab_jobs := dict_pop (taskId task) (ab_jobs s)\<rparr> = s" by simp
  then show ?thesis using assms absent
    by (simp add: aws_on_cancel_def aws_on_cleanup_def aws_routine_def flush_pending_batch_def flush_batch_def ARRAY_JOB_MIN_BATCH_SIZE_def)
qed

text \<open>The runner of a child job does not decompress a large payload.\<close>

lemma large_child_fails:
  assumes ok: "config_ok env" "CHR ''_'' \<notin> set array_id" and sub: "submit_array_job env array_id batch s3 = (params, s3')" and i: "i < length batch"
    and large: "length (he_dumps env (batch ! i)) > 4096" and run: "he_run env (he_gzip env (he_dumps env (batch ! i))) = Inl e"
  shows "fst (batch_main env params job_id (Some (nat_str i)) s3') = 1"
  using array_payload [OF ok sub i] large run by (simp add: batch_main_def Let_def compress_large_def)

text \<open>The result of a small one gets back.\<close>

lemma result_key_array: "array_key env array_id i \<notin> set (batch_result_keys env job_id)"
  by (auto simp: array_key_def array_prefix_def batch_result_keys_def)

lemma put_array_result: "k \<in> set (batch_result_keys env job_id) \<Longrightarrow> dict_get (put_array_payloads env array_id n batch s3) k = dict_get s3 k"
  using result_key_array by (intro put_array_other) metis

lemma small_child_result:
  assumes ok: "gzip_ok env" "config_ok env" "CHR ''_'' \<notin> set array_id" and sub: "submit_array_job env array_id batch s3 = (params, s3')" and i: "i < length batch"
    and small: "length (he_dumps env (batch ! i)) \<le> 4096" and run: "he_run env (he_dumps env (batch ! i)) = Inr r" "pickled r"
    and fresh: "\<And>k. k \<in> set (batch_result_keys env job_id) \<Longrightarrow> dict_get s3 k = None"
  shows "\<exists>s3''. batch_main env params job_id (Some (nat_str i)) s3' = (0, s3'') \<and> fetch_batch_result env job_id s3'' = Inr r"
proof (rule main_result [OF ok(1,2) _ run])
  show "runner_get_payload env (parse_args params) (Some (nat_str i)) s3' = Inr (he_dumps env (batch ! i), dict_pop (array_key env array_id i) s3')"
    using array_payload [OF ok(2,3) sub i] small by (simp add: compress_large_def)
  show "jp_s3_bucket params = he_bucket env" "jp_s3_prefix params = he_prefix env" using sub by (auto simp: submit_array_job_def)
  show "dict_get (dict_pop (array_key env array_id i) s3') k = None" if "k \<in> set (batch_result_keys env job_id)" for k
    using that sub fresh [OF that] put_array_result [OF that, of array_id 0 batch s3] by (auto simp: submit_array_job_def)
qed

lemma single_result:
  assumes ok: "gzip_ok env" "config_ok env" "3 < length (he_dumps env task)" and sub: "submit_single_batch_job env task s3 = (params, s3')"
    and run: "he_run env (he_dumps env task) = Inr r" "pickled r" and fresh: "\<And>k. k \<in> set (batch_result_keys env job_id) \<Longrightarrow> dict_get s3 k = None"
  shows "\<exists>s3''. batch_main env params job_id None s3' = (0, s3'') \<and> fetch_batch_result env job_id s3'' = Inr r"
proof -
  obtain s3'' where get: "runner_get_payload env (parse_args params) None s3' = Inr (he_dumps env task, s3'')" "\<forall>k. dict_get s3 k = None \<longrightarrow> dict_get s3'' k = None"
    using single_payload [OF ok sub] by blast
  show ?thesis using get(2) fresh sub
    by (intro main_result [OF ok(1,2) get(1) run]) (auto simp: submit_single_batch_job_def Let_def split: prod.splits)
qed

section \<open>What becomes of a task that waits\<close>

lemma exec_state_fail: "exec_state (fail_pending e g s) f = (if f = g \<and> exec_state s f = ExecRunning then ExecException e else exec_state s f)"
  by (cases "exec_state s g = ExecRunning") (auto simp: fail_pending_def exec_done_def exec_state_def)

lemma exec_state_fail_all:
  "exec_state (fold (\<lambda>kv. fail_pending e (snd kv)) kvs s) f = (if f \<in> snd ` set kvs \<and> exec_state s f = ExecRunning then ExecException e else exec_state s f)"
  by (induction kvs arbitrary: s) (auto simp: exec_state_fail)

lemma routine_window:
  assumes s: "aws_backend_ok s" and f: "f \<in> snd ` set (ab_pending s)" "dict_get (ab_futures s) f = Some ExecRunning"
    and now: "now - ab_window_start s \<ge> ARRAY_JOB_BATCH_WINDOW"
  shows "case submit_job fa of
      Inl e \<Rightarrow> exec_state (aws_routine now fa s) f = ExecException e
    | Inr j \<Rightarrow> \<exists>m\<in>set (ab_monitors (aws_routine now fa s)). watches f m"
proof -
  let ?s = "s\<lparr>ab_pending := []\<rparr>"
  have r: "aws_routine now fa s = flush_pending_batch fa s" "ab_pending s \<noteq> []" using f(1) now by (auto simp: aws_routine_def)
  show ?thesis
  proof (cases "submit_job fa")
    case (Inl e)
    have "f \<in> snd ` set (futures_of (ab_pending s))" using s f(1) by (simp add: aws_backend_ok_def futures_of_distinct image_image)
    moreover have "exec_state ?s f = ExecRunning" using f(2) by (simp add: exec_state_def)
    ultimately show ?thesis using Inl r by (simp add: flush_pending_batch_def flush_batch_def exec_state_fail_all)
  next
    case (Inr j)
    have "ab_futures (aws_routine now fa s) = ab_futures s" using Inr r by (simp add: flush_pending_batch_def flush_batch_def Let_def split: list.split)
    then show ?thesis using backend_flush [OF s, of fa] f(2) Inr r(1) by (auto simp: aws_backend_ok_def)
  qed
qed

end
