(* ===== verification/BackendScenarios.thy ===== *)
theory BackendScenarios
  imports BackendRuns
begin

text \<open>A bucket, a compression and two tasks for the witnesses on backends.\<close>

definition hpc_task :: "string \<Rightarrow> Task" where
  "hpc_task t = \<lparr>taskId = t, task_source = ''client'', task_metadata = [], funcObjectId = ''f'', functionArgs = [], task_capabilities = []\<rparr>"

text \<open>The task \<open>L\<close> has a large payload. What is not a pickle of this bucket cannot be run.\<close>

definition hpc_demo :: hpc_env where
  "hpc_demo = \<lparr>he_dumps = (\<lambda>task. ''pickle '' @ (if taskId task = ''L'' then replicate 5000 CHR ''x'' else taskId task)),
     he_gzip = (\<lambda>b. [CHR 0x1F, CHR 0x8B, CHR ''z'', CHR ''z''] @ b), he_gunzip = (\<lambda>b. Inr (drop 4 b)),
     he_run = (\<lambda>b. if take 6 b = ''pickle'' then Inr (''result of '' @ drop 7 b) else Inl RuntimeError), he_error = (\<lambda>_. ''error''),
     he_bucket = ''tasks'', he_prefix = ''scaler-tasks''\<rparr>"

lemma hpc_demo_ok: "gzip_ok hpc_demo" "config_ok hpc_demo"
  by (simp_all add: gzip_ok_def config_ok_def hpc_demo_def ascii_lower_def)

lemma hpc_demo_payload: "he_dumps hpc_demo (hpc_task ''a'') = ''pickle a''" "he_run hpc_demo ''pickle a'' = Inr ''result of a''" "pickled ''result of a''"
  by (simp_all add: hpc_demo_def hpc_task_def pickled_def)

lemma hpc_demo_large:
  "length (he_dumps hpc_demo (hpc_task ''L'')) > 4096" "he_run hpc_demo (he_gzip hpc_demo (he_dumps hpc_demo (hpc_task ''L''))) = Inl RuntimeError"
  by (simp_all add: hpc_demo_def hpc_task_def)

definition accepting :: flush_answers where
  "accepting = \<lparr>fa_put = None, fa_submit = Expired RuntimeError, fa_retry = Accepted ''job''\<rparr>"

definition refusing :: flush_answers where
  "refusing = \<lparr>fa_put = Some RuntimeError, fa_submit = Accepted ''job'', fa_retry = Accepted ''job''\<rparr>"

text \<open>Two tasks are submitted together; then a third waits.\<close>

definition two_and_one :: "aws_input list" where
  "two_and_one = [AwsExecute 0 accepting (hpc_task ''a''), AwsExecute 10 accepting (hpc_task ''b''), AwsRoutine 600 accepting, AwsExecute 700 accepting (hpc_task ''c'')]"

definition one_waits :: aws_backend where
  "one_waits = fold aws_perform [AwsExecute 0 accepting (hpc_task ''a'')] aws_init"

definition one_submitted :: aws_backend where
  "one_submitted = aws_perform (AwsRoutine 600 accepting) one_waits"

lemma one_waits_facts: "ab_pending one_waits = [(hpc_task ''a'', 0)]" "ab_jobs one_waits = []" "ab_window_start one_waits = 0" "ab_monitors one_waits = []"
  by code_simp+

lemma one_submitted_facts: "ab_monitors one_submitted = [JobMonitor ''job'' 0 ''a'']" "ab_futures one_submitted = [(0, ExecRunning)]"
  by code_simp+

lemma accepting_job: "submit_job accepting = Inr ''job''"
  by code_simp

end
