(* ===== verification/BackendProperties.thy ===== *)
theory BackendProperties
  imports BackendScenarios
begin

text \<open>The properties of the backends that run tasks as AWS Batch jobs and as OCI container instances.\<close>



text \<open>C31: The monitor of a container instance ends without an exception, whatever the service answers: it settles the future exactly
  when it returns, deletes the instance at most once, and it has returned at the latest when a poll comes after
  the time limit or the state was unexpected five times.\<close>

theorem container_monitor_settles:
  assumes "monitor_container_instance job_timeout polls instance_monitor_new = (r, m)"
  shows "(r = None \<longleftrightarrow> im_future m = ExecRunning) \<and> (\<forall>e. r \<noteq> Some (Inl e)) \<and> im_deletes m \<le> 1 \<and>
    ((\<exists>p\<in>set polls. job_timeout < fst p) \<or> MAX_UNEXPECTED_STATE_COUNT \<le> length (filter (\<lambda>p. snd p = InstanceIs Unexpected) polls) \<longrightarrow> r = Some (Inr m))"
  using monitor_settles [OF _ _ assms] by (auto simp: instance_monitor_new_def MAX_UNEXPECTED_STATE_COUNT_def exec_done_def)

theorem container_monitor_settles_witness:
  "fst (monitor_container_instance 3600 [(2, InstanceError RuntimeError), (4, InstanceIs InstanceRunning), (3601, InstanceIs InstanceRunning)] instance_monitor_new) =
     Some (Inr (snd (monitor_container_instance 3600 [(2, InstanceError RuntimeError), (4, InstanceIs InstanceRunning), (3601, InstanceIs InstanceRunning)] instance_monitor_new)))"
  using container_monitor_settles [OF prod.collapse [symmetric], of 3600 "[(2, InstanceError RuntimeError), (4, InstanceIs InstanceRunning), (3601, InstanceIs InstanceRunning)]"]
  by (auto simp del: monitor_container_instance.simps)

text \<open>C32: The result of a task that succeeds gets from its runner back to the backend unchanged, whether payload and result are inline
  or in the bucket, compressed or not: from a job of AWS Batch, from a container instance, and from a child of an
  array job whose payload is small enough not to be compressed.\<close>

theorem job_results_roundtrip:
  assumes "gzip_ok env" "config_ok env" "taskId task \<noteq> []" "3 < length (he_dumps env task)" "he_run env (he_dumps env task) = Inr r" "pickled r"
    and "\<forall>k\<in>set (batch_result_keys env job_id). dict_get s3 k = None"
  shows "(\<forall>params s3'. submit_single_batch_job env task s3 = (params, s3') \<longrightarrow>
      (\<exists>s3''. batch_main env params job_id None s3' = (0, s3'') \<and> fetch_batch_result env job_id s3'' = Inr r)) \<and>
    (\<forall>iv s3'. create_container_instance env task s3 = (iv, s3') \<longrightarrow>
      (\<exists>s3''. instance_main env iv s3' = (0, s3'') \<and> fetch_instance_result env (taskId task) s3'' = Inr r)) \<and>
    (\<forall>array_id batch i params s3'. submit_array_job env array_id batch s3 = (params, s3') \<and> CHR ''_'' \<notin> set array_id \<and> i < length batch \<and> batch ! i = task \<and>
        length (he_dumps env task) \<le> 4096 \<longrightarrow>
      (\<exists>s3''. batch_main env params job_id (Some (nat_str i)) s3' = (0, s3'') \<and> fetch_batch_result env job_id s3'' = Inr r))"
  using single_result [OF assms(1,2,4) _ assms(5,6)] instance_result [OF assms(1,2,4,3) _ assms(5,6)] small_child_result [OF assms(1,2) _ _ _ _ _ assms(6)] assms(5,7)
  by blast

theorem job_results_roundtrip_witness:
  "\<exists>s3. batch_main hpc_demo (fst (submit_array_job hpc_demo ''b7'' [hpc_task ''b'', hpc_task ''a''] [])) ''job:1'' (Some (nat_str 1))
      (snd (submit_array_job hpc_demo ''b7'' [hpc_task ''b'', hpc_task ''a''] [])) = (0, s3) \<and> fetch_batch_result hpc_demo ''job:1'' s3 = Inr ''result of a''"
proof -
  have "taskId (hpc_task ''a'') \<noteq> []" "3 < length (he_dumps hpc_demo (hpc_task ''a''))" "he_run hpc_demo (he_dumps hpc_demo (hpc_task ''a'')) = Inr ''result of a''"
    "\<forall>k\<in>set (batch_result_keys hpc_demo ''job:1''). dict_get ([] :: bucket) k = None"
    by (simp_all add: hpc_demo_payload) (simp add: hpc_task_def)
  note round = job_results_roundtrip [OF hpc_demo_ok this(1-3) hpc_demo_payload(3) this(4), THEN conjunct2, THEN conjunct2, rule_format]
  show ?thesis by (rule round [of "''b7''" "[hpc_task ''b'', hpc_task ''a'']" _ _ 1]) (simp add: hpc_demo_payload)
qed

text \<open>C35: Three faults of the batch backend. A child of an array job whose payload was compressed is given the compressed bytes: it fails when they
  are not a payload themselves. The monitor of a single job whose result object cannot be deleted polls for ever after the result is set. And a task that is cancelled and
  cleaned up while it waits is submitted all the same, its job registered and watched.\<close>

theorem batch_backend_faults:
  "(config_ok env \<and> CHR ''_'' \<notin> set array_id \<and> submit_array_job env array_id batch s3 = (params, s3') \<and> i < length batch \<and>
      4096 < length (he_dumps env (batch ! i)) \<and> he_run env (he_gzip env (he_dumps env (batch ! i))) = Inl e \<longrightarrow>
      fst (batch_main env params job_id (Some (nat_str i)) s3') = 1) \<and>
   (n < length (ab_monitors s) \<and> ab_monitors s ! n = JobMonitor j f t \<and> dict_get (ab_futures s) f = Some ExecRunning \<and>
      s' = poll_monitor n (JobAnswer (JobIs (Succeeded (Inr v) (Some e)))) s \<longrightarrow>
      dict_get (ab_futures s') f = Some (ExecResult v) \<and> ab_monitors (fold (poll_monitor n) answers s') ! n = JobMonitor j f t) \<and>
   (ab_pending s = [(task, f)] \<and> dict_get (ab_jobs s) (taskId task) = None \<and> cancel_taskId tc = taskId task \<and> submit_job fa = Inr j \<and>
      ARRAY_JOB_BATCH_WINDOW \<le> now - ab_window_start s \<and>
      s'' = fold aws_perform [AwsCancel ok tc, AwsCleanup (taskId task), AwsRoutine now fa] s \<longrightarrow>
      dict_get (ab_jobs s'') (taskId task) = Some j \<and> JobMonitor j f (taskId task) \<in> set (ab_monitors s''))"
proof (intro conjI impI)
  assume h: "n < length (ab_monitors s) \<and> ab_monitors s ! n = JobMonitor j f t \<and> dict_get (ab_futures s) f = Some ExecRunning \<and>
      s' = poll_monitor n (JobAnswer (JobIs (Succeeded (Inr v) (Some e)))) s"
  then show "dict_get (ab_futures s') f = Some (ExecResult v)" "ab_monitors (fold (poll_monitor n) answers s') ! n = JobMonitor j f t"
    using delete_failure(1) [of n s j f t s' v e] delete_failure(2) [of n s j f t s' v e answers] by simp_all
qed (use large_child_fails cancelled_submitted in \<open>auto simp del: fold_simps fold.simps\<close>)

theorem batch_backend_faults_witness:
  "fst (batch_main hpc_demo (fst (submit_array_job hpc_demo ''b7'' [hpc_task ''a'', hpc_task ''L''] [])) ''job:1'' (Some (nat_str 1))
      (snd (submit_array_job hpc_demo ''b7'' [hpc_task ''a'', hpc_task ''L''] []))) = 1 \<and>
   ab_monitors (fold (poll_monitor 0) [JobAnswer NoJobs] (poll_monitor 0 (JobAnswer (JobIs (Succeeded (Inr ''r'') (Some RuntimeError)))) one_submitted)) ! 0 =
     JobMonitor ''job'' 0 ''a'' \<and>
   dict_get (ab_jobs (fold aws_perform [AwsCancel True \<lparr>cancel_taskId = ''a'', cancel_force = True\<rparr>, AwsCleanup ''a'', AwsRoutine 600 accepting] one_waits)) ''a'' = Some ''job''"
proof (intro conjI)
  have "submit_array_job hpc_demo ''b7'' [hpc_task ''a'', hpc_task ''L''] [] =
      (fst (submit_array_job hpc_demo ''b7'' [hpc_task ''a'', hpc_task ''L''] []), snd (submit_array_job hpc_demo ''b7'' [hpc_task ''a'', hpc_task ''L''] []))" by simp
  then show "fst (batch_main hpc_demo (fst (submit_array_job hpc_demo ''b7'' [hpc_task ''a'', hpc_task ''L''] [])) ''job:1'' (Some (nat_str 1))
      (snd (submit_array_job hpc_demo ''b7'' [hpc_task ''a'', hpc_task ''L''] []))) = 1"
    by (intro batch_backend_faults [THEN conjunct1, rule_format] conjI) (auto simp: hpc_demo_ok hpc_demo_large)
  show "ab_monitors (fold (poll_monitor 0) [JobAnswer NoJobs] (poll_monitor 0 (JobAnswer (JobIs (Succeeded (Inr ''r'') (Some RuntimeError)))) one_submitted)) ! 0 =
      JobMonitor ''job'' 0 ''a''"
    by (rule batch_backend_faults [where s = one_submitted and v = "''r''" and e = RuntimeError, THEN conjunct2, THEN conjunct1, rule_format, THEN conjunct2])
      (simp add: one_submitted_facts dict_get_Cons)
  show "dict_get (ab_jobs (fold aws_perform [AwsCancel True \<lparr>cancel_taskId = ''a'', cancel_force = True\<rparr>, AwsCleanup ''a'', AwsRoutine 600 accepting] one_waits)) ''a'' = Some ''job''"
    using batch_backend_faults [where s = one_waits and task = "hpc_task ''a''" and f = 0 and j = "''job''" and fa = accepting
        and now = 600 and ok = True and tc = "\<lparr>cancel_taskId = ''a'', cancel_force = True\<rparr>", THEN conjunct2, THEN conjunct2, rule_format, THEN conjunct1, OF conjI [OF one_waits_facts(1)]]
    by (simp add: one_waits_facts accepting_job ARRAY_JOB_BATCH_WINDOW_def hpc_task_def del: aws_perform.simps fold.simps)
qed

end
