(* ===== verification/ObjectServer.thy ===== *)
theory ObjectServer
  imports Encoding
begin

text \<open>
  The object storage server (\<open>src/src/cpp/scaler/object_storage\<close>: \<open>object_manager.cpp\<close>, \<open>object_storage_server.cpp\<close>, \<open>message.h\<close>): objects kept once per hash of
  their bytes, requests that wait for an object, and the loop over the messages of the clients.

  \<open>std::terminate\<close> and undefined behaviour are \<open>SystemError\<close>, an exception of Cap'n Proto is \<open>StructError\<close> and a \<open>std::runtime_error\<close> is
  \<open>RuntimeError\<close>. Cap'n Proto's encodings and \<open>std::hash\<close> are fields of an environment. What is sent is kept in the order of the sends; failed sends are only logged.
\<close>

section \<open>Messages\<close>

datatype request_type = SET_OBJECT | GET_OBJECT | DELETE_OBJECT | DUPLICATE_OBJECT_I_D | INFO_GET_TOTAL

datatype response_type = SET_O_K | GET_O_K | DEL_O_K | DEL_NOT_EXISTS | DUPLICATE_O_K | INFO_GET_TOTAL_O_K

record request_header =
  rq_objectID :: capnp_object_id
  rq_payloadLength :: nat
  rq_requestID :: nat
  rq_requestType :: request_type

record response_header =
  rs_objectID :: capnp_object_id
  rs_payloadLength :: nat
  rs_responseID :: nat
  rs_responseType :: response_type

record wire_env =
  we_request :: "request_header \<Rightarrow> bytes"
  we_request_of :: "bytes \<Rightarrow> request_header option"
  we_response :: "response_header \<Rightarrow> bytes"
  we_response_of :: "bytes \<Rightarrow> response_header option"
  we_object_id :: "capnp_object_id \<Rightarrow> bytes"
  we_object_id_of :: "bytes \<Rightarrow> capnp_object_id option"
  we_hash :: "bytes \<Rightarrow> nat"

definition memoryLimitInBytes :: nat where
  "memoryLimitInBytes = 6 * 2 ^ 40"

definition capnpObjectIDSize :: nat where
  "capnpObjectIDSize = 48"

definition capnpHeaderSize :: nat where
  "capnpHeaderSize = 80"

section \<open>Objects\<close>

record managed_object =
  mo_useCount :: nat
  mo_payload :: bytes

record object_manager =
  om_ids :: "(capnp_object_id, nat) dict"
  om_objects :: "(nat, managed_object) dict"
  om_total :: nat

type_synonym 'a manager_step = "('a, object_manager) comp"

definition manager_init :: object_manager where
  "manager_init = \<lparr>om_ids = [], om_objects = [], om_total = 0\<rparr>"

definition hasObject :: "capnp_object_id \<Rightarrow> object_manager \<Rightarrow> bool" where
  "hasObject c m = dict_has (om_ids m) c"

definition deleteObject :: "capnp_object_id \<Rightarrow> bool manager_step" where
  "deleteObject c m =
     (case dict_get (om_ids m) c of
        None \<Rightarrow> Ret False m
      | Some h \<Rightarrow>
          (case dict_get (om_objects m) h of
             None \<Rightarrow> Raise SystemError m
           | Some obj \<Rightarrow>
               let n = mo_useCount obj - 1;
                   m1 = (if n < 1 then m\<lparr>om_total := om_total m - length (mo_payload obj), om_objects := dict_pop h (om_objects m)\<rparr>
                         else m\<lparr>om_objects := dict_set h (obj\<lparr>mo_useCount := n\<rparr>) (om_objects m)\<rparr>)
               in Ret True (m1\<lparr>om_ids := dict_pop c (om_ids m1)\<rparr>)))"

definition setObject :: "(bytes \<Rightarrow> nat) \<Rightarrow> capnp_object_id \<Rightarrow> bytes \<Rightarrow> bytes manager_step" where
  "setObject hash c payload =
     andthen (\<lambda>m. if hasObject c m then deleteObject c m else Ret False m)
       (\<lambda>_ m. let h = hash payload; m1 = m\<lparr>om_ids := dict_set c h (om_ids m)\<rparr>
              in case dict_get (om_objects m1) h of
                   None \<Rightarrow> Ret payload (m1\<lparr>om_objects := dict_set h \<lparr>mo_useCount = 1, mo_payload = payload\<rparr> (om_objects m1), om_total := om_total m1 + length payload\<rparr>)
                 | Some obj \<Rightarrow> Ret (mo_payload obj) (m1\<lparr>om_objects := dict_set h (obj\<lparr>mo_useCount := mo_useCount obj + 1\<rparr>) (om_objects m1)\<rparr>))"

definition getObject :: "capnp_object_id \<Rightarrow> bytes option manager_step" where
  "getObject c m =
     (case dict_get (om_ids m) c of
        None \<Rightarrow> Ret None m
      | Some h \<Rightarrow> (case dict_get (om_objects m) h of None \<Rightarrow> Raise SystemError m | Some obj \<Rightarrow> Ret (Some (mo_payload obj)) m))"

text \<open>To override the original itself erases the entry that is read afterwards.\<close>

definition duplicateObject :: "capnp_object_id \<Rightarrow> capnp_object_id \<Rightarrow> bytes option manager_step" where
  "duplicateObject original new m =
     (case dict_get (om_ids m) original of
        None \<Rightarrow> Ret None m
      | Some h \<Rightarrow>
          andthen (\<lambda>m. if hasObject new m then deleteObject new m else Ret False m)
            (\<lambda>_ m. if new = original then Raise SystemError m
                   else (case dict_get (om_objects m) h of
                           None \<Rightarrow> Raise SystemError m
                         | Some obj \<Rightarrow>
                             Ret (Some (mo_payload obj))
                               (m\<lparr>om_objects := dict_set h (obj\<lparr>mo_useCount := mo_useCount obj + 1\<rparr>) (om_objects m), om_ids := dict_set new h (om_ids m)\<rparr>))) m)"

section \<open>The server\<close>

type_synonym identity = string

record object_server =
  os_manager :: object_manager
  os_waiting :: "(capnp_object_id, (identity \<times> request_header) list) dict"
  os_partial :: "(identity, request_header) dict"
  os_sent :: "(identity \<times> bytes) list"
  os_closed :: "identity list"

type_synonym 'a server_step = "('a, object_server) comp"

definition server_init :: object_server where
  "server_init = \<lparr>os_manager = manager_init, os_waiting = [], os_partial = [], os_sent = [], os_closed = []\<rparr>"

definition manage :: "'a manager_step \<Rightarrow> 'a server_step" where
  "manage f s =
     (case f (os_manager s) of Ret a m \<Rightarrow> Ret a (s\<lparr>os_manager := m\<rparr>) | Raise e m \<Rightarrow> Raise e (s\<lparr>os_manager := m\<rparr>) | NoFuel \<Rightarrow> NoFuel)"

definition writeMessage :: "wire_env \<Rightarrow> identity \<Rightarrow> response_header \<Rightarrow> bytes \<Rightarrow> unit server_step" where
  "writeMessage env client header payload =
     modify (\<lambda>s. s\<lparr>os_sent := os_sent s @ [(client, we_response env header)] @ (if payload = [] then [] else [(client, payload)])\<rparr>)"

definition respond :: "wire_env \<Rightarrow> identity \<Rightarrow> request_header \<Rightarrow> response_type \<Rightarrow> bytes \<Rightarrow> unit server_step" where
  "respond env client rq t payload =
     writeMessage env client \<lparr>rs_objectID = rq_objectID rq, rs_payloadLength = length payload, rs_responseID = rq_requestID rq, rs_responseType = t\<rparr> payload"

definition sendGetResponse :: "wire_env \<Rightarrow> identity \<Rightarrow> request_header \<Rightarrow> bytes \<Rightarrow> unit server_step" where
  "sendGetResponse env client rq obj = respond env client rq GET_O_K (take (min (length obj) (rq_payloadLength rq)) obj)"

definition sendDuplicateResponse :: "wire_env \<Rightarrow> identity \<Rightarrow> request_header \<Rightarrow> unit server_step" where
  "sendDuplicateResponse env client rq = respond env client rq DUPLICATE_O_K []"

text \<open>
  The calls nest through requests that duplicate an object on which others wait; every level takes an object off the waiting ones.
\<close>

fun optionallySendPendingRequests :: "nat \<Rightarrow> wire_env \<Rightarrow> capnp_object_id \<Rightarrow> bytes \<Rightarrow> unit server_step" where
  "optionallySendPendingRequests 0 env c obj = (\<lambda>s. NoFuel)"
| "optionallySendPendingRequests (Suc n) env c obj = (\<lambda>s.
     case dict_get (os_waiting s) c of
       None \<Rightarrow> Ret () s
     | Some requests \<Rightarrow>
         for_each requests
           (\<lambda>(client, rq).
              if rq_requestType rq = GET_OBJECT then sendGetResponse env client rq obj
              else seq (manage (duplicateObject c (rq_objectID rq)))
                     (seq (sendDuplicateResponse env client rq) (optionallySendPendingRequests n env (rq_objectID rq) obj)))
           (s\<lparr>os_waiting := dict_pop c (os_waiting s)\<rparr>))"

definition send_pending :: "wire_env \<Rightarrow> capnp_object_id \<Rightarrow> bytes \<Rightarrow> unit server_step" where
  "send_pending env c obj = (\<lambda>s. optionallySendPendingRequests (Suc (length (os_waiting s))) env c obj s)"

definition wait_for :: "capnp_object_id \<Rightarrow> identity \<Rightarrow> request_header \<Rightarrow> unit server_step" where
  "wait_for c client rq =
     modify (\<lambda>s. s\<lparr>os_waiting := dict_set c ((case dict_get (os_waiting s) c of None \<Rightarrow> [] | Some rs \<Rightarrow> rs) @ [(client, rq)]) (os_waiting s)\<rparr>)"

definition processSetRequest :: "wire_env \<Rightarrow> identity \<Rightarrow> request_header \<Rightarrow> bytes \<Rightarrow> unit server_step" where
  "processSetRequest env client rq payload =
     (if rq_payloadLength rq > memoryLimitInBytes then raise RuntimeError
      else andthen (manage (setObject (we_hash env) (rq_objectID rq) payload))
             (\<lambda>obj. seq (send_pending env (rq_objectID rq) obj) (respond env client rq SET_O_K [])))"

definition processGetRequest :: "wire_env \<Rightarrow> identity \<Rightarrow> request_header \<Rightarrow> unit server_step" where
  "processGetRequest env client rq =
     andthen (manage (getObject (rq_objectID rq)))
       (\<lambda>r. case r of Some obj \<Rightarrow> sendGetResponse env client rq obj | None \<Rightarrow> wait_for (rq_objectID rq) client rq)"

definition processDeleteRequest :: "wire_env \<Rightarrow> identity \<Rightarrow> request_header \<Rightarrow> unit server_step" where
  "processDeleteRequest env client rq =
     andthen (manage (deleteObject (rq_objectID rq))) (\<lambda>success. respond env client rq (if success then DEL_O_K else DEL_NOT_EXISTS) [])"

definition processDuplicateRequest :: "wire_env \<Rightarrow> identity \<Rightarrow> request_header \<Rightarrow> bytes \<Rightarrow> unit server_step" where
  "processDuplicateRequest env client rq payload =
     (if rq_payloadLength rq \<noteq> capnpObjectIDSize then raise RuntimeError
      else case we_object_id_of env payload of
             None \<Rightarrow> raise StructError
           | Some original \<Rightarrow>
               andthen (manage (duplicateObject original (rq_objectID rq)))
                 (\<lambda>r. case r of
                        Some obj \<Rightarrow> seq (send_pending env (rq_objectID rq) obj) (sendDuplicateResponse env client rq)
                      | None \<Rightarrow> wait_for original client rq))"

text \<open>The three numbers are in the byte order of the machine, taken as little-endian.\<close>

definition processInfoGetTotalRequest :: "wire_env \<Rightarrow> identity \<Rightarrow> request_header \<Rightarrow> unit server_step" where
  "processInfoGetTotalRequest env client rq =
     andthen (gets os_manager)
       (\<lambda>m. respond env client rq INFO_GET_TOTAL_O_K
              (concat (map (\<lambda>n. rev (be_bytes 8 n)) [length (om_ids m), length (om_objects m), om_total m])))"

definition process_full :: "wire_env \<Rightarrow> identity \<Rightarrow> request_header \<Rightarrow> bytes \<Rightarrow> unit server_step" where
  "process_full env client rq payload =
     (case rq_requestType rq of
        SET_OBJECT \<Rightarrow> processSetRequest env client rq payload
      | GET_OBJECT \<Rightarrow> processGetRequest env client rq
      | DELETE_OBJECT \<Rightarrow> processDeleteRequest env client rq
      | DUPLICATE_OBJECT_I_D \<Rightarrow> processDuplicateRequest env client rq payload
      | INFO_GET_TOTAL \<Rightarrow> processInfoGetTotalRequest env client rq)"

text \<open>
  One round of \<open>processRequests\<close> with a message of a client. A header that announces a payload is kept until the payload
  arrives; a message of another length than announced takes its place as a new header. A header is read from the first 80 bytes, also of a message that
  is shorter, past its end.
\<close>

definition process_message :: "wire_env \<Rightarrow> identity \<Rightarrow> bytes \<Rightarrow> unit server_step" where
  "process_message env client msg = (\<lambda>s.
     let expected = (case dict_get (os_partial s) client of Some rq \<Rightarrow> if rq_payloadLength rq = length msg then Some rq else None | None \<Rightarrow> None);
         s1 = s\<lparr>os_partial := dict_pop client (os_partial s)\<rparr>
     in case expected of
          Some rq \<Rightarrow> process_full env client rq msg s1
        | None \<Rightarrow>
            if length msg < capnpHeaderSize then Raise SystemError s1
            else (case we_request_of env (take capnpHeaderSize msg) of
               None \<Rightarrow> Raise StructError s1
             | Some rq \<Rightarrow>
                 if rq_requestType rq \<in> {DUPLICATE_OBJECT_I_D, SET_OBJECT} then Ret () (s1\<lparr>os_partial := dict_set client rq (os_partial s1)\<rparr>)
                 else process_full env client rq [] s1))"

text \<open>A malformed message closes the connection, a \<open>std::exception\<close> is logged.\<close>

definition server_receive :: "wire_env \<Rightarrow> identity \<Rightarrow> bytes \<Rightarrow> unit server_step" where
  "server_receive env client msg s =
     (case process_message env client msg s of
        Raise StructError s' \<Rightarrow> Ret () (s'\<lparr>os_closed := os_closed s' @ [client]\<rparr>)
      | Raise RuntimeError s' \<Rightarrow> Ret () s'
      | r \<Rightarrow> r)"

end
