(* ===== verification/ObjectStore.thy ===== *)
theory ObjectStore
  imports ObjectServer
begin

text \<open>
  The object manager is a dictionary from object identifiers to bytes as long as no two different payloads have the same hash: the invariant of its use
  counts and of the total size, and what every operation does to the dictionary.
\<close>

section \<open>Sizes of dictionaries\<close>

definition payload_bytes :: "(nat, managed_object) dict \<Rightarrow> nat" where
  "payload_bytes d = sum_list (map (\<lambda>kv. length (mo_payload (snd kv))) d)"

lemma payload_bytes_new: "dict_get d h = None \<Longrightarrow> payload_bytes (dict_set h obj d) = payload_bytes d + length (mo_payload obj)"
proof -
  assume "dict_get d h = None"
  then have "\<not> dict_has d h" by (simp add: dict_has_iff)
  then show ?thesis by (simp add: payload_bytes_def dict_set_absent)
qed

lemma payload_bytes_count:
  "dict_ok d \<Longrightarrow> dict_get d h = Some obj \<Longrightarrow> mo_payload obj' = mo_payload obj \<Longrightarrow> payload_bytes (dict_set h obj' d) = payload_bytes d"
proof (induction d)
  case (Cons kv d)
  obtain k v where kv: "kv = (k, v)" by force
  show ?case using Cons by (auto simp: kv payload_bytes_def dict_set_def dict_get_def dict_ok_def)
qed simp

lemma payload_bytes_pop:
  "dict_ok d \<Longrightarrow> dict_get d h = Some obj \<Longrightarrow> payload_bytes (dict_pop h d) + length (mo_payload obj) = payload_bytes d"
proof (induction d)
  case (Cons kv d)
  obtain k v where kv: "kv = (k, v)" by force
  show ?case
  proof (cases "k = h")
    case True
    then have "\<not> dict_has d h" using Cons.prems(1) by (simp add: kv dict_ok_def dict_has_def)
    then have "AList.delete h d = d" using dict_pop_absent [of d h] by (simp add: dict_pop_def)
    then show ?thesis using Cons.prems(2) True by (simp add: kv payload_bytes_def dict_pop_def dict_get_def)
  next
    case False
    then show ?thesis using Cons by (simp add: kv payload_bytes_def dict_pop_def dict_get_def dict_ok_def)
  qed
qed simp

section \<open>The invariant\<close>

definition use_count :: "nat \<Rightarrow> (capnp_object_id, nat) dict \<Rightarrow> nat" where
  "use_count h ids = dict_count (\<lambda>x. x = h) ids"

definition object_ok :: "(bytes \<Rightarrow> nat) \<Rightarrow> nat \<Rightarrow> nat \<Rightarrow> managed_object option \<Rightarrow> bool" where
  "object_ok hash h n obj = (case obj of None \<Rightarrow> n = 0 | Some x \<Rightarrow> 0 < n \<and> mo_useCount x = n \<and> hash (mo_payload x) = h)"

definition manager_ok :: "(bytes \<Rightarrow> nat) \<Rightarrow> object_manager \<Rightarrow> bool" where
  "manager_ok hash m \<longleftrightarrow> dict_ok (om_ids m) \<and> dict_ok (om_objects m) \<and> om_total m = payload_bytes (om_objects m) \<and>
     (\<forall>h. object_ok hash h (use_count h (om_ids m)) (dict_get (om_objects m) h))"

lemma use_count_new: "dict_get ids c = None \<Longrightarrow> use_count k (dict_set c h ids) = use_count k ids + (if k = h then 1 else 0)"
proof -
  assume "dict_get ids c = None"
  then have "\<not> dict_has ids c" by (simp add: dict_has_iff)
  then show ?thesis by (auto simp: use_count_def dict_count_new)
qed

lemma use_count_pop: "dict_ok ids \<Longrightarrow> dict_get ids c = Some h \<Longrightarrow> use_count k (dict_pop c ids) = use_count k ids - (if k = h then 1 else 0)"
  using dict_count_pop [of ids c h "\<lambda>x. x = k"] by (auto simp: use_count_def)

definition stored :: "object_manager \<Rightarrow> capnp_object_id \<Rightarrow> bytes option" where
  "stored m c = (case dict_get (om_ids m) c of None \<Rightarrow> None | Some h \<Rightarrow> map_option mo_payload (dict_get (om_objects m) h))"

text \<open>No stored object has the hash of the payload and other bytes.\<close>

definition no_collision :: "(bytes \<Rightarrow> nat) \<Rightarrow> bytes \<Rightarrow> object_manager \<Rightarrow> bool" where
  "no_collision hash b m = (case dict_get (om_objects m) (hash b) of None \<Rightarrow> True | Some obj \<Rightarrow> mo_payload obj = b)"

lemma manager_init_ok: "manager_ok hash manager_init" "stored manager_init = Map.empty"
  by (auto simp: manager_ok_def manager_init_def use_count_def object_ok_def payload_bytes_def dict_ok_def stored_def)

lemma used_positive: "dict_get ids c = Some h \<Longrightarrow> dict_ok ids \<Longrightarrow> 0 < use_count h ids"
  using dict_count_pop [of ids c h "\<lambda>x. x = h"] by (simp add: use_count_def)

lemma id_has_object:
  assumes "manager_ok hash m" "dict_get (om_ids m) c = Some h"
  obtains obj where "dict_get (om_objects m) h = Some obj" "mo_useCount obj = use_count h (om_ids m)" "hash (mo_payload obj) = h" "stored m c = Some (mo_payload obj)"
proof -
  have "0 < use_count h (om_ids m)" "object_ok hash h (use_count h (om_ids m)) (dict_get (om_objects m) h)"
    using assms used_positive [of "om_ids m" c h] by (simp_all add: manager_ok_def)
  then show thesis using that assms(2) by (auto simp: stored_def object_ok_def split: option.splits)
qed

lemma stored_None_iff: "manager_ok hash m \<Longrightarrow> stored m c = None \<longleftrightarrow> dict_get (om_ids m) c = None"
  by (cases "dict_get (om_ids m) c") (auto simp: stored_def elim: id_has_object)

section \<open>The operations\<close>

lemma getObject_spec: "manager_ok hash m \<Longrightarrow> getObject c m = Ret (stored m c) m"
proof -
  assume ok: "manager_ok hash m"
  show ?thesis
  proof (cases "dict_get (om_ids m) c")
    case None
    then show ?thesis by (simp add: getObject_def stored_def)
  next
    case (Some h)
    from id_has_object [OF ok Some] obtain obj where "dict_get (om_objects m) h = Some obj" "stored m c = Some (mo_payload obj)" by blast
    then show ?thesis using Some by (simp add: getObject_def)
  qed
qed

lemma deleteObject_spec:
  assumes ok: "manager_ok hash m"
  shows "\<exists>m'. deleteObject c m = Ret (stored m c \<noteq> None) m' \<and> manager_ok hash m' \<and> stored m' = (stored m)(c := None) \<and>
    (\<forall>h obj'. dict_get (om_objects m') h = Some obj' \<longrightarrow> (\<exists>obj. dict_get (om_objects m) h = Some obj \<and> mo_payload obj' = mo_payload obj)) \<and>
    om_ids m' = dict_pop c (om_ids m)"
proof (cases "dict_get (om_ids m) c")
  case None
  then have absent: "dict_pop c (om_ids m) = om_ids m" by (intro dict_pop_absent) (simp add: dict_has_iff)
  have "stored m c = None" using None by (simp add: stored_def)
  then show ?thesis using None ok absent by (intro exI [of _ m]) (auto simp: deleteObject_def)
next
  case (Some h)
  from id_has_object [OF ok Some] obtain obj where obj: "dict_get (om_objects m) h = Some obj" "mo_useCount obj = use_count h (om_ids m)"
    "hash (mo_payload obj) = h" "stored m c = Some (mo_payload obj)" by blast
  have dicts: "dict_ok (om_ids m)" "dict_ok (om_objects m)" "om_total m = payload_bytes (om_objects m)" using ok by (simp_all add: manager_ok_def)
  have each: "object_ok hash k (use_count k (om_ids m)) (dict_get (om_objects m) k)" for k using ok by (simp add: manager_ok_def)
  note count = use_count_pop [OF dicts(1) Some]
  show ?thesis
  proof (cases "mo_useCount obj - 1 < 1")
    case True
    let ?m = "m\<lparr>om_total := om_total m - length (mo_payload obj), om_objects := dict_pop h (om_objects m), om_ids := dict_pop c (om_ids m)\<rparr>"
    have one: "use_count h (om_ids m) = 1" using True obj(2) used_positive [OF Some dicts(1)] by simp
    have "object_ok hash k (use_count k (om_ids ?m)) (dict_get (om_objects ?m) k)" for k using each [of k] count [of k] one by (cases "k = h") (simp_all add: object_ok_def)
    then have inv: "manager_ok hash ?m" using dicts payload_bytes_pop [OF dicts(2) obj(1)] unfolding manager_ok_def by simp
    have "dict_get (om_ids m) d = Some h \<Longrightarrow> d = c" for d
      using used_positive [of "dict_pop c (om_ids m)" d h] dicts(1) count [of h] one by (cases "d = c") simp_all
    then have "stored ?m = (stored m)(c := None)" by (auto simp: stored_def fun_eq_iff split: option.splits)
    then show ?thesis using Some obj True inv by (intro exI [of _ ?m]) (simp add: deleteObject_def Let_def)
  next
    case False
    let ?obj = "obj\<lparr>mo_useCount := mo_useCount obj - 1\<rparr>"
    let ?m = "m\<lparr>om_objects := dict_set h ?obj (om_objects m), om_ids := dict_pop c (om_ids m)\<rparr>"
    have "object_ok hash k (use_count k (om_ids ?m)) (dict_get (om_objects ?m) k)" for k
      using each [of k] count [of k] obj False by (cases "k = h") (simp_all add: object_ok_def)
    then have inv: "manager_ok hash ?m" using dicts payload_bytes_count [OF dicts(2) obj(1), of ?obj] unfolding manager_ok_def by simp
    have "stored ?m = (stored m)(c := None)" using obj(1) by (auto simp: stored_def fun_eq_iff split: option.splits)
    then show ?thesis using Some obj False inv by (intro exI [of _ ?m]) (auto simp: deleteObject_def Let_def)
  qed
qed

text \<open>What \<open>setObject\<close> and \<open>duplicateObject\<close> do first.\<close>

definition override :: "capnp_object_id \<Rightarrow> bool manager_step" where
  "override c m = (if hasObject c m then deleteObject c m else Ret False m)"

lemma override_spec:
  assumes ok: "manager_ok hash m"
  shows "\<exists>r m'. override c m = Ret r m' \<and> manager_ok hash m' \<and> stored m' = (stored m)(c := None) \<and> dict_get (om_ids m') c = None \<and>
    (\<forall>h obj'. dict_get (om_objects m') h = Some obj' \<longrightarrow> (\<exists>obj. dict_get (om_objects m) h = Some obj \<and> mo_payload obj' = mo_payload obj)) \<and>
    (\<forall>d. d \<noteq> c \<longrightarrow> dict_get (om_ids m') d = dict_get (om_ids m) d)"
proof (cases "hasObject c m")
  case True
  then show ?thesis using deleteObject_spec [OF ok, of c] by (auto simp: override_def)
next
  case False
  then have "dict_get (om_ids m) c = None" by (simp add: hasObject_def dict_has_iff)
  moreover from this have "stored m = (stored m)(c := None)" by (simp add: stored_def fun_eq_iff)
  ultimately show ?thesis using False ok by (intro exI [of _ False] exI [of _ m]) (auto simp: override_def)
qed

text \<open>One more identifier for an object that is there.\<close>

lemma add_user:
  assumes ok: "manager_ok hash m" and obj: "dict_get (om_objects m) h = Some obj" and c: "dict_get (om_ids m) c = None"
    and m': "om_objects m' = dict_set h (obj\<lparr>mo_useCount := mo_useCount obj + 1\<rparr>) (om_objects m)" "om_ids m' = dict_set c h (om_ids m)" "om_total m' = om_total m"
  shows "manager_ok hash m' \<and> stored m' = (stored m)(c \<mapsto> mo_payload obj)"
proof
  let ?obj = "obj\<lparr>mo_useCount := mo_useCount obj + 1\<rparr>"
  have each: "object_ok hash k (use_count k (om_ids m)) (dict_get (om_objects m) k)" for k using ok by (simp add: manager_ok_def)
  have "object_ok hash k (use_count k (om_ids m')) (dict_get (om_objects m') k)" for k
    using each [of k] use_count_new [OF c, of k h] obj by (cases "k = h") (simp_all add: object_ok_def m')
  then show "manager_ok hash m'" using ok payload_bytes_count [OF _ obj, of ?obj] unfolding manager_ok_def by (simp add: m')
  show "stored m' = (stored m)(c \<mapsto> mo_payload obj)" using obj by (auto simp: stored_def m' fun_eq_iff split: option.splits)
qed

text \<open>When the hash of the payload is taken by other bytes, the identifier gets those.\<close>

lemma setObject_keeps:
  assumes ok: "manager_ok hash m"
  shows "\<exists>obj m'. setObject hash c b m = Ret obj m' \<and> manager_ok hash m' \<and> stored m' = (stored m)(c \<mapsto> obj) \<and> (no_collision hash b m \<longrightarrow> obj = b)"
proof -
  obtain r m1 where m1: "override c m = Ret r m1" "manager_ok hash m1" "stored m1 = (stored m)(c := None)" "dict_get (om_ids m1) c = None"
    and sub: "\<forall>h obj'. dict_get (om_objects m1) h = Some obj' \<longrightarrow> (\<exists>obj. dict_get (om_objects m) h = Some obj \<and> mo_payload obj' = mo_payload obj)"
    using override_spec [OF ok, of c] by blast
  have set: "setObject hash c b m =
      (case dict_get (om_objects m1) (hash b) of
         None \<Rightarrow> Ret b (m1\<lparr>om_ids := dict_set c (hash b) (om_ids m1), om_objects := dict_set (hash b) \<lparr>mo_useCount = 1, mo_payload = b\<rparr> (om_objects m1), om_total := om_total m1 + length b\<rparr>)
       | Some obj \<Rightarrow> Ret (mo_payload obj) (m1\<lparr>om_ids := dict_set c (hash b) (om_ids m1), om_objects := dict_set (hash b) (obj\<lparr>mo_useCount := mo_useCount obj + 1\<rparr>) (om_objects m1)\<rparr>))"
    using m1(1) by (simp add: setObject_def override_def andthen_def Let_def split: option.split)
  show ?thesis
  proof (cases "dict_get (om_objects m1) (hash b)")
    case (Some obj)
    then obtain old where "dict_get (om_objects m) (hash b) = Some old" "mo_payload obj = mo_payload old" using sub by blast
    then have b: "no_collision hash b m \<longrightarrow> mo_payload obj = b" by (simp add: no_collision_def)
    let ?m = "m1\<lparr>om_ids := dict_set c (hash b) (om_ids m1), om_objects := dict_set (hash b) (obj\<lparr>mo_useCount := mo_useCount obj + 1\<rparr>) (om_objects m1)\<rparr>"
    show ?thesis using add_user [OF m1(2) Some m1(4), of ?m] set Some m1(3) b by simp
  next
    case None
    let ?m = "m1\<lparr>om_ids := dict_set c (hash b) (om_ids m1), om_objects := dict_set (hash b) \<lparr>mo_useCount = 1, mo_payload = b\<rparr> (om_objects m1), om_total := om_total m1 + length b\<rparr>"
    have each: "object_ok hash k (use_count k (om_ids m1)) (dict_get (om_objects m1) k)" for k using m1(2) by (simp add: manager_ok_def)
    have "object_ok hash k (use_count k (om_ids ?m)) (dict_get (om_objects ?m) k)" for k
      using each [of k] use_count_new [OF m1(4), of k "hash b"] None by (cases "k = hash b") (simp_all add: object_ok_def)
    then have inv: "manager_ok hash ?m" using m1(2) payload_bytes_new [OF None] unfolding manager_ok_def by simp
    have "dict_get (om_ids m1) d \<noteq> Some (hash b)" for d using id_has_object [OF m1(2)] None by force
    then have "stored ?m = (stored m1)(c \<mapsto> b)" by (auto simp: stored_def fun_eq_iff split: option.splits)
    then show ?thesis using inv set None m1(3) by simp
  qed
qed

lemma setObject_spec:
  "manager_ok hash m \<Longrightarrow> no_collision hash b m \<Longrightarrow> \<exists>m'. setObject hash c b m = Ret b m' \<and> manager_ok hash m' \<and> stored m' = (stored m)(c \<mapsto> b)"
  using setObject_keeps [of hash m c b] by blast

lemma duplicateObject_spec:
  assumes ok: "manager_ok hash m" and ne: "new \<noteq> original"
  shows "\<exists>m'. duplicateObject original new m = Ret (stored m original) m' \<and> manager_ok hash m' \<and>
    stored m' = (if stored m original = None then stored m else (stored m)(new := stored m original))"
proof (cases "dict_get (om_ids m) original")
  case None
  then show ?thesis using ok by (intro exI [of _ m]) (simp add: duplicateObject_def stored_def)
next
  case (Some h)
  obtain r m1 where m1: "override new m = Ret r m1" "manager_ok hash m1" "stored m1 = (stored m)(new := None)" "dict_get (om_ids m1) new = None"
    "dict_get (om_ids m1) original = Some h"
    using override_spec [OF ok, of new] ne Some by auto
  from id_has_object [OF m1(2,5)] obtain obj where obj: "dict_get (om_objects m1) h = Some obj" "stored m1 original = Some (mo_payload obj)" by blast
  let ?m = "m1\<lparr>om_objects := dict_set h (obj\<lparr>mo_useCount := mo_useCount obj + 1\<rparr>) (om_objects m1), om_ids := dict_set new h (om_ids m1)\<rparr>"
  have "duplicateObject original new m = Ret (Some (mo_payload obj)) ?m"
    using Some m1(1) ne obj(1) by (simp add: duplicateObject_def override_def andthen_def)
  then show ?thesis using add_user [OF m1(2) obj(1) m1(4), of ?m] m1(3) obj(2) ne by simp
qed

text \<open>Every object has an identifier.\<close>

lemma object_has_id:
  assumes "manager_ok hash m" "dict_get (om_objects m) h = Some obj"
  shows "\<exists>c. stored m c = Some (mo_payload obj)"
proof -
  have "0 < use_count h (om_ids m)" using assms by (auto simp: manager_ok_def object_ok_def dest!: spec [of _ h])
  then obtain c where "(c, h) \<in> set (om_ids m)" by (auto simp: use_count_def dict_count_def length_greater_0_conv filter_empty_conv)
  then have "dict_get (om_ids m) c = Some h" using assms(1) by (intro dict_get_in_set) (simp_all add: manager_ok_def)
  then show ?thesis using assms(2) by (intro exI [of _ c]) (simp add: stored_def)
qed

lemma no_collision_inj:
  assumes "manager_ok hash m" "inj_on hash U" "ran (stored m) \<subseteq> U" "b \<in> U"
  shows "no_collision hash b m"
proof (cases "dict_get (om_objects m) (hash b)")
  case (Some obj)
  then obtain c where "stored m c = Some (mo_payload obj)" using object_has_id [OF assms(1)] by blast
  then have "mo_payload obj \<in> U" using assms(3) by (auto simp: ran_def)
  moreover have "hash (mo_payload obj) = hash b" using assms(1) Some by (auto simp: manager_ok_def object_ok_def dest!: spec [of _ "hash b"])
  ultimately show ?thesis using Some assms(2,4) by (simp add: no_collision_def inj_on_def)
qed (simp add: no_collision_def)

section \<open>Collisions\<close>

text \<open>The second of two payloads with the same hash is not kept.\<close>

lemma hash_collision:
  assumes "hash a = hash b" "c \<noteq> c'"
  shows "\<exists>m. seq (setObject hash c a) (setObject hash c' b) manager_init = Ret a m \<and> getObject c' m = Ret (Some a) m"
  using assms by (simp add: setObject_def hasObject_def manager_init_def andthen_def seq_run Let_def getObject_def)

end
