(* ===== verification/StorageConnectors.thy ===== *)
theory StorageConnectors
  imports ObjectServer
begin

text \<open>
  The connectors to the object storage (\<open>src/src/scaler/io/ymq_sync_object_storage_connector.py\<close>,
  \<open>ymq_async_object_storage_connector.py\<close>). The synchronous one works on a peer: \<open>send\<close> and \<open>recv\<close> are the calls of its socket. \<open>ObjectStorageException\<close> is
  \<open>StorageError\<close>, \<open>YMQException\<close> is \<open>YMQError\<close>, the decoding of Cap'n Proto raises \<open>StructError\<close>.
\<close>

section \<open>The synchronous connector\<close>

record sync_connector =
  sc_open :: bool
  sc_next_request_id :: nat

definition sync_init :: sync_connector where
  "sync_init = \<lparr>sc_open = True, sc_next_request_id = 0\<rparr>"

definition sync_destroy :: "sync_connector \<Rightarrow> sync_connector" where
  "sync_destroy c = c\<lparr>sc_open := False\<rparr>"

text \<open>\<open>except YMQException\<close>.\<close>

definition connection_failure :: "('a, 's) comp \<Rightarrow> ('a, 's) comp" where
  "connection_failure m s = (case m s of Raise e s' \<Rightarrow> Raise (if e = YMQError then StorageError else e) s' | r \<Rightarrow> r)"

definition next_request_id :: "nat \<Rightarrow> nat" where
  "next_request_id n = (n + 1) mod (2 ^ 64 - 1)"

definition write_request :: "wire_env \<Rightarrow> (bytes \<Rightarrow> (unit, 'p) comp) \<Rightarrow> request_header \<Rightarrow> bytes option \<Rightarrow> (unit, 'p) comp" where
  "write_request env send header payload =
     connection_failure (seq (send (we_request env header)) (case payload of None \<Rightarrow> ret () | Some b \<Rightarrow> send b))"

definition read_response_header :: "wire_env \<Rightarrow> (bytes option, 'p) comp \<Rightarrow> (response_header, 'p) comp" where
  "read_response_header env recv =
     andthen recv (\<lambda>r. case r of
                         None \<Rightarrow> raise StorageError
                       | Some b \<Rightarrow> (case we_response_of env b of None \<Rightarrow> raise StructError | Some h \<Rightarrow> ret h))"

definition read_response_payload :: "(bytes option, 'p) comp \<Rightarrow> response_header \<Rightarrow> (bytes, 'p) comp" where
  "read_response_payload recv h =
     (if rs_payloadLength h > 0
      then andthen recv (\<lambda>r. case r of None \<Rightarrow> raise StorageError | Some b \<Rightarrow> check (length b = rs_payloadLength h) (ret b))
      else ret [])"

definition receive_response :: "wire_env \<Rightarrow> (bytes option, 'p) comp \<Rightarrow> (response_header \<times> bytes, 'p) comp" where
  "receive_response env recv =
     connection_failure (andthen (read_response_header env recv) (\<lambda>h. andthen (read_response_payload recv h) (\<lambda>b. ret (h, b))))"

text \<open>A request and its response under the lock, from the number of the request on.\<close>

definition exchange :: "wire_env \<Rightarrow> (bytes \<Rightarrow> (unit, 'p) comp) \<Rightarrow> (bytes option, 'p) comp \<Rightarrow> request_header \<Rightarrow> bytes option \<Rightarrow> (response_header \<times> bytes, 'p) comp" where
  "exchange env send recv header payload = seq (write_request env send header payload) (receive_response env recv)"

definition sync_request :: "wire_env \<Rightarrow> (bytes \<Rightarrow> (unit, 'p) comp) \<Rightarrow> (bytes option, 'p) comp \<Rightarrow> ObjectID \<Rightarrow> nat \<Rightarrow> request_type \<Rightarrow> bytes option \<Rightarrow>
    (response_header \<times> bytes, sync_connector \<times> 'p) comp" where
  "sync_request env send recv oid n t payload = (\<lambda>(c, p).
     if \<not> sc_open c then Raise StorageError (c, p)
     else let i = sc_next_request_id c; c1 = c\<lparr>sc_next_request_id := next_request_id i\<rparr>
          in case to_capnp_object_id oid of
               Inl e \<Rightarrow> Raise e (c1, p)
             | Inr cid \<Rightarrow>
                 (case exchange env send recv \<lparr>rq_objectID = cid, rq_payloadLength = n, rq_requestID = i, rq_requestType = t\<rparr> payload p of
                    Ret r p' \<Rightarrow> Ret r (c1, p')
                  | Raise e p' \<Rightarrow> Raise e (c1, p')
                  | NoFuel \<Rightarrow> NoFuel))"

definition ensure :: "bool \<Rightarrow> ('a, 's) comp \<Rightarrow> ('a, 's) comp" where
  "ensure b m = (if b then m else raise RuntimeError)"

definition sync_set_object :: "wire_env \<Rightarrow> (bytes \<Rightarrow> (unit, 'p) comp) \<Rightarrow> (bytes option, 'p) comp \<Rightarrow> ObjectID \<Rightarrow> bytes \<Rightarrow> (unit, sync_connector \<times> 'p) comp" where
  "sync_set_object env send recv oid payload =
     andthen (sync_request env send recv oid (length payload) SET_OBJECT (Some payload))
       (\<lambda>(h, b). ensure (rs_responseType h = SET_O_K) (ensure (b = []) (ret ())))"

definition sync_get_object :: "wire_env \<Rightarrow> (bytes \<Rightarrow> (unit, 'p) comp) \<Rightarrow> (bytes option, 'p) comp \<Rightarrow> ObjectID \<Rightarrow> nat \<Rightarrow> (bytes, sync_connector \<times> 'p) comp" where
  "sync_get_object env send recv oid max_payload_length =
     andthen (sync_request env send recv oid max_payload_length GET_OBJECT None) (\<lambda>(h, b). ensure (rs_responseType h = GET_O_K) (ret b))"

definition sync_delete_object :: "wire_env \<Rightarrow> (bytes \<Rightarrow> (unit, 'p) comp) \<Rightarrow> (bytes option, 'p) comp \<Rightarrow> ObjectID \<Rightarrow> (bool, sync_connector \<times> 'p) comp" where
  "sync_delete_object env send recv oid =
     andthen (sync_request env send recv oid 0 DELETE_OBJECT None)
       (\<lambda>(h, b). ensure (rs_responseType h \<in> {DEL_O_K, DEL_NOT_EXISTS}) (ensure (b = []) (ret (rs_responseType h = DEL_O_K))))"

definition sync_duplicate_object_id :: "wire_env \<Rightarrow> (bytes \<Rightarrow> (unit, 'p) comp) \<Rightarrow> (bytes option, 'p) comp \<Rightarrow> ObjectID \<Rightarrow> ObjectID \<Rightarrow> (unit, sync_connector \<times> 'p) comp" where
  "sync_duplicate_object_id env send recv oid new_oid =
     (case to_capnp_object_id oid of
        Inl e \<Rightarrow> raise e
      | Inr cid \<Rightarrow>
          andthen (sync_request env send recv new_oid (length (we_object_id env cid)) DUPLICATE_OBJECT_I_D (Some (we_object_id env cid)))
            (\<lambda>(h, b). ensure (rs_responseType h = DUPLICATE_O_K) (ensure (b = []) (ret ()))))"

section \<open>The asynchronous connector\<close>

text \<open>
  Calls wait for the socket only to send; what is sent is kept. A call of \<open>get_object\<close> ends with the future it waits for, which several callers share: a
  caller that is cancelled cancels it.
\<close>

datatype get_future = GetPending | GetDone bytes | GetCancelled

record async_connector =
  ac_connected :: bool
  ac_socket :: bool
  ac_next_request_id :: nat
  ac_pending :: "(ObjectID, nat) dict"
  ac_futures :: "get_future list"
  ac_sent :: "(request_header \<times> bytes option) list"

type_synonym 'a async_step = "('a, async_connector) comp"

definition async_init :: async_connector where
  "async_init = \<lparr>ac_connected = False, ac_socket = False, ac_next_request_id = 0, ac_pending = [], ac_futures = [], ac_sent = []\<rparr>"

definition async_connect :: "unit async_step" where
  "async_connect = (\<lambda>s. if ac_connected s then Raise StorageError s else Ret () (s\<lparr>ac_socket := True, ac_connected := True\<rparr>))"

definition async_destroy :: "unit async_step" where
  "async_destroy = modify (\<lambda>s. s\<lparr>ac_socket := False\<rparr>)"

text \<open>\<open>fails\<close>: the socket raises while the request is written.\<close>

definition async_send_request :: "bool \<Rightarrow> ObjectID \<Rightarrow> nat \<Rightarrow> request_type \<Rightarrow> bytes option \<Rightarrow> unit async_step" where
  "async_send_request fails oid n t payload = (\<lambda>s.
     if \<not> ac_socket s then Raise StorageError s
     else let i = ac_next_request_id s; s1 = s\<lparr>ac_next_request_id := next_request_id i\<rparr>
          in case to_capnp_object_id oid of
               Inl e \<Rightarrow> Raise e s1
             | Inr cid \<Rightarrow>
                 if fails then Raise StorageError (s1\<lparr>ac_socket := False\<rparr>)
                 else Ret () (s1\<lparr>ac_sent := ac_sent s1 @ [(\<lparr>rq_objectID = cid, rq_payloadLength = n, rq_requestID = i, rq_requestType = t\<rparr>, payload)]\<rparr>))"

definition async_set_object :: "bool \<Rightarrow> ObjectID \<Rightarrow> bytes \<Rightarrow> unit async_step" where
  "async_set_object fails oid payload = async_send_request fails oid (length payload) SET_OBJECT (Some payload)"

definition async_get_object :: "bool \<Rightarrow> ObjectID \<Rightarrow> nat \<Rightarrow> nat async_step" where
  "async_get_object fails oid max_payload_length = (\<lambda>s.
     case dict_get (ac_pending s) oid of
       Some f \<Rightarrow> Ret f s
     | None \<Rightarrow>
         let f = length (ac_futures s)
         in seq (async_send_request fails oid max_payload_length GET_OBJECT None) (ret f)
              (s\<lparr>ac_futures := ac_futures s @ [GetPending], ac_pending := dict_set oid f (ac_pending s)\<rparr>))"

definition async_delete_object :: "bool \<Rightarrow> ObjectID \<Rightarrow> unit async_step" where
  "async_delete_object fails oid = async_send_request fails oid 0 DELETE_OBJECT None"

definition async_duplicate_object_id :: "wire_env \<Rightarrow> bool \<Rightarrow> ObjectID \<Rightarrow> ObjectID \<Rightarrow> unit async_step" where
  "async_duplicate_object_id env fails oid new_oid =
     (case to_capnp_object_id oid of
        Inl e \<Rightarrow> raise e
      | Inr cid \<Rightarrow> async_send_request fails new_oid (length (we_object_id env cid)) DUPLICATE_OBJECT_I_D (Some (we_object_id env cid)))"

definition cancel_get :: "nat \<Rightarrow> unit async_step" where
  "cancel_get f = modify (\<lambda>s. if f < length (ac_futures s) \<and> ac_futures s ! f = GetPending then s\<lparr>ac_futures := (ac_futures s)[f := GetCancelled]\<rparr> else s)"

text \<open>What the socket delivers to the routine: nothing more, or the messages of a response.\<close>

datatype delivery = DeliveryFails | Delivered "bytes option" "bytes option"

definition async_receive_response :: "wire_env \<Rightarrow> delivery \<Rightarrow> (response_header \<times> bytes) async_step" where
  "async_receive_response env d = (\<lambda>s.
     case d of
       DeliveryFails \<Rightarrow> Raise StorageError (s\<lparr>ac_socket := False\<rparr>)
     | Delivered header payload \<Rightarrow>
         (case header of
            None \<Rightarrow> Raise AssertionError s
          | Some hb \<Rightarrow>
              check (length hb = capnpHeaderSize)
                (case we_response_of env hb of
                   None \<Rightarrow> raise StructError
                 | Some h \<Rightarrow>
                     if rs_payloadLength h > 0
                     then (case payload of None \<Rightarrow> raise AssertionError | Some b \<Rightarrow> check (length b = rs_payloadLength h) (ret (h, b)))
                     else ret (h, [])) s))"

definition settle_get :: "ObjectID \<Rightarrow> bytes \<Rightarrow> unit async_step" where
  "settle_get oid payload = (\<lambda>s.
     case dict_get (ac_pending s) oid of
       None \<Rightarrow> Ret () s
     | Some f \<Rightarrow>
         let s1 = s\<lparr>ac_pending := dict_pop oid (ac_pending s)\<rparr>
         in if ac_futures s ! f = GetPending then Ret () (s1\<lparr>ac_futures := (ac_futures s1)[f := GetDone payload]\<rparr>) else Raise InvalidStateError s1)"

definition async_routine :: "wire_env \<Rightarrow> delivery \<Rightarrow> unit async_step" where
  "async_routine env d = (\<lambda>s.
     if \<not> ac_connected s \<or> \<not> ac_socket s then Ret () s
     else andthen (async_receive_response env d)
            (\<lambda>(h, b). if rs_responseType h \<noteq> GET_O_K then ret ()
                      else (case from_capnp_object_id (rs_objectID h) of Inl e \<Rightarrow> raise e | Inr oid \<Rightarrow> settle_get oid b)) s)"

end
