(* ===== verification/StorageRuns.thy ===== *)
theory StorageRuns
  imports ObjectStore StorageConnectors
begin

text \<open>
  The connectors and the server together. What a synchronous connector relies on is the locale \<open>object_service\<close>; the model of the server is an interpretation of it, so that the
  calls of any number of clients are the calls on one dictionary. Then the requests that wait for an object.
\<close>

section \<open>The contract\<close>

definition word64 :: "nat \<Rightarrow> bool" where
  "word64 n \<longleftrightarrow> n < 2 ^ 64"

locale object_service =
  fixes env :: wire_env and send :: "bytes \<Rightarrow> (unit, 'p) comp" and recv :: "(bytes option, 'p) comp"
    and contents :: "'p \<Rightarrow> capnp_object_id \<Rightarrow> bytes option" and ready :: "'p \<Rightarrow> bool" and fits :: "bytes \<Rightarrow> bool"
  assumes set_law: "ready p \<Longrightarrow> fits b \<Longrightarrow> word64 i \<Longrightarrow>
      \<exists>h p'. exchange env send recv \<lparr>rq_objectID = c, rq_payloadLength = length b, rq_requestID = i, rq_requestType = SET_OBJECT\<rparr> (Some b) p = Ret (h, []) p' \<and>
        rs_responseType h = SET_O_K \<and> ready p' \<and> contents p' = (contents p)(c \<mapsto> b)"
    and get_law: "ready p \<Longrightarrow> contents p c = Some b \<Longrightarrow> word64 n \<Longrightarrow> word64 i \<Longrightarrow>
      \<exists>h p'. exchange env send recv \<lparr>rq_objectID = c, rq_payloadLength = n, rq_requestID = i, rq_requestType = GET_OBJECT\<rparr> None p = Ret (h, take n b) p' \<and>
        rs_responseType h = GET_O_K \<and> ready p' \<and> contents p' = contents p"
    and delete_law: "ready p \<Longrightarrow> word64 i \<Longrightarrow>
      \<exists>h p'. exchange env send recv \<lparr>rq_objectID = c, rq_payloadLength = 0, rq_requestID = i, rq_requestType = DELETE_OBJECT\<rparr> None p = Ret (h, []) p' \<and>
        rs_responseType h = (if contents p c = None then DEL_NOT_EXISTS else DEL_O_K) \<and> ready p' \<and> contents p' = (contents p)(c := None)"
    and duplicate_law: "ready p \<Longrightarrow> contents p c = Some b \<Longrightarrow> c \<noteq> c' \<Longrightarrow> word64 i \<Longrightarrow>
      \<exists>h p'. exchange env send recv \<lparr>rq_objectID = c', rq_payloadLength = length (we_object_id env c), rq_requestID = i, rq_requestType = DUPLICATE_OBJECT_I_D\<rparr>
          (Some (we_object_id env c)) p = Ret (h, []) p' \<and>
        rs_responseType h = DUPLICATE_O_K \<and> ready p' \<and> contents p' = (contents p)(c' \<mapsto> b)"
    and fits_length: "ready p \<Longrightarrow> contents p c = Some b \<Longrightarrow> fits b" "fits b \<Longrightarrow> word64 (length b)"

section \<open>Calls\<close>

datatype storage_call = SetCall ObjectID bytes | GetCall ObjectID | DeleteCall ObjectID | DuplicateCall ObjectID ObjectID

datatype storage_answer = Finished | Got bytes | Deleted bool

fun sync_call :: "wire_env \<Rightarrow> (bytes \<Rightarrow> (unit, 'p) comp) \<Rightarrow> (bytes option, 'p) comp \<Rightarrow> storage_call \<Rightarrow> (storage_answer, sync_connector \<times> 'p) comp" where
  "sync_call env send recv (SetCall oid b) = seq (sync_set_object env send recv oid b) (ret Finished)"
| "sync_call env send recv (GetCall oid) = andthen (sync_get_object env send recv oid (2 ^ 64 - 1)) (\<lambda>b. ret (Got b))"
| "sync_call env send recv (DeleteCall oid) = andthen (sync_delete_object env send recv oid) (\<lambda>b. ret (Deleted b))"
| "sync_call env send recv (DuplicateCall oid new_oid) = seq (sync_duplicate_object_id env send recv oid new_oid) (ret Finished)"

text \<open>The same on a dictionary; \<open>None\<close> where the call would wait, and for the duplicate of an object onto itself.\<close>

fun dict_call :: "storage_call \<Rightarrow> (ObjectID \<Rightarrow> bytes option) \<Rightarrow> (storage_answer \<times> (ObjectID \<Rightarrow> bytes option)) option" where
  "dict_call (SetCall oid b) d = Some (Finished, d(oid \<mapsto> b))"
| "dict_call (GetCall oid) d = map_option (\<lambda>b. (Got b, d)) (d oid)"
| "dict_call (DeleteCall oid) d = Some (Deleted (d oid \<noteq> None), d(oid := None))"
| "dict_call (DuplicateCall oid new_oid) d = (if oid = new_oid then None else map_option (\<lambda>b. (Finished, d(new_oid \<mapsto> b))) (d oid))"

fun call_ids :: "storage_call \<Rightarrow> ObjectID set" where
  "call_ids (SetCall oid b) = {oid}"
| "call_ids (GetCall oid) = {oid}"
| "call_ids (DeleteCall oid) = {oid}"
| "call_ids (DuplicateCall oid new_oid) = {oid, new_oid}"

fun call_payloads :: "storage_call \<Rightarrow> bytes set" where
  "call_payloads (SetCall oid b) = {b}"
| "call_payloads _ = {}"

definition storage_view :: "(capnp_object_id \<Rightarrow> bytes option) \<Rightarrow> ObjectID \<Rightarrow> bytes option" where
  "storage_view d oid = (case to_capnp_object_id oid of Inl _ \<Rightarrow> None | Inr c \<Rightarrow> d c)"

lemma capnp_id_inj: "to_capnp_object_id a = Inr c \<Longrightarrow> to_capnp_object_id b = Inr c \<Longrightarrow> a = b"
proof -
  assume a: "to_capnp_object_id a = Inr c" and b: "to_capnp_object_id b = Inr c"
  then have "length a = 32" "length b = 32" by (auto simp: to_capnp_object_id_def split: if_splits)
  then show ?thesis using object_id_there_and_back [of a] object_id_there_and_back [of b] a b by auto
qed

lemma storage_view_at: "to_capnp_object_id oid = Inr c \<Longrightarrow> storage_view d oid = d c"
  by (simp add: storage_view_def)

lemma storage_view_upd: "to_capnp_object_id oid = Inr c \<Longrightarrow> storage_view (d(c := v)) = (storage_view d)(oid := v)"
  by (auto simp: storage_view_def fun_eq_iff dest: capnp_id_inj split: sum.splits)

definition connector_ok :: "sync_connector \<Rightarrow> bool" where
  "connector_ok c \<longleftrightarrow> sc_open c \<and> sc_next_request_id c < 2 ^ 64 - 1"

lemma next_request_id_less: "next_request_id n < 2 ^ 64 - 1"
  by (simp add: next_request_id_def)

lemma sync_request_Ret:
  assumes "connector_ok c" "to_capnp_object_id oid = Inr cid"
    and "exchange env send recv \<lparr>rq_objectID = cid, rq_payloadLength = n, rq_requestID = sc_next_request_id c, rq_requestType = t\<rparr> payload p = Ret r p'"
  shows "sync_request env send recv oid n t payload (c, p) = Ret r (c\<lparr>sc_next_request_id := next_request_id (sc_next_request_id c)\<rparr>, p')"
  using assms by (simp add: sync_request_def connector_ok_def)

lemma connector_ok_next: "connector_ok c \<Longrightarrow> connector_ok (c\<lparr>sc_next_request_id := next_request_id n\<rparr>)"
  using next_request_id_less [of n] by (simp add: connector_ok_def)

context object_service
begin

text \<open>A call on a connector of the service is the call on the dictionary of its contents.\<close>

lemma call_refines:
  assumes c: "connector_ok c" and p: "ready p" and ids: "\<And>oid. oid \<in> call_ids call \<Longrightarrow> length oid = 32" and pay: "\<And>b. b \<in> call_payloads call \<Longrightarrow> fits b"
    and spec: "dict_call call (storage_view (contents p)) = Some (a, d)"
  shows "\<exists>c' p'. sync_call env send recv call (c, p) = Ret a (c', p') \<and> connector_ok c' \<and> ready p' \<and> storage_view (contents p') = d"
proof -
  let ?i = "sc_next_request_id c"
  let ?c = "c\<lparr>sc_next_request_id := next_request_id ?i\<rparr>"
  have i: "word64 ?i" using c by (simp add: connector_ok_def word64_def)
  have c': "connector_ok ?c" by (rule connector_ok_next [OF c])
  have id: "\<exists>cid. to_capnp_object_id oid = Inr cid" if "length oid = 32" for oid using object_id_there_and_back [OF that] by blast
  show ?thesis
  proof (cases call)
    case (SetCall oid b)
    then obtain cid where cid: "to_capnp_object_id oid = Inr cid" using ids id by force
    obtain h p' where ex: "exchange env send recv \<lparr>rq_objectID = cid, rq_payloadLength = length b, rq_requestID = ?i, rq_requestType = SET_OBJECT\<rparr> (Some b) p = Ret (h, []) p'"
        "rs_responseType h = SET_O_K" "ready p'" "contents p' = (contents p)(cid \<mapsto> b)"
      using set_law [OF p _ i, of b cid] pay SetCall by auto
    have "sync_call env send recv call (c, p) = Ret Finished (?c, p')"
      using sync_request_Ret [OF c cid ex(1)] ex(2) SetCall by (simp add: sync_set_object_def ensure_def)
    then show ?thesis using spec SetCall ex(3,4) c' storage_view_upd [OF cid] by auto
  next
    case (GetCall oid)
    then obtain cid b where cid: "to_capnp_object_id oid = Inr cid" and b: "contents p cid = Some b" "a = Got b" "d = storage_view (contents p)"
      using ids id spec by (force simp: storage_view_def)
    have n: "word64 (2 ^ 64 - 1)" by (simp add: word64_def)
    have "take (2 ^ 64 - 1) b = b" using fits_length(2) [OF fits_length(1) [OF p b(1)]] by (simp add: word64_def)
    then obtain h p' where ex: "exchange env send recv \<lparr>rq_objectID = cid, rq_payloadLength = 2 ^ 64 - 1, rq_requestID = ?i, rq_requestType = GET_OBJECT\<rparr> None p = Ret (h, b) p'"
        "rs_responseType h = GET_O_K" "ready p'" "contents p' = contents p"
      using get_law [OF p b(1) n i] by metis
    have "sync_call env send recv call (c, p) = Ret (Got b) (?c, p')"
      using sync_request_Ret [OF c cid ex(1)] ex(2) GetCall by (simp add: sync_get_object_def ensure_def)
    then show ?thesis using b ex(3,4) c' by auto
  next
    case (DeleteCall oid)
    then obtain cid where cid: "to_capnp_object_id oid = Inr cid" using ids id by force
    obtain h p' where ex: "exchange env send recv \<lparr>rq_objectID = cid, rq_payloadLength = 0, rq_requestID = ?i, rq_requestType = DELETE_OBJECT\<rparr> None p = Ret (h, []) p'"
        "rs_responseType h = (if contents p cid = None then DEL_NOT_EXISTS else DEL_O_K)" "ready p'" "contents p' = (contents p)(cid := None)"
      using delete_law [OF p i, of cid] by blast
    have "sync_call env send recv call (c, p) = Ret (Deleted (contents p cid \<noteq> None)) (?c, p')"
      using sync_request_Ret [OF c cid ex(1)] ex(2) DeleteCall by (cases "contents p cid") (simp_all add: sync_delete_object_def ensure_def andthen_def)
    then show ?thesis using spec DeleteCall ex(3,4) c' storage_view_upd [OF cid] storage_view_at [OF cid] by auto
  next
    case (DuplicateCall oid new_oid)
    then obtain cid new where cid: "to_capnp_object_id oid = Inr cid" "to_capnp_object_id new_oid = Inr new" using ids id by force
    have ne: "oid \<noteq> new_oid" using spec DuplicateCall by (auto split: if_splits)
    then have "cid \<noteq> new" using capnp_id_inj cid by blast
    moreover obtain b where b: "contents p cid = Some b" "a = Finished" "d = (storage_view (contents p))(new_oid \<mapsto> b)"
      using spec DuplicateCall ne storage_view_at [OF cid(1), of "contents p"] by auto
    ultimately obtain h p' where ex: "exchange env send recv \<lparr>rq_objectID = new, rq_payloadLength = length (we_object_id env cid), rq_requestID = ?i,
          rq_requestType = DUPLICATE_OBJECT_I_D\<rparr> (Some (we_object_id env cid)) p = Ret (h, []) p'"
        "rs_responseType h = DUPLICATE_O_K" "ready p'" "contents p' = (contents p)(new \<mapsto> b)"
      using duplicate_law [OF p b(1) _ i] by metis
    have "sync_call env send recv call (c, p) = Ret Finished (?c, p')"
      using sync_request_Ret [OF c cid(2) ex(1)] ex(2) DuplicateCall cid(1) by (simp add: sync_duplicate_object_id_def ensure_def)
    then show ?thesis using b(2,3) ex(3,4) c' storage_view_upd [OF cid(2)] by auto
  qed
qed

end

section \<open>The server keeps the contract\<close>

definition wire_ok :: "wire_env \<Rightarrow> bool" where
  "wire_ok env \<longleftrightarrow>
     (\<forall>h. word64 (rq_payloadLength h) \<and> word64 (rq_requestID h) \<longrightarrow> we_request_of env (we_request env h) = Some h \<and> length (we_request env h) = capnpHeaderSize) \<and>
     (\<forall>h. word64 (rs_payloadLength h) \<and> word64 (rs_responseID h) \<longrightarrow> we_response_of env (we_response env h) = Some h \<and> length (we_response env h) = capnpHeaderSize) \<and>
     (\<forall>c. we_object_id_of env (we_object_id env c) = Some c \<and> length (we_object_id env c) = capnpObjectIDSize)"

text \<open>A client takes the first message for it; without one it waits.\<close>

definition server_recv :: "identity \<Rightarrow> bytes option server_step" where
  "server_recv client s = (case dict_get (os_sent s) client of None \<Rightarrow> NoFuel | Some b \<Rightarrow> Ret (Some b) (s\<lparr>os_sent := remove1 (client, b) (os_sent s)\<rparr>))"

text \<open>Between calls nothing is on its way, and the hash tells the payloads apart that are used.\<close>

definition payload_fits :: "bytes set \<Rightarrow> bytes \<Rightarrow> bool" where
  "payload_fits U b \<longleftrightarrow> b \<in> U \<and> length b \<le> memoryLimitInBytes"

definition server_ready :: "wire_env \<Rightarrow> bytes set \<Rightarrow> object_server \<Rightarrow> bool" where
  "server_ready env U s \<longleftrightarrow> wire_ok env \<and> inj_on (we_hash env) U \<and> manager_ok (we_hash env) (os_manager s) \<and>
     (\<forall>c b. stored (os_manager s) c = Some b \<longrightarrow> payload_fits U b) \<and> os_waiting s = [] \<and> os_partial s = [] \<and> os_sent s = []"

lemma partial_none: "os_partial s = [] \<Longrightarrow> s\<lparr>os_partial := []\<rparr> = s"
  by (cases s) simp

lemma header_of:
  "wire_ok env \<Longrightarrow> word64 n \<Longrightarrow> word64 i \<Longrightarrow> t \<notin> {SET_OBJECT, DUPLICATE_OBJECT_I_D} \<Longrightarrow> os_partial s = [] \<Longrightarrow>
    process_message env client (we_request env \<lparr>rq_objectID = c, rq_payloadLength = n, rq_requestID = i, rq_requestType = t\<rparr>) s =
      process_full env client \<lparr>rq_objectID = c, rq_payloadLength = n, rq_requestID = i, rq_requestType = t\<rparr> [] s"
  by (simp add: process_message_def Let_def wire_ok_def dict_pop_def partial_none)

lemma header_kept:
  "wire_ok env \<Longrightarrow> word64 n \<Longrightarrow> word64 i \<Longrightarrow> t \<in> {SET_OBJECT, DUPLICATE_OBJECT_I_D} \<Longrightarrow> os_partial s = [] \<Longrightarrow>
    process_message env client (we_request env \<lparr>rq_objectID = c, rq_payloadLength = n, rq_requestID = i, rq_requestType = t\<rparr>) s =
      Ret () (s\<lparr>os_partial := [(client, \<lparr>rq_objectID = c, rq_payloadLength = n, rq_requestID = i, rq_requestType = t\<rparr>)]\<rparr>)"
  by (auto simp: process_message_def Let_def wire_ok_def dict_pop_def dict_set_def)

lemma payload_taken:
  "os_partial s = [(client, rq)] \<Longrightarrow> rq_payloadLength rq = length msg \<Longrightarrow> process_message env client msg s = process_full env client rq msg (s\<lparr>os_partial := []\<rparr>)"
  by (simp add: process_message_def Let_def dict_pop_def dict_get_Cons)

lemma send_pending_none: "os_waiting s = [] \<Longrightarrow> send_pending env c obj s = Ret () s"
  by (simp add: send_pending_def)

text \<open>The response of the server, read by the connector.\<close>

lemma read_answer:
  assumes "wire_ok env" "word64 (rs_payloadLength h)" "word64 (rs_responseID h)" "rs_payloadLength h = length b" "os_sent s = []"
  shows "receive_response env (server_recv client) (s\<lparr>os_sent := [(client, we_response env h)] @ (if b = [] then [] else [(client, b)])\<rparr>) = Ret (h, b) s"
proof -
  have "we_response_of env (we_response env h) = Some h" using assms(1-3) by (simp add: wire_ok_def)
  then show ?thesis using assms(4,5)
    by (cases "b = []") (simp_all add: receive_response_def connection_failure_def read_response_header_def read_response_payload_def andthen_def server_recv_def dict_get_Cons check_def)
qed

lemma respond_run:
  "os_sent s = [] \<Longrightarrow> respond env client rq t b s =
    Ret () (s\<lparr>os_sent := [(client, we_response env \<lparr>rs_objectID = rq_objectID rq, rs_payloadLength = length b, rs_responseID = rq_requestID rq, rs_responseType = t\<rparr>)] @
      (if b = [] then [] else [(client, b)])\<rparr>)"
  by (simp add: respond_def writeMessage_def)

text \<open>An exchange whose request leads to one response.\<close>

lemma exchange_answered:
  assumes env: "wire_ok env" and i: "word64 (rq_requestID rq)" and len: "word64 (length b)" and s': "os_sent s' = []"
    and sent: "write_request env (server_receive env client) rq payload s = respond env client rq t b s'"
  shows "\<exists>h. exchange env (server_receive env client) (server_recv client) rq payload s = Ret (h, b) s' \<and> rs_responseType h = t"
proof -
  let ?h = "\<lparr>rs_objectID = rq_objectID rq, rs_payloadLength = length b, rs_responseID = rq_requestID rq, rs_responseType = t\<rparr>"
  have "exchange env (server_receive env client) (server_recv client) rq payload s = Ret (?h, b) s'"
    using sent respond_run [OF s'] read_answer [OF env, of ?h b s' client] i len s' by (simp add: exchange_def seq_run)
  then show ?thesis by (intro exI [of _ ?h]) simp
qed

lemma write_one:
  "process_message env client (we_request env rq) s = Ret () s' \<Longrightarrow> write_request env (server_receive env client) rq None s = Ret () s'"
  by (simp add: write_request_def connection_failure_def seq_run server_receive_def)

lemma write_two:
  "process_message env client (we_request env rq) s = Ret () s1 \<Longrightarrow> process_message env client b s1 = Ret () s' \<Longrightarrow>
    write_request env (server_receive env client) rq (Some b) s = Ret () s'"
  by (simp add: write_request_def connection_failure_def seq_run server_receive_def)

lemma word64_small: "n \<le> memoryLimitInBytes \<Longrightarrow> word64 n" "word64 0" "word64 capnpObjectIDSize"
  by (simp_all add: word64_def memoryLimitInBytes_def capnpObjectIDSize_def)

lemma respond_Ret: "os_sent s = [] \<Longrightarrow> \<exists>s'. respond env client rq t b s = Ret () s'"
  by (simp add: respond_run)

lemma server_set:
  assumes r: "server_ready env U s" and b: "payload_fits U b" and i: "word64 i"
  shows "\<exists>h s'. exchange env (server_receive env client) (server_recv client) \<lparr>rq_objectID = c, rq_payloadLength = length b, rq_requestID = i, rq_requestType = SET_OBJECT\<rparr> (Some b) s =
      Ret (h, []) s' \<and> rs_responseType h = SET_O_K \<and> server_ready env U s' \<and> stored (os_manager s') = (stored (os_manager s))(c \<mapsto> b)"
proof -
  let ?rq = "\<lparr>rq_objectID = c, rq_payloadLength = length b, rq_requestID = i, rq_requestType = SET_OBJECT\<rparr>"
  have env: "wire_ok env" and idle: "os_waiting s = []" "os_partial s = []" "os_sent s = []" using r by (simp_all add: server_ready_def)
  have len: "length b \<le> memoryLimitInBytes" "word64 (length b)" using b word64_small(1) by (simp_all add: payload_fits_def)
  have "no_collision (we_hash env) b (os_manager s)"
    by (rule no_collision_inj [where U = U]) (use r b in \<open>auto simp: server_ready_def payload_fits_def ran_def\<close>)
  then obtain m where m: "setObject (we_hash env) c b (os_manager s) = Ret b m" "manager_ok (we_hash env) m" "stored m = (stored (os_manager s))(c \<mapsto> b)"
    using setObject_spec [of "we_hash env" "os_manager s" b c] r by (auto simp: server_ready_def)
  let ?s = "s\<lparr>os_manager := m\<rparr>"
  obtain s2 where s2: "respond env client ?rq SET_O_K [] ?s = Ret () s2" using respond_Ret [of ?s env client ?rq] idle(3) by fastforce
  have "process_full env client ?rq b s = Ret () s2"
    using len(1) m(1) s2 idle(1) by (simp add: process_full_def processSetRequest_def manage_def andthen_def seq_run send_pending_none)
  then have "write_request env (server_receive env client) ?rq (Some b) s = respond env client ?rq SET_O_K [] ?s"
    using header_kept [OF env len(2) i _ idle(2), of SET_OBJECT client c] payload_taken [of "s\<lparr>os_partial := [(client, ?rq)]\<rparr>" client ?rq b env] s2 idle(2)
    by (intro trans [OF write_two]) (simp_all add: partial_none)
  from exchange_answered [OF env _ _ _ this] i word64_small(2) idle(3)
  obtain h where "exchange env (server_receive env client) (server_recv client) ?rq (Some b) s = Ret (h, []) ?s" "rs_responseType h = SET_O_K" by auto
  moreover have "server_ready env U ?s" using r m b by (auto simp: server_ready_def)
  ultimately show ?thesis using m(3) by auto
qed

lemma take_min: "take (min (length b) n) b = take n b"
  by (simp add: min_def)

lemma server_get:
  assumes r: "server_ready env U s" and b: "stored (os_manager s) c = Some b" and n: "word64 n" and i: "word64 i"
  shows "\<exists>h s'. exchange env (server_receive env client) (server_recv client) \<lparr>rq_objectID = c, rq_payloadLength = n, rq_requestID = i, rq_requestType = GET_OBJECT\<rparr> None s =
      Ret (h, take n b) s' \<and> rs_responseType h = GET_O_K \<and> server_ready env U s' \<and> stored (os_manager s') = stored (os_manager s)"
proof -
  let ?rq = "\<lparr>rq_objectID = c, rq_payloadLength = n, rq_requestID = i, rq_requestType = GET_OBJECT\<rparr>"
  have env: "wire_ok env" and idle: "os_partial s = []" "os_sent s = []" using r by (simp_all add: server_ready_def)
  have "payload_fits U b" using r b by (simp add: server_ready_def)
  then have len: "word64 (length (take n b))" using word64_small(1) [of "length b"] by (auto simp: payload_fits_def word64_def)
  obtain s2 where s2: "respond env client ?rq GET_O_K (take n b) s = Ret () s2" using respond_Ret [OF idle(2)] by blast
  have get: "getObject c (os_manager s) = Ret (Some b) (os_manager s)" using getObject_spec r b by (metis server_ready_def)
  have "s\<lparr>os_manager := os_manager s\<rparr> = s" by simp
  then have "process_full env client ?rq [] s = Ret () s2"
    using get s2 by (simp add: process_full_def processGetRequest_def manage_def andthen_def sendGetResponse_def take_min)
  then have "write_request env (server_receive env client) ?rq None s = respond env client ?rq GET_O_K (take n b) s"
    using header_of [OF env n i _ idle(1), of GET_OBJECT client c] s2 by (intro trans [OF write_one]) simp_all
  from exchange_answered [OF env _ len idle(2) this] i
  show ?thesis using r by auto
qed

lemma server_delete:
  assumes r: "server_ready env U s" and i: "word64 i"
  shows "\<exists>h s'. exchange env (server_receive env client) (server_recv client) \<lparr>rq_objectID = c, rq_payloadLength = 0, rq_requestID = i, rq_requestType = DELETE_OBJECT\<rparr> None s =
      Ret (h, []) s' \<and> rs_responseType h = (if stored (os_manager s) c = None then DEL_NOT_EXISTS else DEL_O_K) \<and> server_ready env U s' \<and>
      stored (os_manager s') = (stored (os_manager s))(c := None)"
proof -
  let ?rq = "\<lparr>rq_objectID = c, rq_payloadLength = 0, rq_requestID = i, rq_requestType = DELETE_OBJECT\<rparr>"
  let ?t = "if stored (os_manager s) c = None then DEL_NOT_EXISTS else DEL_O_K"
  have env: "wire_ok env" and idle: "os_partial s = []" "os_sent s = []" using r by (simp_all add: server_ready_def)
  obtain m where m: "deleteObject c (os_manager s) = Ret (stored (os_manager s) c \<noteq> None) m" "manager_ok (we_hash env) m" "stored m = (stored (os_manager s))(c := None)"
    using deleteObject_spec [of "we_hash env" "os_manager s" c] r by (auto simp: server_ready_def)
  let ?s = "s\<lparr>os_manager := m\<rparr>"
  obtain s2 where s2: "respond env client ?rq ?t [] ?s = Ret () s2" using respond_Ret [of ?s env client ?rq] idle(2) by fastforce
  have "process_full env client ?rq [] s = Ret () s2"
    using m(1) s2 by (cases "stored (os_manager s) c") (simp_all add: process_full_def processDeleteRequest_def manage_def andthen_def)
  then have "write_request env (server_receive env client) ?rq None s = respond env client ?rq ?t [] ?s"
    using header_of [OF env word64_small(2) i _ idle(1), of DELETE_OBJECT client c] s2 by (intro trans [OF write_one]) simp_all
  from exchange_answered [OF env _ _ _ this] i word64_small(2) idle(2)
  obtain h where "exchange env (server_receive env client) (server_recv client) ?rq None s = Ret (h, []) ?s" "rs_responseType h = ?t" by auto
  moreover have "server_ready env U ?s" using r m by (auto simp: server_ready_def)
  ultimately show ?thesis using m(3) by auto
qed

lemma server_duplicate:
  assumes r: "server_ready env U s" and b: "stored (os_manager s) c = Some b" and ne: "c \<noteq> c'" and i: "word64 i"
  shows "\<exists>h s'. exchange env (server_receive env client) (server_recv client)
      \<lparr>rq_objectID = c', rq_payloadLength = length (we_object_id env c), rq_requestID = i, rq_requestType = DUPLICATE_OBJECT_I_D\<rparr> (Some (we_object_id env c)) s = Ret (h, []) s' \<and>
      rs_responseType h = DUPLICATE_O_K \<and> server_ready env U s' \<and> stored (os_manager s') = (stored (os_manager s))(c' \<mapsto> b)"
proof -
  let ?rq = "\<lparr>rq_objectID = c', rq_payloadLength = length (we_object_id env c), rq_requestID = i, rq_requestType = DUPLICATE_OBJECT_I_D\<rparr>"
  have env: "wire_ok env" and idle: "os_waiting s = []" "os_partial s = []" "os_sent s = []" using r by (simp_all add: server_ready_def)
  have id: "we_object_id_of env (we_object_id env c) = Some c" "length (we_object_id env c) = capnpObjectIDSize" using env by (simp_all add: wire_ok_def)
  then have len: "word64 (length (we_object_id env c))" using word64_small(3) by simp
  obtain m where m: "duplicateObject c c' (os_manager s) = Ret (Some b) m" "manager_ok (we_hash env) m" "stored m = (stored (os_manager s))(c' \<mapsto> b)"
    using duplicateObject_spec [of "we_hash env" "os_manager s" c' c] r b ne by (auto simp: server_ready_def)
  let ?s = "s\<lparr>os_manager := m\<rparr>"
  obtain s2 where s2: "respond env client ?rq DUPLICATE_O_K [] ?s = Ret () s2" using respond_Ret [of ?s env client ?rq] idle(3) by fastforce
  have "process_full env client ?rq (we_object_id env c) s = Ret () s2"
    using id m(1) s2 idle(1) by (simp add: process_full_def processDuplicateRequest_def manage_def andthen_def seq_run send_pending_none sendDuplicateResponse_def)
  then have "write_request env (server_receive env client) ?rq (Some (we_object_id env c)) s = respond env client ?rq DUPLICATE_O_K [] ?s"
    using header_kept [OF env len i _ idle(2), of DUPLICATE_OBJECT_I_D client c'] payload_taken [of "s\<lparr>os_partial := [(client, ?rq)]\<rparr>" client ?rq "we_object_id env c" env] s2 idle(2)
    by (intro trans [OF write_two]) (simp_all add: partial_none)
  from exchange_answered [OF env _ _ _ this] i word64_small(2) idle(3)
  obtain h where "exchange env (server_receive env client) (server_recv client) ?rq (Some (we_object_id env c)) s = Ret (h, []) ?s" "rs_responseType h = DUPLICATE_O_K" by auto
  moreover have "server_ready env U ?s" using r m b by (auto simp: server_ready_def)
  ultimately show ?thesis using m(3) by auto
qed

interpretation storage: object_service env "server_receive env client" "server_recv client" "\<lambda>s. stored (os_manager s)" "server_ready env U" "payload_fits U" for env client U
proof unfold_locales
  show "payload_fits U b" if "server_ready env U p" "stored (os_manager p) c = Some b" for p c b using that by (simp add: server_ready_def)
  show "word64 (length b)" if "payload_fits U b" for b using that word64_small(1) by (simp add: payload_fits_def)
qed (fact server_set server_get server_delete server_duplicate)+

section \<open>Many clients\<close>

definition client_call :: "wire_env \<Rightarrow> identity \<times> storage_call \<Rightarrow> (storage_answer, (identity \<Rightarrow> sync_connector) \<times> object_server) comp" where
  "client_call env cc = (\<lambda>(conns, s).
     let client = fst cc
     in case sync_call env (server_receive env client) (server_recv client) (snd cc) (conns client, s) of
          Ret a (c, s') \<Rightarrow> Ret a (conns(client := c), s')
        | Raise e (c, s') \<Rightarrow> Raise e (conns(client := c), s')
        | NoFuel \<Rightarrow> NoFuel)"

fun client_calls :: "wire_env \<Rightarrow> (identity \<times> storage_call) list \<Rightarrow> (storage_answer list, (identity \<Rightarrow> sync_connector) \<times> object_server) comp" where
  "client_calls env [] = ret []"
| "client_calls env (cc # ccs) = andthen (client_call env cc) (\<lambda>a. andthen (client_calls env ccs) (\<lambda>as. ret (a # as)))"

fun dict_calls :: "storage_call list \<Rightarrow> (ObjectID \<Rightarrow> bytes option) \<Rightarrow> (storage_answer list \<times> (ObjectID \<Rightarrow> bytes option)) option" where
  "dict_calls [] d = Some ([], d)"
| "dict_calls (call # calls) d =
     (case dict_call call d of
        None \<Rightarrow> None
      | Some (a, d') \<Rightarrow> (case dict_calls calls d' of None \<Rightarrow> None | Some (as, d'') \<Rightarrow> Some (a # as, d'')))"

definition calls_ok :: "bytes set \<Rightarrow> (identity \<times> storage_call) list \<Rightarrow> bool" where
  "calls_ok U ccs \<longleftrightarrow> (\<forall>cc\<in>set ccs. (\<forall>oid\<in>call_ids (snd cc). length oid = 32) \<and> (\<forall>b\<in>call_payloads (snd cc). payload_fits U b))"

lemma client_calls_refine:
  assumes "server_ready env U s" "\<And>client. connector_ok (conns client)" "calls_ok U ccs" "dict_calls (map snd ccs) (storage_view (stored (os_manager s))) = Some (as, d)"
  shows "\<exists>conns' s'. client_calls env ccs (conns, s) = Ret as (conns', s') \<and> server_ready env U s' \<and> storage_view (stored (os_manager s')) = d"
  using assms
proof (induction ccs arbitrary: s conns as)
  case (Cons cc ccs)
  obtain client call where cc: "cc = (client, call)" by force
  obtain a d1 as1 where d: "dict_call call (storage_view (stored (os_manager s))) = Some (a, d1)" "dict_calls (map snd ccs) d1 = Some (as1, d)" "as = a # as1"
    using Cons.prems(4) cc by (auto split: option.splits prod.splits)
  have "\<And>oid. oid \<in> call_ids call \<Longrightarrow> length oid = 32" "\<And>b. b \<in> call_payloads call \<Longrightarrow> payload_fits U b" using Cons.prems(3) cc by (simp_all add: calls_ok_def)
  from storage.call_refines [OF Cons.prems(2) Cons.prems(1) this d(1), of client]
  obtain c s1 where one: "sync_call env (server_receive env client) (server_recv client) call (conns client, s) = Ret a (c, s1)" "connector_ok c" "server_ready env U s1"
    "storage_view (stored (os_manager s1)) = d1" by blast
  have "connector_ok ((conns(client := c)) x)" for x using one(2) Cons.prems(2) by simp
  moreover have "calls_ok U ccs" using Cons.prems(3) by (simp add: calls_ok_def)
  ultimately obtain conns' s' where "client_calls env ccs (conns(client := c), s1) = Ret as1 (conns', s')" "server_ready env U s'" "storage_view (stored (os_manager s')) = d"
    using Cons.IH [OF one(3)] d(2) one(4) by blast
  then show ?case using one(1) cc d(3) by (simp add: client_call_def andthen_def)
qed simp

lemma server_init_ready: "wire_ok env \<Longrightarrow> inj_on (we_hash env) U \<Longrightarrow> server_ready env U server_init" "storage_view (stored (os_manager server_init)) = Map.empty"
  using manager_init_ok by (auto simp: server_ready_def server_init_def storage_view_def fun_eq_iff split: sum.splits)

lemma sync_init_ok: "connector_ok sync_init"
  by (simp add: connector_ok_def sync_init_def)

end
