(* ===== verification/StorageWaiting.thy ===== *)
theory StorageWaiting
  imports StorageRuns
begin

text \<open>
  Requests for objects that are not there yet: no request waits for an object that is stored, whatever the clients send, and what stops waiting has been
  answered. The nesting of duplicates ends.
\<close>

definition answer_of :: "wire_env \<Rightarrow> bytes \<Rightarrow> request_header \<Rightarrow> response_header" where
  "answer_of env obj rq =
     (if rq_requestType rq = GET_OBJECT
      then \<lparr>rs_objectID = rq_objectID rq, rs_payloadLength = length (take (rq_payloadLength rq) obj), rs_responseID = rq_requestID rq, rs_responseType = GET_O_K\<rparr>
      else \<lparr>rs_objectID = rq_objectID rq, rs_payloadLength = 0, rs_responseID = rq_requestID rq, rs_responseType = DUPLICATE_O_K\<rparr>)"

definition answered :: "wire_env \<Rightarrow> bytes \<Rightarrow> identity \<times> request_header \<Rightarrow> object_server \<Rightarrow> bool" where
  "answered env obj r s \<longleftrightarrow> (fst r, we_response env (answer_of env obj (snd r))) \<in> set (os_sent s)"

abbreviation contents_of :: "object_server \<Rightarrow> capnp_object_id \<Rightarrow> bytes option" where
  "contents_of s \<equiv> stored (os_manager s)"

abbreviation waiting_on :: "object_server \<Rightarrow> capnp_object_id \<Rightarrow> (identity \<times> request_header) list option" where
  "waiting_on s \<equiv> dict_get (os_waiting s)"

text \<open>What sending the answers of an object may change.\<close>

definition progress :: "wire_env \<Rightarrow> bytes \<Rightarrow> object_server \<Rightarrow> object_server \<Rightarrow> bool" where
  "progress env obj s s' \<longleftrightarrow> manager_ok (we_hash env) (os_manager s') \<and> dict_ok (os_waiting s') \<and> length (os_waiting s') \<le> length (os_waiting s) \<and>
     (\<forall>k rs. waiting_on s' k = Some rs \<longrightarrow> waiting_on s k = Some rs) \<and> (\<forall>k. contents_of s' k = contents_of s k \<or> contents_of s' k = Some obj) \<and>
     set (os_sent s) \<subseteq> set (os_sent s') \<and> (\<forall>k rs r. waiting_on s k = Some rs \<and> waiting_on s' k = None \<and> r \<in> set rs \<longrightarrow> answered env obj r s')"

definition idle_ok :: "object_server \<Rightarrow> bool" where
  "idle_ok s \<longleftrightarrow> (\<forall>k. waiting_on s k \<noteq> None \<longrightarrow> contents_of s k = None)"

lemma answered_mono: "answered env obj r s \<Longrightarrow> set (os_sent s) \<subseteq> set (os_sent s') \<Longrightarrow> answered env obj r s'"
  by (auto simp: answered_def)

lemma progressD:
  assumes "progress env obj s s'"
  shows "waiting_on s k = Some rs \<Longrightarrow> waiting_on s' k = None \<Longrightarrow> r \<in> set rs \<Longrightarrow> answered env obj r s'"
    and "contents_of s' k = contents_of s k \<or> contents_of s' k = Some obj" and "set (os_sent s) \<subseteq> set (os_sent s')"
    and "answered env obj q s \<Longrightarrow> answered env obj q s'" and "waiting_on s' k = Some rs \<Longrightarrow> waiting_on s k = Some rs"
  using assms answered_mono [of env obj q s s'] unfolding progress_def by blast+

lemma progress_refl: "manager_ok (we_hash env) (os_manager s) \<Longrightarrow> dict_ok (os_waiting s) \<Longrightarrow> progress env obj s s"
  by (auto simp: progress_def)

lemma progress_trans:
  assumes "progress env obj s s1" "progress env obj s1 s2"
  shows "progress env obj s s2"
proof -
  have "answered env obj r s2" if w: "waiting_on s k = Some rs" "waiting_on s2 k = None" "r \<in> set rs" for k rs r
  proof (cases "waiting_on s1 k")
    case None
    then have "answered env obj r s1" using progressD(1) [OF assms(1)] w by blast
    then show ?thesis by (rule progressD(4) [OF assms(2)])
  next
    case (Some rs1)
    then have "rs1 = rs" using progressD(5) [OF assms(1) Some] w(1) by simp
    then show ?thesis using progressD(1) [OF assms(2)] Some w(2,3) by blast
  qed
  moreover have "contents_of s2 k = contents_of s k \<or> contents_of s2 k = Some obj" for k using assms unfolding progress_def by metis
  moreover have "waiting_on s k = Some rs" if "waiting_on s2 k = Some rs" for k rs using assms that unfolding progress_def by blast
  ultimately show ?thesis using assms unfolding progress_def by (blast intro: order_trans)
qed

lemma respond_sends:
  "respond env client rq t b s = Ret () s' \<Longrightarrow>
    os_manager s' = os_manager s \<and> os_waiting s' = os_waiting s \<and> set (os_sent s) \<subseteq> set (os_sent s') \<and>
    (client, we_response env \<lparr>rs_objectID = rq_objectID rq, rs_payloadLength = length b, rs_responseID = rq_requestID rq, rs_responseType = t\<rparr>) \<in> set (os_sent s')"
  by (auto simp: respond_def writeMessage_def)

lemma respond_always: "\<exists>s'. respond env client rq t b s = Ret () s'"
  by (simp add: respond_def writeMessage_def)

lemma progress_sent:
  assumes "manager_ok (we_hash env) (os_manager s)" "dict_ok (os_waiting s)" "respond env client rq t b s = Ret () s'"
  shows "progress env obj s s'"
  using assms respond_sends [OF assms(3)] by (auto simp: progress_def)

lemma length_pop: "dict_get d k = Some v \<Longrightarrow> length (dict_pop k d) < length d"
  unfolding dict_pop_def AList.delete_eq by (rule length_filter_less [of "(k, v)"]) (auto dest: dict_get_SomeD)

text \<open>
  In the loop over the requests that waited for an object, with those still to come; the server has taken them off the waiting ones before.
\<close>

definition serving :: "wire_env \<Rightarrow> bytes \<Rightarrow> capnp_object_id \<Rightarrow> (identity \<times> request_header) list \<Rightarrow> object_server \<Rightarrow> (identity \<times> request_header) list \<Rightarrow> object_server \<Rightarrow> bool" where
  "serving env obj c requests s rest s1 \<longleftrightarrow> progress env obj s s1 \<and> idle_ok s1 \<and> contents_of s1 c = Some obj \<and> (\<forall>r\<in>set requests. r \<in> set rest \<or> answered env obj r s1)"

lemma serving_next:
  assumes "serving env obj c requests s (r # rest) s1" "progress env obj s1 s2" "idle_ok s2" "answered env obj r s2"
  shows "serving env obj c requests s rest s2"
proof -
  have "contents_of s2 c = Some obj" using progressD(2) [OF assms(2), of c] assms(1) by (auto simp: serving_def)
  then show ?thesis using assms progress_trans [of env obj s s1 s2] progressD(4) [OF assms(2)] unfolding serving_def by (metis set_ConsD)
qed

lemma serving_get:
  assumes s1: "serving env obj c requests s ((client, rq) # rest) s1" and get: "rq_requestType rq = GET_OBJECT"
  shows "\<exists>s2. sendGetResponse env client rq obj s1 = Ret () s2 \<and> serving env obj c requests s rest s2"
proof -
  obtain s2 where s2: "respond env client rq GET_O_K (take (min (length obj) (rq_payloadLength rq)) obj) s1 = Ret () s2" using respond_always by blast
  note sends = respond_sends [OF s2]
  have "manager_ok (we_hash env) (os_manager s1)" "dict_ok (os_waiting s1)" using s1 by (simp_all add: serving_def progress_def)
  then have "progress env obj s1 s2" using s2 by (rule progress_sent)
  moreover have "idle_ok s2" using s1 sends by (simp add: serving_def idle_ok_def)
  moreover have "answered env obj (client, rq) s2" using sends get by (simp add: answered_def answer_of_def take_min)
  ultimately show ?thesis using s2 serving_next [OF s1] by (simp add: sendGetResponse_def)
qed

lemma duplicate_self:
  assumes "manager_ok hash m" "stored m c \<noteq> None"
  shows "\<exists>m'. duplicateObject c c m = Raise SystemError m'"
  using assms override_spec [OF assms(1), of c] stored_None_iff [OF assms(1), of c] by (auto simp: duplicateObject_def override_def andthen_def)

text \<open>The duplicate is made and announced; what waits for it is answered by the nested call.\<close>

lemma serving_duplicate:
  assumes s1: "serving env obj c requests s ((client, rq) # rest) s1" and dup: "rq_requestType rq \<noteq> GET_OBJECT" "rq_objectID rq \<noteq> c"
    and nested: "\<And>s2. length (os_waiting s2) \<le> length (os_waiting s1) \<Longrightarrow> manager_ok (we_hash env) (os_manager s2) \<Longrightarrow> dict_ok (os_waiting s2) \<Longrightarrow>
      contents_of s2 (rq_objectID rq) = Some obj \<Longrightarrow> (\<And>k. k \<noteq> rq_objectID rq \<Longrightarrow> waiting_on s2 k \<noteq> None \<Longrightarrow> contents_of s2 k = None) \<Longrightarrow>
      sat (\<lambda>_ s'. progress env obj s2 s' \<and> idle_ok s' \<and> waiting_on s' (rq_objectID rq) = None) (\<lambda>_. True) (send s2)"
  shows "sat (\<lambda>_. serving env obj c requests s rest) (\<lambda>_. True)
    (seq (manage (duplicateObject c (rq_objectID rq))) (seq (sendDuplicateResponse env client rq) send) s1)"
proof -
  let ?k = "rq_objectID rq"
  have ok: "manager_ok (we_hash env) (os_manager s1)" "dict_ok (os_waiting s1)" "contents_of s1 c = Some obj" "idle_ok s1"
    using s1 by (simp_all add: serving_def progress_def)
  obtain m where m: "duplicateObject c ?k (os_manager s1) = Ret (Some obj) m" "manager_ok (we_hash env) m" "stored m = (contents_of s1)(?k \<mapsto> obj)"
    using duplicateObject_spec [OF ok(1) dup(2)] ok(3) by auto
  obtain s2 where s2: "respond env client rq DUPLICATE_O_K [] (s1\<lparr>os_manager := m\<rparr>) = Ret () s2" using respond_always by blast
  note sends = respond_sends [OF s2]
  have p2: "progress env obj s1 s2" using m ok sends by (auto simp: progress_def)
  have a2: "answered env obj (client, rq) s2" using sends dup(1) by (simp add: answered_def answer_of_def)
  have "sat (\<lambda>_ s'. progress env obj s2 s' \<and> idle_ok s' \<and> waiting_on s' ?k = None) (\<lambda>_. True) (send s2)"
    by (rule nested) (use ok m sends in \<open>auto simp: idle_ok_def\<close>)
  then have "sat (\<lambda>_. serving env obj c requests s rest) (\<lambda>_. True) (send s2)"
    by (rule sat_mono) (use serving_next [OF s1] progress_trans [OF p2] progressD(4) a2 in blast)+
  then show ?thesis using m(1) s2 by (simp add: seq_run manage_def sendDuplicateResponse_def)
qed

text \<open>The end of the loop.\<close>

lemma serving_end:
  assumes w: "waiting_on s c = Some requests" and s': "serving env obj c requests (s\<lparr>os_waiting := dict_pop c (os_waiting s)\<rparr>) [] s'"
  shows "progress env obj s s' \<and> idle_ok s' \<and> waiting_on s' c = None"
proof -
  have p: "progress env obj (s\<lparr>os_waiting := dict_pop c (os_waiting s)\<rparr>) s'" and all: "\<forall>r\<in>set requests. answered env obj r s'" and idle: "idle_ok s'"
    using s' by (simp_all add: serving_def)
  have none: "waiting_on s' c = None" using progressD(5) [OF p, of c] by (cases "waiting_on s' c") auto
  have sub: "waiting_on s k = Some rs" if "waiting_on s' k = Some rs" for k rs using progressD(5) [OF p that] by (simp split: if_splits)
  have "answered env obj r s'" if "waiting_on s k = Some rs" "waiting_on s' k = None" "r \<in> set rs" for k rs r
    using that progressD(1) [OF p, of k rs r] all w by (cases "k = c") simp_all
  moreover have "length (os_waiting s') \<le> length (os_waiting s)" using p length_pop [OF w] by (simp add: progress_def)
  moreover have "contents_of s' k = contents_of s k \<or> contents_of s' k = Some obj" for k using progressD(2) [OF p, of k] by simp
  moreover have "set (os_sent s) \<subseteq> set (os_sent s')" using progressD(3) [OF p] by simp
  moreover have "manager_ok (we_hash env) (os_manager s')" "dict_ok (os_waiting s')" using p by (simp_all add: progress_def)
  ultimately show ?thesis using none idle sub unfolding progress_def by blast
qed

text \<open>The answers to all that waits for an object, and for what is duplicated from it.\<close>

lemma pending_sent:
  assumes "length (os_waiting s) < n" "manager_ok (we_hash env) (os_manager s)" "dict_ok (os_waiting s)" "contents_of s c = Some obj"
    and "\<And>k. k \<noteq> c \<Longrightarrow> waiting_on s k \<noteq> None \<Longrightarrow> contents_of s k = None"
  shows "sat (\<lambda>_ s'. progress env obj s s' \<and> idle_ok s' \<and> waiting_on s' c = None) (\<lambda>_. True) (optionallySendPendingRequests n env c obj s)"
  using assms
proof (induction n arbitrary: s c)
  case (Suc n)
  show ?case
  proof (cases "waiting_on s c")
    case None
    then have "contents_of s k = None" if "waiting_on s k \<noteq> None" for k using that Suc.prems(5) [of k] by (cases "k = c") auto
    then show ?thesis using None progress_refl [OF Suc.prems(2,3)] by (simp add: idle_ok_def)
  next
    case (Some requests)
    let ?s = "s\<lparr>os_waiting := dict_pop c (os_waiting s)\<rparr>"
    let ?body = "\<lambda>(client, rq).
              if rq_requestType rq = GET_OBJECT then sendGetResponse env client rq obj
              else seq (manage (duplicateObject c (rq_objectID rq)))
                     (seq (sendDuplicateResponse env client rq) (optionallySendPendingRequests n env (rq_objectID rq) obj))"
    have short: "length (os_waiting ?s) < n" using Suc.prems(1) length_pop [OF Some] by simp
    have start: "serving env obj c requests ?s requests ?s" using Suc.prems progress_refl [of env ?s obj] by (auto simp: serving_def idle_ok_def)
    have step: "sat (\<lambda>_. serving env obj c requests ?s rest) (\<lambda>_. True) (?body r s1)" if s1: "serving env obj c requests ?s (r # rest) s1" for r rest s1
    proof -
      obtain client rq where r: "r = (client, rq)" by force
      have len: "length (os_waiting s1) < n" using s1 short by (simp add: serving_def progress_def)
      consider "rq_requestType rq = GET_OBJECT" | "rq_requestType rq \<noteq> GET_OBJECT" "rq_objectID rq = c" | "rq_requestType rq \<noteq> GET_OBJECT" "rq_objectID rq \<noteq> c" by blast
      then show ?thesis
      proof cases
        case 1
        then show ?thesis using serving_get [OF s1 [unfolded r]] by (auto simp: r)
      next
        case 2
        then show ?thesis using duplicate_self [of "we_hash env" "os_manager s1" c] s1 by (auto simp: r seq_run manage_def serving_def progress_def)
      next
        case 3
        have "sat (\<lambda>_. serving env obj c requests ?s rest) (\<lambda>_. True)
            (seq (manage (duplicateObject c (rq_objectID rq))) (seq (sendDuplicateResponse env client rq) (optionallySendPendingRequests n env (rq_objectID rq) obj)) s1)"
          by (rule serving_duplicate [OF s1 [unfolded r] 3], rule Suc.IH) (use len in auto)
        then show ?thesis using 3(1) by (simp add: r)
      qed
    qed
    have "sat (\<lambda>_. serving env obj c requests ?s []) (\<lambda>_. True) (for_each requests ?body ?s)" by (rule sat_for_each_rest [where I = "serving env obj c requests ?s", OF step start])
    then have "sat (\<lambda>_ s'. progress env obj s s' \<and> idle_ok s' \<and> waiting_on s' c = None) (\<lambda>_. True) (for_each requests ?body ?s)"
      by (rule sat_mono) (use serving_end [OF Some] in auto)
    then show ?thesis using Some by simp
  qed
qed simp

section \<open>All requests\<close>

definition server_ok :: "wire_env \<Rightarrow> object_server \<Rightarrow> bool" where
  "server_ok env s \<longleftrightarrow> manager_ok (we_hash env) (os_manager s) \<and> dict_ok (os_waiting s) \<and> idle_ok s"

lemma server_init_ok: "server_ok env server_init"
  using manager_init_ok by (simp add: server_ok_def server_init_def idle_ok_def)

text \<open>After an object was stored and its waiting requests were answered, the client is.\<close>

lemma stored_and_sent:
  assumes s: "server_ok env s" and m: "manager_ok (we_hash env) m" "stored m = (contents_of s)(c \<mapsto> obj)"
  shows "sat (\<lambda>_ s'. server_ok env s' \<and> progress env obj (s\<lparr>os_manager := m\<rparr>) s' \<and> waiting_on s' c = None) (\<lambda>_. True)
    (seq (send_pending env c obj) (respond env client rq t b) (s\<lparr>os_manager := m\<rparr>))"
proof (rule sat_seq)
  show "sat (\<lambda>_ s'. progress env obj (s\<lparr>os_manager := m\<rparr>) s' \<and> idle_ok s' \<and> waiting_on s' c = None) (\<lambda>_. True) (send_pending env c obj (s\<lparr>os_manager := m\<rparr>))"
    unfolding send_pending_def by (rule pending_sent) (use s m in \<open>auto simp: server_ok_def idle_ok_def\<close>)
next
  fix u s1 assume s1: "progress env obj (s\<lparr>os_manager := m\<rparr>) s1 \<and> idle_ok s1 \<and> waiting_on s1 c = None"
  obtain s2 where s2: "respond env client rq t b s1 = Ret () s2" using respond_always by blast
  note sends = respond_sends [OF s2]
  have "progress env obj s1 s2" using s1 by (intro progress_sent [OF _ _ s2]) (simp_all add: progress_def)
  then have "progress env obj (s\<lparr>os_manager := m\<rparr>) s2" using s1 progress_trans by blast
  then show "sat (\<lambda>_ s'. server_ok env s' \<and> progress env obj (s\<lparr>os_manager := m\<rparr>) s' \<and> waiting_on s' c = None) (\<lambda>_. True) (respond env client rq t b s1)"
    using s1 s2 sends by (auto simp: server_ok_def progress_def idle_ok_def)
qed

text \<open>Sending answers raises nothing but what ends the process.\<close>

definition fatal_only :: "('a, 's) comp \<Rightarrow> bool" where
  "fatal_only m \<longleftrightarrow> (\<forall>s e s'. m s = Raise e s' \<longrightarrow> e = SystemError)"

lemma fatal_seq: "fatal_only m \<Longrightarrow> fatal_only n \<Longrightarrow> fatal_only (seq m n)"
  by (auto simp: fatal_only_def seq_run split: outcome.splits)

lemma fatal_for_each: "(\<And>x. x \<in> set xs \<Longrightarrow> fatal_only (f x)) \<Longrightarrow> fatal_only (for_each xs f)"
  by (induction xs) (auto intro: fatal_seq simp: fatal_only_def [of "ret ()"])

lemma fatal_respond: "fatal_only (respond env client rq t b)"
  by (simp add: fatal_only_def respond_def writeMessage_def)

lemma delete_fatal: "deleteObject c m = Raise e m' \<Longrightarrow> e = SystemError"
  by (auto simp: deleteObject_def Let_def split: if_splits option.splits)

lemma fatal_duplicate: "fatal_only (manage (duplicateObject c k))"
  by (auto simp: fatal_only_def manage_def duplicateObject_def andthen_def dest: delete_fatal split: option.splits outcome.splits if_splits)

lemma fatal_pending: "fatal_only (optionallySendPendingRequests n env c obj)"
proof (induction n arbitrary: c)
  case (Suc n)
  let ?body = "\<lambda>(client, rq).
      if rq_requestType rq = GET_OBJECT then sendGetResponse env client rq obj
      else seq (manage (duplicateObject c (rq_objectID rq))) (seq (sendDuplicateResponse env client rq) (optionallySendPendingRequests n env (rq_objectID rq) obj))"
  have "fatal_only (?body r)" for r
    using Suc.IH by (auto simp: sendGetResponse_def sendDuplicateResponse_def intro!: fatal_seq fatal_respond fatal_duplicate split: prod.split)
  then have "fatal_only (for_each requests ?body)" for requests by (rule fatal_for_each)
  then show ?case unfolding fatal_only_def by (auto split: option.splits)
qed (simp add: fatal_only_def)

text \<open>A step of the server ends the process or leaves the invariant, also when it raises.\<close>

fun survives :: "(object_server \<Rightarrow> bool) \<Rightarrow> (unit, object_server) outcome \<Rightarrow> bool" where
  "survives P (Ret _ s) = P s"
| "survives P (Raise e s) = (e = SystemError \<or> P s)"
| "survives P NoFuel = False"

lemma sat_survives: "sat (\<lambda>_. P) (\<lambda>_. True) (m s) \<Longrightarrow> fatal_only m \<Longrightarrow> survives P (m s)"
  by (cases "m s") (auto simp: fatal_only_def)

lemma survives_stored:
  assumes "server_ok env s" "manager_ok (we_hash env) m" "stored m = (contents_of s)(c \<mapsto> obj)"
  shows "survives (server_ok env) (seq (send_pending env c obj) (respond env client rq t b) (s\<lparr>os_manager := m\<rparr>))"
proof (rule sat_survives)
  show "sat (\<lambda>_. server_ok env) (\<lambda>_. True) (seq (send_pending env c obj) (respond env client rq t b) (s\<lparr>os_manager := m\<rparr>))"
    by (rule sat_mono [OF stored_and_sent [OF assms]]) simp_all
  have "fatal_only (send_pending env c obj)" using fatal_pending unfolding fatal_only_def send_pending_def by blast
  then show "fatal_only (seq (send_pending env c obj) (respond env client rq t b))" by (intro fatal_seq fatal_respond)
qed

lemma server_ok_respond: "server_ok env s \<Longrightarrow> survives (server_ok env) (respond env client rq t b s)"
  by (simp add: respond_def writeMessage_def server_ok_def idle_ok_def)

lemma server_ok_wait:
  "server_ok env s \<Longrightarrow> contents_of s c = None \<Longrightarrow> survives (server_ok env) (wait_for c client rq s)"
  by (auto simp: wait_for_def server_ok_def idle_ok_def)

lemma survives_full:
  assumes s: "server_ok env s"
  shows "survives (server_ok env) (process_full env client rq b s)"
proof -
  have ok: "manager_ok (we_hash env) (os_manager s)" using s by (simp add: server_ok_def)
  show ?thesis
  proof (cases "rq_requestType rq")
    case SET_OBJECT
    obtain obj m where "setObject (we_hash env) (rq_objectID rq) b (os_manager s) = Ret obj m" "manager_ok (we_hash env) m" "stored m = (contents_of s)(rq_objectID rq \<mapsto> obj)"
      using setObject_keeps [OF ok, of "rq_objectID rq" b] by blast
    then show ?thesis using SET_OBJECT s survives_stored [OF s, of m "rq_objectID rq" obj client rq SET_O_K "[]"]
      by (simp add: process_full_def processSetRequest_def manage_def andthen_def)
  next
    case GET_OBJECT
    have "s\<lparr>os_manager := os_manager s\<rparr> = s" by simp
    then show ?thesis using GET_OBJECT getObject_spec [OF ok] server_ok_respond [OF s] server_ok_wait [OF s]
      by (auto simp: process_full_def processGetRequest_def manage_def andthen_def sendGetResponse_def split: option.split)
  next
    case DELETE_OBJECT
    obtain m where "deleteObject (rq_objectID rq) (os_manager s) = Ret (contents_of s (rq_objectID rq) \<noteq> None) m" "manager_ok (we_hash env) m"
        "stored m = (contents_of s)(rq_objectID rq := None)"
      using deleteObject_spec [OF ok, of "rq_objectID rq"] by blast
    moreover from this have "server_ok env (s\<lparr>os_manager := m\<rparr>)" using s by (simp add: server_ok_def idle_ok_def)
    ultimately show ?thesis using DELETE_OBJECT server_ok_respond by (simp add: process_full_def processDeleteRequest_def manage_def andthen_def)
  next
    case DUPLICATE_OBJECT_I_D
    let ?k = "rq_objectID rq"
    show ?thesis
    proof (cases "we_object_id_of env b")
      case None
      then show ?thesis using DUPLICATE_OBJECT_I_D s by (simp add: process_full_def processDuplicateRequest_def)
    next
      case (Some original)
      show ?thesis
      proof (cases "contents_of s original")
        case None
        then have "duplicateObject original ?k (os_manager s) = Ret None (os_manager s)" using stored_None_iff [OF ok] by (simp add: duplicateObject_def)
        then show ?thesis using DUPLICATE_OBJECT_I_D Some None s server_ok_wait [OF s None] by (simp add: process_full_def processDuplicateRequest_def manage_def andthen_def)
      next
        case obj: (Some obj)
        show ?thesis
        proof (cases "?k = original")
          case True
          then obtain m where "duplicateObject original ?k (os_manager s) = Raise SystemError m" using duplicate_self [OF ok, of original] obj by auto
          then show ?thesis using DUPLICATE_OBJECT_I_D Some s by (simp add: process_full_def processDuplicateRequest_def manage_def andthen_def)
        next
          case False
          then obtain m where "duplicateObject original ?k (os_manager s) = Ret (Some obj) m" "manager_ok (we_hash env) m" "stored m = (contents_of s)(?k \<mapsto> obj)"
            using duplicateObject_spec [OF ok False] obj by auto
          then show ?thesis using DUPLICATE_OBJECT_I_D Some s survives_stored [OF s, of m ?k obj client rq DUPLICATE_O_K "[]"]
            by (simp add: process_full_def processDuplicateRequest_def manage_def andthen_def sendDuplicateResponse_def)
        qed
      qed
    qed
  next
    case INFO_GET_TOTAL
    then show ?thesis using server_ok_respond [OF s] by (simp add: process_full_def processInfoGetTotalRequest_def andthen_def)
  qed
qed

lemma survives_message:
  assumes s: "server_ok env s"
  shows "survives (server_ok env) (process_message env client msg s)"
proof -
  have part: "server_ok env (s\<lparr>os_partial := p\<rparr>)" for p using s by (simp add: server_ok_def idle_ok_def)
  have full: "survives (server_ok env) (process_full env client rq b (s\<lparr>os_partial := p\<rparr>))" for rq b p by (rule survives_full [OF part])
  show ?thesis using part full unfolding process_message_def Let_def by (auto split: option.split)
qed

lemma server_receive_ok:
  assumes s: "server_ok env s"
  shows "sat (\<lambda>_. server_ok env) (\<lambda>_. True) (server_receive env client msg s)"
proof -
  have closed: "server_ok env (s'\<lparr>os_closed := cs\<rparr>)" if "server_ok env s'" for s' cs using that by (simp add: server_ok_def idle_ok_def)
  show ?thesis
  proof (cases "process_message env client msg s")
    case (Raise e s')
    then show ?thesis using survives_message [OF s, of client msg] closed by (cases e) (simp_all add: server_receive_def)
  qed (use survives_message [OF s, of client msg] in \<open>simp_all add: server_receive_def\<close>)
qed

text \<open>The messages of the clients, as they arrive.\<close>

definition server_run :: "wire_env \<Rightarrow> (identity \<times> bytes) list \<Rightarrow> unit server_step" where
  "server_run env msgs = for_each msgs (\<lambda>(client, msg). server_receive env client msg)"

lemma server_run_ok: "server_ok env s \<Longrightarrow> sat (\<lambda>_. server_ok env) (\<lambda>_. True) (server_run env msgs s)"
  unfolding server_run_def by (rule sat_for_each) (auto intro: server_receive_ok)

text \<open>What waited for an object that is set has been answered with it.\<close>

lemma set_answers:
  assumes s: "server_ok env s" and free: "no_collision (we_hash env) b (os_manager s)"
    and run: "processSetRequest env client rq b s = Ret () s'" and w: "waiting_on s (rq_objectID rq) = Some rs" "r \<in> set rs"
  shows "answered env b r s' \<and> waiting_on s' (rq_objectID rq) = None"
proof -
  obtain m where m: "setObject (we_hash env) (rq_objectID rq) b (os_manager s) = Ret b m" "manager_ok (we_hash env) m" "stored m = (contents_of s)(rq_objectID rq \<mapsto> b)"
    using setObject_spec [OF _ free] s by (auto simp: server_ok_def)
  have "seq (send_pending env (rq_objectID rq) b) (respond env client rq SET_O_K []) (s\<lparr>os_manager := m\<rparr>) = Ret () s'"
    using run m(1) by (simp add: processSetRequest_def manage_def andthen_def split: if_splits)
  then have p: "progress env b (s\<lparr>os_manager := m\<rparr>) s'" "waiting_on s' (rq_objectID rq) = None"
    using stored_and_sent [OF s m(2,3), of client rq SET_O_K "[]"] by simp_all
  then show ?thesis using progressD(1) [OF p(1) _ p(2)] w by simp
qed

end
