(* ===== verification/StorageCalls.thy ===== *)
theory StorageCalls
  imports StorageConnectors
begin

text \<open>
  Runs of the asynchronous connector: callers that want the same object share a future and one request, and the response of the server settles it.
\<close>

datatype async_input =
    AsyncConnect
  | AsyncSet bool ObjectID bytes
  | AsyncGet bool ObjectID nat
  | AsyncDelete bool ObjectID
  | AsyncDuplicate bool ObjectID ObjectID
  | AsyncCancel nat
  | AsyncDeliver delivery
  | AsyncDestroy

fun async_perform :: "wire_env \<Rightarrow> async_input \<Rightarrow> unit async_step" where
  "async_perform env AsyncConnect = async_connect"
| "async_perform env (AsyncSet fails oid b) = async_set_object fails oid b"
| "async_perform env (AsyncGet fails oid n) = seq (async_get_object fails oid n) (ret ())"
| "async_perform env (AsyncDelete fails oid) = async_delete_object fails oid"
| "async_perform env (AsyncDuplicate fails oid new_oid) = async_duplicate_object_id env fails oid new_oid"
| "async_perform env (AsyncCancel f) = cancel_get f"
| "async_perform env (AsyncDeliver d) = async_routine env d"
| "async_perform env AsyncDestroy = async_destroy"

definition get_requests :: "async_connector \<Rightarrow> request_header list" where
  "get_requests s = filter (\<lambda>h. rq_requestType h = GET_OBJECT) (map fst (ac_sent s))"

text \<open>The requests for objects correspond to the futures; a future that is not settled is registered under the object of its request.\<close>

definition async_ok :: "async_connector \<Rightarrow> bool" where
  "async_ok s \<longleftrightarrow> length (get_requests s) = length (ac_futures s) \<and> ac_next_request_id s < 2 ^ 64 - 1 \<and>
     (\<forall>oid f. dict_get (ac_pending s) oid = Some f \<longrightarrow> f < length (ac_futures s) \<and> to_capnp_object_id oid = Inr (rq_objectID (get_requests s ! f))) \<and>
     (\<forall>f < length (ac_futures s). ac_futures s ! f = GetPending \<longrightarrow> (\<exists>oid. dict_get (ac_pending s) oid = Some f))"

lemma async_init_ok: "async_ok async_init"
  by (simp add: async_ok_def async_init_def get_requests_def)

lemma send_request_cases:
  assumes "async_send_request fails oid n t payload s = Ret () s'"
  obtains cid where "to_capnp_object_id oid = Inr cid"
    "s' = s\<lparr>ac_next_request_id := next_request_id (ac_next_request_id s),
        ac_sent := ac_sent s @ [(\<lparr>rq_objectID = cid, rq_payloadLength = n, rq_requestID = ac_next_request_id s, rq_requestType = t\<rparr>, payload)]\<rparr>"
  using assms by (auto simp: async_send_request_def Let_def split: if_splits sum.splits)

lemma send_other_ok:
  assumes "async_ok s" "async_send_request fails oid n t payload s = Ret () s'" "t \<noteq> GET_OBJECT"
  shows "async_ok s'"
proof -
  obtain cid where "s' = s\<lparr>ac_next_request_id := next_request_id (ac_next_request_id s),
      ac_sent := ac_sent s @ [(\<lparr>rq_objectID = cid, rq_payloadLength = n, rq_requestID = ac_next_request_id s, rq_requestType = t\<rparr>, payload)]\<rparr>"
    using send_request_cases [OF assms(2)] by blast
  moreover from this have "get_requests s' = get_requests s" using assms(3) by (simp add: get_requests_def)
  ultimately show ?thesis using assms(1) by (simp add: async_ok_def next_request_id_def)
qed

lemma get_object_ok:
  assumes s: "async_ok s" and run: "async_get_object fails oid n s = Ret f s'"
  shows "async_ok s' \<and> dict_get (ac_pending s') oid = Some f"
proof (cases "dict_get (ac_pending s) oid")
  case (Some g)
  then show ?thesis using s run by (simp add: async_get_object_def)
next
  case None
  let ?f = "length (ac_futures s)"
  let ?s = "s\<lparr>ac_futures := ac_futures s @ [GetPending], ac_pending := dict_set oid ?f (ac_pending s)\<rparr>"
  have sent: "async_send_request fails oid n GET_OBJECT None ?s = Ret () s'" "f = ?f"
    using run None by (auto simp: async_get_object_def Let_def seq_run split: outcome.splits)
  obtain cid where cid: "to_capnp_object_id oid = Inr cid" "s' = ?s\<lparr>ac_next_request_id := next_request_id (ac_next_request_id s),
      ac_sent := ac_sent s @ [(\<lparr>rq_objectID = cid, rq_payloadLength = n, rq_requestID = ac_next_request_id s, rq_requestType = GET_OBJECT\<rparr>, None)]\<rparr>"
    using send_request_cases [OF sent(1)] by auto
  have len: "length (get_requests s) = ?f" using s by (simp add: async_ok_def)
  have "get_requests s' = get_requests s @ [\<lparr>rq_objectID = cid, rq_payloadLength = n, rq_requestID = ac_next_request_id s, rq_requestType = GET_OBJECT\<rparr>]"
    using cid(2) by (simp add: get_requests_def)
  then have req: "get_requests s' ! i = (if i < ?f then get_requests s ! i else \<lparr>rq_objectID = cid, rq_payloadLength = n, rq_requestID = ac_next_request_id s, rq_requestType = GET_OBJECT\<rparr>)"
    "length (get_requests s') = Suc ?f" if "i \<le> ?f" for i using that len by (auto simp: nth_append)
  have pend: "ac_pending s' = dict_set oid ?f (ac_pending s)" "ac_futures s' = ac_futures s @ [GetPending]" "ac_next_request_id s' = next_request_id (ac_next_request_id s)"
    using cid(2) by simp_all
  have old: "g < ?f \<and> to_capnp_object_id o' = Inr (rq_objectID (get_requests s ! g))" if "dict_get (ac_pending s) o' = Some g" for o' g
    using s that by (simp add: async_ok_def)
  have "\<exists>o'. dict_get (ac_pending s') o' = Some g" if g: "g < Suc ?f" "ac_futures s' ! g = GetPending" for g
  proof (cases "g = ?f")
    case False
    then have "g < ?f" "ac_futures s ! g = GetPending" using g pend(2) by (auto simp: nth_append)
    then obtain o' where "dict_get (ac_pending s) o' = Some g" using s unfolding async_ok_def by blast
    then show ?thesis using None pend(1) by (intro exI [of _ o']) auto
  qed (use pend(1) in auto)
  moreover have "g < Suc ?f \<and> to_capnp_object_id o' = Inr (rq_objectID (get_requests s' ! g))" if g: "dict_get (ac_pending s') o' = Some g" for o' g
  proof (cases "o' = oid")
    case True
    then show ?thesis using g pend(1) req(1) [of ?f] cid(1) by simp
  next
    case False
    then have "g < ?f" "to_capnp_object_id o' = Inr (rq_objectID (get_requests s ! g))" using g pend(1) old by auto
    then show ?thesis using req(1) [of g] by simp
  qed
  ultimately show ?thesis using req(2) [of 0] pend sent(2) by (simp add: async_ok_def next_request_id_def)
qed

text \<open>A response settles the future that is registered for its object.\<close>

lemma settle_get_ok:
  assumes s: "async_ok s" and run: "settle_get oid b s = Ret () s'"
  shows "async_ok s'"
proof (cases "dict_get (ac_pending s) oid")
  case None
  then show ?thesis using s run by (simp add: settle_get_def)
next
  case (Some f)
  let ?s = "s\<lparr>ac_pending := dict_pop oid (ac_pending s), ac_futures := (ac_futures s)[f := GetDone b]\<rparr>"
  have s': "s' = ?s" using run Some by (simp add: settle_get_def Let_def split: if_splits)
  have "\<exists>o'. dict_get (ac_pending ?s) o' = Some g" if g: "g < length (ac_futures s)" "ac_futures ?s ! g = GetPending" for g
  proof -
    have "g \<noteq> f" using g by auto
    then have "ac_futures s ! g = GetPending" using g by simp
    then obtain o' where "dict_get (ac_pending s) o' = Some g" using s g(1) unfolding async_ok_def by blast
    then show ?thesis using Some \<open>g \<noteq> f\<close> by (intro exI [of _ o']) auto
  qed
  then show ?thesis using s unfolding s' by (auto simp: async_ok_def get_requests_def)
qed

lemma receive_keeps: "async_receive_response env d s = Ret r s' \<Longrightarrow> s' = s"
  by (auto simp: async_receive_response_def check_def split: delivery.splits option.splits if_splits)

lemma async_routine_ok:
  assumes s: "async_ok s" and run: "async_routine env d s = Ret () s'"
  shows "async_ok s'"
proof (cases "ac_connected s \<and> ac_socket s")
  case True
  then obtain h b s1 where "async_receive_response env d s = Ret (h, b) s1"
    using run by (auto simp: async_routine_def andthen_def split: outcome.splits)
  moreover from this have "s1 = s" by (rule receive_keeps)
  ultimately show ?thesis using s run True settle_get_ok [OF s] by (auto simp: async_routine_def andthen_def split: if_splits sum.splits)
qed (use s run in \<open>auto simp: async_routine_def\<close>)

lemma cancel_get_ok:
  assumes s: "async_ok s" and run: "cancel_get f s = Ret () s'"
  shows "async_ok s'"
proof (cases "f < length (ac_futures s) \<and> ac_futures s ! f = GetPending")
  case True
  then have s': "s' = s\<lparr>ac_futures := (ac_futures s)[f := GetCancelled]\<rparr>" using run by (simp add: cancel_get_def)
  have "ac_futures s ! g = GetPending" if "g < length (ac_futures s)" "(ac_futures s)[f := GetCancelled] ! g = GetPending" for g
    using that by (cases "g = f") auto
  then show ?thesis using s by (auto simp: async_ok_def s' get_requests_def)
qed (use s run in \<open>auto simp: cancel_get_def\<close>)

lemma async_perform_ok:
  assumes s: "async_ok s" and run: "async_perform env i s = Ret () s'"
  shows "async_ok s'"
proof (cases i)
  case (AsyncGet fails oid n)
  then obtain f where "async_get_object fails oid n s = Ret f s'" using run by (auto simp: seq_run split: outcome.splits)
  then show ?thesis using get_object_ok [OF s] by blast
next
  case (AsyncDuplicate fails oid new_oid)
  then show ?thesis using run send_other_ok [OF s] by (auto simp: async_duplicate_object_id_def split: sum.splits)
qed (use s run send_other_ok [OF s] async_routine_ok [OF s] cancel_get_ok [OF s]
    in \<open>auto simp: async_connect_def async_destroy_def async_set_object_def async_delete_object_def async_ok_def get_requests_def split: if_splits\<close>)

definition async_run :: "wire_env \<Rightarrow> async_input list \<Rightarrow> unit async_step" where
  "async_run env inputs = for_each inputs (async_perform env)"

lemma async_run_ok: "async_ok s \<Longrightarrow> async_run env inputs s = Ret () s' \<Longrightarrow> async_ok s'"
proof (induction inputs arbitrary: s)
  case (Cons i inputs)
  then obtain s1 where s1: "async_perform env i s = Ret () s1" "async_run env inputs s1 = Ret () s'" by (auto simp: async_run_def seq_run split: outcome.splits)
  show ?case by (rule Cons.IH [OF async_perform_ok [OF Cons.prems(1) s1(1)] s1(2)])
qed (simp add: async_run_def)

text \<open>The messages of a response.\<close>

definition get_response :: "wire_env \<Rightarrow> capnp_object_id \<Rightarrow> bytes \<Rightarrow> delivery \<Rightarrow> bool" where
  "get_response env cid b d \<longleftrightarrow>
     (\<exists>hb h. d = Delivered (Some hb) (if b = [] then None else Some b) \<and> length hb = capnpHeaderSize \<and> we_response_of env hb = Some h \<and>
        rs_objectID h = cid \<and> rs_payloadLength h = length b \<and> rs_responseType h = GET_O_K)"

lemma receive_get:
  assumes "get_response env cid b d"
  shows "\<exists>h. async_receive_response env d s = Ret (h, b) s \<and> rs_objectID h = cid \<and> rs_responseType h = GET_O_K"
  using assms by (auto simp: get_response_def async_receive_response_def check_def)

lemma response_settles:
  assumes s: "async_ok s" "ac_connected s" "ac_socket s" and f: "f < length (ac_futures s)" "ac_futures s ! f = GetPending"
    and d: "get_response env (rq_objectID (get_requests s ! f)) b d"
  shows "\<exists>oid. dict_get (ac_pending s) oid = Some f \<and>
    async_routine env d s = Ret () (s\<lparr>ac_pending := dict_pop oid (ac_pending s), ac_futures := (ac_futures s)[f := GetDone b]\<rparr>)"
proof -
  obtain oid where oid: "dict_get (ac_pending s) oid = Some f" "to_capnp_object_id oid = Inr (rq_objectID (get_requests s ! f))"
    using s(1) f unfolding async_ok_def by blast
  then have "length oid = 32" by (auto simp: to_capnp_object_id_def split: if_splits)
  then have orig: "from_capnp_object_id (rq_objectID (get_requests s ! f)) = Inr oid" using object_id_there_and_back [of oid] oid(2) by auto
  obtain h where h: "async_receive_response env d s = Ret (h, b) s" "rs_objectID h = rq_objectID (get_requests s ! f)" "rs_responseType h = GET_O_K"
    using receive_get [OF d, of s] by blast
  then have "async_routine env d s = settle_get oid b s" using s(2,3) orig by (simp add: async_routine_def andthen_def)
  then show ?thesis using oid(1) f(2) by (intro exI [of _ oid]) (simp add: settle_get_def Let_def)
qed

section \<open>Faults\<close>

text \<open>A call before the connection is there, or while it breaks, registers a future without a request; later calls wait for it.\<close>

lemma unsent_get:
  assumes "dict_get (ac_pending s) oid = None" "\<not> ac_socket s"
  shows "\<exists>s'. async_get_object fails oid n s = Raise StorageError s' \<and> ac_sent s' = ac_sent s \<and> dict_get (ac_pending s') oid = Some (length (ac_futures s)) \<and>
    ac_futures s' = ac_futures s @ [GetPending] \<and> ac_socket s' = ac_socket s \<and> ac_connected s' = ac_connected s"
  using assms by (simp add: async_get_object_def Let_def seq_run async_send_request_def)

text \<open>A caller that is cancelled takes the routine down when the response comes.\<close>

lemma cancelled_get:
  assumes "dict_get (ac_pending s) oid = Some f" "ac_futures s ! f = GetCancelled" "ac_connected s" "ac_socket s"
    and "to_capnp_object_id oid = Inr cid" "get_response env cid b d"
  shows "async_routine env d s = Raise InvalidStateError (s\<lparr>ac_pending := dict_pop oid (ac_pending s)\<rparr>)"
proof -
  have "length oid = 32" using assms(5) by (auto simp: to_capnp_object_id_def split: if_splits)
  then have "from_capnp_object_id cid = Inr oid" using object_id_there_and_back [of oid] assms(5) by auto
  then show ?thesis using receive_get [OF assms(6), of s] assms(1-4) by (auto simp: async_routine_def andthen_def settle_get_def Let_def)
qed

end
