(* ===== verification/StorageScenarios.thy ===== *)
theory StorageScenarios
  imports StorageWaiting StorageCalls
begin

text \<open>An encoding of the messages of the object storage with the sizes of Cap'n Proto's, and runs for the witnesses.\<close>

section \<open>An encoding\<close>

definition id_bytes :: "capnp_object_id \<Rightarrow> bytes" where
  "id_bytes c = pack_Q (field0 c) @ pack_Q (field1 c) @ pack_Q (field2 c) @ pack_Q (field3 c)"

definition id_of :: "bytes \<Rightarrow> capnp_object_id" where
  "id_of b = \<lparr>field0 = unpack_Q (take 8 b), field1 = unpack_Q (take 8 (drop 8 b)), field2 = unpack_Q (take 8 (drop 16 b)), field3 = unpack_Q (take 8 (drop 24 b))\<rparr>"

lemma id_of_bytes: "id_of (id_bytes c @ rest) = c" "length (id_bytes c) = 32"
  by (simp_all add: id_of_def id_bytes_def unpack_pack_Q)

definition request_code :: "request_type \<Rightarrow> char" where
  "request_code t = (case t of SET_OBJECT \<Rightarrow> CHR ''0'' | GET_OBJECT \<Rightarrow> CHR ''1'' | DELETE_OBJECT \<Rightarrow> CHR ''2'' | DUPLICATE_OBJECT_I_D \<Rightarrow> CHR ''3'' | INFO_GET_TOTAL \<Rightarrow> CHR ''4'')"

definition request_of_code :: "char \<Rightarrow> request_type" where
  "request_of_code c = (if c = CHR ''0'' then SET_OBJECT else if c = CHR ''1'' then GET_OBJECT else if c = CHR ''2'' then DELETE_OBJECT
     else if c = CHR ''3'' then DUPLICATE_OBJECT_I_D else INFO_GET_TOTAL)"

definition response_code :: "response_type \<Rightarrow> char" where
  "response_code t = (case t of SET_O_K \<Rightarrow> CHR ''0'' | GET_O_K \<Rightarrow> CHR ''1'' | DEL_O_K \<Rightarrow> CHR ''2'' | DEL_NOT_EXISTS \<Rightarrow> CHR ''3'' | DUPLICATE_O_K \<Rightarrow> CHR ''4'' | INFO_GET_TOTAL_O_K \<Rightarrow> CHR ''5'')"

definition response_of_code :: "char \<Rightarrow> response_type" where
  "response_of_code c = (if c = CHR ''0'' then SET_O_K else if c = CHR ''1'' then GET_O_K else if c = CHR ''2'' then DEL_O_K
     else if c = CHR ''3'' then DEL_NOT_EXISTS else if c = CHR ''4'' then DUPLICATE_O_K else INFO_GET_TOTAL_O_K)"

lemma codes: "request_of_code (request_code t) = t" "response_of_code (response_code u) = u"
  by (cases t; simp add: request_code_def request_of_code_def) (cases u; simp add: response_code_def response_of_code_def)

definition padding :: "nat \<Rightarrow> bytes" where
  "padding n = replicate n CHR 0x00"

definition header_bytes :: "capnp_object_id \<Rightarrow> nat \<Rightarrow> nat \<Rightarrow> char \<Rightarrow> bytes" where
  "header_bytes c n i t = id_bytes c @ be_bytes 8 n @ be_bytes 8 i @ [t] @ padding 31"

lemma header_fields:
  assumes "word64 n" "word64 i"
  shows "id_of (header_bytes c n i t) = c" "be_nat (take 8 (drop 32 (header_bytes c n i t))) = n" "be_nat (take 8 (drop 40 (header_bytes c n i t))) = i"
    "header_bytes c n i t ! 48 = t" "length (header_bytes c n i t) = capnpHeaderSize"
proof -
  have "n < 256 ^ 8" "i < 256 ^ 8" using assms by (simp_all add: word64_def)
  then show "be_nat (take 8 (drop 32 (header_bytes c n i t))) = n" "be_nat (take 8 (drop 40 (header_bytes c n i t))) = i"
    by (simp_all add: header_bytes_def id_of_bytes(2) be_nat_bytes)
  show "id_of (header_bytes c n i t) = c" unfolding header_bytes_def by (rule id_of_bytes(1))
  show "header_bytes c n i t ! 48 = t" by (simp add: header_bytes_def id_of_bytes(2) nth_append)
  show "length (header_bytes c n i t) = capnpHeaderSize" by (simp add: header_bytes_def id_of_bytes(2) padding_def capnpHeaderSize_def)
qed

definition wire_demo :: "(bytes \<Rightarrow> nat) \<Rightarrow> wire_env" where
  "wire_demo hash =
     \<lparr>we_request = (\<lambda>h. header_bytes (rq_objectID h) (rq_payloadLength h) (rq_requestID h) (request_code (rq_requestType h))),
      we_request_of = (\<lambda>b. Some \<lparr>rq_objectID = id_of b, rq_payloadLength = be_nat (take 8 (drop 32 b)), rq_requestID = be_nat (take 8 (drop 40 b)), rq_requestType = request_of_code (b ! 48)\<rparr>),
      we_response = (\<lambda>h. header_bytes (rs_objectID h) (rs_payloadLength h) (rs_responseID h) (response_code (rs_responseType h))),
      we_response_of = (\<lambda>b. Some \<lparr>rs_objectID = id_of b, rs_payloadLength = be_nat (take 8 (drop 32 b)), rs_responseID = be_nat (take 8 (drop 40 b)), rs_responseType = response_of_code (b ! 48)\<rparr>),
      we_object_id = (\<lambda>c. id_bytes c @ padding 16), we_object_id_of = (\<lambda>b. Some (id_of b)), we_hash = hash\<rparr>"

lemma wire_demo_ok: "wire_ok (wire_demo hash)" "we_hash (wire_demo hash) = hash"
  by (simp_all add: wire_ok_def wire_demo_def header_fields codes id_of_bytes capnpObjectIDSize_def padding_def)

section \<open>Runs\<close>

definition oid_x :: ObjectID where "oid_x = replicate 32 CHR ''x''"

definition oid_y :: ObjectID where "oid_y = replicate 32 CHR ''y''"

lemma oid_facts: "length oid_x = 32" "length oid_y = 32" "oid_x \<noteq> oid_y" "oid_y \<noteq> oid_x"
  by (simp_all add: oid_x_def oid_y_def)

definition two_clients :: "(identity \<times> storage_call) list" where
  "two_clients = [(''A'', SetCall oid_x ''hello''), (''B'', GetCall oid_x), (''B'', DuplicateCall oid_x oid_y), (''A'', SetCall oid_x ''universe''),
     (''A'', DeleteCall oid_x), (''A'', GetCall oid_y), (''B'', DeleteCall oid_x)]"

lemma two_clients_ok: "calls_ok {''hello'', ''universe''} two_clients"
  by (simp add: calls_ok_def two_clients_def oid_facts payload_fits_def memoryLimitInBytes_def)

lemma two_clients_dict:
  "dict_calls (map snd two_clients) Map.empty =
    Some ([Finished, Got ''hello'', Finished, Finished, Deleted True, Got ''hello'', Deleted False], Map.empty(oid_y \<mapsto> ''hello''))"
  by (simp add: two_clients_def oid_facts fun_eq_iff)

text \<open>A client asks for an object that is not there.\<close>

definition get_x :: request_header where
  "get_x = \<lparr>rq_objectID = id_of oid_x, rq_payloadLength = 2 ^ 64 - 1, rq_requestID = 7, rq_requestType = GET_OBJECT\<rparr>"

definition set_x :: request_header where
  "set_x = \<lparr>rq_objectID = id_of oid_x, rq_payloadLength = 5, rq_requestID = 9, rq_requestType = SET_OBJECT\<rparr>"

definition x_waiting :: object_server where
  "x_waiting = server_init\<lparr>os_waiting := [(id_of oid_x, [(''B'', get_x)])]\<rparr>"

lemma x_waiting_reached: "server_run (wire_demo length) [(''B'', we_request (wire_demo length) get_x)] server_init = Ret () x_waiting"
proof -
  have "word64 (2 ^ 64 - 1)" "word64 7" by (simp_all add: word64_def)
  from header_of [OF wire_demo_ok(1) [of length] this, of GET_OBJECT server_init "''B''" "id_of oid_x"]
  have "process_message (wire_demo length) ''B'' (we_request (wire_demo length) get_x) server_init = process_full (wire_demo length) ''B'' get_x [] server_init"
    by (simp add: get_x_def server_init_def)
  also have "\<dots> = Ret () x_waiting"
    by (simp add: process_full_def get_x_def processGetRequest_def andthen_def manage_def getObject_def server_init_def manager_init_def wait_for_def x_waiting_def dict_set_def)
  finally show ?thesis by (simp add: server_run_def seq_run server_receive_def)
qed

definition x_set :: object_server where
  "x_set = (case processSetRequest (wire_demo length) ''A'' set_x ''hello'' x_waiting of Ret _ s \<Rightarrow> s | _ \<Rightarrow> x_waiting)"

lemma x_set_reached: "processSetRequest (wire_demo length) ''A'' set_x ''hello'' x_waiting = Ret () x_set"
proof -
  have "\<exists>s. processSetRequest (wire_demo length) ''A'' set_x ''hello'' x_waiting = Ret () s"
    by (simp add: processSetRequest_def set_x_def memoryLimitInBytes_def andthen_def manage_def setObject_def hasObject_def x_waiting_def server_init_def manager_init_def
        send_pending_def dict_get_Cons get_x_def sendGetResponse_def respond_def writeMessage_def seq_run Let_def)
  then show ?thesis by (auto simp: x_set_def)
qed

text \<open>An asynchronous connector that asked for an object, twice.\<close>

definition x_asked :: async_connector where
  "x_asked = \<lparr>ac_connected = True, ac_socket = True, ac_next_request_id = 1, ac_pending = [(oid_x, 0)], ac_futures = [GetPending],
     ac_sent = [(\<lparr>rq_objectID = id_of oid_x, rq_payloadLength = 100, rq_requestID = 0, rq_requestType = GET_OBJECT\<rparr>, None)]\<rparr>"

lemma capnp_oid_x: "to_capnp_object_id oid_x = Inr (id_of oid_x)"
  by (simp add: to_capnp_object_id_def id_of_def oid_facts)

lemma x_asked_reached: "async_run (wire_demo length) [AsyncConnect, AsyncGet False oid_x 100, AsyncGet False oid_x 200] async_init = Ret () x_asked"
  by (simp add: async_run_def seq_run async_connect_def async_init_def async_get_object_def async_send_request_def capnp_oid_x dict_set_def dict_get_Cons next_request_id_def x_asked_def)

definition x_response :: delivery where
  "x_response = Delivered (Some (we_response (wire_demo length) \<lparr>rs_objectID = id_of oid_x, rs_payloadLength = 5, rs_responseID = 0, rs_responseType = GET_O_K\<rparr>)) (Some ''hello'')"

lemma x_asked_facts: "ac_connected x_asked" "ac_socket x_asked" "ac_futures x_asked = [GetPending]"
    "get_response (wire_demo length) (rq_objectID (get_requests x_asked ! 0)) ''hello'' x_response"
proof -
  let ?h = "\<lparr>rs_objectID = id_of oid_x, rs_payloadLength = 5, rs_responseID = 0, rs_responseType = GET_O_K\<rparr>"
  have "we_response_of (wire_demo length) (we_response (wire_demo length) ?h) = Some ?h" "length (we_response (wire_demo length) ?h) = capnpHeaderSize"
    using wire_demo_ok(1) [of length] by (simp_all add: wire_ok_def word64_def)
  then show "get_response (wire_demo length) (rq_objectID (get_requests x_asked ! 0)) ''hello'' x_response"
    by (auto simp: get_response_def x_response_def get_requests_def x_asked_def)
qed (simp_all add: x_asked_def)

text \<open>A manager with one object, and a server that waits for 80 bytes.\<close>

definition one_object :: object_manager where
  "one_object = \<lparr>om_ids = [(id_of oid_x, 0)], om_objects = [(0, \<lparr>mo_useCount = 1, mo_payload = ''a''\<rparr>)], om_total = 1\<rparr>"

lemma one_object_facts: "manager_ok (\<lambda>_. 0) one_object" "stored one_object (id_of oid_x) \<noteq> None"
  by (auto simp: manager_ok_def one_object_def dict_ok_def payload_bytes_def object_ok_def use_count_def dict_count_def dict_get_Cons stored_def)

definition set_80 :: request_header where
  "set_80 = \<lparr>rq_objectID = id_of oid_y, rq_payloadLength = capnpHeaderSize, rq_requestID = 3, rq_requestType = SET_OBJECT\<rparr>"

definition half_delivered :: object_server where
  "half_delivered = server_init\<lparr>os_partial := [(''B'', set_80)]\<rparr>"

lemma get_x_length: "length (we_request (wire_demo length) get_x) = capnpHeaderSize"
  using wire_demo_ok(1) [of length] by (simp add: wire_ok_def get_x_def word64_def)

definition x_cancelled :: async_connector where
  "x_cancelled = x_asked\<lparr>ac_futures := [GetCancelled]\<rparr>"

lemma ids_differ: "id_of oid_x \<noteq> id_of oid_y"
  using capnp_id_inj [of oid_x "id_of oid_x" oid_y] capnp_oid_x by (auto simp: to_capnp_object_id_def id_of_def oid_facts)

end
