(* ===== verification/StorageProperties.thy ===== *)
theory StorageProperties
  imports StorageScenarios
begin

text \<open>The properties of the object storage and of the connectors to it.\<close>

text \<open>C12: The object storage is a dictionary for all its clients: whatever calls any number of clients make through their synchronous
  connectors, in any order, each is answered as one shared dictionary answers it, and the server holds what the dictionary
  holds, however often payloads are stored, replaced, duplicated and deleted, as long as the hash tells the payloads
  apart. A call that would have to wait is not made.\<close>

theorem storage_is_dictionary:
  assumes "wire_ok env" "inj_on (we_hash env) U" "calls_ok U calls" "dict_calls (map snd calls) Map.empty = Some (answers, d)"
  shows "\<exists>conns s. client_calls env calls (\<lambda>_. sync_init, server_init) = Ret answers (conns, s) \<and> storage_view (stored (os_manager s)) = d"
  using client_calls_refine [OF server_init_ready(1) [OF assms(1,2)] sync_init_ok assms(3)] assms(4) server_init_ready(2) by metis

theorem storage_is_dictionary_witness:
  "\<exists>conns s. client_calls (wire_demo length) two_clients (\<lambda>_. sync_init, server_init) =
    Ret [Finished, Got ''hello'', Finished, Finished, Deleted True, Got ''hello'', Deleted False] (conns, s) \<and> storage_view (stored (os_manager s)) = Map.empty(oid_y \<mapsto> ''hello'')"
proof -
  have "inj_on (we_hash (wire_demo length)) {''hello'', ''universe''}" by (simp add: wire_demo_ok(2))
  from storage_is_dictionary [OF wire_demo_ok(1) this two_clients_ok two_clients_dict] show ?thesis .
qed



text \<open>C14: In every run of an asynchronous connector in which no call raised, there is one request for every future, and whichever future is not settled
  gets the payload of the response to its request as soon as that arrives, and no other future changes.\<close>

theorem async_gets_settled:
  assumes "async_run env inputs async_init = Ret () s" "ac_connected s" "ac_socket s" "f < length (ac_futures s)" "ac_futures s ! f = GetPending"
    and "get_response env (rq_objectID (get_requests s ! f)) b d"
  shows "length (get_requests s) = length (ac_futures s) \<and> (\<exists>s'. async_routine env d s = Ret () s' \<and> ac_futures s' = (ac_futures s)[f := GetDone b])"
proof -
  have ok: "async_ok s" by (rule async_run_ok [OF async_init_ok assms(1)])
  from response_settles [OF ok assms(2-6)] show ?thesis using ok by (auto simp: async_ok_def)
qed

theorem async_gets_settled_witness:
  "\<exists>s'. async_routine (wire_demo length) x_response x_asked = Ret () s' \<and> ac_futures s' = [GetDone ''hello'']"
  using async_gets_settled [OF x_asked_reached, of 0 "''hello''" x_response] x_asked_facts by auto



end
