(* ===== verification/Spec2Isabelle.thy ===== *)
theory Spec2Isabelle
  imports JourneyScenarios WorkerScenarios ManagerProperties BackendProperties StorageProperties
begin

text \<open>
  A verification library of Scaler, a distributed task scheduler (Python under \<open>src/src/scaler\<close>, containers in
  C++ under \<open>src/src/cpp/scaler\<close>).

  \<^bold>\<open>The program.\<close> Clients submit tasks and graphs of tasks to a scheduler; the scheduler assigns each task to a
  worker, follows it through a state machine, moves tasks between workers to balance the load, answers
  the client, counts the uses of stored objects and asks worker managers for more or fewer workers. A worker
  runs an agent that queues its tasks by priority and hands them to processor processes; worker managers start and
  stop workers, or run tasks on an external execution service. All parts exchange the messages of one protocol.

  \<^bold>\<open>How it is modelled.\<close> A handler is a computation on an explicit state that returns a value, raises a Python exception
  with the state it leaves, or runs out of fuel (\<open>Prelude\<close>: \<open>Ret\<close>, \<open>Raise\<close>, \<open>NoFuel\<close>). A dictionary is an association list in
  insertion order, a Python set whose order matters is listed in an order given by a parameter. The messages
  sent are logs in the state. What comes from outside \<open>src\<close> or from the machine (md5 digests, random tags, clocks, the
  storage server's answers, the GraphBLAS library, the execution service) is a field of an environment record or
  an argument, and a hypothesis names what is relied on. An asynchronous handler runs to its end before the next input; where a
  routine waits, it is cut into phases, so that all interleavings of inputs at those points are runs of the model.

  \<^bold>\<open>The theories.\<close>
  \<^item> \<open>Prelude\<close>: dictionaries, outcomes, the \<open>sat\<close> rules all component proofs use. \<open>Protocol\<close>: identifiers and messages
    (\<open>utility/identifiers.py\<close>, \<open>protocol/\<close>). \<open>Encoding\<close>: object-id fields and task flags (\<open>protocol/helpers.py\<close>,
    \<open>utility/metadata/task_flags.py\<close>), with their round trips.
  \<^item> \<open>Queues\<close>, \<open>QueueRefinement\<close>, \<open>Relations\<close>: the indexed queue, the stable priority queue with its 64-bit counter and the
    relation dictionaries (\<open>cpp/scaler/utility\<close>, \<open>utility/queues\<close>); locales \<open>priority_queue\<close> and others state what clients use.
  \<^item> \<open>AllocatePolicy\<close> (the contract, a locale), \<open>EvenLoad\<close>, \<open>CapabilityAllocate\<close>, \<open>Allocation\<close>, \<open>Scaling\<close>: the policies under
    \<open>scheduler/controllers/policies\<close>; every policy is an interpretation of the contract.
  \<^item> \<open>Objects\<close> (\<open>object_usage/object_tracker.py\<close>), \<open>TaskStates\<close> (\<open>scheduler/task\<close>), \<open>Sorter\<close> and \<open>TopologicalSorter\<close>
    (\<open>utility/graph/topological_sorter_graphblas.py\<close>: specification and GraphBLAS implementation), \<open>GraphOptimization\<close>.
  \<^item> \<open>SchedulerState\<close>, \<open>TaskDispatch\<close>, \<open>GraphController\<close>, \<open>TaskController\<close>, \<open>Controllers\<close>, \<open>Scheduler\<close>: the controllers of
    \<open>scheduler/controllers\<close> and the dispatch of \<open>scheduler/scheduler.py\<close>; \<open>perform\<close> handles one message or one routine run.
  \<^item> \<open>TaskInvariant\<close>, \<open>GraphInvariant\<close>, \<open>RouteInvariant\<close>, \<open>SchedulerInvariant\<close>, \<open>Ledger\<close>: what every handler preserves;
    \<open>Delivery\<close> and \<open>GraphFaults\<close>: what one event does, and where the graph controller raises.
  \<^item> \<open>WorkerAgent\<close> (\<open>worker/worker.py\<close>, \<open>worker/agent\<close>), \<open>WorkerInvariant\<close>, \<open>WorkerRuns\<close>: the agent of a worker, its invariant and
    the states it can reach. \<open>AdapterTasks\<close> (\<open>worker_manager_adapter/task_manager.py\<close>) and \<open>Capacity\<close>
    (\<open>capacity_coordinator.py\<close>, \<open>utility/cooldown.py\<close>): worker managers.
  \<^item> \<open>Provisioners\<close> (\<open>worker_manager_adapter\<close>: \<open>common.py\<close>, \<open>worker_manager_runner.py\<close>, \<open>baremetal/native.py\<close>, \<open>aws_raw/ecs.py\<close>,
    \<open>oci_raw/worker_manager.py\<close>, \<open>orb_aws_ec2/worker_manager.py\<close>): how managers start and stop units; \<open>ProvisionerRuns\<close>: their contract as the locales
    \<open>provisioner\<close> and \<open>reliable_provisioner\<close>, the bound and the convergence proved from it, every kind of manager as an interpretation, and where they fail.
  \<^item> \<open>ConfigTypes\<close> (\<open>config/types\<close>, the policy texts of \<open>scheduler/controllers/policies\<close>) and \<open>ConfigRoundtrip\<close>: configuration texts, read and printed.
    \<open>ManagerProperties\<close>: the properties of provisioners and texts.
  \<^item> \<open>JobPayloads\<close> and \<open>Backends\<close> (\<open>worker_manager_adapter/aws_hpc\<close>, \<open>worker_manager_adapter/oci_hpc\<close>): tasks as AWS Batch jobs and as container instances: payloads and
    the programs that run them, the backends with their monitors; \<open>JobRuns\<close> and \<open>BackendRuns\<close>: payloads and results on their way, and who holds a future;
    \<open>BackendProperties\<close>: their properties.
  \<^item> \<open>ObjectServer\<close> (\<open>src/src/cpp/scaler/object_storage\<close>) and \<open>StorageConnectors\<close> (\<open>io/ymq_sync_object_storage_connector.py\<close>,
    \<open>io/ymq_async_object_storage_connector.py\<close>): the object storage and how Python talks to it; \<open>ObjectStore\<close>: the object manager as a dictionary; \<open>StorageRuns\<close>: the contract of the storage as the locale
    \<open>object_service\<close>, with the server as its interpretation; \<open>StorageWaiting\<close>: requests that wait; \<open>StorageCalls\<close>: runs of the asynchronous connector; \<open>StorageProperties\<close>: their properties.
  \<^item> \<open>ClientObjects\<close> and \<open>ClientGraph\<close> (\<open>client/object_buffer.py\<close>, \<open>client/client.py\<close>): how a client turns functions, arguments and graphs
    into stored objects and tasks; \<open>ClientDedup\<close> and \<open>ClientRuns\<close>: why its caches may be trusted, and the states it can reach.
    \<open>ClientAgent\<close> (\<open>client/future.py\<close>, \<open>client/agent\<close>) and \<open>ClientFutures\<close>: futures and the agent that settles them.
  \<^item> \<open>Processor\<close> (\<open>worker/agent/processor\<close>) and \<open>ProcessorRuns\<close>: the process that runs user functions, its object cache and the hand-off of
    results; \<open>ClientCalls\<close>: a client's call from its submission to the result a processor sends; \<open>Journey\<close>: the same call through the scheduler and
    the agents, there and back.
  \<^item> \<open>Scenarios\<close>, \<open>WorkerScenarios\<close>, \<open>ClientScenarios\<close>, \<open>ProcessorScenarios\<close>, \<open>ManagerScenarios\<close>, \<open>BackendScenarios\<close>, \<open>StorageScenarios\<close>, \<open>JourneyScenarios\<close>: concrete runs for the witnesses. This theory: the properties.

  \<^bold>\<open>What is shown.\<close> For the scheduler: the invariant of every reachable state, no task is lost (also when a worker goes
  away), results and cancels are answered, stale reports change nothing, the documented state graph is respected, no
  worker is overloaded, statistics and indexes are exact, policies and sorter meet their specifications. For a
  worker: no priority inversion, one processor per started task, exact answers to cancels and results, exact
  heartbeat counts. For worker managers: bounded slots, exact bypass, scale-down only after the cooldown, bounded units, and
  convergence to what the scheduler asks for. For backends: every unsettled future is held by the batch or a monitor, monitors of instances end,
  payloads and results survive their way. For the object storage: connectors and server are one dictionary for all clients, no request waits for an object that is there. For configuration texts: what is accepted is well formed and survives printing. For clients: a submission
  names exactly the bytes that were passed, a submitted graph is one the scheduler can run, no future is forgotten, a
  future settles once, results and the end of the agent reach the futures. For processors: whatever is cached, a task computes
  the call its client made, and it is answered exactly once or stays in flight. For the parts together: a call makes the
  round trip from the client over the scheduler and a worker to a processor and back to the client's future.
  The theorems that end in \<open>raises\<close>, \<open>unanswered\<close>, \<open>stale_function\<close>, \<open>starved\<close>, \<open>not_retried\<close> or \<open>faults\<close>, and the last part of \<open>agent_end_settles_futures\<close>, show where the
  code does not do what it means to.

  \<^bold>\<open>Fuel.\<close> The router recurses without a structural measure (a transition can start others through a graph). Its
  fuel is a nesting depth; \<open>RouteInvariant\<close> proves that twice the number of running graphs plus a constant is
  enough, \<open>perform\<close> starts with such a depth, and \<open>every_input_ends\<close> states that it is never used up. The answers of the object storage to waiting requests nest too: their
  fuel is the number of objects waited for, which \<open>storage_requests_served\<close> shows to be enough. All other loops end by
  structure or by a proved measure. In \<open>Processor\<close>, \<open>NoFuel\<close> stands for the wait for an object that is never stored; \<open>processor_answers_once\<close> shows that it has no other cause.

  \<^bold>\<open>Not modelled.\<close> The start-up, pickling and disconnection of a client and its bridges to the agent's thread, pickling and user
  code (fields of an environment), the start, the suspension and the memory clean-up of a processor, sockets and transports, user
  interfaces and the transport in C++: they are input and output, threads and processes, whose effects the model takes as inputs. Of worker managers, the
  set-up of clusters, images and networks, the command lines of workers, the set-up of service clients, the fetching of logs and
  the execution service of Symphony, which are calls of client libraries; the submission of a batch is one step. Of the configuration, the command line and the TOML files. The information and
  configuration controllers publish the state and keep settings that are fields of the environment here.
\<close>

section \<open>The scheduler as a whole\<close>





text \<open>C7: Every input is handled to its end: from a reachable state no message and no
  routine uses up the bound on the nesting of transitions, and the invariant holds afterwards,
  also when the handler raises.\<close>

theorem every_input_ends:
  assumes "reachable env strategy sc s" and "input_ok i"
  shows "\<exists>s'. (perform env i s = Ret () s' \<or> (\<exists>e. perform env i s = Raise e s')) \<and> sched_inv s'"
  using perform_ok [OF reachable_inv [OF assms(1)] assms(2), of env] by (cases "perform env i s") auto

theorem every_input_ends_witness:
  "\<exists>s'. (perform demo_env (WorkerRoutine 100) demo_state = Ret () s' \<or>
      (\<exists>e. perform demo_env (WorkerRoutine 100) demo_state = Raise e s')) \<and> sched_inv s'"
  by (rule every_input_ends [OF demo_reachable]) simp

text \<open>C8: The router never lets an exception escape: whatever an action raises, the
  event ends normally, the invariant is restored, the tasks in transition around it
  are untouched, and a nesting bound of twice the running graphs plus two is enough.\<close>

theorem route_returns:
  assumes "tc_inv W (core s)" "gok k (graphs s)" and "2 * k + 2 \<le> n" and "event_ok W ev"
  shows "\<exists>s'. route env n ev s = Ret () s' \<and> tc_inv (W - handled ev) (core s') \<and> frame (core s) (core s') \<and> gok k (graphs s')"
  using route_ok [OF assms(3,4), of "core s" s env] assms(1,2) by (simp add: nested_iff)

theorem route_returns_witness:
  "\<exists>s'. route demo_env 2 (BalanceCancelRequested ''t1'') demo_state = Ret () s' \<and> tc_inv {} (core s')"
proof -
  have "tc_inv {} (core demo_state)" "gok 0 (graphs demo_state)"
    using reachable_inv [OF demo_reachable] demo_facts(7) by (simp_all add: sched_inv_def gok_def sorters_ok_def running_graphs_def)
  from route_returns [OF this, of 2 "BalanceCancelRequested ''t1''" demo_env] show ?thesis by auto
qed

text \<open>The task counts the scheduler reports are exact: for every live state the count is the
  number of machines in it, the counts add up to the number of machines.\<close>

theorem statistics_exact:
  assumes "reachable env strategy sc s"
  shows "(\<forall>st. is_terminal st \<or> mgr_statistics (mgr (core s)) st = int (live_count (mgr (core s)) st)) \<and>
    int (length (mgr_machines (mgr (core s)))) =
      mgr_statistics (mgr (core s)) TS_inactive + mgr_statistics (mgr (core s)) TS_running +
      mgr_statistics (mgr (core s)) TS_canceling + mgr_statistics (mgr (core s)) TS_balanceCanceling"
proof -
  have inv: "tc_inv {} (core s)" using reachable_inv [OF assms] by (simp add: sched_inv_def)
  have ok: "dict_ok (mgr_machines (mgr (core s)))"
    and count: "\<not> is_terminal st \<Longrightarrow> mgr_statistics (mgr (core s)) st = int (live_count (mgr (core s)) st)" for st
    using tciD(2) [OF inv] by (simp_all add: stats_ok_def)
  have "length (mgr_machines (mgr (core s))) = live_count (mgr (core s)) TS_inactive + live_count (mgr (core s)) TS_running +
      live_count (mgr (core s)) TS_canceling + live_count (mgr (core s)) TS_balanceCanceling"
    by (rule live_counts_total [OF ok tciD(10) [OF inv]])
  moreover have "\<not> is_terminal TS_inactive" "\<not> is_terminal TS_running" "\<not> is_terminal TS_canceling"
    "\<not> is_terminal TS_balanceCanceling" by simp_all
  ultimately show ?thesis using count by (simp, blast)
qed

theorem statistics_exact_witness:
  "mgr_statistics (mgr (core demo_state)) TS_running = int (live_count (mgr (core demo_state)) TS_running)"
  using statistics_exact [OF demo_reachable] is_terminal_simps(2) by blast

section \<open>What clients and workers see\<close>

text \<open>C3: The result of a running task reaches its client: when the worker that holds a task reports
  the result, the handler ends normally, the client that submitted the task has been sent the
  result, and the scheduler has forgotten the task; a task being withdrawn for balancing included.\<close>

theorem result_reaches_client:
  assumes "reachable env strategy sc s" and "otm_owner (clients s) t = Some c" and "\<not> is_graph_subtask s t"
    and "task_state (core s) t \<in> {Some TS_running, Some TS_balanceCanceling}" and "held (core s) t = Some w"
    and "result_taskId r = t"
  shows "\<exists>s'. perform env (Receive now w (InTaskResult r)) s = Ret () s' \<and> (c, MsgTaskResult r) \<in> set (sent s') \<and>
    task_state (core s') t = None \<and> dict_get (tasks (core s')) t = None \<and> held (core s') t = None"
proof -
  obtain st where "task_state (core s) t = Some st" "st \<in> {TS_running, TS_balanceCanceling}" using assms(4) by auto
  with result_delivered [OF reachable_inv [OF assms(1)] _ assms(2) _ _ assms(5,3,6), of st env now]
    reachable_ledger [OF assms(1)] show ?thesis by (simp add: ledger_def)
qed

theorem result_reaches_client_witness:
  "\<exists>s'. perform demo_env (Receive 5 ''w'' (InTaskResult demo_result)) demo_state = Ret () s' \<and>
    (''Client|a'', MsgTaskResult demo_result) \<in> set (sent s') \<and> task_state (core s') ''t1'' = None"
  using result_reaches_client [OF demo_reachable demo_facts(10) demo_not_sub _ demo_facts(3), of demo_result 5] demo_facts(1)
  by (auto simp: demo_result_def)

text \<open>Cancelling a task that waits in the queue is answered at once: the client gets the
  confirmation, and machine, payload and queue entry are gone.\<close>

theorem cancel_of_waiting_task:
  assumes "reachable env strategy sc s" and "otm_owner (clients s) t = Some c" and "\<not> is_graph_subtask s t"
    and "task_state (core s) t = Some TS_inactive" and "t \<in> set (unassigned (core s))" and "cancel_taskId tc = t"
  shows "\<exists>s'. perform env (Receive now c (InTaskCancel tc)) s = Ret () s' \<and>
    (c, MsgTaskCancelConfirm \<lparr>confirm_taskId = t, cancelConfirmType = CC_canceled\<rparr>) \<in> set (sent s') \<and>
    task_state (core s') t = None \<and> dict_get (tasks (core s')) t = None \<and> t \<notin> set (unassigned (core s'))"
  using cancel_queued [OF reachable_inv [OF assms(1)] _ assms(2,4,5,3,6)] reachable_ledger [OF assms(1)] by (simp add: ledger_def)

theorem cancel_of_waiting_task_witness:
  "\<exists>s'. perform demo_env (Receive 5 ''Client|a'' (InTaskCancel \<lparr>cancel_taskId = ''t2'', cancel_force = False\<rparr>)) demo_state = Ret () s' \<and>
    task_state (core s') ''t2'' = None \<and> ''t2'' \<notin> set (unassigned (core s'))"
  using cancel_of_waiting_task [OF demo_reachable demo_facts(11) demo_not_sub demo_facts(2),
      of "\<lparr>cancel_taskId = ''t2'', cancel_force = False\<rparr>" 5] demo_facts(4) by auto

text \<open>Cancelling a running task by its client asks the worker that holds it, exactly once and
  nobody else, and the task waits for the answer in the canceling state, still with that worker.\<close>

theorem cancel_of_running_task:
  assumes "reachable env strategy sc s" and "otm_owner (clients s) t = Some c" and "\<not> is_graph_subtask s t"
    and "task_state (core s) t = Some TS_running" and "held (core s) t = Some w" and "cancel_taskId tc = t"
  shows "\<exists>s'. perform env (Receive now c (InTaskCancel tc)) s = Ret () s' \<and>
    sent s' = sent s @ [(w, MsgTaskCancel tc)] \<and> task_state (core s') t = Some TS_canceling \<and> held (core s') t = Some w"
  by (rule cancel_running [OF reachable_inv [OF assms(1)] assms(2,4,5,3,6)])

theorem cancel_of_running_task_witness:
  "\<exists>s'. perform demo_env (Receive 5 ''Client|a'' (InTaskCancel \<lparr>cancel_taskId = ''t1'', cancel_force = False\<rparr>)) demo_state = Ret () s' \<and>
    sent s' = sent demo_state @ [(''w'', MsgTaskCancel \<lparr>cancel_taskId = ''t1'', cancel_force = False\<rparr>)] \<and>
    task_state (core s') ''t1'' = Some TS_canceling \<and> held (core s') ''t1'' = Some ''w''"
  using cancel_of_running_task [OF demo_reachable demo_facts(10) demo_not_sub demo_facts(1,3),
      of "\<lparr>cancel_taskId = ''t1'', cancel_force = False\<rparr>" 5] by auto

text \<open>C11: A worker's report on a task that another worker holds, a result or an answer to a
  cancel, changes nothing at all.\<close>

theorem stale_report_ignored:
  assumes "reachable env strategy sc s" and "reported_by ev = Some v" and "held (core s) (event_task_id ev) = Some w" and "w \<noteq> v"
  shows "route env (Suc n) ev s = Ret () s"
proof -
  have "tc_inv {} (core s)" using reachable_inv [OF assms(1)] by (simp add: sched_inv_def)
  then show ?thesis using stale_report [OF _ assms(2) _ assms(3,4)] tciD(1,2) by blast
qed

theorem stale_report_ignored_witness:
  "route demo_env 1 (TaskResultReceived ''t1'' ''v'' demo_result) demo_state = Ret () demo_state"
  using stale_report_ignored [OF demo_reachable, of "TaskResultReceived ''t1'' ''v'' demo_result" "''v''" "''w''" 0] demo_facts(3)
  by (simp del: route.simps)



text \<open>C9: The task state graph: whatever the state of the scheduler, an event leads from a state only
  to the states the documented graph gives for it, and is rejected where the graph says so.\<close>

theorem state_graph_respected:
  assumes "action env R C source ev s = Ret r s'"
  shows "r \<in> state_graph source ev"
  by (rule action_in_graph [OF assms])

theorem state_graph_respected_witness:
  "\<exists>r s'. action demo_env (route demo_env 1) (on_task_cancel demo_env 1) TS_running (BalanceCancelRequested ''t1'') demo_state = Ret r s' \<and>
    r \<in> {Some TS_balanceCanceling, None}"
proof -
  let ?m = "action demo_env (route demo_env 1) (on_task_cancel demo_env 1) TS_running (BalanceCancelRequested ''t1'') demo_state"
  have "case ?m of Ret _ _ \<Rightarrow> True | _ \<Rightarrow> False" by code_simp
  then obtain r s' where r: "?m = Ret r s'" by (auto split: outcome.splits)
  show ?thesis using state_graph_respected [OF r] r by auto
qed

text \<open>The indexes of clients and objects are consistent in every reachable state: client to
  tasks and task to client are inverse to each other, objects and the clients that block
  them too, and every blocked object has its creation record.\<close>

theorem indexes_consistent:
  assumes "reachable env strategy sc s"
  shows "otm_inv (clients s) \<and> ot_inv (os_tracker (objects s))"
  using reachable_ledger [OF assms] by (simp add: ledger_def)

theorem indexes_consistent_witness: "otm_inv (clients demo_state) \<and> otm_owner (clients demo_state) ''t1'' = Some ''Client|a''"
  using indexes_consistent [OF demo_reachable] demo_facts(10) by simp

section \<open>Placing tasks on workers\<close>

text \<open>C10: No worker is overloaded: in every reachable state the even-load policy holds at most
  as many tasks for a worker as the worker has slots, and the capability policy, in addition,
  holds for a worker only tasks whose capabilities it offers.\<close>

theorem no_overload:
  assumes "reachable env strategy sc s"
  shows "case policy (core s) of
      EvenLoadPolicy p \<Rightarrow> (\<forall>w n. dict_get (ev_queue_size p) w = Some n \<longrightarrow> 0 \<le> n \<longrightarrow> int (length (ev_held p w)) \<le> n)
    | CapabilityPolicy p \<Rightarrow> (\<forall>w x. dict_get (cp_workers p) w = Some x \<longrightarrow> int (wh_n_tasks x) \<le> max 0 (wh_queue_size x) \<and>
        (\<forall>t th. dict_get (wh_tasks x) t = Some th \<longrightarrow> set (th_capabilities th) \<subseteq> set (wh_capabilities x)))"
proof -
  have "tc_inv {} (core s)" using reachable_inv [OF assms] by (simp add: sched_inv_def)
  then have "policy_inv (policy (core s))" by (rule tciD(1))
  then show ?thesis
    by (cases "policy (core s)")
      (simp add: ev_ok_def ev_within_capacity_def, use cp_invD(2) holder_okD(5,6) in \<open>simp, blast\<close>)
qed

theorem no_overload_witness:
  "case policy (core demo_state) of
      EvenLoadPolicy p \<Rightarrow> dict_get (ev_queue_size p) ''w'' = Some 1 \<and> int (length (ev_held p ''w'')) \<le> 1
    | CapabilityPolicy p \<Rightarrow> False"
proof -
  obtain p where p: "policy (core demo_state) = EvenLoadPolicy p" "dict_get (ev_queue_size p) ''w'' = Some 1"
    using demo_facts(9) by (auto split: allocation.splits)
  show ?thesis using no_overload [OF demo_reachable] p by force
qed

text \<open>The even-load policy places a new task on a worker of least load, behind the tasks it
  already has, and refuses it only when there is no worker or a worker of least load is
  full; it never raises.\<close>

theorem even_load_assign:
  assumes "ev_ok p" "ev_holder p (taskId task) = None"
  shows "\<exists>w p'. ev_assign_task task p = Ret w p' \<and> ev_ok p' \<and>
    (if worker_is_valid w
     then w \<in> ev_members p \<and> (\<forall>v \<in> ev_members p. length (ev_held p w) \<le> length (ev_held p v)) \<and>
       dict_get (ev_queue_size p) w \<noteq> Some (int (length (ev_held p w))) \<and>
       (\<forall>v. ev_held p' v = (if v = w then ev_held p w @ [taskId task] else ev_held p v))
     else (\<forall>v. ev_held p' v = ev_held p v) \<and> (ev_members p = {} \<or>
       (\<exists>v \<in> ev_members p. dict_get (ev_queue_size p) v = Some (int (length (ev_held p v))) \<and>
          (\<forall>u \<in> ev_members p. length (ev_held p v) \<le> length (ev_held p u)))))"
proof -
  have inv: "ev_inv p" using assms(1) by (simp add: ev_ok_def)
  from inv assms(2) show ?thesis
  proof (cases rule: ev_assign_cases)
    case (refused p')
    then have "ev_held p' v = ev_held p v" for v by (simp add: ev_held_def)
    moreover have "ev_ok p'" using ev_assign_capacity [OF assms refused(1)] refused(2) by (simp add: ev_ok_def)
    ultimately show ?thesis using refused by (auto simp: worker_is_valid_def)
  next
    case (assigned w p' n)
    moreover have "ev_ok p'" using ev_assign_capacity [OF assms assigned(1)] assigned(2) by (simp add: ev_ok_def)
    ultimately show ?thesis by auto
  qed
qed

theorem even_load_assign_witness:
  "\<exists>w p'. ev_assign_task (demo_task ''t'') demo_even = Ret w p' \<and> ev_ok p' \<and> w = ''v'' \<and>
    ev_held p' ''v'' = ev_held demo_even ''v'' @ [''t'']"
proof -
  have h: "ev_holder demo_even (taskId (demo_task ''t'')) = None" by code_simp
  have "case ev_assign_task (demo_task ''t'') demo_even of Ret w _ \<Rightarrow> w = ''v'' | _ \<Rightarrow> False" by code_simp
  then show ?thesis using even_load_assign [OF demo_even_ok h] valid_names(1) by auto
qed

text \<open>The even-load balancing plan: nothing when no task waits behind another or no worker
  is idle; otherwise enough tasks for every idle worker (or all waiting ones). A worker
  gives up tasks from the end of its queue only and keeps at least its first one.\<close>

theorem even_load_balance:
  assumes "ev_ok p"
  shows "\<exists>advice. ev_balance p = Inr advice \<and>
    (\<forall>w ts. (w, ts) \<in> set advice \<longrightarrow> (\<exists>ys. ys \<noteq> [] \<and> ts \<noteq> [] \<and> ev_held p w = ys @ ts)) \<and>
    (if ev_total_queued p = 0 \<or> ev_idle p = 0 then advice = []
     else min (ev_idle p) (ev_total_queued p) \<le> int (sum_list (map (\<lambda>(w, ts). length ts) advice)))"
  using assms by (intro ev_balance_spec) (simp add: ev_ok_def)

theorem even_load_balance_witness:
  "\<exists>advice. ev_balance demo_even = Inr advice \<and> advice = [(''w'', [''t2''])] \<and>
    ev_held demo_even ''w'' = [''t1''] @ [''t2'']"
proof -
  have "ev_balance demo_even = Inr [(''w'', [''t2''])]" "ev_held demo_even ''w'' = [''t1''] @ [''t2'']" by code_simp+
  then show ?thesis using even_load_balance [OF demo_even_ok] by simp
qed

text \<open>The capability policy places a new task on a worker that offers every capability the
  task asks for and has a free slot, one of least load among those, and refuses it exactly
  when there is no such worker; it never raises.\<close>

theorem capability_assign:
  assumes "cp_inv p" "cp_holder p (taskId task) = None"
  shows "\<exists>w p'. cp_assign_task h task p = Ret w p' \<and> cp_inv p' \<and>
    (if worker_is_valid w
     then cp_holder p' = (cp_holder p)(taskId task \<mapsto> w) \<and>
       (\<exists>x. dict_get (cp_workers p) w = Some x \<and> capable x (task_capabilities task) \<and> 0 < wh_n_free x \<and>
          (\<forall>v y. dict_get (cp_workers p) v = Some y \<longrightarrow> capable y (task_capabilities task) \<longrightarrow> 0 < wh_n_free y \<longrightarrow>
             wh_n_tasks x \<le> wh_n_tasks y))
     else p' = p \<and> (\<forall>v y. dict_get (cp_workers p) v = Some y \<longrightarrow> capable y (task_capabilities task) \<longrightarrow> wh_n_free y \<le> 0))"
proof (cases rule: cp_assign_cases [OF assms, where h = h, case_names refused assigned])
  case refused
  then show ?thesis using assms(1) by (auto simp: worker_is_valid_def)
next
  case (assigned w x p')
  then show ?thesis by auto
qed

theorem capability_assign_witness:
  "\<exists>w p'. cp_assign_task length ((demo_task ''t'')\<lparr>task_capabilities := [(''gpu'', 1)]\<rparr>) demo_capability = Ret w p' \<and>
    cp_inv p' \<and> w = ''v'' \<and> cp_holder p' ''t'' = Some ''v''"
proof -
  let ?task = "(demo_task ''t'')\<lparr>task_capabilities := [(''gpu'', 1)]\<rparr>"
  have h: "cp_holder demo_capability (taskId ?task) = None" by code_simp
  have "case cp_assign_task length ?task demo_capability of Ret w _ \<Rightarrow> w = ''v'' | _ \<Rightarrow> False" by code_simp
  then show ?thesis using capability_assign [OF demo_capability_ok h, of length] valid_names(1) by auto
qed

text \<open>The capability policy's balancing loop ends, whatever position the sorted list picks, and
  every worker that gives up tasks gives up distinct tasks of its own and keeps at least the
  average load.\<close>

theorem capability_balance:
  assumes "cp_inv p"
  shows "\<exists>advice. cp_balance bisect p = Inr advice \<and> dict_ok advice \<and>
    (\<forall>w ts. dict_get advice w = Some ts \<longrightarrow> distinct ts \<and>
       (\<exists>x. dict_get (cp_workers p) w = Some x \<and> set ts \<subseteq> set (dict_keys (wh_tasks x)) \<and>
          sum_list (map wh_n_tasks (map snd (cp_workers p))) + length ts * length (cp_workers p) \<le>
            wh_n_tasks x * length (cp_workers p)))"
  using cp_balance_spec [OF assms, of bisect] unfolding advice_ok_def cp_target_def by (force simp: max_def split: if_splits)

theorem capability_balance_witness:
  "\<exists>advice. cp_balance (\<lambda>xs x. length (filter (\<lambda>y. y \<le> x) xs)) demo_capability = Inr advice \<and> dict_ok advice \<and>
    dict_get advice ''w'' = Some [''t2'']"
proof -
  have "case cp_balance (\<lambda>xs x. length (filter (\<lambda>y. y \<le> x) xs)) demo_capability of
      Inr advice \<Rightarrow> dict_get advice ''w'' = Some [''t2''] | Inl _ \<Rightarrow> False" by code_simp
  then show ?thesis using capability_balance [OF demo_capability_ok, of "\<lambda>xs x. length (filter (\<lambda>y. y \<le> x) xs)"] by auto
qed

section \<open>Scaling\<close>



text \<open>While there are tasks, no scaling policy asks a manager for a negative number of workers
  or for more than the manager has reported it can run.\<close>

theorem scaling_within_bounds:
  assumes "0 \<le> maxTaskConcurrency hb" and "snap_tasks snap \<noteq> []"
    and "c \<in> set (fst (get_scaling_commands snap hb managed snaps sc))" and "r \<in> set c"
  shows "0 \<le> taskConcurrency r \<and> taskConcurrency r \<le> maxTaskConcurrency hb"
  using scaling_commands_bounded [OF assms] by (simp add: request_bounded_def)

theorem scaling_within_bounds_witness:
  "list_all (list_all (\<lambda>r. 0 \<le> taskConcurrency r \<and> taskConcurrency r \<le> 2))
    (fst (get_scaling_commands demo_snapshot (demo_manager_heartbeat (hd demo_rules)) [] demo_managers (WaterfallScaling demo_rules)))"
proof -
  have "snap_tasks demo_snapshot \<noteq> []" "maxTaskConcurrency (demo_manager_heartbeat (hd demo_rules)) = 2" by code_simp+
  then show ?thesis using scaling_within_bounds [of "demo_manager_heartbeat (hd demo_rules)" demo_snapshot]
    unfolding list_all_iff by fastforce
qed

text \<open>The balancer acts on an advice exactly once: of the rounds in which one new advice stays the
  same, the one numbered by the trigger count acts, and no other, and none acts on an empty advice.\<close>

theorem balancer_acts_once:
  assumes "dict_ok advice" "\<not> dict_same (last_advice s) advice"
  shows "balance_rounds env (replicate n advice) s = map (\<lambda>i. i = env_trigger_times env \<and> advice \<noteq> []) [0..<n]"
  by (rule fresh_rounds [OF assms])

theorem balancer_acts_once_witness:
  "balance_rounds demo_env (replicate 5 [(''w'', [''t2''])]) demo_state = [False, False, True, False, False]"
proof -
  have "dict_ok [(''w'', [''t2''])]" "\<not> dict_same (last_advice demo_state) [(''w'', [''t2''])]"
    "map (\<lambda>i. i = env_trigger_times demo_env \<and> [(''w'', [''t2''])] \<noteq> []) [0..<5] = [False, False, True, False, False]"
    by code_simp+
  then show ?thesis using balancer_acts_once [of "[(''w'', [''t2''])]" demo_state demo_env 5] by simp
qed

section \<open>Containers\<close>



text \<open>Removing blocks from the object tracker returns the creation record of each object
  exactly once, namely when its last block goes, whatever order and repetition the blocks come
  in; every object still blocked keeps its record.\<close>

theorem objects_deleted_once:
  assumes "ot_inv tr"
  shows "\<exists>vs tr' ks. ot_remove_blocks bs tr = Ret vs tr' \<and> ot_inv tr' \<and>
    (\<forall>k. ot_blocked_by tr' k = ot_blocked_by tr k - set bs) \<and>
    (\<forall>k. dict_get (ot_objects tr') k = (if ot_blocked_by tr' k = {} then None else dict_get (ot_objects tr) k)) \<and>
    distinct ks \<and> map Some vs = map (dict_get (ot_objects tr)) ks \<and>
    set ks = {k. ot_blocked_by tr k \<noteq> {} \<and> ot_blocked_by tr k \<subseteq> set bs}"
proof -
  obtain vs tr' where r: "ot_remove_blocks bs tr = Ret vs tr'" "removal tr vs tr'"
      "ot_blocked_by tr' = (\<lambda>k. ot_blocked_by tr k - set bs)"
    using ot_remove_blocks_spec [OF assms] by blast
  obtain ks where "distinct ks" "map Some vs = map (dict_get (ot_objects tr)) ks"
      "set ks = {k. ot_blocked_by tr k \<noteq> {} \<and> ot_blocked_by tr' k = {}}"
    using r(2) by (auto simp: removal_def)
  with r show ?thesis unfolding removal_def by (intro exI [of _ vs] exI [of _ tr'] exI [of _ ks]) auto
qed

theorem objects_deleted_once_witness:
  "\<exists>vs tr'. ot_remove_blocks [''c'', ''c''] demo_tracker = Ret vs tr' \<and> ot_inv tr' \<and>
    dict_get (ot_objects tr') ''o1'' = None \<and> dict_get (ot_objects tr') ''o2'' = Some ''second''"
proof -
  have f: "ot_blocked_by demo_tracker ''o1'' = {''c''}" "ot_blocked_by demo_tracker ''o2'' = {''c'', ''d''}"
    "dict_get (ot_objects demo_tracker) ''o2'' = Some ''second''" by (rule demo_tracker_facts)+
  obtain vs tr' where r: "ot_remove_blocks [''c'', ''c''] demo_tracker = Ret vs tr'" "ot_inv tr'"
      "\<forall>k. ot_blocked_by tr' k = ot_blocked_by demo_tracker k - set [''c'', ''c'']"
      "\<forall>k. dict_get (ot_objects tr') k = (if ot_blocked_by tr' k = {} then None else dict_get (ot_objects demo_tracker) k)"
    using objects_deleted_once [OF demo_tracker_ok, of "[''c'', ''c'']"] by blast
  then show ?thesis using f by auto
qed

section \<open>Task graphs\<close>

text \<open>C15: The GraphBLAS sorter refines the specification the graph controller rests on: from
  corresponding states every method returns the same value or raises the same exception, and
  leaves corresponding states.\<close>

theorem sorter_refines:
  assumes "backend_ok B dim ent" "sim dim ent ts so"
  shows "sim_out dim ent (ts_prepare B ts) (so_prepare so) \<and> sim_out dim ent (ts_get_ready ts) (so_get_ready so) \<and>
    sim_out dim ent (ts_is_active ts) (so_is_active so) \<and> sim_out dim ent (ts_done B ks ts) (so_done ks so) \<and>
    (case so_merge_graph graph so of
       Inl e \<Rightarrow> ts_merge_graph B graph ts = Raise e ts
     | Inr so' \<Rightarrow> (\<exists>ts'. ts_merge_graph B graph ts = Ret () ts' \<and> sim dim ent ts' so'))"
  using prepare_sim [OF assms] get_ready_sim [OF assms(2)] is_active_sim [OF assms(2)] done_sim [OF assms]
    merge_graph_sim [OF assms] by blast

theorem sorter_refines_witness:
  "sim_out fst entry (ts_prepare list_backend (ts_init list_backend)) (so_prepare (so_empty :: string sorter)) \<and>
    (\<exists>ts'. ts_merge_graph list_backend [(''b'', [''a''])] (ts_init list_backend) = Ret () ts')"
  using sorter_refines [OF list_backend_ok sim_init [OF list_backend_ok], where graph = "[(''b'', [''a''])]" and ks = "[]"]
  by (auto simp: so_merge_graph_def so_empty_def)

text \<open>The static order of a merged graph: if the graph has a cycle the sorter raises
  \<open>CycleError\<close>; otherwise it ends and lists every node exactly once, after all its predecessors.\<close>

theorem static_order_topological:
  assumes "backend_ok B dim ent" "ts_merge_graph B graph (ts_init B) = Ret () ts"
  defines "E \<equiv> {(n, p). \<exists>ps. (n, ps) \<in> set graph \<and> p \<in> set ps}"
  shows "if acyclic E
    then \<exists>ys ts'. static_order B ts = Ret ys ts' \<and> distinct ys \<and> set ys = fst ` set graph \<union> (\<Union>(n, ps) \<in> set graph. set ps) \<and>
      topological E ys
    else \<exists>ts'. static_order B ts = Raise CycleError ts'"
proof -
  obtain so where so: "so_merge_graph graph so_empty = Inr so" by (simp add: so_merge_graph_def so_empty_def)
  have s: "sim dim ent ts so" using merge_graph_sim [OF assms(1) sim_init [OF assms(1)], of graph] so assms(2) by auto
  have f: "so_ready so = None" "so_n_done so = 0" "so_n_visited so = 0" "set (so_edges so) = E"
    "set (so_nodes so) = fst ` set graph \<union> (\<Union>(n, ps) \<in> set graph. set ps)"
    using so so_number_spec [of graph "[]"] by (simp_all add: so_merge_graph_def so_empty_def E_def) force+
  show ?thesis using static_order_spec [OF assms(1) s f(1-3)] unfolding f(4,5) .
qed

theorem static_order_topological_witness:
  "\<exists>ys ts'. static_order list_backend (state_after (ts_merge_graph list_backend [(''c'', [''a'', ''b'']), (''b'', [''a''])]) (ts_init list_backend)) =
    Ret ys ts' \<and> distinct ys \<and> set ys = {''a'', ''b'', ''c''}"
proof -
  let ?g = "[(''c'', [''a'', ''b'']), (''b'', [''a''])]" and ?B = list_backend
  let ?ts = "state_after (ts_merge_graph ?B ?g) (ts_init ?B)"
  have m: "ts_merge_graph ?B ?g (ts_init ?B) = Ret () ?ts"
    using merge_graph_sim [OF list_backend_ok sim_init [OF list_backend_ok], of ?g]
    by (auto simp: so_merge_graph_def so_empty_def)
  have e: "{(n, p). \<exists>ps. (n, ps) \<in> set ?g \<and> p \<in> set ps} = {(''c'', ''a''), (''c'', ''b''), (''b'', ''a'')}" by auto
  have "acyclic {(''c'', ''a''), (''c'', ''b''), (''b'', ''a'')}"
    by (simp add: acyclic_insert rtrancl_insert) (simp add: acyclic_def)
  with static_order_topological [OF list_backend_ok m, unfolded e] show ?thesis by auto
qed

text \<open>Culling a graph keeps exactly the keys the targets need, with their values, and raises
  \<open>KeyError\<close> exactly when one of them is missing; the search ends on every graph, cyclic or not.\<close>

theorem cull_graph_exact:
  "case cull_graph h graph keys of
      Inl e \<Rightarrow> e = KeyError \<and> (\<exists>k \<in> (depends graph)\<^sup>* `` set keys. \<not> dict_has graph k)
    | Inr culled \<Rightarrow> dict_ok culled \<and>
        (\<forall>k. dict_get culled k = (if k \<in> (depends graph)\<^sup>* `` set keys then dict_get graph k else None)) \<and>
        (\<forall>k \<in> (depends graph)\<^sup>* `` set keys. dict_has graph k)"
  using cull_graph_spec [where h = h and graph = graph and keys = keys] unfolding needed_def .

theorem cull_graph_exact_witness:
  "(case cull_graph length [(''a'', Data), (''b'', Call [''a'']), (''c'', Call [''d''])] [''b''] of
      Inl e \<Rightarrow> False | Inr culled \<Rightarrow> dict_get culled ''b'' = Some (Call [''a'']) \<and> dict_get culled ''c'' = None \<and> dict_ok culled)"
proof -
  let ?g = "[(''a'', Data), (''b'', Call [''a'']), (''c'', Call [''d''])]"
  have "case cull_graph length ?g [''b''] of Inl e \<Rightarrow> False | Inr culled \<Rightarrow> dict_get culled ''b'' = Some (Call [''a'']) \<and> dict_get culled ''c'' = None"
    by code_simp
  then show ?thesis
    using cull_graph_exact [where h = length and graph = ?g and keys = "[''b'']"] by (auto split: sum.splits)
qed

text \<open>A submitted graph with a cycle is never answered: the routine raises \<open>CycleError\<close>, nothing has been
  sent, the graph is in no table, and the ids of the graph and of its subtasks, which
  were registered first, stay behind.\<close>

theorem cyclic_graph_unanswered:
  assumes "reachable env strategy sc s" and "graph_queue s = (c, gt) # rest" and "distinct (map taskId (graph_tasks gt))"
    and "\<not> acyclic (graph_depends (graph_tasks gt))" and "otm_owner (clients s) (graph_taskId gt) = None"
  shows "\<exists>s'. perform env GraphRoutine s = Raise CycleError s' \<and> sent s' = sent s \<and> graphs s' = graphs s \<and>
    otm_owner (clients s') (graph_taskId gt) = Some c \<and>
    (\<forall>t \<in> insert (graph_taskId gt) (taskId ` set (graph_tasks gt)). dict_get (graph_of s') t = Some (graph_taskId gt))"
  using cyclic_graph_raises [OF assms(2-4) _ assms(5)] reachable_ledger [OF assms(1)] by (simp add: ledger_def)

theorem cyclic_graph_unanswered_witness:
  "\<exists>s'. perform demo_env GraphRoutine cyclic_state = Raise CycleError s' \<and> sent s' = sent cyclic_state \<and>
    dict_get (graph_of s') ''u'' = Some ''g''"
proof -
  have q: "graph_queue cyclic_state = [(''Client|a'', demo_graph cyclic_tasks)]" "distinct (map taskId (graph_tasks (demo_graph cyclic_tasks)))"
    "otm_owner (clients cyclic_state) (graph_taskId (demo_graph cyclic_tasks)) = None" by code_simp+
  have "(''t'', ''u'') \<in> graph_depends cyclic_tasks" "(''u'', ''t'') \<in> graph_depends cyclic_tasks"
    by (simp_all add: graph_depends_iff cyclic_tasks_def)
  then have "(''t'', ''t'') \<in> (graph_depends cyclic_tasks)\<^sup>+" by (meson trancl.simps)
  then have cyc: "\<not> acyclic (graph_depends (graph_tasks (demo_graph cyclic_tasks)))" by (auto simp: acyclic_def demo_graph_def)
  from cyclic_graph_unanswered [OF cyclic_state_reachable q(1,2) cyc q(3)] show ?thesis
    by (auto simp: demo_graph_def cyclic_tasks_def)
qed

text \<open>Cancelling a graph whose subtask still waits: the client gets the confirmations of the
  subtask and of the graph and the graph is forgotten, but the handler raises \<open>KeyError\<close>, because the
  confirmation of the subtask has already removed the graph that the outer call removes again.\<close>

theorem waiting_graph_cancel_raises:
  "case perform demo_env (Receive 1 ''Client|a'' (InTaskCancel \<lparr>cancel_taskId = ''g'', cancel_force = False\<rparr>)) waiting_graph of
     Raise e s' \<Rightarrow> e = KeyError \<and> graphs s' = [] \<and> graph_of s' = [] \<and> sent s' = sent waiting_graph @
       [(''Client|a'', MsgTaskCancelConfirm (canceled_confirm ''t'')), (''Client|a'', MsgTaskCancelConfirm (canceled_confirm ''g''))]
   | _ \<Rightarrow> False"
  by code_simp

section \<open>Workers\<close>

text \<open>C23: No waiting task of a worker outranks the one that runs: in every state the agent
  can reach, whatever arrives, dies or is cancelled, a queued task, suspended or new, has at most the
  priority of the task of the current processor.\<close>

theorem no_priority_inversion:
  assumes "agent_reachable env s" and "current_task s = Some task" and "dict_get (wa_queued s) t = Some waiting"
  shows "task_prio waiting \<le> task_prio task"
  by (rule no_inversion [OF agent_reachable_inv [OF assms(1)] assms(2,3)])

theorem no_priority_inversion_witness: "task_prio (prio_task ''next'' []) \<le> task_prio (prio_task ''quick'' urgent)"
  using no_priority_inversion [OF preempt_reachable preempt_facts(1,4)] .



text \<open>C25: A worker answers every cancel exactly once, without an exception, in every state it can
  reach: not found when it does not have the task, failed when the task has started and the cancel is
  not forced, cancelled otherwise, and then the task counts as started no more.\<close>

theorem worker_cancel_answered_once:
  assumes "agent_reachable env s"
  shows "\<exists>s'. agent_perform env (ExtCancel tc) s = Ret () s' \<and>
    wa_sent s' = wa_sent s @ [AgentConfirm \<lparr>confirm_taskId = cancel_taskId tc, cancelConfirmType = cancel_answer tc s\<rparr>] \<and>
    (cancel_answer tc s = CC_canceled \<longrightarrow> cancel_taskId tc \<notin> set (wa_processing s'))"
  using cancel_answered [OF agent_reachable_inv [OF assms], of tc] by auto

theorem worker_cancel_answered_once_witness:
  "\<exists>s'. agent_perform agent_demo_env (ExtCancel \<lparr>cancel_taskId = ''quick'', cancel_force = True\<rparr>) (ran preempt_run) = Ret () s' \<and>
    wa_sent s' = [AgentConfirm \<lparr>confirm_taskId = ''quick'', cancelConfirmType = CC_canceled\<rparr>] \<and> ''quick'' \<notin> set (wa_processing s')"
  using worker_cancel_answered_once [OF preempt_reachable, of "\<lparr>cancel_taskId = ''quick'', cancel_force = True\<rparr>"]
  by (auto simp: cancel_answer_def preempt_facts(5,7))

text \<open>The result the current processor sends for its task goes to the scheduler exactly once, with the
  profile of that processor in place of its metadata; the task leaves the queue and the set of
  started tasks, and the worker accepts the next one. No assertion and no profiler error can stop it.\<close>

theorem worker_result_delivered:
  assumes "agent_reachable env s" and "current_task s = Some task" and "wa_current s = Some c"
    and "h_processor_id (holder_of s c) = Some p" and "result_taskId r = taskId task"
  shows "\<exists>s'. agent_perform env (IntResult p r) s = Ret () s' \<and>
    wa_sent s' = wa_sent s @ [AgentResult (r\<lparr>result_metadata := we_profile env c\<rparr>)] \<and>
    taskId task \<notin> set (wa_processing s') \<and> \<not> dict_has (wa_queued s') (taskId task) \<and> current_task s' = None \<and> \<not> wa_lock s'"
  using agent_result_delivered [OF agent_reachable_inv [OF assms(1)] assms(2-5), of env] by auto

theorem worker_result_delivered_witness:
  "\<exists>s'. agent_perform agent_demo_env (IntResult ''p1'' (task_done ''quick'')) (ran preempt_run) = Ret () s' \<and>
    wa_sent s' = [AgentResult ((task_done ''quick'')\<lparr>result_metadata := ''p''\<rparr>)] \<and> ''quick'' \<notin> set (wa_processing s') \<and> \<not> wa_lock s'"
  using worker_result_delivered [OF preempt_reachable preempt_facts(1-3), of "task_done ''quick''"]
  by (auto simp: task_done_def prio_task_def preempt_facts(7) agent_demo_env_def)

text \<open>The number of queued tasks a worker reports, the length of its queue less the suspended
  processors, is exactly the number of tasks it has that were not started; the assertion that it is
  not negative never fails.\<close>

theorem queued_tasks_exact:
  assumes "agent_reachable env s"
  shows "queued_tasks s = int (card {t. dict_has (wa_queued s) t \<and> t \<notin> set (wa_processing s)})"
  by (rule queued_tasks_count [OF agent_reachable_inv [OF assms]])

theorem queued_tasks_exact_witness:
  "card {t. dict_has (wa_queued (ran preempt_run)) t \<and> t \<notin> set (wa_processing (ran preempt_run))} = 1"
  using queued_tasks_exact [OF preempt_reachable] preempt_facts(8) by simp


section \<open>Worker managers\<close>

text \<open>The task manager of a worker manager never lets more tasks of its queue run than it has
  slots: after any sequence of inputs, also one that an exception ends, the free slots and the tasks
  that hold one are together at most the base concurrency.\<close>

theorem adapter_slots_bounded:
  assumes "adapter_init n = Inr s"
  shows "sat (\<lambda>_ s'. at_semaphore s' + length (at_acquiring s') \<le> nat n) (\<lambda>s'. at_semaphore s' + length (at_acquiring s') \<le> nat n)
    (adapter_run env is s)"
proof -
  have "slots s \<le> nat n" using assms by (auto simp: adapter_init_def slots_def split: if_splits)
  then have "sat (\<lambda>_ s'. slots s' \<le> nat n) (\<lambda>s'. slots s' \<le> nat n) (adapter_run env is s)"
    using slots_kept_run by (auto simp: slots_kept_def)
  then show ?thesis by (rule sat_mono) (simp_all add: slots_def split: if_splits)
qed

theorem adapter_slots_bounded_witness:
  "at_semaphore (adapter_ran busy_run) + length (at_acquiring (adapter_ran busy_run)) \<le> 1 \<and> at_acquiring (adapter_ran busy_run) = [''slow'']"
proof -
  have init: "adapter_init 1 = Inr adapter_start" by (simp add: adapter_start_def adapter_init_def)
  have run: "adapter_run adapter_demo_env busy_run adapter_start = Ret () (adapter_ran busy_run)" by (rule busy_facts(1))
  show ?thesis using adapter_slots_bounded [OF init, of adapter_demo_env busy_run] busy_facts(2) by (simp add: run)
qed

text \<open>A task that arrives while all slots are taken goes straight to the execution service exactly
  when its priority is above that of every task that holds a slot; otherwise it waits in the queue under
  its priority. The semaphore is not touched either way.\<close>

theorem adapter_bypass_exact:
  assumes "get_task_priority task = Inr p" and "list_all (\<lambda>t. prio_of s t \<noteq> None) (at_acquiring s)"
    and "ae_execute_ok env task" and "\<And>b. length (ae_md5 env b) = 16"
  shows "\<exists>s'. at_on_task_new env task s = Ret () s' \<and>
    at_task_id_to_task s' = dict_set (taskId task) task (at_task_id_to_task s) \<and> at_semaphore s' = at_semaphore s \<and>
    (if at_locked s \<and> list_all (\<lambda>t. \<exists>q. prio_of s t = Some q \<and> q < p) (at_acquiring s)
     then at_task_id_to_future s' = dict_set (taskId task) FuturePending (at_task_id_to_future s) \<and>
       taskId task \<in> set (at_processing s') \<and> at_queue s' = at_queue s
     else at_queue s' = apq_put_nowait (- p, taskId task) (at_queue s) \<and> taskId task \<in> set (at_queued s') \<and>
       at_task_id_to_future s' = at_task_id_to_future s \<and> at_processing s' = at_processing s)"
  using on_task_new_run [OF assms(1) _ assms(3,4), of s] assms(2) by (simp add: list_all_iff)

theorem adapter_bypass_exact_witness:
  "\<exists>s'. at_on_task_new adapter_demo_env (prio_task ''quick'' urgent) (adapter_ran busy_run) = Ret () s' \<and>
    dict_get (at_task_id_to_future s') ''quick'' = Some FuturePending \<and> at_queue s' = at_queue (adapter_ran busy_run)"
proof -
  have md5: "\<And>b. length (ae_md5 adapter_demo_env b) = 16" by (simp add: adapter_demo_env_def)
  have id: "taskId (prio_task ''quick'' urgent) = ''quick''" by (simp add: prio_task_def)
  show ?thesis using adapter_bypass_exact [OF busy_facts(3-5) md5] busy_facts(6,7) by (auto simp: busy_facts(2) id)
qed


text \<open>C27: A worker manager stops units only after the scheduler has asked for fewer than are alive in every
  round of an unbroken stretch that is at least as long as the cooldown.\<close>

theorem scale_down_after_cooldown:
  assumes "coordinator_new m d = Inr co" and "0 < d" and "i < length rs" and "run_rounds rs co ! i = StopUnits k"
  shows "\<exists>j \<le> i. d \<le> fst (snd (rs ! i)) - fst (snd (rs ! j)) \<and> list_all (wants_fewer m) (drop j (take (Suc i) rs))"
proof -
  have "armed_by [] co" "\<not> co_stop co" "0 < cd_duration (co_cooldown co)" "co_max co = m" "cd_duration (co_cooldown co) = d"
    using assms(1,2) by (auto simp: coordinator_new_def cooldown_new_def armed_by_def)
  from stops_after_cooldown [OF this assms(3,4)]
  obtain r where r: "r \<in> set (takeWhile (wants_fewer m) (rev (take (Suc i) rs)))" "d \<le> fst (snd (rs ! i)) - fst (snd r)" by auto
  obtain j where "j < length (take (Suc i) rs)" "take (Suc i) rs ! j = r" "list_all (wants_fewer m) (drop j (take (Suc i) rs))"
    by (rule takeWhile_rev_index [OF r(1)])
  then show ?thesis using r(2) assms(3) by (intro exI [of _ j]) auto
qed

theorem scale_down_after_cooldown_witness:
  "coordinator_new 5 10 = Inr patient \<and> run_rounds shrinking_rounds patient = [NoCommand, NoCommand, StopUnits 1] \<and>
   (\<exists>j \<le> 2. 10 \<le> 12 - fst (snd (shrinking_rounds ! j)) \<and> list_all (wants_fewer 5) (drop j (take 3 shrinking_rounds)))"
  using scale_down_after_cooldown [OF patient_facts(1) _ _ patient_facts(2), simplified] patient_facts(1,3)
  by (simp add: shrinking_rounds_def numeral_3_eq_3)

section \<open>Clients\<close>







text \<open>C21: No future is forgotten: in every state the client reaches, every future is well formed, and the future manager holds
  exactly the futures that are not settled, besides some that were cancelled by force.\<close>

theorem unsettled_futures_managed:
  assumes "agent_reach s" and "dict_get (ca_futures s) t = Some f"
  shows "future_ok f \<and> (sf_state f = FS_RUNNING \<longleftrightarrow> t \<in> set (ca_managed s) \<and> \<not> sf_cancelled f)"
  using agent_reach_ok [OF assms(1)] assms(2) by (auto simp: futures_ok_def managed_ok_def sf_cancelled_def)

theorem unsettled_futures_managed_witness:
  "case dict_get (ca_futures waiting_client) ''t'' of Some f \<Rightarrow> future_ok f \<and> ''t'' \<in> set (ca_managed waiting_client) | None \<Rightarrow> False"
proof -
  have run: "case dict_get (ca_futures waiting_client) ''t'' of Some f \<Rightarrow> sf_state f = FS_RUNNING | None \<Rightarrow> False" by code_simp
  then show ?thesis
    using unsettled_futures_managed [OF waiting_client_reach, of "''t''"] by (cases "dict_get (ca_futures waiting_client) ''t''") auto
qed

text \<open>C22: A future settles once: no message, download, callback or end of the agent changes the state, the result object or the
  value of a future that has them, whether the step returns or raises; only a forced cancel does.\<close>

theorem settled_future_stays:
  assumes "agent_reach s" and "move_ok s m" and "\<And>x. m \<noteq> ForceCancel x"
    and "client_perform m s = Ret () s' \<or> client_perform m s = Raise e s'" and "dict_get (ca_futures s) t = Some f"
  shows "\<exists>f'. dict_get (ca_futures s') t = Some f' \<and> (sf_value f \<noteq> None \<longrightarrow> sf_value f' = sf_value f) \<and>
    (sf_done f \<longrightarrow> sf_state f' = sf_state f \<and> sf_result_object_id f' = sf_result_object_id f)"
  using settled_outcome_stays [OF assms] by (auto simp: future_step_def)

theorem settled_future_stays_witness:
  "case client_perform (Stop ClientQuit) (client_run [FromScheduler 1 (FS_TaskResult demo_task_result)] waiting_client) of
     Ret _ s' \<Rightarrow> (case dict_get (ca_futures s') ''t'' of Some f \<Rightarrow> sf_state f = FS_FINISHED \<and> sf_result_object_id f = Some demo_result_id | None \<Rightarrow> False)
   | _ \<Rightarrow> False"
proof -
  let ?s = "client_run [FromScheduler 1 (FS_TaskResult demo_task_result)] waiting_client"
  have reach: "agent_reach ?s" by (rule client_run_reach [OF waiting_client_reach]) code_simp
  have run: "case client_perform (Stop ClientQuit) ?s of Ret _ _ \<Rightarrow> True | _ \<Rightarrow> False" by code_simp
  then obtain s' where s': "client_perform (Stop ClientQuit) ?s = Ret () s'" by (cases "client_perform (Stop ClientQuit) ?s") auto
  have "case dict_get (ca_futures ?s) ''t'' of Some f \<Rightarrow> sf_state f = FS_FINISHED \<and> sf_result_object_id f = Some demo_result_id | None \<Rightarrow> False" by code_simp
  then obtain f where f: "dict_get (ca_futures ?s) ''t'' = Some f" "sf_state f = FS_FINISHED" "sf_result_object_id f = Some demo_result_id"
    by (cases "dict_get (ca_futures ?s) ''t''") auto
  have "sf_done f" using f(2) by (simp add: sf_done_def)
  then show ?thesis
    using settled_future_stays [OF reach _ _ disjI1 [OF s'] f(1)] s' f(2,3) by (auto simp del: client_perform.simps)
qed

text \<open>The result of a task reaches the caller: when the scheduler reports it for a future that is not settled and not delayed, the agent
  starts the download of exactly that object and forgets the task, and when the download ends the future has the object's value.\<close>

theorem client_result_received:
  assumes "agent_reach s" and "result_taskId r \<in> set (ca_task_ids s)"
    and "dict_get (ca_futures s) (result_taskId r) = Some f" and "sf_state f = FS_RUNNING" and "\<not> sf_is_delayed f \<or> 0 < sf_listeners f"
    and "resultType r \<noteq> TR_failedWorkerDied" and "result_objects r = [oid]" and "length oid = 32"
    and "result_metadata r = [] \<or> length (result_metadata r) = 16"
  shows "\<exists>s' f' q. client_perform (FromScheduler clock (FS_TaskResult r)) s = Ret () s' \<and> result_taskId r \<notin> set (ca_task_ids s') \<and>
    dict_get (ca_futures s') (result_taskId r) = Some f' \<and> sf_state f' = FS_FINISHED \<and> sf_result_object_future f' = Some q \<and> fetch_object_id q = oid \<and>
    (\<exists>s'' f''. client_perform (Fetched (result_taskId r) (Inr v)) s' = Ret () s'' \<and> dict_get (ca_futures s'') (result_taskId r) = Some f'' \<and>
       sf_value f'' = Some (if resultType r = TR_success then ResultValue v else ExceptionValue (RemoteException v)))"
proof -
  obtain s' f' where s': "client_perform (FromScheduler clock (FS_TaskResult r)) s = Ret () s'" "result_taskId r \<notin> set (ca_task_ids s')"
      "dict_get (ca_futures s') (result_taskId r) = Some f'" "sf_state f' = FS_FINISHED" "\<not> sf_result_received f'"
      "sf_result_object_future f' = Some \<lparr>fetch_object_id = oid, fetch_is_exception = (resultType r \<noteq> TR_success), fetch_delete_after = (sf_group_task_id f = None)\<rparr>"
    using client_result_ready [OF assms, of clock] by blast
  from fetched_value [OF s'(3-6), of v] show ?thesis using s'(1-4,6) by fastforce
qed

theorem client_result_received_witness:
  "\<exists>s' f'' s''. client_perform (FromScheduler 1 (FS_TaskResult demo_task_result)) waiting_client = Ret () s' \<and>
    client_perform (Fetched ''t'' (Inr ''42'')) s' = Ret () s'' \<and> dict_get (ca_futures s'') ''t'' = Some f'' \<and> sf_value f'' = Some (ResultValue ''42'')"
proof -
  have "case dict_get (ca_futures waiting_client) ''t'' of Some f \<Rightarrow> sf_state f = FS_RUNNING \<and> \<not> sf_is_delayed f | None \<Rightarrow> False" by code_simp
  then obtain f where f: "dict_get (ca_futures waiting_client) ''t'' = Some f" "sf_state f = FS_RUNNING" "\<not> sf_is_delayed f"
    by (cases "dict_get (ca_futures waiting_client) ''t''") auto
  have t: "''t'' \<in> set (ca_task_ids waiting_client)" by code_simp
  show ?thesis
    using client_result_received [OF waiting_client_reach, where r = demo_task_result and f = f and oid = demo_result_id and clock = 1 and v = "''42''"] t f
    by (auto simp del: client_perform.simps simp: demo_task_result_def demo_result_id_def)
qed




section \<open>Processors\<close>

text \<open>A call is computed: when a submission of a client returns and what it has uploaded is in the storage, a processor
  that gets its task, with whatever it has cached from earlier tasks and deletions, calls the function that was passed on the
  arguments that were passed, in order, stores the serialised value or the failure, announces it and sends one result that names it. The
  storage has to answer the downloads, and one of four attempts of each step of the hand-off has to succeed.\<close>

theorem client_call_runs:
  assumes "client_reach env val cs" "client_ok env val" "ce_serializer env \<notin> range val" "convert_kwargs_to_args ps args kwargs = Inr as"
      "live_together val (fn # arg_objects as)" "submit_verbose env fn name (Some ps) args kwargs caps reserialize cs = Ret task cs'"
      "\<not> bad_tag env cs'" "list_all2 (argument_bytes env cs') as bs"
    and "world_ok penv C ser content" "ce_identity env \<in> C" "pe_md5 penv = ce_md5 env"
    and "proc_reach penv C content s" "holds_uploads cs' s" "transport_ok penv (length as + 2) s"
  shows "\<exists>s'. on_received_task penv task s = Ret () s' \<and>
    answered_with penv task (ce_stream_output env) (result_of penv (evaluated penv (ser (ce_identity env)) (po_payload fn) bs)) s s'"
  by (rule call_computed [OF assms])

theorem client_call_runs_witness:
  "\<exists>s'. on_received_task proc_demo_env called_task processor_demo = Ret () s' \<and>
    answered_with proc_demo_env called_task False (TR_success, ''fx'') processor_demo s'"
proof -
  have conv: "convert_kwargs_to_args [param_a] [ArgObject arg_x] [] = Inr [ArgObject arg_x]" by code_simp
  have live: "live_together demo_value (fn_f # arg_objects [ArgObject arg_x])" using demo_live by simp
  have bs: "list_all2 (argument_bytes client_demo_env (buffer_after demo_submission)) [ArgObject arg_x] [''x'']" by (simp add: arg_x_def)
  have env: "ce_identity client_demo_env \<in> {''Client|a''}" "pe_md5 proc_demo_env = ce_md5 client_demo_env" "\<not> ce_stream_output client_demo_env"
    by (simp_all add: client_demo_env_def proc_demo_env_def)
  have tr: "transport_ok proc_demo_env (length [ArgObject arg_x] + 2) processor_demo" using proc_demo_transport by (simp add: numeral_3_eq_3)
  have f: "po_payload fn_f = ''f''" by (simp add: fn_f_def)
  show ?thesis
    using client_call_runs [OF client_started_reach client_demo_ok demo_serializer_apart conv live demo_submitted demo_tags_left bs
        proc_demo_world env(1,2) proc_demo_reach demo_holds tr] env(3)
    by (simp add: f proc_demo_value)
qed

text \<open>The cache of a processor is never stale or mixed up: in every state a processor reaches through tasks of several clients, deletions
  and changes of the storage, any task whose objects are stored gives the result of calling the stored function on the stored
  arguments, decoded with the serializer of its own client. The task is then no longer in flight, and all that was sent besides is
  what it printed, if its flags ask for that.\<close>

theorem processor_runs_task:
  assumes "proc_reach env C content s" and "world_ok env C ser content" and "task_ok env C task"
    and "retrieve_task_flags (task_metadata task) = Inr flags" and "dict_has (pr_storage s) (serializer_id env (task_source task))"
    and "dict_get (pr_storage s) (funcObjectId task) = Some pf"
    and "list_all2 (\<lambda>a p. dict_get (pr_storage s) (argument_data a) = Some p) (functionArgs task) ps"
    and "transport_ok env (length (functionArgs task) + 2) s"
  shows "\<exists>s'. on_received_task env task s = Ret () s' \<and>
    answered_with env task (flag_stream_output flags) (result_of env (evaluated env (ser (task_source task)) pf ps)) s s'"
  by (rule task_result_sent [OF assms])

theorem processor_runs_task_witness:
  "\<exists>s'. on_received_task proc_demo_env silent_task processor_demo = Ret () s' \<and>
    answered_with proc_demo_env silent_task False (TR_failed, ''failed'') processor_demo s'"
proof -
  have t: "task_source silent_task = ''Client|a''" "functionArgs silent_task = []" "task_metadata silent_task = []" by (simp_all add: silent_task_def)
  have tr: "transport_ok proc_demo_env (length (functionArgs silent_task) + 2) processor_demo" using proc_demo_transport by (auto simp: t transport_ok_def)
  have flags: "retrieve_task_flags (task_metadata silent_task) = Inr default_flags" by (simp add: t retrieve_task_flags_def)
  have stored: "dict_has (pr_storage processor_demo) (serializer_id proc_demo_env (task_source silent_task))"
    "dict_get (pr_storage processor_demo) (funcObjectId silent_task) = Some ''f''" by code_simp+
  have "list_all2 (\<lambda>a p. dict_get (pr_storage processor_demo) (argument_data a) = Some p) (functionArgs silent_task) []" by (simp add: t)
  from processor_runs_task [OF proc_demo_reach proc_demo_world silent_task_ok flags stored this tr] show ?thesis
    by (simp add: silent_value default_flags_def)
qed

text \<open>C20: A task is answered exactly once or not at all: whatever fails, a task that a processor finishes has led to exactly one
  result, which names a stored and announced object of its client, and a task that an exception cuts short has led to none and
  is still the current one, so that the exit reports it. A task waits for ever only for an object that is not in the storage.\<close>

theorem processor_answers_once:
  assumes "\<forall>b. length (pe_md5 env b) = 16"
  shows "case on_received_task env task s of
     Ret _ s' \<Rightarrow> task_answered env task (proc_results (pr_to_agent s)) s'
   | Raise _ s' \<Rightarrow> in_flight task (proc_results (pr_to_agent s)) s'
   | NoFuel \<Rightarrow> \<exists>oids. required_object_ids env task = Inr oids \<and> (\<exists>oid \<in> set oids. \<not> dict_has (pr_storage s) oid)"
  using task_answered_once assms by blast

theorem processor_answers_once_witness:
  "in_flight called_task [] (processor_after (on_received_task proc_demo_env called_task (processor_demo\<lparr>pr_interrupted := True\<rparr>)))"
proof -
  let ?r = "on_received_task proc_demo_env called_task (processor_demo\<lparr>pr_interrupted := True\<rparr>)"
  have "\<forall>b. length (pe_md5 proc_demo_env b) = 16" using proc_demo_world by (simp add: world_ok_def)
  note ok = processor_answers_once [OF this, of called_task "processor_demo\<lparr>pr_interrupted := True\<rparr>"]
  have "case ?r of Raise e _ \<Rightarrow> e = StorageError | _ \<Rightarrow> False" by code_simp
  moreover have "proc_results (pr_to_agent (processor_demo\<lparr>pr_interrupted := True\<rparr>)) = []" by code_simp
  ultimately show ?thesis using ok by (cases ?r) (simp_all add: processor_after_def)
qed

section \<open>Encodings\<close>

text \<open>An object identifier survives its way over the wire: the four 64-bit fields of every 32-byte
  identifier give that identifier back, every four fields come from one identifier, and bytes of
  another length are refused.\<close>

theorem object_id_roundtrip:
  "(if length oid = 32 then \<exists>c. to_capnp_object_id oid = Inr c \<and> from_capnp_object_id c = Inr oid
    else to_capnp_object_id oid = Inl StructError) \<and>
   (\<exists>oid. from_capnp_object_id c = Inr oid \<and> to_capnp_object_id oid = Inr c)"
  using object_id_there_and_back [of oid] object_id_back_and_there [of c] by (auto simp: to_capnp_object_id_def)

text \<open>The flags of a task survive their encoding: what the client packs, the worker reads back;
  packing fails exactly when the priority does not fit a signed 32-bit integer, and a task without
  metadata has the default flags.\<close>

theorem task_flags_roundtrip:
  "(case serialize_flags f of
      Inr data \<Rightarrow> retrieve_task_flags data = Inr f \<and> - (2 ^ 31) \<le> flag_priority f \<and> flag_priority f < 2 ^ 31
    | Inl e \<Rightarrow> e = StructError \<and> \<not> (- (2 ^ 31) \<le> flag_priority f \<and> flag_priority f < 2 ^ 31)) \<and>
   retrieve_task_flags [] = Inr default_flags"
  using flags_roundtrip [of f] by (auto simp: retrieve_task_flags_def serialize_flags_def pack_i_def split: sum.splits if_splits)

section \<open>The parts together\<close>

text \<open>C6: A task with a new identifier is taken in: the handler ends normally, the task belongs to the client that sent it, and it either waits in the
  queue or runs on a worker to which it has been sent.\<close>

theorem new_task_placed:
  assumes "reachable env strategy sc s" "task_state (core s) (taskId task) = None" "otm_owner (clients s) (taskId task) = None"
  shows "\<exists>s'. perform env (Receive now c (InTask task)) s = Ret () s' \<and> placed s' (taskId task) (admitted_task task) \<and>
    otm_owner (clients s') (taskId task) = Some (task_source task)"
  using new_task_taken [OF reachable_inv [OF assms(1)] assms(2) _ assms(3), of env now c] reachable_ledger [OF assms(1)] by (auto simp: ledger_def)

theorem new_task_placed_witness:
  "\<exists>s'. perform demo_env (Receive 1 ''Client|a'' (InTask called_task)) ready_sched = Ret () s' \<and> placed s' (taskId called_task) (admitted_task called_task) \<and>
    otm_owner (clients s') (taskId called_task) = Some (task_source called_task)"
  by (rule new_task_placed [OF ready_sched_reachable ready_sched_facts(1,2)])



end
